(* ===== verification/Edge_Prelude.thy ===== *)
theory Edge_Prelude
  imports Main "HOL-Library.AList"
begin

text \<open>
  Shared vocabulary of the development: Go's fixed-width integers as \<open>int\<close> with the wrap-around
  written out, \<open>time.Time\<close> and \<open>time.Duration\<close> in nanoseconds, decimal formatting and parsing of
  \<open>strconv\<close>/\<open>fmt\<close>, string helpers of package \<open>strings\<close>, and generic lemmas on lists and
  association lists (Go maps and directories) that several components use.
\<close>

named_theorems go_defs \<open>definitions of the Go standard-library operations used by the models\<close>

section \<open>Integers\<close>

text \<open>\<open>wrap64 x\<close> is the \<open>int64\<close> value congruent to \<open>x\<close> modulo \<open>2^64\<close>: what Go's \<open>+\<close>, \<open>-\<close> and
  \<open>*\<close> on \<open>int64\<close> (and \<open>int\<close>, \<open>time.Duration\<close> on 64-bit targets) leave.\<close>

definition wrap64 :: "int \<Rightarrow> int" where
  "wrap64 x = (x + 2 ^ 63) mod 2 ^ 64 - 2 ^ 63"

definition is_int64 :: "int \<Rightarrow> bool" where
  "is_int64 x \<longleftrightarrow> - (2 ^ 63) \<le> x \<and> x < 2 ^ 63"

text \<open>\<open>uint64\<close> counters are naturals below \<open>2^64\<close>.\<close>

definition wrap_u64 :: "nat \<Rightarrow> nat" where
  "wrap_u64 n = n mod 2 ^ 64"

lemma wrap64_id [simp]: "is_int64 x \<Longrightarrow> wrap64 x = x"
  by (simp add: wrap64_def is_int64_def)

lemma wrap64_0 [simp]: "wrap64 0 = 0"
  by (simp add: wrap64_def)

lemma wrap64_range: "is_int64 (wrap64 x)"
  by (simp add: wrap64_def is_int64_def)

lemma wrap64_nonneg_id: "0 \<le> x \<Longrightarrow> x < 2 ^ 63 \<Longrightarrow> wrap64 x = x"
  by (simp add: is_int64_def)

lemma wrap_u64_id [simp]: "n < 2 ^ 64 \<Longrightarrow> wrap_u64 n = n"
  by (simp add: wrap_u64_def)

lemma wrap_u64_lt: "wrap_u64 n < 2 ^ 64"
  by (simp add: wrap_u64_def)

section \<open>Time\<close>

type_synonym gotime = int
type_synonym duration = int

text \<open>Instants are nanoseconds since the Unix epoch; \<open>time.Time{}\<close> is year 1, January 1.\<close>

definition second :: duration where
  "second = 1000000000"

definition zero_time :: gotime where
  "zero_time = - 62135596800 * 1000000000"

text \<open>\<open>t.Sub(u)\<close> saturates at the extreme \<open>Duration\<close> values.\<close>

definition time_sub :: "gotime \<Rightarrow> gotime \<Rightarrow> duration" where
  "time_sub t u = max (- (2 ^ 63)) (min (2 ^ 63 - 1) (t - u))"

declare second_def [go_defs] zero_time_def [go_defs] time_sub_def [go_defs]

lemma time_sub_exact: "is_int64 (t - u) \<Longrightarrow> time_sub t u = t - u"
  by (simp add: time_sub_def is_int64_def)

lemma time_sub_ge_iff: "d < 2 ^ 63 \<Longrightarrow> - (2 ^ 63) < d \<Longrightarrow> time_sub t u \<ge> d \<longleftrightarrow> t - u \<ge> d"
  by (auto simp: time_sub_def)

section \<open>Strings\<close>

definition has_suffix :: "string \<Rightarrow> string \<Rightarrow> bool" where
  "has_suffix s suf \<longleftrightarrow>
     length suf \<le> length s \<and> drop (length s - length suf) s = suf"

definition trim_suffix :: "string \<Rightarrow> string \<Rightarrow> string" where
  "trim_suffix s suf = (if has_suffix s suf then take (length s - length suf) s else s)"

definition has_prefix :: "string \<Rightarrow> string \<Rightarrow> bool" where
  "has_prefix s p \<longleftrightarrow> take (length p) s = p"

lemma has_suffix_append [simp]: "has_suffix (s @ suf) suf"
  by (simp add: has_suffix_def)

lemma trim_suffix_append [simp]: "trim_suffix (s @ suf) suf = s"
  by (simp add: trim_suffix_def)

lemma has_suffix_iff: "has_suffix s suf \<longleftrightarrow> (\<exists>p. s = p @ suf)"
  by (metis append_take_drop_id has_suffix_append has_suffix_def)

lemma has_suffix_last: "has_suffix s suf \<Longrightarrow> suf \<noteq> [] \<Longrightarrow> last s = last suf"
  by (auto simp: has_suffix_iff)

text \<open>\<open>boundedError\<close> and its kin truncate a message to a byte budget.\<close>

definition bound_string :: "nat \<Rightarrow> string \<Rightarrow> string" where
  "bound_string n s = (if length s > n then take n s else s)"

lemma length_bound_string: "length (bound_string n s) \<le> n"
  by (simp add: bound_string_def)

section \<open>Decimal numbers\<close>

definition digit_char :: "nat \<Rightarrow> char" where
  "digit_char d = char_of (48 + d)"

definition is_digit :: "char \<Rightarrow> bool" where
  "is_digit c \<longleftrightarrow> 48 \<le> (of_char c :: nat) \<and> (of_char c :: nat) \<le> 57"

definition digit_val :: "char \<Rightarrow> nat" where
  "digit_val c = of_char c - 48"

fun dec_of_nat :: "nat \<Rightarrow> string" where
  "dec_of_nat n =
     (if n < 10 then [digit_char n] else dec_of_nat (n div 10) @ [digit_char (n mod 10)])"

declare dec_of_nat.simps [simp del]

text \<open>\<open>fmt.Sprintf("%0wd", n)\<close> for an unsigned \<open>n\<close>.\<close>

definition pad_dec :: "nat \<Rightarrow> nat \<Rightarrow> string" where
  "pad_dec w n = replicate (w - length (dec_of_nat n)) (CHR ''0'') @ dec_of_nat n"

definition dec_value :: "string \<Rightarrow> nat" where
  "dec_value s = foldl (\<lambda>a c. 10 * a + digit_val c) 0 s"

text \<open>\<open>strconv.ParseUint(s, 10, 64)\<close>: no sign, no underscore, at least one digit, in range.\<close>

definition parse_uint :: "string \<Rightarrow> nat option" where
  "parse_uint s =
     (if s = [] \<or> \<not> list_all is_digit s then None
      else if dec_value s < 2 ^ 64 then Some (dec_value s) else None)"

text \<open>\<open>strconv.Atoi\<close> on a 64-bit target: an optional sign, then digits, in \<open>int64\<close> range.\<close>

definition atoi :: "string \<Rightarrow> int option" where
  "atoi s =
     (let neg = (s \<noteq> [] \<and> hd s = CHR ''-'');
          body = (if s \<noteq> [] \<and> (hd s = CHR ''-'' \<or> hd s = CHR ''+'') then tl s else s);
          v = (if neg then - int (dec_value body) else int (dec_value body))
      in if body = [] \<or> \<not> list_all is_digit body then None
         else if is_int64 v then Some v else None)"

lemma digit_val_char [simp]: "d < 10 \<Longrightarrow> digit_val (digit_char d) = d"
  by (simp add: digit_val_def digit_char_def)

lemma is_digit_char [simp]: "d < 10 \<Longrightarrow> is_digit (digit_char d)"
  by (simp add: is_digit_def digit_char_def)

lemma zero_digit [simp]: "is_digit (CHR ''0'')" "digit_val (CHR ''0'') = 0"
  by (simp_all add: is_digit_def digit_val_def)

lemma dec_value_snoc [simp]: "dec_value (s @ [c]) = 10 * dec_value s + digit_val c"
  by (simp add: dec_value_def)

lemma dec_value_Nil [simp]: "dec_value [] = 0"
  by (simp add: dec_value_def)

lemma dec_value_zeros [simp]: "dec_value (replicate k (CHR ''0'') @ s) = dec_value s"
proof -
  have "foldl (\<lambda>a c. 10 * a + digit_val c) 0 (replicate k (CHR ''0'')) = 0"
    by (induction k) simp_all
  then show ?thesis by (simp add: dec_value_def)
qed

lemma dec_of_nat_digits: "list_all is_digit (dec_of_nat n)"
proof (induction n rule: dec_of_nat.induct)
  case (1 n)
  then show ?case by (subst dec_of_nat.simps) simp
qed

lemma dec_of_nat_value [simp]: "dec_value (dec_of_nat n) = n"
proof (induction n rule: dec_of_nat.induct)
  case (1 n)
  show ?case
  proof (cases "n < 10")
    case True
    then show ?thesis by (simp add: dec_of_nat.simps [of n] dec_value_def)
  next
    case False
    with "1.IH" show ?thesis by (subst dec_of_nat.simps) simp
  qed
qed

lemma dec_of_nat_nonempty [simp]: "dec_of_nat n \<noteq> []"
  by (subst dec_of_nat.simps) simp

lemma pad_dec_nonempty [simp]: "pad_dec w n \<noteq> []"
  by (simp add: pad_dec_def)

lemma pad_dec_value [simp]: "dec_value (pad_dec w n) = n"
  by (simp add: pad_dec_def)

lemma pad_dec_digits: "list_all is_digit (pad_dec w n)"
  using dec_of_nat_digits [of n] by (auto simp: pad_dec_def list_all_iff)

lemma pad_dec_inject [simp]: "pad_dec w m = pad_dec w n \<longleftrightarrow> m = n"
  by (metis pad_dec_value)

lemma parse_uint_pad_dec: "n < 2 ^ 64 \<Longrightarrow> parse_uint (pad_dec w n) = Some n"
  by (simp add: parse_uint_def pad_dec_digits)

section \<open>Association lists as Go maps and directories\<close>

text \<open>A Go map, and a directory of named files, is an association list with distinct keys; the
  library's \<open>AList.update\<close> and \<open>AList.delete\<close> are assignment and \<open>delete\<close>.\<close>

abbreviation wf_alist :: "('k \<times> 'v) list \<Rightarrow> bool" where
  "wf_alist m \<equiv> distinct (map fst m)"

lemma length_delete_present:
  "wf_alist m \<Longrightarrow> k \<in> fst ` set m \<Longrightarrow> Suc (length (AList.delete k m)) = length m"
proof (induction m)
  case Nil
  then show ?case by simp
next
  case (Cons p m)
  show ?case
  proof (cases "fst p = k")
    case True
    with Cons.prems have "k \<notin> fst ` set m" by auto
    with True show ?thesis by (cases p) simp
  next
    case False
    with Cons show ?thesis by (cases p) auto
  qed
qed

lemma wf_delete [simp]: "wf_alist m \<Longrightarrow> wf_alist (AList.delete k m)"
  by (rule distinct_delete)

lemma wf_update [simp]: "wf_alist m \<Longrightarrow> wf_alist (AList.update k v m)"
  by (rule distinct_update)

section \<open>Lists\<close>

text \<open>\<open>append(q[:i], q[i+1:]...)\<close>.\<close>

definition remove_nth :: "nat \<Rightarrow> 'a list \<Rightarrow> 'a list" where
  "remove_nth i xs = take i xs @ drop (Suc i) xs"

lemma set_remove_nth_subset: "set (remove_nth i xs) \<subseteq> set xs"
  by (auto simp: remove_nth_def dest: in_set_takeD in_set_dropD)

lemma length_remove_nth: "i < length xs \<Longrightarrow> Suc (length (remove_nth i xs)) = length xs"
  by (simp add: remove_nth_def)

lemma map_remove_nth: "map f (remove_nth i xs) = remove_nth i (map f xs)"
  by (simp add: remove_nth_def take_map drop_map)

lemma remove_nth_split:
  assumes "i < length xs"
  shows "\<exists>ys zs. xs = ys @ xs ! i # zs \<and> remove_nth i xs = ys @ zs"
  using id_take_nth_drop [OF assms] by (auto simp: remove_nth_def)

lemma distinct_remove_nth: "distinct xs \<Longrightarrow> distinct (remove_nth i xs)"
  by (simp add: remove_nth_def distinct_take distinct_drop set_take_disj_set_drop_if_distinct)

lemma sorted_wrt_remove_nth: "sorted_wrt P xs \<Longrightarrow> sorted_wrt P (remove_nth i xs)"
proof (cases "i < length xs")
  case True
  assume "sorted_wrt P xs"
  moreover from remove_nth_split [OF True] obtain ys zs
    where "xs = ys @ xs ! i # zs" "remove_nth i xs = ys @ zs" by blast
  ultimately show ?thesis by (metis sorted_wrt_append sorted_wrt.simps(2) list.set_intros(2))
qed (simp add: remove_nth_def)

lemma set_remove_nth_distinct:
  assumes "distinct xs" "i < length xs"
  shows "set (remove_nth i xs) = set xs - {xs ! i}"
proof -
  from remove_nth_split [OF assms(2)] obtain ys zs
    where split: "xs = ys @ xs ! i # zs" "remove_nth i xs = ys @ zs" by blast
  then have "distinct (ys @ xs ! i # zs)" using assms(1) by metis
  moreover have "set xs = set (ys @ xs ! i # zs)" using split(1) by metis
  ultimately show ?thesis using split(2) by auto
qed

text \<open>The index of the first element that satisfies a predicate (Go's \<open>for i, x := range\<close> with a
  \<open>break\<close>), \<open>None\<close> for the source's \<open>-1\<close>.\<close>

fun find_index :: "('a \<Rightarrow> bool) \<Rightarrow> 'a list \<Rightarrow> nat option" where
  "find_index P [] = None"
| "find_index P (x # xs) = (if P x then Some 0 else map_option Suc (find_index P xs))"

lemma find_index_SomeD:
  "find_index P xs = Some i \<Longrightarrow> i < length xs \<and> P (xs ! i) \<and> (\<forall>j<i. \<not> P (xs ! j))"
proof (induction xs arbitrary: i)
  case Nil
  then show ?case by simp
next
  case (Cons x xs)
  then show ?case
    by (cases i) (auto simp: nth_Cons split: if_splits nat.splits)
qed

lemma find_index_None_iff: "find_index P xs = None \<longleftrightarrow> (\<forall>x \<in> set xs. \<not> P x)"
  by (induction xs) auto

section \<open>Transition systems\<close>

text \<open>The contract every state machine of the development meets: an invariant that the initial states
  satisfy and every step keeps. Reachability and the induction over it are proved once.\<close>

locale machine =
  fixes init :: "'s \<Rightarrow> bool" and step :: "'s \<Rightarrow> 's \<Rightarrow> bool" and invar :: "'s \<Rightarrow> bool"
  assumes invar_init: "init s \<Longrightarrow> invar s"
    and invar_step: "invar s \<Longrightarrow> step s t \<Longrightarrow> invar t"
begin

lemma invar_steps: "step\<^sup>*\<^sup>* s t \<Longrightarrow> invar s \<Longrightarrow> invar t"
  by (induction rule: rtranclp_induct) (auto intro: invar_step)

lemma invar_reachable: "init s \<Longrightarrow> step\<^sup>*\<^sup>* s t \<Longrightarrow> invar t"
  by (blast intro: invar_init invar_steps)

end

end
