(* ===== verification/Transport.thy ===== *)
theory Transport
  imports Edge_Prelude
begin

text \<open>
  Package \<open>internal/transport\<close>: how an HTTP answer of the SaaS becomes one of the sentinel errors the
  retry policies of the Edge dispatch on (\<open>client.go\<close>), the \<open>Retry-After\<close> parser, and the local
  event sender (\<open>local_events.go\<close>). The HTTP exchange itself (\<open>net/http\<close>) is a parameter: its
  outcome is a transport failure or a status with its headers.
\<close>

section \<open>Error classes\<close>

text \<open>The sentinels of \<open>client.go\<close>; a \<open>RateLimitError\<close> carries its cooldown. Every error the client
  returns wraps exactly one of them, or none (\<open>PlainError\<close>).\<close>

datatype eclass =
    ErrInvalidRequest
  | ErrUnauthorized
  | ErrSaaSUnavailable
  | ErrTimeout
  | ErrRetryableStatus
  | ErrUnexpectedStatus
  | RateLimitError duration
  | ErrCameraInactive
  | PlainError

text \<open>\<open>errors.Is(err, ErrRateLimited)\<close> and \<open>errors.Is(err, ErrRetryableStatus)\<close>, with
  \<open>RateLimitError.Is\<close> answering for both.\<close>

fun is_rate_limited :: "eclass \<Rightarrow> bool" where
  "is_rate_limited (RateLimitError d) = True"
| "is_rate_limited _ = False"

fun is_retryable_status_err :: "eclass \<Rightarrow> bool" where
  "is_retryable_status_err (RateLimitError d) = True"
| "is_retryable_status_err ErrRetryableStatus = True"
| "is_retryable_status_err _ = False"

section \<open>Headers and status classification\<close>

text \<open>\<open>http.Header\<close> by its \<open>Get\<close>: the empty string for an absent key; \<open>None\<close> is a nil header.\<close>

type_synonym header = "(string \<Rightarrow> string) option"

definition parseRetryAfter :: "header \<Rightarrow> duration" where
  "parseRetryAfter h =
     (case h of None \<Rightarrow> 0
      | Some get \<Rightarrow>
          (let raw = get ''Retry-After'' in
           if raw = '''' then 0
           else case atoi raw of
                  None \<Rightarrow> 0
                | Some secs \<Rightarrow> if secs \<le> 0 then 0 else wrap64 (secs * second)))"

definition isRetryableStatus :: "int \<Rightarrow> bool" where
  "isRetryableStatus status \<longleftrightarrow> status = 408 \<or> (status \<ge> 500 \<and> status \<le> 599)"

definition classifyFrameStatusWithHeader :: "int \<Rightarrow> header \<Rightarrow> eclass option" where
  "classifyFrameStatusWithHeader status h =
     (if status = 423 \<or> (case h of None \<Rightarrow> False | Some get \<Rightarrow> get ''X-Camera-Status'' = ''inactive'')
      then Some ErrCameraInactive
      else if status = 202 \<or> status = 200 then None
      else if status = 401 \<or> status = 403 then Some ErrUnauthorized
      else if status = 429 then Some (RateLimitError (parseRetryAfter h))
      else if isRetryableStatus status then Some ErrRetryableStatus
      else if status \<ge> 400 then Some ErrInvalidRequest
      else Some ErrUnexpectedStatus)"

definition classifyFrameStatus :: "int \<Rightarrow> eclass option" where
  "classifyFrameStatus status = classifyFrameStatusWithHeader status None"

definition classifyLocalEventStatus :: "int \<Rightarrow> header \<Rightarrow> eclass option" where
  "classifyLocalEventStatus status h =
     (if status = 201 \<or> status = 200 then None else classifyFrameStatusWithHeader status h)"

text \<open>The outcome of \<open>c.httpClient.Do\<close>: a transport failure, already classified as the client
  classifies it, or a response.\<close>

datatype http_result = DoErr eclass | DoResp int header

definition PostLocalEvent :: "http_result \<Rightarrow> eclass option" where
  "PostLocalEvent r = (case r of DoErr e \<Rightarrow> Some e | DoResp status h \<Rightarrow> classifyLocalEventStatus status h)"

definition PutLocalEventEvidence :: "string \<Rightarrow> http_result \<Rightarrow> eclass option" where
  "PutLocalEventEvidence kind r =
     (if kind \<noteq> ''capture'' \<and> kind \<noteq> ''clip'' then Some ErrInvalidRequest
      else case r of DoErr e \<Rightarrow> Some e | DoResp status h \<Rightarrow> classifyLocalEventStatus status h)"

section \<open>Lemmas\<close>

text \<open>The two verdicts on which the backlog gives a record up.\<close>

definition permanent :: "eclass \<Rightarrow> bool" where
  "permanent e \<longleftrightarrow> e = ErrInvalidRequest \<or> e = ErrUnexpectedStatus"

lemma parseRetryAfter_int64: "is_int64 (parseRetryAfter h)"
proof (cases "parseRetryAfter h = 0")
  case True
  then show ?thesis by (simp add: is_int64_def)
next
  case False
  then obtain x where "parseRetryAfter h = wrap64 x"
    by (auto simp: parseRetryAfter_def Let_def split: option.splits if_splits)
  then show ?thesis by (simp add: wrap64_range)
qed

lemma classify_permanent_iff:
  "(\<exists>e. classifyFrameStatusWithHeader status None = Some e \<and> permanent e) \<longleftrightarrow>
     status \<notin> {200, 202, 401, 403, 408, 423, 429} \<and> \<not> (500 \<le> status \<and> status \<le> 599)"
  by (auto simp: classifyFrameStatusWithHeader_def isRetryableStatus_def permanent_def)

section \<open>Properties\<close>

text \<open>The status classifier without headers is exactly the table of its documentation: success
  on 200 and 202, the inactive verdict on 423 only, a rejected credential on 401 and 403, a rate
  limit on 429, a retry on 408 and 5xx, and a permanent verdict (the only one on which the backlog
  quarantines a record) on precisely the remaining statuses.\<close>

theorem classify_status_table:
  "(classifyFrameStatus status = None \<longleftrightarrow> status \<in> {200, 202}) \<and>
   (classifyFrameStatus status = Some ErrCameraInactive \<longleftrightarrow> status = 423) \<and>
   (classifyFrameStatus status = Some ErrUnauthorized \<longleftrightarrow> status \<in> {401, 403}) \<and>
   ((\<exists>d. classifyFrameStatus status = Some (RateLimitError d)) \<longleftrightarrow> status = 429) \<and>
   (classifyFrameStatus status = Some ErrRetryableStatus \<longleftrightarrow> status = 408 \<or> status \<in> {500..599}) \<and>
   ((\<exists>e. classifyFrameStatus status = Some e \<and> permanent e) \<longleftrightarrow>
      status \<notin> {200, 202, 401, 403, 408, 423, 429} \<and> status \<notin> {500..599})"
  using classify_permanent_iff [of status]
  by (auto simp: classifyFrameStatus_def classifyFrameStatusWithHeader_def isRetryableStatus_def)

end
