(* ===== verification/Backlog_Model.thy ===== *)
theory Backlog_Model
  imports Complex_Main Transport "HOL-Library.List_Lexorder" "HOL-Library.Char_ord"
begin

text \<open>
  Package \<open>internal/edgebacklog\<close>: the durable FIFO of local events (\<open>backlog.go\<close>). This theory holds
  the data and every operation; \<open>Backlog\<close> holds the invariants and the properties.

  The disk is an association list from (directory, file name) to contents. Every file system call
  of the source consults a fault oracle \<open>nat \<Rightarrow> fault option\<close>, read at a counter that each call
  advances, so that any sequence of successes and failures is a possible run. \<open>encoding/json\<close> is
  modelled by what the source uses of it: a marshalled record decodes to that record, except that
  a \<open>BBox\<close> (a Go \<open>any\<close>) comes back with the dynamic type JSON objects decode to, and a record with
  a float that JSON cannot express does not marshal. \<open>ProcessOne\<close> gives up its mutex while it
  sends: its two critical sections are two operations here, and other operations may run between
  them. \<open>time.Now()\<close> is an argument, one instant per critical section.
\<close>

section \<open>Data\<close>

datatype f64 = Fin rat | PosInf | NegInf | NaN

definition feq :: "f64 \<Rightarrow> f64 \<Rightarrow> bool" where
  "feq x y \<longleftrightarrow> x \<noteq> NaN \<and> x = y"

text \<open>The dynamic values a \<open>BBox\<close> takes: nil, the producer's \<open>map[string]float64\<close>, and the
  \<open>map[string]interface{}\<close> that JSON decoding yields.\<close>

datatype go_any = AnyNil | MapFloat "(string \<times> f64) list" | MapAny "(string \<times> f64) list"

definition float_map_eq :: "(string \<times> f64) list \<Rightarrow> (string \<times> f64) list \<Rightarrow> bool" where
  "float_map_eq m n \<longleftrightarrow>
     length m = length n \<and>
     list_all (\<lambda>(k, v). case map_of n k of None \<Rightarrow> False | Some w \<Rightarrow> feq v w) m"

text \<open>\<open>reflect.DeepEqual\<close>: values of different dynamic types are never deeply equal.\<close>

fun deep_equal :: "go_any \<Rightarrow> go_any \<Rightarrow> bool" where
  "deep_equal AnyNil AnyNil = True"
| "deep_equal (MapFloat m) (MapFloat n) = float_map_eq m n"
| "deep_equal (MapAny m) (MapAny n) = float_map_eq m n"
| "deep_equal _ _ = False"

record local_event =
  event_uuid :: string
  candidate_key :: string
  ev_class :: string
  confidence :: f64
  bbox :: go_any
  ev_timestamp :: string
  correlation_id :: string

record evidence =
  path_ev :: string
  sha256 :: string
  size_ev :: int
  duration_ms :: int

record submission =
  event :: local_event
  capture :: "evidence option"
  clip :: "evidence option"

record config =
  max_operations :: int
  max_bytes :: int
  retry_base :: duration
  retry_max :: duration
  inactive_retention :: duration

record rec =
  sequence :: nat
  created_at :: gotime
  stage :: string
  subm :: submission
  attempts :: int
  next_attempt :: gotime
  inactive_since :: "gotime option"

record inactive_state =
  since :: gotime
  probe_at :: gotime

datatype content = RecordFile rec | InactiveFile "(string \<times> inactive_state) list" | Garbage | SubDir

datatype dirname = RootDir | PendingDir | QuarantineDir

type_synonym fpath = "dirname \<times> string"
type_synonym disk = "(fpath \<times> content) list"

section \<open>File system errors\<close>

datatype errno = ENOSPC | EDQUOT | ENOENT | EOTHER

datatype goerr = SysErr errno string | DiskFullError goerr | Wrapped string goerr | EncodeErr string

fun error_text :: "goerr \<Rightarrow> string" where
  "error_text (SysErr n m) = m"
| "error_text (DiskFullError e) = error_text e"
| "error_text (Wrapped p e) = p @ error_text e"
| "error_text (EncodeErr m) = m"

fun errno_of :: "goerr \<Rightarrow> errno option" where
  "errno_of (SysErr n m) = Some n"
| "errno_of (DiskFullError e) = errno_of e"
| "errno_of (Wrapped p e) = errno_of e"
| "errno_of (EncodeErr m) = None"

fun is_errdiskfull :: "goerr \<Rightarrow> bool" where
  "is_errdiskfull (SysErr n m) = False"
| "is_errdiskfull (DiskFullError e) = True"
| "is_errdiskfull (Wrapped p e) = is_errdiskfull e"
| "is_errdiskfull (EncodeErr m) = False"

definition isNoSpaceErrno :: "goerr \<Rightarrow> bool" where
  "isNoSpaceErrno e \<longleftrightarrow> errno_of e = Some ENOSPC \<or> errno_of e = Some EDQUOT"

definition IsDiskFull :: "goerr \<Rightarrow> bool" where
  "IsDiskFull e \<longleftrightarrow> is_errdiskfull e \<or> isNoSpaceErrno e"

definition WrapDiskError :: "goerr \<Rightarrow> goerr" where
  "WrapDiskError e = (if is_errdiskfull e \<or> \<not> isNoSpaceErrno e then e else DiskFullError e)"

definition isNotExist :: "goerr \<Rightarrow> bool" where
  "isNotExist e \<longleftrightarrow> errno_of e = Some ENOENT"

section \<open>The backlog state\<close>

record fault =
  f_errno :: errno
  f_msg :: string
  f_partial :: bool

type_synonym faults = "nat \<Rightarrow> fault option"

record backlog =
  cfg :: config
  queue :: "rec list"
  counter :: nat
  last_success :: "gotime option"
  last_error :: string
  degraded :: bool
  quarantined :: int
  drops :: nat
  inactive_candidates :: "(string \<times> gotime) list"
  inactive_drops :: nat
  inactive_expired :: nat
  inactive_probe_at :: "(string \<times> gotime) list"
  persist_errors :: nat
  disk_full :: bool
  quarantine_evicted :: nat
  recovered_ops :: nat
  quarantine_seqs :: "nat list"
  has_callbacks :: bool
  synced_log :: "string list"
  quarantined_log :: "(string \<times> string) list"
  disk :: disk
  tick :: nat

definition maxErrorBytes :: nat where
  "maxErrorBytes = 255"

definition DefaultInactiveRetention :: duration where
  "DefaultInactiveRetention = 7 * 24 * 3600 * second"

definition maxInactiveCameras :: nat where
  "maxInactiveCameras = 256"

definition boundedError :: "goerr \<Rightarrow> string" where
  "boundedError e = bound_string maxErrorBytes (error_text e)"

definition SetSyncCallbacks :: "backlog \<Rightarrow> backlog" where
  "SetSyncCallbacks b = b\<lparr>has_callbacks := True\<rparr>"

section \<open>File system calls\<close>

definition no_faults :: faults where
  "no_faults = (\<lambda>n. None)"

definition fault_err :: "fault \<Rightarrow> goerr" where
  "fault_err f = SysErr (f_errno f) (f_msg f)"

definition step_fs :: "backlog \<Rightarrow> backlog" where
  "step_fs b = b\<lparr>tick := Suc (tick b)\<rparr>"

text \<open>\<open>writeFileSynced\<close>: a failed write may leave a truncated file behind.\<close>

definition fs_write :: "faults \<Rightarrow> fpath \<Rightarrow> content \<Rightarrow> backlog \<Rightarrow> goerr option \<times> backlog" where
  "fs_write F p c b =
     (case F (tick b) of
        None \<Rightarrow> (None, step_fs b\<lparr>disk := AList.update p c (disk b)\<rparr>)
      | Some f \<Rightarrow>
          (Some (fault_err f),
           step_fs b\<lparr>disk := (if f_partial f then AList.update p Garbage (disk b) else disk b)\<rparr>))"

definition fs_rename :: "faults \<Rightarrow> fpath \<Rightarrow> fpath \<Rightarrow> backlog \<Rightarrow> goerr option \<times> backlog" where
  "fs_rename F src dst b =
     (case F (tick b) of
        Some f \<Rightarrow> (Some (fault_err f), step_fs b)
      | None \<Rightarrow>
          (case map_of (disk b) src of
             None \<Rightarrow> (Some (SysErr ENOENT ''no such file or directory''), step_fs b)
           | Some c \<Rightarrow>
               (None, step_fs b\<lparr>disk := AList.update dst c (AList.delete src (disk b))\<rparr>)))"

definition fs_remove :: "faults \<Rightarrow> fpath \<Rightarrow> backlog \<Rightarrow> goerr option \<times> backlog" where
  "fs_remove F p b =
     (case F (tick b) of
        Some f \<Rightarrow> (Some (fault_err f), step_fs b)
      | None \<Rightarrow>
          (case map_of (disk b) p of
             None \<Rightarrow> (Some (SysErr ENOENT ''no such file or directory''), step_fs b)
           | Some c \<Rightarrow> (None, step_fs b\<lparr>disk := AList.delete p (disk b)\<rparr>)))"

text \<open>\<open>syncDirFS\<close>.\<close>

definition fs_sync_dir :: "faults \<Rightarrow> backlog \<Rightarrow> goerr option \<times> backlog" where
  "fs_sync_dir F b = (map_option fault_err (F (tick b)), step_fs b)"

text \<open>\<open>os.ReadDir\<close>: the entries of a directory by name.\<close>

definition read_dir :: "dirname \<Rightarrow> disk \<Rightarrow> (string \<times> content) list" where
  "read_dir d dk =
     sort_key fst
       (map (\<lambda>((e, n), c). (n, c)) (filter (\<lambda>((e, n), c). e = d) (AList.clearjunk dk)))"

section \<open>Sizes, stages, retry delays\<close>

definition submissionBytes :: "submission \<Rightarrow> int" where
  "submissionBytes s =
     (let n = (case capture s of None \<Rightarrow> 0 | Some e \<Rightarrow> wrap64 (0 + size_ev e))
      in case clip s of None \<Rightarrow> n | Some e \<Rightarrow> wrap64 (n + size_ev e))"

definition pendingBytes :: "rec list \<Rightarrow> int" where
  "pendingBytes q = foldl (\<lambda>n r. wrap64 (n + submissionBytes (subm r))) 0 q"

definition nextStage :: "submission \<Rightarrow> string \<Rightarrow> string" where
  "nextStage s preferred =
     (if preferred = ''capture'' \<and> capture s \<noteq> None then ''capture''
      else if clip s \<noteq> None then ''clip'' else ''complete'')"

text \<open>The loop of \<open>backoff\<close>: \<open>for i := 1; i < attempt && d < RetryMax; i++ { d *= 2 }\<close>.\<close>

function backoff_loop :: "config \<Rightarrow> int \<Rightarrow> int \<Rightarrow> duration \<Rightarrow> duration" where
  "backoff_loop c attempt i d =
     (if i < attempt \<and> d < retry_max c then backoff_loop c attempt (i + 1) (wrap64 (d * 2)) else d)"
  by pat_completeness auto
termination
  by (relation "measure (\<lambda>(c, attempt, i, d). nat (attempt - i))") auto

declare backoff_loop.simps [simp del]

definition backoff :: "config \<Rightarrow> int \<Rightarrow> duration" where
  "backoff c attempt =
     (let d = backoff_loop c attempt 1 (retry_base c) in if d > retry_max c then retry_max c else d)"

definition evidenceEquivalent :: "evidence option \<Rightarrow> evidence option \<Rightarrow> bool" where
  "evidenceEquivalent a b =
     (case (a, b) of
        (None, None) \<Rightarrow> True
      | (Some x, Some y) \<Rightarrow>
          sha256 x = sha256 y \<and> size_ev x = size_ev y \<and> duration_ms x = duration_ms y
      | _ \<Rightarrow> False)"

definition submissionsEquivalent :: "submission \<Rightarrow> submission \<Rightarrow> bool" where
  "submissionsEquivalent a b \<longleftrightarrow>
     event_uuid (event a) = event_uuid (event b) \<and>
     candidate_key (event a) = candidate_key (event b) \<and>
     ev_class (event a) = ev_class (event b) \<and>
     feq (confidence (event a)) (confidence (event b)) \<and>
     ev_timestamp (event a) = ev_timestamp (event b) \<and>
     correlation_id (event a) = correlation_id (event b) \<and>
     deep_equal (bbox (event a)) (bbox (event b)) \<and>
     evidenceEquivalent (capture a) (capture b) \<and> evidenceEquivalent (clip a) (clip b)"

section \<open>JSON\<close>

definition is_fin :: "f64 \<Rightarrow> bool" where
  "is_fin x = (case x of Fin q \<Rightarrow> True | _ \<Rightarrow> False)"

fun any_finite :: "go_any \<Rightarrow> bool" where
  "any_finite AnyNil = True"
| "any_finite (MapFloat m) = list_all (\<lambda>(k, v). is_fin v) m"
| "any_finite (MapAny m) = list_all (\<lambda>(k, v). is_fin v) m"

fun json_any :: "go_any \<Rightarrow> go_any" where
  "json_any AnyNil = AnyNil"
| "json_any (MapFloat m) = MapAny m"
| "json_any (MapAny m) = MapAny m"

definition json_submission :: "submission \<Rightarrow> submission" where
  "json_submission s = s\<lparr>event := (event s)\<lparr>bbox := json_any (bbox (event s))\<rparr>\<rparr>"

definition json_record :: "rec \<Rightarrow> rec" where
  "json_record r = r\<lparr>subm := json_submission (subm r)\<rparr>"

definition marshal :: "rec \<Rightarrow> content option" where
  "marshal r =
     (if is_fin (confidence (event (subm r))) \<and> any_finite (bbox (event (subm r)))
      then Some (RecordFile (json_record r)) else None)"

section \<open>Persistence\<close>

definition seq_name :: "nat \<Rightarrow> string" where
  "seq_name n = pad_dec 20 n @ ''.json''"

definition rec_path :: "rec \<Rightarrow> fpath" where
  "rec_path r = (PendingDir, seq_name (sequence r))"

definition tmp_path :: "fpath \<Rightarrow> fpath" where
  "tmp_path p = (fst p, snd p @ ''.tmp'')"

definition sequenceFromName :: "string \<Rightarrow> nat option" where
  "sequenceFromName name = parse_uint (trim_suffix name ''.json'')"

definition writeLocked :: "faults \<Rightarrow> rec \<Rightarrow> backlog \<Rightarrow> goerr option \<times> backlog" where
  "writeLocked F r b =
     (case marshal r of
        None \<Rightarrow> (Some (EncodeErr ''json: unsupported value''), b)
      | Some data \<Rightarrow>
          (let tmp = tmp_path (rec_path r) in
           case fs_write F tmp data b of
             (Some e, b1) \<Rightarrow> (Some (WrapDiskError e), snd (fs_remove F tmp b1))
           | (None, b1) \<Rightarrow>
               (case fs_rename F tmp (rec_path r) b1 of
                  (Some e, b2) \<Rightarrow> (Some (WrapDiskError e), snd (fs_remove F tmp b2))
                | (None, b2) \<Rightarrow> (None, b2))))"

definition recordPersistFailureLocked :: "goerr \<Rightarrow> backlog \<Rightarrow> backlog" where
  "recordPersistFailureLocked e b =
     b\<lparr>persist_errors := Suc (persist_errors b), disk_full := IsDiskFull e,
       last_error := boundedError e\<rparr>"

definition persistLocked :: "faults \<Rightarrow> rec \<Rightarrow> backlog \<Rightarrow> backlog" where
  "persistLocked F r b =
     (case writeLocked F r b of
        (Some e, b1) \<Rightarrow> recordPersistFailureLocked e b1
      | (None, b1) \<Rightarrow> b1\<lparr>disk_full := False\<rparr>)"

definition removeAtLocked :: "faults \<Rightarrow> nat \<Rightarrow> rec \<Rightarrow> backlog \<Rightarrow> backlog" where
  "removeAtLocked F idx r b =
     (let b1 = (case fs_remove F (rec_path r) b of
                  (Some e, b') \<Rightarrow>
                    if isNotExist e then b' else recordPersistFailureLocked (WrapDiskError e) b'
                | (None, b') \<Rightarrow> b')
      in if idx < length (queue b1) then b1\<lparr>queue := remove_nth idx (queue b1)\<rparr> else b1)"

definition notifySynced :: "rec \<Rightarrow> backlog \<Rightarrow> backlog" where
  "notifySynced r b =
     (if has_callbacks b then b\<lparr>synced_log := synced_log b @ [event_uuid (event (subm r))]\<rparr> else b)"

definition notifyQuarantined :: "rec \<Rightarrow> string \<Rightarrow> backlog \<Rightarrow> backlog" where
  "notifyQuarantined r reason b =
     (if has_callbacks b
      then b\<lparr>quarantined_log := quarantined_log b @ [(event_uuid (event (subm r)), reason)]\<rparr> else b)"

text \<open>\<open>enforceQuarantineBoundLocked\<close>: oldest sequence first; a failed delete stops the loop and keeps
  the bookkeeping entry.\<close>

function enforceQuarantineBoundLocked :: "faults \<Rightarrow> backlog \<Rightarrow> goerr option \<times> backlog" where
  "enforceQuarantineBoundLocked F b =
     (if int (length (quarantine_seqs b)) > max_operations (cfg b) \<and> quarantine_seqs b \<noteq> []
      then (let s = hd (quarantine_seqs b) in
            case fs_remove F (QuarantineDir, seq_name s) b of
              (Some e, b1) \<Rightarrow>
                if \<not> isNotExist e
                then (Some (WrapDiskError e), recordPersistFailureLocked (WrapDiskError e) b1)
                else enforceQuarantineBoundLocked F
                       (b1\<lparr>quarantine_seqs := tl (quarantine_seqs b),
                           quarantined := int (length (tl (quarantine_seqs b))),
                           quarantine_evicted := Suc (quarantine_evicted b1)\<rparr>)
            | (None, b1) \<Rightarrow> enforceQuarantineBoundLocked F
                       (b1\<lparr>quarantine_seqs := tl (quarantine_seqs b),
                           quarantined := int (length (tl (quarantine_seqs b))),
                           quarantine_evicted := Suc (quarantine_evicted b1)\<rparr>))
      else (None, b))"
  by pat_completeness auto
termination
  by (relation "measure (\<lambda>(F, b). length (quarantine_seqs b))") auto

declare enforceQuarantineBoundLocked.simps [simp del]

definition drop_from_queue :: "nat \<Rightarrow> backlog \<Rightarrow> backlog" where
  "drop_from_queue idx b =
     (if idx < length (queue b) then b\<lparr>queue := remove_nth idx (queue b)\<rparr> else b)"

definition quarantineAtLocked :: "faults \<Rightarrow> nat \<Rightarrow> rec \<Rightarrow> backlog \<Rightarrow> backlog" where
  "quarantineAtLocked F idx r b =
     (case fs_rename F (rec_path r) (QuarantineDir, seq_name (sequence r)) b of
        (Some e, b1) \<Rightarrow>
          (let b2 = (case fs_remove F (rec_path r) b1 of
                       (Some re, b') \<Rightarrow>
                         if \<not> isNotExist re then recordPersistFailureLocked (WrapDiskError re) b'
                         else recordPersistFailureLocked
                                (Wrapped ''edgebacklog: quarantine move failed: '' e) b'
                     | (None, b') \<Rightarrow>
                         recordPersistFailureLocked
                           (Wrapped ''edgebacklog: quarantine move failed: '' e) b')
           in drop_from_queue idx b2)
      | (None, b1) \<Rightarrow>
          (let b2 = drop_from_queue idx b1;
               qs = sort (quarantine_seqs b2 @ [sequence r])
           in snd (enforceQuarantineBoundLocked F
                     (b2\<lparr>quarantine_seqs := qs, quarantined := int (length qs)\<rparr>))))"

section \<open>Inactive cameras\<close>

text \<open>One pass of \<open>capInactiveLocked\<close> over the map: the oldest mark, ties broken by key.\<close>

fun oldest_mark :: "string \<times> gotime \<Rightarrow> (string \<times> gotime) list \<Rightarrow> string \<times> gotime" where
  "oldest_mark acc [] = acc"
| "oldest_mark (ok, ot) ((k, t) # m) =
     (if ok = '''' \<or> t < ot \<or> (t = ot \<and> k < ok) then oldest_mark (k, t) m else oldest_mark (ok, ot) m)"

lemma oldest_mark_in:
  "oldest_mark acc m = acc \<or> oldest_mark acc m \<in> set m"
  by (induction acc m rule: oldest_mark.induct) auto

lemma oldest_mark_start_in:
  assumes "m \<noteq> []"
  shows "oldest_mark ('''', z) m \<in> set m"
proof -
  from assms obtain k t m' where m: "m = (k, t) # m'" by (metis list.exhaust surj_pair)
  then have "oldest_mark ('''', z) m = oldest_mark (k, t) m'" by simp
  then show ?thesis using oldest_mark_in [of "(k, t)" m'] m by auto
qed

lemma length_delete_oldest:
  assumes "m \<noteq> []"
  shows "length (AList.delete (fst (oldest_mark ('''', z) m)) m) < length m"
proof -
  have "\<not> (case oldest_mark ('''', z) m of (k', v) \<Rightarrow> fst (oldest_mark ('''', z) m) \<noteq> k')"
    by (simp add: split_beta)
  with oldest_mark_start_in [OF assms, of z] show ?thesis
    unfolding AList.delete_eq by (rule length_filter_less)
qed

function cap_loop ::
  "(string \<times> gotime) list \<Rightarrow> (string \<times> gotime) list \<Rightarrow> (string \<times> gotime) list \<times> (string \<times> gotime) list"
where
  "cap_loop cands probes =
     (if length cands > maxInactiveCameras
      then (let ok = fst (oldest_mark ('''', zero_time) cands)
            in cap_loop (AList.delete ok cands) (AList.delete ok probes))
      else (cands, probes))"
  by pat_completeness auto
termination
proof (relation "measure (\<lambda>(cands, probes). length cands)", goal_cases)
  case 1
  then show ?case by simp
next
  case (2 cands probes ok)
  then have "cands \<noteq> []" by (auto simp: maxInactiveCameras_def)
  with 2 show ?case using length_delete_oldest by simp
qed

declare cap_loop.simps [simp del]

definition capInactiveLocked :: "backlog \<Rightarrow> backlog" where
  "capInactiveLocked b =
     (let (c, p) = cap_loop (inactive_candidates b) (inactive_probe_at b)
      in b\<lparr>inactive_candidates := c, inactive_probe_at := p\<rparr>)"

definition inactive_path :: fpath where
  "inactive_path = (RootDir, ''inactive.json'')"

definition replaceFileDurable :: "faults \<Rightarrow> fpath \<Rightarrow> content \<Rightarrow> backlog \<Rightarrow> goerr option \<times> backlog" where
  "replaceFileDurable F p data b =
     (case fs_write F (tmp_path p) data b of
        (Some e, b1) \<Rightarrow> (Some e, snd (fs_remove F (tmp_path p) b1))
      | (None, b1) \<Rightarrow>
          (case fs_rename F (tmp_path p) p b1 of
             (Some e, b2) \<Rightarrow> (Some e, snd (fs_remove F (tmp_path p) b2))
           | (None, b2) \<Rightarrow> fs_sync_dir F b2))"

definition removeFileDurable :: "faults \<Rightarrow> fpath \<Rightarrow> backlog \<Rightarrow> goerr option \<times> backlog" where
  "removeFileDurable F p b =
     (case fs_remove F p b of
        (Some e, b1) \<Rightarrow> (if isNotExist e then None else Some e, b1)
      | (None, b1) \<Rightarrow> fs_sync_dir F b1)"

definition go_lookup_time :: "(string \<times> gotime) list \<Rightarrow> string \<Rightarrow> gotime" where
  "go_lookup_time m k = (case map_of m k of None \<Rightarrow> zero_time | Some t \<Rightarrow> t)"

definition inactive_snapshot :: "backlog \<Rightarrow> (string \<times> inactive_state) list" where
  "inactive_snapshot b =
     map (\<lambda>(k, t). (k, \<lparr>since = t, probe_at = go_lookup_time (inactive_probe_at b) k\<rparr>))
       (inactive_candidates b)"

definition persistInactiveLocked :: "faults \<Rightarrow> backlog \<Rightarrow> backlog" where
  "persistInactiveLocked F b0 =
     (let b = capInactiveLocked b0;
          (err, b1) = (if inactive_candidates b = [] then removeFileDurable F inactive_path b
                       else replaceFileDurable F inactive_path (InactiveFile (inactive_snapshot b)) b)
      in case err of None \<Rightarrow> b1 | Some e \<Rightarrow> recordPersistFailureLocked (WrapDiskError e) b1)"

definition hasPendingLocked :: "backlog \<Rightarrow> string \<Rightarrow> bool" where
  "hasPendingLocked b k \<longleftrightarrow> list_ex (\<lambda>r. candidate_key (event (subm r)) = k) (queue b)"

text \<open>The loop of \<open>markActiveLocked\<close> over the queue, by index.\<close>

fun mark_active_loop :: "faults \<Rightarrow> gotime \<Rightarrow> string \<Rightarrow> nat list \<Rightarrow> backlog \<Rightarrow> backlog" where
  "mark_active_loop F now k [] b = b"
| "mark_active_loop F now k (i # is) b =
     (let r = queue b ! i in
      if candidate_key (event (subm r)) \<noteq> k then mark_active_loop F now k is b
      else (let r1 = r\<lparr>next_attempt := now\<rparr> in
            if inactive_since r1 \<noteq> None
            then (let r2 = r1\<lparr>inactive_since := None\<rparr>
                  in mark_active_loop F now k is
                       (persistLocked F r2 (b\<lparr>queue := (queue b)[i := r2]\<rparr>)))
            else mark_active_loop F now k is (b\<lparr>queue := (queue b)[i := r1]\<rparr>)))"

definition markActiveLocked :: "faults \<Rightarrow> gotime \<Rightarrow> string \<Rightarrow> backlog \<Rightarrow> backlog" where
  "markActiveLocked F now k b =
     (let b1 = (if map_of (inactive_candidates b) k \<noteq> None
                then persistInactiveLocked F
                       (b\<lparr>inactive_candidates := AList.delete k (inactive_candidates b),
                          inactive_probe_at := AList.delete k (inactive_probe_at b)\<rparr>)
                else b)
      in mark_active_loop F now k [0..<length (queue b1)] b1)"

definition MarkCandidateActive :: "faults \<Rightarrow> gotime \<Rightarrow> string \<Rightarrow> backlog \<Rightarrow> backlog" where
  "MarkCandidateActive F now k b = markActiveLocked F now k b"

section \<open>Opening a backlog: recovery from disk\<close>

text \<open>A mark read from disk replaces the known one only when it is older.\<close>

definition merge_mark :: "string \<Rightarrow> gotime \<Rightarrow> (string \<times> gotime) list \<Rightarrow> (string \<times> gotime) list" where
  "merge_mark k t m =
     (case map_of m k of
        None \<Rightarrow> AList.update k t m
      | Some t0 \<Rightarrow> if t < t0 then AList.update k t m else m)"

fun load_inactive_loop :: "(string \<times> inactive_state) list \<Rightarrow> backlog \<Rightarrow> backlog" where
  "load_inactive_loop [] b = b"
| "load_inactive_loop ((k, st) # sts) b =
     (let b1 = b\<lparr>inactive_candidates := merge_mark k (since st) (inactive_candidates b)\<rparr>;
          b2 = (if probe_at st \<noteq> zero_time
                then b1\<lparr>inactive_probe_at := AList.update k (probe_at st) (inactive_probe_at b1)\<rparr>
                else b1)
      in load_inactive_loop sts b2)"

definition loadInactiveLocked :: "faults \<Rightarrow> backlog \<Rightarrow> backlog" where
  "loadInactiveLocked F b =
     (case F (tick b) of
        Some f \<Rightarrow> step_fs b
      | None \<Rightarrow>
          (case map_of (disk b) inactive_path of
             Some (InactiveFile st) \<Rightarrow> capInactiveLocked (load_inactive_loop st (step_fs b))
           | _ \<Rightarrow> step_fs b))"

text \<open>What \<open>json.Unmarshal\<close> makes of a pending file: a usable record, or nothing (corrupt, or without a
  sequence or an event id).\<close>

definition usable_record :: "content \<Rightarrow> rec option" where
  "usable_record c =
     (case c of
        RecordFile r \<Rightarrow>
          if sequence r = 0 \<or> event_uuid (event (subm r)) = '''' then None else Some r
      | _ \<Rightarrow> None)"

definition recover_entry :: "faults \<Rightarrow> string \<times> content \<Rightarrow> backlog \<Rightarrow> backlog" where
  "recover_entry F e b =
     (let name = fst e in
      if snd e = SubDir then b
      else if has_suffix name ''.tmp'' then snd (fs_remove F (PendingDir, name) b)
      else if \<not> has_suffix name ''.json'' then b
      else case F (tick b) of
             Some f \<Rightarrow> step_fs b
           | None \<Rightarrow>
               (let b1 = step_fs b in
                case usable_record (snd e) of
                  None \<Rightarrow>
                    (case fs_rename F (PendingDir, name) (QuarantineDir, name) b1 of
                       (None, b2) \<Rightarrow> b2
                     | (Some err, b2) \<Rightarrow>
                         recordPersistFailureLocked
                           (Wrapped (''edgebacklog: quarantine corrupt pending record '' @ name @ '': '')
                              (WrapDiskError err)) b2)
                | Some r \<Rightarrow>
                    (let b2 = b1\<lparr>queue := queue b1 @ [r]\<rparr>;
                         b3 = (case inactive_since r of
                                 None \<Rightarrow> b2
                               | Some t \<Rightarrow>
                                   b2\<lparr>inactive_candidates :=
                                        merge_mark (candidate_key (event (subm r))) t
                                          (inactive_candidates b2)\<rparr>)
                     in if sequence r > counter b3 then b3\<lparr>counter := sequence r\<rparr> else b3)))"

fun recover_loop :: "faults \<Rightarrow> (string \<times> content) list \<Rightarrow> backlog \<Rightarrow> backlog" where
  "recover_loop F [] b = b"
| "recover_loop F (e # es) b = recover_loop F es (recover_entry F e b)"

definition recover :: "faults \<Rightarrow> backlog \<Rightarrow> backlog" where
  "recover F b =
     (let b1 = recover_loop F (read_dir PendingDir (disk b)) b;
          b2 = b1\<lparr>queue := sort_key sequence (queue b1)\<rparr>;
          b3 = b2\<lparr>recovered_ops := length (queue b2)\<rparr>
      in loadInactiveLocked F b3)"

definition loadQuarantineLocked :: "faults \<Rightarrow> backlog \<Rightarrow> goerr option \<times> backlog" where
  "loadQuarantineLocked F b =
     (let names = map fst (filter (\<lambda>(n, c). c \<noteq> SubDir \<and> has_suffix n ''.json'')
                             (read_dir QuarantineDir (disk b)));
          seqs = sort (List.map_filter sequenceFromName names)
      in enforceQuarantineBoundLocked F
           (b\<lparr>quarantine_seqs := seqs, quarantined := int (length seqs)\<rparr>))"

definition normalize_config :: "config \<Rightarrow> config" where
  "normalize_config c =
     (let c1 = (if retry_base c \<le> 0 then c\<lparr>retry_base := second\<rparr> else c);
          c2 = (if retry_max c1 < retry_base c1 then c1\<lparr>retry_max := 60 * second\<rparr> else c1)
      in if inactive_retention c2 \<le> 0
         then c2\<lparr>inactive_retention := DefaultInactiveRetention\<rparr> else c2)"

definition new_backlog :: "config \<Rightarrow> disk \<Rightarrow> nat \<Rightarrow> backlog" where
  "new_backlog c dk t =
     \<lparr>cfg = c, queue = [], counter = 0, last_success = None, last_error = '''', degraded = False,
      quarantined = 0, drops = 0, inactive_candidates = [], inactive_drops = 0,
      inactive_expired = 0, inactive_probe_at = [], persist_errors = 0, disk_full = False,
      quarantine_evicted = 0, recovered_ops = 0, quarantine_seqs = [], has_callbacks = False,
      synced_log = [], quarantined_log = [], disk = dk, tick = t\<rparr>"

datatype open_error = BadConfig | OpenFailed goerr

definition Open :: "faults \<Rightarrow> config \<Rightarrow> disk \<Rightarrow> nat \<Rightarrow> open_error + backlog" where
  "Open F c dk t =
     (if max_operations c \<le> 0 \<or> max_bytes c \<le> 0 then Inl BadConfig
      else (case loadQuarantineLocked F (recover F (new_backlog (normalize_config c) dk t)) of
              (Some e, b) \<Rightarrow> Inl (OpenFailed e)
            | (None, b) \<Rightarrow> Inr b))"

section \<open>Enqueue\<close>

datatype enq_error =
    ErrMissingField
  | ErrEvidence
  | ErrSubmissionConflict
  | ErrEnqCameraInactive
  | ErrFull
  | ErrWrite goerr

text \<open>\<open>stat\<close> is \<open>os.Stat\<close> on the evidence area: the size of a file, \<open>None\<close> when it fails.\<close>

definition validateEvidence :: "(string \<Rightarrow> int option) \<Rightarrow> evidence option \<Rightarrow> bool" where
  "validateEvidence stat e =
     (case e of
        None \<Rightarrow> False
      | Some ev \<Rightarrow>
          path_ev ev \<noteq> '''' \<and> sha256 ev \<noteq> '''' \<and> size_ev ev \<ge> 0 \<and>
          (case stat (path_ev ev) of None \<Rightarrow> False | Some n \<Rightarrow> n = size_ev ev))"

definition same_event :: "submission \<Rightarrow> rec \<Rightarrow> bool" where
  "same_event s r \<longleftrightarrow> event_uuid (event (subm r)) = event_uuid (event s)"

text \<open>The last part of \<open>Enqueue\<close>: the admitted submission becomes a record, durable before it is
  queued.\<close>

definition enqueue_store ::
  "faults \<Rightarrow> gotime \<Rightarrow> submission \<Rightarrow> gotime option \<Rightarrow> backlog \<Rightarrow> enq_error option \<times> backlog"
where
  "enqueue_store F now s probe b =
     (let b1 = b\<lparr>counter := wrap_u64 (Suc (counter b))\<rparr>;
          r = \<lparr>sequence = counter b1, created_at = now, stage = ''metadata'', subm = s,
               attempts = 0, next_attempt = zero_time, inactive_since = probe\<rparr>
      in case writeLocked F r b1 of
           (Some e, b2) \<Rightarrow> (Some (ErrWrite e), recordPersistFailureLocked e b2)
         | (None, b2) \<Rightarrow>
             (let b3 = b2\<lparr>disk_full := False, queue := queue b2 @ [r]\<rparr>
              in (None,
                  if probe \<noteq> None
                  then persistInactiveLocked F
                         (b3\<lparr>inactive_probe_at :=
                                AList.update (candidate_key (event s)) now (inactive_probe_at b3)\<rparr>)
                  else b3)))"

definition Enqueue ::
  "faults \<Rightarrow> (string \<Rightarrow> int option) \<Rightarrow> gotime \<Rightarrow> submission \<Rightarrow> backlog \<Rightarrow> enq_error option \<times> backlog"
where
  "Enqueue F stat now s b =
     (let k = candidate_key (event s) in
      if event_uuid (event s) = '''' \<or> k = '''' \<or> ev_timestamp (event s) = ''''
      then (Some ErrMissingField, b)
      else if capture s \<noteq> None \<and> \<not> validateEvidence stat (capture s) then (Some ErrEvidence, b)
      else if clip s \<noteq> None \<and> \<not> validateEvidence stat (clip s) then (Some ErrEvidence, b)
      else case List.find (same_event s) (queue b) of
        Some r \<Rightarrow>
          (if submissionsEquivalent (subm r) s then None else Some ErrSubmissionConflict, b)
      | None \<Rightarrow>
          (let probe = map_of (inactive_candidates b) k in
           if probe \<noteq> None \<and>
              (hasPendingLocked b k \<or>
               now < go_lookup_time (inactive_probe_at b) k + retry_max (cfg b))
           then (Some ErrEnqCameraInactive, b\<lparr>inactive_drops := Suc (inactive_drops b)\<rparr>)
           else if int (length (queue b)) \<ge> max_operations (cfg b) \<or>
                   wrap64 (pendingBytes (queue b) + submissionBytes s) > max_bytes (cfg b)
           then (Some ErrFull, b\<lparr>drops := Suc (drops b)\<rparr>)
           else enqueue_store F now s probe b))"

section \<open>ProcessOne\<close>

definition rec_key :: "rec \<Rightarrow> string" where
  "rec_key r = candidate_key (event (subm r))"

definition due :: "gotime \<Rightarrow> rec \<Rightarrow> bool" where
  "due now r \<longleftrightarrow> next_attempt r = zero_time \<or> \<not> now < next_attempt r"

text \<open>The selection loop: the first due record none of whose camera's earlier records is deferred.\<close>

fun select_loop :: "gotime \<Rightarrow> string list \<Rightarrow> nat \<Rightarrow> rec list \<Rightarrow> nat option" where
  "select_loop now deferred i [] = None"
| "select_loop now deferred i (r # rs) =
     (if \<not> due now r then select_loop now (rec_key r # deferred) (Suc i) rs
      else if rec_key r \<in> set deferred then select_loop now deferred (Suc i) rs
      else Some i)"

definition ProcessOne_begin :: "gotime \<Rightarrow> backlog \<Rightarrow> rec option" where
  "ProcessOne_begin now b = map_option (\<lambda>i. queue b ! i) (select_loop now [] 0 (queue b))"

text \<open>\<open>send\<close>: the sender's verdict (\<open>None\<close> is success) with its message. \<open>post\<close> and \<open>put\<close> are the two
  methods of \<open>transport.LocalEventSender\<close>; \<open>readable\<close> is whether \<open>os.ReadFile\<close> succeeds.\<close>

record sender =
  post :: "local_event \<Rightarrow> (eclass \<times> string) option"
  put :: "string \<Rightarrow> string \<Rightarrow> string \<Rightarrow> string \<Rightarrow> string \<Rightarrow> int \<Rightarrow> (eclass \<times> string) option"
  stat_ev :: "string \<Rightarrow> int option"
  readable :: "string \<Rightarrow> bool"

definition send :: "sender \<Rightarrow> rec \<Rightarrow> (eclass \<times> string) option" where
  "send sd r =
     (if stage r = ''metadata'' then post sd (event (subm r))
      else if stage r = ''capture'' \<or> stage r = ''clip''
      then (let e = (if stage r = ''capture'' then capture (subm r) else clip (subm r)) in
            if \<not> validateEvidence (stat_ev sd) e
            then Some (ErrInvalidRequest, ''transport: request rejected as invalid by SaaS: evidence'')
            else case e of
                   None \<Rightarrow> Some (ErrInvalidRequest, ''transport: request rejected as invalid by SaaS'')
                 | Some ev \<Rightarrow>
                     if \<not> readable sd (path_ev ev)
                     then Some (ErrInvalidRequest,
                                ''transport: request rejected as invalid by SaaS: evidence read'')
                     else put sd (event_uuid (event (subm r))) (candidate_key (event (subm r)))
                            (stage r) (path_ev ev) (sha256 ev) (size_ev ev))
      else Some (ErrInvalidRequest, ''transport: request rejected as invalid by SaaS: unknown stage''))"

definition finish_ok :: "faults \<Rightarrow> gotime \<Rightarrow> nat \<Rightarrow> rec \<Rightarrow> backlog \<Rightarrow> backlog" where
  "finish_ok F now idx r0 b0 =
     (let mark = map_of (inactive_candidates b0) (rec_key r0) \<noteq> None \<or> inactive_since r0 \<noteq> None;
          r = (if mark then r0\<lparr>inactive_since := None\<rparr> else r0);
          b1 = (if mark then markActiveLocked F now (rec_key r0) b0 else b0);
          b = b1\<lparr>last_success := Some now, last_error := '''', degraded := False\<rparr>;
          finished = (\<lambda>r. notifySynced r (removeAtLocked F idx r b));
          advance = (\<lambda>st. let r' = r\<lparr>stage := st\<rparr> in
                       if st = ''complete'' then finished r'
                       else persistLocked F r' (b\<lparr>queue := (queue b)[idx := r']\<rparr>))
      in if stage r = ''metadata'' then advance (nextStage (subm r) ''capture'')
         else if stage r = ''capture'' then advance (nextStage (subm r) ''clip'')
         else finished r)"

definition retry_delay :: "config \<Rightarrow> int \<Rightarrow> eclass \<Rightarrow> duration" where
  "retry_delay c att e =
     (case e of
        RateLimitError ra \<Rightarrow> if ra > 0 then (if ra > retry_max c then retry_max c else ra) else backoff c att
      | _ \<Rightarrow> backoff c att)"

text \<open>The 423 branch: the instant the camera's inactive window runs from, and the mark it leaves.\<close>

definition window_start :: "gotime \<Rightarrow> backlog \<Rightarrow> rec \<Rightarrow> gotime" where
  "window_start now b r =
     (case inactive_since r of
        Some t \<Rightarrow> t
      | None \<Rightarrow> (case map_of (inactive_candidates b) (rec_key r) of Some t \<Rightarrow> t | None \<Rightarrow> now))"

definition mark_inactive :: "faults \<Rightarrow> string \<Rightarrow> gotime \<Rightarrow> backlog \<Rightarrow> backlog" where
  "mark_inactive F k s b =
     (if (case map_of (inactive_candidates b) k of None \<Rightarrow> True | Some t \<Rightarrow> s < t)
      then persistInactiveLocked F
             (b\<lparr>inactive_candidates := AList.update k s (inactive_candidates b)\<rparr>)
      else b)"

definition finish_inactive :: "faults \<Rightarrow> gotime \<Rightarrow> nat \<Rightarrow> rec \<Rightarrow> backlog \<Rightarrow> backlog" where
  "finish_inactive F now idx r b =
     (let s = window_start now b r;
          r1 = r\<lparr>inactive_since := Some s\<rparr>;
          b1 = mark_inactive F (rec_key r) s b
      in if time_sub now s \<ge> inactive_retention (cfg b1)
         then notifyQuarantined r1 ''camera_inactive_retention_expired''
                (quarantineAtLocked F idx r1 (b1\<lparr>inactive_expired := Suc (inactive_expired b1)\<rparr>))
         else (let r2 = r1\<lparr>next_attempt := now + retry_max (cfg b1)\<rparr>
               in persistLocked F r2 (b1\<lparr>queue := (queue b1)[idx := r2]\<rparr>)))"

definition finish_err :: "faults \<Rightarrow> gotime \<Rightarrow> nat \<Rightarrow> rec \<Rightarrow> eclass \<times> string \<Rightarrow> backlog \<Rightarrow> backlog" where
  "finish_err F now idx r em b0 =
     (let (e, msg) = em;
          b = b0\<lparr>last_error := bound_string maxErrorBytes msg\<rparr>
      in if permanent e
         then notifyQuarantined r (last_error b) (quarantineAtLocked F idx r b)
         else
           (let r1 = r\<lparr>attempts := wrap64 (attempts r + 1)\<rparr>;
                r2 = r1\<lparr>next_attempt := now + retry_delay (cfg b) (attempts r1) e\<rparr>;
                b1 = (if e = ErrUnauthorized then b\<lparr>degraded := True\<rparr> else b);
                r3 = (if e = ErrUnauthorized then r2\<lparr>next_attempt := now + retry_max (cfg b)\<rparr> else r2)
            in if e = ErrCameraInactive then finish_inactive F now idx r3 b1
               else persistLocked F r3 (b1\<lparr>queue := (queue b1)[idx := r3]\<rparr>)))"

definition ProcessOne_finish ::
  "faults \<Rightarrow> gotime \<Rightarrow> rec \<Rightarrow> (eclass \<times> string) option \<Rightarrow> backlog \<Rightarrow> backlog"
where
  "ProcessOne_finish F now r err b =
     (case find_index (\<lambda>it. sequence it = sequence r) (queue b) of
        None \<Rightarrow> b
      | Some idx \<Rightarrow>
          (case err of None \<Rightarrow> finish_ok F now idx r b | Some em \<Rightarrow> finish_err F now idx r em b))"

text \<open>\<open>ProcessOne\<close> with nothing running in between; the flag is its result.\<close>

definition ProcessOne :: "faults \<Rightarrow> gotime \<Rightarrow> sender \<Rightarrow> backlog \<Rightarrow> bool \<times> backlog" where
  "ProcessOne F now sd b =
     (case ProcessOne_begin now b of
        None \<Rightarrow> (False, b)
      | Some r \<Rightarrow> (True, ProcessOne_finish F now r (send sd r) b))"

section \<open>Status\<close>

record status =
  st_backlog_count :: nat
  st_pending_bytes :: int
  st_oldest_pending :: "gotime option"
  st_last_success :: "gotime option"
  st_last_error :: string
  st_degraded :: bool
  st_quarantined :: int
  st_capacity :: int
  st_drops :: nat
  st_persist_errors :: nat
  st_disk_full :: bool
  st_quarantine_evicted :: nat
  st_over_capacity :: bool
  st_recovered :: nat
  st_inactive_candidates :: "string list"
  st_inactive_drops :: nat
  st_inactive_expired :: nat

definition Status :: "backlog \<Rightarrow> status" where
  "Status b =
     \<lparr>st_backlog_count = length (queue b),
      st_pending_bytes = pendingBytes (queue b),
      st_oldest_pending = (case queue b of [] \<Rightarrow> None | r # _ \<Rightarrow> Some (created_at r)),
      st_last_success = last_success b,
      st_last_error = last_error b,
      st_degraded = degraded b,
      st_quarantined = quarantined b,
      st_capacity = max_operations (cfg b),
      st_drops = drops b,
      st_persist_errors = persist_errors b,
      st_disk_full = disk_full b,
      st_quarantine_evicted = quarantine_evicted b,
      st_over_capacity = (int (length (queue b)) > max_operations (cfg b) \<or>
                          pendingBytes (queue b) > max_bytes (cfg b)),
      st_recovered = recovered_ops b,
      st_inactive_candidates = sort (map fst (inactive_candidates b)),
      st_inactive_drops = inactive_drops b,
      st_inactive_expired = inactive_expired b\<rparr>"

section \<open>LoadPendingReferences\<close>

text \<open>\<open>pending_reader.go\<close>: unlike \<open>recover\<close> it refuses a record it cannot parse. \<open>None\<close> is its error; the failures of \<open>ReadDir\<close> and \<open>ReadFile\<close>,
  which give an error as well, are left out.\<close>

record pending_refs =
  evidence_paths :: "string list"
  event_uuids :: "string list"

definition add_evidence_path :: "evidence option \<Rightarrow> string list \<Rightarrow> string list" where
  "add_evidence_path e ps =
     (case e of None \<Rightarrow> ps | Some ev \<Rightarrow> if path_ev ev \<noteq> '''' then path_ev ev # ps else ps)"

definition refs_of_record :: "rec \<Rightarrow> pending_refs \<Rightarrow> pending_refs" where
  "refs_of_record r p =
     (let u = event_uuid (event (subm r))
      in \<lparr>evidence_paths =
            add_evidence_path (clip (subm r)) (add_evidence_path (capture (subm r)) (evidence_paths p)),
          event_uuids = (if u \<noteq> '''' then u # event_uuids p else event_uuids p)\<rparr>)"

fun load_refs_loop :: "(string \<times> content) list \<Rightarrow> pending_refs \<Rightarrow> pending_refs option" where
  "load_refs_loop [] p = Some p"
| "load_refs_loop ((n, SubDir) # es) p = load_refs_loop es p"
| "load_refs_loop ((n, InactiveFile st) # es) p = load_refs_loop es p"
| "load_refs_loop ((n, RecordFile r) # es) p = load_refs_loop es (refs_of_record r p)"
| "load_refs_loop ((n, Garbage) # es) p = None"

definition LoadPendingReferences :: "disk \<Rightarrow> pending_refs option" where
  "LoadPendingReferences dk =
     load_refs_loop (read_dir PendingDir dk) \<lparr>evidence_paths = [], event_uuids = []\<rparr>"

end
