(* ===== verification/Backlog.thy ===== *)
theory Backlog
  imports Backlog_Model
begin

text \<open>
  Invariants and properties of the event backlog. First the frame facts (which operation leaves
  which field alone), then what each operation does to the pending files, then the step relation
  of a backlog with one drain loop, concurrent producers, arbitrary file system faults, crashes
  and restarts, and the properties of its reachable states.
\<close>

section \<open>Frame facts\<close>

lemma step_fs_frame [simp]:
  "queue (step_fs b) = queue b" "cfg (step_fs b) = cfg b" "counter (step_fs b) = counter b"
  "disk (step_fs b) = disk b" "inactive_candidates (step_fs b) = inactive_candidates b"
  "inactive_probe_at (step_fs b) = inactive_probe_at b"
  "quarantine_seqs (step_fs b) = quarantine_seqs b" "drops (step_fs b) = drops b"
  "inactive_drops (step_fs b) = inactive_drops b"
  by (simp_all add: step_fs_def)

lemma recordPersistFailure_frame [simp]:
  "queue (recordPersistFailureLocked e b) = queue b"
  "cfg (recordPersistFailureLocked e b) = cfg b"
  "counter (recordPersistFailureLocked e b) = counter b"
  "disk (recordPersistFailureLocked e b) = disk b"
  "inactive_candidates (recordPersistFailureLocked e b) = inactive_candidates b"
  "inactive_probe_at (recordPersistFailureLocked e b) = inactive_probe_at b"
  "quarantine_seqs (recordPersistFailureLocked e b) = quarantine_seqs b"
  "drops (recordPersistFailureLocked e b) = drops b"
  "inactive_drops (recordPersistFailureLocked e b) = inactive_drops b"
  by (simp_all add: recordPersistFailureLocked_def)

text \<open>The in-memory fields that file system traffic leaves alone, as one relation.\<close>

definition same_mem :: "backlog \<Rightarrow> backlog \<Rightarrow> bool" where
  "same_mem b b' \<longleftrightarrow>
     queue b' = queue b \<and> cfg b' = cfg b \<and> counter b' = counter b \<and>
     inactive_candidates b' = inactive_candidates b \<and> inactive_probe_at b' = inactive_probe_at b \<and>
     quarantine_seqs b' = quarantine_seqs b \<and> drops b' = drops b \<and>
     inactive_drops b' = inactive_drops b"

lemma same_mem_refl [simp, intro]: "same_mem b b"
  by (simp add: same_mem_def)

lemma same_mem_trans [trans]: "same_mem a b \<Longrightarrow> same_mem b c \<Longrightarrow> same_mem a c"
  by (simp add: same_mem_def)

lemma same_mem_disk [simp]: "same_mem a (b\<lparr>disk := d\<rparr>) = same_mem a b"
  by (simp add: same_mem_def)

lemma same_mem_step_fs [simp]: "same_mem a (step_fs b) = same_mem a b"
  by (simp add: same_mem_def)

lemma same_mem_failure [simp]: "same_mem a (recordPersistFailureLocked e b) = same_mem a b"
  by (simp add: same_mem_def)

lemma same_mem_disk_full [simp]: "same_mem a (b\<lparr>disk_full := x\<rparr>) = same_mem a b"
  by (simp add: same_mem_def)

lemma same_mem_fs:
  "same_mem b (snd (fs_write F p c b))" "same_mem b (snd (fs_rename F p q b))"
  "same_mem b (snd (fs_remove F p b))" "same_mem b (snd (fs_sync_dir F b))"
  by (auto simp: fs_write_def fs_rename_def fs_remove_def fs_sync_dir_def same_mem_def
      split: option.splits)

lemma same_mem_fsD:
  "fs_write F p c b = (e, b') \<Longrightarrow> same_mem b b'" "fs_rename F p q b = (e, b') \<Longrightarrow> same_mem b b'"
  "fs_remove F p b = (e, b') \<Longrightarrow> same_mem b b'" "fs_sync_dir F b = (e, b') \<Longrightarrow> same_mem b b'"
  using same_mem_fs by (metis snd_conv)+

lemma same_mem_writeLocked: "same_mem b (snd (writeLocked F r b))"
  unfolding writeLocked_def Let_def
  by (auto split: option.splits prod.splits intro: same_mem_trans same_mem_fs dest: same_mem_fsD)
    (metis same_mem_fs(3) same_mem_fsD same_mem_trans)+

lemma same_mem_persistLocked: "same_mem b (persistLocked F r b)"
  using same_mem_writeLocked [of b F r]
  by (auto simp: persistLocked_def split: prod.splits option.splits)

lemma same_mem_replaceFileDurable: "same_mem b (snd (replaceFileDurable F p c b))"
  unfolding replaceFileDurable_def
  by (auto split: option.splits prod.splits intro: same_mem_trans same_mem_fs dest: same_mem_fsD)
    (metis same_mem_fs(3,4) same_mem_fsD same_mem_trans)+

lemma same_mem_removeFileDurable: "same_mem b (snd (removeFileDurable F p b))"
  unfolding removeFileDurable_def
  by (auto split: option.splits prod.splits dest: same_mem_fsD)
    (metis same_mem_fs(4) same_mem_fsD same_mem_trans)+

text \<open>What \<open>persistInactiveLocked\<close> and the quarantine bound leave alone.\<close>

definition same_queue :: "backlog \<Rightarrow> backlog \<Rightarrow> bool" where
  "same_queue b b' \<longleftrightarrow> queue b' = queue b \<and> cfg b' = cfg b \<and> counter b' = counter b"

lemma same_memD [dest]: "same_mem b b' \<Longrightarrow> same_queue b b'"
  by (simp add: same_mem_def same_queue_def)

lemma same_queue_refl [simp, intro]: "same_queue b b"
  by (simp add: same_queue_def)

lemma same_queue_trans [trans]: "same_queue a b \<Longrightarrow> same_queue b c \<Longrightarrow> same_queue a c"
  by (simp add: same_queue_def)

lemma capInactive_frame [simp]:
  "queue (capInactiveLocked b) = queue b" "cfg (capInactiveLocked b) = cfg b"
  "counter (capInactiveLocked b) = counter b" "disk (capInactiveLocked b) = disk b"
  "quarantine_seqs (capInactiveLocked b) = quarantine_seqs b"
  by (simp_all add: capInactiveLocked_def split_beta)

lemma same_queue_persistInactive: "same_queue b (persistInactiveLocked F b)"
proof -
  let ?b = "capInactiveLocked b"
  have "same_mem ?b (snd (removeFileDurable F inactive_path ?b))"
    "same_mem ?b (snd (replaceFileDurable F inactive_path (InactiveFile (inactive_snapshot ?b)) ?b))"
    by (rule same_mem_removeFileDurable same_mem_replaceFileDurable)+
  then show ?thesis
    by (auto simp: persistInactiveLocked_def Let_def same_queue_def same_mem_def split_beta
        split: option.splits)
qed

section \<open>The files a reader of the backlog sees\<close>

text \<open>Temporary files are invisible to recovery, so the disk is abstracted to its other files.\<close>

definition view :: "disk \<Rightarrow> fpath \<rightharpoonup> content" where
  "view d = (\<lambda>p. if has_suffix (snd p) ''.tmp'' then None else map_of d p)"

lemma seq_name_not_tmp [simp]: "\<not> has_suffix (seq_name n) ''.tmp''"
  by (auto simp: seq_name_def dest: has_suffix_last)

lemma tmp_path_tmp [simp]: "has_suffix (snd (tmp_path p)) ''.tmp''"
  unfolding tmp_path_def by (simp only: snd_conv has_suffix_append)

lemma seq_name_inject [simp]: "seq_name m = seq_name n \<longleftrightarrow> m = n"
  by (simp add: seq_name_def)

lemma rec_path_inject [simp]: "rec_path r = rec_path r' \<longleftrightarrow> sequence r = sequence r'"
  by (simp add: rec_path_def)

lemma rec_path_not_tmp [simp]: "\<not> has_suffix (snd (rec_path r)) ''.tmp''"
  by (simp add: rec_path_def)

lemma inactive_path_not_tmp [simp]: "\<not> has_suffix (snd inactive_path) ''.tmp''"
  by (auto simp: inactive_path_def dest: has_suffix_last)

lemma view_update:
  "view (AList.update p c d) = (if has_suffix (snd p) ''.tmp'' then view d else (view d)(p \<mapsto> c))"
  by (auto simp: view_def AList.update_conv' fun_eq_iff)

lemma view_delete:
  "view (AList.delete p d) = (if has_suffix (snd p) ''.tmp'' then view d else (view d)(p := None))"
  by (auto simp: view_def AList.delete_conv' fun_eq_iff)

lemma view_fs_tmp:
  "has_suffix (snd p) ''.tmp'' \<Longrightarrow> view (disk (snd (fs_write F p c b))) = view (disk b)"
  "has_suffix (snd p) ''.tmp'' \<Longrightarrow> view (disk (snd (fs_remove F p b))) = view (disk b)"
  by (auto simp: fs_write_def fs_remove_def view_update view_delete split: option.splits)

lemma view_fs_sync [simp]: "view (disk (snd (fs_sync_dir F b))) = view (disk b)"
  by (simp add: fs_sync_dir_def)

lemma view_fs_tmpD:
  "fs_write F (tmp_path p) c b = (e, b') \<Longrightarrow> view (disk b') = view (disk b)"
  "fs_remove F (tmp_path p) b = (e, b') \<Longrightarrow> view (disk b') = view (disk b)"
  using view_fs_tmp [OF tmp_path_tmp] by (metis snd_conv)+

lemma fs_write_ok: "fs_write F p c b = (None, b') \<Longrightarrow> map_of (disk b') p = Some c"
  by (auto simp: fs_write_def AList.update_conv' split: option.splits)

lemma fs_rename_tmp:
  assumes "fs_rename F (tmp_path p) q b = (e, b')" "map_of (disk b) (tmp_path p) = Some c"
    "\<not> has_suffix (snd q) ''.tmp''"
  shows "view (disk b') = (if e = None then (view (disk b))(q \<mapsto> c) else view (disk b))"
  using assms by (auto simp: fs_rename_def view_update view_delete split: option.splits)

text \<open>The shape \<open>writeLocked\<close> and \<open>replaceFileDurable\<close> share: write a temporary file, rename it over the
  target, clean up after a failure.\<close>

lemma atomic_replace:
  assumes "fs_write F (tmp_path p) c b = (None, b1)" "fs_rename F (tmp_path p) p b1 = (e, b2)"
    "\<not> has_suffix (snd p) ''.tmp''"
  shows "view (disk b2) = (if e = None then (view (disk b))(p \<mapsto> c) else view (disk b))"
  using fs_rename_tmp [OF assms(2) fs_write_ok [OF assms(1)] assms(3)] view_fs_tmpD(1) [OF assms(1)]
  by simp

lemma view_writeLocked:
  assumes "writeLocked F r b = (e, b')"
  shows "view (disk b') =
    (if e = None then (view (disk b))(rec_path r \<mapsto> RecordFile (json_record r)) else view (disk b))"
proof (cases "marshal r")
  case None
  with assms show ?thesis by (auto simp: writeLocked_def)
next
  case (Some c)
  then have c: "c = RecordFile (json_record r)" by (auto simp: marshal_def split: if_splits)
  obtain ew b1 where w: "fs_write F (tmp_path (rec_path r)) c b = (ew, b1)" by fastforce
  obtain er b2 where rn: "fs_rename F (tmp_path (rec_path r)) (rec_path r) b1 = (er, b2)" by fastforce
  show ?thesis
  proof (cases ew)
    case (Some x)
    with assms \<open>marshal r = Some c\<close> w show ?thesis
      by (auto simp: writeLocked_def Let_def view_fs_tmp view_fs_tmpD(1) [OF w])
  next
    case None
    with assms \<open>marshal r = Some c\<close> w rn atomic_replace [OF w [unfolded None] rn rec_path_not_tmp] c
    show ?thesis
      by (auto simp: writeLocked_def Let_def view_fs_tmp split: option.splits)
  qed
qed

lemma view_persistLocked:
  "view (disk (persistLocked F r b)) = view (disk b) \<or>
   view (disk (persistLocked F r b)) = (view (disk b))(rec_path r \<mapsto> RecordFile (json_record r))"
  by (cases "writeLocked F r b")
    (auto simp: persistLocked_def dest: view_writeLocked split: option.splits)

lemma view_persistInactive:
  assumes "p \<noteq> inactive_path"
  shows "view (disk (persistInactiveLocked F b)) p = view (disk b) p"
proof -
  have rm: "view (disk (snd (removeFileDurable F inactive_path b'))) p = view (disk b') p" for b'
    using assms
    by (auto simp: removeFileDurable_def fs_remove_def fs_sync_dir_def view_delete split: option.splits)
  have rep: "view (disk (snd (replaceFileDurable F inactive_path c b'))) p = view (disk b') p" for b' c
  proof -
    obtain ew b1 where w: "fs_write F (tmp_path inactive_path) c b' = (ew, b1)" by fastforce
    obtain er b2 where rn: "fs_rename F (tmp_path inactive_path) inactive_path b1 = (er, b2)" by fastforce
    show ?thesis
    proof (cases ew)
      case (Some x)
      with w show ?thesis
        by (auto simp: replaceFileDurable_def view_fs_tmp view_fs_tmpD(1) [OF w])
    next
      case None
      with w rn atomic_replace [OF w [unfolded None] rn inactive_path_not_tmp] assms show ?thesis
        by (auto simp: replaceFileDurable_def view_fs_tmp split: option.splits)
    qed
  qed
  show ?thesis
    using rm [of "capInactiveLocked b"] rep [of "InactiveFile (inactive_snapshot (capInactiveLocked b))" "capInactiveLocked b"]
    by (auto simp: persistInactiveLocked_def Let_def split_beta split: option.splits)
qed

section \<open>The invariant\<close>

text \<open>What the queue says of a record apart from its progress: its sequence number and its submission.\<close>

abbreviation ident :: "rec \<Rightarrow> nat \<times> submission" where
  "ident r \<equiv> (sequence r, subm r)"

definition ids :: "backlog \<Rightarrow> (nat \<times> submission) list" where
  "ids b = map ident (queue b)"

definition ids_ok :: "(nat \<times> submission) list \<Rightarrow> nat \<Rightarrow> bool" where
  "ids_ok xs c \<longleftrightarrow>
     sorted_wrt (<) (map fst xs) \<and>
     (\<forall>x \<in> set xs. 0 < fst x \<and> fst x \<le> c \<and> event_uuid (event (snd x)) \<noteq> '''')"

text \<open>Every visible file of \<open>pending/\<close> is a complete record, named after its sequence.\<close>

definition disk_ok :: "(fpath \<rightharpoonup> content) \<Rightarrow> bool" where
  "disk_ok v \<longleftrightarrow>
     (\<forall>name c. v (PendingDir, name) = Some c \<longrightarrow>
        (\<exists>r. c = RecordFile r \<and> name = seq_name (sequence r) \<and>
             0 < sequence r \<and> sequence r < 2 ^ 64 \<and> event_uuid (event (subm r)) \<noteq> '''' \<and>
             json_submission (subm r) = subm r))"

text \<open>Every queued submission is on disk, in its own file.\<close>

definition stored :: "(fpath \<rightharpoonup> content) \<Rightarrow> nat \<times> submission \<Rightarrow> bool" where
  "stored v x \<longleftrightarrow>
     (\<exists>r. v (PendingDir, seq_name (fst x)) = Some (RecordFile r) \<and>
          sequence r = fst x \<and> subm r = json_submission (snd x))"

definition binv :: "backlog \<Rightarrow> bool" where
  "binv b \<longleftrightarrow>
     ids_ok (ids b) (counter b) \<and> counter b < 2 ^ 64 \<and> disk_ok (view (disk b)) \<and>
     (\<forall>x \<in> set (ids b). stored (view (disk b)) x)"

lemma json_record_ident [simp]:
  "sequence (json_record r) = sequence r" "subm (json_record r) = json_submission (subm r)"
  "event_uuid (event (json_submission s)) = event_uuid (event s)"
  "candidate_key (event (json_submission s)) = candidate_key (event s)"
  by (simp_all add: json_record_def json_submission_def)

lemma json_submission_idem [simp]: "json_submission (json_submission s) = json_submission s"
  by (cases "bbox (event s)") (simp_all add: json_submission_def)

lemma ids_simps [simp]:
  "ids (b\<lparr>disk_full := x1\<rparr>) = ids b" "ids (b\<lparr>last_error := x2\<rparr>) = ids b"
  "ids (b\<lparr>degraded := x3\<rparr>) = ids b" "ids (b\<lparr>last_success := x4\<rparr>) = ids b"
  "ids (b\<lparr>inactive_expired := x5\<rparr>) = ids b" "ids (b\<lparr>inactive_candidates := x6\<rparr>) = ids b"
  "ids (b\<lparr>inactive_probe_at := x7\<rparr>) = ids b" "ids (b\<lparr>inactive_drops := x8\<rparr>) = ids b"
  "ids (b\<lparr>drops := x9\<rparr>) = ids b" "ids (b\<lparr>counter := y1\<rparr>) = ids b"
  "ids (b\<lparr>quarantine_seqs := y2\<rparr>) = ids b" "ids (b\<lparr>quarantined := y3\<rparr>) = ids b"
  "ids (b\<lparr>queue := q\<rparr>) = map ident q"
  "ids (recordPersistFailureLocked e b) = ids b"
  by (simp_all add: ids_def)

lemma same_queueD:
  assumes "same_queue b b'"
  shows "queue b' = queue b" "ids b' = ids b" "counter b' = counter b" "cfg b' = cfg b"
  using assms by (auto simp: same_queue_def ids_def)

text \<open>The invariant reads only the identities, the counter and the visible pending files.\<close>

lemma binv_cong:
  assumes "binv b" "ids b' = ids b" "counter b' = counter b"
    "\<And>n. view (disk b') (PendingDir, n) = view (disk b) (PendingDir, n)"
  shows "binv b'"
  using assms by (simp add: binv_def disk_ok_def stored_def)

text \<open>Rewriting the file of a queued record keeps the invariant.\<close>

lemma binv_rewrite:
  assumes inv: "binv b" and ids: "ids b' = ids b" "counter b' = counter b"
    and mem: "ident r \<in> set (ids b)"
    and v: "view (disk b') = (view (disk b))(rec_path r \<mapsto> RecordFile (json_record r))"
  shows "binv b'"
proof -
  from inv mem have r: "0 < sequence r" "sequence r < 2 ^ 64" "event_uuid (event (subm r)) \<noteq> ''''"
    by (auto simp: binv_def ids_ok_def)
  have sorted: "sorted_wrt (<) (map fst (ids b))"
    using inv by (simp add: binv_def ids_ok_def)
  then have uniq: "snd x = subm r" if "x \<in> set (ids b)" "fst x = sequence r" for x
    using that mem by (metis eq_key_imp_eq_value prod.collapse strict_sorted_iff distinct_map)
  have "disk_ok (view (disk b'))"
    using inv r unfolding binv_def disk_ok_def v by (auto simp: rec_path_def)
  moreover have "stored (view (disk b')) x" if x: "x \<in> set (ids b)" for x
  proof (cases "fst x = sequence r")
    case True
    then show ?thesis using uniq [OF x True] by (simp add: stored_def v rec_path_def)
  next
    case False
    then show ?thesis using inv x by (auto simp: stored_def v rec_path_def binv_def)
  qed
  ultimately show ?thesis using inv ids by (simp add: binv_def)
qed

lemma binv_persistLocked:
  assumes "binv b" "ident r \<in> set (ids b)"
  shows "binv (persistLocked F r b)"
proof -
  from same_mem_persistLocked have q: "same_queue b (persistLocked F r b)" by blast
  from view_persistLocked [of F r b] show ?thesis
  proof
    assume "view (disk (persistLocked F r b)) = view (disk b)"
    with assms q show ?thesis by (auto intro: binv_cong dest: same_queueD)
  next
    assume "view (disk (persistLocked F r b)) = (view (disk b))(rec_path r \<mapsto> RecordFile (json_record r))"
    with assms q show ?thesis by (auto intro: binv_rewrite dest: same_queueD)
  qed
qed

lemma binv_persistInactive:
  assumes "binv b"
  shows "binv (persistInactiveLocked F b)"
proof -
  have "(PendingDir, n) \<noteq> inactive_path" for n by (simp add: inactive_path_def)
  with assms show ?thesis
    by (auto intro!: binv_cong [OF assms] simp: view_persistInactive
        same_queueD [OF same_queue_persistInactive])
qed

text \<open>Replacing a queue entry by one with the same identity.\<close>

lemma ids_update_same:
  assumes "i < length (queue b)" "ident r = ident (queue b ! i)"
  shows "ids (b\<lparr>queue := (queue b)[i := r]\<rparr>) = ids b"
proof -
  have "(map ident (queue b))[i := map ident (queue b) ! i] = map ident (queue b)"
    by (rule list_update_id)
  then have "(map ident (queue b))[i := ident r] = map ident (queue b)"
    unfolding assms(2) nth_map [OF assms(1)] .
  then show ?thesis by (simp add: ids_def map_update)
qed

lemma ident_nth_ids: "i < length (queue b) \<Longrightarrow> ident (queue b ! i) \<in> set (ids b)"
  by (auto simp: ids_def)

lemma binv_store_entry:
  assumes "binv b" "i < length (queue b)" "ident r = ident (queue b ! i)"
  shows "binv (persistLocked F r (b\<lparr>queue := (queue b)[i := r]\<rparr>))"
proof (rule binv_persistLocked)
  have eq: "ids (b\<lparr>queue := (queue b)[i := r]\<rparr>) = ids b"
    by (rule ids_update_same [OF assms(2,3)])
  show "binv (b\<lparr>queue := (queue b)[i := r]\<rparr>)"
    using assms(1) eq by (auto intro: binv_cong)
  show "ident r \<in> set (ids (b\<lparr>queue := (queue b)[i := r]\<rparr>))"
    unfolding eq assms(3) by (rule ident_nth_ids [OF assms(2)])
qed

section \<open>Leaving the queue\<close>

lemma enforce_frame:
  "same_queue b (snd (enforceQuarantineBoundLocked F b)) \<and>
   (\<forall>n. view (disk (snd (enforceQuarantineBoundLocked F b))) (PendingDir, n) =
        view (disk b) (PendingDir, n))"
proof (induction F b rule: enforceQuarantineBoundLocked.induct)
  case (1 F b)
  obtain e b1 where rm: "fs_remove F (QuarantineDir, seq_name (hd (quarantine_seqs b))) b = (e, b1)"
    by fastforce
  then have base: "same_queue b b1" "\<And>n. view (disk b1) (PendingDir, n) = view (disk b) (PendingDir, n)"
    by (auto simp: fs_remove_def view_delete same_queue_def split: option.splits if_splits)
  show ?case
  proof (cases "int (length (quarantine_seqs b)) > max_operations (cfg b) \<and> quarantine_seqs b \<noteq> []
      \<and> (\<forall>x. e = Some x \<longrightarrow> isNotExist x)")
    case True
    let ?b2 = "b1\<lparr>quarantine_seqs := tl (quarantine_seqs b),
      quarantined := int (length (tl (quarantine_seqs b))),
      quarantine_evicted := Suc (quarantine_evicted b1)\<rparr>"
    have "same_queue ?b2 (snd (enforceQuarantineBoundLocked F ?b2)) \<and>
      (\<forall>n. view (disk (snd (enforceQuarantineBoundLocked F ?b2))) (PendingDir, n) =
        view (disk ?b2) (PendingDir, n))"
      using True rm "1.IH" by (cases e) auto
    moreover have "enforceQuarantineBoundLocked F b = enforceQuarantineBoundLocked F ?b2"
      using True rm by (subst enforceQuarantineBoundLocked.simps) (auto split: option.splits)
    ultimately show ?thesis using base by (simp add: same_queue_def)
  next
    case False
    then show ?thesis using rm base
      by (subst enforceQuarantineBoundLocked.simps, subst (3) enforceQuarantineBoundLocked.simps)
        (auto simp: same_queue_def split: option.splits)
  qed
qed

text \<open>Both ways out of the queue: the entry goes, its file goes with it or stays behind, and no other
  pending file changes.\<close>

definition left_queue :: "nat \<Rightarrow> backlog \<Rightarrow> backlog \<Rightarrow> bool" where
  "left_queue idx b b' \<longleftrightarrow>
     queue b' = remove_nth idx (queue b) \<and> counter b' = counter b \<and> cfg b' = cfg b \<and>
     (\<forall>n. view (disk b') (PendingDir, n) = view (disk b) (PendingDir, n) \<or>
          view (disk b') (PendingDir, n) = None \<and> n = seq_name (sequence (queue b ! idx)))"

lemma fs_remove_pending:
  assumes "fs_remove F (rec_path r) b = (e, b')"
  shows "same_mem b b'"
    "view (disk b') (PendingDir, n) = view (disk b) (PendingDir, n) \<or>
     view (disk b') (PendingDir, n) = None \<and> n = seq_name (sequence r)"
  using assms same_mem_fsD(3) [OF assms]
  by (auto simp: fs_remove_def view_delete rec_path_def split: option.splits if_splits)

lemma removeAtLocked_left:
  assumes "idx < length (queue b)" "sequence r = sequence (queue b ! idx)"
  shows "left_queue idx b (removeAtLocked F idx r b)"
proof -
  obtain e b' where rm: "fs_remove F (rec_path r) b = (e, b')" by fastforce
  from fs_remove_pending [OF rm] assms rm show ?thesis
    by (auto simp: removeAtLocked_def Let_def left_queue_def same_mem_def split: option.splits)
qed

lemma fs_rename_quarantine:
  assumes "fs_rename F (rec_path r) (QuarantineDir, nm) b = (e, b')"
  shows "same_mem b b'"
    "view (disk b') (PendingDir, n) = view (disk b) (PendingDir, n) \<or>
     view (disk b') (PendingDir, n) = None \<and> n = seq_name (sequence r)"
    "e \<noteq> None \<Longrightarrow> disk b' = disk b"
  using assms same_mem_fsD(2) [OF assms]
  by (auto simp: fs_rename_def view_delete view_update rec_path_def split: option.splits if_splits)

lemma quarantineAtLocked_left:
  assumes "idx < length (queue b)" "sequence r = sequence (queue b ! idx)"
  shows "left_queue idx b (quarantineAtLocked F idx r b)"
proof -
  obtain e b1 where mv: "fs_rename F (rec_path r) (QuarantineDir, seq_name (sequence r)) b = (e, b1)"
    by fastforce
  note mv' = fs_rename_quarantine [OF mv]
  show ?thesis
  proof (cases e)
    case None
    let ?qs = "sort (quarantine_seqs (drop_from_queue idx b1) @ [sequence r])"
    let ?b2 = "(drop_from_queue idx b1)\<lparr>quarantine_seqs := ?qs, quarantined := int (length ?qs)\<rparr>"
    have "quarantineAtLocked F idx r b = snd (enforceQuarantineBoundLocked F ?b2)"
      using mv None by (simp add: quarantineAtLocked_def Let_def)
    then show ?thesis
      using enforce_frame [of ?b2 F] mv'(1,2) assms
      by (auto simp: left_queue_def drop_from_queue_def same_queue_def same_mem_def)
  next
    case (Some x)
    obtain e2 b2 where rm: "fs_remove F (rec_path r) b1 = (e2, b2)" by fastforce
    from fs_remove_pending [OF rm] mv' mv Some rm assms show ?thesis
      by (auto simp: quarantineAtLocked_def Let_def left_queue_def drop_from_queue_def same_mem_def
          split: option.splits)
  qed
qed

lemma binv_left_queue:
  assumes inv: "binv b" and idx: "idx < length (queue b)" and left: "left_queue idx b b'"
  shows "binv b'"
proof -
  have ids': "ids b' = remove_nth idx (ids b)"
    using left by (simp add: ids_def left_queue_def map_remove_nth)
  have sorted: "sorted_wrt (<) (map fst (ids b))" using inv by (simp add: binv_def ids_ok_def)
  have sub: "set (ids b') \<subseteq> set (ids b)" using ids' set_remove_nth_subset by metis
  have "fst x \<noteq> sequence (queue b ! idx)" if "x \<in> set (ids b')" for x
  proof -
    have "distinct (map fst (ids b))" using sorted by (simp add: strict_sorted_iff)
    moreover have "fst x \<in> set (remove_nth idx (map fst (ids b)))"
      using that ids' by (metis map_remove_nth image_eqI set_map)
    ultimately have "fst x \<noteq> map fst (ids b) ! idx"
      using set_remove_nth_distinct [of "map fst (ids b)" idx] idx by (auto simp: ids_def)
    then show ?thesis using idx by (simp add: ids_def)
  qed
  then have "stored (view (disk b')) x" if "x \<in> set (ids b')" for x
    using that inv left sub unfolding binv_def stored_def left_queue_def
    by (metis (no_types, lifting) option.distinct(1) seq_name_inject subsetD)
  moreover have "disk_ok (view (disk b'))"
    using inv left unfolding binv_def disk_ok_def left_queue_def by (metis option.distinct(1))
  moreover have "ids_ok (ids b') (counter b')"
    using inv left sub ids' sorted_wrt_remove_nth [OF sorted, of idx]
    by (auto simp: binv_def ids_ok_def left_queue_def map_remove_nth)
  ultimately show ?thesis using inv left by (simp add: binv_def left_queue_def)
qed

section \<open>Every operation keeps the invariant\<close>

definition keeps :: "backlog \<Rightarrow> backlog \<Rightarrow> bool" where
  "keeps b b' \<longleftrightarrow> ids b' = ids b \<and> counter b' = counter b \<and> cfg b' = cfg b"

lemma keeps_refl [simp, intro]: "keeps b b"
  by (simp add: keeps_def)

lemma keeps_trans [trans]: "keeps a b \<Longrightarrow> keeps b c \<Longrightarrow> keeps a c"
  by (simp add: keeps_def)

lemma same_queue_keeps [dest]: "same_queue b b' \<Longrightarrow> keeps b b'"
  by (simp add: keeps_def same_queueD)

lemma keeps_length: "keeps b b' \<Longrightarrow> length (queue b') = length (queue b)"
  by (metis ids_def keeps_def length_map)

lemma keeps_ident:
  assumes "keeps b b'" "i < length (queue b)"
  shows "ident (queue b' ! i) = ident (queue b ! i)"
proof -
  from keeps_length [OF assms(1)] assms(2) have i': "i < length (queue b')" by simp
  from assms(1) have "map ident (queue b') = map ident (queue b)" by (simp add: keeps_def ids_def)
  then have "map ident (queue b') ! i = map ident (queue b) ! i" by (rule arg_cong)
  then show ?thesis unfolding nth_map [OF i'] nth_map [OF assms(2)] .
qed

lemma keeps_store_entry:
  assumes "i < length (queue b)" "ident r = ident (queue b ! i)"
  shows "keeps b (persistLocked F r (b\<lparr>queue := (queue b)[i := r]\<rparr>))"
proof -
  let ?b = "b\<lparr>queue := (queue b)[i := r]\<rparr>"
  have "keeps b ?b" unfolding keeps_def using ids_update_same [OF assms] by simp
  moreover have "keeps ?b (persistLocked F r ?b)" using same_mem_persistLocked by blast
  ultimately show ?thesis by (rule keeps_trans)
qed

lemma mark_active_loop_inv:
  "(\<forall>i \<in> set is. i < length (queue b)) \<Longrightarrow> binv b \<Longrightarrow>
     binv (mark_active_loop F now k is b) \<and> keeps b (mark_active_loop F now k is b)"
proof (induction F now k "is" b rule: mark_active_loop.induct)
  case (1 F now k b)
  then show ?case by simp
next
  case (2 F now k i "is" b)
  let ?r = "queue b ! i" and ?r1 = "(queue b ! i)\<lparr>next_attempt := now\<rparr>"
  let ?r2 = "?r1\<lparr>inactive_since := None\<rparr>"
  let ?p = "persistLocked F ?r2 (b\<lparr>queue := (queue b)[i := ?r2]\<rparr>)"
  let ?m = "b\<lparr>queue := (queue b)[i := ?r1]\<rparr>"
  have i: "i < length (queue b)" using "2.prems" by simp
  have p: "binv ?p" "keeps b ?p"
    using binv_store_entry [OF "2.prems"(2) i] keeps_store_entry [OF i] by simp_all
  have "ids ?m = ids b" by (rule ids_update_same [OF i]) simp
  then have m: "binv ?m" "keeps b ?m"
    using "2.prems"(2) by (auto simp: keeps_def intro: binv_cong)
  show ?case
  proof (cases "candidate_key (event (subm ?r)) = k")
    case False
    with 2 show ?thesis by simp
  next
    case True
    show ?thesis
    proof (cases "inactive_since ?r1")
      case None
      with True 2 m show ?thesis by (auto dest: keeps_trans)
    next
      case (Some t)
      with True "2.IH"(2) "2.prems" p(1) keeps_length [OF p(2)]
      have "binv (mark_active_loop F now k is ?p) \<and> keeps ?p (mark_active_loop F now k is ?p)"
        by (simp add: Let_def)
      with True Some keeps_trans [OF p(2)] show ?thesis by (simp add: Let_def)
    qed
  qed
qed

lemma markActiveLocked_inv:
  assumes "binv b"
  shows "binv (markActiveLocked F now k b) \<and> keeps b (markActiveLocked F now k b)"
proof -
  let ?b0 = "b\<lparr>inactive_candidates := AList.delete k (inactive_candidates b),
    inactive_probe_at := AList.delete k (inactive_probe_at b)\<rparr>"
  let ?b1 = "if map_of (inactive_candidates b) k \<noteq> None then persistInactiveLocked F ?b0 else b"
  have "binv ?b0" "keeps b ?b0" using assms by (auto simp: keeps_def intro: binv_cong)
  moreover have "keeps ?b0 (persistInactiveLocked F ?b0)"
    using same_queue_persistInactive by blast
  ultimately have b1: "binv ?b1" "keeps b ?b1"
    using assms by (auto intro: binv_persistInactive dest: keeps_trans)
  have "binv (mark_active_loop F now k [0..<length (queue ?b1)] ?b1) \<and>
    keeps ?b1 (mark_active_loop F now k [0..<length (queue ?b1)] ?b1)"
    by (rule mark_active_loop_inv) (use b1 in auto)
  then show ?thesis using b1 unfolding markActiveLocked_def Let_def by (auto dest: keeps_trans)
qed

text \<open>The record the drain loop holds while it sends: if it is still queued, it is that record.\<close>

definition flight_ok :: "backlog \<Rightarrow> rec option \<Rightarrow> bool" where
  "flight_ok b fl =
     (case fl of
        None \<Rightarrow> True
      | Some r \<Rightarrow> sequence r \<le> counter b \<and>
                 (\<forall>x \<in> set (ids b). fst x = sequence r \<longrightarrow> snd x = subm r))"

lemma binv_cong_mem:
  assumes "binv b" "keeps b b'" "disk b' = disk b"
  shows "binv b'"
  using assms by (auto simp: keeps_def intro: binv_cong)

lemma binv_notify:
  "binv (notifySynced r b) = binv b" "binv (notifyQuarantined r m b) = binv b"
  by (simp_all add: binv_def ids_def notifySynced_def notifyQuarantined_def)

lemma finish_ok_inv:
  assumes inv: "binv b" and idx: "idx < length (queue b)" and id: "ident r = ident (queue b ! idx)"
  shows "binv (finish_ok F now idx r b)"
proof -
  let ?mark = "map_of (inactive_candidates b) (rec_key r) \<noteq> None \<or> inactive_since r \<noteq> None"
  define r1 where "r1 = (if ?mark then r\<lparr>inactive_since := None\<rparr> else r)"
  define b1 where "b1 = (if ?mark then markActiveLocked F now (rec_key r) b else b)"
  define b2 where "b2 = b1\<lparr>last_success := Some now, last_error := '''', degraded := False\<rparr>"
  have b1: "binv b1" "keeps b b1"
    using markActiveLocked_inv [OF inv] inv by (auto simp: b1_def)
  then have b2: "binv b2" "keeps b b2"
    by (auto simp: b2_def keeps_def intro: binv_cong)
  have idx2: "idx < length (queue b2)" using keeps_length [OF b2(2)] idx by simp
  have id2: "ident (r1\<lparr>stage := st\<rparr>) = ident (queue b2 ! idx)" for st
    using keeps_ident [OF b2(2) idx] id by (simp add: r1_def)
  have rm: "binv (notifySynced x (removeAtLocked F idx x b2))"
    if "sequence x = sequence (queue b2 ! idx)" for x
    using binv_left_queue [OF b2(1) idx2 removeAtLocked_left [OF idx2 that]]
    by (simp add: binv_notify)
  have st: "binv (persistLocked F (r1\<lparr>stage := s\<rparr>) (b2\<lparr>queue := (queue b2)[idx := r1\<lparr>stage := s\<rparr>]\<rparr>))" for s
    by (rule binv_store_entry [OF b2(1) idx2 id2])
  have seq: "sequence (r1\<lparr>stage := s\<rparr>) = sequence (queue b2 ! idx)"
    "sequence r1 = sequence (queue b2 ! idx)" for s
    using id2 [of s] by simp_all
  have fo: "finish_ok F now idx r b =
    (let advance = (\<lambda>st. let r' = r1\<lparr>stage := st\<rparr> in
          if st = ''complete'' then notifySynced r' (removeAtLocked F idx r' b2)
          else persistLocked F r' (b2\<lparr>queue := (queue b2)[idx := r']\<rparr>))
     in if stage r1 = ''metadata'' then advance (nextStage (subm r1) ''capture'')
        else if stage r1 = ''capture'' then advance (nextStage (subm r1) ''clip'')
        else notifySynced r1 (removeAtLocked F idx r1 b2))"
    unfolding finish_ok_def r1_def b1_def b2_def Let_def by (simp only: Let_def)
  show ?thesis
    unfolding fo Let_def using rm [OF seq(1)] rm [OF seq(2)] st by simp
qed

lemma mark_inactive_inv:
  assumes "binv b"
  shows "binv (mark_inactive F k s b)" "same_queue b (mark_inactive F k s b)"
proof -
  let ?u = "b\<lparr>inactive_candidates := AList.update k s (inactive_candidates b)\<rparr>"
  have "binv ?u" "same_queue b ?u" using assms by (auto simp: same_queue_def intro: binv_cong)
  then show "binv (mark_inactive F k s b)" "same_queue b (mark_inactive F k s b)"
    using assms same_queue_trans [OF _ same_queue_persistInactive]
    by (auto simp: mark_inactive_def intro: binv_persistInactive)
qed

lemma finish_inactive_inv:
  assumes inv: "binv b" and idx: "idx < length (queue b)" and id: "ident r = ident (queue b ! idx)"
  shows "binv (finish_inactive F now idx r b)"
proof -
  define s where "s = window_start now b r"
  define b1 where "b1 = mark_inactive F (rec_key r) s b"
  define b2 where "b2 = b1\<lparr>inactive_expired := Suc (inactive_expired b1)\<rparr>"
  have b1: "binv b1" "queue b1 = queue b"
    using mark_inactive_inv [OF inv] by (auto simp: b1_def same_queue_def)
  then have b2: "binv b2" "queue b2 = queue b" by (auto simp: b2_def intro: binv_cong)
  have idx1: "idx < length (queue b1)" "idx < length (queue b2)" using idx b1 b2 by simp_all
  have id1: "ident (r\<lparr>inactive_since := x, next_attempt := y\<rparr>) = ident (queue b1 ! idx)"
    "sequence (r\<lparr>inactive_since := x\<rparr>) = sequence (queue b2 ! idx)" for x y
    using id b1 b2 by simp_all
  show ?thesis
    using binv_store_entry [OF b1(1) idx1(1) id1(1)]
      binv_left_queue [OF b2(1) idx1(2) quarantineAtLocked_left [OF idx1(2) id1(2)]]
    unfolding finish_inactive_def Let_def s_def [symmetric] b1_def [symmetric] b2_def [symmetric]
    by (simp add: binv_notify)
qed

lemma finish_err_inv:
  assumes inv: "binv b" and idx: "idx < length (queue b)" and id: "ident r = ident (queue b ! idx)"
  shows "binv (finish_err F now idx r em b)"
proof -
  obtain e msg where em: "em = (e, msg)" by fastforce
  define b1 where "b1 = b\<lparr>last_error := bound_string maxErrorBytes msg\<rparr>"
  define b2 where "b2 = (if e = ErrUnauthorized then b1\<lparr>degraded := True\<rparr> else b1)"
  have b1: "binv b1" "idx < length (queue b1)" "queue b1 = queue b"
    using inv idx by (auto simp: b1_def intro: binv_cong)
  then have b2: "binv b2" "idx < length (queue b2)" "queue b2 = queue b"
    by (auto simp: b2_def intro: binv_cong)
  have q: "binv (quarantineAtLocked F idx r b1)"
    by (rule binv_left_queue [OF b1(1,2) quarantineAtLocked_left [OF b1(2)]]) (use id b1 in simp)
  have st: "binv (persistLocked F x (b2\<lparr>queue := (queue b2)[idx := x]\<rparr>))"
    "binv (finish_inactive F now idx x b2)" if "ident x = ident r" for x
    using binv_store_entry [OF b2(1,2)] finish_inactive_inv [OF b2(1,2)] that id b2(3) by metis+
  have id3: "ident (r\<lparr>attempts := u, next_attempt := v\<rparr>) = ident r" for u v
    by simp
  show ?thesis
    unfolding finish_err_def em prod.case Let_def b1_def [symmetric] b2_def [symmetric]
    using q st [OF id3] by (simp add: binv_notify)
qed

lemma ProcessOne_finish_inv:
  assumes "binv b" "flight_ok b (Some r)"
  shows "binv (ProcessOne_finish F now r err b)"
proof (cases "find_index (\<lambda>it. sequence it = sequence r) (queue b)")
  case None
  then show ?thesis using assms by (simp add: ProcessOne_finish_def)
next
  case (Some idx)
  from find_index_SomeD [OF Some]
  have idx: "idx < length (queue b)" "sequence (queue b ! idx) = sequence r" by auto
  moreover have "ident (queue b ! idx) \<in> set (ids b)" by (rule ident_nth_ids [OF idx(1)])
  ultimately have "ident r = ident (queue b ! idx)"
    using assms(2) by (force simp: flight_ok_def)
  with Some assms(1) idx finish_ok_inv finish_err_inv show ?thesis
    by (auto simp: ProcessOne_finish_def split: option.splits)
qed

section \<open>Enqueue\<close>

lemma ids_ok_mono: "ids_ok xs c \<Longrightarrow> c \<le> c' \<Longrightarrow> ids_ok xs c'"
  by (auto simp: ids_ok_def)

text \<open>What a submission does to the queue: nothing, or one more record at the end under the next
  sequence number, whose file is then on disk.\<close>

lemma enqueue_store_effect:
  assumes inv: "binv b" and room: "Suc (counter b) < 2 ^ 64" and uuid: "event_uuid (event s) \<noteq> ''''"
    and enq: "enqueue_store F now s probe b = (res, b')"
  shows "binv b' \<and> cfg b' = cfg b \<and> counter b' = Suc (counter b) \<and>
    ids b' = (if res = None then ids b @ [(Suc (counter b), s)] else ids b)"
proof -
  define b1 where "b1 = b\<lparr>counter := Suc (counter b)\<rparr>"
  define r where "r = \<lparr>sequence = Suc (counter b), created_at = now, stage = ''metadata'', subm = s,
    attempts = 0, next_attempt = zero_time, inactive_since = probe\<rparr>"
  obtain e b2 where w: "writeLocked F r b1 = (e, b2)" by fastforce
  have b1: "binv b1" "ids b1 = ids b"
    using inv room by (auto simp: b1_def binv_def intro: ids_ok_mono)
  have b2: "queue b2 = queue b1" "counter b2 = Suc (counter b)" "cfg b2 = cfg b"
    using same_mem_writeLocked [of b1 F r] w by (auto simp: same_mem_def b1_def)
  define b3 where "b3 = b2\<lparr>disk_full := False, queue := queue b2 @ [r]\<rparr>"
  define b4 where "b4 = b3\<lparr>inactive_probe_at :=
    AList.update (candidate_key (event s)) now (inactive_probe_at b3)\<rparr>"
  have res: "(res, b') = (case e of Some x \<Rightarrow> (Some (ErrWrite x), recordPersistFailureLocked x b2)
      | None \<Rightarrow> (None, if probe \<noteq> None then persistInactiveLocked F b4 else b3))"
    using enq w room
    by (cases e; cases probe) (simp_all add: enqueue_store_def Let_def b1_def r_def b3_def b4_def)
  show ?thesis
  proof (cases e)
    case (Some x)
    then have "view (disk b2) = view (disk b1)" using view_writeLocked [OF w] by simp
    then have "binv b2" using b1(1) b2(1,2) by (auto simp: ids_def b1_def intro: binv_cong)
    then show ?thesis using res Some b2 b1(2) by (auto simp: ids_def b1_def binv_def)
  next
    case None
    have v: "view (disk b3) = (view (disk b))(rec_path r \<mapsto> RecordFile (json_record r))"
      using view_writeLocked [OF w] None by (simp add: b1_def b3_def)
    have ids3: "ids b3 = ids b @ [(Suc (counter b), s)]"
      using b2(1) by (simp add: b3_def b1_def ids_def r_def)
    have le: "fst x \<le> counter b" if "x \<in> set (ids b)" for x
      using inv that by (auto simp: binv_def ids_ok_def)
    have ne: "fst x \<noteq> Suc (counter b)" if "x \<in> set (ids b)" for x
      using le [OF that] by simp
    have "ids_ok (ids b3) (Suc (counter b))"
      using inv uuid le unfolding ids3
      by (fastforce simp: binv_def ids_ok_def sorted_wrt_append)
    moreover have "stored (view (disk b3)) x" if "x \<in> set (ids b3)" for x
    proof (cases "x \<in> set (ids b)")
      case True
      then have "view (disk b3) (PendingDir, seq_name (fst x)) = view (disk b) (PendingDir, seq_name (fst x))"
        using ne [OF True] by (simp add: v rec_path_def r_def)
      then show ?thesis using True inv by (simp add: stored_def binv_def)
    next
      case False
      then have "x = (Suc (counter b), s)" using that by (simp add: ids3)
      then show ?thesis by (simp add: stored_def v rec_path_def r_def)
    qed
    moreover have "disk_ok (view (disk b3))"
      using inv uuid room unfolding v
      by (auto simp: binv_def disk_ok_def rec_path_def r_def)
    moreover have c3: "counter b3 = Suc (counter b)" "cfg b3 = cfg b" using b2 by (simp_all add: b3_def)
    ultimately have inv3: "binv b3" using room by (simp add: binv_def)
    then have "binv b4" by (auto simp: b4_def intro: binv_cong)
    then have "binv (persistInactiveLocked F b4)" by (rule binv_persistInactive)
    then show ?thesis
      using res None inv3 ids3 c3 same_queueD [OF same_queue_persistInactive, of F b4]
      by (simp add: b4_def)
  qed
qed

text \<open>Every branch of \<open>Enqueue\<close> before the store leaves the state alone but for one counter.\<close>

lemma Enqueue_cases:
  assumes "Enqueue F stat now s b = (res, b')"
  obtains (kept) "b' = b" "res \<in> {Some ErrMissingField, Some ErrEvidence, None, Some ErrSubmissionConflict}"
      "res = None \<Longrightarrow> \<exists>r \<in> set (queue b). same_event s r \<and> submissionsEquivalent (subm r) s"
    | (inactive) "b' = b\<lparr>inactive_drops := Suc (inactive_drops b)\<rparr>" "res = Some ErrEnqCameraInactive"
    | (full) "b' = b\<lparr>drops := Suc (drops b)\<rparr>" "res = Some ErrFull"
    | (store) "enqueue_store F now s (map_of (inactive_candidates b) (candidate_key (event s))) b = (res, b')"
      "event_uuid (event s) \<noteq> ''''" "List.find (same_event s) (queue b) = None"
      "int (length (queue b)) < max_operations (cfg b)"
      "wrap64 (pendingBytes (queue b) + submissionBytes s) \<le> max_bytes (cfg b)"
proof -
  let ?k = "candidate_key (event s)"
  let ?bad = "event_uuid (event s) = '''' \<or> ?k = '''' \<or> ev_timestamp (event s) = ''''"
  let ?noev = "capture s \<noteq> None \<and> \<not> validateEvidence stat (capture s) \<or>
    clip s \<noteq> None \<and> \<not> validateEvidence stat (clip s)"
  let ?probe = "map_of (inactive_candidates b) ?k"
  let ?refuse = "?probe \<noteq> None \<and> (hasPendingLocked b ?k \<or>
    now < go_lookup_time (inactive_probe_at b) ?k + retry_max (cfg b))"
  let ?full = "int (length (queue b)) \<ge> max_operations (cfg b) \<or>
    wrap64 (pendingBytes (queue b) + submissionBytes s) > max_bytes (cfg b)"
  consider (bad) ?bad | (noev) "\<not> ?bad" ?noev
    | (dup) r where "\<not> ?bad" "\<not> ?noev" "List.find (same_event s) (queue b) = Some r"
    | (new) "\<not> ?bad" "\<not> ?noev" "List.find (same_event s) (queue b) = None"
    by (metis not_None_eq)
  then show thesis
  proof cases
    case bad
    then have "(res, b') = (Some ErrMissingField, b)" using assms by (simp add: Enqueue_def Let_def)
    then show thesis by (intro kept) simp_all
  next
    case noev
    then have "(res, b') = (Some ErrEvidence, b)"
      using assms by (auto simp: Enqueue_def Let_def split: if_splits)
    then show thesis by (intro kept) simp_all
  next
    case dup
    then have "Enqueue F stat now s b =
      (if submissionsEquivalent (subm r) s then None else Some ErrSubmissionConflict, b)"
      by (auto simp: Enqueue_def Let_def)
    then have "(res, b') =
      (if submissionsEquivalent (subm r) s then None else Some ErrSubmissionConflict, b)"
      using assms by simp
    moreover have "r \<in> set (queue b) \<and> same_event s r" using dup(3) by (metis find_Some_iff nth_mem)
    ultimately show thesis by (intro kept) (auto split: if_splits)
  next
    case new
    have n: "?bad = False" "(capture s \<noteq> None \<and> \<not> validateEvidence stat (capture s)) = False"
      "(clip s \<noteq> None \<and> \<not> validateEvidence stat (clip s)) = False"
      using new(1,2) by blast+
    have e: "Enqueue F stat now s b =
      (if ?refuse then (Some ErrEnqCameraInactive, b\<lparr>inactive_drops := Suc (inactive_drops b)\<rparr>)
       else if ?full then (Some ErrFull, b\<lparr>drops := Suc (drops b)\<rparr>)
       else enqueue_store F now s ?probe b)"
      by (simp only: Enqueue_def Let_def n new(3) if_False option.case)
    show thesis
    proof (cases ?refuse)
      case True
      have "Enqueue F stat now s b =
        (Some ErrEnqCameraInactive, b\<lparr>inactive_drops := Suc (inactive_drops b)\<rparr>)"
        by (simp only: e if_P [OF True])
      with assms show thesis by (intro inactive) simp_all
    next
      case nr: False
      show thesis
      proof (cases ?full)
        case True
        have "Enqueue F stat now s b = (Some ErrFull, b\<lparr>drops := Suc (drops b)\<rparr>)"
          by (simp only: e if_not_P [OF nr] if_P [OF True])
        with assms show thesis by (intro full) simp_all
      next
        case False
        have "Enqueue F stat now s b = enqueue_store F now s ?probe b"
          by (simp only: e if_not_P [OF nr] if_not_P [OF False])
        with assms new False show thesis by (intro store) simp_all
      qed
    qed
  qed
qed

lemma Enqueue_effect:
  assumes inv: "binv b" and room: "Suc (counter b) < 2 ^ 64"
    and enq: "Enqueue F stat now s b = (res, b')"
  shows "binv b' \<and> cfg b' = cfg b \<and> counter b \<le> counter b' \<and>
    (ids b' = ids b \<or> ids b' = ids b @ [(Suc (counter b), s)])"
  using enq
proof (cases rule: Enqueue_cases)
  case store
  from enqueue_store_effect [OF inv room store(2) store(1)] show ?thesis by auto
qed (use inv in \<open>auto simp: binv_def\<close>)

end
