(* ===== verification/Backlog_Recovery.thy ===== *)
theory Backlog_Recovery
  imports Backlog "HOL-Library.Sublist"
begin

text \<open>
  Restart of the event backlog: what \<open>Open\<close> reads back from a disk the backlog wrote, the step
  relation of a running backlog (producers, one drain loop, reactivations, crashes and restarts,
  under arbitrary file system faults), and its interpretation as a \<open>machine\<close> with the invariant of
  theory \<open>Backlog\<close>.
\<close>

section \<open>Reading the pending directory\<close>

lemma set_read_dir: "(n, c) \<in> set (read_dir d dk) \<longleftrightarrow> map_of dk (d, n) = Some c"
proof -
  have "(n, c) \<in> set (read_dir d dk) \<longleftrightarrow> ((d, n), c) \<in> set (AList.clearjunk dk)"
    by (force simp: read_dir_def)
  also have "\<dots> \<longleftrightarrow> map_of (AList.clearjunk dk) (d, n) = Some c"
    using distinct_clearjunk [of dk] by (auto simp del: map_of_clearjunk dest: map_of_SomeD)
  finally show ?thesis by (simp add: map_of_clearjunk)
qed

lemma distinct_read_dir: "distinct (map fst (read_dir d dk))"
proof -
  have "distinct (AList.clearjunk dk)" using distinct_clearjunk [of dk] by (simp add: distinct_map)
  then have "distinct (read_dir d dk)"
    by (auto simp: read_dir_def distinct_map inj_on_def split_beta)
  moreover have "inj_on fst (set (read_dir d dk))"
    by (rule inj_onI) (metis option.inject prod.collapse set_read_dir)
  ultimately show ?thesis by (simp add: distinct_map)
qed

section \<open>The recovery loop on a disk the backlog wrote\<close>

text \<open>The record an entry contributes.\<close>

definition rec_of :: "string \<times> content \<Rightarrow> rec option" where
  "rec_of e = (if has_suffix (fst e) ''.tmp'' then None else usable_record (snd e))"

definition entry_ok :: "string \<times> content \<Rightarrow> bool" where
  "entry_ok e \<longleftrightarrow>
     has_suffix (fst e) ''.tmp'' \<or>
     (\<exists>r. snd e = RecordFile r \<and> fst e = seq_name (sequence r) \<and>
          0 < sequence r \<and> sequence r < 2 ^ 64 \<and> event_uuid (event (subm r)) \<noteq> '''')"

lemma seq_name_json [simp]: "has_suffix (seq_name n) ''.json''"
  by (simp add: seq_name_def)

lemma recover_entry_tmp:
  assumes "has_suffix (fst e) ''.tmp''"
  shows "same_queue b (recover_entry F e b)" "view (disk (recover_entry F e b)) = view (disk b)"
proof -
  have "same_mem b (snd (fs_remove F (PendingDir, fst e) b))" by (rule same_mem_fs)
  then show "same_queue b (recover_entry F e b)"
    using assms by (auto simp: recover_entry_def Let_def)
  show "view (disk (recover_entry F e b)) = view (disk b)"
    using assms by (simp add: recover_entry_def Let_def view_fs_tmp)
qed

lemma recover_entry_record:
  assumes "snd e = RecordFile r" "fst e = seq_name (sequence r)" "0 < sequence r"
    "event_uuid (event (subm r)) \<noteq> ''''"
  shows "queue (recover_entry F e b) = (if F (tick b) = None then queue b @ [r] else queue b)"
    "counter (recover_entry F e b) =
       (if F (tick b) = None then max (counter b) (sequence r) else counter b)"
    "cfg (recover_entry F e b) = cfg b" "disk (recover_entry F e b) = disk b"
  using assms
  by (auto simp: recover_entry_def Let_def usable_record_def split: option.splits)

text \<open>What a run of the loop over \<open>es\<close> leaves: the records of a subsequence of the entries (all of
  them when no read fails) at the end of the queue, an unchanged visible disk, a counter above every
  recovered sequence.\<close>

definition recovered :: "faults \<Rightarrow> (string \<times> content) list \<Rightarrow> backlog \<Rightarrow> backlog \<Rightarrow> bool" where
  "recovered F es b b' \<longleftrightarrow>
     (\<exists>es'. subseq es' es \<and> (F = no_faults \<longrightarrow> es' = es) \<and>
            queue b' = queue b @ List.map_filter rec_of es') \<and>
     view (disk b') = view (disk b) \<and> cfg b' = cfg b \<and> counter b' < 2 ^ 64 \<and>
     (\<forall>r \<in> set (queue b'). sequence r \<le> counter b')"

lemma recover_loop_effect:
  assumes "list_all entry_ok es" "counter b < 2 ^ 64"
    "\<forall>r \<in> set (queue b). sequence r \<le> counter b"
  shows "recovered F es b (recover_loop F es b)"
  using assms
proof (induction es arbitrary: b)
  case Nil
  then show ?case by (auto simp: recovered_def map_filter_simps)
next
  case (Cons e es)
  let ?b = "recover_entry F e b"
  show ?case
  proof (cases "has_suffix (fst e) ''.tmp''")
    case True
    note t = recover_entry_tmp [OF True]
    have q: "queue ?b = queue b" "counter ?b = counter b" "cfg ?b = cfg b"
      using same_queueD [OF t(1)] by auto
    have "recovered F es ?b (recover_loop F es ?b)"
      by (rule Cons.IH) (use Cons.prems q in auto)
    then obtain es' where "subseq es' es" "F = no_faults \<longrightarrow> es' = es"
      "queue (recover_loop F es ?b) = queue b @ List.map_filter rec_of es'"
      and rest: "recovered F es ?b (recover_loop F es ?b)"
      unfolding recovered_def q by blast
    then have "\<exists>es'. subseq es' (e # es) \<and> (F = no_faults \<longrightarrow> es' = e # es) \<and>
        queue (recover_loop F (e # es) b) = queue b @ List.map_filter rec_of es'"
      using True by (intro exI [of _ "e # es'"]) (auto simp: map_filter_simps rec_of_def)
    then show ?thesis using rest t(2) q by (simp add: recovered_def)
  next
    case False
    with Cons.prems(1) obtain r where r: "snd e = RecordFile r" "fst e = seq_name (sequence r)"
      "0 < sequence r" "sequence r < 2 ^ 64" "event_uuid (event (subm r)) \<noteq> ''''"
      by (auto simp: entry_ok_def)
    note t = recover_entry_record [OF r(1,2,3,5)]
    have "recovered F es ?b (recover_loop F es ?b)"
      by (rule Cons.IH) (use Cons.prems t r(4) in auto)
    then obtain es' where "subseq es' es" "F = no_faults \<longrightarrow> es' = es"
      "queue (recover_loop F es ?b) = queue ?b @ List.map_filter rec_of es'"
      and rest: "recovered F es ?b (recover_loop F es ?b)"
      unfolding recovered_def by blast
    moreover have "rec_of e = Some r" using r False by (simp add: rec_of_def usable_record_def)
    ultimately have "\<exists>es'. subseq es' (e # es) \<and> (F = no_faults \<longrightarrow> es' = e # es) \<and>
        queue (recover_loop F (e # es) b) = queue b @ List.map_filter rec_of es'"
      using t by (intro exI [of _ "if F (tick b) = None then e # es' else es'"])
        (auto simp: map_filter_simps no_faults_def)
    then show ?thesis using rest t by (simp add: recovered_def)
  qed
qed

section \<open>Open\<close>

lemma same_queue_loadInactive:
  "same_queue b (loadInactiveLocked F b) \<and> disk (loadInactiveLocked F b) = disk b"
proof -
  have "queue (load_inactive_loop st b) = queue b \<and> cfg (load_inactive_loop st b) = cfg b \<and>
    counter (load_inactive_loop st b) = counter b \<and> disk (load_inactive_loop st b) = disk b" for st b
    by (induction st b rule: load_inactive_loop.induct) (auto simp: Let_def)
  then show ?thesis
    by (auto simp: loadInactiveLocked_def same_queue_def split: option.splits content.splits)
qed

lemma disk_ok_entries:
  assumes "disk_ok (view dk)"
  shows "list_all entry_ok (read_dir PendingDir dk)"
  unfolding list_all_iff
proof
  fix e assume "e \<in> set (read_dir PendingDir dk)"
  then have m: "map_of dk (PendingDir, fst e) = Some (snd e)" by (metis prod.collapse set_read_dir)
  show "entry_ok e"
  proof (cases "has_suffix (fst e) ''.tmp''")
    case True
    then show ?thesis by (simp add: entry_ok_def)
  next
    case False
    with m have "view dk (PendingDir, fst e) = Some (snd e)" by (simp add: view_def)
    with assms show ?thesis unfolding disk_ok_def entry_ok_def by blast
  qed
qed

lemma rec_of_SomeD:
  assumes "disk_ok (view dk)" "e \<in> set (read_dir PendingDir dk)" "rec_of e = Some r"
  shows "fst e = seq_name (sequence r)" "view dk (rec_path r) = Some (RecordFile r)"
    "0 < sequence r" "event_uuid (event (subm r)) \<noteq> ''''" "json_submission (subm r) = subm r"
proof -
  from assms(3) have nt: "\<not> has_suffix (fst e) ''.tmp''" and u: "usable_record (snd e) = Some r"
    by (auto simp: rec_of_def split: if_splits)
  from assms(2) have "map_of dk (PendingDir, fst e) = Some (snd e)" by (metis prod.collapse set_read_dir)
  with nt have v: "view dk (PendingDir, fst e) = Some (snd e)" by (simp add: view_def)
  with assms(1) obtain r' where r': "snd e = RecordFile r'" "fst e = seq_name (sequence r')"
    "0 < sequence r'" "event_uuid (event (subm r')) \<noteq> ''''" "json_submission (subm r') = subm r'"
    unfolding disk_ok_def by blast
  with u have "r' = r" by (simp add: usable_record_def)
  with r' v show "fst e = seq_name (sequence r)" "view dk (rec_path r) = Some (RecordFile r)"
    "0 < sequence r" "event_uuid (event (subm r)) \<noteq> ''''" "json_submission (subm r) = subm r"
    by (simp_all add: rec_path_def)
qed

lemma distinct_subseq: "subseq xs ys \<Longrightarrow> distinct ys \<Longrightarrow> distinct xs"
  by (induction rule: list_emb.induct) (auto dest: list_emb_set)

lemma distinct_recovered:
  assumes "disk_ok (view dk)" "subseq es (read_dir PendingDir dk)"
  shows "distinct (map sequence (List.map_filter rec_of es))"
proof -
  have names: "distinct (map fst es)"
    using subseq_map [OF assms(2), of fst] distinct_read_dir by (rule distinct_subseq)
  have sub: "set es \<subseteq> set (read_dir PendingDir dk)"
    using assms(2) by (auto dest: list_emb_set)
  from names sub show ?thesis
  proof (induction es)
    case Nil
    then show ?case by (simp add: map_filter_simps)
  next
    case (Cons e es)
    then have IH: "distinct (map sequence (List.map_filter rec_of es))" by simp
    show ?case
    proof (cases "rec_of e")
      case None
      with IH show ?thesis by (simp add: map_filter_simps)
    next
      case (Some r)
      have "sequence r \<noteq> sequence r'" if "r' \<in> set (List.map_filter rec_of es)" for r'
      proof
        assume eq: "sequence r = sequence r'"
        from that obtain e' where e': "e' \<in> set es" "rec_of e' = Some r'"
          by (auto simp: List.map_filter_def)
        then have "fst e' = seq_name (sequence r')"
          using rec_of_SomeD(1) [OF assms(1) _ e'(2)] Cons.prems(2) by auto
        moreover have "fst e = seq_name (sequence r)"
          using rec_of_SomeD(1) [OF assms(1) _ Some] Cons.prems(2) by auto
        ultimately show False using eq e'(1) Cons.prems(1) by (metis distinct.simps(2) image_eqI list.simps(9) set_map)
      qed
      with IH Some show ?thesis by (auto simp: map_filter_simps)
    qed
  qed
qed

lemma enforce_no_fault: "fst (enforceQuarantineBoundLocked no_faults b) = None"
proof (induction "length (quarantine_seqs b)" arbitrary: b)
  case 0
  then show ?case by (subst enforceQuarantineBoundLocked.simps) simp
next
  case (Suc n)
  obtain e b1 where rm: "fs_remove no_faults (QuarantineDir, seq_name (hd (quarantine_seqs b))) b = (e, b1)"
    by fastforce
  have ne: "isNotExist x" if "e = Some x" for x
    using rm that by (auto simp: fs_remove_def isNotExist_def no_faults_def split: option.splits)
  show ?case
    using Suc.hyps rm ne
    by (subst enforceQuarantineBoundLocked.simps) (auto split: option.splits)
qed

lemma Open_effect:
  assumes ok: "disk_ok (view dk)"
    and recov: "loadQuarantineLocked F (recover F (new_backlog c dk t)) = (res, b')"
  shows "binv b' \<and> cfg b' = c \<and>
    (\<forall>n. view (disk b') (PendingDir, n) = view dk (PendingDir, n)) \<and>
    (F = no_faults \<longrightarrow>
       set (queue b') = {r. view dk (rec_path r) = Some (RecordFile r)})"
proof -
  let ?b0 = "new_backlog c dk t"
  let ?es = "read_dir PendingDir dk"
  have b0: "queue ?b0 = []" "counter ?b0 = 0" "cfg ?b0 = c" "disk ?b0 = dk" by (simp_all add: new_backlog_def)
  define b1 where "b1 = recover_loop F ?es ?b0"
  have "recovered F ?es ?b0 b1"
    unfolding b1_def by (rule recover_loop_effect [OF disk_ok_entries [OF ok]]) (simp_all add: b0)
  then obtain es where es: "subseq es ?es" "F = no_faults \<longrightarrow> es = ?es"
    "queue b1 = List.map_filter rec_of es"
    and b1: "view (disk b1) = view dk" "cfg b1 = c" "counter b1 < 2 ^ 64"
    "\<forall>r \<in> set (queue b1). sequence r \<le> counter b1"
    by (auto simp: recovered_def b0)
  define b2 where "b2 = b1\<lparr>queue := sort_key sequence (queue b1)\<rparr>"
  define b3 where "b3 = recover F ?b0"
  have "same_queue b2 b3" "disk b3 = disk b2"
    using same_queue_loadInactive [of "b2\<lparr>recovered_ops := length (queue b2)\<rparr>" F]
    by (auto simp: b3_def recover_def Let_def b2_def b1_def b0 same_queue_def)
  define b4 where "b4 = b'"
  have "same_queue b3 b'" and v': "\<forall>n. view (disk b') (PendingDir, n) = view (disk b3) (PendingDir, n)"
  proof -
    obtain qs where "b' = snd (enforceQuarantineBoundLocked F
      (b3\<lparr>quarantine_seqs := qs, quarantined := int (length qs)\<rparr>))"
      using recov unfolding loadQuarantineLocked_def Let_def b3_def [symmetric] by (metis snd_conv)
    then show "same_queue b3 b'" "\<forall>n. view (disk b') (PendingDir, n) = view (disk b3) (PendingDir, n)"
      using enforce_frame [of "b3\<lparr>quarantine_seqs := qs, quarantined := int (length qs)\<rparr>" F]
      by (auto simp: same_queue_def)
  qed
  then have q': "queue b' = sort_key sequence (queue b1)" "counter b' = counter b1" "cfg b' = c"
    using \<open>same_queue b2 b3\<close> b1(2) by (simp_all add: same_queue_def b2_def)
  have v: "view (disk b') (PendingDir, n) = view dk (PendingDir, n)" for n
    using v' \<open>disk b3 = disk b2\<close> b1(1) by (simp add: b2_def)
  have rs: "view dk (rec_path r) = Some (RecordFile r)" "0 < sequence r"
    "event_uuid (event (subm r)) \<noteq> ''''" "json_submission (subm r) = subm r"
    if "r \<in> set (queue b1)" for r
  proof -
    from that es(3) obtain e where e: "e \<in> set es" "rec_of e = Some r"
      by (auto simp: List.map_filter_def)
    have "e \<in> set ?es" using e(1) es(1) by (auto dest: list_emb_set)
    then show "view dk (rec_path r) = Some (RecordFile r)" "0 < sequence r"
      "event_uuid (event (subm r)) \<noteq> ''''" "json_submission (subm r) = subm r"
      using rec_of_SomeD [OF ok _ e(2)] by blast+
  qed
  have "distinct (map sequence (sort_key sequence (queue b1)))"
    using distinct_recovered [OF ok es(1)] es(3) by (simp add: distinct_map)
  then have "sorted_wrt (<) (map sequence (queue b'))"
    unfolding q'(1) by (simp add: strict_sorted_iff)
  then have "ids_ok (ids b') (counter b')"
    using rs b1(4) q' by (auto simp: ids_ok_def ids_def comp_def)
  moreover have "disk_ok (view (disk b'))" using ok v by (simp add: disk_ok_def)
  moreover have "stored (view (disk b')) x" if "x \<in> set (ids b')" for x
    using that rs v q'(1) by (force simp: ids_def stored_def rec_path_def)
  ultimately have "binv b'" using q' b1(3) by (simp add: binv_def)
  moreover have "set (queue b') = {r. view dk (rec_path r) = Some (RecordFile r)}"
    if nf: "F = no_faults"
  proof -
    have "r \<in> set (queue b1)" if vr: "view dk (rec_path r) = Some (RecordFile r)" for r
    proof -
      have "(seq_name (sequence r), RecordFile r) \<in> set ?es"
        using vr by (simp add: set_read_dir view_def rec_path_def)
      moreover have "rec_of (seq_name (sequence r), RecordFile r) = Some r"
        using ok vr by (auto simp: rec_of_def usable_record_def disk_ok_def rec_path_def)
      ultimately show ?thesis using es nf by (force simp: List.map_filter_def)
    qed
    then show ?thesis using rs q'(1) by auto
  qed
  ultimately show ?thesis using q' v by blast
qed

section \<open>The running backlog\<close>

text \<open>A state is the backlog and the record the drain loop is sending. Producers and reactivations may
  run while a record is in flight; a crash loses the memory and keeps the disk. A crash in the
  middle of an operation is one whose remaining file system calls fail. The sequence counter is
  assumed not to have reached \<open>2^64 - 1\<close> when a producer submits.\<close>

inductive bstep :: "backlog \<times> rec option \<Rightarrow> backlog \<times> rec option \<Rightarrow> bool" where
  enqueue: "Suc (counter b) < 2 ^ 64 \<Longrightarrow> bstep (b, fl) (snd (Enqueue F stat now s b), fl)"
| pick: "ProcessOne_begin now b = Some r \<Longrightarrow> bstep (b, None) (b, Some r)"
| finish: "bstep (b, Some r) (ProcessOne_finish F now r err b, None)"
| reactivate: "bstep (b, fl) (MarkCandidateActive F now k b, fl)"
| restart: "Open F c (disk b) t = Inr b' \<Longrightarrow> bstep (b, fl) (b', None)"

inductive_cases bstepE: "bstep s t"

definition binit :: "backlog \<times> rec option \<Rightarrow> bool" where
  "binit s \<longleftrightarrow> (\<exists>F c t. Open F c [] t = Inr (fst s)) \<and> snd s = None"

definition sinv :: "backlog \<times> rec option \<Rightarrow> bool" where
  "sinv s \<longleftrightarrow> binv (fst s) \<and> flight_ok (fst s) (snd s)"

lemma Open_inv:
  assumes "disk_ok (view dk)" "Open F c dk t = Inr b"
  shows "binv b"
proof -
  from assms(2) obtain e where
    "loadQuarantineLocked F (recover F (new_backlog (normalize_config c) dk t)) = (e, b)"
    by (auto simp: Open_def split: if_splits prod.splits option.splits)
  from Open_effect [OF assms(1) this] show ?thesis by blast
qed

lemma flight_ok_keeps: "keeps b b' \<Longrightarrow> flight_ok b fl \<Longrightarrow> flight_ok b' fl"
  by (auto simp: flight_ok_def keeps_def split: option.splits)

lemma select_loop_index:
  "select_loop now d i rs = Some j \<Longrightarrow> i \<le> j \<and> j - i < length rs"
  by (induction now d i rs rule: select_loop.induct) (fastforce split: if_splits)+

lemma ProcessOne_begin_mem: "ProcessOne_begin now b = Some r \<Longrightarrow> r \<in> set (queue b)"
  by (auto simp: ProcessOne_begin_def dest: select_loop_index)

interpretation bl: machine binit bstep sinv
proof
  fix s assume "binit s"
  then obtain F c t where "Open F c [] t = Inr (fst s)" "snd s = None" by (auto simp: binit_def)
  moreover have "disk_ok (view [])" by (simp add: disk_ok_def view_def)
  ultimately show "sinv s" by (auto simp: sinv_def flight_ok_def intro: Open_inv)
next
  fix s s' assume inv: "sinv s" and st: "bstep s s'"
  from st show "sinv s'"
  proof cases
    case (enqueue b fl F stat now sb)
    obtain res b' where e: "Enqueue F stat now sb b = (res, b')" by fastforce
    have ib: "binv b" and fl: "flight_ok b fl" using inv enqueue(1) by (simp_all add: sinv_def)
    from Enqueue_effect [OF ib enqueue(3) e] fl
    have "binv b'" "flight_ok b' fl" by (auto simp: flight_ok_def split: option.splits)
    then show ?thesis using enqueue(2) e by (simp add: sinv_def)
  next
    case (pick now b r)
    have ib: "binv b" using inv pick(1) by (simp add: sinv_def)
    have "ident r \<in> set (ids b)" using ProcessOne_begin_mem [OF pick(3)] by (simp add: ids_def)
    moreover have "distinct (map fst (ids b))"
      using ib by (auto simp: binv_def ids_ok_def strict_sorted_iff)
    ultimately have "flight_ok b (Some r)"
      using ib by (auto simp: flight_ok_def binv_def ids_ok_def dest: eq_key_imp_eq_value)
    then show ?thesis using ib pick(2) by (simp add: sinv_def)
  next
    case (finish b r F now err)
    then show ?thesis using inv ProcessOne_finish_inv
      by (simp add: sinv_def) (simp add: flight_ok_def)
  next
    case (reactivate b fl F now k)
    then show ?thesis using inv markActiveLocked_inv [of b F now k] flight_ok_keeps
      by (auto simp: sinv_def MarkCandidateActive_def)
  next
    case (restart F c b t b' fl)
    have "disk_ok (view (disk b))" using inv restart(1) by (simp add: sinv_def binv_def)
    then have "binv b'" using restart(3) by (rule Open_inv)
    then show ?thesis using restart(2) by (simp add: sinv_def flight_ok_def)
  qed
qed

text \<open>The states of a backlog that started in an empty directory.\<close>

definition breachable :: "backlog \<times> rec option \<Rightarrow> bool" where
  "breachable s \<longleftrightarrow> (\<exists>s0. binit s0 \<and> bstep\<^sup>*\<^sup>* s0 s)"

lemma breachable_inv: "breachable s \<Longrightarrow> sinv s"
  by (auto simp: breachable_def intro: bl.invar_reachable)

end
