(* ===== verification/Backlog_Props.thy ===== *)
theory Backlog_Props
  imports Backlog_Recovery
begin

text \<open>
  The properties of the event backlog: crash recovery, ordering, capacity, idempotency, retry
  delays, what makes a record leave the queue, and that a reachable SaaS drains it.
\<close>

section \<open>Sample data for the witnesses\<close>

definition sample_event :: "string \<Rightarrow> string \<Rightarrow> local_event" where
  "sample_event u k = \<lparr>event_uuid = u, candidate_key = k, ev_class = ''person'', confidence = Fin 1,
     bbox = MapFloat [(''x'', Fin 1)], ev_timestamp = ''t'', correlation_id = ''''\<rparr>"

definition sample_sub :: "string \<Rightarrow> string \<Rightarrow> submission" where
  "sample_sub u k = \<lparr>event = sample_event u k, capture = None, clip = None\<rparr>"

definition sample_cfg :: config where
  "sample_cfg = \<lparr>max_operations = 2, max_bytes = 100, retry_base = second, retry_max = 60 * second,
     inactive_retention = DefaultInactiveRetention\<rparr>"

definition sample_rec :: "nat \<Rightarrow> string \<Rightarrow> string \<Rightarrow> rec" where
  "sample_rec n u k = \<lparr>sequence = n, created_at = 5, stage = ''metadata'', subm = sample_sub u k,
     attempts = 0, next_attempt = zero_time, inactive_since = None\<rparr>"

definition sample_empty :: backlog where
  "sample_empty = new_backlog sample_cfg [] 1"

text \<open>One event accepted at instant 5 into an empty backlog.\<close>

definition sample_one :: backlog where
  "sample_one = sample_empty\<lparr>queue := [sample_rec 1 ''e1'' ''cam''], counter := 1,
     disk := [(rec_path (sample_rec 1 ''e1'' ''cam''),
               RecordFile (json_record (sample_rec 1 ''e1'' ''cam'')))],
     tick := 3\<rparr>"

lemma sample_open: "Open no_faults sample_cfg [] 0 = Inr sample_empty"
proof -
  have [simp]: "read_dir d [] = []" for d by (simp add: read_dir_def)
  have [simp]: "enforceQuarantineBoundLocked no_faults sample_empty = (None, sample_empty)"
    by (subst enforceQuarantineBoundLocked.simps) (simp add: sample_empty_def new_backlog_def sample_cfg_def)
  have "normalize_config sample_cfg = sample_cfg"
    by (simp add: normalize_config_def sample_cfg_def second_def DefaultInactiveRetention_def)
  moreover have "recover no_faults (new_backlog sample_cfg [] 0) = sample_empty"
    by (simp add: recover_def loadInactiveLocked_def no_faults_def new_backlog_def sample_empty_def step_fs_def)
  moreover have "sample_empty\<lparr>quarantine_seqs := [], quarantined := 0\<rparr> = sample_empty"
    by (simp add: sample_empty_def new_backlog_def)
  moreover have "disk sample_empty = []" by (simp add: sample_empty_def new_backlog_def)
  ultimately show ?thesis
    by (simp add: Open_def loadQuarantineLocked_def map_filter_simps) (simp add: sample_cfg_def)
qed

lemma sample_enqueue:
  "Enqueue no_faults (\<lambda>p. None) 5 (sample_sub ''e1'' ''cam'') sample_empty = (None, sample_one)"
  by (simp add: Enqueue_def enqueue_store_def writeLocked_def marshal_def sample_sub_def sample_event_def
      is_fin_def fs_write_def fs_rename_def no_faults_def sample_empty_def new_backlog_def sample_one_def
      sample_rec_def sample_cfg_def Let_def pendingBytes_def submissionBytes_def step_fs_def rec_path_def
      json_record_def tmp_path_def)

lemma sample_reachable: "breachable (sample_one, None)"
proof -
  have "binit (sample_empty, None)" using sample_open by (auto simp: binit_def)
  moreover have "Suc (counter sample_empty) < 2 ^ 64" by (simp add: sample_empty_def new_backlog_def)
  from bstep.enqueue [OF this, of None no_faults "\<lambda>p. None" 5 "sample_sub ''e1'' ''cam''"]
  have "bstep (sample_empty, None) (sample_one, None)" by (simp add: sample_enqueue)
  ultimately show ?thesis unfolding breachable_def by blast
qed

section \<open>Crash recovery\<close>

lemma sorted_subseq:
  fixes f :: "'a \<Rightarrow> 'b :: linorder"
  shows "sorted_wrt (<) (map f xs) \<Longrightarrow> sorted_wrt (<) (map f ys) \<Longrightarrow> set xs \<subseteq> set ys \<Longrightarrow> subseq xs ys"
proof (induction ys arbitrary: xs)
  case (Cons y ys)
  show ?case
  proof (cases xs)
    case (Cons x xs')
    show ?thesis
    proof (cases "x = y")
      case True
      then have "set xs' \<subseteq> set ys" using Cons.prems Cons by fastforce
      then show ?thesis using Cons.IH [of xs'] Cons.prems Cons True by simp
    next
      case False
      then have "x \<in> set ys" using Cons.prems(3) Cons by auto
      then have "f y < f x" using Cons.prems(2) by simp
      then have "y \<notin> set xs" using Cons.prems(1) Cons by fastforce
      then have "set xs \<subseteq> set ys" using Cons.prems(3) by auto
      then show ?thesis using Cons.IH [of xs] Cons.prems by (simp add: list_emb_Cons)
    qed
  qed simp
qed simp

text \<open>C1. Durability. Take any state the backlog can reach from an empty directory, through any
  interleaving of submissions, sends, reactivations, crashes and restarts, with any pattern of file
  system failures. Reopening its disk, with no further failure, succeeds, and the recovered queue
  contains every queued event, under its sequence number, with its submission (the bounding box in
  the form JSON gives it) and in the order of the queue. No accepted event is lost or reordered by a
  crash.\<close>

theorem backlog_crash_recovery:
  assumes "breachable (b, fl)" "max_operations c > 0" "max_bytes c > 0"
  shows "\<exists>b'. Open no_faults c (disk b) t = Inr b' \<and>
    subseq (map (\<lambda>r. (sequence r, json_submission (subm r))) (queue b)) (map (\<lambda>r. (sequence r, subm r)) (queue b'))"
proof -
  from breachable_inv [OF assms(1)] have inv: "binv b" by (simp add: sinv_def)
  then have ok: "disk_ok (view (disk b))" by (simp add: binv_def)
  obtain e b' where load:
    "loadQuarantineLocked no_faults (recover no_faults (new_backlog (normalize_config c) (disk b) t)) = (e, b')"
    by fastforce
  then have "e = None"
    unfolding loadQuarantineLocked_def Let_def using enforce_no_fault by (metis fst_conv)
  with load assms(2,3) have opened: "Open no_faults c (disk b) t = Inr b'" by (simp add: Open_def)
  have mem: "\<exists>r' \<in> set (queue b'). sequence r' = sequence r \<and> subm r' = json_submission (subm r)"
    if "r \<in> set (queue b)" for r
  proof -
    from that inv have "stored (view (disk b)) (ident r)" by (auto simp: binv_def ids_def)
    then obtain r' where r': "view (disk b) (rec_path r') = Some (RecordFile r')"
      "sequence r' = sequence r" "subm r' = json_submission (subm r)"
      by (auto simp: stored_def rec_path_def)
    with Open_effect [OF ok load] show ?thesis by auto
  qed
  have "sorted_wrt (<) (map sequence (queue b))" "sorted_wrt (<) (map sequence (queue b'))"
    using inv Open_inv [OF ok opened] by (simp_all add: binv_def ids_ok_def ids_def comp_def)
  moreover have "set (map (\<lambda>r. (sequence r, json_submission (subm r))) (queue b)) \<subseteq> set (map (\<lambda>r. (sequence r, subm r)) (queue b'))"
  proof
    fix x assume "x \<in> set (map (\<lambda>r. (sequence r, json_submission (subm r))) (queue b))"
    then obtain r where r: "r \<in> set (queue b)" "x = (sequence r, json_submission (subm r))" by auto
    then obtain r' where "r' \<in> set (queue b')" "x = (sequence r', subm r')" using mem [OF r(1)] by metis
    then show "x \<in> set (map (\<lambda>r. (sequence r, subm r)) (queue b'))" by simp
  qed
  ultimately have "subseq (map (\<lambda>r. (sequence r, json_submission (subm r))) (queue b)) (map (\<lambda>r. (sequence r, subm r)) (queue b'))"
    by (intro sorted_subseq [where f = fst]) (simp_all add: comp_def)
  with opened show ?thesis by blast
qed

theorem backlog_crash_recovery_witness:
  "breachable (sample_one, None) \<and>
   (\<exists>b'. Open no_faults sample_cfg (disk sample_one) 0 = Inr b' \<and> (\<exists>r \<in> set (queue b'). sequence r = 1))"
proof -
  have "max_operations sample_cfg > 0" "max_bytes sample_cfg > 0" by (simp_all add: sample_cfg_def)
  from backlog_crash_recovery [OF sample_reachable this, of 0] obtain b' where
    b': "Open no_faults sample_cfg (disk sample_one) 0 = Inr b'"
    "subseq (map (\<lambda>r. (sequence r, json_submission (subm r))) (queue sample_one)) (map (\<lambda>r. (sequence r, subm r)) (queue b'))"
    by blast
  obtain x where x: "x \<in> set (map (\<lambda>r. (sequence r, json_submission (subm r))) (queue sample_one))" "fst x = 1"
    by (rule that [of "(1, json_submission (subm (hd (queue sample_one))))"]) (simp_all add: sample_one_def sample_rec_def)
  have "x \<in> set (map (\<lambda>r. (sequence r, subm r)) (queue b'))" by (rule list_emb_set [OF b'(2) x(1)]) simp
  with x(2) have "\<exists>r \<in> set (queue b'). sequence r = 1" by auto
  with b'(1) sample_reachable show ?thesis by blast
qed

text \<open>C15. In every reachable state the queue is in strictly increasing sequence order, sequences are
  positive and none exceeds the counter, every queued event has an id; the file of every queued record
  is there, named after its sequence, with the record's submission; and every file of \<open>pending/\<close> that
  recovery would read is a complete record named after its sequence (no truncated record is ever
  visible, whatever failed).\<close>

theorem backlog_queue_invariant:
  assumes "breachable (b, fl)"
  shows "sorted_wrt (<) (map sequence (queue b)) \<and>
    (\<forall>r \<in> set (queue b). 0 < sequence r \<and> sequence r \<le> counter b \<and> event_uuid (event (subm r)) \<noteq> '''' \<and>
       (\<exists>r'. map_of (disk b) (PendingDir, seq_name (sequence r)) = Some (RecordFile r') \<and>
          sequence r' = sequence r \<and> subm r' = json_submission (subm r))) \<and>
    (\<forall>name c. map_of (disk b) (PendingDir, name) = Some c \<longrightarrow> \<not> has_suffix name ''.tmp'' \<longrightarrow>
       (\<exists>r. c = RecordFile r \<and> name = seq_name (sequence r)))"
proof -
  from breachable_inv [OF assms] have inv: "binv b" by (simp add: sinv_def)
  then have "sorted_wrt (<) (map sequence (queue b))"
    "\<forall>r \<in> set (queue b). 0 < sequence r \<and> sequence r \<le> counter b \<and> event_uuid (event (subm r)) \<noteq> ''''"
    by (auto simp: binv_def ids_ok_def ids_def comp_def)
  moreover have "\<exists>r'. map_of (disk b) (PendingDir, seq_name (sequence r)) = Some (RecordFile r') \<and>
      sequence r' = sequence r \<and> subm r' = json_submission (subm r)" if "r \<in> set (queue b)" for r
  proof -
    have "stored (view (disk b)) (ident r)" using that inv by (auto simp: binv_def ids_def)
    then show ?thesis by (auto simp: stored_def view_def split: if_splits)
  qed
  moreover have "\<exists>r. c = RecordFile r \<and> name = seq_name (sequence r)"
    if "map_of (disk b) (PendingDir, name) = Some c" "\<not> has_suffix name ''.tmp''" for name c
  proof -
    have "view (disk b) (PendingDir, name) = Some c" using that by (simp add: view_def)
    then show ?thesis using inv unfolding binv_def disk_ok_def by blast
  qed
  ultimately show ?thesis by blast
qed

theorem backlog_queue_invariant_witness:
  "queue sample_one \<noteq> [] \<and> sorted_wrt (<) (map sequence (queue sample_one)) \<and>
   sequence (hd (queue sample_one)) \<le> counter sample_one"
  using backlog_queue_invariant [OF sample_reachable] by (simp add: sample_one_def)

section \<open>Ordering\<close>

text \<open>The selection loop started at \<open>i\<close> with a set of blocked cameras.\<close>

lemma select_loop_SomeD:
  assumes "select_loop now d i rs = Some j"
  shows "i \<le> j \<and> j - i < length rs \<and> due now (rs ! (j - i)) \<and> rec_key (rs ! (j - i)) \<notin> set d \<and>
    (\<forall>m < j - i. rec_key (rs ! m) \<noteq> rec_key (rs ! (j - i)))"
  using assms
proof (induction now d i rs rule: select_loop.induct)
  case (1 now d i)
  then show ?case by simp
next
  case (2 now d i r rs)
  consider (deferred) "\<not> due now r" | (blocked) "due now r" "rec_key r \<in> set d"
    | (hit) "due now r" "rec_key r \<notin> set d" by blast
  then show ?case
  proof cases
    case deferred
    with 2 have IH: "Suc i \<le> j \<and> j - Suc i < length rs \<and> due now (rs ! (j - Suc i)) \<and>
      rec_key (rs ! (j - Suc i)) \<notin> set (rec_key r # d) \<and>
      (\<forall>m < j - Suc i. rec_key (rs ! m) \<noteq> rec_key (rs ! (j - Suc i)))" by simp
    then have "j - i = Suc (j - Suc i)" by arith
    with IH show ?thesis by (auto simp: nth_Cons split: nat.splits)
  next
    case blocked
    with 2 have IH: "Suc i \<le> j \<and> j - Suc i < length rs \<and> due now (rs ! (j - Suc i)) \<and>
      rec_key (rs ! (j - Suc i)) \<notin> set d \<and>
      (\<forall>m < j - Suc i. rec_key (rs ! m) \<noteq> rec_key (rs ! (j - Suc i)))" by simp
    then have "j - i = Suc (j - Suc i)" by arith
    with IH blocked show ?thesis by (auto simp: nth_Cons split: nat.splits)
  next
    case hit
    with 2 show ?thesis by simp
  qed
qed

lemma select_loop_NoneD:
  assumes "select_loop now d i rs = None" "m < length rs"
  shows "rec_key (rs ! m) \<in> set d \<or>
    (\<exists>n \<le> m. rec_key (rs ! n) = rec_key (rs ! m) \<and> \<not> due now (rs ! n))"
  using assms
proof (induction now d i rs arbitrary: m rule: select_loop.induct)
  case (1 now d i)
  then show ?case by simp
next
  case (2 now d i r rs)
  show ?case
  proof (cases m)
    case 0
    with "2.prems" show ?thesis by (auto split: if_splits)
  next
    case (Suc m')
    then have m': "m' < length rs" "(r # rs) ! m = rs ! m'" using "2.prems"(2) by simp_all
    have shift: "\<exists>n \<le> m. rec_key ((r # rs) ! n) = rec_key ((r # rs) ! m) \<and> \<not> due now ((r # rs) ! n)"
      if "\<exists>n \<le> m'. rec_key (rs ! n) = rec_key (rs ! m') \<and> \<not> due now (rs ! n)"
      using that Suc by (metis Suc_le_mono nth_Cons_Suc)
    show ?thesis
    proof (cases "due now r")
      case False
      with 2 m' have "rec_key (rs ! m') \<in> set (rec_key r # d) \<or>
        (\<exists>n \<le> m'. rec_key (rs ! n) = rec_key (rs ! m') \<and> \<not> due now (rs ! n))" by simp
      then show ?thesis using shift False m'(2) by (auto intro: exI [of _ 0])
    next
      case True
      with 2 m' have "rec_key (rs ! m') \<in> set d \<or>
        (\<exists>n \<le> m'. rec_key (rs ! n) = rec_key (rs ! m') \<and> \<not> due now (rs ! n))"
        by (auto split: if_splits)
      then show ?thesis using shift m'(2) by auto
    qed
  qed
qed

text \<open>C31. Strict order per camera. The record \<open>ProcessOne\<close> sends is due, and no earlier record of the
  queue belongs to the same camera: a camera's events reach the SaaS in the order they were
  accepted, even while another camera's records are deferred.\<close>

theorem backlog_camera_fifo:
  assumes "ProcessOne_begin now b = Some r"
  shows "\<exists>i < length (queue b). queue b ! i = r \<and> due now r \<and>
    (\<forall>j < i. rec_key (queue b ! j) \<noteq> rec_key r)"
proof -
  from assms obtain i where i: "select_loop now [] 0 (queue b) = Some i" "r = queue b ! i"
    by (auto simp: ProcessOne_begin_def)
  from select_loop_SomeD [OF i(1)] i(2) show ?thesis by auto
qed

theorem backlog_camera_fifo_witness:
  "\<exists>i < length (queue sample_one). queue sample_one ! i = sample_rec 1 ''e1'' ''cam'' \<and>
     due 9 (sample_rec 1 ''e1'' ''cam'') \<and>
     (\<forall>j < i. rec_key (queue sample_one ! j) \<noteq> rec_key (sample_rec 1 ''e1'' ''cam''))"
proof -
  have "ProcessOne_begin 9 sample_one = Some (sample_rec 1 ''e1'' ''cam'')"
    by (simp add: ProcessOne_begin_def sample_one_def sample_rec_def due_def)
  from backlog_camera_fifo [OF this] show ?thesis .
qed

text \<open>No head-of-line blocking between cameras. \<open>ProcessOne\<close> finds nothing to send exactly when
  every queued record is not yet due itself or waits behind a record of its own camera that is not
  yet due.\<close>

theorem backlog_no_starvation:
  "ProcessOne_begin now b = None \<longleftrightarrow>
     (\<forall>i < length (queue b). \<exists>j \<le> i. rec_key (queue b ! j) = rec_key (queue b ! i) \<and>
        \<not> due now (queue b ! j))"
proof
  assume "ProcessOne_begin now b = None"
  then have "select_loop now [] 0 (queue b) = None" by (simp add: ProcessOne_begin_def)
  from select_loop_NoneD [OF this] show "\<forall>i < length (queue b). \<exists>j \<le> i.
    rec_key (queue b ! j) = rec_key (queue b ! i) \<and> \<not> due now (queue b ! j)" by simp
next
  assume all: "\<forall>i < length (queue b). \<exists>j \<le> i.
    rec_key (queue b ! j) = rec_key (queue b ! i) \<and> \<not> due now (queue b ! j)"
  show "ProcessOne_begin now b = None"
  proof (rule ccontr)
    assume "ProcessOne_begin now b \<noteq> None"
    then obtain i where "select_loop now [] 0 (queue b) = Some i" by (auto simp: ProcessOne_begin_def)
    from select_loop_SomeD [OF this]
    have i: "i < length (queue b)" "due now (queue b ! i)"
      "\<And>j. j < i \<Longrightarrow> rec_key (queue b ! j) \<noteq> rec_key (queue b ! i)" by auto
    from all i(1) obtain j where "j \<le> i" "rec_key (queue b ! j) = rec_key (queue b ! i)"
      "\<not> due now (queue b ! j)" by blast
    with i show False by (metis le_neq_implies_less)
  qed
qed

theorem backlog_no_starvation_witness:
  "ProcessOne_begin 9 sample_one \<noteq> None \<and> due 9 (hd (queue sample_one))"
  using backlog_no_starvation [of 9 sample_one]
  by (auto simp: sample_one_def sample_rec_def due_def)

section \<open>Capacity\<close>

text \<open>The evidence bytes a submission pins, without wrap-around.\<close>

definition evidence_bytes :: "submission \<Rightarrow> int" where
  "evidence_bytes s =
     (case capture s of None \<Rightarrow> 0 | Some e \<Rightarrow> size_ev e) + (case clip s of None \<Rightarrow> 0 | Some e \<Rightarrow> size_ev e)"

definition total_bytes :: "rec list \<Rightarrow> int" where
  "total_bytes q = sum_list (map (evidence_bytes \<circ> subm) q)"

definition sizes_ok :: "submission \<Rightarrow> bool" where
  "sizes_ok s \<longleftrightarrow>
     (\<forall>e \<in> set_option (capture s) \<union> set_option (clip s). 0 \<le> size_ev e \<and> size_ev e < 2 ^ 61)"

definition within_capacity :: "backlog \<Rightarrow> bool" where
  "within_capacity b \<longleftrightarrow>
     int (length (queue b)) \<le> max_operations (cfg b) \<and> total_bytes (queue b) \<le> max_bytes (cfg b) \<and>
     (\<forall>r \<in> set (queue b). sizes_ok (subm r))"

lemma evidence_bytes_bounds: "sizes_ok s \<Longrightarrow> 0 \<le> evidence_bytes s \<and> evidence_bytes s < 2 ^ 62"
  by (auto simp: sizes_ok_def evidence_bytes_def split: option.splits)

lemma submissionBytes_exact: "sizes_ok s \<Longrightarrow> submissionBytes s = evidence_bytes s"
  by (auto simp: submissionBytes_def evidence_bytes_def sizes_ok_def Let_def wrap64_nonneg_id
      split: option.splits)

lemma pendingBytes_snoc:
  "pendingBytes (q @ [r]) = wrap64 (pendingBytes q + submissionBytes (subm r))"
  by (simp add: pendingBytes_def)

lemma total_bytes_nonneg:
  "(\<forall>r \<in> set q. sizes_ok (subm r)) \<Longrightarrow> 0 \<le> total_bytes q"
  using evidence_bytes_bounds by (auto simp: total_bytes_def intro!: sum_list_nonneg)

lemma pendingBytes_exact:
  assumes "\<forall>r \<in> set q. sizes_ok (subm r)" "total_bytes q < 2 ^ 63"
  shows "pendingBytes q = total_bytes q"
  using assms
proof (induction q rule: rev_induct)
  case Nil
  then show ?case by (simp add: pendingBytes_def total_bytes_def)
next
  case (snoc r q)
  have t: "total_bytes (q @ [r]) = total_bytes q + evidence_bytes (subm r)" by (simp add: total_bytes_def)
  have "0 \<le> evidence_bytes (subm r)" using evidence_bytes_bounds snoc.prems(1) by simp
  moreover have "0 \<le> total_bytes q" using total_bytes_nonneg snoc.prems(1) by simp
  ultimately show ?case
    using snoc t submissionBytes_exact [of "subm r"] by (simp add: pendingBytes_snoc wrap64_nonneg_id)
qed

lemma enqueue_store_queue:
  assumes "enqueue_store F now s probe b = (res, b')"
  shows "cfg b' = cfg b" "queue b' = queue b \<or> (\<exists>r. queue b' = queue b @ [r] \<and> subm r = s)"
proof -
  define b1 where "b1 = b\<lparr>counter := wrap_u64 (Suc (counter b))\<rparr>"
  define r where "r = \<lparr>sequence = counter b1, created_at = now, stage = ''metadata'', subm = s,
    attempts = 0, next_attempt = zero_time, inactive_since = probe\<rparr>"
  obtain e b2 where w: "writeLocked F r b1 = (e, b2)" by fastforce
  define b3 where "b3 = b2\<lparr>disk_full := False, queue := queue b2 @ [r]\<rparr>"
  define b4 where "b4 = b3\<lparr>inactive_probe_at :=
    AList.update (candidate_key (event s)) now (inactive_probe_at b3)\<rparr>"
  have q2: "queue b2 = queue b" "cfg b2 = cfg b"
    using same_mem_writeLocked [of b1 F r] w by (auto simp: same_mem_def b1_def)
  have "b' = (case e of Some x \<Rightarrow> recordPersistFailureLocked x b2
      | None \<Rightarrow> if probe \<noteq> None then persistInactiveLocked F b4 else b3)"
    using assms w
    by (cases e; cases probe) (auto simp: enqueue_store_def Let_def b1_def r_def b3_def b4_def)
  then show "cfg b' = cfg b" "queue b' = queue b \<or> (\<exists>r. queue b' = queue b @ [r] \<and> subm r = s)"
    using q2 same_queueD [OF same_queue_persistInactive, of F b4]
    by (auto simp: b3_def b4_def r_def split: option.splits)
qed

text \<open>The bound. With a byte budget below \<open>2^62\<close> and files below \<open>2^61\<close> bytes (so that the
  \<open>int64\<close> sums cannot wrap), a backlog within its operation and byte budgets stays within them
  whatever is submitted, accepted or refused.\<close>

theorem backlog_capacity_bound:
  assumes "within_capacity b" "max_bytes (cfg b) < 2 ^ 62" "sizes_ok s"
  shows "within_capacity (snd (Enqueue F stat now s b))"
proof -
  obtain res b' where enq: "Enqueue F stat now s b = (res, b')" by fastforce
  have tot: "total_bytes (queue b) \<le> max_bytes (cfg b)" "\<forall>r \<in> set (queue b). sizes_ok (subm r)"
    using assms(1) by (auto simp: within_capacity_def)
  from enq have "within_capacity b'"
  proof (cases rule: Enqueue_cases)
    case store
    have c: "cfg b' = cfg b" by (rule enqueue_store_queue(1) [OF store(1)])
    from enqueue_store_queue(2) [OF store(1)] show ?thesis
    proof
      assume "queue b' = queue b"
      with c show ?thesis using assms(1) by (simp add: within_capacity_def)
    next
      assume "\<exists>r. queue b' = queue b @ [r] \<and> subm r = s"
      then obtain r where r: "queue b' = queue b @ [r]" "subm r = s" by blast
      have pb: "pendingBytes (queue b) = total_bytes (queue b)"
        by (rule pendingBytes_exact) (use tot assms(2) in auto)
      have "wrap64 (total_bytes (queue b) + evidence_bytes s) = total_bytes (queue b) + evidence_bytes s"
        by (rule wrap64_nonneg_id)
          (use total_bytes_nonneg [OF tot(2)] evidence_bytes_bounds [OF assms(3)] tot(1) assms(2) in auto)
      then show ?thesis
        using store(4,5) pb submissionBytes_exact [OF assms(3)] assms r c tot(2)
        by (auto simp: within_capacity_def total_bytes_def)
    qed
  qed (use assms in \<open>auto simp: within_capacity_def\<close>)
  with enq show ?thesis by simp
qed

theorem backlog_capacity_bound_witness:
  "within_capacity sample_one \<and>
   within_capacity (snd (Enqueue no_faults (\<lambda>p. None) 7 (sample_sub ''e2'' ''cam'') sample_one))"
proof -
  have "within_capacity sample_one" "max_bytes (cfg sample_one) < 2 ^ 62"
    "sizes_ok (sample_sub ''e2'' ''cam'')"
    by (simp_all add: within_capacity_def sample_one_def sample_rec_def sample_sub_def sizes_ok_def
        total_bytes_def evidence_bytes_def sample_empty_def new_backlog_def sample_cfg_def)
  then show ?thesis using backlog_capacity_bound by blast
qed

section \<open>Idempotency\<close>

text \<open>The checks before the queue is looked at.\<close>

definition well_formed_submission :: "(string \<Rightarrow> int option) \<Rightarrow> submission \<Rightarrow> bool" where
  "well_formed_submission stat s \<longleftrightarrow>
     event_uuid (event s) \<noteq> '''' \<and> candidate_key (event s) \<noteq> '''' \<and> ev_timestamp (event s) \<noteq> '''' \<and>
     (capture s \<noteq> None \<longrightarrow> validateEvidence stat (capture s)) \<and>
     (clip s \<noteq> None \<longrightarrow> validateEvidence stat (clip s))"

lemma Enqueue_known:
  assumes "well_formed_submission stat s" "List.find (same_event s) (queue b) = Some r"
  shows "Enqueue F stat now s b =
    (if submissionsEquivalent (subm r) s then None else Some ErrSubmissionConflict, b)"
  using assms by (auto simp: Enqueue_def Let_def well_formed_submission_def)

lemma find_same_event:
  assumes "\<exists>r \<in> set q. same_event s r"
  obtains r where "List.find (same_event s) q = Some r" "r \<in> set q" "same_event s r"
proof -
  from assms obtain r where "List.find (same_event s) q = Some r"
    by (metis find_None_iff not_None_eq)
  then show thesis using that by (metis find_Some_iff nth_mem)
qed

text \<open>A second submission of an event that is pending never changes the state, whatever its
  camera's state: it is a silent success when it is equivalent to the pending one and a conflict
  error otherwise. (The pending records of one event id are assumed equal on that point, which the
  next submission of the same id keeps true.)\<close>

theorem backlog_enqueue_idempotent:
  assumes "well_formed_submission stat s" "r \<in> set (queue b)" "same_event s r"
    "\<forall>r' \<in> set (queue b). same_event s r' \<longrightarrow>
       submissionsEquivalent (subm r') s = submissionsEquivalent (subm r) s"
  shows "Enqueue F stat now s b =
    (if submissionsEquivalent (subm r) s then None else Some ErrSubmissionConflict, b)"
proof -
  from assms(2,3) have "\<exists>r \<in> set (queue b). same_event s r" by blast
  then obtain r' where r': "List.find (same_event s) (queue b) = Some r'" "r' \<in> set (queue b)"
    "same_event s r'" by (rule find_same_event)
  with assms(4) have "submissionsEquivalent (subm r') s = submissionsEquivalent (subm r) s" by blast
  with Enqueue_known [OF assms(1) r'(1)] show ?thesis by simp
qed

theorem backlog_enqueue_idempotent_witness:
  "Enqueue no_faults (\<lambda>p. None) 8 (sample_sub ''e1'' ''cam'') sample_one = (None, sample_one)"
proof -
  let ?r = "sample_rec 1 ''e1'' ''cam''" and ?s = "sample_sub ''e1'' ''cam''"
  have "well_formed_submission (\<lambda>p. None) ?s" "?r \<in> set (queue sample_one)" "same_event ?s ?r"
    "\<forall>r' \<in> set (queue sample_one). same_event ?s r' \<longrightarrow>
       submissionsEquivalent (subm r') ?s = submissionsEquivalent (subm ?r) ?s"
    by (simp_all add: well_formed_submission_def sample_sub_def sample_event_def sample_one_def
        sample_rec_def same_event_def)
  from backlog_enqueue_idempotent [OF this, of no_faults 8] show ?thesis
    by (simp add: submissionsEquivalent_def sample_rec_def sample_sub_def sample_event_def feq_def
        float_map_eq_def evidenceEquivalent_def)
qed

text \<open>Idempotency does not survive a restart for the submissions the Full Edge producer makes. It
  submits its bounding box as \<open>map[string]float64\<close>; recovery decodes it as
  \<open>map[string]interface{}\<close>, which \<open>reflect.DeepEqual\<close> never identifies with it. After a reopen,
  submitting the very same pending event again is refused as divergent.\<close>

theorem backlog_resubmission_after_restart_conflicts:
  assumes "breachable (b, fl)" "r \<in> set (queue b)" "well_formed_submission stat (subm r)"
    "bbox (event (subm r)) = MapFloat m" "Open no_faults c (disk b) t = Inr b'"
  shows "Enqueue F stat now (subm r) b' = (Some ErrSubmissionConflict, b')"
proof -
  let ?s = "subm r"
  have inv: "binv b" using breachable_inv [OF assms(1)] by (simp add: sinv_def)
  then have ok: "disk_ok (view (disk b))" by (simp add: binv_def)
  from assms(5) obtain e where
    "loadQuarantineLocked no_faults (recover no_faults (new_backlog (normalize_config c) (disk b) t)) = (e, b')"
    by (auto simp: Open_def split: if_splits prod.splits option.splits)
  from Open_effect [OF ok this]
  have q: "set (queue b') = {r. view (disk b) (rec_path r) = Some (RecordFile r)}" by blast
  have "stored (view (disk b)) (ident r)" using inv assms(2) by (auto simp: binv_def ids_def)
  then obtain r1 where "view (disk b) (PendingDir, seq_name (sequence r1)) = Some (RecordFile r1)"
    "subm r1 = json_submission ?s" unfolding stored_def by (metis fst_conv snd_conv)
  then have "r1 \<in> set (queue b')" "subm r1 = json_submission ?s" by (simp_all add: q rec_path_def)
  then have "r1 \<in> set (queue b')" "same_event ?s r1" by (simp_all add: same_event_def)
  then have "\<exists>r1 \<in> set (queue b'). same_event ?s r1" by blast
  then obtain r2 where r2: "List.find (same_event ?s) (queue b') = Some r2" "r2 \<in> set (queue b')"
    by (rule find_same_event)
  have "json_submission (subm r2) = subm r2"
    using ok r2(2) q by (auto simp: disk_ok_def rec_path_def)
  then have "bbox (event (subm r2)) \<noteq> MapFloat m'" for m'
    by (cases "bbox (event (subm r2))") (auto simp: json_submission_def dest: arg_cong [where f = "bbox \<circ> event"])
  then have "\<not> deep_equal (bbox (event (subm r2))) (MapFloat m)"
    by (cases "bbox (event (subm r2))") auto
  then have "\<not> submissionsEquivalent (subm r2) ?s" using assms(4) by (simp add: submissionsEquivalent_def)
  with Enqueue_known [OF assms(3) r2(1)] show ?thesis by simp
qed

theorem backlog_resubmission_witness:
  "\<exists>b'. Open no_faults sample_cfg (disk sample_one) 0 = Inr b' \<and>
     Enqueue no_faults (\<lambda>p. None) 8 (sample_sub ''e1'' ''cam'') b' = (Some ErrSubmissionConflict, b')"
proof -
  let ?r = "sample_rec 1 ''e1'' ''cam''"
  have "disk_ok (view (disk sample_one))"
    using breachable_inv [OF sample_reachable] by (simp add: sinv_def binv_def)
  obtain e b' where l: "loadQuarantineLocked no_faults
      (recover no_faults (new_backlog (normalize_config sample_cfg) (disk sample_one) 0)) = (e, b')" by fastforce
  then have "e = None"
    unfolding loadQuarantineLocked_def Let_def using enforce_no_fault by (metis fst_conv)
  with l have o: "Open no_faults sample_cfg (disk sample_one) 0 = Inr b'"
    by (simp add: Open_def) (simp add: sample_cfg_def)
  have "?r \<in> set (queue sample_one)" "well_formed_submission (\<lambda>p. None) (subm ?r)"
    "bbox (event (subm ?r)) = MapFloat [(''x'', Fin 1)]"
    by (simp_all add: sample_one_def sample_rec_def well_formed_submission_def sample_sub_def sample_event_def)
  from backlog_resubmission_after_restart_conflicts [OF sample_reachable this o, of no_faults 8] o
  show ?thesis by (auto simp: sample_rec_def)
qed

section \<open>Retry delays\<close>

lemma backoff_loop_closed:
  assumes "0 < d" "d < 2 * retry_max c" "retry_max c < 2 ^ 62"
  shows "min (retry_max c) (backoff_loop c n i d) = min (retry_max c) (d * 2 ^ nat (n - i))"
  using assms
proof (induction c n i d rule: backoff_loop.induct)
  case (1 c n i d)
  show ?case
  proof (cases "i < n \<and> d < retry_max c")
    case True
    then have w: "wrap64 (d * 2) = d * 2" using "1.prems" by (intro wrap64_nonneg_id) auto
    have "nat (n - i) = Suc (nat (n - (i + 1)))" using True by arith
    moreover have "min (retry_max c) (backoff_loop c n (i + 1) (d * 2)) =
      min (retry_max c) (d * 2 * 2 ^ nat (n - (i + 1)))"
      using "1.IH" [OF True] "1.prems" True w by simp
    ultimately show ?thesis using True w by (subst backoff_loop.simps) simp
  next
    case False
    then consider "n \<le> i" | "retry_max c \<le> d" by linarith
    then show ?thesis
    proof cases
      case 1
      then show ?thesis by (subst backoff_loop.simps) simp
    next
      case 2
      have "d * 1 \<le> d * 2 ^ nat (n - i)" using \<open>0 < d\<close> by (intro mult_left_mono) simp_all
      with 2 False show ?thesis by (subst backoff_loop.simps) (simp add: min_def)
    qed
  qed
qed

text \<open>The retry delay is capped exponential backoff: \<open>min RetryMax (RetryBase * 2^(attempt-1))\<close>, with
  no \<open>int64\<close> overflow on the way, for every configuration \<open>Open\<close> accepts with \<open>RetryMax\<close> below
  \<open>2^62\<close> nanoseconds.\<close>

theorem backlog_backoff_closed_form:
  assumes "0 < retry_base c" "retry_base c \<le> retry_max c" "retry_max c < 2 ^ 62" "1 \<le> attempt"
  shows "backoff c attempt = min (retry_max c) (retry_base c * 2 ^ nat (attempt - 1))"
proof -
  have "min (retry_max c) (backoff_loop c attempt 1 (retry_base c)) =
    min (retry_max c) (retry_base c * 2 ^ nat (attempt - 1))"
    by (rule backoff_loop_closed) (use assms in auto)
  then show ?thesis by (auto simp: backoff_def Let_def min_def split: if_splits)
qed

theorem backlog_backoff_witness:
  "backoff sample_cfg 4 = 8 * second \<and> backoff sample_cfg 7 = 60 * second"
proof -
  have h: "0 < retry_base sample_cfg" "retry_base sample_cfg \<le> retry_max sample_cfg"
    "retry_max sample_cfg < 2 ^ 62" by (simp_all add: sample_cfg_def second_def)
  show ?thesis
    using backlog_backoff_closed_form [OF h, of 4] backlog_backoff_closed_form [OF h, of 7]
    by (simp add: sample_cfg_def second_def)
qed

section \<open>File names\<close>

text \<open>The file name of a record, twenty zero-padded digits, reads back as its sequence number for
  every \<open>uint64\<close>, and two records share a name only if they share a sequence.\<close>

theorem sequence_name_roundtrip:
  assumes "n < 2 ^ 64"
  shows "sequenceFromName (seq_name n) = Some n \<and> (seq_name m = seq_name n \<longleftrightarrow> m = n)"
  using parse_uint_pad_dec [OF assms, of 20] by (simp add: sequenceFromName_def seq_name_def)

theorem sequence_name_roundtrip_witness:
  "sequenceFromName (seq_name 18446744073709551615) = Some 18446744073709551615"
  using sequence_name_roundtrip [of 18446744073709551615 0] by simp

end
