(* ===== verification/Backlog_Progress.thy ===== *)
theory Backlog_Progress
  imports Backlog_Props
begin

text \<open>
  Progress of the event backlog: what makes a record leave the queue, that a SaaS which accepts
  everything drains the queue in a bounded number of \<open>ProcessOne\<close> calls, the bound on the inactive
  marks, and what a restart does to the quarantine.
\<close>

section \<open>The effect of a send on the queue\<close>

text \<open>A record at the last of its stages: one more accepted request completes it.\<close>

definition last_stage :: "rec \<Rightarrow> bool" where
  "last_stage r \<longleftrightarrow>
     (if stage r = ''metadata'' then nextStage (subm r) ''capture'' = ''complete''
      else if stage r = ''capture'' then nextStage (subm r) ''clip'' = ''complete'' else True)"

definition next_stage_of :: "rec \<Rightarrow> string" where
  "next_stage_of r =
     nextStage (subm r) (if stage r = ''metadata'' then ''capture'' else ''clip'')"

abbreviation prog :: "rec \<Rightarrow> nat \<times> submission \<times> string" where
  "prog r \<equiv> (sequence r, subm r, stage r)"

text \<open>Reactivation changes retry times and inactive marks only, and never delays a due record.\<close>

definition same_prog :: "gotime \<Rightarrow> rec list \<Rightarrow> rec list \<Rightarrow> bool" where
  "same_prog now q q' \<longleftrightarrow>
     map prog q' = map prog q \<and> (list_all (due now) q \<longrightarrow> list_all (due now) q')"

lemma same_prog_refl [simp, intro]: "same_prog now q q"
  by (simp add: same_prog_def)

lemma same_prog_trans: "same_prog now q q' \<Longrightarrow> same_prog now q' q'' \<Longrightarrow> same_prog now q q''"
  by (simp add: same_prog_def)

lemma same_prog_update:
  assumes "i < length q" "prog r = prog (q ! i)" "due now r"
  shows "same_prog now q (q[i := r])"
proof -
  have "(map prog q)[i := map prog q ! i] = map prog q" by (rule list_update_id)
  then have "(map prog q)[i := prog r] = map prog q" unfolding assms(2) nth_map [OF assms(1)] .
  then have "map prog (q[i := r]) = map prog q" by (simp add: map_update)
  moreover have "list_all (due now) (q[i := r])" if "list_all (due now) q"
    using that assms(3) by (auto simp: list_all_iff dest: set_update_subset_insert [THEN subsetD])
  ultimately show ?thesis by (simp add: same_prog_def)
qed

lemma queue_persistLocked [simp]: "queue (persistLocked F r b) = queue b"
  using same_mem_persistLocked [of b F r] by (simp add: same_mem_def)

lemma queue_persistInactive [simp]: "queue (persistInactiveLocked F b) = queue b"
  using same_queue_persistInactive [of b F] by (simp add: same_queue_def)

lemma mark_active_loop_prog:
  "(\<forall>i \<in> set is. i < length (queue b)) \<Longrightarrow>
     same_prog now (queue b) (queue (mark_active_loop F now k is b))"
proof (induction F now k "is" b rule: mark_active_loop.induct)
  case (1 F now k b)
  then show ?case by simp
next
  case (2 F now k i "is" b)
  let ?r1 = "(queue b ! i)\<lparr>next_attempt := now\<rparr>"
  let ?r2 = "?r1\<lparr>inactive_since := None\<rparr>"
  have i: "i < length (queue b)" using "2.prems" by simp
  have s: "same_prog now (queue b) ((queue b)[i := ?r1])" "same_prog now (queue b) ((queue b)[i := ?r2])"
    by (rule same_prog_update [OF i]; simp add: due_def)+
  show ?case
  proof (cases "candidate_key (event (subm (queue b ! i))) = k")
    case False
    with 2 show ?thesis by simp
  next
    case True
    show ?thesis
    proof (cases "inactive_since ?r1")
      case None
      with True "2.IH"(3) "2.prems"
      have "same_prog now ((queue b)[i := ?r1]) (queue (mark_active_loop F now k is (b\<lparr>queue := (queue b)[i := ?r1]\<rparr>)))"
        by simp
      with same_prog_trans [OF s(1)] True None show ?thesis by simp
    next
      case (Some t)
      let ?p = "persistLocked F ?r2 (b\<lparr>queue := (queue b)[i := ?r2]\<rparr>)"
      from Some True "2.IH"(2) "2.prems"
      have "same_prog now ((queue b)[i := ?r2]) (queue (mark_active_loop F now k is ?p))"
        by (simp add: Let_def)
      with same_prog_trans [OF s(2)] True Some show ?thesis by (simp add: Let_def)
    qed
  qed
qed

lemma markActiveLocked_prog: "same_prog now (queue b) (queue (markActiveLocked F now k b))"
proof -
  let ?b1 = "if map_of (inactive_candidates b) k \<noteq> None
    then persistInactiveLocked F (b\<lparr>inactive_candidates := AList.delete k (inactive_candidates b),
           inactive_probe_at := AList.delete k (inactive_probe_at b)\<rparr>) else b"
  have "queue ?b1 = queue b" by simp
  moreover have "same_prog now (queue ?b1) (queue (mark_active_loop F now k [0..<length (queue ?b1)] ?b1))"
    by (rule mark_active_loop_prog) simp
  ultimately show ?thesis unfolding markActiveLocked_def Let_def by simp
qed

lemma finish_ok_queue:
  assumes "idx < length (queue b)" "sequence r = sequence (queue b ! idx)"
  shows "\<exists>q. same_prog now (queue b) q \<and>
    queue (finish_ok F now idx r b) =
      (if last_stage r then remove_nth idx q
       else q[idx := (if map_of (inactive_candidates b) (rec_key r) \<noteq> None \<or> inactive_since r \<noteq> None
                      then r\<lparr>inactive_since := None\<rparr> else r)\<lparr>stage := next_stage_of r\<rparr>])"
proof -
  let ?mark = "map_of (inactive_candidates b) (rec_key r) \<noteq> None \<or> inactive_since r \<noteq> None"
  define r1 where "r1 = (if ?mark then r\<lparr>inactive_since := None\<rparr> else r)"
  define b1 where "b1 = (if ?mark then markActiveLocked F now (rec_key r) b else b)"
  define b2 where "b2 = b1\<lparr>last_success := Some now, last_error := '''', degraded := False\<rparr>"
  have sp: "same_prog now (queue b) (queue b2)"
    using markActiveLocked_prog by (simp add: b2_def b1_def)
  then have len: "length (queue b2) = length (queue b)" and m: "map prog (queue b2) = map prog (queue b)"
    unfolding same_prog_def using map_eq_imp_length_eq by blast+
  have "map prog (queue b2) ! idx = map prog (queue b) ! idx" using m by simp
  then have "sequence (queue b2 ! idx) = sequence r" using assms len by simp
  then have rm: "queue (notifySynced x (removeAtLocked F idx x b2)) = remove_nth idx (queue b2)"
    if "sequence x = sequence r" for x
    using removeAtLocked_left [of idx b2 x F] that assms(1) len
    by (simp add: left_queue_def notifySynced_def)
  have [simp]: "stage r1 = stage r" "subm r1 = subm r" "sequence r1 = sequence r" by (simp_all add: r1_def)
  have fo: "finish_ok F now idx r b =
    (let advance = (\<lambda>st. let r' = r1\<lparr>stage := st\<rparr> in
          if st = ''complete'' then notifySynced r' (removeAtLocked F idx r' b2)
          else persistLocked F r' (b2\<lparr>queue := (queue b2)[idx := r']\<rparr>))
     in if stage r1 = ''metadata'' then advance (nextStage (subm r1) ''capture'')
        else if stage r1 = ''capture'' then advance (nextStage (subm r1) ''clip'')
        else notifySynced r1 (removeAtLocked F idx r1 b2))"
    unfolding finish_ok_def r1_def b1_def b2_def Let_def by (simp only: Let_def)
  have "queue (finish_ok F now idx r b) =
    (if last_stage r then remove_nth idx (queue b2) else (queue b2)[idx := r1\<lparr>stage := next_stage_of r\<rparr>])"
    unfolding fo Let_def by (simp add: rm last_stage_def next_stage_of_def)
  with sp show ?thesis unfolding r1_def by blast
qed

section \<open>What makes a record leave\<close>

lemma map_sequence_update:
  assumes "i < length q" "sequence r = sequence (q ! i)"
  shows "map sequence (q[i := r]) = map sequence q"
  using assms by (simp add: map_update) (metis length_map list_update_id nth_map)

lemma same_prog_sequence: "same_prog now q q' \<Longrightarrow> map sequence q' = map sequence q"
proof -
  assume "same_prog now q q'"
  then have "map fst (map prog q') = map fst (map prog q)" by (simp add: same_prog_def)
  then show ?thesis by (simp add: comp_def)
qed

lemma finish_inactive_keeps:
  assumes "idx < length (queue b)" "sequence r = sequence (queue b ! idx)"
    "time_sub now (window_start now b r) < inactive_retention (cfg b)"
  shows "map sequence (queue (finish_inactive F now idx r b)) = map sequence (queue b)"
proof -
  have "queue (mark_inactive F k s b) = queue b" "cfg (mark_inactive F k s b) = cfg b" for k s
    using same_queue_persistInactive [of "b\<lparr>inactive_candidates := AList.update k s (inactive_candidates b)\<rparr>" F]
    by (auto simp: mark_inactive_def same_queue_def)
  then show ?thesis using assms by (simp add: finish_inactive_def Let_def map_sequence_update)
qed

lemma finish_err_keeps:
  assumes idx: "idx < length (queue b)" "sequence r = sequence (queue b ! idx)" and np: "\<not> permanent e"
    and alive: "e = ErrCameraInactive \<Longrightarrow> time_sub now (window_start now b r) < inactive_retention (cfg b)"
  shows "map sequence (queue (finish_err F now idx r (e, msg) b)) = map sequence (queue b)"
proof (cases "e = ErrCameraInactive")
  case False
  then show ?thesis
    using idx np by (auto simp: finish_err_def Let_def map_sequence_update)
next
  case True
  let ?b = "b\<lparr>last_error := bound_string maxErrorBytes msg\<rparr>"
  let ?r = "r\<lparr>attempts := wrap64 (attempts r + 1),
    next_attempt := now + retry_delay (cfg b) (wrap64 (attempts r + 1)) e\<rparr>"
  have "finish_err F now idx r (e, msg) b = finish_inactive F now idx ?r ?b"
    using True np by (simp add: finish_err_def Let_def)
  moreover have "window_start now ?b ?r = window_start now b r" 
    by (simp add: window_start_def rec_key_def split: option.split)
  ultimately show ?thesis
    using finish_inactive_keeps [of idx ?b ?r now F] idx alive [OF True] by simp
qed

lemma find_sequence:
  assumes "r' \<in> set q" "sequence r' = sequence r"
  obtains idx where "find_index (\<lambda>it. sequence it = sequence r) q = Some idx" "idx < length q"
    "sequence r = sequence (q ! idx)"
proof -
  have "find_index (\<lambda>it. sequence it = sequence r) q \<noteq> None"
    using assms by (auto simp: find_index_None_iff)
  then obtain idx where idx: "find_index (\<lambda>it. sequence it = sequence r) q = Some idx" by blast
  from find_index_SomeD [OF idx] show thesis by (intro that [OF idx]) simp_all
qed

lemma remove_nth_others: "x \<in> set xs \<Longrightarrow> i < length xs \<Longrightarrow> x \<noteq> xs ! i \<Longrightarrow> x \<in> set (remove_nth i xs)"
proof -
  assume x: "x \<in> set xs" "i < length xs" "x \<noteq> xs ! i"
  have "set xs = set (take i xs) \<union> insert (xs ! i) (set (drop (Suc i) xs))"
    using id_take_nth_drop [OF x(2)] by (metis list.simps(15) set_append)
  then show ?thesis using x(1,3) by (auto simp: remove_nth_def)
qed

text \<open>Finishing a send leaves the sequences as they are or removes the one of the record sent.\<close>

lemma finish_inactive_sequences:
  assumes "idx < length (queue b)" "sequence r = sequence (queue b ! idx)"
  shows "map sequence (queue (finish_inactive F now idx r b)) \<in> {map sequence (queue b), remove_nth idx (map sequence (queue b))}"
proof (cases "time_sub now (window_start now b r) < inactive_retention (cfg b)")
  case True
  then show ?thesis using finish_inactive_keeps [OF assms] by simp
next
  case False
  define b1 where "b1 = mark_inactive F (rec_key r) (window_start now b r) b"
  have q: "queue b1 = queue b" "cfg b1 = cfg b"
    using same_queue_persistInactive [of "b\<lparr>inactive_candidates := AList.update (rec_key r) (window_start now b r) (inactive_candidates b)\<rparr>" F]
    by (auto simp: b1_def mark_inactive_def same_queue_def)
  have "queue (quarantineAtLocked F idx (r\<lparr>inactive_since := x\<rparr>) (b1\<lparr>inactive_expired := n\<rparr>)) = remove_nth idx (queue b)" for x n
    using quarantineAtLocked_left [of idx "b1\<lparr>inactive_expired := n\<rparr>" "r\<lparr>inactive_since := x\<rparr>" F] assms q
    by (simp add: left_queue_def)
  then show ?thesis using False q
    by (simp add: finish_inactive_def Let_def notifyQuarantined_def map_remove_nth flip: b1_def)
qed

lemma finish_err_sequences:
  assumes "idx < length (queue b)" "sequence r = sequence (queue b ! idx)"
  shows "map sequence (queue (finish_err F now idx r (e, msg) b)) \<in> {map sequence (queue b), remove_nth idx (map sequence (queue b))}"
proof (cases "permanent e")
  case True
  let ?b = "b\<lparr>last_error := bound_string maxErrorBytes msg\<rparr>"
  have "queue (quarantineAtLocked F idx r ?b) = remove_nth idx (queue b)"
    using quarantineAtLocked_left [of idx ?b r F] assms by (simp add: left_queue_def)
  then show ?thesis using True by (simp add: finish_err_def Let_def notifyQuarantined_def map_remove_nth)
next
  case False
  show ?thesis
  proof (cases "e = ErrCameraInactive")
    case True
    let ?b = "b\<lparr>last_error := bound_string maxErrorBytes msg\<rparr>"
    let ?r = "r\<lparr>attempts := wrap64 (attempts r + 1), next_attempt := now + retry_delay (cfg b) (wrap64 (attempts r + 1)) e\<rparr>"
    have "finish_err F now idx r (e, msg) b = finish_inactive F now idx ?r ?b"
      using True False by (simp add: finish_err_def Let_def)
    then show ?thesis using finish_inactive_sequences [of idx ?b ?r F now] assms by simp
  next
    case ne: False
    then show ?thesis using finish_err_keeps [OF assms False] by simp
  qed
qed

lemma finish_ok_sequences:
  assumes "idx < length (queue b)" "sequence r = sequence (queue b ! idx)"
  shows "map sequence (queue (finish_ok F now idx r b)) \<in> {map sequence (queue b), remove_nth idx (map sequence (queue b))}"
proof -
  from finish_ok_queue [OF assms, of now F] obtain q x where q: "same_prog now (queue b) q"
    "queue (finish_ok F now idx r b) = (if last_stage r then remove_nth idx q else q[idx := x])" "sequence x = sequence r"
    by (elim exE conjE) (rule that, assumption, assumption, simp)
  have m: "map sequence q = map sequence (queue b)" using q(1) by (rule same_prog_sequence)
  then have "length q = length (queue b)" "sequence (q ! idx) = sequence (queue b ! idx)"
    using assms(1) by (metis length_map, metis length_map nth_map)
  then have "map sequence (q[idx := x]) = map sequence q" using assms q(3) by (intro map_sequence_update) simp_all
  then show ?thesis using q(2) m by (simp add: map_remove_nth)
qed

lemma finish_keeps_others:
  assumes "x \<in> sequence ` set (queue b)" "x \<noteq> sequence r"
  shows "x \<in> sequence ` set (queue (ProcessOne_finish F now r err b))"
proof (cases "find_index (\<lambda>it. sequence it = sequence r) (queue b)")
  case None
  then show ?thesis using assms by (simp add: ProcessOne_finish_def)
next
  case (Some idx)
  from find_index_SomeD [OF Some] have idx: "idx < length (queue b)" "sequence r = sequence (queue b ! idx)" by auto
  have "map sequence (queue (ProcessOne_finish F now r err b)) \<in> {map sequence (queue b), remove_nth idx (map sequence (queue b))}"
    using finish_ok_sequences [OF idx, of F now] finish_err_sequences [OF idx, of F now] Some
    by (cases err) (auto simp: ProcessOne_finish_def)
  moreover have "x \<in> set (remove_nth idx (map sequence (queue b)))"
    using assms idx by (intro remove_nth_others) auto
  moreover have "x \<in> set (map sequence (queue b))" using assms(1) by simp
  ultimately have "x \<in> set (map sequence (queue (ProcessOne_finish F now r err b)))" by (metis insertE singletonD)
  then show ?thesis by simp
qed

lemma finish_leaves_settled:
  assumes "sequence r \<in> sequence ` set (queue b)"
    "sequence r \<notin> sequence ` set (queue (ProcessOne_finish F now r err b))"
  shows "(err = None \<and> last_stage r) \<or>
    (\<exists>e msg. err = Some (e, msg) \<and>
       (permanent e \<or> e = ErrCameraInactive \<and>
          inactive_retention (cfg b) \<le> time_sub now (window_start now b r)))"
proof -
  from assms(1) obtain r' where "r' \<in> set (queue b)" "sequence r' = sequence r" by auto
  then obtain idx where idx: "find_index (\<lambda>it. sequence it = sequence r) (queue b) = Some idx"
    "idx < length (queue b)" "sequence r = sequence (queue b ! idx)" by (rule find_sequence)
  have gone: "map sequence (queue (ProcessOne_finish F now r err b)) \<noteq> map sequence (queue b)"
    using assms by (metis image_set)
  show ?thesis
  proof (cases err)
    case None
    from finish_ok_queue [OF idx(2,3), of now F] obtain q x where q: "same_prog now (queue b) q"
      "queue (finish_ok F now idx r b) = (if last_stage r then remove_nth idx q else q[idx := x])"
      "sequence x = sequence r"
      by (elim exE conjE) (rule that, assumption, assumption, simp)
    have "last_stage r"
    proof (rule ccontr)
      assume "\<not> last_stage r"
      with q have "sequence x = sequence r" "queue (finish_ok F now idx r b) = q[idx := x]"
        by simp_all
      moreover have "map sequence q = map sequence (queue b)" using q(1) by (rule same_prog_sequence)
      then have "length q = length (queue b)" "sequence (q ! idx) = sequence (queue b ! idx)"
        using idx(2) by (metis length_map, metis length_map nth_map)
      ultimately have "map sequence (queue (finish_ok F now idx r b)) = map sequence (queue b)"
        using idx \<open>map sequence q = map sequence (queue b)\<close> by (simp add: map_sequence_update)
      with gone None idx(1) show False by (simp add: ProcessOne_finish_def)
    qed
    with None show ?thesis by simp
  next
    case (Some em)
    obtain e msg where em: "em = (e, msg)" by fastforce
    with gone Some idx finish_err_keeps [OF idx(2,3), of e now F msg]
    have "permanent e \<or> e = ErrCameraInactive \<and>
      \<not> time_sub now (window_start now b r) < inactive_retention (cfg b)"
      by (auto simp: ProcessOne_finish_def)
    with Some em show ?thesis by auto
  qed
qed

text \<open>C30. Take any reachable state and any step of the backlog: a submission, the choice of a record, the end of a
  send, a reactivation or a restart. A record that is queued before the step and not after it was the record in flight,
  its send has just ended, and either the SaaS accepted the request for its last stage, or the SaaS (or the evidence
  check) rejected it permanently, or its camera was inactive for the whole retention window. A timeout, an outage, a rate
  limit, a rejected credential or a failed disk write never drops a record, and no other record is dropped with it. The
  only other way is a restart in which the file system fails, and then the record's file is still there for the next
  one.\<close>

theorem backlog_leaves_only_when_settled:
  assumes "breachable (b, fl)" "bstep (b, fl) (b', fl')" "q \<in> set (queue b)" "sequence q \<notin> sequence ` set (queue b')"
  shows "(\<exists>r F now err. fl = Some r \<and> sequence r = sequence q \<and> b' = ProcessOne_finish F now r err b \<and>
       (err = None \<and> last_stage r \<or>
        (\<exists>e msg. err = Some (e, msg) \<and>
           (permanent e \<or> e = ErrCameraInactive \<and> inactive_retention (cfg b) \<le> time_sub now (window_start now b r))))) \<or>
    (\<exists>F c t. Open F c (disk b) t = Inr b' \<and> F \<noteq> no_faults \<and>
       (\<exists>r'. map_of (disk b') (PendingDir, seq_name (sequence q)) = Some (RecordFile r') \<and>
          sequence r' = sequence q \<and> subm r' = json_submission (subm q)))"
proof -
  have inv: "binv b" "flight_ok b fl" using breachable_inv [OF assms(1)] by (simp_all add: sinv_def)
  have idq: "ident q \<in> set (ids b)" using assms(3) by (simp add: ids_def)
  have gone: "ident q \<notin> set (ids b')" using assms(4) by (force simp: ids_def)
  from assms(2) show ?thesis
  proof cases
    case (enqueue F stat now sb)
    obtain res b1 where e: "Enqueue F stat now sb b = (res, b1)" by fastforce
    have "b' = b1" "Suc (counter b) < 2 ^ 64" using enqueue e by (metis snd_conv, blast)
    then have "ids b' = ids b \<or> ids b' = ids b @ [(Suc (counter b), sb)]" using Enqueue_effect [OF inv(1) _ e] by blast
    then show ?thesis using idq gone by auto
  next
    case (pick now r)
    then show ?thesis using idq gone by simp
  next
    case (finish r F now err)
    have "sequence q \<in> sequence ` set (queue b)" using assms(3) by simp
    then have eq: "sequence r = sequence q" using finish_keeps_others [of "sequence q" b r F now err] finish assms(4) by auto
    have "(err = None \<and> last_stage r) \<or> (\<exists>e msg. err = Some (e, msg) \<and>
       (permanent e \<or> e = ErrCameraInactive \<and> inactive_retention (cfg b) \<le> time_sub now (window_start now b r)))"
      by (rule finish_leaves_settled [of r b F now err]) (use eq finish assms(3,4) in auto)
    then show ?thesis using eq finish by blast
  next
    case (reactivate F now k)
    then have "ids b' = ids b" using markActiveLocked_inv [OF inv(1), of F now k] by (simp add: MarkCandidateActive_def keeps_def)
    then show ?thesis using idq gone by simp
  next
    case (restart F c t)
    then have o: "Open F c (disk b) t = Inr b'" by simp
    then obtain e where load: "loadQuarantineLocked F (recover F (new_backlog (normalize_config c) (disk b) t)) = (e, b')"
      by (auto simp: Open_def split: if_splits prod.splits option.splits)
    have ok: "disk_ok (view (disk b))" using inv(1) by (simp add: binv_def)
    note eff = Open_effect [OF ok load]
    have "stored (view (disk b)) (ident q)" using inv(1) idq by (simp add: binv_def)
    then obtain r' where r': "view (disk b) (PendingDir, seq_name (sequence q)) = Some (RecordFile r')"
      "sequence r' = sequence q" "subm r' = json_submission (subm q)" by (auto simp: stored_def)
    have "F \<noteq> no_faults"
    proof
      assume "F = no_faults"
      then have "r' \<in> set (queue b')" using eff r' by (simp add: rec_path_def)
      then show False using assms(4) r'(2) by (metis image_eqI)
    qed
    moreover have "view (disk b') (PendingDir, seq_name (sequence q)) = Some (RecordFile r')" using eff r'(1) by simp
    then have "map_of (disk b') (PendingDir, seq_name (sequence q)) = Some (RecordFile r')"
      by (auto simp: view_def split: if_splits)
    ultimately show ?thesis using o r'(2,3) by blast
  qed
qed

theorem backlog_leaves_witness:
  "\<exists>b' q. bstep (sample_one, Some q) (b', None) \<and> q = hd (queue sample_one) \<and> queue b' = [] \<and>
     ((\<exists>r F now err. Some q = Some r \<and> sequence r = sequence q \<and> b' = ProcessOne_finish F now r err sample_one \<and>
       (err = None \<and> last_stage r \<or>
        (\<exists>e msg. err = Some (e, msg) \<and>
           (permanent e \<or> e = ErrCameraInactive \<and> inactive_retention (cfg sample_one) \<le> time_sub now (window_start now sample_one r))))) \<or>
    (\<exists>F c t. Open F c (disk sample_one) t = Inr b' \<and> F \<noteq> no_faults \<and>
       (\<exists>r'. map_of (disk b') (PendingDir, seq_name (sequence q)) = Some (RecordFile r') \<and>
          sequence r' = sequence q \<and> subm r' = json_submission (subm q))))"
proof -
  let ?r = "sample_rec 1 ''e1'' ''cam''" and ?b = "ProcessOne_finish no_faults 9 (sample_rec 1 ''e1'' ''cam'') None sample_one"
  have r: "queue sample_one = [?r]" by (simp add: sample_one_def)
  have "ProcessOne_begin 9 sample_one = Some ?r"
    by (simp add: ProcessOne_begin_def sample_one_def sample_rec_def due_def sample_empty_def new_backlog_def)
  then have "bstep (sample_one, None) (sample_one, Some ?r)" by (rule bstep.pick)
  then have "breachable (sample_one, Some ?r)"
    using sample_reachable unfolding breachable_def by (meson rtranclp.rtrancl_into_rtrancl)
  moreover have step: "bstep (sample_one, Some ?r) (?b, None)" by (rule bstep.finish)
  moreover have q: "queue ?b = []"
    by (simp add: ProcessOne_finish_def sample_one_def finish_ok_def Let_def sample_empty_def
        new_backlog_def sample_rec_def nextStage_def sample_sub_def removeAtLocked_def fs_remove_def
        no_faults_def rec_path_def notifySynced_def remove_nth_def step_fs_def)
  ultimately show ?thesis using backlog_leaves_only_when_settled [of sample_one "Some ?r" ?b None ?r] r
    by (intro exI [of _ ?b] exI [of _ ?r] conjI) simp_all
qed

section \<open>Draining\<close>

definition stages_of :: "submission \<Rightarrow> string set" where
  "stages_of s = {''metadata''} \<union> (if capture s \<noteq> None then {''capture''} else {}) \<union>
     (if clip s \<noteq> None then {''clip''} else {})"

text \<open>A record the SaaS is ready to take to the end: at one of its stages, every request accepted.\<close>

definition sendable :: "sender \<Rightarrow> rec \<Rightarrow> bool" where
  "sendable sd r \<longleftrightarrow> stage r \<in> stages_of (subm r) \<and>
     (\<forall>st \<in> stages_of (subm r). send sd (r\<lparr>stage := st\<rparr>) = None)"

definition weight :: "rec \<Rightarrow> nat" where
  "weight r = (if stage r = ''metadata'' then 3 else if stage r = ''capture'' then 2 else 1)"

lemma send_cong: "stage r = stage r' \<Longrightarrow> subm r = subm r' \<Longrightarrow> send sd r = send sd r'"
  unfolding send_def by (simp only:)

lemma sendable_send: "sendable sd r \<Longrightarrow> send sd r = None"
proof -
  assume "sendable sd r"
  then have "send sd (r\<lparr>stage := stage r\<rparr>) = None" by (auto simp: sendable_def)
  then show ?thesis by (simp add: send_cong [of "r\<lparr>stage := stage r\<rparr>" r])
qed

lemma sendable_cong: "subm r = subm r' \<Longrightarrow> stage r' \<in> stages_of (subm r') \<Longrightarrow> sendable sd r \<Longrightarrow> sendable sd r'"
proof -
  assume eq: "subm r = subm r'" and st: "stage r' \<in> stages_of (subm r')" and s: "sendable sd r"
  have "send sd (r'\<lparr>stage := st\<rparr>) = send sd (r\<lparr>stage := st\<rparr>)" for st
    by (rule send_cong) (simp_all add: eq)
  with s st show "sendable sd r'" by (simp add: sendable_def eq)
qed

lemma next_stage_in: "\<not> last_stage r \<Longrightarrow> next_stage_of r \<in> stages_of (subm r) \<and>
    weight (r\<lparr>stage := next_stage_of r\<rparr>) < weight r"
  by (auto simp: last_stage_def next_stage_of_def nextStage_def stages_of_def weight_def split: if_splits)

lemma weight_pos: "0 < weight r" "weight r \<le> 3"
  by (simp_all add: weight_def)

lemma weight_prog: "map prog q' = map prog q \<Longrightarrow> map weight q' = map weight q"
proof -
  assume eq: "map prog q' = map prog q"
  define w where "w = (\<lambda>(n :: nat, s :: submission, st). if st = ''metadata'' then 3 else if st = ''capture'' then 2 else (1 :: nat))"
  have "weight = w \<circ> prog" by (simp add: fun_eq_iff weight_def w_def)
  then have "map weight q = map w (map prog q)" for q by simp
  then show ?thesis unfolding eq by (simp only: eq)
qed

definition all_ready :: "gotime \<Rightarrow> sender \<Rightarrow> rec list \<Rightarrow> bool" where
  "all_ready now sd q \<longleftrightarrow> list_all (due now) q \<and> list_all (sendable sd) q"

lemma same_prog_ready:
  assumes "same_prog now q q'" "all_ready now sd q"
  shows "all_ready now sd q'"
proof -
  have "list_all (sendable sd) q'"
    unfolding list_all_iff
  proof
    fix r' assume "r' \<in> set q'"
    then have "prog r' \<in> set (map prog q')" by simp
    then have "prog r' \<in> set (map prog q)" using assms(1) unfolding same_prog_def by (simp only:)
    then obtain r where r: "r \<in> set q" "subm r = subm r'" "stage r = stage r'" by auto
    then have s: "sendable sd r" using assms(2) by (simp add: all_ready_def list_all_iff)
    then have "stage r' \<in> stages_of (subm r')" using r by (simp add: sendable_def)
    then show "sendable sd r'" by (rule sendable_cong [OF r(2) _ s])
  qed
  then show ?thesis using assms by (auto simp: all_ready_def same_prog_def)
qed

lemma sum_list_remove_nth:
  "i < length xs \<Longrightarrow> sum_list (remove_nth i xs) + xs ! i = sum_list (xs :: nat list)"
  using remove_nth_split [of i xs] by (auto dest: arg_cong [where f = sum_list])

lemma sum_list_update_less:
  "i < length xs \<Longrightarrow> x < xs ! i \<Longrightarrow> sum_list (xs[i := x]) < sum_list (xs :: nat list)"
  by (induction xs arbitrary: i) (auto simp: nth_Cons split: nat.splits)

lemma ProcessOne_progress:
  assumes inv: "binv b" and ready: "all_ready now sd (queue b)" and ne: "queue b \<noteq> []"
  shows "all_ready now sd (queue (snd (ProcessOne F now sd b))) \<and> binv (snd (ProcessOne F now sd b)) \<and>
    sum_list (map weight (queue (snd (ProcessOne F now sd b)))) < sum_list (map weight (queue b))"
proof -
  have "ProcessOne_begin now b \<noteq> None"
  proof -
    have "0 < length (queue b)" using ne by simp
    moreover have "due now (queue b ! 0)" using ready ne by (auto simp: all_ready_def list_all_iff)
    ultimately show ?thesis
      by (cases "queue b") (auto simp: ProcessOne_begin_def)
  qed
  then obtain r where pick: "ProcessOne_begin now b = Some r" by blast
  have mem: "r \<in> set (queue b)" by (rule ProcessOne_begin_mem [OF pick])
  then obtain idx where idx: "find_index (\<lambda>it. sequence it = sequence r) (queue b) = Some idx"
    "idx < length (queue b)" "sequence r = sequence (queue b ! idx)"
    using find_sequence [of r "queue b" r] by blast
  have "distinct (map sequence (queue b))"
    using inv by (auto simp: binv_def ids_ok_def ids_def comp_def strict_sorted_iff)
  then have req: "queue b ! idx = r" using mem idx
    by (metis distinct_map inj_on_def nth_mem)
  have sd: "sendable sd r" "due now r" using ready mem by (auto simp: all_ready_def list_all_iff)
  have step: "snd (ProcessOne F now sd b) = finish_ok F now idx r b"
    using pick idx(1) sendable_send [OF sd(1)] by (simp add: ProcessOne_def ProcessOne_finish_def)
  have inv': "binv (finish_ok F now idx r b)"
    by (rule finish_ok_inv [OF inv idx(2)]) (simp add: req)
  from finish_ok_queue [OF idx(2,3), of now F] obtain q x where q: "same_prog now (queue b) q"
    "queue (finish_ok F now idx r b) = (if last_stage r then remove_nth idx q else q[idx := x])"
    "prog x = (sequence r, subm r, next_stage_of r)" "next_attempt x = next_attempt r"
    by (elim exE conjE) (rule that, assumption, assumption, simp_all)
  have lenq: "length q = length (queue b)" and wq: "map weight q = map weight (queue b)"
    using q(1) unfolding same_prog_def by (auto dest: map_eq_imp_length_eq weight_prog)
  have wr: "map weight q ! idx = weight r" using wq idx(2) req by simp
  have rq: "all_ready now sd q" by (rule same_prog_ready [OF q(1) ready])
  show ?thesis
  proof (cases "last_stage r")
    case True
    have "all_ready now sd (remove_nth idx q)"
      using rq set_remove_nth_subset [of idx q] by (auto simp: all_ready_def list_all_iff)
    moreover have "sum_list (map weight (remove_nth idx q)) < sum_list (map weight q)"
      using sum_list_remove_nth [of idx "map weight q"] idx(2) lenq wr weight_pos [of r]
      by (simp add: map_remove_nth)
    ultimately show ?thesis using True q step inv' wq by simp
  next
    case False
    from next_stage_in [OF False] q(3) have x: "stage x \<in> stages_of (subm x)" "weight x < weight r"
      by (simp, simp add: weight_def cong: if_cong)
    have "sendable sd x" by (rule sendable_cong [OF _ x(1) sd(1)]) (use q(3) in simp)
    moreover have "due now x" using sd(2) q(4) by (simp add: due_def)
    ultimately have "all_ready now sd (q[idx := x])"
      using rq by (auto simp: all_ready_def list_all_iff dest: set_update_subset_insert [THEN subsetD])
    moreover have "sum_list (map weight (q[idx := x])) < sum_list (map weight q)"
      using sum_list_update_less [of idx "map weight q" "weight x"] idx(2) lenq wr x(2)
      by (simp add: map_update)
    ultimately show ?thesis using False q step inv' wq by simp
  qed
qed

lemma drain_steps:
  assumes "binv b" "all_ready now sd (queue b)" "sum_list (map weight (queue b)) \<le> n"
  shows "queue (((\<lambda>b. snd (ProcessOne F now sd b)) ^^ n) b) = []"
  using assms
proof (induction n arbitrary: b)
  case 0
  then show ?case by (cases "queue b") (auto simp: weight_def split: if_splits)
next
  case (Suc n)
  show ?case
  proof (cases "queue b = []")
    case True
    then have "snd (ProcessOne F now sd b) = b" by (simp add: ProcessOne_def ProcessOne_begin_def)
    moreover have "queue (((\<lambda>b. snd (ProcessOne F now sd b)) ^^ n) b) = []"
      using Suc True by simp
    ultimately show ?thesis by (simp add: funpow_Suc_right del: funpow.simps)
  next
    case False
    from ProcessOne_progress [OF Suc.prems(1,2) False, of F] Suc.prems(3)
    have "queue (((\<lambda>b. snd (ProcessOne F now sd b)) ^^ n) (snd (ProcessOne F now sd b))) = []"
      by (intro Suc.IH) auto
    then show ?thesis by (simp add: funpow_Suc_right del: funpow.simps)
  qed
qed

text \<open>C19. Liveness. Take any reachable idle state in which every queued record is due and can be sent: its
  evidence files are there and readable, and the SaaS accepts the requests of all its stages. Then \<open>ProcessOne\<close>
  called three times per queued record empties the queue: every event, its capture and its clip are delivered,
  whichever writes, renames and removals of the backlog's own files fail meanwhile.\<close>

theorem backlog_drains:
  assumes "breachable (b, None)" "all_ready now sd (queue b)"
  shows "queue (((\<lambda>b. snd (ProcessOne F now sd b)) ^^ (3 * length (queue b))) b) = []"
proof (rule drain_steps [OF _ assms(2)])
  show "binv b" using breachable_inv [OF assms(1)] by (simp add: sinv_def)
  have "sum_list (map weight q) \<le> 3 * length q" for q
    by (induction q) (auto simp: weight_def)
  then show "sum_list (map weight (queue b)) \<le> 3 * length (queue b)" .
qed

theorem backlog_drains_witness:
  "queue (((\<lambda>b. snd (ProcessOne no_faults 9
      \<lparr>post = \<lambda>e. None, put = \<lambda>u k st p h n. None, stat_ev = \<lambda>p. None, readable = \<lambda>p. True\<rparr> b))
      ^^ (3 * length (queue sample_one))) sample_one) = []"
proof -
  have "all_ready 9 \<lparr>post = \<lambda>e. None, put = \<lambda>u k st p h n. None, stat_ev = \<lambda>p. None,
      readable = \<lambda>p. True\<rparr> (queue sample_one)"
    by (simp add: all_ready_def sample_one_def sample_rec_def due_def sendable_def stages_of_def
        sample_sub_def send_def)
  from backlog_drains [OF sample_reachable this] show ?thesis .
qed


section \<open>The bound on inactive marks\<close>

definition older :: "string \<times> gotime \<Rightarrow> string \<times> gotime \<Rightarrow> bool" where
  "older a b \<longleftrightarrow> snd a < snd b \<or> (snd a = snd b \<and> fst a < fst b)"

lemma older_or_eq: "a = b \<or> older a b \<or> older b a"
  by (cases a; cases b) (auto simp: older_def)

lemma older_trans: "older a b \<Longrightarrow> older b c \<Longrightarrow> older a c"
  by (auto simp: older_def)

lemma oldest_mark_least:
  "fst acc \<noteq> '''' \<Longrightarrow> '''' \<notin> fst ` set m \<Longrightarrow> x \<in> insert acc (set m) \<Longrightarrow>
     x = oldest_mark acc m \<or> older (oldest_mark acc m) x"
proof (induction acc m arbitrary: x rule: oldest_mark.induct)
  case (1 acc)
  then show ?case by simp
next
  case (2 ok ot k t m)
  show ?case
  proof (cases "t < ot \<or> t = ot \<and> k < ok")
    case True
    then have less: "older (k, t) (ok, ot)" by (auto simp: older_def)
    have IH: "y = oldest_mark (k, t) m \<or> older (oldest_mark (k, t) m) y" if "y \<in> insert (k, t) (set m)" for y
      using "2.prems" True that by (intro "2.IH"(1)) auto
    from IH [of "(k, t)"] less have "older (oldest_mark (k, t) m) (ok, ot)" by (auto dest: older_trans)
    then show ?thesis using "2.prems"(3) IH [of x] True by auto
  next
    case False
    then have less: "(k, t) = (ok, ot) \<or> older (ok, ot) (k, t)" by (auto simp: older_def)
    have IH: "y = oldest_mark (ok, ot) m \<or> older (oldest_mark (ok, ot) m) y" if "y \<in> insert (ok, ot) (set m)" for y
      using "2.prems" False that by (intro "2.IH"(2)) auto
    from IH [of "(ok, ot)"] less have "(k, t) = oldest_mark (ok, ot) m \<or> older (oldest_mark (ok, ot) m) (k, t)"
      by (auto dest: older_trans)
    then show ?thesis using "2.prems" IH [of x] False by auto
  qed
qed

lemma oldest_of_map:
  assumes "m \<noteq> []" "'''' \<notin> fst ` set m" "x \<in> set m"
  shows "x = oldest_mark ('''', z) m \<or> older (oldest_mark ('''', z) m) x"
proof -
  from assms(1) obtain k t m' where m: "m = (k, t) # m'" by (metis list.exhaust surj_pair)
  then show ?thesis using oldest_mark_least [of "(k, t)" m' x] assms(2,3) by auto
qed

lemma set_delete_oldest:
  assumes "m \<noteq> []" "distinct (map fst m)"
  shows "set (AList.delete (fst (oldest_mark ('''', z) m)) m) = set m - {oldest_mark ('''', z) m}"
    "length (AList.delete (fst (oldest_mark ('''', z) m)) m) = length m - 1"
    "distinct (map fst (AList.delete (fst (oldest_mark ('''', z) m)) m))"
proof -
  have mem: "oldest_mark ('''', z) m \<in> set m" by (rule oldest_mark_start_in [OF assms(1)])
  have "y = oldest_mark ('''', z) m" if "y \<in> set m" "fst y = fst (oldest_mark ('''', z) m)" for y
    using that mem assms(2) by (metis eq_key_imp_eq_value prod.collapse)
  then show "set (AList.delete (fst (oldest_mark ('''', z) m)) m) = set m - {oldest_mark ('''', z) m}"
    by (auto simp: AList.delete_eq split: prod.splits) (metis fst_conv)
  show "length (AList.delete (fst (oldest_mark ('''', z) m)) m) = length m - 1"
    using length_delete_present [OF assms(2) imageI [OF mem, of fst]] by simp
  show "distinct (map fst (AList.delete (fst (oldest_mark ('''', z) m)) m))"
    using assms(2) by (simp add: distinct_delete)
qed

lemma cap_loop_keeps_newest:
  assumes "distinct (map fst cands)" "'''' \<notin> fst ` set cands" "cap_loop cands probes = (c, p)"
  shows "length c = min (length cands) maxInactiveCameras \<and> set c \<subseteq> set cands \<and>
    (\<forall>x \<in> set cands - set c. \<forall>y \<in> set c. older x y)"
  using assms
proof (induction cands probes arbitrary: c p rule: cap_loop.induct)
  case (1 cands probes)
  let ?o = "oldest_mark ('''', zero_time) cands"
  show ?case
  proof (cases "length cands > maxInactiveCameras")
    case False
    with "1.prems"(3) show ?thesis by (subst (asm) cap_loop.simps) auto
  next
    case True
    then have ne: "cands \<noteq> []" by auto
    note d = set_delete_oldest [OF ne "1.prems"(1), of zero_time]
    have step: "cap_loop (AList.delete (fst ?o) cands) (AList.delete (fst ?o) probes) = (c, p)"
      using "1.prems"(3) True by (subst (asm) cap_loop.simps) (simp add: Let_def)
    have "'''' \<notin> fst ` set (AList.delete (fst ?o) cands)" using "1.prems"(2) d(1) by auto
    from "1.IH" [OF True refl d(3) this step] d(1,2) True
    have IH: "length c = maxInactiveCameras" "set c \<subseteq> set cands - {?o}"
      "\<forall>x \<in> (set cands - {?o}) - set c. \<forall>y \<in> set c. older x y" by auto
    have "older ?o y" if "y \<in> set c" for y
      using oldest_of_map [OF ne "1.prems"(2), of y zero_time] that IH(2) by auto
    then show ?thesis using IH True by auto
  qed
qed

text \<open>The inactive marks are bounded: \<open>capInactiveLocked\<close> always ends, leaves at most 256
  marks (all of them when there are no more), keeps only marks that were there, and every mark it
  evicts is older than every mark it keeps, ties broken by key.\<close>

theorem inactive_marks_bounded:
  assumes "distinct (map fst (inactive_candidates b))" "'''' \<notin> fst ` set (inactive_candidates b)"
  shows "length (inactive_candidates (capInactiveLocked b)) = min (length (inactive_candidates b)) 256 \<and>
    set (inactive_candidates (capInactiveLocked b)) \<subseteq> set (inactive_candidates b) \<and>
    (\<forall>x \<in> set (inactive_candidates b) - set (inactive_candidates (capInactiveLocked b)).
       \<forall>y \<in> set (inactive_candidates (capInactiveLocked b)). older x y)"
proof -
  obtain c p where cp: "cap_loop (inactive_candidates b) (inactive_probe_at b) = (c, p)" by fastforce
  then have "inactive_candidates (capInactiveLocked b) = c" by (simp add: capInactiveLocked_def)
  then show ?thesis using cap_loop_keeps_newest [OF assms cp] by (simp add: maxInactiveCameras_def)
qed

theorem inactive_marks_witness:
  "length (inactive_candidates (capInactiveLocked (sample_empty\<lparr>inactive_candidates :=
     map (\<lambda>n. (replicate n CHR ''k'', int n)) [1..<300]\<rparr>))) = 256"
proof -
  let ?b = "sample_empty\<lparr>inactive_candidates := map (\<lambda>n. (replicate n CHR ''k'', int n)) [1..<300]\<rparr>"
  have "inj (\<lambda>n. replicate n CHR ''k'')" by (rule injI) (metis length_replicate)
  then have "inj_on (fst \<circ> (\<lambda>n. (replicate n CHR ''k'', int n))) {1..<300}"
    by (simp add: comp_def inj_on_def inj_def)
  then have "distinct (map fst (inactive_candidates ?b))"
    by (simp add: distinct_map comp_def)
  moreover have "'''' \<notin> fst ` set (inactive_candidates ?b)" by auto
  ultimately show ?thesis using inactive_marks_bounded [of ?b] by simp
qed


section \<open>The quarantine across a restart\<close>

text \<open>A SaaS that rejects every event as invalid.\<close>

definition reject_all :: sender where
  "reject_all = \<lparr>post = \<lambda>e. Some (ErrInvalidRequest, ''400''), put = \<lambda>u k st p h n. None,
     stat_ev = \<lambda>p. None, readable = \<lambda>p. True\<rparr>"

lemma sequence_of_first: "sequenceFromName (seq_name 1) = Some 1" "has_suffix (seq_name 1) ''.json''"
  using parse_uint_pad_dec [of 1 20]
  by (simp_all add: sequenceFromName_def seq_name_def has_suffix_def)

lemma quarantine_first:
  "quarantine_seqs (snd (ProcessOne no_faults 9 reject_all sample_one)) = [1] \<and>
   disk (snd (ProcessOne no_faults 9 reject_all sample_one)) =
     [((QuarantineDir, seq_name 1), RecordFile (json_record (sample_rec 1 ''e1'' ''cam'')))]"
  by (simp add: ProcessOne_def ProcessOne_begin_def ProcessOne_finish_def finish_err_def sample_one_def
      sample_empty_def new_backlog_def due_def sample_rec_def send_def reject_all_def sample_sub_def
      permanent_def quarantineAtLocked_def fs_rename_def no_faults_def rec_path_def step_fs_def
      drop_from_queue_def remove_nth_def notifyQuarantined_def enforceQuarantineBoundLocked.simps
      sample_cfg_def Let_def)


definition reopened :: backlog where
  "reopened = (new_backlog sample_cfg
       [((QuarantineDir, seq_name 1), RecordFile (json_record (sample_rec 1 ''e1'' ''cam'')))] 1)
     \<lparr>quarantine_seqs := [1], quarantined := 1\<rparr>"

lemma quarantine_reopen:
  "Open no_faults sample_cfg
     [((QuarantineDir, seq_name 1), RecordFile (json_record (sample_rec 1 ''e1'' ''cam'')))] 0 = Inr reopened"
proof -
  let ?d = "[((QuarantineDir, seq_name 1), RecordFile (json_record (sample_rec 1 ''e1'' ''cam'')))]"
  have dirs: "read_dir PendingDir ?d = []"
    "read_dir QuarantineDir ?d = [(seq_name 1, RecordFile (json_record (sample_rec 1 ''e1'' ''cam'')))]"
    by (simp_all add: read_dir_def)
  have "normalize_config sample_cfg = sample_cfg"
    by (simp add: normalize_config_def sample_cfg_def second_def DefaultInactiveRetention_def)
  moreover have "recover no_faults (new_backlog sample_cfg ?d 0) = new_backlog sample_cfg ?d 1"
    using dirs by (simp add: recover_def loadInactiveLocked_def no_faults_def new_backlog_def step_fs_def
        inactive_path_def)
  moreover have "disk (new_backlog sample_cfg ?d 1) = ?d" by (simp add: new_backlog_def)
  moreover have "enforceQuarantineBoundLocked no_faults reopened = (None, reopened)"
    by (subst enforceQuarantineBoundLocked.simps) (simp add: reopened_def new_backlog_def sample_cfg_def)
  ultimately show ?thesis
    using dirs sequence_of_first
    by (simp add: Open_def loadQuarantineLocked_def List.map_filter_def reopened_def)
      (simp add: sample_cfg_def)
qed

lemma quarantine_reuse:
  "let b = snd (ProcessOne no_faults 9 reject_all
             (snd (Enqueue no_faults (\<lambda>p. None) 5 (sample_sub ''e2'' ''cam'') reopened)))
   in quarantine_seqs b = [1, 1] \<and>
      disk b = [((QuarantineDir, seq_name 1), RecordFile (json_record (sample_rec 1 ''e2'' ''cam'')))]"
proof -
  have enq: "snd (Enqueue no_faults (\<lambda>p. None) 5 (sample_sub ''e2'' ''cam'') reopened) =
    reopened\<lparr>queue := [sample_rec 1 ''e2'' ''cam''], counter := 1,
      disk := disk reopened @ [(rec_path (sample_rec 1 ''e2'' ''cam''),
                RecordFile (json_record (sample_rec 1 ''e2'' ''cam'')))], tick := 3\<rparr>"
    by (simp add: Enqueue_def enqueue_store_def writeLocked_def marshal_def sample_sub_def sample_event_def
        is_fin_def fs_write_def fs_rename_def no_faults_def new_backlog_def reopened_def
        sample_rec_def sample_cfg_def Let_def pendingBytes_def submissionBytes_def step_fs_def rec_path_def
        json_record_def tmp_path_def)
  show ?thesis
    unfolding enq Let_def
    by (simp add: ProcessOne_def ProcessOne_begin_def ProcessOne_finish_def finish_err_def reopened_def
        new_backlog_def due_def sample_rec_def send_def reject_all_def sample_sub_def
        permanent_def quarantineAtLocked_def fs_rename_def no_faults_def rec_path_def step_fs_def
        drop_from_queue_def remove_nth_def notifyQuarantined_def enforceQuarantineBoundLocked.simps
        sample_cfg_def Let_def)
qed

text \<open>\<open>recover\<close> counts the pending records only, so a restart reuses the sequence numbers of
  quarantined ones: an event rejected before the restart and one rejected after it get the same
  quarantine file, the second overwrites the first, and the quarantine counts two where one is left.\<close>

theorem quarantine_overwritten_after_restart:
  "\<exists>before after. before = snd (ProcessOne no_faults 9 reject_all sample_one) \<and>
     map_of (disk before) (QuarantineDir, seq_name 1) = Some (RecordFile (json_record (sample_rec 1 ''e1'' ''cam''))) \<and>
     Open no_faults sample_cfg (disk before) 0 = Inr reopened \<and>
     after = snd (ProcessOne no_faults 9 reject_all
                    (snd (Enqueue no_faults (\<lambda>p. None) 5 (sample_sub ''e2'' ''cam'') reopened))) \<and>
     disk after = [((QuarantineDir, seq_name 1), RecordFile (json_record (sample_rec 1 ''e2'' ''cam'')))] \<and>
     length (quarantine_seqs after) = 2"
proof (intro exI conjI)
  let ?before = "snd (ProcessOne no_faults 9 reject_all sample_one)"
  show "map_of (disk ?before) (QuarantineDir, seq_name 1) =
      Some (RecordFile (json_record (sample_rec 1 ''e1'' ''cam'')))" using quarantine_first by simp
  show "Open no_faults sample_cfg (disk ?before) 0 = Inr reopened"
    using quarantine_first quarantine_reopen by simp
  let ?after = "snd (ProcessOne no_faults 9 reject_all
    (snd (Enqueue no_faults (\<lambda>p. None) 5 (sample_sub ''e2'' ''cam'') reopened)))"
  have q: "quarantine_seqs ?after = [1, 1]"
    and d: "disk ?after = [((QuarantineDir, seq_name 1), RecordFile (json_record (sample_rec 1 ''e2'' ''cam'')))]"
    using quarantine_reuse unfolding Let_def by blast+
  show "disk ?after = [((QuarantineDir, seq_name 1), RecordFile (json_record (sample_rec 1 ''e2'' ''cam'')))]"
    by (rule d)
  show "length (quarantine_seqs ?after) = 2" unfolding q by simp
qed (rule refl)+

end
