(* ===== verification/Rtp.thy ===== *)
theory Rtp
  imports Edge_Prelude "HOL-Library.Word" "HOL-Library.Monad_Syntax"
begin

text \<open>
  The RTP header parser of \<open>internal/processing/rtp.go\<close>. Bytes are 8-bit words and every slice access
  of the code is a checked access here: the outer \<open>None\<close> is Go's index panic, so the absence of
  panics is a theorem and not a convention. The inner sum is the function's own error result.
\<close>

unbundle bit_operations_syntax

section \<open>Bytes and checked slices\<close>

type_synonym byte = "8 word"

definition byte_at :: "byte list \<Rightarrow> nat \<Rightarrow> byte option" where
  "byte_at p i = (if i < length p then Some (p ! i) else None)"

definition slice :: "byte list \<Rightarrow> nat \<Rightarrow> nat \<Rightarrow> byte list option" where
  "slice p i j = (if i \<le> j \<and> j \<le> length p then Some (take (j - i) (drop i p)) else None)"

definition slice_from :: "byte list \<Rightarrow> nat \<Rightarrow> byte list option" where
  "slice_from p i = slice p i (length p)"

text \<open>Big-endian readings, as the code spells them out with shifts.\<close>

definition be16 :: "byte \<Rightarrow> byte \<Rightarrow> 16 word" where
  "be16 a b = push_bit 8 (ucast a) OR ucast b"

definition be32 :: "byte \<Rightarrow> byte \<Rightarrow> byte \<Rightarrow> byte \<Rightarrow> 32 word" where
  "be32 a b c d = push_bit 24 (ucast a) OR push_bit 16 (ucast b) OR push_bit 8 (ucast c) OR ucast d"

text \<open>The same reading at type \<open>int\<close>, where nothing is cut off: \<open>int(a)<<8 | int(b)\<close>.\<close>

definition be16_int :: "byte \<Rightarrow> byte \<Rightarrow> nat" where
  "be16_int a b = unat a * 256 + unat b"

lemma byte_at_Some [simp]: "i < length p \<Longrightarrow> byte_at p i = Some (p ! i)"
  by (simp add: byte_at_def)

lemma slice_Some [simp]: "i \<le> j \<Longrightarrow> j \<le> length p \<Longrightarrow> slice p i j = Some (take (j - i) (drop i p))"
  by (simp add: slice_def)

lemma slice_from_Some [simp]: "i \<le> length p \<Longrightarrow> slice_from p i = Some (drop i p)"
  by (simp add: slice_from_def)

definition bytes16 :: "16 word \<Rightarrow> byte list" where
  "bytes16 w = [ucast (drop_bit 8 w), ucast w]"

definition bytes32 :: "32 word \<Rightarrow> byte list" where
  "bytes32 w = [ucast (drop_bit 24 w), ucast (drop_bit 16 w), ucast (drop_bit 8 w), ucast w]"

lemma be16_bytes16 [simp]: "be16 (ucast (drop_bit 8 w)) (ucast w) = w"
  by (rule bit_word_eqI) (auto simp: be16_def bit_simps not_le not_less)

lemma be32_bytes32 [simp]:
  "be32 (ucast (drop_bit 24 w)) (ucast (drop_bit 16 w)) (ucast (drop_bit 8 w)) (ucast w) = w"
proof (rule bit_word_eqI)
  fix n :: nat
  assume "n < LENGTH(32)"
  then consider "n < 8" | "8 \<le> n" "n < 16" | "16 \<le> n" "n < 24" | "24 \<le> n" "n < 32" by fastforce
  then show "bit (be32 (ucast (drop_bit 24 w)) (ucast (drop_bit 16 w)) (ucast (drop_bit 8 w)) (ucast w)) n = bit w n"
    by cases (auto simp: be32_def bit_simps)
qed

section \<open>The header\<close>

record rtp_header =
  Version :: byte
  Padding :: bool
  Extension :: bool
  CSRCCount :: byte
  Marker :: bool
  PayloadType :: byte
  SequenceNumber :: "16 word"
  Timestamp :: "32 word"
  SSRC :: "32 word"
  CSRC :: "32 word list"
  PayloadStart :: nat
  PayloadEnd :: nat

datatype rtp_error =
    TooShort
  | UnsupportedVersion byte
  | TooShortForCSRC
  | TooShortForExtension
  | ExtensionOverrun
  | OffsetOverrun
  | PaddingWithoutPayload
  | BadPadding nat

definition Payload :: "rtp_header \<Rightarrow> byte list \<Rightarrow> byte list option" where
  "Payload h p = slice p (PayloadStart h) (PayloadEnd h)"

text \<open>The loop that reads the CSRC list.\<close>

fun read_csrc :: "byte list \<Rightarrow> nat \<Rightarrow> nat \<Rightarrow> 32 word list option" where
  "read_csrc p off 0 = Some []"
| "read_csrc p off (Suc n) =
     do { a \<leftarrow> byte_at p off; b \<leftarrow> byte_at p (off + 1); c \<leftarrow> byte_at p (off + 2); d \<leftarrow> byte_at p (off + 3);
          rest \<leftarrow> read_csrc p (off + 4) n;
          Some (be32 a b c d # rest) }"

text \<open>The offset after the header extension.\<close>

definition extension_end :: "byte list \<Rightarrow> bool \<Rightarrow> nat \<Rightarrow> (rtp_error + nat) option" where
  "extension_end p ext off =
     (if \<not> ext then Some (Inr off)
      else if off + 4 > length p then Some (Inl TooShortForExtension)
      else do { a \<leftarrow> byte_at p (off + 2); b \<leftarrow> byte_at p (off + 3);
                let total = 4 + be16_int a b * 4;
                if off + total > length p then Some (Inl ExtensionOverrun)
                else Some (Inr (off + total)) })"

definition padding_end :: "byte list \<Rightarrow> bool \<Rightarrow> nat \<Rightarrow> (rtp_error + nat) option" where
  "padding_end p pad off =
     (let e = length p in
      if \<not> pad then Some (Inr e)
      else if e = off then Some (Inl PaddingWithoutPayload)
      else do { l \<leftarrow> byte_at p (e - 1);
                let n = unat l;
                if n = 0 \<or> off + n > e then Some (Inl (BadPadding n)) else Some (Inr (e - n)) })"

text \<open>The parser from the version check on, given the fields of the fixed header.\<close>

definition parse_rest :: "byte list \<Rightarrow> rtp_header \<Rightarrow> (rtp_error + rtp_header) option" where
  "parse_rest p h =
     (if Version h \<noteq> 2 then Some (Inl (UnsupportedVersion (Version h)))
      else (let csrc_len = unat (CSRCCount h) * 4 in
        if 12 + csrc_len > length p then Some (Inl TooShortForCSRC)
        else do {
          cs \<leftarrow> read_csrc p 12 (unat (CSRCCount h));
          ext \<leftarrow> extension_end p (Extension h) (12 + csrc_len);
          case ext of
            Inl e \<Rightarrow> Some (Inl e)
          | Inr off \<Rightarrow>
              if off > length p then Some (Inl OffsetOverrun)
              else do {
                pad \<leftarrow> padding_end p (Padding h) off;
                case pad of
                  Inl e \<Rightarrow> Some (Inl e)
                | Inr en \<Rightarrow> Some (Inr (h\<lparr>CSRC := cs, PayloadStart := off, PayloadEnd := en\<rparr>)) } }))"

definition ParseRTPHeader :: "byte list \<Rightarrow> (rtp_error + rtp_header) option" where
  "ParseRTPHeader p =
     (if length p < 12 then Some (Inl TooShort)
      else do {
        b0 \<leftarrow> byte_at p 0; b1 \<leftarrow> byte_at p 1;
        s0 \<leftarrow> byte_at p 2; s1 \<leftarrow> byte_at p 3;
        t0 \<leftarrow> byte_at p 4; t1 \<leftarrow> byte_at p 5; t2 \<leftarrow> byte_at p 6; t3 \<leftarrow> byte_at p 7;
        r0 \<leftarrow> byte_at p 8; r1 \<leftarrow> byte_at p 9; r2 \<leftarrow> byte_at p 10; r3 \<leftarrow> byte_at p 11;
        parse_rest p
          \<lparr>Version = drop_bit 6 b0, Padding = (b0 AND 0x20 \<noteq> 0), Extension = (b0 AND 0x10 \<noteq> 0),
           CSRCCount = b0 AND 0x0F, Marker = (b1 AND 0x80 \<noteq> 0), PayloadType = b1 AND 0x7F,
           SequenceNumber = be16 s0 s1, Timestamp = be32 t0 t1 t2 t3, SSRC = be32 r0 r1 r2 r3,
           CSRC = [], PayloadStart = 0, PayloadEnd = 0\<rparr> })"

section \<open>Lemmas\<close>

lemma read_csrc_total:
  "off + 4 * n \<le> length p \<Longrightarrow> \<exists>cs. read_csrc p off n = Some cs \<and> length cs = n"
proof (induction n arbitrary: off)
  case 0
  then show ?case by simp
next
  case (Suc n)
  from Suc.IH [of "off + 4"] Suc.prems obtain cs where "read_csrc p (off + 4) n = Some cs" "length cs = n"
    by auto
  then show ?case using Suc.prems by simp
qed

lemma extension_end_ok:
  "off \<le> length p \<Longrightarrow>
     (case extension_end p ext off of None \<Rightarrow> False | Some (Inl e) \<Rightarrow> True
      | Some (Inr off') \<Rightarrow> off \<le> off' \<and> off' \<le> length p)"
  by (simp add: extension_end_def Let_def)

lemma padding_end_ok:
  "off \<le> length p \<Longrightarrow> 0 < off \<Longrightarrow>
     (case padding_end p pad off of None \<Rightarrow> False | Some (Inl e) \<Rightarrow> True
      | Some (Inr en) \<Rightarrow> off \<le> en \<and> en \<le> length p)"
  by (auto simp: padding_end_def Let_def)

text \<open>The fixed fields, read without checks: they are in range on a packet of 12 bytes.\<close>

definition fixed_header :: "byte list \<Rightarrow> rtp_header" where
  "fixed_header p =
     \<lparr>Version = drop_bit 6 (p ! 0), Padding = (p ! 0 AND 0x20 \<noteq> 0), Extension = (p ! 0 AND 0x10 \<noteq> 0),
      CSRCCount = p ! 0 AND 0x0F, Marker = (p ! 1 AND 0x80 \<noteq> 0), PayloadType = p ! 1 AND 0x7F,
      SequenceNumber = be16 (p ! 2) (p ! 3), Timestamp = be32 (p ! 4) (p ! 5) (p ! 6) (p ! 7),
      SSRC = be32 (p ! 8) (p ! 9) (p ! 10) (p ! 11), CSRC = [], PayloadStart = 0, PayloadEnd = 0\<rparr>"

lemma ParseRTPHeader_long: "12 \<le> length p \<Longrightarrow> ParseRTPHeader p = parse_rest p (fixed_header p)"
proof -
  assume "12 \<le> length p"
  then have "p \<noteq> []" by auto
  then have "byte_at p 0 = Some (p ! 0)" by simp
  with \<open>12 \<le> length p\<close> show ?thesis by (simp add: ParseRTPHeader_def fixed_header_def)
qed

abbreviation header_ok :: "byte list \<Rightarrow> rtp_header \<Rightarrow> bool" where
  "header_ok p h \<equiv> Version h = 2 \<and> length (CSRC h) = unat (CSRCCount h) \<and>
     12 + 4 * length (CSRC h) \<le> PayloadStart h \<and> PayloadStart h \<le> PayloadEnd h \<and>
     PayloadEnd h \<le> length p \<and>
     Payload h p = Some (take (PayloadEnd h - PayloadStart h) (drop (PayloadStart h) p))"

lemma parse_rest_ok:
  "case parse_rest p h of None \<Rightarrow> False | Some (Inl e) \<Rightarrow> True | Some (Inr h') \<Rightarrow> header_ok p h'"
proof (cases "Version h = 2 \<and> 12 + unat (CSRCCount h) * 4 \<le> length p")
  case False
  then show ?thesis by (auto simp: parse_rest_def Let_def)
next
  case ok: True
  let ?n = "unat (CSRCCount h)"
  from ok read_csrc_total [of 12 ?n p] obtain cs where cs: "read_csrc p 12 ?n = Some cs" "length cs = ?n"
    by (auto simp: mult.commute)
  from ok extension_end_ok [of "12 + ?n * 4" p "Extension h"] obtain ext where
    ext: "extension_end p (Extension h) (12 + ?n * 4) = Some ext"
    "case ext of Inl e \<Rightarrow> True | Inr off \<Rightarrow> 12 + ?n * 4 \<le> off \<and> off \<le> length p"
    by (cases "extension_end p (Extension h) (12 + ?n * 4)") auto
  show ?thesis
  proof (cases ext)
    case (Inl e)
    then show ?thesis using ok ext(1) cs by (simp add: parse_rest_def Let_def)
  next
    case (Inr off)
    with ext have off: "12 + ?n * 4 \<le> off" "off \<le> length p" by simp_all
    then have "case padding_end p (Padding h) off of None \<Rightarrow> False | Some (Inl e) \<Rightarrow> True
        | Some (Inr en) \<Rightarrow> off \<le> en \<and> en \<le> length p" by (intro padding_end_ok) simp_all
    then show ?thesis using ok ext(1) cs Inr off
      by (auto simp: parse_rest_def Let_def Payload_def split: option.splits sum.splits)
  qed
qed

section \<open>Properties\<close>

text \<open>\<open>ParseRTPHeader\<close> never indexes outside the packet, whatever the bytes: it returns an error
  or a header, and a header's payload bounds are ordered, lie behind the fixed header and the CSRC
  list and inside the packet, so \<open>Payload\<close> does not panic either.\<close>

theorem rtp_parse_safe:
  "case ParseRTPHeader p of
     None \<Rightarrow> False
   | Some (Inl e) \<Rightarrow> True
   | Some (Inr h) \<Rightarrow>
       Version h = 2 \<and> length (CSRC h) = unat (CSRCCount h) \<and>
       12 + 4 * length (CSRC h) \<le> PayloadStart h \<and> PayloadStart h \<le> PayloadEnd h \<and>
       PayloadEnd h \<le> length p \<and>
       Payload h p = Some (take (PayloadEnd h - PayloadStart h) (drop (PayloadStart h) p))"
proof (cases "length p < 12")
  case True
  then show ?thesis by (simp add: ParseRTPHeader_def)
next
  case False
  then show ?thesis
    using parse_rest_ok [of p "fixed_header p"] by (simp add: ParseRTPHeader_long)
qed

section \<open>The header format\<close>

text \<open>An RTP packet as RFC 3550 lays it out: the specification the parser is checked against.\<close>

definition first_byte :: "bool \<Rightarrow> bool \<Rightarrow> nat \<Rightarrow> byte" where
  "first_byte pad ext cc = 0x80 OR (if pad then 0x20 else 0) OR (if ext then 0x10 else 0) OR of_nat cc"

definition second_byte :: "bool \<Rightarrow> byte \<Rightarrow> byte" where
  "second_byte marker pt = (if marker then 0x80 else 0) OR pt"

definition encode_ext :: "(byte list \<times> 32 word list) option \<Rightarrow> byte list" where
  "encode_ext e = (case e of None \<Rightarrow> []
     | Some (profile, ws) \<Rightarrow> profile @ bytes16 (of_nat (length ws)) @ concat (map bytes32 ws))"

definition encode_pad :: "nat \<Rightarrow> byte list" where
  "encode_pad n = (if n = 0 then [] else replicate (n - 1) 0 @ [of_nat n])"

definition encode_rtp ::
  "bool \<Rightarrow> byte \<Rightarrow> 16 word \<Rightarrow> 32 word \<Rightarrow> 32 word \<Rightarrow> 32 word list \<Rightarrow> (byte list \<times> 32 word list) option \<Rightarrow>
   nat \<Rightarrow> byte list \<Rightarrow> byte list"
where
  "encode_rtp marker pt sq ts ssrc cs ext pad body =
     [first_byte (0 < pad) (ext \<noteq> None) (length cs), second_byte marker pt] @ bytes16 sq @ bytes32 ts @
     bytes32 ssrc @ concat (map bytes32 cs) @ encode_ext ext @ body @ encode_pad pad"


lemma first_byte_fields:
  assumes "cc \<le> 15"
  shows "drop_bit 6 (first_byte pad ext cc) = 2 \<and> (first_byte pad ext cc AND 0x20 \<noteq> 0) = pad \<and>
    (first_byte pad ext cc AND 0x10 \<noteq> 0) = ext \<and> unat (first_byte pad ext cc AND 0x0F) = cc"
proof -
  from assms have "cc \<in> set [0..<16]" by simp
  then have "cc = 0 \<or> cc = 1 \<or> cc = 2 \<or> cc = 3 \<or> cc = 4 \<or> cc = 5 \<or> cc = 6 \<or> cc = 7 \<or> cc = 8 \<or>
      cc = 9 \<or> cc = 10 \<or> cc = 11 \<or> cc = 12 \<or> cc = 13 \<or> cc = 14 \<or> cc = 15"
    by (simp add: upt_rec numeral_eq_Suc)
  then show ?thesis by (elim disjE) (cases pad; cases ext; simp add: first_byte_def)+
qed

lemma second_byte_fields:
  assumes "pt AND 0x7F = pt"
  shows "(second_byte marker pt AND 0x80 \<noteq> 0) = marker \<and> second_byte marker pt AND 0x7F = pt"
proof -
  have "pt AND 0x80 = (pt AND 0x7F) AND 0x80" using assms by simp
  also have "\<dots> = 0" by (simp add: and.assoc)
  finally have "pt AND 0x80 = 0" .
  then show ?thesis using assms by (cases marker) (simp_all add: second_byte_def bit.conj_disj_distrib2)
qed

lemma length_bytes32 [simp]: "length (bytes32 w) = 4" and length_bytes16 [simp]: "length (bytes16 v) = 2"
  by (simp_all add: bytes32_def bytes16_def)

lemma length_concat_bytes32 [simp]: "length (concat (map bytes32 ws)) = 4 * length ws"
  by (induction ws) simp_all

lemma read_csrc_encoded:
  "read_csrc (pre @ concat (map bytes32 cs) @ post) (length pre) (length cs) = Some cs"
proof (induction cs arbitrary: pre)
  case Nil
  then show ?case by simp
next
  case (Cons c cs)
  from Cons.IH [of "pre @ bytes32 c"]
  have "read_csrc (pre @ bytes32 c @ concat (map bytes32 cs) @ post) (length pre + 4) (length cs) = Some cs"
    by simp
  then show ?case
    by (simp add: byte_at_def nth_append) (simp add: bytes32_def numeral_3_eq_3 numeral_2_eq_2)
qed

lemma be16_int_bytes:
  assumes "n < 65536"
  shows "be16_int (ucast (drop_bit 8 (of_nat n :: 16 word))) (ucast (of_nat n :: 16 word)) = n"
proof -
  have "unat (ucast (drop_bit 8 (of_nat n :: 16 word)) :: byte) = n div 256"
    using assms by (simp add: unsigned_ucast_eq drop_bit_eq_div unat_div unat_of_nat take_bit_eq_mod)
  moreover have "unat (ucast (of_nat n :: 16 word) :: byte) = n mod 256"
    using assms by (simp add: unsigned_ucast_eq unat_of_nat take_bit_eq_mod)
  ultimately show ?thesis by (simp add: be16_int_def)
qed


definition wf_ext :: "(byte list \<times> 32 word list) option \<Rightarrow> bool" where
  "wf_ext e = (case e of None \<Rightarrow> True | Some (profile, ws) \<Rightarrow> length profile = 2 \<and> length ws < 65536)"

lemma extension_end_encoded:
  assumes "wf_ext ext"
  shows "extension_end (pre @ encode_ext ext @ post) (ext \<noteq> None) (length pre) =
    Some (Inr (length pre + length (encode_ext ext)))"
proof (cases ext)
  case None
  then show ?thesis by (simp add: extension_end_def encode_ext_def)
next
  case (Some pw)
  obtain a b ws where pw: "pw = ([a, b], ws)" "length ws < 65536"
    using assms Some by (cases pw) (auto simp: wf_ext_def length_Suc_conv numeral_2_eq_2)
  then have "be16_int (ucast (drop_bit 8 (of_nat (length ws) :: 16 word))) (ucast (of_nat (length ws) :: 16 word))
      = length ws" by (intro be16_int_bytes)
  then show ?thesis using Some pw
    by (simp add: extension_end_def encode_ext_def byte_at_def nth_append bytes16_def Let_def numeral_3_eq_3
        numeral_2_eq_2)
qed

lemma padding_end_encoded:
  assumes "pad \<le> 255" "0 < length pre"
  shows "padding_end (pre @ body @ encode_pad pad) (0 < pad) (length pre) = Some (Inr (length pre + length body))"
proof (cases "pad = 0")
  case True
  then show ?thesis by (simp add: padding_end_def encode_pad_def)
next
  case False
  have "(pre @ body @ encode_pad pad) ! (length (pre @ body @ encode_pad pad) - 1) = last (pre @ body @ encode_pad pad)"
    using assms(2) by (intro last_conv_nth [symmetric]) auto
  also have "\<dots> = of_nat pad" using False by (simp add: encode_pad_def)
  finally have "byte_at (pre @ body @ encode_pad pad) (length (pre @ body @ encode_pad pad) - 1) = Some (of_nat pad)"
    using assms(2) by (simp add: byte_at_def)
  moreover have "unat (of_nat pad :: byte) = pad" using assms(1) by (simp add: unat_of_nat take_bit_eq_mod)
  moreover have "length (encode_pad pad) = pad" using False by (simp add: encode_pad_def)
  ultimately show ?thesis using False by (simp add: padding_end_def Let_def)
qed

text \<open>Round trip with the RFC 3550 layout: from a packet with up to 15 contributing sources, an
  optional extension of any declared length and up to 255 bytes of padding, \<open>ParseRTPHeader\<close> reads
  back every field, and \<open>Payload\<close> is exactly the media payload.\<close>

theorem rtp_parse_roundtrip:
  assumes "length cs \<le> 15" "pt AND 0x7F = pt" "wf_ext ext" "pad \<le> 255"
  shows "\<exists>h. ParseRTPHeader (encode_rtp marker pt sq ts ssrc cs ext pad body) = Some (Inr h) \<and>
    Marker h = marker \<and> PayloadType h = pt \<and> SequenceNumber h = sq \<and> Timestamp h = ts \<and> SSRC h = ssrc \<and>
    CSRC h = cs \<and> Payload h (encode_rtp marker pt sq ts ssrc cs ext pad body) = Some body"
proof -
  let ?p = "encode_rtp marker pt sq ts ssrc cs ext pad body"
  define pre where "pre = [first_byte (0 < pad) (ext \<noteq> None) (length cs), second_byte marker pt] @ bytes16 sq @
    bytes32 ts @ bytes32 ssrc"
  have pre: "length pre = 12" by (simp add: pre_def)
  have p: "?p = pre @ concat (map bytes32 cs) @ encode_ext ext @ body @ encode_pad pad"
    by (simp add: encode_rtp_def pre_def)
  have hdr: "fixed_header ?p = \<lparr>Version = 2, Padding = (0 < pad), Extension = (ext \<noteq> None),
      CSRCCount = first_byte (0 < pad) (ext \<noteq> None) (length cs) AND 0x0F, Marker = marker, PayloadType = pt,
      SequenceNumber = sq, Timestamp = ts, SSRC = ssrc, CSRC = [], PayloadStart = 0, PayloadEnd = 0\<rparr>"
    using first_byte_fields [OF assms(1), of "0 < pad" "ext \<noteq> None"] second_byte_fields [OF assms(2), of marker]
    by (simp add: fixed_header_def encode_rtp_def bytes16_def bytes32_def)
  have cc: "unat (first_byte (0 < pad) (ext \<noteq> None) (length cs) AND 0x0F) = length cs"
    using first_byte_fields [OF assms(1)] by blast
  have csrc: "read_csrc ?p 12 (length cs) = Some cs"
    using read_csrc_encoded [of pre cs] pre by (simp add: p)
  let ?pre2 = "pre @ concat (map bytes32 cs)" and ?pre3 = "pre @ concat (map bytes32 cs) @ encode_ext ext"
  have ext: "extension_end ?p (ext \<noteq> None) (12 + length cs * 4) = Some (Inr (length ?pre3))"
    using extension_end_encoded [OF assms(3), of ?pre2 "body @ encode_pad pad"] pre
    by (simp add: p mult.commute add.assoc)
  have pad: "padding_end ?p (0 < pad) (length ?pre3) = Some (Inr (length ?pre3 + length body))"
    using padding_end_encoded [OF assms(4), of ?pre3 body] pre by (simp add: p)
  have len: "length ?pre3 + length body \<le> length ?p" "12 + length cs * 4 \<le> length ?p" "12 \<le> length ?p"
    using pre by (simp_all add: p)
  have parsed: "ParseRTPHeader ?p = Some (Inr ((fixed_header ?p)\<lparr>CSRC := cs, PayloadStart := length ?pre3,
      PayloadEnd := length ?pre3 + length body\<rparr>))"
    unfolding ParseRTPHeader_long [OF len(3)] parse_rest_def hdr using len csrc ext pad cc
    by (simp add: Let_def)
  moreover have "take (length body) (drop (length ?pre3) ?p) = body" by (simp add: p)
  ultimately show ?thesis using len(1) by (simp add: hdr Payload_def slice_def)
qed

theorem rtp_roundtrip_witness:
  "\<exists>h. ParseRTPHeader (encode_rtp True 96 65535 7 8 [1, 2] (Some ([190, 222], [5])) 3 [1, 2]) = Some (Inr h) \<and>
    Marker h \<and> PayloadType h = 96 \<and> SequenceNumber h = 65535 \<and> CSRC h = [1, 2] \<and>
    Payload h (encode_rtp True 96 65535 7 8 [1, 2] (Some ([190, 222], [5])) 3 [1, 2]) = Some [1, 2]"
  using rtp_parse_roundtrip [of "[1, 2]" 96 "Some ([190, 222], [5])" 3 True 65535 7 8 "[1, 2]"]
  by (auto simp: wf_ext_def)

end
