(* ===== verification/Depacketizer.thy ===== *)
theory Depacketizer
  imports Rtp
begin

text \<open>
  The H.264 and H.265 depacketizers of \<open>internal/processing/depacketizer.go\<close> and
  \<open>depacketizer_h265.go\<close>. The two Go structs share all fields but the saved NAL header, and their
  access-unit methods are the same text, so the common part is one record, extended per codec, and
  the shared methods are functions on every extension. As in the RTP parser, slice accesses are
  checked and the outer \<open>None\<close> is an index panic. Counters are natural numbers: 64-bit counters of
  packets do not wrap in the life of a device.
\<close>

section \<open>State\<close>

record access_unit =
  NALUs :: "byte list list"
  ReceivedAt :: gotime

record depack =
  haveLastSeq :: bool
  lastSeq :: "16 word"
  auNALUs :: "byte list list"
  auBytes :: nat
  auReceivedAt :: gotime
  auTimestamp :: "32 word"
  auOpen :: bool
  auCorrupt :: bool
  auOverflow :: bool
  fuActive :: bool
  fuBuf :: "byte list"
  ready :: "access_unit list"
  IncompleteAUsDropped :: nat
  ReassemblyErrors :: nat
  UnsupportedNALTypes :: nat
  OversizedAUsDropped :: nat

record h264 = depack +
  fuNALHeader :: byte

record h265 = depack +
  fuHeader0 :: byte
  fuHeader1 :: byte

definition maxAccessUnitBytes :: nat where
  "maxAccessUnitBytes = 8388608"

definition maxAccessUnitNALUs :: nat where
  "maxAccessUnitNALUs = 4096"

section \<open>Methods the codecs share\<close>

definition resetAUState :: "'a depack_scheme \<Rightarrow> 'a depack_scheme" where
  "resetAUState d = d\<lparr>auNALUs := [], auBytes := 0, auOpen := False, auCorrupt := False,
     auOverflow := False, auTimestamp := 0\<rparr>"

definition closeAU :: "'a depack_scheme \<Rightarrow> access_unit option \<times> 'a depack_scheme" where
  "closeAU d =
     (if auOverflow d
      then (None, resetAUState (d\<lparr>OversizedAUsDropped := OversizedAUsDropped d + 1\<rparr>))
      else if auCorrupt d \<or> auNALUs d = []
      then (None, resetAUState
              (if auCorrupt d then d\<lparr>IncompleteAUsDropped := IncompleteAUsDropped d + 1\<rparr> else d))
      else (Some \<lparr>NALUs = auNALUs d, ReceivedAt = auReceivedAt d\<rparr>, resetAUState d))"

text \<open>\<open>if au := d.closeAU(); au != nil { d.ready = append(d.ready, au) }\<close>\<close>

definition close_to_ready :: "'a depack_scheme \<Rightarrow> 'a depack_scheme" where
  "close_to_ready d =
     (case closeAU d of (None, d') \<Rightarrow> d' | (Some au, d') \<Rightarrow> d'\<lparr>ready := ready d' @ [au]\<rparr>)"

definition maybeCloseOnMarker :: "rtp_header \<Rightarrow> 'a depack_scheme \<Rightarrow> 'a depack_scheme" where
  "maybeCloseOnMarker h d = (if \<not> Marker h then d else close_to_ready d)"

definition popReady :: "'a depack_scheme \<Rightarrow> access_unit option \<times> 'a depack_scheme" where
  "popReady d = (case ready d of [] \<Rightarrow> (None, d) | au # rest \<Rightarrow> (Some au, d\<lparr>ready := rest\<rparr>))"

definition checkSequenceGap :: "16 word \<Rightarrow> 'a depack_scheme \<Rightarrow> bool \<times> 'a depack_scheme" where
  "checkSequenceGap sq d =
     (if \<not> haveLastSeq d then (False, d\<lparr>haveLastSeq := True, lastSeq := sq\<rparr>)
      else (sq \<noteq> lastSeq d + 1, d\<lparr>lastSeq := sq\<rparr>))"

definition abandonOversizedAU :: "'a depack_scheme \<Rightarrow> 'a depack_scheme" where
  "abandonOversizedAU d = d\<lparr>auOpen := True, auOverflow := True, auNALUs := [], auBytes := 0\<rparr>"

definition appendNALU :: "32 word \<Rightarrow> gotime \<Rightarrow> byte list \<Rightarrow> 'a depack_scheme \<Rightarrow> 'a depack_scheme" where
  "appendNALU ts now nalu d0 =
     (let d = (if \<not> auOpen d0 then d0\<lparr>auOpen := True, auReceivedAt := now, auTimestamp := ts\<rparr> else d0) in
      if auOverflow d then d
      else if auBytes d + length nalu > maxAccessUnitBytes \<or> length (auNALUs d) \<ge> maxAccessUnitNALUs
      then abandonOversizedAU d
      else d\<lparr>auNALUs := auNALUs d @ [nalu], auBytes := auBytes d + length nalu\<rparr>)"

text \<open>The head of \<open>Push\<close>: a sequence gap drops the fragment run and marks an open access unit
  corrupt, a new timestamp closes it.\<close>

definition begin_packet :: "rtp_header \<Rightarrow> 'a depack_scheme \<Rightarrow> 'a depack_scheme" where
  "begin_packet h d =
     (let (gap, d1) = checkSequenceGap (SequenceNumber h) d;
          d2 = (if gap
                then (let d' = d1\<lparr>fuActive := False, fuBuf := []\<rparr>
                      in if auOpen d' then d'\<lparr>auCorrupt := True\<rparr> else d')
                else d1)
      in if auOpen d2 \<and> Timestamp h \<noteq> auTimestamp d2 then close_to_ready d2 else d2)"

definition reassembly_error :: "'a depack_scheme \<Rightarrow> 'a depack_scheme" where
  "reassembly_error d = d\<lparr>ReassemblyErrors := ReassemblyErrors d + 1\<rparr>"

definition unsupported :: "'a depack_scheme \<Rightarrow> 'a depack_scheme" where
  "unsupported d = d\<lparr>UnsupportedNALTypes := UnsupportedNALTypes d + 1\<rparr>"

text \<open>The loop of \<open>parseSTAPA\<close> and \<open>parseH265AP\<close>: 2-byte length, then that many bytes. The inner
  \<open>None\<close> is a size that is zero or runs past the payload; the result carries the final offset.\<close>

function agg_loop :: "byte list \<Rightarrow> nat \<Rightarrow> byte list list \<Rightarrow> (byte list list \<times> nat) option option" where
  "agg_loop p off acc =
     (if off + 2 \<le> length p
      then do { a \<leftarrow> byte_at p off; b \<leftarrow> byte_at p (off + 1);
                let size = be16_int a b; let off' = off + 2;
                if size = 0 \<or> off' + size > length p then Some None
                else do { n \<leftarrow> slice p off' (off' + size);
                          agg_loop p (off' + size) (acc @ [n]) } }
      else Some (Some (acc, off)))"
  by pat_completeness auto
termination
  by (relation "measure (\<lambda>(p, off, acc). length p - off)") auto

declare agg_loop.simps [simp del]

section \<open>H.264\<close>

datatype stapa_error = STAPABounds | STAPAEmpty

definition parseSTAPA :: "byte list \<Rightarrow> (stapa_error + byte list list) option" where
  "parseSTAPA p =
     do { r \<leftarrow> agg_loop p 1 [];
          case r of None \<Rightarrow> Some (Inl STAPABounds)
          | Some (ns, off) \<Rightarrow> if ns = [] then Some (Inl STAPAEmpty) else Some (Inr ns) }"

definition NewH264Depacketizer :: h264 where
  "NewH264Depacketizer = \<lparr>haveLastSeq = False, lastSeq = 0, auNALUs = [], auBytes = 0,
     auReceivedAt = zero_time, auTimestamp = 0, auOpen = False, auCorrupt = False, auOverflow = False,
     fuActive = False, fuBuf = [], ready = [], IncompleteAUsDropped = 0, ReassemblyErrors = 0,
     UnsupportedNALTypes = 0, OversizedAUsDropped = 0, fuNALHeader = 0\<rparr>"

text \<open>The tail of \<open>handleFUA\<close>, after the fragment has been stored.\<close>

definition finish_fua :: "bool \<Rightarrow> rtp_header \<Rightarrow> gotime \<Rightarrow> h264 \<Rightarrow> h264" where
  "finish_fua fin h now d =
     (if \<not> fin then d
      else if \<not> fuActive d then maybeCloseOnMarker h (reassembly_error d)
      else (let nalu = fuNALHeader d # fuBuf d
            in maybeCloseOnMarker h (appendNALU (Timestamp h) now nalu (d\<lparr>fuActive := False, fuBuf := []\<rparr>))))"

definition handleFUA :: "byte list \<Rightarrow> rtp_header \<Rightarrow> gotime \<Rightarrow> h264 \<Rightarrow> h264 option" where
  "handleFUA p h now d =
     (if length p < 2 then Some (reassembly_error d)
      else do {
        ind \<leftarrow> byte_at p 0; hdr \<leftarrow> byte_at p 1; frag \<leftarrow> slice_from p 2;
        let start = (hdr AND 0x80 \<noteq> 0); let fin = (hdr AND 0x40 \<noteq> 0); let typ = hdr AND 0x1F;
        if start
        then (let d1 = (if fuActive d then reassembly_error d else d)
              in Some (finish_fua fin h now
                   (d1\<lparr>fuActive := True, fuNALHeader := (ind AND 0xE0) OR typ, fuBuf := frag\<rparr>)))
        else if \<not> fuActive d then Some (maybeCloseOnMarker h (reassembly_error d))
        else if length (fuBuf d) + length p - 2 > maxAccessUnitBytes
        then Some (maybeCloseOnMarker h (abandonOversizedAU
               (reassembly_error (d\<lparr>fuActive := False, fuBuf := []\<rparr>))))
        else Some (finish_fua fin h now (d\<lparr>fuBuf := fuBuf d @ frag\<rparr>)) })"

definition H264_Push :: "rtp_header \<Rightarrow> byte list \<Rightarrow> gotime \<Rightarrow> h264 \<Rightarrow> (access_unit option \<times> h264) option" where
  "H264_Push h p now d0 =
     (if p = [] then Some (popReady (reassembly_error d0))
      else do {
        let d = begin_packet h d0;
        b \<leftarrow> byte_at p 0;
        let t = b AND 0x1F;
        d' \<leftarrow> (if t = 24
               then do { r \<leftarrow> parseSTAPA p;
                         case r of
                           Inl e \<Rightarrow> Some (maybeCloseOnMarker h (reassembly_error d))
                         | Inr ns \<Rightarrow> Some (maybeCloseOnMarker h (fold (appendNALU (Timestamp h) now) ns d)) }
               else if t = 28 then handleFUA p h now d
               else if 1 \<le> t \<and> t \<le> 23
               then Some (maybeCloseOnMarker h (appendNALU (Timestamp h) now p d))
               else Some (maybeCloseOnMarker h (unsupported d)));
        Some (popReady d') })"

section \<open>H.265\<close>

definition parseH265AP :: "byte list \<Rightarrow> byte list list option option" where
  "parseH265AP p =
     do { r \<leftarrow> agg_loop p 2 [];
          case r of None \<Rightarrow> Some None
          | Some (ns, off) \<Rightarrow> Some (if ns \<noteq> [] \<and> off = length p then Some ns else None) }"

definition NewH265Depacketizer :: h265 where
  "NewH265Depacketizer = \<lparr>haveLastSeq = False, lastSeq = 0, auNALUs = [], auBytes = 0,
     auReceivedAt = zero_time, auTimestamp = 0, auOpen = False, auCorrupt = False, auOverflow = False,
     fuActive = False, fuBuf = [], ready = [], IncompleteAUsDropped = 0, ReassemblyErrors = 0,
     UnsupportedNALTypes = 0, OversizedAUsDropped = 0, fuHeader0 = 0, fuHeader1 = 0\<rparr>"

definition finish_fu :: "bool \<Rightarrow> rtp_header \<Rightarrow> gotime \<Rightarrow> h265 \<Rightarrow> h265" where
  "finish_fu fin h now d =
     (if \<not> fin then d
      else if \<not> fuActive d then maybeCloseOnMarker h (reassembly_error d)
      else (let nalu = fuHeader0 d # fuHeader1 d # fuBuf d
            in maybeCloseOnMarker h (appendNALU (Timestamp h) now nalu (d\<lparr>fuActive := False, fuBuf := []\<rparr>))))"

definition handleFU :: "byte list \<Rightarrow> rtp_header \<Rightarrow> gotime \<Rightarrow> h265 \<Rightarrow> h265 option" where
  "handleFU p h now d =
     (if length p < 4 then Some (maybeCloseOnMarker h (reassembly_error d))
      else do {
        p0 \<leftarrow> byte_at p 0; p1 \<leftarrow> byte_at p 1; hdr \<leftarrow> byte_at p 2; frag \<leftarrow> slice_from p 3;
        let start = (hdr AND 0x80 \<noteq> 0); let fin = (hdr AND 0x40 \<noteq> 0); let typ = hdr AND 0x3F;
        if start
        then (let d1 = (if fuActive d then reassembly_error d else d)
              in Some (finish_fu fin h now
                   (d1\<lparr>fuActive := True, fuHeader0 := (p0 AND 0x81) OR push_bit 1 typ, fuHeader1 := p1,
                       fuBuf := frag\<rparr>)))
        else if \<not> fuActive d then Some (maybeCloseOnMarker h (reassembly_error d))
        else if length (fuBuf d) + length frag + 2 > maxAccessUnitBytes
        then Some (maybeCloseOnMarker h (abandonOversizedAU
               (reassembly_error (d\<lparr>fuActive := False, fuBuf := []\<rparr>))))
        else Some (finish_fu fin h now (d\<lparr>fuBuf := fuBuf d @ frag\<rparr>)) })"

definition H265_Push :: "rtp_header \<Rightarrow> byte list \<Rightarrow> gotime \<Rightarrow> h265 \<Rightarrow> (access_unit option \<times> h265) option" where
  "H265_Push h p now d0 =
     (if length p < 2 then Some (popReady (reassembly_error d0))
      else do {
        let d = begin_packet h d0;
        b \<leftarrow> byte_at p 0;
        let t = drop_bit 1 b AND 0x3F;
        d' \<leftarrow> (if t \<le> 47 then Some (maybeCloseOnMarker h (appendNALU (Timestamp h) now p d))
               else if t = 48
               then do { r \<leftarrow> parseH265AP p;
                         case r of
                           None \<Rightarrow> Some (maybeCloseOnMarker h (reassembly_error d))
                         | Some ns \<Rightarrow> Some (maybeCloseOnMarker h (fold (appendNALU (Timestamp h) now) ns d)) }
               else if t = 49 then handleFU p h now d
               else Some (maybeCloseOnMarker h (unsupported d)));
        Some (popReady d') })"

end
