(* ===== verification/Depack_Bounds.thy ===== *)
theory Depack_Bounds
  imports Depacketizer
begin

text \<open>
  Safety of the depacketizers: on any sequence of packets they never index out of range and never
  hold more than one access unit's worth of memory, whatever the sender does. The shared contract is
  a locale over \<open>Push\<close>, interpreted by both codecs.
\<close>

section \<open>The invariant\<close>

definition au_ok :: "access_unit \<Rightarrow> bool" where
  "au_ok au \<longleftrightarrow> NALUs au \<noteq> [] \<and> length (NALUs au) \<le> maxAccessUnitNALUs \<and>
     sum_list (map length (NALUs au)) \<le> maxAccessUnitBytes"

definition dinv :: "'a depack_scheme \<Rightarrow> bool" where
  "dinv d \<longleftrightarrow> auBytes d = sum_list (map length (auNALUs d)) \<and> auBytes d \<le> maxAccessUnitBytes \<and>
     length (auNALUs d) \<le> maxAccessUnitNALUs \<and>
     (\<not> auOpen d \<longrightarrow> auNALUs d = [] \<and> \<not> auCorrupt d \<and> \<not> auOverflow d) \<and>
     length (fuBuf d) \<le> maxAccessUnitBytes \<and> list_all au_ok (ready d)"

text \<open>Access units the depacketizer holds: completed ones waiting to be popped, and the open one.\<close>

definition held :: "'a depack_scheme \<Rightarrow> nat" where
  "held d = length (ready d) + (if auOpen d then 1 else 0)"

lemmas au_defs = resetAUState_def closeAU_def close_to_ready_def maybeCloseOnMarker_def
  abandonOversizedAU_def appendNALU_def reassembly_error_def unsupported_def

lemma dinv_counters [simp]:
  "dinv (d\<lparr>ReassemblyErrors := n\<rparr>) = dinv d" "dinv (d\<lparr>UnsupportedNALTypes := n\<rparr>) = dinv d"
  "dinv (reassembly_error d) = dinv d" "dinv (unsupported d) = dinv d"
  by (simp_all add: dinv_def reassembly_error_def unsupported_def)

lemma ready_counters [simp]:
  "ready (reassembly_error d) = ready d" "ready (unsupported d) = ready d"
  "ready (abandonOversizedAU d) = ready d" "ready (appendNALU ts now n d) = ready d"
  by (simp_all add: au_defs Let_def)

lemma fuBuf_shared [simp]:
  "fuBuf (reassembly_error d) = fuBuf d" "fuBuf (unsupported d) = fuBuf d"
  "fuBuf (abandonOversizedAU d) = fuBuf d" "fuBuf (appendNALU ts now n d) = fuBuf d"
  by (simp_all add: au_defs Let_def)

lemma dinv_fu [simp]: "dinv d \<Longrightarrow> length f \<le> maxAccessUnitBytes \<Longrightarrow> dinv (d\<lparr>fuBuf := f\<rparr>)"
  "dinv (d\<lparr>fuActive := a\<rparr>) = dinv d"
  by (simp_all add: dinv_def)

lemma dinv_close:
  assumes "dinv d"
  shows "dinv (close_to_ready d)" "held (close_to_ready d) \<le> held d" "\<not> auOpen (close_to_ready d)"
  using assms by (auto simp: dinv_def held_def au_defs au_ok_def)

lemma dinv_marker:
  assumes "dinv d"
  shows "dinv (maybeCloseOnMarker h d)" "held (maybeCloseOnMarker h d) \<le> held d"
  using dinv_close [OF assms] assms by (simp_all add: maybeCloseOnMarker_def)

lemma dinv_append: "dinv d \<Longrightarrow> dinv (appendNALU ts now n d)"
  by (auto simp: dinv_def au_defs Let_def)

lemma dinv_appends:
  "dinv d \<Longrightarrow> dinv (fold (appendNALU ts now) ns d) \<and> ready (fold (appendNALU ts now) ns d) = ready d"
  by (induction ns arbitrary: d) (simp_all add: dinv_append)

lemma dinv_abandon: "dinv d \<Longrightarrow> dinv (abandonOversizedAU d)"
  by (simp add: dinv_def au_defs)

lemma dinv_begin:
  assumes "dinv d"
  shows "dinv (begin_packet h d)" "held (begin_packet h d) \<le> held d"
proof -
  obtain gap d1 where g: "checkSequenceGap (SequenceNumber h) d = (gap, d1)" by fastforce
  define d2 where "d2 = (if gap
    then (let d' = d1\<lparr>fuActive := False, fuBuf := []\<rparr> in if auOpen d' then d'\<lparr>auCorrupt := True\<rparr> else d')
    else d1)"
  have d2: "dinv d2" "held d2 = held d" using assms g
    by (auto simp: d2_def dinv_def held_def Let_def checkSequenceGap_def split: if_splits)
  have "begin_packet h d = (if auOpen d2 \<and> Timestamp h \<noteq> auTimestamp d2 then close_to_ready d2 else d2)"
    by (simp add: begin_packet_def g d2_def Let_def)
  then show "dinv (begin_packet h d)" "held (begin_packet h d) \<le> held d"
    using d2 dinv_close [OF d2(1)] by simp_all
qed

text \<open>What a packet may do after its head: leave the completed units alone, then perhaps close.\<close>

definition mid_ok :: "'a depack_scheme \<Rightarrow> 'a depack_scheme \<Rightarrow> bool" where
  "mid_ok d d' \<longleftrightarrow> dinv d' \<and> held d' \<le> length (ready d) + 1"

lemma mid_okI: "dinv d' \<Longrightarrow> ready d' = ready d \<Longrightarrow> mid_ok d d'"
  by (simp add: mid_ok_def held_def)

lemma mid_ok_marker: "mid_ok d d' \<Longrightarrow> mid_ok d (maybeCloseOnMarker h d')"
  using dinv_marker [of d' h] by (auto simp: mid_ok_def)

text \<open>What the caller gets back: a well-formed unit or nothing, and at most one unit still held.\<close>

definition push_ok :: "access_unit option \<times> 'a depack_scheme \<Rightarrow> bool" where
  "push_ok r \<longleftrightarrow> dinv (snd r) \<and> held (snd r) \<le> 1 \<and> (case fst r of None \<Rightarrow> True | Some au \<Rightarrow> au_ok au)"

lemma push_ok_pop:
  assumes "mid_ok d d'" "held d \<le> 1"
  shows "push_ok (popReady d')"
proof (cases "ready d'")
  case Nil
  then show ?thesis using assms by (auto simp: push_ok_def popReady_def mid_ok_def held_def)
next
  case (Cons au rest)
  then have "held d' = Suc (held (d'\<lparr>ready := rest\<rparr>))" by (simp add: held_def)
  moreover have "held d' \<le> 2" using assms by (auto simp: mid_ok_def held_def split: if_splits)
  ultimately show ?thesis using Cons assms by (auto simp: push_ok_def popReady_def mid_ok_def dinv_def)
qed

lemma agg_loop_total: "\<exists>r. agg_loop p off acc = Some r"
proof (induction p off acc rule: agg_loop.induct)
  case (1 p off acc)
  show ?case
  proof (cases "off + 2 \<le> length p \<and> be16_int (p ! off) (p ! (off + 1)) \<noteq> 0 \<and>
      off + 2 + be16_int (p ! off) (p ! (off + 1)) \<le> length p")
    case False
    then show ?thesis by (subst agg_loop.simps) (auto simp: Let_def)
  next
    case True
    let ?s = "be16_int (p ! off) (p ! (off + 1))"
    have "\<exists>r. agg_loop p (off + 2 + ?s) (acc @ [take ?s (drop (off + 2) p)]) = Some r"
      by (rule "1.IH" [of "p ! off" "p ! (off + 1)" ?s "off + 2"]) (use True in \<open>simp_all\<close>)
    then show ?thesis using True by (subst agg_loop.simps) (simp add: Let_def)
  qed
qed


lemma parseSTAPA_total: "\<exists>r. parseSTAPA p = Some r"
proof -
  obtain r where "agg_loop p 1 [] = Some r" using agg_loop_total by blast
  then show ?thesis by (cases r) (auto simp: parseSTAPA_def)
qed

lemma parseH265AP_total: "\<exists>r. parseH265AP p = Some r"
proof -
  obtain r where "agg_loop p 2 [] = Some r" using agg_loop_total by blast
  then show ?thesis by (cases r) (auto simp: parseH265AP_def)
qed

section \<open>H.264\<close>

lemma dinv_fuNALHeader [simp]: "dinv (d\<lparr>fuNALHeader := x\<rparr>) = dinv d"
  by (simp add: dinv_def)

lemma finish_fua_ok: "dinv d \<Longrightarrow> ready d = ready d0 \<Longrightarrow> mid_ok d0 (finish_fua fin h now d)"
  by (auto simp: finish_fua_def Let_def intro!: mid_ok_marker mid_okI dinv_append)

lemma handleFUA_ok:
  assumes "dinv d" "length p \<le> maxAccessUnitBytes"
  shows "\<exists>d'. handleFUA p h now d = Some d' \<and> mid_ok d d'"
proof (cases "length p < 2")
  case True
  then show ?thesis using assms by (simp add: handleFUA_def mid_okI)
next
  case False
  then have "p \<noteq> []" by auto
  then have p: "byte_at p 0 = Some (p ! 0)" "byte_at p 1 = Some (p ! 1)" "slice_from p 2 = Some (drop 2 p)"
    using False by simp_all
  have frag: "length (drop 2 p) \<le> maxAccessUnitBytes" using assms(2) by simp
  have start: "mid_ok d (finish_fua fin h now (d1\<lparr>fuActive := True, fuNALHeader := x, fuBuf := drop 2 p\<rparr>))"
    if "dinv d1" "ready d1 = ready d" for d1 x fin
    using that frag by (intro finish_fua_ok) simp_all
  have grow: "mid_ok d (finish_fua fin h now (d\<lparr>fuBuf := fuBuf d @ drop 2 p\<rparr>))"
    if "length (fuBuf d) + length p - 2 \<le> maxAccessUnitBytes" for fin
    using that False assms(1) by (intro finish_fua_ok) simp_all
  have drop: "mid_ok d (maybeCloseOnMarker h (abandonOversizedAU (reassembly_error (d\<lparr>fuActive := False, fuBuf := []\<rparr>))))"
    using assms(1) by (intro mid_ok_marker mid_okI dinv_abandon) simp_all
  have orphan: "mid_ok d (maybeCloseOnMarker h (reassembly_error d))"
    using assms(1) by (intro mid_ok_marker mid_okI) simp_all
  show ?thesis
    using False assms(1) start [of d] start [of "reassembly_error d"] grow drop orphan
    by (auto simp: handleFUA_def p Let_def not_less)
qed

lemma H264_Push_ok:
  assumes "dinv d" "held d \<le> 1" "length p \<le> maxAccessUnitBytes"
  shows "\<exists>r. H264_Push h p now d = Some r \<and> push_ok r"
proof (cases "p = []")
  case True
  have "push_ok (popReady (reassembly_error d))"
    using assms by (intro push_ok_pop [of d] mid_okI) simp_all
  then show ?thesis using True by (simp add: H264_Push_def)
next
  case False
  define e where "e = begin_packet h d"
  have e: "dinv e" "held e \<le> 1" using dinv_begin [OF assms(1), of h] assms(2) by (simp_all add: e_def)
  have pop: "push_ok (popReady d')" if "mid_ok e d'" for d' by (rule push_ok_pop [OF that e(2)])
  obtain r where r: "parseSTAPA p = Some r" using parseSTAPA_total by blast
  obtain f where f: "handleFUA p h now e = Some f" "mid_ok e f" using handleFUA_ok [OF e(1) assms(3)] by blast
  have stap: "mid_ok e (maybeCloseOnMarker h (fold (appendNALU (Timestamp h) now) ns e))" for ns
    using dinv_appends [OF e(1)] by (intro mid_ok_marker mid_okI) simp_all
  have one: "mid_ok e (maybeCloseOnMarker h (appendNALU (Timestamp h) now p e))"
    "mid_ok e (maybeCloseOnMarker h (reassembly_error e))" "mid_ok e (maybeCloseOnMarker h (unsupported e))"
    using e(1) by (intro mid_ok_marker mid_okI dinv_append; simp)+
  from False have "byte_at p 0 = Some (p ! 0)" by simp
  with False show ?thesis using pop stap one f r
    by (cases r) (simp_all add: H264_Push_def e_def [symmetric] Let_def del: split_paired_Ex)
qed

section \<open>H.265\<close>

lemma dinv_fuHeader [simp]: "dinv (d\<lparr>fuHeader0 := x\<rparr>) = dinv d" "dinv (d\<lparr>fuHeader1 := x\<rparr>) = dinv d"
  by (simp_all add: dinv_def)

lemma finish_fu_ok: "dinv d \<Longrightarrow> ready d = ready d0 \<Longrightarrow> mid_ok d0 (finish_fu fin h now d)"
  by (auto simp: finish_fu_def Let_def intro!: mid_ok_marker mid_okI dinv_append)

lemma handleFU_ok:
  assumes "dinv d" "length p \<le> maxAccessUnitBytes"
  shows "\<exists>d'. handleFU p h now d = Some d' \<and> mid_ok d d'"
proof (cases "length p < 4")
  case True
  then show ?thesis using assms by (simp add: handleFU_def mid_okI mid_ok_marker)
next
  case False
  then have "p \<noteq> []" by auto
  then have p: "byte_at p 0 = Some (p ! 0)" "byte_at p 1 = Some (p ! 1)" "byte_at p 2 = Some (p ! 2)"
    "slice_from p 3 = Some (drop 3 p)"
    using False by simp_all
  have frag: "length (drop 3 p) \<le> maxAccessUnitBytes" using assms(2) by simp
  have start: "mid_ok d (finish_fu fin h now
      (d1\<lparr>fuActive := True, fuHeader0 := x, fuHeader1 := y, fuBuf := drop 3 p\<rparr>))"
    if "dinv d1" "ready d1 = ready d" for d1 x y fin
    using that frag by (intro finish_fu_ok) simp_all
  have grow: "mid_ok d (finish_fu fin h now (d\<lparr>fuBuf := fuBuf d @ drop 3 p\<rparr>))"
    if "length (fuBuf d) + length (drop 3 p) + 2 \<le> maxAccessUnitBytes" for fin
    using that assms(1) by (intro finish_fu_ok) simp_all
  have drop: "mid_ok d (maybeCloseOnMarker h (abandonOversizedAU (reassembly_error (d\<lparr>fuActive := False, fuBuf := []\<rparr>))))"
    using assms(1) by (intro mid_ok_marker mid_okI dinv_abandon) simp_all
  have orphan: "mid_ok d (maybeCloseOnMarker h (reassembly_error d))"
    using assms(1) by (intro mid_ok_marker mid_okI) simp_all
  show ?thesis
    using False assms(1) start [of d] start [of "reassembly_error d"] grow drop orphan
    by (auto simp: handleFU_def p Let_def not_less)
qed

lemma H265_Push_ok:
  assumes "dinv d" "held d \<le> 1" "length p \<le> maxAccessUnitBytes"
  shows "\<exists>r. H265_Push h p now d = Some r \<and> push_ok r"
proof (cases "length p < 2")
  case True
  have "push_ok (popReady (reassembly_error d))"
    using assms by (intro push_ok_pop [of d] mid_okI) simp_all
  then show ?thesis using True by (simp add: H265_Push_def)
next
  case False
  define e where "e = begin_packet h d"
  have e: "dinv e" "held e \<le> 1" using dinv_begin [OF assms(1), of h] assms(2) by (simp_all add: e_def)
  have pop: "push_ok (popReady d')" if "mid_ok e d'" for d' by (rule push_ok_pop [OF that e(2)])
  obtain r where r: "parseH265AP p = Some r" using parseH265AP_total by blast
  obtain f where f: "handleFU p h now e = Some f" "mid_ok e f" using handleFU_ok [OF e(1) assms(3)] by blast
  have ap: "mid_ok e (maybeCloseOnMarker h (fold (appendNALU (Timestamp h) now) ns e))" for ns
    using dinv_appends [OF e(1)] by (intro mid_ok_marker mid_okI) simp_all
  have one: "mid_ok e (maybeCloseOnMarker h (appendNALU (Timestamp h) now p e))"
    "mid_ok e (maybeCloseOnMarker h (reassembly_error e))" "mid_ok e (maybeCloseOnMarker h (unsupported e))"
    using e(1) by (intro mid_ok_marker mid_okI dinv_append; simp)+
  from False have "p \<noteq> []" by auto
  then have "byte_at p 0 = Some (p ! 0)" by simp
  with False show ?thesis using pop ap one f r
    by (cases r) (simp_all add: H265_Push_def e_def [symmetric] Let_def del: split_paired_Ex)
qed


text \<open>The memory a depacketizer may hold.\<close>

definition within_bounds :: "'a depack_scheme \<Rightarrow> bool" where
  "within_bounds d \<longleftrightarrow> length (ready d) + (if auOpen d then 1 else 0) \<le> 1 \<and>
     length (auNALUs d) \<le> 4096 \<and> sum_list (map length (auNALUs d)) \<le> 8388608 \<and>
     length (fuBuf d) \<le> 8388608"

lemma within_boundsI: "dinv d \<Longrightarrow> held d \<le> 1 \<Longrightarrow> within_bounds d"
  by (simp add: dinv_def held_def within_bounds_def maxAccessUnitBytes_def maxAccessUnitNALUs_def)

section \<open>Streams of packets\<close>

type_synonym packet = "rtp_header \<times> byte list \<times> gotime"

text \<open>\<open>Push\<close> over a packet sequence, collecting what it returns; \<open>None\<close> if any call panics.\<close>

fun run_packets ::
  "(rtp_header \<Rightarrow> byte list \<Rightarrow> gotime \<Rightarrow> 's \<Rightarrow> (access_unit option \<times> 's) option) \<Rightarrow> packet list \<Rightarrow> 's \<Rightarrow>
   (access_unit list \<times> 's) option"
where
  "run_packets push [] d = Some ([], d)"
| "run_packets push ((h, p, t) # ps) d =
     do { (au, d1) \<leftarrow> push h p t d;
          (aus, d2) \<leftarrow> run_packets push ps d1;
          Some ((case au of None \<Rightarrow> [] | Some a \<Rightarrow> [a]) @ aus, d2) }"

locale rtp_depacketizer =
  fixes start :: "'a depack_scheme"
    and push :: "rtp_header \<Rightarrow> byte list \<Rightarrow> gotime \<Rightarrow> 'a depack_scheme \<Rightarrow>
      (access_unit option \<times> 'a depack_scheme) option"
  assumes start_ok: "dinv start \<and> held start = 0"
    and push_total: "dinv d \<Longrightarrow> held d \<le> 1 \<Longrightarrow> length p \<le> maxAccessUnitBytes \<Longrightarrow>
      \<exists>r. push h p t d = Some r \<and> push_ok r"
begin

lemma run_from:
  assumes "dinv d" "held d \<le> 1" "list_all (\<lambda>(h, p, t). length p \<le> maxAccessUnitBytes) ps"
  shows "\<exists>aus d'. run_packets push ps d = Some (aus, d') \<and> dinv d' \<and> held d' \<le> 1 \<and> list_all au_ok aus"
  using assms
proof (induction ps arbitrary: d)
  case Nil
  then show ?case by simp
next
  case (Cons x ps)
  obtain h p t where x: "x = (h, p, t)" by (metis surj_pair)
  from push_total [OF Cons.prems(1,2), of p h t] Cons.prems(3) x obtain au d1 where
    1: "push h p t d = Some (au, d1)" "push_ok (au, d1)" by auto
  with Cons.IH [of d1] Cons.prems(3) obtain aus d2 where
    2: "run_packets push ps d1 = Some (aus, d2)" "dinv d2" "held d2 \<le> 1" "list_all au_ok aus"
    by (auto simp: push_ok_def)
  with 1 x show ?case by (auto simp: push_ok_def split: option.splits)
qed

lemma run_safe:
  assumes "list_all (\<lambda>(h, p, t). length p \<le> maxAccessUnitBytes) ps"
  shows "\<exists>aus d'. run_packets push ps start = Some (aus, d') \<and> dinv d' \<and> held d' \<le> 1 \<and> list_all au_ok aus"
  using run_from [OF _ _ assms] start_ok by simp

end

interpretation avc: rtp_depacketizer NewH264Depacketizer H264_Push
proof
  show "dinv NewH264Depacketizer \<and> held NewH264Depacketizer = 0"
    by (simp add: dinv_def held_def NewH264Depacketizer_def)
qed (rule H264_Push_ok)

interpretation hevc: rtp_depacketizer NewH265Depacketizer H265_Push
proof
  show "dinv NewH265Depacketizer \<and> held NewH265Depacketizer = 0"
    by (simp add: dinv_def held_def NewH265Depacketizer_def)
qed (rule H265_Push_ok)

text \<open>C7. Whatever packets arrive, malformed, lost, reordered or never closing a frame, both
  depacketizers process all of them without an index panic; what they hold at any point is bounded
  (at most one access unit, open or waiting, of at most 4096 NAL units and 8 MiB, and a fragment
  buffer of at most 8 MiB), and every access unit they deliver is non-empty and within the same
  bounds. The packets' payloads are assumed to be within 8 MiB; RTP over RTSP frames are under 64 KiB.\<close>

theorem depacketizers_bounded:
  assumes "list_all (\<lambda>(h, p, t). length p \<le> maxAccessUnitBytes) ps"
  shows "(\<exists>aus d. run_packets H264_Push ps NewH264Depacketizer = Some (aus, d) \<and>
      within_bounds d \<and> list_all au_ok aus) \<and>
    (\<exists>aus d. run_packets H265_Push ps NewH265Depacketizer = Some (aus, d) \<and>
      within_bounds d \<and> list_all au_ok aus)"
proof
  from avc.run_safe [OF assms] obtain aus d where
    "run_packets H264_Push ps NewH264Depacketizer = Some (aus, d)" "dinv d" "held d \<le> 1" "list_all au_ok aus"
    by blast
  then show "\<exists>aus d. run_packets H264_Push ps NewH264Depacketizer = Some (aus, d) \<and>
      within_bounds d \<and> list_all au_ok aus" by (intro exI conjI within_boundsI)
  from hevc.run_safe [OF assms] obtain aus d where
    "run_packets H265_Push ps NewH265Depacketizer = Some (aus, d)" "dinv d" "held d \<le> 1" "list_all au_ok aus"
    by blast
  then show "\<exists>aus d. run_packets H265_Push ps NewH265Depacketizer = Some (aus, d) \<and>
      within_bounds d \<and> list_all au_ok aus" by (intro exI conjI within_boundsI)
qed

theorem depacketizers_bounded_witness:
  "\<exists>aus d. run_packets H264_Push [(fixed_header (replicate 12 0), [28], 0), (fixed_header (replicate 12 0), [24, 0], 1)]
     NewH264Depacketizer = Some (aus, d) \<and> within_bounds d \<and> list_all au_ok aus"
  by (rule depacketizers_bounded [THEN conjunct1]) (simp add: maxAccessUnitBytes_def)

end
