(* ===== verification/Depack_Reassembly.thy ===== *)
theory Depack_Reassembly
  imports Depack_Bounds
begin

text \<open>
  What the depacketizers reassemble: aggregation packets and fragmentation units laid out as in
  RFC 6184 and RFC 7798 give back the NAL units they were made from, an access unit that lost a
  packet while it was open is never delivered, and where the loss handling is weaker than its
  description.
\<close>

section \<open>Aggregation\<close>

definition enc_nalu :: "byte list \<Rightarrow> byte list" where
  "enc_nalu n = bytes16 (of_nat (length n)) @ n"

lemma length_enc_nalu: "length (enc_nalu n) = 2 + length n"
  by (simp add: enc_nalu_def)

definition agg_size_ok :: "byte list \<Rightarrow> bool" where
  "agg_size_ok n \<longleftrightarrow> n \<noteq> [] \<and> length n < 65536"

lemma agg_loop_step:
  assumes "off + 2 + n \<le> length p" "be16_int (p ! off) (p ! (off + 1)) = n" "n \<noteq> 0"
  shows "agg_loop p off acc = agg_loop p (off + 2 + n) (acc @ [take n (drop (off + 2) p)])"
  using assms by (subst agg_loop.simps) (simp add: Let_def)

lemma agg_loop_encoded:
  assumes "list_all agg_size_ok ns"
  shows "agg_loop (pre @ concat (map enc_nalu ns)) (length pre) acc =
    Some (Some (acc @ ns, length (pre @ concat (map enc_nalu ns))))"
  using assms
proof (induction ns arbitrary: pre acc)
  case Nil
  then show ?case by (subst agg_loop.simps) simp
next
  case (Cons n ns)
  let ?p = "pre @ concat (map enc_nalu (n # ns))"
  have n: "n \<noteq> []" "length n < 65536" using Cons.prems by (simp_all add: agg_size_ok_def)
  have size: "be16_int (?p ! length pre) (?p ! (length pre + 1)) = length n"
    using be16_int_bytes [OF n(2)] by (simp add: enc_nalu_def bytes16_def nth_append)
  have len: "length pre + 2 + length n \<le> length ?p" by (simp add: enc_nalu_def)
  have sl: "take (length n) (drop (length pre + 2) ?p) = n"
    by (simp add: enc_nalu_def bytes16_def)
  have "agg_loop ?p (length pre) acc = agg_loop ?p (length pre + 2 + length n) (acc @ [n])"
    using agg_loop_step [OF len size, of acc] n(1) by (simp only: sl length_0_conv simp_thms)
  also have "\<dots> = Some (Some (acc @ n # ns, length ?p))"
    using Cons.IH [of "pre @ enc_nalu n" "acc @ [n]"] Cons.prems length_enc_nalu [of n] by simp
  finally show ?case .
qed

text \<open>Aggregation round trip: \<open>parseSTAPA\<close> and \<open>parseH265AP\<close> return exactly the NAL units an
  aggregation packet was built from, in order.\<close>

theorem aggregation_roundtrip:
  assumes "list_all agg_size_ok ns" "ns \<noteq> []"
  shows "parseSTAPA (hd0 # concat (map enc_nalu ns)) = Some (Inr ns) \<and>
    parseH265AP (hd0 # hd1 # concat (map enc_nalu ns)) = Some (Some ns)"
  using agg_loop_encoded [OF assms(1), of "[hd0]" "[]"] agg_loop_encoded [OF assms(1), of "[hd0, hd1]" "[]"] assms(2)
  by (simp add: parseSTAPA_def parseH265AP_def numeral_2_eq_2)

theorem aggregation_roundtrip_witness:
  "parseSTAPA (24 # concat (map enc_nalu [[103, 66], [104]])) = Some (Inr [[103, 66], [104]])"
  using aggregation_roundtrip [of "[[103, 66], [104]]" 24 0] by (simp add: agg_size_ok_def)

section \<open>Fragmentation\<close>

text \<open>A FU-A payload as RFC 6184 lays it out, for the NAL unit with header byte \<open>hb\<close>.\<close>

definition fua_indicator :: "byte \<Rightarrow> byte" where
  "fua_indicator hb = (hb AND 0xE0) OR 28"

definition fua_header :: "byte \<Rightarrow> bool \<Rightarrow> bool \<Rightarrow> byte" where
  "fua_header hb start fin = (if start then 0x80 else 0) OR (if fin then 0x40 else 0) OR (hb AND 0x1F)"

definition fua_payload :: "byte \<Rightarrow> bool \<Rightarrow> bool \<Rightarrow> byte list \<Rightarrow> byte list" where
  "fua_payload hb start fin frag = fua_indicator hb # fua_header hb start fin # frag"

lemma fua_type [simp]: "fua_indicator hb AND 0x1F = 28"
  by (simp add: fua_indicator_def bit.conj_disj_distrib2 and.assoc)

lemma fua_start [simp]: "fua_header hb start fin AND 0x80 = 0 \<longleftrightarrow> \<not> start"
  by (simp add: fua_header_def bit.conj_disj_distrib2 and.assoc)

lemma fua_end [simp]: "fua_header hb start fin AND 0x40 = 0 \<longleftrightarrow> \<not> fin"
  by (simp add: fua_header_def bit.conj_disj_distrib2 and.assoc)

lemma fua_nal_header [simp]: "(fua_indicator hb AND 0xE0) OR (fua_header hb start fin AND 0x1F) = hb"
proof -
  have "hb AND 0xE0 OR hb AND 0x1F = hb AND (0xE0 OR 0x1F)" by (simp only: bit.conj_disj_distrib)
  also have "(0xE0 OR 0x1F :: byte) = - 1" by simp
  finally have "hb AND 0xE0 OR hb AND 0x1F = hb" by simp
  then show ?thesis by (simp add: fua_indicator_def fua_header_def bit.conj_disj_distrib2 and.assoc)
qed

text \<open>The packets that carry a fragmented NAL unit: consecutive sequence numbers, one timestamp, the
  marker on the last.\<close>

fun fua_tail :: "rtp_header \<Rightarrow> byte \<Rightarrow> 16 word \<Rightarrow> (byte list \<times> gotime) list \<Rightarrow> packet list" where
  "fua_tail h hb s [] = []"
| "fua_tail h hb s [(f, t)] = [(h\<lparr>SequenceNumber := s, Marker := True\<rparr>, fua_payload hb False True f, t)]"
| "fua_tail h hb s ((f, t) # x # xs) =
     (h\<lparr>SequenceNumber := s, Marker := False\<rparr>, fua_payload hb False False f, t) # fua_tail h hb (s + 1) (x # xs)"

definition fua_packets ::
  "rtp_header \<Rightarrow> byte \<Rightarrow> 16 word \<Rightarrow> byte list \<times> gotime \<Rightarrow> (byte list \<times> gotime) list \<Rightarrow> packet list"
where
  "fua_packets h hb s f fs =
     (h\<lparr>SequenceNumber := s, Marker := False\<rparr>, fua_payload hb True False (fst f), snd f) # fua_tail h hb (s + 1) fs"

text \<open>A fragment run in progress and no access unit open.\<close>

definition in_run :: "16 word \<Rightarrow> byte \<Rightarrow> byte list \<Rightarrow> h264 \<Rightarrow> bool" where
  "in_run s hb bytes d \<longleftrightarrow> dinv d \<and> haveLastSeq d \<and> lastSeq d = s \<and> \<not> auOpen d \<and> ready d = [] \<and>
     fuActive d \<and> fuNALHeader d = hb \<and> fuBuf d = bytes"

lemma begin_in_run:
  assumes "in_run s hb bytes d" "SequenceNumber h = s + 1"
  shows "begin_packet h d = d\<lparr>lastSeq := s + 1\<rparr>"
  using assms by (simp add: begin_packet_def in_run_def checkSequenceGap_def)

lemma push_start:
  assumes "dinv d" "\<not> auOpen d" "ready d = []" "length f \<le> maxAccessUnitBytes"
  shows "\<exists>d'. H264_Push (h\<lparr>SequenceNumber := s, Marker := False\<rparr>) (fua_payload hb True False f) t d = Some (None, d') \<and>
    in_run s hb f d'"
proof -
  let ?h = "h\<lparr>SequenceNumber := s, Marker := False\<rparr>"
  have "\<not> auOpen (begin_packet ?h d) \<and> ready (begin_packet ?h d) = [] \<and> haveLastSeq (begin_packet ?h d) \<and>
      lastSeq (begin_packet ?h d) = s"
    using assms(2,3) by (auto simp: begin_packet_def checkSequenceGap_def)
  then show ?thesis
    using dinv_begin(1) [OF assms(1), of ?h] assms(4)
    by (auto simp: H264_Push_def handleFUA_def fua_payload_def Let_def finish_fua_def popReady_def in_run_def
        reassembly_error_def)
qed

lemma push_middle:
  assumes "in_run s hb bytes d" "length bytes + length f \<le> maxAccessUnitBytes"
  shows "\<exists>d'. H264_Push (h\<lparr>SequenceNumber := s + 1, Marker := False\<rparr>) (fua_payload hb False False f) t d =
      Some (None, d') \<and> in_run (s + 1) hb (bytes @ f) d'"
  using begin_in_run [OF assms(1), of "h\<lparr>SequenceNumber := s + 1, Marker := False\<rparr>"] assms
  by (auto simp: H264_Push_def handleFUA_def fua_payload_def Let_def finish_fua_def popReady_def in_run_def dinv_def)

lemma push_last:
  assumes "in_run s hb bytes d" "Suc (length bytes + length f) \<le> maxAccessUnitBytes"
  shows "\<exists>d'. H264_Push (h\<lparr>SequenceNumber := s + 1, Marker := True\<rparr>) (fua_payload hb False True f) t d =
      Some (Some \<lparr>NALUs = [hb # bytes @ f], ReceivedAt = t\<rparr>, d') \<and>
      dinv d' \<and> \<not> auOpen d' \<and> ready d' = [] \<and> lastSeq d' = s + 1"
  using begin_in_run [OF assms(1), of "h\<lparr>SequenceNumber := s + 1, Marker := True\<rparr>"] assms
  by (auto simp: H264_Push_def handleFUA_def fua_payload_def Let_def finish_fua_def popReady_def in_run_def dinv_def
      au_defs maxAccessUnitNALUs_def)

lemma run_tail:
  assumes "in_run s hb bytes d" "fs \<noteq> []" "Suc (length bytes + length (concat (map fst fs))) \<le> maxAccessUnitBytes"
  shows "\<exists>d'. run_packets H264_Push (fua_tail h hb (s + 1) fs) d =
      Some ([\<lparr>NALUs = [hb # bytes @ concat (map fst fs)], ReceivedAt = snd (last fs)\<rparr>], d') \<and>
      dinv d' \<and> \<not> auOpen d' \<and> ready d' = []"
  using assms
proof (induction h hb "s + 1" fs arbitrary: s bytes d rule: fua_tail.induct)
  case (2 h hb f t)
  then show ?case using push_last [of s hb bytes d f h t] by auto
next
  case (3 h hb f t x xs)
  from push_middle [OF "3.prems"(1), of f h t] "3.prems"(3) obtain d1 where
    d1: "H264_Push (h\<lparr>SequenceNumber := s + 1, Marker := False\<rparr>) (fua_payload hb False False f) t d = Some (None, d1)"
    "in_run (s + 1) hb (bytes @ f) d1" by auto
  from "3.hyps" [OF _ d1(2)] "3.prems"(3)
  show ?case using d1(1) by auto
qed simp


text \<open>C16. Fragmentation round trip: a NAL unit of at most 8 MiB cut into any two or more FU-A
  fragments, sent with consecutive sequence numbers (across the 16-bit wrap too) and the marker on
  the last, is delivered as one access unit holding exactly that NAL unit, from any state with no
  access unit open, and leaves the depacketizer ready for the next frame. Its \<open>ReceivedAt\<close> is the
  time of the last fragment.\<close>

theorem fua_roundtrip:
  assumes "dinv d" "\<not> auOpen d" "ready d = []" "fs \<noteq> []"
    "Suc (length (fst f) + length (concat (map fst fs))) \<le> maxAccessUnitBytes"
  shows "\<exists>d'. run_packets H264_Push (fua_packets h hb s f fs) d =
      Some ([\<lparr>NALUs = [hb # fst f @ concat (map fst fs)], ReceivedAt = snd (last fs)\<rparr>], d') \<and>
      dinv d' \<and> \<not> auOpen d' \<and> ready d' = []"
proof -
  have "length (fst f) \<le> maxAccessUnitBytes" using assms(5) by simp
  from push_start [OF assms(1-3) this, where h = h and s = s and hb = hb and t = "snd f"] obtain d1 where
    d1: "H264_Push (h\<lparr>SequenceNumber := s, Marker := False\<rparr>) (fua_payload hb True False (fst f)) (snd f) d =
      Some (None, d1)" "in_run s hb (fst f) d1" by blast
  from run_tail [OF d1(2) assms(4), of h] assms(5) d1(1) show ?thesis
    by (auto simp: fua_packets_def)
qed

theorem fua_roundtrip_witness:
  "\<exists>d'. run_packets H264_Push
      (fua_packets (fixed_header (replicate 12 0)) 0x65 65534 ([1, 2], 10) [([3], 11), ([4, 5], 12)]) NewH264Depacketizer =
    Some ([\<lparr>NALUs = [[0x65, 1, 2, 3, 4, 5]], ReceivedAt = 12\<rparr>], d')"
proof -
  have "dinv NewH264Depacketizer" "\<not> auOpen NewH264Depacketizer" "ready NewH264Depacketizer = []"
    by (simp_all add: dinv_def NewH264Depacketizer_def)
  from fua_roundtrip [OF this, where fs = "[([3], 11), ([4, 5], 12)]" and f = "([1, 2], 10)" and
      h = "fixed_header (replicate 12 0)" and hb = 101 and s = 65534]
  show ?thesis by (auto simp: maxAccessUnitBytes_def)
qed

section \<open>Packet loss\<close>

definition corrupt_open :: "32 word \<Rightarrow> h264 \<Rightarrow> bool" where
  "corrupt_open ts d \<longleftrightarrow> dinv d \<and> auOpen d \<and> auCorrupt d \<and> auTimestamp d = ts \<and> ready d = []"

lemma corrupt_append: "corrupt_open ts d \<Longrightarrow> corrupt_open ts (appendNALU ts' now n d)"
  using dinv_append [of d ts' now n] by (auto simp: corrupt_open_def au_defs Let_def)

lemma corrupt_appends: "corrupt_open ts d \<Longrightarrow> corrupt_open ts (fold (appendNALU ts' now) ns d)"
  by (induction ns arbitrary: d) (simp_all add: corrupt_append)

lemma corrupt_simps [simp]:
  "corrupt_open ts (reassembly_error d) = corrupt_open ts d" "corrupt_open ts (unsupported d) = corrupt_open ts d"
  "corrupt_open ts (d\<lparr>fuActive := a\<rparr>) = corrupt_open ts d" "corrupt_open ts (d\<lparr>fuNALHeader := x\<rparr>) = corrupt_open ts d"
  by (simp_all add: corrupt_open_def) (simp_all add: reassembly_error_def unsupported_def)

lemma corrupt_fuBuf: "corrupt_open ts d \<Longrightarrow> length f \<le> maxAccessUnitBytes \<Longrightarrow> corrupt_open ts (d\<lparr>fuBuf := f\<rparr>)"
  by (simp add: corrupt_open_def)

lemma corrupt_abandon: "corrupt_open ts d \<Longrightarrow> corrupt_open ts (abandonOversizedAU d)"
  using dinv_abandon [of d] by (simp add: corrupt_open_def abandonOversizedAU_def)

text \<open>After a packet: the unit is still open and corrupt, or a marker closed it and nothing is ready.\<close>

definition settled :: "rtp_header \<Rightarrow> 32 word \<Rightarrow> h264 \<Rightarrow> bool" where
  "settled h ts d \<longleftrightarrow> dinv d \<and> ready d = [] \<and> (corrupt_open ts d \<or> Marker h)"

lemma settled_marker: "corrupt_open ts d \<Longrightarrow> settled h ts (maybeCloseOnMarker h d)"
  using dinv_marker(1) [of d h] by (auto simp: settled_def corrupt_open_def au_defs)

lemma settled_corrupt: "corrupt_open ts d \<Longrightarrow> settled h ts d"
  by (simp add: settled_def corrupt_open_def)

lemma settled_finish_fua: "corrupt_open ts d \<Longrightarrow> settled h ts (finish_fua fin h now d)"
  by (cases "fin"; cases "fuActive d")
    (simp_all add: finish_fua_def Let_def settled_marker settled_corrupt corrupt_append corrupt_fuBuf)

lemma settled_handleFUA:
  assumes "corrupt_open ts d" "length p \<le> maxAccessUnitBytes"
  shows "\<exists>d'. handleFUA p h now d = Some d' \<and> settled h ts d'"
proof (cases "length p < 2")
  case True
  then show ?thesis using assms by (simp add: handleFUA_def settled_corrupt)
next
  case False
  then have "p \<noteq> []" by auto
  then have p: "byte_at p 0 = Some (p ! 0)" "byte_at p 1 = Some (p ! 1)" "slice_from p 2 = Some (drop 2 p)"
    using False by simp_all
  have start: "settled h ts (finish_fua fin h now (d1\<lparr>fuActive := True, fuNALHeader := x, fuBuf := drop 2 p\<rparr>))"
    if "corrupt_open ts d1" for d1 x fin
    using that assms(2) by (intro settled_finish_fua corrupt_fuBuf) simp_all
  have grow: "settled h ts (finish_fua fin h now (d\<lparr>fuBuf := fuBuf d @ drop 2 p\<rparr>))"
    if "length (fuBuf d) + length p - 2 \<le> maxAccessUnitBytes" for fin
    using that False assms(1) by (intro settled_finish_fua corrupt_fuBuf) simp_all
  have drop: "settled h ts (maybeCloseOnMarker h (abandonOversizedAU (reassembly_error (d\<lparr>fuActive := False, fuBuf := []\<rparr>))))"
    using assms(1) by (intro settled_marker corrupt_abandon) (simp add: corrupt_fuBuf)
  have orphan: "settled h ts (maybeCloseOnMarker h (reassembly_error d))"
    using assms(1) by (intro settled_marker) simp
  show ?thesis
    using False assms(1) start [of d] start [of "reassembly_error d"] grow drop orphan
    by (auto simp: handleFUA_def p Let_def not_less)
qed

lemma push_corrupt:
  assumes "corrupt_open ts (begin_packet h d)" "length p \<le> maxAccessUnitBytes" "p \<noteq> []"
  shows "\<exists>d'. H264_Push h p now d = Some (None, d') \<and> settled h ts d'"
proof -
  define e where "e = begin_packet h d"
  have e: "corrupt_open ts e" using assms(1) by (simp add: e_def)
  have pop: "popReady d' = (None, d')" if "settled h ts d'" for d' using that by (simp add: popReady_def settled_def)
  obtain r where r: "parseSTAPA p = Some r" using parseSTAPA_total by blast
  obtain f where f: "handleFUA p h now e = Some f" "settled h ts f" using settled_handleFUA [OF e assms(2)] by blast
  have stap: "settled h ts (maybeCloseOnMarker h (fold (appendNALU (Timestamp h) now) ns e))" for ns
    by (intro settled_marker corrupt_appends e)
  have one: "settled h ts (maybeCloseOnMarker h (appendNALU (Timestamp h) now p e))"
    "settled h ts (maybeCloseOnMarker h (reassembly_error e))" "settled h ts (maybeCloseOnMarker h (unsupported e))"
    using e by (intro settled_marker corrupt_append; simp)+
  from assms(3) have "byte_at p 0 = Some (p ! 0)" by simp
  with assms(3) show ?thesis using pop stap one f r
    by (cases r) (simp_all add: H264_Push_def e_def [symmetric] Let_def)
qed

lemma begin_corrupt: "corrupt_open ts d \<Longrightarrow> Timestamp h = ts \<Longrightarrow> corrupt_open ts (begin_packet h d)"
  by (auto simp: begin_packet_def corrupt_open_def checkSequenceGap_def dinv_def Let_def)


lemma run_corrupt:
  assumes "corrupt_open ts d" "list_all (\<lambda>(h, p, t). Timestamp h = ts \<and> p \<noteq> [] \<and> length p \<le> maxAccessUnitBytes) ps"
    "list_all (\<lambda>(h, p, t). \<not> Marker h) (butlast ps)"
  shows "\<exists>d'. run_packets H264_Push ps d = Some ([], d')"
  using assms
proof (induction ps arbitrary: d)
  case Nil
  then show ?case by simp
next
  case (Cons x ps)
  obtain h p t where x: "x = (h, p, t)" by (metis surj_pair)
  from push_corrupt [OF begin_corrupt [OF Cons.prems(1)], of h p t] Cons.prems(2) x obtain d1 where
    d1: "H264_Push h p t d = Some (None, d1)" "settled h ts d1" by auto
  show ?case
  proof (cases "ps = []")
    case True
    then show ?thesis using d1 x by simp
  next
    case False
    then have "corrupt_open ts d1" using d1(2) Cons.prems(3) x by (auto simp: settled_def)
    then show ?thesis using Cons d1(1) x False by (auto split: if_splits)
  qed
qed

text \<open>A packet lost while an access unit is open costs that unit, and nothing of it reaches the
  decoder: from the packet that shows the gap to the frame's marker (or for as long as the frame
  goes on without one), no packet of the frame, single, aggregated, fragmented or malformed, makes
  the depacketizer deliver anything.\<close>

theorem lost_packet_drops_unit:
  assumes "dinv d" "auOpen d" "ready d = []" "haveLastSeq d" "SequenceNumber h \<noteq> lastSeq d + 1"
    "list_all (\<lambda>(h, p, t). Timestamp h = auTimestamp d \<and> p \<noteq> [] \<and> length p \<le> maxAccessUnitBytes) ((h, p, t) # ps)"
    "list_all (\<lambda>(h, p, t). \<not> Marker h) (butlast ((h, p, t) # ps))"
  shows "\<exists>d'. run_packets H264_Push ((h, p, t) # ps) d = Some ([], d')"
proof -
  have "corrupt_open (auTimestamp d) (begin_packet h d)"
    using assms(1-6) by (auto simp: corrupt_open_def begin_packet_def checkSequenceGap_def dinv_def)
  from push_corrupt [OF this, of p t] assms(6) obtain d1 where
    d1: "H264_Push h p t d = Some (None, d1)" "settled h (auTimestamp d) d1" by auto
  show ?thesis
  proof (cases "ps = []")
    case True
    then show ?thesis using d1 by simp
  next
    case False
    then have "corrupt_open (auTimestamp d) d1" using d1(2) assms(7) by (auto simp: settled_def)
    from run_corrupt [OF this, of ps] False assms(6,7) d1(1) show ?thesis by auto
  qed
qed

text \<open>An open access unit after one packet, for the witness.\<close>

definition sample_hdr :: "16 word \<Rightarrow> bool \<Rightarrow> rtp_header" where
  "sample_hdr s m = (fixed_header (replicate 12 0))\<lparr>SequenceNumber := s, Marker := m, Timestamp := 90\<rparr>"

definition sample_open_unit :: h264 where
  "sample_open_unit = NewH264Depacketizer\<lparr>haveLastSeq := True, lastSeq := 7, auOpen := True, auTimestamp := 90,
     auNALUs := [[0x41, 1]], auBytes := 2\<rparr>"

theorem lost_packet_witness:
  "\<exists>d'. run_packets H264_Push [(sample_hdr 9 False, [0x41, 2], 5), (sample_hdr 10 True, [0x41, 3], 6)] sample_open_unit =
     Some ([], d')"
  by (rule lost_packet_drops_unit)
    (simp_all add: sample_open_unit_def sample_hdr_def NewH264Depacketizer_def dinv_def maxAccessUnitBytes_def
      maxAccessUnitNALUs_def)

text \<open>The loss handling looks at open access units only, and a fragment run does not open one:
  when the first NAL unit of a frame is being reassembled from fragments and a packet is lost, the
  run is dropped but the frame is not marked, so the rest of the frame is delivered without it. Any
  single NAL unit that carries the frame's marker is handed to the decoder alone, and
  \<open>IncompleteAUsDropped\<close> does not change.\<close>

theorem partial_unit_delivered_after_loss:
  assumes "in_run s hb bytes d" "SequenceNumber h \<noteq> s + 1" "Marker h" "p \<noteq> []"
    "1 \<le> hd p AND 0x1F" "hd p AND 0x1F \<le> 23" "length p \<le> maxAccessUnitBytes"
  shows "\<exists>d'. H264_Push h p t d = Some (Some \<lparr>NALUs = [p], ReceivedAt = t\<rparr>, d') \<and>
    IncompleteAUsDropped d' = IncompleteAUsDropped d \<and> ReassemblyErrors d' = ReassemblyErrors d"
proof -
  have e: "begin_packet h d = d\<lparr>lastSeq := SequenceNumber h, fuActive := False, fuBuf := []\<rparr>"
    using assms(1,2) by (simp add: begin_packet_def in_run_def checkSequenceGap_def)
  obtain b q where p: "p = b # q" using assms(4) by (cases p) auto
  have t: "b AND 0x1F \<noteq> 24" "b AND 0x1F \<noteq> 28" using assms(6) p by auto
  show ?thesis using assms e p t
    by (simp add: H264_Push_def Let_def popReady_def in_run_def dinv_def au_defs maxAccessUnitNALUs_def)
qed

theorem partial_unit_witness:
  "\<exists>d'. H264_Push (sample_hdr 9 True) [0x41, 2] 5
      (NewH264Depacketizer\<lparr>haveLastSeq := True, lastSeq := 7, fuActive := True, fuNALHeader := 0x65, fuBuf := [1]\<rparr>) =
    Some (Some \<lparr>NALUs = [[0x41, 2]], ReceivedAt = 5\<rparr>, d')"
proof -
  let ?d = "NewH264Depacketizer\<lparr>haveLastSeq := True, lastSeq := 7, fuActive := True, fuNALHeader := 0x65, fuBuf := [1]\<rparr>"
  have "in_run 7 0x65 [1] ?d"
    by (simp add: in_run_def NewH264Depacketizer_def dinv_def maxAccessUnitBytes_def)
  from partial_unit_delivered_after_loss [OF this, of "sample_hdr 9 True" "[0x41, 2]" 5]
  show ?thesis by (auto simp: sample_hdr_def maxAccessUnitBytes_def)
qed

end
