(* ===== verification/RingBuffer.thy ===== *)
theory RingBuffer
  imports Edge_Prelude
begin

text \<open>
  The frame history of \<open>internal/processing/ringbuffer.go\<close>: a circular buffer over a slice. The
  abstract contract is a queue that keeps the newest \<open>cap\<close> elements; it is stated as a locale and
  the circular implementation interprets it. The mutex makes every method one atomic step, so the
  methods are functions on the state.
\<close>

section \<open>The contract: keep the newest\<close>

definition last_n :: "nat \<Rightarrow> 'a list \<Rightarrow> 'a list" where
  "last_n n xs = drop (length xs - n) xs"

lemma length_last_n [simp]: "length (last_n n xs) = min n (length xs)"
  by (simp add: last_n_def)

lemma last_n_all [simp]: "length xs \<le> n \<Longrightarrow> last_n n xs = xs"
  by (simp add: last_n_def)

lemma last_n_snoc: "0 < n \<Longrightarrow> last_n n (xs @ [x]) = last_n (n - 1) xs @ [x]"
  by (simp add: last_n_def)

lemma last_n_last_n: "last_n n (last_n n xs @ ys) = last_n n (xs @ ys)"
proof (cases "length xs \<le> n")
  case False
  then show ?thesis by (simp add: last_n_def min_def add.commute)
qed simp

lemma nth_last_n: "i < min n (length xs) \<Longrightarrow> last_n n xs ! i = xs ! (length xs - min n (length xs) + i)"
  by (auto simp: last_n_def min_def)

locale newest_queue =
  fixes push :: "'a \<Rightarrow> 's \<Rightarrow> 's" and contents :: "'s \<Rightarrow> 'a list" and cap :: "'s \<Rightarrow> nat"
    and lost :: "'s \<Rightarrow> nat" and ok :: "'s \<Rightarrow> bool"
  assumes push_ok: "ok s \<Longrightarrow> ok (push x s)"
    and push_cap: "ok s \<Longrightarrow> cap (push x s) = cap s"
    and push_contents: "ok s \<Longrightarrow> contents (push x s) = last_n (cap s) (contents s @ [x])"
    and push_lost: "ok s \<Longrightarrow>
      lost (push x s) + length (contents (push x s)) = lost s + length (contents s) + 1"
    and bounded: "ok s \<Longrightarrow> length (contents s) \<le> cap s"
begin

lemma pushes:
  "ok s \<Longrightarrow> ok (fold push xs s) \<and> cap (fold push xs s) = cap s \<and>
     contents (fold push xs s) = last_n (cap s) (contents s @ xs) \<and>
     lost (fold push xs s) + length (contents (fold push xs s)) = lost s + length (contents s) + length xs"
proof (induction xs arbitrary: s)
  case Nil
  then show ?case using bounded by simp
next
  case (Cons x xs)
  from Cons.IH [OF push_ok [OF Cons.prems], of x]
  have IH: "ok (fold push xs (push x s))" "cap (fold push xs (push x s)) = cap s"
    "contents (fold push xs (push x s)) = last_n (cap s) (contents s @ [x] @ xs)"
    "lost (fold push xs (push x s)) + length (contents (fold push xs (push x s))) =
      lost (push x s) + length (contents (push x s)) + length xs"
    using push_cap [OF Cons.prems] push_contents [OF Cons.prems] last_n_last_n [of "cap s" "contents s @ [x]" xs]
    by auto
  show ?case using IH push_lost [OF Cons.prems, of x] by simp
qed

lemma newest_last: "ok s \<Longrightarrow> 0 < cap s \<Longrightarrow> last (contents (push x s)) = x"
  by (simp add: push_contents last_n_snoc)

end

section \<open>The circular buffer\<close>

record 'a ring_buffer =
  buf :: "'a list"
  head :: nat
  count :: nat
  capacity :: nat
  dropped :: nat

text \<open>\<open>zero\<close> is the zero value \<open>make\<close> fills the slice with.\<close>

definition ring_capacity :: "int \<Rightarrow> nat" where
  "ring_capacity c = (if c \<le> 0 then 1 else nat c)"

definition NewRingBuffer :: "'a \<Rightarrow> int \<Rightarrow> 'a ring_buffer" where
  "NewRingBuffer zero c =
     (let c = ring_capacity c in
      \<lparr>buf = replicate c zero, head = 0, count = 0, capacity = c, dropped = 0\<rparr>)"

definition Push :: "'a \<Rightarrow> 'a ring_buffer \<Rightarrow> 'a ring_buffer" where
  "Push f r =
     (if count r < capacity r
      then (let idx = (head r + count r) mod capacity r
            in r\<lparr>buf := (buf r)[idx := f], count := count r + 1\<rparr>)
      else r\<lparr>buf := (buf r)[head r := f], head := (head r + 1) mod capacity r,
             dropped := dropped r + 1\<rparr>)"

definition Snapshot :: "'a ring_buffer \<Rightarrow> 'a list" where
  "Snapshot r = map (\<lambda>i. buf r ! ((head r + i) mod capacity r)) [0..<count r]"

definition Usage :: "'a ring_buffer \<Rightarrow> nat \<times> nat" where
  "Usage r = (count r, capacity r)"

definition Resize :: "'a \<Rightarrow> int \<Rightarrow> 'a ring_buffer \<Rightarrow> 'a ring_buffer" where
  "Resize zero c r =
     (let c = ring_capacity c in
      if c = capacity r then r
      else (let keep = (if count r > c then c else count r);
                lost = (if count r > c then count r - c else 0);
                copied = map (\<lambda>i. buf r ! ((head r + count r - keep + i) mod capacity r)) [0..<keep]
            in \<lparr>buf = copied @ replicate (c - keep) zero, head = 0, count = keep, capacity = c,
                dropped = dropped r + lost\<rparr>))"

text \<open>The invariant that keeps every index of the code in range.\<close>

definition ring_ok :: "'a ring_buffer \<Rightarrow> bool" where
  "ring_ok r \<longleftrightarrow> 0 < capacity r \<and> length (buf r) = capacity r \<and> head r < capacity r \<and> count r \<le> capacity r"

lemma ring_ok_New: "ring_ok (NewRingBuffer zero c)"
  by (simp add: ring_ok_def NewRingBuffer_def ring_capacity_def Let_def)

lemma ring_ok_Push: "ring_ok r \<Longrightarrow> ring_ok (Push f r)"
  by (simp add: ring_ok_def Push_def Let_def)

lemma ring_ok_Resize: "ring_ok r \<Longrightarrow> ring_ok (Resize zero c r)"
  by (auto simp: ring_ok_def Resize_def Let_def ring_capacity_def)

lemma length_Snapshot [simp]: "length (Snapshot r) = count r"
  by (simp add: Snapshot_def)

lemma ring_index_inj:
  assumes "i < c" "j < c" "(h + i) mod c = (h + j) mod (c :: nat)"
  shows "i = j"
proof -
  have *: "a = b" if "a < c" "b < c" "a \<le> b" "(h + a) mod c = (h + b) mod c" for a b
  proof -
    from that have "c dvd b - a" by (metis add_diff_cancel_left mod_eq_dvd_iff_nat nat_add_left_cancel_le)
    with that show ?thesis by (auto dest: dvd_imp_le)
  qed
  show ?thesis using *[of i j] *[of j i] assms by (cases "i \<le> j") auto
qed


lemma Snapshot_Push:
  assumes "ring_ok r"
  shows "Snapshot (Push f r) = last_n (capacity r) (Snapshot r @ [f])"
proof (cases "count r < capacity r")
  case True
  have "Snapshot (Push f r) = Snapshot r @ [f]"
  proof (rule nth_equalityI)
    show "length (Snapshot (Push f r)) = length (Snapshot r @ [f])" using True by (simp add: Push_def Let_def)
    fix i assume "i < length (Snapshot (Push f r))"
    then have i: "i < Suc (count r)" using True by (simp add: Push_def Let_def)
    show "Snapshot (Push f r) ! i = (Snapshot r @ [f]) ! i"
    proof (cases "i = count r")
      case eq: True
      then show ?thesis using True assms by (simp add: Push_def Let_def Snapshot_def ring_ok_def nth_append)
    next
      case neq: False
      with i True have "(head r + i) mod capacity r \<noteq> (head r + count r) mod capacity r"
        using ring_index_inj [of i "capacity r" "count r" "head r"] by auto
      then show ?thesis using True assms i neq
        by (simp add: Push_def Let_def Snapshot_def ring_ok_def nth_append)
    qed
  qed
  then show ?thesis using True by simp
next
  case False
  with assms have full: "count r = capacity r" by (simp add: ring_ok_def)
  have "Snapshot (Push f r) = drop 1 (Snapshot r) @ [f]"
  proof (rule nth_equalityI)
    show "length (Snapshot (Push f r)) = length (drop 1 (Snapshot r) @ [f])"
      using full assms by (simp add: Push_def ring_ok_def)
    fix i assume "i < length (Snapshot (Push f r))"
    then have i: "i < capacity r" using full by (simp add: Push_def)
    have idx: "((head r + 1) mod capacity r + i) mod capacity r = (head r + Suc i) mod capacity r"
      by (simp add: mod_add_left_eq)
    show "Snapshot (Push f r) ! i = (drop 1 (Snapshot r) @ [f]) ! i"
    proof (cases "Suc i = capacity r")
      case True
      then have "(head r + Suc i) mod capacity r = head r" using assms by (simp add: ring_ok_def)
      moreover have "\<not> i < capacity r - 1" "i - (capacity r - 1) = 0" using True by simp_all
      ultimately show ?thesis using full assms idx i
        by (simp add: Push_def Snapshot_def ring_ok_def nth_append)
    next
      case neq: False
      with i have "Suc i < capacity r" by simp
      moreover have "(head r + Suc i) mod capacity r \<noteq> head r"
        using ring_index_inj [of "Suc i" "capacity r" 0 "head r"] calculation assms by (auto simp: ring_ok_def)
      moreover have "i < capacity r - 1" using calculation(1) by simp
      ultimately show ?thesis using full assms idx i
        by (simp add: Push_def Snapshot_def ring_ok_def nth_append)
    qed
  qed
  moreover have "last_n (capacity r) (Snapshot r @ [f]) = drop 1 (Snapshot r) @ [f]"
    using full assms by (simp add: last_n_def ring_ok_def)
  ultimately show ?thesis by simp
qed

interpretation ring: newest_queue Push Snapshot capacity dropped ring_ok
proof unfold_locales
  fix r :: "'a ring_buffer" and f
  assume ok: "ring_ok r"
  show "ring_ok (Push f r)" using ok by (rule ring_ok_Push)
  show "capacity (Push f r) = capacity r" by (simp add: Push_def Let_def)
  show "Snapshot (Push f r) = last_n (capacity r) (Snapshot r @ [f])" using ok by (rule Snapshot_Push)
  show "dropped (Push f r) + length (Snapshot (Push f r)) = dropped r + length (Snapshot r) + 1"
    by (simp add: Push_def Let_def)
  show "length (Snapshot r) \<le> capacity r" using ok by (simp add: ring_ok_def)
qed

section \<open>Properties\<close>

text \<open>The frame history refines a keep-the-newest queue: from a fresh buffer of any requested
  capacity, after any sequence of pushes \<open>Snapshot\<close> is, oldest first, the last \<open>capacity\<close> frames
  pushed, every frame not in it is counted in \<open>Dropped\<close>, and the index invariant holds.\<close>

theorem ring_buffer_keeps_newest:
  "ring_ok (fold Push fs (NewRingBuffer zero c)) \<and>
   Snapshot (fold Push fs (NewRingBuffer zero c)) = last_n (ring_capacity c) fs \<and>
   dropped (fold Push fs (NewRingBuffer zero c)) = length fs - ring_capacity c"
proof -
  let ?r = "NewRingBuffer zero c"
  have new: "Snapshot ?r = []" "capacity ?r = ring_capacity c" "dropped ?r = 0"
    by (simp_all add: NewRingBuffer_def Snapshot_def Let_def)
  from ring.pushes [OF ring_ok_New [of zero c], of fs] new
  have ok: "ring_ok (fold Push fs ?r)" and snap: "Snapshot (fold Push fs ?r) = last_n (ring_capacity c) fs"
    and lost: "dropped (fold Push fs ?r) + count (fold Push fs ?r) = length fs" by auto
  have "count (fold Push fs ?r) = min (ring_capacity c) (length fs)"
    using arg_cong [OF snap, of length] by simp
  then show ?thesis using ok snap lost by simp
qed

text \<open>\<open>Resize\<close> keeps the newest frames that fit, in order, counts exactly the discarded ones and
  leaves a buffer that satisfies the index invariant at the new capacity.\<close>

theorem ring_buffer_resize:
  assumes "ring_ok r"
  shows "ring_ok (Resize zero c r) \<and> capacity (Resize zero c r) = ring_capacity c \<and>
    Snapshot (Resize zero c r) = last_n (ring_capacity c) (Snapshot r) \<and>
    dropped (Resize zero c r) = dropped r + (count r - ring_capacity c)"
proof (cases "ring_capacity c = capacity r")
  case True
  then show ?thesis using assms by (simp add: Resize_def Let_def ring_ok_def)
next
  case False
  define keep where "keep = min (ring_capacity c) (count r)"
  have keep: "(if count r > ring_capacity c then ring_capacity c else count r) = keep" "keep \<le> ring_capacity c"
    "keep \<le> count r"
    by (auto simp: keep_def)
  have "Snapshot (Resize zero c r) = last_n (ring_capacity c) (Snapshot r)"
  proof (rule nth_equalityI)
    show "length (Snapshot (Resize zero c r)) = length (last_n (ring_capacity c) (Snapshot r))"
      using False keep by (simp add: Resize_def Let_def keep_def)
    fix i assume "i < length (Snapshot (Resize zero c r))"
    then have i: "i < keep" using False keep by (simp add: Resize_def Let_def)
    then have "Snapshot (Resize zero c r) ! i = buf r ! ((head r + count r - keep + i) mod capacity r)"
      using False keep by (simp add: Resize_def Let_def Snapshot_def nth_append)
    moreover have "last_n (ring_capacity c) (Snapshot r) ! i = Snapshot r ! (count r - keep + i)"
      using i by (simp add: nth_last_n keep_def)
    moreover have "count r - keep + i < count r" using i keep by simp
    ultimately show "Snapshot (Resize zero c r) ! i = last_n (ring_capacity c) (Snapshot r) ! i"
      using keep by (simp add: Snapshot_def add.assoc)
  qed
  then show ?thesis using assms False ring_ok_Resize [OF assms, of zero c]
    by (auto simp: Resize_def Let_def)
qed

theorem ring_buffer_resize_witness:
  "Snapshot (Resize (0 :: nat) 2 (fold Push [1, 2, 3, 4, 5] (NewRingBuffer 0 4))) = [4, 5]"
proof -
  let ?r = "fold Push [1, 2, 3, 4, 5] (NewRingBuffer (0 :: nat) 4)"
  have "ring_ok ?r" by (simp add: ring_ok_New ring_ok_Push)
  moreover have "Snapshot ?r = [2, 3, 4, 5]" by code_simp
  ultimately show ?thesis using ring_buffer_resize [of ?r 0 2]
    by (simp add: ring_capacity_def last_n_def)
qed

end
