(* ===== verification/CloudBuffer.thy ===== *)
theory CloudBuffer
  imports Backlog_Model Rtp
begin

text \<open>
  The offline frame spool of \<open>internal/cloudsink/buffer.go\<close>: a bounded FIFO of JPEG frames kept as
  one file each, with an in-memory index. The directory is an association list from file name to
  content. A file is a well-formed entry (JSON header, newline, JPEG), something \<open>readEntry\<close> rejects,
  or a subdirectory. The operating system's answers (write, remove, read and stat results, and the
  length of the JSON header) are parameters; \<open>writeAtomic\<close> makes a write appear whole or not at all.
\<close>

section \<open>State\<close>

record buffered_frame =
  bf_kind :: string
  bf_key :: string
  bf_seq :: nat
  bf_timestamp :: gotime
  bf_jpeg :: "byte list"
  bf_processing_mode :: string
  bf_reason :: string
  bf_score :: f64
  bf_correlation :: string
  bf_anpr :: string

datatype spool_file = FrameFile buffered_frame | CorruptFile | SpoolDir

record queued_entry =
  qe_path :: string
  qe_key :: string
  qe_timestamp :: gotime
  qe_size :: int

record cbuffer =
  cb_max_bytes :: int
  cb_max_frames :: int
  cb_max_age :: duration
  cb_disk :: "(string \<times> spool_file) list"
  cb_queue :: "queued_entry list"
  cb_bytes :: int
  cb_counter :: nat
  cb_replayed :: nat
  cb_dropped_full :: nat
  cb_corrupt :: nat
  cb_dropped_age :: nat
  cb_dropped_over :: nat

record spool_os =
  os_write :: "string \<Rightarrow> goerr option"
  os_remove :: "string \<Rightarrow> goerr option"
  os_read :: "string \<Rightarrow> bool"
  os_stat :: "string \<Rightarrow> bool"
  os_header :: "buffered_frame \<Rightarrow> nat"

datatype buffer_error = ErrBufferFull | BufferIO goerr

section \<open>Operations\<close>

definition frame_name :: "nat \<Rightarrow> string" where
  "frame_name n = pad_dec 20 n @ ''.frame''"

definition counterFromName :: "string \<Rightarrow> nat option" where
  "counterFromName name = parse_uint (trim_suffix name ''.frame'')"

definition spool_remove :: "spool_os \<Rightarrow> string \<Rightarrow> (string \<times> spool_file) list \<Rightarrow> (string \<times> spool_file) list" where
  "spool_remove os n dk = (case os_remove os n of None \<Rightarrow> AList.delete n dk | Some e \<Rightarrow> dk)"

definition readEntry :: "spool_os \<Rightarrow> (string \<times> spool_file) list \<Rightarrow> string \<Rightarrow> buffered_frame option" where
  "readEntry os dk n =
     (if \<not> os_read os n then None else case map_of dk n of Some (FrameFile f) \<Rightarrow> Some f | _ \<Rightarrow> None)"

definition writeAtomic ::
  "spool_os \<Rightarrow> string \<Rightarrow> buffered_frame \<Rightarrow> (string \<times> spool_file) list \<Rightarrow> goerr option \<times> (string \<times> spool_file) list"
where
  "writeAtomic os n f dk =
     (case os_write os n of Some e \<Rightarrow> (Some e, dk) | None \<Rightarrow> (None, AList.update n (FrameFile f) dk))"

definition file_size :: "spool_os \<Rightarrow> buffered_frame \<Rightarrow> int" where
  "file_size os f = int (os_header os f + length (bf_jpeg f))"

definition drop_corrupt :: "spool_os \<Rightarrow> string \<Rightarrow> cbuffer \<Rightarrow> cbuffer" where
  "drop_corrupt os n b = b\<lparr>cb_corrupt := cb_corrupt b + 1, cb_disk := spool_remove os n (cb_disk b)\<rparr>"

text \<open>The second loop of \<open>recover\<close>, over the sorted frame names.\<close>

fun recover_frames :: "spool_os \<Rightarrow> string list \<Rightarrow> nat \<Rightarrow> cbuffer \<Rightarrow> cbuffer" where
  "recover_frames os [] mx b = b\<lparr>cb_counter := mx\<rparr>"
| "recover_frames os (n # ns) mx b =
     (case readEntry os (cb_disk b) n of
        None \<Rightarrow> recover_frames os ns mx (drop_corrupt os n b)
      | Some f \<Rightarrow>
          if \<not> os_stat os n then recover_frames os ns mx (drop_corrupt os n b)
          else recover_frames os ns
                 (case counterFromName n of Some c \<Rightarrow> if c > mx then c else mx | None \<Rightarrow> mx)
                 (b\<lparr>cb_queue := cb_queue b @ [\<lparr>qe_path = n, qe_key = bf_key f, qe_timestamp = bf_timestamp f,
                                            qe_size = file_size os f\<rparr>],
                    cb_bytes := cb_bytes b + file_size os f\<rparr>))"

function enforceRecoveredBoundLocked :: "spool_os \<Rightarrow> cbuffer \<Rightarrow> goerr option \<times> cbuffer" where
  "enforceRecoveredBoundLocked os b =
     (case cb_queue b of
        [] \<Rightarrow> (None, b)
      | e # rest \<Rightarrow>
          if int (length (cb_queue b)) > cb_max_frames b \<or> cb_bytes b > cb_max_bytes b
          then (case os_remove os (qe_path e) of
                  Some err \<Rightarrow>
                    if \<not> isNotExist err then (Some (Wrapped ''cloudsink: buffer recover trim: '' err), b)
                    else enforceRecoveredBoundLocked os
                           (b\<lparr>cb_queue := rest, cb_bytes := cb_bytes b - qe_size e,
                              cb_dropped_over := cb_dropped_over b + 1\<rparr>)
                | None \<Rightarrow> enforceRecoveredBoundLocked os
                           (b\<lparr>cb_disk := AList.delete (qe_path e) (cb_disk b), cb_queue := rest,
                              cb_bytes := cb_bytes b - qe_size e, cb_dropped_over := cb_dropped_over b + 1\<rparr>))
          else (None, b))"
  by pat_completeness auto
termination
  by (relation "measure (\<lambda>(os, b). length (cb_queue b))") auto

declare enforceRecoveredBoundLocked.simps [simp del]

definition sweep_tmp :: "spool_os \<Rightarrow> (string \<times> spool_file) list \<Rightarrow> (string \<times> spool_file) list" where
  "sweep_tmp os dk =
     fold (spool_remove os) (map fst (filter (\<lambda>(n, c). c \<noteq> SpoolDir \<and> has_suffix n ''.tmp'') dk)) dk"

definition frame_names :: "(string \<times> spool_file) list \<Rightarrow> string list" where
  "frame_names dk =
     sort (map fst (filter (\<lambda>(n, c). c \<noteq> SpoolDir \<and> \<not> has_suffix n ''.tmp'' \<and> has_suffix n ''.frame'') dk))"

definition Buffer_recover :: "spool_os \<Rightarrow> cbuffer \<Rightarrow> goerr option \<times> cbuffer" where
  "Buffer_recover os b =
     (let names = frame_names (cb_disk b);
          b1 = b\<lparr>cb_disk := sweep_tmp os (cb_disk b)\<rparr>
      in enforceRecoveredBoundLocked os (recover_frames os names 0 b1))"

definition OpenBuffer :: "spool_os \<Rightarrow> (string \<times> spool_file) list \<Rightarrow> int \<Rightarrow> int \<Rightarrow> duration \<Rightarrow> goerr + cbuffer" where
  "OpenBuffer os dk mb mf ma =
     (case Buffer_recover os \<lparr>cb_max_bytes = mb, cb_max_frames = mf, cb_max_age = ma,
              cb_disk = dk, cb_queue = [], cb_bytes = 0, cb_counter = 0, cb_replayed = 0, cb_dropped_full = 0,
              cb_corrupt = 0, cb_dropped_age = 0, cb_dropped_over = 0\<rparr> of
        (Some e, b) \<Rightarrow> Inl e
      | (None, b) \<Rightarrow> Inr b)"

definition Buffer_Enqueue :: "spool_os \<Rightarrow> buffered_frame \<Rightarrow> cbuffer \<Rightarrow> buffer_error option \<times> cbuffer" where
  "Buffer_Enqueue os f b =
     (let size = int (length (bf_jpeg f)) in
      if int (length (cb_queue b)) + 1 > cb_max_frames b \<or> cb_bytes b + size > cb_max_bytes b
      then (Some ErrBufferFull, b\<lparr>cb_dropped_full := cb_dropped_full b + 1\<rparr>)
      else (let b1 = b\<lparr>cb_counter := wrap_u64 (cb_counter b + 1)\<rparr>;
                n = frame_name (cb_counter b1)
            in case writeAtomic os n f (cb_disk b1) of
                 (Some e, dk) \<Rightarrow>
                   (Some (BufferIO (WrapDiskError (Wrapped ''cloudsink: buffer enqueue: '' e))), b1\<lparr>cb_disk := dk\<rparr>)
               | (None, dk) \<Rightarrow>
                   (None, b1\<lparr>cb_disk := dk,
                     cb_queue := cb_queue b1 @ [\<lparr>qe_path = n, qe_key = bf_key f, qe_timestamp = bf_timestamp f,
                                                qe_size = size\<rparr>],
                     cb_bytes := cb_bytes b1 + size\<rparr>)))"

definition HasPending :: "string \<Rightarrow> cbuffer \<Rightarrow> bool" where
  "HasPending k b \<longleftrightarrow> list_ex (\<lambda>e. qe_key e = k) (cb_queue b)"

definition removeFrontLocked :: "spool_os \<Rightarrow> cbuffer \<Rightarrow> cbuffer" where
  "removeFrontLocked os b =
     (let e = hd (cb_queue b) in
      b\<lparr>cb_queue := tl (cb_queue b), cb_bytes := cb_bytes b - qe_size e,
        cb_disk := spool_remove os (qe_path e) (cb_disk b)\<rparr>)"

function Buffer_Peek :: "spool_os \<Rightarrow> gotime \<Rightarrow> cbuffer \<Rightarrow> buffered_frame option \<times> cbuffer" where
  "Buffer_Peek os now b =
     (case cb_queue b of
        [] \<Rightarrow> (None, b)
      | e # rest \<Rightarrow>
          if cb_max_age b > 0 \<and> time_sub now (qe_timestamp e) > cb_max_age b
          then Buffer_Peek os now (removeFrontLocked os (b\<lparr>cb_dropped_age := cb_dropped_age b + 1\<rparr>))
          else (case readEntry os (cb_disk b) (qe_path e) of
                  None \<Rightarrow> Buffer_Peek os now (removeFrontLocked os (b\<lparr>cb_corrupt := cb_corrupt b + 1\<rparr>))
                | Some f \<Rightarrow> (Some f, b)))"
  by pat_completeness auto
termination
  by (relation "measure (\<lambda>(os, now, b). length (cb_queue b))") (auto simp: removeFrontLocked_def Let_def)

declare Buffer_Peek.simps [simp del]

definition Advance :: "spool_os \<Rightarrow> cbuffer \<Rightarrow> cbuffer" where
  "Advance os b =
     (if cb_queue b = [] then b
      else (let b1 = removeFrontLocked os b in b1\<lparr>cb_replayed := cb_replayed b1 + 1\<rparr>))"

definition Discard :: "spool_os \<Rightarrow> cbuffer \<Rightarrow> cbuffer" where
  "Discard os b = (if cb_queue b = [] then b else removeFrontLocked os b)"

record buffer_stats =
  bs_frames :: nat
  bs_bytes :: int
  bs_replayed :: nat
  bs_dropped_full :: nat
  bs_corrupt :: nat
  bs_dropped_age :: nat
  bs_dropped_over :: nat
  bs_capacity :: int
  bs_oldest :: "gotime option"

definition Buffer_Stats :: "cbuffer \<Rightarrow> buffer_stats" where
  "Buffer_Stats b =
     \<lparr>bs_frames = length (cb_queue b), bs_bytes = cb_bytes b, bs_replayed = cb_replayed b,
      bs_dropped_full = cb_dropped_full b, bs_corrupt = cb_corrupt b, bs_dropped_age = cb_dropped_age b,
      bs_dropped_over = cb_dropped_over b, bs_capacity = cb_max_frames b,
      bs_oldest = (case cb_queue b of [] \<Rightarrow> None | e # _ \<Rightarrow> Some (qe_timestamp e))\<rparr>"

section \<open>File names sort as their numbers\<close>

lemma dec_value_Cons: "dec_value (c # s) = digit_val c * 10 ^ length s + dec_value s"
proof (induction s rule: rev_induct)
  case Nil
  then show ?case by (simp add: dec_value_def)
next
  case (snoc d s)
  have "dec_value (c # s @ [d]) = 10 * dec_value (c # s) + digit_val d"
    using dec_value_snoc [of "c # s" d] by simp
  then show ?case using snoc by (simp add: algebra_simps)
qed

lemma digit_val_le: "is_digit c \<Longrightarrow> digit_val c \<le> 9"
  unfolding is_digit_def digit_val_def by linarith

lemma dec_value_bound: "list_all is_digit s \<Longrightarrow> dec_value s < 10 ^ length s"
proof (induction s)
  case Nil
  then show ?case by simp
next
  case (Cons c s)
  then have "digit_val c * 10 ^ length s \<le> 9 * 10 ^ length s" by (intro mult_right_mono) (simp_all add: digit_val_le)
  moreover have "dec_value s < 10 ^ length s" using Cons by simp
  ultimately have "digit_val c * 10 ^ length s + dec_value s < 10 * 10 ^ length s" by linarith
  then show ?case by (simp add: dec_value_Cons)
qed

lemma digit_val_iff:
  assumes "is_digit x" "is_digit y"
  shows "digit_val x = digit_val y \<longleftrightarrow> x = y" "digit_val x < digit_val y \<longleftrightarrow> x < y"
proof -
  from assms have "48 \<le> (of_char x :: nat)" "48 \<le> (of_char y :: nat)" by (simp_all add: is_digit_def)
  moreover have "(of_char x :: nat) = of_char y \<longleftrightarrow> x = y" by simp
  ultimately show "digit_val x = digit_val y \<longleftrightarrow> x = y" "digit_val x < digit_val y \<longleftrightarrow> x < y"
    unfolding digit_val_def less_char_def by linarith+
qed

lemma dec_value_lex:
  assumes "length s = length t" "list_all is_digit s" "list_all is_digit t" "dec_value s < dec_value t"
  shows "s < (t :: string)"
  using assms
proof (induction s t rule: list_induct2)
  case Nil
  then show ?case by simp
next
  case (Cons c s d t)
  have "digit_val c \<le> digit_val d"
  proof (rule ccontr)
    assume "\<not> digit_val c \<le> digit_val d"
    then have "Suc (digit_val d) * 10 ^ length t \<le> digit_val c * 10 ^ length t" by (intro mult_right_mono) simp_all
    with Cons dec_value_bound [of t] show False by (simp add: dec_value_Cons)
  qed
  moreover have "digit_val x = digit_val y \<longleftrightarrow> x = y" "digit_val x < digit_val y \<longleftrightarrow> x < y"
    if "is_digit x" "is_digit y" for x y
    using that digit_val_iff by auto
  ultimately show ?case using Cons by (auto simp: dec_value_Cons less_le)
qed

lemma length_dec_of_nat: "n < 10 ^ k \<Longrightarrow> 0 < k \<Longrightarrow> length (dec_of_nat n) \<le> k"
proof (induction n arbitrary: k rule: dec_of_nat.induct)
  case (1 n)
  show ?case
  proof (cases "n < 10")
    case True
    then show ?thesis using "1.prems" by (subst dec_of_nat.simps) simp
  next
    case False
    then obtain k' where k: "k = Suc k'" "0 < k'" using "1.prems" by (cases k; cases "k - 1") auto
    then have "n div 10 < 10 ^ k'" using "1.prems" by (simp add: less_mult_imp_div_less mult.commute)
    with "1.IH" [OF False this k(2)] False k show ?thesis by (subst dec_of_nat.simps) simp
  qed
qed

lemma frame_name_less: "m < n \<Longrightarrow> n < 2 ^ 64 \<Longrightarrow> frame_name m < frame_name n"
proof -
  assume mn: "m < n" "n < 2 ^ 64"
  have len: "length (pad_dec 20 k) = 20" if "k < 2 ^ 64" for k
    using length_dec_of_nat [of k 20] that by (simp add: pad_dec_def)
  have "pad_dec 20 m < pad_dec 20 n"
    using mn len [of m] len [of n] by (intro dec_value_lex) (simp_all add: pad_dec_digits)
  then show ?thesis using len [of m] len [of n] mn
    by (simp add: frame_name_def list_less_def lexord_sufI)
qed

end
