(* ===== verification/CloudBuffer_Props.thy ===== *)
theory CloudBuffer_Props
  imports CloudBuffer
begin

text \<open>
  Properties of the frame spool: it is a FIFO that conserves frames across every operation and
  restart, its bounds hold, and what its byte accounting does at a restart. The FIFO contract is a
  locale over executions of operations, interpreted on the spool.
\<close>

section \<open>Invariant\<close>

text \<open>An operating system without remove, read or stat failures; writes may still fail.\<close>

definition os_ok :: "spool_os \<Rightarrow> bool" where
  "os_ok os \<longleftrightarrow> (\<forall>n. os_remove os n = None \<and> os_read os n \<and> os_stat os n)"

definition entry_ok :: "(string \<times> spool_file) list \<Rightarrow> queued_entry \<Rightarrow> bool" where
  "entry_ok dk e \<longleftrightarrow> (\<exists>f. map_of dk (qe_path e) = Some (FrameFile f) \<and> qe_key e = bf_key f \<and>
     qe_timestamp e = bf_timestamp f)"

text \<open>The queue is in file-number order, and no number is above the counter.\<close>

definition names_ok :: "queued_entry list \<Rightarrow> nat \<Rightarrow> bool" where
  "names_ok q c \<longleftrightarrow> (\<exists>ns. map qe_path q = map frame_name ns \<and> sorted_wrt (<) ns \<and> (\<forall>n \<in> set ns. n \<le> c))"

definition cbinv :: "cbuffer \<Rightarrow> bool" where
  "cbinv b \<longleftrightarrow> wf_alist (cb_disk b) \<and> cb_bytes b = sum_list (map qe_size (cb_queue b)) \<and> cb_counter b < 2 ^ 64 \<and>
     names_ok (cb_queue b) (cb_counter b) \<and>
     set (map fst (cb_disk b)) = set (map qe_path (cb_queue b)) \<and> (\<forall>e \<in> set (cb_queue b). entry_ok (cb_disk b) e)"

definition spooled :: "cbuffer \<Rightarrow> spool_file option list" where
  "spooled b = map (\<lambda>e. map_of (cb_disk b) (qe_path e)) (cb_queue b)"

lemma frame_name_inject [simp]: "frame_name m = frame_name n \<longleftrightarrow> m = n"
  by (simp add: frame_name_def)

lemma names_ok_distinct: "names_ok q c \<Longrightarrow> distinct (map qe_path q)"
proof -
  assume "names_ok q c"
  then obtain ns where ns: "map qe_path q = map frame_name ns" "sorted_wrt (<) ns"
    unfolding names_ok_def by blast
  have "distinct (map frame_name ns)" using ns(2) by (simp add: distinct_map inj_on_def strict_sorted_iff)
  then show ?thesis by (simp only: ns(1))
qed

lemma names_ok_tl: "names_ok (e # q) c \<Longrightarrow> names_ok q c"
proof -
  assume "names_ok (e # q) c"
  then obtain ns where ns: "map qe_path (e # q) = map frame_name ns" "sorted_wrt (<) ns" "\<forall>n \<in> set ns. n \<le> c"
    unfolding names_ok_def by blast
  obtain n ns' where "ns = n # ns'" using ns(1) by (cases ns) auto
  with ns show ?thesis by (auto simp: names_ok_def intro!: exI [of _ ns'])
qed

lemma names_ok_mono: "names_ok q c \<Longrightarrow> c \<le> c' \<Longrightarrow> names_ok q c'"
  unfolding names_ok_def using le_trans by blast

lemma names_ok_snoc:
  assumes "names_ok q c" "c < n" "qe_path e = frame_name n"
  shows "names_ok (q @ [e]) n"
proof -
  from assms(1) obtain ns where ns: "map qe_path q = map frame_name ns" "sorted_wrt (<) ns" "\<forall>n \<in> set ns. n \<le> c"
    unfolding names_ok_def by blast
  have "map qe_path (q @ [e]) = map frame_name (ns @ [n])" using ns(1) assms(3) by simp
  moreover have "sorted_wrt (<) (ns @ [n])" "\<forall>m \<in> set (ns @ [n]). m \<le> n"
    using ns(2,3) assms(2) by (auto simp: sorted_wrt_append)
  ultimately show ?thesis unfolding names_ok_def by blast
qed

lemma names_ok_fresh:
  assumes "names_ok q c" "c < n"
  shows "frame_name n \<notin> set (map qe_path q)"
proof -
  from assms(1) obtain ns where ns: "map qe_path q = map frame_name ns" "\<forall>n \<in> set ns. n \<le> c"
    unfolding names_ok_def by blast
  have "frame_name n \<notin> set (map frame_name ns)" using ns(2) assms(2) by auto
  then show ?thesis by (simp only: ns(1) not_False_eq_True)
qed

lemma entry_ok_delete: "qe_path e \<noteq> n \<Longrightarrow> entry_ok (AList.delete n dk) e = entry_ok dk e"
  by (simp add: entry_ok_def delete_conv')

text \<open>An operation that only took the first \<open>k\<close> entries off.\<close>

definition shrunk :: "nat \<Rightarrow> cbuffer \<Rightarrow> cbuffer \<Rightarrow> bool" where
  "shrunk k b b' \<longleftrightarrow> cbinv b' \<and> spooled b' = drop k (spooled b) \<and> cb_queue b' = drop k (cb_queue b) \<and>
     k \<le> length (cb_queue b) \<and> cb_max_frames b' = cb_max_frames b \<and> cb_max_bytes b' = cb_max_bytes b"

lemma shrunk_refl: "cbinv b \<Longrightarrow> shrunk 0 b b"
  by (simp add: shrunk_def)

lemma shrunk_trans: "shrunk j a b \<Longrightarrow> shrunk k b c \<Longrightarrow> shrunk (j + k) a c"
  by (auto simp: shrunk_def add.commute)

text \<open>Taking the front entry and its file away.\<close>

lemma drop_front_ok:
  assumes inv: "cbinv b" and q: "cb_queue b = e # rest"
  defines "b' \<equiv> b\<lparr>cb_queue := rest, cb_bytes := cb_bytes b - qe_size e,
    cb_disk := AList.delete (qe_path e) (cb_disk b)\<rparr>"
  shows "cbinv b'" "spooled b' = tl (spooled b)"
proof -
  have new: "qe_path e \<notin> set (map qe_path rest)"
    using inv q names_ok_distinct [of "cb_queue b" "cb_counter b"] by (simp add: cbinv_def)
  then have ne: "qe_path x \<noteq> qe_path e" if "x \<in> set rest" for x using imageI [OF that, of qe_path] by auto
  have keys: "set (map fst (AList.delete (qe_path e) (cb_disk b))) = set (map qe_path rest)"
    using inv q new by (simp only: cbinv_def delete_keys) auto
  then show "cbinv b'"
    using inv q ne names_ok_tl [of e rest] by (auto simp: cbinv_def b'_def entry_ok_delete)
  show "spooled b' = tl (spooled b)" using ne q by (simp add: spooled_def b'_def delete_conv')
qed

lemma removeFront_ok:
  assumes inv: "cbinv b" and ok: "os_ok os" and q: "cb_queue b = e # rest"
  shows "shrunk 1 b (removeFrontLocked os b) \<and> cb_queue (removeFrontLocked os b) = rest"
proof -
  have "removeFrontLocked os b = b\<lparr>cb_queue := rest, cb_bytes := cb_bytes b - qe_size e,
      cb_disk := AList.delete (qe_path e) (cb_disk b)\<rparr>"
    using ok q by (simp add: removeFrontLocked_def spool_remove_def os_ok_def)
  with drop_front_ok [OF inv q] q show ?thesis
    unfolding shrunk_def by (simp add: drop_Suc)
qed

lemma cbinv_counters [simp]:
  "cbinv (b\<lparr>cb_replayed := n\<rparr>) = cbinv b" "cbinv (b\<lparr>cb_dropped_age := n\<rparr>) = cbinv b"
  "cbinv (b\<lparr>cb_corrupt := n\<rparr>) = cbinv b" "cbinv (b\<lparr>cb_dropped_full := n\<rparr>) = cbinv b"
  "cbinv (b\<lparr>cb_dropped_over := n\<rparr>) = cbinv b"
  by (simp_all add: cbinv_def)

lemma spooled_counters [simp]:
  "spooled (b\<lparr>cb_replayed := n\<rparr>) = spooled b" "spooled (b\<lparr>cb_dropped_age := n\<rparr>) = spooled b"
  "spooled (b\<lparr>cb_corrupt := n\<rparr>) = spooled b" "spooled (b\<lparr>cb_dropped_full := n\<rparr>) = spooled b"
  "spooled (b\<lparr>cb_dropped_over := n\<rparr>) = spooled b"
  by (simp_all add: spooled_def)

lemma Enqueue_ok:
  assumes inv: "cbinv b" and room: "cb_counter b + 1 < 2 ^ 64"
  shows "cbinv (snd (Buffer_Enqueue os f b)) \<and>
    spooled (snd (Buffer_Enqueue os f b)) =
      spooled b @ (if fst (Buffer_Enqueue os f b) = None then [Some (FrameFile f)] else [])"
proof -
  let ?c = "Suc (cb_counter b)"
  let ?n = "frame_name ?c" and ?dk = "AList.update (frame_name ?c) (FrameFile f) (cb_disk b)"
  let ?e = "\<lparr>qe_path = ?n, qe_key = bf_key f, qe_timestamp = bf_timestamp f, qe_size = int (length (bf_jpeg f))\<rparr>"
  let ?b = "b\<lparr>cb_counter := ?c, cb_disk := ?dk, cb_queue := cb_queue b @ [?e],
      cb_bytes := cb_bytes b + int (length (bf_jpeg f))\<rparr>"
  have names: "names_ok (cb_queue b) (cb_counter b)" using inv by (simp add: cbinv_def)
  have other: "qe_path e \<noteq> ?n" if "e \<in> set (cb_queue b)" for e
    using imageI [OF that, of qe_path] names_ok_fresh [OF names, of ?c] by auto
  have keys: "set (map fst ?dk) = set (map qe_path (cb_queue b @ [?e]))"
    using inv by (simp add: cbinv_def dom_update)
  have add: "cbinv ?b"
    using inv room other keys names_ok_snoc [OF names, of ?c ?e]
    by (auto simp: cbinv_def entry_ok_def update_conv')
  have bump: "cbinv (b\<lparr>cb_counter := ?c\<rparr>)"
    using inv room names_ok_mono [OF names, of ?c] by (simp add: cbinv_def)
  have sp: "spooled ?b = spooled b @ [Some (FrameFile f)]"
    using other by (simp add: spooled_def update_conv')
  have "wrap_u64 ?c = ?c" using room by (simp add: wrap_u64_def)
  then show ?thesis
    using inv bump add sp by (auto simp: Buffer_Enqueue_def Let_def writeAtomic_def spooled_def split: option.splits)
qed

lemma shrunk_counters [simp]:
  "shrunk k (b\<lparr>cb_dropped_age := n\<rparr>) b' = shrunk k b b'" "shrunk k (b\<lparr>cb_corrupt := n\<rparr>) b' = shrunk k b b'"
  by (simp_all add: shrunk_def)

text \<open>An entry older than the age limit.\<close>

definition stale :: "gotime \<Rightarrow> cbuffer \<Rightarrow> queued_entry \<Rightarrow> bool" where
  "stale now b e \<longleftrightarrow> cb_max_age b > 0 \<and> time_sub now (qe_timestamp e) > cb_max_age b"

lemma stale_front [simp]: "stale now (removeFrontLocked os b) = stale now b" "stale now (b\<lparr>cb_dropped_age := n\<rparr>) = stale now b"
  by (simp_all add: fun_eq_iff stale_def removeFrontLocked_def Let_def)

text \<open>\<open>Peek\<close> removes exactly the stale entries in front, then returns the first entry left.\<close>

lemma Peek_ok:
  assumes "cbinv b" "os_ok os"
  shows "shrunk (length (takeWhile (stale now b) (cb_queue b))) b (snd (Buffer_Peek os now b)) \<and>
    cb_max_age (snd (Buffer_Peek os now b)) = cb_max_age b \<and>
    fst (Buffer_Peek os now b) =
      (case dropWhile (stale now b) (cb_queue b) of [] \<Rightarrow> None | e # _ \<Rightarrow> readEntry os (cb_disk b) (qe_path e))"
  using assms
proof (induction os now b rule: Buffer_Peek.induct)
  case (1 os now b)
  show ?case
  proof (cases "cb_queue b")
    case Nil
    then have "Buffer_Peek os now b = (None, b)" by (subst Buffer_Peek.simps) simp
    then show ?thesis using shrunk_refl [OF "1.prems"(1)] Nil by simp
  next
    case (Cons e rest)
    let ?b = "removeFrontLocked os (b\<lparr>cb_dropped_age := cb_dropped_age b + 1\<rparr>)"
    have front: "shrunk 1 b ?b" "cb_queue ?b = rest" "cb_max_age ?b = cb_max_age b"
      using removeFront_ok [of "b\<lparr>cb_dropped_age := cb_dropped_age b + 1\<rparr>" os e rest] Cons "1.prems"
      by (simp_all) (simp add: removeFrontLocked_def Let_def)
    show ?thesis
    proof (cases "stale now b e")
      case True
      then have step: "Buffer_Peek os now b = Buffer_Peek os now ?b"
        using Cons by (subst Buffer_Peek.simps) (simp add: stale_def)
      have IH: "shrunk (length (takeWhile (stale now b) rest)) ?b (snd (Buffer_Peek os now ?b))"
        "cb_max_age (snd (Buffer_Peek os now ?b)) = cb_max_age b"
        "fst (Buffer_Peek os now ?b) =
          (case dropWhile (stale now b) rest of [] \<Rightarrow> None | e # _ \<Rightarrow> readEntry os (cb_disk ?b) (qe_path e))"
        using "1.IH"(1) [OF Cons _ _ "1.prems"(2)] True front by (simp_all add: stale_def [of now b e] shrunk_def)
      have disk: "readEntry os (cb_disk ?b) (qe_path x) = readEntry os (cb_disk b) (qe_path x)" if "x \<in> set rest" for x
      proof -
        have "qe_path x \<noteq> qe_path e"
          using "1.prems"(1) Cons names_ok_distinct [of "cb_queue b" "cb_counter b"] imageI [OF that, of qe_path]
          by (auto simp: cbinv_def)
        then show ?thesis using Cons "1.prems"(2)
          by (simp add: readEntry_def removeFrontLocked_def Let_def spool_remove_def os_ok_def delete_conv')
      qed
      have "(case dropWhile (stale now b) rest of [] \<Rightarrow> None | e # _ \<Rightarrow> readEntry os (cb_disk ?b) (qe_path e)) =
          (case dropWhile (stale now b) rest of [] \<Rightarrow> None | e # _ \<Rightarrow> readEntry os (cb_disk b) (qe_path e))"
      proof (cases "dropWhile (stale now b) rest")
        case (Cons x xs)
        then have "x \<in> set rest" by (metis list.set_intros(1) set_dropWhileD)
        then show ?thesis using Cons disk by simp
      next
        case Nil
        then show ?thesis by (simp only: list.case)
      qed
      then show ?thesis using step IH True Cons shrunk_trans [OF front(1) IH(1)] by simp
    next
      case False
      obtain f where "map_of (cb_disk b) (qe_path e) = Some (FrameFile f)"
        using "1.prems"(1) Cons by (auto simp: cbinv_def entry_ok_def)
      then have rd: "readEntry os (cb_disk b) (qe_path e) = Some f"
        using "1.prems"(2) by (simp add: readEntry_def os_ok_def)
      then have "Buffer_Peek os now b = (Some f, b)"
        using Cons False by (subst Buffer_Peek.simps) (auto simp: stale_def)
      then show ?thesis using shrunk_refl [OF "1.prems"(1)] False Cons rd by simp
    qed
  qed
qed

section \<open>Restart\<close>

text \<open>A restart: the process dies and \<open>OpenBuffer\<close> reads the directory it left, with the same limits.\<close>

definition reopen :: "spool_os \<Rightarrow> cbuffer \<Rightarrow> goerr + cbuffer" where
  "reopen os b = OpenBuffer os (cb_disk b) (cb_max_bytes b) (cb_max_frames b) (cb_max_age b)"

definition reload :: "spool_os \<Rightarrow> (string \<times> spool_file) list \<Rightarrow> queued_entry \<Rightarrow> queued_entry" where
  "reload os dk e = e\<lparr>qe_size := (case map_of dk (qe_path e) of Some (FrameFile f) \<Rightarrow> file_size os f | _ \<Rightarrow> 0)\<rparr>"

lemma frame_name_suffix [simp]: "has_suffix (frame_name n) ''.frame''" "\<not> has_suffix (frame_name n) ''.tmp''"
  by (simp_all add: frame_name_def has_suffix_def)

lemma counter_frame_name [simp]: "n < 2 ^ 64 \<Longrightarrow> counterFromName (frame_name n) = Some n"
  using parse_uint_pad_dec [of n 20] by (simp add: counterFromName_def frame_name_def)

lemma recover_frames_ok:
  assumes "os_ok os" "map qe_path q = map frame_name ns" "\<forall>n \<in> set ns. n < 2 ^ 64" "\<forall>e \<in> set q. entry_ok (cb_disk b) e"
  shows "recover_frames os (map qe_path q) mx b =
    b\<lparr>cb_queue := cb_queue b @ map (reload os (cb_disk b)) q,
      cb_bytes := cb_bytes b + sum_list (map qe_size (map (reload os (cb_disk b)) q)), cb_counter := fold max ns mx\<rparr>"
  using assms
proof (induction q arbitrary: b ns mx)
  case Nil
  then show ?case by simp
next
  case (Cons e q)
  obtain n ns' where ns: "ns = n # ns'" "qe_path e = frame_name n" "map qe_path q = map frame_name ns'"
    using Cons.prems(2) by (cases ns) auto
  obtain f where f: "map_of (cb_disk b) (qe_path e) = Some (FrameFile f)" "qe_key e = bf_key f" "qe_timestamp e = bf_timestamp f"
    using Cons.prems(4) by (auto simp: entry_ok_def)
  have re: "reload os (cb_disk b) e =
      \<lparr>qe_path = qe_path e, qe_key = bf_key f, qe_timestamp = bf_timestamp f, qe_size = file_size os f\<rparr>"
    using f by (simp add: reload_def)
  have read: "readEntry os (cb_disk b) (qe_path e) = Some f" "os_stat os (qe_path e)"
    using f(1) Cons.prems(1) by (simp_all add: readEntry_def os_ok_def)
  let ?b = "b\<lparr>cb_queue := cb_queue b @ [reload os (cb_disk b) e], cb_bytes := cb_bytes b + file_size os f\<rparr>"
  have "recover_frames os (map qe_path (e # q)) mx b = recover_frames os (map qe_path q) (max n mx) ?b"
    using read ns Cons.prems(3) re by (simp add: max_def)
  also have "\<dots> = ?b\<lparr>cb_queue := cb_queue ?b @ map (reload os (cb_disk ?b)) q,
      cb_bytes := cb_bytes ?b + sum_list (map qe_size (map (reload os (cb_disk ?b)) q)), cb_counter := fold max ns' (max n mx)\<rparr>"
    by (rule Cons.IH) (use Cons.prems ns in \<open>simp_all\<close>)
  finally show ?case using ns re by (simp add: add.assoc)
qed

definition in_limits :: "cbuffer \<Rightarrow> bool" where
  "in_limits b \<longleftrightarrow> int (length (cb_queue b)) \<le> cb_max_frames b \<and> cb_bytes b \<le> cb_max_bytes b"

lemma enforce_ok:
  assumes "cbinv b" "os_ok os"
  shows "\<exists>b'. enforceRecoveredBoundLocked os b = (None, b') \<and> cb_dropped_over b \<le> cb_dropped_over b' \<and>
    shrunk (cb_dropped_over b' - cb_dropped_over b) b b' \<and>
    (cb_queue b' = [] \<or> in_limits b') \<and> (in_limits b \<longrightarrow> b' = b)"
  using assms
proof (induction os b rule: enforceRecoveredBoundLocked.induct)
  case (1 os b)
  show ?case
  proof (cases "cb_queue b")
    case Nil
    then have "enforceRecoveredBoundLocked os b = (None, b)" by (subst enforceRecoveredBoundLocked.simps) simp
    then show ?thesis using shrunk_refl [OF "1.prems"(1)] Nil by simp
  next
    case (Cons e rest)
    show ?thesis
    proof (cases "int (length (cb_queue b)) > cb_max_frames b \<or> cb_bytes b > cb_max_bytes b")
      case False
      then have "enforceRecoveredBoundLocked os b = (None, b)"
        using Cons by (subst enforceRecoveredBoundLocked.simps) auto
      then show ?thesis using shrunk_refl [OF "1.prems"(1)] False by (simp add: in_limits_def)
    next
      case True
      have rm: "os_remove os (qe_path e) = None" using "1.prems"(2) by (simp add: os_ok_def)
      let ?b = "b\<lparr>cb_disk := AList.delete (qe_path e) (cb_disk b), cb_queue := rest,
        cb_bytes := cb_bytes b - qe_size e, cb_dropped_over := cb_dropped_over b + 1\<rparr>"
      have eq: "?b = (b\<lparr>cb_queue := rest, cb_bytes := cb_bytes b - qe_size e,
          cb_disk := AList.delete (qe_path e) (cb_disk b)\<rparr>)\<lparr>cb_dropped_over := cb_dropped_over b + 1\<rparr>" by simp
      have b: "cbinv ?b" "spooled ?b = tl (spooled b)"
        using drop_front_ok [OF "1.prems"(1) Cons] unfolding eq by (simp_all only: cbinv_counters spooled_counters)
      then have sh: "shrunk 1 b ?b" using Cons unfolding shrunk_def by (simp add: drop_Suc)
      have step: "enforceRecoveredBoundLocked os b = enforceRecoveredBoundLocked os ?b"
        using Cons True rm by (subst enforceRecoveredBoundLocked.simps) simp
      from "1.IH"(1) [OF Cons True rm b(1) "1.prems"(2)] obtain b' where
        b': "enforceRecoveredBoundLocked os ?b = (None, b')" "cb_dropped_over ?b \<le> cb_dropped_over b'"
        "shrunk (cb_dropped_over b' - cb_dropped_over ?b) ?b b'" "cb_queue b' = [] \<or> in_limits b'" by blast
      have "1 + (cb_dropped_over b' - cb_dropped_over ?b) = cb_dropped_over b' - cb_dropped_over b" using b'(2) by simp
      with shrunk_trans [OF sh b'(3)] have "shrunk (cb_dropped_over b' - cb_dropped_over b) b b'" by simp
      then show ?thesis using step True b' by (auto simp: in_limits_def)
    qed
  qed
qed

lemma names_sorted:
  assumes "sorted_wrt (<) ns" "\<forall>n \<in> set ns. n < 2 ^ 64"
  shows "sorted (map frame_name ns)"
  using assms
proof (induction ns)
  case (Cons n ns)
  have "frame_name n \<le> frame_name m" if "m \<in> set ns" for m
    using frame_name_less [of n m] Cons.prems that by (auto simp: less_imp_le)
  then show ?case using Cons by auto
qed simp

lemma disk_listing:
  assumes inv: "cbinv b"
  shows "sweep_tmp os (cb_disk b) = cb_disk b" "frame_names (cb_disk b) = map qe_path (cb_queue b)"
proof -
  obtain ns where ns: "map qe_path (cb_queue b) = map frame_name ns" "sorted_wrt (<) ns" "\<forall>n \<in> set ns. n \<le> cb_counter b"
    using inv unfolding cbinv_def names_ok_def by blast
  have keys: "set (map fst (cb_disk b)) = set (map frame_name ns)" using inv ns(1) by (simp add: cbinv_def)
  have all: "c \<noteq> SpoolDir \<and> has_suffix n ''.frame'' \<and> \<not> has_suffix n ''.tmp''" if "(n, c) \<in> set (cb_disk b)" for n c
  proof -
    have "n \<in> set (map fst (cb_disk b))" using imageI [OF that, of fst] by simp
    then have "n \<in> set (map qe_path (cb_queue b))" "n \<in> set (map frame_name ns)"
      using keys ns(1) by simp_all
    then obtain e m where "e \<in> set (cb_queue b)" "qe_path e = n" "n = frame_name m" by auto
    moreover have "map_of (cb_disk b) n = Some c" using that inv by (simp add: cbinv_def)
    ultimately show ?thesis using inv by (auto simp: cbinv_def entry_ok_def)
  qed
  have none: "filter (\<lambda>(n, c). c \<noteq> SpoolDir \<and> has_suffix n ''.tmp'') (cb_disk b) = []"
    using all by (auto simp: filter_empty_conv)
  then show "sweep_tmp os (cb_disk b) = cb_disk b" by (simp add: sweep_tmp_def)
  have every: "filter (\<lambda>(n, c). c \<noteq> SpoolDir \<and> \<not> has_suffix n ''.tmp'' \<and> has_suffix n ''.frame'') (cb_disk b) = cb_disk b"
    using all by (auto intro: filter_True)
  have "\<forall>n \<in> set ns. n < 2 ^ 64" using ns(3) inv by (auto simp: cbinv_def)
  then have "sorted (map frame_name ns)" by (rule names_sorted [OF ns(2)])
  moreover have "distinct (map frame_name ns)" using ns(2) by (simp add: distinct_map inj_on_def strict_sorted_iff)
  ultimately have "sort (map fst (cb_disk b)) = map frame_name ns"
    using keys inv by (intro sorted_distinct_set_unique) (simp_all add: cbinv_def)
  then show "frame_names (cb_disk b) = map qe_path (cb_queue b)" by (simp add: frame_names_def every ns(1))
qed

lemma fold_max_ge: "mx \<le> fold max ns mx \<and> (\<forall>n \<in> set ns. n \<le> fold max ns (mx :: nat))"
  by (induction ns arbitrary: mx) (auto intro: le_trans [OF max.cobounded1] le_trans [OF max.cobounded2])

lemma fold_max_less: "(\<forall>n \<in> set ns. n < c) \<Longrightarrow> mx < c \<Longrightarrow> fold max ns (mx :: nat) < c"
  by (induction ns arbitrary: mx) auto

lemma reopen_ok:
  assumes inv: "cbinv b" and ok: "os_ok os"
  shows "\<exists>b'. reopen os b = Inr b' \<and> cbinv b' \<and> spooled b' = drop (cb_dropped_over b') (spooled b) \<and>
    cb_dropped_over b' \<le> length (cb_queue b) \<and>
    cb_queue b' = drop (cb_dropped_over b') (map (reload os (cb_disk b)) (cb_queue b)) \<and> (cb_queue b' = [] \<or> in_limits b') \<and>
    cb_max_frames b' = cb_max_frames b \<and> cb_max_bytes b' = cb_max_bytes b \<and>
    (int (length (cb_queue b)) \<le> cb_max_frames b \<and>
     sum_list (map qe_size (map (reload os (cb_disk b)) (cb_queue b))) \<le> cb_max_bytes b \<longrightarrow> spooled b' = spooled b)"
proof -
  obtain ns where ns: "map qe_path (cb_queue b) = map frame_name ns" "sorted_wrt (<) ns" "\<forall>n \<in> set ns. n \<le> cb_counter b"
    using inv unfolding cbinv_def names_ok_def by blast
  have lt: "\<forall>n \<in> set ns. n < 2 ^ 64" using ns(3) inv by (auto simp: cbinv_def)
  let ?q = "map (reload os (cb_disk b)) (cb_queue b)"
  let ?z = "\<lparr>cb_max_bytes = cb_max_bytes b, cb_max_frames = cb_max_frames b, cb_max_age = cb_max_age b,
    cb_disk = cb_disk b, cb_queue = [], cb_bytes = 0, cb_counter = 0, cb_replayed = 0, cb_dropped_full = 0,
    cb_corrupt = 0, cb_dropped_age = 0, cb_dropped_over = 0\<rparr>"
  let ?r = "?z\<lparr>cb_queue := ?q, cb_bytes := sum_list (map qe_size ?q), cb_counter := fold max ns 0\<rparr>"
  have entries: "\<forall>e \<in> set (cb_queue b). entry_ok (cb_disk b) e" using inv by (simp add: cbinv_def)
  have load: "recover_frames os (map qe_path (cb_queue b)) 0 ?z = ?r"
    using recover_frames_ok [OF ok ns(1) lt, where b = ?z and mx = 0] entries by simp
  have same: "map qe_path ?q = map qe_path (cb_queue b)" by (simp add: reload_def)
  have rinv: "cbinv ?r"
    using inv ns(1,2) same fold_max_ge [of 0 ns] fold_max_less [OF lt, of 0]
    unfolding cbinv_def names_ok_def by (auto simp: reload_def entry_ok_def)
  have rsp: "spooled ?r = spooled b" by (simp add: spooled_def reload_def)
  have open_eq: "reopen os b = (case enforceRecoveredBoundLocked os ?r of (Some e, b) \<Rightarrow> Inl e | (None, b) \<Rightarrow> Inr b)"
    using load disk_listing [OF inv] by (simp add: reopen_def OpenBuffer_def Buffer_recover_def)
  from enforce_ok [OF rinv ok] obtain b' where
    b': "enforceRecoveredBoundLocked os ?r = (None, b')" "shrunk (cb_dropped_over b') ?r b'" "cb_queue b' = [] \<or> in_limits b'"
    "in_limits ?r \<longrightarrow> b' = ?r" by auto
  from b'(2) have "cbinv b'" "spooled b' = drop (cb_dropped_over b') (spooled ?r)" "cb_queue b' = drop (cb_dropped_over b') ?q"
    "cb_dropped_over b' \<le> length (cb_queue b)"
    "cb_max_frames b' = cb_max_frames b" "cb_max_bytes b' = cb_max_bytes b" by (auto simp: shrunk_def)
  then show ?thesis using b' open_eq rsp by (auto simp: in_limits_def)
qed


section \<open>The FIFO contract\<close>

text \<open>Operations that take a known number of elements off the front and append accepted ones at the
  back.\<close>

locale fifo_flow =
  fixes exec :: "'op \<Rightarrow> 's \<Rightarrow> 's" and allowed :: "'op \<Rightarrow> 's \<Rightarrow> bool" and ok :: "'s \<Rightarrow> bool"
    and contents :: "'s \<Rightarrow> 'f list" and accepted :: "'op \<Rightarrow> 's \<Rightarrow> 'f list" and removed :: "'op \<Rightarrow> 's \<Rightarrow> nat"
  assumes exec_ok: "ok s \<Longrightarrow> allowed a s \<Longrightarrow> ok (exec a s)"
    and exec_flow: "ok s \<Longrightarrow> allowed a s \<Longrightarrow> removed a s \<le> length (contents s) \<and>
      contents (exec a s) = drop (removed a s) (contents s) @ accepted a s"

fun all_allowed :: "('op \<Rightarrow> 's \<Rightarrow> 's) \<Rightarrow> ('op \<Rightarrow> 's \<Rightarrow> bool) \<Rightarrow> 'op list \<Rightarrow> 's \<Rightarrow> bool" where
  "all_allowed exec allowed [] s = True"
| "all_allowed exec allowed (a # as) s = (allowed a s \<and> all_allowed exec allowed as (exec a s))"

fun all_accepted :: "('op \<Rightarrow> 's \<Rightarrow> 's) \<Rightarrow> ('op \<Rightarrow> 's \<Rightarrow> 'f list) \<Rightarrow> 'op list \<Rightarrow> 's \<Rightarrow> 'f list" where
  "all_accepted exec accepted [] s = []"
| "all_accepted exec accepted (a # as) s = accepted a s @ all_accepted exec accepted as (exec a s)"

fun all_removed :: "('op \<Rightarrow> 's \<Rightarrow> 's) \<Rightarrow> ('op \<Rightarrow> 's \<Rightarrow> nat) \<Rightarrow> 'op list \<Rightarrow> 's \<Rightarrow> nat" where
  "all_removed exec removed [] s = 0"
| "all_removed exec removed (a # as) s = removed a s + all_removed exec removed as (exec a s)"

context fifo_flow
begin

lemma run_flow:
  "ok s \<Longrightarrow> all_allowed exec allowed as s \<Longrightarrow>
     ok (fold exec as s) \<and>
     contents (fold exec as s) = drop (all_removed exec removed as s) (contents s @ all_accepted exec accepted as s)"
proof (induction "as" arbitrary: s)
  case Nil
  then show ?case by simp
next
  case (Cons a as)
  have a: "allowed a s" using Cons.prems(2) by simp
  let ?acc = "all_accepted exec accepted as (exec a s)" and ?rem = "all_removed exec removed as (exec a s)"
  have step: "removed a s \<le> length (contents s)" "contents (exec a s) = drop (removed a s) (contents s) @ accepted a s"
    using exec_flow [OF Cons.prems(1) a] by simp_all
  from Cons.IH [OF exec_ok [OF Cons.prems(1) a]] Cons.prems(2) have
    "ok (fold exec as (exec a s))" "contents (fold exec as (exec a s)) = drop ?rem (contents (exec a s) @ ?acc)" by simp_all
  moreover have "contents (exec a s) @ ?acc = drop (removed a s) (contents s @ accepted a s @ ?acc)" using step by simp
  ultimately show ?case by (simp add: add.commute del: drop_append)
qed

end

section \<open>The spool as such a FIFO\<close>

datatype spool_op =
    OpEnqueue spool_os buffered_frame
  | OpPeek spool_os gotime
  | OpAdvance spool_os
  | OpDiscard spool_os
  | OpReopen spool_os

fun spool_exec :: "spool_op \<Rightarrow> cbuffer \<Rightarrow> cbuffer" where
  "spool_exec (OpEnqueue os f) b = snd (Buffer_Enqueue os f b)"
| "spool_exec (OpPeek os now) b = snd (Buffer_Peek os now b)"
| "spool_exec (OpAdvance os) b = Advance os b"
| "spool_exec (OpDiscard os) b = Discard os b"
| "spool_exec (OpReopen os) b = (case reopen os b of Inl e \<Rightarrow> b | Inr b' \<Rightarrow> b')"

text \<open>Removes, reads and stats succeed, writes may fail, and the 64-bit file counter is not exhausted.\<close>

fun spool_allowed :: "spool_op \<Rightarrow> cbuffer \<Rightarrow> bool" where
  "spool_allowed (OpEnqueue os f) b = (cb_counter b + 1 < 2 ^ 64)"
| "spool_allowed (OpPeek os now) b = os_ok os"
| "spool_allowed (OpAdvance os) b = os_ok os"
| "spool_allowed (OpDiscard os) b = os_ok os"
| "spool_allowed (OpReopen os) b = os_ok os"

fun spool_accepted :: "spool_op \<Rightarrow> cbuffer \<Rightarrow> spool_file option list" where
  "spool_accepted (OpEnqueue os f) b = (if fst (Buffer_Enqueue os f b) = None then [Some (FrameFile f)] else [])"
| "spool_accepted _ b = []"

text \<open>What an operation takes off the front: the stale entries for \<open>Peek\<close>, one for \<open>Advance\<close> and
  \<open>Discard\<close>, and for a restart what it counts in \<open>DroppedOverCapacity\<close>.\<close>

fun spool_removed :: "spool_op \<Rightarrow> cbuffer \<Rightarrow> nat" where
  "spool_removed (OpEnqueue os f) b = 0"
| "spool_removed (OpPeek os now) b = length (takeWhile (stale now b) (cb_queue b))"
| "spool_removed (OpAdvance os) b = (if cb_queue b = [] then 0 else 1)"
| "spool_removed (OpDiscard os) b = (if cb_queue b = [] then 0 else 1)"
| "spool_removed (OpReopen os) b = cb_dropped_over (spool_exec (OpReopen os) b)"

definition cbound :: "cbuffer \<Rightarrow> bool" where
  "cbound b \<longleftrightarrow> (\<forall>e \<in> set (cb_queue b). 0 \<le> qe_size e) \<and> (cb_queue b = [] \<or> in_limits b)"

lemma sum_list_drop_le: "(\<forall>e \<in> set q. 0 \<le> f e) \<Longrightarrow> sum_list (map f (drop k q)) \<le> (sum_list (map f q) :: int)"
proof -
  assume nn: "\<forall>e \<in> set q. 0 \<le> f e"
  have "sum_list (map f q) = sum_list (map f (take k q)) + sum_list (map f (drop k q))"
    by (metis append_take_drop_id map_append sum_list_append)
  moreover have "0 \<le> sum_list (map f (take k q))" using nn by (intro sum_list_nonneg) (auto dest: in_set_takeD)
  ultimately show ?thesis by simp
qed

lemma cbound_shrunk: "cbinv b \<Longrightarrow> cbound b \<Longrightarrow> shrunk k b b' \<Longrightarrow> cbound b'"
proof -
  assume inv: "cbinv b" "cbound b" "shrunk k b b'"
  then have k: "cb_queue b' = drop k (cb_queue b)" "cbinv b'" "cb_max_frames b' = cb_max_frames b"
    "cb_max_bytes b' = cb_max_bytes b" by (auto simp: shrunk_def)
  have "cb_bytes b' \<le> cb_bytes b"
    using k(1,2) inv(1,2) sum_list_drop_le [of "cb_queue b" qe_size k] by (simp add: cbinv_def cbound_def)
  then show ?thesis using inv(2) k by (auto simp: cbound_def in_limits_def dest: in_set_dropD)
qed

lemma Advance_shrunk:
  assumes "cbinv b" "os_ok os"
  shows "shrunk (if cb_queue b = [] then 0 else 1) b (Advance os b)"
    "shrunk (if cb_queue b = [] then 0 else 1) b (Discard os b)"
proof -
  have "shrunk (if cb_queue b = [] then 0 else 1) b (Advance os b) \<and>
    shrunk (if cb_queue b = [] then 0 else 1) b (Discard os b)"
  proof (cases "cb_queue b")
    case Nil
    then show ?thesis using shrunk_refl [OF assms(1)] by (simp add: Advance_def Discard_def)
  next
    case (Cons e rest)
    from removeFront_ok [OF assms Cons] Cons show ?thesis
      by (auto simp: Advance_def Discard_def Let_def shrunk_def)
  qed
  then show "shrunk (if cb_queue b = [] then 0 else 1) b (Advance os b)"
    "shrunk (if cb_queue b = [] then 0 else 1) b (Discard os b)" by blast+
qed

lemma Enqueue_bound: "cbound b \<Longrightarrow> cbound (snd (Buffer_Enqueue os f b))"
  by (auto simp: cbound_def in_limits_def Buffer_Enqueue_def Let_def writeAtomic_def split: option.splits)

lemma reopen_bound: "cbinv b \<Longrightarrow> os_ok os \<Longrightarrow> reopen os b = Inr b' \<Longrightarrow> cbound b'"
  using reopen_ok [of b os]
  by (auto simp: cbound_def reload_def file_size_def split: option.splits spool_file.splits dest!: in_set_dropD)

interpretation spool: fifo_flow spool_exec spool_allowed "\<lambda>b. cbinv b \<and> cbound b" spooled spool_accepted spool_removed
proof
  fix b a
  assume ok: "cbinv b \<and> cbound b" and al: "spool_allowed a b"
  have len: "length (spooled b) = length (cb_queue b)" by (simp add: spooled_def)
  have sh: "(cbinv b' \<and> cbound b') \<and> k \<le> length (spooled b) \<and> spooled b' = drop k (spooled b)" if "shrunk k b b'" for b' k
    using that ok cbound_shrunk [of b k b'] len by (auto simp: shrunk_def)
  have all: "(cbinv (spool_exec a b) \<and> cbound (spool_exec a b)) \<and> spool_removed a b \<le> length (spooled b) \<and>
      spooled (spool_exec a b) = drop (spool_removed a b) (spooled b) @ spool_accepted a b"
  proof (cases a)
    case (OpEnqueue os f)
    then show ?thesis using Enqueue_ok [of b os f] Enqueue_bound [of b os f] ok al by auto
  next
    case (OpPeek os now)
    moreover have "shrunk (length (takeWhile (stale now b) (cb_queue b))) b (snd (Buffer_Peek os now b))"
      using Peek_ok [of b os now] ok al OpPeek by simp
    ultimately show ?thesis using sh by simp
  next
    case (OpAdvance os)
    then show ?thesis using sh [OF Advance_shrunk(1)] ok al by simp
  next
    case (OpDiscard os)
    then show ?thesis using sh [OF Advance_shrunk(2)] ok al by simp
  next
    case (OpReopen os)
    then show ?thesis using reopen_ok [of b os] reopen_bound [of b os] ok al len by auto
  qed
  then show "cbinv (spool_exec a b) \<and> cbound (spool_exec a b)" by blast
  from all show "spool_removed a b \<le> length (spooled b) \<and>
      spooled (spool_exec a b) = drop (spool_removed a b) (spooled b) @ spool_accepted a b" by blast
qed

section \<open>Properties\<close>

definition empty_spool :: "int \<Rightarrow> int \<Rightarrow> duration \<Rightarrow> cbuffer" where
  "empty_spool mb mf ma = \<lparr>cb_max_bytes = mb, cb_max_frames = mf, cb_max_age = ma, cb_disk = [], cb_queue = [],
     cb_bytes = 0, cb_counter = 0, cb_replayed = 0, cb_dropped_full = 0, cb_corrupt = 0, cb_dropped_age = 0,
     cb_dropped_over = 0\<rparr>"

lemma empty_spool_ok: "cbinv (empty_spool mb mf ma) \<and> cbound (empty_spool mb mf ma)"
  by (simp add: cbinv_def cbound_def names_ok_def empty_spool_def)

lemma open_empty: "OpenBuffer os [] mb mf ma = Inr (empty_spool mb mf ma)"
  by (simp add: OpenBuffer_def Buffer_recover_def sweep_tmp_def frame_names_def empty_spool_def
      enforceRecoveredBoundLocked.simps)

text \<open>C6. The spool is a bounded FIFO across restarts, and it accounts for every frame. From a fresh
  directory, after any sequence of enqueues (each of which may fail to write), peeks, advances,
  discards and restarts, the frames on disk in queue order are exactly the accepted frames in the
  order they were accepted, less the first \<open>n\<close>, where \<open>n\<close> adds up the stale frames the peeks
  dropped, one per advance and discard of a non-empty spool, and what the restarts count as over
  capacity: nothing is duplicated, reordered or lost silently. The queue stays within the
  configured number of frames and bytes.\<close>

theorem spool_is_bounded_fifo:
  assumes "all_allowed spool_exec spool_allowed ops (empty_spool mb mf ma)"
  shows "spooled (fold spool_exec ops (empty_spool mb mf ma)) =
        drop (all_removed spool_exec spool_removed ops (empty_spool mb mf ma))
          (all_accepted spool_exec spool_accepted ops (empty_spool mb mf ma)) \<and>
    (cb_queue (fold spool_exec ops (empty_spool mb mf ma)) = [] \<or> in_limits (fold spool_exec ops (empty_spool mb mf ma)))"
proof -
  have "spooled (empty_spool mb mf ma) = []" by (simp add: spooled_def empty_spool_def)
  then show ?thesis using spool.run_flow [OF empty_spool_ok assms] by (simp add: cbound_def)
qed

definition sample_os :: spool_os where
  "sample_os = \<lparr>os_write = \<lambda>n. None, os_remove = \<lambda>n. None, os_read = \<lambda>n. True, os_stat = \<lambda>n. True,
     os_header = \<lambda>f. 100\<rparr>"

definition sample_frame :: "nat \<Rightarrow> buffered_frame" where
  "sample_frame n = \<lparr>bf_kind = '''', bf_key = ''cam'', bf_seq = n, bf_timestamp = int n, bf_jpeg = replicate 50 0,
     bf_processing_mode = '''', bf_reason = '''', bf_score = Fin 0, bf_correlation = '''', bf_anpr = ''''\<rparr>"

theorem spool_is_bounded_fifo_witness:
  "\<exists>ops. ops = [OpEnqueue sample_os (sample_frame 1), OpEnqueue sample_os (sample_frame 2), OpAdvance sample_os] \<and>
     spooled (fold spool_exec ops (empty_spool 1000 5 0)) =
       drop (all_removed spool_exec spool_removed ops (empty_spool 1000 5 0))
         (all_accepted spool_exec spool_accepted ops (empty_spool 1000 5 0))"
  by (intro exI conjI, rule refl, rule spool_is_bounded_fifo [THEN conjunct1])
    (simp add: empty_spool_def sample_os_def os_ok_def Buffer_Enqueue_def writeAtomic_def sample_frame_def wrap_u64_def Let_def)

lemma Peek_front:
  assumes "cbinv b" "os_ok os" "fst (Buffer_Peek os now b) = Some f"
  shows "\<exists>rest. spooled (snd (Buffer_Peek os now b)) = Some (FrameFile f) # rest \<and>
    (cb_max_age b \<le> 0 \<or> time_sub now (bf_timestamp f) \<le> cb_max_age b)"
proof -
  let ?k = "length (takeWhile (stale now b) (cb_queue b))"
  note peek = Peek_ok [OF assms(1,2), of now]
  from peek assms(3) obtain e q where q: "dropWhile (stale now b) (cb_queue b) = e # q"
    and rd: "readEntry os (cb_disk b) (qe_path e) = Some f" by (auto split: list.splits)
  have "e \<in> set (cb_queue b)" using q by (metis list.set_intros(1) set_dropWhileD)
  moreover have dk: "map_of (cb_disk b) (qe_path e) = Some (FrameFile f)"
    using rd by (auto simp: readEntry_def split: if_splits option.splits spool_file.splits)
  ultimately have "qe_timestamp e = bf_timestamp f" using assms(1) by (auto simp: cbinv_def entry_ok_def)
  moreover have "\<not> stale now b e" using q by (metis dropWhile_eq_Cons_conv)
  moreover have "drop ?k (cb_queue b) = e # q" using q by (simp add: dropWhile_eq_drop)
  then have "drop ?k (spooled b) = Some (FrameFile f) # map (\<lambda>e. map_of (cb_disk b) (qe_path e)) q"
    using dk by (simp add: spooled_def drop_map)
  ultimately show ?thesis using peek by (auto simp: shrunk_def stale_def)
qed

text \<open>What \<open>Peek\<close> hands to the replay is the oldest frame left in the spool, exactly as it was
  accepted, and it is within the age limit; \<open>Advance\<close> then removes that frame and no other.\<close>

theorem spool_peek_oldest:
  assumes "all_allowed spool_exec spool_allowed ops (empty_spool mb mf ma)" "os_ok os"
    "Buffer_Peek os now (fold spool_exec ops (empty_spool mb mf ma)) = (Some f, b)"
  shows "spooled b = Some (FrameFile f) # spooled (Advance os b) \<and>
    Some (FrameFile f) \<in> set (all_accepted spool_exec spool_accepted ops (empty_spool mb mf ma)) \<and>
    (cb_max_age b \<le> 0 \<or> time_sub now (bf_timestamp f) \<le> cb_max_age b)"
proof -
  let ?s = "fold spool_exec ops (empty_spool mb mf ma)"
  let ?acc = "all_accepted spool_exec spool_accepted ops (empty_spool mb mf ma)"
  from spool.run_flow [OF empty_spool_ok assms(1)] obtain k where
    s: "cbinv ?s" "spooled ?s = drop k ?acc" by (auto simp: spooled_def empty_spool_def)
  have k': "cbinv b" "set (spooled b) \<subseteq> set (spooled ?s)" and age: "cb_max_age b = cb_max_age ?s"
    using Peek_ok [OF s(1) assms(2), of now] assms(3) by (auto simp: shrunk_def dest: in_set_dropD)
  from Peek_front [OF s(1) assms(2), of now f] assms(3) obtain rest where
    front: "spooled b = Some (FrameFile f) # rest" "cb_max_age ?s \<le> 0 \<or> time_sub now (bf_timestamp f) \<le> cb_max_age ?s"
    by auto
  have "set (spooled b) \<subseteq> set ?acc" using k'(2) s(2) by (auto dest: in_set_dropD)
  moreover have "spooled (Advance os b) = rest"
  proof -
    obtain e q where q: "cb_queue b = e # q" using front(1) by (cases "cb_queue b") (auto simp: spooled_def)
    have "spooled (removeFrontLocked os b) = drop 1 (spooled b)"
      using removeFront_ok [OF k'(1) assms(2) q] by (simp add: shrunk_def)
    then show ?thesis using front(1) q by (simp add: Advance_def Let_def)
  qed
  ultimately show ?thesis using front age by auto
qed

theorem spool_peek_witness:
  "\<exists>f b. Buffer_Peek sample_os 5 (fold spool_exec [OpEnqueue sample_os (sample_frame 1)] (empty_spool 1000 5 0)) = (Some f, b) \<and>
     spooled b = Some (FrameFile f) # spooled (Advance sample_os b)"
proof -
  let ?ops = "[OpEnqueue sample_os (sample_frame 1)]" and ?z = "empty_spool 1000 5 0"
  have al: "all_allowed spool_exec spool_allowed ?ops ?z" by (simp add: empty_spool_def)
  have ok: "os_ok sample_os" by (simp add: os_ok_def sample_os_def)
  have "\<exists>b. Buffer_Peek sample_os 5 (fold spool_exec ?ops ?z) = (Some (sample_frame 1), b)"
    by (subst Buffer_Peek.simps) (simp add: Buffer_Enqueue_def writeAtomic_def empty_spool_def sample_os_def
        sample_frame_def readEntry_def Let_def)
  then obtain b where b: "Buffer_Peek sample_os 5 (fold spool_exec ?ops ?z) = (Some (sample_frame 1), b)" by blast
  from spool_peek_oldest [OF al ok b] b show ?thesis by blast
qed

text \<open>The byte limit counts JPEG bytes when a frame is enqueued but whole files when the spool is
  recovered, so a spool that is within its limits can lose its oldest frames at a restart that
  changes nothing: two frames of 50 bytes with 100-byte headers fit a limit of 150 bytes, and after
  the restart one of them is left.\<close>

theorem restart_evicts_frames_within_limits:
  "\<exists>b b'. b = fold spool_exec [OpEnqueue sample_os (sample_frame 1), OpEnqueue sample_os (sample_frame 2)] (empty_spool 150 5 0) \<and>
     in_limits b \<and> spooled b = [Some (FrameFile (sample_frame 1)), Some (FrameFile (sample_frame 2))] \<and>
     reopen sample_os b = Inr b' \<and> spooled b' = [Some (FrameFile (sample_frame 2))] \<and> cb_dropped_over b' = 1"
proof -
  define b where "b = fold spool_exec [OpEnqueue sample_os (sample_frame 1), OpEnqueue sample_os (sample_frame 2)] (empty_spool 150 5 0)"
  let ?n1 = "frame_name 1" and ?n2 = "frame_name 2"
  have w: "wrap_u64 (Suc 0) = Suc 0" "wrap_u64 (Suc (Suc 0)) = Suc (Suc 0)" by (simp_all add: wrap_u64_def)
  have b: "b = (empty_spool 150 5 0)\<lparr>cb_disk := [(?n1, FrameFile (sample_frame 1)), (?n2, FrameFile (sample_frame 2))],
      cb_queue := [\<lparr>qe_path = ?n1, qe_key = ''cam'', qe_timestamp = 1, qe_size = 50\<rparr>,
        \<lparr>qe_path = ?n2, qe_key = ''cam'', qe_timestamp = 2, qe_size = 50\<rparr>], cb_bytes := 100, cb_counter := 2\<rparr>"
    using w by (simp add: b_def Buffer_Enqueue_def writeAtomic_def empty_spool_def sample_os_def sample_frame_def
        numeral_2_eq_2 Let_def)
  have "?n1 < ?n2" by (rule frame_name_less) simp_all
  then have names: "frame_names (cb_disk b) = [?n1, ?n2]"
    unfolding b by (simp add: frame_names_def)
  have "\<exists>b'. reopen sample_os b = Inr b' \<and> spooled b' = [Some (FrameFile (sample_frame 2))] \<and> cb_dropped_over b' = 1"
    using names unfolding b
    by (simp add: reopen_def OpenBuffer_def Buffer_recover_def sweep_tmp_def readEntry_def sample_os_def
        empty_spool_def file_size_def sample_frame_def enforceRecoveredBoundLocked.simps spooled_def)
  then obtain b' where "reopen sample_os b = Inr b'" "spooled b' = [Some (FrameFile (sample_frame 2))]" "cb_dropped_over b' = 1"
    by blast
  moreover have "in_limits b" unfolding b by (simp add: in_limits_def empty_spool_def)
  moreover have "spooled b = [Some (FrameFile (sample_frame 1)), Some (FrameFile (sample_frame 2))]"
    unfolding b by (simp add: spooled_def)
  ultimately show ?thesis using b_def by blast
qed

end
