(* ===== verification/CloudRate.thy ===== *)
theory CloudRate
  imports Complex_Main Edge_Prelude
begin

text \<open>
  Upload shaping of \<open>internal/cloudsink\<close>: the token bucket of \<open>limiter.go\<close> and the rolling upload
  rate of \<open>rate.go\<close>. Go's \<open>float64\<close> values are rationals here, so the arithmetic is exact; instants
  are nanoseconds.
\<close>

section \<open>The token bucket\<close>

record token_bucket =
  bytesPerSec :: int
  burstBytes :: int
  byteTokens :: rat
  lastByteRefill :: gotime
  fps :: rat
  burstFrames :: rat
  frameTokens :: rat
  lastFrameRefill :: gotime
  waiters :: int

definition DefaultMinBurstBytes :: int where
  "DefaultMinBurstBytes = 262144"

definition seconds :: "duration \<Rightarrow> rat" where
  "seconds d = of_int d / of_int second"

definition NewLimiter :: "gotime \<Rightarrow> int \<Rightarrow> int \<Rightarrow> rat \<Rightarrow> token_bucket" where
  "NewLimiter now bps burst f =
     (let l = \<lparr>bytesPerSec = bps, burstBytes = 0, byteTokens = 0, lastByteRefill = now, fps = f,
               burstFrames = 0, frameTokens = 0, lastFrameRefill = now, waiters = 0\<rparr>;
          b = (if burst \<le> 0 then (if bps < DefaultMinBurstBytes then DefaultMinBurstBytes else bps) else burst);
          l1 = (if bps > 0 then l\<lparr>burstBytes := b, byteTokens := of_int b\<rparr> else l);
          bf = (if of_int \<lceil>f\<rceil> < (1 :: rat) then 1 else of_int \<lceil>f\<rceil>)
      in if f > 0 then l1\<lparr>burstFrames := bf, frameTokens := bf\<rparr> else l1)"

definition limiter_enabled :: "token_bucket \<Rightarrow> bool" where
  "limiter_enabled l \<longleftrightarrow> bytesPerSec l > 0 \<or> fps l > 0"

definition refill_bytes :: "gotime \<Rightarrow> token_bucket \<Rightarrow> token_bucket" where
  "refill_bytes now l =
     (if bytesPerSec l > 0
      then (let elapsed = seconds (time_sub now (lastByteRefill l)) in
            if elapsed > 0
            then (let t = byteTokens l + elapsed * of_int (bytesPerSec l)
                  in l\<lparr>byteTokens := (if t > of_int (burstBytes l) then of_int (burstBytes l) else t),
                       lastByteRefill := now\<rparr>)
            else if elapsed < 0 then l\<lparr>lastByteRefill := now\<rparr> else l)
      else l)"

definition refill_frames :: "gotime \<Rightarrow> token_bucket \<Rightarrow> token_bucket" where
  "refill_frames now l =
     (if fps l > 0
      then (let elapsed = seconds (time_sub now (lastFrameRefill l)) in
            if elapsed > 0
            then (let t = frameTokens l + elapsed * fps l
                  in l\<lparr>frameTokens := (if t > burstFrames l then burstFrames l else t), lastFrameRefill := now\<rparr>)
            else if elapsed < 0 then l\<lparr>lastFrameRefill := now\<rparr> else l)
      else l)"

definition refillLocked :: "gotime \<Rightarrow> token_bucket \<Rightarrow> token_bucket" where
  "refillLocked now l = refill_frames now (refill_bytes now l)"

definition consume :: "int \<Rightarrow> token_bucket \<Rightarrow> token_bucket" where
  "consume bytes l =
     (let l1 = (if bytesPerSec l > 0 then l\<lparr>byteTokens := byteTokens l - of_int bytes\<rparr> else l)
      in if fps l > 0 then l1\<lparr>frameTokens := frameTokens l - 1\<rparr> else l1)"

definition Allow :: "gotime \<Rightarrow> int \<Rightarrow> token_bucket \<Rightarrow> bool \<times> token_bucket" where
  "Allow now bytes l =
     (if \<not> limiter_enabled l then (True, l)
      else if waiters l > 0 then (False, l)
      else (let l = refillLocked now l;
                byteOK = (bytesPerSec l \<le> 0 \<or> (bytes \<le> burstBytes l \<and> byteTokens l \<ge> of_int bytes));
                frameOK = (fps l \<le> 0 \<or> frameTokens l \<ge> 1)
            in if byteOK \<and> frameOK then (True, consume bytes l) else (False, l)))"

text \<open>One turn of \<open>Wait\<close>'s loop with the waiter registered: an error, tokens taken, or how long to
  sleep before the next turn.\<close>

datatype wait_outcome = WaitTooBig | WaitDone | WaitSleep duration

definition wait_duration :: "int \<Rightarrow> token_bucket \<Rightarrow> duration" where
  "wait_duration bytes l =
     (let wb = (if bytesPerSec l > 0 \<and> byteTokens l < of_int bytes
                then \<lfloor>(of_int bytes - byteTokens l) / of_int (bytesPerSec l) * of_int second\<rfloor> else 0);
          wf = (if fps l > 0 \<and> frameTokens l < 1
                then \<lfloor>(1 - frameTokens l) / fps l * of_int second\<rfloor> else 0);
          w = (if wf > wb then wf else wb)
      in if w \<le> 0 then 1000000 else w)"

definition wait_once :: "gotime \<Rightarrow> int \<Rightarrow> token_bucket \<Rightarrow> wait_outcome \<times> token_bucket" where
  "wait_once now bytes l0 =
     (if bytesPerSec l0 > 0 \<and> burstBytes l0 > 0 \<and> bytes > burstBytes l0 then (WaitTooBig, l0)
      else (let l = refillLocked now l0;
                byteOK = (bytesPerSec l \<le> 0 \<or> byteTokens l \<ge> of_int bytes);
                frameOK = (fps l \<le> 0 \<or> frameTokens l \<ge> 1)
            in if byteOK \<and> frameOK then (WaitDone, consume bytes l)
               else (WaitSleep (wait_duration bytes l), l)))"

section \<open>The rolling rate\<close>

record effective_rate =
  windowS :: nat
  er_bytes :: "int list"
  er_frames :: "int list"
  bucketS :: "int list"

definition newEffectiveRate :: "duration \<Rightarrow> effective_rate" where
  "newEffectiveRate window =
     (let n = window div second;
          n = (if n < 1 then 1 else n)
      in \<lparr>windowS = nat n, er_bytes = replicate (nat n) 0, er_frames = replicate (nat n) 0,
          bucketS = replicate (nat n) 0\<rparr>)"

text \<open>\<open>sec % windowS\<close> truncates towards zero; the code adds \<open>windowS\<close> to a negative result.\<close>

definition bucket_of :: "int \<Rightarrow> nat \<Rightarrow> nat" where
  "bucket_of sec w =
     (let r = (if sec < 0 then - ((- sec) mod int w) else sec mod int w)
      in nat (if r < 0 then r + int w else r))"

definition rate_record :: "int \<Rightarrow> int \<Rightarrow> effective_rate \<Rightarrow> effective_rate" where
  "rate_record n sec r =
     (let i = bucket_of sec (windowS r);
          r1 = (if bucketS r ! i \<noteq> sec
                then r\<lparr>bucketS := (bucketS r)[i := sec], er_bytes := (er_bytes r)[i := 0], er_frames := (er_frames r)[i := 0]\<rparr>
                else r)
      in r1\<lparr>er_bytes := (er_bytes r1)[i := er_bytes r1 ! i + n], er_frames := (er_frames r1)[i := er_frames r1 ! i + 1]\<rparr>)"

definition in_window :: "int \<Rightarrow> nat \<Rightarrow> int \<Rightarrow> bool" where
  "in_window now w sec \<longleftrightarrow> 0 \<le> now - sec \<and> now - sec < int w"

definition window_total :: "int list \<Rightarrow> int \<Rightarrow> effective_rate \<Rightarrow> int" where
  "window_total xs now r = (\<Sum>i<windowS r. if in_window now (windowS r) (bucketS r ! i) then xs ! i else 0)"

definition rate :: "int \<Rightarrow> effective_rate \<Rightarrow> rat \<times> rat" where
  "rate now r =
     (of_int (window_total (er_bytes r) now r) / of_nat (windowS r),
      of_int (window_total (er_frames r) now r) / of_nat (windowS r))"

section \<open>The bucket never overdraws\<close>

lemma second_pos [simp]: "0 < second"
  by (simp add: second_def)

lemma time_sub_self [simp]: "time_sub a a = 0"
  by (simp add: time_sub_def)

lemma time_sub_sign: "time_sub a b = 0 \<longleftrightarrow> a = b" "0 < time_sub a b \<longleftrightarrow> b < a" "b \<le> a \<Longrightarrow> time_sub a b \<le> a - b"
  by (auto simp: time_sub_def)

lemma seconds_sign: "0 < seconds d \<longleftrightarrow> 0 < d" "seconds d < 0 \<longleftrightarrow> d < 0" "a \<le> b \<Longrightarrow> seconds a \<le> seconds b"
  by (auto simp: seconds_def field_simps zero_less_divide_iff divide_less_0_iff second_def)

lemma seconds_nonneg: "0 \<le> d \<Longrightarrow> 0 \<le> seconds d"
  by (simp add: seconds_def zero_le_divide_iff second_def)

lemma seconds_diff: "seconds (a - b) = seconds a - seconds b"
  by (simp add: seconds_def diff_divide_distrib)

definition lim_ok :: "token_bucket \<Rightarrow> bool" where
  "lim_ok l \<longleftrightarrow> 0 < bytesPerSec l \<and> 0 \<le> byteTokens l \<and> byteTokens l \<le> of_int (burstBytes l)"

lemma refill_frames_bytes [simp]:
  "bytesPerSec (refill_frames now l) = bytesPerSec l" "burstBytes (refill_frames now l) = burstBytes l"
  "byteTokens (refill_frames now l) = byteTokens l" "lastByteRefill (refill_frames now l) = lastByteRefill l"
  "waiters (refill_frames now l) = waiters l" "fps (refill_frames now l) = fps l"
  by (simp_all add: refill_frames_def Let_def)

text \<open>With a clock that does not step back, a refill adds at most the rate times the time passed.\<close>

lemma refill_bytes_potential:
  assumes "lim_ok l" "lastByteRefill l \<le> now"
  shows "lim_ok (refill_bytes now l) \<and> lastByteRefill (refill_bytes now l) = now \<and>
    bytesPerSec (refill_bytes now l) = bytesPerSec l \<and> burstBytes (refill_bytes now l) = burstBytes l \<and>
    byteTokens (refill_bytes now l) \<le> byteTokens l + of_int (bytesPerSec l) * seconds (now - lastByteRefill l)"
proof (cases "lastByteRefill l = now")
  case True
  then have "seconds (time_sub now (lastByteRefill l)) = 0" by (simp add: time_sub_sign seconds_def)
  then have "refill_bytes now l = l" by (simp add: refill_bytes_def)
  then show ?thesis using assms True by (simp add: seconds_def)
next
  case False
  let ?e = "seconds (time_sub now (lastByteRefill l))"
  have e: "0 < ?e" "?e \<le> seconds (now - lastByteRefill l)"
    using False assms(2) by (auto simp: seconds_sign(1) time_sub_sign(2) intro: seconds_sign(3) time_sub_sign(3))
  then have add: "?e * of_int (bytesPerSec l) \<le> of_int (bytesPerSec l) * seconds (now - lastByteRefill l)"
    using assms(1) by (simp add: lim_ok_def mult.commute mult_right_mono)
  have nn: "0 \<le> ?e * of_int (bytesPerSec l)" using e assms(1) by (simp add: lim_ok_def)
  define t where "t = byteTokens l + ?e * of_int (bytesPerSec l)"
  have "refill_bytes now l = l\<lparr>byteTokens := min t (of_int (burstBytes l)), lastByteRefill := now\<rparr>"
    using e assms(1) by (auto simp: refill_bytes_def lim_ok_def Let_def t_def)
  moreover have "0 \<le> t" "t \<le> byteTokens l + of_int (bytesPerSec l) * seconds (now - lastByteRefill l)"
    using nn add assms(1) by (auto simp: t_def lim_ok_def)
  moreover have "0 \<le> (of_int (burstBytes l) :: rat)" using assms(1) unfolding lim_ok_def by linarith
  ultimately show ?thesis using assms(1) by (auto simp: lim_ok_def)
qed


lemma consume_bytes [simp]:
  "bytesPerSec (consume n l) = bytesPerSec l" "burstBytes (consume n l) = burstBytes l"
  "lastByteRefill (consume n l) = lastByteRefill l" "waiters (consume n l) = waiters l"
  "0 < bytesPerSec l \<Longrightarrow> byteTokens (consume n l) = byteTokens l - of_int n"
  by (simp_all add: consume_def Let_def)

text \<open>A client of the limiter: at an instant, a size, through \<open>Wait\<close> or \<open>Allow\<close>; how many bytes it
  was allowed to send.\<close>

definition attempt :: "gotime \<times> int \<times> bool \<Rightarrow> token_bucket \<Rightarrow> int \<times> token_bucket" where
  "attempt a l =
     (case a of (t, n, via_wait) \<Rightarrow>
        if via_wait then (case wait_once t n l of (WaitDone, l') \<Rightarrow> (n, l') | (_, l') \<Rightarrow> (0, l'))
        else (case Allow t n l of (True, l') \<Rightarrow> (n, l') | (False, l') \<Rightarrow> (0, l')))"

fun admitted :: "(gotime \<times> int \<times> bool) list \<Rightarrow> token_bucket \<Rightarrow> int" where
  "admitted [] l = 0"
| "admitted (a # as) l = fst (attempt a l) + admitted as (snd (attempt a l))"

abbreviation level :: "token_bucket \<Rightarrow> rat" where
  "level l \<equiv> byteTokens l - of_int (bytesPerSec l) * seconds (lastByteRefill l)"

lemma attempt_potential:
  assumes ok: "lim_ok l" and t: "lastByteRefill l \<le> t" and n: "0 \<le> n"
  shows "lim_ok (snd (attempt (t, n, w) l)) \<and> lastByteRefill (snd (attempt (t, n, w) l)) \<le> t \<and>
    bytesPerSec (snd (attempt (t, n, w) l)) = bytesPerSec l \<and> burstBytes (snd (attempt (t, n, w) l)) = burstBytes l \<and>
    of_int (fst (attempt (t, n, w) l)) + level (snd (attempt (t, n, w) l)) \<le> level l"
proof -
  define r where "r = refillLocked t l"
  note rb = refill_bytes_potential [OF ok t]
  have r: "lim_ok r" "lastByteRefill r = t" "bytesPerSec r = bytesPerSec l" "burstBytes r = burstBytes l"
    "byteTokens r \<le> byteTokens l + of_int (bytesPerSec l) * seconds (t - lastByteRefill l)"
    using rb by (simp_all add: r_def refillLocked_def lim_ok_def)
  then have lev: "level r \<le> level l" by (simp add: seconds_diff algebra_simps)
  have c: "lim_ok (consume n r)" "of_int n + level (consume n r) \<le> level l"
    if "of_int n \<le> byteTokens r"
    using r(1) that n lev by (auto simp: lim_ok_def)
  have pos: "0 < bytesPerSec l" "limiter_enabled l" using ok by (simp_all add: lim_ok_def limiter_enabled_def)
  have "attempt (t, n, w) l = (0, l) \<or> attempt (t, n, w) l = (0, r) \<or>
      attempt (t, n, w) l = (n, consume n r) \<and> of_int n \<le> byteTokens r"
    using pos r(3) by (auto simp: attempt_def wait_once_def Allow_def r_def [symmetric] Let_def split: if_splits)
  then show ?thesis using c r lev ok t by (elim disjE) (simp_all del: of_int_0)
qed

lemma admitted_bound:
  assumes "lim_ok l" "list_all (\<lambda>(t, n, w). 0 \<le> n \<and> t \<le> tn) as" "sorted (lastByteRefill l # map fst as)" "lastByteRefill l \<le> tn"
  shows "of_int (admitted as l) \<le> byteTokens l + of_int (bytesPerSec l) * seconds (tn - lastByteRefill l)"
  using assms
proof (induction "as" arbitrary: l)
  case Nil
  have "0 \<le> seconds (tn - lastByteRefill l)" using Nil by (simp add: seconds_nonneg)
  then show ?case using Nil by (simp add: lim_ok_def)
next
  case (Cons a as)
  obtain t n w where a: "a = (t, n, w)" by (metis surj_pair)
  have p: "0 \<le> n" "t \<le> tn" "lastByteRefill l \<le> t" using Cons.prems a by simp_all
  define l' where "l' = snd (attempt a l)"
  have l': "lim_ok l'" "lastByteRefill l' \<le> t" "bytesPerSec l' = bytesPerSec l"
    "of_int (fst (attempt a l)) + level l' \<le> level l"
    using attempt_potential [OF Cons.prems(1) p(3,1), of w] unfolding l'_def a by auto
  have "of_int (admitted as l') \<le> byteTokens l' + of_int (bytesPerSec l') * seconds (tn - lastByteRefill l')"
    using Cons.prems l' a p by (intro Cons.IH) (auto intro: order_trans)
  then show ?case using l'(3,4) by (simp add: l'_def seconds_diff algebra_simps)
qed

lemma NewLimiter_ok: "0 < bps \<Longrightarrow> lim_ok (NewLimiter now bps burst f) \<and>
    byteTokens (NewLimiter now bps burst f) = of_int (burstBytes (NewLimiter now bps burst f)) \<and>
    lastByteRefill (NewLimiter now bps burst f) = now \<and> bytesPerSec (NewLimiter now bps burst f) = bps"
  by (simp add: NewLimiter_def lim_ok_def Let_def DefaultMinBurstBytes_def)

text \<open>C17. The limiter limits: over any sequence of direct (\<open>Allow\<close>) and waiting (\<open>Wait\<close>) requests at
  instants that do not go back, the bytes admitted up to \<open>tn\<close> are at most one burst plus the
  configured rate times the time passed since the limiter was created, whatever the sizes and
  however the two kinds interleave.\<close>

theorem limiter_rate_bound:
  assumes "0 < bps" "sorted (t0 # map fst as)" "list_all (\<lambda>(t, n, w). 0 \<le> n \<and> t \<le> tn) as" "t0 \<le> tn"
  shows "of_int (admitted as (NewLimiter t0 bps burst f)) \<le>
    of_int (burstBytes (NewLimiter t0 bps burst f)) + of_int bps * seconds (tn - t0)"
  using admitted_bound [of "NewLimiter t0 bps burst f" tn as] NewLimiter_ok [OF assms(1), of t0 burst f] assms
  by simp

theorem limiter_rate_bound_witness:
  "of_int (admitted [(0, 300000, False), (1000000000, 200000, True)] (NewLimiter 0 100000 0 0)) \<le>
     of_int (burstBytes (NewLimiter 0 100000 0 0)) + (of_int 100000 :: rat) * seconds (1000000000 - 0)"
  by (rule limiter_rate_bound) simp_all


section \<open>A waiter gets its tokens\<close>

text \<open>Exact levels after a refill, when the clock has not stepped back.\<close>

lemma refill_bytes_level:
  assumes "lim_ok l" "lastByteRefill l \<le> now" "is_int64 (now - lastByteRefill l)"
  shows "byteTokens (refill_bytes now l) =
    min (of_int (burstBytes l)) (byteTokens l + seconds (now - lastByteRefill l) * of_int (bytesPerSec l))"
proof (cases "now = lastByteRefill l")
  case True
  then have "refill_bytes now l = l" by (simp add: refill_bytes_def time_sub_sign(1) seconds_def Let_def)
  then show ?thesis using True assms(1) by (simp add: seconds_def lim_ok_def)
next
  case False
  then have "0 < seconds (now - lastByteRefill l)" using assms(2) by (simp add: seconds_sign(1))
  then show ?thesis using assms(1) by (simp add: refill_bytes_def time_sub_exact [OF assms(3)] lim_ok_def Let_def min_def)
qed

lemma refill_frames_level:
  assumes "0 < fps l" "frameTokens l \<le> burstFrames l" "lastFrameRefill l \<le> now" "is_int64 (now - lastFrameRefill l)"
  shows "frameTokens (refill_frames now l) =
      min (burstFrames l) (frameTokens l + seconds (now - lastFrameRefill l) * fps l) \<and>
    lastFrameRefill (refill_frames now l) = now \<and> burstFrames (refill_frames now l) = burstFrames l"
proof (cases "now = lastFrameRefill l")
  case True
  then have "refill_frames now l = l" by (simp add: refill_frames_def time_sub_sign(1) seconds_def Let_def)
  then show ?thesis using True assms(2) by (simp add: seconds_def)
next
  case False
  then have "0 < seconds (now - lastFrameRefill l)" using assms(3) by (simp add: seconds_sign(1))
  then show ?thesis using assms(1) by (simp add: refill_frames_def time_sub_exact [OF assms(4)] Let_def min_def)
qed

lemma refill_bytes_frames [simp]:
  "fps (refill_bytes now l) = fps l" "frameTokens (refill_bytes now l) = frameTokens l"
  "burstFrames (refill_bytes now l) = burstFrames l" "lastFrameRefill (refill_bytes now l) = lastFrameRefill l"
  by (simp_all add: refill_bytes_def Let_def)

text \<open>The arithmetic of one resource: sleeping the truncated time leaves less than a nanosecond's worth
  missing, and a nanosecond more fills that.\<close>

lemma sleep_nearly:
  assumes "0 < r" "need \<le> cap" "\<lfloor>(need - tok) / r * of_int second\<rfloor> \<le> d"
  shows "(need - min cap (tok + seconds d * r)) / r * of_int second < 1"
proof (cases "cap \<le> tok + seconds d * r")
  case True
  then have "(need - cap) / r * of_int second \<le> 0" using assms by (simp add: mult_nonpos_nonneg divide_nonpos_pos second_def)
  then show ?thesis using True by (simp add: min_def)
next
  case False
  have "(need - tok) / r * of_int second < of_int d + 1" using assms(3) by linarith
  moreover have "seconds d * of_int second = of_int d" by (simp add: seconds_def second_def)
  moreover have "(need - (tok + seconds d * r)) / r * of_int second = (need - tok) / r * of_int second - seconds d * of_int second"
    using assms(1) by (simp add: field_simps)
  ultimately show ?thesis using False by (simp add: min_def)
qed

lemma sleep_fills:
  assumes "0 < r" "need \<le> cap" "(need - tok) / r * of_int second < 1" "1 \<le> d"
  shows "need \<le> min cap (tok + seconds d * r)"
proof -
  have "(need - tok) / r < 1 / of_int second" using assms(3) by (simp add: field_simps second_def)
  then have "need - tok < 1 / of_int second * r" using assms(1) by (simp only: pos_divide_less_eq)
  also have "\<dots> = r / of_int second" by simp
  also have "\<dots> \<le> seconds d * r" using assms(1,4) by (simp add: seconds_def second_def field_simps)
  finally show ?thesis using assms(2) by simp
qed

definition frames_ok :: "token_bucket \<Rightarrow> bool" where
  "frames_ok l \<longleftrightarrow> (0 < fps l \<longrightarrow> 1 \<le> burstFrames l \<and> frameTokens l \<le> burstFrames l)"

text \<open>What is known after a turn: the refill has happened and nothing was taken.\<close>

definition waited :: "gotime \<Rightarrow> token_bucket \<Rightarrow> token_bucket \<Rightarrow> bool" where
  "waited t l l' \<longleftrightarrow> lim_ok l' \<and> frames_ok l' \<and> lastByteRefill l' = t \<and> (0 < fps l' \<longrightarrow> lastFrameRefill l' = t) \<and>
     bytesPerSec l' = bytesPerSec l \<and> burstBytes l' = burstBytes l \<and> fps l' = fps l \<and> burstFrames l' = burstFrames l"


lemma refill_waited:
  assumes "lim_ok l" "frames_ok l" "lastByteRefill l \<le> t" "lastFrameRefill l \<le> t" "is_int64 (t - lastFrameRefill l)"
  shows "waited t l (refillLocked t l)"
proof -
  note b = refill_bytes_potential [OF assms(1,3)]
  show ?thesis
  proof (cases "0 < fps l")
    case True
    then show ?thesis
      using b assms refill_frames_level [of "refill_bytes t l" t]
      by (simp add: waited_def refillLocked_def lim_ok_def frames_ok_def)
  next
    case False
    then have "refill_frames t (refill_bytes t l) = refill_bytes t l" by (simp add: refill_frames_def)
    then show ?thesis using b False by (simp add: waited_def refillLocked_def lim_ok_def frames_ok_def)
  qed
qed

definition nearly :: "int \<Rightarrow> token_bucket \<Rightarrow> bool" where
  "nearly n l \<longleftrightarrow> (of_int n - byteTokens l) / of_int (bytesPerSec l) * of_int second < 1 \<and>
     (0 < fps l \<longrightarrow> (1 - frameTokens l) / fps l * of_int second < 1)"

abbreviation enough :: "int \<Rightarrow> token_bucket \<Rightarrow> bool" where
  "enough n l \<equiv> of_int n \<le> byteTokens l \<and> (fps l \<le> 0 \<or> 1 \<le> frameTokens l)"

lemma floor_le_wait:
  assumes "0 < bytesPerSec l"
  shows "\<lfloor>(of_int n - byteTokens l) / of_int (bytesPerSec l) * of_int second\<rfloor> \<le> wait_duration n l"
    "0 < fps l \<Longrightarrow> \<lfloor>(1 - frameTokens l) / fps l * of_int second\<rfloor> \<le> wait_duration n l" "1 \<le> wait_duration n l"
proof -
  have neg: "\<lfloor>x / r * of_int second\<rfloor> \<le> 0" if "x \<le> 0" "0 < r" for x r :: rat
  proof -
    have "x / r * of_int second \<le> 0" using that by (simp add: mult_nonpos_nonneg divide_nonpos_pos second_def)
    then show ?thesis by linarith
  qed
  define fb where "fb = \<lfloor>(of_int n - byteTokens l) / of_int (bytesPerSec l) * of_int second\<rfloor>"
  define ff where "ff = \<lfloor>(1 - frameTokens l) / fps l * of_int second\<rfloor>"
  define wb where "wb = (if bytesPerSec l > 0 \<and> byteTokens l < of_int n then fb else 0)"
  define wf where "wf = (if fps l > 0 \<and> frameTokens l < 1 then ff else 0)"
  have wd: "wait_duration n l = (if max wb wf \<le> 0 then 1000000 else max wb wf)"
  proof -
    have "wait_duration n l = (let w = (if wf > wb then wf else wb) in if w \<le> 0 then 1000000 else w)"
      unfolding wait_duration_def wb_def wf_def fb_def ff_def by (simp only: Let_def)
    then show ?thesis by (auto simp: Let_def)
  qed
  have fb: "fb \<le> max 0 wb"
    using neg [of "of_int n - byteTokens l" "of_int (bytesPerSec l)"] assms(1)
    unfolding fb_def [symmetric] by (cases "byteTokens l < of_int n") (simp_all add: wb_def)
  have ff: "ff \<le> max 0 wf" if "0 < fps l"
    using neg [of "1 - frameTokens l" "fps l"] that
    unfolding ff_def [symmetric] by (cases "frameTokens l < 1") (simp_all add: wf_def)
  show "1 \<le> wait_duration n l" unfolding wd by auto
  show "\<lfloor>(of_int n - byteTokens l) / of_int (bytesPerSec l) * of_int second\<rfloor> \<le> wait_duration n l"
    using fb unfolding wd fb_def [symmetric] by (auto split: if_splits)
  show "\<lfloor>(1 - frameTokens l) / fps l * of_int second\<rfloor> \<le> wait_duration n l" if "0 < fps l"
    using ff [OF that] unfolding wd ff_def [symmetric] by (auto split: if_splits)
qed

lemma refill_later:
  assumes "lim_ok l" "frames_ok l" "n \<le> burstBytes l" "lastByteRefill l = t" "0 < fps l \<longrightarrow> lastFrameRefill l = t"
    "t + d \<le> t'" "0 \<le> d" "is_int64 (t' - t)"
  shows "(\<lfloor>(of_int n - byteTokens l) / of_int (bytesPerSec l) * of_int second\<rfloor> \<le> d \<and>
      (0 < fps l \<longrightarrow> \<lfloor>(1 - frameTokens l) / fps l * of_int second\<rfloor> \<le> d) \<longrightarrow> nearly n (refillLocked t' l)) \<and>
    (nearly n l \<and> 1 \<le> d \<longrightarrow> enough n (refillLocked t' l))"
proof -
  let ?b = "refill_bytes t' l"
  have bt: "byteTokens (refillLocked t' l) = min (of_int (burstBytes l)) (byteTokens l + seconds (t' - t) * of_int (bytesPerSec l))"
    using refill_bytes_level [of l t'] assms by (simp add: refillLocked_def)
  have rate: "bytesPerSec (refillLocked t' l) = bytesPerSec l" "fps (refillLocked t' l) = fps l"
    using refill_bytes_potential [OF assms(1), of t'] assms by (simp_all add: refillLocked_def)
  have ft: "frameTokens (refillLocked t' l) = min (burstFrames l) (frameTokens l + seconds (t' - t) * fps l)" if "0 < fps l"
    using refill_frames_level [of ?b t'] that assms by (simp add: refillLocked_def frames_ok_def)
  have r: "0 < (of_int (bytesPerSec l) :: rat)" "(of_int n :: rat) \<le> of_int (burstBytes l)"
    using assms(1,3) by (simp_all add: lim_ok_def)
  have dd: "d \<le> t' - t" using assms(6) by simp
  show ?thesis
  proof (intro conjI impI)
    assume a: "\<lfloor>(of_int n - byteTokens l) / of_int (bytesPerSec l) * of_int second\<rfloor> \<le> d \<and>
      (0 < fps l \<longrightarrow> \<lfloor>(1 - frameTokens l) / fps l * of_int second\<rfloor> \<le> d)"
    show "nearly n (refillLocked t' l)"
      using sleep_nearly [OF r, of "byteTokens l" "t' - t"] sleep_nearly [of "fps l" 1 "burstFrames l" "frameTokens l" "t' - t"]
        a dd assms(2) ft by (auto simp: nearly_def bt rate frames_ok_def)
  next
    assume a: "nearly n l \<and> 1 \<le> d"
    show "of_int n \<le> byteTokens (refillLocked t' l)"
      using sleep_fills [OF r, of "byteTokens l" "t' - t"] a dd by (simp add: nearly_def bt)
    show "fps (refillLocked t' l) \<le> 0 \<or> 1 \<le> frameTokens (refillLocked t' l)"
      using sleep_fills [of "fps l" 1 "burstFrames l" "frameTokens l" "t' - t"] a dd assms(2) ft
      by (cases "0 < fps l") (auto simp: nearly_def rate frames_ok_def)
  qed
qed


lemma wait_once_cases:
  assumes "lim_ok l" "n \<le> burstBytes l"
  shows "wait_once t n l =
    (if enough n (refillLocked t l) then (WaitDone, consume n (refillLocked t l))
     else (WaitSleep (wait_duration n (refillLocked t l)), refillLocked t l))"
proof -
  have "bytesPerSec (refillLocked t l) = bytesPerSec l"
    by (simp add: refillLocked_def refill_bytes_def Let_def)
  then show ?thesis using assms by (auto simp: wait_once_def Let_def lim_ok_def)
qed

text \<open>A waiting request is served: for a request within the burst capacity, while no one else
  takes tokens (\<open>Allow\<close> yields to a waiter) and the clock does not step back, \<open>Wait\<close> has its tokens
  by its third turn. The first sleep is the computed time cut to whole nanoseconds, which leaves less
  than a nanosecond's worth missing; the second turn's sleep, never less than a nanosecond, fills it.\<close>

theorem limiter_wait_succeeds:
  assumes "lim_ok l" "frames_ok l" "n \<le> burstBytes l" "lastByteRefill l \<le> t0" "lastFrameRefill l \<le> t0"
    "is_int64 (t0 - lastFrameRefill l)" "is_int64 (t1 - t0)" "is_int64 (t2 - t1)"
    "wait_once t0 n l = (WaitSleep w0, l0)" "t0 + w0 \<le> t1"
    "wait_once t1 n l0 = (WaitSleep w1, l1)" "t1 + w1 \<le> t2"
  shows "fst (wait_once t2 n l1) = WaitDone"
proof -
  have 0: "l0 = refillLocked t0 l" "w0 = wait_duration n l0"
    using assms(9) wait_once_cases [OF assms(1,3), of t0] by (auto split: if_splits)
  have s0: "waited t0 l l0" unfolding 0(1) by (rule refill_waited [OF assms(1,2,4,5,6)])
  then have l0: "lim_ok l0" "frames_ok l0" "n \<le> burstBytes l0" "lastByteRefill l0 = t0" "0 < fps l0 \<longrightarrow> lastFrameRefill l0 = t0"
    "0 < bytesPerSec l0" using assms(1,3) by (auto simp: waited_def lim_ok_def)
  have 1: "l1 = refillLocked t1 l0" "w1 = wait_duration n l1"
    using assms(11) wait_once_cases [OF l0(1,3), of t1] by (auto split: if_splits)
  have w0: "0 \<le> w0" using floor_le_wait(3) [OF l0(6), of n] 0(2) by simp
  have near: "nearly n l1"
    using refill_later [OF l0(1-5) assms(10) w0 assms(7)] floor_le_wait [OF l0(6), of n] unfolding 1(1) 0(2) by blast
  have t1: "t0 \<le> t1" using w0 assms(10) by simp
  have s1: "lim_ok l1" "lastByteRefill l1 = t1" "bytesPerSec l1 = bytesPerSec l0" "burstBytes l1 = burstBytes l0"
    using refill_bytes_potential [OF l0(1), of t1] l0(4) t1 by (simp_all add: 1(1) refillLocked_def lim_ok_def)
  have s1f: "frames_ok l1" "0 < fps l1 \<longrightarrow> lastFrameRefill l1 = t1"
  proof -
    have "frames_ok l1 \<and> (0 < fps l1 \<longrightarrow> lastFrameRefill l1 = t1)"
    proof (cases "0 < fps l0")
      case True
      then show ?thesis using refill_frames_level [of "refill_bytes t1 l0" t1] l0 t1 assms(7)
        by (simp add: 1(1) refillLocked_def frames_ok_def)
    next
      case False
      then show ?thesis by (simp add: 1(1) refillLocked_def frames_ok_def)
    qed
    then show "frames_ok l1" "0 < fps l1 \<longrightarrow> lastFrameRefill l1 = t1" by blast+
  qed
  have w1: "1 \<le> w1" using floor_le_wait(3) [of l1 n] s1(3) l0(6) 1(2) by simp
  have n1: "n \<le> burstBytes l1" using l0(3) s1(4) by simp
  have "enough n (refillLocked t2 l1)"
    using refill_later [OF s1(1) s1f(1) n1 s1(2) s1f(2) assms(12) _ assms(8)] near w1 by simp
  then show ?thesis using wait_once_cases [OF s1(1) n1, of t2] by simp
qed

theorem limiter_wait_witness:
  "let l = NewLimiter 0 3 10 0;
       l' = snd (Allow 0 10 l);
       r0 = wait_once 0 4 l';
       r1 = wait_once 1333333333 4 (snd r0)
   in fst r0 = WaitSleep 1333333333 \<and> fst r1 = WaitSleep 1000000 \<and>
      fst (wait_once 1334333333 4 (snd r1)) = WaitDone"
proof -
  let ?l = "snd (Allow 0 10 (NewLimiter 0 3 10 0))"
  let ?r0 = "wait_once 0 4 ?l" and ?r1 = "wait_once 1333333333 4 (snd (wait_once 0 4 ?l))"
  have 0: "fst ?r0 = WaitSleep 1333333333" by code_simp
  have 1: "fst ?r1 = WaitSleep 1000000" by code_simp
  have l: "lim_ok ?l" "frames_ok ?l" "4 \<le> burstBytes ?l" "lastByteRefill ?l = 0" "lastFrameRefill ?l = 0" by code_simp+
  have "fst (wait_once 1334333333 4 (snd ?r1)) = WaitDone"
    by (rule limiter_wait_succeeds [OF l(1-3), of 0 1333333333 1334333333 1333333333 "snd ?r0" 1000000])
      (use 0 1 l in \<open>auto simp: is_int64_def prod_eq_iff\<close>)
  with 0 1 show ?thesis by (simp add: Let_def)
qed


section \<open>The rolling rate counts the window\<close>

lemma bucket_of_eq: "0 < w \<Longrightarrow> 0 \<le> sec \<Longrightarrow> bucket_of sec w = nat (sec mod int w)"
proof -
  assume "0 < w" "0 \<le> sec"
  moreover have "\<not> sec mod int w < 0" using \<open>0 < w\<close> by (simp add: not_less)
  ultimately show ?thesis by (simp add: bucket_of_def Let_def)
qed

lemma bucket_of_less: "0 < w \<Longrightarrow> 0 \<le> sec \<Longrightarrow> bucket_of sec w < w"
  by (simp add: bucket_of_eq nat_less_iff)

text \<open>The uploads recorded so far, as (second, bytes).\<close>

definition bucket_sum :: "(int \<times> int \<Rightarrow> int) \<Rightarrow> nat \<Rightarrow> (int \<times> int) list \<Rightarrow> nat \<Rightarrow> int \<Rightarrow> int" where
  "bucket_sum g w rs i s = sum_list (map (\<lambda>r. if bucket_of (fst r) w = i \<and> fst r = s then g r else 0) rs)"

definition rate_inv :: "(int \<times> int) list \<Rightarrow> effective_rate \<Rightarrow> bool" where
  "rate_inv rs r \<longleftrightarrow> 0 < windowS r \<and> length (er_bytes r) = windowS r \<and> length (er_frames r) = windowS r \<and>
     length (bucketS r) = windowS r \<and>
     (\<forall>i < windowS r. er_bytes r ! i = bucket_sum snd (windowS r) rs i (bucketS r ! i) \<and>
        er_frames r ! i = bucket_sum (\<lambda>_. 1) (windowS r) rs i (bucketS r ! i) \<and>
        (bucketS r ! i = 0 \<or> (\<exists>x \<in> set rs. fst x = bucketS r ! i \<and> bucket_of (fst x) (windowS r) = i))) \<and>
     (\<forall>x \<in> set rs. fst x \<le> bucketS r ! bucket_of (fst x) (windowS r))"

lemma bucket_sum_snoc:
  "bucket_sum g w (rs @ [x]) i s = bucket_sum g w rs i s + (if bucket_of (fst x) w = i \<and> fst x = s then g x else 0)"
  by (simp add: bucket_sum_def)

lemma bucket_sum_new: "(\<forall>x \<in> set rs. bucket_of (fst x) w = i \<longrightarrow> fst x < s) \<Longrightarrow> bucket_sum g w rs i s = 0"
  by (induction rs) (auto simp: bucket_sum_def)

lemma rate_inv_record:
  assumes inv: "rate_inv rs r" and nn: "0 \<le> sec" and late: "\<forall>x \<in> set rs. 0 \<le> fst x \<and> fst x \<le> sec"
  shows "rate_inv (rs @ [(sec, n)]) (rate_record n sec r)"
proof -
  let ?w = "windowS r"
  define i where "i = bucket_of sec ?w"
  have w: "0 < ?w" using inv by (simp add: rate_inv_def)
  have i: "i < ?w" using bucket_of_less [OF w nn] by (simp add: i_def)
  have "bucketS r ! i = 0 \<or> (\<exists>x \<in> set rs. fst x = bucketS r ! i \<and> bucket_of (fst x) ?w = i)"
    using inv i unfolding rate_inv_def by blast
  then have bi: "bucketS r ! i \<le> sec" using late nn by force
  have old: "bucket_sum g ?w rs i sec = 0" if "bucketS r ! i \<noteq> sec" for g
  proof (rule bucket_sum_new, intro ballI impI)
    fix x assume x: "x \<in> set rs" "bucket_of (fst x) ?w = i"
    then have "fst x \<le> bucketS r ! i" using inv by (auto simp: rate_inv_def)
    then show "fst x < sec" using that bi by simp
  qed
  have rec: "windowS (rate_record n sec r) = ?w" "bucketS (rate_record n sec r) = (bucketS r)[i := sec]"
    "er_bytes (rate_record n sec r) = (er_bytes r)[i := (if bucketS r ! i \<noteq> sec then 0 else er_bytes r ! i) + n]"
    "er_frames (rate_record n sec r) = (er_frames r)[i := (if bucketS r ! i \<noteq> sec then 0 else er_frames r ! i) + 1]"
    using inv i by (auto simp: rate_record_def Let_def i_def [symmetric] rate_inv_def)
  show ?thesis
    unfolding rate_inv_def rec
  proof (intro conjI allI impI ballI)
    fix j assume j: "j < ?w"
    show "(er_bytes r)[i := (if bucketS r ! i \<noteq> sec then 0 else er_bytes r ! i) + n] ! j =
        bucket_sum snd ?w (rs @ [(sec, n)]) j ((bucketS r)[i := sec] ! j)"
      using inv i j old [of snd] by (cases "j = i") (auto simp: rate_inv_def bucket_sum_snoc i_def [symmetric])
    show "(er_frames r)[i := (if bucketS r ! i \<noteq> sec then 0 else er_frames r ! i) + 1] ! j =
        bucket_sum (\<lambda>_. 1) ?w (rs @ [(sec, n)]) j ((bucketS r)[i := sec] ! j)"
      using inv i j old [of "\<lambda>_. 1"] by (cases "j = i") (auto simp: rate_inv_def bucket_sum_snoc i_def [symmetric])
    show "(bucketS r)[i := sec] ! j = 0 \<or>
        (\<exists>x \<in> set (rs @ [(sec, n)]). fst x = (bucketS r)[i := sec] ! j \<and> bucket_of (fst x) ?w = j)"
      using inv i j by (cases "j = i") (auto simp: rate_inv_def i_def)
  next
    fix x assume "x \<in> set (rs @ [(sec, n)])"
    then show "fst x \<le> (bucketS r)[i := sec] ! bucket_of (fst x) ?w"
      using inv i late by (cases "bucket_of (fst x) ?w = i") (auto simp: rate_inv_def i_def)
  qed (use inv in \<open>simp_all add: rate_inv_def\<close>)
qed


lemma sum_sum_list: "(\<Sum>i<w. sum_list (map (f i) rs)) = sum_list (map (\<lambda>r. \<Sum>i<w. (f i r :: int)) rs)"
  by (induction rs) (simp_all add: sum.distrib)

lemma in_window_unique:
  assumes "in_window now w a" "in_window now w b" "a mod int w = b mod int w"
  shows "a = b"
proof -
  have "int w dvd a - b" using assms(3) by (simp add: mod_eq_dvd_iff)
  moreover have "\<bar>a - b\<bar> < int w" using assms(1,2) by (auto simp: in_window_def)
  ultimately have "a - b = 0" using dvd_imp_le_int [of "a - b" "int w"] by fastforce
  then show ?thesis by simp
qed

lemma if_same_point: "(P a \<Longrightarrow> a = b) \<Longrightarrow> (if P b \<and> a = b then g else z) = (if P a then g else z)"
  by (cases "P a") (simp, metis)

lemma window_total_sum:
  assumes inv: "rate_inv rs r" and rs: "\<forall>x \<in> set rs. 0 \<le> fst x \<and> fst x \<le> now" and nn: "0 \<le> now"
    and xs: "\<forall>i < windowS r. xs ! i = bucket_sum g (windowS r) rs i (bucketS r ! i)"
  shows "window_total xs now r = sum_list (map (\<lambda>x. if in_window now (windowS r) (fst x) then g x else 0) rs)"
proof -
  let ?w = "windowS r" and ?s = "\<lambda>i. bucketS r ! i"
  have w: "0 < ?w" using inv by (simp add: rate_inv_def)
  let ?f = "\<lambda>i x. if in_window now ?w (?s i) \<and> bucket_of (fst x) ?w = i \<and> fst x = ?s i then g x else 0"
  have one: "(\<Sum>i<?w. ?f i x) = (if in_window now ?w (fst x) then g x else 0)" if x: "x \<in> set rs" for x
  proof -
    define j where "j = bucket_of (fst x) ?w"
    have j: "j < ?w" using bucket_of_less [OF w] rs x by (simp add: j_def)
    have "(\<Sum>i<?w. ?f i x) = (\<Sum>i<?w. if i = j then (if in_window now ?w (?s j) \<and> fst x = ?s j then g x else 0) else 0)"
      by (rule sum.cong) (auto simp: j_def)
    also have "\<dots> = (if in_window now ?w (?s j) \<and> fst x = ?s j then g x else 0)" using j by simp
    also have "\<dots> = (if in_window now ?w (fst x) then g x else 0)"
    proof -
      have "fst x = ?s j" if win: "in_window now ?w (fst x)"
      proof (cases "?s j = 0")
        case True
        then show ?thesis using inv rs x by (fastforce simp: rate_inv_def j_def)
      next
        case False
        then obtain y where y: "y \<in> set rs" "fst y = ?s j" "bucket_of (fst y) ?w = j"
          using inv j unfolding rate_inv_def by blast
        have "fst x \<le> ?s j" using inv x unfolding rate_inv_def j_def by blast
        then have "in_window now ?w (?s j)" using win rs y by (auto simp: in_window_def)
        moreover have "fst x mod int ?w = ?s j mod int ?w"
        proof -
          have "0 \<le> fst x" "0 \<le> fst y" using rs x y(1) by auto
          then have "nat (fst x mod int ?w) = j" "nat (fst y mod int ?w) = j"
            using y(3) bucket_of_eq [OF w] unfolding j_def by metis+
          then have "nat (fst x mod int ?w) = nat (fst y mod int ?w)" by simp
          then have "fst x mod int ?w = fst y mod int ?w" using w by (simp add: nat_eq_iff)
          then show ?thesis using y(2) by simp
        qed
        ultimately show ?thesis using in_window_unique [OF win] by blast
      qed
      then show ?thesis by (rule if_same_point)
    qed
    finally show ?thesis .
  qed
  have "window_total xs now r = (\<Sum>i<?w. sum_list (map (?f i) rs))"
    unfolding window_total_def
  proof (rule sum.cong [OF refl])
    fix i assume "i \<in> {..<?w}"
    then have "xs ! i = bucket_sum g ?w rs i (?s i)" using xs by simp
    then show "(if in_window now ?w (?s i) then xs ! i else 0) = sum_list (map (?f i) rs)"
      by (cases "in_window now ?w (?s i)") (simp_all add: bucket_sum_def)
  qed
  also have "\<dots> = sum_list (map (\<lambda>x. \<Sum>i<?w. ?f i x) rs)" by (rule sum_sum_list)
  also have "\<dots> = sum_list (map (\<lambda>x. if in_window now ?w (fst x) then g x else 0) rs)"
    using one by (intro arg_cong [where f = sum_list] map_cong) auto
  finally show ?thesis .
qed

definition record_all :: "(int \<times> int) list \<Rightarrow> effective_rate \<Rightarrow> effective_rate" where
  "record_all rs r = fold (\<lambda>(sec, n). rate_record n sec) rs r"

lemma rate_inv_all:
  assumes "rate_inv [] r" "sorted (map fst rs)" "\<forall>x \<in> set rs. 0 \<le> fst x"
  shows "rate_inv rs (record_all rs r) \<and> windowS (record_all rs r) = windowS r"
  using assms
proof (induction rs rule: rev_induct)
  case Nil
  then show ?case by (simp add: record_all_def)
next
  case (snoc x rs)
  obtain sec n where x: "x = (sec, n)" by fastforce
  have IH: "rate_inv rs (record_all rs r)" "windowS (record_all rs r) = windowS r"
    using snoc by (auto simp: sorted_append)
  have "record_all (rs @ [x]) r = rate_record n sec (record_all rs r)" by (simp add: record_all_def x)
  moreover have "rate_inv (rs @ [(sec, n)]) (rate_record n sec (record_all rs r))"
    using snoc.prems x by (intro rate_inv_record [OF IH(1)]) (auto simp: sorted_append)
  moreover have "windowS (rate_record n sec q) = windowS q" for q by (simp add: rate_record_def Let_def)
  ultimately show ?case using IH(2) x by simp
qed

text \<open>The rolling rate is right: after uploads recorded at seconds that do not go back, in memory
  fixed by the window, \<open>rate\<close> reports exactly the bytes and the number of uploads whose second lies
  in the window that ends now, divided by the window. In particular it is zero once a whole window
  has passed without an upload.\<close>

theorem effective_rate_exact:
  fixes window :: duration
  assumes "sorted (map fst rs)" "\<forall>x \<in> set rs. 0 \<le> fst x \<and> fst x \<le> now" "0 \<le> now"
  defines "w \<equiv> windowS (newEffectiveRate window)"
  shows "rate now (record_all rs (newEffectiveRate window)) =
    (of_int (sum_list (map snd (filter (\<lambda>x. in_window now w (fst x)) rs))) / of_nat w,
     of_nat (length (filter (\<lambda>x. in_window now w (fst x)) rs)) / of_nat w)"
proof -
  let ?r = "record_all rs (newEffectiveRate window)"
  have "rate_inv [] (newEffectiveRate window)"
    by (auto simp: rate_inv_def newEffectiveRate_def Let_def bucket_sum_def)
  from rate_inv_all [OF this assms(1)] assms(2) have inv: "rate_inv rs ?r" and w: "windowS ?r = w" by (simp_all add: w_def)
  have b: "window_total (er_bytes ?r) now ?r = sum_list (map (\<lambda>x. if in_window now w (fst x) then snd x else 0) rs)"
    using window_total_sum [OF inv assms(2,3), of "er_bytes ?r" snd] inv w by (simp add: rate_inv_def)
  have f: "window_total (er_frames ?r) now ?r = sum_list (map (\<lambda>x. if in_window now w (fst x) then 1 else 0) rs)"
    using window_total_sum [OF inv assms(2,3), of "er_frames ?r" "\<lambda>_. 1"] inv w by (simp add: rate_inv_def)
  have 1: "sum_list (map (\<lambda>x. if P x then g x else 0) rs) = sum_list (map g (filter P rs))" for P and g :: "int \<times> int \<Rightarrow> int"
    by (induction rs) auto
  have 2: "sum_list (map (\<lambda>x. if P x then 1 else (0 :: int)) rs) = int (length (filter P rs))" for P
    by (induction rs) auto
  show ?thesis unfolding rate_def b f 2 w by (simp add: 1)
qed

theorem effective_rate_witness:
  "rate 12 (record_all [(1, 500), (5, 100), (5, 200), (12, 50)] (newEffectiveRate (10 * second))) = (35, 3 / 10)"
proof -
  have "windowS (newEffectiveRate (10 * second)) = 10" by (simp add: newEffectiveRate_def Let_def second_def)
  with effective_rate_exact [of "[(1, 500), (5, 100), (5, 200), (12, 50)]" 12 "10 * second"]
  show ?thesis by (simp add: in_window_def)
qed

end
