(* ===== verification/Inference.thy ===== *)
theory Inference
  imports Edge_Prelude Complex_Main "HOL-Library.List_Lexorder" "HOL-Library.Char_ord"
begin

text \<open>
  Package \<open>inference\<close>: how much of the local vision worker each camera gets. A \<open>Controller\<close> per camera
  (\<open>controller.go\<close>) states what the camera wants, \<open>capacity.go\<close> measures the worker and divides its
  capacity, and the \<open>Manager\<close> (\<open>manager.go\<close>) runs both once per tick and sets the samplers.
  Frame rates are \<open>float64\<close> in the source and exact rationals here, so that no statement depends on
  rounding; rates come from JSON or from constants and are never NaN. A Go map that is only read
  with a default is a function with that default; the maps of the Manager are association lists.
  The \<open>Video\<close> interface and the measurements enter a tick as its arguments, the calls the tick
  makes on \<open>Video\<close> are part of its result.
\<close>

named_theorems inference_defs \<open>constants and small definitions of package inference\<close>

section \<open>Policies\<close>

definition ModeFixed :: string where "ModeFixed = ''fixed''"
definition ModeAdaptive :: string where "ModeAdaptive = ''adaptive''"

definition PriorityLow :: string where "PriorityLow = ''low''"
definition PriorityNormal :: string where "PriorityNormal = ''normal''"
definition PriorityHigh :: string where "PriorityHigh = ''high''"

definition priorityWeight :: "string \<Rightarrow> rat" where
  "priorityWeight p = (if p = PriorityLow then 1 else if p = PriorityHigh then 4 else 2)"

definition DefaultIdleFPS :: rat where "DefaultIdleFPS = 2"
definition DefaultActiveFPS :: rat where "DefaultActiveFPS = 10"
definition DefaultMaxFPS :: rat where "DefaultMaxFPS = 15"
definition DefaultIdleTimeout :: duration where "DefaultIdleTimeout = 10 * second"

text \<open>The package constants \<open>MinFPS\<close> and \<open>MaxFPS\<close>, which bound every rate.\<close>

definition contract_MinFPS :: rat where "contract_MinFPS = 1 / 10"
definition contract_MaxFPS :: rat where "contract_MaxFPS = 30"

definition rampStep :: duration where "rampStep = second"
definition rampFraction :: rat where "rampFraction = 1 / 4"

record camera_config =
  Mode :: string
  TargetFPS :: rat
  IdleFPS :: rat
  ActiveFPS :: rat
  MaxFPS :: rat
  MotionSensitivity :: string
  IdleTimeout :: duration
  Priority :: string

text \<open>The zero value \<open>CameraConfig{}\<close>.\<close>

definition zero_camera_config :: camera_config where
  "zero_camera_config =
     \<lparr>Mode = [], TargetFPS = 0, IdleFPS = 0, ActiveFPS = 0, MaxFPS = 0,
      MotionSensitivity = [], IdleTimeout = 0, Priority = []\<rparr>"

definition WithDefaults :: "rat \<Rightarrow> camera_config \<Rightarrow> camera_config" where
  "WithDefaults globalTarget c =
     (let active = (if ActiveFPS c \<le> 0 then DefaultActiveFPS else ActiveFPS c)
      in \<lparr>Mode = (if Mode c = [] then ModeFixed else Mode c),
          TargetFPS = (if TargetFPS c \<le> 0 then globalTarget else TargetFPS c),
          IdleFPS = (if IdleFPS c \<le> 0 then DefaultIdleFPS else IdleFPS c),
          ActiveFPS = active,
          MaxFPS = (if MaxFPS c \<le> 0 then max DefaultMaxFPS active else MaxFPS c),
          MotionSensitivity =
            (if MotionSensitivity c = [] then ''medium'' else MotionSensitivity c),
          IdleTimeout = (if IdleTimeout c \<le> 0 then DefaultIdleTimeout else IdleTimeout c),
          Priority = (if Priority c = [] then PriorityNormal else Priority c)\<rparr>)"

datatype inference_error =
    Bad_Mode string
  | Rate_Out_Of_Range string rat
  | Rates_Not_Ordered rat rat rat
  | Bad_Sensitivity string
  | Bad_Idle_Timeout duration
  | Bad_Priority string

definition rate_in_range :: "rat \<Rightarrow> bool" where
  "rate_in_range v \<longleftrightarrow> \<not> (v < contract_MinFPS \<or> v > contract_MaxFPS)"

text \<open>\<open>Validate\<close> ranges over a Go map of the four rates, in an unspecified order; the order only
  decides which out-of-range rate the message names. The model checks them in the order written.\<close>

definition check_rates :: "(string \<times> rat) list \<Rightarrow> inference_error option" where
  "check_rates vs =
     (case find (\<lambda>(_, v). \<not> rate_in_range v) vs of
        Some (name, v) \<Rightarrow> Some (Rate_Out_Of_Range name v)
      | None \<Rightarrow> None)"

definition CameraConfig_Validate :: "camera_config \<Rightarrow> inference_error option" where
  "CameraConfig_Validate c =
     (if Mode c \<noteq> ModeFixed \<and> Mode c \<noteq> ModeAdaptive then Some (Bad_Mode (Mode c))
      else case check_rates [(''target_fps'', TargetFPS c), (''idle_fps'', IdleFPS c),
                             (''active_fps'', ActiveFPS c), (''max_fps'', MaxFPS c)] of
        Some e \<Rightarrow> Some e
      | None \<Rightarrow>
          if Mode c = ModeAdaptive \<and> \<not> (IdleFPS c \<le> ActiveFPS c \<and> ActiveFPS c \<le> MaxFPS c)
          then Some (Rates_Not_Ordered (IdleFPS c) (ActiveFPS c) (MaxFPS c))
          else if MotionSensitivity c \<notin> {''low'', ''medium'', ''high''}
          then Some (Bad_Sensitivity (MotionSensitivity c))
          else if IdleTimeout c < second \<or> IdleTimeout c > 10 * 60 * second
          then Some (Bad_Idle_Timeout (IdleTimeout c))
          else if Priority c \<notin> {PriorityLow, PriorityNormal, PriorityHigh}
          then Some (Bad_Priority (Priority c))
          else None)"

text \<open>\<open>mergeDefault\<close> of \<open>manager.go\<close>: a set field of the override wins.\<close>

definition mergeDefault :: "camera_config \<Rightarrow> camera_config \<Rightarrow> camera_config" where
  "mergeDefault def ov =
     \<lparr>Mode = (if Mode ov \<noteq> [] then Mode ov else Mode def),
      TargetFPS = (if TargetFPS ov > 0 then TargetFPS ov else TargetFPS def),
      IdleFPS = (if IdleFPS ov > 0 then IdleFPS ov else IdleFPS def),
      ActiveFPS = (if ActiveFPS ov > 0 then ActiveFPS ov else ActiveFPS def),
      MaxFPS = (if MaxFPS ov > 0 then MaxFPS ov else MaxFPS def),
      MotionSensitivity =
        (if MotionSensitivity ov \<noteq> [] then MotionSensitivity ov else MotionSensitivity def),
      IdleTimeout = (if IdleTimeout ov > 0 then IdleTimeout ov else IdleTimeout def),
      Priority = (if Priority ov \<noteq> [] then Priority ov else Priority def)\<rparr>"

section \<open>The controller of one camera\<close>

text \<open>The controller's \<open>state\<close> string; \<open>Unset\<close> is the empty string of a new \<open>Controller\<close>.\<close>

datatype ctrl_state = Unset | StateFixed | StateIdle | StateActive | StateCooldown

record controller =
  cfg :: camera_config
  ctl :: ctrl_state
  lastMotion :: gotime
  rampAt :: gotime
  want :: rat

definition Configure :: "camera_config \<Rightarrow> controller \<Rightarrow> controller" where
  "Configure c k =
     (let k = k\<lparr>cfg := c\<rparr>
      in if Mode c = ModeFixed then k\<lparr>ctl := StateFixed, want := TargetFPS c\<rparr>
         else let k = (if ctl k = StateFixed \<or> ctl k = Unset
                       then k\<lparr>ctl := StateIdle, want := IdleFPS c\<rparr> else k)
              in k\<lparr>want := min (max (want k) (IdleFPS c)) (MaxFPS c)\<rparr>)"

definition NewController :: "camera_config \<Rightarrow> controller" where
  "NewController c =
     Configure c \<lparr>cfg = zero_camera_config, ctl = Unset, lastMotion = zero_time,
                  rampAt = zero_time, want = 0\<rparr>"

definition stepDown :: "controller \<Rightarrow> controller" where
  "stepDown k =
     (let w = want k - rampFraction * (ActiveFPS (cfg k) - IdleFPS (cfg k))
      in if w \<le> IdleFPS (cfg k) + 1 / 10 ^ 9
         then k\<lparr>want := IdleFPS (cfg k), ctl := StateIdle\<rparr>
         else k\<lparr>want := w\<rparr>)"

definition Controller_Update :: "gotime \<Rightarrow> bool \<Rightarrow> controller \<Rightarrow> rat \<times> controller" where
  "Controller_Update now motion k =
     (let k' =
        (if Mode (cfg k) = ModeFixed then k\<lparr>ctl := StateFixed, want := TargetFPS (cfg k)\<rparr>
         else if motion
         then k\<lparr>lastMotion := now, ctl := StateActive, want := ActiveFPS (cfg k)\<rparr>
         else case ctl k of
           StateActive \<Rightarrow>
             (if time_sub now (lastMotion k) \<ge> IdleTimeout (cfg k)
              then stepDown (k\<lparr>ctl := StateCooldown, rampAt := now\<rparr>) else k)
         | StateCooldown \<Rightarrow>
             (if time_sub now (rampAt k) \<ge> rampStep then stepDown (k\<lparr>rampAt := now\<rparr>) else k)
         | _ \<Rightarrow> k)
      in (want k', k'))"

definition Controller_Min :: "controller \<Rightarrow> rat" where
  "Controller_Min k = (if Mode (cfg k) = ModeFixed then TargetFPS (cfg k) else IdleFPS (cfg k))"

definition Ceiling :: "controller \<Rightarrow> rat" where
  "Ceiling k = (if Mode (cfg k) = ModeFixed then contract_MaxFPS else MaxFPS (cfg k))"

section \<open>Measuring and dividing capacity\<close>

record measured =
  EffectiveFPS :: rat
  LatencyMS :: rat
  Samples :: int
  Dropped :: int

definition zero_measured :: measured where
  "zero_measured = \<lparr>EffectiveFPS = 0, LatencyMS = 0, Samples = 0, Dropped = 0\<rparr>"

datatype capacity_source = Unmeasured | Measured_Latency

record device_status =
  CapacityFPS :: rat
  CapacitySource :: capacity_source
  ReserveFraction :: rat
  AvailableFPS :: rat
  dev_AllocatedFPS :: rat
  MeasuredThroughput :: rat
  Utilization :: rat
  HeadroomFPS :: rat
  Saturated :: bool
  ActiveCameras :: nat
  OverloadedCameras :: nat
  Cameras :: nat

definition minLatencySamples :: int where "minLatencySamples = 10"

text \<open>A camera's figures count when it has run, has a latency and enough samples.\<close>

definition latency_counts :: "measured \<Rightarrow> bool" where
  "latency_counts mm \<longleftrightarrow>
     LatencyMS mm > 0 \<and> EffectiveFPS mm > 0 \<and> Samples mm \<ge> minLatencySamples"

definition measureDevice :: "(string \<times> measured) list \<Rightarrow> rat \<Rightarrow> device_status" where
  "measureDevice ms reserve =
     (let counted = filter latency_counts (map snd ms);
          latSum = sum_list (map (\<lambda>mm. LatencyMS mm * EffectiveFPS mm) counted);
          weight = sum_list (map EffectiveFPS counted);
          busy = sum_list (map (\<lambda>mm. EffectiveFPS mm * LatencyMS mm / 1000) counted);
          dev = \<lparr>CapacityFPS = 0, CapacitySource = Unmeasured, ReserveFraction = reserve,
                 AvailableFPS = 0, dev_AllocatedFPS = 0,
                 MeasuredThroughput = sum_list (map (EffectiveFPS \<circ> snd) ms),
                 Utilization = 0, HeadroomFPS = 0, Saturated = False, ActiveCameras = 0,
                 OverloadedCameras = 0, Cameras = 0\<rparr>
      in if weight > 0
         then let capacity = 1000 / (latSum / weight)
              in dev\<lparr>CapacityFPS := capacity, CapacitySource := Measured_Latency,
                     AvailableFPS := capacity * (1 - reserve), Utilization := min busy 1\<rparr>
         else dev)"

record demand =
  key :: string
  dmin :: rat
  dwant :: rat
  weight :: rat

text \<open>One pass of \<open>waterFill\<close>'s inner loop: what was spent, the demands still open, and the grants.\<close>

fun fill_round ::
    "rat \<Rightarrow> rat \<Rightarrow> demand list \<Rightarrow> (string \<Rightarrow> rat) \<Rightarrow> rat \<times> demand list \<times> (string \<Rightarrow> rat)" where
  "fill_round budget w [] out = (0, [], out)"
| "fill_round budget w (d # ds) out =
     (let share = budget * weight d / w;
          need = dwant d - out (key d)
      in if share \<ge> need
         then let (spent, nxt, out') = fill_round budget w ds (out(key d := out (key d) + need))
              in (need + spent, nxt, out')
         else let (spent, nxt, out') = fill_round budget w ds (out(key d := out (key d) + share))
              in (share + spent, d # nxt, out'))"

lemma length_fill_round: "fill_round b w ds out = (s, nxt, out') \<Longrightarrow> length nxt \<le> length ds"
proof (induction b w ds out arbitrary: s nxt out' rule: fill_round.induct)
  case (1 b w out)
  then show ?case by simp
next
  case (2 b w d ds out)
  then show ?case by (fastforce simp: Let_def le_SucI split: if_splits prod.splits)
qed

text \<open>The outer loop of \<open>waterFill\<close>; it ends because a pass that settles no demand is the last.\<close>

function fill_loop :: "demand list \<Rightarrow> rat \<Rightarrow> (string \<Rightarrow> rat) \<Rightarrow> string \<Rightarrow> rat" where
  "fill_loop opn budget out =
     (if budget > 1 / 10 ^ 9 \<and> opn \<noteq> []
      then let w = sum_list (map weight opn);
               (spent, nxt, out') = fill_round budget w opn out
           in if length nxt = length opn then out' else fill_loop nxt (budget - spent) out'
      else out)"
  by pat_completeness auto
termination
  by (relation "measure (\<lambda>(opn, _, _). length opn)")
    (auto dest!: sym [of "(_, _, _)"] length_fill_round)

declare fill_loop.simps [simp del]

definition waterFill :: "demand list \<Rightarrow> rat \<Rightarrow> string \<Rightarrow> rat" where
  "waterFill ds budget = fill_loop ds budget (\<lambda>_. 0)"

datatype reason = No_Reason | Min_Demand_Exceeds_Capacity | Capacity_Limited

definition allocate ::
    "demand list \<Rightarrow> rat \<Rightarrow> bool \<Rightarrow> (string \<Rightarrow> rat) \<times> (string \<Rightarrow> reason)" where
  "allocate ds available meas =
     (if \<not> meas
      then (foldl (\<lambda>m d. m(key d := dwant d)) (\<lambda>_. 0) ds, \<lambda>_. No_Reason)
      else let minSum = sum_list (map dmin ds)
      in if minSum > available
         then let got = waterFill (map (\<lambda>d. d\<lparr>dmin := 0, dwant := dmin d\<rparr>) ds) available
              in foldl (\<lambda>(al, rs) d.
                   let a = max contract_MinFPS (got (key d))
                   in (al(key d := a),
                       if a < dmin d - 1 / 100
                       then rs(key d := Min_Demand_Exceeds_Capacity)
                       else if dwant d > dmin d + 1 / 100 then rs(key d := Capacity_Limited)
                       else rs)) (\<lambda>_. 0, \<lambda>_. No_Reason) ds
         else let got = waterFill (map (\<lambda>d. d\<lparr>dmin := 0, dwant := dwant d - dmin d\<rparr>) ds)
                                  (available - minSum)
              in foldl (\<lambda>(al, rs) d.
                   let a = dmin d + got (key d)
                   in (al(key d := a),
                       if a < dwant d - 1 / 100 then rs(key d := Capacity_Limited) else rs))
                   (\<lambda>_. 0, \<lambda>_. No_Reason) ds)"

section \<open>The Manager\<close>

record camera_status =
  cs_Mode :: string
  ControllerState :: ctrl_state
  MotionState :: string
  cs_Priority :: string
  cs_MinFPS :: rat
  RequestedFPS :: rat
  BurstFPS :: rat
  AllocatedFPS :: rat
  cs_EffectiveFPS :: rat
  cs_LatencyMS :: rat
  cs_Dropped :: int
  SaturationReason :: reason

definition zero_camera_status :: camera_status where
  "zero_camera_status =
     \<lparr>cs_Mode = [], ControllerState = Unset, MotionState = [], cs_Priority = [], cs_MinFPS = 0,
      RequestedFPS = 0, BurstFPS = 0, AllocatedFPS = 0, cs_EffectiveFPS = 0, cs_LatencyMS = 0,
      cs_Dropped = 0, SaturationReason = No_Reason\<rparr>"

record inference_status =
  Device :: device_status
  cam_status :: "(string \<times> camera_status) list"

record options =
  GlobalTargetFPS :: rat
  Default :: camera_config
  Reserve :: rat

record manager =
  opt :: options
  global :: rat
  overrides :: "(string \<times> camera_config) list"
  ctrls :: "(string \<times> controller) list"
  sens :: "(string \<times> string) list"
  bursts :: "(string \<times> rat) list"
  status :: "inference_status option"

text \<open>Reading a Go map: the zero value when the key is absent.\<close>

definition get_or :: "'v \<Rightarrow> ('k \<times> 'v) list \<Rightarrow> 'k \<Rightarrow> 'v" where
  "get_or z m k = (case map_of m k of Some v \<Rightarrow> v | None \<Rightarrow> z)"

definition NewManager :: "options \<Rightarrow> manager" where
  "NewManager op =
     (let op = (if Reserve op < 0 \<or> Reserve op > 9 / 10 then op\<lparr>Reserve := 15 / 100\<rparr> else op)
      in \<lparr>opt = op, global = GlobalTargetFPS op, overrides = [], ctrls = [], sens = [],
          bursts = [], status = None\<rparr>)"

definition configForLocked :: "manager \<Rightarrow> string \<Rightarrow> camera_config" where
  "configForLocked m k =
     WithDefaults (global m)
       (mergeDefault (Default (opt m)) (get_or zero_camera_config (overrides m) k))"

text \<open>\<open>for key, c := range m.ctrls { c.Configure(m.configForLocked(key)) }\<close>.\<close>

definition reconfigure_all :: "manager \<Rightarrow> manager" where
  "reconfigure_all m =
     m\<lparr>ctrls := map (\<lambda>(k, c). (k, Configure (configForLocked m k) c)) (ctrls m)\<rparr>"

definition SetGlobalTargetFPS :: "rat \<Rightarrow> manager \<Rightarrow> manager" where
  "SetGlobalTargetFPS fps m = reconfigure_all (m\<lparr>global := fps\<rparr>)"

definition SetCameraConfig ::
    "string \<Rightarrow> camera_config option \<Rightarrow> manager \<Rightarrow> inference_error option \<times> manager" where
  "SetCameraConfig k c m =
     (let finish = (\<lambda>m. case map_of (ctrls m) k of
            Some ct \<Rightarrow> m\<lparr>ctrls := AList.update k (Configure (configForLocked m k) ct) (ctrls m)\<rparr>
          | None \<Rightarrow> m)
      in case c of
        None \<Rightarrow> (None, finish (m\<lparr>overrides := AList.delete k (overrides m)\<rparr>))
      | Some cc \<Rightarrow>
          (case CameraConfig_Validate (WithDefaults (global m) cc) of
             Some e \<Rightarrow> (Some e, m)
           | None \<Rightarrow> (None, finish (m\<lparr>overrides := AList.update k cc (overrides m)\<rparr>))))"

definition ApplyRemote ::
    "rat option \<Rightarrow> (string \<times> camera_config) list \<Rightarrow> manager \<Rightarrow>
     (string \<times> inference_error) option \<times> manager" where
  "ApplyRemote gl cams m =
     (let g = (case gl of Some x \<Rightarrow> x | None \<Rightarrow> global m);
          bad = List.map_filter (\<lambda>(k, c).
            map_option (Pair k)
              (CameraConfig_Validate (WithDefaults g (mergeDefault (Default (opt m)) c)))) cams
      in case bad of
        e # _ \<Rightarrow> (Some e, m)
      | [] \<Rightarrow> (None, reconfigure_all (m\<lparr>global := g, overrides := cams\<rparr>)))"

definition SetCameraTargetFPS ::
    "string \<Rightarrow> rat \<Rightarrow> manager \<Rightarrow> inference_error option \<times> manager" where
  "SetCameraTargetFPS k fps m =
     SetCameraConfig k (Some ((get_or zero_camera_config (overrides m) k)\<lparr>TargetFPS := fps\<rparr>)) m"

definition SetBurstFPS :: "string \<Rightarrow> rat \<Rightarrow> manager \<Rightarrow> manager" where
  "SetBurstFPS k fps m =
     (if fps \<le> 0 then m\<lparr>bursts := AList.delete k (bursts m)\<rparr>
      else m\<lparr>bursts := AList.update k fps (bursts m)\<rparr>)"

text \<open>What a tick reads from outside: the clock, the keys of the running pipelines, each camera's
  motion state and sampler rate, and the measurements of the scheduler (\<open>None\<close> when \<open>opt.Measure\<close>
  is nil; reading a nil map is the same as reading an empty one).\<close>

record tick_input =
  active :: bool
  tick_now :: gotime
  CandidateKeys :: "string list"
  motion_of :: "string \<Rightarrow> string"
  CurrentTargetFPS :: "string \<Rightarrow> rat option"
  Measure :: "(string \<times> measured) list"

text \<open>The calls a tick makes on \<open>Video\<close>.\<close>

datatype video_call = Call_SetMotionSensitivity string string | Call_SetTargetFPS string rat

record tick_acc =
  acc_m :: manager
  demands :: "demand list"
  cams :: "(string \<times> camera_status) list"
  sensChanges :: "video_call list"

text \<open>The body of the first loop of \<open>Tick\<close>, for one key.\<close>

definition tick_camera :: "tick_input \<Rightarrow> string \<Rightarrow> tick_acc \<Rightarrow> tick_acc" where
  "tick_camera i k a =
     (let m = acc_m a;
          c = (case map_of (ctrls m) k of
                 Some c \<Rightarrow> c | None \<Rightarrow> NewController (configForLocked m k));
          cf = cfg c;
          motion = motion_of i k;
          (w0, c') = Controller_Update (tick_now i) (motion = ''active'') c;
          burst = get_or 0 (bursts m) k;
          w = (if burst > w0 then min burst (Ceiling c') else w0);
          change = (Mode cf = ModeAdaptive \<and> get_or [] (sens m) k \<noteq> MotionSensitivity cf);
          mm = get_or zero_measured (Measure i) k
      in a\<lparr>acc_m := m\<lparr>ctrls := AList.update k c' (ctrls m),
                      sens := (if change then AList.update k (MotionSensitivity cf) (sens m)
                               else sens m)\<rparr>,
           demands := demands a @
             [\<lparr>key = k, dmin = min (Controller_Min c') w, dwant = w,
               weight = priorityWeight (Priority cf)\<rparr>],
           cams := AList.update k
             \<lparr>cs_Mode = Mode cf, ControllerState = ctl c', MotionState = motion,
              cs_Priority = Priority cf, cs_MinFPS = Controller_Min c', RequestedFPS = w,
              BurstFPS = burst, AllocatedFPS = 0, cs_EffectiveFPS = EffectiveFPS mm,
              cs_LatencyMS = LatencyMS mm, cs_Dropped = Dropped mm,
              SaturationReason = No_Reason\<rparr> (cams a),
           sensChanges := sensChanges a @
             (if change then [Call_SetMotionSensitivity k (MotionSensitivity cf)] else [])\<rparr>)"

text \<open>Controllers and sensitivities of cameras that are gone are dropped.\<close>

definition prune_unseen :: "string list \<Rightarrow> manager \<Rightarrow> manager" where
  "prune_unseen keys m =
     (let gone = filter (\<lambda>k. k \<notin> set keys) (map fst (ctrls m))
      in m\<lparr>ctrls := filter (\<lambda>(k, _). k \<notin> set gone) (ctrls m),
           sens := filter (\<lambda>(k, _). k \<notin> set gone) (sens m)\<rparr>)"

text \<open>The body of the last loop of \<open>Tick\<close>: publish a camera's share and apply it to its sampler.\<close>

definition tick_apply ::
    "tick_input \<Rightarrow> (string \<Rightarrow> rat) \<Rightarrow> (string \<Rightarrow> reason) \<Rightarrow> demand \<Rightarrow>
     device_status \<times> (string \<times> camera_status) list \<times> video_call list \<Rightarrow>
     device_status \<times> (string \<times> camera_status) list \<times> video_call list" where
  "tick_apply i alloc reasons d acc =
     (case acc of (dev, cs, calls) \<Rightarrow>
        let a = alloc (key d);
            calls' = (case CurrentTargetFPS i (key d) of
                Some cur \<Rightarrow>
                  if \<bar>cur - a\<bar> > 1 / 100 then calls @ [Call_SetTargetFPS (key d) a] else calls
              | None \<Rightarrow> calls);
            r = reasons (key d);
            s = (get_or zero_camera_status cs (key d))\<lparr>AllocatedFPS := a, SaturationReason := r\<rparr>
        in (dev\<lparr>dev_AllocatedFPS := dev_AllocatedFPS dev + a,
                ActiveCameras := ActiveCameras dev +
                  (if ControllerState s = StateActive \<or> ControllerState s = StateCooldown
                      \<or> BurstFPS s > 0 then 1 else 0),
                OverloadedCameras := OverloadedCameras dev + (if r \<noteq> No_Reason then 1 else 0),
                Saturated := (Saturated dev \<or> r = Min_Demand_Exceeds_Capacity)\<rparr>,
            AList.update (key d) s cs, calls'))"

definition Tick :: "tick_input \<Rightarrow> manager \<Rightarrow> video_call list \<times> manager" where
  "Tick i m =
     (if \<not> active i then ([], m)
      else let keys = sort (CandidateKeys i);
               a = foldl (\<lambda>a k. tick_camera i k a)
                     \<lparr>acc_m = m, demands = [], cams = [], sensChanges = []\<rparr> keys;
               m1 = prune_unseen keys (acc_m a);
               dev = measureDevice (Measure i) (Reserve (opt m));
               (alloc, reasons) = allocate (demands a) (AvailableFPS dev)
                                    (CapacitySource dev = Measured_Latency);
               (dev1, cs, calls) = foldl (\<lambda>acc d. tick_apply i alloc reasons d acc)
                                     (dev, cams a, sensChanges a) (demands a);
               dev2 = dev1\<lparr>Cameras := length (demands a)\<rparr>;
               dev3 = (if CapacitySource dev2 = Measured_Latency
                       then dev2\<lparr>HeadroomFPS := max 0 (AvailableFPS dev2 - dev_AllocatedFPS dev2)\<rparr>
                       else dev2)
           in (calls, m1\<lparr>status := Some \<lparr>Device = dev3, cam_status = cs\<rparr>\<rparr>))"

end
