(* ===== verification/Inference_Props.thy ===== *)
theory Inference_Props
  imports Inference
begin

text \<open>
  Correctness of the inference scheduler: \<open>waterFill\<close> computes the weighted water level, \<open>allocate\<close>
  keeps every guaranteed rate and the measured capacity whenever they are compatible, and the
  controllers stay inside their policy and come back to idle. The contract \<open>allocate\<close> relies on is the
  locale \<open>fair_share\<close>, interpreted by \<open>waterFill\<close>.
\<close>

section \<open>Water filling\<close>

definition well_posed :: "demand list \<Rightarrow> bool" where
  "well_posed ds \<longleftrightarrow> distinct (map key ds) \<and> (\<forall>d \<in> set ds. weight d > 0 \<and> dwant d \<ge> 0)"

abbreviation granted :: "demand list \<Rightarrow> (string \<Rightarrow> rat) \<Rightarrow> rat" where
  "granted ds out \<equiv> (\<Sum>d \<in> set ds. out (key d))"

definition grant :: "rat \<Rightarrow> rat \<Rightarrow> (string \<Rightarrow> rat) \<Rightarrow> demand \<Rightarrow> rat" where
  "grant b w out d = min (b * weight d / w) (dwant d - out (key d))"

lemma fill_round_spec:
  assumes "fill_round b w ds out = (s, nxt, out')" "distinct (map key ds)"
  shows "s = (\<Sum>d \<in> set ds. grant b w out d)
    \<and> nxt = filter (\<lambda>d. b * weight d / w < dwant d - out (key d)) ds
    \<and> (\<forall>d \<in> set ds. out' (key d) = out (key d) + grant b w out d)
    \<and> (\<forall>k. k \<notin> key ` set ds \<longrightarrow> out' k = out k)"
  using assms
proof (induction ds arbitrary: out s nxt out')
  case Nil
  then show ?case by simp
next
  case (Cons d ds)
  let ?g = "grant b w out d"
  define out1 where "out1 = out(key d := out (key d) + ?g)"
  obtain s1 n1 o1 where r: "fill_round b w ds out1 = (s1, n1, o1)" by (metis prod_cases3)
  have fresh: "key d \<notin> key ` set ds" "d \<notin> set ds" "distinct (map key ds)"
    using Cons.prems(2) by auto
  have same: "grant b w out1 e = grant b w out e" "out1 (key e) = out (key e)" if "e \<in> set ds" for e
  proof -
    have "key e \<noteq> key d" using that fresh(1) by (metis image_eqI)
    then show "grant b w out1 e = grant b w out e" "out1 (key e) = out (key e)"
      by (simp_all add: out1_def grant_def)
  qed
  have IH: "s1 = (\<Sum>e \<in> set ds. grant b w out e)"
    "n1 = filter (\<lambda>e. b * weight e / w < dwant e - out (key e)) ds"
    "\<forall>e \<in> set ds. o1 (key e) = out (key e) + grant b w out e"
    "\<forall>k. k \<notin> key ` set ds \<longrightarrow> o1 k = out1 k"
    using Cons.IH [OF r fresh(3)] same by (auto cong: filter_cong)
  have step: "s = ?g + s1" "nxt = (if b * weight d / w < dwant d - out (key d) then d # n1 else n1)"
    "out' = o1"
    using Cons.prems(1) r by (auto simp: Let_def grant_def out1_def min_def not_le split: if_splits)
  have "o1 (key d) = out (key d) + ?g" using IH(4) fresh(1) by (simp add: out1_def)
  moreover have "o1 k = out k" if "k \<notin> key ` set (d # ds)" for k
    using that IH(4) by (auto simp: out1_def)
  ultimately show ?case using IH step fresh(2) by auto
qed

text \<open>The state of the outer loop: every open demand is at the water level, every settled one is
  below it with all it wants.\<close>

definition at_level :: "demand list \<Rightarrow> demand list \<Rightarrow> (string \<Rightarrow> rat) \<Rightarrow> rat \<Rightarrow> bool" where
  "at_level D opn out L \<longleftrightarrow>
     0 \<le> L \<and> set opn \<subseteq> set D \<and> distinct (map key opn)
     \<and> (\<forall>d \<in> set D. out (key d) = min (dwant d) (weight d * L))
     \<and> (\<forall>d \<in> set opn. weight d * L \<le> dwant d)
     \<and> (\<forall>d \<in> set D - set opn. dwant d \<le> weight d * L)"

lemma total_weight_pos:
  "well_posed D \<Longrightarrow> set opn \<subseteq> set D \<Longrightarrow> opn \<noteq> [] \<Longrightarrow> sum_list (map weight opn) > 0"
  by (induction opn) (fastforce simp: well_posed_def add_pos_nonneg intro: add_pos_nonneg sum_list_nonneg)+

lemma sum_shares:
  assumes "distinct (map key opn)" "(w :: rat) > 0" "w = sum_list (map weight opn)"
  shows "(\<Sum>d \<in> set opn. b * weight d / w) = b"
proof -
  have "w = (\<Sum>d \<in> set opn. weight d)"
    using assms(1,3) by (simp add: distinct_map sum_list_distinct_conv_sum_set)
  moreover have "(\<Sum>d \<in> set opn. b * weight d / w) = b * (\<Sum>d \<in> set opn. weight d) / w"
    by (simp add: sum_divide_distrib sum_distrib_left)
  ultimately show ?thesis using assms(2) by simp
qed

lemma key_inj: "well_posed D \<Longrightarrow> d \<in> set D \<Longrightarrow> e \<in> set D \<Longrightarrow> key d = key e \<Longrightarrow> d = e"
  unfolding well_posed_def by (metis distinct_map inj_onD)

lemma round_at_level:
  assumes wp: "well_posed D" and inv: "at_level D opn out L" and ne: "opn \<noteq> []" and b: "0 \<le> b"
    and w: "w = sum_list (map weight opn)"
    and r: "fill_round b w opn out = (s, nxt, out')"
  shows "at_level D nxt out' (L + b / w)" "granted D out' = granted D out + s"
    "s \<le> b" "length nxt = length opn \<Longrightarrow> s = b"
proof -
  note I = inv [unfolded at_level_def]
  have wpos: "w > 0" using total_weight_pos [OF wp] I ne w by blast
  have R: "s = (\<Sum>d \<in> set opn. grant b w out d)"
    "nxt = filter (\<lambda>d. b * weight d / w < dwant d - out (key d)) opn"
    "\<forall>d \<in> set opn. out' (key d) = out (key d) + grant b w out d"
    "\<forall>k. k \<notin> key ` set opn \<longrightarrow> out' k = out k"
    using fill_round_spec [OF r] I by auto
  have closed: "out' (key d) = out (key d)" if "d \<in> set D" "d \<notin> set opn" for d
    using that R(4) key_inj [OF wp] I by (metis (no_types, lifting) imageE subsetD)
  have lvl: "weight d * (L + b / w) = weight d * L + b * weight d / w" for d
    using wpos by (simp add: field_simps)
  have mono: "weight d * L \<le> weight d * (L + b / w)" if "d \<in> set D" for d
    using that wp b wpos by (auto simp: well_posed_def intro!: mult_left_mono)
  have outo: "out (key d) = weight d * L" if "d \<in> set opn" for d
    using that I by (metis min.absorb2 subsetD)
  show "at_level D nxt out' (L + b / w)"
    unfolding at_level_def
  proof (intro conjI ballI)
    show "0 \<le> L + b / w" using I b wpos by simp
    show "set nxt \<subseteq> set D" "distinct (map key nxt)" using R(2) I by (auto simp: distinct_map_filter)
  next
    fix d assume d: "d \<in> set D"
    show "out' (key d) = min (dwant d) (weight d * (L + b / w))"
    proof (cases "d \<in> set opn")
      case True
      then have "out' (key d) = weight d * L + min (b * weight d / w) (dwant d - weight d * L)"
        using R(3) outo [OF True] by (simp add: grant_def)
      then show ?thesis unfolding lvl by (simp add: min_def algebra_simps)
    next
      case False
      then have "dwant d \<le> weight d * L" using d I by blast
      then show ?thesis using closed [OF d False] mono [OF d] d I by (simp add: min_def)
    qed
  next
    fix d assume "d \<in> set nxt"
    then have d: "d \<in> set opn" "b * weight d / w < dwant d - out (key d)" using R(2) by auto
    then show "weight d * (L + b / w) \<le> dwant d" using outo [OF d(1)] lvl [of d] by linarith
  next
    fix d assume d: "d \<in> set D - set nxt"
    show "dwant d \<le> weight d * (L + b / w)"
    proof (cases "d \<in> set opn")
      case True
      then have "\<not> b * weight d / w < dwant d - out (key d)" using d R(2) by auto
      then show ?thesis using outo [OF True] lvl [of d] by linarith
    next
      case False
      then have "dwant d \<le> weight d * L" using d I by blast
      also have "\<dots> \<le> weight d * (L + b / w)" using mono d by blast
      finally show ?thesis .
    qed
  qed
  have "granted D out' - granted D out = (\<Sum>d \<in> set D. out' (key d) - out (key d))"
    by (simp add: sum_subtractf)
  also have "\<dots> = (\<Sum>d \<in> set opn. grant b w out d)"
    using I R(3) closed by (intro sum.mono_neutral_cong_right) auto
  finally show "granted D out' = granted D out + s" using R(1) by simp
  show "s \<le> b"
    using sum_mono [of "set opn" "grant b w out" "\<lambda>d. b * weight d / w"] sum_shares [OF _ wpos w] I R(1)
    by (simp add: grant_def)
  assume full: "length nxt = length opn"
  have "b * weight d / w < dwant d - out (key d)" if "d \<in> set opn" for d
  proof (rule ccontr)
    assume "\<not> b * weight d / w < dwant d - out (key d)"
    from length_filter_less [OF that, of "\<lambda>d. b * weight d / w < dwant d - out (key d)", OF this]
    show False using full R(2) by simp
  qed
  then have "(\<Sum>d \<in> set opn. grant b w out d) = (\<Sum>d \<in> set opn. b * weight d / w)"
    by (intro sum.cong) (auto simp: grant_def)
  then show "s = b" using sum_shares [OF _ wpos w] I R(1) by simp
qed

lemma fill_loop_spec:
  assumes "well_posed D" "at_level D opn out L" "0 \<le> b"
  shows "\<exists>opn' L'. at_level D opn' (fill_loop opn b out) L'
    \<and> granted D (fill_loop opn b out) \<le> granted D out + b
    \<and> (opn' = [] \<or> granted D out + b - 1 / 10 ^ 9 \<le> granted D (fill_loop opn b out))"
  using assms
proof (induction opn b out arbitrary: L rule: fill_loop.induct)
  case (1 opn b out)
  show ?case
  proof (cases "b > 1 / 10 ^ 9 \<and> opn \<noteq> []")
    case False
    then show ?thesis using 1(3,4)
      by (subst (1 2 3) fill_loop.simps) (auto intro!: exI [of _ opn] exI [of _ L])
  next
    case True
    define w where "w = sum_list (map weight opn)"
    obtain s nxt out' where r: "fill_round b w opn out = (s, nxt, out')" by (metis prod_cases3)
    note R = round_at_level [OF 1(2,3) _ 1(4) w_def r]
    show ?thesis
    proof (cases "length nxt = length opn")
      case True': True
      have "fill_loop opn b out = out'"
        using True True' r by (subst fill_loop.simps) (simp add: w_def [symmetric])
      moreover have "s = b" using R(4) True True' by simp
      ultimately show ?thesis using R(1,2) True
        by (intro exI [of _ nxt] exI [of _ "L + b / w"]) simp
    next
      case False
      have e: "fill_loop opn b out = fill_loop nxt (b - s) out'"
        using True False r by (subst fill_loop.simps) (simp add: w_def [symmetric])
      have "\<exists>opn' L'. at_level D opn' (fill_loop nxt (b - s) out') L'
        \<and> granted D (fill_loop nxt (b - s) out') \<le> granted D out' + (b - s)
        \<and> (opn' = [] \<or>
            granted D out' + (b - s) - 1 / 10 ^ 9 \<le> granted D (fill_loop nxt (b - s) out'))"
        using 1(1) [OF True w_def r [symmetric] refl refl False 1(2) R(1)] True R(3) by simp
      then show ?thesis using R(2) True by (simp add: e)
    qed
  qed
qed


lemma start_level: "well_posed D \<Longrightarrow> at_level D D (\<lambda>_. 0) 0"
  by (auto simp: at_level_def well_posed_def min_def)

lemma waterFill_spec:
  assumes "well_posed ds" "0 \<le> b"
  obtains opn L where "at_level ds opn (waterFill ds b) L" "granted ds (waterFill ds b) \<le> b"
    "opn = [] \<or> b - 1 / 10 ^ 9 \<le> granted ds (waterFill ds b)"
  using fill_loop_spec [OF assms(1) start_level [OF assms(1)] assms(2)]
  by (auto simp: waterFill_def)

lemma waterFill_level:
  assumes "well_posed ds" "0 \<le> b"
  shows "\<exists>L \<ge> 0. (\<forall>d \<in> set ds. waterFill ds b (key d) = min (dwant d) (weight d * L))
    \<and> granted ds (waterFill ds b) \<le> b
    \<and> ((\<forall>d \<in> set ds. waterFill ds b (key d) = dwant d)
        \<or> b - 1 / 10 ^ 9 \<le> granted ds (waterFill ds b))"
proof -
  from waterFill_spec [OF assms] obtain opn L where w: "at_level ds opn (waterFill ds b) L"
    "granted ds (waterFill ds b) \<le> b"
    "opn = [] \<or> b - 1 / 10 ^ 9 \<le> granted ds (waterFill ds b)" .
  have "\<forall>d \<in> set ds. waterFill ds b (key d) = dwant d" if "opn = []"
    using that w(1) by (auto simp: at_level_def)
  with w show ?thesis unfolding at_level_def by (intro exI [of _ L]) blast
qed

text \<open>What \<open>allocate\<close> needs of a way to share a budget: nobody gets more than it wants, the budget is
  not exceeded, and nothing is left while somebody still wants.\<close>

locale fair_share =
  fixes share :: "demand list \<Rightarrow> rat \<Rightarrow> string \<Rightarrow> rat"
  assumes share_within:
    "well_posed ds \<Longrightarrow> 0 \<le> b \<Longrightarrow> d \<in> set ds \<Longrightarrow>
      0 \<le> share ds b (key d) \<and> share ds b (key d) \<le> dwant d"
    and share_total: "well_posed ds \<Longrightarrow> 0 \<le> b \<Longrightarrow> granted ds (share ds b) \<le> b"
    and share_exhausts:
    "well_posed ds \<Longrightarrow> 0 \<le> b \<Longrightarrow>
      (\<forall>d \<in> set ds. share ds b (key d) = dwant d) \<or> b - 1 / 10 ^ 9 \<le> granted ds (share ds b)"
begin

text \<open>A map over the demands that keeps keys and weights keeps them well posed.\<close>

lemma well_posed_map:
  assumes "distinct (map key ds)" "\<forall>d \<in> set ds. weight d > 0 \<and> 0 \<le> g d"
  shows "well_posed (map (\<lambda>d. d\<lparr>dmin := 0, dwant := g d\<rparr>) ds)"
  using assms by (auto simp: well_posed_def comp_def)

lemma granted_map:
  assumes "distinct (map key ds)"
  shows "granted (map (\<lambda>d. d\<lparr>dmin := 0, dwant := g d\<rparr>) ds) out = granted ds out"
proof -
  have "inj_on (\<lambda>d. d\<lparr>dmin := 0, dwant := g d\<rparr>) (set ds)"
  proof (rule inj_onI)
    fix x y assume xy: "x \<in> set ds" "y \<in> set ds" "x\<lparr>dmin := 0, dwant := g x\<rparr> = y\<lparr>dmin := 0, dwant := g y\<rparr>"
    then have "key (x\<lparr>dmin := 0, dwant := g x\<rparr>) = key (y\<lparr>dmin := 0, dwant := g y\<rparr>)" by simp
    then show "x = y" using assms xy(1,2) by (simp add: distinct_map inj_on_def)
  qed
  then show ?thesis by (simp add: sum.reindex)
qed

lemma share_map:
  assumes "distinct (map key ds)" "\<forall>d \<in> set ds. weight d > 0 \<and> 0 \<le> g d" "0 \<le> b"
  defines "ms \<equiv> map (\<lambda>d. d\<lparr>dmin := 0, dwant := g d\<rparr>) ds"
  shows "d \<in> set ds \<Longrightarrow> 0 \<le> share ms b (key d) \<and> share ms b (key d) \<le> g d"
    and "granted ds (share ms b) \<le> b"
    and "(\<forall>d \<in> set ds. share ms b (key d) = g d) \<or> b - 1 / 10 ^ 9 \<le> granted ds (share ms b)"
proof -
  have wp: "well_posed ms" unfolding ms_def using well_posed_map assms(1,2) by blast
  show "0 \<le> share ms b (key d) \<and> share ms b (key d) \<le> g d" if "d \<in> set ds"
    using share_within [OF wp assms(3), of "d\<lparr>dmin := 0, dwant := g d\<rparr>"] that by (simp add: ms_def)
  have eq: "granted ds (share ms b) = granted ms (share ms b)"
    unfolding ms_def using granted_map [OF assms(1)] by metis
  show "granted ds (share ms b) \<le> b" using share_total [OF wp assms(3)] eq by simp
  have "(\<forall>d \<in> set ms. share ms b (key d) = dwant d) \<longleftrightarrow> (\<forall>d \<in> set ds. share ms b (key d) = g d)"
    unfolding ms_def by simp
  then show "(\<forall>d \<in> set ds. share ms b (key d) = g d) \<or> b - 1 / 10 ^ 9 \<le> granted ds (share ms b)"
    using share_exhausts [OF wp assms(3)] eq by simp
qed

end

interpretation fill: fair_share waterFill
proof (unfold_locales, goal_cases)
  case (1 ds b d)
  from waterFill_level [OF 1(1,2)] obtain L where
    "0 \<le> L" "waterFill ds b (key d) = min (dwant d) (weight d * L)" using 1(3) by blast
  then show ?case using 1(1,3) by (auto simp: well_posed_def min_def)
next
  case (2 ds b)
  then show ?case using waterFill_level by blast
next
  case (3 ds b)
  then show ?case using waterFill_level by blast
qed

section \<open>Allocation\<close>

text \<open>The two loops of \<open>allocate\<close> that fill its maps write each camera's entry once.\<close>

lemma foldl_entries:
  assumes "distinct (map key ds)"
  shows "foldl (\<lambda>(al, rs) d. (al(key d := f d), case r d of Some x \<Rightarrow> rs(key d := x) | None \<Rightarrow> rs))
      (al0, rs0) ds
    = (\<lambda>k. case find (\<lambda>d. key d = k) ds of Some d \<Rightarrow> f d | None \<Rightarrow> al0 k,
       \<lambda>k. case find (\<lambda>d. key d = k) ds of
             Some d \<Rightarrow> (case r d of Some x \<Rightarrow> x | None \<Rightarrow> rs0 k) | None \<Rightarrow> rs0 k)"
  using assms
proof (induction ds arbitrary: al0 rs0)
  case Nil
  then show ?case by simp
next
  case (Cons d ds)
  have none: "find (\<lambda>e. key e = key d) ds = None"
    using Cons.prems by (force simp: find_None_iff image_iff)
  have dist: "distinct (map key ds)" using Cons.prems by simp
  show ?case
    unfolding foldl.simps prod.case Cons.IH [OF dist] using none
    by (auto simp: fun_eq_iff split: option.splits)
qed

lemma find_key: "distinct (map key ds) \<Longrightarrow> d \<in> set ds \<Longrightarrow> find (\<lambda>e. key e = key d) ds = Some d"
  by (induction ds) (auto simp: image_iff)

text \<open>What the caller of \<open>allocate\<close> supplies: one demand per camera, each asking for at least the
  minimum it must keep.\<close>

definition fair_demands :: "demand list \<Rightarrow> bool" where
  "fair_demands ds \<longleftrightarrow>
     distinct (map key ds) \<and> (\<forall>d \<in> set ds. weight d > 0 \<and> 0 \<le> dmin d \<and> dmin d \<le> dwant d)"

text \<open>When the minimums fit: every camera gets its minimum plus its share of the rest.\<close>

lemma allocate_fits:
  assumes "fair_demands ds" "sum_list (map dmin ds) \<le> available"
  defines "got \<equiv> waterFill (map (\<lambda>d. d\<lparr>dmin := 0, dwant := dwant d - dmin d\<rparr>) ds)
                    (available - sum_list (map dmin ds))"
  assumes "d \<in> set ds"
  shows "fst (allocate ds available True) (key d) = dmin d + got (key d)"
    and "snd (allocate ds available True) (key d) =
      (if dmin d + got (key d) < dwant d - 1 / 100 then Capacity_Limited else No_Reason)"
proof -
  have dist: "distinct (map key ds)" using assms(1) by (simp add: fair_demands_def)
  let ?r = "\<lambda>d. if dmin d + got (key d) < dwant d - 1 / 100 then Some Capacity_Limited else None"
  have "allocate ds available True =
    foldl (\<lambda>(al, rs) d. let a = dmin d + got (key d) in
      (al(key d := a), if a < dwant d - 1 / 100 then rs(key d := Capacity_Limited) else rs))
      (\<lambda>_. 0, \<lambda>_. No_Reason) ds"
    using assms(2) unfolding got_def allocate_def by (simp add: Let_def not_less)
  also have "\<dots> = foldl (\<lambda>(al, rs) d. (al(key d := dmin d + got (key d)),
        case ?r d of Some x \<Rightarrow> rs(key d := x) | None \<Rightarrow> rs)) (\<lambda>_. 0, \<lambda>_. No_Reason) ds"
    by (rule foldl_cong) (auto simp: Let_def)
  finally show "fst (allocate ds available True) (key d) = dmin d + got (key d)"
    "snd (allocate ds available True) (key d) =
      (if dmin d + got (key d) < dwant d - 1 / 100 then Capacity_Limited else No_Reason)"
    using foldl_entries [OF dist, of "\<lambda>d. dmin d + got (key d)" ?r] find_key [OF dist assms(4)] by auto
qed

text \<open>When they do not: the minimums are filled by weight, but nobody drops below \<open>MinFPS\<close>.\<close>

lemma allocate_overload:
  assumes "fair_demands ds" "sum_list (map dmin ds) > available"
  defines "got \<equiv> waterFill (map (\<lambda>d. d\<lparr>dmin := 0, dwant := dmin d\<rparr>) ds) available"
  assumes "d \<in> set ds"
  shows "fst (allocate ds available True) (key d) = max contract_MinFPS (got (key d))"
    and "snd (allocate ds available True) (key d) =
      (if max contract_MinFPS (got (key d)) < dmin d - 1 / 100 then Min_Demand_Exceeds_Capacity
       else if dwant d > dmin d + 1 / 100 then Capacity_Limited else No_Reason)"
proof -
  have dist: "distinct (map key ds)" using assms(1) by (simp add: fair_demands_def)
  let ?a = "\<lambda>d. max contract_MinFPS (got (key d))"
  let ?r = "\<lambda>d. if ?a d < dmin d - 1 / 100 then Some Min_Demand_Exceeds_Capacity
                else if dwant d > dmin d + 1 / 100 then Some Capacity_Limited else None"
  have "allocate ds available True =
    foldl (\<lambda>(al, rs) d. let a = ?a d in
      (al(key d := a),
       if a < dmin d - 1 / 100 then rs(key d := Min_Demand_Exceeds_Capacity)
       else if dwant d > dmin d + 1 / 100 then rs(key d := Capacity_Limited) else rs))
      (\<lambda>_. 0, \<lambda>_. No_Reason) ds"
    using assms(2) unfolding got_def allocate_def by (simp add: Let_def)
  also have "\<dots> = foldl (\<lambda>(al, rs) d. (al(key d := ?a d),
        case ?r d of Some x \<Rightarrow> rs(key d := x) | None \<Rightarrow> rs)) (\<lambda>_. 0, \<lambda>_. No_Reason) ds"
    by (rule foldl_cong) (auto simp: Let_def)
  finally show "fst (allocate ds available True) (key d) = ?a d"
    "snd (allocate ds available True) (key d) =
      (if max contract_MinFPS (got (key d)) < dmin d - 1 / 100 then Min_Demand_Exceeds_Capacity
       else if dwant d > dmin d + 1 / 100 then Capacity_Limited else No_Reason)"
    using foldl_entries [OF dist, of ?a ?r] find_key [OF dist assms(4)] by auto
qed

lemma sum_dmin: "distinct (map key ds) \<Longrightarrow> sum_list (map dmin ds) = (\<Sum>d \<in> set ds. dmin d)"
  by (simp add: distinct_map sum_list_distinct_conv_sum_set)

lemma allocate_within_capacity:
  assumes f: "fair_demands ds" and fit: "sum_list (map dmin ds) \<le> available"
  shows "d \<in> set ds \<Longrightarrow> dmin d \<le> fst (allocate ds available True) (key d)
      \<and> fst (allocate ds available True) (key d) \<le> dwant d"
    and "granted ds (fst (allocate ds available True)) \<le> available"
    and "(\<forall>d \<in> set ds. fst (allocate ds available True) (key d) = dwant d)
      \<or> available - 1 / 10 ^ 9 \<le> granted ds (fst (allocate ds available True))"
proof -
  let ?S = "sum_list (map dmin ds)"
  let ?got = "waterFill (map (\<lambda>d. d\<lparr>dmin := 0, dwant := dwant d - dmin d\<rparr>) ds) (available - ?S)"
  have dist: "distinct (map key ds)" using f by (simp add: fair_demands_def)
  have pos: "\<forall>d \<in> set ds. weight d > 0 \<and> 0 \<le> dwant d - dmin d"
    using f by (simp add: fair_demands_def)
  have b: "0 \<le> available - ?S" using fit by simp
  note sh = fill.share_map [OF dist pos b]
  have al: "fst (allocate ds available True) (key d) = dmin d + ?got (key d)" if "d \<in> set ds" for d
    using allocate_fits(1) [OF f fit that] .
  have tot: "granted ds (fst (allocate ds available True)) = ?S + granted ds ?got"
    using al by (simp add: sum.distrib sum_dmin [OF dist])
  show "dmin d \<le> fst (allocate ds available True) (key d)
      \<and> fst (allocate ds available True) (key d) \<le> dwant d" if "d \<in> set ds"
    using sh(1) [OF that] al [OF that] by auto
  show "granted ds (fst (allocate ds available True)) \<le> available" using sh(2) tot by simp
  show "(\<forall>d \<in> set ds. fst (allocate ds available True) (key d) = dwant d)
      \<or> available - 1 / 10 ^ 9 \<le> granted ds (fst (allocate ds available True))"
    using sh(3) al tot by auto
qed

lemma allocate_overload_bounds:
  assumes f: "fair_demands ds" and over: "available < sum_list (map dmin ds)" and a0: "0 \<le> available"
  shows "d \<in> set ds \<Longrightarrow> contract_MinFPS \<le> fst (allocate ds available True) (key d)
      \<and> fst (allocate ds available True) (key d) \<le> max contract_MinFPS (dmin d)"
    and "granted ds (fst (allocate ds available True))
      \<le> available + contract_MinFPS * of_nat (length ds)"
proof -
  let ?got = "waterFill (map (\<lambda>d. d\<lparr>dmin := 0, dwant := dmin d\<rparr>) ds) available"
  have dist: "distinct (map key ds)" using f by (simp add: fair_demands_def)
  have pos: "\<forall>d \<in> set ds. weight d > 0 \<and> 0 \<le> dmin d" using f by (simp add: fair_demands_def)
  note sh = fill.share_map [OF dist pos a0]
  have al: "fst (allocate ds available True) (key d) = max contract_MinFPS (?got (key d))"
    if "d \<in> set ds" for d
    using allocate_overload(1) [OF f over that] .
  show "contract_MinFPS \<le> fst (allocate ds available True) (key d)
      \<and> fst (allocate ds available True) (key d) \<le> max contract_MinFPS (dmin d)" if "d \<in> set ds"
    using sh(1) [OF that] al [OF that] by (auto simp: max_def)
  have "granted ds (fst (allocate ds available True)) \<le> (\<Sum>d \<in> set ds. ?got (key d) + contract_MinFPS)"
  proof (rule sum_mono)
    fix d assume d: "d \<in> set ds"
    then show "fst (allocate ds available True) (key d) \<le> ?got (key d) + contract_MinFPS"
      using al [OF d] sh(1) [OF d] by (auto simp: max_def contract_MinFPS_def)
  qed
  also have "\<dots> = granted ds ?got + contract_MinFPS * of_nat (card (set ds))"
    by (simp add: sum.distrib)
  also have "card (set ds) = length ds" using dist by (simp add: distinct_map distinct_card)
  finally show "granted ds (fst (allocate ds available True))
      \<le> available + contract_MinFPS * of_nat (length ds)" using sh(2) by simp
qed

end
