(* ===== verification/Inference_Sched.thy ===== *)
theory Inference_Sched
  imports Inference_Props
begin

text \<open>
  The controllers and the Manager over time: every reachable controller wants a rate inside its
  policy, every reachable Manager hands \<open>allocate\<close> demands that meet its contract, so that a tick
  keeps the guaranteed rates and the measured capacity; a camera without motion returns to idle; and
  two ways in which a new policy does not take effect.
\<close>

section \<open>Policies\<close>

definition policy_ok :: "camera_config \<Rightarrow> bool" where
  "policy_ok p \<longleftrightarrow> CameraConfig_Validate p = None"

lemma modes_differ [simp]: "ModeFixed \<noteq> ModeAdaptive" "ModeAdaptive \<noteq> ModeFixed" "ModeAdaptive \<noteq> []"
  by (simp_all add: ModeFixed_def ModeAdaptive_def)

lemma check_rates_None: "check_rates vs = None \<longleftrightarrow> (\<forall>(n, v) \<in> set vs. rate_in_range v)"
  unfolding check_rates_def by (induction vs) auto

lemma policy_ok_iff:
  "policy_ok p \<longleftrightarrow> Mode p \<in> {ModeFixed, ModeAdaptive}
     \<and> rate_in_range (TargetFPS p) \<and> rate_in_range (IdleFPS p)
     \<and> rate_in_range (ActiveFPS p) \<and> rate_in_range (MaxFPS p)
     \<and> (Mode p = ModeAdaptive \<longrightarrow> IdleFPS p \<le> ActiveFPS p \<and> ActiveFPS p \<le> MaxFPS p)
     \<and> MotionSensitivity p \<in> {''low'', ''medium'', ''high''}
     \<and> second \<le> IdleTimeout p \<and> IdleTimeout p \<le> 10 * 60 * second
     \<and> Priority p \<in> {PriorityLow, PriorityNormal, PriorityHigh}"
proof (cases "check_rates [(''target_fps'', TargetFPS p), (''idle_fps'', IdleFPS p),
                           (''active_fps'', ActiveFPS p), (''max_fps'', MaxFPS p)]")
  case None
  then have r: "rate_in_range (TargetFPS p)" "rate_in_range (IdleFPS p)"
    "rate_in_range (ActiveFPS p)" "rate_in_range (MaxFPS p)" by (simp_all add: check_rates_None)
  have s: "(if b then Some x else y) = None \<longleftrightarrow> \<not> b \<and> y = None" for b and x :: inference_error and y
    by simp
  show ?thesis
    unfolding policy_ok_def CameraConfig_Validate_def None option.case s
    using r by (simp only: not_less de_Morgan_disj de_Morgan_conj not_not simp_thms insert_iff
        empty_iff) blast
next
  case (Some e)
  then have "\<not> (rate_in_range (TargetFPS p) \<and> rate_in_range (IdleFPS p)
      \<and> rate_in_range (ActiveFPS p) \<and> rate_in_range (MaxFPS p))"
    using check_rates_None [of "[(''target_fps'', TargetFPS p), (''idle_fps'', IdleFPS p),
                           (''active_fps'', ActiveFPS p), (''max_fps'', MaxFPS p)]"] by auto
  with Some show ?thesis
    unfolding policy_ok_def CameraConfig_Validate_def by (auto simp del: insert_iff)
qed

lemma rate_pos: "rate_in_range v \<Longrightarrow> 0 < v"
  by (simp add: rate_in_range_def contract_MinFPS_def)

text \<open>The FIXED fallback is the only part of a policy that depends on the global rate.\<close>

lemma policy_ok_other_global:
  "policy_ok (WithDefaults g c) \<Longrightarrow> rate_in_range g' \<Longrightarrow> policy_ok (WithDefaults g' c)"
  by (auto simp: policy_ok_iff WithDefaults_def Let_def split: if_splits)

section \<open>Controllers\<close>

definition ctrl_ok :: "controller \<Rightarrow> bool" where
  "ctrl_ok k \<longleftrightarrow> policy_ok (cfg k)
     \<and> (if Mode (cfg k) = ModeFixed then ctl k = StateFixed \<and> want k = TargetFPS (cfg k)
        else ctl k \<in> {StateIdle, StateActive, StateCooldown}
             \<and> IdleFPS (cfg k) \<le> want k \<and> want k \<le> MaxFPS (cfg k))"

lemma Configure_ok: "policy_ok p \<Longrightarrow> ctrl_ok (Configure p k)"
proof (cases "Mode p = ModeFixed")
  case True
  assume "policy_ok p"
  with True show ?thesis by (simp add: ctrl_ok_def Configure_def Let_def)
next
  case False
  assume p: "policy_ok p"
  with False have "IdleFPS p \<le> MaxFPS p" by (auto simp: policy_ok_iff)
  with p False show ?thesis
    by (cases "ctl k") (auto simp: ctrl_ok_def Configure_def Let_def min_def max_def)
qed

lemma NewController_ok: "policy_ok p \<Longrightarrow> ctrl_ok (NewController p)"
  by (simp add: NewController_def Configure_ok)

lemma stepDown_cfg [simp]: "cfg (stepDown k) = cfg k"
  by (simp add: stepDown_def Let_def)

lemma stepDown_bounds:
  assumes "IdleFPS (cfg k) \<le> ActiveFPS (cfg k)" "IdleFPS (cfg k) \<le> want k" "want k \<le> MaxFPS (cfg k)"
    "ctl k = StateCooldown"
  shows "IdleFPS (cfg k) \<le> want (stepDown k) \<and> want (stepDown k) \<le> MaxFPS (cfg k)
    \<and> ctl (stepDown k) \<in> {StateIdle, StateCooldown}"
proof -
  have "0 \<le> rampFraction * (ActiveFPS (cfg k) - IdleFPS (cfg k))"
    using assms(1) by (simp add: rampFraction_def)
  with assms show ?thesis by (auto simp: stepDown_def Let_def)
qed

lemma Update_cfg [simp]: "cfg (snd (Controller_Update now mo k)) = cfg k"
  by (simp add: Controller_Update_def Let_def split: ctrl_state.split)

lemma Update_want [simp]: "fst (Controller_Update now mo k) = want (snd (Controller_Update now mo k))"
  by (simp add: Controller_Update_def Let_def)

lemma Update_ok:
  assumes "ctrl_ok k"
  shows "ctrl_ok (snd (Controller_Update now mo k))"
proof (cases "Mode (cfg k) = ModeFixed")
  case True
  with assms show ?thesis by (simp add: ctrl_ok_def Controller_Update_def Let_def)
next
  case False
  have p: "policy_ok (cfg k)" using assms by (simp add: ctrl_ok_def)
  then have ord: "IdleFPS (cfg k) \<le> ActiveFPS (cfg k)" "ActiveFPS (cfg k) \<le> MaxFPS (cfg k)"
    using False by (auto simp: policy_ok_iff)
  have b: "IdleFPS (cfg k) \<le> want k" "want k \<le> MaxFPS (cfg k)"
    using assms False by (auto simp: ctrl_ok_def)
  have cool: "ctrl_ok (stepDown (k\<lparr>ctl := StateCooldown, rampAt := now\<rparr>))"
    using stepDown_bounds [of "k\<lparr>ctl := StateCooldown, rampAt := now\<rparr>"] ord b p False
    by (auto simp: ctrl_ok_def)
  have cool': "ctrl_ok (stepDown (k\<lparr>rampAt := now\<rparr>))" if "ctl k = StateCooldown"
    using stepDown_bounds [of "k\<lparr>rampAt := now\<rparr>"] ord b p False that by (auto simp: ctrl_ok_def)
  show ?thesis
  proof (cases mo)
    case True
    with False ord p show ?thesis by (simp add: ctrl_ok_def Controller_Update_def Let_def)
  next
    case no: False
    show ?thesis using assms False no cool cool'
      by (cases "ctl k") (auto simp: Controller_Update_def Let_def)
  qed
qed

lemma ctrl_ok_bounds:
  "ctrl_ok k \<Longrightarrow> Controller_Min k \<le> want k \<and> want k \<le> Ceiling k \<and> 0 < Controller_Min k"
  by (auto simp: ctrl_ok_def Controller_Min_def Ceiling_def policy_ok_iff rate_in_range_def
      contract_MinFPS_def split: if_splits)

section \<open>The Manager\<close>

text \<open>The options the agent passes: a default policy that is valid whatever in-range global rate
  completes it.\<close>

definition default_ok :: "options \<Rightarrow> bool" where
  "default_ok op \<longleftrightarrow> policy_ok (WithDefaults contract_MinFPS (mergeDefault (Default op) zero_camera_config))"

definition mgr_ok :: "manager \<Rightarrow> bool" where
  "mgr_ok m \<longleftrightarrow> (\<forall>k. policy_ok (configForLocked m k)) \<and> default_ok (opt m)
     \<and> rate_in_range (global m) \<and> 0 \<le> Reserve (opt m) \<and> Reserve (opt m) \<le> 9 / 10
     \<and> wf_alist (ctrls m) \<and> (\<forall>(k, c) \<in> set (ctrls m). ctrl_ok c)"

inductive mgr_step :: "manager \<Rightarrow> manager \<Rightarrow> bool" where
  tick: "distinct (CandidateKeys i) \<Longrightarrow> mgr_step m (snd (Tick i m))"
| remote: "(\<forall>g. gl = Some g \<longrightarrow> rate_in_range g) \<Longrightarrow> wf_alist cs \<Longrightarrow>
    mgr_step m (snd (ApplyRemote gl cs m))"
| set_global: "rate_in_range g \<Longrightarrow> mgr_step m (SetGlobalTargetFPS g m)"
| burst: "mgr_step m (SetBurstFPS k fps m)"

inductive_cases mgr_stepE: "mgr_step m m'"

definition mgr_init :: "manager \<Rightarrow> bool" where
  "mgr_init m \<longleftrightarrow> (\<exists>op. default_ok op \<and> rate_in_range (GlobalTargetFPS op) \<and> m = NewManager op)"

lemma reconfigure_ok:
  assumes "\<forall>k. policy_ok (configForLocked m k)" "default_ok (opt m)" "rate_in_range (global m)"
    "0 \<le> Reserve (opt m)" "Reserve (opt m) \<le> 9 / 10" "wf_alist (ctrls m)"
  shows "mgr_ok (reconfigure_all m)"
proof -
  have "configForLocked (reconfigure_all m) = configForLocked m"
    by (simp add: reconfigure_all_def configForLocked_def fun_eq_iff)
  with assms show ?thesis
    by (auto simp: mgr_ok_def reconfigure_all_def Configure_ok comp_def case_prod_beta)
qed

text \<open>The controller, demand and status of one camera in a tick depend only on that camera.\<close>

definition ctrl_for :: "manager \<Rightarrow> string \<Rightarrow> controller" where
  "ctrl_for m k = (case map_of (ctrls m) k of
     Some c \<Rightarrow> c | None \<Rightarrow> NewController (configForLocked m k))"

definition next_ctrl :: "tick_input \<Rightarrow> manager \<Rightarrow> string \<Rightarrow> controller" where
  "next_ctrl i m k = snd (Controller_Update (tick_now i) (motion_of i k = ''active'') (ctrl_for m k))"

definition demand_for :: "tick_input \<Rightarrow> manager \<Rightarrow> string \<Rightarrow> demand" where
  "demand_for i m k =
     (let c = next_ctrl i m k; b = get_or 0 (bursts m) k;
          w = (if b > want c then min b (Ceiling c) else want c)
      in \<lparr>key = k, dmin = min (Controller_Min c) w, dwant = w,
          weight = priorityWeight (Priority (cfg c))\<rparr>)"

lemma tick_camera_parts:
  "demands (tick_camera i k a) = demands a @ [demand_for i (acc_m a) k]"
  "ctrls (acc_m (tick_camera i k a)) = AList.update k (next_ctrl i (acc_m a) k) (ctrls (acc_m a))"
  "bursts (acc_m (tick_camera i k a)) = bursts (acc_m a)"
  "overrides (acc_m (tick_camera i k a)) = overrides (acc_m a)"
  "global (acc_m (tick_camera i k a)) = global (acc_m a)"
  "opt (acc_m (tick_camera i k a)) = opt (acc_m a)"
proof -
  let ?c = "ctrl_for (acc_m a) k"
  obtain w0 c' where u: "Controller_Update (tick_now i) (motion_of i k = ''active'') ?c = (w0, c')"
    by (metis surj_pair)
  moreover have "w0 = want c'" "cfg c' = cfg ?c"
    using Update_want [of "tick_now i" "motion_of i k = ''active''" ?c]
      Update_cfg [of "tick_now i" "motion_of i k = ''active''" ?c] u by simp_all
  ultimately show "demands (tick_camera i k a) = demands a @ [demand_for i (acc_m a) k]"
    "ctrls (acc_m (tick_camera i k a)) = AList.update k (next_ctrl i (acc_m a) k) (ctrls (acc_m a))"
    "bursts (acc_m (tick_camera i k a)) = bursts (acc_m a)"
    "overrides (acc_m (tick_camera i k a)) = overrides (acc_m a)"
    "global (acc_m (tick_camera i k a)) = global (acc_m a)"
    "opt (acc_m (tick_camera i k a)) = opt (acc_m a)"
    unfolding tick_camera_def ctrl_for_def [symmetric]
    by (simp_all add: demand_for_def next_ctrl_def Let_def)
qed

lemma demand_for_frame:
  assumes "map_of (ctrls m') k = map_of (ctrls m) k" "bursts m' = bursts m"
    "overrides m' = overrides m" "global m' = global m" "opt m' = opt m"
  shows "demand_for i m' k = demand_for i m k" "next_ctrl i m' k = next_ctrl i m k"
proof -
  have "configForLocked m' k = configForLocked m k" using assms by (simp add: configForLocked_def)
  then have "ctrl_for m' k = ctrl_for m k" using assms(1) by (simp add: ctrl_for_def split: option.split)
  then show "demand_for i m' k = demand_for i m k" "next_ctrl i m' k = next_ctrl i m k"
    using assms(2) by (simp_all add: demand_for_def next_ctrl_def)
qed

abbreviation tick_scan :: "tick_input \<Rightarrow> string list \<Rightarrow> tick_acc \<Rightarrow> tick_acc" where
  "tick_scan i ks a \<equiv> foldl (\<lambda>a k. tick_camera i k a) a ks"

lemma tick_scan_frame:
  "bursts (acc_m (tick_scan i ks a)) = bursts (acc_m a)"
  "overrides (acc_m (tick_scan i ks a)) = overrides (acc_m a)"
  "global (acc_m (tick_scan i ks a)) = global (acc_m a)"
  "opt (acc_m (tick_scan i ks a)) = opt (acc_m a)"
  by (induction ks arbitrary: a) (simp_all add: tick_camera_parts)

lemma tick_scan_spec:
  assumes "distinct ks"
  shows "demands (tick_scan i ks a) = demands a @ map (demand_for i (acc_m a)) ks
    \<and> (\<forall>k. map_of (ctrls (acc_m (tick_scan i ks a))) k =
          (if k \<in> set ks then Some (next_ctrl i (acc_m a) k) else map_of (ctrls (acc_m a)) k))
    \<and> (wf_alist (ctrls (acc_m a)) \<longrightarrow> wf_alist (ctrls (acc_m (tick_scan i ks a))))"
  using assms
proof (induction ks arbitrary: a)
  case Nil
  then show ?case by simp
next
  case (Cons k ks)
  let ?a = "tick_camera i k a"
  have same: "demand_for i (acc_m ?a) x = demand_for i (acc_m a) x"
    "next_ctrl i (acc_m ?a) x = next_ctrl i (acc_m a) x" if "x \<in> set ks" for x
    using that Cons.prems
    by (auto intro!: demand_for_frame simp: tick_camera_parts update_conv')
  have IH: "demands (tick_scan i ks ?a) = demands ?a @ map (demand_for i (acc_m ?a)) ks"
    "map_of (ctrls (acc_m (tick_scan i ks ?a))) x =
          (if x \<in> set ks then Some (next_ctrl i (acc_m ?a) x) else map_of (ctrls (acc_m ?a)) x)"
    "wf_alist (ctrls (acc_m ?a)) \<longrightarrow> wf_alist (ctrls (acc_m (tick_scan i ks ?a)))" for x
    using Cons.IH [of ?a] Cons.prems by auto
  show ?case
    using IH same Cons.prems by (auto simp: tick_camera_parts update_conv')
qed

definition status_for :: "tick_input \<Rightarrow> manager \<Rightarrow> string \<Rightarrow> camera_status" where
  "status_for i m k =
     (let c = next_ctrl i m k; mm = get_or zero_measured (Measure i) k
      in \<lparr>cs_Mode = Mode (cfg c), ControllerState = ctl c, MotionState = motion_of i k,
          cs_Priority = Priority (cfg c), cs_MinFPS = Controller_Min c,
          RequestedFPS = dwant (demand_for i m k), BurstFPS = get_or 0 (bursts m) k,
          AllocatedFPS = 0, cs_EffectiveFPS = EffectiveFPS mm, cs_LatencyMS = LatencyMS mm,
          cs_Dropped = Dropped mm, SaturationReason = No_Reason\<rparr>)"

lemma tick_camera_cams:
  "cams (tick_camera i k a) = AList.update k (status_for i (acc_m a) k) (cams a)"
  "\<exists>cs. sensChanges (tick_camera i k a) = sensChanges a @ cs \<and> (\<forall>x r. Call_SetTargetFPS x r \<notin> set cs)"
proof -
  let ?c = "ctrl_for (acc_m a) k"
  obtain w0 c' where u: "Controller_Update (tick_now i) (motion_of i k = ''active'') ?c = (w0, c')"
    by (metis surj_pair)
  moreover have "w0 = want c'" "cfg c' = cfg ?c"
    using Update_want [of "tick_now i" "motion_of i k = ''active''" ?c]
      Update_cfg [of "tick_now i" "motion_of i k = ''active''" ?c] u by simp_all
  ultimately show "cams (tick_camera i k a) = AList.update k (status_for i (acc_m a) k) (cams a)"
    "\<exists>cs. sensChanges (tick_camera i k a) = sensChanges a @ cs
       \<and> (\<forall>x r. Call_SetTargetFPS x r \<notin> set cs)"
    unfolding tick_camera_def ctrl_for_def [symmetric]
    by (simp_all add: demand_for_def status_for_def next_ctrl_def Let_def)
qed

lemma status_for_frame:
  assumes "map_of (ctrls m') k = map_of (ctrls m) k" "bursts m' = bursts m"
    "overrides m' = overrides m" "global m' = global m" "opt m' = opt m"
  shows "status_for i m' k = status_for i m k"
  using demand_for_frame [OF assms] assms(2) by (simp add: status_for_def)

lemma tick_scan_cams:
  assumes "distinct ks"
  shows "(\<forall>k \<in> set ks. map_of (cams (tick_scan i ks a)) k = Some (status_for i (acc_m a) k))
    \<and> (\<forall>k. k \<notin> set ks \<longrightarrow> map_of (cams (tick_scan i ks a)) k = map_of (cams a) k)
    \<and> (\<forall>x r. Call_SetTargetFPS x r \<in> set (sensChanges (tick_scan i ks a)) \<longrightarrow>
          Call_SetTargetFPS x r \<in> set (sensChanges a))"
  using assms
proof (induction ks arbitrary: a)
  case Nil
  then show ?case by simp
next
  case (Cons k ks)
  let ?a = "tick_camera i k a"
  have same: "status_for i (acc_m ?a) x = status_for i (acc_m a) x" if "x \<in> set ks" for x
    using that Cons.prems by (auto intro!: status_for_frame simp: tick_camera_parts update_conv')
  have IH: "\<forall>x \<in> set ks. map_of (cams (tick_scan i ks ?a)) x = Some (status_for i (acc_m ?a) x)"
    "\<forall>x. x \<notin> set ks \<longrightarrow> map_of (cams (tick_scan i ks ?a)) x = map_of (cams ?a) x"
    "\<forall>x r. Call_SetTargetFPS x r \<in> set (sensChanges (tick_scan i ks ?a)) \<longrightarrow>
          Call_SetTargetFPS x r \<in> set (sensChanges ?a)"
    using Cons.IH [of ?a] Cons.prems by auto
  have "\<forall>x r. Call_SetTargetFPS x r \<in> set (sensChanges ?a) \<longrightarrow> Call_SetTargetFPS x r \<in> set (sensChanges a)"
    using tick_camera_cams(2) [of i k a] by auto
  with IH same Cons.prems show ?case by (auto simp: tick_camera_cams(1) update_conv')
qed

lemma ctrl_for_ok: "mgr_ok m \<Longrightarrow> ctrl_ok (ctrl_for m k)"
  by (auto simp: mgr_ok_def ctrl_for_def NewController_ok dest: map_of_SomeD split: option.split)

lemma next_ctrl_ok: "mgr_ok m \<Longrightarrow> ctrl_ok (next_ctrl i m k)"
  by (simp add: next_ctrl_def Update_ok ctrl_for_ok)

lemma priorityWeight_pos: "0 < priorityWeight p"
  by (simp add: priorityWeight_def)

lemma demand_for_fair:
  assumes "mgr_ok m"
  shows "dmin (demand_for i m k) = Controller_Min (next_ctrl i m k)"
    "Controller_Min (next_ctrl i m k) \<le> dwant (demand_for i m k)"
    "dwant (demand_for i m k) \<le> Ceiling (next_ctrl i m k)"
    "0 < dmin (demand_for i m k)" "0 < weight (demand_for i m k)" "key (demand_for i m k) = k"
  using ctrl_ok_bounds [OF next_ctrl_ok [OF assms, of i k]]
  by (auto simp: demand_for_def Let_def min_def priorityWeight_pos)

lemma demands_fair:
  assumes "mgr_ok m" "distinct ks"
  shows "fair_demands (map (demand_for i m) ks)"
proof -
  have "map key (map (demand_for i m) ks) = ks"
    using demand_for_fair(6) [OF assms(1)] by (simp add: comp_def)
  then have "distinct (map key (map (demand_for i m) ks))" using assms(2) by metis
  moreover have "0 \<le> dmin (demand_for i m k) \<and> dmin (demand_for i m k) \<le> dwant (demand_for i m k)" for k
    using demand_for_fair(1,2,4) [OF assms(1), of i k] by simp
  ultimately show ?thesis
    using demand_for_fair(5) [OF assms(1)] by (auto simp: fair_demands_def)
qed

lemma prune_unseen_ok: "mgr_ok m \<Longrightarrow> mgr_ok (prune_unseen ks m)"
  by (auto simp: mgr_ok_def prune_unseen_def Let_def configForLocked_def distinct_map_filter)

abbreviation scan_start :: "manager \<Rightarrow> tick_acc" where
  "scan_start m \<equiv> \<lparr>acc_m = m, demands = [], cams = [], sensChanges = []\<rparr>"

lemma scan_ok:
  assumes ok: "mgr_ok m" and d: "distinct ks"
  shows "mgr_ok (acc_m (tick_scan i ks (scan_start m)))"
proof -
  let ?m = "acc_m (tick_scan i ks (scan_start m))"
  note S = tick_scan_spec [OF d, of i "scan_start m", simplified]
  have c: "configForLocked ?m = configForLocked m"
    by (simp add: configForLocked_def fun_eq_iff tick_scan_frame)
  have wf: "wf_alist (ctrls ?m)" using S ok by (simp add: mgr_ok_def)
  have "ctrl_ok x" if "(k, x) \<in> set (ctrls ?m)" for k x
  proof -
    have "map_of (ctrls ?m) k = Some x" using wf that by simp
    then show ?thesis
      using S ok next_ctrl_ok [OF ok] by (auto simp: mgr_ok_def dest: map_of_SomeD split: if_splits)
  qed
  then show ?thesis using ok wf c by (auto simp: mgr_ok_def tick_scan_frame)
qed

lemma Tick_ok:
  assumes "mgr_ok m" "distinct (CandidateKeys i)"
  shows "mgr_ok (snd (Tick i m))"
proof -
  let ?ks = "sort (CandidateKeys i)"
  have s: "mgr_ok (x\<lparr>status := st\<rparr>) \<longleftrightarrow> mgr_ok x" for x st
    by (simp add: mgr_ok_def configForLocked_def)
  have "mgr_ok (prune_unseen ?ks (acc_m (tick_scan i ?ks (scan_start m))))"
    using assms by (intro prune_unseen_ok scan_ok) simp_all
  then show ?thesis
    using assms(1) by (auto simp: Tick_def Let_def case_prod_beta s)
qed

lemma ApplyRemote_ok:
  assumes "mgr_ok m" "\<forall>g. gl = Some g \<longrightarrow> rate_in_range g"
  shows "mgr_ok (snd (ApplyRemote gl cs m))"
proof -
  let ?g = "case gl of Some x \<Rightarrow> x | None \<Rightarrow> global m"
  let ?m = "m\<lparr>global := ?g, overrides := cs\<rparr>"
  let ?bad = "List.map_filter (\<lambda>(k, c).
            map_option (Pair k)
              (CameraConfig_Validate (WithDefaults ?g (mergeDefault (Default (opt m)) c)))) cs"
  have g: "rate_in_range ?g" using assms by (auto simp: mgr_ok_def split: option.split)
  have d: "policy_ok (WithDefaults ?g (mergeDefault (Default (opt m)) zero_camera_config))"
    using assms(1) g policy_ok_other_global by (auto simp: mgr_ok_def default_ok_def)
  show ?thesis
  proof (cases "?bad")
    case Nil
    have v: "policy_ok (WithDefaults ?g (mergeDefault (Default (opt m)) c))" if "(k, c) \<in> set cs" for k c
      using Nil that by (force simp: List.map_filter_def policy_ok_def filter_empty_conv)
    have "policy_ok (configForLocked ?m k)" for k
      using d v by (auto simp: configForLocked_def get_or_def dest: map_of_SomeD split: option.split)
    then have "mgr_ok (reconfigure_all ?m)"
      using assms(1) g by (intro reconfigure_ok) (simp_all add: mgr_ok_def)
    with Nil show ?thesis by (simp add: ApplyRemote_def Let_def)
  next
    case (Cons e es)
    with assms(1) show ?thesis by (simp add: ApplyRemote_def Let_def)
  qed
qed

lemma SetGlobal_ok:
  assumes "mgr_ok m" "rate_in_range g"
  shows "mgr_ok (SetGlobalTargetFPS g m)"
proof -
  have "policy_ok (configForLocked (m\<lparr>global := g\<rparr>) k)" for k
    using assms policy_ok_other_global by (auto simp: mgr_ok_def configForLocked_def)
  with assms show ?thesis
    unfolding SetGlobalTargetFPS_def by (intro reconfigure_ok) (simp_all add: mgr_ok_def)
qed

lemma NewManager_ok:
  assumes "default_ok op" "rate_in_range (GlobalTargetFPS op)"
  shows "mgr_ok (NewManager op)"
  using assms policy_ok_other_global
  by (auto simp: mgr_ok_def NewManager_def Let_def configForLocked_def get_or_def default_ok_def)

interpretation mgr: machine mgr_init mgr_step mgr_ok
proof (unfold_locales, goal_cases)
  case (1 s)
  then show ?case by (auto simp: mgr_init_def NewManager_ok)
next
  case (2 s t)
  have "mgr_ok (SetBurstFPS k fps s)" for k fps
    using 2(1) by (simp add: SetBurstFPS_def mgr_ok_def configForLocked_def)
  with 2 show ?case by (auto elim!: mgr_stepE intro: Tick_ok ApplyRemote_ok SetGlobal_ok)
qed

section \<open>One tick\<close>

lemma measureDevice_available:
  assumes "CapacitySource (measureDevice ms r) = Measured_Latency" "0 \<le> r" "r \<le> 9 / 10"
  shows "0 < AvailableFPS (measureDevice ms r)"
    "AvailableFPS (measureDevice ms r) \<le> CapacityFPS (measureDevice ms r)"
    "dev_AllocatedFPS (measureDevice ms r) = 0"
proof -
  let ?c = "filter latency_counts (map snd ms)"
  let ?w = "sum_list (map EffectiveFPS ?c)"
  let ?l = "sum_list (map (\<lambda>mm. LatencyMS mm * EffectiveFPS mm) ?c)"
  have w: "0 < ?w" using assms(1) by (auto simp: measureDevice_def Let_def split: if_splits)
  then have ne: "?c \<noteq> []" by auto
  have "0 < ?l" if "xs \<noteq> []" "\<forall>x \<in> set xs. latency_counts x" "?l = sum_list (map (\<lambda>mm. LatencyMS mm * EffectiveFPS mm) xs)" for xs
    using that
  proof (induction xs arbitrary: ms rule: list_nonempty_induct)
    case (single x)
    then show ?case by (simp add: latency_counts_def)
  next
    case (cons x xs)
    have "0 \<le> sum_list (map (\<lambda>mm. LatencyMS mm * EffectiveFPS mm) xs)"
      using cons.prems by (intro sum_list_nonneg) (auto simp: latency_counts_def)
    moreover have "0 < LatencyMS x * EffectiveFPS x" using cons.prems by (simp add: latency_counts_def)
    ultimately show ?case using cons.prems(2) by simp
  qed
  from this [OF ne] have l: "0 < ?l" by simp
  have cap: "0 < 1000 / (?l / ?w)" using w l by simp
  have dev: "AvailableFPS (measureDevice ms r) = 1000 / (?l / ?w) * (1 - r)"
    "CapacityFPS (measureDevice ms r) = 1000 / (?l / ?w)"
    using w by (simp_all add: measureDevice_def Let_def)
  show "0 < AvailableFPS (measureDevice ms r)"
    unfolding dev using cap assms(3) by (intro mult_pos_pos) simp_all
  show "AvailableFPS (measureDevice ms r) \<le> CapacityFPS (measureDevice ms r)"
    unfolding dev by (rule mult_left_le) (use cap assms(2) in simp_all)
  show "dev_AllocatedFPS (measureDevice ms r) = 0" by (simp add: measureDevice_def Let_def)
qed

lemma tick_apply_spec:
  assumes "foldl (\<lambda>acc d. tick_apply i al rs d acc) (dev, cs, calls) ds = (dev', cs', calls')"
    "distinct (map key ds)"
  shows "dev_AllocatedFPS dev' = dev_AllocatedFPS dev + sum_list (map (\<lambda>d. al (key d)) ds)
    \<and> AvailableFPS dev' = AvailableFPS dev \<and> CapacitySource dev' = CapacitySource dev
    \<and> (\<forall>d \<in> set ds. map_of cs' (key d) = Some ((get_or zero_camera_status cs (key d))
          \<lparr>AllocatedFPS := al (key d), SaturationReason := rs (key d)\<rparr>))
    \<and> (\<forall>k. k \<notin> key ` set ds \<longrightarrow> map_of cs' k = map_of cs k)
    \<and> (\<forall>k r. Call_SetTargetFPS k r \<in> set calls' \<longrightarrow>
          Call_SetTargetFPS k r \<in> set calls \<or> (k \<in> key ` set ds \<and> r = al k))"
  using assms
proof (induction ds arbitrary: dev cs calls)
  case Nil
  then show ?case by simp
next
  case (Cons d ds)
  obtain dev1 cs1 calls1 where t: "tick_apply i al rs d (dev, cs, calls) = (dev1, cs1, calls1)"
    by (metis prod_cases3)
  have one: "dev_AllocatedFPS dev1 = dev_AllocatedFPS dev + al (key d)"
    "AvailableFPS dev1 = AvailableFPS dev" "CapacitySource dev1 = CapacitySource dev"
    "cs1 = AList.update (key d) ((get_or zero_camera_status cs (key d))
          \<lparr>AllocatedFPS := al (key d), SaturationReason := rs (key d)\<rparr>) cs"
    "\<forall>k r. Call_SetTargetFPS k r \<in> set calls1 \<longrightarrow>
          Call_SetTargetFPS k r \<in> set calls \<or> (k = key d \<and> r = al k)"
    using t by (auto simp: tick_apply_def Let_def split: option.splits if_splits)
  have fresh: "key d \<notin> key ` set ds" using Cons.prems(2) by simp
  have get: "get_or zero_camera_status cs1 (key e) = get_or zero_camera_status cs (key e)"
    if "e \<in> set ds" for e
  proof -
    have "key e \<noteq> key d" using that fresh by (metis image_eqI)
    then show ?thesis by (simp add: get_or_def one(4) update_conv')
  qed
  have IH: "dev_AllocatedFPS dev' = dev_AllocatedFPS dev1 + sum_list (map (\<lambda>d. al (key d)) ds)
    \<and> AvailableFPS dev' = AvailableFPS dev1 \<and> CapacitySource dev' = CapacitySource dev1
    \<and> (\<forall>d \<in> set ds. map_of cs' (key d) = Some ((get_or zero_camera_status cs1 (key d))
          \<lparr>AllocatedFPS := al (key d), SaturationReason := rs (key d)\<rparr>))
    \<and> (\<forall>k. k \<notin> key ` set ds \<longrightarrow> map_of cs' k = map_of cs1 k)
    \<and> (\<forall>k r. Call_SetTargetFPS k r \<in> set calls' \<longrightarrow>
          Call_SetTargetFPS k r \<in> set calls1 \<or> (k \<in> key ` set ds \<and> r = al k))"
    using Cons.IH [of dev1 cs1 calls1] Cons.prems t by simp
  have "map_of cs' (key d) = map_of cs1 (key d)" using IH fresh by blast
  then have here: "map_of cs' (key d) = Some ((get_or zero_camera_status cs (key d))
          \<lparr>AllocatedFPS := al (key d), SaturationReason := rs (key d)\<rparr>)"
    by (simp add: one(4) update_conv')
  have rest: "map_of cs' k = map_of cs k" if "k \<notin> key ` set (d # ds)" for k
    using IH that one(4) by (simp add: update_conv')
  have "Call_SetTargetFPS k r \<in> set calls \<or> (k \<in> key ` set (d # ds) \<and> r = al k)"
    if "Call_SetTargetFPS k r \<in> set calls'" for k r
    using that IH one(5) by (metis image_insert insert_iff list.simps(15))
  then show ?case using IH one(1,2,3) get here rest by simp
qed

text \<open>The status a tick publishes, for a Manager in a good state.\<close>

lemma Tick_status:
  assumes ok: "mgr_ok m" and act: "active i" and d: "distinct (CandidateKeys i)"
  defines "ks \<equiv> sort (CandidateKeys i)"
  defines "ds \<equiv> map (demand_for i m) ks"
  defines "dev \<equiv> measureDevice (Measure i) (Reserve (opt m))"
  defines "al \<equiv> fst (allocate ds (AvailableFPS dev) (CapacitySource dev = Measured_Latency))"
  shows "\<exists>st. status (snd (Tick i m)) = Some st
    \<and> dev_AllocatedFPS (Device st) = granted ds al
    \<and> AvailableFPS (Device st) = AvailableFPS dev
    \<and> (\<forall>k \<in> set ks. \<exists>s. map_of (cam_status st) k = Some s \<and> AllocatedFPS s = al k
          \<and> cs_MinFPS s = Controller_Min (next_ctrl i m k) \<and> RequestedFPS s = dwant (demand_for i m k))
    \<and> (\<forall>k r. Call_SetTargetFPS k r \<in> set (fst (Tick i m)) \<longrightarrow> k \<in> set ks \<and> r = al k)"
proof -
  have dk: "distinct ks" using d by (simp add: ks_def)
  have kd: "map key ds = ks" using demand_for_fair(6) [OF ok] by (simp add: ds_def comp_def)
  then have dd: "distinct (map key ds)" using dk by simp
  let ?a = "tick_scan i ks (scan_start m)"
  have dem: "demands ?a = ds" using tick_scan_spec [OF dk, of i "scan_start m"] by (simp add: ds_def)
  note C = tick_scan_cams [OF dk, of i "scan_start m"]
  obtain al' rs where ar: "allocate ds (AvailableFPS dev) (CapacitySource dev = Measured_Latency) = (al', rs)"
    by (metis surj_pair)
  then have al': "al' = al" by (simp add: al_def)
  obtain dev1 cs calls where f: "foldl (\<lambda>acc d. tick_apply i al rs d acc) (dev, cams ?a, sensChanges ?a) ds
      = (dev1, cs, calls)" by (metis prod_cases3)
  note F = tick_apply_spec [OF f dd]
  let ?dev2 = "dev1\<lparr>Cameras := length ds\<rparr>"
  let ?dev3 = "if CapacitySource ?dev2 = Measured_Latency
     then ?dev2\<lparr>HeadroomFPS := max 0 (AvailableFPS ?dev2 - dev_AllocatedFPS ?dev2)\<rparr> else ?dev2"
  have T: "Tick i m = (calls, (prune_unseen ks (acc_m ?a))\<lparr>status :=
      Some \<lparr>Device = ?dev3, cam_status = cs\<rparr>\<rparr>)"
    unfolding Tick_def using act
    by (simp add: Let_def ks_def [symmetric] dem dev_def [symmetric] ar al' f)
  have "dev_AllocatedFPS dev = 0" by (simp add: dev_def measureDevice_def Let_def)
  then have tot: "dev_AllocatedFPS dev1 = granted ds al"
    using F dd by (simp add: distinct_map sum_list_distinct_conv_sum_set)
  have cam: "\<exists>s. map_of cs k = Some s \<and> AllocatedFPS s = al k
          \<and> cs_MinFPS s = Controller_Min (next_ctrl i m k) \<and> RequestedFPS s = dwant (demand_for i m k)"
    if k: "k \<in> set ks" for k
  proof -
    have "demand_for i m k \<in> set ds" "key (demand_for i m k) = k"
      using k demand_for_fair(6) [OF ok] by (simp_all add: ds_def)
    then have "map_of cs k = Some ((get_or zero_camera_status (cams ?a) k)
          \<lparr>AllocatedFPS := al k, SaturationReason := rs k\<rparr>)" using F by metis
    moreover have "get_or zero_camera_status (cams ?a) k = status_for i m k"
      using C k by (simp add: get_or_def)
    ultimately show ?thesis by (simp add: status_for_def Let_def)
  qed
  have "set ks = key ` set ds" using kd by (metis set_map)
  then have "\<forall>k r. Call_SetTargetFPS k r \<in> set calls \<longrightarrow> k \<in> set ks \<and> r = al k"
    using F C by auto
  with T tot cam F show ?thesis by (intro exI [of _ "\<lparr>Device = ?dev3, cam_status = cs\<rparr>"]) auto
qed

section \<open>Properties\<close>

text \<open>C5. Once the worker's capacity is measured and the cameras' guaranteed rates fit into the part
  of it that may be allocated, every tick of every reachable Manager gives each running camera at
  least its guaranteed rate and at most what it asked for, the rates add up to no more than the
  available capacity (which is at most the measured one), they use it up to \<open>10^-9\<close> unless every
  camera got what it asked for, and the samplers are set to exactly these rates.\<close>

theorem tick_within_capacity:
  assumes "mgr_init m0" "mgr_step\<^sup>*\<^sup>* m0 m" "active i" "distinct (CandidateKeys i)"
    and "CapacitySource (measureDevice (Measure i) (Reserve (opt m))) = Measured_Latency"
    and "(\<Sum>k \<in> set (CandidateKeys i). Controller_Min (next_ctrl i m k))
           \<le> AvailableFPS (measureDevice (Measure i) (Reserve (opt m)))"
  shows "\<exists>st. status (snd (Tick i m)) = Some st
    \<and> dev_AllocatedFPS (Device st) \<le> AvailableFPS (Device st)
    \<and> AvailableFPS (Device st) \<le> CapacityFPS (measureDevice (Measure i) (Reserve (opt m)))
    \<and> (\<forall>k \<in> set (CandidateKeys i). \<exists>s. map_of (cam_status st) k = Some s
          \<and> cs_MinFPS s = Controller_Min (next_ctrl i m k) \<and> cs_MinFPS s \<le> AllocatedFPS s
          \<and> AllocatedFPS s \<le> RequestedFPS s \<and> RequestedFPS s \<le> Ceiling (next_ctrl i m k)
          \<and> (\<forall>r. Call_SetTargetFPS k r \<in> set (fst (Tick i m)) \<longrightarrow> r = AllocatedFPS s))
    \<and> ((\<forall>k \<in> set (CandidateKeys i). \<exists>s. map_of (cam_status st) k = Some s
          \<and> AllocatedFPS s = RequestedFPS s)
        \<or> AvailableFPS (Device st) - 1 / 10 ^ 9 \<le> dev_AllocatedFPS (Device st))"
proof -
  have ok: "mgr_ok m" using mgr.invar_reachable assms(1,2) by blast
  define ks where "ks = sort (CandidateKeys i)"
  define ds where "ds = map (demand_for i m) ks"
  define dev where "dev = measureDevice (Measure i) (Reserve (opt m))"
  define al where "al = fst (allocate ds (AvailableFPS dev) True)"
  have dk: "distinct ks" and sk: "set ks = set (CandidateKeys i)" using assms(4) by (simp_all add: ks_def)
  have kd: "key (demand_for i m k) = k" for k by (rule demand_for_fair(6) [OF ok])
  have fair: "fair_demands ds" unfolding ds_def by (rule demands_fair [OF ok dk])
  have "sum_list (map dmin ds) = (\<Sum>k \<in> set ks. Controller_Min (next_ctrl i m k))"
    using dk demand_for_fair(1) [OF ok] by (simp add: ds_def comp_def sum_list_distinct_conv_sum_set)
  then have fit: "sum_list (map dmin ds) \<le> AvailableFPS dev" using assms(6) sk by (simp add: dev_def)
  note A = allocate_within_capacity [OF fair fit, folded al_def]
  have in_ds: "demand_for i m k \<in> set ds" if "k \<in> set ks" for k using that by (simp add: ds_def)
  have bnd: "Controller_Min (next_ctrl i m k) \<le> al k \<and> al k \<le> dwant (demand_for i m k)"
    if "k \<in> set ks" for k
    using A(1) [OF in_ds [OF that]] kd demand_for_fair(1) [OF ok] by simp
  have av: "AvailableFPS dev \<le> CapacityFPS dev"
    using measureDevice_available(2) assms(5) ok by (simp add: dev_def mgr_ok_def)
  obtain st where st: "status (snd (Tick i m)) = Some st" "dev_AllocatedFPS (Device st) = granted ds al"
    "AvailableFPS (Device st) = AvailableFPS dev"
    "\<forall>k \<in> set ks. \<exists>s. map_of (cam_status st) k = Some s \<and> AllocatedFPS s = al k
          \<and> cs_MinFPS s = Controller_Min (next_ctrl i m k) \<and> RequestedFPS s = dwant (demand_for i m k)"
    "\<forall>k r. Call_SetTargetFPS k r \<in> set (fst (Tick i m)) \<longrightarrow> k \<in> set ks \<and> r = al k"
    using Tick_status [OF ok assms(3,4)] assms(5)
    by (auto simp: al_def ds_def dev_def ks_def)
  have each: "\<exists>s. map_of (cam_status st) k = Some s
          \<and> cs_MinFPS s = Controller_Min (next_ctrl i m k) \<and> cs_MinFPS s \<le> AllocatedFPS s
          \<and> AllocatedFPS s \<le> RequestedFPS s \<and> RequestedFPS s \<le> Ceiling (next_ctrl i m k)
          \<and> (\<forall>r. Call_SetTargetFPS k r \<in> set (fst (Tick i m)) \<longrightarrow> r = AllocatedFPS s)"
    if "k \<in> set ks" for k
    using st(4,5) that bnd [OF that] demand_for_fair(3) [OF ok] by fastforce
  have "(\<forall>k \<in> set ks. al k = dwant (demand_for i m k)) \<or> AvailableFPS dev - 1 / 10 ^ 9 \<le> granted ds al"
    using A(3) in_ds kd by metis
  then have used: "(\<forall>k \<in> set ks. \<exists>s. map_of (cam_status st) k = Some s \<and> AllocatedFPS s = RequestedFPS s)
        \<or> AvailableFPS (Device st) - 1 / 10 ^ 9 \<le> dev_AllocatedFPS (Device st)"
    using st(2,3,4) by metis
  show ?thesis
    using st(1,2,3) A(2) av each used by (intro exI [of _ st]) (auto simp: sk [symmetric] dev_def)
qed

definition sample_opts :: options where
  "sample_opts = \<lparr>GlobalTargetFPS = 5,
     Default = zero_camera_config\<lparr>Mode := ModeAdaptive, MotionSensitivity := ''medium''\<rparr>,
     Reserve = 1 / 10\<rparr>"

definition sample_tick :: tick_input where
  "sample_tick = \<lparr>active = True, tick_now = 0, CandidateKeys = [''a'', ''b''],
     motion_of = (\<lambda>_. ''idle''), CurrentTargetFPS = (\<lambda>_. Some 5),
     Measure = [(''a'', \<lparr>EffectiveFPS = 5, LatencyMS = 50, Samples = 20, Dropped = 0\<rparr>)]\<rparr>"

lemma sample_opts_ok: "default_ok sample_opts" "rate_in_range (GlobalTargetFPS sample_opts)"
  by (simp_all add: default_ok_def policy_ok_def CameraConfig_Validate_def check_rates_def
      sample_opts_def WithDefaults_def mergeDefault_def zero_camera_config_def rate_in_range_def
      contract_MinFPS_def contract_MaxFPS_def ModeAdaptive_def ModeFixed_def DefaultIdleFPS_def
      DefaultActiveFPS_def DefaultMaxFPS_def DefaultIdleTimeout_def second_def PriorityNormal_def
      PriorityLow_def PriorityHigh_def)

lemma sample_available:
  "CapacitySource (measureDevice (Measure sample_tick) (Reserve (opt (NewManager sample_opts)))) =
     Measured_Latency"
  "AvailableFPS (measureDevice (Measure sample_tick) (Reserve (opt (NewManager sample_opts)))) = 18"
  by (simp_all add: measureDevice_def sample_tick_def NewManager_def sample_opts_def
      latency_counts_def minLatencySamples_def)

lemma sample_min: "Controller_Min (next_ctrl sample_tick (NewManager sample_opts) k) = 2"
  by (simp add: next_ctrl_def Controller_Min_def ctrl_for_def NewManager_def sample_opts_def
      sample_tick_def NewController_def Configure_def configForLocked_def get_or_def WithDefaults_def
      mergeDefault_def zero_camera_config_def Controller_Update_def DefaultIdleFPS_def Let_def)

theorem tick_within_capacity_witness:
  "\<exists>st. status (snd (Tick sample_tick (NewManager sample_opts))) = Some st
    \<and> dev_AllocatedFPS (Device st) \<le> AvailableFPS (Device st)"
proof -
  have "mgr_init (NewManager sample_opts)" using sample_opts_ok by (auto simp: mgr_init_def)
  moreover have "active sample_tick" "distinct (CandidateKeys sample_tick)"
    by (simp_all add: sample_tick_def)
  moreover have "(\<Sum>k \<in> set (CandidateKeys sample_tick).
      Controller_Min (next_ctrl sample_tick (NewManager sample_opts) k)) \<le> 18"
    unfolding sample_min by (simp add: sample_tick_def)
  ultimately show ?thesis
    using tick_within_capacity [of "NewManager sample_opts" "NewManager sample_opts" sample_tick]
      sample_available by auto
qed

text \<open>C18. \<open>waterFill\<close> ends on every list of demands and computes the weighted water level: there is
  one level \<open>L\<close> such that each demand gets the smaller of what it wants and \<open>weight * L\<close>, and the
  grants either satisfy everyone or use the budget up to \<open>10^-9\<close>, never more than the budget.\<close>

theorem water_level:
  assumes "distinct (map key ds)" "\<forall>d \<in> set ds. weight d > 0 \<and> dwant d \<ge> 0" "0 \<le> budget"
  shows "\<exists>L \<ge> 0. (\<forall>d \<in> set ds. waterFill ds budget (key d) = min (dwant d) (weight d * L))
    \<and> (\<Sum>d \<in> set ds. waterFill ds budget (key d)) \<le> budget
    \<and> ((\<forall>d \<in> set ds. waterFill ds budget (key d) = dwant d)
        \<or> budget - 1 / 10 ^ 9 \<le> (\<Sum>d \<in> set ds. waterFill ds budget (key d)))"
  using waterFill_level assms by (simp add: well_posed_def)

definition sample_demands :: "demand list" where
  "sample_demands = [\<lparr>key = ''a'', dmin = 1, dwant = 1, weight = 1\<rparr>,
     \<lparr>key = ''b'', dmin = 1, dwant = 10, weight = 4\<rparr>, \<lparr>key = ''c'', dmin = 1, dwant = 10, weight = 2\<rparr>]"

theorem water_level_witness:
  "\<exists>L \<ge> 0. \<forall>d \<in> set sample_demands. waterFill sample_demands 7 (key d) = min (dwant d) (weight d * L)"
  using water_level [of sample_demands 7] by (auto simp: sample_demands_def)

text \<open>In overload, when not even the guaranteed rates fit, nobody is cut below \<open>MinFPS\<close>; with
  more than ten cameras per available frame per second that floor alone promises more than the
  worker has, while the total stays within one floor per camera of the available capacity.\<close>

theorem overload_floor_exceeds_capacity:
  assumes "fair_demands ds" "0 \<le> available" "available < sum_list (map dmin ds)"
    and "available < contract_MinFPS * of_nat (length ds)"
  shows "available < (\<Sum>d \<in> set ds. fst (allocate ds available True) (key d))
    \<and> (\<Sum>d \<in> set ds. fst (allocate ds available True) (key d))
        \<le> available + contract_MinFPS * of_nat (length ds)"
proof -
  have "card (set ds) = length ds"
    using assms(1) by (simp add: fair_demands_def distinct_map distinct_card)
  then have "contract_MinFPS * of_nat (length ds) \<le> (\<Sum>d \<in> set ds. fst (allocate ds available True) (key d))"
    using sum_mono [of "set ds" "\<lambda>_. contract_MinFPS" "\<lambda>d. fst (allocate ds available True) (key d)"]
      allocate_overload_bounds(1) [OF assms(1,3,2)] by (simp add: mult.commute)
  then show ?thesis using assms(4) allocate_overload_bounds(2) [OF assms(1,3,2)] by linarith
qed

theorem overload_floor_witness:
  "(1 / 5 :: rat) < (\<Sum>d \<in> set sample_demands. fst (allocate sample_demands (1 / 5) True) (key d))"
  using overload_floor_exceeds_capacity [of sample_demands "1 / 5"]
  by (simp add: sample_demands_def fair_demands_def contract_MinFPS_def)

section \<open>A camera without motion\<close>

definition quiet :: "gotime list \<Rightarrow> controller \<Rightarrow> controller" where
  "quiet ts k = foldl (\<lambda>k t. snd (Controller_Update t False k)) k ts"

lemma quiet_simps [simp]:
  "quiet [] k = k" "quiet (t # ts) k = quiet ts (snd (Controller_Update t False k))"
  "quiet (ts @ us) k = quiet us (quiet ts k)"
  by (simp_all add: quiet_def)

lemma rampStep_due: "time_sub t u \<ge> rampStep \<longleftrightarrow> t - u \<ge> rampStep"
  by (rule time_sub_ge_iff) (simp_all add: rampStep_def second_def)

lemma timeout_due:
  "policy_ok p \<Longrightarrow> time_sub t u \<ge> IdleTimeout p \<longleftrightarrow> t - u \<ge> IdleTimeout p"
  by (rule time_sub_ge_iff) (auto simp: policy_ok_iff second_def)

text \<open>\<open>ramped n tau k\<close>: by time \<open>tau\<close> the controller has taken at least \<open>n\<close> steps down, or is idle.\<close>

definition ramped :: "camera_config \<Rightarrow> nat \<Rightarrow> gotime \<Rightarrow> controller \<Rightarrow> bool" where
  "ramped p n tau k \<longleftrightarrow> cfg k = p \<and>
     (ctl k = StateIdle \<and> want k = IdleFPS p
      \<or> ctl k = StateCooldown \<and> rampAt k \<le> tau \<and> IdleFPS p < want k
        \<and> want k \<le> ActiveFPS p - of_nat n * (rampFraction * (ActiveFPS p - IdleFPS p)))"

lemma stepDown_ramped:
  assumes "cfg k = p" "ctl k = StateCooldown" "rampAt k \<le> tau"
    "want k \<le> ActiveFPS p - of_nat n * (rampFraction * (ActiveFPS p - IdleFPS p))"
  shows "ramped p (Suc n) tau (stepDown k)"
  using assms by (auto simp: ramped_def stepDown_def Let_def algebra_simps)

lemma ramped_later:
  assumes "ramped p n tau k" "tau \<le> tau'" "m \<le> n" "IdleFPS p \<le> ActiveFPS p"
  shows "ramped p m tau' k"
proof -
  have "of_nat m * (rampFraction * (ActiveFPS p - IdleFPS p))
      \<le> of_nat n * (rampFraction * (ActiveFPS p - IdleFPS p))"
    using assms(3,4) by (intro mult_right_mono) (simp_all add: rampFraction_def)
  with assms(1,2) show ?thesis by (auto simp: ramped_def)
qed

lemma ramped_update:
  assumes r: "ramped p n tau k" and p: "Mode p = ModeAdaptive" "IdleFPS p \<le> ActiveFPS p" and t: "t \<le> tau'" "tau \<le> tau'"
  shows "ramped p n tau' (snd (Controller_Update t False k))"
    and "t - tau \<ge> rampStep \<Longrightarrow> ramped p (Suc n) tau' (snd (Controller_Update t False k))"
proof -
  have c: "cfg k = p" using r by (simp add: ramped_def)
  have s: "ramped p (Suc n) tau' (stepDown (k\<lparr>rampAt := t\<rparr>))" if "ctl k = StateCooldown"
    using r that t(1) by (intro stepDown_ramped) (auto simp: ramped_def)
  note keep = ramped_later [OF r t(2) order_refl p(2)] ramped_later [OF s order_refl _ p(2), of n]
  have idle: "ramped p m tau'' k" if "ctl k = StateIdle" for m tau''
    using r that by (auto simp: ramped_def)
  have st: "ctl k = StateIdle \<or> ctl k = StateCooldown" using r by (auto simp: ramped_def)
  show "ramped p n tau' (snd (Controller_Update t False k))"
    using st keep idle p(1) c by (auto simp: Controller_Update_def Let_def)
  assume "t - tau \<ge> rampStep"
  then have "t - rampAt k \<ge> rampStep" if "ctl k = StateCooldown"
    using r that by (auto simp: ramped_def)
  then show "ramped p (Suc n) tau' (snd (Controller_Update t False k))"
    using st s idle p(1) c by (auto simp: Controller_Update_def Let_def rampStep_due)
qed

lemma ramped_quiet:
  assumes "ramped p n tau k" "Mode p = ModeAdaptive" "IdleFPS p \<le> ActiveFPS p" "\<forall>t \<in> set ts. t \<le> tau'" "tau \<le> tau'"
  shows "ramped p n tau' (quiet ts k)"
  using assms
proof (induction ts arbitrary: k tau)
  case Nil
  then show ?case using ramped_later [of p n tau k tau' n] by simp
next
  case (Cons t ts)
  then show ?case using ramped_update(1) [of p n tau k t tau'] by simp
qed

text \<open>One more step: a quiet stretch followed by an update at least a ramp step later.\<close>

lemma ramped_next:
  assumes r: "ramped p n tau k" and p: "Mode p = ModeAdaptive" "IdleFPS p \<le> ActiveFPS p"
    and s: "sorted (tau # ts @ [t])" and d: "t - tau \<ge> rampStep"
  shows "ramped p (Suc n) t (quiet (ts @ [t]) k)"
proof -
  have le: "\<forall>u \<in> set ts. tau \<le> u \<and> u \<le> t" using s by (auto simp: sorted_append)
  have "ramped p n tau k' \<or> ramped p (Suc n) t k'" if "k' = quiet ts k" for k'
    using that r le
  proof (induction ts arbitrary: k)
    case Nil
    then show ?case by simp
  next
    case (Cons u us)
    have up: "ramped p (Suc n) t (quiet us k2)" if "ramped p (Suc n) t k2" for k2
      using that Cons.prems(3) by (intro ramped_quiet [OF that p]) auto
    have c: "cfg k = p" using Cons.prems(2) by (simp add: ramped_def)
    show ?case
    proof (cases "ctl k = StateCooldown \<and> u - rampAt k \<ge> rampStep")
      case True
      then have "ramped p (Suc n) t (stepDown (k\<lparr>rampAt := u\<rparr>))"
        using Cons.prems(2,3) by (intro stepDown_ramped) (auto simp: ramped_def)
      moreover have "snd (Controller_Update u False k) = stepDown (k\<lparr>rampAt := u\<rparr>)"
        using True p(1) c by (simp add: Controller_Update_def Let_def rampStep_due)
      ultimately show ?thesis using up Cons.prems(1) by simp
    next
      case False
      moreover have "ctl k = StateIdle \<or> ctl k = StateCooldown" using Cons.prems(2) by (auto simp: ramped_def)
      ultimately have "snd (Controller_Update u False k) = k"
        using p(1) c by (auto simp: Controller_Update_def Let_def rampStep_due)
      then show ?thesis using Cons by simp
    qed
  qed
  then consider "ramped p n tau (quiet ts k)" | "ramped p (Suc n) t (quiet ts k)" by blast
  then show ?thesis
  proof cases
    case 1
    then show ?thesis using ramped_update(2) [OF 1 p, of t t] d s by (simp add: sorted_append)
  next
    case 2
    then show ?thesis using ramped_update(1) [OF 2 p, of t t] by simp
  qed
qed

lemma ramped_four: "ramped p 4 tau k \<Longrightarrow> ctl k = StateIdle \<and> want k = IdleFPS p"
proof -
  have "(4 :: rat) * (rampFraction * x) = x" for x by (simp add: rampFraction_def)
  then show "ramped p 4 tau k \<Longrightarrow> ctl k = StateIdle \<and> want k = IdleFPS p"
    by (auto simp: ramped_def)
qed

text \<open>From the active state: nothing happens until the idle timeout, then the first step.\<close>

lemma active_first_step:
  assumes ok: "policy_ok p" "Mode p = ModeAdaptive"
    and k: "cfg k = p" "ctl k = StateActive" "want k = ActiveFPS p"
    and s: "sorted (ts @ [t])" and d: "t - lastMotion k \<ge> IdleTimeout p"
  shows "ramped p 1 t (quiet (ts @ [t]) k)"
proof -
  have ord: "IdleFPS p \<le> ActiveFPS p" using ok by (simp add: policy_ok_iff)
  have step: "ramped p 1 t (stepDown (k\<lparr>ctl := StateCooldown, rampAt := u\<rparr>))" if "u \<le> t" for u
    using stepDown_ramped [of "k\<lparr>ctl := StateCooldown, rampAt := u\<rparr>" p t 0] that k by simp
  have upd: "snd (Controller_Update u False k) =
      (if u - lastMotion k \<ge> IdleTimeout p then stepDown (k\<lparr>ctl := StateCooldown, rampAt := u\<rparr>) else k)" for u
    using k ok by (simp add: Controller_Update_def Let_def timeout_due [OF ok(1)])
  have "quiet ts k = k \<or> ramped p 1 t (quiet ts k)"
    using s
  proof (induction ts)
    case Nil
    then show ?case by simp
  next
    case (Cons u us)
    then have le: "u \<le> t" "\<forall>x \<in> set us. x \<le> t" by (auto simp: sorted_append)
    show ?case
    proof (cases "u - lastMotion k \<ge> IdleTimeout p")
      case True
      then show ?thesis
        using ramped_quiet [OF step [OF le(1)] ok(2) ord le(2)] by (simp add: upd)
    next
      case False
      with Cons show ?thesis by (simp add: upd)
    qed
  qed
  then consider "quiet ts k = k" | "ramped p 1 t (quiet ts k)" by blast
  then show ?thesis
  proof cases
    case 1
    then show ?thesis using step [of t] d by (simp add: upd)
  next
    case 2
    then show ?thesis using ramped_update(1) [OF 2 ok(2) ord, of t t] by simp
  qed
qed

text \<open>An adaptive camera whose motion has ended returns to its idle rate: however often it is
  updated in between, one update after the idle timeout and three more, each at least \<open>rampStep\<close>
  (one second) after the previous one, bring it to the idle state and the idle rate, and it never
  asks for less.\<close>

theorem quiet_camera_returns_to_idle:
  assumes "policy_ok (cfg k)" "Mode (cfg k) = ModeAdaptive" "ctl k = StateActive"
    "want k = ActiveFPS (cfg k)"
    and "sorted (us0 @ [t0] @ us1 @ [t1] @ us2 @ [t2] @ us3 @ [t3] @ us4)"
    and "t0 - lastMotion k \<ge> IdleTimeout (cfg k)"
    and "t1 - t0 \<ge> rampStep" "t2 - t1 \<ge> rampStep" "t3 - t2 \<ge> rampStep"
  shows "let k' = quiet (us0 @ [t0] @ us1 @ [t1] @ us2 @ [t2] @ us3 @ [t3] @ us4) k
         in ctl k' = StateIdle \<and> want k' = IdleFPS (cfg k)"
proof -
  let ?p = "cfg k"
  have ord: "IdleFPS ?p \<le> ActiveFPS ?p" using assms(1,2) by (simp add: policy_ok_iff)
  have r1: "ramped ?p 1 t0 (quiet (us0 @ [t0]) k)"
    using assms by (intro active_first_step) (auto simp: sorted_append)
  have r2: "ramped ?p 2 t1 (quiet (us1 @ [t1]) (quiet (us0 @ [t0]) k))"
    using ramped_next [OF r1 assms(2) ord, of us1 t1] assms(5,7) by (simp add: sorted_append numeral_2_eq_2)
  have r3: "ramped ?p 3 t2 (quiet (us2 @ [t2]) (quiet (us1 @ [t1]) (quiet (us0 @ [t0]) k)))"
    using ramped_next [OF r2 assms(2) ord, of us2 t2] assms(5,8) by (simp add: sorted_append numeral_3_eq_3 numeral_2_eq_2)
  have r4: "ramped ?p 4 t3 (quiet (us3 @ [t3]) (quiet (us2 @ [t2]) (quiet (us1 @ [t1]) (quiet (us0 @ [t0]) k))))"
    using ramped_next [OF r3 assms(2) ord, of us3 t3] assms(5,9) by (simp add: sorted_append eval_nat_numeral)
  have "\<forall>t \<in> set us4. t \<le> max t3 (Max (set (t3 # us4)))" by auto
  then have "ramped ?p 4 (max t3 (Max (set (t3 # us4))))
      (quiet us4 (quiet (us3 @ [t3]) (quiet (us2 @ [t2]) (quiet (us1 @ [t1]) (quiet (us0 @ [t0]) k)))))"
    using ramped_quiet [OF r4 assms(2) ord] by simp
  from ramped_four [OF this] show ?thesis by (simp add: Let_def)
qed

definition sample_active :: controller where
  "sample_active = snd (Controller_Update 0 True (NewController (configForLocked (NewManager sample_opts) [])))"

theorem quiet_camera_witness:
  "let k' = quiet [10 * second, 11 * second, 12 * second, 13 * second] sample_active
   in ctl k' = StateIdle \<and> want k' = 2"
proof -
  have ok: "policy_ok (cfg sample_active)"
    using NewManager_ok [OF sample_opts_ok] by (simp add: sample_active_def mgr_ok_def NewController_def Configure_def Let_def)
  have "Mode (cfg sample_active) = ModeAdaptive \<and> ctl sample_active = StateActive
      \<and> want sample_active = ActiveFPS (cfg sample_active) \<and> lastMotion sample_active = 0
      \<and> IdleTimeout (cfg sample_active) = 10 * second \<and> IdleFPS (cfg sample_active) = 2"
    by (simp add: sample_active_def NewManager_def sample_opts_def NewController_def Configure_def
        configForLocked_def get_or_def WithDefaults_def mergeDefault_def zero_camera_config_def
        Controller_Update_def DefaultIdleFPS_def DefaultIdleTimeout_def Let_def)
  then show ?thesis
    using quiet_camera_returns_to_idle [OF ok, of "[]" "10 * second" "[]" "11 * second" "[]"
        "12 * second" "[]" "13 * second" "[]"]
    by (simp add: second_def rampStep_def)
qed

text \<open>A new policy that lowers the idle rate does not reach a camera that is idle: \<open>Configure\<close>
  clamps the old rate into the new policy's range and the idle state never recomputes it, so without
  motion the camera keeps asking for the old idle rate for ever.\<close>

theorem lowered_idle_rate_ignored:
  assumes "policy_ok p" "policy_ok q" "Mode p = ModeAdaptive" "Mode q = ModeAdaptive"
    and "IdleFPS q < IdleFPS p" "IdleFPS p \<le> MaxFPS q"
  shows "want (quiet ts (Configure q (NewController p))) = IdleFPS p
    \<and> IdleFPS p \<noteq> IdleFPS (cfg (quiet ts (Configure q (NewController p))))"
proof -
  let ?k = "Configure q (NewController p)"
  have pm: "IdleFPS p \<le> MaxFPS p" using assms(1,3) by (auto simp: policy_ok_iff)
  have k: "cfg ?k = q" "ctl ?k = StateIdle" "want ?k = IdleFPS p"
    using assms pm by (simp_all add: Configure_def NewController_def Let_def)
  have "quiet ts k = k" if "ctl k = StateIdle" "Mode (cfg k) = ModeAdaptive" for k
    using that by (induction ts) (simp_all add: Controller_Update_def)
  then show ?thesis using k assms by simp
qed

theorem lowered_idle_witness:
  "let p = WithDefaults 5 (zero_camera_config\<lparr>Mode := ModeAdaptive\<rparr>); q = p\<lparr>IdleFPS := 1\<rparr>
   in policy_ok p \<and> policy_ok q
      \<and> want (quiet [second, 60 * second] (Configure q (NewController p))) = 2"
proof -
  let ?p = "WithDefaults 5 (zero_camera_config\<lparr>Mode := ModeAdaptive\<rparr>)"
  let ?q = "?p\<lparr>IdleFPS := 1\<rparr>"
  have "policy_ok ?p" "policy_ok ?q" "Mode ?p = ModeAdaptive" "IdleFPS ?p = 2" "MaxFPS ?q = 15"
    by (simp_all add: policy_ok_def CameraConfig_Validate_def check_rates_def
      WithDefaults_def zero_camera_config_def rate_in_range_def
      contract_MinFPS_def contract_MaxFPS_def ModeAdaptive_def ModeFixed_def DefaultIdleFPS_def
      DefaultActiveFPS_def DefaultMaxFPS_def DefaultIdleTimeout_def second_def PriorityNormal_def
      PriorityLow_def PriorityHigh_def)
  then show ?thesis using lowered_idle_rate_ignored [of ?p ?q "[second, 60 * second]"] by (simp add: Let_def)
qed

text \<open>The same defect while ramping: a policy without a ramp (\<open>active_fps = idle_fps\<close>) that reaches a
  camera above it leaves the camera at its old rate, since every step down subtracts zero.\<close>

lemma ramp_without_step_stuck:
  assumes "Mode (cfg k) = ModeAdaptive" "ActiveFPS (cfg k) = IdleFPS (cfg k)"
    "want k > IdleFPS (cfg k) + 1 / 10 ^ 9"
  shows "want (quiet ts k) = want k"
  using assms
proof (induction ts arbitrary: k)
  case Nil
  then show ?case by simp
next
  case (Cons t ts)
  have "want (snd (Controller_Update t False k)) = want k"
    using Cons.prems by (simp add: Controller_Update_def Let_def stepDown_def split: ctrl_state.split)
  moreover have "want (quiet ts (snd (Controller_Update t False k)))
      = want (snd (Controller_Update t False k))"
    using Cons.prems calculation by (intro Cons.IH) simp_all
  ultimately show ?case by simp
qed

text \<open>\<open>SetCameraConfig\<close> validates the override completed by the built-in defaults, but the policy in force
  is the override over the Manager's own default: an accepted override can make the policy in force
  invalid (here \<open>idle_fps\<close> 6 over a default \<open>active_fps\<close> of 5). \<open>ApplyRemote\<close> validates the merged policy.\<close>

lemma SetCameraConfig_accepts_unordered:
  "let def = zero_camera_config\<lparr>Mode := ModeAdaptive, ActiveFPS := 5, MaxFPS := 8\<rparr>;
       m = NewManager \<lparr>GlobalTargetFPS = 5, Default = def, Reserve = 0\<rparr>;
       (er, m') = SetCameraConfig ''a'' (Some (zero_camera_config\<lparr>Mode := ModeAdaptive, IdleFPS := 6\<rparr>)) m
   in CameraConfig_Validate (configForLocked m ''a'') = None \<and> er = None
      \<and> CameraConfig_Validate (configForLocked m' ''a'') = Some (Rates_Not_Ordered 6 5 8)"
  by code_simp

end
