(* ===== verification/RemoteConfig.thy ===== *)
theory RemoteConfig
  imports Inference
begin

text \<open>
  Package \<open>remoteconfig\<close>, part one: the configuration document of \<open>types.go\<close>, its validation, and the
  overlay functions \<open>copyConfig\<close> and \<open>MergeConfig\<close> of \<open>adapter.go\<close>.
  Pointers of the Go structs are options; a slice that may be nil is an option of a list. One pointer
  needs more than that: \<open>snapshotCurrentConfig\<close> stores \<open>&a.currentMode\<close>, the address of a field that
  keeps changing, so the \<open>ProcessingMode\<close> pointer is either a cell of its own or that field, and
  every function that dereferences it takes the field's present value. JSON decoding is a parameter
  where it is used; camera keys and field names are ASCII strings, on which \<open>strings.ToLower\<close> and
  \<open>strings.TrimSpace\<close> are modelled byte by byte.
\<close>

section \<open>Strings\<close>

definition to_lower_char :: "char \<Rightarrow> char" where
  "to_lower_char c =
     (let n = of_char c :: nat in if 65 \<le> n \<and> n \<le> 90 then char_of (n + 32) else c)"

definition to_lower :: "string \<Rightarrow> string" where
  "to_lower s = map to_lower_char s"

definition is_space :: "char \<Rightarrow> bool" where
  "is_space c \<longleftrightarrow> (let n = of_char c :: nat in n = 32 \<or> (9 \<le> n \<and> n \<le> 13))"

definition trim_space :: "string \<Rightarrow> string" where
  "trim_space s = rev (dropWhile is_space (rev (dropWhile is_space s)))"

text \<open>\<open>strings.Contains(s, sub)\<close>.\<close>

fun contains_str :: "string \<Rightarrow> string \<Rightarrow> bool" where
  "contains_str [] sub = (sub = [])"
| "contains_str (c # s) sub = (has_prefix (c # s) sub \<or> contains_str s sub)"

definition containsPathOrURL :: "string \<Rightarrow> bool" where
  "containsPathOrURL s =
     (let lower = to_lower s
      in if CHR ''/'' \<in> set s \<or> char_of (92 :: nat) \<in> set s \<or> contains_str s ''..'' then True
         else has_prefix lower ''http:'' \<or> has_prefix lower ''https:''
              \<or> has_prefix lower ''rtsp:'' \<or> has_prefix lower ''file:'')"

section \<open>Documents\<close>

definition ModeCloud :: string where "ModeCloud = ''cloud''"
definition ModeHybrid :: string where "ModeHybrid = ''hybrid''"
definition ModeEdge :: string where "ModeEdge = ''edge''"

definition ParseProcessingMode :: "string \<Rightarrow> string option" where
  "ParseProcessingMode s = (if s \<in> {ModeCloud, ModeHybrid, ModeEdge} then Some s else None)"

definition SupportedPersonModel :: string where "SupportedPersonModel = ''yolo11s-pose.pt''"
definition SupportedVehicleModel :: string where "SupportedVehicleModel = ''yolo11n.pt''"

definition MinVideoTargetFPS :: rat where "MinVideoTargetFPS = 1 / 10"
definition MaxVideoTargetFPS :: rat where "MaxVideoTargetFPS = 30"
definition DefaultVideoTargetFPS :: rat where "DefaultVideoTargetFPS = 5"
definition MaxVideoOutputWidth :: int where "MaxVideoOutputWidth = 1920"
definition MaxVideoOutputHeight :: int where "MaxVideoOutputHeight = 1080"

record roi =
  XMin :: rat
  YMin :: rat
  XMax :: rat
  YMax :: rat

record camera_inference =
  inf_Mode :: string
  inf_IdleFPS :: rat
  inf_ActiveFPS :: rat
  inf_MaxFPS :: rat
  inf_MotionSensitivity :: string
  IdleTimeoutS :: int
  inf_Priority :: string

record camera_anpr =
  Enabled :: bool
  HighSpeedLPR :: bool
  anpr_BurstFPS :: rat
  BurstDurationMS :: int

record camera_override =
  cam_TargetFPS :: "rat option"
  cam_OutputWidth :: "int option"
  cam_OutputHeight :: "int option"
  cam_HybridROIs :: "roi list option"
  ANPR :: "camera_anpr option"
  cam_Inference :: "camera_inference option"

text \<open>Where a \<open>*config.ProcessingMode\<close> points: a cell with its own value, or \<open>&a.currentMode\<close>.\<close>

datatype mode_ptr = Cell string | Field_CurrentMode

fun deref :: "string \<Rightarrow> mode_ptr \<Rightarrow> string" where
  "deref cm (Cell m) = m"
| "deref cm Field_CurrentMode = cm"

record runtime_config =
  ProcessingMode :: "mode_ptr option"
  rc_TargetFPS :: "rat option"
  OutputWidth :: "int option"
  OutputHeight :: "int option"
  HybridROIs :: "roi list option"
  PersonModel :: "string option"
  VehicleModel :: "string option"
  rc_Cameras :: "(string \<times> camera_override) list option"

definition empty_config :: runtime_config where
  "empty_config = \<lparr>ProcessingMode = None, rc_TargetFPS = None, OutputWidth = None,
     OutputHeight = None, HybridROIs = None, PersonModel = None, VehicleModel = None,
     rc_Cameras = None\<rparr>"

text \<open>\<open>CameraInferenceConfig.Policy\<close>; the receiver may be nil.\<close>

definition Policy :: "rat option \<Rightarrow> camera_inference option \<Rightarrow> camera_config" where
  "Policy targetFPS ci =
     (let p = zero_camera_config\<lparr>TargetFPS := (case targetFPS of Some f \<Rightarrow> f | None \<Rightarrow> 0)\<rparr>
      in case ci of None \<Rightarrow> p
       | Some c \<Rightarrow> p\<lparr>Mode := inf_Mode c, IdleFPS := inf_IdleFPS c, ActiveFPS := inf_ActiveFPS c,
                      MaxFPS := inf_MaxFPS c, MotionSensitivity := inf_MotionSensitivity c,
                      IdleTimeout := wrap64 (IdleTimeoutS c * second),
                      Priority := inf_Priority c\<rparr>)"

section \<open>Validation\<close>

datatype rc_error =
    Err_Mode string
  | Err_TargetFPS rat
  | Err_Resolution_Pair
  | Err_Resolution int int
  | Err_ROI nat
  | Err_Model_Path string
  | Err_Person_Model string
  | Err_Vehicle_Model string
  | Err_Camera_Empty
  | Err_Camera_Key string
  | Err_Camera_Unknown string
  | Err_Camera string rc_error
  | Err_Burst rat
  | Err_Inference_Mode_Missing
  | Err_Inference_Negative
  | Err_Inference inference_error
  | Err_JSON
  | Err_Disallowed string
  | Err_Decode

text \<open>\<open>processing.ValidateOutputDimensions\<close>: \<open>True\<close> when it returns nil.\<close>

definition ValidateOutputDimensions :: "int \<Rightarrow> int \<Rightarrow> bool" where
  "ValidateOutputDimensions w h \<longleftrightarrow>
     (if w = 0 \<and> h = 0 then True
      else if w \<le> 0 \<or> h \<le> 0 then False
      else \<not> (w mod 2 \<noteq> 0 \<or> h mod 2 \<noteq> 0))"

definition validateResolution :: "int \<Rightarrow> int \<Rightarrow> rc_error option" where
  "validateResolution w h =
     (if w \<le> 0 \<or> h \<le> 0 then Some (Err_Resolution w h)
      else if w > MaxVideoOutputWidth \<or> h > MaxVideoOutputHeight then Some (Err_Resolution w h)
      else if ValidateOutputDimensions w h then None else Some (Err_Resolution w h))"

definition validateROI :: "roi \<Rightarrow> bool" where
  "validateROI r \<longleftrightarrow>
     \<not> (XMin r < 0 \<or> YMin r < 0 \<or> XMax r > 1 \<or> YMax r > 1 \<or> XMin r \<ge> XMax r \<or> YMin r \<ge> YMax r)"

text \<open>The checks run in order and the first failure is returned.\<close>

fun first_error :: "'e option list \<Rightarrow> 'e option" where
  "first_error [] = None"
| "first_error (None # es) = first_error es"
| "first_error (Some e # es) = Some e"

definition check_fps :: "rat option \<Rightarrow> rc_error option" where
  "check_fps f = (case f of None \<Rightarrow> None
     | Some v \<Rightarrow> if v < MinVideoTargetFPS \<or> v > MaxVideoTargetFPS then Some (Err_TargetFPS v) else None)"

definition check_resolution :: "int option \<Rightarrow> int option \<Rightarrow> rc_error option" where
  "check_resolution w h =
     (if w \<noteq> None \<or> h \<noteq> None
      then case (w, h) of (Some w', Some h') \<Rightarrow> validateResolution w' h' | _ \<Rightarrow> Some Err_Resolution_Pair
      else None)"

definition check_rois :: "roi list option \<Rightarrow> rc_error option" where
  "check_rois rois =
     map_option Err_ROI (find_index (\<lambda>r. \<not> validateROI r) (case rois of Some rs \<Rightarrow> rs | None \<Rightarrow> []))"

definition check_model :: "string \<Rightarrow> (string \<Rightarrow> rc_error) \<Rightarrow> string option \<Rightarrow> rc_error option" where
  "check_model supported unsupported mo = (case mo of None \<Rightarrow> None
     | Some m \<Rightarrow> if containsPathOrURL m then Some (Err_Model_Path m)
                 else if m \<noteq> supported then Some (unsupported m) else None)"

definition check_burst :: "camera_anpr option \<Rightarrow> rc_error option" where
  "check_burst an = (case an of None \<Rightarrow> None
     | Some a \<Rightarrow> if HighSpeedLPR a \<and> anpr_BurstFPS a \<noteq> 0
                    \<and> (anpr_BurstFPS a < MinVideoTargetFPS \<or> anpr_BurstFPS a > MaxVideoTargetFPS)
                 then Some (Err_Burst (anpr_BurstFPS a)) else None)"

definition check_inference :: "camera_override \<Rightarrow> rc_error option" where
  "check_inference c = (case cam_Inference c of None \<Rightarrow> None
     | Some i \<Rightarrow>
         if inf_Mode i = [] then Some Err_Inference_Mode_Missing
         else if inf_IdleFPS i < 0 \<or> inf_ActiveFPS i < 0 \<or> inf_MaxFPS i < 0 \<or> IdleTimeoutS i < 0
         then Some Err_Inference_Negative
         else map_option Err_Inference
           (CameraConfig_Validate
             (WithDefaults DefaultVideoTargetFPS (Policy (cam_TargetFPS c) (Some i)))))"

text \<open>The body of the loop over \<open>cfg.Cameras\<close>.\<close>

definition check_camera :: "string list \<Rightarrow> string \<Rightarrow> camera_override \<Rightarrow> rc_error option" where
  "check_camera known k c =
     (if trim_space k = [] then Some Err_Camera_Empty
      else if containsPathOrURL k then Some (Err_Camera_Key k)
      else if k \<notin> set known then Some (Err_Camera_Unknown k)
      else map_option (Err_Camera k)
        (first_error [check_fps (cam_TargetFPS c),
                      check_resolution (cam_OutputWidth c) (cam_OutputHeight c),
                      check_burst (ANPR c),
                      check_rois (cam_HybridROIs c),
                      check_inference c]))"

text \<open>\<open>Validate\<close>. The cameras are visited in the map's unspecified order, which only decides which
  camera's error is reported; the model uses the list's order.\<close>

definition Validate :: "string \<Rightarrow> runtime_config \<Rightarrow> string list \<Rightarrow> rc_error option" where
  "Validate cm c known =
     first_error
       ([case ProcessingMode c of None \<Rightarrow> None
         | Some p \<Rightarrow> (case ParseProcessingMode (deref cm p) of
                        None \<Rightarrow> Some (Err_Mode (deref cm p)) | Some _ \<Rightarrow> None),
         check_fps (rc_TargetFPS c),
         check_resolution (OutputWidth c) (OutputHeight c),
         check_rois (HybridROIs c),
         check_model SupportedPersonModel Err_Person_Model (PersonModel c),
         check_model SupportedVehicleModel Err_Vehicle_Model (VehicleModel c)]
        @ map (\<lambda>(k, ov). check_camera known k ov)
            (case rc_Cameras c of Some cs \<Rightarrow> cs | None \<Rightarrow> []))"

definition DisallowedKeys :: "string list" where
  "DisallowedKeys = [''tenant_id'', ''organization_id'', ''site_id'', ''rtsp_url'', ''rtsp_path'',
     ''rtsp_password'', ''password'', ''username'', ''url'', ''path'', ''data_dir'',
     ''models_dir'', ''worker_cmd'', ''ffmpeg_path'']"

text \<open>What \<open>json.Unmarshal\<close> leaves in an \<open>any\<close>: objects, arrays, and values without keys.\<close>

datatype any = Obj "(string \<times> any) list" | Arr "any list" | Scalar string

fun check_entry :: "(any \<Rightarrow> string option) \<Rightarrow> string \<times> any \<Rightarrow> string option" where
  "check_entry chk (k, v) = (if to_lower (trim_space k) \<in> set DisallowedKeys then Some k else chk v)"

lemma check_entry_cong [fundef_cong]:
  "e = e' \<Longrightarrow> (\<And>k v. e' = (k, v) \<Longrightarrow> f v = g v) \<Longrightarrow> check_entry f e = check_entry g e'"
  by (cases e') simp

fun checkDisallowedKeys :: "any \<Rightarrow> string option" where
  "checkDisallowedKeys (Obj es) = first_error (map (check_entry checkDisallowedKeys) es)"
| "checkDisallowedKeys (Arr vs) = first_error (map checkDisallowedKeys vs)"
| "checkDisallowedKeys (Scalar _) = None"

text \<open>\<open>ParseAndValidateJSON\<close>: \<open>unmarshal\<close> is \<open>json.Unmarshal\<close> into \<open>map[string]any\<close>, \<open>decode\<close> the strict
  decoder with \<open>DisallowUnknownFields\<close>; both are \<open>None\<close> when they return an error.\<close>

definition ParseAndValidateJSON ::
    "(string \<Rightarrow> any option) \<Rightarrow> (string \<Rightarrow> runtime_config option) \<Rightarrow> string \<Rightarrow> string list \<Rightarrow>
     rc_error + runtime_config" where
  "ParseAndValidateJSON unmarshal decode data known =
     (case unmarshal data of
        None \<Rightarrow> Inl Err_JSON
      | Some raw \<Rightarrow>
          (case checkDisallowedKeys raw of
             Some k \<Rightarrow> Inl (Err_Disallowed k)
           | None \<Rightarrow>
               (case decode data of
                  None \<Rightarrow> Inl Err_Decode
                | Some c \<Rightarrow>
                    (case Validate [] c known of Some e \<Rightarrow> Inl e | None \<Rightarrow> Inr c))))"

section \<open>Copying and overlaying\<close>

text \<open>The copy of one camera in \<open>copyConfig\<close>: \<open>CameraConfig{}\<close> with five of the six fields set.\<close>

definition copy_camera :: "camera_override \<Rightarrow> camera_override" where
  "copy_camera v =
     \<lparr>cam_TargetFPS = cam_TargetFPS v, cam_OutputWidth = cam_OutputWidth v,
      cam_OutputHeight = cam_OutputHeight v, cam_HybridROIs = cam_HybridROIs v,
      ANPR = None, cam_Inference = cam_Inference v\<rparr>"

definition copyConfig :: "string \<Rightarrow> runtime_config \<Rightarrow> runtime_config" where
  "copyConfig cm c =
     c\<lparr>ProcessingMode := map_option (\<lambda>p. Cell (deref cm p)) (ProcessingMode c),
       rc_Cameras := map_option (map (\<lambda>(k, v). (k, copy_camera v))) (rc_Cameras c)\<rparr>"

text \<open>\<open>or_else new old\<close>: \<open>if patch.F != nil { res.F = patch.F }\<close>.\<close>

definition or_else :: "'a option \<Rightarrow> 'a option \<Rightarrow> 'a option" where
  "or_else new old = (case new of None \<Rightarrow> old | Some x \<Rightarrow> Some x)"

definition MergeConfig :: "string \<Rightarrow> runtime_config \<Rightarrow> runtime_config \<Rightarrow> runtime_config" where
  "MergeConfig cm base patch =
     (let res = copyConfig cm base
      in \<lparr>ProcessingMode =
            or_else (map_option (\<lambda>p. Cell (deref cm p)) (ProcessingMode patch)) (ProcessingMode res),
          rc_TargetFPS = or_else (rc_TargetFPS patch) (rc_TargetFPS res),
          OutputWidth = or_else (OutputWidth patch) (OutputWidth res),
          OutputHeight = or_else (OutputHeight patch) (OutputHeight res),
          HybridROIs = or_else (HybridROIs patch) (HybridROIs res),
          PersonModel = or_else (PersonModel patch) (PersonModel res),
          VehicleModel = or_else (VehicleModel patch) (VehicleModel res),
          rc_Cameras =
            (case rc_Cameras patch of
               None \<Rightarrow> rc_Cameras res
             | Some ps \<Rightarrow>
                 Some (foldl (\<lambda>m (k, v). AList.update k v m)
                         (case rc_Cameras res of Some cs \<Rightarrow> cs | None \<Rightarrow> []) ps))\<rparr>)"

definition inferencePolicies ::
    "(string \<times> camera_override) list option \<Rightarrow> (string \<times> camera_config) list" where
  "inferencePolicies cs =
     filter (\<lambda>(_, p). p \<noteq> zero_camera_config)
       (map (\<lambda>(k, c). (k, Policy (cam_TargetFPS c) (cam_Inference c)))
         (case cs of Some l \<Rightarrow> l | None \<Rightarrow> []))"

end
