(* ===== verification/RemoteConfig_Engine.thy ===== *)
theory RemoteConfig_Engine
  imports RemoteConfig
begin

text \<open>
  Package \<open>remoteconfig\<close>, part three: the versioned apply lifecycle of \<open>engine.go\<close> over the durable
  \<open>Store\<close> of \<open>store.go\<close>, and \<open>Module.SyncOnce\<close> of \<open>module.go\<close>.
  The \<open>Adapter\<close> interface is a record of functions over an arbitrary runtime state. A save either
  commits, fails at one of the steps of \<open>saveLocked\<close>, or the process is killed just before or just
  after the rename; the outcomes of the saves of a run are a list in the world (empty: all succeed), so
  that every crash point that the disk can tell apart is covered. Encoding the state re-indents the
  raw payloads in it, which the JSON parameter \<open>indent\<close> stands for. Times are strings read from the
  world's clock. Audit records are appended to the world's log; a failing journal only logs.
\<close>

section \<open>Documents and the JSON library\<close>

record rc_config =
  Version :: int
  Payload :: string

definition zero_config :: rc_config where
  "zero_config = \<lparr>Version = 0, Payload = []\<rparr>"

text \<open>What the package uses of \<open>encoding/json\<close>: decoding into an \<open>any\<close>, encoding it again (with sorted
  keys), and the re-indentation of raw messages by \<open>MarshalIndent\<close>.\<close>

record json =
  unmarshal :: "string \<Rightarrow> any option"
  marshal :: "any \<Rightarrow> string option"
  indent :: "string \<Rightarrow> string"

definition canonicalize :: "json \<Rightarrow> string \<Rightarrow> string" where
  "canonicalize J raw =
     (if length raw = 0 then raw
      else case unmarshal J raw of None \<Rightarrow> raw
         | Some v \<Rightarrow> (case marshal J v of None \<Rightarrow> raw | Some out \<Rightarrow> out))"

definition Equal :: "json \<Rightarrow> rc_config \<Rightarrow> rc_config \<Rightarrow> bool" where
  "Equal J c d =
     (if Version c \<noteq> Version d then False
      else canonicalize J (Payload c) = canonicalize J (Payload d))"

section \<open>Error texts\<close>

definition maxSafeErrorLen :: nat where "maxSafeErrorLen = 255"

definition truncate :: "string \<Rightarrow> nat \<Rightarrow> string" where
  "truncate s n = (if length s \<le> n then s else take n s)"

definition secret_words :: "string list" where
  "secret_words = [''password'', ''pass'', ''secret'', ''token'', ''auth'', ''bearer'']"

text \<open>A character of the regular expression's \<open>[^&\s]\<close>.\<close>

definition secret_char :: "char \<Rightarrow> bool" where
  "secret_char c \<longleftrightarrow> (let n = of_char c :: nat in n \<noteq> 38 \<and> n \<notin> {9, 10, 12, 13, 32})"

text \<open>The first alternative of \<open>paramSecretRegex\<close> that matches at the head of the text: the length of
  the word.\<close>

definition secret_at :: "string \<Rightarrow> nat option" where
  "secret_at s =
     map_option length
       (find (\<lambda>w. to_lower (take (length w) s) = w
               \<and> (case drop (length w) s of
                    sep # c # _ \<Rightarrow> (sep = CHR ''='' \<or> sep = CHR '':'') \<and> secret_char c
                  | _ \<Rightarrow> False)) secret_words)"

function redact :: "string \<Rightarrow> string" where
  "redact s =
     (case s of [] \<Rightarrow> []
      | c # cs \<Rightarrow>
          (case secret_at s of
             Some n \<Rightarrow> take n s @ ''=[REDACTED]'' @ redact (dropWhile secret_char (drop (Suc n) s))
           | None \<Rightarrow> c # redact cs))"
  by pat_completeness auto
termination
  by (relation "measure length")
    (auto simp: le_imp_less_Suc intro!: le_less_trans [OF length_dropWhile_le])

declare redact.simps [simp del]

definition sanitizeApplyError :: "string option \<Rightarrow> string" where
  "sanitizeApplyError er = (case er of None \<Rightarrow> [] | Some msg \<Rightarrow> truncate (redact msg) maxSafeErrorLen)"

section \<open>The store\<close>

datatype apply_status =
    ApplyStatus_Empty
  | ApplyStatusPending
  | ApplyStatusApplying
  | ApplyStatusApplied
  | ApplyStatusFailed
  | ApplyStatusRolledBack

record rc_state =
  AppliedVersion :: int
  AppliedConfig :: "rc_config option"
  PreviousKnownGoodVersion :: int
  PreviousKnownGoodConfig :: "rc_config option"
  Staging :: "rc_config option"
  LastFailedVersion :: int
  LastFailedConfig :: "rc_config option"
  LastApplyStatus :: apply_status
  LastApplyAt :: string
  LastErrorSafe :: string
  RollbackCount :: int
  ReceivedAt :: string

definition zero_state :: rc_state where
  "zero_state = \<lparr>AppliedVersion = 0, AppliedConfig = None, PreviousKnownGoodVersion = 0,
     PreviousKnownGoodConfig = None, Staging = None, LastFailedVersion = 0, LastFailedConfig = None,
     LastApplyStatus = ApplyStatus_Empty, LastApplyAt = [], LastErrorSafe = [], RollbackCount = 0,
     ReceivedAt = []\<rparr>"

definition encode_config :: "json \<Rightarrow> rc_config \<Rightarrow> rc_config" where
  "encode_config J c = c\<lparr>Payload := indent J (Payload c)\<rparr>"

text \<open>The state as it is read back from the file \<open>saveLocked\<close> writes.\<close>

definition encode_state :: "json \<Rightarrow> rc_state \<Rightarrow> rc_state" where
  "encode_state J s =
     s\<lparr>AppliedConfig := map_option (encode_config J) (AppliedConfig s),
       PreviousKnownGoodConfig := map_option (encode_config J) (PreviousKnownGoodConfig s),
       Staging := map_option (encode_config J) (Staging s),
       LastFailedConfig := map_option (encode_config J) (LastFailedConfig s)\<rparr>"

datatype state_file = Absent | Content rc_state | Unparsable | Unreadable

record rc_store =
  mem :: rc_state
  disk :: state_file

datatype rc_open_error = Read_Failed | ErrCorruptState

definition OpenStore :: "state_file \<Rightarrow> rc_open_error + rc_store" where
  "OpenStore f =
     (case f of
        Absent \<Rightarrow> Inr \<lparr>mem = zero_state, disk = f\<rparr>
      | Unreadable \<Rightarrow> Inl Read_Failed
      | Unparsable \<Rightarrow> Inl ErrCorruptState
      | Content st \<Rightarrow> Inr \<lparr>mem = st, disk = f\<rparr>)"

text \<open>The steps of \<open>saveLocked\<close>, each of which may fail and then leaves the file as it was.\<close>

datatype save_step = MkdirAll | MarshalIndent | CreateTemp | Write | Sync | Chmod | Close | Rename

datatype save_outcome = Saved | Save_Failed save_step | Killed_Before | Killed_After

datatype save_result = Committed | Failed_At save_step | Process_Killed

definition saveLocked :: "json \<Rightarrow> save_outcome \<Rightarrow> rc_state \<Rightarrow> rc_store \<Rightarrow> save_result \<times> rc_store" where
  "saveLocked J sv st s =
     (case sv of
        Saved \<Rightarrow> (Committed, s\<lparr>disk := Content (encode_state J st)\<rparr>)
      | Save_Failed step \<Rightarrow> (Failed_At step, s)
      | Killed_Before \<Rightarrow> (Process_Killed, s)
      | Killed_After \<Rightarrow> (Process_Killed, s\<lparr>disk := Content (encode_state J st)\<rparr>))"

definition Store_Update ::
    "json \<Rightarrow> save_outcome \<Rightarrow> (rc_state \<Rightarrow> rc_state) \<Rightarrow> rc_store \<Rightarrow> save_result \<times> rc_store" where
  "Store_Update J sv fn s =
     (let candidate = fn (mem s)
      in case saveLocked J sv candidate s of
           (Committed, s') \<Rightarrow> (Committed, s'\<lparr>mem := candidate\<rparr>)
         | (r, s') \<Rightarrow> (r, s'))"

definition Store_Save :: "json \<Rightarrow> save_outcome \<Rightarrow> rc_state \<Rightarrow> rc_store \<Rightarrow> save_result \<times> rc_store" where
  "Store_Save J sv st s =
     (case saveLocked J sv st s of
        (Committed, s') \<Rightarrow> (Committed, s'\<lparr>mem := st\<rparr>)
      | (r, s') \<Rightarrow> (r, s'))"

section \<open>The engine\<close>

text \<open>The \<open>Adapter\<close> interface: an error text or nil, and the runtime afterwards.\<close>

record 'r runtime_adapter =
  validate_op :: "rc_config \<Rightarrow> 'r \<Rightarrow> string option"
  apply_op :: "rc_config \<Rightarrow> 'r \<Rightarrow> string option \<times> 'r"
  rollback_op :: "rc_config \<Rightarrow> 'r \<Rightarrow> string option \<times> 'r"

text \<open>\<open>NoopRuntimeAdapter\<close>.\<close>

definition NoopRuntimeAdapter :: "'r runtime_adapter" where
  "NoopRuntimeAdapter =
     \<lparr>validate_op = (\<lambda>_ _. None),
      apply_op = (\<lambda>_ r. (Some ''remoteconfig: runtime adapter unavailable; configuration was not applied'', r)),
      rollback_op = (\<lambda>_ r. (None, r))\<rparr>"

datatype audit_event = Audit_Failure int string | Audit_Rollback int string | Audit_Apply int

datatype error_code =
    No_Code | STALE_VERSION | VERSION_CONFLICT | PREVIOUSLY_FAILED | VALIDATION_FAILED
  | APPLY_FAILED | STAGING_UNRESOLVED

datatype engine_error =
    Save_Error save_step
  | Recovery_Rollback_Failed string
  | Apply_And_Rollback_Failed string
  | Publish_Failed save_step "string option"

text \<open>How a call ends: it returns, returns a non-nil error, or the process dies in it.\<close>

datatype 'a outcome = Ret 'a | Err engine_error | Killed

record 'r world =
  store :: rc_store
  rt :: 'r
  audit :: "audit_event list"
  saves :: "save_outcome list"
  clock :: string

definition next_save :: "'r world \<Rightarrow> save_outcome" where
  "next_save w = (case saves w of [] \<Rightarrow> Saved | x # _ \<Rightarrow> x)"

definition update :: "json \<Rightarrow> (rc_state \<Rightarrow> rc_state) \<Rightarrow> 'r world \<Rightarrow> save_result \<times> 'r world" where
  "update J fn w =
     (let (r, s) = Store_Update J (next_save w) fn (store w)
      in (r, w\<lparr>store := s, saves := tl (saves w)\<rparr>))"

definition auditAppend :: "audit_event \<Rightarrow> 'r world \<Rightarrow> 'r world" where
  "auditAppend ev w = w\<lparr>audit := audit w @ [ev]\<rparr>"

definition previousKnownGood :: "rc_state \<Rightarrow> rc_config" where
  "previousKnownGood st =
     (case AppliedConfig st of Some c \<Rightarrow> c
      | None \<Rightarrow> (case PreviousKnownGoodConfig st of Some c \<Rightarrow> c | None \<Rightarrow> zero_config))"

text \<open>The state changes that \<open>engine.go\<close> passes to \<open>Store.Update\<close>.\<close>

definition mark_failed :: "string \<Rightarrow> rc_config \<Rightarrow> apply_status \<Rightarrow> string \<Rightarrow> rc_state \<Rightarrow> rc_state" where
  "mark_failed now c outcm msg s =
     s\<lparr>LastFailedVersion := Version c, LastFailedConfig := Some c, LastApplyStatus := outcm,
       LastApplyAt := now, LastErrorSafe := msg\<rparr>"

definition count_rollback :: "rc_state \<Rightarrow> rc_state" where
  "count_rollback s = s\<lparr>RollbackCount := wrap64 (RollbackCount s + 1)\<rparr>"

definition mark_staging :: "string \<Rightarrow> rc_config \<Rightarrow> rc_state \<Rightarrow> rc_state" where
  "mark_staging now c s =
     s\<lparr>Staging := Some c, LastApplyStatus := ApplyStatusApplying, ReceivedAt := now\<rparr>"

definition mark_applied :: "string \<Rightarrow> rc_config \<Rightarrow> rc_state \<Rightarrow> rc_state" where
  "mark_applied now c s =
     (let s = (if AppliedConfig s \<noteq> None
               then s\<lparr>PreviousKnownGoodVersion := AppliedVersion s,
                      PreviousKnownGoodConfig := AppliedConfig s\<rparr> else s)
      in s\<lparr>AppliedVersion := Version c, AppliedConfig := Some c, Staging := None,
           LastApplyStatus := ApplyStatusApplied, LastApplyAt := now, LastErrorSafe := []\<rparr>)"

definition Recover :: "json \<Rightarrow> 'r runtime_adapter \<Rightarrow> 'r world \<Rightarrow> unit outcome \<times> 'r world" where
  "Recover J A w =
     (case Staging (mem (store w)) of
        None \<Rightarrow> (Ret (), w)
      | Some interrupted \<Rightarrow>
          (let (rollbackErr, r') = rollback_op A (previousKnownGood (mem (store w))) (rt w);
               w = w\<lparr>rt := r'\<rparr>
           in case rollbackErr of
                Some msg \<Rightarrow>
                  (let w = auditAppend (Audit_Failure (Version interrupted)
                             ''recovery: interrupted apply, rollback failed'') w
                   in case update J (\<lambda>s. count_rollback (mark_failed (clock w) interrupted ApplyStatusFailed
                             (sanitizeApplyError (Some (''recovery: interrupted apply, rollback failed: '' @ msg))) s)) w of
                        (Committed, w) \<Rightarrow> (Err (Recovery_Rollback_Failed msg), w)
                      | (Failed_At st, w) \<Rightarrow> (Err (Save_Error st), w)
                      | (Process_Killed, w) \<Rightarrow> (Killed, w))
              | None \<Rightarrow>
                  (let w = auditAppend (Audit_Rollback (Version interrupted)
                             ''recovery: apply interrupted by restart, rolled back to previous known-good'') w
                   in case update J (\<lambda>s. count_rollback (mark_failed (clock w) interrupted ApplyStatusRolledBack
                             ''recovery: apply interrupted by restart, rolled back to previous known-good''
                             (s\<lparr>Staging := None\<rparr>))) w of
                        (Committed, w) \<Rightarrow> (Ret (), w)
                      | (Failed_At st, w) \<Rightarrow> (Err (Save_Error st), w)
                      | (Process_Killed, w) \<Rightarrow> (Killed, w))))"

text \<open>The four ways in which \<open>ReceiveDesired\<close> answers from the stored state alone: the status, the code,
  and whether the refusal is audited.\<close>

definition settled_answer :: "json \<Rightarrow> rc_config \<Rightarrow> rc_state \<Rightarrow> (apply_status \<times> error_code \<times> bool) option" where
  "settled_answer J desired st =
     (if Staging st \<noteq> None then Some (ApplyStatusFailed, STAGING_UNRESOLVED, True)
      else if Version desired < AppliedVersion st then Some (ApplyStatusFailed, STALE_VERSION, True)
      else if Version desired = AppliedVersion st
      then (case AppliedConfig st of
              Some c \<Rightarrow> if Equal J desired c then Some (ApplyStatusApplied, No_Code, False)
                        else Some (ApplyStatusFailed, VERSION_CONFLICT, True)
            | None \<Rightarrow> Some (ApplyStatusFailed, VERSION_CONFLICT, True))
      else if LastFailedVersion st \<noteq> 0 \<and> Version desired = LastFailedVersion st
      then (case LastFailedConfig st of
              Some c \<Rightarrow> if Equal J desired c then Some (ApplyStatusFailed, PREVIOUSLY_FAILED, False)
                        else Some (ApplyStatusFailed, VERSION_CONFLICT, True)
            | None \<Rightarrow> Some (ApplyStatusFailed, VERSION_CONFLICT, True))
      else None)"

fun code_text :: "error_code \<Rightarrow> string" where
  "code_text No_Code = []"
| "code_text STALE_VERSION = ''STALE_VERSION''"
| "code_text VERSION_CONFLICT = ''VERSION_CONFLICT''"
| "code_text PREVIOUSLY_FAILED = ''PREVIOUSLY_FAILED''"
| "code_text VALIDATION_FAILED = ''VALIDATION_FAILED''"
| "code_text APPLY_FAILED = ''APPLY_FAILED''"
| "code_text STAGING_UNRESOLVED = ''STAGING_UNRESOLVED''"

type_synonym reply = "(apply_status \<times> error_code) outcome"

text \<open>Steps 4 to 7: the staged configuration is applied, and its outcome published or rolled back.\<close>

definition roll_back_apply ::
    "json \<Rightarrow> 'r runtime_adapter \<Rightarrow> rc_config \<Rightarrow> rc_config \<Rightarrow> string \<Rightarrow> 'r world \<Rightarrow> reply \<times> 'r world" where
  "roll_back_apply J A desired target applyErr w =
     (let (rollbackErr, r') = rollback_op A target (rt w);
          w = w\<lparr>rt := r'\<rparr>
      in case rollbackErr of
           Some msg \<Rightarrow>
             (let w = auditAppend (Audit_Failure (Version desired) ''apply and rollback failed'') w;
                  errMsg = sanitizeApplyError
                    (Some (''apply failed ('' @ applyErr @ ''); rollback also failed: '' @ msg))
              in case update J (\<lambda>s. count_rollback (mark_failed (clock w) desired ApplyStatusFailed errMsg s)) w of
                   (Committed, w) \<Rightarrow> (Err (Apply_And_Rollback_Failed errMsg), w)
                 | (Failed_At st, w) \<Rightarrow> (Err (Save_Error st), w)
                 | (Process_Killed, w) \<Rightarrow> (Killed, w))
         | None \<Rightarrow>
             (let w = auditAppend (Audit_Rollback (Version desired) (code_text APPLY_FAILED)) w
              in case update J (\<lambda>s. count_rollback (mark_failed (clock w) desired ApplyStatusRolledBack
                        (sanitizeApplyError (Some applyErr)) (s\<lparr>Staging := None\<rparr>))) w of
                   (Committed, w) \<Rightarrow> (Ret (ApplyStatusRolledBack, APPLY_FAILED), w)
                 | (Failed_At st, w) \<Rightarrow> (Err (Save_Error st), w)
                 | (Process_Killed, w) \<Rightarrow> (Killed, w)))"

definition publish ::
    "json \<Rightarrow> 'r runtime_adapter \<Rightarrow> rc_config \<Rightarrow> rc_config \<Rightarrow> 'r world \<Rightarrow> reply \<times> 'r world" where
  "publish J A desired target w =
     (case update J (mark_applied (clock w) desired) w of
        (Committed, w) \<Rightarrow>
          (Ret (ApplyStatusApplied, No_Code), auditAppend (Audit_Apply (Version desired)) w)
      | (Process_Killed, w) \<Rightarrow> (Killed, w)
      | (Failed_At st, w) \<Rightarrow>
          (let (rollbackErr, r') = rollback_op A target (rt w);
               w = w\<lparr>rt := r'\<rparr>
           in case rollbackErr of
                Some msg \<Rightarrow>
                  (Err (Publish_Failed st (Some msg)),
                   auditAppend (Audit_Failure (Version desired) ''publish failed, rollback failed'') w)
              | None \<Rightarrow>
                  (Err (Publish_Failed st None),
                   auditAppend (Audit_Rollback (Version desired) ''publish failed, rolled back runtime'') w)))"

definition ReceiveDesired :: "json \<Rightarrow> 'r runtime_adapter \<Rightarrow> rc_config \<Rightarrow> 'r world \<Rightarrow> reply \<times> 'r world" where
  "ReceiveDesired J A desired w =
     (case settled_answer J desired (mem (store w)) of
        Some (outcm, code, audited) \<Rightarrow>
          (Ret (outcm, code),
           if audited then auditAppend (Audit_Failure (Version desired) (code_text code)) w else w)
      | None \<Rightarrow>
          (case validate_op A desired (rt w) of
             Some msg \<Rightarrow>
               (let w = auditAppend (Audit_Failure (Version desired) (code_text VALIDATION_FAILED)) w
                in case update J (\<lambda>s. (mark_failed (clock w) desired ApplyStatusFailed
                          (sanitizeApplyError (Some msg)) s)\<lparr>ReceivedAt := clock w\<rparr>) w of
                     (Committed, w) \<Rightarrow> (Ret (ApplyStatusFailed, VALIDATION_FAILED), w)
                   | (Failed_At st, w) \<Rightarrow> (Err (Save_Error st), w)
                   | (Process_Killed, w) \<Rightarrow> (Killed, w))
           | None \<Rightarrow>
               (case update J (mark_staging (clock w) desired) w of
                  (Failed_At st, w) \<Rightarrow>
                    (Err (Save_Error st),
                     auditAppend (Audit_Failure (Version desired) ''store update staging failed'') w)
                | (Process_Killed, w) \<Rightarrow> (Killed, w)
                | (Committed, w) \<Rightarrow>
                    (let target = previousKnownGood (mem (store w));
                         (applyErr, r') = apply_op A desired (rt w);
                         w = w\<lparr>rt := r'\<rparr>
                     in case applyErr of
                          Some msg \<Rightarrow> roll_back_apply J A desired target msg w
                        | None \<Rightarrow> publish J A desired target w))))"

section \<open>The module\<close>

text \<open>\<open>GetDesiredConfig\<close>'s answer and the calls of \<open>SyncOnce\<close>: the acknowledgement it sends, and its
  error.\<close>

datatype fetched = Fetch_Error | No_Config | Fetched rc_config

datatype sync_result =
    Sync_Fetch_Error | Sync_Nothing | Sync_Engine_Error engine_error | Sync_Killed
  | Sync_Ack int apply_status error_code

definition SyncOnce :: "json \<Rightarrow> 'r runtime_adapter \<Rightarrow> fetched \<Rightarrow> 'r world \<Rightarrow> sync_result \<times> 'r world" where
  "SyncOnce J A f w =
     (case f of
        Fetch_Error \<Rightarrow> (Sync_Fetch_Error, w)
      | No_Config \<Rightarrow> (Sync_Nothing, w)
      | Fetched fc \<Rightarrow>
          (let desired = \<lparr>Version = Version fc, Payload = Payload fc\<rparr>
           in case ReceiveDesired J A desired w of
                (Err e, w') \<Rightarrow> (Sync_Engine_Error e, w')
              | (Killed, w') \<Rightarrow> (Sync_Killed, w')
              | (Ret (outcm, code), w') \<Rightarrow>
                  (if outcm = ApplyStatus_Empty then Sync_Nothing
                   else Sync_Ack (Version desired) outcm code, w')))"

end
