(* ===== verification/RemoteConfig_Adapter.thy ===== *)
theory RemoteConfig_Adapter
  imports RemoteConfig
begin

text \<open>
  Package \<open>remoteconfig\<close>, part two: the \<open>RuntimeAdapter\<close> of \<open>adapter.go\<close>, which connects a validated
  document to the live runtime, with the part of \<open>processing.Manager\<close> it drives
  (\<open>SetConfig\<close>, \<open>SetTargetFPS\<close>, \<open>RestartCameraPipeline\<close>, \<open>UpdateRouterSinks\<close>), the model manager and
  the inference policy manager. Sinks are names; what the sink factories, the vision worker and the
  health hook answer during one call is an argument of the call. Of \<open>processing.Config\<close> the record
  keeps the fields the adapter reads or writes; the others are copied along unchanged in the source.
\<close>

section \<open>The video manager\<close>

record video_config =
  vc_TargetFPS :: rat
  vc_OutputWidth :: int
  vc_OutputHeight :: int
  Hybrid_Enabled :: bool
  Hybrid_ROIs :: "roi list"

record pipeline =
  p_cfg :: video_config
  p_state :: string

record video_manager =
  v_cfg :: video_config
  pipelines :: "(string \<times> pipeline) list"
  extraSinks :: "string list"

definition vm_SetConfig :: "video_config \<Rightarrow> video_manager \<Rightarrow> video_manager" where
  "vm_SetConfig c vm = vm\<lparr>v_cfg := c\<rparr>"

definition pipeline_SetTargetFPS :: "rat \<Rightarrow> pipeline \<Rightarrow> pipeline" where
  "pipeline_SetTargetFPS fps p = p\<lparr>p_cfg := (p_cfg p)\<lparr>vc_TargetFPS := fps\<rparr>\<rparr>"

text \<open>\<open>True\<close> when the call returns nil.\<close>

definition vm_SetTargetFPS :: "string \<Rightarrow> rat \<Rightarrow> video_manager \<Rightarrow> bool \<times> video_manager" where
  "vm_SetTargetFPS k fps vm =
     (if k \<noteq> []
      then case map_of (pipelines vm) k of
             None \<Rightarrow> (False, vm)
           | Some p \<Rightarrow>
               (True, vm\<lparr>pipelines := AList.update k (pipeline_SetTargetFPS fps p) (pipelines vm)\<rparr>)
      else (True, vm\<lparr>v_cfg := (v_cfg vm)\<lparr>vc_TargetFPS := fps\<rparr>,
                     pipelines := map (\<lambda>(k, p). (k, pipeline_SetTargetFPS fps p)) (pipelines vm)\<rparr>))"

text \<open>\<open>has_desc\<close> says whether the RTSP manager knows the camera (\<open>DescriptorFor\<close> or \<open>HasCamera\<close>). A new
  pipeline starts in state \<open>starting\<close>.\<close>

definition RestartCameraPipeline ::
    "(string \<Rightarrow> bool) \<Rightarrow> string \<Rightarrow> video_config \<Rightarrow> video_manager \<Rightarrow> bool \<times> video_manager" where
  "RestartCameraPipeline has_desc k newCfg vm =
     (if \<not> has_desc k \<and> map_of (pipelines vm) k = None then (False, vm)
      else (True, vm\<lparr>pipelines :=
              AList.update k \<lparr>p_cfg = newCfg, p_state = ''starting''\<rparr> (pipelines vm)\<rparr>))"

definition UpdateRouterSinks :: "string list \<Rightarrow> video_manager \<Rightarrow> video_manager" where
  "UpdateRouterSinks sinks vm = vm\<lparr>extraSinks := sinks\<rparr>"

definition ActivePipelines :: "video_manager \<Rightarrow> string list" where
  "ActivePipelines vm = map fst (pipelines vm)"

section \<open>The adapter\<close>

text \<open>How a new vision worker reports readiness: through \<open>WaitForReady\<close>, by polling \<open>Ready\<close> until the
  start timeout, or not at all (then it counts as ready).\<close>

datatype readiness = WaitForReady bool | Poll_Ready bool | No_Probe

fun is_ready :: "readiness \<Rightarrow> bool" where
  "is_ready (WaitForReady ok) = ok"
| "is_ready (Poll_Ready ok) = ok"
| "is_ready No_Probe = True"

text \<open>One answer of the vision sink factory: the sink (or nil), \<open>startFn\<close> (nil, or whether it
  succeeds), whether \<open>stopFn\<close> is set, and the readiness of the worker.\<close>

record vision_parts =
  vs :: "string option"
  startFn :: "bool option"
  has_stopFn :: bool
  ready :: readiness

text \<open>The outside world during one call. An outer \<open>None\<close> is a factory or hook that is not
  configured.\<close>

record environment =
  cloudSinkFn :: "string option option"
  visionSinkFn :: "vision_parts option"
  edgeVideoSinkFn :: "string option option"
  healthCheck :: "bool option"
  has_desc :: "string \<Rightarrow> bool"

datatype adapter_error =
    Cloud_Sink_Nil
  | Cloud_Sink_Not_Configured
  | Vision_Incomplete
  | Vision_Start_Failed
  | Vision_Not_Ready
  | Vision_Not_Configured
  | Unsupported_Mode string
  | Policy_Rejected
  | Restart_Failed string
  | Nil_Dereference
  | Invalid rc_error
  | Health_Check_Failed
  | Pipeline_In_Error string

datatype adapter_call = Started_Worker string | Stopped_Worker string | Mode_Changed string

record adapter =
  videoManager :: "video_manager option"
  rtspCameras :: "string list option"
  modelManager :: "(string \<times> string) option"
  currentVisionStop :: "string option"
  initialCfg :: runtime_config
  currentCfg :: runtime_config
  previousCfg :: runtime_config
  hasPrevious :: bool
  currentMode :: string
  modeNow :: string
  inference :: "manager option"
  activeSinks :: "string list"
  calls :: "adapter_call list"

definition snapshotCurrentConfig :: "adapter \<Rightarrow> runtime_config" where
  "snapshotCurrentConfig a =
     (let c = empty_config\<lparr>ProcessingMode := Some Field_CurrentMode\<rparr>;
          c = (case videoManager a of None \<Rightarrow> c
               | Some vm \<Rightarrow> c\<lparr>rc_TargetFPS := Some (vc_TargetFPS (v_cfg vm)),
                              OutputWidth := Some (vc_OutputWidth (v_cfg vm)),
                              OutputHeight := Some (vc_OutputHeight (v_cfg vm)),
                              HybridROIs := (if Hybrid_ROIs (v_cfg vm) \<noteq> []
                                             then Some (Hybrid_ROIs (v_cfg vm)) else None)\<rparr>)
      in case modelManager a of None \<Rightarrow> c
         | Some (p, v) \<Rightarrow> c\<lparr>PersonModel := (if p \<noteq> [] then Some p else None),
                             VehicleModel := (if v \<noteq> [] then Some v else None)\<rparr>)"

text \<open>\<open>NewRuntimeAdapter\<close>; the options have filled in the adapter's fields.\<close>

definition NewRuntimeAdapter :: "adapter \<Rightarrow> adapter" where
  "NewRuntimeAdapter a =
     (let a = a\<lparr>initialCfg := snapshotCurrentConfig a\<rparr>
      in a\<lparr>currentCfg := copyConfig (currentMode a) (initialCfg a),
           previousCfg := empty_config, hasPrevious := False, modeNow := currentMode a\<rparr>)"

definition knownCameras :: "adapter \<Rightarrow> string list" where
  "knownCameras a =
     (let cams = (case rtspCameras a of Some cs \<Rightarrow> cs | None \<Rightarrow> [])
      in case videoManager a of None \<Rightarrow> cams
         | Some vm \<Rightarrow> foldl (\<lambda>l c. if c \<in> set l then l else l @ [c]) cams (ActivePipelines vm))"

definition CurrentConfig :: "adapter \<Rightarrow> runtime_config" where
  "CurrentConfig a = copyConfig (currentMode a) (currentCfg a)"

definition Adapter_Validate :: "runtime_config \<Rightarrow> adapter \<Rightarrow> rc_error option" where
  "Adapter_Validate patch a =
     Validate (currentMode a) (MergeConfig (currentMode a) (currentCfg a) patch) (knownCameras a)"

subsection \<open>Mode transitions\<close>

text \<open>The sinks of the target mode and the stop function of its worker, or the reason why the mode is
  not operational. A worker that was started but is not ready is stopped again.\<close>

definition build_sinks ::
    "environment \<Rightarrow> string \<Rightarrow> (adapter_error + string list \<times> string option) \<times> adapter_call list" where
  "build_sinks e to =
     (if to = ModeCloud \<or> to = ModeHybrid
      then (case cloudSinkFn e of
              None \<Rightarrow> (Inl Cloud_Sink_Not_Configured, [])
            | Some None \<Rightarrow> (Inl Cloud_Sink_Nil, [])
            | Some (Some s) \<Rightarrow> (Inr ([s], None), []))
      else if to = ModeEdge
      then (case visionSinkFn e of
              None \<Rightarrow> (Inl Vision_Not_Configured, [])
            | Some v \<Rightarrow>
                (case (vs v, startFn v, has_stopFn v) of
                   (Some s, Some ok, True) \<Rightarrow>
                     (if \<not> ok then (Inl Vision_Start_Failed, [])
                      else if \<not> is_ready (ready v)
                      then (Inl Vision_Not_Ready, [Started_Worker s, Stopped_Worker s])
                      else (Inr (s # (case edgeVideoSinkFn e of Some (Some x) \<Rightarrow> [x] | _ \<Rightarrow> []), Some s),
                            [Started_Worker s]))
                 | _ \<Rightarrow> (Inl Vision_Incomplete, [])))
      else (Inl (Unsupported_Mode to), []))"

definition transitionMode ::
    "environment \<Rightarrow> string \<Rightarrow> string \<Rightarrow> adapter \<Rightarrow> adapter_error option \<times> adapter" where
  "transitionMode e from to a =
     (case build_sinks e to of
        (Inl err, cs) \<Rightarrow> (Some err, a\<lparr>calls := calls a @ cs\<rparr>)
      | (Inr (sinks, stop), cs) \<Rightarrow>
          (let a = a\<lparr>calls := calls a @ cs\<rparr>;
               a = (case currentVisionStop a of
                      Some w \<Rightarrow> if from = ModeEdge
                        then a\<lparr>calls := calls a @ [Stopped_Worker w], currentVisionStop := None\<rparr> else a
                    | None \<Rightarrow> a);
               a = a\<lparr>videoManager := map_option (UpdateRouterSinks sinks) (videoManager a),
                     activeSinks := sinks\<rparr>
           in (None, if stop \<noteq> None then a\<lparr>currentVisionStop := stop\<rparr> else a)))"

subsection \<open>Applying a configuration\<close>

text \<open>A pipeline's new configuration and whether it must restart, for one camera: \<open>hyb\<close> is the new
  hybrid flag.\<close>

definition resize_cfg ::
    "int option \<Rightarrow> int option \<Rightarrow> video_config \<times> bool \<Rightarrow> (video_config \<times> bool) option" where
  "resize_cfg w h cr =
     (case w of None \<Rightarrow> Some cr
      | Some w' \<Rightarrow>
          (case h of None \<Rightarrow> None
           | Some h' \<Rightarrow>
               (let c = fst cr in
                if vc_OutputWidth c \<noteq> w' \<or> vc_OutputHeight c \<noteq> h'
                then Some (c\<lparr>vc_OutputWidth := w', vc_OutputHeight := h'\<rparr>, True) else Some cr)))"

definition roi_cfg :: "roi list option \<Rightarrow> video_config \<times> bool \<Rightarrow> video_config \<times> bool" where
  "roi_cfg rois cr = (case rois of None \<Rightarrow> cr | Some rs \<Rightarrow> ((fst cr)\<lparr>Hybrid_ROIs := rs\<rparr>, True))"

text \<open>The body of the loop over the active pipelines in \<open>applyState\<close>.\<close>

definition apply_camera ::
    "environment \<Rightarrow> runtime_config \<Rightarrow> bool \<Rightarrow> bool \<Rightarrow> string \<Rightarrow> video_manager \<Rightarrow>
     adapter_error option \<times> video_manager" where
  "apply_camera e c policy hyb k vm =
     (case map_of (pipelines vm) k of
        None \<Rightarrow> (None, vm)
      | Some pipe \<Rightarrow>
          (let camCfg = p_cfg pipe;
               s1 = (if Hybrid_Enabled camCfg \<noteq> hyb then (camCfg\<lparr>Hybrid_Enabled := hyb\<rparr>, True)
                     else (camCfg, False))
           in case resize_cfg (OutputWidth c) (OutputHeight c) s1 of
                None \<Rightarrow> (Some Nil_Dereference, vm)
              | Some s2 \<Rightarrow>
                  (let s3 = roi_cfg (HybridROIs c) s2;
                       ov = map_of (case rc_Cameras c of Some cs \<Rightarrow> cs | None \<Rightarrow> []) k;
                       vm1 = (case ov of None \<Rightarrow> vm
                              | Some v \<Rightarrow> (case cam_TargetFPS v of None \<Rightarrow> vm
                                  | Some f \<Rightarrow> if policy then vm else snd (vm_SetTargetFPS k f vm)));
                       s4 = (case ov of None \<Rightarrow> Some s3
                             | Some v \<Rightarrow> map_option (roi_cfg (cam_HybridROIs v))
                                 (resize_cfg (cam_OutputWidth v) (cam_OutputHeight v) s3))
                   in case s4 of
                        None \<Rightarrow> (Some Nil_Dereference, vm1)
                      | Some (newCfg, restart) \<Rightarrow>
                          if restart
                          then (case RestartCameraPipeline (has_desc e) k newCfg vm1 of
                                  (True, vm2) \<Rightarrow> (None, vm2)
                                | (False, vm2) \<Rightarrow> (Some (Restart_Failed k), vm2))
                          else (None, vm1))))"

fun apply_cameras ::
    "environment \<Rightarrow> runtime_config \<Rightarrow> bool \<Rightarrow> bool \<Rightarrow> string list \<Rightarrow> video_manager \<Rightarrow>
     adapter_error option \<times> video_manager" where
  "apply_cameras e c policy hyb [] vm = (None, vm)"
| "apply_cameras e c policy hyb (k # ks) vm =
     (case apply_camera e c policy hyb k vm of
        (Some err, vm') \<Rightarrow> (Some err, vm')
      | (None, vm') \<Rightarrow> apply_cameras e c policy hyb ks vm')"

text \<open>\<open>SetModels\<close> of the model manager: an empty name leaves the model as it is.\<close>

definition SetModels :: "string \<Rightarrow> string \<Rightarrow> string \<times> string \<Rightarrow> string \<times> string" where
  "SetModels p v mm = (if p \<noteq> [] then p else fst mm, if v \<noteq> [] then v else snd mm)"

definition apply_models :: "runtime_config \<Rightarrow> string \<times> string \<Rightarrow> string \<times> string" where
  "apply_models c mm =
     SetModels (case PersonModel c of Some p \<Rightarrow> p | None \<Rightarrow> fst mm)
               (case VehicleModel c of Some v \<Rightarrow> v | None \<Rightarrow> snd mm) mm"

text \<open>The manager's default configuration after a document.\<close>

definition manager_config :: "runtime_config \<Rightarrow> bool \<Rightarrow> video_config \<Rightarrow> video_config" where
  "manager_config c hyb m =
     \<lparr>vc_TargetFPS = (case rc_TargetFPS c of Some f \<Rightarrow> f | None \<Rightarrow> vc_TargetFPS m),
      vc_OutputWidth = (case OutputWidth c of Some w \<Rightarrow> w | None \<Rightarrow> vc_OutputWidth m),
      vc_OutputHeight = (case OutputHeight c of Some h \<Rightarrow> h | None \<Rightarrow> vc_OutputHeight m),
      Hybrid_Enabled = hyb,
      Hybrid_ROIs = (case HybridROIs c of Some rs \<Rightarrow> rs | None \<Rightarrow> Hybrid_ROIs m)\<rparr>"

text \<open>The second half of \<open>applyState\<close>, after the mode: models, manager defaults, rates, pipelines.\<close>

definition apply_video ::
    "environment \<Rightarrow> runtime_config \<Rightarrow> string \<Rightarrow> adapter \<Rightarrow> adapter_error option \<times> adapter" where
  "apply_video e c targetMode a =
     (let a = a\<lparr>modelManager := map_option (apply_models c) (modelManager a)\<rparr>
      in case videoManager a of
           None \<Rightarrow> (None, a)
         | Some vm \<Rightarrow>
             (let hyb = (targetMode = ModeHybrid);
                  vm = vm_SetConfig (manager_config c hyb (v_cfg vm)) vm;
                  policy = (inference a \<noteq> None \<and> targetMode = ModeEdge);
                  (perr, inf) =
                    (case inference a of
                       Some im \<Rightarrow> if policy
                         then (let (er, im') = ApplyRemote (rc_TargetFPS c) (inferencePolicies (rc_Cameras c)) im
                               in (er \<noteq> None, Some im'))
                         else (False, Some im)
                     | None \<Rightarrow> (False, None))
              in if perr then (Some Policy_Rejected, a\<lparr>videoManager := Some vm, inference := inf\<rparr>)
                 else let vm = (case rc_TargetFPS c of
                              Some f \<Rightarrow> if policy then vm else snd (vm_SetTargetFPS [] f vm)
                            | None \<Rightarrow> vm);
                          (err, vm') = apply_cameras e c policy hyb (ActivePipelines vm) vm
                      in (err, a\<lparr>videoManager := Some vm', inference := inf\<rparr>)))"

definition applyState ::
    "environment \<Rightarrow> runtime_config \<Rightarrow> adapter \<Rightarrow> adapter_error option \<times> adapter" where
  "applyState e c a =
     (let targetMode = (case ProcessingMode c of Some p \<Rightarrow> deref (currentMode a) p
                        | None \<Rightarrow> currentMode a)
      in if targetMode \<noteq> currentMode a
         then (case transitionMode e (currentMode a) targetMode a of
                 (Some err, a') \<Rightarrow> (Some err, a')
               | (None, a') \<Rightarrow>
                   apply_video e c targetMode (a'\<lparr>currentMode := targetMode, modeNow := targetMode\<rparr>))
         else apply_video e c targetMode a)"

definition runHealthCheck :: "environment \<Rightarrow> adapter \<Rightarrow> adapter_error option" where
  "runHealthCheck e a =
     (if healthCheck e = Some False then Some Health_Check_Failed
      else case videoManager a of
             None \<Rightarrow> None
           | Some vm \<Rightarrow>
               map_option (\<lambda>kp. Pipeline_In_Error (fst kp))
                 (find (\<lambda>(_, p). p_state p = ''error'') (pipelines vm)))"

text \<open>The tail shared by \<open>Apply\<close>, \<open>Rollback\<close> and \<open>RollbackRuntimeConfig\<close>: publish the configuration and
  its mode.\<close>

definition commit_config :: "runtime_config \<Rightarrow> adapter \<Rightarrow> adapter" where
  "commit_config c a =
     (let a = a\<lparr>currentCfg := c\<rparr>
      in case ProcessingMode c of
           None \<Rightarrow> a
         | Some p \<Rightarrow> (let m = deref (currentMode a) p
                     in a\<lparr>currentMode := m, modeNow := m, calls := calls a @ [Mode_Changed m]\<rparr>))"

definition Apply ::
    "environment \<Rightarrow> runtime_config \<Rightarrow> adapter \<Rightarrow> adapter_error option \<times> adapter" where
  "Apply e patch a =
     (let effective = MergeConfig (currentMode a) (currentCfg a) patch
      in case Validate (currentMode a) effective (knownCameras a) of
           Some er \<Rightarrow> (Some (Invalid er), a)
         | None \<Rightarrow>
             (let a = a\<lparr>previousCfg := copyConfig (currentMode a) (currentCfg a)\<rparr>
              in case applyState e effective a of
                   (Some er, a') \<Rightarrow> (Some er, a')
                 | (None, a') \<Rightarrow>
                     (case runHealthCheck e a' of
                        Some er \<Rightarrow> (Some er, a')
                      | None \<Rightarrow> (None, commit_config effective (a'\<lparr>hasPrevious := True\<rparr>)))))"

definition Rollback :: "environment \<Rightarrow> adapter \<Rightarrow> adapter_error option \<times> adapter" where
  "Rollback e a =
     (let target = (if \<not> hasPrevious a \<and> ProcessingMode (previousCfg a) = None
                    then initialCfg a else previousCfg a)
      in case applyState e target a of
           (Some er, a') \<Rightarrow> (Some er, a')
         | (None, a') \<Rightarrow> (None, (commit_config target a')\<lparr>hasPrevious := False\<rparr>))"

section \<open>The engine's view\<close>

text \<open>The methods of the \<open>Adapter\<close> interface. \<open>parse\<close> is \<open>ParseAndValidateJSON\<close> with the JSON library's
  two functions supplied; a payload is the text of a document.\<close>

type_synonym parser = "string \<Rightarrow> string list \<Rightarrow> rc_error + runtime_config"

definition ValidateRuntimeConfig :: "parser \<Rightarrow> string \<Rightarrow> adapter \<Rightarrow> rc_error option" where
  "ValidateRuntimeConfig parse payload a =
     (case parse payload (knownCameras a) of
        Inl er \<Rightarrow> Some er
      | Inr c \<Rightarrow> Adapter_Validate c a)"

definition ApplyRuntimeConfig ::
    "parser \<Rightarrow> environment \<Rightarrow> string \<Rightarrow> adapter \<Rightarrow> adapter_error option \<times> adapter" where
  "ApplyRuntimeConfig parse e payload a =
     (case parse payload (knownCameras a) of
        Inl er \<Rightarrow> (Some (Invalid er), a)
      | Inr c \<Rightarrow> Apply e c a)"

definition RollbackRuntimeConfig ::
    "parser \<Rightarrow> environment \<Rightarrow> int \<Rightarrow> string \<Rightarrow> adapter \<Rightarrow> adapter_error option \<times> adapter" where
  "RollbackRuntimeConfig parse e version payload a =
     (let target = (if length payload > 0 \<and> version > 0
                    then (case parse payload (knownCameras a) of
                            Inr c \<Rightarrow> c
                          | Inl _ \<Rightarrow> copyConfig (currentMode a) (initialCfg a))
                    else copyConfig (currentMode a) (initialCfg a))
      in case applyState e target a of
           (Some er, a') \<Rightarrow> (Some er, a')
         | (None, a') \<Rightarrow> (None, (commit_config target a')\<lparr>hasPrevious := False\<rparr>))"

text \<open>The consumer of \<open>CurrentConfig\<close> in \<open>agent/anpr_wiring.go\<close> and \<open>anpr_sampling.go\<close>: may a camera's
  plates be read, and at which burst rate.\<close>

definition camera_anpr_of :: "runtime_config \<Rightarrow> string \<Rightarrow> camera_anpr option" where
  "camera_anpr_of c k =
     (case map_of (case rc_Cameras c of Some cs \<Rightarrow> cs | None \<Rightarrow> []) k of
        None \<Rightarrow> None | Some v \<Rightarrow> ANPR v)"

definition ANPRAllowed :: "(unit \<Rightarrow> runtime_config) option \<Rightarrow> string \<Rightarrow> bool" where
  "ANPRAllowed current k =
     (case current of None \<Rightarrow> False
      | Some cur \<Rightarrow> (case camera_anpr_of (cur ()) k of None \<Rightarrow> False | Some an \<Rightarrow> Enabled an))"

definition burstFPSFromRemoteConfig :: "(unit \<Rightarrow> runtime_config) option \<Rightarrow> string \<Rightarrow> rat option" where
  "burstFPSFromRemoteConfig current k =
     (case current of None \<Rightarrow> None
      | Some cur \<Rightarrow>
          (case camera_anpr_of (cur ()) k of None \<Rightarrow> None
           | Some an \<Rightarrow> if \<not> Enabled an \<or> \<not> HighSpeedLPR an \<or> anpr_BurstFPS an \<le> 0 then None
                        else Some (anpr_BurstFPS an)))"

end
