(* ===== verification/RemoteConfig_Props.thy ===== *)
theory RemoteConfig_Props
  imports RemoteConfig_Adapter
begin

text \<open>
  What the validation of a remote document guarantees, what applying it does to every camera pipeline,
  and where the adapter's copies and rollbacks lose information.
\<close>

section \<open>Accepted documents\<close>

lemma first_error_None: "first_error es = None \<longleftrightarrow> (\<forall>e \<in> set es. e = None)"
  by (induction es rule: first_error.induct) auto

definition fps_in_range :: "rat option \<Rightarrow> bool" where
  "fps_in_range f \<longleftrightarrow> (\<forall>v. f = Some v \<longrightarrow> MinVideoTargetFPS \<le> v \<and> v \<le> MaxVideoTargetFPS)"

definition resolution_ok :: "int option \<Rightarrow> int option \<Rightarrow> bool" where
  "resolution_ok w h \<longleftrightarrow> (w = None \<and> h = None) \<or>
     (\<exists>x y. w = Some x \<and> h = Some y \<and> 0 < x \<and> x \<le> 1920 \<and> 0 < y \<and> y \<le> 1080 \<and> even x \<and> even y)"

definition rois_ok :: "roi list option \<Rightarrow> bool" where
  "rois_ok rs \<longleftrightarrow> (\<forall>l. rs = Some l \<longrightarrow> (\<forall>r \<in> set l.
     0 \<le> XMin r \<and> XMin r < XMax r \<and> XMax r \<le> 1 \<and> 0 \<le> YMin r \<and> YMin r < YMax r \<and> YMax r \<le> 1))"

lemma check_fps_None: "check_fps f = None \<longleftrightarrow> fps_in_range f"
  by (auto simp: check_fps_def fps_in_range_def not_less split: option.splits)

lemma check_resolution_None: "check_resolution w h = None \<longleftrightarrow> resolution_ok w h"
  by (auto simp: check_resolution_def resolution_ok_def validateResolution_def
      ValidateOutputDimensions_def MaxVideoOutputWidth_def MaxVideoOutputHeight_def
      even_iff_mod_2_eq_zero split: option.splits)

lemma check_rois_None: "check_rois rs = None \<longleftrightarrow> rois_ok rs"
  by (auto simp: check_rois_def rois_ok_def find_index_None_iff validateROI_def not_less not_le
      split: option.splits)

lemma supported_models_plain:
  "\<not> containsPathOrURL SupportedPersonModel" "\<not> containsPathOrURL SupportedVehicleModel"
  by code_simp+

lemma check_model_None:
  "\<not> containsPathOrURL m \<Longrightarrow> check_model m er mo = None \<longleftrightarrow> mo \<in> {None, Some m}"
  by (auto simp: check_model_def split: option.splits)

text \<open>A camera override: a known, plain key and every value in its range.\<close>

definition camera_ok :: "string list \<Rightarrow> string \<Rightarrow> camera_override \<Rightarrow> bool" where
  "camera_ok known k c \<longleftrightarrow> trim_space k \<noteq> [] \<and> \<not> containsPathOrURL k \<and> k \<in> set known
     \<and> fps_in_range (cam_TargetFPS c) \<and> resolution_ok (cam_OutputWidth c) (cam_OutputHeight c)
     \<and> check_burst (ANPR c) = None \<and> rois_ok (cam_HybridROIs c)
     \<and> (\<forall>i. cam_Inference c = Some i \<longrightarrow>
          CameraConfig_Validate (WithDefaults DefaultVideoTargetFPS (Policy (cam_TargetFPS c) (Some i))) = None)"

lemma check_camera_ok: "check_camera known k c = None \<Longrightarrow> camera_ok known k c"
  by (auto simp: check_camera_def camera_ok_def first_error_None check_fps_None
      check_resolution_None check_rois_None check_inference_def split: if_splits option.splits)

definition config_ok :: "string \<Rightarrow> runtime_config \<Rightarrow> string list \<Rightarrow> bool" where
  "config_ok cm c known \<longleftrightarrow>
     (\<forall>p. ProcessingMode c = Some p \<longrightarrow> deref cm p \<in> {ModeCloud, ModeHybrid, ModeEdge})
     \<and> fps_in_range (rc_TargetFPS c) \<and> resolution_ok (OutputWidth c) (OutputHeight c)
     \<and> rois_ok (HybridROIs c)
     \<and> PersonModel c \<in> {None, Some SupportedPersonModel}
     \<and> VehicleModel c \<in> {None, Some SupportedVehicleModel}
     \<and> (\<forall>cs k ov. rc_Cameras c = Some cs \<longrightarrow> (k, ov) \<in> set cs \<longrightarrow> camera_ok known k ov)"

lemma Validate_ok:
  assumes "Validate cm c known = None"
  shows "config_ok cm c known"
proof -
  have V: "\<forall>e \<in> set ([case ProcessingMode c of None \<Rightarrow> None
         | Some p \<Rightarrow> (case ParseProcessingMode (deref cm p) of
                        None \<Rightarrow> Some (Err_Mode (deref cm p)) | Some _ \<Rightarrow> None),
         check_fps (rc_TargetFPS c),
         check_resolution (OutputWidth c) (OutputHeight c),
         check_rois (HybridROIs c),
         check_model SupportedPersonModel Err_Person_Model (PersonModel c),
         check_model SupportedVehicleModel Err_Vehicle_Model (VehicleModel c)]
        @ map (\<lambda>(k, ov). check_camera known k ov)
            (case rc_Cameras c of Some cs \<Rightarrow> cs | None \<Rightarrow> [])). e = None"
    using assms unfolding Validate_def by (simp only: first_error_None)
  have m: "deref cm p \<in> {ModeCloud, ModeHybrid, ModeEdge}" if "ProcessingMode c = Some p" for p
    using V that by (simp add: ParseProcessingMode_def split: if_splits)
  have "camera_ok known k ov" if "rc_Cameras c = Some cs" "(k, ov) \<in> set cs" for cs k ov
    using V that by (intro check_camera_ok) force
  moreover have "PersonModel c \<in> {None, Some SupportedPersonModel}"
    "VehicleModel c \<in> {None, Some SupportedVehicleModel}"
    using V check_model_None [OF supported_models_plain(1)] check_model_None [OF supported_models_plain(2)]
    by simp_all
  ultimately show ?thesis
    using V m by (auto simp: config_ok_def check_fps_None check_resolution_None check_rois_None)
qed

text \<open>Every key of a JSON value, at any depth.\<close>

fun any_keys :: "any \<Rightarrow> string set" where
  "any_keys (Obj es) = (\<Union>(k, v) \<in> set es. insert k (any_keys v))"
| "any_keys (Arr xs) = (\<Union>v \<in> set xs. any_keys v)"
| "any_keys (Scalar _) = {}"

lemma checkDisallowed_None:
  "checkDisallowedKeys v = None \<longleftrightarrow> (\<forall>k \<in> any_keys v. to_lower (trim_space k) \<notin> set DisallowedKeys)"
proof (induction v rule: checkDisallowedKeys.induct)
  case (1 es)
  have "check_entry checkDisallowedKeys (k, v) = None \<longleftrightarrow>
      (\<forall>x \<in> insert k (any_keys v). to_lower (trim_space x) \<notin> set DisallowedKeys)"
    if "(k, v) \<in> set es" for k v
    using 1 [OF that refl] by simp
  then show ?case by (fastforce simp: first_error_None)
next
  case (2 xs)
  then show ?case by (auto simp: first_error_None)
qed simp

text \<open>C21. A payload that \<open>ParseAndValidateJSON\<close> accepts carries no credential, address or path field
  at any depth of the document, whatever its case or surrounding space, and every setting in it is
  inside the technical bounds: a known mode, rates in 0.1..30, even positive resolutions up to
  1920x1080 given in pairs, regions inside the unit square, the supported models, and overrides only
  for cameras the runtime knows.\<close>

theorem accepted_document_is_safe:
  assumes "ParseAndValidateJSON unmarshal decode data known = Inr c"
  shows "\<exists>raw. unmarshal data = Some raw \<and> decode data = Some c
    \<and> (\<forall>k \<in> any_keys raw. to_lower (trim_space k) \<notin> set DisallowedKeys)
    \<and> config_ok [] c known"
  using assms Validate_ok
  by (auto simp: ParseAndValidateJSON_def checkDisallowed_None split: option.splits)

definition sample_doc :: any where
  "sample_doc = Obj [(''target_fps'', Scalar ''10''), (''cameras'', Obj [(''cam1'', Obj [(''target_fps'', Scalar ''8'')])])]"

definition sample_override :: camera_override where
  "sample_override = \<lparr>cam_TargetFPS = Some 8, cam_OutputWidth = None, cam_OutputHeight = None,
     cam_HybridROIs = None, ANPR = Some \<lparr>Enabled = True, HighSpeedLPR = False, anpr_BurstFPS = 0, BurstDurationMS = 0\<rparr>,
     cam_Inference = None\<rparr>"

definition sample_config :: runtime_config where
  "sample_config = empty_config\<lparr>rc_TargetFPS := Some 10, rc_Cameras := Some [(''cam1'', sample_override)]\<rparr>"

theorem accepted_document_witness:
  "\<exists>raw. (\<lambda>_. Some sample_doc) ''{}'' = Some raw
    \<and> (\<forall>k \<in> any_keys raw. to_lower (trim_space k) \<notin> set DisallowedKeys)
    \<and> config_ok [] sample_config [''cam1'']"
proof -
  have "ParseAndValidateJSON (\<lambda>_. Some sample_doc) (\<lambda>_. Some sample_config) ''{}'' [''cam1''] = Inr sample_config"
    by code_simp
  from accepted_document_is_safe [OF this] show ?thesis by auto
qed

section \<open>Plate reading is never allowed\<close>

lemma copyConfig_anpr: "camera_anpr_of (copyConfig cm c) k = None"
proof -
  have "ANPR v = None" if "map_of (map (\<lambda>(k, v). (k, copy_camera v)) cs) k = Some v" for cs v
    using that by (induction cs) (auto simp: copy_camera_def split: if_splits)
  then show ?thesis
    by (auto simp: camera_anpr_of_def copyConfig_def split: option.splits)
qed

text \<open>C32. Whatever configuration has been applied, the plate-reading authorizer built over
  \<open>CurrentConfig\<close> denies every camera and the burst rate is never set: \<open>CurrentConfig\<close> returns a copy
  that leaves the \<open>ANPR\<close> block of every camera out.\<close>

theorem anpr_never_allowed:
  "\<not> ANPRAllowed (Some (\<lambda>_. CurrentConfig a)) k
   \<and> burstFPSFromRemoteConfig (Some (\<lambda>_. CurrentConfig a)) k = None"
  by (simp add: ANPRAllowed_def burstFPSFromRemoteConfig_def CurrentConfig_def copyConfig_anpr)

section \<open>Rolling back to the initial configuration\<close>

lemma apply_video_frame:
  "currentMode (snd (apply_video e c tm a)) = currentMode a"
  "initialCfg (snd (apply_video e c tm a)) = initialCfg a"
  "activeSinks (snd (apply_video e c tm a)) = activeSinks a"
  by (auto simp: apply_video_def Let_def split: option.splits prod.splits if_splits)

lemma transitionMode_frame:
  "currentMode (snd (transitionMode e fr tm a)) = currentMode a"
  "initialCfg (snd (transitionMode e fr tm a)) = initialCfg a"
  by (auto simp: transitionMode_def Let_def split: option.splits prod.splits sum.splits if_splits)

lemma applyState_initial: "initialCfg (snd (applyState e c a)) = initialCfg a"
  using transitionMode_frame(2)
  by (auto simp: applyState_def Let_def apply_video_frame split: prod.splits option.splits)
    (metis snd_conv)+

lemma Apply_initial: "initialCfg (snd (Apply e c a)) = initialCfg a"
proof -
  have "initialCfg a1 = initialCfg b" if "applyState e c' b = (er, a1)" for c' b er a1
    using applyState_initial [of e c' b] that by simp
  then show ?thesis
    by (auto simp: Apply_def Let_def commit_config_def split: option.splits prod.splits)
qed

lemma applyState_same_mode:
  assumes "applyState e c a = (er, a')" "\<forall>p. ProcessingMode c = Some p \<longrightarrow> deref (currentMode a) p = currentMode a"
  shows "currentMode a' = currentMode a" "activeSinks a' = activeSinks a"
proof -
  have "applyState e c a = apply_video e c (currentMode a) a"
    using assms(2) by (auto simp: applyState_def Let_def split: option.splits)
  then have "snd (apply_video e c (currentMode a) a) = a'" using assms(1) by (metis snd_conv)
  then show "currentMode a' = currentMode a" "activeSinks a' = activeSinks a"
    using apply_video_frame [of e c "currentMode a" a] by simp_all
qed

text \<open>\<open>snapshotCurrentConfig\<close> stores the address of the mode field in the initial
  configuration, so the rollback the engine requests when nothing had been applied before (the zero
  \<open>Config\<close>) succeeds without undoing a mode transition: the mode and the sinks of the attempt that
  failed stay in force.\<close>

theorem rollback_keeps_failed_mode:
  assumes "initialCfg a = snapshotCurrentConfig a0" "Apply e patch a = (er, a1)"
    and "RollbackRuntimeConfig parse e' 0 [] a1 = (None, a2)"
  shows "currentMode a2 = currentMode a1 \<and> activeSinks a2 = activeSinks a1"
proof -
  let ?t = "copyConfig (currentMode a1) (initialCfg a1)"
  have "ProcessingMode (initialCfg a1) = Some Field_CurrentMode"
    using Apply_initial [of e patch a] assms(1,2)
    by (auto simp: snapshotCurrentConfig_def Let_def empty_config_def split: option.splits)
  then have t: "ProcessingMode ?t = Some (Cell (currentMode a1))" by (simp add: copyConfig_def)
  obtain x where x: "applyState e' ?t a1 = (None, x)" "a2 = (commit_config ?t x)\<lparr>hasPrevious := False\<rparr>"
    using assms(3) by (auto simp: RollbackRuntimeConfig_def Let_def split: prod.splits option.splits)
  from applyState_same_mode [OF x(1)] t
  have "currentMode x = currentMode a1" "activeSinks x = activeSinks a1" by auto
  then show ?thesis using x(2) t by (simp add: commit_config_def Let_def)
qed

definition sample_video :: video_manager where
  "sample_video = \<lparr>v_cfg = \<lparr>vc_TargetFPS = 5, vc_OutputWidth = 640, vc_OutputHeight = 360,
       Hybrid_Enabled = False, Hybrid_ROIs = []\<rparr>,
     pipelines = [(''cam1'', \<lparr>p_cfg = \<lparr>vc_TargetFPS = 5, vc_OutputWidth = 640, vc_OutputHeight = 360,
       Hybrid_Enabled = False, Hybrid_ROIs = []\<rparr>, p_state = ''running''\<rparr>)],
     extraSinks = [''cloud'']\<rparr>"

definition sample_adapter :: adapter where
  "sample_adapter = NewRuntimeAdapter \<lparr>videoManager = Some sample_video, rtspCameras = Some [''cam1''],
     modelManager = None, currentVisionStop = None, initialCfg = empty_config, currentCfg = empty_config,
     previousCfg = empty_config, hasPrevious = False, currentMode = ModeCloud, modeNow = ModeCloud,
     inference = None, activeSinks = [''cloud''], calls = []\<rparr>"

definition sample_env :: "bool \<Rightarrow> environment" where
  "sample_env healthy = \<lparr>cloudSinkFn = Some (Some ''cloud''),
     visionSinkFn = Some \<lparr>vs = Some ''vision'', startFn = Some True, has_stopFn = True, ready = No_Probe\<rparr>,
     edgeVideoSinkFn = None, healthCheck = Some healthy, has_desc = (\<lambda>_. True)\<rparr>"

abbreviation to_edge :: runtime_config where
  "to_edge \<equiv> empty_config\<lparr>ProcessingMode := Some (Cell ModeEdge)\<rparr>"

lemma sample_adapter_initial:
  "initialCfg sample_adapter = snapshotCurrentConfig sample_adapter"
  by (simp add: sample_adapter_def NewRuntimeAdapter_def snapshotCurrentConfig_def Let_def)

theorem rollback_keeps_failed_mode_witness:
  "let (er, a1) = Apply (sample_env False) to_edge sample_adapter;
       (er', a2) = RollbackRuntimeConfig (\<lambda>_ _. Inl Err_JSON) (sample_env True) 0 [] a1
   in currentMode sample_adapter = ModeCloud \<and> er = Some Health_Check_Failed \<and> er' = None
      \<and> currentMode a2 = ModeEdge \<and> activeSinks a2 = [''vision'']"
proof -
  let ?A = "Apply (sample_env False) to_edge sample_adapter"
  let ?R = "RollbackRuntimeConfig (\<lambda>_ _. Inl Err_JSON) (sample_env True) 0 [] (snd ?A)"
  have "currentMode sample_adapter = ModeCloud" "fst ?A = Some Health_Check_Failed" "fst ?R = None"
    "currentMode (snd ?A) = ModeEdge" "activeSinks (snd ?A) = [''vision'']"
    by code_simp+
  moreover have "currentMode (snd ?R) = currentMode (snd ?A) \<and> activeSinks (snd ?R) = activeSinks (snd ?A)"
    using \<open>fst ?R = None\<close>
    by (intro rollback_keeps_failed_mode [OF sample_adapter_initial]) (auto simp: prod_eq_iff)
  ultimately show ?thesis by (simp add: case_prod_beta Let_def)
qed

section \<open>What a document does to a pipeline\<close>

text \<open>A camera's own setting, else the global one, else the present value.\<close>

definition pick :: "'a option \<Rightarrow> 'a option \<Rightarrow> 'a \<Rightarrow> 'a" where
  "pick own glob old = (case own of Some x \<Rightarrow> x | None \<Rightarrow> (case glob of Some x \<Rightarrow> x | None \<Rightarrow> old))"

definition override_of :: "runtime_config \<Rightarrow> string \<Rightarrow> camera_override option" where
  "override_of c k = map_of (case rc_Cameras c of Some cs \<Rightarrow> cs | None \<Rightarrow> []) k"

definition own :: "(camera_override \<Rightarrow> 'a option) \<Rightarrow> camera_override option \<Rightarrow> 'a option" where
  "own f ov = (case ov of None \<Rightarrow> None | Some v \<Rightarrow> f v)"

definition target_cfg ::
    "runtime_config \<Rightarrow> bool \<Rightarrow> camera_override option \<Rightarrow> video_config \<Rightarrow> video_config" where
  "target_cfg c hyb ov p =
     p\<lparr>Hybrid_Enabled := hyb,
       vc_OutputWidth := pick (own cam_OutputWidth ov) (OutputWidth c) (vc_OutputWidth p),
       vc_OutputHeight := pick (own cam_OutputHeight ov) (OutputHeight c) (vc_OutputHeight p),
       Hybrid_ROIs := pick (own cam_HybridROIs ov) (HybridROIs c) (Hybrid_ROIs p)\<rparr>"

text \<open>Whether a size setting differs from the size in force.\<close>

definition resizes :: "int option \<Rightarrow> int option \<Rightarrow> int \<Rightarrow> int \<Rightarrow> bool" where
  "resizes w h x y \<longleftrightarrow> w \<noteq> None \<and> (w \<noteq> Some x \<or> h \<noteq> Some y)"

definition needs_restart ::
    "runtime_config \<Rightarrow> bool \<Rightarrow> camera_override option \<Rightarrow> video_config \<Rightarrow> bool" where
  "needs_restart c hyb ov p \<longleftrightarrow>
     Hybrid_Enabled p \<noteq> hyb \<or> HybridROIs c \<noteq> None \<or> own cam_HybridROIs ov \<noteq> None
     \<or> resizes (OutputWidth c) (OutputHeight c) (vc_OutputWidth p) (vc_OutputHeight p)
     \<or> resizes (own cam_OutputWidth ov) (own cam_OutputHeight ov)
         (pick None (OutputWidth c) (vc_OutputWidth p)) (pick None (OutputHeight c) (vc_OutputHeight p))"

definition after_camera ::
    "runtime_config \<Rightarrow> bool \<Rightarrow> bool \<Rightarrow> camera_override option \<Rightarrow> pipeline \<Rightarrow> pipeline" where
  "after_camera c policy hyb ov p =
     (if needs_restart c hyb ov (p_cfg p)
      then \<lparr>p_cfg = target_cfg c hyb ov (p_cfg p), p_state = ''starting''\<rparr>
      else p\<lparr>p_cfg := (target_cfg c hyb ov (p_cfg p))\<lparr>vc_TargetFPS :=
               (if policy then vc_TargetFPS (p_cfg p)
                else pick (own cam_TargetFPS ov) None (vc_TargetFPS (p_cfg p)))\<rparr>\<rparr>)"

lemma resize_cfg_eq:
  assumes "resolution_ok w h"
  shows "resize_cfg w h (c, r) =
     Some (c\<lparr>vc_OutputWidth := pick w None (vc_OutputWidth c), vc_OutputHeight := pick h None (vc_OutputHeight c)\<rparr>,
           r \<or> resizes w h (vc_OutputWidth c) (vc_OutputHeight c))"
  using assms by (auto simp: resolution_ok_def resize_cfg_def pick_def resizes_def Let_def)

lemma apply_camera_spec:
  assumes c: "resolution_ok (OutputWidth c) (OutputHeight c)"
    and ov: "\<forall>v. override_of c k = Some v \<longrightarrow> resolution_ok (cam_OutputWidth v) (cam_OutputHeight v)"
    and k: "k \<noteq> []" and p: "map_of (pipelines vm) k = Some p"
  obtains vm' where "apply_camera e c policy hyb k vm = (None, vm')"
    "map_of (pipelines vm') = (map_of (pipelines vm))(k \<mapsto> after_camera c policy hyb (override_of c k) p)"
proof -
  let ?o = "override_of c k"
  let ?s1 = "if Hybrid_Enabled (p_cfg p) \<noteq> hyb then ((p_cfg p)\<lparr>Hybrid_Enabled := hyb\<rparr>, True) else (p_cfg p, False)"
  let ?c1 = "(p_cfg p)\<lparr>Hybrid_Enabled := hyb\<rparr>"
  have s1: "?s1 = (?c1, Hybrid_Enabled (p_cfg p) \<noteq> hyb)" by simp
  let ?c2 = "?c1\<lparr>vc_OutputWidth := pick (OutputWidth c) None (vc_OutputWidth ?c1),
                 vc_OutputHeight := pick (OutputHeight c) None (vc_OutputHeight ?c1)\<rparr>"
  let ?r2 = "Hybrid_Enabled (p_cfg p) \<noteq> hyb
     \<or> resizes (OutputWidth c) (OutputHeight c) (vc_OutputWidth ?c1) (vc_OutputHeight ?c1)"
  have s2: "resize_cfg (OutputWidth c) (OutputHeight c) ?s1 = Some (?c2, ?r2)"
    unfolding s1 resize_cfg_eq [OF c] by simp
  let ?c3 = "?c2\<lparr>Hybrid_ROIs := pick (HybridROIs c) None (Hybrid_ROIs ?c2)\<rparr>"
  have s3: "roi_cfg (HybridROIs c) (?c2, ?r2) = (?c3, ?r2 \<or> HybridROIs c \<noteq> None)"
    by (cases "HybridROIs c") (simp_all add: roi_cfg_def pick_def)
  let ?vm1 = "case ?o of None \<Rightarrow> vm | Some v \<Rightarrow> (case cam_TargetFPS v of None \<Rightarrow> vm
                | Some f \<Rightarrow> if policy then vm else snd (vm_SetTargetFPS k f vm))"
  have vm1: "map_of (pipelines ?vm1) = (map_of (pipelines vm))(k \<mapsto>
      p\<lparr>p_cfg := (p_cfg p)\<lparr>vc_TargetFPS := (if policy then vc_TargetFPS (p_cfg p)
           else pick (own cam_TargetFPS ?o) None (vc_TargetFPS (p_cfg p)))\<rparr>\<rparr>)"
    using p k by (auto simp: vm_SetTargetFPS_def pipeline_SetTargetFPS_def own_def pick_def update_conv'
        fun_upd_idem split: option.splits)
  let ?r = "needs_restart c hyb ?o (p_cfg p)"
  have s4: "(case ?o of None \<Rightarrow> Some (?c3, ?r2 \<or> HybridROIs c \<noteq> None)
       | Some v \<Rightarrow> map_option (roi_cfg (cam_HybridROIs v))
            (resize_cfg (cam_OutputWidth v) (cam_OutputHeight v) (?c3, ?r2 \<or> HybridROIs c \<noteq> None)))
     = Some (target_cfg c hyb ?o (p_cfg p), ?r)"
  proof (cases ?o)
    case None
    then show ?thesis by (auto simp: target_cfg_def needs_restart_def own_def pick_def resizes_def split: option.splits)
  next
    case (Some v)
    then have rv: "resolution_ok (cam_OutputWidth v) (cam_OutputHeight v)" using ov by blast
    show ?thesis
      unfolding Some option.case resize_cfg_eq [OF rv]
      by (auto simp: target_cfg_def needs_restart_def own_def pick_def roi_cfg_def split: option.splits)
  qed
  have a: "apply_camera e c policy hyb k vm =
     (if ?r then (case RestartCameraPipeline (has_desc e) k (target_cfg c hyb ?o (p_cfg p)) ?vm1 of
                    (True, vm2) \<Rightarrow> (None, vm2) | (False, vm2) \<Rightarrow> (Some (Restart_Failed k), vm2))
      else (None, ?vm1))"
    unfolding apply_camera_def p option.case Let_def s2 s3 override_of_def [symmetric] s4 by simp
  show thesis
  proof (cases ?r)
    case True
    have "map_of (pipelines ?vm1) k \<noteq> None" by (simp add: vm1)
    then have "apply_camera e c policy hyb k vm = (None, ?vm1\<lparr>pipelines := AList.update k
        \<lparr>p_cfg = target_cfg c hyb ?o (p_cfg p), p_state = ''starting''\<rparr> (pipelines ?vm1)\<rparr>)"
      using True by (simp add: a RestartCameraPipeline_def del: map_of_eq_None_iff)
    then show thesis using True vm1 by (intro that) (auto simp: update_conv' after_camera_def)
  next
    case False
    have "p_cfg p = target_cfg c hyb ?o (p_cfg p)"
      using False c ov
      by (auto simp: needs_restart_def target_cfg_def own_def pick_def resizes_def resolution_ok_def
          split: option.splits)
    then have "after_camera c policy hyb ?o p = p\<lparr>p_cfg := (p_cfg p)\<lparr>vc_TargetFPS := (if policy then vc_TargetFPS (p_cfg p)
           else pick (own cam_TargetFPS ?o) None (vc_TargetFPS (p_cfg p)))\<rparr>\<rparr>"
      using False unfolding after_camera_def by metis
    then show thesis using a vm1 False by (intro that) simp_all
  qed
qed

definition overrides_ok :: "runtime_config \<Rightarrow> bool" where
  "overrides_ok c \<longleftrightarrow> resolution_ok (OutputWidth c) (OutputHeight c)
     \<and> (\<forall>k v. override_of c k = Some v \<longrightarrow> resolution_ok (cam_OutputWidth v) (cam_OutputHeight v))"

lemma config_ok_overrides: "config_ok cm c known \<Longrightarrow> overrides_ok c"
  by (force simp: config_ok_def overrides_ok_def override_of_def camera_ok_def
      dest: map_of_SomeD split: option.splits)

lemma apply_cameras_spec:
  assumes "overrides_ok c" "distinct ks" "[] \<notin> set ks" "\<forall>k \<in> set ks. map_of (pipelines vm) k \<noteq> None"
  shows "\<exists>vm'. apply_cameras e c policy hyb ks vm = (None, vm')
    \<and> (\<forall>k. map_of (pipelines vm') k =
          (if k \<in> set ks then map_option (after_camera c policy hyb (override_of c k)) (map_of (pipelines vm) k)
           else map_of (pipelines vm) k))"
  using assms(2-4)
proof (induction ks arbitrary: vm)
  case Nil
  then show ?case by simp
next
  case (Cons k ks)
  obtain p where p: "map_of (pipelines vm) k = Some p" using Cons.prems(3) by auto
  obtain vm1 where vm1: "apply_camera e c policy hyb k vm = (None, vm1)"
    "map_of (pipelines vm1) = (map_of (pipelines vm))(k \<mapsto> after_camera c policy hyb (override_of c k) p)"
    using assms(1) Cons.prems(2) p
    by (auto simp: overrides_ok_def intro: apply_camera_spec [of c k vm p e policy hyb])
  have "\<exists>vm'. apply_cameras e c policy hyb ks vm1 = (None, vm')
    \<and> (\<forall>x. map_of (pipelines vm') x =
          (if x \<in> set ks then map_option (after_camera c policy hyb (override_of c x)) (map_of (pipelines vm1) x)
           else map_of (pipelines vm1) x))"
    using Cons.prems by (intro Cons.IH) (auto simp: vm1(2))
  then show ?case using vm1 p Cons.prems(1) by auto
qed

text \<open>The mode a document leads to, whether the inference policy owns the rates there, and a
  pipeline's rate before the per-camera overrides.\<close>

definition target_mode :: "runtime_config \<Rightarrow> adapter \<Rightarrow> string" where
  "target_mode c a = (case ProcessingMode c of Some p \<Rightarrow> deref (currentMode a) p | None \<Rightarrow> currentMode a)"

definition policy_owns_rates :: "runtime_config \<Rightarrow> adapter \<Rightarrow> bool" where
  "policy_owns_rates c a \<longleftrightarrow> inference a \<noteq> None \<and> target_mode c a = ModeEdge"

definition with_global_rate :: "runtime_config \<Rightarrow> bool \<Rightarrow> pipeline \<Rightarrow> pipeline" where
  "with_global_rate c policy p =
     (case rc_TargetFPS c of None \<Rightarrow> p | Some f \<Rightarrow> if policy then p else pipeline_SetTargetFPS f p)"

lemma apply_video_spec:
  assumes ok: "overrides_ok c" and r: "apply_video e c tm a = (None, a')"
    and v: "videoManager a = Some vm" "wf_alist (pipelines vm)" "[] \<notin> fst ` set (pipelines vm)"
    and p: "map_of (pipelines vm) k = Some p"
  shows "\<exists>vm'. videoManager a' = Some vm' \<and> map_of (pipelines vm') k =
    Some (let policy = (inference a \<noteq> None \<and> tm = ModeEdge)
          in after_camera c policy (tm = ModeHybrid) (override_of c k) (with_global_rate c policy p))"
proof -
  let ?pol = "inference a \<noteq> None \<and> tm = ModeEdge"
  let ?hyb = "tm = ModeHybrid"
  let ?vm0 = "vm_SetConfig (manager_config c ?hyb (v_cfg vm)) vm"
  let ?vm1 = "case rc_TargetFPS c of Some f \<Rightarrow> if ?pol then ?vm0 else snd (vm_SetTargetFPS [] f ?vm0) | None \<Rightarrow> ?vm0"
  have pl: "pipelines ?vm1 = map (\<lambda>(k, q). (k, with_global_rate c ?pol q)) (pipelines vm)"
    by (auto simp: vm_SetConfig_def vm_SetTargetFPS_def with_global_rate_def split: option.split)
  have m1: "map_of (pipelines ?vm1) x = map_option (with_global_rate c ?pol) (map_of (pipelines vm) x)" for x
    unfolding pl by (simp add: map_of_map)
  have keys: "map fst (pipelines ?vm1) = map fst (pipelines vm)"
    unfolding pl by (simp add: comp_def case_prod_beta)
  have "\<exists>vm'. apply_cameras e c ?pol ?hyb (ActivePipelines ?vm1) ?vm1 = (None, vm')
    \<and> (\<forall>x. map_of (pipelines vm') x =
          (if x \<in> set (ActivePipelines ?vm1)
           then map_option (after_camera c ?pol ?hyb (override_of c x)) (map_of (pipelines ?vm1) x)
           else map_of (pipelines ?vm1) x))"
    using v(2,3) unfolding ActivePipelines_def keys
    by (intro apply_cameras_spec [OF ok]) (auto simp: m1 map_of_eq_None_iff)
  then obtain vm' where vm': "apply_cameras e c ?pol ?hyb (ActivePipelines ?vm1) ?vm1 = (None, vm')"
    "\<forall>x. map_of (pipelines vm') x =
          (if x \<in> set (ActivePipelines ?vm1)
           then map_option (after_camera c ?pol ?hyb (override_of c x)) (map_of (pipelines ?vm1) x)
           else map_of (pipelines ?vm1) x)" by blast
  have "k \<in> set (ActivePipelines ?vm1)"
    unfolding ActivePipelines_def keys using p by (force dest: map_of_SomeD)
  then have k: "map_of (pipelines vm') k =
      Some (after_camera c ?pol ?hyb (override_of c k) (with_global_rate c ?pol p))"
    using vm'(2) m1 p by simp
  have "videoManager a' = Some vm'"
    using r v(1) vm'(1)
    by (auto simp: apply_video_def Let_def split: option.splits prod.splits if_splits)
  then show ?thesis using k by (simp add: Let_def)
qed

lemma transition_pipelines:
  assumes "transitionMode e fr tm a = (None, a')" "videoManager a = Some vm"
  shows "\<exists>vm'. videoManager a' = Some vm' \<and> pipelines vm' = pipelines vm \<and> inference a' = inference a"
  using assms
  by (auto simp: transitionMode_def Let_def UpdateRouterSinks_def split: option.splits prod.splits sum.splits if_splits)

lemma applyState_spec:
  assumes ok: "overrides_ok c" and r: "applyState e c a = (None, a')"
    and v: "videoManager a = Some vm" "wf_alist (pipelines vm)" "[] \<notin> fst ` set (pipelines vm)"
    and p: "map_of (pipelines vm) k = Some p"
  shows "\<exists>vm'. videoManager a' = Some vm' \<and> map_of (pipelines vm') k =
    Some (after_camera c (policy_owns_rates c a) (target_mode c a = ModeHybrid) (override_of c k)
           (with_global_rate c (policy_owns_rates c a) p))"
proof (cases "target_mode c a = currentMode a")
  case True
  then have "apply_video e c (target_mode c a) a = (None, a')"
    using r by (simp add: applyState_def target_mode_def [symmetric])
  from apply_video_spec [OF ok this v p] show ?thesis by (simp add: policy_owns_rates_def Let_def)
next
  case False
  then obtain b where b: "transitionMode e (currentMode a) (target_mode c a) a = (None, b)"
    "apply_video e c (target_mode c a) (b\<lparr>currentMode := target_mode c a, modeNow := target_mode c a\<rparr>) = (None, a')"
    using r by (auto simp: applyState_def target_mode_def [symmetric] Let_def split: prod.splits option.splits)
  obtain vm1 where vm1: "videoManager b = Some vm1" "pipelines vm1 = pipelines vm" "inference b = inference a"
    using transition_pipelines [OF b(1) v(1)] by blast
  from apply_video_spec [OF ok b(2), of vm1 k p] vm1 v p
  show ?thesis by (simp add: policy_owns_rates_def Let_def)
qed

text \<open>Applying a valid document succeeds on a pipeline exactly as documented for everything but
  the rate: the hybrid flag follows the mode, and size and regions are the camera's own setting, else
  the global one, else unchanged. The rate is the camera's own only if the pipeline was not
  restarted: a camera override of \<open>target_fps\<close> together with anything that restarts the pipeline is lost,
  because the new pipeline is built from the configuration read before the override was set.\<close>

theorem applied_pipeline_configuration:
  assumes "config_ok cm c known" "applyState e c a = (None, a')"
    and "videoManager a = Some vm" "wf_alist (pipelines vm)" "[] \<notin> fst ` set (pipelines vm)"
    and "map_of (pipelines vm) k = Some p" "\<not> policy_owns_rates c a"
  shows "\<exists>vm' p'. videoManager a' = Some vm' \<and> map_of (pipelines vm') k = Some p'
    \<and> Hybrid_Enabled (p_cfg p') = (target_mode c a = ModeHybrid)
    \<and> vc_OutputWidth (p_cfg p') = pick (own cam_OutputWidth (override_of c k)) (OutputWidth c) (vc_OutputWidth (p_cfg p))
    \<and> vc_OutputHeight (p_cfg p') = pick (own cam_OutputHeight (override_of c k)) (OutputHeight c) (vc_OutputHeight (p_cfg p))
    \<and> Hybrid_ROIs (p_cfg p') = pick (own cam_HybridROIs (override_of c k)) (HybridROIs c) (Hybrid_ROIs (p_cfg p))
    \<and> vc_TargetFPS (p_cfg p') =
        pick (if needs_restart c (target_mode c a = ModeHybrid) (override_of c k) (p_cfg p) then None
              else own cam_TargetFPS (override_of c k)) (rc_TargetFPS c) (vc_TargetFPS (p_cfg p))"
proof -
  let ?q = "with_global_rate c False p"
  have q: "p_cfg ?q = (p_cfg p)\<lparr>vc_TargetFPS := pick None (rc_TargetFPS c) (vc_TargetFPS (p_cfg p))\<rparr>"
    by (simp add: with_global_rate_def pipeline_SetTargetFPS_def pick_def split: option.split)
  have n: "needs_restart c h ov (x\<lparr>vc_TargetFPS := f\<rparr>) = needs_restart c h ov x" for h ov x f
    by (simp add: needs_restart_def)
  have pp: "pick o1 None (pick None g old) = pick o1 g old" for o1 g and old :: rat
    by (simp add: pick_def split: option.split)
  from applyState_spec [OF config_ok_overrides [OF assms(1)] assms(2-6)] assms(7)
  obtain vm' where "videoManager a' = Some vm'" "map_of (pipelines vm') k =
    Some (after_camera c False (target_mode c a = ModeHybrid) (override_of c k) ?q)" by auto
  then show ?thesis
    by (cases "needs_restart c (target_mode c a = ModeHybrid) (override_of c k) (p_cfg p)")
      (simp_all add: after_camera_def target_cfg_def q n pp)
qed

definition resized_override :: camera_override where
  "resized_override = sample_override\<lparr>cam_OutputWidth := Some 320, cam_OutputHeight := Some 180\<rparr>"

theorem applied_pipeline_witness:
  "\<exists>vm' p'. videoManager (snd (applyState (sample_env True)
        (empty_config\<lparr>rc_Cameras := Some [(''cam1'', resized_override)]\<rparr>) sample_adapter)) = Some vm'
    \<and> map_of (pipelines vm') ''cam1'' = Some p' \<and> vc_OutputWidth (p_cfg p') = 320
    \<and> cam_TargetFPS resized_override = Some 8 \<and> vc_TargetFPS (p_cfg p') = 5"
proof -
  let ?c = "empty_config\<lparr>rc_Cameras := Some [(''cam1'', resized_override)]\<rparr>"
  have v: "Validate [] ?c [''cam1''] = None" by code_simp
  have s: "videoManager sample_adapter = Some sample_video"
    by (simp add: sample_adapter_def NewRuntimeAdapter_def Let_def)
  have a: "fst (applyState (sample_env True) ?c sample_adapter) = None" by code_simp
  have k: "map_of (pipelines sample_video) ''cam1'' = Some (snd (hd (pipelines sample_video)))"
    "wf_alist (pipelines sample_video)" "[] \<notin> fst ` set (pipelines sample_video)"
    by (simp_all add: sample_video_def)
  have np: "\<not> policy_owns_rates ?c sample_adapter"
    by (simp add: policy_owns_rates_def sample_adapter_def NewRuntimeAdapter_def Let_def)
  have ov: "override_of ?c ''cam1'' = Some resized_override" by (simp add: override_of_def)
  have nr: "needs_restart ?c h (Some resized_override) (p_cfg (snd (hd (pipelines sample_video))))" for h
    by (simp add: needs_restart_def resized_override_def own_def resizes_def pick_def sample_video_def
        empty_config_def)
  from applied_pipeline_configuration [OF Validate_ok [OF v], of "sample_env True" sample_adapter
      "snd (applyState (sample_env True) ?c sample_adapter)" sample_video "''cam1''"
      "snd (hd (pipelines sample_video))"] a s k np
  show ?thesis
    unfolding ov
    by (auto simp: nr prod_eq_iff)
      (auto simp: own_def pick_def resized_override_def sample_override_def sample_video_def
        empty_config_def)
qed

text \<open>A rollback does not restore what the previous document does not mention: payloads are overlays
  for \<open>Apply\<close>, but \<open>RollbackRuntimeConfig\<close> applies the previous payload alone, and a field it leaves out
  is left as the failed attempt set it.\<close>

lemma rollback_leaves_new_rate:
  "let v1 = empty_config\<lparr>OutputWidth := Some 320, OutputHeight := Some 180\<rparr>;
       v2 = empty_config\<lparr>rc_TargetFPS := Some 10\<rparr>;
       a1 = snd (Apply (sample_env True) v1 sample_adapter);
       (er, a2) = Apply (sample_env False) v2 a1;
       (er', a3) = RollbackRuntimeConfig (\<lambda>_ _. Inr v1) (sample_env True) 1 ''v1'' a2
   in er = Some Health_Check_Failed \<and> er' = None
      \<and> map_option (vc_TargetFPS \<circ> v_cfg) (videoManager a1) = Some 5
      \<and> map_option (vc_TargetFPS \<circ> v_cfg) (videoManager a3) = Some 10"
  by code_simp

end
