(* ===== verification/RemoteConfig_Lifecycle.thy ===== *)
theory RemoteConfig_Lifecycle
  imports RemoteConfig_Engine RemoteConfig_Props
begin

text \<open>
  The apply lifecycle over whole histories: any documents, adapter answers, save failures, crashes at
  any save and restarts. What the engine relies on is the locale \<open>adapter_contract\<close>, interpreted by the
  \<open>RuntimeAdapter\<close>; the histories are a \<open>machine\<close>.
\<close>

section \<open>Updates\<close>

lemma update_Committed:
  assumes "update J fn w = (Committed, w')"
  shows "w' = w\<lparr>store := \<lparr>mem = fn (mem (store w)), disk = Content (encode_state J (fn (mem (store w))))\<rparr>,
                saves := tl (saves w)\<rparr>"
  using assms
  by (auto simp: update_def Store_Update_def saveLocked_def Let_def split: prod.splits save_outcome.splits
      save_result.splits)

lemma update_Failed:
  assumes "update J fn w = (Failed_At st, w')"
  shows "w' = w\<lparr>saves := tl (saves w)\<rparr>"
  using assms
  by (auto simp: update_def Store_Update_def saveLocked_def Let_def split: prod.splits save_outcome.splits
      save_result.splits)

lemma update_Killed:
  assumes "update J fn w = (Process_Killed, w')"
  shows "disk (store w') \<in> {disk (store w), Content (encode_state J (fn (mem (store w))))}"
  using assms
  by (auto simp: update_def Store_Update_def saveLocked_def Let_def split: prod.splits save_outcome.splits
      save_result.splits)

section \<open>States\<close>

text \<open>The applied document carries the applied version, nothing older is remembered as good while
  nothing is applied, and only a newer version is ever staged.\<close>

definition state_ok :: "rc_state \<Rightarrow> bool" where
  "state_ok s \<longleftrightarrow>
     (case AppliedConfig s of
        None \<Rightarrow> AppliedVersion s = 0 \<and> PreviousKnownGoodConfig s = None
      | Some c \<Rightarrow> Version c = AppliedVersion s \<and> 0 < AppliedVersion s)
     \<and> (\<forall>c. Staging s = Some c \<longrightarrow> AppliedVersion s < Version c)"

definition disk_state :: "rc_store \<Rightarrow> rc_state" where
  "disk_state s = (case disk s of Content f \<Rightarrow> f | _ \<Rightarrow> zero_state)"

definition disk_good :: "rc_store \<Rightarrow> bool" where
  "disk_good s \<longleftrightarrow> disk s \<noteq> Unparsable \<and> disk s \<noteq> Unreadable \<and> state_ok (disk_state s)"

text \<open>Memory never runs ahead of the disk.\<close>

definition durable :: "json \<Rightarrow> rc_store \<Rightarrow> bool" where
  "durable J s \<longleftrightarrow>
     (case disk s of
        Absent \<Rightarrow> mem s = zero_state
      | Content f \<Rightarrow> f = mem s \<or> f = encode_state J (mem s)
      | _ \<Rightarrow> False)"

lemma encode_state_simps [simp]:
  "AppliedVersion (encode_state J s) = AppliedVersion s"
  "Staging (encode_state J s) = None \<longleftrightarrow> Staging s = None"
  "state_ok (encode_state J s) \<longleftrightarrow> state_ok s"
  by (auto simp: encode_state_def state_ok_def encode_config_def split: option.split)

lemma state_ok_zero [simp]: "state_ok zero_state"
  by (simp add: state_ok_def zero_state_def)

lemma durable_version: "durable J s \<Longrightarrow> AppliedVersion (disk_state s) = AppliedVersion (mem s)"
  by (auto simp: durable_def disk_state_def split: state_file.splits)

lemma durable_ok: "durable J s \<Longrightarrow> state_ok (mem s) \<Longrightarrow> disk_good s"
  by (auto simp: durable_def disk_state_def disk_good_def split: state_file.splits)

lemma committed_durable: "durable J \<lparr>mem = s, disk = Content (encode_state J s)\<rparr>"
  by (simp add: durable_def)

lemma open_durable: "OpenStore f = Inr s \<Longrightarrow> durable J s \<and> disk s = f \<and> (mem s = disk_state s)"
  by (auto simp: OpenStore_def durable_def disk_state_def split: state_file.splits)

lemmas marks = mark_failed_def count_rollback_def mark_staging_def mark_applied_def Let_def

lemma mark_simps [simp]:
  "AppliedVersion (mark_failed n c a m s) = AppliedVersion s" "AppliedConfig (mark_failed n c a m s) = AppliedConfig s"
  "PreviousKnownGoodConfig (mark_failed n c a m s) = PreviousKnownGoodConfig s" "Staging (mark_failed n c a m s) = Staging s"
  "AppliedVersion (count_rollback s) = AppliedVersion s" "AppliedConfig (count_rollback s) = AppliedConfig s"
  "PreviousKnownGoodConfig (count_rollback s) = PreviousKnownGoodConfig s" "Staging (count_rollback s) = Staging s"
  "AppliedVersion (mark_staging n c s) = AppliedVersion s" "AppliedConfig (mark_staging n c s) = AppliedConfig s"
  "PreviousKnownGoodConfig (mark_staging n c s) = PreviousKnownGoodConfig s" "Staging (mark_staging n c s) = Some c"
  "AppliedVersion (mark_applied n c s) = Version c" "AppliedConfig (mark_applied n c s) = Some c"
  "Staging (mark_applied n c s) = None"
  by (simp_all add: marks)

lemma mark_applied_ok: "0 < Version c \<Longrightarrow> state_ok (mark_applied n c s)"
  by (simp add: state_ok_def)

lemma same_ok:
  assumes "state_ok s" "AppliedVersion t = AppliedVersion s" "AppliedConfig t = AppliedConfig s"
    "PreviousKnownGoodConfig t = PreviousKnownGoodConfig s"
    "\<forall>c. Staging t = Some c \<longrightarrow> AppliedVersion s < Version c"
  shows "state_ok t" "previousKnownGood t = previousKnownGood s"
  using assms by (auto simp: state_ok_def previousKnownGood_def split: option.splits)

lemma settled_None:
  assumes "settled_answer J d s = None" "state_ok s"
  shows "Staging s = None" "AppliedVersion s < Version d" "0 < Version d"
proof -
  show st: "Staging s = None" "AppliedVersion s < Version d"
    using assms(1) by (auto simp: settled_answer_def split: if_splits option.splits)
  have "0 \<le> AppliedVersion s" using assms(2) by (auto simp: state_ok_def split: option.splits)
  with st show "0 < Version d" by simp
qed

section \<open>Calls\<close>

text \<open>What a store must satisfy in a running process, and how a call may move it: the disk stays good
  and its applied version does not go back.\<close>

definition store_ok :: "json \<Rightarrow> rc_store \<Rightarrow> bool" where
  "store_ok J s \<longleftrightarrow> durable J s \<and> state_ok (mem s)"

definition moves :: "json \<Rightarrow> rc_store \<Rightarrow> bool \<Rightarrow> rc_store \<Rightarrow> bool" where
  "moves J s alive t \<longleftrightarrow> disk_good t \<and> AppliedVersion (disk_state s) \<le> AppliedVersion (disk_state t)
     \<and> (alive \<longrightarrow> store_ok J t)"

lemma moves_refl: "store_ok J s \<Longrightarrow> moves J s b s"
  by (auto simp: moves_def store_ok_def intro: durable_ok)

lemma moves_trans: "moves J s True t \<Longrightarrow> moves J t b u \<Longrightarrow> moves J s b u"
  by (auto simp: moves_def)

text \<open>One update with a state change that keeps the state good.\<close>

lemma update_moves:
  assumes "store_ok J (store w)" "state_ok (fn (mem (store w)))"
    "AppliedVersion (mem (store w)) \<le> AppliedVersion (fn (mem (store w)))"
    "update J fn w = (r, w')"
  shows "moves J (store w) (r \<noteq> Process_Killed) (store w')"
proof (cases r)
  case Committed
  with assms durable_version [of J "store w"] show ?thesis
    by (auto dest!: update_Committed simp: moves_def store_ok_def committed_durable disk_good_def disk_state_def)
next
  case (Failed_At st)
  with assms show ?thesis by (auto dest!: update_Failed intro: moves_refl)
next
  case Process_Killed
  then have "disk (store w') \<in> {disk (store w), Content (encode_state J (fn (mem (store w))))}"
    using assms(4) update_Killed by blast
  moreover have "disk_good (store w)" using assms(1) by (auto simp: store_ok_def durable_ok)
  ultimately show ?thesis
    using assms durable_version [of J "store w"] Process_Killed
    by (auto simp: moves_def store_ok_def disk_good_def disk_state_def)
qed

lemma auditAppend_simps [simp]:
  "store (auditAppend ev w) = store w" "rt (auditAppend ev w) = rt w" "clock (auditAppend ev w) = clock w"
  "saves (auditAppend ev w) = saves w"
  by (simp_all add: auditAppend_def)

text \<open>What the engine relies on: a successful apply or rollback leaves the runtime reflecting the
  document it was given. \<open>ops\<close> are the behaviours the adapter may show during a call.\<close>

locale adapter_contract =
  fixes ops :: "'r runtime_adapter set" and reflects :: "'r \<Rightarrow> rc_config \<Rightarrow> bool"
  assumes apply_reflects: "A \<in> ops \<Longrightarrow> apply_op A c r = (None, r') \<Longrightarrow> reflects r' c"
    and rollback_reflects: "A \<in> ops \<Longrightarrow> rollback_op A c r = (None, r') \<Longrightarrow> reflects r' c"
begin

text \<open>The runtime agrees with the store: with nothing staged it is as the process started it, or it
  reflects the last good document.\<close>

definition agrees :: "'r \<Rightarrow> 'r world \<Rightarrow> bool" where
  "agrees boot w \<longleftrightarrow> (Staging (mem (store w)) = None \<longrightarrow>
     rt w = boot \<or> reflects (rt w) (previousKnownGood (mem (store w))))"

lemma roll_back_apply_moves:
  assumes A: "A \<in> ops" and ok: "store_ok J (store w)" and st: "Staging (mem (store w)) \<noteq> None"
    and g: "target = previousKnownGood (mem (store w))"
    and r: "roll_back_apply J A d target msg w = (out, w')"
  shows "moves J (store w) (out \<noteq> Killed) (store w') \<and> (out \<noteq> Killed \<longrightarrow> agrees boot w')"
proof -
  obtain re r' where rb: "rollback_op A target (rt w) = (re, r')" by (metis surj_pair)
  have sok: "state_ok (mem (store w))" using ok by (simp add: store_ok_def)
  show ?thesis
  proof (cases re)
    case None
    let ?fn = "\<lambda>s. count_rollback (mark_failed (clock w) d ApplyStatusRolledBack
       (sanitizeApplyError (Some msg)) (s\<lparr>Staging := None\<rparr>))"
    let ?w = "auditAppend (Audit_Rollback (Version d) (code_text APPLY_FAILED)) (w\<lparr>rt := r'\<rparr>)"
    obtain u w2 where u: "update J ?fn ?w = (u, w2)" by (metis surj_pair)
    note keep = same_ok [OF sok, of "?fn (mem (store w))"]
    have m: "moves J (store w) (u \<noteq> Process_Killed) (store w2)"
      using update_moves [OF _ _ _ u] ok keep by simp
    have res: "(out, w') = (case u of Committed \<Rightarrow> (Ret (ApplyStatusRolledBack, APPLY_FAILED), w2)
        | Failed_At s \<Rightarrow> (Err (Save_Error s), w2) | Process_Killed \<Rightarrow> (Killed, w2))"
      using r rb None u by (simp add: roll_back_apply_def split: save_result.splits)
    have "reflects r' target" using rollback_reflects [OF A] rb None by blast
    then have "agrees boot w2" if "u \<noteq> Process_Killed"
      using that u keep st g by (cases u) (auto dest!: update_Committed update_Failed simp: agrees_def)
    with m res show ?thesis by (cases u) auto
  next
    case (Some m1)
    let ?e = "sanitizeApplyError (Some (''apply failed ('' @ msg @ ''); rollback also failed: '' @ m1))"
    let ?fn = "\<lambda>s. count_rollback (mark_failed (clock w) d ApplyStatusFailed ?e s)"
    let ?w = "auditAppend (Audit_Failure (Version d) ''apply and rollback failed'') (w\<lparr>rt := r'\<rparr>)"
    obtain u w2 where u: "update J ?fn ?w = (u, w2)" by (metis surj_pair)
    have m: "moves J (store w) (u \<noteq> Process_Killed) (store w2)"
      using update_moves [OF _ _ _ u] ok same_ok [OF sok, of "?fn (mem (store w))"] sok
      by (simp add: state_ok_def)
    have res: "(out, w') = (case u of Committed \<Rightarrow> (Err (Apply_And_Rollback_Failed ?e), w2)
        | Failed_At s \<Rightarrow> (Err (Save_Error s), w2) | Process_Killed \<Rightarrow> (Killed, w2))"
      using r rb Some u by (simp add: roll_back_apply_def Let_def split: save_result.splits)
    have "agrees boot w2" if "u \<noteq> Process_Killed"
      using that u st by (cases u) (auto dest!: update_Committed update_Failed simp: agrees_def)
    with m res show ?thesis by (cases u) auto
  qed
qed

lemma publish_moves:
  assumes A: "A \<in> ops" and ok: "store_ok J (store w)" and st: "Staging (mem (store w)) \<noteq> None"
    and v: "AppliedVersion (mem (store w)) < Version d" "0 < Version d" and rf: "reflects (rt w) d"
    and r: "publish J A d target w = (out, w')"
  shows "moves J (store w) (out \<noteq> Killed) (store w') \<and> (out \<noteq> Killed \<longrightarrow> agrees boot w')"
proof -
  obtain u w2 where u: "update J (mark_applied (clock w) d) w = (u, w2)" by (metis surj_pair)
  have m: "moves J (store w) (u \<noteq> Process_Killed) (store w2)"
    using update_moves [OF ok _ _ u] v by (simp add: mark_applied_ok)
  show ?thesis
  proof (cases u)
    case Committed
    then have "previousKnownGood (mem (store w2)) = d" "rt w2 = rt w"
      using u by (auto dest!: update_Committed simp: previousKnownGood_def)
    then show ?thesis using m r u Committed rf by (auto simp: publish_def agrees_def)
  next
    case (Failed_At s)
    then have "store w2 = store w" using u by (auto dest!: update_Failed)
    then show ?thesis
      using r u Failed_At st moves_refl [OF ok]
      by (auto simp: publish_def agrees_def Let_def split: prod.splits option.splits)
  next
    case Process_Killed
    then show ?thesis using m r u by (auto simp: publish_def)
  qed
qed

lemma ReceiveDesired_moves:
  assumes A: "A \<in> ops" and ok: "store_ok J (store w)" and ag: "agrees boot w"
    and r: "ReceiveDesired J A d w = (out, w')"
  shows "moves J (store w) (out \<noteq> Killed) (store w') \<and> (out \<noteq> Killed \<longrightarrow> agrees boot w')"
proof (cases "settled_answer J d (mem (store w))")
  case (Some a)
  then show ?thesis
    using r ag moves_refl [OF ok] by (cases a) (auto simp: ReceiveDesired_def agrees_def split: if_splits)
next
  case None
  have sok: "state_ok (mem (store w))" using ok by (simp add: store_ok_def)
  note new = settled_None [OF None sok]
  show ?thesis
  proof (cases "validate_op A d (rt w)")
    case (Some msg)
    let ?fn = "\<lambda>s. (mark_failed (clock w) d ApplyStatusFailed (sanitizeApplyError (Some msg)) s)\<lparr>ReceivedAt := clock w\<rparr>"
    let ?w = "auditAppend (Audit_Failure (Version d) (code_text VALIDATION_FAILED)) w"
    obtain u w2 where u: "update J ?fn ?w = (u, w2)" by (metis surj_pair)
    note keep = same_ok [OF sok, of "?fn (mem (store w))"]
    have m: "moves J (store w) (u \<noteq> Process_Killed) (store w2)"
      using update_moves [OF _ _ _ u] ok keep new by simp
    have res: "(out, w') = (case u of Committed \<Rightarrow> (Ret (ApplyStatusFailed, VALIDATION_FAILED), w2)
        | Failed_At s \<Rightarrow> (Err (Save_Error s), w2) | Process_Killed \<Rightarrow> (Killed, w2))"
      using r None Some u by (simp add: ReceiveDesired_def split: save_result.splits)
    have "agrees boot w2" if "u \<noteq> Process_Killed"
      using that u keep ag new by (cases u) (auto dest!: update_Committed update_Failed simp: agrees_def)
    with m res show ?thesis by (cases u) auto
  next
    case valid: None
    obtain u w2 where u: "update J (mark_staging (clock w) d) w = (u, w2)" by (metis surj_pair)
    note keep = same_ok [OF sok, of "mark_staging (clock w) d (mem (store w))"]
    have m: "moves J (store w) (u \<noteq> Process_Killed) (store w2)"
      using update_moves [OF ok _ _ u] keep new by simp
    show ?thesis
    proof (cases u)
      case Committed
      then have w2: "mem (store w2) = mark_staging (clock w) d (mem (store w))" "rt w2 = rt w"
        using u by (auto dest!: update_Committed)
      have ok2: "store_ok J (store w2)" using m Committed by (simp add: moves_def)
      obtain ae r' where ap: "apply_op A d (rt w2) = (ae, r')" by (metis surj_pair)
      let ?t = "previousKnownGood (mem (store w2))"
      show ?thesis
      proof (cases ae)
        case None
        then have "publish J A d ?t (w2\<lparr>rt := r'\<rparr>) = (out, w')"
          using r \<open>settled_answer J d (mem (store w)) = None\<close> valid u Committed ap by (simp add: ReceiveDesired_def)
        moreover have "reflects r' d" using apply_reflects [OF A] ap None by blast
        ultimately have "moves J (store w2) (out \<noteq> Killed) (store w') \<and> (out \<noteq> Killed \<longrightarrow> agrees boot w')"
          using publish_moves [OF A, of J "w2\<lparr>rt := r'\<rparr>" d ?t out w' boot] ok2 new w2 by simp
        then show ?thesis using moves_trans [of J "store w" "store w2"] m Committed by simp
      next
        case (Some msg)
        then have "roll_back_apply J A d ?t msg (w2\<lparr>rt := r'\<rparr>) = (out, w')"
          using r None valid u Committed ap by (simp add: ReceiveDesired_def)
        then have "moves J (store w2) (out \<noteq> Killed) (store w') \<and> (out \<noteq> Killed \<longrightarrow> agrees boot w')"
          using roll_back_apply_moves [OF A, of J "w2\<lparr>rt := r'\<rparr>" ?t d msg out w' boot] ok2 w2 by simp
        then show ?thesis using moves_trans [of J "store w" "store w2"] m Committed by simp
      qed
    next
      case (Failed_At s)
      then show ?thesis using m r None valid u ag
        by (auto simp: ReceiveDesired_def agrees_def dest!: update_Failed)
    next
      case Process_Killed
      then show ?thesis using m r None valid u by (auto simp: ReceiveDesired_def)
    qed
  qed
qed

lemma Recover_moves:
  assumes A: "A \<in> ops" and ok: "store_ok J (store w)" and b: "rt w = boot"
    and r: "Recover J A w = (out, w')"
  shows "moves J (store w) (out \<noteq> Killed) (store w') \<and> (out = Ret () \<longrightarrow> agrees boot w' \<and> Staging (mem (store w')) = None)"
proof (cases "Staging (mem (store w))")
  case None
  then show ?thesis using r b moves_refl [OF ok] by (simp add: Recover_def agrees_def)
next
  case (Some i)
  have sok: "state_ok (mem (store w))" using ok by (simp add: store_ok_def)
  obtain re r' where rb: "rollback_op A (previousKnownGood (mem (store w))) (rt w) = (re, r')" by (metis surj_pair)
  show ?thesis
  proof (cases re)
    case ok': None
    let ?msg = "''recovery: apply interrupted by restart, rolled back to previous known-good''"
    let ?fn = "\<lambda>s. count_rollback (mark_failed (clock w) i ApplyStatusRolledBack ?msg (s\<lparr>Staging := None\<rparr>))"
    let ?w = "auditAppend (Audit_Rollback (Version i) ?msg) (w\<lparr>rt := r'\<rparr>)"
    obtain u w2 where u: "update J ?fn ?w = (u, w2)" by (metis surj_pair)
    note keep = same_ok [OF sok, of "?fn (mem (store w))"]
    have m: "moves J (store w) (u \<noteq> Process_Killed) (store w2)"
      using update_moves [OF _ _ _ u] ok keep by simp
    have res: "(out, w') = (case u of Committed \<Rightarrow> (Ret (), w2)
        | Failed_At s \<Rightarrow> (Err (Save_Error s), w2) | Process_Killed \<Rightarrow> (Killed, w2))"
      using r rb Some ok' u by (simp add: Recover_def split: save_result.splits)
    have "reflects r' (previousKnownGood (mem (store w)))" using rollback_reflects [OF A] rb ok' by blast
    then have "agrees boot w2 \<and> Staging (mem (store w2)) = None" if "u = Committed"
      using that u keep by (auto dest!: update_Committed simp: agrees_def)
    with m res show ?thesis by (cases u) auto
  next
    case (Some m1)
    let ?w = "auditAppend (Audit_Failure (Version i) ''recovery: interrupted apply, rollback failed'') (w\<lparr>rt := r'\<rparr>)"
    let ?fn = "\<lambda>s. count_rollback (mark_failed (clock w) i ApplyStatusFailed
      (sanitizeApplyError (Some (''recovery: interrupted apply, rollback failed: '' @ m1))) s)"
    obtain u w2 where u: "update J ?fn ?w = (u, w2)" by (metis surj_pair)
    have m: "moves J (store w) (u \<noteq> Process_Killed) (store w2)"
      using update_moves [OF _ _ _ u] ok same_ok [OF sok, of "?fn (mem (store w))"] sok by (simp add: state_ok_def)
    have "(out, w') = (case u of Committed \<Rightarrow> (Err (Recovery_Rollback_Failed m1), w2)
        | Failed_At s \<Rightarrow> (Err (Save_Error s), w2) | Process_Killed \<Rightarrow> (Killed, w2))"
      using r rb \<open>Staging (mem (store w)) = Some i\<close> Some u by (simp add: Recover_def split: save_result.splits)
    with m show ?thesis by (cases u) auto
  qed
qed

end

section \<open>Histories\<close>

text \<open>A process is running after a start whose \<open>Recover\<close> returned nil (otherwise the module is not
  built) until it is killed; a restart may happen at any time and finds the disk as it was left.\<close>

record 'r proc =
  running :: bool
  pw :: "'r world"

definition boot_world :: "'r \<Rightarrow> rc_store \<Rightarrow> audit_event list \<Rightarrow> save_outcome list \<Rightarrow> string \<Rightarrow> 'r world" where
  "boot_world boot s au sv ck = \<lparr>store = s, rt = boot, audit = au, saves = sv, clock = ck\<rparr>"

inductive rc_step :: "json \<Rightarrow> 'r runtime_adapter set \<Rightarrow> 'r \<Rightarrow> 'r proc \<Rightarrow> 'r proc \<Rightarrow> bool" for J ops boot where
  receive: "running p \<Longrightarrow> A \<in> ops \<Longrightarrow>
    ReceiveDesired J A d ((pw p)\<lparr>saves := sv, clock := ck\<rparr>) = (out, w') \<Longrightarrow>
    rc_step J ops boot p \<lparr>running = (out \<noteq> Killed), pw = w'\<rparr>"
| restart: "OpenStore (disk (store (pw p))) = Inr s \<Longrightarrow> A \<in> ops \<Longrightarrow>
    Recover J A (boot_world boot s (audit (pw p)) sv ck) = (out, w') \<Longrightarrow>
    rc_step J ops boot p \<lparr>running = (out = Ret ()), pw = w'\<rparr>"

definition rc_init :: "'r proc \<Rightarrow> bool" where
  "rc_init p \<longleftrightarrow> \<not> running p \<and> disk (store (pw p)) = Absent"

context adapter_contract
begin

definition lifecycle_inv :: "json \<Rightarrow> 'r \<Rightarrow> 'r proc \<Rightarrow> bool" where
  "lifecycle_inv J boot p \<longleftrightarrow> disk_good (store (pw p))
     \<and> (running p \<longrightarrow> store_ok J (store (pw p)) \<and> agrees boot (pw p))"

lemma lifecycle_step:
  assumes inv: "lifecycle_inv J boot p" and s: "rc_step J ops boot p q"
  shows "lifecycle_inv J boot q
    \<and> AppliedVersion (disk_state (store (pw p))) \<le> AppliedVersion (disk_state (store (pw q)))"
  using s
proof cases
  case (receive A d ck sv out w')
  have "agrees boot ((pw p)\<lparr>saves := sv, clock := ck\<rparr>)"
    using inv receive(2) by (simp add: lifecycle_inv_def agrees_def)
  with ReceiveDesired_moves [OF receive(3) _ _ receive(4)] inv receive(1,2)
  show ?thesis by (auto simp: lifecycle_inv_def moves_def)
next
  case (restart s A sv ck out w')
  have o: "durable J s" "disk s = disk (store (pw p))" "mem s = disk_state s"
    using open_durable [OF restart(2)] by blast+
  have ds: "disk_state s = disk_state (store (pw p))" using o(2) by (simp add: disk_state_def)
  have "store_ok J s" using o ds inv by (simp add: store_ok_def lifecycle_inv_def disk_good_def)
  with Recover_moves [OF restart(3) _ _ restart(4), of boot] restart(1) ds
  show ?thesis by (auto simp: lifecycle_inv_def moves_def boot_world_def)
qed

end

sublocale adapter_contract \<subseteq> lifecycle: machine rc_init "rc_step J ops boot" "lifecycle_inv J boot" for J boot
proof (unfold_locales, goal_cases)
  case (1 s)
  then show ?case by (auto simp: rc_init_def lifecycle_inv_def disk_good_def disk_state_def)
next
  case (2 s t)
  then show ?case using lifecycle_step by blast
qed

context adapter_contract
begin

lemma version_never_decreases:
  assumes "(rc_step J ops boot)\<^sup>*\<^sup>* p q" "lifecycle_inv J boot p"
  shows "AppliedVersion (disk_state (store (pw p))) \<le> AppliedVersion (disk_state (store (pw q)))"
  using assms
proof (induction rule: rtranclp_induct)
  case base
  then show ?case by simp
next
  case (step y z)
  then show ?case using lifecycle_step lifecycle.invar_steps order_trans by blast
qed

end

section \<open>The runtime adapter meets the contract\<close>

text \<open>The adapter's methods as the engine sees them, in an environment; \<open>fmt\<close> formats errors.\<close>

definition adapter_ops ::
    "parser \<Rightarrow> (rc_error \<Rightarrow> string) \<Rightarrow> (adapter_error \<Rightarrow> string) \<Rightarrow> environment \<Rightarrow> adapter runtime_adapter" where
  "adapter_ops parse vfmt fmt e =
     \<lparr>validate_op = (\<lambda>c a. map_option vfmt (ValidateRuntimeConfig parse (Payload c) a)),
      apply_op = (\<lambda>c a. apfst (map_option fmt) (ApplyRuntimeConfig parse e (Payload c) a)),
      rollback_op = (\<lambda>c a. apfst (map_option fmt) (RollbackRuntimeConfig parse e (Version c) (Payload c) a))\<rparr>"

text \<open>Everything a document sets is set so in the adapter's configuration, and its mode is the mode in
  force.\<close>

definition extends :: "adapter \<Rightarrow> runtime_config \<Rightarrow> bool" where
  "extends a p \<longleftrightarrow>
     (\<forall>m. ProcessingMode p = Some (Cell m) \<longrightarrow> currentMode a = m)
     \<and> (\<forall>x. rc_TargetFPS p = Some x \<longrightarrow> rc_TargetFPS (currentCfg a) = Some x)
     \<and> (\<forall>x. OutputWidth p = Some x \<longrightarrow> OutputWidth (currentCfg a) = Some x)
     \<and> (\<forall>x. OutputHeight p = Some x \<longrightarrow> OutputHeight (currentCfg a) = Some x)
     \<and> (\<forall>x. HybridROIs p = Some x \<longrightarrow> HybridROIs (currentCfg a) = Some x)
     \<and> (\<forall>x. PersonModel p = Some x \<longrightarrow> PersonModel (currentCfg a) = Some x)
     \<and> (\<forall>x. VehicleModel p = Some x \<longrightarrow> VehicleModel (currentCfg a) = Some x)
     \<and> (\<forall>cs k v. rc_Cameras p = Some cs \<longrightarrow> wf_alist cs \<longrightarrow> map_of cs k = Some v \<longrightarrow>
          override_of (currentCfg a) k = Some v)"

definition reflects :: "parser \<Rightarrow> adapter \<Rightarrow> rc_config \<Rightarrow> bool" where
  "reflects parse a c \<longleftrightarrow>
     (\<forall>p. parse (Payload c) (knownCameras a) = Inr p \<longrightarrow> 0 < Version c \<longrightarrow> Payload c \<noteq> [] \<longrightarrow> extends a p)"

text \<open>Applying never changes which cameras are known.\<close>

lemma update_present_keys: "map_of m k \<noteq> None \<Longrightarrow> map fst (AList.update k v m) = map fst m"
  by (simp add: update_keys map_of_eq_None_iff)

lemma apply_camera_keys:
  "map fst (pipelines (snd (apply_camera e c policy hyb k vm))) = map fst (pipelines vm)"
proof (cases "map_of (pipelines vm) k")
  case None
  then show ?thesis by (simp add: apply_camera_def)
next
  case (Some p)
  have s: "map fst (pipelines (snd (vm_SetTargetFPS k f vm))) = map fst (pipelines vm)" for f
    using Some by (auto simp: vm_SetTargetFPS_def update_present_keys comp_def case_prod_beta)
  then have present: "map_of (pipelines (snd (vm_SetTargetFPS k f vm))) k \<noteq> None" for f
    using Some by (metis list.set_map map_of_eq_None_iff option.distinct(1))
  show ?thesis
    using Some present s
    by (auto simp: apply_camera_def Let_def RestartCameraPipeline_def update_present_keys
        split: option.splits prod.splits if_splits)
qed

lemma apply_cameras_keys:
  "map fst (pipelines (snd (apply_cameras e c policy hyb ks vm))) = map fst (pipelines vm)"
proof (induction ks arbitrary: vm)
  case Nil
  then show ?case by simp
next
  case (Cons k ks)
  then show ?case
    using apply_camera_keys [of e c policy hyb k vm] by (auto split: prod.splits option.splits)
qed

lemma apply_video_known: "knownCameras (snd (apply_video e c tm a)) = knownCameras a"
proof (cases "videoManager a")
  case None
  then show ?thesis by (simp add: apply_video_def knownCameras_def Let_def)
next
  case (Some vm)
  have k: "map fst (pipelines (snd (vm_SetTargetFPS [] f v))) = map fst (pipelines v)" for f v
    by (simp add: vm_SetTargetFPS_def comp_def case_prod_beta)
  have "\<exists>vm'. videoManager (snd (apply_video e c tm a)) = Some vm' \<and> map fst (pipelines vm') = map fst (pipelines vm)
      \<and> rtspCameras (snd (apply_video e c tm a)) = rtspCameras a"
    using Some apply_cameras_keys k
    by (auto simp: apply_video_def Let_def vm_SetConfig_def split: option.splits prod.splits if_splits)
      (metis (no_types, lifting) snd_conv k video_manager.select_convs(2) video_manager.update_convs(1) video_manager.surjective)+
  then show ?thesis using Some by (auto simp: knownCameras_def ActivePipelines_def)
qed

lemma knownCameras_frame [simp]:
  "knownCameras (a\<lparr>currentMode := m\<rparr>) = knownCameras a" "knownCameras (a\<lparr>modeNow := m\<rparr>) = knownCameras a"
  "knownCameras (a\<lparr>previousCfg := c\<rparr>) = knownCameras a" "knownCameras (a\<lparr>hasPrevious := b\<rparr>) = knownCameras a"
  "knownCameras (commit_config c a) = knownCameras a"
  by (auto simp: knownCameras_def commit_config_def Let_def split: option.split)

lemma transition_known: "knownCameras (snd (transitionMode e fr tm a)) = knownCameras a"
  by (auto simp: transitionMode_def knownCameras_def Let_def UpdateRouterSinks_def ActivePipelines_def
      split: option.splits prod.splits sum.splits if_splits)

lemma applyState_known:
  assumes "applyState e c a = (er, a')"
  shows "knownCameras a' = knownCameras a"
proof (cases "target_mode c a = currentMode a")
  case True
  then have "a' = snd (apply_video e c (target_mode c a) a)"
    using assms by (simp add: applyState_def target_mode_def [symmetric])
  then show ?thesis by (simp add: apply_video_known)
next
  case False
  obtain t b where t: "transitionMode e (currentMode a) (target_mode c a) a = (t, b)" by (metis surj_pair)
  then have b: "knownCameras b = knownCameras a"
    using transition_known [of e "currentMode a" "target_mode c a" a] by simp
  have "a' = b \<or> a' = snd (apply_video e c (target_mode c a) (b\<lparr>currentMode := target_mode c a, modeNow := target_mode c a\<rparr>))"
    using assms False t by (auto simp: applyState_def target_mode_def [symmetric] Let_def split: option.splits)
  then show ?thesis by (auto simp: apply_video_known b)
qed

lemma map_of_overlay:
  "wf_alist ps \<Longrightarrow> map_of ps k = Some v \<Longrightarrow>
    map_of (foldl (\<lambda>m (k, v). AList.update k v m) base ps) k = Some v"
proof (induction ps arbitrary: base)
  case Nil
  then show ?case by simp
next
  case (Cons q ps)
  obtain x y where q: "q = (x, y)" by (cases q)
  have keep: "map_of (foldl (\<lambda>m (k, v). AList.update k v m) b ps) x = map_of b x" if "x \<notin> fst ` set ps" for b
    using that by (induction ps arbitrary: b) (auto simp: update_conv')
  show ?case
  proof (cases "k = x")
    case True
    then have "v = y" "x \<notin> fst ` set ps" using Cons.prems q by auto
    then show ?thesis using keep [of "AList.update x y base"] True q by (simp add: update_conv')
  next
    case False
    then show ?thesis using Cons q by simp
  qed
qed

lemma commit_extends:
  assumes "\<And>m. ProcessingMode p = Some (Cell m) \<Longrightarrow> ProcessingMode c = Some (Cell m)"
    "\<And>x. rc_TargetFPS p = Some x \<Longrightarrow> rc_TargetFPS c = Some x" "\<And>x. OutputWidth p = Some x \<Longrightarrow> OutputWidth c = Some x"
    "\<And>x. OutputHeight p = Some x \<Longrightarrow> OutputHeight c = Some x" "\<And>x. HybridROIs p = Some x \<Longrightarrow> HybridROIs c = Some x"
    "\<And>x. PersonModel p = Some x \<Longrightarrow> PersonModel c = Some x" "\<And>x. VehicleModel p = Some x \<Longrightarrow> VehicleModel c = Some x"
    "\<And>cs k v. rc_Cameras p = Some cs \<Longrightarrow> wf_alist cs \<Longrightarrow> map_of cs k = Some v \<Longrightarrow> override_of c k = Some v"
  shows "extends (commit_config c a) p"
  using assms by (auto simp: extends_def commit_config_def Let_def split: option.split)

lemma merge_extends: "extends (commit_config (MergeConfig cm base p) a) p"
  by (rule commit_extends)
    (auto simp: MergeConfig_def or_else_def Let_def override_of_def map_of_overlay)

lemma self_extends: "extends (commit_config p a) p"
  by (rule commit_extends) (auto simp: override_of_def)

lemma Apply_extends:
  assumes "Apply e p a = (None, a')"
  shows "extends a' p" "knownCameras a' = knownCameras a"
proof -
  let ?eff = "MergeConfig (currentMode a) (currentCfg a) p"
  obtain b where b: "applyState e ?eff (a\<lparr>previousCfg := copyConfig (currentMode a) (currentCfg a)\<rparr>) = (None, b)"
    "a' = commit_config ?eff (b\<lparr>hasPrevious := True\<rparr>)"
    using assms by (auto simp: Apply_def Let_def split: option.splits prod.splits)
  show "extends a' p" unfolding b(2) by (rule merge_extends)
  show "knownCameras a' = knownCameras a" using b(2) applyState_known [OF b(1)] by simp
qed

lemma extends_hasPrevious [simp]: "extends (a\<lparr>hasPrevious := b\<rparr>) p = extends a p"
  by (simp add: extends_def)

interpretation live: adapter_contract "range (adapter_ops parse vfmt fmt)" "reflects parse" for parse vfmt fmt
proof (unfold_locales, goal_cases)
  case (1 A c r r')
  then obtain e where "ApplyRuntimeConfig parse e (Payload c) r = (None, r')"
    by (auto simp: adapter_ops_def apfst_def map_prod_def split: prod.splits)
  then obtain p where p: "parse (Payload c) (knownCameras r) = Inr p" "Apply e p r = (None, r')"
    by (auto simp: ApplyRuntimeConfig_def split: sum.splits)
  from p Apply_extends [OF p(2)] show ?case by (auto simp: reflects_def)
next
  case (2 A c r r')
  then obtain e where e: "RollbackRuntimeConfig parse e (Version c) (Payload c) r = (None, r')"
    by (auto simp: adapter_ops_def apfst_def map_prod_def split: prod.splits)
  show ?case
    unfolding reflects_def
  proof (intro allI impI)
    fix p assume h: "parse (Payload c) (knownCameras r') = Inr p" "0 < Version c" "Payload c \<noteq> []"
    have "\<exists>t b. applyState e t r = (None, b) \<and> r' = (commit_config t b)\<lparr>hasPrevious := False\<rparr>"
      using e by (auto simp: RollbackRuntimeConfig_def Let_def split: prod.splits option.splits)
    then have k: "knownCameras r' = knownCameras r" using applyState_known by fastforce
    then have "\<exists>b. r' = (commit_config p b)\<lparr>hasPrevious := False\<rparr>"
      using e h by (auto simp: RollbackRuntimeConfig_def Let_def split: prod.splits option.splits)
    then show "extends r' p" using self_extends by auto
  qed
qed

section \<open>Properties\<close>

text \<open>C2. In every history of documents, adapter answers, failing saves, crashes at any point and
  restarts, with the runtime adapter in place: the durable applied version never goes back; a running
  process never holds a state its disk does not; the applied document carries the applied version and
  only newer versions are staged; and with nothing staged the adapter's configuration either contains
  every setting of the last applied document or is still the one the process started with.\<close>

theorem remote_config_lifecycle:
  assumes "rc_init p0" "(rc_step J (range (adapter_ops parse vfmt fmt)) boot)\<^sup>*\<^sup>* p0 p"
    and "(rc_step J (range (adapter_ops parse vfmt fmt)) boot)\<^sup>*\<^sup>* p q" "running q"
  defines "st \<equiv> mem (store (pw q))"
  shows "AppliedVersion (disk_state (store (pw p))) \<le> AppliedVersion (disk_state (store (pw q)))
    \<and> durable J (store (pw q)) \<and> state_ok st
    \<and> (Staging st = None \<longrightarrow> rt (pw q) = boot \<or> reflects parse (rt (pw q)) (previousKnownGood st))"
proof -
  have p: "live.lifecycle_inv parse J boot p" using live.lifecycle.invar_reachable assms(1,2) by blast
  have q: "live.lifecycle_inv parse J boot q" using live.lifecycle.invar_steps assms(3) p by blast
  have "AppliedVersion (disk_state (store (pw p))) \<le> AppliedVersion (disk_state (store (pw q)))"
    using live.version_never_decreases [OF assms(3) p] .
  with q assms(4) show ?thesis
    by (auto simp: live.lifecycle_inv_def live.agrees_def store_ok_def st_def)
qed

definition sample_json :: json where
  "sample_json = \<lparr>unmarshal = (\<lambda>s. Some (Scalar s)), marshal = (\<lambda>v. case v of Scalar s \<Rightarrow> Some s | _ \<Rightarrow> None),
     indent = (\<lambda>s. s)\<rparr>"

definition sample_parse :: parser where
  "sample_parse = (\<lambda>_ _. Inr (empty_config\<lparr>rc_TargetFPS := Some 10\<rparr>))"

definition sample_ops :: "adapter runtime_adapter" where
  "sample_ops = adapter_ops sample_parse (\<lambda>_. ''invalid'') (\<lambda>_. ''failed'') (sample_env True)"

definition sample_desired :: rc_config where
  "sample_desired = \<lparr>Version = 1, Payload = ''{}''\<rparr>"

definition fresh_proc :: "adapter proc" where
  "fresh_proc = \<lparr>running = False, pw = boot_world sample_adapter \<lparr>mem = zero_state, disk = Absent\<rparr> [] [] ''t''\<rparr>"

definition started_proc :: "adapter proc" where
  "started_proc = fresh_proc\<lparr>running := True\<rparr>"

definition applied_proc :: "adapter proc" where
  "applied_proc = \<lparr>running = True, pw = snd (ReceiveDesired sample_json sample_ops sample_desired (pw started_proc))\<rparr>"

lemma sample_history:
  "rc_step sample_json (range (adapter_ops sample_parse (\<lambda>_. ''invalid'') (\<lambda>_. ''failed''))) sample_adapter
     fresh_proc started_proc"
  "rc_step sample_json (range (adapter_ops sample_parse (\<lambda>_. ''invalid'') (\<lambda>_. ''failed''))) sample_adapter
     started_proc applied_proc"
proof -
  let ?S = "rc_step sample_json (range (adapter_ops sample_parse (\<lambda>_. ''invalid'') (\<lambda>_. ''failed''))) sample_adapter"
  have "Recover sample_json sample_ops (pw fresh_proc) = (Ret (), pw fresh_proc)"
    by (simp add: Recover_def fresh_proc_def boot_world_def zero_state_def)
  then have r: "Recover sample_json sample_ops (boot_world sample_adapter \<lparr>mem = zero_state, disk = Absent\<rparr>
      (audit (pw fresh_proc)) [] ''t'') = (Ret (), pw fresh_proc)"
    by (simp add: fresh_proc_def boot_world_def)
  have "?S fresh_proc \<lparr>running = (Ret () = (Ret () :: unit outcome)), pw = pw fresh_proc\<rparr>"
    by (rule rc_step.restart [OF _ _ r]) (auto simp: OpenStore_def fresh_proc_def boot_world_def sample_ops_def)
  then show "?S fresh_proc started_proc" by (simp add: started_proc_def fresh_proc_def)
  have e: "(pw started_proc)\<lparr>saves := [], clock := ''t''\<rparr> = pw started_proc"
    by (simp add: started_proc_def fresh_proc_def boot_world_def)
  have out: "fst (ReceiveDesired sample_json sample_ops sample_desired (pw started_proc)) = Ret (ApplyStatusApplied, No_Code)"
    by code_simp
  then have "ReceiveDesired sample_json sample_ops sample_desired ((pw started_proc)\<lparr>saves := [], clock := ''t''\<rparr>)
      = (Ret (ApplyStatusApplied, No_Code), pw applied_proc)"
    unfolding e applied_proc_def by (metis prod.collapse proc.select_convs(2))
  from rc_step.receive [OF _ _ this, of "range (adapter_ops sample_parse (\<lambda>_. ''invalid'') (\<lambda>_. ''failed''))" sample_adapter]
  show "?S started_proc applied_proc"
    by (auto simp: started_proc_def sample_ops_def applied_proc_def)
qed

theorem remote_config_lifecycle_witness:
  "AppliedVersion (mem (store (pw applied_proc))) = 1 \<and> durable sample_json (store (pw applied_proc))
   \<and> (rt (pw applied_proc) = sample_adapter
      \<or> reflects sample_parse (rt (pw applied_proc)) (previousKnownGood (mem (store (pw applied_proc)))))"
proof -
  have i: "rc_init fresh_proc" by (simp add: rc_init_def fresh_proc_def boot_world_def)
  have s: "AppliedVersion (mem (store (pw applied_proc))) = 1" "Staging (mem (store (pw applied_proc))) = None"
    by code_simp+
  have "running applied_proc" by (simp add: applied_proc_def)
  with remote_config_lifecycle [OF i, of sample_json sample_parse "\<lambda>_. ''invalid''" "\<lambda>_. ''failed''"
      sample_adapter started_proc applied_proc] sample_history s
  show ?thesis by (auto simp: r_into_rtranclp)
qed

text \<open>What the two endings of an apply report.\<close>

lemma roll_back_apply_report:
  assumes st: "Staging (mem (store w)) \<noteq> None" and r: "roll_back_apply J A d target msg w = (out, w')"
  shows "(\<exists>e. out = Err e \<and> Staging (mem (store w')) \<noteq> None) \<or> out = Killed
    \<or> (out = Ret (ApplyStatusRolledBack, APPLY_FAILED) \<and> Staging (mem (store w')) = None
       \<and> AppliedConfig (mem (store w')) = AppliedConfig (mem (store w))
       \<and> rollback_op A target (rt w) = (None, rt w'))"
  using r st
  by (auto simp: roll_back_apply_def Let_def split: prod.splits option.splits save_result.splits
      dest!: update_Committed update_Failed)

lemma publish_report:
  assumes st: "Staging (mem (store w)) \<noteq> None" and r: "publish J A d target w = (out, w')"
  shows "(\<exists>e. out = Err e \<and> Staging (mem (store w')) \<noteq> None) \<or> out = Killed
    \<or> (out = Ret (ApplyStatusApplied, No_Code) \<and> rt w' = rt w
       \<and> (\<exists>s. store w' = \<lparr>mem = s, disk = Content (encode_state J s)\<rparr> \<and> AppliedConfig s = Some d
            \<and> AppliedVersion s = Version d \<and> Staging s = None))"
  using r st
  by (auto simp: publish_def Let_def split: prod.splits option.splits save_result.splits
      dest!: update_Committed update_Failed)

text \<open>C14. What \<open>ReceiveDesired\<close> reports is what happened. \<open>applied\<close> means that the disk holds the
  document as the applied one with nothing staged, and that it was applied just now or the call
  changed nothing; \<open>rolled_back\<close> that the adapter confirmed the rollback to the last good document, which
  is still the applied one; \<open>failed\<close> that the runtime and the applied document were not touched. An
  error means that nothing was applied or that the attempt stays staged, and while an attempt is
  staged every document is refused without calling the adapter.\<close>

theorem reported_outcome_is_true:
  assumes "durable J (store w)" "ReceiveDesired J A d w = (out, w')"
  shows "(out = Ret (ApplyStatusApplied, No_Code) \<longrightarrow>
       Staging (disk_state (store w')) = None \<and>
       ((apply_op A d (rt w) = (None, rt w') \<and> AppliedConfig (mem (store w')) = Some d
           \<and> disk (store w') = Content (encode_state J (mem (store w'))))
        \<or> (w' = w \<and> (\<exists>c. AppliedConfig (mem (store w)) = Some c \<and> Equal J d c))))
    \<and> (\<forall>code. out = Ret (ApplyStatusRolledBack, code) \<longrightarrow>
         Staging (mem (store w')) = None \<and> AppliedConfig (mem (store w')) = AppliedConfig (mem (store w))
         \<and> (\<exists>r. rollback_op A (previousKnownGood (mem (store w))) r = (None, rt w')))
    \<and> (\<forall>code. out = Ret (ApplyStatusFailed, code) \<longrightarrow>
         rt w' = rt w \<and> AppliedConfig (mem (store w')) = AppliedConfig (mem (store w)))
    \<and> (\<forall>e. out = Err e \<longrightarrow> (store w' = store w \<and> rt w' = rt w) \<or> Staging (mem (store w')) \<noteq> None)
    \<and> (Staging (mem (store w)) \<noteq> None \<longrightarrow>
         out = Ret (ApplyStatusFailed, STAGING_UNRESOLVED) \<and> store w' = store w \<and> rt w' = rt w)"
proof (cases "settled_answer J d (mem (store w))")
  case (Some a)
  obtain x code b where a: "a = (x, code, b)" by (metis prod_cases3)
  have r: "out = Ret (x, code)" "store w' = store w" "rt w' = rt w" "\<not> b \<longrightarrow> w' = w"
    using assms(2) Some a by (auto simp: ReceiveDesired_def split: if_splits)
  have x: "x = ApplyStatusApplied \<and> \<not> b \<and> (\<exists>c. AppliedConfig (mem (store w)) = Some c \<and> Equal J d c)
      \<and> Staging (mem (store w)) = None \<or> x = ApplyStatusFailed \<and> (Staging (mem (store w)) \<noteq> None \<longrightarrow> code = STAGING_UNRESOLVED)"
    using Some a by (auto simp: settled_answer_def split: if_splits option.splits)
  have "Staging (disk_state (store w)) = None" if "Staging (mem (store w)) = None"
    using assms(1) that by (auto simp: durable_def disk_state_def zero_state_def split: state_file.splits)
  with r x show ?thesis by auto
next
  case None
  then have st: "Staging (mem (store w)) = None" by (auto simp: settled_answer_def split: if_splits)
  show ?thesis
  proof (cases "validate_op A d (rt w)")
    case (Some msg)
    with None assms(2) st show ?thesis
      by (auto simp: ReceiveDesired_def split: prod.splits save_result.splits dest!: update_Committed update_Failed)
  next
    case valid: None
    obtain u w2 where u: "update J (mark_staging (clock w) d) w = (u, w2)" by (metis surj_pair)
    show ?thesis
    proof (cases u)
      case Committed
      then have w2: "mem (store w2) = mark_staging (clock w) d (mem (store w))" "rt w2 = rt w"
        using u by (auto dest!: update_Committed)
      have g: "previousKnownGood (mem (store w2)) = previousKnownGood (mem (store w))"
        by (simp add: w2 previousKnownGood_def split: option.split)
      obtain ae r' where ap: "apply_op A d (rt w) = (ae, r')" by (metis surj_pair)
      let ?w = "w2\<lparr>rt := r'\<rparr>"
      have s2: "Staging (mem (store ?w)) \<noteq> None" by (simp add: w2)
      show ?thesis
      proof (cases ae)
        case None
        then have p: "publish J A d (previousKnownGood (mem (store w))) ?w = (out, w')"
          using assms(2) \<open>settled_answer J d (mem (store w)) = None\<close> valid u Committed ap w2 g
          by (simp add: ReceiveDesired_def)
        from publish_report [OF s2 p] None ap st show ?thesis by (auto simp: disk_state_def)
      next
        case (Some msg)
        then have p: "roll_back_apply J A d (previousKnownGood (mem (store w))) msg ?w = (out, w')"
          using assms(2) None valid u Committed ap w2 g by (simp add: ReceiveDesired_def)
        from roll_back_apply_report [OF s2 p] st w2 show ?thesis by (auto simp: disk_state_def)
      qed
    next
      case (Failed_At s)
      with assms(2) None valid u st show ?thesis by (auto simp: ReceiveDesired_def dest!: update_Failed)
    next
      case Process_Killed
      with assms(2) None valid u st show ?thesis by (auto simp: ReceiveDesired_def)
    qed
  qed
qed

theorem reported_outcome_witness:
  "apply_op sample_ops sample_desired (rt (pw started_proc)) = (None, rt (pw applied_proc))
   \<or> pw applied_proc = pw started_proc"
proof -
  have d: "durable sample_json (store (pw started_proc))"
    by (simp add: durable_def started_proc_def fresh_proc_def boot_world_def)
  have "fst (ReceiveDesired sample_json sample_ops sample_desired (pw started_proc)) = Ret (ApplyStatusApplied, No_Code)"
    by code_simp
  then have "ReceiveDesired sample_json sample_ops sample_desired (pw started_proc)
      = (Ret (ApplyStatusApplied, No_Code), pw applied_proc)"
    by (simp add: applied_proc_def prod_eq_iff)
  from reported_outcome_is_true [OF d this] show ?thesis by auto
qed

text \<open>A restart does not apply the applied document again: \<open>Recover\<close> returns with nothing staged and the
  runtime as the process started it, and when the document is offered again it is reported \<open>applied\<close>
  without an apply.\<close>

lemma restart_leaves_boot_configuration:
  assumes "Staging (mem s) = None" "AppliedConfig (mem s) = Some c" "AppliedVersion (mem s) = Version d"
    "Equal J d c"
  shows "Recover J A (boot_world boot s au sv ck) = (Ret (), boot_world boot s au sv ck)
    \<and> ReceiveDesired J A d (boot_world boot s au sv ck) = (Ret (ApplyStatusApplied, No_Code), boot_world boot s au sv ck)"
  using assms by (simp add: Recover_def ReceiveDesired_def settled_answer_def boot_world_def)

end
