(* ===== verification/Go_Json.thy ===== *)
theory Go_Json
  imports Edge_Prelude
begin

text \<open>
  What the program uses of Go's \<open>unicode/utf8\<close> and \<open>encoding/json\<close>: strings are byte lists, coerced to
  valid UTF-8 when written; \<open>json_quote\<close> is the encoder's string writer with HTML escaping,
  \<open>parse_json\<close> the decoder's grammar (white space, escapes, surrogates, numbers, nesting limit).
  Shown here: the decoder reads a written string back as its valid form, and a parsed text keeps its
  value when more bytes follow, so a cut-off object never parses.
\<close>

section \<open>UTF-8\<close>

abbreviation byte :: "char \<Rightarrow> nat" where
  "byte c \<equiv> of_char c"

definition between :: "nat \<Rightarrow> nat \<Rightarrow> char \<Rightarrow> bool" where
  "between lo hi c \<longleftrightarrow> lo \<le> byte c \<and> byte c \<le> hi"

text \<open>The table of \<open>utf8.DecodeRune\<close>: the size a first byte announces (0: no first byte) and the range of
  the second byte, which excludes overlong forms, surrogates and values above U+10FFFF.\<close>

definition rune_size :: "char \<Rightarrow> nat" where
  "rune_size b =
     (if byte b < 0x80 then 1
      else if between 0xC2 0xDF b then 2
      else if between 0xE0 0xEF b then 3
      else if between 0xF0 0xF4 b then 4 else 0)"

definition second_ok :: "char \<Rightarrow> char \<Rightarrow> bool" where
  "second_ok b c \<longleftrightarrow>
     between (if byte b = 0xE0 then 0xA0 else if byte b = 0xF0 then 0x90 else 0x80)
             (if byte b = 0xED then 0x9F else if byte b = 0xF4 then 0x8F else 0xBF) c"

text \<open>The length of the valid encoding a string starts with, 0 where \<open>utf8.DecodeRune\<close> returns
  \<open>RuneError\<close> of width 1 (or 0, for the empty string).\<close>

definition rune_len :: "string \<Rightarrow> nat" where
  "rune_len s = (case s of [] \<Rightarrow> 0 | b # t \<Rightarrow>
     if rune_size b \<le> 1 then rune_size b
     else if rune_size b \<le> length s \<and> second_ok b (hd t)
          \<and> list_all (between 0x80 0xBF) (take (rune_size b - 2) (tl t))
     then rune_size b else 0)"

lemma rune_len_le: "rune_len s \<le> length s"
  by (cases s) (auto simp: rune_len_def)

text \<open>U+FFFD, the replacement character.\<close>

definition replacement :: string where
  "replacement = [CHR 0xEF, CHR 0xBF, CHR 0xBD]"

function to_valid :: "string \<Rightarrow> string" where
  "to_valid s =
     (if s = [] then []
      else if rune_len s = 0 then replacement @ to_valid (tl s)
      else take (rune_len s) s @ to_valid (drop (rune_len s) s))"
  by auto
termination by (relation "measure length") auto

function valid_utf8 :: "string \<Rightarrow> bool" where
  "valid_utf8 s =
     (if s = [] then True else if rune_len s = 0 then False else valid_utf8 (drop (rune_len s) s))"
  by auto
termination by (relation "measure length") auto

declare to_valid.simps [simp del] valid_utf8.simps [simp del]

text \<open>\<open>utf8.EncodeRune\<close>.\<close>

definition encode_rune :: "nat \<Rightarrow> string" where
  "encode_rune r =
     (if r < 0x80 then [char_of r]
      else if r < 0x800 then [char_of (0xC0 + r div 64), char_of (0x80 + r mod 64)]
      else if 0xD800 \<le> r \<and> r < 0xE000 \<or> 0x10FFFF < r then replacement
      else if r < 0x10000 then
        [char_of (0xE0 + r div 4096), char_of (0x80 + r div 64 mod 64), char_of (0x80 + r mod 64)]
      else
        [char_of (0xF0 + r div 262144), char_of (0x80 + r div 4096 mod 64),
         char_of (0x80 + r div 64 mod 64), char_of (0x80 + r mod 64)])"

section \<open>Strings\<close>

definition hex_digit :: "nat \<Rightarrow> char" where
  "hex_digit n = (if n < 10 then char_of (48 + n) else char_of (87 + n))"

definition hex_val :: "char \<Rightarrow> nat option" where
  "hex_val c =
     (if between 48 57 c then Some (byte c - 48)
      else if between 97 102 c then Some (byte c - 87)
      else if between 65 70 c then Some (byte c - 55) else None)"

definition escape_ascii :: "char \<Rightarrow> string" where
  "escape_ascii c =
     (if c = CHR 0x22 \<or> c = CHR 0x5C then [CHR 0x5C, c]
      else if c = CHR 0x08 then [CHR 0x5C, CHR ''b'']
      else if c = CHR 0x0C then [CHR 0x5C, CHR ''f'']
      else if c = CHR 0x0A then [CHR 0x5C, CHR ''n'']
      else if c = CHR 0x0D then [CHR 0x5C, CHR ''r'']
      else if c = CHR 0x09 then [CHR 0x5C, CHR ''t'']
      else if byte c < 0x20 \<or> c = CHR ''<'' \<or> c = CHR ''>'' \<or> c = CHR ''&'' then
        [CHR 0x5C, CHR ''u'', CHR ''0'', CHR ''0'', hex_digit (byte c div 16), hex_digit (byte c mod 16)]
      else [c])"

text \<open>\<open>appendString\<close> between the quotes: ASCII escapes, \<open>\ufffd\<close> for an invalid byte, U+2028 and U+2029
  escaped, other runes as they are.\<close>

function quote_bytes :: "string \<Rightarrow> string" where
  "quote_bytes s =
     (if s = [] then []
      else if byte (hd s) < 0x80 then escape_ascii (hd s) @ quote_bytes (tl s)
      else if rune_len s = 0 then CHR 0x5C # ''ufffd'' @ quote_bytes (tl s)
      else if take 3 s = [CHR 0xE2, CHR 0x80, CHR 0xA8] then CHR 0x5C # ''u2028'' @ quote_bytes (drop 3 s)
      else if take 3 s = [CHR 0xE2, CHR 0x80, CHR 0xA9] then CHR 0x5C # ''u2029'' @ quote_bytes (drop 3 s)
      else take (rune_len s) s @ quote_bytes (drop (rune_len s) s))"
  by auto
termination by (relation "measure length") auto

declare quote_bytes.simps [simp del]

definition json_quote :: "string \<Rightarrow> string" where
  "json_quote s = CHR 0x22 # quote_bytes s @ [CHR 0x22]"

definition get_u4 :: "string \<Rightarrow> (nat \<times> string) option" where
  "get_u4 s = (case s of a # b # c # d # t \<Rightarrow>
       (case (hex_val a, hex_val b, hex_val c, hex_val d) of
          (Some w, Some x, Some y, Some z) \<Rightarrow> Some (((w * 16 + x) * 16 + y) * 16 + z, t)
        | _ \<Rightarrow> None)
     | _ \<Rightarrow> None)"

text \<open>After a \<open>\u\<close> escape that is a surrogate: \<open>utf16.DecodeRune\<close> with the next escape, the
  replacement character when the two are no pair.\<close>

definition decode_surrogate :: "nat \<Rightarrow> string \<Rightarrow> string \<times> string" where
  "decode_surrogate r t =
     (case t of b # u # t2 \<Rightarrow>
        if b = CHR 0x5C \<and> u = CHR ''u'' then
          (case get_u4 t2 of
             Some (r2, t3) \<Rightarrow>
               if r < 0xDC00 \<and> 0xDC00 \<le> r2 \<and> r2 < 0xE000
               then (encode_rune (0x10000 + (r - 0xD800) * 0x400 + (r2 - 0xDC00)), t3)
               else (replacement, t)
           | None \<Rightarrow> (replacement, t))
        else (replacement, t)
      | _ \<Rightarrow> (replacement, t))"

definition unescape :: "string \<Rightarrow> (string \<times> string) option" where
  "unescape s = (case s of [] \<Rightarrow> None | e # t \<Rightarrow>
     if e = CHR 0x22 \<or> e = CHR 0x5C \<or> e = CHR ''/'' then Some ([e], t)
     else if e = CHR ''b'' then Some ([CHR 0x08], t)
     else if e = CHR ''f'' then Some ([CHR 0x0C], t)
     else if e = CHR ''n'' then Some ([CHR 0x0A], t)
     else if e = CHR ''r'' then Some ([CHR 0x0D], t)
     else if e = CHR ''t'' then Some ([CHR 0x09], t)
     else if e = CHR ''u'' then
       (case get_u4 t of
          None \<Rightarrow> None
        | Some (r, t1) \<Rightarrow>
            if 0xD800 \<le> r \<and> r < 0xE000 then Some (decode_surrogate r t1) else Some (encode_rune r, t1))
     else None)"

lemma get_u4_length: "get_u4 s = Some (r, t) \<Longrightarrow> length t < length s"
  by (auto simp: get_u4_def split: list.splits option.splits)

lemma decode_surrogate_length: "decode_surrogate r s = (v, t) \<Longrightarrow> length t \<le> length s"
  by (auto simp: decode_surrogate_def dest!: get_u4_length split: list.splits option.splits if_splits)

lemma unescape_length: "unescape s = Some (v, t) \<Longrightarrow> length t < length s"
  by (auto simp: unescape_def split: list.splits option.splits if_splits
      dest!: get_u4_length decode_surrogate_length)

text \<open>\<open>unquoteBytes\<close> from behind the opening quote, over input the scanner accepts: the value and what
  follows the closing quote.\<close>

definition cons_value :: "string \<Rightarrow> (string \<times> string) option \<Rightarrow> (string \<times> string) option" where
  "cons_value v = map_option (\<lambda>(w, t). (v @ w, t))"

function unquote :: "string \<Rightarrow> (string \<times> string) option" where
  "unquote s =
     (if s = [] then None
      else if hd s = CHR 0x22 then Some ([], tl s)
      else if hd s = CHR 0x5C then
        (case unescape (tl s) of None \<Rightarrow> None | Some (v, t) \<Rightarrow> cons_value v (unquote t))
      else if byte (hd s) < 0x20 then None
      else if rune_len s = 0 then cons_value replacement (unquote (tl s))
      else cons_value (take (rune_len s) s) (unquote (drop (rune_len s) s)))"
  by auto
termination
proof (relation "measure length"; clarsimp simp: unescape_length)
  fix s v t
  assume "s \<noteq> []" "unescape (tl s) = Some (v, t)"
  then show "length t < length s" using unescape_length [of "tl s" v t] by simp
qed

declare unquote.simps [simp del]

section \<open>Values\<close>

definition starts :: "char \<Rightarrow> string \<Rightarrow> bool" where
  "starts c s \<longleftrightarrow> s \<noteq> [] \<and> hd s = c"

datatype json = JNull | JBool bool | JNum string | JStr string | JArr "json list" | JObj "(string \<times> json) list"

definition is_space :: "char \<Rightarrow> bool" where
  "is_space c \<longleftrightarrow> c = CHR 0x20 \<or> c = CHR 0x09 \<or> c = CHR 0x0A \<or> c = CHR 0x0D"

definition skip_ws :: "string \<Rightarrow> string" where
  "skip_ws s = dropWhile is_space s"

definition scan_frac :: "string \<Rightarrow> (string \<times> string) option" where
  "scan_frac s =
     (if s \<noteq> [] \<and> hd s = CHR ''.'' then
        (if takeWhile is_digit (tl s) = [] then None
         else Some (CHR ''.'' # takeWhile is_digit (tl s), dropWhile is_digit (tl s)))
      else Some ([], s))"

definition scan_exp :: "string \<Rightarrow> (string \<times> string) option" where
  "scan_exp s =
     (if s \<noteq> [] \<and> (hd s = CHR ''e'' \<or> hd s = CHR ''E'') then
        (let sg = (if tl s \<noteq> [] \<and> (hd (tl s) = CHR ''+'' \<or> hd (tl s) = CHR ''-'') then [hd (tl s)] else []);
             t = drop (length sg) (tl s)
         in if takeWhile is_digit t = [] then None
            else Some (hd s # sg @ takeWhile is_digit t, dropWhile is_digit t))
      else Some ([], s))"

definition scan_int :: "string \<Rightarrow> (string \<times> string) option" where
  "scan_int s =
     (if s = [] \<or> \<not> is_digit (hd s) then None
      else if hd s = CHR ''0'' then Some ([hd s], tl s)
      else Some (takeWhile is_digit s, dropWhile is_digit s))"

definition scan_number :: "string \<Rightarrow> (string \<times> string) option" where
  "scan_number s =
     (let sg = (if s \<noteq> [] \<and> hd s = CHR ''-'' then [CHR ''-''] else [])
      in case scan_int (drop (length sg) s) of
           None \<Rightarrow> None
         | Some (i, s1) \<Rightarrow>
             (case scan_frac s1 of
                None \<Rightarrow> None
              | Some (f, s2) \<Rightarrow>
                  (case scan_exp s2 of
                     None \<Rightarrow> None
                   | Some (e, s3) \<Rightarrow> Some (sg @ i @ f @ e, s3))))"

text \<open>The literals and numbers: the values that hold no other value and no string.\<close>

definition parse_scalar :: "string \<Rightarrow> (json \<times> string) option" where
  "parse_scalar s =
     (if take 4 s = ''true'' then Some (JBool True, drop 4 s)
      else if take 5 s = ''false'' then Some (JBool False, drop 5 s)
      else if take 4 s = ''null'' then Some (JNull, drop 4 s)
      else map_option (\<lambda>(l, t). (JNum l, t)) (scan_number s))"

text \<open>\<open>parse_value d n\<close> parses a value that starts at the head of the input, with \<open>d\<close> more levels of
  nesting allowed (\<open>maxNestingDepth\<close>); \<open>n\<close> is fuel, and \<open>Suc (2 * length s)\<close> is enough
  (\<open>parse_value_fuel\<close> below).\<close>

fun parse_value :: "nat \<Rightarrow> nat \<Rightarrow> string \<Rightarrow> (json \<times> string) option"
and parse_members :: "nat \<Rightarrow> nat \<Rightarrow> string \<Rightarrow> ((string \<times> json) list \<times> string) option"
and parse_elements :: "nat \<Rightarrow> nat \<Rightarrow> string \<Rightarrow> (json list \<times> string) option" where
  "parse_value d 0 s = None"
| "parse_value d (Suc n) s =
     (if s = [] then None
      else if hd s = CHR 0x22 then map_option (\<lambda>(v, t). (JStr v, t)) (unquote (tl s))
      else if hd s = CHR 0x7B then
        (if d = 0 then None
         else if starts (CHR 0x7D) (skip_ws (tl s)) then Some (JObj [], tl (skip_ws (tl s)))
         else map_option (\<lambda>(m, t). (JObj m, t)) (parse_members (d - 1) n (skip_ws (tl s))))
      else if hd s = CHR 0x5B then
        (if d = 0 then None
         else if starts (CHR 0x5D) (skip_ws (tl s)) then Some (JArr [], tl (skip_ws (tl s)))
         else map_option (\<lambda>(m, t). (JArr m, t)) (parse_elements (d - 1) n (skip_ws (tl s))))
      else parse_scalar s)"
| "parse_members d 0 s = None"
| "parse_members d (Suc n) s =
     (if s = [] \<or> hd s \<noteq> CHR 0x22 then None
      else case unquote (tl s) of None \<Rightarrow> None | Some (k, t) \<Rightarrow>
        (if \<not> starts (CHR '':'') (skip_ws t) then None
         else case parse_value d n (skip_ws (tl (skip_ws t))) of None \<Rightarrow> None | Some (v, u) \<Rightarrow>
           (if starts (CHR 0x7D) (skip_ws u) then Some ([(k, v)], tl (skip_ws u))
            else if starts (CHR '','') (skip_ws u) then
              map_option (\<lambda>(m, w). ((k, v) # m, w)) (parse_members d n (skip_ws (tl (skip_ws u))))
            else None)))"
| "parse_elements d 0 s = None"
| "parse_elements d (Suc n) s =
     (case parse_value d n s of None \<Rightarrow> None | Some (v, u) \<Rightarrow>
        (if starts (CHR 0x5D) (skip_ws u) then Some ([v], tl (skip_ws u))
         else if starts (CHR '','') (skip_ws u) then
           map_option (\<lambda>(m, w). (v # m, w)) (parse_elements d n (skip_ws (tl (skip_ws u))))
         else None))"

definition maxNestingDepth :: nat where
  "maxNestingDepth = 10000"

text \<open>The text of one value, white space around it allowed (\<open>checkValid\<close> and \<open>decodeState.value\<close>).\<close>

definition parse_json :: "string \<Rightarrow> json option" where
  "parse_json s =
     (case parse_value maxNestingDepth (Suc (2 * length (skip_ws s))) (skip_ws s) of
        None \<Rightarrow> None
      | Some (v, t) \<Rightarrow> if skip_ws t = [] then Some v else None)"

section \<open>Reading and writing strings\<close>

named_theorems json_text \<open>rewrite rules that carry the round trips\<close>

lemma rune_len_append: "rune_len s \<noteq> 0 \<Longrightarrow> rune_len (s @ q) = rune_len s"
proof (cases s)
  case (Cons b t)
  moreover assume "rune_len s \<noteq> 0"
  moreover have "rune_size b \<le> length (b # t) \<Longrightarrow> \<not> rune_size b \<le> 1 \<Longrightarrow>
      hd (t @ q) = hd t \<and> take (rune_size b - 2) (tl (t @ q)) = take (rune_size b - 2) (tl t)"
    by (cases t) auto
  ultimately show ?thesis by (auto simp: rune_len_def split: if_splits)
qed (simp add: rune_len_def)

lemma rune_size_ascii: "byte b < 0x80 \<Longrightarrow> rune_size b = 1"
  by (simp add: rune_size_def)

lemma rune_len_ascii: "s \<noteq> [] \<Longrightarrow> byte (hd s) < 0x80 \<Longrightarrow> rune_len s = 1"
  by (cases s) (auto simp: rune_len_def rune_size_ascii)

text \<open>A rune that only becomes complete with more input consists of non-ASCII bytes so far.\<close>

lemma rune_len_cut:
  assumes "rune_len s = 0" "rune_len (s @ q) \<noteq> 0" "c \<in> set s"
  shows "0x80 \<le> byte c"
proof (cases s)
  case Nil
  with assms(3) show ?thesis by simp
next
  case (Cons b t)
  then have sz: "1 < rune_size b" and ok: "second_ok b (hd (t @ q))"
    and cont: "list_all (between 0x80 0xBF) (take (rune_size b - 2) (tl (t @ q)))"
    using assms(1,2) by (auto simp: rune_len_def split: if_splits)
  have short: "length s < rune_size b"
    using assms(1) Cons sz ok cont by (cases t) (auto simp: rune_len_def split: if_splits)
  have b: "0x80 \<le> byte b" using sz by (auto simp: rune_size_def split: if_splits)
  show ?thesis
  proof (cases t)
    case Nil
    with b assms(3) Cons show ?thesis by simp
  next
    case (Cons c1 u)
    have "0x80 \<le> byte c1" using ok Cons by (auto simp: second_ok_def between_def split: if_splits)
    moreover have "set u \<subseteq> set (take (rune_size b - 2) (tl (t @ q)))"
      using short Cons \<open>s = b # t\<close> by simp
    then have "\<forall>c \<in> set u. 0x80 \<le> byte c" using cont by (auto simp: list_all_iff between_def)
    ultimately show ?thesis using b assms(3) Cons \<open>s = b # t\<close> by auto
  qed
qed

lemma take_rune_append: "rune_len s \<noteq> 0 \<Longrightarrow> take (rune_len s) (s @ q) = take (rune_len s) s"
  by (simp add: rune_len_le)

lemma drop_rune_append: "rune_len s \<noteq> 0 \<Longrightarrow> drop (rune_len s) (s @ q) = drop (rune_len s) s @ q"
  by (simp add: rune_len_le)

lemma unquote_high: "\<forall>c \<in> set s. 0x80 \<le> byte c \<Longrightarrow> unquote s = None"
proof (induction s rule: unquote.induct)
  case (1 s)
  show ?case
  proof (cases s)
    case Nil
    then show ?thesis by (simp add: unquote.simps)
  next
    case (Cons c t)
    with "1.prems" have c: "0x80 \<le> byte c" by simp
    then have h: "hd s \<noteq> CHR 0x22" "hd s \<noteq> CHR 0x5C" "\<not> byte (hd s) < 0x20" "s \<noteq> []"
      using Cons by auto
    have sub: "\<forall>c \<in> set (tl s). 0x80 \<le> byte c" "\<forall>c \<in> set (drop (rune_len s) s). 0x80 \<le> byte c"
      using "1.prems" Cons by (simp, meson "1.prems" in_set_dropD)
    show ?thesis
      using "1.IH"(2) [OF h(4,1,2,3)] "1.IH"(3) [OF h(4,1,2,3)] sub h
      by (subst unquote.simps) (simp add: cons_value_def)
  qed
qed

lemma get_u4_append: "get_u4 s = Some (r, t) \<Longrightarrow> get_u4 (s @ q) = Some (r, t @ q)"
  by (auto simp: get_u4_def split: list.splits option.splits)

lemma unquote_Nil [simp]: "unquote [] = None"
  by (simp add: unquote.simps)

lemma unquote_quote [simp]: "unquote (CHR 0x22 # t) = Some ([], t)"
  by (simp add: unquote.simps)

lemma unquote_escape:
  "unquote (CHR 0x5C # s) = (case unescape s of None \<Rightarrow> None | Some (v, t) \<Rightarrow> cons_value v (unquote t))"
  by (subst unquote.simps) simp

lemma unquote_rune:
  assumes "hd s \<noteq> CHR 0x22" "hd s \<noteq> CHR 0x5C" "0x20 \<le> byte (hd s)" "rune_len s \<noteq> 0"
  shows "unquote s = cons_value (take (rune_len s) s) (unquote (drop (rune_len s) s))"
proof -
  have "s \<noteq> []" using assms(4) by (auto simp: rune_len_def)
  with assms show ?thesis by (subst unquote.simps) simp
qed

lemma decode_surrogate_append:
  assumes "decode_surrogate r t = (v, t')" "unquote t' \<noteq> None"
  shows "decode_surrogate r (t @ q) = (v, t' @ q)"
proof (cases t)
  case Nil
  with assms show ?thesis by (simp add: decode_surrogate_def)
next
  case (Cons b t1)
  show ?thesis
  proof (cases t1)
    case Nil
    with Cons assms have t: "t = [b]" "t' = [b]" "v = replacement" by (auto simp: decode_surrogate_def)
    with assms(2) have "b \<noteq> CHR 0x5C" by (auto simp: unquote_escape unescape_def)
    with t show ?thesis by (cases q) (auto simp: decode_surrogate_def)
  next
    case (Cons u t2)
    show ?thesis
    proof (cases "b = CHR 0x5C \<and> u = CHR ''u'' \<and> get_u4 t2 = None")
      case True
      then have "t' = t" using assms(1) Cons \<open>t = b # t1\<close> by (auto simp: decode_surrogate_def)
      with True assms(2) Cons \<open>t = b # t1\<close> show ?thesis
        by (simp add: unquote_escape unescape_def)
    next
      case False
      with assms(1) Cons \<open>t = b # t1\<close> show ?thesis
        by (auto simp: decode_surrogate_def get_u4_append split: option.splits if_splits)
    qed
  qed
qed

lemma unescape_append:
  assumes "unescape s = Some (v, t)" "unquote t \<noteq> None"
  shows "unescape (s @ q) = Some (v, t @ q)"
  using assms
  by (auto simp: unescape_def get_u4_append decode_surrogate_append split: list.splits option.splits if_splits)

lemma unquote_append: "unquote s = Some (v, t) \<Longrightarrow> unquote (s @ q) = Some (v, t @ q)"
proof (induction s arbitrary: v t rule: unquote.induct)
  case (1 s)
  have ne: "s \<noteq> []" using "1.prems" by auto
  then have hd: "hd (s @ q) = hd s" "tl (s @ q) = tl s @ q" "s @ q \<noteq> []" by simp_all
  consider (quote) "hd s = CHR 0x22" | (esc) "hd s = CHR 0x5C"
    | (bad) "hd s \<noteq> CHR 0x22" "hd s \<noteq> CHR 0x5C" "byte (hd s) < 0x20"
    | (invalid) "hd s \<noteq> CHR 0x22" "hd s \<noteq> CHR 0x5C" "\<not> byte (hd s) < 0x20" "rune_len s = 0"
    | (rune) "hd s \<noteq> CHR 0x22" "hd s \<noteq> CHR 0x5C" "\<not> byte (hd s) < 0x20" "rune_len s \<noteq> 0"
    by blast
  then show ?case
  proof cases
    case quote
    with "1.prems" ne hd show ?thesis by (subst (asm) unquote.simps) (simp add: unquote.simps)
  next
    case esc
    then obtain w u x where e: "unescape (tl s) = Some (w, u)" "unquote u = Some (x, t)" "v = w @ x"
      using "1.prems" ne by (subst (asm) unquote.simps) (auto simp: cons_value_def split: option.splits)
    have "unquote (u @ q) = Some (x, t @ q)"
      using "1.IH"(1) [OF ne _ esc e(1) refl e(2)] esc by simp
    moreover have "unescape (tl (s @ q)) = Some (w, u @ q)" using unescape_append e hd(2) by simp
    ultimately show ?thesis using esc e(3) hd
      by (subst unquote.simps) (simp add: cons_value_def)
  next
    case bad
    with "1.prems" ne show ?thesis by (subst (asm) unquote.simps) simp
  next
    case invalid
    then obtain x where e: "unquote (tl s) = Some (x, t)" "v = replacement @ x"
      using "1.prems" ne by (subst (asm) unquote.simps) (auto simp: cons_value_def)
    have "rune_len (s @ q) = 0"
    proof (rule ccontr)
      assume "rune_len (s @ q) \<noteq> 0"
      then have "\<forall>c \<in> set (tl s). 0x80 \<le> byte c"
        using rune_len_cut [OF invalid(4)] ne by (auto dest: list.set_sel(2))
      with e(1) show False using unquote_high [of "tl s"] by simp
    qed
    moreover have "unquote (tl s @ q) = Some (x, t @ q)" using "1.IH"(2) [OF ne invalid e(1)] .
    ultimately show ?thesis using invalid e(2) hd
      by (subst unquote.simps) (simp add: cons_value_def)
  next
    case rune
    then obtain x where e: "unquote (drop (rune_len s) s) = Some (x, t)" "v = take (rune_len s) s @ x"
      using "1.prems" ne by (subst (asm) unquote.simps) (auto simp: cons_value_def)
    have "unquote (drop (rune_len s) s @ q) = Some (x, t @ q)" using "1.IH"(3) [OF ne rune e(1)] .
    with rune e(2) hd show ?thesis
      by (subst unquote.simps)
        (simp add: cons_value_def rune_len_append take_rune_append drop_rune_append rune_len_le)
  qed
qed

lemma rune_len_take:
  assumes "rune_len s \<noteq> 0"
  shows "rune_len (take (rune_len s) s @ q) = rune_len s"
proof (cases s)
  case (Cons b t)
  have n: "rune_len s = rune_size b" using assms Cons by (auto simp: rune_len_def split: if_splits)
  then have b: "rune_size b \<noteq> 0" using assms by simp
  have "rune_len (take (rune_len s) s) = rune_len s"
  proof (cases "rune_size b = 1")
    case True
    then show ?thesis using n Cons by (simp add: rune_len_def)
  next
    case False
    with assms Cons n b obtain c u where "t = c # u" "rune_size b \<le> length s"
      by (cases t) (auto simp: rune_len_def split: if_splits)
    with assms Cons n b False show ?thesis
      by (auto simp: rune_len_def take_Cons' list_all_iff split: if_splits)
  qed
  with assms show ?thesis by (simp add: rune_len_append)
qed (use assms in \<open>simp add: rune_len_def\<close>)

text \<open>The bytes of U+FFFD, U+2028 and U+2029.\<close>

lemma byte_consts [simp]:
  "byte (CHR 0xE2) = 0xE2" "byte (CHR 0x80) = 0x80" "byte (CHR 0xA8) = 0xA8" "byte (CHR 0xA9) = 0xA9"
  "byte (CHR 0xEF) = 0xEF" "byte (CHR 0xBF) = 0xBF" "byte (CHR 0xBD) = 0xBD"
  by code_simp+

lemma char_consts [simp]:
  "char_of (0xE2 :: nat) = CHR 0xE2" "char_of (0x80 :: nat) = CHR 0x80" "char_of (0xA8 :: nat) = CHR 0xA8"
  "char_of (0xA9 :: nat) = CHR 0xA9" "char_of (0xEF :: nat) = CHR 0xEF" "char_of (0xBF :: nat) = CHR 0xBF"
  "char_of (0xBD :: nat) = CHR 0xBD"
  by code_simp+

lemma hex_val_digit: "n < 16 \<Longrightarrow> hex_val (hex_digit n) = Some n"
  by (auto simp: hex_val_def hex_digit_def between_def)

lemma unquote_escape_ascii:
  assumes "byte c < 0x80"
  shows "unquote (escape_ascii c @ t) = cons_value [c] (unquote t)"
proof -
  consider (short) "c \<in> {CHR 0x22, CHR 0x5C, CHR 0x08, CHR 0x0C, CHR 0x0A, CHR 0x0D, CHR 0x09}"
    | (hex) "escape_ascii c =
        [CHR 0x5C, CHR ''u'', CHR ''0'', CHR ''0'', hex_digit (byte c div 16), hex_digit (byte c mod 16)]"
    | (plain) "escape_ascii c = [c]" "c \<noteq> CHR 0x22" "c \<noteq> CHR 0x5C" "0x20 \<le> byte c"
    unfolding escape_ascii_def by (smt (verit, best) insert_iff not_less)
  then show ?thesis
  proof cases
    case short
    then show ?thesis by (auto simp: escape_ascii_def unquote_escape unescape_def)
  next
    case hex
    have "hex_val (CHR ''0'') = Some 0" by (simp add: hex_val_def between_def)
    moreover have "hex_val (hex_digit (byte c div 16)) = Some (byte c div 16)"
      using assms by (intro hex_val_digit) simp
    moreover have "hex_val (hex_digit (byte c mod 16)) = Some (byte c mod 16)"
      by (intro hex_val_digit) simp
    ultimately show ?thesis using assms hex
      by (simp add: unquote_escape unescape_def get_u4_def encode_rune_def)
  next
    case plain
    then show ?thesis using assms unquote_rune [of "c # t"] by (simp add: rune_len_ascii)
  qed
qed

lemma unquote_u:
  assumes "get_u4 (h @ t) = Some (r, t)" "encode_rune r = v" "\<not> (0xD800 \<le> r \<and> r < 0xE000)"
  shows "unquote (CHR 0x5C # CHR ''u'' # h @ t) = cons_value v (unquote t)"
proof -
  have "unescape (CHR ''u'' # h @ t) = Some (v, t)" using assms by (auto simp: unescape_def)
  then show ?thesis by (simp add: unquote_escape)
qed

lemma to_valid_Nil [simp]: "to_valid [] = []"
  by (simp add: to_valid.simps)

lemma quote_bytes_Nil [simp]: "quote_bytes [] = []"
  by (simp add: quote_bytes.simps)

lemma to_valid_invalid: "s \<noteq> [] \<Longrightarrow> rune_len s = 0 \<Longrightarrow> to_valid s = replacement @ to_valid (tl s)"
  by (subst to_valid.simps) simp

lemma to_valid_rune: "rune_len s \<noteq> 0 \<Longrightarrow> to_valid s = take (rune_len s) s @ to_valid (drop (rune_len s) s)"
  by (subst to_valid.simps) (auto simp: rune_len_def)

lemma hex_u4 [json_text]:
  "get_u4 (''fffd'' @ t) = Some (0xFFFD, t)" "get_u4 (''2028'' @ t) = Some (0x2028, t)"
  "get_u4 (''2029'' @ t) = Some (0x2029, t)"
  by (simp_all add: get_u4_def hex_val_def between_def)

lemma encode_rune_special [json_text]:
  "encode_rune 0xFFFD = replacement" "encode_rune 0x2028 = [CHR 0xE2, CHR 0x80, CHR 0xA8]"
  "encode_rune 0x2029 = [CHR 0xE2, CHR 0x80, CHR 0xA9]"
  by (simp_all add: encode_rune_def replacement_def)

lemma rune_len_separator:
  assumes "take 3 s = [CHR 0xE2, CHR 0x80, c]" "between 0x80 0xBF c"
  shows "rune_len s = 3"
proof -
  obtain t where "s = CHR 0xE2 # CHR 0x80 # c # t"
    using assms(1) by (metis append_Cons append_Nil append_take_drop_id)
  with assms(2) show ?thesis by (simp add: rune_len_def rune_size_def second_ok_def between_def)
qed

theorem unquote_quote_bytes: "unquote (quote_bytes s @ CHR 0x22 # t) = Some (to_valid s, t)"
proof (induction s rule: quote_bytes.induct)
  case (1 s)
  show ?case
  proof (cases "s = []")
    case ne: False
    consider (ascii) "byte (hd s) < 0x80"
      | (invalid) "\<not> byte (hd s) < 0x80" "rune_len s = 0"
      | (ls) "\<not> byte (hd s) < 0x80" "rune_len s \<noteq> 0" "take 3 s = [CHR 0xE2, CHR 0x80, CHR 0xA8]"
      | (ps) "\<not> byte (hd s) < 0x80" "rune_len s \<noteq> 0" "take 3 s \<noteq> [CHR 0xE2, CHR 0x80, CHR 0xA8]"
          "take 3 s = [CHR 0xE2, CHR 0x80, CHR 0xA9]"
      | (rune) "\<not> byte (hd s) < 0x80" "rune_len s \<noteq> 0" "take 3 s \<noteq> [CHR 0xE2, CHR 0x80, CHR 0xA8]"
          "take 3 s \<noteq> [CHR 0xE2, CHR 0x80, CHR 0xA9]"
      by blast
    then show ?thesis
    proof cases
      case ascii
      then have "to_valid s = hd s # to_valid (tl s)"
        using ne rune_len_ascii [OF ne] by (cases s) (simp_all add: to_valid_rune)
      then show ?thesis using ascii ne "1.IH"(1)
        by (subst quote_bytes.simps) (simp add: unquote_escape_ascii cons_value_def)
    next
      case invalid
      then show ?thesis
        using ne "1.IH"(2) unquote_u [OF hex_u4(1) encode_rune_special(1)]
        by (subst quote_bytes.simps) (simp add: cons_value_def to_valid_invalid)
    next
      case ls
      then have "rune_len s = 3" using rune_len_separator [of s "CHR 0xA8"] by (simp add: between_def)
      then show ?thesis
        using ls ne "1.IH"(3) unquote_u [OF hex_u4(2) encode_rune_special(2)]
        by (subst quote_bytes.simps) (simp add: cons_value_def to_valid_rune)
    next
      case ps
      then have "rune_len s = 3" using rune_len_separator [of s "CHR 0xA9"] by (simp add: between_def)
      then show ?thesis
        using ps ne "1.IH"(4) unquote_u [OF hex_u4(3) encode_rune_special(3)]
        by (subst quote_bytes.simps) (simp add: cons_value_def to_valid_rune)
    next
      case rune
      let ?n = "rune_len s" and ?u = "quote_bytes (drop (rune_len s) s) @ CHR 0x22 # t"
      have "hd (take ?n s @ ?u) = hd s" using rune ne by (cases s) (auto simp: take_Cons')
      moreover have "hd s \<noteq> CHR 0x22" "hd s \<noteq> CHR 0x5C" using rune(1) by auto
      moreover have "length (take ?n s) = ?n" using rune_len_le by simp
      ultimately have "unquote (take ?n s @ ?u) = cons_value (take ?n s) (unquote ?u)"
        using unquote_rune [of "take ?n s @ ?u"] rune rune_len_take [of s ?u] by simp
      then show ?thesis using rune ne "1.IH"(5)
        by (subst quote_bytes.simps) (simp add: cons_value_def to_valid_rune)
    qed
  qed simp
qed

section \<open>More input after a complete value\<close>

lemma skip_ws_append: "skip_ws s \<noteq> [] \<Longrightarrow> skip_ws (s @ q) = skip_ws s @ q"
  by (auto simp: skip_ws_def dropWhile_append)

lemma skip_ws_length: "length (skip_ws s) \<le> length s"
  by (simp add: skip_ws_def length_dropWhile_le)

lemma starts_append [simp]: "s \<noteq> [] \<Longrightarrow> starts c (s @ q) = starts c s"
  by (simp add: starts_def)

lemma starts_nonempty: "starts c s \<Longrightarrow> s \<noteq> []"
  by (simp add: starts_def)

lemma digits_append:
  "dropWhile is_digit s \<noteq> [] \<Longrightarrow> takeWhile is_digit (s @ q) = takeWhile is_digit s"
  "dropWhile is_digit s \<noteq> [] \<Longrightarrow> dropWhile is_digit (s @ q) = dropWhile is_digit s @ q"
  by (auto simp: dropWhile_append takeWhile_append)

lemma scan_frac_append: "scan_frac s = Some (f, r) \<Longrightarrow> r \<noteq> [] \<Longrightarrow> scan_frac (s @ q) = Some (f, r @ q)"
  by (cases s) (auto simp: scan_frac_def digits_append split: if_splits)

lemma scan_int_append: "scan_int s = Some (i, r) \<Longrightarrow> r \<noteq> [] \<Longrightarrow> scan_int (s @ q) = Some (i, r @ q)"
  by (cases s) (auto simp: scan_int_def digits_append dropWhile_append takeWhile_append split: if_splits)

lemma scan_exp_append: "scan_exp s = Some (e, r) \<Longrightarrow> r \<noteq> [] \<Longrightarrow> scan_exp (s @ q) = Some (e, r @ q)"
proof (cases s)
  case (Cons c t)
  assume "scan_exp s = Some (e, r)" "r \<noteq> []"
  with Cons show ?thesis
    by (cases t) (auto simp: scan_exp_def Let_def digits_append dropWhile_append takeWhile_append
        split: if_splits)
qed (simp add: scan_exp_def)

lemma scan_number_append:
  assumes "scan_number s = Some (l, r)" "r \<noteq> []"
  shows "scan_number (s @ q) = Some (l, r @ q)"
proof -
  let ?k = "length (if s \<noteq> [] \<and> hd s = CHR ''-'' then [CHR ''-''] else [])"
  obtain i f e s1 s2 where p: "scan_int (drop ?k s) = Some (i, s1)" "scan_frac s1 = Some (f, s2)"
    "scan_exp s2 = Some (e, r)" and l: "l = (if s \<noteq> [] \<and> hd s = CHR ''-'' then [CHR ''-''] else []) @ i @ f @ e"
    using assms(1) by (auto simp: scan_number_def Let_def split: option.splits)
  have "s2 \<noteq> []" using p(3) assms(2) by (auto simp: scan_exp_def)
  moreover then have "s1 \<noteq> []" using p(2) by (auto simp: scan_frac_def)
  moreover have "s \<noteq> []" using p(1) by (auto simp: scan_int_def)
  ultimately show ?thesis
    using p l assms(2) scan_int_append [OF p(1)] scan_frac_append [OF p(2)] scan_exp_append [OF p(3)]
    by (cases s) (auto simp: scan_number_def Let_def)
qed

lemma scan_number_hd: "scan_number s = Some x \<Longrightarrow> s \<noteq> [] \<and> (hd s = CHR ''-'' \<or> is_digit (hd s))"
  by (auto simp: scan_number_def scan_int_def Let_def split: option.splits if_splits)

lemma digit_neq [simp]: "\<not> is_digit (CHR ''t'')" "\<not> is_digit (CHR ''f'')" "\<not> is_digit (CHR ''n'')"
  "\<not> is_digit (CHR 0x22)" "\<not> is_digit (CHR 0x7B)" "\<not> is_digit (CHR 0x5B)" "\<not> is_digit (CHR 0x7D)" "\<not> is_digit (CHR '','')"
  "\<not> is_digit (CHR ''.'')" "\<not> is_digit (CHR ''e'')" "\<not> is_digit (CHR ''E'')" "\<not> is_digit (CHR ''-'')"
  by (simp_all add: is_digit_def)

definition is_num :: "json \<Rightarrow> bool" where
  "is_num v = (case v of JNum _ \<Rightarrow> True | _ \<Rightarrow> False)"

lemma take_lit: "take n s = l \<Longrightarrow> length l = n \<Longrightarrow> take n (s @ q) = l \<and> drop n (s @ q) = drop n s @ q"
  by (auto simp: min_def split: if_splits)

lemma parse_scalar_append:
  assumes "parse_scalar s = Some (v, r)" "r \<noteq> [] \<or> \<not> is_num v"
  shows "parse_scalar (s @ q) = Some (v, r @ q)"
proof -
  consider (t) "take 4 s = ''true''" "v = JBool True" "r = drop 4 s"
    | (f) "take 5 s = ''false''" "v = JBool False" "r = drop 5 s"
    | (n) "take 4 s = ''null''" "v = JNull" "r = drop 4 s"
    | (num) l where "scan_number s = Some (l, r)" "v = JNum l"
    using assms(1) by (auto simp: parse_scalar_def split: if_splits)
  then show ?thesis
  proof cases
    case t
    then show ?thesis using take_lit [OF t(1), of q] by (simp add: parse_scalar_def)
  next
    case f
    then have "take 4 (s @ q) \<noteq> ''true''" by (cases s) auto
    with f show ?thesis using take_lit [OF f(1), of q] by (simp add: parse_scalar_def)
  next
    case n
    then have "take 4 (s @ q) \<noteq> ''true''" "take 5 (s @ q) \<noteq> ''false''" by (cases s; auto)+
    with n show ?thesis using take_lit [OF n(1), of q] by (simp add: parse_scalar_def)
  next
    case num
    then have h: "s \<noteq> []" "hd s = CHR ''-'' \<or> is_digit (hd s)" using scan_number_hd by blast+
    then have "take 4 (s @ q) \<noteq> ''true''" "take 5 (s @ q) \<noteq> ''false''" "take 4 (s @ q) \<noteq> ''null''"
      by (cases s; auto)+
    with num assms(2) show ?thesis using scan_number_append [OF num(1)]
      by (simp add: parse_scalar_def is_num_def)
  qed
qed

lemma parse_members_nonempty: "parse_members d n s = Some x \<Longrightarrow> s \<noteq> []"
  by (cases n) auto

lemma parse_elements_nonempty: "parse_elements d n s = Some x \<Longrightarrow> s \<noteq> []"
proof (cases n)
  case (Suc k)
  assume "parse_elements d n s = Some x"
  with Suc show ?thesis by (cases k) auto
qed simp

text \<open>The ways a value, the members of an object and the elements of an array parse.\<close>

lemma parse_value_SucE:
  assumes "parse_value d (Suc n) s = Some (v, r)"
  obtains (str) w where "s \<noteq> []" "hd s = CHR 0x22" "unquote (tl s) = Some (w, r)" "v = JStr w"
    | (obj0) "s \<noteq> []" "hd s = CHR 0x7B" "d \<noteq> 0" "starts (CHR 0x7D) (skip_ws (tl s))" "v = JObj []"
        "r = tl (skip_ws (tl s))"
    | (obj) ms where "s \<noteq> []" "hd s = CHR 0x7B" "d \<noteq> 0" "\<not> starts (CHR 0x7D) (skip_ws (tl s))"
        "parse_members (d - 1) n (skip_ws (tl s)) = Some (ms, r)" "v = JObj ms"
    | (arr0) "s \<noteq> []" "hd s = CHR 0x5B" "d \<noteq> 0" "starts (CHR 0x5D) (skip_ws (tl s))" "v = JArr []"
        "r = tl (skip_ws (tl s))"
    | (arr) vs where "s \<noteq> []" "hd s = CHR 0x5B" "d \<noteq> 0" "\<not> starts (CHR 0x5D) (skip_ws (tl s))"
        "parse_elements (d - 1) n (skip_ws (tl s)) = Some (vs, r)" "v = JArr vs"
    | (scalar) "s \<noteq> []" "hd s \<noteq> CHR 0x22" "hd s \<noteq> CHR 0x7B" "hd s \<noteq> CHR 0x5B" "parse_scalar s = Some (v, r)"
  using assms by (auto split: if_splits)

lemma parse_members_SucE:
  assumes "parse_members d (Suc n) s = Some (ms, r)"
  obtains (last) k t v u where "s \<noteq> []" "hd s = CHR 0x22" "unquote (tl s) = Some (k, t)"
      "starts (CHR '':'') (skip_ws t)" "parse_value d n (skip_ws (tl (skip_ws t))) = Some (v, u)"
      "starts (CHR 0x7D) (skip_ws u)" "ms = [(k, v)]" "r = tl (skip_ws u)"
    | (more) k t v u ms' where "s \<noteq> []" "hd s = CHR 0x22" "unquote (tl s) = Some (k, t)"
      "starts (CHR '':'') (skip_ws t)" "parse_value d n (skip_ws (tl (skip_ws t))) = Some (v, u)"
      "\<not> starts (CHR 0x7D) (skip_ws u)" "starts (CHR '','') (skip_ws u)"
      "parse_members d n (skip_ws (tl (skip_ws u))) = Some (ms', r)" "ms = (k, v) # ms'"
  using assms by (auto split: if_splits option.splits)

lemma parse_elements_SucE:
  assumes "parse_elements d (Suc n) s = Some (vs, r)"
  obtains (last) v u where "parse_value d n s = Some (v, u)"
      "starts (CHR 0x5D) (skip_ws u)" "vs = [v]" "r = tl (skip_ws u)"
    | (more) v u vs' where "parse_value d n s = Some (v, u)"
      "\<not> starts (CHR 0x5D) (skip_ws u)" "starts (CHR '','') (skip_ws u)"
      "parse_elements d n (skip_ws (tl (skip_ws u))) = Some (vs', r)" "vs = v # vs'"
  using assms by (auto split: if_splits option.splits)

lemma skip_nonempty: "starts c (skip_ws u) \<Longrightarrow> u \<noteq> [] \<and> skip_ws u \<noteq> [] \<and> skip_ws (u @ q) = skip_ws u @ q"
  by (auto simp: skip_ws_append starts_def) (auto simp: skip_ws_def)

lemma parse_value_nonempty: "parse_value d n s = Some x \<Longrightarrow> s \<noteq> []"
  by (cases n) auto

lemma parse_append:
  "parse_value d n s = Some (v, r) \<Longrightarrow> r \<noteq> [] \<or> \<not> is_num v \<Longrightarrow> n \<le> m \<Longrightarrow>
     parse_value d m (s @ q) = Some (v, r @ q)"
  "parse_members d n s = Some (ms, r) \<Longrightarrow> n \<le> m \<Longrightarrow> parse_members d m (s @ q) = Some (ms, r @ q)"
  "parse_elements d n s = Some (vs, r) \<Longrightarrow> n \<le> m \<Longrightarrow> parse_elements d m (s @ q) = Some (vs, r @ q)"
proof (induction n arbitrary: d s v r m ms vs)
  case (Suc n)
  note val = Suc.IH(1) and mem = Suc.IH(2) and elm = Suc.IH(3)
  { case 1
    then obtain m' where m: "m = Suc m'" "n \<le> m'" by (cases m) auto
    from 1(1) show ?case
    proof (cases rule: parse_value_SucE)
      case (obj ms)
      then show ?thesis using m mem [OF obj(5) m(2)] parse_members_nonempty [OF obj(5)]
        by (simp add: skip_ws_append)
    next
      case (arr vs)
      then show ?thesis using m elm [OF arr(5) m(2)] parse_elements_nonempty [OF arr(5)]
        by (simp add: skip_ws_append)
    qed (use m 1(2) in \<open>simp_all add: unquote_append skip_nonempty parse_scalar_append\<close>)
  next
    case 2
    then obtain m' where m: "m = Suc m'" "n \<le> m'" by (cases m) auto
    from 2(1) show ?case
    proof (cases rule: parse_members_SucE)
      case (last k t v u)
      then show ?thesis
        using m val [OF last(5) _ m(2)] skip_nonempty [OF last(4)] skip_nonempty [OF last(6)]
          parse_value_nonempty [OF last(5)] unquote_append [OF last(3)]
        by (simp add: skip_ws_append)
    next
      case (more k t v u ms')
      then show ?thesis
        using m val [OF more(5) _ m(2)] mem [OF more(8) m(2)] skip_nonempty [OF more(4)] skip_nonempty [OF more(7)]
          parse_value_nonempty [OF more(5)] parse_members_nonempty [OF more(8)] unquote_append [OF more(3)]
        by (simp add: skip_ws_append)
    qed
  next
    case 3
    then obtain m' where m: "m = Suc m'" "n \<le> m'" by (cases m) auto
    from 3(1) show ?case
    proof (cases rule: parse_elements_SucE)
      case (last v u)
      then show ?thesis using m val [OF last(1) _ m(2)] skip_nonempty [OF last(2)] by simp
    next
      case (more v u vs')
      then show ?thesis
        using m val [OF more(1) _ m(2)] elm [OF more(4) m(2)] skip_nonempty [OF more(3)]
          parse_elements_nonempty [OF more(4)]
        by (simp add: skip_ws_append)
    qed }
qed simp_all

section \<open>The fuel is enough\<close>

lemma unquote_length: "unquote s = Some (v, t) \<Longrightarrow> length t < length s"
proof (induction s arbitrary: v t rule: unquote.induct)
  case (1 s)
  have ne: "s \<noteq> []" using "1.prems" by auto
  have len: "length (tl s) < length s" "length (drop (rune_len s) s) \<le> length s" using ne by simp_all
  consider (quote) "hd s = CHR 0x22" "t = tl s"
    | (esc) w u x where "hd s \<noteq> CHR 0x22" "hd s = CHR 0x5C" "unescape (tl s) = Some (w, u)" "unquote u = Some (x, t)"
    | (invalid) x where "hd s \<noteq> CHR 0x22" "hd s \<noteq> CHR 0x5C" "\<not> byte (hd s) < 0x20" "rune_len s = 0" "unquote (tl s) = Some (x, t)"
    | (rune) x where "hd s \<noteq> CHR 0x22" "hd s \<noteq> CHR 0x5C" "\<not> byte (hd s) < 0x20" "rune_len s \<noteq> 0"
        "unquote (drop (rune_len s) s) = Some (x, t)"
    using "1.prems" ne
    by (subst (asm) unquote.simps) (auto simp: cons_value_def split: if_splits option.splits)
  then show ?case
  proof cases
    case esc
    then show ?thesis using "1.IH"(1) [OF ne esc(1,2,3) refl esc(4)] unescape_length [OF esc(3)] len by simp
  next
    case invalid
    then show ?thesis using "1.IH"(2) [OF ne invalid] len by simp
  next
    case rune
    then show ?thesis using "1.IH"(3) [OF ne rune] len by simp
  qed (use len in simp)
qed

lemma scan_number_length: "scan_number s = Some (l, r) \<Longrightarrow> length r < length s"
proof -
  have i: "scan_int u = Some (a, w) \<Longrightarrow> length w < length u" for u a w
    by (cases u) (auto simp: scan_int_def length_dropWhile_le le_imp_less_Suc split: if_splits)
  have f: "scan_frac u = Some (a, w) \<Longrightarrow> length w \<le> length u" for u a w
    by (cases u) (auto simp: scan_frac_def length_dropWhile_le le_SucI split: if_splits)
  have dl: "length (dropWhile is_digit (drop k (tl u))) \<le> length u" for k u
    by (rule order_trans [OF length_dropWhile_le]) simp
  have e: "scan_exp u = Some (a, w) \<Longrightarrow> length w \<le> length u" for u a w
    using dl [of 0 u] dl [of 1 u] by (auto simp: scan_exp_def Let_def drop_Suc split: if_splits)
  assume "scan_number s = Some (l, r)"
  then obtain k a s1 b s2 c where "scan_int (drop k s) = Some (a, s1)" "scan_frac s1 = Some (b, s2)"
      "scan_exp s2 = Some (c, r)"
    by (auto simp: scan_number_def Let_def split: option.splits)
  then show ?thesis using i [of "drop k s" a s1] f [of s1 b s2] e [of s2 c r] by simp
qed

lemma parse_scalar_length: "parse_scalar s = Some (v, r) \<Longrightarrow> length r < length s"
  by (cases s) (auto simp: parse_scalar_def scan_number_length split: if_splits dest!: scan_number_length)

lemma tl_skip_length: "s \<noteq> [] \<Longrightarrow> length (skip_ws (tl s)) < length s"
  using skip_ws_length [of "tl s"] by (cases s) auto

lemma starts_tl_length: "starts c (skip_ws s) \<Longrightarrow> length (tl (skip_ws s)) < length s"
  using skip_ws_length [of s] by (cases "skip_ws s") (auto simp: starts_def)

lemma parse_length:
  "parse_value d n s = Some (v, r) \<Longrightarrow> length r < length s"
  "parse_members d n s = Some (ms, r) \<Longrightarrow> length r < length s"
  "parse_elements d n s = Some (vs, r) \<Longrightarrow> length r < length s"
proof (induction n arbitrary: d s v r ms vs)
  case (Suc n)
  note val = Suc.IH(1) and mem = Suc.IH(2) and elm = Suc.IH(3)
  { case 1
    then show ?case
    proof (cases rule: parse_value_SucE)
      case str
      then show ?thesis using unquote_length [OF str(3)] by simp
    next
      case obj0
      then show ?thesis using starts_tl_length [OF obj0(4)] by simp
    next
      case (obj ms)
      then show ?thesis using mem [OF obj(5)] tl_skip_length [OF obj(1)] by simp
    next
      case arr0
      then show ?thesis using starts_tl_length [OF arr0(4)] by simp
    next
      case (arr vs)
      then show ?thesis using elm [OF arr(5)] tl_skip_length [OF arr(1)] by simp
    qed (use parse_scalar_length in simp)
  next
    case 2
    then show ?case
    proof (cases rule: parse_members_SucE)
      case (last k t v u)
      then show ?thesis
        using val [OF last(5)] unquote_length [OF last(3)] starts_tl_length [OF last(4)]
          starts_tl_length [OF last(6)] skip_ws_length [of "tl (skip_ws t)"] by simp
    next
      case (more k t v u ms')
      then show ?thesis
        using val [OF more(5)] unquote_length [OF more(3)] starts_tl_length [OF more(4)]
          starts_tl_length [OF more(7)] skip_ws_length [of "tl (skip_ws t)"]
          skip_ws_length [of "tl (skip_ws u)"] mem [OF more(8)] by simp
    qed
  next
    case 3
    then show ?case
    proof (cases rule: parse_elements_SucE)
      case (last v u)
      then show ?thesis using val [OF last(1)] starts_tl_length [OF last(2)] by simp
    next
      case (more v u vs')
      then show ?thesis
        using val [OF more(1)] starts_tl_length [OF more(3)] skip_ws_length [of "tl (skip_ws u)"]
          elm [OF more(4)] by simp
    qed }
qed simp_all

text \<open>More fuel than \<open>2 * length s\<close> changes nothing: the parser never fails for lack of fuel.\<close>

lemma parse_fuel:
  "2 * length s < n \<Longrightarrow> n \<le> m \<Longrightarrow> parse_value d m s = parse_value d n s"
  "2 * length s < n \<Longrightarrow> n \<le> m \<Longrightarrow> parse_members d m s = parse_members d n s"
  "2 * length s + 1 < n \<Longrightarrow> n \<le> m \<Longrightarrow> parse_elements d m s = parse_elements d n s"
proof (induction n arbitrary: d s m)
  case (Suc n)
  note val = Suc.IH(1) and mem = Suc.IH(2) and elm = Suc.IH(3)
  { case 1
    then obtain m' where m: "m = Suc m'" "n \<le> m'" by (cases m) auto
    show ?case
    proof (cases "s = []")
      case False
      with 1(1) have "2 * length (skip_ws (tl s)) + 1 < n" using tl_skip_length [OF False] by simp
      then show ?thesis using m mem [of "skip_ws (tl s)" m' "d - 1"] elm [of "skip_ws (tl s)" m' "d - 1"] by simp
    qed (use m in simp)
  next
    case 2
    then obtain m' where m: "m = Suc m'" "n \<le> m'" by (cases m) auto
    show ?case
    proof (cases "s = [] \<or> hd s \<noteq> CHR 0x22 \<or> unquote (tl s) = None")
      case False
      then obtain k t where t: "unquote (tl s) = Some (k, t)" "s \<noteq> []" by auto
      have len: "length t < length s" using unquote_length [OF t(1)] by simp
      let ?x = "skip_ws (tl (skip_ws t))"
      have x: "length ?x \<le> length t" using skip_ws_length [of "tl (skip_ws t)"] skip_ws_length [of t] by simp
      then have v: "parse_value d m' ?x = parse_value d n ?x" using val [of ?x m' d] m 2(1) len by simp
      have w: "parse_members d m' (skip_ws (tl (skip_ws u))) = parse_members d n (skip_ws (tl (skip_ws u)))"
        if "parse_value d n ?x = Some (a, u)" for a u
        using mem [of "skip_ws (tl (skip_ws u))" m' d] m 2(1) len x parse_length(1) [OF that]
          skip_ws_length [of "tl (skip_ws u)"] skip_ws_length [of u] by simp
      show ?thesis
      proof (cases "parse_value d n ?x")
        case None
        then show ?thesis using m t v by simp
      next
        case (Some p)
        then show ?thesis using m t v w [of "fst p" "snd p"] by (cases p) simp
      qed
    qed (use m in auto)
  next
    case 3
    then obtain m' where m: "m = Suc m'" "n \<le> m'" by (cases m) auto
    have v: "parse_value d m' s = parse_value d n s" using val [of s m' d] m 3(1) by simp
    have w: "parse_elements d m' (skip_ws (tl (skip_ws u))) = parse_elements d n (skip_ws (tl (skip_ws u)))"
      if "parse_value d n s = Some (a, u)" "starts c (skip_ws u)" for a u c
      using elm [of "skip_ws (tl (skip_ws u))" m' d] m 3(1) parse_length(1) [OF that(1)]
        skip_ws_length [of "tl (skip_ws u)"] starts_tl_length [OF that(2)] by simp
    show ?case
    proof (cases "parse_value d n s")
      case None
      then show ?thesis using m v by simp
    next
      case (Some p)
      then show ?thesis using m v w [of "fst p" "snd p"] by (cases p) auto
    qed
  }
qed simp_all

lemma parse_value_fuel: "2 * length s < n \<Longrightarrow> parse_value d n s = parse_value d (Suc (2 * length s)) s"
  by (rule parse_fuel(1)) simp_all

section \<open>Writing an object\<close>

text \<open>The encoder of a struct: the members in the order of the fields, without white space.\<close>

fun members_text :: "(string \<times> string) list \<Rightarrow> string" where
  "members_text [] = []"
| "members_text [(k, t)] = json_quote k @ CHR '':'' # t"
| "members_text ((k, t) # m # ms) = json_quote k @ CHR '':'' # t @ CHR '','' # members_text (m # ms)"

definition json_object :: "(string \<times> string) list \<Rightarrow> string" where
  "json_object ms = CHR 0x7B # members_text ms @ [CHR 0x7D]"

text \<open>\<open>writes t v\<close>: the text \<open>t\<close>, inside an object, is read as the value \<open>v\<close>.\<close>

definition writes :: "string \<Rightarrow> json \<Rightarrow> bool" where
  "writes t v \<longleftrightarrow> t \<noteq> [] \<and> \<not> is_space (hd t) \<and>
     (\<forall>d n q. starts (CHR '','') q \<or> starts (CHR 0x7D) q \<longrightarrow> parse_value d (Suc n) (t @ q) = Some (v, q))"

lemma skip_ws_id: "t \<noteq> [] \<Longrightarrow> \<not> is_space (hd t) \<Longrightarrow> skip_ws (t @ q) = t @ q"
  by (cases t) (simp_all add: skip_ws_def)

lemma is_space_simps [simp]:
  "\<not> is_space (CHR 0x22)" "\<not> is_space (CHR 0x7B)" "\<not> is_space (CHR 0x7D)" "\<not> is_space (CHR '','')"
  "\<not> is_space (CHR '':'')" "\<not> is_space (CHR ''-'')"
  by (simp_all add: is_space_def)

lemma skip_ws_Cons [simp]: "\<not> is_space c \<Longrightarrow> skip_ws (c # s) = c # s"
  by (simp add: skip_ws_def)

lemma skip_ws_Nil [simp]: "skip_ws [] = []"
  by (simp add: skip_ws_def)

lemma starts_Cons [simp]: "starts c (x # s) \<longleftrightarrow> x = c"
  by (auto simp: starts_def)

lemma writes_string: "writes (json_quote s) (JStr (to_valid s))"
  by (simp add: writes_def json_quote_def unquote_quote_bytes)

lemma digit_not_special:
  assumes "is_digit c"
  shows "\<not> is_space c" "c \<noteq> CHR 0x22" "c \<noteq> CHR 0x7B" "c \<noteq> CHR 0x5B" "c \<noteq> CHR ''t''" "c \<noteq> CHR ''f''"
    "c \<noteq> CHR ''n''" "c \<noteq> CHR ''-''"
  using assms by (auto simp: is_space_def is_digit_def)

lemma dec_of_nat_no_zero: "n \<noteq> 0 \<Longrightarrow> hd (dec_of_nat n) \<noteq> CHR ''0''"
proof (induction n rule: dec_of_nat.induct)
  case (1 n)
  show ?case
  proof (cases "n < 10")
    case True
    have "digit_char n \<noteq> CHR ''0''" using True 1(2) by (metis digit_val_char zero_digit(2))
    with True show ?thesis by (subst dec_of_nat.simps) simp
  next
    case False
    with 1 show ?thesis by (subst dec_of_nat.simps) simp
  qed
qed

lemma scan_int_dec:
  assumes "starts (CHR '','') q \<or> starts (CHR 0x7D) q"
  shows "scan_int (dec_of_nat n @ q) = Some (dec_of_nat n, q)"
proof -
  let ?s = "dec_of_nat n"
  have d: "\<forall>c \<in> set ?s. is_digit c" using dec_of_nat_digits by (simp add: list_all_iff)
  then have h: "is_digit (hd ?s)" by simp
  have q: "takeWhile is_digit q = []" "dropWhile is_digit q = q"
    using assms by (cases q; auto simp: starts_def)+
  show ?thesis
  proof (cases "n = 0")
    case True
    moreover have "dec_of_nat 0 = [CHR ''0'']" by code_simp
    ultimately have "?s = [CHR ''0'']" by simp
    then show ?thesis by (simp add: scan_int_def)
  next
    case False
    then show ?thesis using d h q dec_of_nat_no_zero [OF False] by (simp add: scan_int_def)
  qed
qed

lemma scan_number_dec:
  assumes "starts (CHR '','') q \<or> starts (CHR 0x7D) q"
  shows "scan_number (dec_of_nat n @ q) = Some (dec_of_nat n, q)"
    "scan_number (CHR ''-'' # dec_of_nat n @ q) = Some (CHR ''-'' # dec_of_nat n, q)"
proof -
  have "is_digit (hd (dec_of_nat n))" using dec_of_nat_digits [of n] by (simp add: list_all_iff)
  then have hd: "hd (dec_of_nat n) \<noteq> CHR ''-''" by auto
  have "scan_frac q = Some ([], q)" "scan_exp q = Some ([], q)"
    using assms by (auto simp: scan_frac_def scan_exp_def starts_def)
  then show "scan_number (dec_of_nat n @ q) = Some (dec_of_nat n, q)"
    "scan_number (CHR ''-'' # dec_of_nat n @ q) = Some (CHR ''-'' # dec_of_nat n, q)"
    using hd scan_int_dec [OF assms, of n] by (simp_all add: scan_number_def)
qed

lemma writes_number:
  assumes "\<And>q. starts (CHR '','') q \<or> starts (CHR 0x7D) q \<Longrightarrow> scan_number (t @ q) = Some (t, q)"
    and "t \<noteq> []" "is_digit (hd t) \<or> hd t = CHR ''-''"
  shows "writes t (JNum t)"
proof -
  obtain c u where t: "t = c # u" using assms(2) by (cases t) auto
  then have c: "\<not> is_space c" "c \<noteq> CHR 0x22" "c \<noteq> CHR 0x7B" "c \<noteq> CHR 0x5B" "c \<noteq> CHR ''t''" "c \<noteq> CHR ''f''"
      "c \<noteq> CHR ''n''"
    using assms(3) digit_not_special by auto
  with t assms(1) show ?thesis by (simp add: writes_def parse_scalar_def)
qed

text \<open>\<open>strconv.AppendInt\<close>.\<close>

definition dec_of_int :: "int \<Rightarrow> string" where
  "dec_of_int i = (if i < 0 then CHR ''-'' # dec_of_nat (nat (- i)) else dec_of_nat (nat i))"

lemma writes_nat: "writes (dec_of_nat n) (JNum (dec_of_nat n))"
  using scan_number_dec(1) dec_of_nat_digits [of n]
  by (intro writes_number) (auto simp: list_all_iff)

lemma writes_int: "writes (dec_of_int i) (JNum (dec_of_int i))"
proof (cases "i < 0")
  case True
  then show ?thesis using scan_number_dec(2)
    by (intro writes_number) (auto simp: dec_of_int_def)
qed (simp add: dec_of_int_def writes_nat)

lemma parse_members_text:
  assumes "ms \<noteq> []" "\<forall>m \<in> set ms. writes (fst (snd m)) (snd (snd m))" "length ms \<le> n"
  shows "parse_members d (Suc n) (members_text (map (\<lambda>(k, t, v). (k, t)) ms) @ CHR 0x7D # q) =
    Some (map (\<lambda>(k, t, v). (to_valid k, v)) ms, q)"
  using assms
proof (induction ms arbitrary: n)
  case (Cons m ms)
  obtain k t v where m: "m = (k, t, v)" by (cases m)
  obtain n' where n: "n = Suc n'" "length ms \<le> n'" using Cons.prems(3) by (cases n) auto
  have w: "t \<noteq> []" "\<not> is_space (hd t)" "starts (CHR '','') z \<or> starts (CHR 0x7D) z \<Longrightarrow>
      parse_value d (Suc i) (t @ z) = Some (v, z)" for i z
  proof -
    have "writes t v" using Cons.prems(2) m by simp
    then show "t \<noteq> []" "\<not> is_space (hd t)" "starts (CHR '','') z \<or> starts (CHR 0x7D) z \<Longrightarrow>
        parse_value d (Suc i) (t @ z) = Some (v, z)"
      unfolding writes_def by blast+
  qed
  show ?case
  proof (cases ms)
    case Nil
    then show ?thesis using m n w
      by (simp add: json_quote_def unquote_quote_bytes skip_ws_id del: parse_value.simps)
  next
    case (Cons m2 ms2)
    have IH: "parse_members d (Suc n') (members_text (map (\<lambda>(k, t, v). (k, t)) ms) @ CHR 0x7D # q) =
        Some (map (\<lambda>(k, t, v). (to_valid k, v)) ms, q)"
      using Cons.IH [of n'] Cons.prems n Cons by simp
    have sk: "skip_ws (members_text (map (\<lambda>(k, t, v). (k, t)) ms) @ z) =
        members_text (map (\<lambda>(k, t, v). (k, t)) ms) @ z" for z
      using Cons by (cases m2; cases ms2) (auto simp: json_quote_def)
    show ?thesis using m n w IH sk Cons
      by (cases m2) (simp add: json_quote_def unquote_quote_bytes skip_ws_id
          parse_members.simps(2) [of d "Suc n'"] del: parse_value.simps parse_members.simps(2))
  qed
qed simp

lemma length_members_text: "length ms \<le> length (members_text ms)"
  by (induction ms rule: members_text.induct) (auto simp: json_quote_def)

theorem parse_json_object:
  assumes "ms \<noteq> []" "\<forall>m \<in> set ms. writes (fst (snd m)) (snd (snd m))"
  shows "length ms \<le> n \<Longrightarrow>
      parse_value (Suc d) (Suc (Suc n)) (json_object (map (\<lambda>(k, t, v). (k, t)) ms) @ q) =
        Some (JObj (map (\<lambda>(k, t, v). (to_valid k, v)) ms), q)"
    and "parse_json (json_object (map (\<lambda>(k, t, v). (k, t)) ms)) =
      Some (JObj (map (\<lambda>(k, t, v). (to_valid k, v)) ms))"
proof -
  let ?m = "map (\<lambda>(k, t, v). (k, t)) ms"
  have hd: "skip_ws (members_text ?m @ z) = members_text ?m @ z" "\<not> starts (CHR 0x7D) (members_text ?m @ z)" for z
    using assms(1) by (cases ms; cases "tl ms"; auto simp: json_quote_def split: prod.splits)+
  have p: "parse_value (Suc d) (Suc (Suc n)) (json_object ?m @ z) =
      Some (JObj (map (\<lambda>(k, t, v). (to_valid k, v)) ms), z)" if "length ms \<le> n" for d n z
    using parse_members_text [OF assms that, of d z] hd
    by (simp add: json_object_def del: parse_members.simps(2))
  show "length ms \<le> n \<Longrightarrow> parse_value (Suc d) (Suc (Suc n)) (json_object ?m @ q) =
      Some (JObj (map (\<lambda>(k, t, v). (to_valid k, v)) ms), q)" by (rule p)
  have s: "skip_ws (json_object ?m) = json_object ?m" by (simp add: json_object_def)
  obtain n where n: "2 * length (json_object ?m) = Suc n" "length ms \<le> n"
    using length_members_text [of ?m] by (auto simp: json_object_def)
  show "parse_json (json_object ?m) = Some (JObj (map (\<lambda>(k, t, v). (to_valid k, v)) ms))"
    using p [OF n(2), of 9999 "[]"] n(1) s by (simp add: parse_json_def maxNestingDepth_def)
qed

text \<open>No proper prefix of an object parses: the decoder tells a torn write from a complete one.\<close>

theorem parse_json_prefix:
  assumes "ms \<noteq> []" "\<forall>m \<in> set ms. writes (fst (snd m)) (snd (snd m))"
    and "json_object (map (\<lambda>(k, t, v). (k, t)) ms) = p @ q" "q \<noteq> []"
  shows "parse_json p = None"
proof (rule ccontr)
  let ?m = "map (\<lambda>(k, t, v). (k, t)) ms"
  assume "parse_json p \<noteq> None"
  then obtain v t where v: "parse_value maxNestingDepth (Suc (2 * length (skip_ws p))) (skip_ws p) = Some (v, t)"
    by (auto simp: parse_json_def split: option.splits)
  have "p \<noteq> []" using v by auto
  then have p: "hd p = CHR 0x7B" "skip_ws p = p"
    using assms(3) by (cases p; simp add: json_object_def)+
  have "\<not> is_num v" using v p \<open>p \<noteq> []\<close> by (auto simp: is_num_def split: if_splits)
  then have "parse_value maxNestingDepth (Suc (Suc (2 * length p + length ms))) (p @ q) = Some (v, t @ q)"
    using parse_append(1) [OF v] p by (simp del: parse_value.simps)
  moreover have "parse_value maxNestingDepth (Suc (Suc (2 * length p + length ms))) (p @ q) =
      Some (JObj (map (\<lambda>(k, t, v). (to_valid k, v)) ms), [])"
    using parse_json_object(1) [OF assms(1,2), of _ 9999 "[]"] assms(3)
    by (simp add: maxNestingDepth_def del: parse_value.simps)
  ultimately show False using assms(4) by simp
qed

section \<open>Valid strings\<close>

lemma rune_len_Nil [simp]: "rune_len [] = 0"
  by (simp add: rune_len_def)

lemma valid_utf8_Nil [simp]: "valid_utf8 []"
  by (simp add: valid_utf8.simps)

lemma valid_utf8_rune: "rune_len s \<noteq> 0 \<Longrightarrow> valid_utf8 s = valid_utf8 (drop (rune_len s) s)"
  by (subst valid_utf8.simps) auto

lemma valid_utf8_append: "valid_utf8 s \<Longrightarrow> valid_utf8 t \<Longrightarrow> valid_utf8 (s @ t)"
proof (induction s rule: valid_utf8.induct)
  case (1 s)
  show ?case
  proof (cases "s = []")
    case False
    then have r: "rune_len s \<noteq> 0" "valid_utf8 (drop (rune_len s) s)"
      using "1.prems"(1) by (simp_all add: valid_utf8.simps [of s] split: if_splits)
    then show ?thesis
      using "1.IH" [OF False r] "1.prems"(2) valid_utf8_rune [of "s @ t"]
      by (simp add: rune_len_append rune_len_le)
  qed (use "1.prems" in simp)
qed

lemma valid_utf8_one: "rune_len s = length s \<Longrightarrow> valid_utf8 s"
  by (subst valid_utf8.simps) auto

lemma valid_take_rune: "valid_utf8 (take (rune_len s) s)"
proof (cases "rune_len s = 0")
  case False
  then show ?thesis using rune_len_take [OF False, of "[]"] rune_len_le [of s] by (intro valid_utf8_one) simp
qed simp

lemma valid_replacement: "valid_utf8 replacement"
  by (rule valid_utf8_one) (simp add: replacement_def rune_len_def rune_size_def second_ok_def between_def)

lemma valid_to_valid: "valid_utf8 (to_valid s)"
proof (induction s rule: to_valid.induct)
  case (1 s)
  then show ?case
    by (subst to_valid.simps) (simp add: valid_utf8_append valid_replacement valid_take_rune)
qed

lemma to_valid_id: "valid_utf8 s \<Longrightarrow> to_valid s = s"
proof (induction s rule: to_valid.induct)
  case (1 s)
  then show ?case by (subst to_valid.simps) (simp add: valid_utf8.simps [of s] split: if_splits)
qed

lemma valid_ascii: "\<forall>c \<in> set s. byte c < 0x80 \<Longrightarrow> valid_utf8 s"
proof (induction s)
  case (Cons c s)
  then show ?case using valid_utf8_rune [of "c # s"] rune_len_ascii [of "c # s"] by simp
qed simp

lemma byte_char_of: "n < 256 \<Longrightarrow> byte (char_of n) = n"
  by simp

lemma valid_two:
  fixes a b :: nat
  assumes "2 \<le> a" "a < 32" "b < 64"
  shows "valid_utf8 [char_of (0xC0 + a), char_of (0x80 + b)]"
proof -
  have "byte (char_of (0xC0 + a)) = 0xC0 + a" "byte (char_of (0x80 + b)) = 0x80 + b" using assms by simp_all
  then show ?thesis using assms
    by (intro valid_utf8_one) (simp add: rune_len_def rune_size_def second_ok_def between_def del: of_char_of)
qed

lemma valid_three:
  assumes "byte x = 0xE0 + a" "byte y = 0x80 + b" "byte z = 0x80 + c"
    and "a < 16" "b < 64" "c < 64" "a = 0 \<longrightarrow> 32 \<le> b" "a = 13 \<longrightarrow> b < 32"
  shows "valid_utf8 [x, y, z]"
  using assms
  by (intro valid_utf8_one) (auto simp: rune_len_def rune_size_def second_ok_def between_def)

lemma valid_four:
  assumes "byte x = 0xF0 + a" "byte y = 0x80 + b" "byte z = 0x80 + c" "byte w = 0x80 + e"
    and "a < 5" "b < 64" "c < 64" "e < 64" "a = 0 \<longrightarrow> 16 \<le> b" "a = 4 \<longrightarrow> b < 16"
  shows "valid_utf8 [x, y, z, w]"
  using assms
  by (intro valid_utf8_one) (auto simp: rune_len_def rune_size_def second_ok_def between_def)

text \<open>A number in base 64.\<close>

lemma base64:
  fixes r :: nat
  shows "64 * (r div 64) \<le> r" "r < 64 * (r div 64) + 64"
    "r div 64 = 64 * (r div 4096) + r div 64 mod 64"
    "r div 4096 = 64 * (r div 262144) + r div 4096 mod 64"
proof -
  have "r div 64 div 64 = r div 4096" "r div 4096 div 64 = r div 262144" by (simp_all flip: div_mult2_eq)
  then show "r div 64 = 64 * (r div 4096) + r div 64 mod 64"
    "r div 4096 = 64 * (r div 262144) + r div 4096 mod 64" by (metis mult_div_mod_eq)+
qed (simp_all add: dividend_less_div_times)

lemma valid_encode_rune: "valid_utf8 (encode_rune r)"
proof -
  have m: "r mod 64 < 64" "r div 64 mod 64 < 64" "r div 4096 mod 64 < 64" by simp_all
  consider (one) "r < 0x80" | (two) "0x80 \<le> r" "r < 0x800"
    | (bad) "0x800 \<le> r" "0xD800 \<le> r \<and> r < 0xE000 \<or> 0x10FFFF < r"
    | (three) "0x800 \<le> r" "\<not> (0xD800 \<le> r \<and> r < 0xE000)" "r < 0x10000"
    | (four) "0x10000 \<le> r" "r \<le> 0x10FFFF"
    by linarith
  then show ?thesis
  proof cases
    case one
    then show ?thesis by (intro valid_ascii) (simp add: encode_rune_def)
  next
    case two
    then have "2 \<le> r div 64" "r div 64 < 32" by simp_all
    then show ?thesis using two m valid_two by (simp add: encode_rune_def)
  next
    case bad
    then show ?thesis using valid_replacement by (auto simp: encode_rune_def)
  next
    case three
    have "r div 4096 < 16" "r div 4096 = 0 \<longrightarrow> 32 \<le> r div 64 mod 64" "r div 4096 = 13 \<longrightarrow> r div 64 mod 64 < 32"
      using three base64 [of r] m by linarith+
    then have "valid_utf8 [char_of (0xE0 + r div 4096), char_of (0x80 + r div 64 mod 64), char_of (0x80 + r mod 64)]"
      using m by (intro valid_three [of _ "r div 4096" _ "r div 64 mod 64" _ "r mod 64"]) simp_all
    then show ?thesis using three by (auto simp: encode_rune_def)
  next
    case four
    have "r div 262144 < 5" "r div 262144 = 0 \<longrightarrow> 16 \<le> r div 4096 mod 64"
      "r div 262144 = 4 \<longrightarrow> r div 4096 mod 64 < 16"
      using four base64 [of r] m by linarith+
    then have "valid_utf8 [char_of (0xF0 + r div 262144), char_of (0x80 + r div 4096 mod 64),
        char_of (0x80 + r div 64 mod 64), char_of (0x80 + r mod 64)]"
      using m by (intro valid_four [of _ "r div 262144" _ "r div 4096 mod 64" _ "r div 64 mod 64" _ "r mod 64"])
        simp_all
    then show ?thesis using four by (simp add: encode_rune_def)
  qed
qed

lemma valid_utf8_ascii1 [simp]: "byte c < 0x80 \<Longrightarrow> valid_utf8 [c]"
  by (rule valid_ascii) simp

lemma valid_unescape:
  assumes "unescape s = Some (v, t)"
  shows "valid_utf8 v"
proof -
  have d: "valid_utf8 (fst (decode_surrogate r u))" for r u
    by (auto simp: decode_surrogate_def valid_encode_rune valid_replacement split: list.splits option.splits)
  obtain e u where s: "s = e # u" using assms by (cases s) (auto simp: unescape_def)
  show ?thesis
    using assms d valid_encode_rune
    by (auto simp: unescape_def s split: if_splits option.splits) (metis d fst_conv)
qed

text \<open>Every string the decoder returns is valid UTF-8.\<close>

lemma valid_unquote: "unquote s = Some (v, t) \<Longrightarrow> valid_utf8 v"
proof (induction s arbitrary: v t rule: unquote.induct)
  case (1 s)
  have ne: "s \<noteq> []" using "1.prems" by auto
  consider (quote) "v = []"
    | (esc) w u x where "hd s \<noteq> CHR 0x22" "hd s = CHR 0x5C" "unescape (tl s) = Some (w, u)" "unquote u = Some (x, t)" "v = w @ x"
    | (invalid) x where "hd s \<noteq> CHR 0x22" "hd s \<noteq> CHR 0x5C" "\<not> byte (hd s) < 0x20" "rune_len s = 0"
        "unquote (tl s) = Some (x, t)" "v = replacement @ x"
    | (rune) x where "hd s \<noteq> CHR 0x22" "hd s \<noteq> CHR 0x5C" "\<not> byte (hd s) < 0x20" "rune_len s \<noteq> 0"
        "unquote (drop (rune_len s) s) = Some (x, t)" "v = take (rune_len s) s @ x"
    using "1.prems" ne
    by (subst (asm) unquote.simps) (auto simp: cons_value_def split: if_splits option.splits)
  then show ?case
  proof cases
    case esc
    then show ?thesis using "1.IH"(1) [OF ne esc(1,2,3) refl esc(4)] valid_unescape [OF esc(3)]
      by (simp add: valid_utf8_append)
  next
    case invalid
    then show ?thesis using "1.IH"(2) [OF ne invalid(1-5)] by (simp add: valid_utf8_append valid_replacement)
  next
    case rune
    then show ?thesis using "1.IH"(3) [OF ne rune(1-5)] by (simp add: valid_utf8_append valid_take_rune)
  qed simp
qed

section \<open>Invalid bytes are visible in the text\<close>

text \<open>The text of one rune.\<close>

definition quote_rune :: "string \<Rightarrow> string" where
  "quote_rune u =
     (if byte (hd u) < 0x80 then escape_ascii (hd u)
      else if u = [CHR 0xE2, CHR 0x80, CHR 0xA8] then CHR 0x5C # ''u2028''
      else if u = [CHR 0xE2, CHR 0x80, CHR 0xA9] then CHR 0x5C # ''u2029''
      else u)"

lemma quote_bytes_rune:
  assumes "rune_len s \<noteq> 0"
  shows "quote_bytes s = quote_rune (take (rune_len s) s) @ quote_bytes (drop (rune_len s) s)"
proof -
  have ne: "s \<noteq> []" using assms by auto
  then have hd: "hd (take (rune_len s) s) = hd s" using assms by (cases s) (auto simp: take_Cons')
  show ?thesis
  proof (cases "byte (hd s) < 0x80")
    case True
    then have "rune_len s = 1" using rune_len_ascii ne by simp
    then show ?thesis using True ne hd
      by (subst quote_bytes.simps) (simp add: quote_rune_def drop_Suc)
  next
    case False
    have sep: "take 3 s = [CHR 0xE2, CHR 0x80, c] \<longleftrightarrow> take (rune_len s) s = [CHR 0xE2, CHR 0x80, c]"
      if "between 0x80 0xBF c" for c
    proof
      assume "take 3 s = [CHR 0xE2, CHR 0x80, c]"
      then show "take (rune_len s) s = [CHR 0xE2, CHR 0x80, c]" using rune_len_separator that by simp
    next
      assume t: "take (rune_len s) s = [CHR 0xE2, CHR 0x80, c]"
      then have "length (take (rune_len s) s) = 3" by simp
      then have "rune_len s = 3" using rune_len_le [of s] by simp
      with t show "take 3 s = [CHR 0xE2, CHR 0x80, c]" by simp
    qed
    have len: "rune_len s = 3" if "take (rune_len s) s = [CHR 0xE2, CHR 0x80, c]" for c
      using rune_len_le [of s] arg_cong [OF that, of length] by simp
    have b: "between 0x80 0xBF (CHR 0xA8)" "between 0x80 0xBF (CHR 0xA9)" by (simp_all add: between_def)
    have unfold: "quote_bytes s =
        (if take 3 s = [CHR 0xE2, CHR 0x80, CHR 0xA8] then CHR 0x5C # ''u2028'' @ quote_bytes (drop 3 s)
         else if take 3 s = [CHR 0xE2, CHR 0x80, CHR 0xA9] then CHR 0x5C # ''u2029'' @ quote_bytes (drop 3 s)
         else take (rune_len s) s @ quote_bytes (drop (rune_len s) s))"
      using False ne assms by (subst quote_bytes.simps) simp
    consider (ls) "take (rune_len s) s = [CHR 0xE2, CHR 0x80, CHR 0xA8]"
      | (ps) "take (rune_len s) s = [CHR 0xE2, CHR 0x80, CHR 0xA9]"
      | (other) "take (rune_len s) s \<noteq> [CHR 0xE2, CHR 0x80, CHR 0xA8]" "take (rune_len s) s \<noteq> [CHR 0xE2, CHR 0x80, CHR 0xA9]"
      by blast
    then show ?thesis
    proof cases
      case ls
      then show ?thesis unfolding unfold sep [OF b(1)] by (simp add: quote_rune_def len [OF ls])
    next
      case ps
      then show ?thesis unfolding unfold sep [OF b(1)] sep [OF b(2)] by (simp add: quote_rune_def len [OF ps])
    next
      case other
      then show ?thesis using False hd unfolding unfold sep [OF b(1)] sep [OF b(2)] by (simp add: quote_rune_def)
    qed
  qed
qed

lemma quote_bytes_invalid:
  "s \<noteq> [] \<Longrightarrow> rune_len s = 0 \<Longrightarrow> quote_bytes s = CHR 0x5C # ''ufffd'' @ quote_bytes (tl s)"
  using rune_len_ascii [of s] by (subst quote_bytes.simps) auto

lemma quote_bytes_valid_shorter:
  "length (quote_bytes (to_valid s)) + (if valid_utf8 s then 0 else 3) \<le> length (quote_bytes s)"
proof (induction s rule: to_valid.induct)
  case (1 s)
  show ?case
  proof (cases "s = [] \<or> rune_len s \<noteq> 0")
    case True
    then consider "s = []" | (rune) "rune_len s \<noteq> 0" by blast
    then show ?thesis
    proof cases
      case rune
      let ?u = "take (rune_len s) s @ to_valid (drop (rune_len s) s)"
      have "rune_len ?u = rune_len s" by (rule rune_len_take [OF rune])
      moreover have "length (take (rune_len s) s) = rune_len s" using rune_len_le [of s] by simp
      ultimately have "quote_bytes ?u =
          quote_rune (take (rune_len s) s) @ quote_bytes (to_valid (drop (rune_len s) s))"
        using quote_bytes_rune [of ?u] rune by simp
      then show ?thesis
        using rune "1.IH"(2) to_valid_rune [OF rune] quote_bytes_rune [OF rune] valid_utf8_rune [OF rune]
        by (cases s) auto
    qed simp
  next
    case False
    let ?u = "replacement @ to_valid (tl s)"
    have "rune_len ?u = 3"
      by (simp add: replacement_def rune_len_def rune_size_def second_ok_def between_def)
    then have "quote_bytes ?u = quote_rune replacement @ quote_bytes (to_valid (tl s))"
      using quote_bytes_rune [of ?u] by (simp add: replacement_def)
    moreover have "length (quote_rune replacement) = 3" by (simp add: quote_rune_def replacement_def)
    ultimately show ?thesis
      using False "1.IH"(1) quote_bytes_invalid [of s] to_valid_invalid [of s] by simp
  qed
qed

lemma rune_bytes_high:
  assumes "\<not> byte (hd s) < 0x80" "c \<in> set (take (rune_len s) s)"
  shows "0x80 \<le> byte c"
proof (cases s)
  case (Cons b t)
  with assms have r: "1 < rune_size b" "rune_len s = rune_size b"
    by (auto simp: rune_len_def rune_size_def split: if_splits)
  then obtain x u where t: "t = x # u" and ok: "second_ok b x" "list_all (between 0x80 0xBF) (take (rune_size b - 2) u)"
    using Cons by (cases t) (auto simp: rune_len_def split: if_splits)
  have "take (rune_len s) s = b # x # take (rune_size b - 2) u"
    using r Cons t by (auto simp: take_Cons' numeral_2_eq_2)
  with assms ok Cons show ?thesis
    by (auto simp: list_all_iff between_def second_ok_def split: if_splits)
qed (use assms in simp)

text \<open>No control character appears in an encoded string, so a record is one line of the file.\<close>

lemma quote_bytes_printable: "c \<in> set (quote_bytes s) \<Longrightarrow> 0x20 \<le> byte c"
proof (induction s rule: to_valid.induct)
  case (1 s)
  have hx: "n < 16 \<Longrightarrow> 0x20 \<le> byte (hex_digit n)" for n by (simp add: hex_digit_def)
  have ea: "c \<in> set (escape_ascii b) \<Longrightarrow> byte b < 0x80 \<Longrightarrow> 0x20 \<le> byte c" for b
    using hx [of "byte b div 16"] hx [of "byte b mod 16"]
    by (simp add: escape_ascii_def split: if_splits) (elim disjE; simp)+
  consider "s = []" | (invalid) "s \<noteq> []" "rune_len s = 0" | (rune) "s \<noteq> []" "rune_len s \<noteq> 0" by blast
  then show ?case
  proof cases
    case 1
    with "1.prems" show ?thesis by simp
  next
    case invalid
    with "1.prems" "1.IH"(1) show ?thesis by (auto simp: quote_bytes_invalid)
  next
    case rune
    have "c \<in> set (quote_rune (take (rune_len s) s)) \<Longrightarrow> 0x20 \<le> byte c"
      using rune ea [of "hd s"] rune_bytes_high [of s c]
      by (cases s) (auto simp: quote_rune_def take_Cons' split: if_splits)
    with rune "1.prems" "1.IH"(2) show ?thesis by (auto simp: quote_bytes_rune)
  qed
qed

end
