(* ===== verification/AuditJournal.thy ===== *)
theory AuditJournal
  imports Go_Json
begin

text \<open>
  Package \<open>auditjournal\<close>: the record and its canonical JSON (\<open>record.go\<close>), redaction (\<open>redact.go\<close>), the hash
  chain (\<open>hash.go\<close>), verification of a file (\<open>verify.go\<close>) and the journal (\<open>journal.go\<close>). SHA-256 is the
  argument \<open>sha\<close>; the file is its bytes; what the disk and the clock answer is an argument.
\<close>

section \<open>Records\<close>

record audit_record =
  SchemaVersion :: int
  Sequence :: nat
  Timestamp :: string
  EventType :: string
  Result :: string
  EdgeID :: string
  DeviceID :: string
  CommandID :: string
  RotationID :: string
  ConfigVersion :: string
  SafeReason :: string
  PrevHash :: string
  RecordHash :: string

definition zero_record :: audit_record where
  "zero_record = \<lparr>SchemaVersion = 0, Sequence = 0, Timestamp = [], EventType = [], Result = [], EdgeID = [],
     DeviceID = [], CommandID = [], RotationID = [], ConfigVersion = [], SafeReason = [], PrevHash = [],
     RecordHash = []\<rparr>"

definition audit_SchemaVersion :: int where
  "audit_SchemaVersion = 1"

definition GenesisHash :: string where
  "GenesisHash = ''genesis:v1''"

text \<open>The members of the JSON object with their text and the value it stands for; \<open>omitempty\<close> fields are
  left out when empty.\<close>

definition str_member :: "string \<Rightarrow> string \<Rightarrow> string \<times> string \<times> json" where
  "str_member k s = (k, json_quote s, JStr (to_valid s))"

definition omit_empty :: "string \<Rightarrow> string \<Rightarrow> (string \<times> string \<times> json) list" where
  "omit_empty k s = (if s = [] then [] else [str_member k s])"

definition record_members :: "audit_record \<Rightarrow> (string \<times> string \<times> json) list" where
  "record_members r =
     [(''schema_version'', dec_of_int (SchemaVersion r), JNum (dec_of_int (SchemaVersion r))),
      (''sequence'', dec_of_nat (Sequence r), JNum (dec_of_nat (Sequence r))),
      str_member ''timestamp'' (Timestamp r),
      str_member ''event_type'' (EventType r),
      str_member ''result'' (Result r)] @
     omit_empty ''edge_id'' (EdgeID r) @
     omit_empty ''device_id'' (DeviceID r) @
     omit_empty ''command_id'' (CommandID r) @
     omit_empty ''rotation_id'' (RotationID r) @
     omit_empty ''config_version'' (ConfigVersion r) @
     omit_empty ''safe_reason'' (SafeReason r) @
     [str_member ''prev_hash'' (PrevHash r),
      str_member ''record_hash'' (RecordHash r)]"

text \<open>\<open>json.Marshal(rec)\<close>.\<close>

definition marshal_record :: "audit_record \<Rightarrow> string" where
  "marshal_record r = json_object (map (\<lambda>(k, t, v). (k, t)) (record_members r))"

definition jsonMarshalLine :: "audit_record \<Rightarrow> string" where
  "jsonMarshalLine r = marshal_record r @ [CHR 0x0A]"

text \<open>\<open>json.Unmarshal\<close> into a \<open>Record\<close>: the field of a key is the one of that name, else the one whose folded
  name agrees (ASCII case, U+017F and the Kelvin sign); \<open>null\<close> leaves a field alone, a value of another
  kind is an error, unknown keys are skipped.\<close>

function fold_name :: "string \<Rightarrow> string" where
  "fold_name s =
     (if s = [] then []
      else if between 97 122 (hd s) then char_of (byte (hd s) - 32) # fold_name (tl s)
      else if take 2 s = [CHR 0xC5, CHR 0xBF] then CHR ''S'' # fold_name (drop 2 s)
      else if take 3 s = [CHR 0xE2, CHR 0x84, CHR 0xAA] then CHR ''K'' # fold_name (drop 3 s)
      else hd s # fold_name (tl s))"
  by auto
termination by (relation "measure length") auto

declare fold_name.simps [simp del]

definition string_fields :: "(string \<times> ((string \<Rightarrow> string) \<Rightarrow> audit_record \<Rightarrow> audit_record)) list" where
  "string_fields =
     [(''timestamp'', Timestamp_update), (''event_type'', EventType_update), (''result'', Result_update),
      (''edge_id'', EdgeID_update), (''device_id'', DeviceID_update), (''command_id'', CommandID_update),
      (''rotation_id'', RotationID_update), (''config_version'', ConfigVersion_update),
      (''safe_reason'', SafeReason_update), (''prev_hash'', PrevHash_update),
      (''record_hash'', RecordHash_update)]"

definition field_names :: "string list" where
  "field_names = ''schema_version'' # ''sequence'' # map fst string_fields"

definition find_field :: "string \<Rightarrow> string option" where
  "find_field k =
     (if k \<in> set field_names then Some k else List.find (\<lambda>n. fold_name n = fold_name k) field_names)"

definition set_field :: "string \<Rightarrow> json \<Rightarrow> audit_record \<Rightarrow> audit_record option" where
  "set_field k v r =
     (case find_field k of
        None \<Rightarrow> Some r
      | Some f \<Rightarrow>
          (case v of
             JNull \<Rightarrow> Some r
           | JNum l \<Rightarrow>
               (if f = ''schema_version'' then map_option (\<lambda>i. r\<lparr>SchemaVersion := i\<rparr>) (atoi l)
                else if f = ''sequence'' then map_option (\<lambda>n. r\<lparr>Sequence := n\<rparr>) (parse_uint l)
                else None)
           | JStr s \<Rightarrow> map_option (\<lambda>upd. upd (\<lambda>_. s) r) (map_of string_fields f)
           | _ \<Rightarrow> None))"

fun set_fields :: "(string \<times> json) list \<Rightarrow> audit_record \<Rightarrow> audit_record option" where
  "set_fields [] r = Some r"
| "set_fields ((k, v) # ms) r = (case set_field k v r of None \<Rightarrow> None | Some r' \<Rightarrow> set_fields ms r')"

definition unmarshal_record :: "string \<Rightarrow> audit_record option" where
  "unmarshal_record s =
     (case parse_json s of
        Some JNull \<Rightarrow> Some zero_record
      | Some (JObj ms) \<Rightarrow> set_fields ms zero_record
      | _ \<Rightarrow> None)"

section \<open>Redaction\<close>

definition is_ws :: "char \<Rightarrow> bool" where
  "is_ws c \<longleftrightarrow> c \<in> {CHR 0x09, CHR 0x0A, CHR 0x0C, CHR 0x0D, CHR 0x20}"

definition is_word :: "char \<Rightarrow> bool" where
  "is_word c \<longleftrightarrow> between 48 57 c \<or> between 65 90 c \<or> between 97 122 c \<or> c = CHR ''_''"

text \<open>One letter of a pattern under \<open>(?i)\<close>: either case, and the runes that fold to \<open>s\<close> and \<open>k\<close>.\<close>

definition eat_letter :: "char \<Rightarrow> string \<Rightarrow> string option" where
  "eat_letter c s =
     (if s \<noteq> [] \<and> (hd s = c \<or> byte (hd s) + 32 = byte c) then Some (tl s)
      else if c = CHR ''s'' \<and> take 2 s = [CHR 0xC5, CHR 0xBF] then Some (drop 2 s)
      else if c = CHR ''k'' \<and> take 3 s = [CHR 0xE2, CHR 0x84, CHR 0xAA] then Some (drop 3 s)
      else None)"

fun eat_word :: "string \<Rightarrow> string \<Rightarrow> string option" where
  "eat_word [] s = Some s"
| "eat_word (c # w) s = (case eat_letter c s of None \<Rightarrow> None | Some t \<Rightarrow> eat_word w t)"

text \<open>\<open>bearerTokenRegex\<close> at a position, given whether the byte before it is a word character: what follows
  the match.\<close>

definition match_bearer :: "bool \<Rightarrow> string \<Rightarrow> string option" where
  "match_bearer prev s =
     (if prev then None
      else case eat_word ''bearer'' s of
        None \<Rightarrow> None
      | Some t \<Rightarrow>
          if t \<noteq> [] \<and> is_ws (hd t) \<and> dropWhile is_ws t \<noteq> []
          then Some (dropWhile (\<lambda>c. \<not> is_ws c) (dropWhile is_ws t)) else None)"

text \<open>The alternatives of \<open>secretShapeRegex\<close> in the order they are tried.\<close>

definition secret_keys :: "string list" where
  "secret_keys = [''password'', ''pass'', ''secret'', ''token'', ''authorization'', ''auth'', ''bearer'',
     ''credential'', ''rtsp'']"

definition value_char :: "char \<Rightarrow> bool" where
  "value_char c \<longleftrightarrow> c \<noteq> CHR ''&'' \<and> \<not> is_ws c"

definition match_key :: "string \<Rightarrow> string \<Rightarrow> (string \<times> string) option" where
  "match_key k s =
     (case eat_word k s of
        None \<Rightarrow> None
      | Some t \<Rightarrow>
          if t \<noteq> [] \<and> (hd t = CHR ''='' \<or> hd t = CHR '':'') \<and> tl t \<noteq> [] \<and> value_char (hd (tl t))
          then Some (take (length s - length t) s, dropWhile value_char (tl t)) else None)"

fun first_match :: "string list \<Rightarrow> string \<Rightarrow> (string \<times> string) option" where
  "first_match [] s = None"
| "first_match (k # ks) s = (case match_key k s of None \<Rightarrow> first_match ks s | Some m \<Rightarrow> Some m)"

lemma eat_letter_length: "eat_letter c s = Some t \<Longrightarrow> length t < length s"
  by (cases s) (auto simp: eat_letter_def split: if_splits)

lemma eat_word_length: "eat_word w s = Some t \<Longrightarrow> length t + length w \<le> length s"
proof (induction w arbitrary: s)
  case (Cons c w)
  then obtain u where "eat_letter c s = Some u" "eat_word w u = Some t" by (auto split: option.splits)
  then show ?case using Cons.IH eat_letter_length by fastforce
qed simp

lemma match_key_length: "match_key k s = Some (a, t) \<Longrightarrow> length t < length s"
proof -
  assume "match_key k s = Some (a, t)"
  then obtain u where u: "eat_word k s = Some u" "u \<noteq> []" "t = dropWhile value_char (tl u)"
    by (auto simp: match_key_def split: option.splits if_splits)
  have "length t \<le> length (tl u)" using u(3) length_dropWhile_le [of value_char "tl u"] by simp
  then show ?thesis using u eat_word_length [OF u(1)] by (cases u) auto
qed

lemma first_match_length: "first_match ks s = Some (a, t) \<Longrightarrow> length t < length s"
  by (induction ks) (auto split: option.splits dest: match_key_length)

lemma match_bearer_length: "match_bearer p s = Some t \<Longrightarrow> length t < length s"
proof -
  assume "match_bearer p s = Some t"
  then obtain u where u: "eat_word ''bearer'' s = Some u" "t = dropWhile (\<lambda>c. \<not> is_ws c) (dropWhile is_ws u)"
    by (auto simp: match_bearer_def split: if_splits option.splits)
  have "length t \<le> length u" unfolding u(2)
    by (rule order_trans [OF length_dropWhile_le length_dropWhile_le])
  then show ?thesis using eat_word_length [OF u(1)] by simp
qed

function redact_bearer :: "bool \<Rightarrow> string \<Rightarrow> string" where
  "redact_bearer prev s =
     (if s = [] then []
      else case match_bearer prev s of
        Some t \<Rightarrow> ''bearer=[REDACTED]'' @ redact_bearer True t
      | None \<Rightarrow> hd s # redact_bearer (is_word (hd s)) (tl s))"
  by auto
termination by (relation "measure (length \<circ> snd)") (auto dest: match_bearer_length)

function redact_secrets :: "string \<Rightarrow> string" where
  "redact_secrets s =
     (if s = [] then []
      else case first_match secret_keys s of
        Some (k, t) \<Rightarrow> k @ ''=[REDACTED]'' @ redact_secrets t
      | None \<Rightarrow> hd s # redact_secrets (tl s))"
  by auto
termination by (relation "measure length") (auto dest: first_match_length)

declare redact_bearer.simps [simp del] redact_secrets.simps [simp del]

definition maxSafeReasonLen :: nat where
  "maxSafeReasonLen = 255"

definition truncate_bytes :: "string \<Rightarrow> nat \<Rightarrow> string" where
  "truncate_bytes s n = (if length s \<le> n then s else take n s)"

definition RedactSafeReason :: "string \<Rightarrow> string" where
  "RedactSafeReason s =
     (if s = [] then s
      else truncate_bytes (redact_secrets (redact_bearer False s)) maxSafeReasonLen)"

section \<open>The hash chain\<close>

text \<open>\<open>hex.EncodeToString\<close>.\<close>

definition hex_encode :: "string \<Rightarrow> string" where
  "hex_encode s = concat (map (\<lambda>c. [hex_digit (byte c div 16), hex_digit (byte c mod 16)]) s)"

text \<open>What \<open>computeRecordHash\<close> feeds the hash, and the hash. Encoding a \<open>Record\<close> cannot fail.\<close>

definition hash_input :: "string \<Rightarrow> audit_record \<Rightarrow> string" where
  "hash_input prevHash r = prevHash @ marshal_record (r\<lparr>PrevHash := prevHash, RecordHash := []\<rparr>)"

definition computeRecordHash :: "(string \<Rightarrow> string) \<Rightarrow> string \<Rightarrow> audit_record \<Rightarrow> string" where
  "computeRecordHash sha prevHash r = hex_encode (sha (hash_input prevHash r))"

section \<open>Verification\<close>

datatype verify_status = StatusEmpty | StatusPass | StatusCorrupt | StatusTruncatedTail

datatype failure_reason =
    No_Failure
  | Incomplete_JSON nat
  | Malformed_JSON nat
  | Wrong_Sequence nat nat nat
  | Wrong_PrevHash nat
  | Wrong_RecordHash nat
  | Read_Error

record verify_result =
  Status :: verify_status
  RecordCount :: nat
  FirstSequence :: nat
  LastSequence :: nat
  LastHash :: string
  FailureReason :: failure_reason

text \<open>\<open>bufio.ScanLines\<close>: the text between newlines without a trailing carriage return; a last line needs
  no newline. A line that does not fit the buffer of \<open>8<<20\<close> bytes stops the scanner with an error, and
  so does a failing read (\<open>ioerr\<close>), after the bytes read before it.\<close>

definition newline :: char where
  "newline = CHR 0x0A"

function raw_lines :: "string \<Rightarrow> string list" where
  "raw_lines s =
     (if s = [] then []
      else takeWhile (\<lambda>c. c \<noteq> newline) s # raw_lines (tl (dropWhile (\<lambda>c. c \<noteq> newline) s)))"
  by auto
termination
proof (relation "measure length"; clarsimp)
  fix s :: string
  assume "s \<noteq> []"
  then show "length (dropWhile (\<lambda>c. c \<noteq> newline) s) - Suc 0 < length s"
    using length_dropWhile_le [of "\<lambda>c. c \<noteq> newline" s] by (cases s) auto
qed

declare raw_lines.simps [simp del]

definition maxLine :: nat where
  "maxLine = 8388607"

definition drop_cr :: "string \<Rightarrow> string" where
  "drop_cr l = (if l \<noteq> [] \<and> last l = CHR 0x0D then butlast l else l)"

definition scan_lines :: "bool \<Rightarrow> string \<Rightarrow> string list \<times> bool" where
  "scan_lines ioerr data =
     (let raw = raw_lines data; fit = takeWhile (\<lambda>l. length l \<le> maxLine) raw
      in (filter (\<lambda>l. l \<noteq> []) (map drop_cr fit), ioerr \<or> length fit < length raw))"

text \<open>The loop over the lines: \<open>i\<close> is the index of the head, \<open>count\<close>, \<open>firstSeq\<close>, \<open>lastSeq\<close> and \<open>prevHash\<close> the
  variables of the loop.\<close>

fun verify_lines :: "(string \<Rightarrow> string) \<Rightarrow> bool \<Rightarrow> string list \<Rightarrow> nat \<Rightarrow> string \<Rightarrow> nat \<Rightarrow> nat \<Rightarrow> nat \<Rightarrow> verify_result" where
  "verify_lines sha scanErr [] i prevHash count firstSeq lastSeq =
     (if scanErr then
        \<lparr>Status = StatusCorrupt, RecordCount = count, FirstSequence = firstSeq, LastSequence = lastSeq,
         LastHash = prevHash, FailureReason = Read_Error\<rparr>
      else if count = 0 then
        \<lparr>Status = StatusEmpty, RecordCount = 0, FirstSequence = 0, LastSequence = 0,
         LastHash = GenesisHash, FailureReason = No_Failure\<rparr>
      else
        \<lparr>Status = StatusPass, RecordCount = count, FirstSequence = firstSeq, LastSequence = lastSeq,
         LastHash = prevHash, FailureReason = No_Failure\<rparr>)"
| "verify_lines sha scanErr (line # lines) i prevHash count firstSeq lastSeq =
     (let fail = (\<lambda>st why. \<lparr>Status = st, RecordCount = count, FirstSequence = firstSeq, LastSequence = lastSeq,
             LastHash = prevHash, FailureReason = why\<rparr>)
      in case unmarshal_record line of
        None \<Rightarrow>
          if lines = [] \<and> \<not> scanErr then fail StatusTruncatedTail (Incomplete_JSON (i + 1))
          else fail StatusCorrupt (Malformed_JSON (i + 1))
      | Some rec \<Rightarrow>
          if Sequence rec \<noteq> wrap_u64 (lastSeq + 1)
          then fail StatusCorrupt (Wrong_Sequence (i + 1) (Sequence rec) (wrap_u64 (lastSeq + 1)))
          else if PrevHash rec \<noteq> prevHash then fail StatusCorrupt (Wrong_PrevHash (i + 1))
          else if computeRecordHash sha prevHash rec \<noteq> RecordHash rec
          then fail StatusCorrupt (Wrong_RecordHash (i + 1))
          else verify_lines sha scanErr lines (i + 1) (RecordHash rec) (count + 1)
                 (if count = 0 then Sequence rec else firstSeq) (Sequence rec))"

definition verifyReader :: "(string \<Rightarrow> string) \<Rightarrow> bool \<Rightarrow> string \<Rightarrow> verify_result" where
  "verifyReader sha ioerr data =
     (case scan_lines ioerr data of (lines, scanErr) \<Rightarrow> verify_lines sha scanErr lines 0 GenesisHash 0 0 0)"

text \<open>What opening the file for reading gives: the file, missing or not, or an error; a read can break off
  after some bytes.\<close>

datatype read_outcome = Read_All | Read_Open_Error | Read_Breaks nat

datatype audit_error = Err_Mkdir | Err_Read_Open | Err_Corrupt failure_reason | Err_Open | Err_Chmod
  | Err_Write | Err_Sync

definition VerifyFile :: "(string \<Rightarrow> string) \<Rightarrow> read_outcome \<Rightarrow> string option \<Rightarrow> audit_error + verify_result" where
  "VerifyFile sha rd file =
     (case file of
        None \<Rightarrow> Inr \<lparr>Status = StatusEmpty, RecordCount = 0, FirstSequence = 0, LastSequence = 0,
                 LastHash = GenesisHash, FailureReason = No_Failure\<rparr>
      | Some data \<Rightarrow>
          (case rd of
             Read_Open_Error \<Rightarrow> Inl Err_Read_Open
           | Read_All \<Rightarrow> Inr (verifyReader sha False data)
           | Read_Breaks k \<Rightarrow> Inr (verifyReader sha True (take k data))))"

section \<open>The journal\<close>

datatype health = HealthHealthy | HealthDegraded | HealthCorrupt | HealthWriteFailed

record journal =
  lastHash :: string
  jlastSeq :: nat
  jhealth :: health
  writeAt :: gotime

definition newJournal :: "string \<Rightarrow> nat \<Rightarrow> health \<Rightarrow> journal" where
  "newJournal h n st = \<lparr>lastHash = h, jlastSeq = n, jhealth = st, writeAt = zero_time\<rparr>"

definition recoverState :: "(string \<Rightarrow> string) \<Rightarrow> read_outcome \<Rightarrow> string option \<Rightarrow> audit_error + (string \<times> nat \<times> health)" where
  "recoverState sha rd file =
     (case VerifyFile sha rd file of
        Inl e \<Rightarrow> Inl e
      | Inr v \<Rightarrow>
          (case Status v of
             StatusEmpty \<Rightarrow> Inr (LastHash v, LastSequence v, HealthHealthy)
           | StatusPass \<Rightarrow> Inr (LastHash v, LastSequence v, HealthHealthy)
           | StatusTruncatedTail \<Rightarrow> Inr (LastHash v, LastSequence v, HealthDegraded)
           | StatusCorrupt \<Rightarrow> Inl (Err_Corrupt (FailureReason v))))"

record open_outcome =
  mkdir_fails :: bool
  reading :: read_outcome
  open_fails :: bool
  chmod_fails :: bool

definition no_fault :: open_outcome where
  "no_fault = \<lparr>mkdir_fails = False, reading = Read_All, open_fails = False, chmod_fails = False\<rparr>"

text \<open>\<open>Open\<close> with the file it leaves: \<open>O_CREATE\<close> makes an empty one, nothing else changes.\<close>

definition Journal_Open :: "(string \<Rightarrow> string) \<Rightarrow> open_outcome \<Rightarrow> string option \<Rightarrow> (audit_error + journal) \<times> string option" where
  "Journal_Open sha oo file =
     (if mkdir_fails oo then (Inl Err_Mkdir, file)
      else case recoverState sha (reading oo) file of
        Inl e \<Rightarrow> (Inl e, file)
      | Inr (h, n, st) \<Rightarrow>
          if open_fails oo then (Inl Err_Open, file)
          else
            (let file' = Some (case file of None \<Rightarrow> [] | Some d \<Rightarrow> d)
             in if chmod_fails oo then (Inl Err_Chmod, file') else (Inr (newJournal h n st), file')))"

text \<open>A write of \<open>p\<close> bytes: all of them, or an error after some. The file is open for appending.\<close>

datatype write_outcome = Wrote | Write_Error nat

definition written :: "write_outcome \<Rightarrow> string \<Rightarrow> string" where
  "written w p = (case w of Wrote \<Rightarrow> p | Write_Error k \<Rightarrow> take k p)"

text \<open>The record \<open>Append\<close> builds from the caller's: everything but the identifying fields is set here.\<close>

definition stamped :: "(string \<Rightarrow> string) \<Rightarrow> string \<Rightarrow> journal \<Rightarrow> audit_record \<Rightarrow> audit_record" where
  "stamped sha now j r =
     (let r' = r\<lparr>SchemaVersion := audit_SchemaVersion, Sequence := wrap_u64 (jlastSeq j + 1), Timestamp := now,
            SafeReason := RedactSafeReason (SafeReason r), PrevHash := lastHash j, RecordHash := []\<rparr>
      in r'\<lparr>RecordHash := computeRecordHash sha (lastHash j) r'\<rparr>)"

definition Journal_Append ::
  "(string \<Rightarrow> string) \<Rightarrow> string \<Rightarrow> gotime \<Rightarrow> write_outcome \<Rightarrow> bool \<Rightarrow> audit_record \<Rightarrow> journal \<Rightarrow> string
     \<Rightarrow> (audit_error + audit_record) \<times> journal \<times> string" where
  "Journal_Append sha now at w sync_ok r j file =
     (let rec = stamped sha now j r; file' = file @ written w (jsonMarshalLine rec)
      in if w \<noteq> Wrote then (Inl Err_Write, j\<lparr>jhealth := HealthWriteFailed\<rparr>, file')
         else if \<not> sync_ok then (Inl Err_Sync, j\<lparr>jhealth := HealthWriteFailed\<rparr>, file')
         else (Inr rec,
               j\<lparr>lastHash := RecordHash rec, jlastSeq := Sequence rec, writeAt := at, jhealth := HealthHealthy\<rparr>,
               file'))"

record audit_snapshot =
  Health :: health
  Records :: nat
  snap_LastSequence :: nat
  LastWriteAt :: "gotime option"

definition Journal_Snapshot :: "journal \<Rightarrow> audit_snapshot" where
  "Journal_Snapshot j =
     \<lparr>Health = jhealth j, Records = jlastSeq j, snap_LastSequence = jlastSeq j,
      LastWriteAt = (if writeAt j = zero_time then None else Some (writeAt j))\<rparr>"

end
