(* ===== verification/AuditJournal_Props.thy ===== *)
theory AuditJournal_Props
  imports AuditJournal
begin

text \<open>
  What the audit journal guarantees: a record is read back from its line; two files that verify and end
  in the same hash hold the same records, or exhibit a collision of the hash; a journal continues its
  chain across appends, crashes in the middle of a write and restarts; and what redaction leaves.
\<close>

section \<open>A record is read back\<close>

definition valid_record :: "audit_record \<Rightarrow> audit_record" where
  "valid_record r = r\<lparr>Timestamp := to_valid (Timestamp r), EventType := to_valid (EventType r),
     Result := to_valid (Result r), EdgeID := to_valid (EdgeID r), DeviceID := to_valid (DeviceID r),
     CommandID := to_valid (CommandID r), RotationID := to_valid (RotationID r),
     ConfigVersion := to_valid (ConfigVersion r), SafeReason := to_valid (SafeReason r),
     PrevHash := to_valid (PrevHash r), RecordHash := to_valid (RecordHash r)\<rparr>"

definition in_range :: "audit_record \<Rightarrow> bool" where
  "in_range r \<longleftrightarrow> is_int64 (SchemaVersion r) \<and> Sequence r < 2 ^ 64"

lemma parse_uint_dec: "n < 2 ^ 64 \<Longrightarrow> parse_uint (dec_of_nat n) = Some n"
  using dec_of_nat_digits by (simp add: parse_uint_def)

lemma atoi_dec: "is_int64 i \<Longrightarrow> atoi (dec_of_int i) = Some i"
proof (cases "i < 0")
  case True
  assume "is_int64 i"
  with True show ?thesis using dec_of_nat_digits [of "nat (- i)"]
    by (simp add: atoi_def dec_of_int_def Let_def)
next
  case False
  assume "is_int64 i"
  moreover have "is_digit (hd (dec_of_nat (nat i)))"
    using dec_of_nat_digits [of "nat i"] by (simp add: list_all_iff)
  then have "hd (dec_of_nat (nat i)) \<noteq> CHR ''-''" "hd (dec_of_nat (nat i)) \<noteq> CHR ''+''"
    by (auto simp: is_digit_def)
  ultimately show ?thesis using False dec_of_nat_digits [of "nat i"]
    by (simp add: atoi_def dec_of_int_def Let_def)
qed

lemma field_names_valid: "k \<in> set field_names \<Longrightarrow> to_valid k = k"
proof -
  have "list_all (\<lambda>k. list_all (\<lambda>c. byte c < 0x80) k) field_names" by code_simp
  moreover assume "k \<in> set field_names"
  ultimately show ?thesis by (intro to_valid_id valid_ascii) (simp add: list_all_iff)
qed

lemma find_field_exact: "k \<in> set field_names \<Longrightarrow> find_field k = Some k"
  by (simp add: find_field_def)

lemma in_field_names:
  "''schema_version'' \<in> set field_names" "''sequence'' \<in> set field_names" "''timestamp'' \<in> set field_names"
  "''event_type'' \<in> set field_names" "''result'' \<in> set field_names" "''edge_id'' \<in> set field_names"
  "''device_id'' \<in> set field_names" "''command_id'' \<in> set field_names" "''rotation_id'' \<in> set field_names"
  "''config_version'' \<in> set field_names" "''safe_reason'' \<in> set field_names" "''prev_hash'' \<in> set field_names"
  "''record_hash'' \<in> set field_names"
  by (simp_all add: field_names_def string_fields_def)

lemmas key_valid = in_field_names [THEN field_names_valid]
lemmas key_found = in_field_names [THEN find_field_exact]

lemma set_field_string:
  "k \<in> set field_names \<Longrightarrow> map_of string_fields k = Some upd \<Longrightarrow> set_field k (JStr s) r = Some (upd (\<lambda>_. s) r)"
  by (simp add: set_field_def find_field_exact)

lemma string_field_updates:
  "map_of string_fields ''timestamp'' = Some Timestamp_update" "map_of string_fields ''event_type'' = Some EventType_update"
  "map_of string_fields ''result'' = Some Result_update" "map_of string_fields ''edge_id'' = Some EdgeID_update"
  "map_of string_fields ''device_id'' = Some DeviceID_update" "map_of string_fields ''command_id'' = Some CommandID_update"
  "map_of string_fields ''rotation_id'' = Some RotationID_update"
  "map_of string_fields ''config_version'' = Some ConfigVersion_update"
  "map_of string_fields ''safe_reason'' = Some SafeReason_update" "map_of string_fields ''prev_hash'' = Some PrevHash_update"
  "map_of string_fields ''record_hash'' = Some RecordHash_update"
  by (simp_all add: string_fields_def)

lemma set_fields_append: "set_fields (xs @ ys) r = (case set_fields xs r of None \<Rightarrow> None | Some r' \<Rightarrow> set_fields ys r')"
  by (induction xs r rule: set_fields.induct) (auto split: option.splits)

definition member_values :: "(string \<times> string \<times> json) list \<Rightarrow> (string \<times> json) list" where
  "member_values ms = map (\<lambda>(k, t, v). (to_valid k, v)) ms"

lemma set_fields_omit_empty:
  assumes "k \<in> set field_names" "map_of string_fields k = Some upd" "upd (\<lambda>_. []) r = r"
  shows "set_fields (member_values (omit_empty k s)) r = Some (upd (\<lambda>_. to_valid s) r)"
  using assms
  by (simp add: omit_empty_def member_values_def str_member_def field_names_valid set_field_string)

lemma members_write: "\<forall>m \<in> set (record_members r). writes (fst (snd m)) (snd (snd m))"
  by (simp add: record_members_def str_member_def omit_empty_def writes_string writes_int writes_nat)

lemma record_members_nonempty: "record_members r \<noteq> []"
  by (simp add: record_members_def)

lemma set_fields_members:
  assumes "in_range r"
  shows "set_fields (member_values (record_members r)) zero_record = Some (valid_record r)"
proof -
  have n: "set_field ''schema_version'' (JNum (dec_of_int (SchemaVersion r))) q = Some (q\<lparr>SchemaVersion := SchemaVersion r\<rparr>)"
    "set_field ''sequence'' (JNum (dec_of_nat (Sequence r))) q = Some (q\<lparr>Sequence := Sequence r\<rparr>)" for q
    using assms by (simp_all add: set_field_def key_found in_range_def atoi_dec parse_uint_dec)
  have split: "member_values (xs @ ys) = member_values xs @ member_values ys" for xs ys
    by (simp add: member_values_def)
  have one: "member_values (m # ms) = (to_valid (fst m), snd (snd m)) # member_values ms" "member_values [] = []" for m ms
    by (simp_all add: member_values_def split: prod.split)
  show ?thesis
    unfolding record_members_def split set_fields_append one
    by (simp add: one n key_valid set_field_string in_field_names string_field_updates set_fields_omit_empty
        str_member_def zero_record_def valid_record_def)
qed

theorem unmarshal_marshal: "in_range r \<Longrightarrow> unmarshal_record (marshal_record r) = Some (valid_record r)"
  using parse_json_object(2) [OF record_members_nonempty members_write] set_fields_members
  by (simp add: unmarshal_record_def marshal_record_def member_values_def)

section \<open>What the decoder returns\<close>

definition sound_record :: "audit_record \<Rightarrow> bool" where
  "sound_record r \<longleftrightarrow> in_range r \<and>
     list_all valid_utf8 [Timestamp r, EventType r, Result r, EdgeID r, DeviceID r, CommandID r, RotationID r,
       ConfigVersion r, SafeReason r, PrevHash r, RecordHash r]"

lemma sound_record_valid: "sound_record r \<Longrightarrow> valid_record r = r"
  by (simp add: sound_record_def valid_record_def to_valid_id)

definition str_ok :: "json \<Rightarrow> bool" where
  "str_ok v \<longleftrightarrow> (case v of JStr s \<Rightarrow> valid_utf8 s | _ \<Rightarrow> True)"

lemma parse_value_str_ok: "parse_value d n s = Some (v, r) \<Longrightarrow> str_ok v"
proof (cases n)
  case (Suc m)
  assume "parse_value d n s = Some (v, r)"
  then have "parse_value d (Suc m) s = Some (v, r)" using Suc by simp
  then show ?thesis
    by (cases rule: parse_value_SucE) (auto simp: str_ok_def parse_scalar_def valid_unquote split: if_splits)
qed simp

lemma parse_members_str_ok: "parse_members d n s = Some (ms, r) \<Longrightarrow> \<forall>m \<in> set ms. str_ok (snd m)"
proof (induction n arbitrary: s ms)
  case (Suc n)
  from Suc.prems show ?case
  proof (cases rule: parse_members_SucE)
    case (last k t v u)
    then show ?thesis using parse_value_str_ok [OF last(5)] by simp
  next
    case (more k t v u ms')
    then show ?thesis using parse_value_str_ok [OF more(5)] Suc.IH [OF more(8)] by simp
  qed
qed simp

lemma parse_json_str_ok:
  assumes "parse_json s = Some (JObj ms)"
  shows "\<forall>m \<in> set ms. str_ok (snd m)"
proof -
  obtain n u t where "parse_value maxNestingDepth (Suc n) u = Some (JObj ms, t)"
    using assms by (auto simp: parse_json_def simp del: parse_value.simps split: option.splits if_splits)
  then show ?thesis
    by (cases rule: parse_value_SucE) (auto simp: parse_scalar_def dest: parse_members_str_ok split: if_splits)
qed

lemma string_fields_sound:
  assumes "map_of string_fields f = Some upd" "valid_utf8 s" "sound_record r"
  shows "sound_record (upd (\<lambda>_. s) r)"
  using assms by (auto simp: string_fields_def sound_record_def in_range_def split: if_splits)

lemma parse_uint_range: "parse_uint l = Some n \<Longrightarrow> n < 2 ^ 64"
  by (auto simp: parse_uint_def split: if_splits)

lemma atoi_range: "atoi l = Some i \<Longrightarrow> is_int64 i"
  by (auto simp: atoi_def Let_def split: if_splits)

lemma set_field_sound:
  assumes "set_field k v r = Some r'" "str_ok v" "sound_record r"
  shows "sound_record r'"
proof (cases "\<exists>s. v = JStr s")
  case True
  then show ?thesis using assms
    by (auto simp: set_field_def str_ok_def string_fields_sound split: option.splits)
next
  case False
  have n: "sound_record (r\<lparr>SchemaVersion := i\<rparr>)" "sound_record (r\<lparr>Sequence := m\<rparr>)"
    if "is_int64 i" "m < 2 ^ 64" for i m
    using assms(3) that by (simp_all add: sound_record_def in_range_def)
  have "is_int64 0" by (simp add: is_int64_def)
  then show ?thesis using assms False n(1) [of _ 0] n(2) [of 0]
    by (auto simp: set_field_def split: option.splits json.splits if_splits
        dest!: parse_uint_range atoi_range)
qed

lemma set_fields_sound:
  "set_fields ms r = Some r' \<Longrightarrow> \<forall>m \<in> set ms. str_ok (snd m) \<Longrightarrow> sound_record r \<Longrightarrow> sound_record r'"
  by (induction ms r rule: set_fields.induct) (auto split: option.splits dest: set_field_sound)

lemma unmarshal_sound:
  assumes "unmarshal_record s = Some r"
  shows "sound_record r"
proof -
  have z: "sound_record zero_record" by (simp add: sound_record_def in_range_def zero_record_def is_int64_def)
  show ?thesis
    using assms z parse_json_str_ok [of s]
    by (auto simp: unmarshal_record_def split: option.splits json.splits dest: set_fields_sound)
qed

lemma marshal_inject: "sound_record r \<Longrightarrow> sound_record q \<Longrightarrow> marshal_record r = marshal_record q \<Longrightarrow> r = q"
  by (metis option.inject sound_record_def sound_record_valid unmarshal_marshal)

section \<open>Tamper evidence\<close>

lemma hex_digit_inject: "m < 16 \<Longrightarrow> n < 16 \<Longrightarrow> hex_digit m = hex_digit n \<Longrightarrow> m = n"
  by (metis hex_val_digit option.inject)

lemma byte_high_digit: "byte c div 16 < 16"
  using nat_of_char_less_256 [of c] by (simp add: less_mult_imp_div_less)

lemma hex_encode_inject: "hex_encode s = hex_encode t \<Longrightarrow> s = t"
proof (induction s arbitrary: t)
  case Nil
  then show ?case by (cases t) (auto simp: hex_encode_def)
next
  case (Cons c s)
  then obtain e u where t: "t = e # u" by (cases t) (auto simp: hex_encode_def)
  have "byte c div 16 < 16" "byte e div 16 < 16" by (rule byte_high_digit)+
  moreover have "hex_digit (byte c div 16) = hex_digit (byte e div 16)"
    "hex_digit (byte c mod 16) = hex_digit (byte e mod 16)" "hex_encode s = hex_encode u"
    using Cons.prems t by (auto simp: hex_encode_def)
  ultimately have "byte c div 16 = byte e div 16" "byte c mod 16 = byte e mod 16" "s = u"
    using hex_digit_inject Cons.IH by auto
  then have "byte c = byte e" by (metis mult_div_mod_eq)
  then show ?case using t \<open>s = u\<close> by simp
qed

lemma hex_digit_range: "n < 16 \<Longrightarrow> between 48 57 (hex_digit n) \<or> between 97 102 (hex_digit n)"
  by (auto simp: hex_digit_def between_def)

lemma hex_encode_chars: "c \<in> set (hex_encode s) \<Longrightarrow> between 48 57 c \<or> between 97 102 c"
proof -
  assume "c \<in> set (hex_encode s)"
  then obtain b where "c = hex_digit (byte b div 16) \<or> c = hex_digit (byte b mod 16)"
    by (auto simp: hex_encode_def)
  then show ?thesis using hex_digit_range [OF byte_high_digit] hex_digit_range [of "byte b mod 16"] by auto
qed

text \<open>A chain of records from a previous hash and sequence number, and the hash it ends in.\<close>

fun chain_ok :: "(string \<Rightarrow> string) \<Rightarrow> string \<Rightarrow> nat \<Rightarrow> audit_record list \<Rightarrow> bool" where
  "chain_ok sha prev n [] = True"
| "chain_ok sha prev n (r # rs) \<longleftrightarrow>
     sound_record r \<and> Sequence r = wrap_u64 (n + 1) \<and> PrevHash r = prev
     \<and> RecordHash r = computeRecordHash sha prev r \<and> chain_ok sha (RecordHash r) (Sequence r) rs"

definition end_hash :: "string \<Rightarrow> audit_record list \<Rightarrow> string" where
  "end_hash prev rs = (if rs = [] then prev else RecordHash (last rs))"

definition end_seq :: "nat \<Rightarrow> audit_record list \<Rightarrow> nat" where
  "end_seq n rs = (if rs = [] then n else Sequence (last rs))"

lemma chain_ok_snoc:
  "chain_ok sha prev n (rs @ [r]) \<longleftrightarrow>
     chain_ok sha prev n rs \<and> sound_record r \<and> Sequence r = wrap_u64 (end_seq n rs + 1)
     \<and> PrevHash r = end_hash prev rs \<and> RecordHash r = computeRecordHash sha (end_hash prev rs) r"
  by (induction rs arbitrary: prev n) (auto simp: end_hash_def end_seq_def)

text \<open>The first byte of a record's text tells where the previous hash ends.\<close>

lemma marshal_Cons: "\<exists>t. marshal_record r = CHR 0x7B # t"
  by (simp add: marshal_record_def json_object_def)

lemma same_prev: "r\<lparr>PrevHash := PrevHash r, RecordHash := h\<rparr> = r\<lparr>RecordHash := h\<rparr>"
  by simp

lemma hash_input_inject:
  assumes "CHR 0x7B \<notin> set p" "CHR 0x7B \<notin> set q" "hash_input p r = hash_input q s"
  shows "p = q \<and> marshal_record (r\<lparr>PrevHash := p, RecordHash := []\<rparr>) = marshal_record (s\<lparr>PrevHash := q, RecordHash := []\<rparr>)"
proof -
  obtain t u where t: "marshal_record (r\<lparr>PrevHash := p, RecordHash := []\<rparr>) = CHR 0x7B # t"
      "marshal_record (s\<lparr>PrevHash := q, RecordHash := []\<rparr>) = CHR 0x7B # u"
    using marshal_Cons by blast
  have tw: "takeWhile (\<lambda>c. c \<noteq> CHR 0x7B) (x @ CHR 0x7B # y) = x" if "CHR 0x7B \<notin> set x" for x y
    using that by (induction x) auto
  have "p = q" using assms t tw by (metis hash_input_def)
  then show ?thesis using assms(3) by (simp add: hash_input_def)
qed

definition collision :: "(string \<Rightarrow> string) \<Rightarrow> audit_record list \<Rightarrow> audit_record list \<Rightarrow> bool" where
  "collision sha rs qs \<longleftrightarrow>
     (\<exists>r \<in> set rs. \<exists>q \<in> set qs. hash_input (PrevHash r) r \<noteq> hash_input (PrevHash q) q
        \<and> sha (hash_input (PrevHash r) r) = sha (hash_input (PrevHash q) q))"

definition hash_shape :: "string \<Rightarrow> bool" where
  "hash_shape h \<longleftrightarrow> h = GenesisHash \<or> (\<exists>s. h = hex_encode s)"

lemma hash_shape_brace: "hash_shape h \<Longrightarrow> CHR 0x7B \<notin> set h"
  using hex_encode_chars [of "CHR 0x7B"] by (auto simp: hash_shape_def GenesisHash_def between_def)

lemma chain_end_shape: "chain_ok sha GenesisHash n rs \<Longrightarrow> hash_shape (end_hash GenesisHash rs)"
proof (induction rs rule: rev_induct)
  case (snoc r rs)
  then show ?case
    by (auto simp: chain_ok_snoc hash_shape_def computeRecordHash_def end_hash_def)
qed (simp add: hash_shape_def end_hash_def)

lemma genesis_not_hex: "hex_encode s \<noteq> GenesisHash"
  using hex_encode_chars [of "CHR ''g''" s] by (auto simp: GenesisHash_def between_def)

lemmas genesis_not_hash = genesis_not_hex genesis_not_hex [symmetric]

lemma chain_unique:
  assumes "chain_ok sha GenesisHash n rs" "chain_ok sha GenesisHash m qs"
    and "end_hash GenesisHash rs = end_hash GenesisHash qs" "\<not> collision sha rs qs"
  shows "rs = qs"
  using assms
proof (induction rs arbitrary: qs rule: rev_induct)
  case Nil
  show ?case
  proof (cases qs rule: rev_cases)
    case (snoc qs' q)
    with Nil.prems show ?thesis
      by (auto simp: chain_ok_snoc end_hash_def computeRecordHash_def genesis_not_hash)
  qed simp
next
  case (snoc r rs)
  note r = snoc.prems(1) [unfolded chain_ok_snoc]
  show ?case
  proof (cases qs rule: rev_cases)
    case Nil
    with r snoc.prems(3) show ?thesis by (simp add: end_hash_def computeRecordHash_def genesis_not_hash)
  next
    case (snoc qs' q)
    note q = snoc.prems(2) [unfolded snoc chain_ok_snoc]
    have eq: "RecordHash r = RecordHash q" using snoc.prems(3) snoc by (simp add: end_hash_def)
    then have "sha (hash_input (PrevHash r) r) = sha (hash_input (PrevHash q) q)"
      using r q by (simp add: computeRecordHash_def hex_encode_inject)
    then have "hash_input (PrevHash r) r = hash_input (PrevHash q) q"
      using snoc.prems(4) snoc unfolding collision_def by force
    then have p: "PrevHash r = PrevHash q"
        "marshal_record (r\<lparr>RecordHash := []\<rparr>) = marshal_record (q\<lparr>RecordHash := []\<rparr>)"
      using hash_input_inject [of "PrevHash r" "PrevHash q" r q] r q hash_shape_brace chain_end_shape same_prev
      by metis+
    have "sound_record (x\<lparr>RecordHash := []\<rparr>)" if "sound_record x" for x
      using that by (simp add: sound_record_def in_range_def)
    then have "r\<lparr>RecordHash := []\<rparr> = q\<lparr>RecordHash := []\<rparr>" using p(2) r q marshal_inject by blast
    then have "r = q" using eq by (metis audit_record.surjective audit_record.update_convs(13))
    moreover have "rs = qs'"
      using snoc.IH [of qs'] r q p(1) snoc.prems(4) snoc unfolding collision_def by force
    ultimately show ?thesis using snoc by simp
  qed
qed

section \<open>Verification follows the chain\<close>

definition audit_records :: "string \<Rightarrow> audit_record list option" where
  "audit_records data = those (map unmarshal_record (fst (scan_lines False data)))"

lemma those_map_Some: "those (map f xs) = Some ys \<longleftrightarrow> map f xs = map Some ys"
  by (induction xs arbitrary: ys) (auto split: option.splits simp: map_eq_Cons_conv Cons_eq_map_conv)

text \<open>The result for a file whose lines are a chain.\<close>

definition chain_result :: "nat \<Rightarrow> nat \<Rightarrow> string \<Rightarrow> nat \<Rightarrow> audit_record list \<Rightarrow> verify_result" where
  "chain_result count firstSeq prev n rs =
     (if count + length rs = 0 then
        \<lparr>Status = StatusEmpty, RecordCount = 0, FirstSequence = 0, LastSequence = 0, LastHash = GenesisHash,
         FailureReason = No_Failure\<rparr>
      else
        \<lparr>Status = StatusPass, RecordCount = count + length rs,
         FirstSequence = (if count = 0 then Sequence (hd rs) else firstSeq), LastSequence = end_seq n rs,
         LastHash = end_hash prev rs, FailureReason = No_Failure\<rparr>)"

text \<open>The loop runs through a chain and is then at its end hash.\<close>

lemma verify_lines_skip:
  assumes "map unmarshal_record ls = map Some rs" "chain_ok sha prev n rs"
  shows "verify_lines sha e (ls @ ls') i prev count a n =
    verify_lines sha e ls' (i + length rs) (end_hash prev rs) (count + length rs)
      (if count = 0 \<and> rs \<noteq> [] then Sequence (hd rs) else a) (end_seq n rs)"
  using assms
proof (induction ls arbitrary: rs i prev count a n)
  case Nil
  then show ?case by (simp add: end_hash_def end_seq_def)
next
  case (Cons l ls)
  then obtain r rs' where rs: "rs = r # rs'" "unmarshal_record l = Some r" "map unmarshal_record ls = map Some rs'"
    by (cases rs) auto
  with Cons.prems(2) have c: "Sequence r = wrap_u64 (n + 1)" "PrevHash r = prev"
      "RecordHash r = computeRecordHash sha prev r" "chain_ok sha (RecordHash r) (Sequence r) rs'" by auto
  have "verify_lines sha e ((l # ls) @ ls') i prev count a n =
      verify_lines sha e (ls @ ls') (i + 1) (RecordHash r) (count + 1) (if count = 0 then Sequence r else a) (Sequence r)"
    using rs(2) c(1-3) by (simp add: Let_def)
  also have "\<dots> = verify_lines sha e ls' (i + 1 + length rs') (end_hash (RecordHash r) rs') (count + 1 + length rs')
      (if count + 1 = 0 \<and> rs' \<noteq> [] then Sequence (hd rs') else if count = 0 then Sequence r else a)
      (end_seq (Sequence r) rs')"
    by (rule Cons.IH [OF rs(3) c(4)])
  finally show ?case using rs(1) by (simp add: end_hash_def end_seq_def)
qed

lemma verify_lines_chain:
  assumes "map unmarshal_record ls = map Some rs" "chain_ok sha prev n rs"
  shows "verify_lines sha False ls i prev count firstSeq n = chain_result count firstSeq prev n rs"
  using verify_lines_skip [OF assms, of False "[]"]
  by (auto simp: chain_result_def end_hash_def end_seq_def)

text \<open>A chain followed by a last line that is no JSON; with more lines behind, the file is refused.\<close>

lemma verify_lines_torn:
  assumes "map unmarshal_record ls = map Some rs" "chain_ok sha prev n rs" "unmarshal_record l = None"
  shows "Status (verify_lines sha False (ls @ [l]) i prev count firstSeq n) = StatusTruncatedTail
    \<and> LastHash (verify_lines sha False (ls @ [l]) i prev count firstSeq n) = end_hash prev rs
    \<and> LastSequence (verify_lines sha False (ls @ [l]) i prev count firstSeq n) = end_seq n rs"
  using verify_lines_skip [OF assms(1,2), of False "[l]"] assms(3) by simp

lemma verify_lines_broken:
  assumes "map unmarshal_record ls = map Some rs" "chain_ok sha prev n rs" "unmarshal_record l = None" "ls' \<noteq> []"
  shows "Status (verify_lines sha e (ls @ l # ls') i prev count firstSeq n) = StatusCorrupt"
  using verify_lines_skip [OF assms(1,2), of e "l # ls'"] assms(3,4) by simp

text \<open>Only a chain passes.\<close>

lemma verify_lines_pass:
  "Status (verify_lines sha e ls i prev count firstSeq n) = StatusPass \<Longrightarrow>
     \<not> e \<and> (\<exists>rs. map unmarshal_record ls = map Some rs \<and> chain_ok sha prev n rs)"
proof (induction ls arbitrary: i prev count firstSeq n)
  case Nil
  then show ?case by (simp split: if_splits)
next
  case (Cons l ls)
  then obtain r where r: "unmarshal_record l = Some r" "Sequence r = wrap_u64 (n + 1)" "PrevHash r = prev"
      "computeRecordHash sha prev r = RecordHash r"
    by (simp add: Let_def split: option.splits if_splits)
  with Cons.prems have "Status (verify_lines sha e ls (i + 1) (RecordHash r) (count + 1)
      (if count = 0 then Sequence r else firstSeq) (Sequence r)) = StatusPass"
    by (simp add: Let_def)
  from Cons.IH [OF this] obtain rs where "\<not> e" "map unmarshal_record ls = map Some rs"
      "chain_ok sha (RecordHash r) (Sequence r) rs" by auto
  with r show ?case using unmarshal_sound [OF r(1)]
    by (intro conjI exI [of _ "r # rs"]) (simp_all add: wrap_u64_def)
qed

lemma verifyReader_pass:
  assumes "Status (verifyReader sha e data) = StatusPass"
  shows "\<exists>rs. audit_records data = Some rs \<and> chain_ok sha GenesisHash 0 rs
    \<and> LastHash (verifyReader sha e data) = end_hash GenesisHash rs"
proof -
  obtain ls se where s: "scan_lines e data = (ls, se)" by fastforce
  have pass: "Status (verify_lines sha se ls 0 GenesisHash 0 0 0) = StatusPass"
    using assms s by (simp add: verifyReader_def)
  from verify_lines_pass [OF this] obtain rs where rs: "\<not> se" "map unmarshal_record ls = map Some rs"
      "chain_ok sha GenesisHash 0 rs" by auto
  have res: "verifyReader sha e data = chain_result 0 0 GenesisHash 0 rs"
    using s rs(1) verify_lines_chain [OF rs(2,3)] by (simp add: verifyReader_def)
  moreover have "fst (scan_lines False data) = ls" using s by (auto simp: scan_lines_def Let_def)
  then have "audit_records data = Some rs" using rs(2) by (simp add: audit_records_def those_map_Some)
  moreover have "rs \<noteq> []" using res assms by (auto simp: chain_result_def)
  ultimately show ?thesis using rs(3) by (auto simp: chain_result_def)
qed

text \<open>C8. Tamper evidence. If two journal files both verify as PASS and end in the same hash, they hold the same
  records, or the text that was hashed for one of their records collides under SHA-256. So a journal whose
  last hash is known cannot be modified, reordered or shortened without verification noticing.\<close>

theorem audit_tamper_evidence:
  assumes "Status (verifyReader sha e1 d1) = StatusPass" "Status (verifyReader sha e2 d2) = StatusPass"
    and "LastHash (verifyReader sha e1 d1) = LastHash (verifyReader sha e2 d2)"
    and "audit_records d1 = Some rs" "audit_records d2 = Some qs"
  shows "rs = qs \<or> collision sha rs qs"
  using verifyReader_pass [OF assms(1)] verifyReader_pass [OF assms(2)] assms(3-5) chain_unique [of sha 0 rs 0 qs]
  by auto

end
