(* ===== verification/Go_Json_Torn.thy ===== *)
theory Go_Json_Torn
  imports Go_Json
begin

text \<open>
  A JSON object cut at any byte and followed by another object, as a failed write followed by a complete
  one leaves it in a file of lines: the decoder refuses the glued text wherever the cut is. In a string the
  quote of the second object's first key closes it, so that its letters stand where a separator is due.
\<close>

section \<open>A string that is cut\<close>

text \<open>The first bytes of the second object: the brace, the quote and the first letter of its first key.\<close>

definition opens_object :: "string \<Rightarrow> bool" where
  "opens_object q \<longleftrightarrow> (\<exists>c t. q = CHR 0x7B # CHR 0x22 # c # t \<and> \<not> is_space c \<and> c \<notin> {CHR '':'', CHR '','', CHR 0x7D})"

lemma get_u4_cut: "get_u4 (s @ CHR 0x7B # q) = map_option (\<lambda>(r, t). (r, t @ CHR 0x7B # q)) (get_u4 s)"
proof -
  have h: "hex_val (CHR 0x7B) = None" by (simp add: hex_val_def between_def)
  consider "s = []" | a where "s = [a]" | a b where "s = [a, b]" | a b c where "s = [a, b, c]"
    | a b c d t where "s = a # b # c # d # t"
    by (metis neq_Nil_conv)
  then show ?thesis by cases (auto simp: get_u4_def h split: option.splits list.splits)
qed

lemma decode_surrogate_cut:
  "decode_surrogate r (s @ CHR 0x7B # q) = map_prod id (\<lambda>t. t @ CHR 0x7B # q) (decode_surrogate r s)"
proof -
  consider "s = []" | a where "s = [a]" | a b t where "s = a # b # t" by (metis neq_Nil_conv)
  then show ?thesis
    by cases (auto simp: decode_surrogate_def get_u4_cut split: option.splits list.splits)
qed

lemma unescape_cut:
  "unescape (s @ CHR 0x7B # q) = map_option (map_prod id (\<lambda>t. t @ CHR 0x7B # q)) (unescape s)"
  by (cases s) (auto simp: unescape_def get_u4_cut decode_surrogate_cut split: option.splits)

lemma rune_len_brace:
  assumes "s \<noteq> []" "rune_len s = 0"
  shows "rune_len (s @ CHR 0x7B # q) = 0"
proof (rule ccontr)
  assume "rune_len (s @ CHR 0x7B # q) \<noteq> 0"
  then have n: "rune_len ((s @ [CHR 0x7B]) @ q) \<noteq> 0" by simp
  show False
  proof (cases "rune_len (s @ [CHR 0x7B]) = 0")
    case True
    then show False using rune_len_cut [OF True n, of "CHR 0x7B"] by simp
  next
    case False
    obtain b t where s: "s = b # t" using assms(1) by (cases s) auto
    have sz: "\<not> rune_size b \<le> 1" "rune_size b \<le> Suc (length s)" "second_ok b (hd (t @ [CHR 0x7B]))"
      "list_all (between 0x80 0xBF) (take (rune_size b - 2) (tl (t @ [CHR 0x7B])))"
      using False assms(2) s by (auto simp: rune_len_def split: if_splits)
    have "rune_size b = Suc (length s)"
    proof (rule ccontr)
      assume "rune_size b \<noteq> Suc (length s)"
      then have "rune_size b \<le> length s" using sz(2) by simp
      then have "rune_len s \<noteq> 0" using s sz by (cases t) (auto simp: rune_len_def)
      then show False using assms(2) by simp
    qed
    moreover have "\<not> between 0x80 0xBF (CHR 0x7B)" "\<not> second_ok b (CHR 0x7B)"
      by (auto simp: between_def second_ok_def split: if_splits)
    ultimately show False using sz s by (cases t) auto
  qed
qed

text \<open>Either the string is closed inside the fragment, or the quote of the second object closes it.\<close>

lemma unquote_cut:
  assumes "unquote (p @ CHR 0x7B # CHR 0x22 # t) = Some (v, r)"
  shows "r = t \<or> unquote p \<noteq> None"
  using assms
proof (induction p arbitrary: v rule: unquote.induct)
  case (1 p)
  let ?q = "CHR 0x7B # CHR 0x22 # t"
  show ?case
  proof (cases "p = []")
    case True
    then show ?thesis using "1.prems" rune_len_ascii [of ?q]
      by (simp add: unquote.simps [of ?q] cons_value_def split: option.splits)
  next
    case ne: False
    then have hd: "hd (p @ ?q) = hd p" "tl (p @ ?q) = tl p @ ?q" "p @ ?q \<noteq> []" by simp_all
    consider (quote) "hd p = CHR 0x22" | (esc) "hd p \<noteq> CHR 0x22" "hd p = CHR 0x5C"
      | (bad) "hd p \<noteq> CHR 0x22" "hd p \<noteq> CHR 0x5C" "byte (hd p) < 0x20"
      | (invalid) "hd p \<noteq> CHR 0x22" "hd p \<noteq> CHR 0x5C" "\<not> byte (hd p) < 0x20" "rune_len p = 0"
      | (rune) "hd p \<noteq> CHR 0x22" "hd p \<noteq> CHR 0x5C" "\<not> byte (hd p) < 0x20" "rune_len p \<noteq> 0" by blast
    then show ?thesis
    proof cases
      case quote
      then show ?thesis using ne by (simp add: unquote.simps [of p])
    next
      case esc
      then obtain w u x where u: "unescape (tl p) = Some (w, u)" "unquote (u @ ?q) = Some (x, r)"
        using "1.prems" hd by (simp add: unquote.simps [of "p @ ?q"] unescape_cut cons_value_def map_prod_def split: option.splits prod.splits)
      from "1.IH"(1) [OF ne esc u(1) refl u(2)] show ?thesis
        using esc ne u(1) by (auto simp: unquote.simps [of p] cons_value_def)
    next
      case bad
      then show ?thesis using "1.prems" hd by (simp add: unquote.simps [of "p @ ?q"])
    next
      case invalid
      then obtain x where "unquote (tl p @ ?q) = Some (x, r)"
        using "1.prems" hd rune_len_brace [OF ne invalid(4)]
        by (auto simp: unquote.simps [of "p @ ?q"] cons_value_def)
      from "1.IH"(2) [OF ne invalid this] show ?thesis
        using invalid ne by (auto simp: unquote.simps [of p] cons_value_def)
    next
      case rune
      then obtain x where "unquote (drop (rune_len p) p @ ?q) = Some (x, r)"
        using "1.prems" hd rune_len_append [OF rune(4)] drop_rune_append [OF rune(4), of ?q]
        by (auto simp: unquote.simps [of "p @ ?q"] cons_value_def)
      from "1.IH"(3) [OF ne rune this] show ?thesis
        using rune ne by (auto simp: unquote.simps [of p] cons_value_def)
    qed
  qed
qed

text \<open>No prefix of the encoded bytes closes the string.\<close>

lemma unquote_prefix:
  assumes "quote_bytes s = p @ p'"
  shows "unquote p = None"
proof (rule ccontr)
  assume "unquote p \<noteq> None"
  then obtain v r where "unquote p = Some (v, r)" by auto
  from unquote_append [OF this, of "p' @ [CHR 0x22]"] show False
    using unquote_quote_bytes [of s "[]"] assms by simp
qed

lemma unquote_torn:
  assumes "quote_bytes s = p @ p'" "unquote (p @ CHR 0x7B # CHR 0x22 # t) = Some (v, r)"
  shows "r = t"
  using unquote_cut [OF assms(2)] unquote_prefix [OF assms(1)] by simp

section \<open>A value that is cut\<close>

definition broken_by :: "string \<Rightarrow> string \<Rightarrow> bool" where
  "broken_by q t \<longleftrightarrow>
     (\<forall>b b' d n v u. t = b @ b' \<longrightarrow> b \<noteq> [] \<longrightarrow> parse_value d n (b @ q) = Some (v, u) \<longrightarrow>
        \<not> starts (CHR '','') (skip_ws u) \<and> \<not> starts (CHR 0x7D) (skip_ws u))"

lemma broken_string:
  assumes "opens_object q"
  shows "broken_by q (json_quote s)"
  unfolding broken_by_def
proof (intro allI impI)
  fix b b' d n v u
  assume b: "json_quote s = b @ b'" "b \<noteq> []" and p: "parse_value d n (b @ q) = Some (v, u)"
  obtain c t where q: "q = CHR 0x7B # CHR 0x22 # c # t" "\<not> is_space c" "c \<notin> {CHR '':'', CHR '','', CHR 0x7D}"
    using assms by (auto simp: opens_object_def)
  obtain a where a: "b = CHR 0x22 # a" "quote_bytes s @ [CHR 0x22] = a @ b'"
    using b by (cases b) (auto simp: json_quote_def)
  obtain n' where n: "n = Suc n'" using p by (cases n) auto
  obtain w where un: "unquote (a @ q) = Some (w, u)" using p a(1) n by auto
  consider a' where "quote_bytes s = a @ a'" | "a = quote_bytes s @ [CHR 0x22]"
    using a(2) by (metis append_Nil2 append_butlast_last_id butlast_append butlast_snoc last_appendR last_snoc)
  then show "\<not> starts (CHR '','') (skip_ws u) \<and> \<not> starts (CHR 0x7D) (skip_ws u)"
  proof cases
    case 1
    then have "u = c # t" using unquote_torn un q(1) by metis
    then show ?thesis using q by auto
  next
    case 2
    then have "u = q" using un unquote_quote_bytes [of s q] by simp
    then show ?thesis using q by simp
  qed
qed

lemma scan_number_rest:
  assumes "list_all is_digit b" "b \<noteq> []" "scan_number (b @ CHR 0x7B # q) = Some (l, u)"
  shows "u \<noteq> [] \<and> (is_digit (hd u) \<or> hd u = CHR 0x7B)"
proof -
  obtain c b1 where b: "b = c # b1" "is_digit c" using assms(1,2) by (cases b) auto
  have brace: "\<not> is_digit (CHR 0x7B)" by (simp add: is_digit_def)
  have all: "takeWhile is_digit (b @ CHR 0x7B # q) = b" "dropWhile is_digit (b @ CHR 0x7B # q) = CHR 0x7B # q"
    using assms(1) brace by (simp_all add: list_all_iff takeWhile_append dropWhile_append)
  define s1 where "s1 = (if c = CHR ''0'' then b1 @ CHR 0x7B # q else CHR 0x7B # q)"
  have int: "\<exists>i. scan_int (b @ CHR 0x7B # q) = Some (i, s1)"
    using b all by (auto simp: scan_int_def s1_def)
  have s1: "s1 \<noteq> []" "is_digit (hd s1) \<or> hd s1 = CHR 0x7B"
    using assms(1) b(1) by (cases b1; auto simp: s1_def)+
  have d: "hd s1 \<noteq> CHR ''.''" "hd s1 \<noteq> CHR ''e''" "hd s1 \<noteq> CHR ''E''" "c \<noteq> CHR ''-''"
    using s1(2) b(2) by (auto simp: is_digit_def)
  then have "u = s1" using assms(3) int s1(1) b
    by (auto simp: scan_number_def scan_frac_def scan_exp_def split: option.splits)
  with s1 show ?thesis by simp
qed

lemma broken_number:
  assumes "opens_object q" "list_all is_digit t"
  shows "broken_by q t"
  unfolding broken_by_def
proof (intro allI impI)
  fix b b' d n v u
  assume b: "t = b @ b'" "b \<noteq> []" and p: "parse_value d n (b @ q) = Some (v, u)"
  obtain q' where q: "q = CHR 0x7B # q'" using assms(1) by (auto simp: opens_object_def)
  obtain c b1 where c: "b = c # b1" "is_digit c" using b assms(2) by (cases b) auto
  obtain n' where n: "n = Suc n'" using p by (cases n) auto
  obtain l where l: "scan_number (b @ CHR 0x7B # q') = Some (l, u)"
  proof -
    have "parse_value d n (b @ q) = parse_scalar (b @ q)" using c n digit_not_special [OF c(2)] by simp
    moreover have "parse_scalar (b @ q) = map_option (\<lambda>(l, t). (JNum l, t)) (scan_number (b @ q))"
      using c digit_not_special [OF c(2)] by (simp add: parse_scalar_def)
    ultimately have "map_option (\<lambda>(l, t). (JNum l, t)) (scan_number (b @ q)) = Some (v, u)" using p by metis
    then obtain x where "scan_number (b @ q) = Some x" "(\<lambda>(l, t). (JNum l, t)) x = (v, u)" by blast
    then show thesis using that [of "fst x"] by (simp add: q split: prod.splits)
  qed
  have "list_all is_digit b" using b(1) assms(2) by simp
  from scan_number_rest [OF this b(2) l] have "u \<noteq> []" "is_digit (hd u) \<or> hd u = CHR 0x7B" by blast+
  then show "\<not> starts (CHR '','') (skip_ws u) \<and> \<not> starts (CHR 0x7D) (skip_ws u)"
    using digit_not_special(1) by (cases u) (auto simp: is_digit_def)
qed

section \<open>An object that is cut\<close>

lemma append_split:
  assumes "a @ b = c @ d"
  shows "(\<exists>u. c = a @ u) \<or> (\<exists>u. a = c @ u \<and> u \<noteq> [] \<and> u @ b = d)"
proof (cases "length a \<le> length c")
  case True
  then show ?thesis using assms by (auto simp: append_eq_append_conv_if) (metis append_take_drop_id)
next
  case False
  then have "a = c @ drop (length c) a \<and> drop (length c) a \<noteq> [] \<and> drop (length c) a @ b = d"
    using assms by (auto simp: append_eq_append_conv_if) (metis append_take_drop_id)
  then show ?thesis by blast
qed

lemma opens_skip [simp]: "opens_object q \<Longrightarrow> skip_ws q = q"
  by (auto simp: opens_object_def)

lemma opens_starts: "opens_object q \<Longrightarrow> starts c q \<longleftrightarrow> c = CHR 0x7B"
  by (auto simp: opens_object_def)

lemma key_torn:
  assumes "opens_object q" "json_quote k = P @ P'"
  shows "parse_members d n (P @ q) = None"
proof (cases "n = 0 \<or> P = []")
  case True
  then show ?thesis using assms(1) by (cases n) (auto simp: opens_object_def)
next
  case False
  then obtain a n' where a: "P = CHR 0x22 # a" "quote_bytes k @ [CHR 0x22] = a @ P'" "n = Suc n'"
    using assms(2) by (cases P; cases n) (auto simp: json_quote_def)
  obtain c t where q: "q = CHR 0x7B # CHR 0x22 # c # t" "\<not> is_space c" "c \<notin> {CHR '':'', CHR '','', CHR 0x7D}"
    using assms(1) by (auto simp: opens_object_def)
  have "\<not> starts (CHR '':'') (skip_ws r)" if "unquote (a @ q) = Some (w, r)" for w r
  proof -
    consider a' where "quote_bytes k = a @ a'" | "a = quote_bytes k @ [CHR 0x22]"
      using a(2) by (metis append_Nil2 append_butlast_last_id butlast_append butlast_snoc last_appendR last_snoc)
    then show ?thesis
    proof cases
      case 1
      then have "r = c # t" using unquote_torn that q(1) by metis
      then show ?thesis using q by auto
    next
      case 2
      then have "r = q" using that unquote_quote_bytes [of k q] by simp
      then show ?thesis using q by simp
    qed
  qed
  then show ?thesis using a by (auto split: option.splits)
qed

text \<open>The second object, standing where a value is due, uses up the text.\<close>

definition uses_up :: "nat \<Rightarrow> string \<Rightarrow> bool" where
  "uses_up d q \<longleftrightarrow> (\<forall>n v u. parse_value d n q = Some (v, u) \<longrightarrow> u = [])"

lemma members_torn:
  assumes "opens_object q" "uses_up d q" "\<forall>m \<in> set ms. writes (fst (snd m)) (snd (snd m)) \<and> broken_by q (fst (snd m))"
    and "ms \<noteq> []" "members_text (map (\<lambda>(k, t, v). (k, t)) ms) = P @ P'"
  shows "parse_members d n (P @ q) = None"
  using assms(3-5)
proof (induction ms arbitrary: P n)
  case (Cons m ms)
  obtain k t v where m: "m = (k, t, v)" by (cases m)
  have w: "writes t v" "broken_by q t" using Cons.prems(1) m by simp_all
  then have t: "t \<noteq> []" "\<not> is_space (hd t)" by (simp_all add: writes_def)
  define rest where "rest = (if ms = [] then [] else CHR '','' # members_text (map (\<lambda>(k, t, v). (k, t)) ms))"
  have tx: "P @ P' = json_quote k @ CHR '':'' # t @ rest"
    using Cons.prems(3) m by (cases ms) (auto simp: rest_def)
  have un: "unquote (quote_bytes k @ CHR 0x22 # z) = Some (to_valid k, z)" for z by (rule unquote_quote_bytes)
  consider (key) x where "json_quote k = P @ x"
    | (val) b x where "P = json_quote k @ CHR '':'' # b" "t = b @ x"
    | (more) c where "P = json_quote k @ CHR '':'' # t @ CHR '','' # c" "ms \<noteq> []"
        "members_text (map (\<lambda>(k, t, v). (k, t)) ms) = c @ P'"
  proof -
    consider (in_key) us where "json_quote k = P @ us" | (behind) us where "P = json_quote k @ us" "us \<noteq> []" "us @ P' = CHR '':'' # t @ rest"
      using append_split [OF tx] by blast
    then show thesis
    proof cases
      case behind
      then obtain b where b: "us = CHR '':'' # b" "b @ P' = t @ rest" by (cases us) auto
      consider (in_val) x where "t = b @ x" | (over) y where "b = t @ y" "y \<noteq> []" "y @ P' = rest"
        using append_split [OF b(2)] by blast
      then show thesis
      proof cases
        case over
        then have "ms \<noteq> []" by (auto simp: rest_def)
        then obtain c where "y = CHR '','' # c" "c @ P' = members_text (map (\<lambda>(k, t, v). (k, t)) ms)"
          using over(2,3) by (cases y) (auto simp: rest_def)
        then show thesis using more [of c] over(1) behind(1) b(1) \<open>ms \<noteq> []\<close> by simp
      qed (use val behind(1) b(1) in blast)
    qed (rule key)
  qed
  then show ?case
  proof cases
    case key
    then show ?thesis by (rule key_torn [OF assms(1)])
  next
    case val
    have "parse_value d i (skip_ws (b @ q)) = Some (y, u) \<Longrightarrow>
        \<not> starts (CHR '','') (skip_ws u) \<and> \<not> starts (CHR 0x7D) (skip_ws u)" for i y u
    proof (cases "b = []")
      case True
      then show "parse_value d i (skip_ws (b @ q)) = Some (y, u) \<Longrightarrow>
        \<not> starts (CHR '','') (skip_ws u) \<and> \<not> starts (CHR 0x7D) (skip_ws u)"
        using assms(1,2) by (auto simp: uses_up_def simp del: parse_value.simps) (metis skip_ws_Nil starts_nonempty)+
    next
      case False
      then have "skip_ws (b @ q) = b @ q" using t val(2) by (intro skip_ws_id) auto
      then show "parse_value d i (skip_ws (b @ q)) = Some (y, u) \<Longrightarrow>
        \<not> starts (CHR '','') (skip_ws u) \<and> \<not> starts (CHR 0x7D) (skip_ws u)"
        using w(2) val(2) False unfolding broken_by_def by metis
    qed
    then show ?thesis using val(1) un
      by (cases n) (auto simp: json_quote_def split: option.splits)
  next
    case more
    have IH: "parse_members d i (c @ q) = None" for i
      using Cons.IH [OF _ more(2,3)] Cons.prems(1) by simp
    have sk: "skip_ws (c @ q) = c @ q"
    proof (cases c)
      case (Cons a c')
      then have "a = CHR 0x22" using more(2,3) by (cases ms; cases "tl ms") (auto simp: json_quote_def)
      then show ?thesis using Cons by simp
    qed (use assms(1) in simp)
    have pv: "parse_value d (Suc i) (skip_ws (t @ CHR '','' # c @ q)) = Some (v, CHR '','' # c @ q)" for i
      using w(1) t by (simp add: writes_def skip_ws_id del: parse_value.simps)
    have pv': "parse_value d i (skip_ws (t @ CHR '','' # c @ q)) \<in> {None, Some (v, CHR '','' # c @ q)}" for i
      using pv by (cases i) auto
    show ?thesis
    proof (cases n)
      case (Suc i)
      show ?thesis unfolding Suc parse_members.simps(2) more(1)
        using pv' [of i] IH [of i] sk by (auto simp: json_quote_def un simp del: parse_value.simps parse_members.simps)
    qed simp
  qed
qed simp

theorem glued_object:
  assumes "opens_object q" "uses_up 9999 q"
    and "\<forall>m \<in> set ms. writes (fst (snd m)) (snd (snd m)) \<and> broken_by q (fst (snd m))" "ms \<noteq> []"
    and "json_object (map (\<lambda>(k, t, v). (k, t)) ms) = p @ p'" "p \<noteq> []"
  shows "parse_json (p @ q) = None"
proof -
  let ?m = "map (\<lambda>(k, t, v). (k, t)) ms"
  obtain P where P: "p = CHR 0x7B # P" "P @ p' = members_text ?m @ [CHR 0x7D]"
    using assms(5,6) by (cases p) (auto simp: json_object_def)
  have big: "maxNestingDepth = Suc 9999" by (simp add: maxNestingDepth_def)
  have sk: "skip_ws (p @ q) = p @ q" using P(1) by simp
  consider (cut) x where "members_text ?m = P @ x" | (whole) "p = json_object ?m"
  proof -
    have "(\<exists>u. members_text ?m = P @ u) \<or> P = members_text ?m @ [CHR 0x7D]"
      using append_split [OF P(2)] by (auto simp: append_eq_Cons_conv)
    then show thesis using cut whole P(1) by (auto simp: json_object_def)
  qed
  then show ?thesis
  proof cases
    case cut
    have hd: "skip_ws (P @ q) = P @ q \<and> \<not> starts (CHR 0x7D) (P @ q)"
    proof (cases P)
      case (Cons a P1)
      then have "a = CHR 0x22" using cut assms(4) by (cases ms; cases "tl ms") (auto simp: json_quote_def)
      then show ?thesis using Cons by simp
    qed (use assms(1) opens_starts in simp)
    then have "parse_value (Suc 9999) (Suc n) (p @ q) = None" for n
      using members_torn [OF assms(1-4) cut] P(1) by simp
    then show ?thesis unfolding parse_json_def sk big by (simp del: parse_value.simps)
  next
    case whole
    obtain n where n: "2 * length (p @ q) = Suc n" "length ms \<le> n"
      using length_members_text [of ?m] whole by (auto simp: json_object_def)
    have "parse_value (Suc 9999) (Suc (Suc n)) (p @ q) = Some (JObj (map (\<lambda>(k, t, v). (to_valid k, v)) ms), q)"
      using parse_json_object(1) [OF assms(4) _ n(2), of 9999 q] assms(3) whole by (simp del: parse_value.simps)
    then have "parse_json (p @ q) = (if skip_ws q = [] then Some (JObj (map (\<lambda>(k, t, v). (to_valid k, v)) ms)) else None)"
      unfolding parse_json_def sk big n(1) by (simp only: option.case prod.case)
    then show ?thesis using assms(1) by (auto simp: opens_object_def)
  qed
qed

end
