(* ===== verification/AuditJournal_Recovery.thy ===== *)
theory AuditJournal_Recovery
  imports AuditJournal_Props Go_Json_Torn
begin

text \<open>
  The journal across appends, restarts and failed writes. The step relation \<open>audit_step\<close> interprets
  \<open>machine\<close>: appends of any record, with any outcome of the write and of the sync. Its invariant says
  that, as long as no append left something else in the file, the file is exactly the chain of the
  acknowledged records. A crash inside a write is recovered from; an append after a torn write or after a
  failed sync is not.
\<close>

section \<open>Lines of the file\<close>

lemma members_text_printable:
  "\<forall>m \<in> set ms. \<forall>c \<in> set (snd m). 0x20 \<le> byte c \<Longrightarrow> c \<in> set (members_text ms) \<Longrightarrow> 0x20 \<le> byte c"
  by (induction ms rule: members_text.induct) (auto simp: json_quote_def quote_bytes_printable)

lemma dec_printable: "c \<in> set (dec_of_nat n) \<Longrightarrow> 0x20 \<le> byte c"
  using dec_of_nat_digits [of n] by (auto simp: list_all_iff is_digit_def)

lemma marshal_printable: "c \<in> set (marshal_record r) \<Longrightarrow> 0x20 \<le> byte c"
proof -
  let ?ms = "map (\<lambda>(k, t, v). (k, t)) (record_members r)"
  have q: "\<forall>c \<in> set (json_quote s). 0x20 \<le> byte c" for s by (auto simp: json_quote_def quote_bytes_printable)
  have "\<forall>m \<in> set ?ms. \<forall>c \<in> set (snd m). 0x20 \<le> byte c"
    using q by (auto simp: record_members_def str_member_def omit_empty_def dec_of_int_def dec_printable)
  moreover assume "c \<in> set (marshal_record r)"
  ultimately show ?thesis using members_text_printable [of ?ms c]
    by (auto simp: marshal_record_def json_object_def)
qed

lemma marshal_newline: "newline \<notin> set (marshal_record r)"
  using marshal_printable [of newline r] by (auto simp: newline_def)

lemma raw_lines_line: "newline \<notin> set l \<Longrightarrow> raw_lines (l @ newline # t) = l # raw_lines t"
proof -
  assume "newline \<notin> set l"
  then have "takeWhile (\<lambda>c. c \<noteq> newline) (l @ newline # t) = l" "dropWhile (\<lambda>c. c \<noteq> newline) (l @ newline # t) = newline # t"
    by (induction l) auto
  then show ?thesis by (subst raw_lines.simps) simp
qed

lemma raw_lines_Nil [simp]: "raw_lines [] = []"
  by (simp add: raw_lines.simps)

lemma raw_lines_last: "newline \<notin> set l \<Longrightarrow> l \<noteq> [] \<Longrightarrow> raw_lines l = [l]"
proof -
  assume a: "newline \<notin> set l" "l \<noteq> []"
  then have w: "takeWhile (\<lambda>c. c \<noteq> newline) l = l" "dropWhile (\<lambda>c. c \<noteq> newline) l = []"
    by (auto simp: takeWhile_eq_all_conv)
  show ?thesis by (subst raw_lines.simps) (simp only: a w if_False list.sel raw_lines_Nil)
qed

definition journal_file :: "audit_record list \<Rightarrow> string" where
  "journal_file rs = concat (map jsonMarshalLine rs)"

lemma journal_file_snoc: "journal_file (rs @ [r]) = journal_file rs @ jsonMarshalLine r"
  by (simp add: journal_file_def)

lemma raw_lines_journal: "raw_lines (journal_file rs @ t) = map marshal_record rs @ raw_lines t"
  by (induction rs)
    (simp_all add: journal_file_def jsonMarshalLine_def raw_lines_line [OF marshal_newline] flip: newline_def)

definition fits :: "audit_record \<Rightarrow> bool" where
  "fits r \<longleftrightarrow> length (marshal_record r) \<le> maxLine"

lemma marshal_drop_cr: "drop_cr (marshal_record r) = marshal_record r"
  by (simp add: drop_cr_def marshal_record_def json_object_def)

lemma drop_cr_id: "CHR 0x0D \<notin> set t \<Longrightarrow> drop_cr t = t"
  unfolding drop_cr_def by (metis last_in_set)

lemma marshal_length: "16 < length (marshal_record r)"
proof -
  have "length (json_quote ''schema_version'') = 16" by code_simp
  then show ?thesis by (simp add: marshal_record_def json_object_def record_members_def)
qed

lemma marshal_nonempty: "marshal_record r \<noteq> []"
  using marshal_Cons [of r] by auto

text \<open>A file of records and a tail without newline, as the scanner sees it.\<close>

definition tail_lines :: "string \<Rightarrow> string list" where
  "tail_lines t = (if t = [] then [] else [t])"

lemma scan_lines_plain:
  assumes "\<forall>l \<in> set (raw_lines d). length l \<le> maxLine \<and> drop_cr l = l \<and> l \<noteq> []"
  shows "scan_lines False d = (raw_lines d, False)"
proof -
  have w: "takeWhile (\<lambda>l. length l \<le> maxLine) (raw_lines d) = raw_lines d"
    using assms by (simp add: takeWhile_eq_all_conv)
  have m: "map drop_cr (raw_lines d) = raw_lines d" using assms by (intro map_idI) simp
  have f: "filter (\<lambda>l. l \<noteq> []) (raw_lines d) = raw_lines d" using assms by (intro filter_True) simp
  show ?thesis unfolding scan_lines_def Let_def w m f by simp
qed

lemma scan_lines_journal:
  assumes "list_all fits rs" "newline \<notin> set t" "CHR 0x0D \<notin> set t" "length t \<le> maxLine"
  shows "scan_lines False (journal_file rs @ t) = (map marshal_record rs @ tail_lines t, False)"
proof -
  have raw: "raw_lines (journal_file rs @ t) = map marshal_record rs @ tail_lines t"
    using assms(2) raw_lines_last [of t] by (simp add: raw_lines_journal tail_lines_def)
  have "\<forall>l \<in> set (map marshal_record rs @ tail_lines t). length l \<le> maxLine \<and> drop_cr l = l \<and> l \<noteq> []"
    using assms drop_cr_id
    by (auto simp: list_all_iff fits_def tail_lines_def marshal_drop_cr marshal_nonempty)
  then show ?thesis using scan_lines_plain [of "journal_file rs @ t"] raw by simp
qed

lemma unmarshal_sound_lines: "list_all sound_record rs \<Longrightarrow> map unmarshal_record (map marshal_record rs) = map Some rs"
  by (auto simp: list_all_iff unmarshal_marshal sound_record_valid sound_record_def)

lemma chain_sound: "chain_ok sha p n rs \<Longrightarrow> list_all sound_record rs"
  by (induction sha p n rs rule: chain_ok.induct) auto

lemma verify_journal:
  assumes "chain_ok sha GenesisHash 0 rs" "list_all fits rs"
  shows "verifyReader sha False (journal_file rs) = chain_result 0 0 GenesisHash 0 rs"
  using scan_lines_journal [OF assms(2), of "[]"] unmarshal_sound_lines [OF chain_sound [OF assms(1)]]
    verify_lines_chain [OF _ assms(1)]
  by (simp add: verifyReader_def tail_lines_def)

text \<open>The text of a record without its newline counts as the record.\<close>

lemma verify_journal_unterminated:
  assumes "chain_ok sha GenesisHash 0 (rs @ [r])" "list_all fits (rs @ [r])"
  shows "verifyReader sha False (journal_file rs @ marshal_record r) = chain_result 0 0 GenesisHash 0 (rs @ [r])"
proof -
  have "CHR 0x0D \<notin> set (marshal_record r)" using marshal_printable by fastforce
  then have "scan_lines False (journal_file rs @ marshal_record r) = (map marshal_record (rs @ [r]), False)"
    using scan_lines_journal [of rs "marshal_record r"] assms(2) marshal_newline
    by (simp add: tail_lines_def marshal_nonempty fits_def)
  then show ?thesis
    using unmarshal_sound_lines [OF chain_sound [OF assms(1)]] verify_lines_chain [OF _ assms(1)]
    by (simp add: verifyReader_def)
qed

lemma marshal_prefix:
  assumes "marshal_record r = p @ q" "q \<noteq> []"
  shows "unmarshal_record p = None"
  using parse_json_prefix [OF record_members_nonempty members_write _ assms(2), of r p] assms(1)
  by (simp add: unmarshal_record_def marshal_record_def)

lemma verify_journal_torn:
  assumes "chain_ok sha GenesisHash 0 rs" "list_all fits rs" "fits r"
    and "marshal_record r = p @ q" "p \<noteq> []" "q \<noteq> []"
  defines "v \<equiv> verifyReader sha False (journal_file rs @ p)"
  shows "Status v = StatusTruncatedTail \<and> LastHash v = end_hash GenesisHash rs \<and> LastSequence v = end_seq 0 rs"
proof -
  have sub: "set p \<subseteq> set (marshal_record r)" using assms(4) by auto
  have "newline \<notin> set p" "CHR 0x0D \<notin> set p" using sub marshal_newline marshal_printable by fastforce+
  moreover have "length p \<le> maxLine" using assms(3,4) by (simp add: fits_def)
  ultimately have "scan_lines False (journal_file rs @ p) = (map marshal_record rs @ [p], False)"
    using scan_lines_journal [OF assms(2)] assms(5) by (simp add: tail_lines_def)
  then show ?thesis
    using verify_lines_torn [OF unmarshal_sound_lines [OF chain_sound [OF assms(1)]] assms(1) marshal_prefix [OF assms(4,6)]]
    by (simp add: v_def verifyReader_def)
qed

section \<open>Appending\<close>

text \<open>What \<open>Append\<close> is given that the chain can carry: valid UTF-8 in the fields it keeps and in the redacted
  reason, and a line that fits the reader's buffer.\<close>

definition acceptable :: "(string \<Rightarrow> string) \<Rightarrow> string \<Rightarrow> journal \<Rightarrow> audit_record \<Rightarrow> bool" where
  "acceptable sha now j r \<longleftrightarrow>
     list_all valid_utf8 [now, EventType r, Result r, EdgeID r, DeviceID r, CommandID r, RotationID r,
       ConfigVersion r, RedactSafeReason (SafeReason r)]
     \<and> fits (stamped sha now j r)"

lemma hash_shape_valid: "hash_shape h \<Longrightarrow> valid_utf8 h"
proof -
  assume "hash_shape h"
  then have "\<forall>c \<in> set h. byte c < 0x80"
    using hex_encode_chars by (fastforce simp: hash_shape_def GenesisHash_def between_def)
  then show ?thesis by (rule valid_ascii)
qed

lemma computeRecordHash_shape: "hash_shape (computeRecordHash sha p r)"
  by (auto simp: computeRecordHash_def hash_shape_def)

lemma computeRecordHash_clear: "computeRecordHash sha p (r\<lparr>RecordHash := h\<rparr>) = computeRecordHash sha p r"
  by (simp add: computeRecordHash_def hash_input_def)

lemma stamped_chain:
  assumes "chain_ok sha GenesisHash 0 rs" "lastHash j = end_hash GenesisHash rs" "jlastSeq j = end_seq 0 rs"
    and "acceptable sha now j r"
  shows "chain_ok sha GenesisHash 0 (rs @ [stamped sha now j r])"
proof -
  let ?s = "stamped sha now j r"
  have shape: "hash_shape (lastHash j)" using chain_end_shape [OF assms(1)] assms(2) by simp
  have f: "Sequence ?s = wrap_u64 (jlastSeq j + 1)" "PrevHash ?s = lastHash j"
    "RecordHash ?s = computeRecordHash sha (lastHash j) ?s"
    by (simp_all add: stamped_def Let_def computeRecordHash_clear)
  have "valid_utf8 (RecordHash ?s)" unfolding f(3) by (rule hash_shape_valid [OF computeRecordHash_shape])
  then have "sound_record ?s"
    using assms(4) hash_shape_valid [OF shape] wrap_u64_lt
    by (simp add: stamped_def Let_def sound_record_def in_range_def acceptable_def audit_SchemaVersion_def is_int64_def)
  with f assms show ?thesis by (simp add: chain_ok_snoc)
qed

section \<open>The journal as a machine\<close>

record audit_state =
  as_file :: "string option"
  as_mem :: "journal option"
  as_acked :: "audit_record list"
  as_clean :: bool

text \<open>An append that leaves a journal that can be read back: complete and of an acceptable record, or failed
  before its first byte reached the file.\<close>

definition harmless :: "(string \<Rightarrow> string) \<Rightarrow> string \<Rightarrow> journal \<Rightarrow> write_outcome \<Rightarrow> bool \<Rightarrow> audit_record \<Rightarrow> bool" where
  "harmless sha now j w sync_ok r \<longleftrightarrow> acceptable sha now j r \<and> w = Wrote \<and> sync_ok \<or> w = Write_Error 0"

text \<open>Processes open the journal, with whatever the disk answers; append any record, with any outcome of the
  write and of the sync; and end. \<open>as_acked\<close> collects the records \<open>Append\<close> returned without error, and
  \<open>as_clean\<close> remembers whether every append was harmless.\<close>

inductive audit_step :: "(string \<Rightarrow> string) \<Rightarrow> audit_state \<Rightarrow> audit_state \<Rightarrow> bool" for sha where
  opened: "as_mem s = None \<Longrightarrow> Journal_Open sha oo (as_file s) = (res, f) \<Longrightarrow>
     audit_step sha s (s\<lparr>as_file := f, as_mem := (case res of Inl _ \<Rightarrow> None | Inr j \<Rightarrow> Some j)\<rparr>)"
| appended: "as_mem s = Some j \<Longrightarrow> as_file s = Some f \<Longrightarrow>
     Journal_Append sha now at w sync_ok r j f = (res, j', f') \<Longrightarrow>
     audit_step sha s (s\<lparr>as_file := Some f', as_mem := Some j',
       as_acked := as_acked s @ (case res of Inl _ \<Rightarrow> [] | Inr rec \<Rightarrow> [rec]),
       as_clean := as_clean s \<and> harmless sha now j w sync_ok r\<rparr>)"
| ended: "audit_step sha s (s\<lparr>as_mem := None\<rparr>)"

definition empty_state :: audit_state where
  "empty_state = \<lparr>as_file = None, as_mem = None, as_acked = [], as_clean = True\<rparr>"

definition audit_init :: "audit_state \<Rightarrow> bool" where
  "audit_init s \<longleftrightarrow> s = empty_state"

definition file_bytes :: "string option \<Rightarrow> string" where
  "file_bytes f = (case f of None \<Rightarrow> [] | Some d \<Rightarrow> d)"

definition audit_inv :: "(string \<Rightarrow> string) \<Rightarrow> audit_state \<Rightarrow> bool" where
  "audit_inv sha s \<longleftrightarrow> as_clean s \<longrightarrow>
     file_bytes (as_file s) = journal_file (as_acked s) \<and> chain_ok sha GenesisHash 0 (as_acked s)
     \<and> list_all fits (as_acked s)
     \<and> (case as_mem s of None \<Rightarrow> True
        | Some j \<Rightarrow> as_file s \<noteq> None \<and> lastHash j = end_hash GenesisHash (as_acked s)
            \<and> jlastSeq j = end_seq 0 (as_acked s))"

lemma verify_lines_scan_error: "Status (verify_lines sha True ls i p c a n) = StatusCorrupt"
  by (induction ls arbitrary: i p c a n) (auto simp: Let_def split: option.splits)

lemma recover_chain:
  assumes "chain_ok sha GenesisHash 0 rs" "list_all fits rs" "file_bytes f = journal_file rs"
    and "recoverState sha rd f = Inr (h, n, st)"
  shows "h = end_hash GenesisHash rs \<and> n = end_seq 0 rs \<and> st = HealthHealthy"
proof (cases f)
  case None
  then have "rs = []" using assms(3) by (cases rs) (auto simp: file_bytes_def journal_file_def jsonMarshalLine_def)
  then show ?thesis using assms(4) None by (auto simp: recoverState_def VerifyFile_def end_hash_def end_seq_def)
next
  case (Some d)
  then have v: "verifyReader sha False d = chain_result 0 0 GenesisHash 0 rs"
    using verify_journal [OF assms(1,2)] assms(3) by (simp add: file_bytes_def)
  have "Status (verifyReader sha True x) = StatusCorrupt" for x
    by (simp add: verifyReader_def scan_lines_def Let_def verify_lines_scan_error)
  then have rd: "rd = Read_All"
    using assms(4) Some by (cases rd) (auto simp: recoverState_def VerifyFile_def)
  then show ?thesis using assms(4) Some v
    by (auto simp: recoverState_def VerifyFile_def chain_result_def end_hash_def end_seq_def split: if_splits)
qed

lemma opened_inv:
  assumes "audit_inv sha s" "Journal_Open sha oo (as_file s) = (res, f)"
  shows "audit_inv sha (s\<lparr>as_file := f, as_mem := (case res of Inl _ \<Rightarrow> None | Inr j \<Rightarrow> Some j)\<rparr>)"
proof (cases "as_clean s")
  case True
  note i = assms(1) [unfolded audit_inv_def, rule_format, OF True]
  have f: "file_bytes f = file_bytes (as_file s)"
    using assms(2) by (auto simp: Journal_Open_def Let_def file_bytes_def split: if_splits sum.splits option.splits)
  show ?thesis
  proof (cases res)
    case (Inr j)
    then obtain h n st where "recoverState sha (reading oo) (as_file s) = Inr (h, n, st)" "j = newJournal h n st" "f \<noteq> None"
      using assms(2) by (auto simp: Journal_Open_def Let_def split: if_splits sum.splits)
    with recover_chain [of sha "as_acked s" "as_file s"] i f Inr show ?thesis
      by (auto simp: audit_inv_def newJournal_def)
  qed (use i f in \<open>simp add: audit_inv_def\<close>)
qed (simp add: audit_inv_def)

lemma appended_inv:
  assumes "audit_inv sha s" "as_mem s = Some j" "as_file s = Some f"
    and "Journal_Append sha now at w sync_ok r j f = (res, j', f')"
  shows "audit_inv sha (s\<lparr>as_file := Some f', as_mem := Some j',
       as_acked := as_acked s @ (case res of Inl _ \<Rightarrow> [] | Inr rec \<Rightarrow> [rec]),
       as_clean := as_clean s \<and> harmless sha now j w sync_ok r\<rparr>)"
proof (cases "as_clean s \<and> harmless sha now j w sync_ok r")
  case True
  note i = assms(1) [unfolded audit_inv_def, rule_format, OF conjunct1 [OF True]]
  from True consider (complete) "acceptable sha now j r" "w = Wrote" "sync_ok" | (nothing) "w = Write_Error 0"
    by (auto simp: harmless_def)
  then show ?thesis
  proof cases
    case complete
    define rec where "rec = stamped sha now j r"
    then have e: "res = Inr rec" "f' = f @ jsonMarshalLine rec" "lastHash j' = RecordHash rec" "jlastSeq j' = Sequence rec"
      using assms(4) complete by (auto simp: Journal_Append_def Let_def written_def)
    have c: "chain_ok sha GenesisHash 0 (as_acked s @ [rec])"
      using stamped_chain [of sha "as_acked s" j now r] i assms(2) complete(1) rec_def by simp
    have "fits rec" using complete(1) rec_def by (simp add: acceptable_def)
    with c e i assms show ?thesis
      by (simp add: audit_inv_def file_bytes_def journal_file_snoc end_hash_def end_seq_def)
  next
    case nothing
    then have "res = Inl Err_Write" "f' = f" "j' = j\<lparr>jhealth := HealthWriteFailed\<rparr>"
      using assms(4) by (auto simp: Journal_Append_def Let_def written_def)
    with i assms(2,3) show ?thesis by (simp add: audit_inv_def)
  qed
qed (auto simp: audit_inv_def)

interpretation audit: machine audit_init "audit_step sha" "audit_inv sha" for sha
proof unfold_locales
  fix s t
  show "audit_init s \<Longrightarrow> audit_inv sha s"
    by (simp add: audit_init_def empty_state_def audit_inv_def file_bytes_def journal_file_def)
  assume inv: "audit_inv sha s" and "audit_step sha s t"
  from \<open>audit_step sha s t\<close> show "audit_inv sha t"
  proof cases
    case (opened oo res f)
    then show ?thesis using opened_inv [OF inv] by simp
  next
    case (appended j f now at w sync_ok r res j' f')
    then show ?thesis using appended_inv [OF inv] by simp
  next
    case ended
    then show ?thesis using inv by (simp add: audit_inv_def)
  qed
qed

lemma clean_state:
  assumes "audit_init s0" "(audit_step sha)\<^sup>*\<^sup>* s0 s" "as_clean s" "as_mem s = Some j" "as_file s = Some f"
  shows "f = journal_file (as_acked s)" "chain_ok sha GenesisHash 0 (as_acked s)" "list_all fits (as_acked s)"
    "lastHash j = end_hash GenesisHash (as_acked s)" "jlastSeq j = end_seq 0 (as_acked s)"
  using audit.invar_reachable [OF assms(1,2)] assms(3-5) by (simp_all add: audit_inv_def file_bytes_def)

lemma audit_records_journal:
  assumes "chain_ok sha GenesisHash 0 rs" "list_all fits rs"
  shows "audit_records (journal_file rs) = Some rs"
  using scan_lines_journal [OF assms(2), of "[]"] unmarshal_sound_lines [OF chain_sound [OF assms(1)]]
  by (simp add: audit_records_def those_map_Some tail_lines_def)

lemma open_recovers:
  assumes "Status (verifyReader sha False d) \<noteq> StatusCorrupt"
  shows "Journal_Open sha no_fault (Some d) =
    (Inr (newJournal (LastHash (verifyReader sha False d)) (LastSequence (verifyReader sha False d))
       (if Status (verifyReader sha False d) = StatusTruncatedTail then HealthDegraded else HealthHealthy)), Some d)"
  using assms
  by (cases "Status (verifyReader sha False d)")
    (simp_all add: Journal_Open_def no_fault_def recoverState_def VerifyFile_def)

text \<open>What \<open>Open\<close> finds after a crash that let \<open>k\<close> bytes of the line reach the file.\<close>

lemma open_after_crash:
  assumes "chain_ok sha GenesisHash 0 (rs @ [r])" "list_all fits (rs @ [r])" "k \<le> length (jsonMarshalLine r)"
  defines "kept \<equiv> if k < length (marshal_record r) then rs else rs @ [r]"
    and "f \<equiv> journal_file rs @ take k (jsonMarshalLine r)"
  shows "Journal_Open sha no_fault (Some f) =
    (Inr (newJournal (end_hash GenesisHash kept) (end_seq 0 kept)
       (if 0 < k \<and> k < length (marshal_record r) then HealthDegraded else HealthHealthy)), Some f)"
proof -
  let ?v = "verifyReader sha False f"
  have c: "chain_ok sha GenesisHash 0 rs" "list_all fits rs" using assms(1,2) by (simp_all add: chain_ok_snoc)
  have pass: "Status (chain_result 0 0 GenesisHash 0 xs) \<in> {StatusEmpty, StatusPass}
      \<and> LastHash (chain_result 0 0 GenesisHash 0 xs) = end_hash GenesisHash xs
      \<and> LastSequence (chain_result 0 0 GenesisHash 0 xs) = end_seq 0 xs" for xs
    by (auto simp: chain_result_def end_hash_def end_seq_def)
  consider (none) "k = 0" | (torn) "0 < k" "k < length (marshal_record r)" | (whole) "k = length (marshal_record r)"
    | (all) "k = Suc (length (marshal_record r))"
    using assms(3) by (auto simp: jsonMarshalLine_def) linarith
  then show ?thesis
  proof cases
    case none
    then have "?v = chain_result 0 0 GenesisHash 0 rs" using verify_journal [OF c] by (simp add: f_def)
    then show ?thesis using open_recovers [of sha f] pass [of rs] none marshal_nonempty [of r]
      by (auto simp: kept_def)
  next
    case torn
    have "take k (jsonMarshalLine r) = take k (marshal_record r)" using torn by (simp add: jsonMarshalLine_def)
    then have "Status ?v = StatusTruncatedTail \<and> LastHash ?v = end_hash GenesisHash rs \<and> LastSequence ?v = end_seq 0 rs"
      using verify_journal_torn [OF c, of r "take k (marshal_record r)" "drop k (marshal_record r)"] assms(2) torn marshal_nonempty [of r]
      by (simp add: f_def)
    then show ?thesis using open_recovers [of sha f] torn by (simp add: kept_def)
  next
    case whole
    then have "?v = chain_result 0 0 GenesisHash 0 (rs @ [r])"
      using verify_journal_unterminated [OF assms(1,2)] by (simp add: f_def jsonMarshalLine_def)
    then show ?thesis using open_recovers [of sha f] pass [of "rs @ [r]"] whole by (auto simp: kept_def)
  next
    case all
    then have "f = journal_file (rs @ [r])" by (simp add: f_def journal_file_snoc jsonMarshalLine_def)
    then have "?v = chain_result 0 0 GenesisHash 0 (rs @ [r])" using verify_journal [OF assms(1,2)] by simp
    then show ?thesis using open_recovers [of sha f] pass [of "rs @ [r]"] all by (auto simp: kept_def)
  qed
qed

text \<open>C4. Crash recovery. Take any state reached by opening the journal with any answers of the disk, appending any
  records with any outcome of the writes and syncs, and ending the process at any point, in which every
  append so far was complete and of valid UTF-8, or failed before its first byte reached the file. Then the
  file decodes to exactly the acknowledged records. If the process now dies with the first k bytes of a
  further record written, the next \<open>Open\<close> succeeds without touching the file: it continues
  after the acknowledged records, or after the new one as soon as all of its bytes but the newline are there,
  and it reports the journal as degraded exactly when the record is incomplete.\<close>

theorem audit_crash_recovery:
  assumes "audit_init s0" "(audit_step sha)\<^sup>*\<^sup>* s0 s" "as_clean s" "as_mem s = Some j" "as_file s = Some f"
    and "acceptable sha now j r" "rec = stamped sha now j r" "k \<le> length (jsonMarshalLine rec)"
  shows "audit_records f = Some (as_acked s) \<and>
    Journal_Open sha no_fault (Some (f @ take k (jsonMarshalLine rec))) =
      (let kept = (if k < length (marshal_record rec) then as_acked s else as_acked s @ [rec])
       in (Inr (newJournal (end_hash GenesisHash kept) (end_seq 0 kept)
             (if 0 < k \<and> k < length (marshal_record rec) then HealthDegraded else HealthHealthy)),
           Some (f @ take k (jsonMarshalLine rec))))"
proof -
  note i = clean_state [OF assms(1-5)]
  have "chain_ok sha GenesisHash 0 (as_acked s @ [rec])" "list_all fits (as_acked s @ [rec])"
    using stamped_chain [OF i(2,4,5) assms(6)] i(3) assms(6,7) by (simp_all add: acceptable_def)
  from open_after_crash [OF this assms(8)] i(1) audit_records_journal [OF i(2,3)]
  show ?thesis by (simp add: Let_def)
qed

section \<open>Appending after a torn write\<close>

lemma marshal_opens: "opens_object (marshal_record r)"
  by (simp add: opens_object_def marshal_record_def json_object_def record_members_def str_member_def
      json_quote_def quote_bytes.simps [of "''schema_version''"] escape_ascii_def is_space_def)

lemma marshal_uses_up: "0 < e \<Longrightarrow> uses_up e (marshal_record r)"
  unfolding uses_up_def
proof (intro allI impI)
  fix n v u
  assume "0 < e" "parse_value e n (marshal_record r) = Some (v, u)"
  then obtain d where p: "parse_value (Suc d) n (marshal_record r) = Some (v, u)" by (cases e) auto
  obtain t where t: "marshal_record r = CHR 0x7B # t" using marshal_Cons by blast
  then have "\<not> is_num v" using p by (cases n) (auto simp: is_num_def split: if_splits)
  then have "parse_value (Suc d) (Suc (Suc (n + length (record_members r)))) (marshal_record r) = Some (v, u)"
    using parse_append(1) [OF p, of "Suc (Suc (n + length (record_members r)))" "[]"] by simp
  moreover have "\<exists>v. parse_value (Suc d) (Suc (Suc (n + length (record_members r)))) (marshal_record r) = Some (v, [])"
    using parse_json_object(1) [OF record_members_nonempty members_write, of r _ d "[]"]
    by (simp add: marshal_record_def del: parse_value.simps)
  ultimately show "u = []" by auto
qed

lemma members_broken:
  assumes "0 \<le> SchemaVersion r" "opens_object q"
  shows "\<forall>m \<in> set (record_members r). broken_by q (fst (snd m))"
  using assms broken_string [OF assms(2)] broken_number [OF assms(2) dec_of_nat_digits]
  by (simp add: record_members_def str_member_def omit_empty_def dec_of_int_def)

text \<open>A record cut at any byte and a whole one behind it are no JSON text.\<close>

lemma glued_line:
  assumes "0 \<le> SchemaVersion r0" "0 < k" "k \<le> length (marshal_record r0)"
  shows "unmarshal_record (take k (marshal_record r0) @ marshal_record r) = None"
proof -
  have "parse_json (take k (marshal_record r0) @ marshal_record r) = None"
    by (rule glued_object [where ms = "record_members r0" and p' = "drop k (marshal_record r0)", OF marshal_opens marshal_uses_up])
      (use assms members_write members_broken [OF assms(1) marshal_opens] record_members_nonempty marshal_nonempty
        in \<open>auto simp: marshal_record_def\<close>)
  then show ?thesis by (simp add: unmarshal_record_def)
qed

lemma scan_lines_torn:
  fixes r0 :: audit_record
  assumes "list_all fits (rs @ qs)" "k + length (marshal_record r) \<le> maxLine"
  defines "p \<equiv> take k (marshal_record r0)"
  shows "scan_lines False (journal_file rs @ p @ jsonMarshalLine r @ journal_file qs) =
     (map marshal_record rs @ (p @ marshal_record r) # map marshal_record qs, False)"
proof -
  have sub: "set p \<subseteq> set (marshal_record r0)" unfolding p_def by (rule set_take_subset)
  have n: "newline \<notin> set (p @ marshal_record r)" using marshal_newline sub by auto
  have "raw_lines ((p @ marshal_record r) @ newline # journal_file qs) =
      (p @ marshal_record r) # raw_lines (journal_file qs)" by (rule raw_lines_line [OF n])
  then have raw: "raw_lines (journal_file rs @ p @ jsonMarshalLine r @ journal_file qs) =
      map marshal_record rs @ (p @ marshal_record r) # map marshal_record qs"
    using raw_lines_journal [of qs "[]"] by (simp add: raw_lines_journal jsonMarshalLine_def newline_def)
  have "CHR 0x0D \<notin> set (p @ marshal_record r)" using marshal_printable [of "CHR 0x0D"] sub by auto
  then have "\<forall>l \<in> set (map marshal_record rs @ (p @ marshal_record r) # map marshal_record qs).
      length l \<le> maxLine \<and> drop_cr l = l \<and> l \<noteq> []"
    using assms drop_cr_id
    by (auto simp: list_all_iff fits_def marshal_drop_cr marshal_nonempty)
  then show ?thesis using scan_lines_plain raw by metis
qed

text \<open>C33. An append after a torn write. Take a journal whose file is the chain of the acknowledged records. When an
  append fails after any part of its line was written (from the first byte up to everything but the newline),
  the journal goes on appending behind the fragment: the next acknowledged record is glued to it and is not
  part of the verifiable chain (the file verifies as a truncated tail that ends before it), and after one
  further acknowledged append, with the health back to healthy, \<open>Open\<close> refuses the file as corrupt. The lines
  are assumed to fit the reader's buffer.\<close>

theorem audit_append_after_torn_write:
  assumes "audit_init s0" "(audit_step sha)\<^sup>*\<^sup>* s0 s" "as_clean s" "as_mem s = Some j" "as_file s = Some f"
    and "Journal_Append sha t0 a0 (Write_Error k) ok r0 j f = (e0, j0, f0)"
    and "0 < k" "k \<le> length (marshal_record (stamped sha t0 j r0))"
    and "Journal_Append sha t1 a1 Wrote True r1 j0 f0 = (Inr rec1, j1, f1)"
    and "Journal_Append sha t2 a2 Wrote True r2 j1 f1 = (Inr rec2, j2, f2)"
    and "k + length (marshal_record rec1) \<le> maxLine" "fits rec2"
  shows "jhealth j2 = HealthHealthy
    \<and> Status (verifyReader sha False f1) = StatusTruncatedTail
    \<and> LastSequence (verifyReader sha False f1) = end_seq 0 (as_acked s)
    \<and> (\<exists>why. Journal_Open sha no_fault (Some f2) = (Inl (Err_Corrupt why), Some f2))"
proof -
  let ?rs = "as_acked s"
  note i = clean_state [OF assms(1-5)]
  define rec0 where "rec0 = stamped sha t0 j r0"
  have gl: "unmarshal_record (take k (marshal_record rec0) @ marshal_record rec1) = None"
    by (rule glued_line) (use assms(7,8) in \<open>simp_all add: rec0_def stamped_def Let_def audit_SchemaVersion_def\<close>)
  have f: "f0 = f @ take k (marshal_record rec0)" "f1 = f0 @ jsonMarshalLine rec1" "f2 = f1 @ jsonMarshalLine rec2"
    using assms(6,8-10)
    by (auto simp: Journal_Append_def Let_def written_def jsonMarshalLine_def rec0_def split: if_splits)
  have dec: "map unmarshal_record (map marshal_record ?rs) = map Some ?rs"
    by (rule unmarshal_sound_lines [OF chain_sound [OF i(2)]])
  have "scan_lines False f1 = (map marshal_record ?rs @ [take k (marshal_record rec0) @ marshal_record rec1], False)"
    using scan_lines_torn [of ?rs "[]" k rec1 rec0] i(1,3) assms(11) f by (simp add: journal_file_def)
  then have v1: "Status (verifyReader sha False f1) = StatusTruncatedTail"
      "LastSequence (verifyReader sha False f1) = end_seq 0 ?rs"
    using verify_lines_torn [OF dec i(2) gl] by (simp_all add: verifyReader_def)
  have "f2 = journal_file ?rs @ take k (marshal_record rec0) @ jsonMarshalLine rec1 @ journal_file [rec2]"
    using f i(1) by (simp add: journal_file_def)
  moreover have "scan_lines False (journal_file ?rs @ take k (marshal_record rec0) @ jsonMarshalLine rec1 @ journal_file [rec2]) =
      (map marshal_record ?rs @ (take k (marshal_record rec0) @ marshal_record rec1) # map marshal_record [rec2], False)"
    by (rule scan_lines_torn) (use i(3) assms(11,12) in simp_all)
  ultimately have "Status (verifyReader sha False f2) = StatusCorrupt"
    using verify_lines_broken [OF dec i(2) gl, of "map marshal_record [rec2]"] by (simp add: verifyReader_def)
  then have "\<exists>why. Journal_Open sha no_fault (Some f2) = (Inl (Err_Corrupt why), Some f2)"
    by (simp add: Journal_Open_def no_fault_def recoverState_def VerifyFile_def)
  with v1 show ?thesis using assms(10) by (auto simp: Journal_Append_def Let_def split: if_splits)
qed

text \<open>A failed sync leaves the whole line in the file while the journal keeps its old sequence and hash: the next
  acknowledged record repeats the sequence, and with the health back to healthy \<open>Open\<close> refuses the file.\<close>

theorem audit_append_after_failed_sync:
  assumes "audit_init s0" "(audit_step sha)\<^sup>*\<^sup>* s0 s" "as_clean s" "as_mem s = Some j" "as_file s = Some f"
    and "acceptable sha t0 j r0" "Journal_Append sha t0 a0 Wrote False r0 j f = (e0, j0, f0)"
    and "Journal_Append sha t1 a1 Wrote True r1 j0 f0 = (Inr rec1, j1, f1)" "fits rec1"
  shows "jhealth j1 = HealthHealthy \<and> (\<exists>why. Journal_Open sha no_fault (Some f1) = (Inl (Err_Corrupt why), Some f1))"
proof -
  note i = clean_state [OF assms(1-5)]
  define rs where "rs = as_acked s @ [stamped sha t0 j r0]"
  have c: "chain_ok sha GenesisHash 0 rs" unfolding rs_def by (rule stamped_chain [OF i(2,4,5) assms(6)])
  have fit: "list_all fits rs" using i(3) assms(6) by (simp add: rs_def acceptable_def)
  have j0: "j0 = j\<lparr>jhealth := HealthWriteFailed\<rparr>" "f0 = journal_file rs"
    using assms(7) i(1) by (auto simp: Journal_Append_def Let_def written_def rs_def journal_file_snoc)
  have r1: "rec1 = stamped sha t1 j0 r1" "f1 = f0 @ jsonMarshalLine rec1" "jhealth j1 = HealthHealthy"
    using assms(8) by (auto simp: Journal_Append_def Let_def written_def)
  have same: "Sequence rec1 = wrap_u64 (jlastSeq j + 1)" "end_seq 0 rs = wrap_u64 (jlastSeq j + 1)" "in_range rec1"
    using wrap_u64_lt
    by (simp_all add: r1(1) j0(1) rs_def end_seq_def stamped_def Let_def in_range_def audit_SchemaVersion_def is_int64_def)
  have "wrap_u64 (wrap_u64 n + 1) \<noteq> wrap_u64 n" for n by (simp add: wrap_u64_def mod_Suc)
  then have "wrap_u64 (Suc (jlastSeq j)) \<noteq> wrap_u64 (Suc (wrap_u64 (Suc (jlastSeq j))))" by (metis Suc_eq_plus1)
  then have "Status (verify_lines sha False (map marshal_record rs @ [marshal_record rec1]) 0 GenesisHash 0 0 0) = StatusCorrupt"
    unfolding verify_lines_skip [OF unmarshal_sound_lines [OF chain_sound [OF c]] c]
    using unmarshal_marshal [OF same(3)] same(1,2) by (simp add: Let_def valid_record_def)
  moreover have "scan_lines False f1 = (map marshal_record rs @ [marshal_record rec1], False)"
    using scan_lines_journal [of "rs @ [rec1]" "[]"] fit assms(9) r1(2) j0(2)
    by (simp add: tail_lines_def journal_file_snoc)
  ultimately have "Status (verifyReader sha False f1) = StatusCorrupt" by (simp add: verifyReader_def)
  then show ?thesis using r1(3) by (simp add: Journal_Open_def no_fault_def recoverState_def VerifyFile_def)
qed

section \<open>Bytes that are not UTF-8\<close>

lemma length_members_text_sum:
  "ms \<noteq> [] \<Longrightarrow> Suc (length (members_text ms)) = sum_list (map (\<lambda>(k, t). length (json_quote k) + length t + 2) ms)"
  by (induction ms rule: members_text.induct) auto

lemma to_valid_empty: "to_valid s = [] \<longleftrightarrow> s = []"
  by (subst to_valid.simps) (auto simp: replacement_def)

lemma quote_valid_le: "length (json_quote (to_valid s)) \<le> length (json_quote s)"
  using quote_bytes_valid_shorter [of s] by (simp add: json_quote_def split: if_splits)

lemma quote_invalid_less: "\<not> valid_utf8 s \<Longrightarrow> length (json_quote (to_valid s)) < length (json_quote s)"
  using quote_bytes_valid_shorter [of s] by (simp add: json_quote_def)

text \<open>The text of a record with an invalid reason is longer than that of the record read back.\<close>

lemma marshal_invalid_longer:
  assumes "\<not> valid_utf8 (SafeReason r)"
  shows "length (marshal_record (valid_record r)) < length (marshal_record r)"
proof -
  define w where "w x = sum_list (map (\<lambda>(k, t, v). length (json_quote k) + length t + 2) x)" for x :: "(string \<times> string \<times> json) list"
  have len: "length (marshal_record x) = Suc (w (record_members x))" for x
  proof -
    have "map (\<lambda>(k, t, v). (k, t)) (record_members x) \<noteq> []" using record_members_nonempty by simp
    from length_members_text_sum [OF this] show ?thesis
      by (simp add: marshal_record_def json_object_def w_def o_def case_prod_unfold)
  qed
  have o: "w (omit_empty k (to_valid s)) \<le> w (omit_empty k s)" for k s
    using quote_valid_le [of s] by (simp add: omit_empty_def str_member_def w_def to_valid_empty)
  have s: "w (str_member k (to_valid s) # ms) \<le> w (str_member k s # ms)" for k s ms
    using quote_valid_le [of s] by (simp add: str_member_def w_def)
  have "SafeReason r \<noteq> []" using assms by auto
  then have bad: "w (omit_empty k (to_valid (SafeReason r))) < w (omit_empty k (SafeReason r))" for k
    using quote_invalid_less [OF assms] by (simp add: omit_empty_def str_member_def w_def to_valid_empty)
  have app: "w (xs @ ys) = w xs + w ys" "w (x # xs) = w [x] + w xs" for x xs ys by (simp_all add: w_def)
  have s1: "w [str_member k (to_valid s)] \<le> w [str_member k s]" for k s by (rule s)
  have "w (record_members (valid_record r)) < w (record_members r)"
    unfolding record_members_def app(1)
    by (simp add: valid_record_def app(2) [of _ "_ # _"] add_mono add_mono_thms_linordered_field o s1 bad)
  then show ?thesis by (simp add: len)
qed

lemma valid_record_hash:
  assumes "valid_utf8 p"
  shows "hash_input p (valid_record r) = p @ marshal_record (valid_record (r\<lparr>PrevHash := p, RecordHash := []\<rparr>))"
  using assms by (simp add: hash_input_def valid_record_def to_valid_id)

lemma hash_input_invalid:
  assumes "valid_utf8 p" "\<not> valid_utf8 (SafeReason r)"
  shows "hash_input p (valid_record r) \<noteq> hash_input p r"
proof -
  have "length (marshal_record (valid_record (r\<lparr>PrevHash := p, RecordHash := []\<rparr>)))
      < length (marshal_record (r\<lparr>PrevHash := p, RecordHash := []\<rparr>))"
    by (rule marshal_invalid_longer) (use assms(2) in simp)
  then show ?thesis unfolding valid_record_hash [OF assms(1)] by (auto simp: hash_input_def)
qed

text \<open>A reason that is not valid UTF-8. Appending a record whose redacted reason is not valid UTF-8 (cutting it at
  255 bytes can split a character) is acknowledged, but the hash covers the escape of the replacement
  character while verification hashes the character itself: unless these two texts collide under SHA-256,
  the next \<open>Open\<close> refuses the journal as corrupt.\<close>

theorem audit_invalid_reason_corrupts:
  assumes "audit_init s0" "(audit_step sha)\<^sup>*\<^sup>* s0 s" "as_clean s" "as_mem s = Some j" "as_file s = Some f"
    and "\<not> valid_utf8 (RedactSafeReason (SafeReason r))"
    and "Journal_Append sha now at Wrote True r j f = (Inr rec, j', f')" "fits rec"
  shows "(\<exists>why. Journal_Open sha no_fault (Some f') = (Inl (Err_Corrupt why), Some f'))
    \<or> hash_input (lastHash j) (valid_record rec) \<noteq> hash_input (lastHash j) rec
      \<and> sha (hash_input (lastHash j) (valid_record rec)) = sha (hash_input (lastHash j) rec)"
proof (rule disjCI)
  assume no: "\<not> (hash_input (lastHash j) (valid_record rec) \<noteq> hash_input (lastHash j) rec
      \<and> sha (hash_input (lastHash j) (valid_record rec)) = sha (hash_input (lastHash j) rec))"
  let ?rs = "as_acked s"
  note i = clean_state [OF assms(1-5)]
  have e: "rec = stamped sha now j r" "f' = journal_file (?rs @ [rec])"
    using assms(7) i(1) by (auto simp: Journal_Append_def Let_def written_def journal_file_snoc)
  have p: "valid_utf8 (lastHash j)" using hash_shape_valid [OF chain_end_shape [OF i(2)]] i(4) by simp
  have rec: "in_range rec" "SafeReason rec = RedactSafeReason (SafeReason r)" "PrevHash rec = lastHash j"
      "Sequence rec = wrap_u64 (jlastSeq j + 1)" "RecordHash rec = computeRecordHash sha (lastHash j) rec"
    using wrap_u64_lt
    by (simp_all add: e(1) stamped_def Let_def in_range_def audit_SchemaVersion_def is_int64_def computeRecordHash_clear)
  have v: "PrevHash (valid_record rec) = lastHash j" "RecordHash (valid_record rec) = RecordHash rec"
    using rec(3,5) p hash_shape_valid [OF computeRecordHash_shape] by (simp_all add: valid_record_def to_valid_id)
  have "hash_input (lastHash j) (valid_record rec) \<noteq> hash_input (lastHash j) rec"
    by (rule hash_input_invalid [OF p]) (use assms(6) rec(2) in simp)
  then have ne: "computeRecordHash sha (lastHash j) (valid_record rec) \<noteq> RecordHash rec"
    using no rec(5) hex_encode_inject by (metis computeRecordHash_def)
  have "scan_lines False f' = (map marshal_record ?rs @ [marshal_record rec], False)"
    using scan_lines_journal [of "?rs @ [rec]" "[]"] i(3) assms(8) e(2) by (simp add: tail_lines_def)
  moreover have "Status (verify_lines sha False (map marshal_record ?rs @ [marshal_record rec]) 0 GenesisHash 0 0 0) = StatusCorrupt"
    unfolding verify_lines_skip [OF unmarshal_sound_lines [OF chain_sound [OF i(2)]] i(2)]
    using unmarshal_marshal [OF rec(1)] v ne i(4,5) rec(4) by (simp add: Let_def valid_record_def)
  ultimately have "Status (verifyReader sha False f') = StatusCorrupt" by (simp add: verifyReader_def)
  then show "\<exists>why. Journal_Open sha no_fault (Some f') = (Inl (Err_Corrupt why), Some f')"
    by (simp add: Journal_Open_def no_fault_def recoverState_def VerifyFile_def)
qed

section \<open>Concrete journals\<close>

definition fresh_journal :: journal where
  "fresh_journal = newJournal GenesisHash 0 HealthHealthy"

definition fresh_state :: audit_state where
  "fresh_state = empty_state\<lparr>as_file := Some [], as_mem := Some fresh_journal\<rparr>"

lemma fresh_reachable: "(audit_step sha)\<^sup>*\<^sup>* empty_state fresh_state"
proof -
  have "Journal_Open sha no_fault None = (Inr fresh_journal, Some [])"
    by (simp add: Journal_Open_def no_fault_def recoverState_def VerifyFile_def fresh_journal_def)
  then have "audit_step sha empty_state fresh_state"
    using audit_step.opened [of empty_state sha no_fault "Inr fresh_journal" "Some []"]
    by (simp add: fresh_state_def empty_state_def)
  then show ?thesis by blast
qed

definition reset_requested :: audit_record where
  "reset_requested = zero_record\<lparr>EventType := ''FACTORY_RESET_REQUESTED'', Result := ''success'', EdgeID := ''edge-1''\<rparr>"

text \<open>A valid reason of 256 bytes whose last letter is two bytes long.\<close>

definition long_reason :: string where
  "long_reason = replicate 254 (CHR ''x'') @ [CHR 0xC3, CHR 0xB3]"

lemma redact_x:
  "redact_secrets (replicate n (CHR ''x'') @ t) = replicate n (CHR ''x'') @ redact_secrets t"
  "redact_bearer p (replicate n (CHR ''x'') @ t) = replicate n (CHR ''x'') @ redact_bearer (if n = 0 then p else True) t"
proof -
  have f: "first_match secret_keys (CHR ''x'' # s) = None" for s
    by (simp add: secret_keys_def match_key_def eat_letter_def)
  have b: "match_bearer q (CHR ''x'' # s) = None" for q s
    by (simp add: match_bearer_def eat_letter_def)
  have w: "is_word (CHR ''x'')" by (simp add: is_word_def between_def)
  show "redact_secrets (replicate n (CHR ''x'') @ t) = replicate n (CHR ''x'') @ redact_secrets t"
    by (induction n) (simp_all add: redact_secrets.simps [of "CHR ''x'' # _"] f)
  show "redact_bearer p (replicate n (CHR ''x'') @ t) = replicate n (CHR ''x'') @ redact_bearer (if n = 0 then p else True) t"
    by (induction n arbitrary: p) (simp_all add: redact_bearer.simps [of _ "CHR ''x'' # _"] b w)
qed

lemma valid_utf8_x: "valid_utf8 (replicate n (CHR ''x'') @ t) = valid_utf8 t"
  by (induction n) (simp_all add: valid_utf8_rune [of "CHR ''x'' # _"] rune_len_ascii)

lemma long_reason_cut: "valid_utf8 long_reason \<and> \<not> valid_utf8 (RedactSafeReason long_reason)"
proof -
  have "redact_secrets (redact_bearer True [CHR 0xC3, CHR 0xB3]) = [CHR 0xC3, CHR 0xB3]" by code_simp
  then have "RedactSafeReason long_reason = replicate 254 (CHR ''x'') @ [CHR 0xC3]"
    by (simp add: RedactSafeReason_def long_reason_def redact_x truncate_bytes_def maxSafeReasonLen_def)
  moreover have "valid_utf8 [CHR 0xC3, CHR 0xB3]" "\<not> valid_utf8 [CHR 0xC3]" by code_simp+
  ultimately show ?thesis by (simp only: long_reason_def valid_utf8_x) simp
qed

lemma length_quote_bytes: "length (quote_bytes s) \<le> 6 * length s"
proof (induction s rule: to_valid.induct)
  case (1 s)
  have ea: "length (escape_ascii c) \<le> 6" for c by (simp add: escape_ascii_def)
  consider "s = []" | (invalid) "s \<noteq> []" "rune_len s = 0" | (rune) "s \<noteq> []" "rune_len s \<noteq> 0" by blast
  then show ?case
  proof cases
    case invalid
    then show ?thesis using "1.IH"(1) by (cases s) (simp_all add: quote_bytes_invalid)
  next
    case rune
    have u: "length (take (rune_len s) s) = rune_len s" using rune_len_le [of s] by simp
    have "length (quote_rune (take (rune_len s) s)) \<le> 6 * rune_len s"
      using ea [of "hd (take (rune_len s) s)"] rune u by (auto simp: quote_rune_def)
    then show ?thesis using "1.IH"(2) [OF rune] rune rune_len_le [of s] by (simp add: quote_bytes_rune)
  qed simp
qed

lemma length_json_quote: "length (json_quote s) \<le> 6 * length s + 2"
  using length_quote_bytes [of s] by (simp add: json_quote_def)

lemma length_marshal:
  "length (marshal_record r) \<le> 2000 + length (dec_of_int (SchemaVersion r)) + length (dec_of_nat (Sequence r)) +
     6 * (length (Timestamp r) + length (EventType r) + length (Result r) + length (EdgeID r) + length (DeviceID r)
       + length (CommandID r) + length (RotationID r) + length (ConfigVersion r) + length (SafeReason r)
       + length (PrevHash r) + length (RecordHash r))"
proof -
  define w where "w x = sum_list (map (\<lambda>(k, t, v). length (json_quote k) + length t + 2) x)" for x :: "(string \<times> string \<times> json) list"
  have o: "w (omit_empty k s) \<le> 6 * length k + 6 * length s + 6" for k s
    using length_json_quote [of k] length_json_quote [of s] by (simp add: omit_empty_def str_member_def w_def)
  have s: "w [str_member k s] \<le> 6 * length k + 6 * length s + 6" for k s
    using length_json_quote [of k] length_json_quote [of s] by (simp add: str_member_def w_def)
  have n: "w [(k, t, v)] \<le> 6 * length k + length t + 4" for k t v
    using length_json_quote [of k] by (simp add: w_def)
  have app: "w (xs @ ys) = w xs + w ys" "w (x # y # xs) = w [x] + w (y # xs)" for x y xs ys by (simp_all add: w_def)
  have ne: "map (\<lambda>(k, t, v). (k, t)) (record_members r) \<noteq> []" using record_members_nonempty by simp
  have "length (marshal_record r) = Suc (w (record_members r))"
    using length_members_text_sum [OF ne]
    by (simp add: marshal_record_def json_object_def w_def o_def case_prod_unfold)
  moreover note n [of "''schema_version''" "dec_of_int (SchemaVersion r)" "JNum (dec_of_int (SchemaVersion r))"]
    n [of "''sequence''" "dec_of_nat (Sequence r)" "JNum (dec_of_nat (Sequence r))"]
    s [of "''timestamp''" "Timestamp r"] s [of "''event_type''" "EventType r"] s [of "''result''" "Result r"]
    o [of "''edge_id''" "EdgeID r"] o [of "''device_id''" "DeviceID r"] o [of "''command_id''" "CommandID r"]
    o [of "''rotation_id''" "RotationID r"] o [of "''config_version''" "ConfigVersion r"]
    o [of "''safe_reason''" "SafeReason r"] s [of "''prev_hash''" "PrevHash r"] s [of "''record_hash''" "RecordHash r"]
  ultimately show ?thesis unfolding record_members_def app by simp
qed

lemma RedactSafeReason_length: "length (RedactSafeReason s) \<le> 255"
  by (simp add: RedactSafeReason_def truncate_bytes_def maxSafeReasonLen_def)

text \<open>A digest of one byte, enough for examples.\<close>

definition length_digest :: "string \<Rightarrow> string" where
  "length_digest s = [char_of (length s mod 256)]"

lemma stamped_fits:
  assumes "length (lastHash j) \<le> 100" "length now \<le> 100" "jlastSeq j < 9"
    and "length (EventType r) + length (Result r) + length (EdgeID r) + length (DeviceID r) + length (CommandID r)
       + length (RotationID r) + length (ConfigVersion r) \<le> 1000"
  shows "10 + length (marshal_record (stamped length_digest now j r)) \<le> maxLine"
    "fits (stamped length_digest now j r)"
proof -
  have s: "dec_of_int 1 = ''1''" by code_simp
  have "wrap_u64 (jlastSeq j + 1) = jlastSeq j + 1" using assms(3) by (simp add: wrap_u64_def)
  then have q: "length (dec_of_nat (wrap_u64 (jlastSeq j + 1))) = 1" using assms(3) by (simp add: dec_of_nat.simps)
  have "length (computeRecordHash length_digest p x) = 2" for p x
    by (simp add: computeRecordHash_def length_digest_def hex_encode_def)
  then show "10 + length (marshal_record (stamped length_digest now j r)) \<le> maxLine"
    using length_marshal [of "stamped length_digest now j r"] assms RedactSafeReason_length [of "SafeReason r"] s q
    by (simp add: stamped_def Let_def audit_SchemaVersion_def maxLine_def)
  then show "fits (stamped length_digest now j r)" by (simp add: fits_def)
qed

definition noon :: string where
  "noon = ''2026-01-01T12:00:00Z''"

definition reset_on :: "string \<Rightarrow> audit_record" where
  "reset_on e = reset_requested\<lparr>EdgeID := e\<rparr>"

lemma reset_acceptable:
  assumes "jlastSeq j < 9" "length (lastHash j) \<le> 100" "length e \<le> 100" "\<forall>c \<in> set e. byte c < 0x80"
  shows "acceptable length_digest noon j (reset_on e)"
proof -
  have "valid_utf8 ''2026-01-01T12:00:00Z''" "valid_utf8 ''FACTORY_RESET_REQUESTED''" "valid_utf8 ''success''"
    by (rule valid_ascii, simp)+
  then show ?thesis using assms stamped_fits(2) [of j noon "reset_on e"] valid_ascii [of e]
    by (simp add: acceptable_def noon_def reset_on_def reset_requested_def zero_record_def RedactSafeReason_def)
qed

definition first_record :: "string \<Rightarrow> audit_record" where
  "first_record e = stamped length_digest noon fresh_journal (reset_on e)"

lemma first_record_chain:
  assumes "length e \<le> 100" "\<forall>c \<in> set e. byte c < 0x80"
  shows "chain_ok length_digest GenesisHash 0 [first_record e]" "list_all fits [first_record e]"
proof -
  have a: "acceptable length_digest noon fresh_journal (reset_on e)"
    using reset_acceptable [of fresh_journal e] assms by (simp add: fresh_journal_def newJournal_def GenesisHash_def)
  show "chain_ok length_digest GenesisHash 0 [first_record e]"
    using stamped_chain [of length_digest "[]" fresh_journal noon "reset_on e"] a
    by (simp add: first_record_def fresh_journal_def newJournal_def end_hash_def end_seq_def)
  show "list_all fits [first_record e]" using a by (simp add: acceptable_def first_record_def)
qed

lemma marshal_length_edge:
  assumes "a \<noteq> []" "b \<noteq> []" "length (json_quote a) = length (json_quote b)"
  shows "length (marshal_record (r\<lparr>EdgeID := a\<rparr>)) = length (marshal_record (r\<lparr>EdgeID := b\<rparr>))"
proof -
  let ?m = "\<lambda>x. map (\<lambda>(k, t, v). (k, t)) (record_members x)"
  have "Suc (length (members_text (?m (r\<lparr>EdgeID := a\<rparr>)))) = Suc (length (members_text (?m (r\<lparr>EdgeID := b\<rparr>))))"
    using assms length_members_text_sum [of "?m (r\<lparr>EdgeID := a\<rparr>)"] length_members_text_sum [of "?m (r\<lparr>EdgeID := b\<rparr>)"]
    by (simp add: record_members_def omit_empty_def str_member_def)
  then show ?thesis by (simp add: marshal_record_def json_object_def)
qed

lemma first_record_same_hash: "RecordHash (first_record ''edge-1'') = RecordHash (first_record ''edge-2'')"
proof -
  have q: "length (json_quote ''edge-1'') = length (json_quote ''edge-2'')" by code_simp
  let ?r = "(reset_on [])\<lparr>SchemaVersion := 1, Sequence := wrap_u64 1, Timestamp := noon, SafeReason := [],
      PrevHash := GenesisHash, RecordHash := []\<rparr>"
  have "RecordHash (first_record e) = hex_encode (length_digest (GenesisHash @ marshal_record (?r\<lparr>EdgeID := e\<rparr>)))" for e
    by (simp add: first_record_def stamped_def Let_def reset_on_def reset_requested_def zero_record_def
        fresh_journal_def newJournal_def audit_SchemaVersion_def computeRecordHash_def hash_input_def RedactSafeReason_def)
  then show ?thesis using marshal_length_edge [OF _ _ q, of ?r] by (simp add: length_digest_def)
qed

lemma first_record_verifies:
  assumes "length e \<le> 100" "\<forall>c \<in> set e. byte c < 0x80"
  shows "Status (verifyReader length_digest False (journal_file [first_record e])) = StatusPass"
    "LastHash (verifyReader length_digest False (journal_file [first_record e])) = RecordHash (first_record e)"
    "audit_records (journal_file [first_record e]) = Some [first_record e]"
  using verify_journal [OF first_record_chain [OF assms]] audit_records_journal [OF first_record_chain [OF assms]]
  by (simp_all add: chain_result_def end_hash_def)

theorem audit_tamper_evidence_witness:
  "collision length_digest [first_record ''edge-1''] [first_record ''edge-2'']"
proof -
  have b: "length ''edge-1'' \<le> 100" "\<forall>c \<in> set ''edge-1''. byte c < 0x80"
    "length ''edge-2'' \<le> 100" "\<forall>c \<in> set ''edge-2''. byte c < 0x80" by simp_all
  note v1 = first_record_verifies [OF b(1,2)] and v2 = first_record_verifies [OF b(3,4)]
  have "EdgeID (first_record ''edge-1'') \<noteq> EdgeID (first_record ''edge-2'')"
    by (simp add: first_record_def stamped_def Let_def reset_on_def)
  then have "[first_record ''edge-1''] \<noteq> [first_record ''edge-2'']" by auto
  then show ?thesis
    using audit_tamper_evidence [OF v1(1) v2(1) _ v1(3) v2(3)] v1(2) v2(2) first_record_same_hash by simp
qed

theorem audit_crash_recovery_witness:
  "Journal_Open length_digest no_fault (Some (take 5 (jsonMarshalLine (first_record ''edge-1'')))) =
     (Inr (newJournal GenesisHash 0 HealthDegraded), Some (take 5 (jsonMarshalLine (first_record ''edge-1''))))"
proof -
  have a: "acceptable length_digest noon fresh_journal (reset_on ''edge-1'')"
    by (rule reset_acceptable) (simp_all add: fresh_journal_def newJournal_def GenesisHash_def)
  show ?thesis
    using audit_crash_recovery [of empty_state length_digest fresh_state
        fresh_journal "[]" noon "reset_on ''edge-1''" "first_record ''edge-1''" 5] a fresh_reachable marshal_length [of "first_record ''edge-1''"]
    by (simp add: audit_init_def fresh_state_def empty_state_def first_record_def jsonMarshalLine_def end_hash_def end_seq_def)
qed

definition second_record :: "string \<Rightarrow> audit_record" where
  "second_record e = stamped length_digest noon
     (fresh_journal\<lparr>lastHash := RecordHash (first_record e), jlastSeq := 1\<rparr>) (reset_on e)"

theorem audit_append_after_torn_write_witness:
  "Status (verifyReader length_digest False (take 10 (marshal_record (first_record ''edge-1'')) @ jsonMarshalLine (first_record ''edge-1''))) = StatusTruncatedTail
   \<and> (\<exists>why. Journal_Open length_digest no_fault
        (Some (take 10 (marshal_record (first_record ''edge-1'')) @ jsonMarshalLine (first_record ''edge-1'') @ jsonMarshalLine (second_record ''edge-1''))) =
      (Inl (Err_Corrupt why), Some (take 10 (marshal_record (first_record ''edge-1'')) @ jsonMarshalLine (first_record ''edge-1'') @ jsonMarshalLine (second_record ''edge-1''))))"
proof -
  let ?e = "''edge-1''" and ?r = "reset_on ''edge-1''"
  let ?j1 = "fresh_journal\<lparr>lastHash := RecordHash (first_record ?e), jlastSeq := 1, writeAt := 5\<rparr>"
  let ?f0 = "take 10 (marshal_record (first_record ?e))"
  have h: "length (RecordHash (first_record ?e)) = 2"
    by (simp add: first_record_def stamped_def Let_def computeRecordHash_def length_digest_def hex_encode_def)
  have sq: "Sequence (first_record ?e) = 1"
    by (simp add: first_record_def stamped_def Let_def fresh_journal_def newJournal_def wrap_u64_def)
  have a0: "Journal_Append length_digest noon 5 (Write_Error 10) True ?r fresh_journal [] =
      (Inl Err_Write, fresh_journal\<lparr>jhealth := HealthWriteFailed\<rparr>, ?f0)"
    using marshal_length [of "first_record ?e"] by (simp add: Journal_Append_def written_def jsonMarshalLine_def first_record_def)
  have st: "stamped length_digest noon (j\<lparr>jhealth := x\<rparr>) r = stamped length_digest noon j r"
    "stamped length_digest noon (j\<lparr>writeAt := y\<rparr>) r = stamped length_digest noon j r" for j x y r
    by (simp_all add: stamped_def)
  have a1: "Journal_Append length_digest noon 5 Wrote True ?r (fresh_journal\<lparr>jhealth := HealthWriteFailed\<rparr>) ?f0 =
      (Inr (first_record ?e), ?j1, ?f0 @ jsonMarshalLine (first_record ?e))"
  proof -
    have "stamped length_digest noon (fresh_journal\<lparr>jhealth := HealthWriteFailed\<rparr>) ?r = first_record ?e"
      by (simp only: st first_record_def)
    moreover have "fresh_journal\<lparr>lastHash := h, jlastSeq := n, writeAt := 5, jhealth := HealthHealthy\<rparr> =
        fresh_journal\<lparr>lastHash := h, jlastSeq := n, writeAt := 5\<rparr>" for h n
      by (simp add: fresh_journal_def newJournal_def)
    ultimately show ?thesis using sq by (simp add: Journal_Append_def written_def Let_def)
  qed
  have a2: "Journal_Append length_digest noon 5 Wrote True ?r ?j1 (?f0 @ jsonMarshalLine (first_record ?e)) =
      (Inr (second_record ?e),
       fresh_journal\<lparr>lastHash := RecordHash (second_record ?e), jlastSeq := Sequence (second_record ?e), writeAt := 5,
         jhealth := HealthHealthy\<rparr>,
       ?f0 @ jsonMarshalLine (first_record ?e) @ jsonMarshalLine (second_record ?e))"
    by (simp add: Journal_Append_def written_def st second_record_def Let_def)
  have fit: "10 + length (marshal_record (first_record ?e)) \<le> maxLine" "fits (second_record ?e)"
    unfolding first_record_def second_record_def
    by (rule stamped_fits; use h in \<open>simp add: noon_def reset_on_def reset_requested_def zero_record_def
        fresh_journal_def newJournal_def GenesisHash_def first_record_def\<close>)+
  show ?thesis
    using audit_append_after_torn_write [OF _ fresh_reachable _ _ _ a0 _ _ a1 a2 fit] marshal_length [of "first_record ?e"]
    by (simp add: audit_init_def fresh_state_def empty_state_def first_record_def)
qed

definition long_record :: audit_record where
  "long_record = (reset_on ''edge-1'')\<lparr>SafeReason := long_reason\<rparr>"

theorem audit_invalid_reason_corrupts_witness:
  "let line = jsonMarshalLine (stamped length_digest noon fresh_journal long_record)
   in valid_utf8 long_reason \<and>
     ((\<exists>why. Journal_Open length_digest no_fault (Some line) = (Inl (Err_Corrupt why), Some line))
      \<or> hash_input GenesisHash (valid_record (stamped length_digest noon fresh_journal long_record))
          \<noteq> hash_input GenesisHash (stamped length_digest noon fresh_journal long_record)
        \<and> length_digest (hash_input GenesisHash (valid_record (stamped length_digest noon fresh_journal long_record)))
          = length_digest (hash_input GenesisHash (stamped length_digest noon fresh_journal long_record)))"
proof -
  let ?rec = "stamped length_digest noon fresh_journal long_record"
  let ?j = "fresh_journal\<lparr>lastHash := RecordHash ?rec, jlastSeq := Sequence ?rec, writeAt := 5, jhealth := HealthHealthy\<rparr>"
  have fit: "fits ?rec"
    by (rule stamped_fits(2)) (simp_all add: noon_def long_record_def reset_on_def reset_requested_def zero_record_def
        fresh_journal_def newJournal_def GenesisHash_def)
  have bad: "\<not> valid_utf8 (RedactSafeReason (SafeReason long_record))"
    using long_reason_cut by (simp add: long_record_def)
  have a: "Journal_Append length_digest noon 5 Wrote True long_record fresh_journal [] = (Inr ?rec, ?j, jsonMarshalLine ?rec)"
    by (simp add: Journal_Append_def written_def Let_def)
  have "lastHash fresh_journal = GenesisHash" by (simp add: fresh_journal_def newJournal_def)
  then show ?thesis
    using audit_invalid_reason_corrupts [OF _ fresh_reachable _ _ _ bad a fit]
      long_reason_cut
    by (simp add: audit_init_def fresh_state_def empty_state_def)
qed

end
