(* ===== verification/AuditJournal_Redaction.thy ===== *)
theory AuditJournal_Redaction
  imports AuditJournal
begin

text \<open>
  What \<open>RedactSafeReason\<close> leaves: wherever its result still has the shape key=value of a secret, the value
  is the marker \<open>[REDACTED]\<close> (or what truncation left of it).
\<close>

section \<open>Words of the pattern\<close>

text \<open>What a word consumes is independent of what follows and contains no separator.\<close>

definition word_byte :: "char \<Rightarrow> bool" where
  "word_byte c \<longleftrightarrow> c \<noteq> CHR ''='' \<and> c \<noteq> CHR '':''"

definition lower_word :: "string \<Rightarrow> bool" where
  "lower_word w \<longleftrightarrow> list_all (between 97 122) w"

lemma eat_letter_split:
  assumes "eat_letter c s = Some t" "between 97 122 c"
  shows "\<exists>a. s = a @ t \<and> a \<noteq> [] \<and> list_all word_byte a \<and> (\<forall>u. eat_letter c (a @ u) = Some u)"
proof -
  consider (one) "s \<noteq> []" "hd s = c \<or> byte (hd s) + 32 = byte c" "t = tl s"
    | (two) "c = CHR ''s''" "take 2 s = [CHR 0xC5, CHR 0xBF]" "t = drop 2 s"
    | (three) "c = CHR ''k''" "take 3 s = [CHR 0xE2, CHR 0x84, CHR 0xAA]" "t = drop 3 s"
    using assms(1) by (auto simp: eat_letter_def split: if_splits)
  then show ?thesis
  proof cases
    case one
    then have "word_byte (hd s)" using assms(2) by (auto simp: word_byte_def between_def)
    with one show ?thesis by (intro exI [of _ "[hd s]"]) (auto simp: eat_letter_def)
  next
    case two
    then have "s = [CHR 0xC5, CHR 0xBF] @ t" by (metis append_take_drop_id)
    moreover have "byte (CHR 0xC5) + 32 \<noteq> byte (CHR ''s'')" by code_simp
    ultimately show ?thesis using two
      by (intro exI [of _ "[CHR 0xC5, CHR 0xBF]"]) (simp add: eat_letter_def word_byte_def)
  next
    case three
    then have "s = [CHR 0xE2, CHR 0x84, CHR 0xAA] @ t" by (metis append_take_drop_id)
    moreover have "byte (CHR 0xE2) + 32 \<noteq> byte (CHR ''k'')" by code_simp
    ultimately show ?thesis using three
      by (intro exI [of _ "[CHR 0xE2, CHR 0x84, CHR 0xAA]"]) (simp add: eat_letter_def word_byte_def)
  qed
qed

lemma eat_word_split:
  "eat_word w s = Some t \<Longrightarrow> lower_word w \<Longrightarrow>
     \<exists>a. s = a @ t \<and> list_all word_byte a \<and> (\<forall>u. eat_word w (a @ u) = Some u)"
proof (induction w arbitrary: s)
  case (Cons c w)
  then obtain v where v: "eat_letter c s = Some v" "eat_word w v = Some t" by (auto split: option.splits)
  with Cons.prems(2) obtain a where a: "s = a @ v" "list_all word_byte a" "\<forall>u. eat_letter c (a @ u) = Some u"
    using eat_letter_split by (fastforce simp: lower_word_def)
  obtain b where b: "v = b @ t" "list_all word_byte b" "\<forall>u. eat_word w (b @ u) = Some u"
    using Cons.IH [OF v(2)] Cons.prems(2) by (auto simp: lower_word_def)
  show ?case using a b by (intro exI [of _ "a @ b"]) (simp add: list_all_append)
qed simp

lemma secret_keys_lower: "k \<in> set secret_keys \<Longrightarrow> lower_word k"
  by (auto simp: secret_keys_def lower_word_def between_def)

lemma match_key_split:
  assumes "match_key k s = Some (key, rest)" "k \<in> set secret_keys"
  shows "\<exists>sep v. s = key @ sep # v @ rest \<and> (sep = CHR ''='' \<or> sep = CHR '':'') \<and> v \<noteq> [] \<and> list_all value_char v
    \<and> (rest = [] \<or> \<not> value_char (hd rest)) \<and> list_all word_byte key \<and> (\<forall>u. eat_word k (key @ u) = Some u)"
proof -
  obtain t where t: "eat_word k s = Some t" "t \<noteq> []" "hd t = CHR ''='' \<or> hd t = CHR '':''" "tl t \<noteq> []"
      "value_char (hd (tl t))" "key = take (length s - length t) s" "rest = dropWhile value_char (tl t)"
    using assms(1) by (auto simp: match_key_def split: option.splits if_splits)
  obtain a where a: "s = a @ t" "list_all word_byte a" "\<forall>u. eat_word k (a @ u) = Some u"
    using eat_word_split [OF t(1) secret_keys_lower [OF assms(2)]] by blast
  have "key = a" using t(6) a(1) by simp
  moreover have "t = hd t # takeWhile value_char (tl t) @ rest" using t(2,7) by simp
  moreover have "takeWhile value_char (tl t) \<noteq> []" using t(4,5) by (cases "tl t") auto
  moreover have "list_all value_char (takeWhile value_char (tl t))" by (auto simp: list_all_iff dest: set_takeWhileD)
  moreover have "rest = [] \<or> \<not> value_char (hd rest)" using t(7) hd_dropWhile by blast
  ultimately show ?thesis using a t(3) by (intro exI [of _ "hd t"] exI [of _ "takeWhile value_char (tl t)"]) metis
qed

lemma match_keyI:
  assumes "\<forall>u. eat_word k (key @ u) = Some u" "sep = CHR ''='' \<or> sep = CHR '':''" "v \<noteq> []" "value_char (hd v)"
  shows "match_key k (key @ sep # v) = Some (key, dropWhile value_char v)"
  using assms by (auto simp: match_key_def)

lemma first_match_None: "first_match ks s = None \<longleftrightarrow> (\<forall>k \<in> set ks. match_key k s = None)"
  by (induction ks) (auto split: option.splits)

lemma first_match_Some: "first_match ks s = Some m \<Longrightarrow> \<exists>k \<in> set ks. match_key k s = Some m"
  by (induction ks) (auto split: option.splits)

section \<open>Redacted texts\<close>

definition marker :: string where
  "marker = ''[REDACTED]''"

definition redacted :: "string \<Rightarrow> bool" where
  "redacted s \<longleftrightarrow>
     (\<forall>p t k key rest. s = p @ t \<longrightarrow> k \<in> set secret_keys \<longrightarrow> match_key k t = Some (key, rest) \<longrightarrow>
        t = key @ CHR ''='' # marker @ rest)"

text \<open>Up to the separator of its first match, a text agrees with its redaction.\<close>

lemma redact_agrees:
  "redact_secrets s = s \<or>
   (\<exists>a sep x s' o'. s = a @ sep # x # s' \<and> redact_secrets s = a @ CHR ''='' # marker @ o'
      \<and> (sep = CHR ''='' \<or> sep = CHR '':'') \<and> value_char x)"
proof (induction s rule: redact_secrets.induct)
  case (1 s)
  show ?case
  proof (cases "s = []")
    case False
    show ?thesis
    proof (cases "first_match secret_keys s")
      case None
      then have r: "redact_secrets s = hd s # redact_secrets (tl s)" using False by (subst redact_secrets.simps) simp
      from "1.IH"(1) [OF False None] show ?thesis
      proof
        assume "redact_secrets (tl s) = tl s"
        then show ?thesis using r False by simp
      next
        assume "\<exists>a sep x s' o'. tl s = a @ sep # x # s' \<and> redact_secrets (tl s) = a @ CHR ''='' # marker @ o'
          \<and> (sep = CHR ''='' \<or> sep = CHR '':'') \<and> value_char x"
        then obtain a sep x s' o' where "tl s = a @ sep # x # s'" "redact_secrets (tl s) = a @ CHR ''='' # marker @ o'"
          "sep = CHR ''='' \<or> sep = CHR '':''" "value_char x" by blast
        then have "s = (hd s # a) @ sep # x # s'" "redact_secrets s = (hd s # a) @ CHR ''='' # marker @ o'"
          using r False by (metis append_Cons list.collapse)+
        then show ?thesis using \<open>sep = _ \<or> _\<close> \<open>value_char x\<close> by blast
      qed
    next
      case (Some m)
      obtain key rest where m: "m = (key, rest)" by (cases m)
      with Some obtain k where "k \<in> set secret_keys" "match_key k s = Some (key, rest)"
        using first_match_Some by blast
      from match_key_split [OF this(2,1)] obtain sep v where
        s: "s = key @ sep # v @ rest" "sep = CHR ''='' \<or> sep = CHR '':''" "v \<noteq> []" "list_all value_char v" by blast
      have "redact_secrets s = key @ CHR ''='' # marker @ redact_secrets rest"
        using Some m False by (subst redact_secrets.simps) (simp add: marker_def)
      moreover have "s = key @ sep # hd v # (tl v @ rest)" "value_char (hd v)"
        using s by (cases v; simp)+
      ultimately show ?thesis using s(2) by blast
    qed
  qed (simp add: redact_secrets.simps)
qed

text \<open>A position without a match keeps having none after redaction of the text.\<close>

lemma redact_no_match:
  assumes "k \<in> set secret_keys" "match_key k s = None"
  shows "match_key k (redact_secrets s) = None"
proof (rule ccontr)
  assume "match_key k (redact_secrets s) \<noteq> None"
  then obtain key rest where m: "match_key k (redact_secrets s) = Some (key, rest)" by auto
  from match_key_split [OF m assms(1)] obtain sep v where
    o: "redact_secrets s = key @ sep # v @ rest" "sep = CHR ''='' \<or> sep = CHR '':''" "v \<noteq> []" "list_all value_char v"
      "list_all word_byte key" "\<forall>u. eat_word k (key @ u) = Some u" by blast
  from redact_agrees [of s] show False
  proof
    assume "redact_secrets s = s"
    then show False using m assms(2) by simp
  next
    assume "\<exists>a sep x s' o'. s = a @ sep # x # s' \<and> redact_secrets s = a @ CHR ''='' # marker @ o'
      \<and> (sep = CHR ''='' \<or> sep = CHR '':'') \<and> value_char x"
    then obtain a sp x s' o' where s: "s = a @ sp # x # s'" "redact_secrets s = a @ CHR ''='' # marker @ o'"
      "sp = CHR ''='' \<or> sp = CHR '':''" "value_char x" by blast
    have "\<not> length a < length key"
    proof
      assume "length a < length key"
      then have "key ! length a = CHR ''=''" using o(1) s(2) by (metis nth_append nth_append_length)
      then show False using o(5) \<open>length a < length key\<close> by (metis list_all_length word_byte_def)
    qed
    then obtain a' where a': "a = key @ a'"
      using o(1) s(2) append_eq_append_conv2 [of key "sep # v @ rest" a "CHR ''='' # marker @ o'"] by auto
    have vs: "value_char sp" using s(3) by (auto simp: value_char_def is_ws_def)
    have "\<exists>sep2 v2. a' @ sp # x # s' = sep2 # v2 \<and> (sep2 = CHR ''='' \<or> sep2 = CHR '':'') \<and> v2 \<noteq> [] \<and> value_char (hd v2)"
    proof (cases a')
      case Nil
      then show ?thesis using s(3,4) by simp
    next
      case (Cons y ys)
      then have y: "sep = y" "v @ rest = ys @ CHR ''='' # marker @ o'" using o(1) s(2) a' by auto
      then have "ys \<noteq> [] \<Longrightarrow> hd ys = hd v" using o(3) by (cases ys; cases v) auto
      then have "value_char (hd (ys @ sp # x # s'))"
        using vs o(3,4) by (cases "ys = []"; cases v) auto
      then show ?thesis using Cons y(1) o(2) by simp
    qed
    then obtain sep2 v2 where "a' @ sp # x # s' = sep2 # v2" "sep2 = CHR ''='' \<or> sep2 = CHR '':''" "v2 \<noteq> []"
      "value_char (hd v2)" by blast
    then have "match_key k s \<noteq> None" using match_keyI [OF o(6)] s(1) a' by simp
    then show False using assms(2) by simp
  qed
qed

definition marked :: "string \<Rightarrow> bool" where
  "marked t \<longleftrightarrow> (\<forall>k key rest. k \<in> set secret_keys \<longrightarrow> match_key k t = Some (key, rest) \<longrightarrow> t = key @ CHR ''='' # marker @ rest)"

lemma redacted_iff: "redacted s \<longleftrightarrow> (\<forall>p t. s = p @ t \<longrightarrow> marked t)"
  by (auto simp: redacted_def marked_def)

lemma marked_Nil: "marked []"
proof -
  have "match_key k [] = None" if "k \<in> set secret_keys" for k
    using that match_key_split [of k "[]"] by (cases "match_key k []") fastforce+
  then show ?thesis by (simp add: marked_def)
qed

lemma redacted_append:
  assumes "redacted r" "\<And>b1 b2. b = b1 @ b2 \<Longrightarrow> b2 \<noteq> [] \<Longrightarrow> marked (b2 @ r)"
  shows "redacted (b @ r)"
  unfolding redacted_iff
proof (intro allI impI)
  fix p t
  assume "b @ r = p @ t"
  then consider (left) u where "b = p @ u" "t = u @ r" | (right) u where "r = u @ t"
    by (auto simp: append_eq_append_conv2)
  then show "marked t"
  proof cases
    case left
    then show ?thesis using assms by (cases "u = []") (auto simp: redacted_iff)
  next
    case right
    then show ?thesis using assms(1) by (auto simp: redacted_iff)
  qed
qed

lemma marker_tail_unmatched:
  assumes "n < 11" "k \<in> set secret_keys"
  shows "match_key k (drop n (CHR ''='' # marker) @ r) = None"
proof -
  have "\<forall>m \<in> set [0..<11]. match_key k (drop m (CHR ''='' # marker) @ r) = None"
    using assms(2) by (auto simp: upt_rec secret_keys_def match_key_def eat_letter_def marker_def)
  then show ?thesis using assms(1) by simp
qed

lemma match_key_symbol:
  assumes "k \<in> set secret_keys" "byte x < 65"
  shows "match_key k (x # t) = None"
proof -
  obtain c w where k: "k = c # w" using assms(1) by (cases k) (auto simp: secret_keys_def)
  then have "between 97 122 c" using secret_keys_lower [OF assms(1)] by (simp add: lower_word_def)
  moreover have "byte (CHR 0xC5) = 0xC5" by code_simp
  ultimately have "eat_letter c (x # t) = None"
    using assms(2) by (auto simp: eat_letter_def between_def)
  then show ?thesis by (simp add: match_key_def k)
qed

lemma redact_hd: "t = [] \<or> \<not> value_char (hd t) \<Longrightarrow> redact_secrets t = [] \<or> \<not> value_char (hd (redact_secrets t))"
proof -
  assume a: "t = [] \<or> \<not> value_char (hd t)"
  show ?thesis
  proof (cases "t = []")
    case False
    then have "\<not> value_char (hd t)" using a by simp
    then have "byte (hd t) < 65" by (auto simp: value_char_def is_ws_def)
    then have "first_match secret_keys t = None"
      using False match_key_symbol [of _ "hd t" "tl t"] by (simp add: first_match_None)
    then have "redact_secrets t = hd t # redact_secrets (tl t)" using False by (subst redact_secrets.simps) simp
    then show ?thesis using \<open>\<not> value_char (hd t)\<close> by simp
  qed (simp add: redact_secrets.simps)
qed

lemma match_replaced:
  assumes "list_all word_byte b" "r = [] \<or> \<not> value_char (hd r)"
  shows "marked (b @ CHR ''='' # marker @ r)"
  unfolding marked_def
proof (intro allI impI)
  fix k key rest
  assume k: "k \<in> set secret_keys" and m: "match_key k (b @ CHR ''='' # marker @ r) = Some (key, rest)"
  from match_key_split [OF m k] obtain sep v where
    o: "b @ CHR ''='' # marker @ r = key @ sep # v @ rest" "sep = CHR ''='' \<or> sep = CHR '':''" "list_all value_char v"
      "rest = [] \<or> \<not> value_char (hd rest)" "list_all word_byte key" by blast
  have "b = key \<and> CHR ''='' # marker @ r = sep # v @ rest"
  proof -
    have tw: "takeWhile word_byte (x @ y # z) = x" if "list_all word_byte x" "\<not> word_byte y" for x y z
      using that by (induction x) auto
    have "\<not> word_byte sep" "\<not> word_byte (CHR ''='')" using o(2) by (auto simp: word_byte_def)
    then have "b = key" using tw assms(1) o(1,5) by metis
    then show ?thesis using o(1) by simp
  qed
  then have e: "b = key" "marker @ r = v @ rest" by simp_all
  have tw: "takeWhile value_char (x @ y) = x" if "list_all value_char x" "y = [] \<or> \<not> value_char (hd y)" for x y
    using that by (cases y) (simp_all add: list_all_iff takeWhile_append)
  have "list_all value_char marker" by (simp add: marker_def value_char_def is_ws_def)
  then have "v = marker" using tw [OF o(3,4)] tw [OF _ assms(2)] e(2) by metis
  with e show "b @ CHR ''='' # marker @ r = key @ CHR ''='' # marker @ rest" by simp
qed

theorem redact_secrets_redacted: "redacted (redact_secrets s)"
proof (induction s rule: redact_secrets.induct)
  case (1 s)
  show ?case
  proof (cases "s = []")
    case True
    then show ?thesis using marked_Nil by (simp add: redact_secrets.simps redacted_iff)
  next
    case False
    show ?thesis
    proof (cases "first_match secret_keys s")
      case None
      then have r: "redact_secrets s = [hd s] @ redact_secrets (tl s)" using False by (subst redact_secrets.simps) simp
      have "marked (redact_secrets s)"
        using None redact_no_match by (simp add: marked_def first_match_None)
      then show ?thesis unfolding r
        by (intro redacted_append "1.IH"(1) [OF False None]) (auto simp: r Cons_eq_append_conv)
    next
      case (Some m)
      obtain key rest where m: "m = (key, rest)" by (cases m)
      with Some obtain k where k: "k \<in> set secret_keys" "match_key k s = Some (key, rest)"
        using first_match_Some by blast
      from match_key_split [OF k(2,1)] have e: "list_all word_byte key" "rest = [] \<or> \<not> value_char (hd rest)" by auto
      note h = redact_hd [OF e(2)]
      have r: "redact_secrets s = (key @ CHR ''='' # marker) @ redact_secrets rest"
        using Some m False by (subst redact_secrets.simps) (simp add: marker_def)
      show ?thesis unfolding r
      proof (intro redacted_append "1.IH"(2) [OF False Some m [symmetric]])
        fix b1 b2
        assume b: "key @ CHR ''='' # marker = b1 @ b2" "b2 \<noteq> []"
        then consider (key) u where "key = b1 @ u" "b2 = u @ CHR ''='' # marker" | (tail) u where "CHR ''='' # marker = u @ b2"
          by (auto simp: append_eq_append_conv2)
        then show "marked (b2 @ redact_secrets rest)"
        proof cases
          case key
          then have "list_all word_byte u" using e(1) by simp
          then show ?thesis using match_replaced [OF _ h] key by simp
        next
          case tail
          then have d: "b2 = drop (length u) (CHR ''='' # marker)" by simp
          have "length (CHR ''='' # marker) = 11" by (simp add: marker_def)
          then have "length u < 11" using tail b(2) by (metis add_less_cancel_left add.right_neutral length_append length_greater_0_conv)
          then show ?thesis using marker_tail_unmatched d by (simp add: marked_def)
        qed
      qed
    qed
  qed
qed

text \<open>What truncation makes of a redacted text.\<close>

lemma redacted_cut:
  assumes "redacted (p @ t @ d)" "k \<in> set secret_keys" "match_key k t = Some (key, rest)"
  shows "\<exists>n. t = key @ CHR ''='' # take n marker @ rest"
proof -
  from match_key_split [OF assms(3,2)] obtain sep v where
    t: "t = key @ sep # v @ rest" "sep = CHR ''='' \<or> sep = CHR '':''" "v \<noteq> []" "list_all value_char v"
      "\<forall>u. eat_word k (key @ u) = Some u" by blast
  let ?r = "dropWhile value_char (v @ rest @ d)"
  have "match_key k (key @ sep # (v @ rest @ d)) = Some (key, ?r)"
    by (rule match_keyI [OF t(5,2)]) (use t(3,4) in \<open>cases v; simp\<close>)+
  then have "t @ d = key @ CHR ''='' # marker @ ?r"
    using assms(1,2) t(1) by (simp add: redacted_iff marked_def)
  then have e: "sep = CHR ''=''" "v @ rest @ d = marker @ ?r" using t(1) by auto
  have "takeWhile value_char (v @ rest @ d) = marker"
    using e(2) by (metis append_same_eq takeWhile_dropWhile_id)
  moreover have "takeWhile value_char (v @ rest @ d) = v @ takeWhile value_char (rest @ d)"
    using t(4) by (simp add: list_all_iff)
  ultimately have "v = take (length v) marker" by (metis append_eq_conv_conj)
  then show ?thesis using t(1) e(1) by metis
qed

text \<open>C22. What a reason can still contain. A persisted reason has at most 255 bytes, and wherever it contains one of
  the secret keys followed by a separator and a value, that separator is \<open>=\<close> and the value is the redaction
  marker or the beginning of it where the reason was cut.\<close>

theorem safe_reason_redacted:
  "length (RedactSafeReason s) \<le> 255 \<and>
   (\<forall>p t k key rest. RedactSafeReason s = p @ t \<longrightarrow> k \<in> set secret_keys \<longrightarrow> match_key k t = Some (key, rest) \<longrightarrow>
      (\<exists>n. t = key @ CHR ''='' # take n marker @ rest))"
proof (intro conjI allI impI)
  show "length (RedactSafeReason s) \<le> 255"
    by (simp add: RedactSafeReason_def truncate_bytes_def maxSafeReasonLen_def)
  fix p t k key rest
  assume a: "RedactSafeReason s = p @ t" "k \<in> set secret_keys" "match_key k t = Some (key, rest)"
  let ?o = "redact_secrets (redact_bearer False s)"
  have "t \<noteq> []" using match_key_split [OF a(3,2)] by auto
  then have "s \<noteq> []" using a(1) by (auto simp: RedactSafeReason_def)
  then have "RedactSafeReason s = take 255 ?o"
    by (simp add: RedactSafeReason_def truncate_bytes_def maxSafeReasonLen_def)
  then have "?o = p @ t @ drop 255 ?o" using a(1) by (metis append.assoc append_take_drop_id)
  then have "redacted (p @ t @ drop 255 ?o)" using redact_secrets_redacted [of "redact_bearer False s"] by metis
  from redacted_cut [OF this a(2,3)] show "\<exists>n. t = key @ CHR ''='' # take n marker @ rest" by simp
qed

theorem safe_reason_redacted_witness:
  "RedactSafeReason ''auth: Bearer abc token=xyz'' = ''auth: bearer=[REDACTED] token=[REDACTED]''
   \<and> (\<exists>n. ''token=[REDACTED]'' = ''token'' @ CHR ''='' # take n marker)"
proof -
  have r: "RedactSafeReason ''auth: Bearer abc token=xyz'' = ''auth: bearer=[REDACTED] '' @ ''token=[REDACTED]''"
    by code_simp
  have m: "match_key ''token'' ''token=[REDACTED]'' = Some (''token'', [])" by code_simp
  have "''token'' \<in> set secret_keys" by (simp add: secret_keys_def)
  from safe_reason_redacted [THEN conjunct2, rule_format, OF r this m] r show ?thesis by simp
qed

text \<open>A secret behind a separator and a blank has another shape and is kept.\<close>

lemma spaced_secret_kept: "RedactSafeReason ''password: hunter2'' = ''password: hunter2''"
  by code_simp

end
