(* ===== verification/Control.thy ===== *)
theory Control
  imports AuditJournal
begin

text \<open>
  Package \<open>control\<close>: the durable ledger of executed commands (\<open>ledger.go\<close>) and the module that polls, executes
  and reports them (\<open>module.go\<close>). The result map of a command is the type variable \<open>'r\<close>: it is only carried.
  The state of the audit sink is \<open>'a\<close>. Command identifiers come out of the JSON decoder of \<open>transport\<close>, so
  they are valid UTF-8 and survive as keys of the ledger file.
\<close>

section \<open>The ledger\<close>

definition StatusExecuting :: string where "StatusExecuting = ''executing''"
definition StatusSucceeded :: string where "StatusSucceeded = ''succeeded''"
definition StatusFailed :: string where "StatusFailed = ''failed''"

definition ErrIndeterminateAfterRestart :: string where
  "ErrIndeterminateAfterRestart = ''INDETERMINATE_AFTER_RESTART''"

definition defaultMaxEntries :: int where
  "defaultMaxEntries = 100"

record 'r command_execution =
  exec_status :: string
  exec_result :: "'r option"
  exec_error_code :: string
  exec_completed_at :: string

record 'r ledger =
  maxEntries :: int
  commands :: "(string \<times> 'r command_execution) list"
  order :: "string list"

text \<open>\<open>control_ledger.json\<close> as \<open>OpenLedger\<close> finds it; a stored ledger whose \<open>commands\<close> is \<open>null\<close> has none.\<close>

datatype 'r ledger_file = No_Ledger | Ledger_Unreadable | Ledger_Bad_JSON
  | Ledger_Stored "(string \<times> 'r command_execution) list option" "string list"

datatype ledger_error = Err_Ledger_Read | ErrCorruptLedger | Err_Ledger_Save nat

text \<open>\<open>iter\<close> is the order in which Go ranges over the command map.\<close>

definition OpenLedger :: "int \<Rightarrow> string list \<Rightarrow> 'r ledger_file \<Rightarrow> ledger_error + 'r ledger" where
  "OpenLedger n iter file =
     (let m = (if n \<le> 0 then defaultMaxEntries else n)
      in case file of
           No_Ledger \<Rightarrow> Inr \<lparr>maxEntries = m, commands = [], order = []\<rparr>
         | Ledger_Unreadable \<Rightarrow> Inl Err_Ledger_Read
         | Ledger_Bad_JSON \<Rightarrow> Inl ErrCorruptLedger
         | Ledger_Stored cs ord \<Rightarrow>
             (let cmds = (case cs of None \<Rightarrow> [] | Some c \<Rightarrow> c);
                  existing = filter (\<lambda>cid. map_of cmds cid \<noteq> None) ord
              in Inr \<lparr>maxEntries = m, commands = cmds,
                      order = ord @ filter (\<lambda>cid. map_of cmds cid \<noteq> None \<and> cid \<notin> set existing) iter\<rparr>))"

definition Ledger_Get :: "string \<Rightarrow> 'r ledger \<Rightarrow> 'r command_execution option" where
  "Ledger_Get cid l = map_of (commands l) cid"

text \<open>The eviction of the oldest entries, common to \<open>Begin\<close> and \<open>Complete\<close>.\<close>

definition ledger_prune :: "'r ledger \<Rightarrow> 'r ledger" where
  "ledger_prune l =
     (if int (length (order l)) > maxEntries l then
        (let pruneCount = nat (int (length (order l)) - maxEntries l)
         in l\<lparr>commands := foldl (\<lambda>c cid. AList.delete cid c) (commands l) (take pruneCount (order l)),
              order := drop pruneCount (order l)\<rparr>)
      else l)"

definition ledger_put :: "string \<Rightarrow> 'r command_execution \<Rightarrow> 'r ledger \<Rightarrow> 'r ledger" where
  "ledger_put cid e l =
     ledger_prune (l\<lparr>order := (if map_of (commands l) cid = None then order l @ [cid] else order l),
                     commands := AList.update cid e (commands l)\<rparr>)"

text \<open>\<open>saveLocked\<close>: the steps directory, encoding, temporary file, write, sync, mode, close and rename, of
  which one may fail; only the rename changes the file. \<open>enc\<close> is what decoding the encoded results gives.\<close>

datatype ledger_outcome = Saved | Save_Fails nat

definition ledger_encode :: "('r \<Rightarrow> 'r) \<Rightarrow> 'r ledger \<Rightarrow> 'r ledger_file" where
  "ledger_encode enc l =
     Ledger_Stored (Some (map (\<lambda>(cid, e). (cid, e\<lparr>exec_result := map_option enc (exec_result e)\<rparr>)) (commands l))) (order l)"

definition ledger_save :: "('r \<Rightarrow> 'r) \<Rightarrow> ledger_outcome \<Rightarrow> 'r ledger \<Rightarrow> 'r ledger_file \<Rightarrow> ledger_error option \<times> 'r ledger_file" where
  "ledger_save enc sv l file =
     (case sv of Saved \<Rightarrow> (None, ledger_encode enc l) | Save_Fails step \<Rightarrow> (Some (Err_Ledger_Save step), file))"

definition Ledger_Begin ::
  "('r \<Rightarrow> 'r) \<Rightarrow> ledger_outcome \<Rightarrow> string \<Rightarrow> string \<Rightarrow> 'r ledger \<Rightarrow> 'r ledger_file \<Rightarrow> ledger_error option \<times> 'r ledger \<times> 'r ledger_file" where
  "Ledger_Begin enc sv now cid l file =
     (let l' = ledger_put cid \<lparr>exec_status = StatusExecuting, exec_result = None, exec_error_code = [],
                 exec_completed_at = now\<rparr> l
      in case ledger_save enc sv l' file of (e, file') \<Rightarrow> (e, l', file'))"

definition Ledger_Complete ::
  "('r \<Rightarrow> 'r) \<Rightarrow> ledger_outcome \<Rightarrow> string \<Rightarrow> string \<Rightarrow> 'r command_execution \<Rightarrow> 'r ledger \<Rightarrow> 'r ledger_file
     \<Rightarrow> ledger_error option \<times> 'r ledger \<times> 'r ledger_file" where
  "Ledger_Complete enc sv now cid ex l file =
     (let ex' = (if exec_completed_at ex = [] then ex\<lparr>exec_completed_at := now\<rparr> else ex);
          l' = ledger_put cid ex' l
      in case ledger_save enc sv l' file of (e, file') \<Rightarrow> (e, l', file'))"

definition Ledger_Record ::
  "('r \<Rightarrow> 'r) \<Rightarrow> ledger_outcome \<Rightarrow> string \<Rightarrow> string \<Rightarrow> 'r command_execution \<Rightarrow> 'r ledger \<Rightarrow> 'r ledger_file
     \<Rightarrow> ledger_error option \<times> 'r ledger \<times> 'r ledger_file" where
  "Ledger_Record = Ledger_Complete"

definition Ledger_Count :: "'r ledger \<Rightarrow> nat" where
  "Ledger_Count l = length (commands l)"

section \<open>The module\<close>

definition defaultMaxTrackedExecutions :: int where
  "defaultMaxTrackedExecutions = 256"

record 'r tracked_execution =
  tr_status :: string
  tr_result :: "'r option"
  tr_errorCode :: string

record 'r control_module =
  cm_ledger :: "'r ledger option"
  executed :: "(string \<times> 'r tracked_execution) list"
  executedOrder :: "string list"

definition control_New :: "'r ledger option \<Rightarrow> 'r control_module" where
  "control_New l = \<lparr>cm_ledger = l, executed = [], executedOrder = []\<rparr>"

text \<open>The bound of the in-memory map and its eviction loop.\<close>

definition tracked_bound :: "'r control_module \<Rightarrow> int" where
  "tracked_bound m =
     (case cm_ledger m of
        None \<Rightarrow> defaultMaxTrackedExecutions
      | Some l \<Rightarrow> if maxEntries l > defaultMaxTrackedExecutions then maxEntries l else defaultMaxTrackedExecutions)"

function evict_tracked :: "int \<Rightarrow> 'r control_module \<Rightarrow> 'r control_module" where
  "evict_tracked bound m =
     (if int (length (executedOrder m)) > bound \<and> executedOrder m \<noteq> [] then
        evict_tracked bound (m\<lparr>executedOrder := tl (executedOrder m),
                              executed := AList.delete (hd (executedOrder m)) (executed m)\<rparr>)
      else m)"
  by auto
termination by (relation "measure (\<lambda>(b, m). length (executedOrder m))") auto

declare evict_tracked.simps [simp del]

definition trackExecutedLocked :: "string \<Rightarrow> 'r tracked_execution \<Rightarrow> 'r control_module \<Rightarrow> 'r control_module" where
  "trackExecutedLocked cid e m =
     evict_tracked (tracked_bound m)
       (m\<lparr>executedOrder := (if map_of (executed m) cid = None then executedOrder m @ [cid] else executedOrder m),
          executed := AList.update cid e (executed m)\<rparr>)"

text \<open>A claimed command; of its payload only whether it is empty is read.\<close>

record control_command =
  cmd_ID :: string
  CommandType :: string
  payload_empty :: bool

text \<open>What the environment answers during one execution.\<close>

record 'r exec_env =
  begin_save :: ledger_outcome
  complete_save :: ledger_outcome
  begin_now :: string
  complete_now :: string
  executor_status :: 'r
  rediscover_fails :: bool
  reload_fails :: bool
  empty_map :: 'r

text \<open>The effects of an execution: module, ledger file, calls of the executor, state of the audit sink.\<close>

record ('r, 'a) control_world =
  cw_module :: "'r control_module"
  cw_file :: "'r ledger_file"
  cw_calls :: "(string \<times> string) list"
  cw_audit :: 'a

text \<open>\<open>auditAppend\<close>: the sink's answer, an error included, changes nothing but the sink.\<close>

type_synonym 'a audit_sink = "(audit_record \<Rightarrow> 'a \<Rightarrow> bool \<times> 'a) option"

definition control_auditAppend :: "'a audit_sink \<Rightarrow> audit_record \<Rightarrow> ('r, 'a) control_world \<Rightarrow> ('r, 'a) control_world" where
  "control_auditAppend sink r w =
     (case sink of None \<Rightarrow> w | Some ap \<Rightarrow> w\<lparr>cw_audit := snd (ap r (cw_audit w))\<rparr>)"

definition failed_record :: "string \<Rightarrow> string \<Rightarrow> audit_record" where
  "failed_record cid reason = zero_record\<lparr>EventType := ''CONTROL_COMMAND_FAILED'', Result := ''failure'',
     CommandID := cid, SafeReason := reason\<rparr>"

definition executed_record :: "string \<Rightarrow> string \<Rightarrow> string \<Rightarrow> audit_record" where
  "executed_record cid state code =
     (if state = StatusFailed then failed_record cid code
      else zero_record\<lparr>EventType := ''CONTROL_COMMAND_EXECUTED'', Result := ''success'', CommandID := cid, SafeReason := code\<rparr>)"

datatype 'r exec_answer = Report string "'r option" string | Halt ledger_error

text \<open>The dispatch on the command type: the outcome and whether the executor was called.\<close>

definition dispatch :: "'r exec_env \<Rightarrow> string \<Rightarrow> (string \<times> 'r option \<times> string) \<times> bool" where
  "dispatch env ty =
     (if ty = ''request_status'' then ((StatusSucceeded, Some (executor_status env), []), True)
      else if ty = ''rediscovery'' then
        (if rediscover_fails env then ((StatusFailed, None, ''REDISCOVERY_FAILED''), True)
         else ((StatusSucceeded, Some (empty_map env), []), True))
      else if ty = ''reload_config'' then
        (if reload_fails env then ((StatusFailed, None, ''RELOAD_CONFIG_FAILED''), True)
         else ((StatusSucceeded, Some (empty_map env), []), True))
      else if ty = ''restart_video_pipeline'' then ((StatusFailed, None, ''UNSUPPORTED''), False)
      else ((StatusFailed, None, ''UNKNOWN_COMMAND''), False))"

text \<open>Steps 1 and 2 of \<open>execute\<close>: what the ledger or the in-memory map already answers.\<close>

definition known_answer :: "string \<Rightarrow> 'r control_module \<Rightarrow> (string \<times> 'r option \<times> string) option" where
  "known_answer cid m =
     (case (case cm_ledger m of None \<Rightarrow> None | Some l \<Rightarrow> Ledger_Get cid l) of
        Some e \<Rightarrow> Some (exec_status e, exec_result e, exec_error_code e)
      | None \<Rightarrow> map_option (\<lambda>t. (tr_status t, tr_result t, tr_errorCode t)) (map_of (executed m) cid))"

definition answer_known :: "'a audit_sink \<Rightarrow> string \<Rightarrow> string \<times> 'r option \<times> string \<Rightarrow> ('r, 'a) control_world
    \<Rightarrow> 'r exec_answer \<times> ('r, 'a) control_world" where
  "answer_known sink cid a w =
     (case a of (st, res, code) \<Rightarrow>
        if st = StatusExecuting
        then (Report StatusFailed None ErrIndeterminateAfterRestart,
              control_auditAppend sink (failed_record cid ErrIndeterminateAfterRestart) w)
        else (Report st res code, w))"

text \<open>Step 3: mark the command in the ledger and in memory.\<close>

definition begin_command :: "'a audit_sink \<Rightarrow> ('r \<Rightarrow> 'r) \<Rightarrow> 'r exec_env \<Rightarrow> string \<Rightarrow> ('r, 'a) control_world
    \<Rightarrow> ledger_error option \<times> ('r, 'a) control_world" where
  "begin_command sink enc env cid w =
     (let mark = (\<lambda>v. v\<lparr>cw_module := trackExecutedLocked cid \<lparr>tr_status = StatusExecuting, tr_result = None, tr_errorCode = []\<rparr> (cw_module v)\<rparr>)
      in case cm_ledger (cw_module w) of
           None \<Rightarrow> (None, mark w)
         | Some l \<Rightarrow>
             (case Ledger_Begin enc (begin_save env) (begin_now env) cid l (cw_file w) of
                (Some e, l', file') \<Rightarrow>
                  (Some e, control_auditAppend sink (failed_record cid ''LEDGER_BEGIN_FAILED'')
                     (w\<lparr>cw_module := (cw_module w)\<lparr>cm_ledger := Some l'\<rparr>, cw_file := file'\<rparr>))
              | (None, l', file') \<Rightarrow>
                  (None, mark (w\<lparr>cw_module := (cw_module w)\<lparr>cm_ledger := Some l'\<rparr>, cw_file := file'\<rparr>))))"

text \<open>The call of the executor and the audit event about it.\<close>

definition run_command :: "'a audit_sink \<Rightarrow> 'r exec_env \<Rightarrow> control_command \<Rightarrow> ('r, 'a) control_world
    \<Rightarrow> (string \<times> 'r option \<times> string) \<times> ('r, 'a) control_world" where
  "run_command sink env cmd w =
     (case dispatch env (CommandType cmd) of ((st, res, code), called) \<Rightarrow>
        ((st, res, code),
         control_auditAppend sink (executed_record (cmd_ID cmd) st code)
           (if called then w\<lparr>cw_calls := cw_calls w @ [(cmd_ID cmd, CommandType cmd)]\<rparr> else w)))"

text \<open>Step 4: persist the outcome before it is reported.\<close>

definition complete_command :: "('r \<Rightarrow> 'r) \<Rightarrow> 'r exec_env \<Rightarrow> string \<Rightarrow> string \<times> 'r option \<times> string \<Rightarrow> ('r, 'a) control_world
    \<Rightarrow> 'r exec_answer \<times> ('r, 'a) control_world" where
  "complete_command enc env cid a w =
     (case a of (st, res, code) \<Rightarrow>
        let keep = (\<lambda>v. v\<lparr>cw_module := trackExecutedLocked cid \<lparr>tr_status = st, tr_result = res, tr_errorCode = code\<rparr> (cw_module v)\<rparr>)
        in case cm_ledger (cw_module w) of
             None \<Rightarrow> (Report st res code, keep w)
           | Some l \<Rightarrow>
               (case Ledger_Complete enc (complete_save env) (complete_now env) cid
                       \<lparr>exec_status = st, exec_result = res, exec_error_code = code, exec_completed_at = []\<rparr> l (cw_file w) of
                  (Some e, l', file') \<Rightarrow>
                    (Halt e, w\<lparr>cw_module := (cw_module w)\<lparr>cm_ledger := Some l'\<rparr>, cw_file := file'\<rparr>)
                | (None, l', file') \<Rightarrow>
                    (Report st res code, keep (w\<lparr>cw_module := (cw_module w)\<lparr>cm_ledger := Some l'\<rparr>, cw_file := file'\<rparr>))))"

definition control_execute :: "'a audit_sink \<Rightarrow> ('r \<Rightarrow> 'r) \<Rightarrow> 'r exec_env \<Rightarrow> control_command \<Rightarrow> ('r, 'a) control_world
    \<Rightarrow> 'r exec_answer \<times> ('r, 'a) control_world" where
  "control_execute sink enc env cmd w =
     (if cmd_ID cmd = [] \<or> \<not> payload_empty cmd
      then (Report StatusFailed None ''INVALID_COMMAND'',
            control_auditAppend sink (failed_record (cmd_ID cmd) ''INVALID_COMMAND'') w)
      else case known_answer (cmd_ID cmd) (cw_module w) of
        Some a \<Rightarrow> answer_known sink (cmd_ID cmd) a w
      | None \<Rightarrow>
          (case begin_command sink enc env (cmd_ID cmd) w of
             (Some e, w1) \<Rightarrow> (Halt e, w1)
           | (None, w1) \<Rightarrow>
               (case run_command sink env cmd w1 of (a, w2) \<Rightarrow> complete_command enc env (cmd_ID cmd) a w2)))"

section \<open>The polling loop\<close>

definition authBackoff :: duration where "authBackoff = 300 * second"
definition maxBackoff :: duration where "maxBackoff = 60 * second"
definition defaultInterval :: duration where "defaultInterval = 15 * second"

datatype claim_answer = Claim_Canceled | Claim_Unauthorized | Claim_RateLimited duration | Claim_Failed
  | Claim_Nothing | Claim_Command control_command

record loop_state =
  loop_interval :: duration
  loop_wait :: duration
  loop_backoff :: duration

definition loop_start :: "duration \<Rightarrow> loop_state" where
  "loop_start i = \<lparr>loop_interval = i, loop_wait = i, loop_backoff = 0\<rparr>"

text \<open>The wait after a failed claim; \<open>None\<close> ends the loop.\<close>

definition claim_error :: "claim_answer \<Rightarrow> loop_state \<Rightarrow> loop_state option" where
  "claim_error c s =
     (let grown = (if loop_backoff s = 0 then loop_interval s
                   else if wrap64 (loop_backoff s * 2) > maxBackoff then maxBackoff else wrap64 (loop_backoff s * 2));
          backed_off = s\<lparr>loop_backoff := grown, loop_wait := grown\<rparr>
      in case c of
           Claim_Canceled \<Rightarrow> None
         | Claim_Unauthorized \<Rightarrow> Some (s\<lparr>loop_wait := authBackoff\<rparr>)
         | Claim_RateLimited d \<Rightarrow> Some (if d > 0 then s\<lparr>loop_wait := d\<rparr> else backed_off)
         | _ \<Rightarrow> Some backed_off)"

text \<open>One turn of \<open>loop\<close> after its wait: \<open>interval\<close> is the poll interval now configured, \<open>canceled\<close> whether the
  report fails with the canceled context. The answer carries what was reported.\<close>

definition loop_turn :: "'a audit_sink \<Rightarrow> ('r \<Rightarrow> 'r) \<Rightarrow> 'r exec_env \<Rightarrow> claim_answer \<Rightarrow> duration \<Rightarrow> bool
    \<Rightarrow> loop_state \<times> ('r, 'a) control_world \<Rightarrow> 'r exec_answer option \<times> loop_state option \<times> ('r, 'a) control_world" where
  "loop_turn sink enc env c interval canceled sw =
     (case sw of (s, w) \<Rightarrow>
        let s' = \<lparr>loop_interval = interval, loop_wait = interval, loop_backoff = 0\<rparr>
        in case c of
             Claim_Nothing \<Rightarrow> (None, Some s', w)
           | Claim_Command cmd \<Rightarrow>
               (case control_execute sink enc env cmd
                       (control_auditAppend sink (zero_record\<lparr>EventType := ''CONTROL_COMMAND_RECEIVED'',
                          Result := ''success'', CommandID := cmd_ID cmd\<rparr>) w) of
                  (Halt e, w') \<Rightarrow> (None, None, w')
                | (Report st res code, w') \<Rightarrow>
                    (Some (Report st res code), if canceled then None else Some s', w'))
           | _ \<Rightarrow> (None, claim_error c s, w))"

text \<open>\<open>SetPollInterval\<close>.\<close>

definition SetPollInterval :: "duration \<Rightarrow> duration \<Rightarrow> duration" where
  "SetPollInterval d i = (if d > 0 then d else i)"

end
