(* ===== verification/Control_Props.thy ===== *)
theory Control_Props
  imports Control "HOL-Library.Sublist"
begin

text \<open>
  What the ledger and the in-memory map promise the module (locale \<open>bounded_memory\<close>, interpreted on both), and
  what follows for executions across failing saves, crashes and restarts: a command is executed at most
  once while the ledger remembers it, and a reported outcome is the recorded one.
\<close>

section \<open>Bounded memories of commands\<close>

text \<open>\<open>windowed n xs\<close>: no element occurs again among the \<open>n\<close> elements after it.\<close>

definition windowed :: "nat \<Rightarrow> 'x list \<Rightarrow> bool" where
  "windowed n xs \<longleftrightarrow> (\<forall>i j. i < j \<longrightarrow> j < length xs \<longrightarrow> xs ! i = xs ! j \<longrightarrow> n < j - i)"

definition latest :: "nat \<Rightarrow> 'x list \<Rightarrow> 'x list" where
  "latest n xs = drop (length xs - n) xs"

lemma latest_snoc: "0 < n \<Longrightarrow> latest n (latest n xs @ [x]) = latest n (xs @ [x])"
  by (cases "length xs \<le> n") (auto simp: latest_def Suc_diff_le)

lemma length_latest: "length (latest n xs) \<le> n"
  by (simp add: latest_def)

lemma windowed_snoc:
  assumes "windowed n xs" "x \<notin> set (latest n xs)"
  shows "windowed n (xs @ [x])"
  unfolding windowed_def
proof (intro allI impI)
  fix i j
  assume ij: "i < j" "j < length (xs @ [x])" "(xs @ [x]) ! i = (xs @ [x]) ! j"
  show "n < j - i"
  proof (cases "j < length xs")
    case True
    then show ?thesis using assms(1) ij by (simp add: windowed_def nth_append)
  next
    case False
    then have j: "j = length xs" "i < length xs" "xs ! i = x" using ij by (auto simp: nth_append)
    show ?thesis
    proof (rule ccontr)
      assume "\<not> n < j - i"
      then have "length xs - n \<le> i" using j(1) by simp
      then have "xs ! i \<in> set (latest n xs)"
        using j(2) by (auto simp: latest_def in_set_conv_nth intro!: exI [of _ "i - (length xs - n)"])
      then show False using assms(2) j(3) by simp
    qed
  qed
qed

locale bounded_memory =
  fixes inv :: "'s \<Rightarrow> bool" and bound :: "'s \<Rightarrow> nat" and ids :: "'s \<Rightarrow> string list"
    and look :: "'s \<Rightarrow> string \<Rightarrow> 'e option" and put :: "string \<Rightarrow> 'e \<Rightarrow> 's \<Rightarrow> 's"
  assumes bound_pos: "inv s \<Longrightarrow> 0 < bound s"
    and inv_put: "inv s \<Longrightarrow> inv (put i e s)"
    and bound_put: "inv s \<Longrightarrow> bound (put i e s) = bound s"
    and ids_put: "inv s \<Longrightarrow> ids (put i e s) = (if i \<in> set (ids s) then ids s else latest (bound s) (ids s @ [i]))"
    and look_put: "inv s \<Longrightarrow> look (put i e s) j = (if j = i then Some e else if j \<in> set (ids (put i e s)) then look s j else None)"
    and look_ids: "inv s \<Longrightarrow> look s i = None \<longleftrightarrow> i \<notin> set (ids s)"
begin

text \<open>A new entry extends the log the memory remembers the end of.\<close>

lemma put_new:
  assumes "inv s" "ids s = latest (bound s) log" "windowed (bound s) log" "look s i = None"
  shows "ids (put i e s) = latest (bound s) (log @ [i])" "windowed (bound s) (log @ [i])"
  using assms windowed_snoc [of "bound s" log i] latest_snoc [OF bound_pos [OF assms(1)]]
  by (simp_all add: ids_put look_ids)

lemma put_known: "inv s \<Longrightarrow> look s i \<noteq> None \<Longrightarrow> ids (put i e s) = ids s"
  by (simp add: ids_put look_ids)

end

section \<open>A map with an insertion order\<close>

text \<open>What \<open>Begin\<close>, \<open>Complete\<close> and \<open>trackExecutedLocked\<close> have in common: an order and a map, the oldest
  entries evicted above \<open>n\<close>.\<close>

type_synonym 'e memory = "string list \<times> (string \<times> 'e) list"

definition remember :: "nat \<Rightarrow> string \<Rightarrow> 'e \<Rightarrow> 'e memory \<Rightarrow> 'e memory" where
  "remember n i e s =
     (let ord = (if map_of (snd s) i = None then fst s @ [i] else fst s); k = length ord - n
      in (drop k ord, foldl (\<lambda>c i. AList.delete i c) (AList.update i e (snd s)) (take k ord)))"

definition memory_inv :: "nat \<Rightarrow> 'e memory \<Rightarrow> bool" where
  "memory_inv n s \<longleftrightarrow> 0 < n \<and> distinct (fst s) \<and> wf_alist (snd s) \<and> set (fst s) = fst ` set (snd s) \<and> length (fst s) \<le> n"

lemma map_of_deletes:
  "map_of (foldl (\<lambda>c i. AList.delete i c) m xs) j = (if j \<in> set xs then None else map_of m j)"
  by (induction xs arbitrary: m) (auto simp: delete_conv)

lemma wf_deletes: "wf_alist m \<Longrightarrow> wf_alist (foldl (\<lambda>c i. AList.delete i c) m xs)"
  by (induction xs arbitrary: m) simp_all

lemma keys_map_of: "i \<in> fst ` set m \<longleftrightarrow> map_of m i \<noteq> None"
  by (simp add: map_of_eq_None_iff)

lemma remember_spec:
  assumes "memory_inv n s"
  shows "fst (remember n i e s) = (if i \<in> set (fst s) then fst s else latest n (fst s @ [i]))"
    "map_of (snd (remember n i e s)) j =
       (if j = i then Some e else if j \<in> set (fst (remember n i e s)) then map_of (snd s) j else None)"
    "memory_inv n (remember n i e s)"
proof -
  note a = assms [unfolded memory_inv_def]
  have known: "map_of (snd s) k = None \<longleftrightarrow> k \<notin> set (fst s)" for k using a by (simp add: map_of_eq_None_iff)
  define ord where "ord = (if map_of (snd s) i = None then fst s @ [i] else fst s)"
  define k where "k = length ord - n"
  have r: "remember n i e s = (drop k ord, foldl (\<lambda>c i. AList.delete i c) (AList.update i e (snd s)) (take k ord))"
    by (simp add: remember_def Let_def ord_def k_def)
  show "fst (remember n i e s) = (if i \<in> set (fst s) then fst s else latest n (fst s @ [i]))"
    using a known [of i] by (simp add: r k_def ord_def latest_def)
  have i: "i \<in> set (drop k ord)"
    using a known [of i] by (cases "i \<in> set (fst s)") (simp_all add: k_def ord_def)
  have dist: "distinct ord" using a known [of i] by (simp add: ord_def)
  then have disj: "set (take k ord) \<inter> set (drop k ord) = {}" by (simp add: set_take_disj_set_drop_if_distinct)
  have split: "set ord = set (take k ord) \<union> set (drop k ord)" by (metis append_take_drop_id set_append)
  have sub: "set (fst s) \<subseteq> set ord" "set ord \<subseteq> insert i (set (fst s))" by (auto simp: ord_def)
  show look: "map_of (snd (remember n i e s)) j =
       (if j = i then Some e else if j \<in> set (fst (remember n i e s)) then map_of (snd s) j else None)" for j
  proof -
    have "map_of (snd (remember n i e s)) j =
        (if j \<in> set (take k ord) then None else if j = i then Some e else map_of (snd s) j)"
      by (simp add: r map_of_deletes update_conv')
    then show ?thesis using i disj split sub(1) known [of j] by (cases "j = i") (auto simp: r)
  qed
  have "set (fst (remember n i e s)) = fst ` set (snd (remember n i e s))"
  proof (intro set_eqI)
    fix j
    have "j \<in> set (drop k ord) \<Longrightarrow> j = i \<or> map_of (snd s) j \<noteq> None" using split sub(2) known [of j] by blast
    then show "j \<in> set (fst (remember n i e s)) \<longleftrightarrow> j \<in> fst ` set (snd (remember n i e s))"
      unfolding keys_map_of look using i by (cases "j = i") (simp_all add: r)
  qed
  then show "memory_inv n (remember n i e s)"
    using a dist by (simp add: memory_inv_def r wf_deletes distinct_update k_def)
qed

section \<open>The ledger and the in-memory map\<close>

definition ledger_memory :: "'r ledger \<Rightarrow> 'r command_execution memory" where
  "ledger_memory l = (order l, commands l)"

definition ledger_inv :: "'r ledger \<Rightarrow> bool" where
  "ledger_inv l \<longleftrightarrow> memory_inv (nat (maxEntries l)) (ledger_memory l)"

definition tracked_memory :: "'r control_module \<Rightarrow> 'r tracked_execution memory" where
  "tracked_memory m = (executedOrder m, executed m)"

definition tracked_inv :: "'r control_module \<Rightarrow> bool" where
  "tracked_inv m \<longleftrightarrow> memory_inv (nat (tracked_bound m)) (tracked_memory m)"

lemma ledger_put_remember:
  assumes "0 < maxEntries l"
  shows "maxEntries (ledger_put i e l) = maxEntries l"
    "ledger_memory (ledger_put i e l) = remember (nat (maxEntries l)) i e (ledger_memory l)"
proof -
  have c: "nat (int n - maxEntries l) = n - nat (maxEntries l)" "int n > maxEntries l \<longleftrightarrow> n > nat (maxEntries l)" for n
    using assms by arith+
  show "maxEntries (ledger_put i e l) = maxEntries l" by (simp add: ledger_put_def ledger_prune_def Let_def)
  show "ledger_memory (ledger_put i e l) = remember (nat (maxEntries l)) i e (ledger_memory l)"
    by (simp add: ledger_put_def ledger_prune_def ledger_memory_def remember_def Let_def c)
qed

lemma evict_tracked_eq:
  assumes "0 < b"
  shows "evict_tracked b m = m\<lparr>executedOrder := drop (length (executedOrder m) - nat b) (executedOrder m),
    executed := foldl (\<lambda>c i. AList.delete i c) (executed m) (take (length (executedOrder m) - nat b) (executedOrder m))\<rparr>"
  using assms
proof (induction b m rule: evict_tracked.induct)
  case (1 b m)
  show ?case
  proof (cases "int (length (executedOrder m)) > b \<and> executedOrder m \<noteq> []")
    case True
    then obtain x xs where x: "executedOrder m = x # xs" by (cases "executedOrder m") auto
    then have "length (executedOrder m) - nat b = Suc (length xs - nat b)" using True "1.prems" by auto
    then show ?thesis using "1.IH" [OF True "1.prems"] True x by (subst evict_tracked.simps) simp
  next
    case False
    then have "length (executedOrder m) - nat b = 0" by auto
    then show ?thesis using False by (subst evict_tracked.simps) auto
  qed
qed

lemma tracked_bound_pos: "0 < tracked_bound m"
  by (simp add: tracked_bound_def defaultMaxTrackedExecutions_def split: option.splits)

lemma track_remember:
  "tracked_bound (trackExecutedLocked i e m) = tracked_bound m"
  "cm_ledger (trackExecutedLocked i e m) = cm_ledger m"
  "tracked_memory (trackExecutedLocked i e m) = remember (nat (tracked_bound m)) i e (tracked_memory m)"
  using tracked_bound_pos [of m]
  by (simp_all add: trackExecutedLocked_def evict_tracked_eq tracked_bound_def tracked_memory_def remember_def Let_def)

interpretation ledger: bounded_memory ledger_inv "\<lambda>l. nat (maxEntries l)" order "\<lambda>l i. Ledger_Get i l" ledger_put
proof unfold_locales
  fix l :: "'r ledger" and i j e
  assume inv: "ledger_inv l"
  then have m: "memory_inv (nat (maxEntries l)) (ledger_memory l)" "0 < maxEntries l"
    by (simp_all add: ledger_inv_def memory_inv_def)
  note p = ledger_put_remember [OF m(2), of i e] and s = remember_spec [OF m(1), of i e]
  show "0 < nat (maxEntries l)" "nat (maxEntries (ledger_put i e l)) = nat (maxEntries l)" using m(2) p by simp_all
  show "ledger_inv (ledger_put i e l)" using p s(3) by (simp add: ledger_inv_def)
  show "order (ledger_put i e l) = (if i \<in> set (order l) then order l else latest (nat (maxEntries l)) (order l @ [i]))"
    using p(2) s(1) by (simp add: ledger_memory_def prod_eq_iff)
  show "Ledger_Get j (ledger_put i e l) =
      (if j = i then Some e else if j \<in> set (order (ledger_put i e l)) then Ledger_Get j l else None)"
    using p(2) s(2) [of j] by (simp add: ledger_memory_def Ledger_Get_def prod_eq_iff)
  show "(Ledger_Get i l = None) = (i \<notin> set (order l))"
    using m(1) by (simp add: memory_inv_def ledger_memory_def Ledger_Get_def map_of_eq_None_iff)
qed

interpretation tracked: bounded_memory tracked_inv "\<lambda>m. nat (tracked_bound m)" executedOrder
  "\<lambda>m i. map_of (executed m) i" trackExecutedLocked
proof unfold_locales
  fix m :: "'r control_module" and i j e
  assume "tracked_inv m"
  then have v: "memory_inv (nat (tracked_bound m)) (tracked_memory m)" by (simp add: tracked_inv_def)
  note p = track_remember [of i e m] and s = remember_spec [OF v, of i e]
  show "0 < nat (tracked_bound m)" "nat (tracked_bound (trackExecutedLocked i e m)) = nat (tracked_bound m)"
    using tracked_bound_pos [of m] p by simp_all
  show "tracked_inv (trackExecutedLocked i e m)" using p s(3) by (simp add: tracked_inv_def)
  show "executedOrder (trackExecutedLocked i e m) =
      (if i \<in> set (executedOrder m) then executedOrder m else latest (nat (tracked_bound m)) (executedOrder m @ [i]))"
    using p(3) s(1) by (simp add: tracked_memory_def prod_eq_iff)
  show "map_of (executed (trackExecutedLocked i e m)) j =
      (if j = i then Some e else if j \<in> set (executedOrder (trackExecutedLocked i e m)) then map_of (executed m) j else None)"
    using p(3) s(2) [of j] by (simp add: tracked_memory_def prod_eq_iff)
  show "(map_of (executed m) i = None) = (i \<notin> set (executedOrder m))"
    using v by (simp add: memory_inv_def tracked_memory_def map_of_eq_None_iff)
qed

end
