(* ===== verification/Control_Run.thy ===== *)
theory Control_Run
  imports Control_Props
begin

text \<open>
  Runs of the control module: commands delivered any number of times, saves that fail, crashes around
  the executor's call, restarts. \<open>ctl_step\<close> interprets \<open>machine\<close>; the ghost \<open>cs_begun\<close> lists the commands whose start
  reached the disk.
\<close>

section \<open>The file and the ledger in memory\<close>

definition file_commands :: "'r ledger_file \<Rightarrow> (string \<times> 'r command_execution) list" where
  "file_commands f = (case f of Ledger_Stored (Some c) _ \<Rightarrow> c | _ \<Rightarrow> [])"

definition file_order :: "'r ledger_file \<Rightarrow> string list" where
  "file_order f = (case f of Ledger_Stored _ ord \<Rightarrow> ord | _ \<Rightarrow> [])"

definition file_inv :: "nat \<Rightarrow> 'r ledger_file \<Rightarrow> bool" where
  "file_inv n f \<longleftrightarrow> (f = No_Ledger \<or> f = Ledger_Stored (Some (file_commands f)) (file_order f))
     \<and> memory_inv n (file_order f, file_commands f)"

text \<open>The same outcome, the result as it is or as JSON gives it back.\<close>

definition same_outcome :: "('r \<Rightarrow> 'r) \<Rightarrow> 'r command_execution \<Rightarrow> 'r command_execution \<Rightarrow> bool" where
  "same_outcome enc e d \<longleftrightarrow> exec_status d = exec_status e \<and> exec_error_code d = exec_error_code e
     \<and> (exec_result d = exec_result e \<or> exec_result d = map_option enc (exec_result e))"

definition file_agrees :: "('r \<Rightarrow> 'r) \<Rightarrow> 'r ledger \<Rightarrow> 'r ledger_file \<Rightarrow> bool" where
  "file_agrees enc l f \<longleftrightarrow> file_order f = order l
     \<and> (\<forall>i. rel_option (same_outcome enc) (Ledger_Get i l) (map_of (file_commands f) i))"

lemma map_of_encode:
  "map_of (map (\<lambda>(i, e). (i, e\<lparr>exec_result := map_option enc (exec_result e)\<rparr>)) m) i =
     map_option (\<lambda>e. e\<lparr>exec_result := map_option enc (exec_result e)\<rparr>) (map_of m i)"
  by (induction m) auto

lemma encode_spec:
  assumes "ledger_inv l" "maxEntries l = int n"
  shows "file_inv n (ledger_encode enc l)" "file_agrees enc l (ledger_encode enc l)"
proof -
  let ?f = "ledger_encode enc l"
  have k: "map fst (file_commands ?f) = map fst (commands l)"
    by (simp add: ledger_encode_def file_commands_def case_prod_unfold)
  then have "set (map fst (file_commands ?f)) = set (map fst (commands l))" by (rule arg_cong)
  then have ks: "fst ` set (file_commands ?f) = fst ` set (commands l)" by simp
  have o: "file_order ?f = order l" by (simp add: ledger_encode_def file_order_def)
  have m: "memory_inv n (order l, commands l)" using assms by (simp add: ledger_inv_def ledger_memory_def)
  then have "memory_inv n (file_order ?f, file_commands ?f)" using k ks o by (simp add: memory_inv_def)
  moreover have "?f = Ledger_Stored (Some (file_commands ?f)) (file_order ?f)"
    by (simp add: ledger_encode_def file_commands_def file_order_def)
  ultimately show "file_inv n ?f" by (simp add: file_inv_def)
  show "file_agrees enc l (ledger_encode enc l)"
  proof -
    have "rel_option (same_outcome enc) (map_of (commands l) i)
        (map_option (\<lambda>e. e\<lparr>exec_result := map_option enc (exec_result e)\<rparr>) (map_of (commands l) i))" for i
      by (cases "map_of (commands l) i") (auto simp: same_outcome_def)
    then show ?thesis
      by (simp add: file_agrees_def ledger_encode_def file_commands_def file_order_def Ledger_Get_def map_of_encode)
  qed
qed

lemma open_spec:
  assumes "file_inv n f" "OpenLedger (int n) iter f = Inr l"
  shows "ledger_inv l" "maxEntries l = int n" "file_agrees enc l f"
proof -
  have n: "0 < n" using assms(1) by (simp add: file_inv_def memory_inv_def)
  let ?c = "file_commands f" and ?o = "file_order f"
  have mem: "map_of ?c i \<noteq> None \<longleftrightarrow> i \<in> set ?o" for i
    using assms(1) by (simp add: file_inv_def memory_inv_def map_of_eq_None_iff)
  have l: "l = \<lparr>maxEntries = int n, commands = ?c, order = ?o\<rparr>"
  proof (cases "f = No_Ledger")
    case True
    then show ?thesis using assms(2) n by (simp add: OpenLedger_def file_commands_def file_order_def)
  next
    case False
    then have f: "f = Ledger_Stored (Some ?c) ?o" using assms(1) by (simp add: file_inv_def)
    have e: "filter (\<lambda>i. map_of ?c i \<noteq> None) ?o = ?o" using mem by simp
    have m: "filter (\<lambda>i. map_of ?c i \<noteq> None \<and> i \<notin> set ?o) iter = []" using mem by simp
    have "OpenLedger (int n) iter (Ledger_Stored (Some ?c) ?o) =
        Inr \<lparr>maxEntries = int n, commands = ?c, order = ?o @ filter (\<lambda>i. map_of ?c i \<noteq> None \<and> i \<notin> set ?o) iter\<rparr>"
      unfolding OpenLedger_def Let_def ledger_file.case option.case e using n by simp
    then show ?thesis using assms(2) f m by (metis append_Nil2 sum.inject(2))
  qed
  show "ledger_inv l" "maxEntries l = int n" using assms(1) l by (simp_all add: ledger_inv_def ledger_memory_def file_inv_def)
  have "rel_option (same_outcome enc) x x" for x by (cases x) (simp_all add: same_outcome_def)
  then show "file_agrees enc l f" using l by (simp add: file_agrees_def Ledger_Get_def)
qed

section \<open>Runs\<close>

record ('r, 'a) ctl_state =
  cs_world :: "('r, 'a) control_world"
  cs_up :: bool
  cs_begun :: "string list"

definition valid_command :: "control_command \<Rightarrow> bool" where
  "valid_command cmd \<longleftrightarrow> cmd_ID cmd \<noteq> [] \<and> payload_empty cmd"

definition begins :: "'r exec_env \<Rightarrow> control_command \<Rightarrow> ('r, 'a) control_world \<Rightarrow> bool" where
  "begins env cmd w \<longleftrightarrow> valid_command cmd \<and> known_answer (cmd_ID cmd) (cw_module w) = None \<and> begin_save env = Saved"

inductive ctl_step :: "'a audit_sink \<Rightarrow> ('r \<Rightarrow> 'r) \<Rightarrow> nat \<Rightarrow> ('r, 'a) ctl_state \<Rightarrow> ('r, 'a) ctl_state \<Rightarrow> bool"
  for sink enc n where
  delivered: "cs_up s \<Longrightarrow> control_execute sink enc env cmd (cs_world s) = (ans, w) \<Longrightarrow>
    ctl_step sink enc n s \<lparr>cs_world = w, cs_up = (\<forall>e. ans \<noteq> Halt e),
      cs_begun = (if begins env cmd (cs_world s) then cs_begun s @ [cmd_ID cmd] else cs_begun s)\<rparr>"
| crashed_begun: "cs_up s \<Longrightarrow> begins env cmd (cs_world s) \<Longrightarrow>
    begin_command sink enc env (cmd_ID cmd) (cs_world s) = (None, w) \<Longrightarrow>
    ctl_step sink enc n s \<lparr>cs_world = w, cs_up = False, cs_begun = cs_begun s @ [cmd_ID cmd]\<rparr>"
| crashed_run: "cs_up s \<Longrightarrow> begins env cmd (cs_world s) \<Longrightarrow>
    begin_command sink enc env (cmd_ID cmd) (cs_world s) = (None, w1) \<Longrightarrow> run_command sink env cmd w1 = (a, w) \<Longrightarrow>
    ctl_step sink enc n s \<lparr>cs_world = w, cs_up = False, cs_begun = cs_begun s @ [cmd_ID cmd]\<rparr>"
| stopped: "ctl_step sink enc n s (s\<lparr>cs_up := False\<rparr>)"
| restarted: "\<not> cs_up s \<Longrightarrow> OpenLedger (int n) iter (cw_file (cs_world s)) = Inr l \<Longrightarrow>
    ctl_step sink enc n s (s\<lparr>cs_world := (cs_world s)\<lparr>cw_module := control_New (Some l)\<rparr>, cs_up := True\<rparr>)"

definition ctl_init :: "nat \<Rightarrow> ('r, 'a) ctl_state \<Rightarrow> bool" where
  "ctl_init n s \<longleftrightarrow> 0 < n \<and> cw_file (cs_world s) = No_Ledger \<and> cw_calls (cs_world s) = [] \<and> \<not> cs_up s \<and> cs_begun s = []"

definition module_inv :: "('r \<Rightarrow> 'r) \<Rightarrow> nat \<Rightarrow> 'r control_module \<Rightarrow> 'r ledger_file \<Rightarrow> bool" where
  "module_inv enc n m f \<longleftrightarrow> tracked_inv m \<and>
     (case cm_ledger m of None \<Rightarrow> False | Some l \<Rightarrow> ledger_inv l \<and> maxEntries l = int n \<and> file_agrees enc l f)"

definition disk_inv :: "nat \<Rightarrow> 'r ledger_file \<Rightarrow> (string \<times> string) list \<Rightarrow> string list \<Rightarrow> bool" where
  "disk_inv n f calls log \<longleftrightarrow> file_inv n f \<and> file_order f = latest n log \<and> windowed n log \<and> subseq (map fst calls) log"

definition ctl_inv :: "('r \<Rightarrow> 'r) \<Rightarrow> nat \<Rightarrow> ('r, 'a) ctl_state \<Rightarrow> bool" where
  "ctl_inv enc n s \<longleftrightarrow> disk_inv n (cw_file (cs_world s)) (cw_calls (cs_world s)) (cs_begun s)
     \<and> (cs_up s \<longrightarrow> module_inv enc n (cw_module (cs_world s)) (cw_file (cs_world s)))"

lemma auditAppend_same [simp]:
  "cw_module (control_auditAppend sink r w) = cw_module w" "cw_file (control_auditAppend sink r w) = cw_file w"
  "cw_calls (control_auditAppend sink r w) = cw_calls w"
  by (simp_all add: control_auditAppend_def split: option.splits)

lemma known_None: "known_answer i m = None \<Longrightarrow> cm_ledger m = Some l \<Longrightarrow> Ledger_Get i l = None"
  by (cases "Ledger_Get i l") (simp_all add: known_answer_def)

lemma tracked_ledger_change: "tracked_inv m \<Longrightarrow> maxEntries l' = maxEntries l \<Longrightarrow> cm_ledger m = Some l \<Longrightarrow> tracked_inv (m\<lparr>cm_ledger := Some l'\<rparr>)"
  by (simp add: tracked_inv_def tracked_bound_def tracked_memory_def split: if_splits)

text \<open>What a start that reached the disk leaves.\<close>

lemma begin_spec:
  assumes "disk_inv n (cw_file w) (cw_calls w) log" "module_inv enc n (cw_module w) (cw_file w)"
    and "known_answer i (cw_module w) = None" "begin_save env = Saved" "begin_command sink enc env i w = (r, w1)"
  shows "r = None" "cw_calls w1 = cw_calls w" "module_inv enc n (cw_module w1) (cw_file w1)"
    "disk_inv n (cw_file w1) (cw_calls w1) (log @ [i])" "i \<in> set (file_order (cw_file w1))"
proof -
  obtain l where l: "cm_ledger (cw_module w) = Some l" "ledger_inv l" "maxEntries l = int n" "file_agrees enc l (cw_file w)"
    and t: "tracked_inv (cw_module w)"
    using assms(2) by (auto simp: module_inv_def split: option.splits)
  let ?e = "\<lparr>exec_status = StatusExecuting, exec_result = None, exec_error_code = [], exec_completed_at = begin_now env\<rparr>"
  let ?l = "ledger_put i ?e l"
  have g: "Ledger_Get i l = None" using known_None [OF assms(3) l(1)] .
  have inv: "ledger_inv ?l" "maxEntries ?l = int n"
    using ledger.inv_put [OF l(2)] ledger_put_remember(1) [of l] l(2,3) by (auto simp: ledger_inv_def memory_inv_def)
  have new: "order ?l = latest n (log @ [i])" "windowed n (log @ [i])"
    using ledger.put_new(1) [OF l(2), of log i ?e] ledger.put_new(2) [OF l(2), of log i] g assms(1) l(3,4) by (auto simp: disk_inv_def file_agrees_def)
  note enc = encode_spec [OF inv, of enc]
  have w1: "r = None" "cw_calls w1 = cw_calls w" "cw_file w1 = ledger_encode enc ?l"
      "cw_module w1 = trackExecutedLocked i \<lparr>tr_status = StatusExecuting, tr_result = None, tr_errorCode = []\<rparr>
         ((cw_module w)\<lparr>cm_ledger := Some ?l\<rparr>)"
    using assms(4,5) l(1) by (auto simp: begin_command_def Ledger_Begin_def ledger_save_def Let_def)
  show "r = None" "cw_calls w1 = cw_calls w" by (fact w1)+
  have "tracked_inv (cw_module w1)"
    unfolding w1(4) by (intro tracked.inv_put tracked_ledger_change [OF t _ l(1)]) (use inv(2) l(3) in simp)
  then show "module_inv enc n (cw_module w1) (cw_file w1)"
    using inv enc by (simp add: module_inv_def w1 track_remember)
  have ord: "file_order (cw_file w1) = latest n (log @ [i])" using enc(2) new(1) by (simp add: w1(3) file_agrees_def)
  have "subseq (map fst (cw_calls w)) (log @ [i])" using assms(1) by (auto simp: disk_inv_def intro: list_emb_prefix)
  then show "disk_inv n (cw_file w1) (cw_calls w1) (log @ [i])"
    using enc(1) new(2) ord by (simp add: disk_inv_def w1)
  show "i \<in> set (file_order (cw_file w1))"
    using ord assms(1) by (simp add: latest_def disk_inv_def file_inv_def memory_inv_def)
qed

text \<open>A start that did not reach the disk leaves no trace there.\<close>

lemma begin_failed:
  assumes "begin_save env \<noteq> Saved" "cm_ledger (cw_module w) = Some l" "begin_command sink enc env i w = (r, w1)"
  shows "r \<noteq> None" "cw_calls w1 = cw_calls w" "cw_file w1 = cw_file w"
  using assms
  by (auto simp: begin_command_def Ledger_Begin_def ledger_save_def Let_def split: ledger_outcome.splits)

lemma run_spec:
  assumes "run_command sink env cmd w = (a, w1)"
  shows "cw_module w1 = cw_module w" "cw_file w1 = cw_file w"
    "cw_calls w1 = cw_calls w \<or> cw_calls w1 = cw_calls w @ [(cmd_ID cmd, CommandType cmd)]"
  using assms by (auto simp: run_command_def split: prod.splits if_splits)

definition recorded :: "('r \<Rightarrow> 'r) \<Rightarrow> string \<Rightarrow> string \<times> 'r option \<times> string \<Rightarrow> 'r ledger_file \<Rightarrow> bool" where
  "recorded enc i a f \<longleftrightarrow>
     (case a of (st, res, code) \<Rightarrow>
        \<exists>d. map_of (file_commands f) i = Some d \<and> exec_status d = st \<and> exec_error_code d = code
          \<and> (exec_result d = res \<or> exec_result d = map_option enc res))"

lemma agrees_recorded:
  assumes "file_agrees enc l f" "Ledger_Get i l = Some e"
  shows "recorded enc i (exec_status e, exec_result e, exec_error_code e) f"
proof -
  have "rel_option (same_outcome enc) (Ledger_Get i l) (map_of (file_commands f) i)"
    using assms(1) by (simp add: file_agrees_def)
  then show ?thesis using assms(2)
    by (cases "map_of (file_commands f) i") (auto simp: recorded_def same_outcome_def)
qed

lemma complete_spec:
  assumes "disk_inv n (cw_file w) (cw_calls w) log" "module_inv enc n (cw_module w) (cw_file w)"
    and "i \<in> set (file_order (cw_file w))" "complete_command enc env i (st, res, code) w = (ans, w1)"
  shows "cw_calls w1 = cw_calls w" "disk_inv n (cw_file w1) (cw_calls w1) log"
    "(\<exists>e. ans = Halt e) \<or> ans = Report st res code \<and> module_inv enc n (cw_module w1) (cw_file w1)
       \<and> recorded enc i (st, res, code) (cw_file w1)"
proof -
  obtain l where l: "cm_ledger (cw_module w) = Some l" "ledger_inv l" "maxEntries l = int n" "file_agrees enc l (cw_file w)"
    and t: "tracked_inv (cw_module w)"
    using assms(2) by (auto simp: module_inv_def split: option.splits)
  let ?e = "\<lparr>exec_status = st, exec_result = res, exec_error_code = code, exec_completed_at = complete_now env\<rparr>"
  let ?l = "ledger_put i ?e l"
  have inv: "ledger_inv ?l" "maxEntries ?l = int n"
    using ledger.inv_put [OF l(2)] ledger_put_remember(1) [of l] l(2,3) by (auto simp: ledger_inv_def memory_inv_def)
  have g: "Ledger_Get i l \<noteq> None" using assms(3) l(4) ledger.look_ids [OF l(2)] by (simp add: file_agrees_def)
  then have ord: "order ?l = order l" by (rule ledger.put_known [OF l(2)])
  note enc = encode_spec [OF inv, of enc]
  have saved: "complete_save env = Saved \<Longrightarrow> ans = Report st res code \<and> cw_file w1 = ledger_encode enc ?l
      \<and> cw_module w1 = trackExecutedLocked i \<lparr>tr_status = st, tr_result = res, tr_errorCode = code\<rparr>
         ((cw_module w)\<lparr>cm_ledger := Some ?l\<rparr>)"
    and failed: "complete_save env \<noteq> Saved \<Longrightarrow> (\<exists>e. ans = Halt e) \<and> cw_file w1 = cw_file w"
    and calls: "cw_calls w1 = cw_calls w"
    using assms(4) l(1)
    by (auto simp: complete_command_def Ledger_Complete_def ledger_save_def Let_def split: ledger_outcome.splits)
  show "cw_calls w1 = cw_calls w" by (fact calls)
  show "disk_inv n (cw_file w1) (cw_calls w1) log"
  proof (cases "complete_save env = Saved")
    case True
    then show ?thesis using saved enc ord l(4) assms(1) calls by (simp add: disk_inv_def file_agrees_def)
  next
    case False
    then show ?thesis using failed assms(1) calls by simp
  qed
  show "(\<exists>e. ans = Halt e) \<or> ans = Report st res code \<and> module_inv enc n (cw_module w1) (cw_file w1)
       \<and> recorded enc i (st, res, code) (cw_file w1)"
  proof (cases "complete_save env = Saved")
    case True
    have "tracked_inv ((cw_module w)\<lparr>cm_ledger := Some ?l\<rparr>)"
      by (rule tracked_ledger_change [OF t _ l(1)]) (use inv(2) l(3) in simp)
    then have "tracked_inv (cw_module w1)" using saved [OF True] tracked.inv_put by metis
    moreover have "Ledger_Get i ?l = Some ?e" using ledger.look_put [OF l(2)] by simp
    then have "recorded enc i (st, res, code) (cw_file w1)"
      using agrees_recorded [OF enc(2), of i ?e] saved [OF True] by simp
    ultimately show ?thesis using saved [OF True] inv enc(2) by (simp add: module_inv_def track_remember)
  qed (use failed in blast)
qed

text \<open>What an execution does to disk, executor and module.\<close>

lemma execute_spec:
  assumes "disk_inv n (cw_file w) (cw_calls w) log" "module_inv enc n (cw_module w) (cw_file w)"
    and "control_execute sink enc env cmd w = (ans, w1)"
  shows "disk_inv n (cw_file w1) (cw_calls w1) (if begins env cmd w then log @ [cmd_ID cmd] else log)"
    "(\<forall>e. ans \<noteq> Halt e) \<Longrightarrow> module_inv enc n (cw_module w1) (cw_file w1)"
proof -
  let ?i = "cmd_ID cmd"
  obtain l where l: "cm_ledger (cw_module w) = Some l" using assms(2) by (auto simp: module_inv_def split: option.splits)
  have "disk_inv n (cw_file w1) (cw_calls w1) (if begins env cmd w then log @ [?i] else log)
    \<and> ((\<forall>e. ans \<noteq> Halt e) \<longrightarrow> module_inv enc n (cw_module w1) (cw_file w1))"
  proof (cases "valid_command cmd \<and> known_answer ?i (cw_module w) = None")
    case False
    then have "\<not> begins env cmd w" by (auto simp: begins_def)
    moreover have "cw_file w1 = cw_file w \<and> cw_calls w1 = cw_calls w \<and> cw_module w1 = cw_module w"
      using False assms(3)
      by (auto simp: control_execute_def valid_command_def answer_known_def split: if_splits option.splits prod.splits)
    ultimately show ?thesis using assms(1,2) by simp
  next
    case True
    obtain r wb where b: "begin_command sink enc env ?i w = (r, wb)" by fastforce
    show ?thesis
    proof (cases "begin_save env = Saved")
      case False
      then have "r \<noteq> None" "cw_calls wb = cw_calls w" "cw_file wb = cw_file w" using begin_failed [OF _ l b] by blast+
      then show ?thesis using assms(1,3) True False b
        by (auto simp: control_execute_def valid_command_def begins_def split: option.splits)
    next
      case saved: True
      note bs = begin_spec [OF assms(1,2) conjunct2 [OF True] saved b]
      obtain st res code wr where r: "run_command sink env cmd wb = ((st, res, code), wr)"
        by (metis surj_pair)
      note rs = run_spec [OF r]
      have "subseq (map fst (cw_calls wr)) (log @ [?i])"
        using rs(3) bs(2,4) assms(1) by (auto simp: disk_inv_def)
      then have d: "disk_inv n (cw_file wr) (cw_calls wr) (log @ [?i])" using bs(4) rs(2) by (simp add: disk_inv_def)
      have m: "module_inv enc n (cw_module wr) (cw_file wr)" using bs(3) rs(1,2) by simp
      have c: "complete_command enc env ?i (st, res, code) wr = (ans, w1)"
        using assms(3) True b bs(1) r by (simp add: control_execute_def valid_command_def)
      have "begins env cmd w" using True saved by (simp add: begins_def)
      then show ?thesis using complete_spec [OF d m _ c] bs(5) rs(2) by auto
    qed
  qed
  then show "disk_inv n (cw_file w1) (cw_calls w1) (if begins env cmd w then log @ [cmd_ID cmd] else log)"
    "(\<forall>e. ans \<noteq> Halt e) \<Longrightarrow> module_inv enc n (cw_module w1) (cw_file w1)" by blast+
qed

lemma fresh_module_inv:
  assumes "file_inv n f" "OpenLedger (int n) iter f = Inr l"
  shows "module_inv enc n (control_New (Some l)) f"
  using open_spec [OF assms] tracked_bound_pos [of "control_New (Some l)"]
  by (simp add: module_inv_def control_New_def tracked_inv_def memory_inv_def tracked_memory_def)

interpretation ctl: machine "ctl_init n" "ctl_step sink enc n" "ctl_inv enc n" for sink enc n
proof unfold_locales
  fix s t :: "('a, 'b) ctl_state"
  show "ctl_init n s \<Longrightarrow> ctl_inv enc n s"
    by (auto simp: ctl_init_def ctl_inv_def disk_inv_def file_inv_def file_commands_def file_order_def memory_inv_def
        latest_def windowed_def)
  assume "ctl_inv enc n s" and step: "ctl_step sink enc n s t"
  then have d: "disk_inv n (cw_file (cs_world s)) (cw_calls (cs_world s)) (cs_begun s)"
    and m: "cs_up s \<Longrightarrow> module_inv enc n (cw_module (cs_world s)) (cw_file (cs_world s))"
    by (simp_all add: ctl_inv_def)
  from step show "ctl_inv enc n t"
  proof cases
    case (delivered env cmd ans w)
    then show ?thesis using execute_spec [OF d m [OF delivered(2)] delivered(3)] by (auto simp: ctl_inv_def)
  next
    case (crashed_begun env cmd w)
    have "known_answer (cmd_ID cmd) (cw_module (cs_world s)) = None" "begin_save env = Saved"
      using crashed_begun(3) by (simp_all add: begins_def)
    then show ?thesis using begin_spec(4) [OF d m [OF crashed_begun(2)] _ _ crashed_begun(4)] crashed_begun(1)
      by (simp add: ctl_inv_def)
  next
    case (crashed_run env cmd w1 a w)
    have "known_answer (cmd_ID cmd) (cw_module (cs_world s)) = None" "begin_save env = Saved"
      using crashed_run(3) by (simp_all add: begins_def)
    note b = begin_spec [OF d m [OF crashed_run(2)] this crashed_run(4)] and r = run_spec [OF crashed_run(5)]
    have "subseq (map fst (cw_calls w)) (cs_begun s @ [cmd_ID cmd])"
      using r(3) b(2,4) d by (auto simp: disk_inv_def)
    then show ?thesis using b(4) r(2) crashed_run(1) by (simp add: ctl_inv_def disk_inv_def)
  next
    case stopped
    then show ?thesis using d by (simp add: ctl_inv_def)
  next
    case (restarted iter l)
    then show ?thesis using d fresh_module_inv [OF _ restarted(3)] by (simp add: ctl_inv_def disk_inv_def)
  qed
qed

section \<open>What a run guarantees\<close>

lemma known_from_ledger:
  assumes "disk_inv n (cw_file w) (cw_calls w) log" "module_inv enc n (cw_module w) (cw_file w)" "i \<in> set (latest n log)"
  shows "known_answer i (cw_module w) \<noteq> None"
proof -
  obtain l where l: "cm_ledger (cw_module w) = Some l" "ledger_inv l" "file_agrees enc l (cw_file w)"
    using assms(2) by (auto simp: module_inv_def split: option.splits)
  have "Ledger_Get i l \<noteq> None"
    using ledger.look_ids [OF l(2), of i] assms(1,3) l(3) by (simp add: disk_inv_def file_agrees_def)
  then show ?thesis using l(1) by (auto simp: known_answer_def)
qed

text \<open>C3. At most once. Whatever the saves, executions, crashes and restarts: any n consecutively started commands are
  distinct, n being the size of the ledger; the executor is called only for started commands, in their order
  and once for each start; and while the module runs, delivering one of the last n started commands again
  does not call the executor.\<close>

theorem control_at_most_once:
  assumes "ctl_init n s0" "(ctl_step sink enc n)\<^sup>*\<^sup>* s0 s"
  shows "windowed n (cs_begun s) \<and> subseq (map fst (cw_calls (cs_world s))) (cs_begun s)
    \<and> (cs_up s \<longrightarrow> cmd_ID cmd \<in> set (latest n (cs_begun s)) \<longrightarrow>
         cw_calls (snd (control_execute sink enc env cmd (cs_world s))) = cw_calls (cs_world s))"
proof -
  let ?w = "cs_world s"
  have inv: "disk_inv n (cw_file ?w) (cw_calls ?w) (cs_begun s)"
      "cs_up s \<Longrightarrow> module_inv enc n (cw_module ?w) (cw_file ?w)"
    using ctl.invar_reachable [OF assms] by (simp_all add: ctl_inv_def)
  have "cw_calls (snd (control_execute sink enc env cmd ?w)) = cw_calls ?w"
    if "cs_up s" "cmd_ID cmd \<in> set (latest n (cs_begun s))"
    using known_from_ledger [OF inv(1) inv(2) [OF that(1)] that(2)]
    by (auto simp: control_execute_def answer_known_def split: option.splits prod.splits)
  then show ?thesis using inv(1) by (simp add: disk_inv_def)
qed

lemma valid_report_recorded:
  assumes "ctl_init n s0" "(ctl_step sink enc n)\<^sup>*\<^sup>* s0 s" "cs_up s" "valid_command cmd"
    and "control_execute sink enc env cmd (cs_world s) = (Report st res code, w)"
  shows "recorded enc (cmd_ID cmd) (st, res, code) (cw_file w)
    \<or> (st, res, code) = (StatusFailed, None, ErrIndeterminateAfterRestart) \<and> cw_calls w = cw_calls (cs_world s)
        \<and> (\<exists>r c. known_answer (cmd_ID cmd) (cw_module (cs_world s)) = Some (StatusExecuting, r, c))
    \<or> map_of (file_commands (cw_file w)) (cmd_ID cmd) = None \<and> cw_calls w = cw_calls (cs_world s)
        \<and> map_of (executed (cw_module (cs_world s))) (cmd_ID cmd) = Some \<lparr>tr_status = st, tr_result = res, tr_errorCode = code\<rparr>"
proof -
  let ?w = "cs_world s" and ?i = "cmd_ID cmd"
  have inv: "disk_inv n (cw_file ?w) (cw_calls ?w) (cs_begun s)" "module_inv enc n (cw_module ?w) (cw_file ?w)"
    using ctl.invar_reachable [OF assms(1,2)] assms(3) by (simp_all add: ctl_inv_def)
  then obtain l where l: "cm_ledger (cw_module ?w) = Some l" "ledger_inv l" "file_agrees enc l (cw_file ?w)"
    by (auto simp: module_inv_def split: option.splits)
  show ?thesis
  proof (cases "known_answer ?i (cw_module ?w)")
    case (Some a)
    obtain x r c where a: "a = (x, r, c)" by (cases a)
    have e: "control_execute sink enc env cmd ?w = answer_known sink ?i (x, r, c) ?w"
      using assms(4) Some a by (simp add: control_execute_def valid_command_def)
    show ?thesis
    proof (cases "x = StatusExecuting")
      case True
      then show ?thesis using e assms(5) Some a by (auto simp: answer_known_def)
    next
      case False
      then have r: "st = x" "res = r" "code = c" "w = ?w" using e assms(5) by (auto simp: answer_known_def)
      show ?thesis
      proof (cases "Ledger_Get ?i l")
        case None
        then have "map_of (file_commands (cw_file ?w)) ?i = None"
          using l(3) by (auto simp: file_agrees_def dest: spec [of _ ?i])
        moreover have "map_of (executed (cw_module ?w)) ?i = Some \<lparr>tr_status = x, tr_result = r, tr_errorCode = c\<rparr>"
          using Some a None l(1) by (auto simp: known_answer_def)
        ultimately show ?thesis using r by simp
      next
        case (Some e)
        then have "a = (exec_status e, exec_result e, exec_error_code e)"
          using \<open>known_answer ?i (cw_module ?w) = Some a\<close> l(1) by (simp add: known_answer_def)
        then show ?thesis using agrees_recorded [OF l(3) Some] a r by simp
      qed
    qed
  next
    case None
    obtain q wb where b: "begin_command sink enc env ?i ?w = (q, wb)" by fastforce
    have q: "q = None" using assms(4,5) None b by (cases q) (simp_all add: control_execute_def valid_command_def)
    then have sv: "begin_save env = Saved" using begin_failed(1) [OF _ l(1) b] by blast
    note bs = begin_spec [OF inv None sv b]
    obtain st' res' code' wr where r: "run_command sink env cmd wb = ((st', res', code'), wr)"
      by (metis surj_pair)
    note rs = run_spec [OF r]
    have c: "complete_command enc env ?i (st', res', code') wr = (Report st res code, w)"
      using assms(4,5) None b q r by (simp add: control_execute_def valid_command_def)
    have "subseq (map fst (cw_calls wr)) (cs_begun s @ [?i])" using rs(3) bs(2,4) inv(1) by (auto simp: disk_inv_def)
    then have "disk_inv n (cw_file wr) (cw_calls wr) (cs_begun s @ [?i])" using bs(4) rs(2) by (simp add: disk_inv_def)
    then show ?thesis using complete_spec(3) [OF _ _ _ c] bs(3,5) rs(1,2) by auto
  qed
qed

text \<open>C23. What is reported. An outcome reported for a valid command is the one stored in the ledger file; or the
  command was found in the state executing, the executor was not called, and the report is the failure
  INDETERMINATE_AFTER_RESTART; or the ledger has dropped the command, the executor was not called, and the
  outcome is the one kept in memory. A command without an id or with a payload is reported as the failure
  INVALID_COMMAND, with neither the executor called nor the ledger touched.\<close>

theorem control_report_recorded:
  assumes "ctl_init n s0" "(ctl_step sink enc n)\<^sup>*\<^sup>* s0 s" "cs_up s"
    and "control_execute sink enc env cmd (cs_world s) = (Report st res code, w)"
  shows "if valid_command cmd
    then recorded enc (cmd_ID cmd) (st, res, code) (cw_file w)
      \<or> (st, res, code) = (StatusFailed, None, ErrIndeterminateAfterRestart) \<and> cw_calls w = cw_calls (cs_world s)
          \<and> (\<exists>r c. known_answer (cmd_ID cmd) (cw_module (cs_world s)) = Some (StatusExecuting, r, c))
      \<or> map_of (file_commands (cw_file w)) (cmd_ID cmd) = None \<and> cw_calls w = cw_calls (cs_world s)
          \<and> map_of (executed (cw_module (cs_world s))) (cmd_ID cmd) = Some \<lparr>tr_status = st, tr_result = res, tr_errorCode = code\<rparr>
    else (st, res, code) = (StatusFailed, None, ''INVALID_COMMAND'') \<and> cw_calls w = cw_calls (cs_world s)
      \<and> cw_file w = cw_file (cs_world s) \<and> cw_module w = cw_module (cs_world s)"
proof (cases "valid_command cmd")
  case True
  then show ?thesis using valid_report_recorded [OF assms(1-3) True assms(4)] by simp
next
  case False
  then show ?thesis using assms(4) by (auto simp: control_execute_def valid_command_def control_auditAppend_def split: option.split)
qed

text \<open>Bounded memory: the ledger file and the ledger hold at most n commands, the in-memory map at most
  the larger of 256 and n, and the map and its eviction order always agree in size.\<close>

theorem control_memory_bounded:
  assumes "ctl_init n s0" "(ctl_step sink enc n)\<^sup>*\<^sup>* s0 s"
  shows "length (file_commands (cw_file (cs_world s))) \<le> n
    \<and> (cs_up s \<longrightarrow> (\<exists>l. cm_ledger (cw_module (cs_world s)) = Some l \<and> Ledger_Count l \<le> n)
         \<and> length (executed (cw_module (cs_world s))) = length (executedOrder (cw_module (cs_world s)))
         \<and> length (executed (cw_module (cs_world s))) \<le> max 256 n)"
proof -
  let ?w = "cs_world s"
  have inv: "disk_inv n (cw_file ?w) (cw_calls ?w) (cs_begun s)"
      "cs_up s \<Longrightarrow> module_inv enc n (cw_module ?w) (cw_file ?w)"
    using ctl.invar_reachable [OF assms] by (simp_all add: ctl_inv_def)
  have len: "length (snd x) = length (fst x) \<and> length (fst x) \<le> k" if "memory_inv k x" for k and x :: "'e memory"
  proof -
    have "card (set (fst x)) = card (set (map fst (snd x)))" using that by (simp add: memory_inv_def)
    then show ?thesis using that distinct_card [of "fst x"] distinct_card [of "map fst (snd x)"]
      by (simp add: memory_inv_def)
  qed
  have "length (file_commands (cw_file ?w)) \<le> n" using inv(1) len by (fastforce simp: disk_inv_def file_inv_def)
  moreover have "(\<exists>l. cm_ledger (cw_module ?w) = Some l \<and> Ledger_Count l \<le> n)
       \<and> length (executed (cw_module ?w)) = length (executedOrder (cw_module ?w))
       \<and> length (executed (cw_module ?w)) \<le> max 256 n" if up: "cs_up s"
  proof -
    obtain l where l: "cm_ledger (cw_module ?w) = Some l" "ledger_inv l" "maxEntries l = int n" "tracked_inv (cw_module ?w)"
      using inv(2) [OF up] by (auto simp: module_inv_def split: option.splits)
    have "Ledger_Count l \<le> n" using len [of "nat (maxEntries l)" "ledger_memory l"] l(2,3)
      by (simp add: ledger_inv_def ledger_memory_def Ledger_Count_def)
    moreover have "nat (tracked_bound (cw_module ?w)) = max 256 n"
      using l(1,3) by (simp add: tracked_bound_def defaultMaxTrackedExecutions_def)
    ultimately show ?thesis using l(1,4) len [of _ "tracked_memory (cw_module ?w)"]
      by (simp add: tracked_inv_def tracked_memory_def)
  qed
  ultimately show ?thesis by blast
qed

section \<open>A concrete run\<close>

definition calm_env :: "unit exec_env" where
  "calm_env = \<lparr>begin_save = Saved, complete_save = Saved, begin_now = ''t1'', complete_now = ''t2'',
     executor_status = (), rediscover_fails = True, reload_fails = False, empty_map = ()\<rparr>"

definition rediscovery :: "string \<Rightarrow> control_command" where
  "rediscovery i = \<lparr>cmd_ID = i, CommandType = ''rediscovery'', payload_empty = True\<rparr>"

definition booted :: "(unit, unit) ctl_state" where
  "booted = \<lparr>cs_world = \<lparr>cw_module = control_New (Some \<lparr>maxEntries = 1, commands = [], order = []\<rparr>), cw_file = No_Ledger,
     cw_calls = [], cw_audit = ()\<rparr>, cs_up = True, cs_begun = []\<rparr>"

definition after_c1 :: "(unit, unit) control_world" where
  "after_c1 = snd (control_execute None (\<lambda>x. x) calm_env (rediscovery ''c1'') (cs_world booted))"

definition after_c2 :: "(unit, unit) control_world" where
  "after_c2 = snd (control_execute None (\<lambda>x. x) calm_env (rediscovery ''c2'') after_c1)"

definition ran_c1 :: "(unit, unit) ctl_state" where
  "ran_c1 = \<lparr>cs_world = after_c1, cs_up = True, cs_begun = [''c1'']\<rparr>"

definition ran_c2 :: "(unit, unit) ctl_state" where
  "ran_c2 = \<lparr>cs_world = after_c2, cs_up = True, cs_begun = [''c1'', ''c2'']\<rparr>"

definition boot :: "(unit, unit) ctl_state" where
  "boot = \<lparr>cs_world = \<lparr>cw_module = control_New None, cw_file = No_Ledger, cw_calls = [], cw_audit = ()\<rparr>,
     cs_up = False, cs_begun = []\<rparr>"

lemma c1_answer:
  "control_execute None (\<lambda>x. x) calm_env (rediscovery ''c1'') (cs_world booted) =
     (Report StatusFailed None ''REDISCOVERY_FAILED'', after_c1)"
  "control_execute None (\<lambda>x. x) calm_env (rediscovery ''c2'') after_c1 =
     (Report StatusFailed None ''REDISCOVERY_FAILED'', after_c2)"
  "cw_calls after_c1 = [(''c1'', ''rediscovery'')]"
  "cw_calls after_c2 = [(''c1'', ''rediscovery''), (''c2'', ''rediscovery'')]"
  "begins calm_env (rediscovery ''c1'') (cs_world booted)" "begins calm_env (rediscovery ''c2'') after_c1"
  by code_simp+

lemma concrete_run: "(ctl_step None (\<lambda>x. x) 1)\<^sup>*\<^sup>* boot ran_c2" "(ctl_step None (\<lambda>x. x) 1)\<^sup>*\<^sup>* boot ran_c1" "ctl_init 1 boot"
proof -
  have "OpenLedger (int 1) [] (cw_file (cs_world boot)) = Inr \<lparr>maxEntries = 1, commands = [], order = []\<rparr>"
    by (simp add: OpenLedger_def boot_def)
  then have 0: "ctl_step None (\<lambda>x. x) 1 boot booted"
    using ctl_step.restarted [of boot 1 "[]" _ None "\<lambda>x. x"] by (simp add: boot_def booted_def)
  have 1: "ctl_step None (\<lambda>x. x) 1 booted ran_c1"
    using ctl_step.delivered [OF _ c1_answer(1)] c1_answer(5)
    by (simp add: ran_c1_def booted_def rediscovery_def)
  have 2: "ctl_step None (\<lambda>x. x) 1 ran_c1 ran_c2"
    using ctl_step.delivered [of ran_c1 None "\<lambda>x. x" calm_env "rediscovery ''c2''" _ after_c2 1] c1_answer(2,6)
    by (simp add: ran_c1_def ran_c2_def rediscovery_def)
  show "(ctl_step None (\<lambda>x. x) 1)\<^sup>*\<^sup>* boot ran_c2" "(ctl_step None (\<lambda>x. x) 1)\<^sup>*\<^sup>* boot ran_c1"
    using 0 1 2 by (meson rtranclp.rtrancl_into_rtrancl rtranclp.rtrancl_refl)+
  show "ctl_init 1 boot" by (simp add: ctl_init_def boot_def)
qed

theorem control_at_most_once_witness:
  "windowed 1 [''c1'', ''c2''] \<and> subseq (map fst (cw_calls after_c2)) [''c1'', ''c2'']
   \<and> cw_calls (snd (control_execute None (\<lambda>x. x) calm_env (rediscovery ''c2'') after_c2)) = cw_calls after_c2"
  using control_at_most_once [OF concrete_run(3,1), of "rediscovery ''c2''" calm_env]
  by (simp add: ran_c2_def latest_def rediscovery_def)

theorem control_report_recorded_witness:
  "recorded (\<lambda>x. x) ''c2'' (StatusFailed, None, ''REDISCOVERY_FAILED'') (cw_file after_c2)"
proof -
  have v: "cs_up ran_c1" "valid_command (rediscovery ''c2'')" "cs_world ran_c1 = after_c1"
    by (simp_all add: ran_c1_def rediscovery_def valid_command_def)
  have "''REDISCOVERY_FAILED'' \<noteq> ErrIndeterminateAfterRestart" by (simp add: ErrIndeterminateAfterRestart_def)
  moreover have "map_of (executed (cw_module after_c1)) ''c2'' = None" by code_simp
  moreover have "control_execute None (\<lambda>x. x) calm_env (rediscovery ''c2'') (cs_world ran_c1) = (Report StatusFailed None ''REDISCOVERY_FAILED'', after_c2)"
    using c1_answer(2) v(3) by simp
  note control_report_recorded [OF concrete_run(3,2) v(1) this]
  ultimately show ?thesis using v(2,3) by (simp add: rediscovery_def)
qed

theorem control_memory_bounded_witness:
  "length (file_commands (cw_file after_c2)) \<le> 1 \<and> length (executed (cw_module after_c2)) \<le> 256"
  using control_memory_bounded [OF concrete_run(3,1)] by (simp add: ran_c2_def)

end
