(* ===== verification/FullEdge.thy ===== *)
theory FullEdge
  imports Backlog_Model
begin

text \<open>
  Package \<open>fulledge\<close>, the producer of local events: detections and their checks (\<open>contract.go\<close>), events
  (\<open>events.go\<close>), deduplication (\<open>dedup.go\<close>), the event store (\<open>store.go\<close>), evidence (\<open>evidence.go\<close>), admission
  limits (\<open>limits.go\<close>) and the service over them (\<open>service.go\<close>). Retention is in \<open>FullEdge_Retention\<close>.
\<close>

section \<open>Detections and events\<close>

record bounding_box =
  X1 :: f64
  Y1 :: f64
  X2 :: f64
  Y2 :: f64

definition finite_f64 :: "f64 \<Rightarrow> bool" where
  "finite_f64 x \<longleftrightarrow> x \<noteq> NaN \<and> x \<noteq> PosInf \<and> x \<noteq> NegInf"

text \<open>The value of a finite float; the boxes that reach arithmetic have passed the check below.\<close>

fun fin :: "f64 \<Rightarrow> rat" where
  "fin (Fin r) = r"
| "fin PosInf = 0"
| "fin NegInf = 0"
| "fin NaN = 0"

datatype detection_error = Err_Not_Finite | Err_Degenerate | Err_Outside_Frame | Err_Confidence_Not_Finite
  | Err_Confidence_Range

definition BoundingBox_Validate :: "int \<Rightarrow> int \<Rightarrow> bounding_box \<Rightarrow> detection_error option" where
  "BoundingBox_Validate frameWidth frameHeight b =
     (if \<not> list_all finite_f64 [X1 b, Y1 b, X2 b, Y2 b] then Some Err_Not_Finite
      else if fin (X2 b) \<le> fin (X1 b) \<or> fin (Y2 b) \<le> fin (Y1 b) then Some Err_Degenerate
      else if frameWidth > 0 \<and> frameHeight > 0 \<and>
              (fin (X1 b) < 0 \<or> fin (Y1 b) < 0 \<or> fin (X2 b) > of_int frameWidth \<or> fin (Y2 b) > of_int frameHeight)
      then Some Err_Outside_Frame
      else None)"

record local_detection =
  ClassID :: int
  Label :: string
  Tipo :: string
  Confidence :: f64
  BBox :: bounding_box
  TrackID :: "int option"

definition ValidateConfidence :: "local_detection \<Rightarrow> detection_error option" where
  "ValidateConfidence d =
     (if \<not> finite_f64 (Confidence d) then Some Err_Confidence_Not_Finite
      else if fin (Confidence d) < 0 \<or> fin (Confidence d) > 1 then Some Err_Confidence_Range
      else None)"

record inference_result =
  CandidateKey :: string
  FrameSeq :: nat
  FrameTimestamp :: gotime
  InferenceTimestamp :: gotime
  InferenceMs :: f64
  Device :: string
  res_CorrelationID :: string
  Detections :: "local_detection list"

definition SyncStatusPending :: string where "SyncStatusPending = ''pending''"
definition SyncStatusSynced :: string where "SyncStatusSynced = ''synced''"
definition SyncStatusFailed :: string where "SyncStatusFailed = ''failed''"

record evidence_ref =
  ref_Path :: string
  ref_SHA256 :: string
  ref_SizeBytes :: int
  ref_CapturedAt :: gotime
  ref_SavedAt :: gotime
  ref_ErrorMessage :: string

record edge_event =
  EventUUID :: string
  evt_EdgeID :: string
  evt_CandidateKey :: string
  TenantID :: string
  SiteID :: string
  evt_CorrelationID :: string
  evt_FrameSeq :: nat
  SourceTimestamp :: gotime
  LocalInferenceTimestamp :: gotime
  evt_Tipo :: string
  evt_ClassID :: int
  evt_Confidence :: f64
  evt_BBox :: bounding_box
  Model :: string
  evt_Device :: string
  ProcessingMode :: string
  SyncStatus :: string
  QuarantineReason :: string
  CreatedAt :: gotime
  evt_Detections :: "local_detection list"
  Evidence :: "evidence_ref option"

record service_config =
  cfg_EdgeID :: string
  cfg_TenantID :: string
  cfg_SiteID :: string
  cfg_ModelName :: string

datatype event_error = Err_No_Label | Err_UUID | Err_Missing_UUID | ErrEventConflict | Err_Store nat
  | ErrEventCorrupt | Err_Not_Found | ErrZeroDetections | Err_Capture_UUID

text \<open>\<open>uuid\<close> is what the random generator answers, \<open>None\<close> its failure.\<close>

definition NewLocalEvent :: "service_config \<Rightarrow> inference_result \<Rightarrow> local_detection \<Rightarrow> evidence_ref option
    \<Rightarrow> string option \<Rightarrow> gotime \<Rightarrow> event_error + edge_event" where
  "NewLocalEvent c res primary evRef uuid now =
     (if Label primary = '''' \<and> Tipo primary = '''' then Inl Err_No_Label
      else case uuid of
        None \<Rightarrow> Inl Err_UUID
      | Some u \<Rightarrow>
          Inr \<lparr>EventUUID = u, evt_EdgeID = cfg_EdgeID c, evt_CandidateKey = CandidateKey res,
               TenantID = cfg_TenantID c, SiteID = cfg_SiteID c, evt_CorrelationID = res_CorrelationID res,
               evt_FrameSeq = FrameSeq res, SourceTimestamp = FrameTimestamp res,
               LocalInferenceTimestamp = InferenceTimestamp res,
               evt_Tipo = (if Label primary = '''' then Tipo primary else Label primary),
               evt_ClassID = ClassID primary, evt_Confidence = Confidence primary, evt_BBox = BBox primary,
               Model = cfg_ModelName c, evt_Device = Device res, ProcessingMode = ''edge'',
               SyncStatus = SyncStatusPending, QuarantineReason = '''', CreatedAt = now,
               evt_Detections = Detections res, Evidence = evRef\<rparr>)"

section \<open>Deduplication\<close>

definition DefaultDedupGap :: duration where "DefaultDedupGap = 10 * second"
definition DefaultDedupIoU :: rat where "DefaultDedupIoU = 3 / 10"
definition DefaultDedupMaxTracks :: int where "DefaultDedupMaxTracks = 512"

record dedup_track =
  trackID :: int
  hasID :: bool
  tbbox :: bounding_box
  lastSeen :: gotime
  seenWall :: gotime
  tframe :: nat

type_synonym dedup_key = "string \<times> string"

record deduper =
  gap :: duration
  minIoU :: rat
  maxTracks :: int
  tracks :: "(dedup_key \<times> dedup_track list) list"
  ntracks :: int
  dround :: nat

definition NewDeduper :: "duration \<Rightarrow> rat \<Rightarrow> int \<Rightarrow> deduper" where
  "NewDeduper g i m =
     \<lparr>gap = (if g \<le> 0 then DefaultDedupGap else g), minIoU = (if i \<le> 0 then DefaultDedupIoU else i),
      maxTracks = (if m \<le> 0 then DefaultDedupMaxTracks else m), tracks = [], ntracks = 0, dround = 0\<rparr>"

definition detectionClass :: "local_detection \<Rightarrow> string" where
  "detectionClass d = (if Label d \<noteq> '''' then Label d else Tipo d)"

definition iou :: "bounding_box \<Rightarrow> bounding_box \<Rightarrow> rat" where
  "iou a b =
     (let ix = min (fin (X2 a)) (fin (X2 b)) - max (fin (X1 a)) (fin (X1 b));
          iy = min (fin (Y2 a)) (fin (Y2 b)) - max (fin (Y1 a)) (fin (Y1 b))
      in if ix \<le> 0 \<or> iy \<le> 0 then 0
         else let inter = ix * iy;
                  union = (fin (X2 a) - fin (X1 a)) * (fin (Y2 a) - fin (Y1 a))
                        + (fin (X2 b) - fin (X1 b)) * (fin (Y2 b) - fin (Y1 b)) - inter
              in if union \<le> 0 then 0 else inter / union)"

text \<open>The tracks of a key; a missing key of the Go map reads as the empty slice.\<close>

definition tracks_of :: "deduper \<Rightarrow> dedup_key \<Rightarrow> dedup_track list" where
  "tracks_of d k = (case map_of (tracks d) k of None \<Rightarrow> [] | Some ts \<Rightarrow> ts)"

text \<open>The loop of \<open>matchLocked\<close>, which answers a pointer: here the index of the track in its slice.\<close>

fun match_loop :: "nat \<Rightarrow> local_detection \<Rightarrow> nat \<Rightarrow> nat option \<Rightarrow> rat \<Rightarrow> dedup_track list \<Rightarrow> nat option" where
  "match_loop rnd det i best bestIoU [] = best"
| "match_loop rnd det i best bestIoU (t # ts) =
     (if tframe t = rnd then match_loop rnd det (i + 1) best bestIoU ts
      else case TrackID det of
        Some tid \<Rightarrow>
          if hasID t \<and> trackID t = tid then Some i else match_loop rnd det (i + 1) best bestIoU ts
      | None \<Rightarrow>
          if hasID t then match_loop rnd det (i + 1) best bestIoU ts
          else (let v = iou (tbbox t) (BBox det)
                in if v \<ge> bestIoU then match_loop rnd det (i + 1) (Some i) v ts
                   else match_loop rnd det (i + 1) best bestIoU ts))"

definition matchLocked :: "deduper \<Rightarrow> dedup_key \<Rightarrow> local_detection \<Rightarrow> nat \<Rightarrow> nat option" where
  "matchLocked d k det rnd = match_loop rnd det 0 None (minIoU d) (tracks_of d k)"

definition alive :: "deduper \<Rightarrow> string \<Rightarrow> gotime \<Rightarrow> gotime \<Rightarrow> dedup_key \<Rightarrow> dedup_track \<Rightarrow> bool" where
  "alive d camera tm wall k t \<longleftrightarrow>
     (if fst k = camera then time_sub tm (lastSeen t) \<le> gap d else time_sub wall (seenWall t) \<le> gap d)"

definition expireLocked :: "string \<Rightarrow> gotime \<Rightarrow> gotime \<Rightarrow> deduper \<Rightarrow> deduper" where
  "expireLocked camera tm wall d =
     d\<lparr>tracks := filter (\<lambda>(k, ts). ts \<noteq> []) (map (\<lambda>(k, ts). (k, filter (alive d camera tm wall k) ts)) (tracks d)),
       ntracks := ntracks d - (\<Sum>(k, ts) \<leftarrow> tracks d. int (length ts) - int (length (filter (alive d camera tm wall k) ts)))\<rparr>"

text \<open>The scan of \<open>evictOldestLocked\<close> over the tracks in the order Go ranges over the map.\<close>

fun oldest_track :: "(dedup_key \<times> nat \<times> dedup_track) option \<Rightarrow> (dedup_key \<times> nat \<times> dedup_track) list
    \<Rightarrow> (dedup_key \<times> nat \<times> dedup_track) option" where
  "oldest_track best [] = best"
| "oldest_track best ((k, i, t) # xs) =
     (case best of
        None \<Rightarrow> oldest_track (Some (k, i, t)) xs
      | Some (k', i', t') \<Rightarrow>
          if lastSeen t < lastSeen t' then oldest_track (Some (k, i, t)) xs else oldest_track best xs)"

definition scan_order :: "deduper \<Rightarrow> dedup_key list \<Rightarrow> (dedup_key \<times> nat \<times> dedup_track) list" where
  "scan_order d iter = concat (map (\<lambda>k. map (\<lambda>(i, t). (k, i, t)) (enumerate 0 (tracks_of d k))) iter)"

definition set_tracks :: "dedup_key \<Rightarrow> dedup_track list \<Rightarrow> deduper \<Rightarrow> deduper" where
  "set_tracks k ts d =
     d\<lparr>tracks := (if ts = [] then AList.delete k (tracks d) else AList.update k ts (tracks d))\<rparr>"

definition evictOldestLocked :: "(deduper \<Rightarrow> dedup_key list) \<Rightarrow> deduper \<Rightarrow> deduper" where
  "evictOldestLocked iter d =
     (case oldest_track None (scan_order d (iter d)) of
        None \<Rightarrow> d
      | Some (k, i, t) \<Rightarrow>
          (let ts = tracks_of d k
           in set_tracks k (take i ts @ drop (Suc i) ts) d\<lparr>ntracks := ntracks d - 1\<rparr>))"

text \<open>\<open>for d.n > d.maxTracks { d.evictOldestLocked() }\<close> ends only if every eviction finds a track; \<open>None\<close> is
  a loop that does not return.\<close>

partial_function (option) evict_loop :: "(deduper \<Rightarrow> dedup_key list) \<Rightarrow> deduper \<Rightarrow> deduper option" where
  "evict_loop iter d =
     (if ntracks d > maxTracks d then evict_loop iter (evictOldestLocked iter d) else Some d)"

declare evict_loop.simps [code]

definition new_track :: "local_detection \<Rightarrow> gotime \<Rightarrow> gotime \<Rightarrow> nat \<Rightarrow> dedup_track" where
  "new_track det tm wall rnd =
     \<lparr>trackID = (case TrackID det of None \<Rightarrow> 0 | Some i \<Rightarrow> i), hasID = (TrackID det \<noteq> None), tbbox = BBox det,
      lastSeen = tm, seenWall = wall, tframe = rnd\<rparr>"

fun admit_loop :: "string \<Rightarrow> gotime \<Rightarrow> gotime \<Rightarrow> local_detection list \<Rightarrow> deduper \<Rightarrow> bool list \<times> deduper" where
  "admit_loop camera tm wall [] d = ([], d)"
| "admit_loop camera tm wall (det # dets) d =
     (let k = (camera, detectionClass det); ts = tracks_of d k
      in case matchLocked d k det (dround d) of
           Some i \<Rightarrow>
             (case admit_loop camera tm wall dets
                     (set_tracks k (ts[i := (ts ! i)\<lparr>tbbox := BBox det, lastSeen := tm, seenWall := wall,
                                                     tframe := dround d\<rparr>]) d) of
                (out, d') \<Rightarrow> (False # out, d'))
         | None \<Rightarrow>
             (case admit_loop camera tm wall dets
                     (set_tracks k (ts @ [new_track det tm wall (dround d)]) d\<lparr>ntracks := ntracks d + 1\<rparr>) of
                (out, d') \<Rightarrow> (True # out, d')))"

definition Admit :: "(deduper \<Rightarrow> dedup_key list) \<Rightarrow> gotime \<Rightarrow> string \<Rightarrow> gotime \<Rightarrow> local_detection list \<Rightarrow> deduper
    \<Rightarrow> (bool list \<times> deduper) option" where
  "Admit iter wall camera tm dets d =
     (case admit_loop camera tm wall dets (expireLocked camera tm wall (d\<lparr>dround := wrap_u64 (dround d + 1)\<rparr>)) of
        (out, d') \<Rightarrow> map_option (\<lambda>d''. (out, d'')) (evict_loop iter d'))"

end
