(* ===== verification/FullEdge_Store.thy ===== *)
theory FullEdge_Store
  imports FullEdge
begin

text \<open>
  Package \<open>fulledge\<close>, what is kept on disk: the event store (\<open>store.go\<close>), admission limits (\<open>limits.go\<close>), evidence
  (\<open>evidence.go\<close>), bounded retention (\<open>retention.go\<close>) and the service that ties them to the deduper (\<open>service.go\<close>).

  Each owned directory is an association list from file names to files; a missing directory is an empty one.
  What the file system answers to a call is an argument. An event file read back is the event that was written:
  its fields are strings, integers, finite floats and instants. File sizes add up without overflow.
\<close>

section \<open>Owned directories\<close>

datatype fkind = Regular | Symlink | Directory
datatype fbody = Event_JSON edge_event | Bytes string

record fnode =
  fkind :: fkind
  fbody :: fbody
  fsize :: int
  mtime :: gotime

type_synonym tree = "(string \<times> fnode) list"

datatype owned = Events | Captures | Clips

text \<open>Which calls on which entries fail.\<close>

record fs_env =
  list_fails :: "owned \<Rightarrow> bool"
  lstat_fails :: "owned \<Rightarrow> string \<Rightarrow> bool"
  read_fails :: "owned \<Rightarrow> string \<Rightarrow> bool"
  remove_fails :: "owned \<Rightarrow> string \<Rightarrow> bool"
  outside_fails :: "string \<Rightarrow> bool"

section \<open>The event store\<close>

record event_store =
  files :: tree
  backlogCount :: int

definition json_name :: "string \<Rightarrow> string" where
  "json_name u = u @ ''.json''"

definition event_name :: "string \<Rightarrow> bool" where
  "event_name n \<longleftrightarrow> has_suffix n ''.json'' \<and> \<not> has_prefix n ''.''"

text \<open>The event a file holds for a caller whose \<open>ReadFile\<close> may fail.\<close>

definition read_event :: "(string \<Rightarrow> bool) \<Rightarrow> string \<times> fnode \<Rightarrow> edge_event option" where
  "read_event unreadable f =
     (case f of (n, node) \<Rightarrow>
        if unreadable n \<or> fkind node = Directory then None
        else case fbody node of Event_JSON e \<Rightarrow> Some e | Bytes b \<Rightarrow> None)"

definition is_pending :: "(string \<Rightarrow> bool) \<Rightarrow> string \<times> fnode \<Rightarrow> bool" where
  "is_pending unreadable f \<longleftrightarrow>
     fkind (snd f) \<noteq> Directory \<and> event_name (fst f) \<and>
     (case read_event unreadable f of None \<Rightarrow> False | Some e \<Rightarrow> SyncStatus e = SyncStatusPending)"

definition countPendingOnDisk :: "(string \<Rightarrow> bool) \<Rightarrow> tree \<Rightarrow> int" where
  "countPendingOnDisk unreadable tr = int (length (filter (is_pending unreadable) tr))"

definition NewEventStore :: "(string \<Rightarrow> bool) \<Rightarrow> bool \<Rightarrow> bool \<Rightarrow> tree \<Rightarrow> event_error + event_store" where
  "NewEventStore unreadable mkdir_ok list_ok tr =
     (if \<not> mkdir_ok then Inl (Err_Store 1) else if \<not> list_ok then Inl (Err_Store 2)
      else Inr \<lparr>files = tr, backlogCount = countPendingOnDisk unreadable tr\<rparr>)"

definition box_eq :: "bounding_box \<Rightarrow> bounding_box \<Rightarrow> bool" where
  "box_eq a b \<longleftrightarrow> feq (X1 a) (X1 b) \<and> feq (Y1 a) (Y1 b) \<and> feq (X2 a) (X2 b) \<and> feq (Y2 a) (Y2 b)"

definition evidence_eq :: "evidence_ref option \<Rightarrow> evidence_ref option \<Rightarrow> bool" where
  "evidence_eq a b =
     (case (a, b) of
        (None, None) \<Rightarrow> True
      | (Some x, Some y) \<Rightarrow>
          ref_Path x = ref_Path y \<and> ref_SHA256 x = ref_SHA256 y \<and> ref_SizeBytes x = ref_SizeBytes y
      | _ \<Rightarrow> False)"

definition eventsEquivalent :: "edge_event \<Rightarrow> edge_event \<Rightarrow> bool" where
  "eventsEquivalent a b \<longleftrightarrow>
     EventUUID a = EventUUID b \<and> evt_EdgeID a = evt_EdgeID b \<and> evt_CandidateKey a = evt_CandidateKey b \<and>
     TenantID a = TenantID b \<and> SiteID a = SiteID b \<and> evt_CorrelationID a = evt_CorrelationID b \<and>
     evt_FrameSeq a = evt_FrameSeq b \<and> SourceTimestamp a = SourceTimestamp b \<and> evt_Tipo a = evt_Tipo b \<and>
     evt_ClassID a = evt_ClassID b \<and> feq (evt_Confidence a) (evt_Confidence b) \<and>
     box_eq (evt_BBox a) (evt_BBox b) \<and> Model a = Model b \<and> evt_Device a = evt_Device b \<and>
     ProcessingMode a = ProcessingMode b \<and> evidence_eq (Evidence a) (Evidence b)"

text \<open>Writing an event atomically: encode, temporary file, write, sync, close, mode, rename. \<open>sv\<close> is the step
  that fails, \<open>sz\<close> the length of the encoding, \<open>now\<close> the modification time.\<close>

definition event_node :: "(edge_event \<Rightarrow> int) \<Rightarrow> gotime \<Rightarrow> edge_event \<Rightarrow> fnode" where
  "event_node sz now e = \<lparr>fkind = Regular, fbody = Event_JSON e, fsize = sz e, mtime = now\<rparr>"

definition EventStore_Save :: "(string \<Rightarrow> bool) \<Rightarrow> (edge_event \<Rightarrow> int) \<Rightarrow> gotime \<Rightarrow> nat option \<Rightarrow> edge_event
    \<Rightarrow> event_store \<Rightarrow> event_error option \<times> event_store" where
  "EventStore_Save unreadable sz now sv e s =
     (let n = json_name (EventUUID e);
          existing = (case map_of (files s) n of None \<Rightarrow> None | Some node \<Rightarrow> read_event unreadable (n, node));
          write = (case sv of
                     Some k \<Rightarrow> (Some (Err_Store k), s)
                   | None \<Rightarrow> (None, s\<lparr>files := AList.update n (event_node sz now e) (files s),
                                     backlogCount := backlogCount s + (if SyncStatus e = SyncStatusPending then 1 else 0)\<rparr>))
      in if EventUUID e = '''' then (Some Err_Missing_UUID, s)
         else if sv = Some 0 then (Some (Err_Store 0), s)
         else case existing of
           Some old \<Rightarrow> if eventsEquivalent old e then (None, s) else (Some ErrEventConflict, s)
         | None \<Rightarrow> write)"

definition transitionLocked :: "(string \<Rightarrow> bool) \<Rightarrow> (edge_event \<Rightarrow> int) \<Rightarrow> gotime \<Rightarrow> nat option \<Rightarrow> string \<Rightarrow> string \<Rightarrow> string
    \<Rightarrow> event_store \<Rightarrow> event_error option \<times> event_store" where
  "transitionLocked unreadable sz now sv u status reason s =
     (let n = json_name u
      in case map_of (files s) n of
           None \<Rightarrow> (Some Err_Not_Found, s)
         | Some node \<Rightarrow>
             if unreadable n \<or> fkind node = Directory then (Some Err_Not_Found, s)
             else case fbody node of
               Bytes b \<Rightarrow> (Some ErrEventCorrupt, s)
             | Event_JSON e \<Rightarrow>
                 (let e' = e\<lparr>SyncStatus := status, QuarantineReason := (if reason \<noteq> '''' then reason else QuarantineReason e)\<rparr>
                  in case sv of
                       Some k \<Rightarrow> (Some (Err_Store k), s)
                     | None \<Rightarrow>
                         (None, s\<lparr>files := AList.update n (event_node sz now e') (files s),
                                  backlogCount := backlogCount s -
                                    (if SyncStatus e = SyncStatusPending \<and> status \<noteq> SyncStatusPending then 1 else 0)\<rparr>)))"

definition MarkSynced :: "(string \<Rightarrow> bool) \<Rightarrow> (edge_event \<Rightarrow> int) \<Rightarrow> gotime \<Rightarrow> nat option \<Rightarrow> string
    \<Rightarrow> event_store \<Rightarrow> event_error option \<times> event_store" where
  "MarkSynced unreadable sz now sv u = transitionLocked unreadable sz now sv u SyncStatusSynced ''''"

definition MarkQuarantined :: "(string \<Rightarrow> bool) \<Rightarrow> (edge_event \<Rightarrow> int) \<Rightarrow> gotime \<Rightarrow> nat option \<Rightarrow> string \<Rightarrow> string
    \<Rightarrow> event_store \<Rightarrow> event_error option \<times> event_store" where
  "MarkQuarantined unreadable sz now sv u reason = transitionLocked unreadable sz now sv u SyncStatusFailed reason"

definition Store_Get :: "(string \<Rightarrow> bool) \<Rightarrow> string \<Rightarrow> event_store \<Rightarrow> event_error + edge_event" where
  "Store_Get unreadable u s =
     (case map_of (files s) (json_name u) of
        None \<Rightarrow> Inl Err_Not_Found
      | Some node \<Rightarrow>
          if unreadable (json_name u) \<or> fkind node = Directory then Inl Err_Not_Found
          else case fbody node of Event_JSON e \<Rightarrow> Inr e | Bytes b \<Rightarrow> Inl ErrEventCorrupt)"

definition ListPending :: "(string \<Rightarrow> bool) \<Rightarrow> bool \<Rightarrow> event_store \<Rightarrow> event_error + edge_event list" where
  "ListPending unreadable list_ok s =
     (if \<not> list_ok then Inl (Err_Store 2)
      else Inr (List.map_filter (read_event unreadable) (filter (is_pending unreadable) (files s))))"

text \<open>\<open>Evict\<close> removes \<open>eventUUID.json\<close> below the events directory; a separator inside the identifier leads out of
  that directory, and what is removed there is recorded by its path.\<close>

definition Store_Evict :: "fs_env \<Rightarrow> string \<Rightarrow> bool \<Rightarrow> event_store \<times> string list
    \<Rightarrow> event_error option \<times> event_store \<times> string list" where
  "Store_Evict E u wasPending so =
     (case so of (s, out) \<Rightarrow>
        let n = json_name u;
            s' = s\<lparr>backlogCount := backlogCount s - (if wasPending then 1 else 0)\<rparr>
        in if CHR ''/'' \<in> set u then
             (if outside_fails E n then (Some Err_Not_Found, s, out) else (None, s', n # out))
           else if map_of (files s) n = None \<or> remove_fails E Events n then (Some Err_Not_Found, s, out)
           else (None, s'\<lparr>files := AList.delete n (files s)\<rparr>, out))"

section \<open>Admission limits\<close>

record limits =
  max_concurrent :: int
  min_free_bytes :: nat
  sem :: nat
  inFlight :: int
  queueDropped :: int

definition NewLimitsManager :: "int \<Rightarrow> nat \<Rightarrow> limits" where
  "NewLimitsManager m f =
     \<lparr>max_concurrent = (if m \<le> 0 then 1 else m), min_free_bytes = f, sem = 0, inFlight = 0, queueDropped = 0\<rparr>"

definition TryAcquireInference :: "limits \<Rightarrow> bool \<times> limits" where
  "TryAcquireInference l =
     (if int (sem l) < max_concurrent l then (True, l\<lparr>sem := sem l + 1, inFlight := inFlight l + 1\<rparr>) else (False, l))"

definition ReleaseInference :: "limits \<Rightarrow> limits" where
  "ReleaseInference l = (if sem l > 0 then l\<lparr>sem := sem l - 1, inFlight := inFlight l - 1\<rparr> else l)"

definition RecordQueueDrop :: "limits \<Rightarrow> limits" where
  "RecordQueueDrop l = l\<lparr>queueDropped := queueDropped l + 1\<rparr>"

text \<open>\<open>free\<close> is the disk checker's answer, \<open>None\<close> its error.\<close>

definition CanWriteEvidence :: "nat option \<Rightarrow> limits \<Rightarrow> bool" where
  "CanWriteEvidence free l \<longleftrightarrow>
     min_free_bytes l = 0 \<or> (case free of None \<Rightarrow> True | Some f \<Rightarrow> \<not> f < min_free_bytes l)"

section \<open>Evidence\<close>

datatype evidence_error = Err_Invalid_UUID | Err_Empty_JPEG | ErrDiskSpaceBelowMinimum | ErrEvidenceConflict
  | Err_Evidence_Write nat

definition is_hex :: "char \<Rightarrow> bool" where
  "is_hex c \<longleftrightarrow> is_digit c \<or> c \<in> set ''abcdef''"

definition eventUUIDPattern :: "string \<Rightarrow> bool" where
  "eventUUIDPattern u \<longleftrightarrow>
     length u = 36 \<and>
     list_all (\<lambda>(i, c). if i \<in> {8, 13, 18, 23} then c = CHR ''-'' else is_hex c) (enumerate 0 u)"

definition captures_rel :: "string \<Rightarrow> string" where
  "captures_rel n = ''evidence/captures/'' @ n"

text \<open>\<open>SaveJPEG\<close>: the file is checked against an existing one by the hexadecimal digest \<open>sha\<close>.\<close>

definition SaveJPEG :: "(string \<Rightarrow> string) \<Rightarrow> limits option \<Rightarrow> nat option \<Rightarrow> (string \<Rightarrow> bool) \<Rightarrow> gotime \<Rightarrow> nat option
    \<Rightarrow> string \<Rightarrow> gotime \<Rightarrow> string \<Rightarrow> tree \<Rightarrow> (evidence_error + evidence_ref) \<times> tree" where
  "SaveJPEG sha lm free unreadable now sv u capturedAt jpeg tr =
     (let n = u @ ''.jpg'';
          ref = (\<lambda>len. \<lparr>ref_Path = captures_rel n, ref_SHA256 = sha jpeg, ref_SizeBytes = int len,
                        ref_CapturedAt = capturedAt, ref_SavedAt = now, ref_ErrorMessage = ''''\<rparr>);
          write = (case sv of
                     Some k \<Rightarrow> (Inl (Err_Evidence_Write k), tr)
                   | None \<Rightarrow> (Inr (ref (length jpeg)),
                       AList.update n \<lparr>fkind = Regular, fbody = Bytes jpeg, fsize = int (length jpeg), mtime = now\<rparr> tr))
      in if \<not> eventUUIDPattern u then (Inl Err_Invalid_UUID, tr)
         else if jpeg = [] then (Inl Err_Empty_JPEG, tr)
         else if (case lm of None \<Rightarrow> False | Some l \<Rightarrow> \<not> CanWriteEvidence free l) then (Inl ErrDiskSpaceBelowMinimum, tr)
         else if sv = Some 0 then (Inl (Err_Evidence_Write 0), tr)
         else case map_of tr n of
           None \<Rightarrow> write
         | Some node \<Rightarrow>
             if unreadable n \<or> fkind node = Directory then write
             else case fbody node of
               Bytes old \<Rightarrow> if sha old = sha jpeg then (Inr (ref (length old)), tr) else (Inl ErrEvidenceConflict, tr)
             | Event_JSON e \<Rightarrow> (Inl ErrEvidenceConflict, tr))"

end
