(* ===== verification/FullEdge_Retention.thy ===== *)
theory FullEdge_Retention
  imports FullEdge_Store
begin

text \<open>
  Bounded retention (\<open>retention.go\<close>) over the events, captures and clips directories, and the service
  (\<open>service.go\<close>) that sweeps after it has written events. The pending references come from the disk of the
  backlog through \<^const>\<open>LoadPendingReferences\<close>.
\<close>

section \<open>Retention\<close>

definition tempOrphanGrace :: duration where "tempOrphanGrace = 3600 * second"

record retention_config =
  DataDir :: string
  MaxEvents :: int
  MaxEventBytes :: int
  MaxEventAge :: duration
  MaxCaptures :: int
  MaxCaptureBytes :: int
  MaxCaptureAge :: duration
  MaxClips :: int
  MaxClipBytes :: int
  MaxClipAge :: duration
  EvictPending :: bool
  SweepInterval :: duration

record tree_report =
  Scanned :: int
  Evicted :: int
  Failed :: int
  RefusedUnsafe :: int
  TempOrphans :: int
  BytesReclaimed :: int

definition zero_report :: tree_report where
  "zero_report = \<lparr>Scanned = 0, Evicted = 0, Failed = 0, RefusedUnsafe = 0, TempOrphans = 0, BytesReclaimed = 0\<rparr>"

record retention_report =
  rep_At :: gotime
  rep_Events :: tree_report
  rep_Captures :: tree_report
  rep_Clips :: tree_report

record retention_manager =
  rcfg :: retention_config
  lastSweep :: gotime
  lastReport :: "retention_report option"

text \<open>The trees retention works on; \<open>outside\<close> are the paths removed outside of them.\<close>

record edge_disk =
  estore :: event_store
  captures :: tree
  clips :: tree
  outside :: "string list"

definition anyBoundActive :: "retention_config \<Rightarrow> bool" where
  "anyBoundActive c \<longleftrightarrow>
     MaxEvents c > 0 \<or> MaxEventBytes c > 0 \<or> MaxEventAge c > 0 \<or>
     MaxCaptures c > 0 \<or> MaxCaptureBytes c > 0 \<or> MaxCaptureAge c > 0 \<or>
     MaxClips c > 0 \<or> MaxClipBytes c > 0 \<or> MaxClipAge c > 0"

record candidate =
  cpath :: string
  csize :: int
  cwhen :: gotime
  protected :: bool
  cuuid :: string
  cevidence :: "evidence_ref option"
  csync :: string

fun plan_loop :: "int \<Rightarrow> int \<Rightarrow> int \<Rightarrow> int \<Rightarrow> candidate list \<Rightarrow> candidate list" where
  "plan_loop maxCount maxBytes count bytes [] = []"
| "plan_loop maxCount maxBytes count bytes (c # cs) =
     (if \<not> (maxCount > 0 \<and> count > maxCount \<or> maxBytes > 0 \<and> bytes > maxBytes) then []
      else if protected c then plan_loop maxCount maxBytes count bytes cs
      else c # plan_loop maxCount maxBytes (count - 1) (bytes - csize c) cs)"

definition too_old :: "gotime \<Rightarrow> duration \<Rightarrow> candidate \<Rightarrow> bool" where
  "too_old now maxAge c \<longleftrightarrow> maxAge > 0 \<and> \<not> protected c \<and> time_sub now (cwhen c) > maxAge"

definition planEviction :: "candidate list \<Rightarrow> gotime \<Rightarrow> int \<Rightarrow> int \<Rightarrow> duration \<Rightarrow> candidate list" where
  "planEviction cs now maxCount maxBytes maxAge =
     (let evict = filter (too_old now maxAge) cs; afterTTL = filter (\<lambda>c. \<not> too_old now maxAge c) cs
      in if maxCount \<le> 0 \<and> maxBytes \<le> 0 then evict
         else evict @ plan_loop maxCount maxBytes (int (length afterTTL)) (\<Sum>c \<leftarrow> afterTTL. csize c) afterTTL)"

text \<open>\<open>sort.Slice\<close> by time and then by path; the paths of a listing are distinct, so the order is determined.\<close>

definition older_candidate :: "candidate \<Rightarrow> candidate \<Rightarrow> bool" where
  "older_candidate a b \<longleftrightarrow> (if cwhen a \<noteq> cwhen b then cwhen a < cwhen b else cpath a < cpath b)"

fun insert_candidate :: "candidate \<Rightarrow> candidate list \<Rightarrow> candidate list" where
  "insert_candidate c [] = [c]"
| "insert_candidate c (x # xs) = (if older_candidate x c then x # insert_candidate c xs else c # x # xs)"

definition sortOldestFirst :: "candidate list \<Rightarrow> candidate list" where
  "sortOldestFirst cs = foldr insert_candidate cs []"

definition unsafe_entry :: "fs_env \<Rightarrow> owned \<Rightarrow> string \<times> fnode \<Rightarrow> bool" where
  "unsafe_entry E ow f \<longleftrightarrow> lstat_fails E ow (fst f) \<or> fkind (snd f) = Symlink"

definition safeDirEntries :: "fs_env \<Rightarrow> owned \<Rightarrow> tree \<Rightarrow> (tree \<times> int) option" where
  "safeDirEntries E ow tr =
     (if list_fails E ow then None
      else Some (filter (\<lambda>f. \<not> unsafe_entry E ow f \<and> fkind (snd f) \<noteq> Directory) tr,
                 int (length (filter (unsafe_entry E ow) tr))))"

text \<open>One event file of the listing: nothing, an unusable file that survives under its name, or a candidate.\<close>

datatype scanned = Skipped | Unusable | Survivor string | Cand candidate

definition scan_event :: "fs_env \<Rightarrow> retention_config \<Rightarrow> pending_refs \<Rightarrow> string \<times> fnode \<Rightarrow> scanned" where
  "scan_event E c pending f =
     (case f of (n, node) \<Rightarrow>
        if \<not> event_name n then Skipped
        else if read_fails E Events n then Unusable
        else case fbody node of
          Bytes b \<Rightarrow> Survivor (trim_suffix n ''.json'')
        | Event_JSON e \<Rightarrow>
            if EventUUID e = '''' then Survivor (trim_suffix n ''.json'')
            else Cand \<lparr>cpath = n, csize = fsize node,
                       cwhen = (if SourceTimestamp e = zero_time then CreatedAt e else SourceTimestamp e),
                       protected = (EventUUID e \<in> set (event_uuids pending) \<and> \<not> EvictPending c),
                       cuuid = EventUUID e, cevidence = Evidence e, csync = SyncStatus e\<rparr>)"

fun refused_scan :: "scanned \<Rightarrow> bool" where
  "refused_scan Skipped = False"
| "refused_scan Unusable = True"
| "refused_scan (Survivor u) = True"
| "refused_scan (Cand c) = False"

definition cands :: "scanned list \<Rightarrow> candidate list" where
  "cands xs = List.map_filter (\<lambda>x. case x of Cand c \<Rightarrow> Some c | _ \<Rightarrow> None) xs"

text \<open>The state of the eviction loop of \<open>sweepEvents\<close>.\<close>

record sweep_state =
  sw_store :: event_store
  sw_outside :: "string list"
  sw_stopped :: bool
  sw_refs :: "string list"
  sw_report :: tree_report

definition survive :: "candidate \<Rightarrow> sweep_state \<Rightarrow> sweep_state" where
  "survive c s =
     s\<lparr>sw_refs := (case cevidence c of
                     None \<Rightarrow> sw_refs s
                   | Some r \<Rightarrow> if ref_Path r \<noteq> '''' then ref_Path r # sw_refs s else sw_refs s)\<rparr>"

fun evict_events :: "fs_env \<Rightarrow> string list \<Rightarrow> candidate list \<Rightarrow> sweep_state \<Rightarrow> sweep_state" where
  "evict_events E evictSet [] s = s"
| "evict_events E evictSet (c # cs) s =
     evict_events E evictSet cs
       (if cpath c \<notin> set evictSet \<or> sw_stopped s then survive c s
        else case Store_Evict E (cuuid c) (csync c = SyncStatusPending) (sw_store s, sw_outside s) of
          (Some e, st, out) \<Rightarrow>
            survive c (s\<lparr>sw_stopped := True, sw_report := (sw_report s)\<lparr>Failed := Failed (sw_report s) + 1\<rparr>\<rparr>)
        | (None, st, out) \<Rightarrow>
            s\<lparr>sw_store := st, sw_outside := out,
              sw_report := (sw_report s)\<lparr>Evicted := Evicted (sw_report s) + 1,
                                         BytesReclaimed := BytesReclaimed (sw_report s) + csize c\<rparr>\<rparr>)"

text \<open>\<open>sweepEvents\<close>: the disk, the capture paths the surviving events refer to, and the tally.\<close>

definition sweepEvents :: "fs_env \<Rightarrow> retention_config \<Rightarrow> gotime \<Rightarrow> pending_refs \<Rightarrow> edge_disk
    \<Rightarrow> (edge_disk \<times> string list \<times> tree_report) option" where
  "sweepEvents E c now pending w =
     (case safeDirEntries E Events (files (estore w)) of
        None \<Rightarrow> None
      | Some (entries, refused) \<Rightarrow>
          (let scans = map (scan_event E c pending) entries;
               candidates = sortOldestFirst (cands scans);
               evictSet = map cpath (planEviction candidates now (MaxEvents c) (MaxEventBytes c) (MaxEventAge c));
               report = zero_report\<lparr>Scanned := int (length (filter (\<lambda>x. x \<noteq> Skipped) scans)),
                          RefusedUnsafe := refused + int (length (filter refused_scan scans))\<rparr>;
               s = evict_events E evictSet candidates
                     \<lparr>sw_store = estore w, sw_outside = outside w, sw_stopped = False, sw_refs = [], sw_report = report\<rparr>
           in Some (w\<lparr>estore := sw_store s, outside := sw_outside s\<rparr>, sw_refs s, sw_report s)))"

text \<open>The removal loop of captures and clips: it stops at the first failure.\<close>

fun remove_loop :: "fs_env \<Rightarrow> owned \<Rightarrow> candidate list \<Rightarrow> tree \<times> tree_report \<Rightarrow> tree \<times> tree_report" where
  "remove_loop E ow [] tr = tr"
| "remove_loop E ow (c # cs) (tr, r) =
     (if remove_fails E ow (cpath c) then (tr, r\<lparr>Failed := Failed r + 1\<rparr>)
      else remove_loop E ow cs (AList.delete (cpath c) tr,
             r\<lparr>Evicted := Evicted r + 1, BytesReclaimed := BytesReclaimed r + csize c\<rparr>))"

definition media_name :: "string \<Rightarrow> string \<Rightarrow> bool" where
  "media_name suffix n \<longleftrightarrow> has_suffix n suffix \<and> \<not> has_prefix n ''.''"

text \<open>\<open>sweepCaptures\<close> and \<open>sweepClips\<close> differ in directory, suffix, bounds and protection.\<close>

definition sweep_media :: "fs_env \<Rightarrow> owned \<Rightarrow> string \<Rightarrow> (string \<Rightarrow> bool) \<Rightarrow> gotime \<Rightarrow> int \<Rightarrow> int \<Rightarrow> duration \<Rightarrow> tree
    \<Rightarrow> (tree \<times> tree_report) option" where
  "sweep_media E ow suffix keep now maxCount maxBytes maxAge tr =
     (case safeDirEntries E ow tr of
        None \<Rightarrow> None
      | Some (entries, refused) \<Rightarrow>
          (let named = filter (\<lambda>f. media_name suffix (fst f)) entries;
               candidates = sortOldestFirst (map (\<lambda>(n, node). \<lparr>cpath = n, csize = fsize node, cwhen = mtime node,
                   protected = keep n, cuuid = '''', cevidence = None, csync = ''''\<rparr>)
                 (filter (\<lambda>f. \<not> read_fails E ow (fst f)) named));
               report = zero_report\<lparr>Scanned := int (length named),
                          RefusedUnsafe := refused + int (length (filter (\<lambda>f. read_fails E ow (fst f)) named))\<rparr>
           in Some (remove_loop E ow (planEviction candidates now maxCount maxBytes maxAge) (tr, report))))"

definition captures_abs :: "retention_config \<Rightarrow> string \<Rightarrow> string" where
  "captures_abs c n = DataDir c @ ''/evidence/captures/'' @ n"

definition clips_abs :: "retention_config \<Rightarrow> string \<Rightarrow> string" where
  "clips_abs c n = DataDir c @ ''/evidence/clips/'' @ n"

definition sweepCaptures :: "fs_env \<Rightarrow> retention_config \<Rightarrow> gotime \<Rightarrow> pending_refs \<Rightarrow> string list \<Rightarrow> tree
    \<Rightarrow> (tree \<times> tree_report) option" where
  "sweepCaptures E c now pending refs =
     sweep_media E Captures ''.jpg''
       (\<lambda>n. captures_rel n \<in> set refs \<or> captures_abs c n \<in> set (evidence_paths pending))
       now (MaxCaptures c) (MaxCaptureBytes c) (MaxCaptureAge c)"

definition sweepClips :: "fs_env \<Rightarrow> retention_config \<Rightarrow> gotime \<Rightarrow> pending_refs \<Rightarrow> tree \<Rightarrow> (tree \<times> tree_report) option" where
  "sweepClips E c now pending =
     sweep_media E Clips ''.mp4'' (\<lambda>n. clips_abs c n \<in> set (evidence_paths pending))
       now (MaxClips c) (MaxClipBytes c) (MaxClipAge c)"

definition is_orphan :: "fs_env \<Rightarrow> owned \<Rightarrow> string \<Rightarrow> string \<Rightarrow> gotime \<Rightarrow> string \<times> fnode \<Rightarrow> bool" where
  "is_orphan E ow prefix suffix now f \<longleftrightarrow>
     (prefix = '''' \<or> has_prefix (fst f) prefix) \<and> has_suffix (fst f) suffix \<and>
     \<not> unsafe_entry E ow f \<and> fkind (snd f) \<noteq> Directory \<and>
     \<not> time_sub now (mtime (snd f)) < tempOrphanGrace \<and> \<not> remove_fails E ow (fst f)"

definition sweepTempOrphans :: "fs_env \<Rightarrow> owned \<Rightarrow> string \<Rightarrow> string \<Rightarrow> gotime \<Rightarrow> tree \<Rightarrow> tree \<times> int" where
  "sweepTempOrphans E ow prefix suffix now tr =
     (if list_fails E ow then (tr, 0)
      else (filter (\<lambda>f. \<not> is_orphan E ow prefix suffix now f) tr,
            int (length (filter (is_orphan E ow prefix suffix now) tr))))"

definition sweep_orphans :: "fs_env \<Rightarrow> gotime \<Rightarrow> edge_disk \<Rightarrow> edge_disk \<times> int \<times> int \<times> int" where
  "sweep_orphans E now w =
     (case (sweepTempOrphans E Events ''.event-'' ''.tmp'' now (files (estore w)),
            sweepTempOrphans E Captures ''.evidence-'' ''.tmp'' now (captures w),
            sweepTempOrphans E Clips '''' ''.mp4.tmp'' now (clips w)) of
        ((ev, n1), (ca, n2), (cl, n3)) \<Rightarrow>
          (w\<lparr>estore := (estore w)\<lparr>files := ev\<rparr>, captures := ca, clips := cl\<rparr>, n1, n2, n3))"

text \<open>\<open>Sweep\<close>: \<open>None\<close> is an error, after which the disk keeps what was already removed. \<open>dk\<close> is the disk of the
  backlog.\<close>

definition Sweep :: "fs_env \<Rightarrow> gotime \<Rightarrow> disk \<Rightarrow> edge_disk \<times> retention_manager
    \<Rightarrow> retention_report option \<times> edge_disk \<times> retention_manager" where
  "Sweep E now dk wr =
     (case wr of (w, r) \<Rightarrow> case sweep_orphans E now w of (w0, n1, n2, n3) \<Rightarrow>
        let c = rcfg r;
            finish = (\<lambda>rep w'. (Some rep, w', r\<lparr>lastSweep := now, lastReport := Some rep\<rparr>))
        in if \<not> anyBoundActive c then
             finish \<lparr>rep_At = now, rep_Events = zero_report\<lparr>TempOrphans := n1\<rparr>,
                      rep_Captures = zero_report\<lparr>TempOrphans := n2\<rparr>, rep_Clips = zero_report\<lparr>TempOrphans := n3\<rparr>\<rparr> w0
           else case LoadPendingReferences dk of
             None \<Rightarrow> (None, w0, r)
           | Some pending \<Rightarrow>
               (case sweepEvents E c now pending w0 of
                  None \<Rightarrow> (None, w0, r)
                | Some (w1, refs, er) \<Rightarrow>
                    (case sweepCaptures E c now pending refs (captures w1) of
                       None \<Rightarrow> (None, w1, r)
                     | Some (ca, cr) \<Rightarrow>
                         (case sweepClips E c now pending (clips w1) of
                            None \<Rightarrow> (None, w1\<lparr>captures := ca\<rparr>, r)
                          | Some (cl, lr) \<Rightarrow>
                              finish \<lparr>rep_At = now, rep_Events = er\<lparr>TempOrphans := n1\<rparr>,
                                       rep_Captures = cr\<lparr>TempOrphans := n2\<rparr>, rep_Clips = lr\<lparr>TempOrphans := n3\<rparr>\<rparr>
                                (w1\<lparr>captures := ca, clips := cl\<rparr>)))))"

definition MaybeSweepAfterWrite :: "fs_env \<Rightarrow> gotime \<Rightarrow> disk \<Rightarrow> edge_disk \<times> retention_manager \<Rightarrow> edge_disk \<times> retention_manager" where
  "MaybeSweepAfterWrite E now dk wr =
     (case wr of (w, r) \<Rightarrow>
        if SweepInterval (rcfg r) \<le> 0 \<or> time_sub now (lastSweep r) \<ge> SweepInterval (rcfg r)
        then snd (Sweep E now dk (w, r)) else (w, r))"

definition NewRetentionManager :: "fs_env \<Rightarrow> gotime \<Rightarrow> disk \<Rightarrow> retention_config \<Rightarrow> edge_disk
    \<Rightarrow> retention_manager option \<times> edge_disk" where
  "NewRetentionManager E now dk c w =
     (if DataDir c = '''' then (None, w)
      else case Sweep E now dk (w, \<lparr>rcfg = c, lastSweep = zero_time, lastReport = None\<rparr>) of
        (None, w', r) \<Rightarrow> (None, w')
      | (Some rep, w', r) \<Rightarrow> (Some r, w'))"

end
