(* ===== verification/FullEdge_Service.thy ===== *)
theory FullEdge_Service
  imports FullEdge_Retention
begin

text \<open>
  The service (\<open>fulledge/service.go\<close>) that turns an inference result into events and evidence and then sweeps, and
  its consumer (\<open>agent/fulledge_wiring.go\<close>), which hands the created events to the backlog.
\<close>

section \<open>Service\<close>

record service =
  scfg :: service_config
  evidence_on :: bool
  dedup :: deduper
  fdisk :: edge_disk
  retention :: "retention_manager option"
  localDetections :: int
  localEventsCreated :: int
  eventsDeduplicated :: int
  evidenceSaved :: int
  evidenceFailures :: int

text \<open>What the surroundings answer during one call: clock, map order, identifiers, digests, disk and hardware.\<close>

record service_env =
  env_iter :: "deduper \<Rightarrow> dedup_key list"
  env_now :: gotime
  env_device :: string
  env_capture_uuid :: "string option"
  env_uuid :: "nat \<Rightarrow> string option"
  env_save :: "nat \<Rightarrow> nat option"
  env_sz :: "edge_event \<Rightarrow> int"
  env_fs :: fs_env
  env_backlog :: disk

definition valid_detection :: "local_detection \<Rightarrow> bool" where
  "valid_detection d \<longleftrightarrow> BoundingBox_Validate 0 0 (BBox d) = None \<and> ValidateConfidence d = None"

text \<open>\<open>admit\<close>; \<open>None\<close> if the deduper does not return.\<close>

definition admit :: "service_env \<Rightarrow> inference_result \<Rightarrow> service \<Rightarrow> (local_detection list \<times> service) option" where
  "admit E res s =
     (let valid = filter valid_detection (Detections res);
          tm = (if FrameTimestamp res = zero_time then env_now E else FrameTimestamp res)
      in case Admit (env_iter E) (env_now E) (CandidateKey res) tm valid (dedup s) of
           None \<Rightarrow> None
         | Some (out, d) \<Rightarrow>
             Some (map snd (filter fst (zip out valid)),
                   s\<lparr>dedup := d, eventsDeduplicated := eventsDeduplicated s + int (length (filter Not out))\<rparr>))"

fun create_events :: "service_env \<Rightarrow> inference_result \<Rightarrow> evidence_ref option \<Rightarrow> nat \<Rightarrow> local_detection list \<Rightarrow> service
    \<Rightarrow> event_error option \<times> edge_event list \<times> service" where
  "create_events E res ref i [] s = (None, [], s)"
| "create_events E res ref i (det # dets) s =
     (case NewLocalEvent (scfg s) res det ref (env_uuid E i) (env_now E) of
        Inl e \<Rightarrow> (Some e, [], s)
      | Inr evt \<Rightarrow>
          (case EventStore_Save (read_fails (env_fs E) Events) (env_sz E) (env_now E) (env_save E i) evt (estore (fdisk s)) of
             (Some e, st) \<Rightarrow> (Some e, [], s\<lparr>fdisk := (fdisk s)\<lparr>estore := st\<rparr>\<rparr>)
           | (None, st) \<Rightarrow>
               (case create_events E res ref (i + 1) dets
                       (s\<lparr>fdisk := (fdisk s)\<lparr>estore := st\<rparr>, localEventsCreated := localEventsCreated s + 1\<rparr>) of
                  (r, evts, s') \<Rightarrow> (r, evt # evts, s'))))"

definition maybeSweepRetention :: "service_env \<Rightarrow> service \<Rightarrow> service" where
  "maybeSweepRetention E s =
     (case retention s of
        None \<Rightarrow> s
      | Some r \<Rightarrow>
          (case MaybeSweepAfterWrite (env_fs E) (env_now E) (env_backlog E) (fdisk s, r) of
             (w, r') \<Rightarrow> s\<lparr>fdisk := w, retention := Some r'\<rparr>))"

text \<open>The two entry points share everything but how the evidence is written: \<open>save\<close> is that step for a capture
  identifier, \<open>None\<close> when there is no picture, and \<open>capturedAt\<close> the instant kept with a failure whose message is
  \<open>errtext\<close>.\<close>

definition save_evidence :: "service_env \<Rightarrow> (string \<Rightarrow> tree \<Rightarrow> (evidence_error + evidence_ref) \<times> tree) option
    \<Rightarrow> gotime \<Rightarrow> (evidence_error \<Rightarrow> string) \<Rightarrow> service \<Rightarrow> event_error + evidence_ref option \<times> service" where
  "save_evidence E save capturedAt errtext s =
     (case (if evidence_on s then save else None) of
        None \<Rightarrow> Inr (None, s)
      | Some sv \<Rightarrow>
          (case env_capture_uuid E of
             None \<Rightarrow> Inl Err_Capture_UUID
           | Some u \<Rightarrow>
               (case sv u (captures (fdisk s)) of
                  (Inl e, tr) \<Rightarrow>
                    Inr (Some \<lparr>ref_Path = '''', ref_SHA256 = '''', ref_SizeBytes = 0, ref_CapturedAt = capturedAt,
                               ref_SavedAt = zero_time, ref_ErrorMessage = errtext e\<rparr>,
                         s\<lparr>fdisk := (fdisk s)\<lparr>captures := tr\<rparr>, evidenceFailures := evidenceFailures s + 1\<rparr>)
                | (Inr ref, tr) \<Rightarrow>
                    Inr (Some ref, s\<lparr>fdisk := (fdisk s)\<lparr>captures := tr\<rparr>, evidenceSaved := evidenceSaved s + 1\<rparr>))))"

definition process_inference :: "service_env \<Rightarrow> (string \<Rightarrow> tree \<Rightarrow> (evidence_error + evidence_ref) \<times> tree) option
    \<Rightarrow> gotime \<Rightarrow> (evidence_error \<Rightarrow> string) \<Rightarrow> inference_result \<Rightarrow> service
    \<Rightarrow> (event_error option \<times> edge_event list \<times> service) option" where
  "process_inference E save capturedAt errtext res0 s0 =
     (if Detections res0 = [] then Some (Some ErrZeroDetections, [], s0)
      else
        let res = (if Device res0 = '''' then res0\<lparr>Device := env_device E\<rparr> else res0);
            s1 = s0\<lparr>localDetections := localDetections s0 + int (length (Detections res))\<rparr>
        in case admit E res s1 of
             None \<Rightarrow> None
           | Some (fresh, s2) \<Rightarrow>
               if fresh = [] then Some (None, [], s2)
               else case save_evidence E save capturedAt errtext s2 of
                 Inl e \<Rightarrow> Some (Some e, [], s2)
               | Inr (ref, s3) \<Rightarrow>
                   (case create_events E res ref 0 fresh s3 of
                      (Some e, evts, s4) \<Rightarrow> Some (Some e, evts, s4)
                    | (None, evts, s4) \<Rightarrow> Some (None, evts, maybeSweepRetention E s4)))"

definition ProcessInferenceWithJPEG :: "(string \<Rightarrow> string) \<Rightarrow> limits option \<Rightarrow> nat option \<Rightarrow> nat option
    \<Rightarrow> (evidence_error \<Rightarrow> string) \<Rightarrow> service_env \<Rightarrow> inference_result \<Rightarrow> string \<Rightarrow> service
    \<Rightarrow> (event_error option \<times> edge_event list \<times> service) option" where
  "ProcessInferenceWithJPEG sha lm free sv errtext E res jpeg s =
     process_inference E
       (if jpeg = [] then None
        else Some (\<lambda>u. SaveJPEG sha lm free (read_fails (env_fs E) Captures) (env_now E) sv u (FrameTimestamp res) jpeg))
       (FrameTimestamp res) errtext res s"

section \<open>The consumer\<close>

text \<open>\<open>resolveEvidencePath\<close> with the cleaned path of the joined names, \<open>filepath.Join\<close>, as an argument.\<close>

definition resolveEvidencePath :: "(string \<Rightarrow> string \<Rightarrow> string) \<Rightarrow> string \<Rightarrow> string \<Rightarrow> string option" where
  "resolveEvidencePath join dataDir rel =
     (if rel = '''' then None
      else let p = join dataDir rel;
               root = (if has_suffix dataDir ''/'' then dataDir else dataDir @ ''/'')
           in if p \<noteq> dataDir \<and> \<not> has_prefix p root then None else Some p)"

definition capture_evidence :: "(string \<Rightarrow> string \<Rightarrow> string) \<Rightarrow> string \<Rightarrow> evidence_ref option \<Rightarrow> evidence option" where
  "capture_evidence join dataDir r =
     (case r of
        None \<Rightarrow> None
      | Some ref \<Rightarrow>
          if ref_ErrorMessage ref \<noteq> '''' then None
          else map_option (\<lambda>p. \<lparr>path_ev = p, sha256 = ref_SHA256 ref, size_ev = ref_SizeBytes ref, duration_ms = 0\<rparr>)
                 (resolveEvidencePath join dataDir (ref_Path ref)))"

definition sub_f64 :: "f64 \<Rightarrow> f64 \<Rightarrow> f64" where
  "sub_f64 a b = Fin (fin a - fin b)"

text \<open>The submission \<open>enqueue\<close> builds; \<open>clp\<close> is the clip the clipper produced, if any, with its resolved path.\<close>

definition submission_of :: "(string \<Rightarrow> string \<Rightarrow> string) \<Rightarrow> (gotime \<Rightarrow> string) \<Rightarrow> string \<Rightarrow> evidence option \<Rightarrow> edge_event \<Rightarrow> submission" where
  "submission_of join fmt dataDir clp e =
     \<lparr>event = \<lparr>event_uuid = EventUUID e, candidate_key = evt_CandidateKey e, ev_class = evt_Tipo e,
               confidence = evt_Confidence e,
               bbox = MapFloat [(''x'', X1 (evt_BBox e)), (''y'', Y1 (evt_BBox e)),
                                (''width'', sub_f64 (X2 (evt_BBox e)) (X1 (evt_BBox e))),
                                (''height'', sub_f64 (Y2 (evt_BBox e)) (Y1 (evt_BBox e)))],
               ev_timestamp = fmt (SourceTimestamp e), correlation_id = evt_CorrelationID e\<rparr>,
      capture = capture_evidence join dataDir (Evidence e), clip = clp\<rparr>"

text \<open>What \<open>os.Stat\<close> sees of the evidence: the files of the captures and clips directories.\<close>

definition stat_evidence :: "retention_config \<Rightarrow> edge_disk \<Rightarrow> string \<Rightarrow> int option" where
  "stat_evidence c w p =
     (case List.find (\<lambda>(n, node). captures_abs c n = p) (captures w) of
        Some (n, node) \<Rightarrow> Some (fsize node)
      | None \<Rightarrow> map_option (\<lambda>(n, node). fsize node) (List.find (\<lambda>(n, node). clips_abs c n = p) (clips w)))"

text \<open>\<open>enqueue\<close>: an error of the backlog is logged and otherwise dropped.\<close>

definition enqueue :: "faults \<Rightarrow> (string \<Rightarrow> string \<Rightarrow> string) \<Rightarrow> (gotime \<Rightarrow> string) \<Rightarrow> gotime \<Rightarrow> retention_config \<Rightarrow> edge_disk
    \<Rightarrow> evidence option \<Rightarrow> edge_event \<Rightarrow> backlog \<Rightarrow> backlog" where
  "enqueue F join fmt now c w clp e b =
     snd (Enqueue F (stat_evidence c w) now (submission_of join fmt (DataDir c) clp e) b)"

end
