(* ===== verification/FullEdge_Keep.thy ===== *)
theory FullEdge_Keep
  imports FullEdge_Retention "HOL-Library.Multiset"
begin

text \<open>
  What retention keeps: the eviction plan meets its bounds with the oldest files, and a sweep never removes what a
  pending record or a surviving event refers to.
\<close>

section \<open>The plan\<close>

definition over :: "int \<Rightarrow> int \<Rightarrow> candidate list \<Rightarrow> bool" where
  "over maxCount maxBytes cs \<longleftrightarrow>
     maxCount > 0 \<and> int (length cs) > maxCount \<or> maxBytes > 0 \<and> (\<Sum>c \<leftarrow> cs. csize c) > maxBytes"

text \<open>After looking at the first \<open>n\<close> candidates, those are left that are protected or come later.\<close>

definition left_after :: "nat \<Rightarrow> candidate list \<Rightarrow> candidate list" where
  "left_after n cs = filter protected (take n cs) @ drop n cs"

lemma plan_loop_take:
  "\<exists>n \<le> length cs. plan_loop mc mb (int (length (ps @ cs))) (\<Sum>c \<leftarrow> ps @ cs. csize c) cs
      = filter (\<lambda>c. \<not> protected c) (take n cs)
    \<and> (n = length cs \<or> \<not> over mc mb (ps @ left_after n cs))
    \<and> (\<forall>k < n. over mc mb (ps @ left_after k cs))"
proof (induction cs arbitrary: ps)
  case (Cons c cs)
  show ?case
  proof (cases "over mc mb (ps @ c # cs)")
    case False
    then show ?thesis by (intro exI [of _ 0]) (auto simp: over_def left_after_def)
  next
    case True
    let ?qs = "if protected c then ps @ [c] else ps"
    obtain n where n: "n \<le> length cs"
        "plan_loop mc mb (int (length (?qs @ cs))) (\<Sum>c \<leftarrow> ?qs @ cs. csize c) cs = filter (\<lambda>c. \<not> protected c) (take n cs)"
        "n = length cs \<or> \<not> over mc mb (?qs @ left_after n cs)" "\<forall>k < n. over mc mb (?qs @ left_after k cs)"
      using Cons [of ?qs] by blast
    have l: "ps @ left_after (Suc k) (c # cs) = ?qs @ left_after k cs" for k by (simp add: left_after_def)
    have "over mc mb (ps @ left_after k (c # cs))" if "k < Suc n" for k
      using that n(4) True l by (cases k) (auto simp: left_after_def)
    moreover have "plan_loop mc mb (int (length (ps @ c # cs))) (\<Sum>x \<leftarrow> ps @ c # cs. csize x) (c # cs)
        = filter (\<lambda>c. \<not> protected c) (take (Suc n) (c # cs))"
      using True n(2) by (cases "protected c") (auto simp: over_def algebra_simps)
    ultimately show ?thesis using n(1,3) l [of n] by (intro exI [of _ "Suc n"]) simp
  qed
qed (auto simp: left_after_def)

definition unexpired :: "gotime \<Rightarrow> duration \<Rightarrow> candidate list \<Rightarrow> candidate list" where
  "unexpired now maxAge cs = filter (\<lambda>c. \<not> too_old now maxAge c) cs"

lemma plan_split:
  "\<exists>n. planEviction cs now maxCount maxBytes maxAge =
         filter (too_old now maxAge) cs @ filter (\<lambda>c. \<not> protected c) (take n (unexpired now maxAge cs))
    \<and> (n = length (unexpired now maxAge cs) \<or> \<not> over maxCount maxBytes (left_after n (unexpired now maxAge cs)))
    \<and> (\<forall>k < n. over maxCount maxBytes (left_after k (unexpired now maxAge cs)))"
proof (cases "maxCount \<le> 0 \<and> maxBytes \<le> 0")
  case True
  then show ?thesis by (intro exI [of _ 0]) (simp add: planEviction_def Let_def over_def)
next
  case False
  then show ?thesis using plan_loop_take [of "unexpired now maxAge cs" maxCount maxBytes "[]"]
    by (auto simp: planEviction_def Let_def unexpired_def)
qed

lemma plan_unprotected: "c \<in> set (planEviction cs now mc mb ma) \<Longrightarrow> c \<in> set cs \<and> \<not> protected c"
  using plan_split [of cs now mc mb ma] by (auto simp: too_old_def unexpired_def dest!: in_set_takeD)

lemma older_candidate_total: "older_candidate a b \<or> older_candidate b a \<or> cwhen a = cwhen b \<and> cpath a = cpath b"
  using linorder_less_linear [of "cpath a" "cpath b"] by (auto simp: older_candidate_def)

lemma older_candidate_trans: "older_candidate a b \<Longrightarrow> older_candidate b c \<Longrightarrow> older_candidate a c"
  by (auto simp: older_candidate_def split: if_splits)

lemma older_candidate_asym: "older_candidate a b \<Longrightarrow> \<not> older_candidate b a"
  by (auto simp: older_candidate_def split: if_splits)

lemma set_insert_candidate [simp]: "set (insert_candidate c xs) = insert c (set xs)"
  by (induction xs) auto

lemma mset_insert_candidate: "mset (insert_candidate c xs) = add_mset c (mset xs)"
  by (induction xs) auto

lemma sorted_insert_candidate:
  "sorted_wrt (\<lambda>a b. \<not> older_candidate b a) xs \<Longrightarrow> sorted_wrt (\<lambda>a b. \<not> older_candidate b a) (insert_candidate c xs)"
proof (induction xs)
  case (Cons x xs)
  show ?case
  proof (cases "older_candidate x c")
    case True
    then show ?thesis using Cons by (auto dest: older_candidate_asym)
  next
    case False
    have "\<not> older_candidate y c" if "y \<in> set xs" for y
      using Cons.prems that False older_candidate_trans [of y c x] older_candidate_total [of x c]
      by (auto simp: older_candidate_def split: if_splits)
    then show ?thesis using Cons.prems False by simp
  qed
qed simp

lemma mset_sortOldestFirst: "mset (sortOldestFirst cs) = mset cs"
  by (induction cs) (simp_all add: sortOldestFirst_def mset_insert_candidate)

lemma set_sortOldestFirst [simp]: "set (sortOldestFirst cs) = set cs"
  using mset_sortOldestFirst mset_eq_setD by blast

lemma sorted_sortOldestFirst: "sorted_wrt (\<lambda>a b. \<not> older_candidate b a) (sortOldestFirst cs)"
  by (induction cs) (simp_all add: sortOldestFirst_def sorted_insert_candidate)

text \<open>The eviction plan. The candidates are taken in order of age. \<open>planEviction\<close> selects every unprotected file past
  the age bound, and of the remaining ones the unprotected among the \<open>n\<close> oldest, where \<open>n\<close> is the least number
  after which what is left meets the count and byte bounds; when protected files alone exceed the bounds, every
  unprotected one is selected.\<close>

theorem plan_eviction_oldest_first:
  "mset (sortOldestFirst cs) = mset cs \<and> sorted_wrt (\<lambda>a b. \<not> older_candidate b a) (sortOldestFirst cs) \<and>
   (let old = unexpired now maxAge (sortOldestFirst cs)
    in \<exists>n. planEviction (sortOldestFirst cs) now maxCount maxBytes maxAge =
             filter (too_old now maxAge) (sortOldestFirst cs) @ filter (\<lambda>c. \<not> protected c) (take n old)
         \<and> (n = length old \<or> \<not> over maxCount maxBytes (left_after n old))
         \<and> (\<forall>k < n. over maxCount maxBytes (left_after k old)))"
  using plan_split mset_sortOldestFirst sorted_sortOldestFirst by (simp add: Let_def)

section \<open>Media\<close>

lemma map_of_filter_names:
  "(\<And>node. (n, node) \<in> set tr \<Longrightarrow> P (n, node)) \<Longrightarrow> map_of (filter P tr) n = map_of tr n"
  by (induction tr) auto

lemma remove_loop_keeps:
  "remove_loop E ow cs (tr, r) = (tr', r') \<Longrightarrow> n \<notin> cpath ` set cs \<Longrightarrow> map_of tr' n = map_of tr n"
proof (induction cs arbitrary: tr r)
  case (Cons c cs)
  have "n \<noteq> cpath c" "n \<notin> cpath ` set cs" using Cons.prems(2) by auto
  then show ?case using Cons.IH [of "AList.delete (cpath c) tr"] Cons.prems(1)
    by (auto simp: delete_conv' split: if_splits)
qed simp

lemma sweep_media_keeps:
  assumes "sweep_media E ow suffix keep now mc mb ma tr = Some (tr', r)" "keep n"
  shows "map_of tr' n = map_of tr n"
proof -
  obtain entries refused where e: "safeDirEntries E ow tr = Some (entries, refused)"
    using assms(1) by (auto simp: sweep_media_def split: option.splits)
  define cs where "cs = map (\<lambda>(n, node). \<lparr>cpath = n, csize = fsize node, cwhen = mtime node,
      protected = keep n, cuuid = '''', cevidence = None, csync = ''''\<rparr>)
    (filter (\<lambda>f. \<not> read_fails E ow (fst f)) (filter (\<lambda>f. media_name suffix (fst f)) entries))"
  obtain r0 where "remove_loop E ow (planEviction (sortOldestFirst cs) now mc mb ma) (tr, r0) = (tr', r)"
    using assms(1) e by (simp add: sweep_media_def Let_def cs_def)
  moreover have cs: "protected c = keep (cpath c)" if "c \<in> set cs" for c using that by (auto simp: cs_def)
  moreover have "n \<notin> cpath ` set (planEviction (sortOldestFirst cs) now mc mb ma)"
    using plan_unprotected cs assms(2) by fastforce
  ultimately show ?thesis using remove_loop_keeps by blast
qed

section \<open>Events\<close>

text \<open>Every event file is named after its event, as \<open>Save\<close> writes it.\<close>

definition well_named :: "tree \<Rightarrow> bool" where
  "well_named tr \<longleftrightarrow>
     distinct (map fst tr) \<and>
     (\<forall>(n, node) \<in> set tr. \<forall>e. fbody node = Event_JSON e \<longrightarrow> EventUUID e \<noteq> '''' \<longrightarrow>
        n = json_name (EventUUID e) \<and> CHR ''/'' \<notin> set (EventUUID e))"

definition proper :: "candidate \<Rightarrow> bool" where
  "proper c \<longleftrightarrow> cpath c = json_name (cuuid c) \<and> CHR ''/'' \<notin> set (cuuid c)"

text \<open>The step of the eviction loop.\<close>

definition evict_one :: "fs_env \<Rightarrow> string list \<Rightarrow> candidate \<Rightarrow> sweep_state \<Rightarrow> sweep_state" where
  "evict_one E evictSet c s =
       (if cpath c \<notin> set evictSet \<or> sw_stopped s then survive c s
        else case Store_Evict E (cuuid c) (csync c = SyncStatusPending) (sw_store s, sw_outside s) of
          (Some e, st, out) \<Rightarrow>
            survive c (s\<lparr>sw_stopped := True, sw_report := (sw_report s)\<lparr>Failed := Failed (sw_report s) + 1\<rparr>\<rparr>)
        | (None, st, out) \<Rightarrow>
            s\<lparr>sw_store := st, sw_outside := out,
              sw_report := (sw_report s)\<lparr>Evicted := Evicted (sw_report s) + 1,
                                         BytesReclaimed := BytesReclaimed (sw_report s) + csize c\<rparr>\<rparr>)"

lemma evict_events_Cons: "evict_events E evictSet (c # cs) s = evict_events E evictSet cs (evict_one E evictSet c s)"
  by (simp add: evict_one_def)

declare evict_events.simps(2) [simp del]

definition gone :: "sweep_state \<Rightarrow> string \<Rightarrow> bool" where
  "gone s n \<longleftrightarrow> map_of (files (sw_store s)) n = None"

definition referred :: "candidate \<Rightarrow> sweep_state \<Rightarrow> bool" where
  "referred c s \<longleftrightarrow>
     (case cevidence c of None \<Rightarrow> True | Some r \<Rightarrow> ref_Path r \<noteq> '''' \<longrightarrow> ref_Path r \<in> set (sw_refs s))"

text \<open>A step removes at most the file of its candidate, and only if that is planned; a candidate whose file is kept has
  its capture recorded.\<close>

lemma evict_one_effect:
  assumes "proper c"
  shows "map_of (files (sw_store (evict_one E evictSet c s))) n = map_of (files (sw_store s)) n
      \<or> n = cpath c \<and> cpath c \<in> set evictSet \<and> gone (evict_one E evictSet c s) n"
    and "sw_outside (evict_one E evictSet c s) = sw_outside s"
    and "set (sw_refs s) \<subseteq> set (sw_refs (evict_one E evictSet c s))"
    and "gone (evict_one E evictSet c s) (cpath c) \<or> referred c (evict_one E evictSet c s)"
  using assms
  by (auto simp: evict_one_def survive_def Store_Evict_def Let_def proper_def gone_def referred_def delete_conv'
      split: option.splits if_splits)

lemma evict_events_effect:
  assumes "\<And>c. c \<in> set cs \<Longrightarrow> proper c"
  shows "(map_of (files (sw_store (evict_events E evictSet cs s))) n = map_of (files (sw_store s)) n
      \<or> n \<in> set evictSet \<and> n \<in> cpath ` set cs \<and> gone (evict_events E evictSet cs s) n)
    \<and> sw_outside (evict_events E evictSet cs s) = sw_outside s
    \<and> set (sw_refs s) \<subseteq> set (sw_refs (evict_events E evictSet cs s))
    \<and> (\<forall>c \<in> set cs. gone (evict_events E evictSet cs s) (cpath c) \<or> referred c (evict_events E evictSet cs s))"
  using assms
proof (induction cs arbitrary: s n)
  case (Cons c cs)
  let ?s = "evict_one E evictSet c s"
  let ?t = "evict_events E evictSet cs ?s"
  have p: "proper c" using Cons.prems by simp
  note o = evict_one_effect [OF p, where E = E and evictSet = evictSet and s = s]
  have q: "\<And>c. c \<in> set cs \<Longrightarrow> proper c" using Cons.prems by simp
  note IH = Cons.IH [OF q, where s = ?s]
  have "gone ?t (cpath c) \<or> referred c ?t"
  proof (cases "gone ?s (cpath c)")
    case True
    then show ?thesis using IH [where n = "cpath c"] by (auto simp: gone_def)
  next
    case False
    then have "referred c ?s" using o(4) by blast
    then show ?thesis using IH [where n = n] by (auto simp: referred_def split: option.splits)
  qed
  moreover have "map_of (files (sw_store ?t)) n = map_of (files (sw_store s)) n
      \<or> n \<in> set evictSet \<and> n \<in> cpath ` set (c # cs) \<and> gone ?t n"
    using IH [where n = n] o(1) [of n] by (auto simp: gone_def)
  ultimately show ?case using IH [where n = n] o(2,3) by (auto simp: evict_events_Cons)
qed simp

lemma set_cands: "c \<in> set (cands xs) \<longleftrightarrow> Cand c \<in> set xs"
  by (induction xs) (auto simp: cands_def List.map_filter_simps split: scanned.splits)

lemma json_name_inject [simp]: "json_name u = json_name v \<longleftrightarrow> u = v"
  by (simp add: json_name_def)

lemma scan_event_cand:
  "scan_event E c pending (n, node) = Cand x \<Longrightarrow>
   cpath x = n \<and> (\<exists>e. fbody node = Event_JSON e \<and> EventUUID e \<noteq> '''' \<and> cuuid x = EventUUID e \<and> cevidence x = Evidence e \<and>
     protected x = (EventUUID e \<in> set (event_uuids pending) \<and> \<not> EvictPending c))"
  by (auto simp: scan_event_def split: if_splits fbody.splits)

text \<open>What the trees look like after the events were swept.\<close>

lemma sweepEvents_effect:
  assumes "well_named (files (estore w))" "sweepEvents E c now pending w = Some (w', refs, rep)"
  shows "captures w' = captures w \<and> clips w' = clips w \<and> outside w' = outside w"
    and "map_of (files (estore w')) n = map_of (files (estore w)) n \<or> map_of (files (estore w')) n = None"
    and "u \<in> set (event_uuids pending) \<Longrightarrow> \<not> EvictPending c \<Longrightarrow>
      map_of (files (estore w')) (json_name u) = map_of (files (estore w)) (json_name u)"
    and "map_of (files (estore w')) n = Some node \<Longrightarrow> \<not> unsafe_entry E Events (n, node) \<Longrightarrow> fkind node \<noteq> Directory
      \<Longrightarrow> event_name n \<Longrightarrow> \<not> read_fails E Events n \<Longrightarrow> fbody node = Event_JSON e \<Longrightarrow> EventUUID e \<noteq> ''''
      \<Longrightarrow> Evidence e = Some ref \<Longrightarrow> ref_Path ref \<noteq> '''' \<Longrightarrow> ref_Path ref \<in> set refs"
proof -
  obtain entries refused where e: "safeDirEntries E Events (files (estore w)) = Some (entries, refused)"
    using assms(2) by (auto simp: sweepEvents_def split: option.splits)
  then have entries: "f \<in> set entries \<longleftrightarrow> f \<in> set (files (estore w)) \<and> \<not> unsafe_entry E Events f \<and> fkind (snd f) \<noteq> Directory" for f
    by (auto simp: safeDirEntries_def split: if_splits)
  define cs where "cs = sortOldestFirst (cands (map (scan_event E c pending) entries))"
  define evictSet where "evictSet = map cpath (planEviction cs now (MaxEvents c) (MaxEventBytes c) (MaxEventAge c))"
  obtain r0 where s: "w' = w\<lparr>estore := sw_store (evict_events E evictSet cs r0), outside := sw_outside (evict_events E evictSet cs r0)\<rparr>"
      "refs = sw_refs (evict_events E evictSet cs r0)" "sw_store r0 = estore w" "sw_outside r0 = outside w"
    using assms(2) e by (auto simp: sweepEvents_def Let_def cs_def evictSet_def)
  have cand: "\<exists>n node. (n, node) \<in> set entries \<and> scan_event E c pending (n, node) = Cand x" if "x \<in> set cs" for x
    using that by (force simp: cs_def set_cands)
  have p: "proper x" if x: "x \<in> set cs" for x
  proof -
    obtain n node where n: "(n, node) \<in> set entries" "scan_event E c pending (n, node) = Cand x" using cand [OF x] by blast
    then have "(n, node) \<in> set (files (estore w))" using entries by simp
    then show ?thesis using scan_event_cand [OF n(2)] assms(1) by (fastforce simp: well_named_def proper_def)
  qed
  note eff = evict_events_effect [of cs, OF p, where E = E and evictSet = evictSet and s = r0]
  show "captures w' = captures w \<and> clips w' = clips w \<and> outside w' = outside w" using eff s by simp
  show m: "map_of (files (estore w')) n = map_of (files (estore w)) n \<or> map_of (files (estore w')) n = None" for n
    using eff [where n = n] s by (auto simp: gone_def)
  show "map_of (files (estore w')) (json_name u) = map_of (files (estore w)) (json_name u)"
    if u: "u \<in> set (event_uuids pending)" "\<not> EvictPending c"
  proof -
    have "json_name u \<notin> set evictSet"
    proof
      assume "json_name u \<in> set evictSet"
      then obtain x where x: "x \<in> set cs" "\<not> protected x" "cpath x = json_name u"
        using plan_unprotected unfolding evictSet_def by fastforce
      then have "cuuid x = u" using p [OF x(1)] by (simp add: proper_def)
      moreover obtain n node where "scan_event E c pending (n, node) = Cand x" using cand [OF x(1)] by blast
      ultimately show False using scan_event_cand x(2) u by metis
    qed
    then show ?thesis using eff [where n = "json_name u"] s by simp
  qed
  show "ref_Path ref \<in> set refs"
    if n: "map_of (files (estore w')) n = Some node" "\<not> unsafe_entry E Events (n, node)" "fkind node \<noteq> Directory"
      "event_name n" "\<not> read_fails E Events n" "fbody node = Event_JSON e" "EventUUID e \<noteq> ''''"
      "Evidence e = Some ref" "ref_Path ref \<noteq> ''''"
  proof -
    have "(n, node) \<in> set (files (estore w))" using m [of n] n(1) map_of_SomeD by fastforce
    then have "(n, node) \<in> set entries" using entries n(2,3) by simp
    moreover obtain x where x: "scan_event E c pending (n, node) = Cand x" "cpath x = n" "cevidence x = Some ref"
      using n by (simp add: scan_event_def)
    ultimately have "x \<in> set cs" unfolding cs_def set_sortOldestFirst set_cands by force
    then show ?thesis using eff [where n = n] s x n(1,9) by (fastforce simp: gone_def referred_def)
  qed
qed


section \<open>A whole sweep\<close>

lemma orphan_suffix: "is_orphan E ow p s now f \<Longrightarrow> has_suffix (fst f) s"
  by (simp add: is_orphan_def)

lemma temp_orphans_keep:
  assumes "sweepTempOrphans E ow p s now tr = (tr', k)" "has_suffix n t" "t \<noteq> []" "s \<noteq> []" "last t \<noteq> last s"
  shows "map_of tr' n = map_of tr n"
proof -
  have "\<not> is_orphan E ow p s now (n, node)" for node
    using orphan_suffix [of E ow p s now "(n, node)"] has_suffix_last [of n s] has_suffix_last [of n t] assms by auto
  then show ?thesis using assms(1) by (auto simp: sweepTempOrphans_def intro: map_of_filter_names split: if_splits)
qed

lemma temp_orphans_subset: "sweepTempOrphans E ow p s now tr = (tr', k) \<Longrightarrow> set tr' \<subseteq> set tr"
  by (auto simp: sweepTempOrphans_def split: if_splits)

lemma temp_orphans_well_named:
  "sweepTempOrphans E ow p s now tr = (tr', k) \<Longrightarrow> well_named tr \<Longrightarrow> well_named tr'"
  by (fastforce simp: sweepTempOrphans_def well_named_def distinct_map_filter split: if_splits)

text \<open>A readable event file refers to a capture.\<close>

definition refers :: "fs_env \<Rightarrow> tree \<Rightarrow> string \<Rightarrow> bool" where
  "refers E tr p \<longleftrightarrow>
     (\<exists>n node e ref. map_of tr n = Some node \<and> \<not> unsafe_entry E Events (n, node) \<and> fkind node \<noteq> Directory \<and>
        event_name n \<and> \<not> read_fails E Events n \<and> fbody node = Event_JSON e \<and> EventUUID e \<noteq> '''' \<and>
        Evidence e = Some ref \<and> ref_Path ref = p)"

text \<open>What the sweep of the three trees after the orphans keeps, whether or not a later tree could be listed.\<close>

definition sweep_retains :: "fs_env \<Rightarrow> retention_config \<Rightarrow> pending_refs \<Rightarrow> edge_disk \<Rightarrow> edge_disk \<Rightarrow> bool" where
  "sweep_retains E c pending w w' \<longleftrightarrow>
     outside w' = outside w \<and>
     (\<forall>n. has_suffix n ''.jpg'' \<longrightarrow>
        captures_abs c n \<in> set (evidence_paths pending) \<or> refers E (files (estore w')) (captures_rel n) \<longrightarrow>
        map_of (captures w') n = map_of (captures w) n) \<and>
     (\<forall>n. has_suffix n ''.mp4'' \<longrightarrow> clips_abs c n \<in> set (evidence_paths pending) \<longrightarrow> map_of (clips w') n = map_of (clips w) n) \<and>
     (\<forall>u \<in> set (event_uuids pending). \<not> EvictPending c \<longrightarrow>
        map_of (files (estore w')) (json_name u) = map_of (files (estore w)) (json_name u))"

lemma sweep_retains_orphans:
  assumes "sweep_orphans E now w = (w0, n1, n2, n3)"
  shows "sweep_retains E c pending w w0" "well_named (files (estore w)) \<Longrightarrow> well_named (files (estore w0))"
proof -
  obtain ev ca cl where o: "sweepTempOrphans E Events ''.event-'' ''.tmp'' now (files (estore w)) = (ev, n1)"
      "sweepTempOrphans E Captures ''.evidence-'' ''.tmp'' now (captures w) = (ca, n2)"
      "sweepTempOrphans E Clips '''' ''.mp4.tmp'' now (clips w) = (cl, n3)"
      "w0 = w\<lparr>estore := (estore w)\<lparr>files := ev\<rparr>, captures := ca, clips := cl\<rparr>"
    using assms by (auto simp: sweep_orphans_def split: prod.splits)
  have "map_of ca n = map_of (captures w) n" if "has_suffix n ''.jpg''" for n
    by (rule temp_orphans_keep [OF o(2) that]) auto
  moreover have "map_of cl n = map_of (clips w) n" if "has_suffix n ''.mp4''" for n
    by (rule temp_orphans_keep [OF o(3) that]) auto
  moreover have "map_of ev (json_name u) = map_of (files (estore w)) (json_name u)" for u
    by (rule temp_orphans_keep [OF o(1), of _ "''.json''"]) (auto simp: json_name_def)
  ultimately show "sweep_retains E c pending w w0" using o(4) by (simp add: sweep_retains_def)
  show "well_named (files (estore w)) \<Longrightarrow> well_named (files (estore w0))"
    using temp_orphans_well_named [OF o(1)] o(4) by simp
qed

lemma sweep_retains_trees:
  assumes "well_named (files (estore w))" "sweepEvents E c now pending w = Some (w1, refs, er)"
    and "ca = captures w \<or> (\<exists>cr. sweepCaptures E c now pending refs (captures w1) = Some (ca, cr))"
    and "cl = clips w \<or> (\<exists>lr. sweepClips E c now pending (clips w1) = Some (cl, lr))"
  shows "sweep_retains E c pending w (w1\<lparr>captures := ca, clips := cl\<rparr>)"
proof -
  note e = sweepEvents_effect [OF assms(1,2)]
  have "map_of ca n = map_of (captures w) n"
    if "captures_abs c n \<in> set (evidence_paths pending) \<or> refers E (files (estore w1)) (captures_rel n)" for n
  proof -
    have "captures_rel n \<in> set refs" if "refers E (files (estore w1)) (captures_rel n)"
      using that e(4) unfolding refers_def by (metis captures_rel_def Nil_is_append_conv list.distinct(1))
    then show ?thesis using that assms(3) e(1) sweep_media_keeps [where n = n] unfolding sweepCaptures_def by fastforce
  qed
  moreover have "map_of cl n = map_of (clips w) n" if "clips_abs c n \<in> set (evidence_paths pending)" for n
    using that assms(4) e(1) sweep_media_keeps [where n = n] unfolding sweepClips_def by fastforce
  ultimately show ?thesis using e(1,3) by (simp add: sweep_retains_def)
qed

lemma sweep_retains_trans:
  assumes "sweep_retains E c pending w w0" "sweep_retains E c pending w0 w1"
    and "\<And>p. refers E (files (estore w1)) p \<Longrightarrow> refers E (files (estore w0)) p"
  shows "sweep_retains E c pending w w1"
  using assms unfolding sweep_retains_def by metis

lemma refers_mono:
  assumes "\<And>n. map_of tr' n = map_of tr n \<or> map_of tr' n = None" "refers E tr' p"
  shows "refers E tr p"
  using assms unfolding refers_def by (metis option.distinct(1))

lemma sweep_retains_refl: "sweep_retains E c pending w w"
  by (simp add: sweep_retains_def)

lemma sweep_result:
  assumes "sweep_orphans E now w = (w0, n1, n2, n3)" "LoadPendingReferences dk = Some pending"
    and "Sweep E now dk (w, r) = (rep, w', r')"
  shows "w' = w0 \<or> (\<exists>w1 refs er ca cl. sweepEvents E (rcfg r) now pending w0 = Some (w1, refs, er)
    \<and> (ca = captures w1 \<or> (\<exists>cr. sweepCaptures E (rcfg r) now pending refs (captures w1) = Some (ca, cr)))
    \<and> (cl = clips w1 \<or> (\<exists>lr. sweepClips E (rcfg r) now pending (clips w1) = Some (cl, lr)))
    \<and> w' = w1\<lparr>captures := ca, clips := cl\<rparr>)"
proof (cases "anyBoundActive (rcfg r)")
  case False
  then show ?thesis using assms by (simp add: Sweep_def Let_def)
next
  case bound: True
  show ?thesis
  proof (cases "sweepEvents E (rcfg r) now pending w0")
    case None
    then show ?thesis using assms bound by (simp add: Sweep_def Let_def)
  next
    case (Some a)
    obtain w1 refs er where e: "sweepEvents E (rcfg r) now pending w0 = Some (w1, refs, er)" using Some by (cases a) auto
    show ?thesis
    proof (cases "sweepCaptures E (rcfg r) now pending refs (captures w1)")
      case None
      then have "w' = w1\<lparr>captures := captures w1, clips := clips w1\<rparr>" using assms bound e by (auto simp: Sweep_def Let_def)
      then show ?thesis using e by blast
    next
      case (Some b)
      obtain ca cr where c: "sweepCaptures E (rcfg r) now pending refs (captures w1) = Some (ca, cr)" using Some by (cases b) auto
      show ?thesis
      proof (cases "sweepClips E (rcfg r) now pending (clips w1)")
        case None
        then have "w' = w1\<lparr>captures := ca, clips := clips w1\<rparr>" using assms bound e c by (auto simp: Sweep_def Let_def)
        then show ?thesis using e c by blast
      next
        case (Some l)
        then have "w' = w1\<lparr>captures := ca, clips := fst l\<rparr>" using assms bound e c by (cases l) (simp add: Sweep_def Let_def)
        moreover have "sweepClips E (rcfg r) now pending (clips w1) = Some (fst l, snd l)" using Some by simp
        ultimately show ?thesis using e c by blast
      qed
    qed
  qed
qed

lemma sweep_keeps:
  assumes "well_named (files (estore w))" "LoadPendingReferences dk = Some pending"
    and "Sweep E now dk (w, r) = (rep, w', r')"
  shows "sweep_retains E (rcfg r) pending w w'"
proof -
  obtain w0 n1 n2 n3 where o: "sweep_orphans E now w = (w0, n1, n2, n3)" by (metis prod_cases4)
  note k = sweep_retains_orphans(1) [OF o, where c = "rcfg r" and pending = pending] sweep_retains_orphans(2) [OF o]
  have step: "sweep_retains E (rcfg r) pending w (w1\<lparr>captures := ca, clips := cl\<rparr>)"
    if s: "sweepEvents E (rcfg r) now pending w0 = Some (w1, refs, er)"
      and c: "ca = captures w0 \<or> (\<exists>cr. sweepCaptures E (rcfg r) now pending refs (captures w1) = Some (ca, cr))"
        "cl = clips w0 \<or> (\<exists>lr. sweepClips E (rcfg r) now pending (clips w1) = Some (cl, lr))" for w1 refs er ca cl
  proof (rule sweep_retains_trans [OF k(1) sweep_retains_trees [OF k(2) [OF assms(1)] s c]])
    show "refers E (files (estore (w1\<lparr>captures := ca, clips := cl\<rparr>))) p \<Longrightarrow> refers E (files (estore w0)) p" for p
      using refers_mono [OF sweepEvents_effect(2) [OF k(2) [OF assms(1)] s]] by simp
  qed
  from sweep_result [OF o assms(2,3)] show ?thesis
  proof
    assume "w' = w0"
    then show ?thesis using k(1) by simp
  next
    assume "\<exists>w1 refs er ca cl. sweepEvents E (rcfg r) now pending w0 = Some (w1, refs, er)
      \<and> (ca = captures w1 \<or> (\<exists>cr. sweepCaptures E (rcfg r) now pending refs (captures w1) = Some (ca, cr)))
      \<and> (cl = clips w1 \<or> (\<exists>lr. sweepClips E (rcfg r) now pending (clips w1) = Some (cl, lr)))
      \<and> w' = w1\<lparr>captures := ca, clips := cl\<rparr>"
    then show ?thesis using step sweepEvents_effect(1) [OF k(2) [OF assms(1)]] by metis
  qed
qed


section \<open>The counter of pending events\<close>

abbreviation readable_all :: "string \<Rightarrow> bool" where
  "readable_all \<equiv> \<lambda>_. False"

definition pend :: "string \<Rightarrow> fnode option \<Rightarrow> int" where
  "pend n node = (case node of None \<Rightarrow> 0 | Some f \<Rightarrow> if is_pending readable_all (n, f) then 1 else 0)"

lemma count_update:
  "distinct (map fst tr) \<Longrightarrow> countPendingOnDisk readable_all (AList.update n f tr) =
   countPendingOnDisk readable_all tr - pend n (map_of tr n) + pend n (Some f)"
  by (induction tr) (auto simp: countPendingOnDisk_def pend_def)

lemma count_delete:
  assumes "distinct (map fst tr)"
  shows "countPendingOnDisk readable_all (AList.delete n tr) = countPendingOnDisk readable_all tr - pend n (map_of tr n)"
  using assms
proof (induction tr)
  case (Cons x tr)
  have "map_of tr (fst x) = None" using Cons.prems by (simp add: map_of_eq_None_iff)
  then show ?case using Cons by (cases x) (auto simp: countPendingOnDisk_def pend_def)
qed (simp add: countPendingOnDisk_def pend_def)

text \<open>The invariant of the store: names, identifiers and counter.\<close>

definition store_inv :: "event_store \<Rightarrow> bool" where
  "store_inv s \<longleftrightarrow> well_named (files s) \<and> backlogCount s = countPendingOnDisk readable_all (files s)"

lemma well_named_update:
  assumes "well_named tr" "\<And>e. fbody f = Event_JSON e \<Longrightarrow> EventUUID e \<noteq> '''' \<Longrightarrow> n = json_name (EventUUID e) \<and> CHR ''/'' \<notin> set (EventUUID e)"
  shows "well_named (AList.update n f tr)"
proof -
  have "set (AList.update n f tr) \<subseteq> insert (n, f) (set tr)" by (induction tr) auto
  then show ?thesis using assms distinct_update [of tr n f] unfolding well_named_def by fastforce
qed

lemma well_named_delete: "well_named tr \<Longrightarrow> well_named (AList.delete n tr)"
  by (fastforce simp: well_named_def AList.delete_eq distinct_map_filter)

lemma uuid_shape:
  assumes "eventUUIDPattern u"
  shows "u \<noteq> ''''" "CHR ''/'' \<notin> set u" "event_name (json_name u)"
proof -
  have c: "c = CHR ''-'' \<or> is_hex c" if cu: "c \<in> set u" for c
  proof -
    obtain i where "i < length u" "c = u ! i" using cu by (metis in_set_conv_nth)
    then have "(i, c) \<in> set (enumerate 0 u)" by (simp add: in_set_enumerate_eq)
    have "\<forall>x \<in> set (enumerate 0 u). case x of (i, c) \<Rightarrow> if i \<in> {8, 13, 18, 23} then c = CHR ''-'' else is_hex c"
      using assms unfolding eventUUIDPattern_def list_all_iff by (rule conjunct2)
    from bspec [OF this \<open>(i, c) \<in> set (enumerate 0 u)\<close>]
    have "if i \<in> {8, 13, 18, 23} then c = CHR ''-'' else is_hex c" by simp
    then show ?thesis by (simp split: if_splits)
  qed
  have h: "\<not> is_hex (CHR ''/'')" "\<not> is_hex (CHR ''.'')" by (simp_all add: is_hex_def is_digit_def)
  show ne: "u \<noteq> ''''" using assms by (auto simp: eventUUIDPattern_def)
  show "CHR ''/'' \<notin> set u" using c [of "CHR ''/''"] h by auto
  have "CHR ''.'' \<notin> set u" using c [of "CHR ''.''"] h by auto
  then have "\<not> has_prefix (json_name u) ''.''" using ne by (cases u) (auto simp: json_name_def has_prefix_def)
  then show "event_name (json_name u)" by (simp add: event_name_def json_name_def)
qed

lemma pend_event_node:
  "event_name n \<Longrightarrow> pend n (Some (event_node sz now e)) = (if SyncStatus e = SyncStatusPending then 1 else 0)"
  by (simp add: pend_def is_pending_def event_node_def read_event_def)

text \<open>No read of a pending event's file fails; the other reads may.\<close>

definition reads_pending :: "(string \<Rightarrow> bool) \<Rightarrow> tree \<Rightarrow> bool" where
  "reads_pending unreadable tr \<longleftrightarrow> (\<forall>f \<in> set tr. is_pending readable_all f \<longrightarrow> \<not> unreadable (fst f))"

lemma reads_all [simp]: "reads_pending readable_all tr"
  by (simp add: reads_pending_def)

lemma is_pending_readable: "is_pending unreadable f \<longleftrightarrow> is_pending readable_all f \<and> \<not> unreadable (fst f)"
  by (auto simp: is_pending_def read_event_def split: prod.splits fbody.splits if_splits)

lemma count_readable: "reads_pending unreadable tr \<Longrightarrow> countPendingOnDisk unreadable tr = countPendingOnDisk readable_all tr"
proof -
  assume "reads_pending unreadable tr"
  then have "filter (is_pending unreadable) tr = filter (is_pending readable_all) tr"
    by (intro filter_cong refl) (auto simp: reads_pending_def is_pending_readable [of unreadable])
  then show ?thesis by (simp add: countPendingOnDisk_def)
qed

lemma store_inv_save:
  assumes "store_inv s" "eventUUIDPattern (EventUUID e)" "reads_pending unreadable (files s)"
    and "EventStore_Save unreadable sz now sv e s = (r, s')"
  shows "store_inv s'"
proof -
  let ?n = "json_name (EventUUID e)"
  note u = uuid_shape [OF assms(2)]
  have d: "distinct (map fst (files s))" using assms(1) by (simp add: store_inv_def well_named_def)
  have w: "well_named (AList.update ?n (event_node sz now e) (files s))"
    by (rule well_named_update) (use assms(1) u(2) in \<open>auto simp: store_inv_def event_node_def\<close>)
  have p: "pend ?n (map_of (files s) ?n) = 0" if "case map_of (files s) ?n of None \<Rightarrow> True | Some node \<Rightarrow> read_event unreadable (?n, node) = None"
  proof (cases "map_of (files s) ?n")
    case (Some node)
    then have "\<not> is_pending unreadable (?n, node)" using that by (simp add: is_pending_def)
    then show ?thesis using Some assms(3) map_of_SomeD [OF Some]
      by (auto simp: pend_def reads_pending_def is_pending_readable [of unreadable])
  qed (simp add: pend_def)
  show ?thesis
  proof (cases "s' = s")
    case False
    then have "s' = s\<lparr>files := AList.update ?n (event_node sz now e) (files s),
        backlogCount := backlogCount s + (if SyncStatus e = SyncStatusPending then 1 else 0)\<rparr>"
      "case map_of (files s) ?n of None \<Rightarrow> True | Some node \<Rightarrow> read_event unreadable (?n, node) = None"
      using assms(4) by (auto simp: EventStore_Save_def Let_def split: if_splits option.splits)
    then show ?thesis using assms(1) w p count_update [OF d, of ?n] pend_event_node [OF u(3)]
      by (simp add: store_inv_def)
  qed (use assms(1) in simp)
qed

lemma store_inv_transition:
  assumes "store_inv s" "transitionLocked unreadable sz now sv u status reason s = (r, s')" "eventUUIDPattern u"
    and "status \<noteq> SyncStatusPending"
  shows "store_inv s'"
proof (cases "s' = s")
  case False
  then obtain node e where e: "map_of (files s) (json_name u) = Some node" "fkind node \<noteq> Directory" "fbody node = Event_JSON e"
      "s' = s\<lparr>files := AList.update (json_name u) (event_node sz now
           (e\<lparr>SyncStatus := status, QuarantineReason := (if reason \<noteq> '''' then reason else QuarantineReason e)\<rparr>)) (files s),
         backlogCount := backlogCount s - (if SyncStatus e = SyncStatusPending \<and> status \<noteq> SyncStatusPending then 1 else 0)\<rparr>"
    using assms(2) by (auto simp: transitionLocked_def Let_def split: option.splits if_splits fbody.splits)
  have d: "distinct (map fst (files s))" using assms(1) by (simp add: store_inv_def well_named_def)
  have "(json_name u, node) \<in> set (files s)" using e(1) by (rule map_of_SomeD)
  then have "EventUUID e \<noteq> '''' \<longrightarrow> json_name u = json_name (EventUUID e) \<and> CHR ''/'' \<notin> set (EventUUID e)"
    using assms(1) e(3) by (fastforce simp: store_inv_def well_named_def)
  then have w: "well_named (files s')"
    unfolding e(4) using assms(1) by (auto simp: store_inv_def event_node_def intro!: well_named_update)
  have "pend (json_name u) (map_of (files s) (json_name u)) = (if SyncStatus e = SyncStatusPending then 1 else 0)"
    using e uuid_shape(3) [OF assms(3)] by (simp add: pend_def is_pending_def read_event_def)
  then show ?thesis using assms(1,4) w count_update [OF d, of "json_name u"] pend_event_node [OF uuid_shape(3) [OF assms(3)]]
    by (simp add: store_inv_def e(4))
qed (use assms(1) in simp)


text \<open>A candidate knows whether its file is pending.\<close>

definition knows :: "tree \<Rightarrow> candidate \<Rightarrow> bool" where
  "knows tr c \<longleftrightarrow>
     proper c \<and> (map_of tr (cpath c) \<noteq> None \<longrightarrow>
       pend (cpath c) (map_of tr (cpath c)) = (if csync c = SyncStatusPending then 1 else 0))"

lemma store_inv_evict_one:
  assumes "store_inv (sw_store s)" "knows (files (sw_store s)) c"
  shows "store_inv (sw_store (evict_one E evictSet c s))"
    and "knows (files (sw_store s)) c' \<Longrightarrow> knows (files (sw_store (evict_one E evictSet c s))) c'"
proof -
  have d: "distinct (map fst (files (sw_store s)))" using assms(1) by (simp add: store_inv_def well_named_def)
  have p: "cpath c = json_name (cuuid c)" "CHR ''/'' \<notin> set (cuuid c)"
      "map_of (files (sw_store s)) (cpath c) \<noteq> None \<Longrightarrow>
        pend (cpath c) (map_of (files (sw_store s)) (cpath c)) = (if csync c = SyncStatusPending then 1 else 0)"
    using assms(2) by (auto simp: knows_def proper_def)
  have e: "sw_store (evict_one E evictSet c s) = sw_store s \<or>
      map_of (files (sw_store s)) (cpath c) \<noteq> None \<and>
      sw_store (evict_one E evictSet c s) = (sw_store s)\<lparr>backlogCount := backlogCount (sw_store s) -
          (if csync c = SyncStatusPending then 1 else 0), files := AList.delete (cpath c) (files (sw_store s))\<rparr>"
    using p(1,2) by (auto simp: evict_one_def survive_def Store_Evict_def Let_def split: option.splits if_splits)
  then show "store_inv (sw_store (evict_one E evictSet c s))"
    using assms(1) p(3) count_delete [OF d, of "cpath c"] well_named_delete by (auto simp: store_inv_def)
  show "knows (files (sw_store (evict_one E evictSet c s))) c'" if "knows (files (sw_store s)) c'"
    using e that by (cases "cpath c' = cpath c") (auto simp: knows_def delete_conv')
qed

lemma store_inv_evict_events:
  "store_inv (sw_store s) \<Longrightarrow> (\<And>c. c \<in> set cs \<Longrightarrow> knows (files (sw_store s)) c) \<Longrightarrow>
   store_inv (sw_store (evict_events E evictSet cs s))"
proof (induction cs arbitrary: s)
  case (Cons c cs)
  have "store_inv (sw_store (evict_events E evictSet cs (evict_one E evictSet c s)))"
    by (rule Cons.IH) (use store_inv_evict_one Cons.prems in auto)
  then show ?case by (simp add: evict_events_Cons)
qed simp

lemma store_inv_sweepEvents:
  assumes "store_inv (estore w)" "sweepEvents E c now pending w = Some (w', refs, rep)"
  shows "store_inv (estore w')"
proof -
  obtain entries refused where e: "safeDirEntries E Events (files (estore w)) = Some (entries, refused)"
    using assms(2) by (auto simp: sweepEvents_def split: option.splits)
  then have entries: "f \<in> set entries \<Longrightarrow> f \<in> set (files (estore w)) \<and> fkind (snd f) \<noteq> Directory" for f
    by (auto simp: safeDirEntries_def split: if_splits)
  define cs where "cs = sortOldestFirst (cands (map (scan_event E c pending) entries))"
  have k: "knows (files (estore w)) x" if x: "x \<in> set cs" for x
  proof -
    obtain n node where n: "(n, node) \<in> set entries" "scan_event E c pending (n, node) = Cand x"
      using x by (force simp: cs_def set_cands)
    have t: "(n, node) \<in> set (files (estore w))" "fkind node \<noteq> Directory" using entries [OF n(1)] by auto
    have d: "distinct (map fst (files (estore w)))" using assms(1) by (simp add: store_inv_def well_named_def)
    then have m: "map_of (files (estore w)) n = Some node" using t(1) by (rule map_of_is_SomeI)
    obtain ev where ev: "fbody node = Event_JSON ev" "EventUUID ev \<noteq> ''''" "cuuid x = EventUUID ev" "cpath x = n"
      "event_name n" "csync x = SyncStatus ev"
      using n(2) by (auto simp: scan_event_def split: if_splits fbody.splits)
    have "n = json_name (EventUUID ev) \<and> CHR ''/'' \<notin> set (EventUUID ev)"
      using assms(1) t(1) ev(1,2) by (fastforce simp: store_inv_def well_named_def)
    then show ?thesis using m t(2) ev by (simp add: knows_def proper_def pend_def is_pending_def read_event_def)
  qed
  obtain evictSet r0 where "w' = w\<lparr>estore := sw_store (evict_events E evictSet cs r0), outside := sw_outside (evict_events E evictSet cs r0)\<rparr>"
      "sw_store r0 = estore w"
    using assms(2) e by (auto simp: sweepEvents_def Let_def cs_def)
  then show ?thesis using store_inv_evict_events [of r0 cs E evictSet] k assms(1) by simp
qed

lemma store_inv_orphans:
  assumes "store_inv (estore w)" "sweep_orphans E now w = (w0, n1, n2, n3)"
  shows "store_inv (estore w0)"
proof -
  obtain ev where ev: "sweepTempOrphans E Events ''.event-'' ''.tmp'' now (files (estore w)) = (ev, n1)"
      "estore w0 = (estore w)\<lparr>files := ev\<rparr>"
    using assms(2) by (auto simp: sweep_orphans_def split: prod.splits)
  have "\<not> (is_orphan E Events ''.event-'' ''.tmp'' now f \<and> is_pending readable_all f)" for f
    using has_suffix_last [of "fst f" "''.tmp''"] has_suffix_last [of "fst f" "''.json''"]
    by (auto simp: is_orphan_def is_pending_def event_name_def)
  then have "filter (\<lambda>f. \<not> is_orphan E Events ''.event-'' ''.tmp'' now f \<and> is_pending readable_all f) xs
      = filter (is_pending readable_all) xs" for xs by (intro filter_cong refl) blast
  then have "filter (is_pending readable_all) ev = filter (is_pending readable_all) (files (estore w))"
    using ev(1) by (auto simp: sweepTempOrphans_def split: if_splits)
  then show ?thesis using assms(1) ev temp_orphans_well_named [OF ev(1)]
    by (simp add: store_inv_def countPendingOnDisk_def)
qed

lemma store_inv_sweep:
  assumes "store_inv (estore w)" "Sweep E now dk (w, r) = (rep, w', r')"
  shows "store_inv (estore w')"
proof -
  obtain w0 n1 n2 n3 where o: "sweep_orphans E now w = (w0, n1, n2, n3)" by (metis prod_cases4)
  have w0: "store_inv (estore w0)" by (rule store_inv_orphans [OF assms(1) o])
  show ?thesis
  proof (cases "LoadPendingReferences dk")
    case None
    then have "w' = w0" using assms(2) o by (auto simp: Sweep_def Let_def split: if_splits)
    then show ?thesis using w0 by simp
  next
    case (Some pending)
    from sweep_result [OF o this assms(2)] store_inv_sweepEvents [OF w0] show ?thesis using w0 by auto
  qed
qed

text \<open>The store through saves, transitions, sweeps and restarts; other components write the captures and clips. Any step
  of a write may fail, and any read, except that saving and restarting read the files of pending events.\<close>

inductive store_step :: "edge_disk \<times> retention_manager \<Rightarrow> edge_disk \<times> retention_manager \<Rightarrow> bool" where
  save: "eventUUIDPattern (EventUUID e) \<Longrightarrow> reads_pending unreadable (files (estore w))
     \<Longrightarrow> EventStore_Save unreadable sz now sv e (estore w) = (res, st) \<Longrightarrow> store_step (w, m) (w\<lparr>estore := st\<rparr>, m)"
| synced: "eventUUIDPattern u \<Longrightarrow> MarkSynced unreadable sz now sv u (estore w) = (res, st)
     \<Longrightarrow> store_step (w, m) (w\<lparr>estore := st\<rparr>, m)"
| rejected: "eventUUIDPattern u \<Longrightarrow> MarkQuarantined unreadable sz now sv u reason (estore w) = (res, st)
     \<Longrightarrow> store_step (w, m) (w\<lparr>estore := st\<rparr>, m)"
| sweep: "Sweep E now dk (w, m) = (rep, w', m') \<Longrightarrow> store_step (w, m) (w', m')"
| media: "store_step (w, m) (w\<lparr>captures := ca, clips := cl\<rparr>, m)"
| restart: "reads_pending unreadable (files (estore w)) \<Longrightarrow> NewEventStore unreadable mkdir_ok list_ok (files (estore w)) = Inr st
     \<Longrightarrow> store_step (w, m) (w\<lparr>estore := st\<rparr>, m)"

definition store_init :: "edge_disk \<times> retention_manager \<Rightarrow> bool" where
  "store_init s \<longleftrightarrow> well_named (files (estore (fst s))) \<and> NewEventStore readable_all True True (files (estore (fst s))) = Inr (estore (fst s))"

interpretation events: machine store_init store_step "\<lambda>s. store_inv (estore (fst s))"
proof unfold_locales
  fix s assume "store_init s"
  then have "well_named (files (estore (fst s)))"
      "estore (fst s) = \<lparr>files = files (estore (fst s)), backlogCount = countPendingOnDisk readable_all (files (estore (fst s)))\<rparr>"
    by (simp_all add: store_init_def NewEventStore_def)
  then show "store_inv (estore (fst s))" unfolding store_inv_def by (metis event_store.select_convs(2))
next
  fix s t assume "store_inv (estore (fst s))" "store_step s t"
  from this(2,1) show "store_inv (estore (fst t))"
  proof cases
    case (save e unreadable w sz now sv res st m)
    then show ?thesis using store_inv_save \<open>store_inv (estore (fst s))\<close> by auto
  next
    case (synced u unreadable sz now sv w res st m)
    then show ?thesis using store_inv_transition \<open>store_inv (estore (fst s))\<close>
      by (fastforce simp: MarkSynced_def SyncStatusSynced_def SyncStatusPending_def)
  next
    case (rejected u unreadable sz now sv reason w res st m)
    then show ?thesis using store_inv_transition \<open>store_inv (estore (fst s))\<close>
      by (fastforce simp: MarkQuarantined_def SyncStatusFailed_def SyncStatusPending_def)
  next
    case (sweep E now dk w m rep w' m')
    then show ?thesis using store_inv_sweep \<open>store_inv (estore (fst s))\<close> by fastforce
  next
    case (restart unreadable w mkdir_ok list_ok st m)
    then have "st = \<lparr>files = files (estore w), backlogCount = countPendingOnDisk unreadable (files (estore w))\<rparr>"
      by (auto simp: NewEventStore_def split: if_splits)
    then show ?thesis using \<open>store_inv (estore (fst s))\<close> restart count_readable [OF restart(3)] by (simp add: store_inv_def)
  qed auto
qed



text \<open>Why the reads must succeed. A restart that cannot read the file of a pending event leaves it out of the counter.\<close>

theorem unreadable_restart_undercounts:
  assumes "f \<in> set tr" "is_pending readable_all f" "unreadable (fst f)" "NewEventStore unreadable True True tr = Inr s"
  shows "backlogCount s < countPendingOnDisk readable_all (files s)"
proof -
  have "filter (is_pending unreadable) tr = filter (\<lambda>x. \<not> unreadable (fst x)) (filter (is_pending readable_all) tr)"
    by (auto simp: is_pending_readable [of unreadable] intro: filter_cong)
  then have "length (filter (is_pending unreadable) tr) < length (filter (is_pending readable_all) tr)"
    using length_filter_less [of f "filter (is_pending readable_all) tr" "\<lambda>x. \<not> unreadable (fst x)"] assms(1-3) by simp
  then show ?thesis using assms(4) by (auto simp: NewEventStore_def countPendingOnDisk_def)
qed

text \<open>A retried save that cannot read the event's own file writes it again and counts it twice.\<close>

theorem unreadable_save_overcounts:
  assumes "store_inv s" "eventUUIDPattern (EventUUID e)" "SyncStatus e = SyncStatusPending"
    and "map_of (files s) (json_name (EventUUID e)) = Some node" "is_pending readable_all (json_name (EventUUID e), node)"
    and "unreadable (json_name (EventUUID e))"
  shows "\<exists>s'. EventStore_Save unreadable sz now None e s = (None, s') \<and> backlogCount s' = countPendingOnDisk readable_all (files s') + 1"
proof -
  let ?n = "json_name (EventUUID e)"
  let ?s = "s\<lparr>files := AList.update ?n (event_node sz now e) (files s), backlogCount := backlogCount s + 1\<rparr>"
  have d: "distinct (map fst (files s))" using assms(1) by (simp add: store_inv_def well_named_def)
  have "EventUUID e \<noteq> ''''" using assms(2) by (auto simp: eventUUIDPattern_def)
  then have "EventStore_Save unreadable sz now None e s = (None, ?s)"
    using assms(3,4,6) by (simp add: EventStore_Save_def Let_def read_event_def)
  moreover have "backlogCount ?s = countPendingOnDisk readable_all (files ?s) + 1"
    using assms(1,3-5) count_update [OF d, of ?n] pend_event_node [OF uuid_shape(3) [OF assms(2)]]
    by (simp add: store_inv_def pend_def)
  ultimately show ?thesis by blast
qed

text \<open>Why a sweep is one step. \<open>sweepEvents\<close> reads the statuses and evicts later, without holding the store's lock in
  between: when an event is marked synchronised after its status was read, evicting it counts it off again.\<close>

theorem stale_eviction_undercounts:
  assumes "store_inv s" "eventUUIDPattern u" "MarkSynced unreadable sz now sv u s = (None, s1)"
    and "Store_Evict E u True (s1, out) = (None, s2, out')"
  shows "backlogCount s2 = countPendingOnDisk readable_all (files s2) - 1"
proof -
  have i: "store_inv s1"
    using store_inv_transition [OF assms(1) _ assms(2)] assms(3)
    by (fastforce simp: MarkSynced_def SyncStatusSynced_def SyncStatusPending_def)
  have d: "distinct (map fst (files s1))" using i by (simp add: store_inv_def well_named_def)
  have "pend (json_name u) (map_of (files s1) (json_name u)) = 0"
    using assms(3) pend_event_node [OF uuid_shape(3) [OF assms(2)]]
    by (auto simp: MarkSynced_def transitionLocked_def Let_def update_conv' SyncStatusSynced_def SyncStatusPending_def
        split: option.splits if_splits fbody.splits)
  then show ?thesis using assms(4) i uuid_shape(2) [OF assms(2)] count_delete [OF d, of "json_name u"]
    by (auto simp: Store_Evict_def Let_def store_inv_def split: if_splits)
qed

section \<open>Saturation\<close>

text \<open>When the protected candidates alone fill the count bound, every other candidate is evicted, the newest included.\<close>

lemma saturated_plan:
  assumes "0 < maxCount" "maxCount \<le> int (length (filter protected cs))" "c \<in> set cs" "\<not> protected c"
  shows "c \<in> set (planEviction cs now maxCount maxBytes maxAge)"
proof -
  let ?old = "unexpired now maxAge cs"
  obtain n where n: "planEviction cs now maxCount maxBytes maxAge =
         filter (too_old now maxAge) cs @ filter (\<lambda>c. \<not> protected c) (take n ?old)"
      "n = length ?old \<or> \<not> over maxCount maxBytes (left_after n ?old)"
    using plan_split by blast
  have "c \<in> set (take n ?old)" if "\<not> too_old now maxAge c"
  proof (rule ccontr)
    assume c: "c \<notin> set (take n ?old)"
    have "c \<in> set ?old" using that assms(3) by (simp add: unexpired_def)
    then have "c \<in> set (drop n ?old)" "n \<noteq> length ?old" using c by (metis append_take_drop_id set_append Un_iff, auto)
    then have "\<not> over maxCount maxBytes (left_after n ?old)" using n(2) by blast
    moreover have "filter protected ?old = filter protected cs"
      unfolding unexpired_def by (auto simp: too_old_def intro: filter_cong [OF refl])
    then have "length (filter protected (take n ?old)) + length (filter protected (drop n ?old)) = length (filter protected cs)"
      by (metis append_take_drop_id filter_append length_append)
    moreover have "length (filter protected (drop n ?old)) < length (drop n ?old)"
      using length_filter_less [of c "drop n ?old" protected] \<open>c \<in> set (drop n ?old)\<close> assms(4) by blast
    ultimately show False using assms(1,2) by (simp add: over_def left_after_def)
  qed
  then show ?thesis using n(1) assms(3,4) by auto
qed

definition no_faults_fs :: fs_env where
  "no_faults_fs = \<lparr>list_fails = \<lambda>_. False, lstat_fails = \<lambda>_ _. False, read_fails = \<lambda>_ _. False, remove_fails = \<lambda>_ _. False,
     outside_fails = \<lambda>_. False\<rparr>"

lemma evict_all:
  assumes "\<not> sw_stopped s" "\<And>c. c \<in> set cs \<Longrightarrow> proper c \<and> map_of (files (sw_store s)) (cpath c) \<noteq> None"
    and "distinct (map cpath cs)" "c \<in> set cs" "cpath c \<in> set evictSet"
  shows "gone (evict_events no_faults_fs evictSet cs s) (cpath c)"
  using assms
proof (induction cs arbitrary: s)
  case (Cons x xs)
  let ?s = "evict_one no_faults_fs evictSet x s"
  have x: "proper x" "map_of (files (sw_store s)) (cpath x) \<noteq> None" using Cons.prems(2) by auto
  have st: "\<not> sw_stopped ?s" using Cons.prems(1) x
    by (auto simp: evict_one_def survive_def Store_Evict_def Let_def proper_def no_faults_fs_def split: if_splits)
  have rest: "proper y \<and> map_of (files (sw_store ?s)) (cpath y) \<noteq> None" if "y \<in> set xs" for y
    using evict_one_effect(1) [OF x(1), of no_faults_fs evictSet s "cpath y"] Cons.prems(2,3) that
    by (auto simp: image_iff)
  show ?case
  proof (cases "c = x")
    case True
    then have "gone ?s (cpath x)" using Cons.prems(1,5) x
      by (auto simp: evict_one_def Store_Evict_def Let_def proper_def no_faults_fs_def gone_def delete_conv')
    then show ?thesis
      using evict_events_effect [of xs no_faults_fs evictSet ?s "cpath x"] rest True
      by (auto simp: evict_events_Cons gone_def)
  next
    case False
    then show ?thesis using Cons.IH [OF st rest] Cons.prems(3-5) by (simp add: evict_events_Cons)
  qed
qed simp

end
