(* ===== verification/FullEdge_Dedup.thy ===== *)
theory FullEdge_Dedup
  imports FullEdge
begin

text \<open>
  The deduper: it always returns and stays within its bound, and on detections with a tracker identity it
  implements a table of last sightings.
\<close>

section \<open>The table of tracks\<close>

definition total_tracks :: "deduper \<Rightarrow> nat" where
  "total_tracks d = (\<Sum>(k, ts) \<leftarrow> tracks d. length ts)"

definition all_tracks :: "deduper \<Rightarrow> dedup_track set" where
  "all_tracks d = (\<Union>(k, ts) \<in> set (tracks d). set ts)"

definition dedup_inv :: "deduper \<Rightarrow> bool" where
  "dedup_inv d \<longleftrightarrow>
     distinct (map fst (tracks d)) \<and> ntracks d = int (total_tracks d) \<and> 0 \<le> maxTracks d \<and>
     (\<forall>t \<in> all_tracks d. tframe t \<le> dround d)"

lemma dedup_inv_new: "dedup_inv (NewDeduper g i m)"
  by (simp add: dedup_inv_def NewDeduper_def total_tracks_def all_tracks_def DefaultDedupMaxTracks_def)

lemma sum_list_update_alist:
  assumes "distinct (map fst xs)"
  shows "(\<Sum>(k, ts) \<leftarrow> AList.update k ys xs. length ts) + length (case map_of xs k of None \<Rightarrow> [] | Some ts \<Rightarrow> ts)
    = (\<Sum>(k, ts) \<leftarrow> xs. length ts) + length ys"
  using assms by (induction xs) (auto split: option.splits)

lemma sum_list_delete_alist:
  assumes "distinct (map fst xs)"
  shows "(\<Sum>(k, ts) \<leftarrow> AList.delete k xs. length ts) + length (case map_of xs k of None \<Rightarrow> [] | Some ts \<Rightarrow> ts)
    = (\<Sum>(k, ts) \<leftarrow> xs. length ts)"
proof (use assms in \<open>induction xs\<close>)
  case (Cons x xs)
  have "AList.delete (fst x) xs = xs" using Cons(2)
    by (auto simp: AList.delete_eq filter_id_conv image_iff)
  moreover have "map_of xs (fst x) = None" using Cons(2) by (simp add: map_of_eq_None_iff)
  ultimately show ?case using Cons by (cases x) (auto split: option.splits)
qed simp

lemma total_set_tracks:
  "distinct (map fst (tracks d)) \<Longrightarrow>
   total_tracks (set_tracks k ys d) + length (tracks_of d k) = total_tracks d + length ys"
  using sum_list_update_alist [of "tracks d" k ys] sum_list_delete_alist [of "tracks d" k]
  by (auto simp: total_tracks_def set_tracks_def tracks_of_def)

lemma distinct_set_tracks:
  "distinct (map fst (tracks d)) \<Longrightarrow> distinct (map fst (tracks (set_tracks k ys d)))"
  by (auto simp: set_tracks_def distinct_update distinct_delete)

lemma tracks_of_set_tracks: 
  "distinct (map fst (tracks d)) \<Longrightarrow> tracks_of (set_tracks k ys d) k' = (if k' = k then ys else tracks_of d k')"
  by (auto simp: tracks_of_def set_tracks_def update_conv' delete_conv' split: option.splits)

lemma all_tracks_iff:
  assumes "distinct (map fst (tracks d))"
  shows "t \<in> all_tracks d \<longleftrightarrow> (\<exists>k. t \<in> set (tracks_of d k))"
proof
  assume "t \<in> all_tracks d"
  then obtain k ts where "(k, ts) \<in> set (tracks d)" "t \<in> set ts" by (auto simp: all_tracks_def)
  then have "t \<in> set (tracks_of d k)" using map_of_is_SomeI [OF assms] by (simp add: tracks_of_def)
  then show "\<exists>k. t \<in> set (tracks_of d k)" by blast
next
  assume "\<exists>k. t \<in> set (tracks_of d k)"
  then obtain k where k: "t \<in> set (tracks_of d k)" by blast
  then obtain ts where "map_of (tracks d) k = Some ts" "t \<in> set ts"
    by (cases "map_of (tracks d) k") (simp_all add: tracks_of_def)
  then show "t \<in> all_tracks d" using map_of_SomeD unfolding all_tracks_def by fastforce
qed

lemma frame_bound:
  assumes "dedup_inv d" "t \<in> set (tracks_of d k)"
  shows "tframe t \<le> dround d"
proof -
  have "t \<in> all_tracks d" using all_tracks_iff [of d, THEN iffD2] assms unfolding dedup_inv_def by metis
  then show ?thesis using assms(1) by (simp add: dedup_inv_def)
qed

lemma total_zero: "total_tracks d = 0 \<longleftrightarrow> (\<forall>(k, ts) \<in> set (tracks d). ts = [])"
  by (auto simp: total_tracks_def)

lemma set_tracks_sel [simp]:
  "gap (set_tracks k ys d) = gap d" "minIoU (set_tracks k ys d) = minIoU d"
  "maxTracks (set_tracks k ys d) = maxTracks d" "ntracks (set_tracks k ys d) = ntracks d"
  "dround (set_tracks k ys d) = dround d"
  by (simp_all add: set_tracks_def)

lemma sel_upd [simp]:
  "tracks_of (d\<lparr>ntracks := n\<rparr>) k = tracks_of d k" "total_tracks (d\<lparr>ntracks := n\<rparr>) = total_tracks d"
  "all_tracks (d\<lparr>ntracks := n\<rparr>) = all_tracks d" "tracks_of (d\<lparr>dround := r\<rparr>) k = tracks_of d k"
  "total_tracks (d\<lparr>dround := r\<rparr>) = total_tracks d" "all_tracks (d\<lparr>dround := r\<rparr>) = all_tracks d"
  by (simp_all add: tracks_of_def total_tracks_def all_tracks_def)

text \<open>Replacing the tracks of a key.\<close>

lemma dedup_inv_replace:
  assumes "dedup_inv d" "\<And>t. t \<in> set ys \<Longrightarrow> tframe t \<le> dround d"
    and "n = ntracks d + int (length ys) - int (length (tracks_of d k))"
  shows "dedup_inv (set_tracks k ys d\<lparr>ntracks := n\<rparr>)"
proof -
  have d: "distinct (map fst (tracks d))" using assms(1) by (simp add: dedup_inv_def)
  have "tframe t \<le> dround d" if t: "t \<in> all_tracks (set_tracks k ys d)" for t
  proof -
    obtain k' where "t \<in> set (tracks_of (set_tracks k ys d) k')"
      using all_tracks_iff [OF distinct_set_tracks [OF d], THEN iffD1, OF t] by metis
    then have "t \<in> set ys \<or> t \<in> set (tracks_of d k')"
      using tracks_of_set_tracks [OF d, of k ys k'] by (cases "k' = k") simp_all
    then have "t \<in> set ys \<or> t \<in> all_tracks d" using all_tracks_iff [OF d, THEN iffD2] by metis
    then show ?thesis using assms(1,2) by (auto simp: dedup_inv_def)
  qed
  moreover have "n = int (total_tracks (set_tracks k ys d))"
    using assms(1,3) total_set_tracks [OF d, of k ys] by (simp add: dedup_inv_def)
  ultimately show ?thesis using assms(1) distinct_set_tracks [OF d] by (simp add: dedup_inv_def)
qed

section \<open>Expiry\<close>

lemma lookup_expire:
  assumes "distinct (map fst xs)" "\<And>k. f k [] = []"
  shows "(case map_of (filter (\<lambda>(k, ts). ts \<noteq> []) (map (\<lambda>(k, ts). (k, f k ts)) xs)) k of None \<Rightarrow> [] | Some ts \<Rightarrow> ts)
    = f k (case map_of xs k of None \<Rightarrow> [] | Some ts \<Rightarrow> ts)"
  using assms(1)
proof (induction xs)
  case Nil
  then show ?case using assms(2) by simp
next
  case (Cons x xs)
  obtain j ts where x: "x = (j, ts)" by (cases x)
  have IH: "(case map_of (filter (\<lambda>(k, ts). ts \<noteq> []) (map (\<lambda>(k, ts). (k, f k ts)) xs)) k of None \<Rightarrow> [] | Some ts \<Rightarrow> ts)
    = f k (case map_of xs k of None \<Rightarrow> [] | Some ts \<Rightarrow> ts)"
    by (rule Cons.IH) (use Cons.prems in simp)
  have "map_of xs j = None" using Cons.prems x by (simp add: map_of_eq_None_iff)
  then show ?case using IH assms(2) by (cases "k = j") (simp_all add: x)
qed

lemma tracks_of_expire:
  assumes "distinct (map fst (tracks d))"
  shows "tracks_of (expireLocked camera tm wall d) k = filter (alive d camera tm wall k) (tracks_of d k)"
  using lookup_expire [OF assms, of "\<lambda>k. filter (alive d camera tm wall k)" k]
  by (simp add: tracks_of_def expireLocked_def)

lemma dedup_inv_expire:
  assumes "dedup_inv d"
  shows "dedup_inv (expireLocked camera tm wall d)"
proof -
  let ?f = "\<lambda>k. filter (alive d camera tm wall k)"
  have "distinct (map fst (tracks (expireLocked camera tm wall d)))"
  proof -
    have "distinct (map fst (filter P (map (\<lambda>(k, ts). (k, ?f k ts)) xs)))" if "distinct (map fst xs)" for P xs
      using that by (induction xs) (force simp: image_iff)+
    then show ?thesis using assms by (simp add: dedup_inv_def expireLocked_def)
  qed
  moreover have "int (total_tracks (expireLocked camera tm wall d)) = ntracks (expireLocked camera tm wall d)"
  proof -
    have "int (\<Sum>(k, ts) \<leftarrow> filter (\<lambda>(k, ts). ts \<noteq> []) (map (\<lambda>(k, ts). (k, ?f k ts)) xs). length ts)
        = int (\<Sum>(k, ts) \<leftarrow> xs. length ts) - (\<Sum>(k, ts) \<leftarrow> xs. int (length ts) - int (length (?f k ts)))" for xs
      by (induction xs) auto
    then show ?thesis using assms by (simp add: dedup_inv_def total_tracks_def expireLocked_def)
  qed
  moreover have "all_tracks (expireLocked camera tm wall d) \<subseteq> all_tracks d"
  proof
    fix t assume "t \<in> all_tracks (expireLocked camera tm wall d)"
    then obtain k where "t \<in> set (tracks_of (expireLocked camera tm wall d) k)"
      using all_tracks_iff [OF calculation(1), THEN iffD1] by metis
    then have "t \<in> set (tracks_of d k)" using tracks_of_expire assms by (simp add: dedup_inv_def)
    then show "t \<in> all_tracks d" using all_tracks_iff [of d, THEN iffD2] assms unfolding dedup_inv_def by metis
  qed
  ultimately show ?thesis using assms by (auto simp: dedup_inv_def expireLocked_def)
qed

section \<open>Eviction\<close>

text \<open>Go ranges over every key of the map exactly once, in some order.\<close>

definition ranges_over_map :: "(deduper \<Rightarrow> dedup_key list) \<Rightarrow> bool" where
  "ranges_over_map iter \<longleftrightarrow> (\<forall>d. set (iter d) = fst ` set (tracks d))"

lemma oldest_track_mem:
  "oldest_track best xs = Some x \<Longrightarrow> x \<in> set xs \<or> best = Some x"
proof (induction xs arbitrary: best)
  case (Cons y xs)
  obtain k i t where y: "y = (k, i, t)" by (cases y)
  show ?case
  proof (cases best)
    case None
    then show ?thesis using Cons.IH [of "Some y"] Cons.prems y by auto
  next
    case (Some z)
    then show ?thesis using Cons.IH [of "Some y"] Cons.IH [of best] Cons.prems y by (cases z) (auto split: if_splits)
  qed
qed simp

lemma oldest_track_some: "best \<noteq> None \<or> xs \<noteq> [] \<Longrightarrow> oldest_track best xs \<noteq> None"
proof (induction xs arbitrary: best)
  case (Cons x xs)
  then show ?case by (cases x) (auto split: option.splits)
qed simp

lemma set_scan_order:
  "(k, i, t) \<in> set (scan_order d ks) \<longleftrightarrow> k \<in> set ks \<and> i < length (tracks_of d k) \<and> t = tracks_of d k ! i"
proof -
  have "(k, i, t) \<in> set (scan_order d ks) \<longleftrightarrow> k \<in> set ks \<and> (i, t) \<in> set (enumerate 0 (tracks_of d k))"
    unfolding scan_order_def by force
  then show ?thesis by (auto simp: in_set_enumerate_eq)
qed

lemma evictOldest_inv:
  assumes "dedup_inv d" "ranges_over_map iter" "0 < ntracks d"
  shows "dedup_inv (evictOldestLocked iter d) \<and> ntracks (evictOldestLocked iter d) = ntracks d - 1
    \<and> maxTracks (evictOldestLocked iter d) = maxTracks d \<and> dround (evictOldestLocked iter d) = dround d
    \<and> gap (evictOldestLocked iter d) = gap d"
proof -
  have d: "distinct (map fst (tracks d))" using assms(1) by (simp add: dedup_inv_def)
  have "total_tracks d \<noteq> 0" using assms(1,3) by (simp add: dedup_inv_def)
  then obtain k ts where "(k, ts) \<in> set (tracks d)" "ts \<noteq> []" using total_zero [of d] by auto
  then have "k \<in> set (iter d)" "tracks_of d k \<noteq> []"
    using assms(2) map_of_is_SomeI [OF d] by (force simp: ranges_over_map_def image_iff, simp add: tracks_of_def)
  then have "(k, 0, tracks_of d k ! 0) \<in> set (scan_order d (iter d))" by (simp add: set_scan_order)
  then have "scan_order d (iter d) \<noteq> []" by auto
  then obtain j i t where o: "oldest_track None (scan_order d (iter d)) = Some (j, i, t)"
    using oldest_track_some [of None "scan_order d (iter d)"] by auto
  then have i: "i < length (tracks_of d j)" using oldest_track_mem [OF o] by (simp add: set_scan_order)
  let ?ys = "take i (tracks_of d j) @ drop (Suc i) (tracks_of d j)"
  have "dedup_inv (set_tracks j ?ys d\<lparr>ntracks := ntracks d - 1\<rparr>)"
  proof (rule dedup_inv_replace [OF assms(1)])
    fix t assume "t \<in> set ?ys"
    then have "t \<in> set (tracks_of d j)" by (auto dest: in_set_takeD in_set_dropD)
    then show "tframe t \<le> dround d" by (rule frame_bound [OF assms(1)])
  qed (use i in simp)
  then show ?thesis using o by (simp add: evictOldestLocked_def Let_def)
qed

lemma evict_loop_returns:
  assumes "dedup_inv d" "ranges_over_map iter"
  shows "\<exists>d'. evict_loop iter d = Some d' \<and> dedup_inv d' \<and> ntracks d' \<le> maxTracks d' \<and> dround d' = dround d
    \<and> maxTracks d' = maxTracks d \<and> gap d' = gap d"
  using assms
proof (induction "nat (ntracks d - maxTracks d)" arbitrary: d rule: less_induct)
  case less
  show ?case
  proof (cases "ntracks d > maxTracks d")
    case True
    moreover have "0 \<le> maxTracks d" using less.prems(1) by (simp add: dedup_inv_def)
    ultimately have e: "dedup_inv (evictOldestLocked iter d)" "ntracks (evictOldestLocked iter d) = ntracks d - 1"
        "maxTracks (evictOldestLocked iter d) = maxTracks d" "dround (evictOldestLocked iter d) = dround d"
        "gap (evictOldestLocked iter d) = gap d"
      using evictOldest_inv [OF less.prems] by auto
    then have "nat (ntracks (evictOldestLocked iter d) - maxTracks (evictOldestLocked iter d)) < nat (ntracks d - maxTracks d)"
      using True by simp
    from less.hyps [OF this e(1) less.prems(2)] e True show ?thesis by (simp add: evict_loop.simps [of iter d])
  next
    case False
    then show ?thesis using less.prems(1) by (simp add: evict_loop.simps [of iter d])
  qed
qed

section \<open>Admission\<close>

lemma match_loop_bound:
  "match_loop rnd det i best b ts = Some j \<Longrightarrow> best = Some j \<or> i \<le> j \<and> j < i + length ts"
  by (induction rnd det i best b ts rule: match_loop.induct) (fastforce simp: Let_def split: if_splits option.splits)+

lemma matchLocked_bound: "matchLocked d k det rnd = Some i \<Longrightarrow> i < length (tracks_of d k)"
  using match_loop_bound [of rnd det 0 None "minIoU d" "tracks_of d k" i] by (simp add: matchLocked_def)

lemma admit_loop_inv:
  assumes "dedup_inv d" "admit_loop camera tm wall dets d = (out, d')"
  shows "dedup_inv d' \<and> length out = length dets \<and> dround d' = dround d \<and> maxTracks d' = maxTracks d \<and> gap d' = gap d
    \<and> ntracks d' = ntracks d + int (length (filter id out))"
  using assms
proof (induction camera tm wall dets d arbitrary: out d' rule: admit_loop.induct)
  case (2 camera tm wall det dets d)
  let ?k = "(camera, detectionClass det)"
  have old: "tframe t \<le> dround d" if "t \<in> set (tracks_of d ?k)" for t
    by (rule frame_bound [OF 2(3) that])
  show ?case
  proof (cases "matchLocked d ?k det (dround d)")
    case None
    let ?d = "set_tracks ?k (tracks_of d ?k @ [new_track det tm wall (dround d)]) d\<lparr>ntracks := ntracks d + 1\<rparr>"
    obtain o1 d1 where a: "admit_loop camera tm wall dets ?d = (o1, d1)" by fastforce
    have "dedup_inv ?d" by (rule dedup_inv_replace [OF 2(3)]) (use old in \<open>auto simp: new_track_def\<close>)
    from 2(1) [OF refl refl None this a] show ?thesis using 2(4) None a by (auto simp: Let_def)
  next
    case (Some i)
    let ?t = "(tracks_of d ?k ! i)\<lparr>tbbox := BBox det, lastSeen := tm, seenWall := wall, tframe := dround d\<rparr>"
    let ?d = "set_tracks ?k ((tracks_of d ?k)[i := ?t]) d"
    obtain o1 d1 where a: "admit_loop camera tm wall dets ?d = (o1, d1)" by fastforce
    have "dedup_inv (?d\<lparr>ntracks := ntracks d\<rparr>)"
      by (rule dedup_inv_replace [OF 2(3)]) (use old in \<open>auto dest!: subsetD [OF set_update_subset_insert]\<close>)
    moreover have "?d\<lparr>ntracks := ntracks d\<rparr> = ?d" by (simp add: set_tracks_def)
    ultimately have "dedup_inv ?d" by simp
    from 2(2) [OF refl refl Some this a] show ?thesis using 2(4) Some a by (auto simp: Let_def)
  qed
qed simp

lemma dedup_inv_round:
  "dedup_inv d \<Longrightarrow> dround d + 1 < 2 ^ 64 \<Longrightarrow> dedup_inv (d\<lparr>dround := wrap_u64 (dround d + 1)\<rparr>)"
  by (auto simp: dedup_inv_def total_tracks_def intro: le_SucI)

lemma expire_sel [simp]:
  "gap (expireLocked camera tm wall d) = gap d" "dround (expireLocked camera tm wall d) = dround d"
  "maxTracks (expireLocked camera tm wall d) = maxTracks d"
  by (simp_all add: expireLocked_def)

lemma admit_inv:
  assumes "dedup_inv d" "dround d + 1 < 2 ^ 64" "ranges_over_map iter"
  shows "\<exists>out d'. Admit iter wall camera tm dets d = Some (out, d') \<and> length out = length dets \<and> dedup_inv d'
    \<and> ntracks d' \<le> maxTracks d' \<and> maxTracks d' = maxTracks d \<and> gap d' = gap d"
proof -
  let ?d = "expireLocked camera tm wall (d\<lparr>dround := wrap_u64 (dround d + 1)\<rparr>)"
  obtain out d1 where a: "admit_loop camera tm wall dets ?d = (out, d1)" by fastforce
  note i = admit_loop_inv [OF dedup_inv_expire [OF dedup_inv_round [OF assms(1,2)]] a]
  from evict_loop_returns [OF _ assms(3), of d1] i obtain d2 where e: "evict_loop iter d1 = Some d2" "dedup_inv d2"
      "ntracks d2 \<le> maxTracks d2" "maxTracks d2 = maxTracks d" "gap d2 = gap d" by auto
  then have "Admit iter wall camera tm dets d = Some (out, d2)" using a by (simp add: Admit_def)
  then show ?thesis using e i by auto
qed

text \<open>The deduper from its construction on: any frames of any cameras.\<close>

inductive dedup_step :: "(deduper \<Rightarrow> dedup_key list) \<Rightarrow> deduper \<Rightarrow> deduper \<Rightarrow> bool" for iter where
  admit_frame: "dround d + 1 < 2 ^ 64 \<Longrightarrow> Admit iter wall camera tm dets d = Some (out, d') \<Longrightarrow> dedup_step iter d d'"

lemma admit_step_inv:
  assumes "dedup_step iter d d'" "ranges_over_map iter" "dedup_inv d"
  shows "dedup_inv d' \<and> gap d' = gap d \<and> maxTracks d' = maxTracks d"
  using assms(1)
proof cases
  case (admit_frame wall camera tm dets out)
  then show ?thesis using admit_inv [OF assms(3) admit_frame(1) assms(2), of wall camera tm dets] by auto
qed

interpretation dedup: machine "\<lambda>d. \<exists>i. d = NewDeduper g i m" "dedup_step iter"
  "\<lambda>d. ranges_over_map iter \<longrightarrow> dedup_inv d \<and> gap d = gap (NewDeduper g 0 m) \<and> maxTracks d = maxTracks (NewDeduper 0 0 m)"
  for g m iter
proof unfold_locales
  fix d assume "\<exists>i. d = NewDeduper g i m"
  then show "ranges_over_map iter \<longrightarrow> dedup_inv d \<and> gap d = gap (NewDeduper g 0 m) \<and> maxTracks d = maxTracks (NewDeduper 0 0 m)"
    using dedup_inv_new by (auto simp: NewDeduper_def)
next
  fix d d'
  assume "ranges_over_map iter \<longrightarrow> dedup_inv d \<and> gap d = gap (NewDeduper g 0 m) \<and> maxTracks d = maxTracks (NewDeduper 0 0 m)"
    and "dedup_step iter d d'"
  then show "ranges_over_map iter \<longrightarrow> dedup_inv d' \<and> gap d' = gap (NewDeduper g 0 m) \<and> maxTracks d' = maxTracks (NewDeduper 0 0 m)"
    using admit_step_inv by metis
qed

text \<open>C13. The eviction loop of \<open>Admit\<close> ends. In every state a deduper reaches over any frames of any cameras, \<open>Admit\<close>
  returns, whatever the detections and the order in which Go ranges over its map: it answers once per
  detection, the counter equals the number of tracks held, and it is within the configured maximum (512 if
  none is configured).\<close>

theorem dedup_admit_returns:
  assumes "ranges_over_map iter" "(dedup_step iter)\<^sup>*\<^sup>* (NewDeduper g i m) d" "dround d + 1 < 2 ^ 64"
  shows "\<exists>out d'. Admit iter wall camera tm dets d = Some (out, d') \<and> length out = length dets
    \<and> ntracks d' = int (total_tracks d') \<and> ntracks d' \<le> (if m \<le> 0 then 512 else m)"
proof -
  have "dedup_inv d \<and> maxTracks d = maxTracks (NewDeduper 0 0 m)"
    using dedup.invar_reachable [OF _ assms(2), of g m] assms(1) by blast
  with admit_inv [OF _ assms(3,1), of wall camera tm dets] show ?thesis
    by (auto simp: dedup_inv_def NewDeduper_def DefaultDedupMaxTracks_def)
qed

section \<open>Tracked objects\<close>

text \<open>What the table knows of a tracker identity: the instants of its last sighting.\<close>

definition sightings :: "deduper \<Rightarrow> string \<times> string \<times> int \<Rightarrow> (gotime \<times> gotime) option" where
  "sightings d k =
     (case k of (cam, cls, i) \<Rightarrow>
        map_option (\<lambda>t. (lastSeen t, seenWall t)) (List.find (\<lambda>t. hasID t \<and> trackID t = i) (tracks_of d (cam, cls))))"

definition unique_ids :: "dedup_track list \<Rightarrow> bool" where
  "unique_ids ts \<longleftrightarrow> distinct (map trackID (filter hasID ts))"

definition det_key :: "string \<Rightarrow> local_detection \<Rightarrow> string \<times> string \<times> int" where
  "det_key camera det = (camera, detectionClass det, the (TrackID det))"

text \<open>The specification: a sighting is forgotten when its camera's frames, or for another camera the clock, have
  moved past the gap; a detection starts an event exactly when its identity is not in the table.\<close>

definition spec_expire :: "duration \<Rightarrow> string \<Rightarrow> gotime \<Rightarrow> gotime \<Rightarrow> (string \<times> string \<times> int \<Rightarrow> (gotime \<times> gotime) option)
    \<Rightarrow> string \<times> string \<times> int \<Rightarrow> (gotime \<times> gotime) option" where
  "spec_expire g camera tm wall m k =
     (case m k of
        None \<Rightarrow> None
      | Some (l, w) \<Rightarrow> if (if fst k = camera then time_sub tm l \<le> g else time_sub wall w \<le> g) then Some (l, w) else None)"

definition spec_admit :: "duration \<Rightarrow> gotime \<Rightarrow> string \<Rightarrow> gotime \<Rightarrow> local_detection list
    \<Rightarrow> (string \<times> string \<times> int \<Rightarrow> (gotime \<times> gotime) option) \<Rightarrow> bool list \<times> (string \<times> string \<times> int \<Rightarrow> (gotime \<times> gotime) option)" where
  "spec_admit g wall camera tm dets m =
     (let m0 = spec_expire g camera tm wall m
      in (map (\<lambda>det. m0 (det_key camera det) = None) dets,
          \<lambda>k. if k \<in> det_key camera ` set dets then Some (tm, wall) else m0 k))"

lemma find_filter_unique:
  assumes "unique_ids ts"
  shows "List.find (\<lambda>t. hasID t \<and> trackID t = i) (filter P ts) =
    (case List.find (\<lambda>t. hasID t \<and> trackID t = i) ts of None \<Rightarrow> None | Some t \<Rightarrow> if P t then Some t else None)"
  using assms
proof (induction ts)
  case (Cons t ts)
  have u: "unique_ids ts" using Cons.prems by (auto simp: unique_ids_def split: if_splits)
  have "List.find (\<lambda>t. hasID t \<and> trackID t = i) (filter P ts) = None" if "hasID t" "trackID t = i"
    using that Cons.prems by (fastforce simp: unique_ids_def find_None_iff image_iff)
  then show ?case using Cons.IH [OF u] by auto
qed simp

lemma unique_ids_filter: "unique_ids ts \<Longrightarrow> unique_ids (filter P ts)"
proof -
  assume "unique_ids ts"
  moreover have "filter hasID (filter P ts) = filter P (filter hasID ts)" by (simp add: conj_commute)
  ultimately show ?thesis unfolding unique_ids_def by (metis distinct_map_filter)
qed

lemma sightings_expire:
  assumes "dedup_inv d" "\<And>k. unique_ids (tracks_of d k)"
  shows "sightings (expireLocked camera tm wall d) = spec_expire (gap d) camera tm wall (sightings d)"
proof
  fix k :: "string \<times> string \<times> int"
  obtain cam cls i where k: "k = (cam, cls, i)" by (cases k)
  show "sightings (expireLocked camera tm wall d) k = spec_expire (gap d) camera tm wall (sightings d) k"
    using assms tracks_of_expire [of d camera tm wall "(cam, cls)"]
    by (auto simp: k sightings_def spec_expire_def dedup_inv_def find_filter_unique alive_def split: option.splits)
qed

lemma match_loop_tracked:
  assumes "TrackID det = Some i"
  shows "match_loop rnd det n best b ts = best \<and> (\<forall>t \<in> set ts. hasID t \<and> trackID t = i \<longrightarrow> tframe t = rnd)
    \<or> (\<exists>j < length ts. match_loop rnd det n best b ts = Some (n + j) \<and> hasID (ts ! j) \<and> trackID (ts ! j) = i)"
proof (induction ts arbitrary: n)
  case (Cons t ts)
  show ?case
  proof (cases "tframe t \<noteq> rnd \<and> hasID t \<and> trackID t = i")
    case True
    then show ?thesis using assms by auto
  next
    case False
    then have e: "match_loop rnd det n best b (t # ts) = match_loop rnd det (n + 1) best b ts" using assms by auto
    from Cons [of "n + 1"] show ?thesis
    proof
      assume "\<exists>j < length ts. match_loop rnd det (n + 1) best b ts = Some (n + 1 + j) \<and> hasID (ts ! j) \<and> trackID (ts ! j) = i"
      then obtain j where "j < length ts" "match_loop rnd det (n + 1) best b ts = Some (n + Suc j)"
        "hasID (ts ! j)" "trackID (ts ! j) = i" by auto
      then show ?thesis using e by (intro disjI2 exI [of _ "Suc j"]) simp
    qed (use e False in auto)
  qed
qed simp


text \<open>One tracked detection: its identity is found iff it is in the table, and afterwards its sighting is the current
  one; every other identity keeps its sighting.\<close>

definition admit_one :: "string \<Rightarrow> gotime \<Rightarrow> gotime \<Rightarrow> local_detection \<Rightarrow> deduper \<Rightarrow> bool \<times> deduper" where
  "admit_one camera tm wall det d =
     (let k = (camera, detectionClass det); ts = tracks_of d k
      in case matchLocked d k det (dround d) of
           Some i \<Rightarrow> (False, set_tracks k (ts[i := (ts ! i)\<lparr>tbbox := BBox det, lastSeen := tm, seenWall := wall,
                                                     tframe := dround d\<rparr>]) d)
         | None \<Rightarrow> (True, set_tracks k (ts @ [new_track det tm wall (dround d)]) d\<lparr>ntracks := ntracks d + 1\<rparr>))"

lemma admit_loop_Cons:
  "admit_loop camera tm wall (det # dets) d =
     (case admit_one camera tm wall det d of (b, d1) \<Rightarrow>
        case admit_loop camera tm wall dets d1 of (out, d') \<Rightarrow> (b # out, d'))"
  by (simp add: admit_one_def Let_def split: option.splits prod.splits)

definition same_id :: "int \<Rightarrow> dedup_track \<Rightarrow> bool" where
  "same_id i t \<longleftrightarrow> hasID t \<and> trackID t = i"

lemma sightings_same_id: "sightings d (cam, cls, i) =
  map_option (\<lambda>t. (lastSeen t, seenWall t)) (List.find (same_id i) (tracks_of d (cam, cls)))"
  by (simp add: sightings_def same_id_def [abs_def])

lemma find_update_other:
  assumes "j < length ts" "\<not> P (ts ! j)" "\<not> P t"
  shows "List.find P (ts[j := t]) = List.find P ts"
  using assms by (induction ts arbitrary: j) (auto split: nat.splits)

lemma find_unique_update:
  assumes "unique_ids ts" "j < length ts" "same_id i (ts ! j)" "same_id i t"
  shows "List.find (same_id i) (ts[j := t]) = Some t"
  using assms
proof (induction ts arbitrary: j)
  case (Cons x xs)
  show ?case
  proof (cases j)
    case (Suc n)
    then have n: "n < length xs" "same_id i (xs ! n)" using Cons.prems by auto
    then have "xs ! n \<in> set (filter hasID xs)" "trackID (xs ! n) = i" by (auto simp: same_id_def)
    then have "\<not> same_id i x" using Cons.prems(1) by (auto simp: unique_ids_def same_id_def)
    moreover have "unique_ids xs" using Cons.prems(1) by (auto simp: unique_ids_def split: if_splits)
    ultimately show ?thesis using Cons.IH [of n] n Suc Cons.prems(4) by simp
  qed (use Cons.prems in simp)
qed simp

lemma unique_ids_update:
  assumes "unique_ids ts" "j < length ts" "hasID t = hasID (ts ! j)" "trackID t = trackID (ts ! j)"
  shows "unique_ids (ts[j := t])"
proof -
  have "map trackID (filter hasID (ts[j := t])) = map trackID (filter hasID ts)"
    using assms(2-4) by (induction ts arbitrary: j) (auto split: nat.splits)
  then show ?thesis using assms(1) by (simp add: unique_ids_def)
qed

lemma find_append: "List.find P (xs @ ys) = (case List.find P xs of None \<Rightarrow> List.find P ys | Some x \<Rightarrow> Some x)"
  by (induction xs) auto

lemma admit_one_tracked:
  assumes "dedup_inv d" "\<And>k. unique_ids (tracks_of d k)" "TrackID det = Some i"
    and "\<forall>t \<in> set (tracks_of d (camera, detectionClass det)). same_id i t \<longrightarrow> tframe t \<noteq> dround d"
    and "admit_one camera tm wall det d = (b, d1)"
  shows "b = (sightings d (det_key camera det) = None)"
    and "sightings d1 = (sightings d)(det_key camera det \<mapsto> (tm, wall))"
    and "unique_ids (tracks_of d1 k)" and "dround d1 = dround d"
    and "t \<in> set (tracks_of d1 k) \<Longrightarrow> \<not> (k = (camera, detectionClass det) \<and> same_id i t) \<Longrightarrow> t \<in> set (tracks_of d k)"
proof -
  let ?k = "(camera, detectionClass det)"
  let ?ts = "tracks_of d ?k"
  let ?m = "matchLocked d ?k det (dround d)"
  have dst: "distinct (map fst (tracks d))" using assms(1) by (simp add: dedup_inv_def)
  have key: "det_key camera det = (camera, detectionClass det, i)" using assms(3) by (simp add: det_key_def)
  obtain ys n where d1: "d1 = set_tracks ?k ys d\<lparr>ntracks := n\<rparr>" and b: "b \<longleftrightarrow> ?m = None"
    and ys: "ys = (case ?m of None \<Rightarrow> ?ts @ [new_track det tm wall (dround d)]
        | Some j \<Rightarrow> ?ts[j := (?ts ! j)\<lparr>tbbox := BBox det, lastSeen := tm, seenWall := wall, tframe := dround d\<rparr>])"
  proof (cases ?m)
    case None
    then show ?thesis using that [of "ntracks d + 1"] assms(5) by (simp add: admit_one_def Let_def)
  next
    case (Some j)
    then have e: "\<not> b" "d1 = set_tracks ?k (?ts[j := (?ts ! j)\<lparr>tbbox := BBox det, lastSeen := tm, seenWall := wall,
        tframe := dround d\<rparr>]) d" using assms(5) by (auto simp: admit_one_def Let_def)
    then have "d1 = d1\<lparr>ntracks := ntracks d\<rparr>" by (simp add: set_tracks_def)
    then show ?thesis using Some e by (intro that [of "ntracks d", OF _ _ refl]) simp_all
  qed
  have tr: "tracks_of d1 k = (if k = ?k then ys else tracks_of d k)" for k
    using tracks_of_set_tracks [OF dst] by (simp add: d1)
  have m: "?m = None \<and> List.find (same_id i) ?ts = None
      \<or> (\<exists>j < length ?ts. ?m = Some j \<and> same_id i (?ts ! j))"
    using match_loop_tracked [OF assms(3), of "dround d" 0 None "minIoU d" ?ts] assms(4)
    unfolding matchLocked_def same_id_def find_None_iff by auto
  have f: "List.find (same_id i) ys = Some t \<Longrightarrow> lastSeen t = tm \<and> seenWall t = wall" for t
    using m by (auto simp: ys find_append find_unique_update [OF assms(2)] new_track_def same_id_def assms(3))
  have s: "List.find (same_id i) ys \<noteq> None"
    using m by (auto simp: ys find_append find_unique_update [OF assms(2)] new_track_def same_id_def assms(3))
  have o: "List.find (same_id i') ys = List.find (same_id i') ?ts" if "i' \<noteq> i" for i'
    using m that by (auto simp: ys find_append find_update_other new_track_def same_id_def assms(3) split: option.splits)
  show "b = (sightings d (det_key camera det) = None)"
    using m b by (auto simp: key sightings_same_id find_None_iff)
  show "sightings d1 = (sightings d)(det_key camera det \<mapsto> (tm, wall))"
  proof
    fix x :: "string \<times> string \<times> int"
    obtain cam cls i' where x: "x = (cam, cls, i')" by (cases x)
    show "sightings d1 x = ((sightings d)(det_key camera det \<mapsto> (tm, wall))) x"
      using tr [of "(cam, cls)"] f s o by (auto simp: x key sightings_same_id)
  qed
  show "unique_ids (tracks_of d1 k)"
    using m assms(2) by (auto simp: tr ys unique_ids_update same_id_def assms(3) new_track_def find_None_iff
        unique_ids_def [of "_ @ _"] unique_ids_def [symmetric])
  show "dround d1 = dround d" by (simp add: d1)
  show "t \<in> set (tracks_of d k)" if "t \<in> set (tracks_of d1 k)" "\<not> (k = ?k \<and> same_id i t)"
    using that m by (auto simp: tr ys new_track_def same_id_def assms(3) split: if_splits
        dest!: subsetD [OF set_update_subset_insert])
qed


lemma admit_one_inv:
  "dedup_inv d \<Longrightarrow> admit_one camera tm wall det d = (b, d1) \<Longrightarrow> dedup_inv d1"
  using admit_loop_inv [of d camera tm wall "[det]" "[b]" d1] by (simp only: admit_loop_Cons) simp

lemma admit_loop_tracked:
  assumes "dedup_inv d" "\<And>k. unique_ids (tracks_of d k)" "\<And>det. det \<in> set dets \<Longrightarrow> TrackID det \<noteq> None"
    and "distinct (map (det_key camera) dets)"
    and "\<And>det t. det \<in> set dets \<Longrightarrow> t \<in> set (tracks_of d (camera, detectionClass det))
           \<Longrightarrow> same_id (the (TrackID det)) t \<Longrightarrow> tframe t \<noteq> dround d"
    and "admit_loop camera tm wall dets d = (out, d')"
  shows "out = map (\<lambda>det. sightings d (det_key camera det) = None) dets
    \<and> sightings d' = (\<lambda>k. if k \<in> det_key camera ` set dets then Some (tm, wall) else sightings d k)
    \<and> (\<forall>k. unique_ids (tracks_of d' k))"
  using assms
proof (induction dets arbitrary: d out d')
  case (Cons det dets)
  obtain i where i: "TrackID det = Some i" using Cons.prems(3) [of det] by auto
  obtain b d1 where one: "admit_one camera tm wall det d = (b, d1)" by fastforce
  obtain out1 where l: "admit_loop camera tm wall dets d1 = (out1, d')" "out = b # out1"
    using Cons.prems(6) one unfolding admit_loop_Cons by (auto split: prod.splits)
  have fresh: "\<forall>t \<in> set (tracks_of d (camera, detectionClass det)). same_id i t \<longrightarrow> tframe t \<noteq> dround d"
    using Cons.prems(5) [of det] i by simp
  note o = admit_one_tracked [OF Cons.prems(1,2) i fresh one]
  have other: "det_key camera e \<noteq> det_key camera det" if "e \<in> set dets" for e
    using Cons.prems(4) that by (force simp: image_iff)
  have rest: "out1 = map (\<lambda>det. sightings d1 (det_key camera det) = None) dets
    \<and> sightings d' = (\<lambda>k. if k \<in> det_key camera ` set dets then Some (tm, wall) else sightings d1 k)
    \<and> (\<forall>k. unique_ids (tracks_of d' k))"
  proof (rule Cons.IH [OF admit_one_inv [OF Cons.prems(1) one] o(3) _ _ _ l(1)])
    fix e t assume e: "e \<in> set dets" "t \<in> set (tracks_of d1 (camera, detectionClass e))" "same_id (the (TrackID e)) t"
    from other [OF e(1)] have "\<not> ((camera, detectionClass e) = (camera, detectionClass det) \<and> same_id i t)"
      using e(3) i by (auto simp: det_key_def same_id_def)
    from o(5) [OF e(2) this] show "tframe t \<noteq> dround d1" using Cons.prems(5) [of e t] e o(4) by simp
  qed (use Cons.prems(3,4) in auto)
  have "out1 = map (\<lambda>det. sightings d (det_key camera det) = None) dets"
    using rest o(2) other by (simp cong: map_cong)
  moreover have "sightings d' = (\<lambda>k. if k \<in> det_key camera ` set (det # dets) then Some (tm, wall) else sightings d k)"
    using rest unfolding o(2) by auto
  ultimately show ?case using o(1) l(2) rest by simp
qed simp

definition tracked_frame :: "gotime \<times> string \<times> gotime \<times> local_detection list \<Rightarrow> bool" where
  "tracked_frame f =
     (case f of (wall, camera, tm, dets) \<Rightarrow>
        list_all (\<lambda>det. TrackID det \<noteq> None) dets \<and> distinct (map (det_key camera) dets))"

text \<open>When every track has an identity, the table of sightings has one entry per track.\<close>

definition all_ids :: "deduper \<Rightarrow> bool" where
  "all_ids d \<longleftrightarrow> (\<forall>k. \<forall>t \<in> set (tracks_of d k). hasID t)"

lemma all_idsD: "all_ids d \<Longrightarrow> t \<in> set (tracks_of d k) \<Longrightarrow> hasID t"
  unfolding all_ids_def by blast

lemma admit_one_ids:
  assumes "dedup_inv d" "all_ids d" "TrackID det \<noteq> None" "admit_one camera tm wall det d = (b, d1)"
  shows "all_ids d1"
proof -
  let ?k = "(camera, detectionClass det)"
  let ?ts = "tracks_of d ?k"
  have dst: "distinct (map fst (tracks d))" using assms(1) by (simp add: dedup_inv_def)
  have old: "hasID t" if "t \<in> set ?ts" for t using assms(2) that by (auto simp: all_ids_def)
  show ?thesis
  proof (cases "matchLocked d ?k det (dround d)")
    case None
    then have "d1 = set_tracks ?k (?ts @ [new_track det tm wall (dround d)]) d\<lparr>ntracks := ntracks d + 1\<rparr>"
      using assms(4) by (auto simp: admit_one_def Let_def)
    then show ?thesis using assms(2,3) old by (auto simp: all_ids_def tracks_of_set_tracks [OF dst] new_track_def)
  next
    case (Some i)
    define t where "t = (?ts ! i)\<lparr>tbbox := BBox det, lastSeen := tm, seenWall := wall, tframe := dround d\<rparr>"
    have "hasID t" using old [of "?ts ! i"] matchLocked_bound [OF Some] by (simp add: t_def)
    moreover have "d1 = set_tracks ?k (?ts[i := t]) d" using assms(4) Some by (auto simp: admit_one_def Let_def t_def)
    ultimately show ?thesis using assms(2) old
      by (auto simp: all_ids_def tracks_of_set_tracks [OF dst] dest!: subsetD [OF set_update_subset_insert])
  qed
qed

lemma admit_loop_ids:
  "dedup_inv d \<Longrightarrow> all_ids d \<Longrightarrow> \<forall>det \<in> set dets. TrackID det \<noteq> None \<Longrightarrow> admit_loop camera tm wall dets d = (out, d') \<Longrightarrow> all_ids d'"
proof (induction dets arbitrary: d out)
  case (Cons det dets)
  obtain b d1 where one: "admit_one camera tm wall det d = (b, d1)" by fastforce
  then obtain out1 where l: "admit_loop camera tm wall dets d1 = (out1, d')"
    using Cons.prems(4) unfolding admit_loop_Cons by (auto split: prod.splits)
  show ?case
    by (rule Cons.IH [OF admit_one_inv [OF Cons.prems(1) one] admit_one_ids [OF Cons.prems(1,2) _ one] _ l])
      (use Cons.prems(3) in simp_all)
qed simp

lemma ntracks_sightings:
  assumes "dedup_inv d" "\<And>k. unique_ids (tracks_of d k)" "all_ids d"
  shows "ntracks d = int (card (dom (sightings d)))"
proof -
  have dst: "distinct (map fst (tracks d))" using assms(1) by (simp add: dedup_inv_def)
  have of: "tracks_of d k = ts" if "(k, ts) \<in> set (tracks d)" for k ts
    using map_of_is_SomeI [OF dst that] by (simp add: tracks_of_def)
  define ids where "ids xs = concat (map (\<lambda>(k, ts). map (\<lambda>t. (fst k, snd k, trackID t)) ts) xs)"
    for xs :: "(dedup_key \<times> dedup_track list) list"
  have len: "length (ids xs) = (\<Sum>(k, ts) \<leftarrow> xs. length ts)" for xs
    by (induction xs) (auto simp: ids_def)
  have mem: "x \<in> set (ids xs) \<longleftrightarrow> (\<exists>k ts. (k, ts) \<in> set xs \<and> (\<exists>t \<in> set ts. x = (fst k, snd k, trackID t)))" for x xs
  proof (induction xs)
    case (Cons p xs)
    obtain k ts where p: "p = (k, ts)" by (cases p)
    have "ids (p # xs) = map (\<lambda>t. (fst k, snd k, trackID t)) ts @ ids xs" by (simp add: ids_def p)
    then have "x \<in> set (ids (p # xs)) \<longleftrightarrow> (\<exists>t \<in> set ts. x = (fst k, snd k, trackID t)) \<or> x \<in> set (ids xs)" by auto
    then show ?case unfolding Cons p set_simps insert_iff prod.inject by blast
  qed (simp add: ids_def)
  have "distinct (ids xs)" if "set xs \<subseteq> set (tracks d)" "distinct (map fst xs)" for xs
    using that
  proof (induction xs)
    case (Cons x xs)
    obtain k ts where x: "x = (k, ts)" by (cases x)
    have t: "tracks_of d k = ts" using of Cons.prems(1) x by auto
    have "filter hasID ts = ts" using all_idsD [OF assms(3)] t by (intro filter_True) metis
    then have "distinct (map trackID ts)" using assms(2) [of k] t by (simp add: unique_ids_def)
    then have "distinct (map (\<lambda>t. (fst k, snd k, trackID t)) ts)" by (auto simp: distinct_map inj_on_def)
    moreover have "(k, ts') \<notin> set xs" for ts' using Cons.prems(2) x by (force simp: image_iff)
    then have "set (map (\<lambda>t. (fst k, snd k, trackID t)) ts) \<inter> set (ids xs) = {}" by (auto simp: ids_def prod_eq_iff)
    ultimately show ?case using Cons x by (simp add: ids_def)
  qed (simp add: ids_def)
  then have "distinct (ids (tracks d))" using dst by blast
  moreover have "set (ids (tracks d)) = dom (sightings d)"
  proof (intro set_eqI)
    fix x :: "string \<times> string \<times> int"
    obtain cam cls i where x: "x = (cam, cls, i)" by (cases x)
    have "x \<in> set (ids (tracks d)) \<longleftrightarrow> (\<exists>k ts. (k, ts) \<in> set (tracks d) \<and> (\<exists>t \<in> set ts. x = (fst k, snd k, trackID t)))"
      by (rule mem)
    also have "\<dots> \<longleftrightarrow> (\<exists>ts. ((cam, cls), ts) \<in> set (tracks d) \<and> (\<exists>t \<in> set ts. trackID t = i))"
      unfolding x by auto
    also have "\<dots> \<longleftrightarrow> (\<exists>t \<in> set (tracks_of d (cam, cls)). trackID t = i)"
    proof
      assume "\<exists>t \<in> set (tracks_of d (cam, cls)). trackID t = i"
      then show "\<exists>ts. ((cam, cls), ts) \<in> set (tracks d) \<and> (\<exists>t \<in> set ts. trackID t = i)"
        by (cases "map_of (tracks d) (cam, cls)") (auto simp: tracks_of_def dest: map_of_SomeD)
    qed (use of in blast)
    also have "\<dots> \<longleftrightarrow> (\<exists>t \<in> set (tracks_of d (cam, cls)). same_id i t)" using assms(3) by (auto simp: all_ids_def same_id_def)
    also have "\<dots> \<longleftrightarrow> x \<in> dom (sightings d)" 
      using find_None_iff [of "same_id i" "tracks_of d (cam, cls)"] by (auto simp: x domIff sightings_same_id)
    finally show "x \<in> set (ids (tracks d)) \<longleftrightarrow> x \<in> dom (sightings d)" .
  qed
  ultimately have "card (dom (sightings d)) = length (ids (tracks d))" by (metis distinct_card)
  then show ?thesis using assms(1) len by (simp add: dedup_inv_def total_tracks_def)
qed

lemma admit_refines:
  assumes "dedup_inv d" "\<And>k. unique_ids (tracks_of d k)" "tracked_frame (wall, camera, tm, dets)" "all_ids d"
    and "int (card (dom (snd (spec_admit (gap d) wall camera tm dets (sightings d))))) \<le> maxTracks d" "dround d + 1 < 2 ^ 64"
  shows "\<exists>d'. Admit iter wall camera tm dets d = Some (fst (spec_admit (gap d) wall camera tm dets (sightings d)), d')
    \<and> sightings d' = snd (spec_admit (gap d) wall camera tm dets (sightings d))
    \<and> dedup_inv d' \<and> (\<forall>k. unique_ids (tracks_of d' k)) \<and> all_ids d'
    \<and> maxTracks d' = maxTracks d \<and> gap d' = gap d \<and> dround d' = dround d + 1"
proof -
  let ?r = "d\<lparr>dround := wrap_u64 (dround d + 1)\<rparr>"
  let ?d = "expireLocked camera tm wall ?r"
  have r: "dedup_inv ?r" "dedup_inv ?d"
    using dedup_inv_round [OF assms(1,6)] dedup_inv_expire by auto
  have tr: "tracks_of ?d k = filter (alive ?r camera tm wall k) (tracks_of d k)" for k
    using tracks_of_expire [of ?r camera tm wall k] r(1) by (simp add: dedup_inv_def)
  have frames: "tframe t \<noteq> dround ?d" if t: "t \<in> set (tracks_of ?d k)" for t k
    using frame_bound [OF assms(1), of t k] t tr [of k] assms(6) by simp
  obtain out d1 where a: "admit_loop camera tm wall dets ?d = (out, d1)" by fastforce
  note i = admit_loop_inv [OF r(2) a]
  have s: "sightings ?d = spec_expire (gap d) camera tm wall (sightings d)"
    using sightings_expire [OF r(1)] assms(2) by (simp add: sightings_def [abs_def])
  have t: "out = map (\<lambda>det. sightings ?d (det_key camera det) = None) dets
    \<and> sightings d1 = (\<lambda>k. if k \<in> det_key camera ` set dets then Some (tm, wall) else sightings ?d k)
    \<and> (\<forall>k. unique_ids (tracks_of d1 k))"
  proof (rule admit_loop_tracked [OF r(2) _ _ _ _ a])
    show "unique_ids (tracks_of ?d k)" for k unfolding tr by (rule unique_ids_filter [OF assms(2)])
  qed (use assms(3) frames in \<open>auto simp: tracked_frame_def list_all_iff\<close>)
  have "all_ids ?d" unfolding all_ids_def tr using all_idsD [OF assms(4)] by auto
  then have ids: "all_ids d1"
    using admit_loop_ids [OF r(2) _ _ a] assms(3) by (auto simp: tracked_frame_def list_all_iff)
  have "sightings d1 = snd (spec_admit (gap d) wall camera tm dets (sightings d))"
    using t unfolding s by (simp add: spec_admit_def Let_def)
  then have n: "ntracks d1 \<le> maxTracks d1" using ntracks_sightings [of d1] i t ids assms(5) by simp
  then have "Admit iter wall camera tm dets d = Some (out, d1)"
    using n a by (simp add: Admit_def evict_loop.simps)
  then show ?thesis using t i s ids assms(6) by (auto simp: spec_admit_def Let_def)
qed

section \<open>Runs\<close>

fun run_admit :: "(deduper \<Rightarrow> dedup_key list) \<Rightarrow> (gotime \<times> string \<times> gotime \<times> local_detection list) list \<Rightarrow> deduper
    \<Rightarrow> (bool list list \<times> deduper) option" where
  "run_admit iter [] d = Some ([], d)"
| "run_admit iter ((wall, camera, tm, dets) # fs) d =
     (case Admit iter wall camera tm dets d of
        None \<Rightarrow> None
      | Some (out, d1) \<Rightarrow> map_option (\<lambda>(outs, d2). (out # outs, d2)) (run_admit iter fs d1))"

fun run_spec :: "duration \<Rightarrow> (gotime \<times> string \<times> gotime \<times> local_detection list) list
    \<Rightarrow> (string \<times> string \<times> int \<Rightarrow> (gotime \<times> gotime) option) \<Rightarrow> bool list list" where
  "run_spec g [] m = []"
| "run_spec g ((wall, camera, tm, dets) # fs) m =
     (case spec_admit g wall camera tm dets m of (out, m1) \<Rightarrow> out # run_spec g fs m1)"

text \<open>The specification's table never holds more than \<open>b\<close> objects.\<close>

fun within_bound :: "duration \<Rightarrow> int \<Rightarrow> (gotime \<times> string \<times> gotime \<times> local_detection list) list
    \<Rightarrow> (string \<times> string \<times> int \<Rightarrow> (gotime \<times> gotime) option) \<Rightarrow> bool" where
  "within_bound g b [] m \<longleftrightarrow> True"
| "within_bound g b ((wall, camera, tm, dets) # fs) m \<longleftrightarrow>
     int (card (dom (snd (spec_admit g wall camera tm dets m)))) \<le> b
     \<and> within_bound g b fs (snd (spec_admit g wall camera tm dets m))"

lemma run_refines:
  assumes "dedup_inv d" "\<And>k. unique_ids (tracks_of d k)" "all_ids d" "list_all tracked_frame fs"
    and "within_bound (gap d) (maxTracks d) fs (sightings d)" "dround d + length fs < 2 ^ 64"
  shows "\<exists>d'. run_admit iter fs d = Some (run_spec (gap d) fs (sightings d), d')"
  using assms
proof (induction fs arbitrary: d)
  case (Cons f fs)
  obtain wall camera tm dets where f: "f = (wall, camera, tm, dets)" by (cases f)
  have "\<exists>d'. Admit iter wall camera tm dets d = Some (fst (spec_admit (gap d) wall camera tm dets (sightings d)), d')
    \<and> sightings d' = snd (spec_admit (gap d) wall camera tm dets (sightings d))
    \<and> dedup_inv d' \<and> (\<forall>k. unique_ids (tracks_of d' k)) \<and> all_ids d'
    \<and> maxTracks d' = maxTracks d \<and> gap d' = gap d \<and> dround d' = dround d + 1"
    by (rule admit_refines [OF Cons.prems(1,2)]) (use Cons.prems(3-6) f in auto)
  then obtain d1 where a: "Admit iter wall camera tm dets d = Some (fst (spec_admit (gap d) wall camera tm dets (sightings d)), d1)"
      "sightings d1 = snd (spec_admit (gap d) wall camera tm dets (sightings d))" "dedup_inv d1"
      "\<And>k. unique_ids (tracks_of d1 k)" "all_ids d1" "maxTracks d1 = maxTracks d"
      "gap d1 = gap d" "dround d1 = dround d + 1" by blast
  have "\<exists>d'. run_admit iter fs d1 = Some (run_spec (gap d1) fs (sightings d1), d')"
    by (rule Cons.IH [OF a(3-5)]) (use Cons.prems(4-6) a(2,6-8) f in auto)
  then show ?case using a by (auto simp: f split: prod.splits)
qed simp

text \<open>A run with few different objects stays within the bound, however many detections it has.\<close>

definition frame_keys :: "gotime \<times> string \<times> gotime \<times> local_detection list \<Rightarrow> (string \<times> string \<times> int) set" where
  "frame_keys f = (case f of (wall, camera, tm, dets) \<Rightarrow> det_key camera ` set dets)"

lemma spec_admit_dom: "dom (snd (spec_admit g wall camera tm dets m)) \<subseteq> det_key camera ` set dets \<union> dom m"
  by (auto simp: spec_admit_def Let_def spec_expire_def split: if_splits option.splits)

lemma few_objects_within_bound:
  assumes "finite K" "int (card K) \<le> b" "dom m \<subseteq> K" "\<forall>f \<in> set fs. frame_keys f \<subseteq> K"
  shows "within_bound g b fs m"
  using assms(3,4)
proof (induction fs arbitrary: m)
  case (Cons f fs)
  obtain wall camera tm dets where f: "f = (wall, camera, tm, dets)" by (cases f)
  have "dom (snd (spec_admit g wall camera tm dets m)) \<subseteq> K"
    by (rule subset_trans [OF spec_admit_dom]) (use Cons.prems in \<open>auto simp: f frame_keys_def\<close>)
  then show ?case using Cons card_mono [OF assms(1), of "dom (snd (spec_admit g wall camera tm dets m))"] assms(2) by (auto simp: f)
qed simp

text \<open>C12. One event per visit. On any sequence of frames whose detections carry tracker identities, distinct within
  each frame, and in which never more objects are within their gap at once than the maximum number of tracks (past
  that the oldest track is evicted), the deduper answers as the specification: a detection starts a new event
  exactly when its camera, class and identity have not been seen within the gap, on the camera's own frame times,
  or on the wall clock when only other cameras delivered frames.\<close>

theorem tracked_objects_one_event_per_visit:
  assumes "list_all tracked_frame fs"
    and "within_bound (if g \<le> 0 then 10 * second else g) (if m \<le> 0 then 512 else m) fs (\<lambda>_. None)"
    and "length fs < 2 ^ 64"
  shows "\<exists>d. run_admit iter fs (NewDeduper g i m) =
    Some (run_spec (if g \<le> 0 then 10 * second else g) fs (\<lambda>_. None), d)"
proof -
  let ?d = "NewDeduper g i m"
  have e: "sightings ?d = (\<lambda>_. None)" by (auto simp: sightings_def NewDeduper_def tracks_of_def fun_eq_iff)
  have g: "gap ?d = (if g \<le> 0 then 10 * second else g)" "maxTracks ?d = (if m \<le> 0 then 512 else m)"
    by (simp_all add: NewDeduper_def DefaultDedupGap_def DefaultDedupMaxTracks_def)
  have "\<exists>d. run_admit iter fs ?d = Some (run_spec (gap ?d) fs (sightings ?d), d)"
    by (rule run_refines [OF dedup_inv_new _ _ assms(1)])
      (use assms(2,3) e g in \<open>auto simp: NewDeduper_def tracks_of_def unique_ids_def all_ids_def\<close>)
  then show ?thesis unfolding e g by simp
qed


text \<open>Concrete runs: a person with identity 7, seen, seen again after five seconds, and after twenty more.\<close>

definition sample_box :: bounding_box where
  "sample_box = \<lparr>X1 = Fin 0, Y1 = Fin 0, X2 = Fin 10, Y2 = Fin 10\<rparr>"

definition sample_det :: local_detection where
  "sample_det = \<lparr>ClassID = 0, Label = ''person'', Tipo = ''person'', Confidence = Fin (9 / 10), BBox = sample_box,
     TrackID = Some 7\<rparr>"

definition map_order :: "deduper \<Rightarrow> dedup_key list" where
  "map_order d = map fst (tracks d)"

lemma ranges_over_map_order: "ranges_over_map map_order"
  by (simp add: ranges_over_map_def map_order_def)

theorem dedup_admit_returns_witness:
  "\<exists>out d'. Admit map_order 0 ''cam'' 0 [sample_det, sample_det] (NewDeduper 0 0 1) = Some (out, d') \<and> length out = Suc 1
    \<and> ntracks d' = int (total_tracks d') \<and> ntracks d' \<le> 1"
  using dedup_admit_returns [OF ranges_over_map_order rtranclp.rtrancl_refl, of 0 0 1 0 "''cam''" 0 "[sample_det, sample_det]"]
  by (simp add: NewDeduper_def)

definition sample_visit :: "(gotime \<times> string \<times> gotime \<times> local_detection list) list" where
  "sample_visit = [(0, ''cam'', 0, [sample_det]), (0, ''cam'', 5 * second, [sample_det]),
     (0, ''cam'', 25 * second, [sample_det])]"

theorem tracked_objects_one_event_per_visit_witness:
  "\<exists>d. run_admit map_order sample_visit (NewDeduper 0 0 0) = Some ([[True], [False], [True]], d)"
proof -
  have f: "list_all tracked_frame sample_visit" "length sample_visit < 2 ^ 64"
    by (simp_all add: sample_visit_def tracked_frame_def sample_det_def)
  have w: "within_bound (if (0::int) \<le> 0 then 10 * second else 0) (if (0::int) \<le> 0 then 512 else 0) sample_visit (\<lambda>_. None)"
    by (rule few_objects_within_bound [of "{det_key ''cam'' sample_det}"]) (auto simp: sample_visit_def frame_keys_def)
  have "run_spec (if (0::int) \<le> 0 then 10 * second else 0) sample_visit (\<lambda>_. None) = [[True], [False], [True]]"
    by (simp add: sample_visit_def spec_admit_def spec_expire_def det_key_def detectionClass_def sample_det_def
        time_sub_def second_def)
  then show ?thesis using tracked_objects_one_event_per_visit [OF f(1) w f(2), of map_order 0] by simp
qed

end
