(* ===== verification/FullEdge_Props.thy ===== *)
theory FullEdge_Props
  imports FullEdge_Service FullEdge_Keep FullEdge_Dedup
begin

text \<open>
  The service as a whole: what becomes of an event whose file cannot be written, and of a new event when pending
  events already fill the retention bound.
\<close>

section \<open>A sweep under saturation\<close>

definition pending_file :: "pending_refs \<Rightarrow> string \<times> fnode \<Rightarrow> bool" where
  "pending_file pending f \<longleftrightarrow>
     event_name (fst f) \<and> fkind (snd f) = Regular \<and>
     (case fbody (snd f) of Bytes b \<Rightarrow> False | Event_JSON e \<Rightarrow> EventUUID e \<noteq> '''' \<and> EventUUID e \<in> set (event_uuids pending))"

lemma safe_no_faults:
  "safeDirEntries no_faults_fs Events tr = Some (filter (\<lambda>f. fkind (snd f) = Regular) tr, int (length (filter (\<lambda>f. fkind (snd f) = Symlink) tr)))"
proof -
  have "(fkind (snd f) \<noteq> Symlink \<and> fkind (snd f) \<noteq> Directory) = (fkind (snd f) = Regular)" for f :: "string \<times> fnode"
    by (cases "fkind (snd f)") auto
  then show ?thesis by (simp add: safeDirEntries_def unsafe_entry_def [abs_def] no_faults_fs_def)
qed

lemma cands_pending:
  assumes "\<not> EvictPending c"
  shows "length (filter protected (cands (map (scan_event no_faults_fs c pending) (filter (\<lambda>f. fkind (snd f) = Regular) tr))))
    = length (filter (pending_file pending) tr)"
  using assms by (induction tr) (auto simp: cands_def List.map_filter_simps scan_event_def pending_file_def no_faults_fs_def
      split: fbody.splits)

lemma cands_paths:
  "distinct (map fst entries) \<Longrightarrow> distinct (map cpath (cands (map (scan_event E c pending) entries)))"
proof (induction entries)
  case (Cons f fs)
  have "cpath x \<in> fst ` set fs" if x: "x \<in> set (cands (map (scan_event E c pending) fs))" for x
  proof -
    obtain n node where n: "(n, node) \<in> set fs" "scan_event E c pending (n, node) = Cand x" using x by (force simp: set_cands)
    then have "cpath x = n" using scan_event_cand by blast
    then show ?thesis using n(1) by force
  qed
  then have sub: "cpath ` set (cands (map (scan_event E c pending) fs)) \<subseteq> fst ` set fs" by blast
  have IH: "distinct (map cpath (cands (map (scan_event E c pending) fs)))" using Cons by simp
  show ?case
  proof (cases "scan_event E c pending f")
    case (Cand y)
    then have "cpath y = fst f" using scan_event_cand [of E c pending "fst f" "snd f" y] by simp
    then have "cpath y \<notin> cpath ` set (cands (map (scan_event E c pending) fs))" using sub Cons.prems by auto
    then show ?thesis using Cand IH by (simp add: cands_def List.map_filter_simps)
  qed (use IH in \<open>simp_all add: cands_def List.map_filter_simps\<close>)
qed (simp add: cands_def List.map_filter_simps)

lemma length_filter_sort: "length (filter P (sortOldestFirst cs)) = length (filter P cs)"
  by (metis mset_filter mset_sortOldestFirst size_mset)

lemma distinct_sort: "distinct (map cpath (sortOldestFirst cs)) \<longleftrightarrow> distinct (map cpath cs)"
  by (metis mset_map mset_sortOldestFirst mset_eq_imp_distinct_iff)

lemma saturated_sweepEvents:
  assumes "store_inv (estore w)" "\<not> EvictPending c" "0 < MaxEvents c"
    and "MaxEvents c \<le> int (length (filter (pending_file pending) (files (estore w))))"
    and "map_of (files (estore w)) (json_name u) = Some node" "fkind node = Regular" "fbody node = Event_JSON e"
    and "EventUUID e = u" "eventUUIDPattern u" "u \<notin> set (event_uuids pending)"
    and "sweepEvents no_faults_fs c now pending w = Some (w', refs, rep)"
  shows "map_of (files (estore w')) (json_name u) = None"
proof -
  let ?entries = "filter (\<lambda>f. fkind (snd f) = Regular) (files (estore w))"
  define cs where "cs = sortOldestFirst (cands (map (scan_event no_faults_fs c pending) ?entries))"
  define evictSet where "evictSet = map cpath (planEviction cs now (MaxEvents c) (MaxEventBytes c) (MaxEventAge c))"
  obtain r0 where s: "w' = w\<lparr>estore := sw_store (evict_events no_faults_fs evictSet cs r0),
        outside := sw_outside (evict_events no_faults_fs evictSet cs r0)\<rparr>"
      "sw_store r0 = estore w" "\<not> sw_stopped r0"
    using assms(11) by (auto simp: sweepEvents_def safe_no_faults Let_def cs_def evictSet_def)
  have wn: "well_named (files (estore w))" "distinct (map fst (files (estore w)))"
    using assms(1) by (simp_all add: store_inv_def well_named_def)
  have "(json_name u, node) \<in> set (files (estore w))" using assms(5) by (rule map_of_SomeD)
  moreover obtain x where x: "scan_event no_faults_fs c pending (json_name u, node) = Cand x" "cpath x = json_name u" "\<not> protected x"
    using assms(6-10) uuid_shape [OF assms(9)] by (auto simp: scan_event_def no_faults_fs_def)
  ultimately have xc: "x \<in> set cs" unfolding cs_def set_sortOldestFirst set_cands
    using assms(6) by (force simp: image_iff)
  have "MaxEvents c \<le> int (length (filter protected cs))"
    using assms(2,4) by (simp add: cs_def length_filter_sort cands_pending)
  from saturated_plan [OF assms(3) this xc x(3)] have ev: "cpath x \<in> set evictSet" by (simp add: evictSet_def)
  have d: "distinct (map cpath cs)"
    using cands_paths wn(2) by (simp add: cs_def distinct_sort distinct_map_filter)
  have present: "proper y \<and> map_of (files (sw_store r0)) (cpath y) \<noteq> None" if y: "y \<in> set cs" for y
  proof -
    obtain n nd where n: "(n, nd) \<in> set (files (estore w))" "scan_event no_faults_fs c pending (n, nd) = Cand y"
      using y by (force simp: cs_def set_cands)
    then show ?thesis using scan_event_cand [OF n(2)] wn map_of_is_SomeI [OF wn(2) n(1)] s(2)
      by (fastforce simp: well_named_def proper_def)
  qed
  show ?thesis using evict_all [OF s(3) present d xc ev] s(1) x(2) by (simp add: gone_def)
qed

lemma saturated_sweep:
  assumes "store_inv (estore w)" "\<not> EvictPending (rcfg r)" "0 < MaxEvents (rcfg r)"
    and "MaxEvents (rcfg r) \<le> int (length (filter (pending_file pending) (files (estore w))))"
    and "map_of (files (estore w)) (json_name u) = Some node" "fkind node = Regular" "fbody node = Event_JSON e"
    and "EventUUID e = u" "eventUUIDPattern u" "u \<notin> set (event_uuids pending)"
    and "LoadPendingReferences dk = Some pending" "Sweep no_faults_fs now dk (w, r) = (rep, w', r')"
  shows "map_of (files (estore w')) (json_name u) = None"
proof -
  obtain w0 n1 n2 n3 where o: "sweep_orphans no_faults_fs now w = (w0, n1, n2, n3)" by (metis prod_cases4)
  obtain ev where ev: "sweepTempOrphans no_faults_fs Events ''.event-'' ''.tmp'' now (files (estore w)) = (ev, n1)"
      "estore w0 = (estore w)\<lparr>files := ev\<rparr>"
    using o by (auto simp: sweep_orphans_def split: prod.splits)
  have inv: "store_inv (estore w0)" using store_inv_orphans [OF assms(1) o] .
  have "\<not> (is_orphan no_faults_fs Events ''.event-'' ''.tmp'' now f \<and> pending_file pending f)" for f
    using has_suffix_last [of "fst f" "''.tmp''"] has_suffix_last [of "fst f" "''.json''"]
    by (auto simp: is_orphan_def pending_file_def event_name_def)
  then have "filter (\<lambda>f. \<not> is_orphan no_faults_fs Events ''.event-'' ''.tmp'' now f \<and> pending_file pending f) xs
      = filter (pending_file pending) xs" for xs by (intro filter_cong refl) blast
  then have p: "filter (pending_file pending) (files (estore w0)) = filter (pending_file pending) (files (estore w))"
    using ev by (auto simp: sweepTempOrphans_def split: if_splits)
  have m: "map_of (files (estore w0)) (json_name u) = Some node"
    using temp_orphans_keep [OF ev(1), of "json_name u" "''.json''"] assms(5) ev(2) by (simp add: json_name_def)
  have "anyBoundActive (rcfg r)" using assms(3) by (simp add: anyBoundActive_def)
  then obtain w1 refs er where s: "sweepEvents no_faults_fs (rcfg r) now pending w0 = Some (w1, refs, er)"
    "estore w' = estore w1"
    using assms(11,12) o by (auto simp: Sweep_def sweepEvents_def safe_no_faults Let_def split: option.splits prod.splits)
  show ?thesis using saturated_sweepEvents [OF inv assms(2,3) _ m assms(6-10) s(1)] assms(4) p s(2) by simp
qed


section \<open>The service under saturation\<close>

lemma admit_disk:
  "admit E res s = Some (fresh, s') \<Longrightarrow> fdisk s' = fdisk s \<and> retention s' = retention s \<and> scfg s' = scfg s
    \<and> evidence_on s' = evidence_on s \<and> length fresh \<le> length (Detections res)"
proof -
  assume a: "admit E res s = Some (fresh, s')"
  have "length (map snd (filter fst (zip out xs))) \<le> length xs" for out :: "bool list" and xs :: "local_detection list"
    by (metis length_filter_le length_map length_zip min.cobounded2 order_trans)
  then have "length (map snd (filter fst (zip out (filter P xs)))) \<le> length xs" for out :: "bool list" and P and xs :: "local_detection list"
    using length_filter_le order_trans by blast
  then show ?thesis using a by (auto simp: admit_def Let_def split: option.splits)
qed

lemma save_evidence_store:
  "save_evidence E save tm errtext s = Inr (ref, s') \<Longrightarrow>
   estore (fdisk s') = estore (fdisk s) \<and> retention s' = retention s \<and> scfg s' = scfg s"
  by (auto simp: save_evidence_def split: option.splits prod.splits sum.splits if_splits)

lemma save_evidence_error: "save_evidence E save tm errtext s = Inl e \<Longrightarrow> e = Err_Capture_UUID"
  by (auto simp: save_evidence_def split: option.splits prod.splits sum.splits if_splits)

text \<open>The course of a call that creates an event or fails to store one.\<close>

lemma process_inference_course:
  assumes "process_inference E save tm errtext res s = Some (r, evts, s')" "Detections res \<noteq> []"
    and "evts \<noteq> [] \<or> (\<exists>k. r = Some (Err_Store k))"
  obtains res1 fresh s2 ref s3 s4 where "Detections res1 = Detections res" "CandidateKey res1 = CandidateKey res"
    "FrameTimestamp res1 = FrameTimestamp res"
    "admit E res1 (s\<lparr>localDetections := localDetections s + int (length (Detections res1))\<rparr>) = Some (fresh, s2)"
    "save_evidence E save tm errtext s2 = Inr (ref, s3)" "create_events E res1 ref 0 fresh s3 = (r, evts, s4)"
    "s' = (if r = None then maybeSweepRetention E s4 else s4)"
proof -
  let ?res = "if Device res = '''' then res\<lparr>Device := env_device E\<rparr> else res"
  obtain fresh s2 where a: "admit E ?res (s\<lparr>localDetections := localDetections s + int (length (Detections ?res))\<rparr>) = Some (fresh, s2)"
    using assms(1,2) by (auto simp: process_inference_def Let_def split: option.splits)
  have ne: "fresh \<noteq> []" using assms a by (auto simp: process_inference_def Let_def)
  show thesis
  proof (cases "save_evidence E save tm errtext s2")
    case (Inl e)
    then show thesis using assms a ne save_evidence_error [OF Inl] by (auto simp: process_inference_def Let_def)
  next
    case (Inr b)
    obtain ref s3 where b: "b = (ref, s3)" by (cases b)
    obtain r1 evts1 s4 where c: "create_events E ?res ref 0 fresh s3 = (r1, evts1, s4)" by (metis prod_cases3)
    have "r1 = r" "evts1 = evts" "s' = (if r = None then maybeSweepRetention E s4 else s4)"
      using assms(1,2) a ne Inr b c by (auto simp: process_inference_def Let_def split: option.splits)
    then show thesis using a Inr b c by (intro that [of ?res fresh s2 ref s3 s4]) auto
  qed
qed

text \<open>C34. New events under saturation. When the events waiting in the backlog already fill the bound on stored events,
  processing a frame with one new detection creates and returns its event and, before the caller can hand it to
  the backlog, the sweep at the end of the same call deletes its file: looking the event up afterwards finds
  nothing.\<close>

theorem saturated_retention_drops_new_event:
  assumes "Detections res = [det]" "retention s = Some r" "SweepInterval (rcfg r) \<le> 0" "env_fs E = no_faults_fs"
    and "LoadPendingReferences (env_backlog E) = Some pending" "\<not> EvictPending (rcfg r)"
    and "0 < MaxEvents (rcfg r)"
    and "MaxEvents (rcfg r) \<le> int (length (filter (pending_file pending) (files (estore (fdisk s)))))"
    and "store_inv (estore (fdisk s))"
    and "env_uuid E 0 = Some u" "eventUUIDPattern u" "u \<notin> set (event_uuids pending)"
    and "map_of (files (estore (fdisk s))) (json_name u) = None"
    and "process_inference E save tm errtext res s = Some (None, [evt], s')"
  shows "EventUUID evt = u \<and> SyncStatus evt = SyncStatusPending
    \<and> Store_Get readable_all u (estore (fdisk s')) = Inl Err_Not_Found"
proof -
  have ne: "Detections res \<noteq> []" using assms(1) by simp
  obtain res1 fresh s2 ref s3 s4 where res1: "Detections res1 = [det]"
    and a: "admit E res1 (s\<lparr>localDetections := localDetections s + int (length (Detections res1))\<rparr>) = Some (fresh, s2)"
    and e: "save_evidence E save tm errtext s2 = Inr (ref, s3)"
    and c: "create_events E res1 ref 0 fresh s3 = (None, [evt], s4)" and s': "s' = maybeSweepRetention E s4"
    by (rule process_inference_course [OF assms(14) ne]) (use assms(1) in simp_all)
  have pre: "estore (fdisk s3) = estore (fdisk s)" "retention s3 = Some r"
    using admit_disk [OF a] save_evidence_store [OF e] assms(2) by auto
  have "length fresh \<le> 1" using admit_disk [OF a] res1 by simp
  moreover have "fresh \<noteq> []" using c by auto
  ultimately obtain d where fresh: "fresh = [d]" by (cases fresh) auto
  obtain st where n: "NewLocalEvent (scfg s3) res1 d ref (Some u) (env_now E) = Inr evt"
    and sv: "EventStore_Save readable_all (env_sz E) (env_now E) (env_save E 0) evt (estore (fdisk s)) = (None, st)"
    and s4: "fdisk s4 = (fdisk s3)\<lparr>estore := st\<rparr>" "retention s4 = Some r"
    using c pre assms(4,10) by (auto simp: fresh no_faults_fs_def split: sum.splits prod.splits option.splits)
  have evt: "EventUUID evt = u" "SyncStatus evt = SyncStatusPending" using n by (auto simp: NewLocalEvent_def split: if_splits)
  have st: "st = (estore (fdisk s))\<lparr>files := AList.update (json_name u) (event_node (env_sz E) (env_now E) evt) (files (estore (fdisk s))),
      backlogCount := backlogCount (estore (fdisk s)) + 1\<rparr>"
    using sv evt assms(13) by (auto simp: EventStore_Save_def Let_def split: if_splits option.splits)
  have inv: "store_inv st" using store_inv_save [OF assms(9) _ reads_all sv] evt(1) assms(11) by simp
  have "filter (pending_file pending) (AList.update (json_name u) f xs) = filter (pending_file pending) xs"
    if "map_of xs (json_name u) = None" "\<not> pending_file pending (json_name u, f)" for f xs
    using that by (induction xs) auto
  then have p: "filter (pending_file pending) (files st) = filter (pending_file pending) (files (estore (fdisk s)))"
    using assms(12,13) evt(1) by (simp add: st pending_file_def event_node_def)
  obtain rep w' r' where sw: "Sweep no_faults_fs (env_now E) (env_backlog E) (fdisk s4, r) = (rep, w', r')" by (metis prod_cases3)
  have "map_of (files (estore w')) (json_name u) = None"
    by (rule saturated_sweep [where node = "event_node (env_sz E) (env_now E) evt", OF _ assms(6,7) _ _ _ _ evt(1) assms(11,12,5) sw])
      (use inv p assms(8) in \<open>simp_all add: s4(1) st update_conv' event_node_def\<close>)
  moreover have "fdisk s' = w'"
    using s' s4(2) sw assms(3,4) by (simp add: maybeSweepRetention_def MaybeSweepAfterWrite_def split: prod.splits)
  ultimately show ?thesis using evt by (simp add: Store_Get_def)
qed

section \<open>An event that cannot be saved\<close>

lemma default_deduper:
  "all_ids (NewDeduper 0 0 0)" "sightings (NewDeduper 0 0 0) = (\<lambda>_. None)" "maxTracks (NewDeduper 0 0 0) = 512"
  "gap (NewDeduper 0 0 0) = 10 * second" "dround (NewDeduper 0 0 0) = 0" "unique_ids (tracks_of (NewDeduper 0 0 0) k)"
  by (auto simp: NewDeduper_def tracks_of_def all_ids_def unique_ids_def sightings_def DefaultDedupMaxTracks_def
      DefaultDedupGap_def fun_eq_iff)

lemma one_detection_few:
  assumes "dom m \<subseteq> {y}"
  shows "int (card (dom (snd (spec_admit g w c t [x] m)))) \<le> 512"
proof -
  have "dom (snd (spec_admit g w c t [x] m)) \<subseteq> {det_key c x, y}"
    by (rule subset_trans [OF spec_admit_dom]) (use assms in auto)
  then have "card (dom (snd (spec_admit g w c t [x] m))) \<le> card {det_key c x, y}" by (intro card_mono) auto
  also have "\<dots> \<le> 2" by (simp add: card_insert_if)
  finally show ?thesis by simp
qed

text \<open>A lost event. If the only detection of a frame is a tracked object that starts an event and the event cannot be
  written, the call fails with the store unchanged; the object is nevertheless known to the deduper, and its next
  sighting within ten seconds creates no event either.\<close>

theorem unsaved_event_is_lost:
  assumes "dedup s = NewDeduper 0 0 0" "Detections res = [det]" "valid_detection det" "TrackID det = Some i"
    and "FrameTimestamp res \<noteq> zero_time"
    and "process_inference E save tm errtext res s = Some (Some (Err_Store k), evts, s1)"
    and "Detections res' = [det']" "valid_detection det'" "TrackID det' = Some i" "detectionClass det' = detectionClass det"
    and "CandidateKey res' = CandidateKey res" "FrameTimestamp res' \<noteq> zero_time"
    and "FrameTimestamp res' - FrameTimestamp res \<le> 10 * second"
  shows "evts = [] \<and> estore (fdisk s1) = estore (fdisk s)
    \<and> (\<exists>s2. process_inference E' save' tm' errtext' res' s1 = Some (None, [], s2) \<and> fdisk s2 = fdisk s1)"
proof -
  let ?cam = "CandidateKey res" and ?tm = "FrameTimestamp res"
  let ?k = "(?cam, detectionClass det, i)"
  have ne: "Detections res \<noteq> []" using assms(2) by simp
  obtain res1 fresh s2 ref s3 where r1: "Detections res1 = [det]" "CandidateKey res1 = ?cam" "FrameTimestamp res1 = ?tm"
    and a: "admit E res1 (s\<lparr>localDetections := localDetections s + int (length (Detections res1))\<rparr>) = Some (fresh, s2)"
    and e: "save_evidence E save tm errtext s2 = Inr (ref, s3)"
    and c: "create_events E res1 ref 0 fresh s3 = (Some (Err_Store k), evts, s1)"
    by (rule process_inference_course [OF assms(6) ne]) (use assms(2) in simp_all)
  note new = default_deduper
  have tf: "tracked_frame (env_now E, ?cam, ?tm, [det])" using assms(4) by (simp add: tracked_frame_def)
  obtain d1 where d1: "Admit (env_iter E) (env_now E) ?cam ?tm [det] (NewDeduper 0 0 0) =
        Some (fst (spec_admit (gap (NewDeduper 0 0 0)) (env_now E) ?cam ?tm [det] (sightings (NewDeduper 0 0 0))), d1)"
      "sightings d1 = snd (spec_admit (gap (NewDeduper 0 0 0)) (env_now E) ?cam ?tm [det] (sightings (NewDeduper 0 0 0)))"
      "dedup_inv d1" "\<And>k. unique_ids (tracks_of d1 k)" "all_ids d1" "maxTracks d1 = 512" "gap d1 = 10 * second" "dround d1 = 1"
    using admit_refines [OF dedup_inv_new new(6) tf new(1), of "env_iter E"] one_detection_few [of _ ?k] new(2-5) by auto
  have seen: "sightings d1 ?k = Some (?tm, env_now E)"
    using d1(2) assms(4) by (simp add: spec_admit_def Let_def det_key_def)
  have ded: "dedup s2 = d1" using a d1(1) assms(1,3,5) r1 by (auto simp: admit_def Let_def split: option.splits)
  have s1: "dedup s1 = d1 \<and> estore (fdisk s1) = estore (fdisk s) \<and> evts = []"
  proof -
    have "length fresh \<le> 1" using admit_disk [OF a] r1(1) by simp
    then have "fresh = [] \<or> (\<exists>d. fresh = [d])" by (cases fresh) auto
    then have "evts = [] \<and> s1 = s3\<lparr>fdisk := fdisk s3\<rparr>"
      using c by (auto simp: EventStore_Save_def Let_def split: sum.splits prod.splits option.splits if_splits)
    moreover have "dedup s3 = dedup s2"
      using e by (auto simp: save_evidence_def split: option.splits prod.splits sum.splits if_splits)
    ultimately show ?thesis using admit_disk [OF a] save_evidence_store [OF e] ded by simp
  qed
  let ?tm' = "FrameTimestamp res'"
  have tf': "tracked_frame (env_now E', ?cam, ?tm', [det'])" using assms(9) by (simp add: tracked_frame_def)
  have one: "dom (sightings d1) \<subseteq> {?k}"
    unfolding d1(2) by (rule subset_trans [OF spec_admit_dom]) (simp add: new(2) det_key_def assms(4))
  obtain d2 where "Admit (env_iter E') (env_now E') ?cam ?tm' [det'] d1 =
        Some (fst (spec_admit (gap d1) (env_now E') ?cam ?tm' [det'] (sightings d1)), d2)"
    using admit_refines [OF d1(3,4) tf' d1(5), of "env_iter E'"] one_detection_few [OF one] d1(6,8) by auto
  moreover have "fst (spec_admit (gap d1) (env_now E') ?cam ?tm' [det'] (sightings d1)) = [False]"
    using seen assms(9,10,13) d1(7)
    by (simp add: spec_admit_def Let_def spec_expire_def det_key_def time_sub_def second_def)
  ultimately have "Admit (env_iter E') (env_now E') ?cam ?tm' [det'] d1 = Some ([False], d2)" by simp
  then have "\<exists>s2. process_inference E' save' tm' errtext' res' s1 = Some (None, [], s2) \<and> fdisk s2 = fdisk s1"
    using assms(7,8,11,12) s1 by (auto simp: process_inference_def admit_def Let_def)
  then show ?thesis using s1 by simp
qed


section \<open>Concrete runs\<close>

definition sample_uuid :: "char \<Rightarrow> string" where
  "sample_uuid c = ''00000000-0000-4000-8000-00000000000'' @ [c]"

lemma sample_uuid_valid: "eventUUIDPattern (sample_uuid (CHR ''1''))" "eventUUIDPattern (sample_uuid (CHR ''2''))"
  by code_simp+

definition sample_result :: inference_result where
  "sample_result = \<lparr>CandidateKey = ''cam'', FrameSeq = 1, FrameTimestamp = 0, InferenceTimestamp = 0, InferenceMs = Fin 1,
     Device = ''cpu'', res_CorrelationID = '''', Detections = [sample_det]\<rparr>"

definition sample_edge_event :: "string \<Rightarrow> edge_event" where
  "sample_edge_event u = \<lparr>EventUUID = u, evt_EdgeID = '''', evt_CandidateKey = ''cam'', TenantID = '''', SiteID = '''',
     evt_CorrelationID = '''', evt_FrameSeq = 1, SourceTimestamp = 0, LocalInferenceTimestamp = 0, evt_Tipo = ''person'',
     evt_ClassID = 0, evt_Confidence = Fin (9 / 10), evt_BBox = sample_box, Model = '''', evt_Device = ''cpu'',
     ProcessingMode = ''edge'', SyncStatus = SyncStatusPending, QuarantineReason = '''', CreatedAt = 0,
     evt_Detections = [sample_det], Evidence = None\<rparr>"

definition sample_store :: event_store where
  "sample_store = \<lparr>files = [(json_name (sample_uuid (CHR ''1'')), event_node (\<lambda>_. 9) 0 (sample_edge_event (sample_uuid (CHR ''1''))))],
     backlogCount = 1\<rparr>"

definition sample_retention :: retention_manager where
  "sample_retention = \<lparr>rcfg = \<lparr>DataDir = ''/data'', MaxEvents = 1, MaxEventBytes = 0, MaxEventAge = 0, MaxCaptures = 0,
     MaxCaptureBytes = 0, MaxCaptureAge = 0, MaxClips = 0, MaxClipBytes = 0, MaxClipAge = 0, EvictPending = False,
     SweepInterval = 0\<rparr>, lastSweep = 0, lastReport = None\<rparr>"

definition sample_service :: "event_store \<Rightarrow> service" where
  "sample_service st = \<lparr>scfg = \<lparr>cfg_EdgeID = '''', cfg_TenantID = '''', cfg_SiteID = '''', cfg_ModelName = ''''\<rparr>,
     evidence_on = False, dedup = NewDeduper 0 0 0,
     fdisk = \<lparr>estore = st, captures = [], clips = [], outside = []\<rparr>, retention = Some sample_retention,
     localDetections = 0, localEventsCreated = 0, eventsDeduplicated = 0, evidenceSaved = 0, evidenceFailures = 0\<rparr>"

definition sample_queued :: rec where
  "sample_queued = \<lparr>sequence = 1, created_at = 0, stage = ''metadata'',
     subm = \<lparr>event = \<lparr>event_uuid = sample_uuid (CHR ''1''), candidate_key = ''cam'', ev_class = ''person'',
       confidence = Fin (9 / 10), bbox = AnyNil, ev_timestamp = ''t'', correlation_id = ''''\<rparr>, capture = None, clip = None\<rparr>,
     attempts = 0, next_attempt = 0, inactive_since = None\<rparr>"

definition sample_backlog_disk :: disk where
  "sample_backlog_disk = [((PendingDir, seq_name 1), RecordFile sample_queued)]"

definition sample_service_env :: "nat option \<Rightarrow> service_env" where
  "sample_service_env sv = \<lparr>env_iter = map_order, env_now = 0, env_device = ''cpu'', env_capture_uuid = None,
     env_uuid = (\<lambda>_. Some (sample_uuid (CHR ''2''))), env_save = (\<lambda>_. sv), env_sz = (\<lambda>_. 9), env_fs = no_faults_fs,
     env_backlog = sample_backlog_disk\<rparr>"

definition sample_pending :: pending_refs where
  "sample_pending = \<lparr>evidence_paths = [], event_uuids = [sample_uuid (CHR ''1'')]\<rparr>"

lemma sample_refs: "LoadPendingReferences sample_backlog_disk = Some sample_pending"
  by (simp add: LoadPendingReferences_def sample_backlog_disk_def read_dir_def refs_of_record_def sample_queued_def
      add_evidence_path_def sample_pending_def sample_uuid_def Let_def)

lemma sample_store_inv: "store_inv sample_store"
  using uuid_shape [OF sample_uuid_valid(1)]
  by (simp add: store_inv_def well_named_def sample_store_def countPendingOnDisk_def is_pending_def read_event_def
      event_node_def sample_edge_event_def)

lemma sample_fresh: "sample_uuid (CHR ''2'') \<notin> set (event_uuids sample_pending)"
    "map_of (files sample_store) (json_name (sample_uuid (CHR ''2''))) = None"
  by (simp_all add: sample_pending_def sample_uuid_def sample_store_def)

lemma sample_admit: "\<exists>d. Admit map_order 0 ''cam'' 0 [sample_det] (NewDeduper 0 0 0) = Some ([True], d)"
proof -
  have t: "tracked_frame (0, ''cam'', 0, [sample_det])" by (simp add: tracked_frame_def sample_det_def)
  note new = default_deduper
  have "\<exists>d. Admit map_order 0 ''cam'' 0 [sample_det] (NewDeduper 0 0 0) =
      Some (fst (spec_admit (10 * second) 0 ''cam'' 0 [sample_det] (\<lambda>_. None)), d)"
    using admit_refines [OF dedup_inv_new new(6) t new(1), of map_order] one_detection_few [of "\<lambda>_. None"] new(2-5) by auto
  then show ?thesis by (simp add: spec_admit_def Let_def spec_expire_def)
qed

lemma sample_valid: "valid_detection sample_det"
  by (simp add: valid_detection_def BoundingBox_Validate_def ValidateConfidence_def sample_det_def sample_box_def finite_f64_def)

lemma sample_runs:
  "\<exists>evt s'. process_inference (sample_service_env None) None 0 (\<lambda>_. ''e'') sample_result (sample_service sample_store) = Some (None, [evt], s')"
  "\<exists>evts s'. process_inference (sample_service_env (Some 3)) None 0 (\<lambda>_. ''e'') sample_result (sample_service sample_store)
     = Some (Some (Err_Store 3), evts, s')"
  using sample_admit sample_valid sample_fresh(2)
  by (auto simp: process_inference_def admit_def sample_result_def sample_service_def sample_service_env_def save_evidence_def
      NewLocalEvent_def EventStore_Save_def sample_uuid_def [of "CHR ''2''"] zero_time_def Let_def sample_det_def [symmetric]
      split: if_splits) (simp_all add: sample_det_def)

theorem saturated_retention_drops_new_event_witness:
  "\<exists>evt s'. process_inference (sample_service_env None) None 0 (\<lambda>_. ''e'') sample_result (sample_service sample_store) = Some (None, [evt], s')
    \<and> EventUUID evt = sample_uuid (CHR ''2'')
    \<and> Store_Get readable_all (sample_uuid (CHR ''2'')) (estore (fdisk s')) = Inl Err_Not_Found"
proof -
  obtain evt s' where p: "process_inference (sample_service_env None) None 0 (\<lambda>_. ''e'') sample_result (sample_service sample_store) = Some (None, [evt], s')"
    using sample_runs(1) by auto
  have "pending_file sample_pending (json_name (sample_uuid (CHR ''1'')), event_node (\<lambda>_. 9) 0 (sample_edge_event (sample_uuid (CHR ''1''))))"
    using uuid_shape [OF sample_uuid_valid(1)] by (simp add: pending_file_def sample_pending_def event_node_def sample_edge_event_def)
  then have "MaxEvents (rcfg sample_retention) \<le> int (length (filter (pending_file sample_pending) (files sample_store)))"
    by (simp add: sample_retention_def sample_store_def)
  then show ?thesis
    using saturated_retention_drops_new_event [OF _ _ _ _ _ _ _ _ _ _ sample_uuid_valid(2) sample_fresh(1) _ p, of sample_det sample_retention]
      p sample_fresh(2) sample_store_inv sample_refs
    by (simp add: sample_service_env_def sample_service_def sample_retention_def sample_result_def)
qed

theorem unsaved_event_is_lost_witness:
  "\<exists>s1 s2. process_inference (sample_service_env (Some 3)) None 0 (\<lambda>_. ''e'') sample_result (sample_service sample_store) = Some (Some (Err_Store 3), [], s1)
    \<and> process_inference (sample_service_env None) None 0 (\<lambda>_. ''e'') (sample_result\<lparr>FrameTimestamp := second\<rparr>) s1 = Some (None, [], s2)"
proof -
  obtain evts s1 where p: "process_inference (sample_service_env (Some 3)) None 0 (\<lambda>_. ''e'') sample_result (sample_service sample_store) = Some (Some (Err_Store 3), evts, s1)"
    using sample_runs(2) by auto
  show ?thesis
    using unsaved_event_is_lost [OF _ _ sample_valid _ _ p _ sample_valid, of 7 "sample_result\<lparr>FrameTimestamp := second\<rparr>" "sample_service_env None" None 0 "\<lambda>_. ''e''"] p
    by (auto simp: sample_service_def sample_result_def sample_det_def zero_time_def second_def)
qed


theorem plan_eviction_oldest_first_witness:
  "\<exists>n. planEviction (sortOldestFirst [\<lparr>cpath = ''a'', csize = 1, cwhen = 5, protected = False, cuuid = '''', cevidence = None, csync = ''''\<rparr>,
      \<lparr>cpath = ''b'', csize = 1, cwhen = 3, protected = False, cuuid = '''', cevidence = None, csync = ''''\<rparr>]) 9 1 0 0
     = take n (sortOldestFirst [\<lparr>cpath = ''a'', csize = 1, cwhen = 5, protected = False, cuuid = '''', cevidence = None, csync = ''''\<rparr>,
      \<lparr>cpath = ''b'', csize = 1, cwhen = 3, protected = False, cuuid = '''', cevidence = None, csync = ''''\<rparr>])"
proof -
  let ?cs = "[\<lparr>cpath = ''a'', csize = 1, cwhen = 5, protected = False, cuuid = '''', cevidence = None, csync = ''''\<rparr>,
      \<lparr>cpath = ''b'', csize = 1, cwhen = 3, protected = False, cuuid = '''', cevidence = None, csync = ''''\<rparr>] :: candidate list"
  from plan_eviction_oldest_first [of ?cs 9 0 1 0] obtain n where
    "planEviction (sortOldestFirst ?cs) 9 1 0 0 = filter (too_old 9 0) (sortOldestFirst ?cs) @
       filter (\<lambda>c. \<not> protected c) (take n (unexpired 9 0 (sortOldestFirst ?cs)))" by (auto simp: Let_def)
  moreover have "filter (too_old 9 0) xs = []" "unexpired 9 0 xs = xs" for xs by (simp_all add: too_old_def unexpired_def)
  moreover have "filter (\<lambda>c. \<not> protected c) (take n (sortOldestFirst ?cs)) = take n (sortOldestFirst ?cs)"
    by (rule filter_True) (auto dest!: in_set_takeD)
  ultimately show ?thesis by auto
qed

end
