(* ===== verification/FullEdge_Backlog.thy ===== *)
theory FullEdge_Backlog
  imports FullEdge_Props Backlog_Progress
begin

text \<open>
  Retention meets the backlog: \<open>LoadPendingReferences\<close> reads what the queue of \<open>edgebacklog\<close> keeps on disk, and
  the sweep of \<open>fulledge/retention.go\<close> leaves all of it alone.
\<close>

section \<open>Retention and the backlog\<close>

lemma load_refs_mono:
  "load_refs_loop es p = Some q \<Longrightarrow> set (evidence_paths p) \<subseteq> set (evidence_paths q) \<and> set (event_uuids p) \<subseteq> set (event_uuids q)"
  by (induction es p rule: load_refs_loop.induct)
    (auto simp: refs_of_record_def add_evidence_path_def Let_def split: option.splits if_splits)

lemma load_refs_record:
  assumes "load_refs_loop es p = Some q" "(n, RecordFile r) \<in> set es"
  shows "set (evidence_paths (refs_of_record r p0)) \<subseteq> set (evidence_paths q) \<union> set (evidence_paths p0)
    \<and> set (event_uuids (refs_of_record r p0)) \<subseteq> set (event_uuids q) \<union> set (event_uuids p0)"
  using assms
proof (induction es p rule: load_refs_loop.induct)
  case (4 n' r' es p)
  show ?case
  proof (cases "r' = r")
    case True
    from load_refs_mono [of es "refs_of_record r p" q] 4(2) True show ?thesis
      by (auto simp: refs_of_record_def add_evidence_path_def Let_def split: option.splits if_splits)
  next
    case False
    then show ?thesis using 4 by auto
  qed
qed auto

lemma queued_references:
  assumes "breachable (b, fl)" "r \<in> set (queue b)" "LoadPendingReferences (disk b) = Some pending"
  shows "event_uuid (event (subm r)) \<in> set (event_uuids pending)"
    and "capture (subm r) = Some ev \<or> clip (subm r) = Some ev \<Longrightarrow> path_ev ev \<noteq> '''' \<Longrightarrow>
      path_ev ev \<in> set (evidence_paths pending)"
proof -
  have inv: "binv b" using breachable_inv [OF assms(1)] by (simp add: sinv_def)
  then have ok: "disk_ok (view (disk b))" and "stored (view (disk b)) (ident r)"
    using assms(2) by (auto simp: binv_def ids_def)
  then obtain r1 where r1: "view (disk b) (PendingDir, seq_name (sequence r1)) = Some (RecordFile r1)"
    "subm r1 = json_submission (subm r)" unfolding stored_def by (metis fst_conv snd_conv)
  then have ne: "event_uuid (event (subm r1)) \<noteq> ''''" using ok unfolding disk_ok_def by blast
  from r1 have "(seq_name (sequence r1), RecordFile r1) \<in> set (read_dir PendingDir (disk b))"
    by (simp add: set_read_dir view_def)
  from load_refs_record [OF assms(3) [unfolded LoadPendingReferences_def] this, of "\<lparr>evidence_paths = [], event_uuids = []\<rparr>"]
  have sub: "set (evidence_paths (refs_of_record r1 \<lparr>evidence_paths = [], event_uuids = []\<rparr>)) \<subseteq> set (evidence_paths pending)"
    "set (event_uuids (refs_of_record r1 \<lparr>evidence_paths = [], event_uuids = []\<rparr>)) \<subseteq> set (event_uuids pending)" by simp_all
  show "event_uuid (event (subm r)) \<in> set (event_uuids pending)"
    using sub(2) ne r1(2) by (simp add: refs_of_record_def Let_def)
  show "path_ev ev \<in> set (evidence_paths pending)"
    if "capture (subm r) = Some ev \<or> clip (subm r) = Some ev" "path_ev ev \<noteq> ''''"
    using sub(1) that r1(2)
    by (auto simp: refs_of_record_def Let_def add_evidence_path_def json_submission_def split: option.splits if_splits)
qed

text \<open>A sweep that cannot read the backlog removes nothing but temporary files.\<close>

lemma sweep_without_references:
  assumes "LoadPendingReferences dk = None" "Sweep E now dk (w, m) = (rep, w', m')"
  shows "sweep_retains E (rcfg m) pending w w'"
proof -
  obtain w0 n1 n2 n3 where o: "sweep_orphans E now w = (w0, n1, n2, n3)" by (metis prod_cases4)
  then have "w' = w0" using assms by (auto simp: Sweep_def Let_def split: if_splits)
  then show ?thesis using sweep_retains_orphans(1) [OF o] by simp
qed

text \<open>C11. Retention never takes what the backlog still has to send. For every state the durable backlog can
  reach, every event queued in it and every retention sweep that reads that backlog's directory: the
  capture and the clip the event refers to, and (unless the operator allows evicting pending events)
  its own file in the event store, are after the sweep what they were before it, whatever the bounds,
  the clock and the failures of the file system.\<close>

theorem retention_keeps_queued_evidence:
  assumes "breachable (b, fl)" "r \<in> set (queue b)" "well_named (files (estore w))"
    and "Sweep E now (disk b) (w, m) = (rep, w', m')"
  shows "(\<forall>n ev. capture (subm r) = Some ev \<and> path_ev ev = captures_abs (rcfg m) n \<and> has_suffix n ''.jpg'' \<longrightarrow>
        map_of (captures w') n = map_of (captures w) n)
    \<and> (\<forall>n ev. clip (subm r) = Some ev \<and> path_ev ev = clips_abs (rcfg m) n \<and> has_suffix n ''.mp4'' \<longrightarrow>
        map_of (clips w') n = map_of (clips w) n)
    \<and> (\<not> EvictPending (rcfg m) \<longrightarrow>
        map_of (files (estore w')) (json_name (event_uuid (event (subm r)))) =
        map_of (files (estore w)) (json_name (event_uuid (event (subm r)))))"
proof -
  let ?own = "refs_of_record r \<lparr>evidence_paths = [], event_uuids = [event_uuid (event (subm r))]\<rparr>"
  obtain pending where k: "sweep_retains E (rcfg m) pending w w'"
    and u: "event_uuid (event (subm r)) \<in> set (event_uuids pending)"
    and p: "\<And>ev. capture (subm r) = Some ev \<or> clip (subm r) = Some ev \<Longrightarrow> path_ev ev \<noteq> '''' \<Longrightarrow>
      path_ev ev \<in> set (evidence_paths pending)"
  proof (cases "LoadPendingReferences (disk b)")
    case None
    show ?thesis
      by (rule that [OF sweep_without_references [OF None assms(4), of ?own]])
        (auto simp: refs_of_record_def Let_def add_evidence_path_def split: option.splits)
  next
    case (Some pending)
    from sweep_keeps [OF assms(3) Some assms(4)] queued_references [OF assms(1,2) Some] show ?thesis
      by (rule that)
  qed
  have "captures_abs c n \<noteq> ''''" "clips_abs c n \<noteq> ''''" for c n by (simp_all add: captures_abs_def clips_abs_def)
  with k u p show ?thesis unfolding sweep_retains_def by metis
qed

definition sample_edge_disk :: edge_disk where
  "sample_edge_disk =
     \<lparr>estore = \<lparr>files = [(''e1.json'', event_node (\<lambda>_. 9) 0 (sample_edge_event ''e1''))], backlogCount = 1\<rparr>,
      captures = [], clips = [], outside = []\<rparr>"

theorem retention_keeps_queued_evidence_witness:
  "map_of (files (estore (fst (snd (Sweep no_faults_fs 9 (disk sample_one) (sample_edge_disk, sample_retention)))))) ''e1.json'' =
     Some (event_node (\<lambda>_. 9) 0 (sample_edge_event ''e1''))"
proof -
  let ?r = "sample_rec 1 ''e1'' ''cam''"
  obtain rep w' m' where s: "Sweep no_faults_fs 9 (disk sample_one) (sample_edge_disk, sample_retention) = (rep, w', m')"
    by (metis prod_cases3)
  have "?r \<in> set (queue sample_one)" by (simp add: sample_one_def)
  moreover have "well_named (files (estore sample_edge_disk))"
    by (simp add: sample_edge_disk_def well_named_def event_node_def sample_edge_event_def json_name_def)
  ultimately have "\<not> EvictPending (rcfg sample_retention) \<longrightarrow>
      map_of (files (estore w')) (json_name (event_uuid (event (subm ?r)))) =
      map_of (files (estore sample_edge_disk)) (json_name (event_uuid (event (subm ?r))))"
    using retention_keeps_queued_evidence [OF sample_reachable _ _ s] by blast
  then have "map_of (files (estore w')) ''e1.json'' = Some (event_node (\<lambda>_. 9) 0 (sample_edge_event ''e1''))"
    by (simp add: sample_edge_disk_def sample_retention_def sample_rec_def sample_sub_def sample_event_def json_name_def)
  then show ?thesis by (simp add: s)
qed

end
