(* ===== verification/Sampler.thy ===== *)
theory Sampler
  imports Edge_Prelude Complex_Main
begin

text \<open>
  \<open>processing/sampler.go\<close>: which decoded frames go on to inference or upload. Plain and adaptive samplers keep a
  minimum distance to the last frame they let through; the paced sampler keeps a schedule. The theorems bound the
  rate under any reconfiguration, and show that the paced sampler picks exactly one frame per interval.
\<close>

section \<open>State\<close>

text \<open>\<open>time.Duration(float64(time.Second) / fps)\<close> for a positive rate.\<close>

definition fps_interval :: "rat \<Rightarrow> duration" where
  "fps_interval fps = \<lfloor>of_int second / fps\<rfloor>"

record sampler =
  targetFPS :: rat
  sinterval :: duration
  idleInterval :: duration
  idleFPS :: rat
  idleAfter :: duration
  lastMotion :: gotime
  hasMotion :: bool
  lastEmit :: gotime
  hasEmit :: bool
  paced :: bool
  nextDue :: gotime

definition NewSampler :: "rat \<Rightarrow> sampler" where
  "NewSampler fps =
     \<lparr>targetFPS = fps, sinterval = (if fps > 0 then fps_interval fps else 0), idleInterval = 0, idleFPS = 0, idleAfter = 0,
      lastMotion = zero_time, hasMotion = False, lastEmit = zero_time, hasEmit = False, paced = False, nextDue = zero_time\<rparr>"

definition NewPacedSampler :: "rat \<Rightarrow> sampler" where
  "NewPacedSampler fps = (NewSampler fps)\<lparr>paced := True\<rparr>"

definition recomputeIdleIntervalLocked :: "sampler \<Rightarrow> sampler" where
  "recomputeIdleIntervalLocked s =
     (if idleFPS s > 0 \<and> idleFPS s < targetFPS s then s\<lparr>idleInterval := fps_interval (idleFPS s)\<rparr>
      else s\<lparr>idleInterval := 0\<rparr>)"

definition NewAdaptiveSampler :: "rat \<Rightarrow> rat \<Rightarrow> duration \<Rightarrow> sampler" where
  "NewAdaptiveSampler activeFPS idle after =
     recomputeIdleIntervalLocked ((NewSampler activeFPS)\<lparr>idleFPS := idle, idleAfter := after\<rparr>)"

text \<open>\<open>newPipelineSampler\<close> of \<open>processing/pipeline.go\<close>.\<close>

definition newPipelineSampler :: "bool \<Rightarrow> bool \<Rightarrow> rat \<Rightarrow> rat \<Rightarrow> duration \<Rightarrow> sampler" where
  "newPipelineSampler hybrid pacedSampling fps idle after =
     (if \<not> hybrid then if pacedSampling then NewPacedSampler fps else NewSampler fps
      else NewAdaptiveSampler fps idle after)"

section \<open>Operations\<close>

definition Sampler_SetTargetFPS :: "rat \<Rightarrow> sampler \<Rightarrow> sampler" where
  "Sampler_SetTargetFPS fps s =
     (let s1 = s\<lparr>targetFPS := fps, sinterval := (if fps > 0 then fps_interval fps else 0)\<rparr>;
          s2 = (if paced s1 \<and> hasEmit s1 then s1\<lparr>nextDue := lastEmit s1 + sinterval s1\<rparr> else s1)
      in recomputeIdleIntervalLocked s2)"

definition NoteMotion :: "gotime \<Rightarrow> bool \<Rightarrow> sampler \<Rightarrow> sampler" where
  "NoteMotion t candidate s =
     (if idleInterval s \<le> 0 \<or> \<not> candidate then s else s\<lparr>lastMotion := t, hasMotion := True\<rparr>)"

definition IsIdle :: "gotime \<Rightarrow> sampler \<Rightarrow> bool" where
  "IsIdle t s \<longleftrightarrow> idleInterval s > 0 \<and> (\<not> hasMotion s \<or> time_sub t (lastMotion s) \<ge> idleAfter s)"

definition currentIntervalLocked :: "gotime \<Rightarrow> sampler \<Rightarrow> duration" where
  "currentIntervalLocked t s =
     (if idleInterval s \<le> 0 then sinterval s
      else if \<not> hasMotion s \<or> time_sub t (lastMotion s) \<ge> idleAfter s then idleInterval s
      else sinterval s)"

definition ShouldEmit :: "gotime \<Rightarrow> sampler \<Rightarrow> bool \<times> sampler" where
  "ShouldEmit t s =
     (let iv = currentIntervalLocked t s
      in if iv \<le> 0 then (True, s)
         else if paced s \<and> idleInterval s \<le> 0 then
           (if hasEmit s \<and> t < nextDue s then (False, s)
            else let next = nextDue s + iv;
                     next' = (if \<not> hasEmit s \<or> next < t then t + iv else next)
                 in (True, s\<lparr>nextDue := next', lastEmit := t, hasEmit := True\<rparr>))
         else if \<not> hasEmit s \<or> time_sub t (lastEmit s) \<ge> iv then (True, s\<lparr>lastEmit := t, hasEmit := True\<rparr>)
         else (False, s))"

section \<open>Runs\<close>

datatype sampler_op = Frame_At gotime | Motion_At gotime bool | Set_Target rat

fun run_sampler :: "sampler_op list \<Rightarrow> sampler \<Rightarrow> gotime list \<times> sampler" where
  "run_sampler [] s = ([], s)"
| "run_sampler (Frame_At t # ops) s =
     (case ShouldEmit t s of (b, s1) \<Rightarrow>
        case run_sampler ops s1 of (es, s2) \<Rightarrow> (if b then t # es else es, s2))"
| "run_sampler (Motion_At t c # ops) s = run_sampler ops (NoteMotion t c s)"
| "run_sampler (Set_Target fps # ops) s = run_sampler ops (Sampler_SetTargetFPS fps s)"

section \<open>The ceiling\<close>

lemma fps_interval_mono: "0 < a \<Longrightarrow> a \<le> b \<Longrightarrow> fps_interval b \<le> fps_interval a"
  by (simp add: fps_interval_def floor_mono frac_le second_def)

text \<open>A sampler that keeps distance \<open>d\<close>: every interval it may apply is at least \<open>d\<close>.\<close>

definition spaced :: "duration \<Rightarrow> sampler \<Rightarrow> bool" where
  "spaced d s \<longleftrightarrow> \<not> paced s \<and> d \<le> sinterval s \<and> (idleInterval s > 0 \<longrightarrow> d \<le> idleInterval s)"

lemma spaced_recompute:
  assumes "\<not> paced s" "d \<le> sinterval s" "d \<le> fps_interval (targetFPS s)"
  shows "spaced d (recomputeIdleIntervalLocked s)"
  using assms fps_interval_mono [of "idleFPS s" "targetFPS s"] by (auto simp: spaced_def recomputeIdleIntervalLocked_def)

lemma spaced_target:
  assumes "spaced d s" "0 < fps" "fps \<le> ceiling_fps" "d = fps_interval ceiling_fps"
  shows "spaced d (Sampler_SetTargetFPS fps s)"
proof -
  have "d \<le> fps_interval fps" using fps_interval_mono assms(2-4) by simp
  then have "spaced d (recomputeIdleIntervalLocked (s\<lparr>targetFPS := fps, sinterval := fps_interval fps\<rparr>))"
    using assms(1) by (intro spaced_recompute) (simp_all add: spaced_def)
  then show ?thesis using assms(1,2) by (simp add: Sampler_SetTargetFPS_def spaced_def)
qed

lemma ShouldEmit_spaced:
  assumes "spaced d s" "0 < d" "ShouldEmit t s = (b, s')"
  shows "spaced d s'" "b \<Longrightarrow> hasEmit s' \<and> lastEmit s' = t" "\<not> b \<Longrightarrow> s' = s" "b \<Longrightarrow> hasEmit s \<Longrightarrow> lastEmit s + d \<le> t"
proof -
  have "d \<le> currentIntervalLocked t s" using assms(1) by (simp add: currentIntervalLocked_def spaced_def)
  moreover have "time_sub t (lastEmit s) \<ge> d \<Longrightarrow> lastEmit s + d \<le> t" using assms(2) by (auto simp: time_sub_def)
  ultimately show "spaced d s'" "b \<Longrightarrow> hasEmit s' \<and> lastEmit s' = t" "\<not> b \<Longrightarrow> s' = s" "b \<Longrightarrow> hasEmit s \<Longrightarrow> lastEmit s + d \<le> t"
    using assms by (auto simp: ShouldEmit_def Let_def spaced_def split: if_splits)
qed

fun targets_within :: "rat \<Rightarrow> sampler_op list \<Rightarrow> bool" where
  "targets_within m [] = True"
| "targets_within m (Set_Target f # ops) = (0 < f \<and> f \<le> m \<and> targets_within m ops)"
| "targets_within m (Frame_At t # ops) = targets_within m ops"
| "targets_within m (Motion_At t c # ops) = targets_within m ops"

lemma run_spaced:
  assumes "spaced (fps_interval m) s" "0 < fps_interval m" "targets_within m ops" "run_sampler ops s = (es, s')"
  shows "successively (\<lambda>t u. t + fps_interval m \<le> u) (if hasEmit s then lastEmit s # es else es)"
  using assms
proof (induction ops s arbitrary: es s' rule: run_sampler.induct)
  case (2 t ops s)
  obtain b s1 where e: "ShouldEmit t s = (b, s1)" by fastforce
  obtain es1 s2 where r: "run_sampler ops s1 = (es1, s2)" by fastforce
  note st = ShouldEmit_spaced [OF "2.prems"(1,2) e]
  have "successively (\<lambda>t u. t + fps_interval m \<le> u) (if hasEmit s1 then lastEmit s1 # es1 else es1)"
    using "2.IH" [OF e [symmetric]] "2.prems" st(1) r by simp
  then show ?case using st(2-4) "2.prems"(4) e r by (cases b) (auto simp: successively_Cons)
next
  case (3 t c ops s)
  then show ?case by (auto simp: NoteMotion_def spaced_def split: if_splits)
next
  case (4 f ops s)
  have "hasEmit (Sampler_SetTargetFPS f s) = hasEmit s" "lastEmit (Sampler_SetTargetFPS f s) = lastEmit s"
    by (simp_all add: Sampler_SetTargetFPS_def Let_def recomputeIdleIntervalLocked_def)
  moreover have "spaced (fps_interval m) (Sampler_SetTargetFPS f s)"
    using 4 by (intro spaced_target [of _ _ f m]) simp_all
  ultimately show ?case using 4 by (auto split: if_splits)
qed simp

text \<open>C29. The configured rate is a ceiling. An adaptive sampler, whatever its idle rate, and whatever frames and motion
  reports arrive and however its target is changed to positive rates not above \<open>m\<close>, never lets through two
  frames closer than the interval of \<open>m\<close>; in particular the idle rate never exceeds a lowered target.\<close>

theorem sampler_rate_ceiling:
  assumes "0 < fps" "fps \<le> m" "0 < fps_interval m" "targets_within m ops"
  shows "successively (\<lambda>t u. t + fps_interval m \<le> u) (fst (run_sampler ops (NewAdaptiveSampler fps idle after)))"
proof -
  let ?s = "NewAdaptiveSampler fps idle after"
  obtain es s' where r: "run_sampler ops ?s = (es, s')" by fastforce
  have "fps_interval m \<le> fps_interval fps" by (rule fps_interval_mono [OF assms(1,2)])
  then have "spaced (fps_interval m) ?s"
    unfolding NewAdaptiveSampler_def by (intro spaced_recompute) (simp_all add: NewSampler_def assms(1))
  moreover have "\<not> hasEmit ?s" by (simp add: NewAdaptiveSampler_def recomputeIdleIntervalLocked_def NewSampler_def)
  ultimately show ?thesis using run_spaced [OF _ assms(3,4) r] r by simp
qed

theorem sampler_rate_ceiling_witness:
  "successively (\<lambda>t u. t + 500000000 \<le> u)
     (fst (run_sampler [Frame_At 0, Set_Target 1, Frame_At 500000000, Frame_At 1000000000] (NewAdaptiveSampler 2 (3/2) second)))"
proof -
  have i: "fps_interval 2 = 500000000" by (simp add: fps_interval_def second_def)
  show ?thesis
    using sampler_rate_ceiling [of 2 2 "[Frame_At 0, Set_Target 1, Frame_At 500000000, Frame_At 1000000000]" "3/2" second]
    by (simp add: i)
qed

section \<open>The paced schedule\<close>

text \<open>One frame of a paced sampler whose next frame is due in slot \<open>k\<close>, the source being at least as fast as the
  target.\<close>

lemma paced_step:
  assumes "paced s" "idleInterval s = 0" "sinterval s = iv" "0 < iv" "hasEmit s" "nextDue s = a0 + k * iv"
    and "t < nextDue s + iv"
  shows "ShouldEmit t s = (if t < a0 + k * iv then (False, s) else (True, s\<lparr>nextDue := a0 + (k + 1) * iv, lastEmit := t\<rparr>))"
  using assms by (auto simp: ShouldEmit_def currentIntervalLocked_def Let_def algebra_simps)

lemma slot_of:
  assumes "0 < iv" "a0 + k * iv \<le> a" "a < a0 + (k + 1) * iv"
  shows "(a - a0) div iv = (k :: int)"
proof -
  obtain x where x: "a = a0 + k * iv + x" by (metis add_diff_cancel_left' add.commute diff_add_cancel)
  with assms have "0 \<le> x" "x < iv" by (simp_all add: algebra_simps)
  then show ?thesis using x assms(1) by simp
qed

lemma paced_slots:
  assumes "paced s" "idleInterval s = 0" "sinterval s = iv" "0 < iv" "hasEmit s" "nextDue s = a0 + k * iv"
    and "a0 + (k - 1) * iv \<le> a" "a < a0 + k * iv" "successively (\<lambda>t u. t \<le> u \<and> u \<le> t + iv) (a # ts)"
  shows "int (length (fst (run_sampler (map Frame_At ts) s))) = (last (a # ts) - a0) div iv + 1 - k
    \<and> (\<forall>i < length (fst (run_sampler (map Frame_At ts) s)).
         let e = fst (run_sampler (map Frame_At ts) s) ! i
         in e \<in> set ts \<and> a0 + (k + int i) * iv \<le> e \<and> e < a0 + (k + int i + 1) * iv)"
  using assms
proof (induction ts arbitrary: s k a)
  case Nil
  then show ?case using slot_of [of iv a0 "k - 1" a] by simp
next
  case (Cons t ts)
  have t: "a \<le> t" "t \<le> a + iv" and rest: "successively (\<lambda>t u. t \<le> u \<and> u \<le> t + iv) (t # ts)"
    using Cons.prems(9) by simp_all
  note step = paced_step [OF Cons.prems(1-6), of t]
  show ?case
  proof (cases "t < a0 + k * iv")
    case True
    then have "ShouldEmit t s = (False, s)" using step Cons.prems(4,6) by simp
    then show ?thesis
      using Cons.IH [OF Cons.prems(1-6) _ True rest] Cons.prems(7) t by (auto simp: Let_def split: prod.splits)
  next
    case False
    let ?s = "s\<lparr>nextDue := a0 + (k + 1) * iv, lastEmit := t\<rparr>"
    have e: "ShouldEmit t s = (True, ?s)" using step t Cons.prems(6,8) False by simp
    obtain es s' where r: "run_sampler (map Frame_At ts) ?s = (es, s')" by fastforce
    have up: "t < a0 + (k + 1) * iv" using t Cons.prems(8) by (simp add: algebra_simps)
    have "int (length es) = (last (t # ts) - a0) div iv + 1 - (k + 1)
      \<and> (\<forall>i < length es. let e = es ! i in e \<in> set ts \<and> a0 + (k + 1 + int i) * iv \<le> e \<and> e < a0 + (k + 1 + int i + 1) * iv)"
      using Cons.IH [of ?s "k + 1" t] Cons.prems(1-5) False up rest r by simp
    then show ?thesis using e r False up by (auto simp: Let_def less_Suc_eq_0_disj add_ac)
  qed
qed

text \<open>No drift. When frames arrive at least as often as the target interval, a paced sampler lets through exactly one
  frame per interval counted from the first frame, however irregular the arrivals: the \<open>i\<close>-th frame falls into
  the \<open>i\<close>-th interval, and their number is that of the intervals begun by the last arrival.\<close>

theorem paced_sampler_no_drift:
  assumes "0 < fps" "0 < fps_interval fps"
    and "successively (\<lambda>t u. t \<le> u \<and> u \<le> t + fps_interval fps) (t0 # ts)"
  shows "let es = fst (run_sampler (map Frame_At (t0 # ts)) (NewPacedSampler fps))
    in int (length es) = (last (t0 # ts) - t0) div fps_interval fps + 1
     \<and> (\<forall>i < length es. es ! i \<in> set (t0 # ts) \<and> t0 + int i * fps_interval fps \<le> es ! i
          \<and> es ! i < t0 + (int i + 1) * fps_interval fps)"
proof -
  let ?s = "(NewPacedSampler fps)\<lparr>nextDue := t0 + fps_interval fps, lastEmit := t0, hasEmit := True\<rparr>"
  have e: "ShouldEmit t0 (NewPacedSampler fps) = (True, ?s)"
    using assms(1,2) by (simp add: ShouldEmit_def currentIntervalLocked_def NewPacedSampler_def NewSampler_def Let_def)
  obtain es s' where r: "run_sampler (map Frame_At ts) ?s = (es, s')" by fastforce
  have "int (length es) = (last (t0 # ts) - t0) div fps_interval fps + 1 - 1
      \<and> (\<forall>i < length es. let e = es ! i in e \<in> set ts \<and> t0 + (1 + int i) * fps_interval fps \<le> e
           \<and> e < t0 + (1 + int i + 1) * fps_interval fps)"
    using paced_slots [of ?s "fps_interval fps" t0 1 t0 ts] assms r by (simp add: NewPacedSampler_def NewSampler_def)
  then show ?thesis using e r assms(2) by (auto simp: Let_def less_Suc_eq_0_disj add_ac)
qed

theorem paced_sampler_no_drift_witness:
  "length (fst (run_sampler (map Frame_At [0, 400000000, 800000000, 1200000000, 1600000000]) (NewPacedSampler 2))) = 4"
proof -
  have i: "fps_interval 2 = 500000000" by (simp add: fps_interval_def second_def)
  show ?thesis
    using paced_sampler_no_drift [of 2 0 "[400000000, 800000000, 1200000000, 1600000000]"] by (simp add: i Let_def)
qed

end
