(* ===== verification/Motion.thy ===== *)
theory Motion
  imports RemoteConfig Edge_Prelude
begin

text \<open>
  The two motion evaluators: \<open>MotionDetector\<close> of \<open>processing/motion.go\<close> (hybrid mode, frame against frame) and
  \<open>MotionGate\<close> of \<open>processing/motiongate.go\<close> (local inference, frame against a learned background). Luma means are
  exact rationals. Slices of pixels are indexed with a check: \<open>None\<close> stands for a panic.
\<close>

section \<open>Pixels\<close>

type_synonym luma = "nat list"

definition pixel :: "luma \<Rightarrow> nat \<Rightarrow> nat option" where
  "pixel y i = (if i < length y then Some (y ! i) else None)"

text \<open>Sum of the pixels at some positions, and their mean.\<close>

fun sum_pixels :: "luma \<Rightarrow> nat list \<Rightarrow> nat option" where
  "sum_pixels y [] = Some 0"
| "sum_pixels y (i # is) =
     (case (pixel y i, sum_pixels y is) of (Some p, Some s) \<Rightarrow> Some (p + s) | _ \<Rightarrow> None)"

definition mean_pixels :: "luma \<Rightarrow> nat list \<Rightarrow> rat option" where
  "mean_pixels y is = map_option (\<lambda>s. if is = [] then 0 else of_nat s / of_nat (length is)) (sum_pixels y is)"

section \<open>MotionDetector\<close>

record hybrid_config =
  BlockSize :: nat
  MotionThreshold :: rat
  MinChangedArea :: rat
  hyb_ROIs :: "roi list"

record motion_result =
  mr_Score :: rat
  mr_Candidate :: bool
  mr_Unevaluable :: bool

record motion_detector =
  md_cfg :: hybrid_config
  prevAvg :: "rat list option"
  prevW :: nat
  prevH :: nat
  md_roiMask :: "bool list"

definition NewMotionDetector :: "hybrid_config \<Rightarrow> motion_detector" where
  "NewMotionDetector c = \<lparr>md_cfg = c, prevAvg = None, prevW = 0, prevH = 0, md_roiMask = []\<rparr>"

definition Detector_SetROIs :: "roi list \<Rightarrow> motion_detector \<Rightarrow> motion_detector" where
  "Detector_SetROIs rois d = d\<lparr>md_cfg := (md_cfg d)\<lparr>hyb_ROIs := rois\<rparr>, prevW := 0, prevH := 0\<rparr>"

definition block_positions :: "nat \<Rightarrow> nat \<Rightarrow> nat \<Rightarrow> nat \<Rightarrow> nat \<Rightarrow> nat list" where
  "block_positions width height x0 y0 block =
     concat (map (\<lambda>yy. map (\<lambda>xx. yy * width + xx) [x0..<min (x0 + block) width]) [y0..<min (y0 + block) height])"

definition blockAvgLuma :: "luma \<Rightarrow> nat \<Rightarrow> nat \<Rightarrow> nat \<Rightarrow> nat \<Rightarrow> nat \<Rightarrow> rat option" where
  "blockAvgLuma y width height x0 y0 block = mean_pixels y (block_positions width height x0 y0 block)"

definition in_roi :: "rat \<Rightarrow> rat \<Rightarrow> roi \<Rightarrow> bool" where
  "in_roi cx cy r \<longleftrightarrow> cx \<ge> XMin r \<and> cx \<le> XMax r \<and> cy \<ge> YMin r \<and> cy \<le> YMax r"

definition computeROIMask :: "roi list \<Rightarrow> nat \<Rightarrow> nat \<Rightarrow> nat \<Rightarrow> nat \<Rightarrow> nat \<Rightarrow> bool list" where
  "computeROIMask rois blocksX blocksY block width height =
     (if rois = [] then []
      else concat (map (\<lambda>by. map (\<lambda>bx.
             let cx = (of_nat (bx * block) + of_nat block / 2) / of_nat width;
                 cy = (of_nat (by * block) + of_nat block / 2) / of_nat height
             in list_ex (in_roi cx cy) rois) [0..<blocksX]) [0..<blocksY]))"

text \<open>The averages of all blocks, row by row.\<close>

definition block_averages :: "luma \<Rightarrow> nat \<Rightarrow> nat \<Rightarrow> nat \<Rightarrow> nat \<Rightarrow> nat \<Rightarrow> rat list option" where
  "block_averages y width height block blocksX blocksY =
     those (concat (map (\<lambda>by. map (\<lambda>bx. blockAvgLuma y width height (bx * block) (by * block) block) [0..<blocksX]) [0..<blocksY]))"

text \<open>The comparison with the previous averages: changed and evaluated blocks. A missing index is a panic.\<close>

definition evaluated_blocks :: "bool list \<Rightarrow> rat list \<Rightarrow> rat list \<Rightarrow> (rat \<times> rat) list option" where
  "evaluated_blocks mk prev cur =
     (if length prev < length cur \<or> mk \<noteq> [] \<and> length mk < length cur then None
      else Some (map (\<lambda>i. (prev ! i, cur ! i)) (filter (\<lambda>i. mk = [] \<or> mk ! i) [0..<length cur])))"

definition Detector_Evaluate :: "luma \<Rightarrow> nat \<Rightarrow> nat \<Rightarrow> motion_detector \<Rightarrow> (motion_result \<times> motion_detector) option" where
  "Detector_Evaluate y width height d =
     (let c = md_cfg d; block = (if BlockSize c = 0 then 16 else BlockSize c)
      in if width = 0 \<or> height = 0 \<or> length y < width * height
         then Some (\<lparr>mr_Score = 0, mr_Candidate = False, mr_Unevaluable = True\<rparr>, d)
         else
           let blocksX = (width + block - 1) div block; blocksY = (height + block - 1) div block;
               d1 = (if width \<noteq> prevW d \<or> height \<noteq> prevH d
                     then d\<lparr>prevAvg := None, prevW := width, prevH := height,
                            md_roiMask := computeROIMask (hyb_ROIs c) blocksX blocksY block width height\<rparr>
                     else d)
           in case block_averages y width height block blocksX blocksY of
                None \<Rightarrow> None
              | Some cur \<Rightarrow>
                  (case prevAvg d1 of
                     None \<Rightarrow> Some (\<lparr>mr_Score = 0, mr_Candidate = False, mr_Unevaluable = False\<rparr>, d1\<lparr>prevAvg := Some cur\<rparr>)
                   | Some prev \<Rightarrow>
                       (case evaluated_blocks (md_roiMask d1) prev cur of
                          None \<Rightarrow> None
                        | Some bs \<Rightarrow>
                            (let changed = length (filter (\<lambda>(p, a). \<bar>a - p\<bar> > MotionThreshold c) bs);
                                 score = (if bs = [] then 0 else of_nat changed / of_nat (length bs))
                             in Some (\<lparr>mr_Score = score, mr_Candidate = (score \<ge> MinChangedArea c), mr_Unevaluable = False\<rparr>,
                                      d1\<lparr>prevAvg := Some cur\<rparr>)))))"

end
