(* ===== verification/MotionGate.thy ===== *)
theory MotionGate
  imports Motion
begin

text \<open>
  \<open>MotionGate\<close> of \<open>processing/motiongate.go\<close>: the decoded frame reduced to a 32x18 grid, compared with a learned
  background under a noise threshold per cell, and the state machine that reports activity. Latencies are durations
  where the status has milliseconds. The wall-clock cost figures and the evaluated rate are left out.
\<close>

section \<open>Configuration\<close>

definition motionGateCellsX :: nat where "motionGateCellsX = 32"
definition motionGateCellsY :: nat where "motionGateCellsY = 18"
definition motionGateStride :: nat where "motionGateStride = 2"

definition ncells :: nat where "ncells = motionGateCellsX * motionGateCellsY"

record gate_config =
  Sensitivity :: string
  MinDelta :: rat
  MinCells :: int
  Persist :: int
  Hold :: duration
  cfg_LightingShift :: rat
  GlobalChangeFraction :: rat
  WarmupFrames :: int
  StillAbsorb :: duration
  NewAppearanceGap :: duration
  gate_ROIs :: "roi list"

definition withDefaults :: "gate_config \<Rightarrow> gate_config" where
  "withDefaults c =
     c\<lparr>MinDelta := (if MinDelta c \<le> 0 then 4 else MinDelta c),
       MinCells := (if MinCells c \<le> 0 then 2 else MinCells c),
       Persist := (if Persist c \<le> 0 then 2 else Persist c),
       Hold := (if Hold c \<le> 0 then second else Hold c),
       cfg_LightingShift := (if cfg_LightingShift c \<le> 0 then 8 else cfg_LightingShift c),
       GlobalChangeFraction := (if GlobalChangeFraction c \<le> 0 then 3 / 5 else GlobalChangeFraction c),
       WarmupFrames := (if WarmupFrames c \<le> 0 then 10 else WarmupFrames c),
       StillAbsorb := (if StillAbsorb c \<le> 0 then second else StillAbsorb c),
       NewAppearanceGap := (if NewAppearanceGap c \<le> 0 then 5 * second else NewAppearanceGap c)\<rparr>"

definition noiseFactor :: "gate_config \<Rightarrow> rat" where
  "noiseFactor c = (if Sensitivity c = ''high'' then 3 else if Sensitivity c = ''low'' then 6 else 4)"

definition gateROIMask :: "roi list \<Rightarrow> bool list option" where
  "gateROIMask rois =
     (if rois = [] then None
      else Some (concat (map (\<lambda>cy. map (\<lambda>cx.
             list_ex (in_roi ((of_nat cx + 1 / 2) / of_nat motionGateCellsX) ((of_nat cy + 1 / 2) / of_nat motionGateCellsY)) rois)
             [0..<motionGateCellsX]) [0..<motionGateCellsY])))"

section \<open>State\<close>

datatype gate_mode = Warming | Idle | Active

text \<open>An episode ends at \<open>zero_time\<close> while it is open.\<close>

record episode =
  ep_start :: gotime
  ep_end :: gotime
  detected :: bool

record gate_status =
  Score :: rat
  ActiveCells :: nat
  FramesEvaluated :: int
  FramesSkipped :: int
  NoiseFloorAvg :: rat
  st_LightingShift :: rat
  Activations :: int
  AbsorbedCells :: int
  LightingCompensations :: int
  GlobalChanges :: int
  LastActivationAt :: "gotime option"
  LastActivationLatency :: duration
  MaxActivationLatency :: duration
  ActiveTotal :: duration
  DetectionsObserved :: int
  DetectionsWhileActive :: int
  NewAppearances :: int
  NewAppearancesWithMotion :: int
  LastAppearanceLead :: duration
  EpisodesWithDetection :: int
  EpisodesWithoutDetection :: int

text \<open>\<open>bg\<close>, \<open>noise\<close>, \<open>prev\<close> and \<open>still\<close> are allocated together by the first frame; before that they are nil, here empty.\<close>

record gate =
  gcfg :: gate_config
  groiMask :: "bool list option"
  bg :: "rat list"
  noise :: "rat list"
  prev :: "rat list"
  still :: "gotime list"
  warm :: int
  gmode :: gate_mode
  streak :: int
  streakAt :: gotime
  lastCand :: gotime
  episodes :: "episode list"
  lastDet :: gotime
  gst :: gate_status

definition zero_status :: gate_status where
  "zero_status = \<lparr>Score = 0, ActiveCells = 0, FramesEvaluated = 0, FramesSkipped = 0, NoiseFloorAvg = 0, st_LightingShift = 0,
     Activations = 0, AbsorbedCells = 0, LightingCompensations = 0, GlobalChanges = 0, LastActivationAt = None,
     LastActivationLatency = 0, MaxActivationLatency = 0, ActiveTotal = 0, DetectionsObserved = 0, DetectionsWhileActive = 0,
     NewAppearances = 0, NewAppearancesWithMotion = 0, LastAppearanceLead = 0, EpisodesWithDetection = 0,
     EpisodesWithoutDetection = 0\<rparr>"

definition NewMotionGate :: "gate_config \<Rightarrow> gate" where
  "NewMotionGate c =
     (let d = withDefaults c
      in \<lparr>gcfg = d, groiMask = gateROIMask (gate_ROIs d), bg = [], noise = [], prev = [], still = [], warm = 0, gmode = Warming,
          streak = 0, streakAt = zero_time, lastCand = zero_time, episodes = [], lastDet = zero_time, gst = zero_status\<rparr>)"

definition SetSensitivity :: "string \<Rightarrow> gate \<Rightarrow> gate" where
  "SetSensitivity s g = g\<lparr>gcfg := (gcfg g)\<lparr>Sensitivity := s\<rparr>\<rparr>"

definition Gate_SetROIs :: "roi list \<Rightarrow> gate \<Rightarrow> gate" where
  "Gate_SetROIs rois g = g\<lparr>gcfg := (gcfg g)\<lparr>gate_ROIs := rois\<rparr>, groiMask := gateROIMask rois\<rparr>"

text \<open>\<open>Offer\<close>: the inbox holds one frame; a frame that finds it full is counted and skipped.\<close>

definition Offer :: "'f \<Rightarrow> 'f option \<times> gate \<Rightarrow> 'f option \<times> gate" where
  "Offer f ig =
     (case ig of (None, g) \<Rightarrow> (Some f, g)
      | (Some f', g) \<Rightarrow> (Some f', g\<lparr>gst := (gst g)\<lparr>FramesSkipped := FramesSkipped (gst g) + 1\<rparr>\<rparr>))"

section \<open>The grid\<close>

text \<open>The positions a loop \<open>for v := a; v < b; v += stride\<close> visits.\<close>

definition stride_range :: "nat \<Rightarrow> nat \<Rightarrow> nat list" where
  "stride_range a b = map (\<lambda>k. a + motionGateStride * k) [0..<(b - a + (motionGateStride - 1)) div motionGateStride]"

definition cell_rows :: "nat \<Rightarrow> nat \<Rightarrow> nat list" where
  "cell_rows h cy = stride_range (cy * h div motionGateCellsY) ((cy + 1) * h div motionGateCellsY)"

definition cell_positions :: "nat \<Rightarrow> nat \<Rightarrow> nat \<Rightarrow> nat \<Rightarrow> nat list" where
  "cell_positions w h cx cy =
     concat (map (\<lambda>yy. map (\<lambda>xx. yy * w + xx) (stride_range (cx * w div motionGateCellsX) ((cx + 1) * w div motionGateCellsX)))
       (cell_rows h cy))"

text \<open>\<open>row := y[yy*w : yy*w+w]\<close> needs the whole row, \<open>row[xx]\<close> the pixel. A cell has at least one pixel
  (\<open>cell_positions_nonempty\<close>), so the division is by a positive number.\<close>

definition cell_mean :: "luma \<Rightarrow> nat \<Rightarrow> nat \<Rightarrow> nat \<Rightarrow> nat \<Rightarrow> rat option" where
  "cell_mean y w h cx cy =
     (if list_ex (\<lambda>yy. length y < yy * w + w) (cell_rows h cy) then None else mean_pixels y (cell_positions w h cx cy))"

text \<open>\<open>Inl ()\<close> is a frame too small for the grid, \<open>Inr None\<close> a panic.\<close>

definition cellMeans :: "luma \<Rightarrow> nat \<Rightarrow> nat \<Rightarrow> unit + rat list option" where
  "cellMeans y w h =
     (if w < motionGateCellsX \<or> h < motionGateCellsY \<or> length y < w * h then Inl ()
      else Inr (those (concat (map (\<lambda>cy. map (\<lambda>cx. cell_mean y w h cx cy) [0..<motionGateCellsX])
             [0..<motionGateCellsY]))))"

definition median :: "rat list \<Rightarrow> rat" where
  "median v = (let s = sort v; m = length s div 2 in if odd (length s) then s ! m else (s ! (m - 1) + s ! m) / 2)"

section \<open>The state machine\<close>

definition seedLocked :: "rat list \<Rightarrow> gate \<Rightarrow> gate" where
  "seedLocked means g =
     (if bg g = []
      then g\<lparr>bg := means, prev := means, noise := replicate (length means) 1, still := replicate (length means) zero_time\<rparr>
      else g\<lparr>bg := means, prev := means\<rparr>)"

text \<open>\<open>advanceLocked\<close>; \<open>None\<close> is the panic of \<open>g.episodes[len(g.episodes)-1]\<close> on an empty slice.\<close>

definition advanceLocked :: "gotime \<Rightarrow> bool \<Rightarrow> gate \<Rightarrow> gate option" where
  "advanceLocked t candidate g0 =
     (let g = (if candidate
               then g0\<lparr>streakAt := (if streak g0 = 0 then t else streakAt g0), streak := streak g0 + 1, lastCand := t\<rparr>
               else g0\<lparr>streak := 0\<rparr>)
      in case gmode g of
           Warming \<Rightarrow> Some g
         | Idle \<Rightarrow>
             Some (if streak g \<ge> Persist (gcfg g)
                   then let eps = episodes g @ [\<lparr>ep_start = t, ep_end = zero_time, detected = False\<rparr>];
                            lat = time_sub t (streakAt g)
                        in g\<lparr>gmode := Active,
                             gst := (gst g)\<lparr>Activations := Activations (gst g) + 1, LastActivationAt := Some t, LastActivationLatency := lat,
                               MaxActivationLatency := (if lat > MaxActivationLatency (gst g) then lat else MaxActivationLatency (gst g))\<rparr>,
                             episodes := (if length eps > 64 then tl eps else eps)\<rparr>
                   else g)
         | Active \<Rightarrow>
             if \<not> candidate \<and> time_sub t (lastCand g) \<ge> Hold (gcfg g)
             then if episodes g = [] then None
                  else let ep = last (episodes g); st = gst g;
                           st1 = st\<lparr>ActiveTotal := ActiveTotal st + time_sub t (ep_start ep)\<rparr>
                       in Some (g\<lparr>gmode := Idle, episodes := butlast (episodes g) @ [ep\<lparr>ep_end := t\<rparr>],
                            gst := (if detected ep then st1\<lparr>EpisodesWithDetection := EpisodesWithDetection st + 1\<rparr>
                                    else st1\<lparr>EpisodesWithoutDetection := EpisodesWithoutDetection st + 1\<rparr>)\<rparr>)
             else Some g)"

section \<open>Evaluate\<close>

definition in_mask :: "bool list option \<Rightarrow> nat \<Rightarrow> bool" where
  "in_mask m i \<longleftrightarrow> (case m of None \<Rightarrow> True | Some b \<Rightarrow> b ! i)"

definition mask_cells :: "gate \<Rightarrow> nat list" where
  "mask_cells g = filter (in_mask (groiMask g)) [0..<ncells]"

datatype verdict = Quiet | Changed gotime | Absorbed

text \<open>What the loop decides for an evaluated cell: within its threshold, changed (with the instant it stopped moving,
  \<open>zero_time\<close> if it still moves), or still for so long that it is taken into the background.\<close>

definition judge_cell :: "gate \<Rightarrow> rat list \<Rightarrow> rat \<Rightarrow> rat \<Rightarrow> gotime \<Rightarrow> nat \<Rightarrow> verdict" where
  "judge_cell g means shift frameShift t i =
     (let thr = max (noiseFactor (gcfg g) * noise g ! i) (MinDelta (gcfg g))
      in if \<bar>means ! i - bg g ! i - shift\<bar> \<le> thr then Quiet
         else if \<bar>means ! i - prev g ! i - frameShift\<bar> > thr then Changed zero_time
         else if still g ! i = zero_time then Changed t
         else if time_sub t (still g ! i) \<ge> StillAbsorb (gcfg g) then Absorbed
         else Changed (still g ! i))"

definition changed_cell :: "(nat \<Rightarrow> verdict option) \<Rightarrow> nat \<Rightarrow> bool" where
  "changed_cell v i \<longleftrightarrow> (case v i of Some (Changed s) \<Rightarrow> True | _ \<Rightarrow> False)"

text \<open>Spatial coherence: a changed cell with a changed neighbour.\<close>

definition clustered :: "(nat \<Rightarrow> bool) \<Rightarrow> nat \<Rightarrow> bool" where
  "clustered changed i \<longleftrightarrow>
     (let cx = i mod motionGateCellsX; cy = i div motionGateCellsX
      in changed i \<and>
         (cx > 0 \<and> changed (i - 1) \<or> cx < motionGateCellsX - 1 \<and> changed (i + 1) \<or>
          cy > 0 \<and> changed (i - motionGateCellsX) \<or> cy < motionGateCellsY - 1 \<and> changed (i + motionGateCellsX)))"

definition still_after :: "gate \<Rightarrow> (nat \<Rightarrow> verdict option) \<Rightarrow> nat \<Rightarrow> gotime" where
  "still_after g v i = (case v i of None \<Rightarrow> still g ! i | Some (Changed s) \<Rightarrow> s | Some _ \<Rightarrow> zero_time)"

definition bg_after :: "gate \<Rightarrow> rat list \<Rightarrow> rat \<Rightarrow> (nat \<Rightarrow> verdict option) \<Rightarrow> nat \<Rightarrow> rat" where
  "bg_after g means shift v i = (if v i = Some Absorbed then means ! i - shift else bg g ! i)"

text \<open>The learning loop on one cell: the new background and the new noise floor.\<close>

definition learn_bg :: "rat list \<Rightarrow> rat \<Rightarrow> bool \<Rightarrow> nat \<Rightarrow> rat \<Rightarrow> rat" where
  "learn_bg means shift cl i b = b + shift + (if cl then 1 / 100 else 1 / 20) * (means ! i - b - shift)"

definition learn_noise :: "rat list \<Rightarrow> rat \<Rightarrow> bool \<Rightarrow> nat \<Rightarrow> rat \<Rightarrow> rat \<Rightarrow> rat" where
  "learn_noise means shift cl i b nz =
     (if cl then nz else max (1 / 2) (nz + 1 / 20 * (\<bar>means ! i - b - shift\<bar> - nz)))"

definition learn :: "rat list \<Rightarrow> rat \<Rightarrow> (nat \<Rightarrow> verdict option) \<Rightarrow> gate \<Rightarrow> gate" where
  "learn means shift v g =
     (let b = bg_after g means shift v; cl = clustered (changed_cell v);
          nz = map (\<lambda>i. learn_noise means shift (cl i) i (b i) (noise g ! i)) [0..<ncells]
      in g\<lparr>bg := map (\<lambda>i. learn_bg means shift (cl i) i (b i)) [0..<ncells], noise := nz,
           still := map (still_after g v) [0..<ncells], prev := means,
           gst := (gst g)\<lparr>NoiseFloorAvg := sum_list nz / of_nat ncells\<rparr>\<rparr>)"

definition judge :: "gate \<Rightarrow> rat list \<Rightarrow> gotime \<Rightarrow> rat \<times> (nat \<Rightarrow> verdict option)" where
  "judge g means t =
     (let cells = mask_cells g;
          shift = median (map (\<lambda>i. means ! i - bg g ! i) cells);
          frameShift = median (map (\<lambda>i. means ! i - prev g ! i) cells)
      in (shift, \<lambda>i. if i \<in> set cells then Some (judge_cell g means shift frameShift t i) else None))"

text \<open>\<open>Evaluate\<close> from the cell means on.\<close>

definition evaluate_means :: "rat list \<Rightarrow> gotime \<Rightarrow> gate \<Rightarrow> gate option" where
  "evaluate_means means t g0 =
     (let g1 = g0\<lparr>gst := (gst g0)\<lparr>FramesEvaluated := FramesEvaluated (gst g0) + 1\<rparr>\<rparr>
      in if bg g1 = [] \<or> warm g1 < WarmupFrames (gcfg g1) then Some ((seedLocked means g1)\<lparr>warm := warm g1 + 1\<rparr>)
         else
           let g = (if gmode g1 = Warming then g1\<lparr>gmode := Idle\<rparr> else g1);
               cells = mask_cells g
           in if cells = [] then Some g
              else case judge g means t of (shift, v) \<Rightarrow>
                let absorbed = length (filter (\<lambda>i. v i = Some Absorbed) [0..<ncells]);
                    active = length (filter (clustered (changed_cell v)) [0..<ncells]);
                    frac = of_nat active / of_nat (length cells);
                    g2 = g\<lparr>gst := (gst g)\<lparr>st_LightingShift := shift,
                        LightingCompensations := LightingCompensations (gst g) + (if \<bar>shift\<bar> \<ge> cfg_LightingShift (gcfg g) then 1 else 0),
                        AbsorbedCells := AbsorbedCells (gst g) + int absorbed\<rparr>\<rparr>
                in if frac > GlobalChangeFraction (gcfg g)
                   then advanceLocked t False
                     ((seedLocked means g2)\<lparr>still := replicate ncells zero_time,
                        gst := (gst g2)\<lparr>GlobalChanges := GlobalChanges (gst g2) + 1, Score := 0, ActiveCells := 0\<rparr>\<rparr>)
                   else
                     let g3 = learn means shift v g2
                     in advanceLocked t (int active \<ge> MinCells (gcfg g))
                          (g3\<lparr>gst := (gst g3)\<lparr>Score := frac, ActiveCells := active\<rparr>\<rparr>))"

definition Gate_Evaluate :: "luma \<Rightarrow> nat \<Rightarrow> nat \<Rightarrow> gotime \<Rightarrow> gate \<Rightarrow> gate option" where
  "Gate_Evaluate y w h t g =
     (case cellMeans y w h of
        Inl _ \<Rightarrow> Some g
      | Inr None \<Rightarrow> None
      | Inr (Some means) \<Rightarrow> evaluate_means means t g)"

section \<open>Correlation with detections\<close>

text \<open>\<open>episodeAtLocked\<close>: the index of the episode active at \<open>t\<close>, searched from the newest, with half a second of slack.\<close>

definition slack :: duration where "slack = 500000000"

fun episode_at :: "gotime \<Rightarrow> (nat \<times> episode) list \<Rightarrow> nat option" where
  "episode_at t [] = None"
| "episode_at t ((i, ep) # eps) =
     (if t < ep_start ep - slack then episode_at t eps
      else if ep_end ep = zero_time \<or> t \<le> ep_end ep then Some i else None)"

definition episodeAtLocked :: "gotime \<Rightarrow> gate \<Rightarrow> nat option" where
  "episodeAtLocked t g = episode_at t (rev (enumerate 0 (episodes g)))"

definition ObserveDetection :: "gotime \<Rightarrow> gate \<Rightarrow> gate" where
  "ObserveDetection t g0 =
     (let st = (gst g0)\<lparr>DetectionsObserved := DetectionsObserved (gst g0) + 1\<rparr>;
          at_ep = episodeAtLocked t g0;
          g1 = (case at_ep of
                  None \<Rightarrow> g0\<lparr>gst := st\<rparr>
                | Some i \<Rightarrow>
                    (let ep = episodes g0 ! i;
                         st1 = st\<lparr>DetectionsWhileActive := DetectionsWhileActive st + 1\<rparr>;
                         st2 = (if \<not> detected ep \<and> ep_end ep \<noteq> zero_time
                                then st1\<lparr>EpisodesWithoutDetection := EpisodesWithoutDetection st1 - 1,
                                         EpisodesWithDetection := EpisodesWithDetection st1 + 1\<rparr>
                                else st1)
                     in g0\<lparr>gst := st2, episodes := (episodes g0)[i := ep\<lparr>detected := True\<rparr>]\<rparr>));
          g2 = (if lastDet g0 = zero_time \<or> time_sub t (lastDet g0) \<ge> NewAppearanceGap (gcfg g0)
                then g1\<lparr>gst := (gst g1)\<lparr>NewAppearances := NewAppearances (gst g1) + 1,
                       NewAppearancesWithMotion := NewAppearancesWithMotion (gst g1) + (if at_ep \<noteq> None then 1 else 0),
                       LastAppearanceLead := (case at_ep of None \<Rightarrow> LastAppearanceLead (gst g1) | Some i \<Rightarrow> time_sub t (ep_start (episodes g0 ! i)))\<rparr>\<rparr>
                else g1)
      in if t > lastDet g0 then g2\<lparr>lastDet := t\<rparr> else g2)"

end
