(* ===== verification/MotionGate_Props.thy ===== *)
theory MotionGate_Props
  imports MotionGate
begin

text \<open>
  The motion evaluators never index out of range, their figures are consistent over any frames, detections and
  reconfigurations, and the gate's state is a hysteresis over candidate frames. A lighting change of the whole scene
  is no motion; a region that contains no cell centre makes a gate blind.
\<close>

lemmas grid_defs = motionGateCellsX_def motionGateCellsY_def motionGateStride_def ncells_def

section \<open>Indices\<close>

lemma sum_pixels_total: "(\<And>i. i \<in> set is \<Longrightarrow> i < length y) \<Longrightarrow> \<exists>s. sum_pixels y is = Some s"
  by (induction "is") (force simp: pixel_def)+

lemma mean_pixels_total: "(\<And>i. i \<in> set is \<Longrightarrow> i < length y) \<Longrightarrow> \<exists>m. mean_pixels y is = Some m"
  using sum_pixels_total by (fastforce simp: mean_pixels_def)

lemma those_total:
  assumes "\<And>x. x \<in> set xs \<Longrightarrow> \<exists>y. x = Some y"
  shows "\<exists>ys. those xs = Some ys \<and> length ys = length xs"
  using assms
proof (induction xs)
  case (Cons x xs)
  obtain y where "x = Some y" using Cons.prems by auto
  moreover obtain ys where "those xs = Some ys" "length ys = length xs" using Cons by auto
  ultimately show ?case by simp
qed simp

lemma pixel_in_frame:
  assumes "yy < h" "xx < (w :: nat)" "w * h \<le> n"
  shows "yy * w + xx < n" "yy * w + w \<le> n"
proof -
  have "yy * w + w \<le> h * w" using assms(1) by (metis Suc_leI add.commute mult_Suc mult_le_mono1)
  then show "yy * w + xx < n" "yy * w + w \<le> n" using assms(2,3) by (simp_all add: mult.commute)
qed

lemma set_stride_range: "x \<in> set (stride_range a b) \<Longrightarrow> a \<le> x \<and> x < b"
  by (auto simp: stride_range_def motionGateStride_def)

lemma stride_range_start: "a < b \<Longrightarrow> a \<in> set (stride_range a b)"
  by (force simp: stride_range_def motionGateStride_def image_iff)

lemma cell_end: "c < n \<Longrightarrow> (c + 1) * w div n \<le> (w :: nat)"
proof -
  assume "c < n"
  then have "(c + 1) * w \<le> n * w" by (intro mult_le_mono1) simp
  then have "(c + 1) * w div n \<le> n * w div n" by (rule div_le_mono)
  then show ?thesis using \<open>c < n\<close> by simp
qed

lemma cell_width: "n \<le> w \<Longrightarrow> 0 < n \<Longrightarrow> c * w div n < (c + 1) * w div (n :: nat)"
proof -
  assume "n \<le> w" "0 < n"
  have "c * w div n + 1 = (c * w + n) div n" using \<open>0 < n\<close> by simp
  also have "\<dots> \<le> (c + 1) * w div n" using \<open>n \<le> w\<close> by (intro div_le_mono) simp
  finally show ?thesis by simp
qed

lemma cell_rows_below: "yy \<in> set (cell_rows h cy) \<Longrightarrow> cy < motionGateCellsY \<Longrightarrow> yy < h"
  using set_stride_range [of yy "cy * h div motionGateCellsY" "(cy + 1) * h div motionGateCellsY"] cell_end [of cy motionGateCellsY h]
  by (simp add: cell_rows_def)

lemma cell_mean_total:
  assumes "w * h \<le> length y" "cx < motionGateCellsX" "cy < motionGateCellsY" "0 < w"
  shows "\<exists>m. cell_mean y w h cx cy = Some m"
proof -
  have "i < length y" if "i \<in> set (cell_positions w h cx cy)" for i
  proof -
    from that obtain yy xx where i: "i = yy * w + xx" "yy \<in> set (cell_rows h cy)"
      "xx \<in> set (stride_range (cx * w div motionGateCellsX) ((cx + 1) * w div motionGateCellsX))"
      by (auto simp: cell_positions_def)
    have "xx < w" using set_stride_range [OF i(3)] cell_end [OF assms(2), of w] by simp
    then show ?thesis using pixel_in_frame(1) [OF cell_rows_below [OF i(2) assms(3)] _ assms(1)] i(1) by simp
  qed
  moreover have "\<not> list_ex (\<lambda>yy. length y < yy * w + w) (cell_rows h cy)"
    using pixel_in_frame(2) [OF cell_rows_below assms(4,1)] assms(3) by (fastforce simp: list_ex_iff)
  ultimately show ?thesis using mean_pixels_total by (simp add: cell_mean_def)
qed

lemma cell_positions_nonempty:
  assumes "motionGateCellsX \<le> w" "motionGateCellsY \<le> h"
  shows "cell_positions w h cx cy \<noteq> []"
proof -
  have "cy * h div motionGateCellsY \<in> set (cell_rows h cy)" unfolding cell_rows_def
    by (rule stride_range_start, rule cell_width) (use assms in \<open>simp_all add: grid_defs\<close>)
  moreover have "cx * w div motionGateCellsX \<in> set (stride_range (cx * w div motionGateCellsX) ((cx + 1) * w div motionGateCellsX))"
    by (rule stride_range_start, rule cell_width) (use assms in \<open>simp_all add: grid_defs\<close>)
  ultimately have "cy * h div motionGateCellsY * w + cx * w div motionGateCellsX \<in> set (cell_positions w h cx cy)"
    unfolding cell_positions_def by auto
  then show ?thesis by auto
qed

lemma length_grid: "length (concat (map (\<lambda>cy. map (\<lambda>cx. f cx cy) [0..<a]) [0..<b])) = a * b"
  by (induction b) simp_all

lemma cellMeans_total:
  obtains "cellMeans y w h = Inl ()" | means where "cellMeans y w h = Inr (Some means)" "length means = ncells"
proof (cases "w < motionGateCellsX \<or> h < motionGateCellsY \<or> length y < w * h")
  case True
  then show ?thesis using that(1) by (simp add: cellMeans_def)
next
  case False
  then have "0 < w" by (simp add: grid_defs)
  let ?xs = "concat (map (\<lambda>cy. map (\<lambda>cx. cell_mean y w h cx cy) [0..<motionGateCellsX]) [0..<motionGateCellsY])"
  have "\<exists>m. x = Some m" if "x \<in> set ?xs" for x
    using that cell_mean_total [of w h y] False \<open>0 < w\<close> by auto
  from those_total [OF this] obtain means where "those ?xs = Some means" "length means = length ?xs" by blast
  then have "cellMeans y w h = Inr (Some means)" "length means = ncells"
    using False length_grid [of "cell_mean y w h" motionGateCellsX motionGateCellsY] by (simp_all add: cellMeans_def ncells_def)
  then show ?thesis by (rule that(2))
qed


section \<open>The invariant of the gate\<close>

definition grid_ok :: "gate \<Rightarrow> bool" where
  "grid_ok g \<longleftrightarrow>
     (bg g = [] \<and> gmode g = Warming \<or>
      length (bg g) = ncells \<and> length (noise g) = ncells \<and> length (prev g) = ncells \<and> length (still g) = ncells)
     \<and> (\<forall>m. groiMask g = Some m \<longrightarrow> length m = ncells) \<and> (\<forall>x \<in> set (noise g). 1 / 2 \<le> x)"

definition config_ok :: "gate_config \<Rightarrow> bool" where
  "config_ok c \<longleftrightarrow> 0 < MinDelta c \<and> 0 < MinCells c \<and> 0 < Persist c \<and> 0 < Hold c \<and> 0 < GlobalChangeFraction c"

definition ended :: "episode \<Rightarrow> bool" where
  "ended ep \<longleftrightarrow> ep_end ep \<noteq> zero_time"

definition ended_with :: "bool \<Rightarrow> gate \<Rightarrow> nat" where
  "ended_with d g = length (filter (\<lambda>ep. ended ep \<and> detected ep = d) (episodes g))"

definition episodes_ok :: "gate \<Rightarrow> bool" where
  "episodes_ok g \<longleftrightarrow>
     length (episodes g) \<le> 64 \<and> list_all ended (butlast (episodes g))
     \<and> (gmode g = Active \<longleftrightarrow> episodes g \<noteq> [] \<and> \<not> ended (last (episodes g)))
     \<and> EpisodesWithDetection (gst g) + EpisodesWithoutDetection (gst g) = Activations (gst g) - (if gmode g = Active then 1 else 0)
     \<and> int (ended_with True g) \<le> EpisodesWithDetection (gst g) \<and> int (ended_with False g) \<le> EpisodesWithoutDetection (gst g)"

definition gate_inv :: "gate \<Rightarrow> bool" where
  "gate_inv g \<longleftrightarrow> grid_ok g \<and> config_ok (gcfg g) \<and> episodes_ok g"

text \<open>The episodes depend only on the fields that follow.\<close>

lemma episodes_ok_cong:
  assumes "episodes g' = episodes g" "gmode g' = gmode g \<or> gmode g = Warming \<and> gmode g' = Idle"
    "EpisodesWithDetection (gst g') = EpisodesWithDetection (gst g)" "Activations (gst g') = Activations (gst g)"
    "EpisodesWithoutDetection (gst g') = EpisodesWithoutDetection (gst g)"
  shows "episodes_ok g \<Longrightarrow> episodes_ok g'"
  using assms by (auto simp: episodes_ok_def ended_with_def)

lemma length_gateROIMask: "gateROIMask rois = Some m \<Longrightarrow> length m = ncells"
  using length_grid [of "\<lambda>cx cy. list_ex (in_roi ((of_nat cx + 1 / 2) / of_nat motionGateCellsX) ((of_nat cy + 1 / 2) / of_nat motionGateCellsY)) rois"
      motionGateCellsX motionGateCellsY]
  by (auto simp: gateROIMask_def ncells_def split: if_splits)

lemma gate_inv_new: "gate_inv (NewMotionGate c)"
  using length_gateROIMask
  by (auto simp: gate_inv_def NewMotionGate_def Let_def grid_ok_def config_ok_def withDefaults_def second_def
      episodes_ok_def ended_with_def zero_status_def)

text \<open>Opening and closing an episode.\<close>

lemma episodes_open:
  assumes "episodes_ok g" "gmode g \<noteq> Active" "gmode g' = Active"
    and "episodes g' = (let eps = episodes g @ [\<lparr>ep_start = t, ep_end = zero_time, detected = False\<rparr>] in if length eps > 64 then tl eps else eps)"
    and "Activations (gst g') = Activations (gst g) + 1 \<and> EpisodesWithDetection (gst g') = EpisodesWithDetection (gst g)
      \<and> EpisodesWithoutDetection (gst g') = EpisodesWithoutDetection (gst g)"
  shows "episodes_ok g'"
proof -
  let ?new = "\<lparr>ep_start = t, ep_end = zero_time, detected = False\<rparr> :: episode"
  have all: "list_all ended (episodes g)"
    using assms(1,2) by (cases "episodes g" rule: rev_cases) (auto simp: episodes_ok_def)
  define old where "old = (if length (episodes g) \<ge> 64 then tl (episodes g) else episodes g)"
  have eps: "episodes g' = old @ [?new]" using assms(4) by (auto simp: old_def Let_def tl_append split: list.splits)
  have sub: "length (filter P old) \<le> length (filter P (episodes g))" for P
    by (cases "episodes g") (simp_all add: old_def)
  have "set old \<subseteq> set (episodes g)" by (auto simp: old_def dest: list.set_sel(2) [rotated])
  then have "list_all ended old" using all by (auto simp: list_all_iff)
  moreover have "length old \<le> 63" using assms(1) by (auto simp: old_def episodes_ok_def)
  moreover have "\<not> ended ?new" by (simp add: ended_def)
  moreover have "ended_with d g' \<le> ended_with d g" for d
    using sub [of "\<lambda>ep. ended ep \<and> detected ep = d"] by (simp add: ended_with_def eps ended_def)
  ultimately show ?thesis
    using assms(1,2,3,5) eps by (auto simp: episodes_ok_def) (meson of_nat_mono order_trans)+
qed


lemma episodes_close:
  assumes "episodes_ok g" "gmode g = Active" "gmode g' = Idle" "t \<noteq> zero_time"
    and "episodes g' = butlast (episodes g) @ [(last (episodes g))\<lparr>ep_end := t\<rparr>]"
    and "Activations (gst g') = Activations (gst g)"
    and "EpisodesWithDetection (gst g') = EpisodesWithDetection (gst g) + (if detected (last (episodes g)) then 1 else 0)"
    and "EpisodesWithoutDetection (gst g') = EpisodesWithoutDetection (gst g) + (if detected (last (episodes g)) then 0 else 1)"
  shows "episodes_ok g'"
proof -
  let ?ep = "last (episodes g)"
  have o: "episodes g = butlast (episodes g) @ [?ep]" "\<not> ended ?ep"
    using assms(1,2) by (simp_all add: episodes_ok_def)
  have "ended_with d g = length (filter (\<lambda>ep. ended ep \<and> detected ep = d) (butlast (episodes g)))" for d
    unfolding ended_with_def by (subst o(1)) (simp add: o(2))
  moreover have "ended_with d g' = length (filter (\<lambda>ep. ended ep \<and> detected ep = d) (butlast (episodes g)))
      + (if detected ?ep = d then 1 else 0)" for d
    using assms(4) by (simp add: ended_with_def assms(5) ended_def)
  moreover have "length (episodes g') = length (episodes g)" by (subst o(1)) (simp add: assms(5))
  ultimately show ?thesis
    using assms(1-4,6-8) by (cases "detected ?ep") (simp_all add: episodes_ok_def assms(5) ended_def)
qed

text \<open>Everything but the state machine's own fields is untouched by \<open>advanceLocked\<close>.\<close>

lemma advance_frame:
  assumes "advanceLocked t c g = Some g'"
  shows "bg g' = bg g \<and> noise g' = noise g \<and> prev g' = prev g \<and> still g' = still g \<and> groiMask g' = groiMask g \<and> gcfg g' = gcfg g"
  using assms by (auto simp: advanceLocked_def Let_def split: gate_mode.splits if_splits)

lemma advance_inv:
  assumes "episodes_ok g" "t \<noteq> zero_time"
  shows "\<exists>g'. advanceLocked t c g = Some g' \<and> episodes_ok g' \<and> (gmode g = Warming \<longrightarrow> gmode g' = Warming)
    \<and> (gmode g \<noteq> Warming \<longrightarrow> gmode g' \<noteq> Warming)"
proof -
  define g1 where "g1 = (if c then g\<lparr>streakAt := (if streak g = 0 then t else streakAt g), streak := streak g + 1, lastCand := t\<rparr>
    else g\<lparr>streak := 0\<rparr>)"
  have ok: "episodes_ok g1" by (rule episodes_ok_cong [OF _ _ _ _ _ assms(1)]) (simp_all add: g1_def)
  have m: "gmode g1 = gmode g" by (simp add: g1_def)
  have a: "advanceLocked t c g = (case gmode g1 of
           Warming \<Rightarrow> Some g1
         | Idle \<Rightarrow>
             Some (if streak g1 \<ge> Persist (gcfg g1)
                   then let eps = episodes g1 @ [\<lparr>ep_start = t, ep_end = zero_time, detected = False\<rparr>];
                            lat = time_sub t (streakAt g1)
                        in g1\<lparr>gmode := Active,
                             gst := (gst g1)\<lparr>Activations := Activations (gst g1) + 1, LastActivationAt := Some t, LastActivationLatency := lat,
                               MaxActivationLatency := (if lat > MaxActivationLatency (gst g1) then lat else MaxActivationLatency (gst g1))\<rparr>,
                             episodes := (if length eps > 64 then tl eps else eps)\<rparr>
                   else g1)
         | Active \<Rightarrow>
             if \<not> c \<and> time_sub t (lastCand g1) \<ge> Hold (gcfg g1)
             then if episodes g1 = [] then None
                  else let ep = last (episodes g1); st = gst g1;
                           st1 = st\<lparr>ActiveTotal := ActiveTotal st + time_sub t (ep_start ep)\<rparr>
                       in Some (g1\<lparr>gmode := Idle, episodes := butlast (episodes g1) @ [ep\<lparr>ep_end := t\<rparr>],
                            gst := (if detected ep then st1\<lparr>EpisodesWithDetection := EpisodesWithDetection st + 1\<rparr>
                                    else st1\<lparr>EpisodesWithoutDetection := EpisodesWithoutDetection st + 1\<rparr>)\<rparr>)
             else Some g1)"
    unfolding advanceLocked_def g1_def Let_def by simp
  show ?thesis
  proof (cases "gmode g1")
    case Warming
    then show ?thesis using a m ok by simp
  next
    case Idle
    show ?thesis unfolding a using Idle ok m by (auto simp: Let_def intro!: episodes_open [OF ok, of _ t])
  next
    case Active
    then have "episodes g1 \<noteq> []" using ok by (simp add: episodes_ok_def)
    then show ?thesis unfolding a using Active ok m assms(2) episodes_close [OF ok Active, of _ t] by (simp add: Let_def)
  qed
qed

section \<open>Evaluation keeps the invariant\<close>

lemma learn_noise_floor: "1 / 2 \<le> nz \<Longrightarrow> 1 / 2 \<le> learn_noise means shift cl i b nz"
  unfolding learn_noise_def by (cases cl) (simp_all only: if_True if_False max.cobounded1)

lemma grid_ok_learn:
  assumes "grid_ok g" "gmode g \<noteq> Warming" "length means = ncells"
  shows "grid_ok (learn means shift v g)"
proof -
  have "1 / 2 \<le> x" if x: "x \<in> set (noise (learn means shift v g))" for x
  proof -
    obtain i where i: "i < ncells" "x = learn_noise means shift (clustered (changed_cell v) i) i (bg_after g means shift v i) (noise g ! i)"
      using x by (auto simp: learn_def Let_def)
    moreover have "noise g ! i \<in> set (noise g)" using i(1) assms by (auto simp: grid_ok_def)
    ultimately show ?thesis using assms(1) learn_noise_floor unfolding grid_ok_def by blast
  qed
  then have "\<forall>x \<in> set (noise (learn means shift v g)). 1 / 2 \<le> x" by blast
  moreover have "length (noise (learn means shift v g)) = ncells" by (simp add: learn_def Let_def)
  ultimately show ?thesis using assms unfolding grid_ok_def by (simp add: learn_def Let_def)
qed

lemma grid_ok_seed: "grid_ok g \<Longrightarrow> length means = ncells \<Longrightarrow> grid_ok (seedLocked means g)"
  by (auto simp: grid_ok_def seedLocked_def split: if_splits)

lemma evaluate_inv:
  assumes "gate_inv g" "length means = ncells" "t \<noteq> zero_time"
  shows "\<exists>g'. evaluate_means means t g = Some g' \<and> gate_inv g'"
proof -
  define g1 where "g1 = g\<lparr>gst := (gst g)\<lparr>FramesEvaluated := FramesEvaluated (gst g) + 1\<rparr>\<rparr>"
  have g1: "grid_ok g1" "config_ok (gcfg g1)" "episodes_ok g1"
    using assms(1) by (auto simp: gate_inv_def g1_def grid_ok_def intro: episodes_ok_cong [rotated -1])
  show ?thesis
  proof (cases "bg g1 = [] \<or> warm g1 < WarmupFrames (gcfg g1)")
    case True
    let ?g = "(seedLocked means g1)\<lparr>warm := warm g1 + 1\<rparr>"
    have "episodes_ok ?g" by (rule episodes_ok_cong [OF _ _ _ _ _ g1(3)]) (simp_all add: seedLocked_def)
    moreover have "grid_ok ?g" using grid_ok_seed [OF g1(1) assms(2)] by (simp add: grid_ok_def)
    moreover have "config_ok (gcfg ?g)" using g1(2) by (simp add: seedLocked_def)
    ultimately show ?thesis using True by (simp add: evaluate_means_def g1_def [symmetric] Let_def gate_inv_def)
  next
    case False
    define g2 where "g2 = (if gmode g1 = Warming then g1\<lparr>gmode := Idle\<rparr> else g1)"
    have g2: "grid_ok g2" "config_ok (gcfg g2)" "episodes_ok g2" "gmode g2 \<noteq> Warming"
      using g1 False by (auto simp: g2_def grid_ok_def intro: episodes_ok_cong [rotated -1])
    obtain shift v where j: "judge g2 means t = (shift, v)" by fastforce
    have adv: "\<exists>g'. advanceLocked t c h = Some g' \<and> gate_inv g'"
      if h: "grid_ok h" "gcfg h = gcfg g2" "episodes_ok h" "gmode h = gmode g2" for c h
    proof -
      obtain g' where a: "advanceLocked t c h = Some g'" "episodes_ok g'" "gmode g' \<noteq> Warming"
        using advance_inv [OF h(3) assms(3), of c] h(4) g2(4) by auto
      moreover have "grid_ok g'" using advance_frame [OF a(1)] h(1,4) g2(4) a(3) by (simp add: grid_ok_def)
      ultimately show ?thesis using advance_frame [OF a(1)] h(2) g2(2) by (simp add: gate_inv_def)
    qed
    define g3 where "g3 = g2\<lparr>gst := (gst g2)\<lparr>st_LightingShift := shift,
      LightingCompensations := LightingCompensations (gst g2) + (if \<bar>shift\<bar> \<ge> cfg_LightingShift (gcfg g2) then 1 else 0),
      AbsorbedCells := AbsorbedCells (gst g2) + int (length (filter (\<lambda>i. v i = Some Absorbed) [0..<ncells]))\<rparr>\<rparr>"
    have g3: "grid_ok g3" using g2(1) by (simp add: g3_def grid_ok_def)
    have seed: "grid_ok ((seedLocked means g3)\<lparr>still := replicate ncells zero_time, gst := st\<rparr>)" for st
      using grid_ok_seed [OF g3 assms(2)] assms(2) g2(4) by (auto simp: grid_ok_def g3_def seedLocked_def split: if_splits)
    have learn: "grid_ok ((learn means shift v g3)\<lparr>gst := st\<rparr>)" for st
      using grid_ok_learn [OF g3 _ assms(2), of shift v] g2(4) by (simp add: grid_ok_def g3_def)
    have eps: "episodes_ok h" if "episodes h = episodes g2" "gmode h = gmode g2"
      "EpisodesWithDetection (gst h) = EpisodesWithDetection (gst g2)" "Activations (gst h) = Activations (gst g2)"
      "EpisodesWithoutDetection (gst h) = EpisodesWithoutDetection (gst g2)" for h
      using that by (intro episodes_ok_cong [OF _ _ _ _ _ g2(3)]) simp_all
    have "evaluate_means means t g = (if mask_cells g2 = [] then Some g2
        else let active = length (filter (clustered (changed_cell v)) [0..<ncells]);
                 frac = of_nat active / of_nat (length (mask_cells g2))
             in if frac > GlobalChangeFraction (gcfg g2)
                then advanceLocked t False ((seedLocked means g3)\<lparr>still := replicate ncells zero_time,
                        gst := (gst g3)\<lparr>GlobalChanges := GlobalChanges (gst g3) + 1, Score := 0, ActiveCells := 0\<rparr>\<rparr>)
                else advanceLocked t (int active \<ge> MinCells (gcfg g2))
                       ((learn means shift v g3)\<lparr>gst := (gst (learn means shift v g3))\<lparr>Score := frac, ActiveCells := active\<rparr>\<rparr>))"
      using False j by (simp add: evaluate_means_def g1_def [symmetric] g2_def [symmetric] g3_def [symmetric] Let_def)
    then show ?thesis
      using g2 adv [OF seed _ eps] adv [OF learn _ eps]
      by (simp add: Let_def gate_inv_def g3_def seedLocked_def learn_def)
  qed
qed


section \<open>Detections\<close>

lemma episode_at_index: "episode_at t xs = Some i \<Longrightarrow> \<exists>ep. (i, ep) \<in> set xs"
  by (induction t xs rule: episode_at.induct) (auto split: if_splits)

lemma episodeAt_index: "episodeAtLocked t g = Some i \<Longrightarrow> i < length (episodes g)"
  by (auto simp: episodeAtLocked_def in_set_enumerate_eq dest!: episode_at_index)

text \<open>Marking an episode as detected moves it between the two counts if it has ended.\<close>

lemma ended_with_mark:
  assumes "i < length eps" "ep = eps ! i"
  shows "length (filter (\<lambda>e. ended e \<and> detected e) (eps[i := ep\<lparr>detected := True\<rparr>]))
      = length (filter (\<lambda>e. ended e \<and> detected e) eps) + (if ended ep \<and> \<not> detected ep then 1 else 0)"
    and "length (filter (\<lambda>e. ended e \<and> \<not> detected e) (eps[i := ep\<lparr>detected := True\<rparr>]))
      + (if ended ep \<and> \<not> detected ep then 1 else 0) = length (filter (\<lambda>e. ended e \<and> \<not> detected e) eps)"
proof -
  have e: "eps = take i eps @ ep # drop (Suc i) eps" "eps[i := ep\<lparr>detected := True\<rparr>] = take i eps @ ep\<lparr>detected := True\<rparr> # drop (Suc i) eps"
    using assms by (simp_all add: id_take_nth_drop upd_conv_take_nth_drop)
  have c: "ended (ep\<lparr>detected := True\<rparr>) = ended ep" by (simp add: ended_def)
  have f: "length (filter P eps) = length (filter P (take i eps)) + (if P ep then 1 else 0) + length (filter P (drop (Suc i) eps))" for P
    using arg_cong [OF e(1), of "\<lambda>l. length (filter P l)"] by simp
  show "length (filter (\<lambda>e. ended e \<and> detected e) (eps[i := ep\<lparr>detected := True\<rparr>]))
      = length (filter (\<lambda>e. ended e \<and> detected e) eps) + (if ended ep \<and> \<not> detected ep then 1 else 0)"
    unfolding e(2) f by (simp add: c)
  show "length (filter (\<lambda>e. ended e \<and> \<not> detected e) (eps[i := ep\<lparr>detected := True\<rparr>]))
      + (if ended ep \<and> \<not> detected ep then 1 else 0) = length (filter (\<lambda>e. ended e \<and> \<not> detected e) eps)"
    unfolding e(2) f by (simp add: c)
qed

lemma observe_frame:
  "gmode (ObserveDetection t g) = gmode g" "Activations (gst (ObserveDetection t g)) = Activations (gst g)"
  "bg (ObserveDetection t g) = bg g" "noise (ObserveDetection t g) = noise g" "prev (ObserveDetection t g) = prev g"
  "still (ObserveDetection t g) = still g" "groiMask (ObserveDetection t g) = groiMask g" "gcfg (ObserveDetection t g) = gcfg g"
  by (simp_all add: ObserveDetection_def Let_def split: option.splits)

lemma observe_episodes:
  "episodes (ObserveDetection t g) =
     (case episodeAtLocked t g of None \<Rightarrow> episodes g | Some i \<Rightarrow> (episodes g)[i := (episodes g ! i)\<lparr>detected := True\<rparr>])"
  "EpisodesWithDetection (gst (ObserveDetection t g)) = EpisodesWithDetection (gst g) +
     (case episodeAtLocked t g of None \<Rightarrow> 0 | Some i \<Rightarrow> if ended (episodes g ! i) \<and> \<not> detected (episodes g ! i) then 1 else 0)"
  "EpisodesWithoutDetection (gst (ObserveDetection t g)) = EpisodesWithoutDetection (gst g) -
     (case episodeAtLocked t g of None \<Rightarrow> 0 | Some i \<Rightarrow> if ended (episodes g ! i) \<and> \<not> detected (episodes g ! i) then 1 else 0)"
  by (auto simp: ObserveDetection_def Let_def ended_def split: option.splits)

lemma observe_inv: "gate_inv g \<Longrightarrow> gate_inv (ObserveDetection t g)"
proof -
  assume inv: "gate_inv g"
  have "episodes_ok (ObserveDetection t g)"
  proof (cases "episodeAtLocked t g")
    case None
    show ?thesis
      by (rule episodes_ok_cong [of _ g]) (use None inv in \<open>simp_all add: observe_frame observe_episodes gate_inv_def\<close>)
  next
    case (Some i)
    let ?ep = "episodes g ! i" and ?eps = "(episodes g)[i := (episodes g ! i)\<lparr>detected := True\<rparr>]"
    have i: "i < length (episodes g)" by (rule episodeAt_index [OF Some])
    have cl: "map ended ?eps = map ended (episodes g)"
      using i by (intro nth_equalityI) (auto simp: ended_def nth_list_update)
    have "list_all ended (butlast ?eps) = list_all ended (butlast (episodes g))"
      using arg_cong [OF cl, of "\<lambda>xs. list_all id (butlast xs)"]
      by (simp add: list.pred_map comp_def del: map_update flip: map_butlast)
    moreover have "ended (last ?eps) = ended (last (episodes g))" if "episodes g \<noteq> []"
      using arg_cong [OF cl, of last] that by (simp add: last_map)
    ultimately show ?thesis
      using inv ended_with_mark [OF i refl] Some
      by (auto simp: gate_inv_def episodes_ok_def observe_frame observe_episodes ended_with_def)
  qed
  moreover have "grid_ok (ObserveDetection t g)" "config_ok (gcfg (ObserveDetection t g))"
    using inv by (simp_all add: gate_inv_def grid_ok_def observe_frame)
  ultimately show ?thesis by (simp add: gate_inv_def)
qed

section \<open>The gate as a machine\<close>

text \<open>Frames carry the decoder's clock, never the zero \<open>time.Time\<close>.\<close>

inductive gate_step :: "gate \<Rightarrow> gate \<Rightarrow> bool" where
  frame: "t \<noteq> zero_time \<Longrightarrow> Gate_Evaluate y w h t g = Some g' \<Longrightarrow> gate_step g g'"
| detection: "gate_step g (ObserveDetection t g)"
| sensitivity: "gate_step g (SetSensitivity s g)"
| rois: "gate_step g (Gate_SetROIs rs g)"

lemma Gate_Evaluate_inv:
  assumes "gate_inv g" "t \<noteq> zero_time"
  shows "\<exists>g'. Gate_Evaluate y w h t g = Some g' \<and> gate_inv g'"
proof (rule cellMeans_total [of y w h])
  assume "cellMeans y w h = Inl ()"
  then show ?thesis using assms by (simp add: Gate_Evaluate_def)
next
  fix means assume "cellMeans y w h = Inr (Some means)" "length means = ncells"
  then show ?thesis using evaluate_inv [OF assms(1) _ assms(2)] by (simp add: Gate_Evaluate_def)
qed

interpretation gate: machine "\<lambda>g. \<exists>c. g = NewMotionGate c" gate_step gate_inv
proof
  fix g g' assume inv: "gate_inv g" and "gate_step g g'"
  from this(2) show "gate_inv g'"
  proof (cases rule: gate_step.cases)
    case (frame t y w h)
    then show ?thesis using Gate_Evaluate_inv [OF inv frame(1), of y w h] by auto
  next
    case (detection t)
    then show ?thesis using observe_inv [OF inv] by simp
  next
    case (sensitivity s)
    then show ?thesis using inv
      by (auto simp: gate_inv_def SetSensitivity_def grid_ok_def config_ok_def intro: episodes_ok_cong [rotated -1])
  next
    case (rois rs)
    then show ?thesis using inv length_gateROIMask
      by (auto simp: gate_inv_def Gate_SetROIs_def grid_ok_def config_ok_def intro: episodes_ok_cong [rotated -1])
  qed
qed (auto intro: gate_inv_new)

text \<open>C28. The gate is total and its episodes add up. In every state a gate reaches over frames of any size and content,
  detections at any time and reconfigurations, evaluating a frame indexes nothing out of range; at most 64
  episodes are kept, the gate is active exactly while the newest one is open, the episodes counted with and
  without a detection are together the activations that ended, both counts are nonnegative, and no noise floor
  falls below one half.\<close>

theorem motion_gate_sound:
  assumes "gate_step\<^sup>*\<^sup>* (NewMotionGate c) g" "t \<noteq> zero_time"
  shows "\<exists>g'. Gate_Evaluate y w h t g = Some g' \<and> length (episodes g') \<le> 64
    \<and> (gmode g' = Active \<longleftrightarrow> episodes g' \<noteq> [] \<and> ep_end (last (episodes g')) = zero_time)
    \<and> EpisodesWithDetection (gst g') + EpisodesWithoutDetection (gst g') = Activations (gst g') - (if gmode g' = Active then 1 else 0)
    \<and> 0 \<le> EpisodesWithDetection (gst g') \<and> 0 \<le> EpisodesWithoutDetection (gst g')
    \<and> list_all (\<lambda>x. 1 / 2 \<le> x) (noise g')"
proof -
  have "gate_inv g" using gate.invar_reachable [OF _ assms(1)] by blast
  from Gate_Evaluate_inv [OF this assms(2)] obtain g' where "Gate_Evaluate y w h t g = Some g'" "gate_inv g'" by blast
  moreover from this(2) have "0 \<le> EpisodesWithDetection (gst g')" "0 \<le> EpisodesWithoutDetection (gst g')"
    unfolding gate_inv_def episodes_ok_def by linarith+
  ultimately show ?thesis by (auto simp: gate_inv_def episodes_ok_def grid_ok_def ended_def list_all_iff)
qed


section \<open>Hysteresis\<close>

fun run_advance :: "(gotime \<times> bool) list \<Rightarrow> gate \<Rightarrow> gate option" where
  "run_advance [] g = Some g"
| "run_advance ((t, c) # fs) g = (case advanceLocked t c g of None \<Rightarrow> None | Some g1 \<Rightarrow> run_advance fs g1)"

lemma run_advance_snoc:
  "run_advance (fs @ [(t, c)]) g = (case run_advance fs g of None \<Rightarrow> None | Some g1 \<Rightarrow> advanceLocked t c g1)"
  by (induction fs g rule: run_advance.induct) (auto split: option.splits)

text \<open>Frames that keep an active gate active: none of them comes \<open>h\<close> or more after the last candidate without being one.\<close>

fun held :: "duration \<Rightarrow> gotime \<Rightarrow> (gotime \<times> bool) list \<Rightarrow> bool" where
  "held h l [] = True"
| "held h l ((t, c) # fs) = (if c then held h t fs else time_sub t l < h \<and> held h l fs)"

definition last_cand :: "gotime \<Rightarrow> (gotime \<times> bool) list \<Rightarrow> gotime" where
  "last_cand l fs = fold (\<lambda>(t, c) l. if c then t else l) fs l"

definition active_after :: "int \<Rightarrow> duration \<Rightarrow> (gotime \<times> bool) list \<Rightarrow> bool" where
  "active_after p h fs \<longleftrightarrow>
     (\<exists>before mid after. fs = before @ mid @ after \<and> int (length mid) = p \<and> list_all snd mid \<and> held h (fst (last mid)) after)"

lemma held_snoc: "held h l (fs @ [(t, c)]) \<longleftrightarrow> held h l fs \<and> (c \<or> time_sub t (last_cand l fs) < h)"
  by (induction h l fs rule: held.induct) (auto simp: last_cand_def)

lemma last_cand_mid:
  assumes "list_all snd mid" "mid \<noteq> []"
  shows "last_cand l (before @ mid @ after) = last_cand (fst (last mid)) after"
proof -
  have "last_cand l' mid = fst (last mid)" for l'
    using assms by (cases mid rule: rev_cases) (auto simp: last_cand_def split: prod.splits)
  then show ?thesis by (simp add: last_cand_def)
qed

text \<open>How one more frame changes the description.\<close>

lemma active_after_snoc:
  assumes "0 < p"
  shows "active_after p h (fs @ [(t, c)]) \<longleftrightarrow>
    (if c then active_after p h fs \<or> p \<le> int (length (takeWhile snd (rev (fs @ [(t, c)]))))
     else active_after p h fs \<and> time_sub t (last_cand l fs) < h)"
    (is "?lhs \<longleftrightarrow> ?rhs")
proof
  assume ?lhs
  then obtain before mid aft where d: "fs @ [(t, c)] = before @ mid @ aft" "int (length mid) = p" "list_all snd mid" "held h (fst (last mid)) aft"
    by (auto simp: active_after_def)
  then have ne: "mid \<noteq> []" using assms by auto
  show ?rhs
  proof (cases aft rule: rev_cases)
    case Nil
    have r: "rev (fs @ [(t, c)]) = rev mid @ rev before" using arg_cong [OF d(1), of rev] Nil by simp
    have m: "list_all snd (rev mid)" using d(3) by (simp add: list_all_iff)
    then have "takeWhile snd (rev mid @ rev before) = rev mid @ takeWhile snd (rev before)"
      by (intro takeWhile_append2) (auto simp: list_all_iff)
    then have "p \<le> int (length (takeWhile snd (rev (fs @ [(t, c)]))))" unfolding r using d(2) by simp
    moreover have "c" using d(1,3) Nil ne by (cases mid rule: rev_cases) (auto simp: list_all_iff)
    ultimately show ?thesis by simp
  next
    case (snoc aft' x)
    then have f: "fs = before @ mid @ aft'" "x = (t, c)" using d(1) by simp_all
    then have "active_after p h fs" using d snoc by (auto simp: active_after_def held_snoc)
    moreover have "c \<or> time_sub t (last_cand l fs) < h"
      using d(4) f snoc last_cand_mid [OF d(3) ne, of l before aft'] by (simp add: held_snoc)
    ultimately show ?thesis by auto
  qed
next
  assume r: ?rhs
  show ?lhs
  proof (cases "active_after p h fs")
    case True
    then obtain before mid aft where d: "fs = before @ mid @ aft" "int (length mid) = p" "list_all snd mid" "held h (fst (last mid)) aft"
      by (auto simp: active_after_def)
    then have ne: "mid \<noteq> []" using assms by auto
    have "held h (fst (last mid)) (aft @ [(t, c)])"
      using r d(4) last_cand_mid [OF d(3) ne, of l before aft] unfolding held_snoc d(1) by (auto split: if_splits)
    then show ?thesis unfolding active_after_def
      using d(1-3) by (intro exI [of _ before] exI [of _ mid] exI [of _ "aft @ [(t, c)]"]) simp
  next
    case False
    let ?n = "nat p" and ?xs = "fs @ [(t, c)]"
    have c: "c" "p \<le> int (length (takeWhile snd (rev ?xs)))" using r False by (auto split: if_splits)
    have "list_all snd (take ?n (rev ?xs))"
      using c(2) by (metis list_all_iff nat_le_iff set_takeWhileD takeWhile_eq_take take_take min.absorb1 in_set_takeD)
    moreover have l: "?n \<le> length ?xs" using c(2) length_takeWhile_le [of snd "rev ?xs"] by simp
    ultimately have "list_all snd (drop (length ?xs - ?n) ?xs)" by (simp add: take_rev list_all_iff del: rev_append)
    then show ?thesis unfolding active_after_def using assms l
      by (intro exI [of _ "take (length ?xs - ?n) ?xs"] exI [of _ "drop (length ?xs - ?n) ?xs"] exI [of _ "[]"]) simp
  qed
qed


lemma run_advance_state:
  assumes "episodes_ok g" "gmode g = Idle" "streak g = 0" "0 < Persist (gcfg g)" "\<forall>f \<in> set fs. fst f \<noteq> zero_time"
  shows "\<exists>g'. run_advance fs g = Some g' \<and> episodes_ok g' \<and> gcfg g' = gcfg g \<and> gmode g' \<noteq> Warming
    \<and> streak g' = int (length (takeWhile snd (rev fs))) \<and> (list_ex snd fs \<longrightarrow> lastCand g' = last_cand l fs)
    \<and> (gmode g' = Active \<longleftrightarrow> active_after (Persist (gcfg g)) (Hold (gcfg g)) fs)"
  using assms(5)
proof (induction fs rule: rev_induct)
  case Nil
  have "\<not> active_after (Persist (gcfg g)) (Hold (gcfg g)) []" using assms(4) by (auto simp: active_after_def)
  then show ?case using assms(1-3) by simp
next
  case (snoc f fs)
  obtain t c where f: "f = (t, c)" by fastforce
  from snoc obtain g1 where g1: "run_advance fs g = Some g1" "episodes_ok g1" "gcfg g1 = gcfg g" "gmode g1 \<noteq> Warming"
    "streak g1 = int (length (takeWhile snd (rev fs)))" "list_ex snd fs \<Longrightarrow> lastCand g1 = last_cand l fs"
    "gmode g1 = Active \<longleftrightarrow> active_after (Persist (gcfg g)) (Hold (gcfg g)) fs" by auto
  have t: "t \<noteq> zero_time" using snoc.prems f by simp
  from advance_inv [OF g1(2) t, of c] g1(4) obtain g2 where g2: "advanceLocked t c g1 = Some g2" "episodes_ok g2" "gmode g2 \<noteq> Warming"
    by auto
  have cand: "list_ex snd fs" if "active_after (Persist (gcfg g)) (Hold (gcfg g)) fs"
    using that assms(4) by (auto simp: active_after_def list_ex_iff list_all_iff) (metis Un_iff last_in_set length_greater_0_conv of_nat_0_less_iff)
  have "streak g2 = int (length (takeWhile snd (rev (fs @ [f]))))"
    using g2(1) g1(5) f by (auto simp: advanceLocked_def Let_def split: gate_mode.splits if_splits)
  moreover have "lastCand g2 = (if c then t else lastCand g1)"
    using g2(1) by (auto simp: advanceLocked_def Let_def split: gate_mode.splits if_splits)
  then have "list_ex snd (fs @ [f]) \<longrightarrow> lastCand g2 = last_cand l (fs @ [f])"
    using g1(6) f by (auto simp: last_cand_def)
  moreover have "gmode g2 = Active \<longleftrightarrow>
      (if c then gmode g1 = Active \<or> Persist (gcfg g) \<le> streak g1 + 1
       else gmode g1 = Active \<and> time_sub t (lastCand g1) < Hold (gcfg g))"
    using g2(1) g1(3,4) assms(4) by (cases "gmode g1") (auto simp: advanceLocked_def Let_def split: if_splits)
  then have "gmode g2 = Active \<longleftrightarrow> active_after (Persist (gcfg g)) (Hold (gcfg g)) (fs @ [f])"
    using g1(5-7) cand unfolding f active_after_snoc [OF assms(4), of "Hold (gcfg g)" fs t c l] by auto
  ultimately show ?case using g1(1,3) g2 advance_frame [OF g2(1)] unfolding f run_advance_snoc by auto
qed

text \<open>C25. Hysteresis. From an idle gate, whatever candidates the frames are, the state machine does not fail, and
  afterwards the gate is active if and only if somewhere \<open>Persist\<close> consecutive frames were candidates and since
  then no frame came \<open>Hold\<close> or more after the last candidate without being one itself.\<close>

theorem motion_hysteresis:
  assumes "gate_step\<^sup>*\<^sup>* (NewMotionGate c) g" "gmode g = Idle" "streak g = 0" "list_all (\<lambda>f. fst f \<noteq> zero_time) fs"
  shows "\<exists>g'. run_advance fs g = Some g' \<and>
    (gmode g' = Active \<longleftrightarrow>
      (\<exists>before mid after. fs = before @ mid @ after \<and> int (length mid) = Persist (gcfg g) \<and> list_all snd mid
         \<and> held (Hold (gcfg g)) (fst (last mid)) after))"
proof -
  have "gate_inv g" using gate.invar_reachable [OF _ assms(1)] by blast
  then have "episodes_ok g" "0 < Persist (gcfg g)" by (simp_all add: gate_inv_def config_ok_def)
  from run_advance_state [OF this(1) assms(2,3) this(2), of fs 0] assms(4) show ?thesis
    by (auto simp: list_all_iff active_after_def)
qed

section \<open>Lighting\<close>

lemma median_const: "xs \<noteq> [] \<Longrightarrow> (\<And>x. x \<in> set xs \<Longrightarrow> x = c) \<Longrightarrow> median xs = c"
proof -
  assume "xs \<noteq> []" "\<And>x. x \<in> set xs \<Longrightarrow> x = c"
  then have "sort xs ! i = c" if "i < length xs" for i
    using that by (metis length_sort nth_mem set_sort)
  moreover have "length xs div 2 - 1 < length xs" "length xs div 2 < length xs" using \<open>xs \<noteq> []\<close> by (simp_all add: less_imp_diff_less)
  ultimately have "sort xs ! (length xs div 2 - 1) = c" "sort xs ! (length xs div 2) = c" by blast+
  then show ?thesis by (simp add: median_def Let_def)
qed

text \<open>A frame in which every cell has moved by the same amount: all evaluated cells are quiet.\<close>

lemma judge_uniform:
  assumes "mask_cells g \<noteq> []" "\<And>i. i < ncells \<Longrightarrow> means ! i = bg g ! i + k" "0 < MinDelta (gcfg g)"
  shows "\<exists>v. judge g means t = (k, v) \<and> (\<forall>i. v i = None \<or> v i = Some Quiet)"
proof -
  have in_grid: "i < ncells" if "i \<in> set (mask_cells g)" for i using that by (simp add: mask_cells_def)
  have "median (map (\<lambda>i. means ! i - bg g ! i) (mask_cells g)) = k"
    by (rule median_const) (use assms(1,2) in_grid in auto)
  moreover have "judge_cell g means k fs t i = Quiet" if "i \<in> set (mask_cells g)" for i fs
    using assms(2) [OF in_grid [OF that]] assms(3) by (simp add: judge_cell_def Let_def)
  ultimately show ?thesis by (auto simp: judge_def Let_def)
qed

text \<open>C35. Lighting is not motion. For every learned background and every amount \<open>k\<close>, a frame in which all cells differ from
  the background by \<open>k\<close> is no motion candidate: no cell counts as active, the gate does not become active, and
  the background moves to the new level at once.\<close>

theorem uniform_lighting_is_not_motion:
  assumes "gate_step\<^sup>*\<^sup>* (NewMotionGate c) g" "gmode g \<noteq> Warming" "WarmupFrames (gcfg g) \<le> warm g" "mask_cells g \<noteq> []" "t \<noteq> zero_time"
  shows "\<exists>g'. evaluate_means (map (\<lambda>b. b + k) (bg g)) t g = Some g' \<and> ActiveCells (gst g') = 0
    \<and> bg g' = map (\<lambda>b. b + k) (bg g) \<and> Activations (gst g') = Activations (gst g) \<and> (gmode g' = Active \<longrightarrow> gmode g = Active)"
proof -
  let ?means = "map (\<lambda>b. b + k) (bg g)"
  have inv: "gate_inv g" using gate.invar_reachable [OF _ assms(1)] by blast
  have len: "length (bg g) = ncells" "bg g \<noteq> []" using inv assms(2) by (auto simp: gate_inv_def grid_ok_def grid_defs)
  define g1 where "g1 = g\<lparr>gst := (gst g)\<lparr>FramesEvaluated := FramesEvaluated (gst g) + 1\<rparr>\<rparr>"
  have g1: "bg g1 = bg g" "warm g1 = warm g" "gcfg g1 = gcfg g" "gmode g1 = gmode g" "mask_cells g1 = mask_cells g" "noise g1 = noise g"
    "episodes g1 = episodes g" "Activations (gst g1) = Activations (gst g)"
    by (simp_all add: g1_def mask_cells_def)
  have "0 < MinDelta (gcfg g1)" using inv g1(3) by (simp add: gate_inv_def config_ok_def)
  then obtain v where v: "judge g1 ?means t = (k, v)" "\<And>i. v i = None \<or> v i = Some Quiet"
    using judge_uniform [of g1 ?means k t] assms(4) g1 len by auto
  have nochange: "\<not> changed_cell v i" "v i \<noteq> Some Absorbed" for i using v(2) [of i] by (auto simp: changed_cell_def)
  then have none: "filter (clustered (changed_cell v)) [0..<ncells] = []" "filter (\<lambda>i. v i = Some Absorbed) [0..<ncells] = []"
    by (simp_all add: clustered_def Let_def)
  have cfg: "0 < GlobalChangeFraction (gcfg g)" "0 < MinCells (gcfg g)" "0 < Persist (gcfg g)"
    using inv by (simp_all add: gate_inv_def config_ok_def)
  define g2 where "g2 = learn ?means k v (g1\<lparr>gst := (gst g1)\<lparr>st_LightingShift := k,
      LightingCompensations := LightingCompensations (gst g1) + (if \<bar>k\<bar> \<ge> cfg_LightingShift (gcfg g1) then 1 else 0)\<rparr>\<rparr>)"
  define g3 where "g3 = g2\<lparr>gst := (gst g2)\<lparr>Score := 0, ActiveCells := 0\<rparr>\<rparr>"
  have e: "evaluate_means ?means t g = advanceLocked t False g3"
    using v(1) none cfg assms(2-4) g1 len(2)
    by (simp add: evaluate_means_def g1_def [symmetric] g2_def g3_def Let_def)
  have bg3: "bg g3 = ?means"
    using nochange len by (intro nth_equalityI) (auto simp: g3_def g2_def learn_def Let_def learn_bg_def bg_after_def g1(1) clustered_def)
  have st: "gmode g3 = gmode g" "gcfg g3 = gcfg g" "Activations (gst g3) = Activations (gst g)" "ActiveCells (gst g3) = 0" "episodes g3 = episodes g"
    by (simp_all add: g3_def g2_def learn_def Let_def g1)
  have "episodes g3 \<noteq> []" if "gmode g3 = Active" using inv that st(1,5) by (simp add: gate_inv_def episodes_ok_def)
  then show ?thesis unfolding e using bg3 st cfg(3) by (cases "gmode g3") (auto simp: advanceLocked_def Let_def)
qed


section \<open>Regions\<close>

fun run_frames :: "(luma \<times> nat \<times> nat \<times> gotime) list \<Rightarrow> gate \<Rightarrow> gate option" where
  "run_frames [] g = Some g"
| "run_frames ((y, w, h, t) # fs) g = (case Gate_Evaluate y w h t g of None \<Rightarrow> None | Some g1 \<Rightarrow> run_frames fs g1)"

lemma blind_column:
  assumes "(of_nat j + 1 / 2) / 32 < XMin r" "XMax r < (of_nat j + 3 / 2) / 32"
  shows "\<not> in_roi ((of_nat cx + 1 / 2) / 32) y r"
proof (cases "cx \<le> j")
  case True
  then have "((of_nat cx + 1 / 2) / 32 :: rat) \<le> (of_nat j + 1 / 2) / 32" by (simp add: divide_right_mono)
  then show ?thesis using assms(1) by (auto simp: in_roi_def)
next
  case False
  then have "(of_nat j + 1 :: rat) \<le> of_nat cx" by (metis Suc_leI not_le of_nat_Suc of_nat_le_iff add.commute)
  then have "(of_nat j + 3 / 2) / 32 \<le> ((of_nat cx + 1 / 2) / 32 :: rat)" by (simp add: divide_right_mono)
  then show ?thesis using assms(2) by (auto simp: in_roi_def)
qed

text \<open>No cell has its centre in one of the regions.\<close>

definition covers_no_centre :: "roi list \<Rightarrow> bool" where
  "covers_no_centre rois \<longleftrightarrow>
     (\<forall>cx < motionGateCellsX. \<forall>cy < motionGateCellsY. \<forall>r \<in> set rois.
        \<not> in_roi ((of_nat cx + 1 / 2) / of_nat motionGateCellsX) ((of_nat cy + 1 / 2) / of_nat motionGateCellsY) r)"

lemma strip_covers_no_centre:
  "(of_nat j + 1 / 2) / 32 < XMin r \<Longrightarrow> XMax r < (of_nat j + 3 / 2) / 32 \<Longrightarrow> covers_no_centre [r]"
  using blind_column [of j r] by (auto simp: covers_no_centre_def motionGateCellsX_def)

lemma mask_cells_blind:
  assumes "rois \<noteq> []" "covers_no_centre rois" "groiMask g = gateROIMask rois"
  shows "mask_cells g = []"
proof -
  obtain m where m: "gateROIMask rois = Some m" "set m \<subseteq> {False}"
    using assms(1,2) by (auto simp: gateROIMask_def covers_no_centre_def list_ex_iff image_subset_iff)
  have "\<not> m ! i" if "i < ncells" for i
    using subsetD [OF m(2) nth_mem, of i] length_gateROIMask [OF m(1)] that by simp
  then show ?thesis using m(1) assms(3) by (simp add: mask_cells_def in_mask_def filter_empty_conv)
qed

lemma evaluate_blind:
  assumes "mask_cells g = []"
  shows "\<exists>g'. Gate_Evaluate y w h t g = Some g' \<and> (gmode g' = gmode g \<or> gmode g = Warming \<and> gmode g' = Idle)
    \<and> Activations (gst g') = Activations (gst g) \<and> groiMask g' = groiMask g"
proof (rule cellMeans_total [of y w h])
  fix means assume "cellMeans y w h = Inr (Some means)" "length means = ncells"
  moreover have "mask_cells (g\<lparr>gst := st\<rparr>) = []" "mask_cells (g\<lparr>gst := st, gmode := x\<rparr>) = []" for st x
    using assms by (simp_all add: mask_cells_def)
  ultimately show ?thesis
    by (auto simp: Gate_Evaluate_def evaluate_means_def Let_def seedLocked_def)
qed (simp add: Gate_Evaluate_def)

lemma run_blind:
  assumes "rois \<noteq> []" "covers_no_centre rois" "groiMask g = gateROIMask rois"
  shows "\<exists>g'. run_frames fs g = Some g' \<and> (gmode g' = gmode g \<or> gmode g = Warming \<and> gmode g' = Idle)
    \<and> Activations (gst g') = Activations (gst g)"
  using assms(3)
proof (induction fs arbitrary: g)
  case (Cons f fs)
  obtain y w h t where f: "f = (y, w, h, t)" by (metis prod_cases4)
  from evaluate_blind [OF mask_cells_blind [OF assms(1,2) Cons.prems], of y w h t] obtain g2 where
    g2: "Gate_Evaluate y w h t g = Some g2" "gmode g2 = gmode g \<or> gmode g = Warming \<and> gmode g2 = Idle"
      "Activations (gst g2) = Activations (gst g)" "groiMask g2 = groiMask g" by blast
  obtain g3 where "run_frames fs g2 = Some g3" "gmode g3 = gmode g2 \<or> gmode g2 = Warming \<and> gmode g3 = Idle"
      "Activations (gst g3) = Activations (gst g2)"
    using Cons.IH [of g2] g2(4) Cons.prems by auto
  then show ?case using g2 f by auto
qed simp

text \<open>C38. A region can blind the gate. The configuration accepts every region of positive size, but a cell is evaluated
  only if its centre lies in a region: with any valid regions none of which contains the centre of a cell (a strip
  between two columns or two rows of centres, or along an edge), no frame whatever activates the gate again. When
  they are set on a running gate, it keeps its state on every further frame, except that a gate that is warming up
  becomes idle: an idle camera never becomes active, and one that was active stays active for ever. A gate created
  with them is never active.\<close>

theorem narrow_region_blinds_gate:
  assumes "rois \<noteq> []" "\<forall>r \<in> set rois. validateROI r" "covers_no_centre rois"
  shows "(\<exists>g'. run_frames fs (Gate_SetROIs rois g) = Some g' \<and> (gmode g' = gmode g \<or> gmode g = Warming \<and> gmode g' = Idle)
        \<and> Activations (gst g') = Activations (gst g))
    \<and> (gate_ROIs c = rois \<longrightarrow> (\<exists>g'. run_frames fs (NewMotionGate c) = Some g' \<and> gmode g' \<noteq> Active \<and> Activations (gst g') = 0))"
proof -
  have "gate_ROIs c = rois \<longrightarrow> groiMask (NewMotionGate c) = gateROIMask rois \<and> gmode (NewMotionGate c) = Warming
      \<and> Activations (gst (NewMotionGate c)) = 0"
    by (simp add: NewMotionGate_def Let_def withDefaults_def zero_status_def)
  then show ?thesis
    using run_blind [OF assms(1,3), of "Gate_SetROIs rois g" fs] run_blind [OF assms(1,3), of "NewMotionGate c" fs]
    by (auto simp: Gate_SetROIs_def)
qed

section \<open>The detector\<close>

definition blocks_of :: "motion_detector \<Rightarrow> nat \<Rightarrow> nat \<Rightarrow> nat" where
  "blocks_of d w h = (let b = (if BlockSize (md_cfg d) = 0 then 16 else BlockSize (md_cfg d))
     in ((w + b - 1) div b) * ((h + b - 1) div b))"

definition detector_inv :: "motion_detector \<Rightarrow> bool" where
  "detector_inv d \<longleftrightarrow>
     (prevW d \<noteq> 0 \<and> prevH d \<noteq> 0 \<longrightarrow>
        (\<forall>p. prevAvg d = Some p \<longrightarrow> length p = blocks_of d (prevW d) (prevH d))
        \<and> (md_roiMask d = [] \<or> length (md_roiMask d) = blocks_of d (prevW d) (prevH d)))"

lemma block_averages_total:
  assumes "width * height \<le> length y"
  shows "\<exists>avg. block_averages y width height block bx by = Some avg \<and> length avg = bx * by"
proof -
  have "i < length y" if i: "i \<in> set (block_positions width height x0 y0 b)" for i x0 y0 b
  proof -
    obtain yy xx where "i = yy * width + xx" "yy \<in> set [y0..<min (y0 + b) height]" "xx \<in> set [x0..<min (x0 + b) width]"
      using i by (auto simp: block_positions_def simp del: set_upt)
    then show ?thesis using pixel_in_frame(1) [of yy height xx width "length y"] assms by simp
  qed
  then have "\<exists>m. blockAvgLuma y width height x0 y0 b = Some m" for x0 y0 b
    using mean_pixels_total unfolding blockAvgLuma_def by blast
  then have "\<exists>avg. block_averages y width height block bx by = Some avg \<and>
      length avg = length (concat (map (\<lambda>y0. map (\<lambda>x0. blockAvgLuma y width height (x0 * block) (y0 * block) block) [0..<bx]) [0..<by]))"
    unfolding block_averages_def by (intro those_total) auto
  then show ?thesis unfolding length_grid .
qed

lemma detector_step:
  assumes "detector_inv d"
  shows "\<exists>r d'. Detector_Evaluate y w h d = Some (r, d') \<and> detector_inv d' \<and> 0 \<le> mr_Score r \<and> mr_Score r \<le> 1
    \<and> (mr_Unevaluable r \<longleftrightarrow> w = 0 \<or> h = 0 \<or> length y < w * h)"
proof (cases "w = 0 \<or> h = 0 \<or> length y < w * h")
  case True
  then show ?thesis using assms by (simp add: Detector_Evaluate_def Let_def)
next
  case False
  define b where "b = (if BlockSize (md_cfg d) = 0 then 16 else BlockSize (md_cfg d))"
  define bx where "bx = (w + b - 1) div b"
  define bh where "bh = (h + b - 1) div b"
  define d1 where "d1 = (if w \<noteq> prevW d \<or> h \<noteq> prevH d
    then d\<lparr>prevAvg := None, prevW := w, prevH := h, md_roiMask := computeROIMask (hyb_ROIs (md_cfg d)) bx bh b w h\<rparr> else d)"
  have n: "blocks_of e w h = bx * bh" if "md_cfg e = md_cfg d" for e
    using that by (simp add: blocks_of_def b_def bx_def bh_def Let_def)
  have cfg: "md_cfg d1 = md_cfg d" "prevW d1 = w" "prevH d1 = h" by (auto simp: d1_def)
  have "length (computeROIMask rois bx bh b w h) = bx * bh \<or> computeROIMask rois bx bh b w h = []" for rois
    unfolding computeROIMask_def Let_def using length_grid [of _ bx bh] by auto
  then have d1: "\<And>p. prevAvg d1 = Some p \<Longrightarrow> length p = bx * bh" "md_roiMask d1 = [] \<or> length (md_roiMask d1) = bx * bh"
    using assms False n [of d] by (auto simp: d1_def detector_inv_def split: if_splits)
  obtain cur where cur: "block_averages y w h b bx bh = Some cur" "length cur = bx * bh"
    using block_averages_total False by (metis linorder_not_less mult.commute)
  have e: "Detector_Evaluate y w h d = (case prevAvg d1 of
      None \<Rightarrow> Some (\<lparr>mr_Score = 0, mr_Candidate = False, mr_Unevaluable = False\<rparr>, d1\<lparr>prevAvg := Some cur\<rparr>)
    | Some old \<Rightarrow> (case evaluated_blocks (md_roiMask d1) old cur of None \<Rightarrow> None
        | Some bs \<Rightarrow> (let changed = length (filter (\<lambda>(p, a). \<bar>a - p\<bar> > MotionThreshold (md_cfg d)) bs);
                         score = (if bs = [] then 0 else of_nat changed / of_nat (length bs))
                     in Some (\<lparr>mr_Score = score, mr_Candidate = (score \<ge> MinChangedArea (md_cfg d)), mr_Unevaluable = False\<rparr>,
                              d1\<lparr>prevAvg := Some cur\<rparr>))))"
    using False cur(1) unfolding Detector_Evaluate_def Let_def b_def [symmetric] bx_def [symmetric] bh_def [symmetric] d1_def [symmetric]
    by simp
  have inv: "detector_inv (d1\<lparr>prevAvg := Some cur\<rparr>)"
    using d1(2) cur(2) n [of "d1\<lparr>prevAvg := Some cur\<rparr>"] cfg by (auto simp: detector_inv_def)
  have frac: "of_nat (length (filter P bs)) / of_nat (length bs) \<le> (1 :: rat)" for P and bs :: "(rat \<times> rat) list"
    using length_filter_le [of P bs] by (cases "bs = []") (simp_all add: divide_le_eq_1)
  show ?thesis
  proof (cases "prevAvg d1")
    case None
    then show ?thesis using e inv False by simp
  next
    case (Some p)
    then have "evaluated_blocks (md_roiMask d1) p cur \<noteq> None"
      using d1 cur(2) by (auto simp: evaluated_blocks_def)
    then show ?thesis using e inv False Some frac by (auto simp: Let_def)
  qed
qed


inductive detector_op :: "motion_detector \<Rightarrow> motion_detector \<Rightarrow> bool" where
  eval: "Detector_Evaluate y w h d = Some (r, d') \<Longrightarrow> detector_op d d'"
| set_rois: "detector_op d (Detector_SetROIs rs d)"

interpretation detector: machine "\<lambda>d. \<exists>c. d = NewMotionDetector c" detector_op detector_inv
proof
  fix d d' assume inv: "detector_inv d" and "detector_op d d'"
  from this(2) show "detector_inv d'"
  proof (cases rule: detector_op.cases)
    case (eval y w h r)
    then show ?thesis using detector_step [OF inv, of y w h] by auto
  qed (simp add: Detector_SetROIs_def detector_inv_def)
qed (auto simp: NewMotionDetector_def detector_inv_def)

text \<open>The hybrid detector is total. Over frames of any sizes, also short buffers and changes of resolution or regions,
  evaluation indexes nothing out of range, the score is between 0 and 1, and a frame is reported as not evaluable
  exactly when its buffer does not hold its dimensions, so that the caller forwards it.\<close>

theorem motion_detector_total:
  assumes "detector_op\<^sup>*\<^sup>* (NewMotionDetector c) d"
  shows "\<exists>r d'. Detector_Evaluate y w h d = Some (r, d') \<and> 0 \<le> mr_Score r \<and> mr_Score r \<le> 1
    \<and> (mr_Unevaluable r \<longleftrightarrow> w = 0 \<or> h = 0 \<or> length y < w * h)"
proof -
  have "detector_inv d" using detector.invar_reachable [OF _ assms] by blast
  from detector_step [OF this, of y w h] show ?thesis by auto
qed

section \<open>Concrete gates\<close>

definition narrow :: roi where
  "narrow = \<lparr>XMin = 1 / 50, YMin = 0, XMax = 1 / 25, YMax = 1\<rparr>"

definition sample_gate :: gate_config where
  "sample_gate = \<lparr>Sensitivity = '''', MinDelta = 0, MinCells = 0, Persist = 0, Hold = 0, cfg_LightingShift = 0, GlobalChangeFraction = 0,
     WarmupFrames = 1, StillAbsorb = 0, NewAppearanceGap = 0, gate_ROIs = [narrow]\<rparr>"

definition black :: luma where "black = replicate 576 0"

lemma narrow_blind: "covers_no_centre [narrow]" "validateROI narrow"
  by (rule strip_covers_no_centre [of 0]) (simp_all add: narrow_def validateROI_def)

text \<open>Two frames take a gate that waits for one frame of warm-up to idle.\<close>

lemma idle_gate:
  obtains g where "gate_step\<^sup>*\<^sup>* (NewMotionGate sample_gate) g" "gmode g = Idle" "streak g = 0" "gcfg g = withDefaults sample_gate"
    "warm g = 1" "bg g \<noteq> []"
proof -
  let ?n = "NewMotionGate sample_gate"
  have "length black = 576" by (simp add: black_def)
  then have "\<not> (32 < motionGateCellsX \<or> 18 < motionGateCellsY \<or> length black < 32 * 18)" by (simp add: grid_defs)
  then have "cellMeans black 32 18 \<noteq> Inl ()" unfolding cellMeans_def by (simp only: if_False sum.simps not_False_eq_True)
  then obtain means where m: "cellMeans black 32 18 = Inr (Some means)" "length means = ncells"
    by (rule_tac cellMeans_total [of black 32 18]) blast+
  have ne: "means \<noteq> []" using m(2) by (auto simp: grid_defs)
  define g1 where "g1 = (seedLocked means (?n\<lparr>gst := (gst ?n)\<lparr>FramesEvaluated := 1\<rparr>\<rparr>))\<lparr>warm := 1\<rparr>"
  have s1: "Gate_Evaluate black 32 18 1 ?n = Some g1"
    by (simp add: Gate_Evaluate_def m(1) evaluate_means_def Let_def g1_def NewMotionGate_def zero_status_def)
  have f1: "bg g1 = means" "warm g1 = 1" "gmode g1 = Warming" "gcfg g1 = withDefaults sample_gate" "streak g1 = 0"
    "groiMask g1 = gateROIMask [narrow]"
    by (simp_all add: g1_def seedLocked_def NewMotionGate_def Let_def withDefaults_def sample_gate_def)
  define g2 where "g2 = g1\<lparr>gst := (gst g1)\<lparr>FramesEvaluated := FramesEvaluated (gst g1) + 1\<rparr>, gmode := Idle\<rparr>"
  have "mask_cells g2 = []" by (rule mask_cells_blind [OF _ narrow_blind(1)]) (simp_all add: g2_def f1)
  then have s2: "Gate_Evaluate black 32 18 1 g1 = Some g2"
    using ne by (simp add: Gate_Evaluate_def m(1) evaluate_means_def Let_def f1 g2_def withDefaults_def sample_gate_def)
  have "gate_step ?n g1" by (rule gate_step.frame [OF _ s1]) (simp add: zero_time_def)
  moreover have "gate_step g1 g2" by (rule gate_step.frame [OF _ s2]) (simp add: zero_time_def)
  ultimately have "gate_step\<^sup>*\<^sup>* ?n g2" by simp
  then show ?thesis by (rule that) (simp_all add: g2_def f1 ne)
qed

theorem motion_gate_sound_witness:
  "\<exists>g'. Gate_Evaluate black 32 18 1 (NewMotionGate sample_gate) = Some g' \<and> length (episodes g') \<le> 64 \<and> list_all (\<lambda>x. 1 / 2 \<le> x) (noise g')"
  using motion_gate_sound [OF rtranclp.rtrancl_refl, of 1 black 32 18 sample_gate] by (auto simp: zero_time_def)

theorem motion_hysteresis_witness:
  "\<exists>g. gate_step\<^sup>*\<^sup>* (NewMotionGate sample_gate) g \<and> (\<exists>g'. run_advance [(1, True), (2, True)] g = Some g' \<and> gmode g' = Active)"
proof -
  obtain g where g: "gate_step\<^sup>*\<^sup>* (NewMotionGate sample_gate) g" "gmode g = Idle" "streak g = 0" "gcfg g = withDefaults sample_gate"
    by (rule idle_gate)
  have p: "Persist (gcfg g) = 2" by (simp add: g(4) withDefaults_def sample_gate_def)
  have "\<exists>before mid after. [(1, True), (2, True)] = before @ mid @ after \<and> int (length mid) = Persist (gcfg g) \<and> list_all snd mid
      \<and> held (Hold (gcfg g)) (fst (last mid)) after"
    by (intro exI [of _ "[]"] exI [of _ "[(1, True), (2, True)]"]) (simp add: p)
  with motion_hysteresis [OF g(1-3), of "[(1, True), (2, True)]"] g(1) show ?thesis by (auto simp: zero_time_def)
qed

theorem uniform_lighting_is_not_motion_witness:
  "\<exists>g. gate_step\<^sup>*\<^sup>* (NewMotionGate sample_gate) g \<and>
     (\<exists>g'. evaluate_means (map (\<lambda>b. b + 90) (bg g)) 1 g = Some g' \<and> ActiveCells (gst g') = 0 \<and> bg g' = map (\<lambda>b. b + 90) (bg g))"
proof -
  obtain g where g: "gate_step\<^sup>*\<^sup>* (NewMotionGate sample_gate) g" "gmode g = Idle" "gcfg g = withDefaults sample_gate" "warm g = 1"
    by (rule idle_gate)
  let ?g = "Gate_SetROIs [] g"
  have "gate_step\<^sup>*\<^sup>* (NewMotionGate sample_gate) ?g"
    using g(1) gate_step.rois by (rule rtranclp.rtrancl_into_rtrancl)
  moreover have "mask_cells ?g \<noteq> []" by (simp add: mask_cells_def in_mask_def Gate_SetROIs_def gateROIMask_def grid_defs)
  moreover have "gmode ?g \<noteq> Warming" "WarmupFrames (gcfg ?g) \<le> warm ?g"
    using g(2-4) by (simp_all add: Gate_SetROIs_def withDefaults_def sample_gate_def)
  ultimately show ?thesis
    using uniform_lighting_is_not_motion [of sample_gate ?g 1 90] by (auto simp: zero_time_def)
qed

theorem narrow_region_blinds_gate_witness:
  "(\<exists>g. gate_step\<^sup>*\<^sup>* (NewMotionGate sample_gate) g \<and> gmode g = Idle \<and>
     (\<exists>g'. run_frames [(black, 32, 18, 1)] (Gate_SetROIs [narrow] g) = Some g' \<and> gmode g' = Idle))
   \<and> (\<exists>g'. run_frames [(black, 32, 18, 1), (black, 32, 18, 2)] (NewMotionGate sample_gate) = Some g' \<and> gmode g' \<noteq> Active)"
proof -
  have n: "[narrow] \<noteq> []" "\<forall>r \<in> set [narrow]. validateROI r" "covers_no_centre [narrow]" using narrow_blind by simp_all
  obtain g where g: "gate_step\<^sup>*\<^sup>* (NewMotionGate sample_gate) g" "gmode g = Idle" by (rule idle_gate)
  have "gate_ROIs sample_gate = [narrow]" by (simp add: sample_gate_def)
  then have "\<exists>g'. run_frames [(black, 32, 18, 1), (black, 32, 18, 2)] (NewMotionGate sample_gate) = Some g' \<and> gmode g' \<noteq> Active"
    using narrow_region_blinds_gate [OF n, of "[(black, 32, 18, 1), (black, 32, 18, 2)]" g sample_gate] by blast
  moreover have "\<exists>g'. run_frames [(black, 32, 18, 1)] (Gate_SetROIs [narrow] g) = Some g' \<and> gmode g' = Idle"
    using narrow_region_blinds_gate [OF n, of "[(black, 32, 18, 1)]" g sample_gate] g(2) by auto
  ultimately show ?thesis using g by blast
qed

theorem motion_detector_total_witness:
  "\<exists>r d'. Detector_Evaluate [] 2 2 (NewMotionDetector \<lparr>BlockSize = 0, MotionThreshold = 10, MinChangedArea = 1 / 100, hyb_ROIs = []\<rparr>)
     = Some (r, d') \<and> mr_Unevaluable r"
  using motion_detector_total [OF rtranclp.rtrancl_refl, where y = "[]" and w = 2 and h = 2] by fastforce

end
