(* ===== verification/Anpr.thy ===== *)
theory Anpr
  imports RemoteConfig Edge_Prelude
begin

text \<open>
  Plate candidates: \<open>anpr/types.go\<close>, \<open>candidate.go\<close>, \<open>burst.go\<close>, \<open>quality.go\<close>, \<open>crop.go\<close> and \<open>registry.go\<close>, with the
  sampling boosts of \<open>agent/anpr_sampling.go\<close> and the consumer in \<open>agent/fulledge_wiring.go\<close> that submits the
  vehicles of a frame. Coordinates and confidences are exact rationals. \<open>fmt2\<close> is the \<open>%.2f\<close> of package \<open>fmt\<close>.
\<close>

section \<open>Vehicles\<close>

record abox =
  X0 :: rat
  Y0 :: rat
  X1 :: rat
  Y1 :: rat

definition BBox_Valid :: "abox \<Rightarrow> bool" where "BBox_Valid b \<longleftrightarrow> X1 b > X0 b \<and> Y1 b > Y0 b"
definition Width :: "abox \<Rightarrow> rat" where "Width b = X1 b - X0 b"
definition Height :: "abox \<Rightarrow> rat" where "Height b = Y1 b - Y0 b"

record vehicle =
  v_CameraKey :: string
  v_FrameSeq :: nat
  v_Timestamp :: gotime
  v_Confidence :: rat
  v_BBox :: abox
  v_SourceWidth :: int
  v_SourceHeight :: int
  v_TrackID :: string
  v_CorrelationID :: string

definition NewCandidateID :: "string \<Rightarrow> nat \<Rightarrow> nat \<Rightarrow> string \<Rightarrow> string" where
  "NewCandidateID cam fseq ordinal bid = cam @ '':'' @ dec_of_nat fseq @ '':'' @ dec_of_nat ordinal @ '':'' @ bid"

definition groupKey :: "string \<Rightarrow> string \<Rightarrow> string \<Rightarrow> string" where
  "groupKey cam track corr =
     (if track \<noteq> '''' then cam @ ''|track:'' @ track
      else if corr \<noteq> '''' then cam @ ''|corr:'' @ corr else cam @ ''|notrack'')"

definition dedupeKey :: "(rat \<Rightarrow> string) \<Rightarrow> vehicle \<Rightarrow> string" where
  "dedupeKey fmt2 v =
     v_CameraKey v @ '':'' @ dec_of_nat (v_FrameSeq v) @ '':'' @ fmt2 (X0 (v_BBox v)) @ '','' @ fmt2 (Y0 (v_BBox v)) @ '',''
       @ fmt2 (X1 (v_BBox v)) @ '','' @ fmt2 (Y1 (v_BBox v))"

section \<open>Quality\<close>

record quality =
  q_Area :: int
  q_VehicleConfidence :: rat
  q_PlateRegionConfidence :: "rat option"

definition score :: "quality \<Rightarrow> rat" where
  "score q =
     (case q_PlateRegionConfidence q of None \<Rightarrow> q_VehicleConfidence q | Some p \<Rightarrow> p) + of_int (q_Area q) / 1000000000"

definition ranks_before :: "string \<times> quality \<Rightarrow> string \<times> quality \<Rightarrow> bool" where
  "ranks_before a b \<longleftrightarrow> (if score (snd a) \<noteq> score (snd b) then score (snd a) > score (snd b) else fst a < fst b)"

fun insert_rank :: "string \<times> quality \<Rightarrow> (string \<times> quality) list \<Rightarrow> (string \<times> quality) list" where
  "insert_rank x [] = [x]"
| "insert_rank x (y # ys) = (if ranks_before y x then y # insert_rank x ys else x # y # ys)"

definition RankQuality :: "(string \<times> quality) list \<Rightarrow> string list" where
  "RankQuality items = map fst (foldr insert_rank items [])"

definition TopN :: "string list \<Rightarrow> int \<Rightarrow> string list" where
  "TopN ranked n = (if n \<le> 0 then [] else take (nat n) ranked)"

section \<open>Bursts\<close>

datatype burst_state = BurstOpen | BurstFull | BurstExpired | BurstClosed

definition terminal :: "burst_state \<Rightarrow> bool" where
  "terminal s \<longleftrightarrow> s = BurstExpired \<or> s = BurstClosed"

datatype outcome = OutcomeAccepted | OutcomeDuplicate | OutcomeStaleOutOfOrder | OutcomeCapacityFrames | OutcomeCapacityBursts | OutcomeInvalidBBox

datatype selection = SelectFirst | SelectTopNQuality

datatype crop_policy = CropPlateOnly | CropVehicleContext | CropPlatePlusContext | CropUnknown string

record padding =
  PercentX :: rat
  PercentY :: rat
  PixelsX :: rat
  PixelsY :: rat

record anpr_config =
  Enabled :: bool
  MaxActiveBurstsPerCamera :: int
  MaxFramesPerBurst :: int
  MaxCameras :: int
  BurstTTL :: duration
  FrameSelection :: selection
  DedupeCacheSize :: int
  CropPolicy :: crop_policy
  Padding :: padding

record frame_record =
  fr_CandidateID :: string
  fr_FrameSeq :: nat
  fr_Timestamp :: gotime
  fr_Quality :: quality

record burst =
  BurstID :: string
  b_CameraKey :: string
  b_TrackID :: string
  b_groupKey :: string
  StartedAt :: gotime
  ExpiresAt :: gotime
  MaxFrames :: int
  FramesAdded :: nat
  bstate :: burst_state
  bselection :: selection
  bframes :: "frame_record list"
  overflowCap :: int
  highestSeq :: nat
  hasHighest :: bool

definition newOverflowCap :: "int \<Rightarrow> int" where
  "newOverflowCap maxFrames =
     (if maxFrames \<le> 0 then 1
      else let overflow = wrap64 (maxFrames * 3) in if overflow < maxFrames then maxFrames else overflow)"

text \<open>\<open>FinalFrames\<close>; \<open>None\<close> is the panic of \<open>b.frames[:b.MaxFrames]\<close> with a negative bound. A Go map built from the frames
  keeps the last of equal identifiers.\<close>

definition FinalFrames :: "burst \<Rightarrow> frame_record list option" where
  "FinalFrames b =
     (if bselection b \<noteq> SelectTopNQuality \<or> int (length (bframes b)) \<le> MaxFrames b
      then if int (length (bframes b)) > MaxFrames b
           then if MaxFrames b < 0 then None else Some (take (nat (MaxFrames b)) (bframes b))
           else Some (bframes b)
      else let byKey = fold (\<lambda>f m. AList.update (fr_CandidateID f) f m) (bframes b) []
           in Some (List.map_filter (map_of byKey) (TopN (RankQuality (map (\<lambda>(k, f). (k, fr_Quality f)) byKey)) (MaxFrames b))))"

section \<open>The manager\<close>

text \<open>What the manager asks of the sampler.\<close>

datatype hint_call = RequestBurstFPS string string rat | ReleaseBurstFPS string string

record burst_manager =
  acfg :: anpr_config
  bursts :: "(string \<times> burst) list"
  activeCount :: "string \<Rightarrow> int"
  burstCounter :: nat
  dedupe :: "string list"
  dedupeOrder :: "string list"
  hinted :: bool

definition NewBurstManager :: "anpr_config \<Rightarrow> bool \<Rightarrow> burst_manager" where
  "NewBurstManager c hint =
     \<lparr>acfg = c, bursts = [], activeCount = (\<lambda>_. 0), burstCounter = 0, dedupe = [], dedupeOrder = [], hinted = hint\<rparr>"

definition requestBoostLocked :: "(string \<Rightarrow> rat option) \<Rightarrow> string \<Rightarrow> string \<Rightarrow> burst_manager \<Rightarrow> hint_call list" where
  "requestBoostLocked burstFPS cam bid m =
     (if \<not> hinted m then [] else case burstFPS cam of None \<Rightarrow> [] | Some fps \<Rightarrow> [RequestBurstFPS cam bid fps])"

definition releaseBoostLocked :: "string \<Rightarrow> string \<Rightarrow> burst_manager \<Rightarrow> hint_call list" where
  "releaseBoostLocked cam bid m = (if \<not> hinted m then [] else [ReleaseBurstFPS cam bid])"

definition newBurstLocked :: "string \<Rightarrow> vehicle \<Rightarrow> gotime \<Rightarrow> burst_manager \<Rightarrow> burst \<times> burst_manager" where
  "newBurstLocked gk v now m =
     (let n = wrap_u64 (burstCounter m + 1); c = acfg m
      in (\<lparr>BurstID = gk @ ''-burst-'' @ dec_of_nat n, b_CameraKey = v_CameraKey v, b_TrackID = v_TrackID v, b_groupKey = gk,
           StartedAt = now, ExpiresAt = now + BurstTTL c, MaxFrames = MaxFramesPerBurst c, FramesAdded = 0, bstate = BurstOpen,
           bselection = FrameSelection c, bframes = [], overflowCap = newOverflowCap (MaxFramesPerBurst c), highestSeq = 0,
           hasHighest = False\<rparr>,
          m\<lparr>burstCounter := n\<rparr>))"

text \<open>The \<open>for\<close> loop drops as many of the oldest keys as exceed the limit.\<close>

definition recordDedupeLocked :: "string \<Rightarrow> burst_manager \<Rightarrow> burst_manager" where
  "recordDedupeLocked dk m =
     (if dk \<in> set (dedupe m) then m
      else let order = dedupeOrder m @ [dk];
               limit = (if DedupeCacheSize (acfg m) \<le> 0 then 1 else DedupeCacheSize (acfg m));
               excess = length order - nat limit
           in m\<lparr>dedupe := filter (\<lambda>k. k \<notin> set (take excess order)) (dk # dedupe m), dedupeOrder := drop excess order\<rparr>)"

definition expired :: "gotime \<Rightarrow> burst \<Rightarrow> bool" where
  "expired now b \<longleftrightarrow> \<not> terminal (bstate b) \<and> \<not> now < ExpiresAt b"

definition decrement :: "string \<Rightarrow> (string \<Rightarrow> int) \<Rightarrow> string \<Rightarrow> int" where
  "decrement cam f = f(cam := f cam - 1)"

text \<open>\<open>cleanupExpiredLocked\<close>. The order in which Go visits the map only permutes the releases.\<close>

definition cleanupExpiredLocked :: "gotime \<Rightarrow> burst_manager \<Rightarrow> hint_call list \<times> burst_manager" where
  "cleanupExpiredLocked now m =
     (let gone = filter (expired now) (map snd (bursts m))
      in (concat (map (\<lambda>b. releaseBoostLocked (b_CameraKey b) (BurstID b) m) gone),
          m\<lparr>bursts := map (\<lambda>(k, b). (k, if expired now b then b\<lparr>bstate := BurstExpired\<rparr> else b)) (bursts m),
            activeCount := fold (\<lambda>b. decrement (b_CameraKey b)) gone (activeCount m)\<rparr>))"

text \<open>\<open>Process\<close> from the point where the burst of the group is known: \<open>calls\<close> are the hints so far.\<close>

definition add_frame :: "(rat \<Rightarrow> string) \<Rightarrow> vehicle \<Rightarrow> string \<Rightarrow> burst \<Rightarrow> hint_call list \<Rightarrow> burst_manager
    \<Rightarrow> (burst \<times> string) option \<times> outcome \<times> hint_call list \<times> burst_manager" where
  "add_frame fmt2 v gk b calls m =
     (if bstate b = BurstFull then (None, OutcomeCapacityFrames, calls, m)
      else if hasHighest b \<and> v_FrameSeq v \<le> highestSeq b then (None, OutcomeStaleOutOfOrder, calls, m)
      else if int (length (bframes b)) \<ge> overflowCap b
      then (None, OutcomeCapacityFrames, calls @ releaseBoostLocked (b_CameraKey b) (BurstID b) m,
            m\<lparr>bursts := AList.update gk (b\<lparr>bstate := BurstFull\<rparr>) (bursts m)\<rparr>)
      else
        let cid = NewCandidateID (v_CameraKey v) (v_FrameSeq v) (FramesAdded b) (BurstID b);
            b1 = b\<lparr>bframes := bframes b @ [\<lparr>fr_CandidateID = cid, fr_FrameSeq = v_FrameSeq v, fr_Timestamp = v_Timestamp v,
                     fr_Quality = \<lparr>q_Area = 0, q_VehicleConfidence = v_Confidence v, q_PlateRegionConfidence = None\<rparr>\<rparr>],
                   FramesAdded := FramesAdded b + 1, highestSeq := v_FrameSeq v, hasHighest := True\<rparr>;
            full = int (FramesAdded b1) \<ge> MaxFrames b1;
            b2 = (if full then b1\<lparr>bstate := BurstFull\<rparr> else b1);
            calls' = (if full then calls @ releaseBoostLocked (b_CameraKey b) (BurstID b) m else calls)
        in (Some (b2, cid), OutcomeAccepted, calls',
            recordDedupeLocked (dedupeKey fmt2 v) (m\<lparr>bursts := AList.update gk b2 (bursts m)\<rparr>)))"

definition open_burst :: "(rat \<Rightarrow> string) \<Rightarrow> (string \<Rightarrow> rat option) \<Rightarrow> gotime \<Rightarrow> vehicle \<Rightarrow> string \<Rightarrow> hint_call list \<Rightarrow> burst_manager
    \<Rightarrow> (burst \<times> string) option \<times> outcome \<times> hint_call list \<times> burst_manager" where
  "open_burst fmt2 burstFPS now v gk calls m =
     (let cam = v_CameraKey v
      in if activeCount m cam \<ge> MaxActiveBurstsPerCamera (acfg m) then (None, OutcomeCapacityBursts, calls, m)
         else case newBurstLocked gk v now m of (b, m1) \<Rightarrow>
           add_frame fmt2 v gk b (calls @ requestBoostLocked burstFPS cam (BurstID b) m1)
             (m1\<lparr>bursts := AList.update gk b (bursts m1), activeCount := (activeCount m1)(cam := activeCount m1 cam + 1)\<rparr>))"

definition Process :: "(rat \<Rightarrow> string) \<Rightarrow> (string \<Rightarrow> rat option) \<Rightarrow> gotime \<Rightarrow> vehicle \<Rightarrow> burst_manager
    \<Rightarrow> (burst \<times> string) option \<times> outcome \<times> hint_call list \<times> burst_manager" where
  "Process fmt2 burstFPS now v m0 =
     (case cleanupExpiredLocked now m0 of (calls, m) \<Rightarrow>
        if \<not> BBox_Valid (v_BBox v) then (None, OutcomeInvalidBBox, calls, m)
        else if dedupeKey fmt2 v \<in> set (dedupe m) then (None, OutcomeDuplicate, calls, m)
        else
          let gk = groupKey (v_CameraKey v) (v_TrackID v) (v_CorrelationID v)
          in case map_of (bursts m) gk of
               None \<Rightarrow> open_burst fmt2 burstFPS now v gk calls m
             | Some b \<Rightarrow>
                 if terminal (bstate b) then open_burst fmt2 burstFPS now v gk calls m
                 else add_frame fmt2 v gk b calls m)"

definition Burst_Close :: "string \<Rightarrow> string \<Rightarrow> string \<Rightarrow> burst_manager \<Rightarrow> hint_call list \<times> burst_manager" where
  "Burst_Close cam track corr m =
     (let gk = groupKey cam track corr
      in case map_of (bursts m) gk of
           None \<Rightarrow> ([], m)
         | Some b \<Rightarrow>
             if terminal (bstate b) then ([], m)
             else (releaseBoostLocked (b_CameraKey b) (BurstID b) m,
                   m\<lparr>bursts := AList.update gk (b\<lparr>bstate := BurstClosed\<rparr>) (bursts m),
                     activeCount := decrement (b_CameraKey b) (activeCount m)\<rparr>))"

definition Burst_Cleanup :: "gotime \<Rightarrow> burst_manager \<Rightarrow> hint_call list \<times> burst_manager" where
  "Burst_Cleanup now m =
     (case cleanupExpiredLocked now m of (calls, m1) \<Rightarrow>
        (calls, m1\<lparr>bursts := filter (\<lambda>(k, b). \<not> terminal (bstate b)) (bursts m1)\<rparr>))"

section \<open>Crops\<close>

datatype crop_error = ErrCropInvertedBBox | ErrCropZeroArea | ErrCropInvalidFrame | ErrCropFullyOutside | Err_No_Plate | Err_Unknown_Policy string

definition padding_apply :: "padding \<Rightarrow> abox \<Rightarrow> abox" where
  "padding_apply p b =
     (let dx = Width b * PercentX p + PixelsX p; dy = Height b * PercentY p + PixelsY p
      in \<lparr>X0 = X0 b - dx, Y0 = Y0 b - dy, X1 = X1 b + dx, Y1 = Y1 b + dy\<rparr>)"

definition clampF :: "rat \<Rightarrow> rat \<Rightarrow> rat \<Rightarrow> rat" where
  "clampF v lo hi = (if v < lo then lo else if v > hi then hi else v)"

record crop_result =
  RequestedBBox :: abox
  ClampedBBox :: abox
  OutputWidth :: int
  OutputHeight :: int

definition ComputeCrop :: "abox \<Rightarrow> padding \<Rightarrow> int \<Rightarrow> int \<Rightarrow> crop_error + crop_result" where
  "ComputeCrop req pad w h =
     (if w \<le> 0 \<or> h \<le> 0 then Inl ErrCropInvalidFrame
      else if \<not> BBox_Valid req then Inl ErrCropInvertedBBox
      else
        let padded = padding_apply pad req; fw = of_int w; fh = of_int h
        in if \<not> BBox_Valid padded then Inl ErrCropInvertedBBox
           else if X1 padded \<le> 0 \<or> Y1 padded \<le> 0 \<or> X0 padded \<ge> fw \<or> Y0 padded \<ge> fh then Inl ErrCropFullyOutside
           else
             let cl = \<lparr>X0 = clampF (X0 padded) 0 fw, Y0 = clampF (Y0 padded) 0 fh, X1 = clampF (X1 padded) 0 fw, Y1 = clampF (Y1 padded) 0 fh\<rparr>
             in if Width cl \<le> 0 \<or> Height cl \<le> 0 then Inl ErrCropZeroArea
                else Inr \<lparr>RequestedBBox = req, ClampedBBox = cl, OutputWidth = \<lfloor>Width cl\<rfloor>, OutputHeight = \<lfloor>Height cl\<rfloor>\<rparr>)"

definition SelectCropBBox :: "crop_policy \<Rightarrow> abox \<Rightarrow> abox option \<Rightarrow> crop_error + abox" where
  "SelectCropBBox policy vehicle plate =
     (case policy of
        CropPlateOnly \<Rightarrow> (case plate of None \<Rightarrow> Inl Err_No_Plate | Some p \<Rightarrow> Inr p)
      | CropVehicleContext \<Rightarrow> Inr vehicle
      | CropPlatePlusContext \<Rightarrow> (case plate of None \<Rightarrow> Inr vehicle | Some p \<Rightarrow> Inr p)
      | CropUnknown s \<Rightarrow> Inl (Err_Unknown_Policy s))"

section \<open>The registry\<close>

record anpr_camera =
  CandidatesCreated :: int
  CandidatesRejected :: int
  CropsCreated :: int
  CapacityDrops :: int
  LastCandidateAt :: "gotime option"

record registry =
  manager :: burst_manager
  rcameras :: "(string \<times> anpr_camera) list"
  CandidateCount :: int
  BurstCount :: int
  CapacityDropped :: int
  BurstsReleased :: int

definition NewRegistry :: "anpr_config \<Rightarrow> bool \<Rightarrow> registry" where
  "NewRegistry c hint =
     \<lparr>manager = NewBurstManager c hint, rcameras = [], CandidateCount = 0, BurstCount = 0, CapacityDropped = 0, BurstsReleased = 0\<rparr>"

definition new_camera :: anpr_camera where
  "new_camera = \<lparr>CandidatesCreated = 0, CandidatesRejected = 0, CropsCreated = 0, CapacityDrops = 0, LastCandidateAt = None\<rparr>"

definition update_camera :: "string \<Rightarrow> (anpr_camera \<Rightarrow> anpr_camera) \<Rightarrow> registry \<Rightarrow> registry" where
  "update_camera cam f r =
     (case map_of (rcameras r) cam of None \<Rightarrow> r | Some s \<Rightarrow> r\<lparr>rcameras := AList.update cam (f s) (rcameras r)\<rparr>)"

definition recordRejected :: "string \<Rightarrow> registry \<Rightarrow> registry" where
  "recordRejected cam = update_camera cam (\<lambda>s. s\<lparr>CandidatesRejected := CandidatesRejected s + 1\<rparr>)"

definition recordAccepted :: "string \<Rightarrow> gotime \<Rightarrow> registry \<Rightarrow> registry" where
  "recordAccepted cam now r =
     update_camera cam (\<lambda>s. s\<lparr>CandidatesCreated := CandidatesCreated s + 1, CropsCreated := CropsCreated s + 1, LastCandidateAt := Some now\<rparr>)
       (r\<lparr>CandidateCount := CandidateCount r + 1\<rparr>)"

datatype submit_result =
    Accepted string string "abox option" crop_result
  | Skipped
  | Rejected string
  | Unavailable string
  | DroppedCapacity string

definition outcome_text :: "outcome \<Rightarrow> string" where
  "outcome_text oc =
     (case oc of OutcomeAccepted \<Rightarrow> ''accepted'' | OutcomeDuplicate \<Rightarrow> ''duplicate'' | OutcomeStaleOutOfOrder \<Rightarrow> ''stale_out_of_order''
      | OutcomeCapacityFrames \<Rightarrow> ''capacity_frames'' | OutcomeCapacityBursts \<Rightarrow> ''capacity_bursts'' | OutcomeInvalidBBox \<Rightarrow> ''invalid_bbox'')"

definition rejectOutcome :: "string \<Rightarrow> outcome \<Rightarrow> registry \<Rightarrow> submit_result \<times> registry" where
  "rejectOutcome cam oc r0 =
     (let r = recordRejected cam r0
      in if oc = OutcomeCapacityBursts \<or> oc = OutcomeCapacityFrames
         then (DroppedCapacity (outcome_text oc),
               update_camera cam (\<lambda>s. s\<lparr>CapacityDrops := CapacityDrops s + 1\<rparr>) (r\<lparr>CapacityDropped := CapacityDropped r + 1\<rparr>))
         else (Rejected (outcome_text oc), r))"

text \<open>\<open>Submit\<close> with the authorizer, the plate-region provider and the clock as arguments; the hints of the burst manager
  are returned.\<close>

definition Submit :: "(rat \<Rightarrow> string) \<Rightarrow> (string \<Rightarrow> rat option) \<Rightarrow> (string \<Rightarrow> bool) \<Rightarrow> (vehicle \<Rightarrow> abox option) \<Rightarrow> gotime \<Rightarrow> vehicle \<Rightarrow> registry
    \<Rightarrow> submit_result \<times> hint_call list \<times> registry" where
  "Submit fmt2 burstFPS allowed locate now v r =
     (let cam = v_CameraKey v; c = acfg (manager r)
      in if \<not> Enabled c then (Skipped, [], r)
         else if \<not> allowed cam then (Rejected ''unauthorized'', [], r)
         else if cam = '''' \<or> \<not> BBox_Valid (v_BBox v) then (Rejected ''invalid_bbox'', [], r)
         else if map_of (rcameras r) cam = None \<and> MaxCameras c > 0 \<and> int (length (rcameras r)) \<ge> MaxCameras c
         then (DroppedCapacity ''max_cameras'', [], r)
         else
           let r1 = (if map_of (rcameras r) cam = None then r\<lparr>rcameras := (cam, new_camera) # rcameras r\<rparr> else r)
           in case Process fmt2 burstFPS now v (manager r1) of
                (None, oc, calls, m) \<Rightarrow>
                  (case rejectOutcome cam oc (r1\<lparr>manager := m\<rparr>) of (res, r2) \<Rightarrow> (res, calls, r2))
              | (Some (b, cid), oc, calls, m) \<Rightarrow>
                  (let r2 = r1\<lparr>manager := m, BurstCount := BurstCount r1 + (if FramesAdded b = 1 then 1 else 0)\<rparr>;
                       plate = locate v
                   in case SelectCropBBox (CropPolicy c) (v_BBox v) plate of
                        Inl e \<Rightarrow> (Unavailable ''plate_region_unavailable'', calls, recordRejected cam r2)
                      | Inr box \<Rightarrow>
                          (case ComputeCrop box (Padding c) (v_SourceWidth v) (v_SourceHeight v) of
                             Inl e \<Rightarrow> (Rejected ''invalid_crop'', calls, recordRejected cam r2)
                           | Inr crop \<Rightarrow> (Accepted cid (BurstID b) plate crop, calls, recordAccepted cam now r2))))"

definition Registry_Cleanup :: "gotime \<Rightarrow> registry \<Rightarrow> hint_call list \<times> registry" where
  "Registry_Cleanup now r =
     (case Burst_Cleanup now (manager r) of (calls, m) \<Rightarrow>
        let released = int (length (bursts (manager r))) - int (length (bursts m))
        in (calls, r\<lparr>manager := m, BurstsReleased := BurstsReleased r + max 0 released\<rparr>))"

text \<open>\<open>consumeAnprCandidates\<close>: each vehicle of a frame becomes a candidate with the frame's number and correlation id and
  no track.\<close>

definition vehicle_of :: "string \<Rightarrow> nat \<Rightarrow> gotime \<Rightarrow> string \<Rightarrow> int \<Rightarrow> int \<Rightarrow> rat \<times> abox \<Rightarrow> vehicle" where
  "vehicle_of cam fseq tm corr w h d =
     \<lparr>v_CameraKey = cam, v_FrameSeq = fseq, v_Timestamp = tm, v_Confidence = fst d, v_BBox = snd d, v_SourceWidth = w,
      v_SourceHeight = h, v_TrackID = '''', v_CorrelationID = corr\<rparr>"

fun submit_all :: "(rat \<Rightarrow> string) \<Rightarrow> (string \<Rightarrow> rat option) \<Rightarrow> (string \<Rightarrow> bool) \<Rightarrow> (vehicle \<Rightarrow> abox option)
    \<Rightarrow> (gotime \<times> vehicle) list \<Rightarrow> registry \<Rightarrow> submit_result list \<times> hint_call list \<times> registry" where
  "submit_all fmt2 burstFPS allowed locate [] r = ([], [], r)"
| "submit_all fmt2 burstFPS allowed locate ((now, v) # vs) r =
     (case Submit fmt2 burstFPS allowed locate now v r of (res, calls, r1) \<Rightarrow>
        case submit_all fmt2 burstFPS allowed locate vs r1 of (rs, calls', r2) \<Rightarrow> (res # rs, calls @ calls', r2))"

text \<open>\<open>clock\<close> gives the instant each submission reads. Between two submissions the loop extracts the crop of an accepted
  vehicle and uploads it synchronously; neither touches the registry, so here they are only the time between two readings.\<close>

definition consumeAnprCandidates :: "(rat \<Rightarrow> string) \<Rightarrow> (string \<Rightarrow> rat option) \<Rightarrow> (string \<Rightarrow> bool) \<Rightarrow> (vehicle \<Rightarrow> abox option) \<Rightarrow> (nat \<Rightarrow> gotime)
    \<Rightarrow> string \<Rightarrow> nat \<Rightarrow> gotime \<Rightarrow> string \<Rightarrow> int \<Rightarrow> int \<Rightarrow> (rat \<times> abox) list \<Rightarrow> registry \<Rightarrow> submit_result list \<times> hint_call list \<times> registry" where
  "consumeAnprCandidates fmt2 burstFPS allowed locate clock cam fseq tm corr w h vehicles =
     submit_all fmt2 burstFPS allowed locate (map (\<lambda>(i, d). (clock i, vehicle_of cam fseq tm corr w h d)) (enumerate 0 vehicles))"

section \<open>Sampling boosts\<close>

text \<open>\<open>samplerBurstHint\<close>. \<open>target\<close> is the rate each running pipeline samples at; with an owner of the rates
  (\<open>burstDemandController\<close>) a boost is a demand given to it instead.\<close>

record boost_state =
  baselineFPS :: rat
  bactive :: "(string \<times> rat) list"

record sampler_hint =
  boosts :: "(string \<times> boost_state) list"
  target :: "string \<Rightarrow> rat option"
  demand :: "string \<Rightarrow> rat"
  owned_rates :: bool

definition clampBurstFPS :: "rat \<Rightarrow> rat" where
  "clampBurstFPS fps = (if fps > MaxVideoTargetFPS then MaxVideoTargetFPS else if fps < 0 then 0 else fps)"

definition set_target :: "string \<Rightarrow> rat \<Rightarrow> sampler_hint \<Rightarrow> sampler_hint" where
  "set_target cam fps h = (if target h cam = None then h else h\<lparr>target := (target h)(cam \<mapsto> fps)\<rparr>)"

definition applyLocked :: "string \<Rightarrow> boost_state \<Rightarrow> sampler_hint \<Rightarrow> sampler_hint" where
  "applyLocked cam st h =
     (let fps = fold (\<lambda>(b, f) x. if f > x then f else x) (bactive st) 0
      in if owned_rates h then h\<lparr>demand := (demand h)(cam := fps)\<rparr> else set_target cam (max (baselineFPS st) fps) h)"

definition Hint_Request :: "string \<Rightarrow> string \<Rightarrow> rat \<Rightarrow> sampler_hint \<Rightarrow> sampler_hint" where
  "Hint_Request cam bid fps0 h =
     (let fps = clampBurstFPS fps0;
          st = (case map_of (boosts h) cam of
                  Some st \<Rightarrow> Some st
                | None \<Rightarrow> map_option (\<lambda>base. \<lparr>baselineFPS = base, bactive = []\<rparr>) (target h cam))
      in case st of
           None \<Rightarrow> h
         | Some st \<Rightarrow>
             let st' = st\<lparr>bactive := AList.update bid fps (bactive st)\<rparr>
             in applyLocked cam st' (h\<lparr>boosts := AList.update cam st' (boosts h)\<rparr>))"

definition Hint_Release :: "string \<Rightarrow> string \<Rightarrow> sampler_hint \<Rightarrow> sampler_hint" where
  "Hint_Release cam bid h =
     (case map_of (boosts h) cam of
        None \<Rightarrow> h
      | Some st \<Rightarrow>
          let st' = st\<lparr>bactive := AList.delete bid (bactive st)\<rparr>
          in if bactive st' = []
             then let h1 = (if owned_rates h then h\<lparr>demand := (demand h)(cam := 0)\<rparr> else set_target cam (baselineFPS st) h)
                  in h1\<lparr>boosts := AList.delete cam (boosts h1)\<rparr>
             else applyLocked cam st' (h\<lparr>boosts := AList.update cam st' (boosts h)\<rparr>))"

definition hint_apply :: "hint_call \<Rightarrow> sampler_hint \<Rightarrow> sampler_hint" where
  "hint_apply c h = (case c of RequestBurstFPS cam bid fps \<Rightarrow> Hint_Request cam bid fps h | ReleaseBurstFPS cam bid \<Rightarrow> Hint_Release cam bid h)"

end
