(* ===== verification/Anpr_Props.thy ===== *)
theory Anpr_Props
  imports Anpr
begin

text \<open>
  Bursts stay within their bounds and their sampling boosts end with them; crops lie inside the frame. Three
  properties show what the wiring makes of it: one candidate per frame, a ranking that never selects, and a map of
  bursts that grows for ever.
\<close>

section \<open>The invariant of the burst manager\<close>

definition burst_ok :: "anpr_config \<Rightarrow> burst \<Rightarrow> bool" where
  "burst_ok c b \<longleftrightarrow>
     length (bframes b) = FramesAdded b \<and> sorted_wrt (<) (map fr_FrameSeq (bframes b))
     \<and> (hasHighest b \<longleftrightarrow> bframes b \<noteq> []) \<and> (hasHighest b \<longrightarrow> highestSeq b = fr_FrameSeq (last (bframes b)))
     \<and> MaxFrames b = MaxFramesPerBurst c \<and> overflowCap b = newOverflowCap (MaxFramesPerBurst c) \<and> bselection b = FrameSelection c
     \<and> int (FramesAdded b) \<le> max 1 (MaxFramesPerBurst c) \<and> (bstate b = BurstOpen \<longrightarrow> int (FramesAdded b) < max 1 (MaxFramesPerBurst c))"

definition live :: "string \<Rightarrow> string \<times> burst \<Rightarrow> bool" where
  "live cam kb \<longleftrightarrow> \<not> terminal (bstate (snd kb)) \<and> b_CameraKey (snd kb) = cam"

definition counts_ok :: "burst_manager \<Rightarrow> bool" where
  "counts_ok m \<longleftrightarrow>
     (\<forall>cam. activeCount m cam = int (length (filter (live cam) (bursts m)))
            \<and> int (length (filter (live cam) (bursts m))) \<le> max 0 (MaxActiveBurstsPerCamera (acfg m)))"

definition cache_ok :: "burst_manager \<Rightarrow> bool" where
  "cache_ok m \<longleftrightarrow>
     set (dedupe m) = set (dedupeOrder m) \<and> distinct (dedupe m) \<and> distinct (dedupeOrder m)
     \<and> int (length (dedupeOrder m)) \<le> max 1 (DedupeCacheSize (acfg m))"

definition minv :: "burst_manager \<Rightarrow> bool" where
  "minv m \<longleftrightarrow> distinct (map fst (bursts m)) \<and> (\<forall>(k, b) \<in> set (bursts m). burst_ok (acfg m) b) \<and> counts_ok m \<and> cache_ok m"

lemma minv_new: "minv (NewBurstManager c h)"
  by (simp add: minv_def NewBurstManager_def counts_ok_def cache_ok_def)

lemma overflow_covers: "MaxFramesPerBurst c \<le> newOverflowCap (MaxFramesPerBurst c)" "1 \<le> newOverflowCap (MaxFramesPerBurst c)"
  by (auto simp: newOverflowCap_def Let_def)

section \<open>Updating one entry\<close>

lemma filter_update_new: "k \<notin> fst ` set xs \<Longrightarrow> length (filter P (AList.update k b xs)) = length (filter P xs) + (if P (k, b) then 1 else 0)"
  by (induction xs) auto

lemma filter_update_old:
  "distinct (map fst xs) \<Longrightarrow> map_of xs k = Some a \<Longrightarrow>
   length (filter P (AList.update k b xs)) + (if P (k, a) then 1 else 0) = length (filter P xs) + (if P (k, b) then 1 else 0)"
  by (induction xs) (auto dest: map_of_SomeD)

lemma set_AList_update: "x \<in> set (AList.update k v xs) \<Longrightarrow> x = (k, v) \<or> x \<in> set xs"
  by (induction xs) (auto split: if_splits)

lemma live_sel: "live cam (k, b) \<longleftrightarrow> \<not> terminal (bstate b) \<and> b_CameraKey b = cam"
  by (simp add: live_def)

section \<open>Expiry\<close>

lemma fold_decrement:
  "fold (\<lambda>b. decrement (b_CameraKey b)) bs f cam = f cam - int (length (filter (\<lambda>b. b_CameraKey b = cam) bs))"
  by (induction bs arbitrary: f) (auto simp: decrement_def)

definition expire_entry :: "gotime \<Rightarrow> string \<times> burst \<Rightarrow> string \<times> burst" where
  "expire_entry now kb = (fst kb, if expired now (snd kb) then (snd kb)\<lparr>bstate := BurstExpired\<rparr> else snd kb)"

lemma cleanup_bursts: "bursts (snd (cleanupExpiredLocked now m)) = map (expire_entry now) (bursts m)"
  by (simp add: cleanupExpiredLocked_def Let_def expire_entry_def case_prod_unfold)

lemma cleanup_frame:
  "acfg (snd (cleanupExpiredLocked now m)) = acfg m" "dedupe (snd (cleanupExpiredLocked now m)) = dedupe m"
  "dedupeOrder (snd (cleanupExpiredLocked now m)) = dedupeOrder m" "hinted (snd (cleanupExpiredLocked now m)) = hinted m"
  "burstCounter (snd (cleanupExpiredLocked now m)) = burstCounter m"
  by (simp_all add: cleanupExpiredLocked_def Let_def)

lemma live_expire: "live cam (expire_entry now kb) \<longleftrightarrow> live cam kb \<and> \<not> expired now (snd kb)"
  by (auto simp: live_def expire_entry_def terminal_def)

lemma live_split:
  "length (filter (live cam) xs) =
   length (filter (live cam) (map (expire_entry now) xs)) + length (filter (\<lambda>b. b_CameraKey b = cam) (filter (expired now) (map snd xs)))"
proof (induction xs)
  case (Cons x xs)
  have "expired now (snd x) \<and> b_CameraKey (snd x) = cam \<longleftrightarrow> live cam x \<and> expired now (snd x)" by (auto simp: live_def expired_def)
  with Cons show ?case by (auto simp: live_expire)
qed simp

lemma minv_cleanup: "minv m \<Longrightarrow> minv (snd (cleanupExpiredLocked now m))"
proof -
  assume inv: "minv m"
  let ?m = "snd (cleanupExpiredLocked now m)"
  have "length (filter (live cam) (bursts m)) =
      length (filter (live cam) (bursts ?m)) + length (filter (\<lambda>b. b_CameraKey b = cam) (filter (expired now) (map snd (bursts m))))" for cam
    unfolding cleanup_bursts by (rule live_split)
  then have len: "int (length (filter (live cam) (bursts ?m))) = int (length (filter (live cam) (bursts m)))
      - int (length (filter (\<lambda>b. b_CameraKey b = cam) (filter (expired now) (map snd (bursts m)))))" for cam
    by simp
  have "activeCount ?m cam = activeCount m cam - int (length (filter (\<lambda>b. b_CameraKey b = cam) (filter (expired now) (map snd (bursts m)))))" for cam
    by (simp add: cleanupExpiredLocked_def Let_def fold_decrement)
  then have "activeCount ?m cam = int (length (filter (live cam) (bursts ?m)))
      \<and> int (length (filter (live cam) (bursts ?m))) \<le> int (length (filter (live cam) (bursts m)))" for cam
    using inv len [of cam] by (simp add: minv_def counts_ok_def)
  then have "counts_ok ?m" using inv unfolding counts_ok_def minv_def cleanup_frame by (meson order_trans)
  moreover have "burst_ok (acfg m) b" if "(k, b) \<in> set (map (expire_entry now) (bursts m))" for k b
  proof -
    from that obtain b0 where b0: "(k, b0) \<in> set (bursts m)" "b = snd (expire_entry now (k, b0))" by (auto simp: expire_entry_def)
    then have "burst_ok (acfg m) b0" using inv by (auto simp: minv_def)
    then show ?thesis by (simp add: b0(2) expire_entry_def burst_ok_def)
  qed
  then have "\<forall>(k, b) \<in> set (bursts ?m). burst_ok (acfg m) b" unfolding cleanup_bursts by blast
  moreover have keys: "map fst (bursts ?m) = map fst (bursts m)" by (simp add: expire_entry_def cleanup_bursts)
  moreover have "cache_ok ?m" using inv by (simp add: minv_def cache_ok_def cleanup_frame)
  ultimately show ?thesis using inv unfolding minv_def cleanup_frame keys by blast
qed

section \<open>Frames\<close>

lemma sorted_wrt_snoc_last:
  "sorted_wrt (<) (map f xs) \<Longrightarrow> xs \<noteq> [] \<longrightarrow> f (last xs) < (k::nat) \<Longrightarrow> \<forall>x \<in> set xs. f x < k"
  by (cases xs rule: rev_cases) (auto simp: sorted_wrt_append)

lemma cache_record: "cache_ok m \<Longrightarrow> cache_ok (recordDedupeLocked dk m)"
proof -
  assume ok: "cache_ok m"
  define order where "order = dedupeOrder m @ [dk]"
  define n where "n = length order - nat (if DedupeCacheSize (acfg m) \<le> 0 then 1 else DedupeCacheSize (acfg m))"
  have split: "order = take n order @ drop n order" by simp
  show ?thesis
  proof (cases "dk \<in> set (dedupe m)")
    case False
    then have d: "distinct order" using ok by (auto simp: order_def cache_ok_def)
    have disj: "set (take n order) \<inter> set (drop n order) = {}" using d split by (metis distinct_append)
    have un: "set (dk # dedupe m) = set (take n order) \<union> set (drop n order)"
      using ok split by (metis Un_commute cache_ok_def list.simps(15) insert_is_Un order_def set_append empty_set)
    have "int (length (drop n order)) \<le> max 1 (DedupeCacheSize (acfg m))" by (auto simp: n_def)
    then show ?thesis using False ok d disj un
      by (auto simp: recordDedupeLocked_def cache_ok_def Let_def order_def [symmetric] n_def [symmetric])
  qed (simp add: recordDedupeLocked_def ok)
qed

lemma record_frame:
  "acfg (recordDedupeLocked dk m) = acfg m" "bursts (recordDedupeLocked dk m) = bursts m" "hinted (recordDedupeLocked dk m) = hinted m"
  "activeCount (recordDedupeLocked dk m) = activeCount m" "burstCounter (recordDedupeLocked dk m) = burstCounter m"
  by (simp_all add: recordDedupeLocked_def Let_def)

text \<open>Replacing a burst by one of the same camera and liveness.\<close>

lemma minv_replace:
  "minv m \<Longrightarrow> map_of (bursts m) gk = Some b \<Longrightarrow> burst_ok (acfg m) b' \<Longrightarrow> b_CameraKey b' = b_CameraKey b \<Longrightarrow>
   terminal (bstate b') = terminal (bstate b) \<Longrightarrow> minv (m\<lparr>bursts := AList.update gk b' (bursts m)\<rparr>)"
proof -
  assume a: "minv m" "map_of (bursts m) gk = Some b" "burst_ok (acfg m) b'" "b_CameraKey b' = b_CameraKey b"
    "terminal (bstate b') = terminal (bstate b)"
  have "length (filter (live cam) (AList.update gk b' (bursts m))) = length (filter (live cam) (bursts m))" for cam
    using filter_update_old [of "bursts m" gk b "live cam" b'] a by (simp add: minv_def live_sel split: if_splits)
  then show ?thesis using a by (auto simp: minv_def counts_ok_def cache_ok_def distinct_update dest!: set_AList_update)
qed

definition frame_of :: "vehicle \<Rightarrow> burst \<Rightarrow> frame_record" where
  "frame_of v b =
     \<lparr>fr_CandidateID = NewCandidateID (v_CameraKey v) (v_FrameSeq v) (FramesAdded b) (BurstID b), fr_FrameSeq = v_FrameSeq v,
      fr_Timestamp = v_Timestamp v, fr_Quality = \<lparr>q_Area = 0, q_VehicleConfidence = v_Confidence v, q_PlateRegionConfidence = None\<rparr>\<rparr>"

definition fills :: "burst \<Rightarrow> bool" where
  "fills b \<longleftrightarrow> MaxFrames b \<le> int (FramesAdded b + 1)"

definition with_frame :: "frame_record \<Rightarrow> burst \<Rightarrow> burst" where
  "with_frame f b =
     (if fills b then b\<lparr>bframes := bframes b @ [f], FramesAdded := FramesAdded b + 1, highestSeq := fr_FrameSeq f, hasHighest := True, bstate := BurstFull\<rparr>
      else b\<lparr>bframes := bframes b @ [f], FramesAdded := FramesAdded b + 1, highestSeq := fr_FrameSeq f, hasHighest := True\<rparr>)"

lemma with_frame_ok:
  assumes "burst_ok c b" "bstate b = BurstOpen" "\<not> (hasHighest b \<and> fr_FrameSeq f \<le> highestSeq b)"
  shows "burst_ok c (with_frame f b)"
proof -
  have "\<forall>x \<in> set (bframes b). fr_FrameSeq x < fr_FrameSeq f"
    by (rule sorted_wrt_snoc_last) (use assms(1,3) in \<open>auto simp: burst_ok_def\<close>)
  then show ?thesis using assms(1,2) by (auto simp: with_frame_def fills_def burst_ok_def sorted_wrt_append)
qed

lemma with_frame_sel:
  "b_CameraKey (with_frame f b) = b_CameraKey b" "BurstID (with_frame f b) = BurstID b" "bframes (with_frame f b) = bframes b @ [f]"
  "bstate (with_frame f b) = (if fills b then BurstFull else bstate b)" "highestSeq (with_frame f b) = fr_FrameSeq f"
  "hasHighest (with_frame f b)" "FramesAdded (with_frame f b) = FramesAdded b + 1" "ExpiresAt (with_frame f b) = ExpiresAt b"
  by (simp_all add: with_frame_def)

text \<open>The overflow limit is never below \<open>MaxFrames\<close>, at which a burst is full: its branch is dead.\<close>

lemma add_frame_cases:
  assumes "burst_ok (acfg m) b" "\<not> terminal (bstate b)"
  obtains oc where "add_frame fmt2 v gk b calls m = (None, oc, calls, m)" "oc \<noteq> OutcomeAccepted"
      "bstate b = BurstFull \<or> hasHighest b \<and> v_FrameSeq v \<le> highestSeq b"
  | "bstate b = BurstOpen" "\<not> (hasHighest b \<and> v_FrameSeq v \<le> highestSeq b)"
      "add_frame fmt2 v gk b calls m =
        (Some (with_frame (frame_of v b) b, fr_CandidateID (frame_of v b)), OutcomeAccepted,
         if fills b then calls @ releaseBoostLocked (b_CameraKey b) (BurstID b) m else calls,
         recordDedupeLocked (dedupeKey fmt2 v) (m\<lparr>bursts := AList.update gk (with_frame (frame_of v b) b) (bursts m)\<rparr>))"
proof (cases "bstate b = BurstFull \<or> hasHighest b \<and> v_FrameSeq v \<le> highestSeq b")
  case True
  then show ?thesis by (cases "bstate b = BurstFull") (auto simp: add_frame_def intro!: that(1))
next
  case False
  then have op: "bstate b = BurstOpen" using assms(2) by (cases "bstate b") (auto simp: terminal_def)
  then have "\<not> overflowCap b \<le> int (length (bframes b))"
    using assms(1) overflow_covers [of "acfg m"] by (auto simp: burst_ok_def)
  then show ?thesis using False op
    by (intro that(2)) (auto simp: add_frame_def with_frame_def frame_of_def fills_def Let_def)
qed

lemma add_frame_minv:
  assumes "minv m" "map_of (bursts m) gk = Some b" "\<not> terminal (bstate b)" "add_frame fmt2 v gk b calls m = (r, oc, calls', m')"
  shows "minv m'"
proof -
  have ok: "burst_ok (acfg m) b" using assms(1,2) by (auto simp: minv_def dest!: map_of_SomeD)
  show ?thesis
  proof (cases rule: add_frame_cases [OF ok assms(3), of fmt2 v gk calls])
    case 2
    let ?b = "with_frame (frame_of v b) b"
    have "minv (m\<lparr>bursts := AList.update gk ?b (bursts m)\<rparr>)"
      by (rule minv_replace [OF assms(1,2)])
        (use 2 ok in \<open>auto intro!: with_frame_ok simp: with_frame_sel frame_of_def terminal_def\<close>)
    then show ?thesis using assms(4) 2 by (auto simp: minv_def counts_ok_def record_frame cache_record)
  qed (use assms in simp)
qed

section \<open>Every operation keeps the invariant\<close>

definition fresh_burst :: "string \<Rightarrow> vehicle \<Rightarrow> gotime \<Rightarrow> burst_manager \<Rightarrow> burst" where
  "fresh_burst gk v now m = fst (newBurstLocked gk v now m)"

text \<open>The manager with the new burst, before its first frame.\<close>

definition opened :: "string \<Rightarrow> vehicle \<Rightarrow> gotime \<Rightarrow> burst_manager \<Rightarrow> burst_manager" where
  "opened gk v now m =
     (snd (newBurstLocked gk v now m))\<lparr>bursts := AList.update gk (fresh_burst gk v now m) (bursts m),
       activeCount := (activeCount m)(v_CameraKey v := activeCount m (v_CameraKey v) + 1)\<rparr>"

lemma fresh_sel:
  "bstate (fresh_burst gk v now m) = BurstOpen" "b_CameraKey (fresh_burst gk v now m) = v_CameraKey v"
  "burst_ok (acfg m) (fresh_burst gk v now m)" "\<not> hasHighest (fresh_burst gk v now m)" "FramesAdded (fresh_burst gk v now m) = 0"
  by (auto simp: fresh_burst_def newBurstLocked_def Let_def burst_ok_def)

lemma opened_sel:
  "acfg (opened gk v now m) = acfg m" "dedupe (opened gk v now m) = dedupe m" "dedupeOrder (opened gk v now m) = dedupeOrder m"
  "hinted (opened gk v now m) = hinted m" "bursts (opened gk v now m) = AList.update gk (fresh_burst gk v now m) (bursts m)"
  by (simp_all add: opened_def newBurstLocked_def Let_def)

lemma request_counter: "requestBoostLocked burstFPS cam bid (m\<lparr>burstCounter := n\<rparr>) = requestBoostLocked burstFPS cam bid m"
  by (simp add: requestBoostLocked_def)

lemma open_burst_eq:
  "open_burst fmt2 burstFPS now v gk calls m =
     (if MaxActiveBurstsPerCamera (acfg m) \<le> activeCount m (v_CameraKey v) then (None, OutcomeCapacityBursts, calls, m)
      else add_frame fmt2 v gk (fresh_burst gk v now m)
             (calls @ requestBoostLocked burstFPS (v_CameraKey v) (BurstID (fresh_burst gk v now m)) m) (opened gk v now m))"
  by (simp add: open_burst_def opened_def fresh_burst_def newBurstLocked_def Let_def request_counter)

lemma opened_minv:
  assumes inv: "minv m" and cap: "activeCount m (v_CameraKey v) < MaxActiveBurstsPerCamera (acfg m)"
    and gk: "\<forall>b. map_of (bursts m) gk = Some b \<longrightarrow> terminal (bstate b)"
  shows "minv (opened gk v now m)"
proof -
  let ?b = "fresh_burst gk v now m"
  have len: "length (filter (live cam) (AList.update gk ?b (bursts m))) =
      length (filter (live cam) (bursts m)) + (if cam = v_CameraKey v then 1 else 0)" for cam
  proof (cases "map_of (bursts m) gk")
    case None
    then show ?thesis using filter_update_new [of gk "bursts m" "live cam" ?b]
      by (simp add: map_of_eq_None_iff live_sel fresh_sel terminal_def)
  next
    case (Some a)
    then show ?thesis using filter_update_old [of "bursts m" gk a "live cam" ?b] gk inv
      by (auto simp: minv_def live_sel fresh_sel terminal_def split: if_splits)
  qed
  have act: "activeCount (opened gk v now m) cam = activeCount m cam + (if cam = v_CameraKey v then 1 else 0)" for cam
    by (simp add: opened_def)
  have "counts_ok (opened gk v now m)" using inv cap by (auto simp: counts_ok_def opened_sel minv_def len act)
  moreover have "burst_ok (acfg m) b" if "(k, b) \<in> set (AList.update gk ?b (bursts m))" for k b
    using set_AList_update [OF that] inv by (auto simp: fresh_sel minv_def)
  ultimately show ?thesis using inv by (auto simp: minv_def opened_sel cache_ok_def distinct_update)
qed

lemma open_burst_minv:
  assumes "minv m" "\<forall>b. map_of (bursts m) gk = Some b \<longrightarrow> terminal (bstate b)" "open_burst fmt2 burstFPS now v gk calls m = (r, oc, calls', m')"
  shows "minv m'"
proof (cases "MaxActiveBurstsPerCamera (acfg m) \<le> activeCount m (v_CameraKey v)")
  case False
  then show ?thesis using assms
    by (intro add_frame_minv [OF opened_minv [OF assms(1) _ assms(2)], where b = "fresh_burst gk v now m"])
      (auto simp: open_burst_eq opened_sel update_conv' fresh_sel terminal_def)
qed (use assms in \<open>simp add: open_burst_eq\<close>)

lemma Process_cases:
  obtains oc where "Process fmt2 burstFPS now v m0 = (None, oc, fst (cleanupExpiredLocked now m0), snd (cleanupExpiredLocked now m0))" "oc \<noteq> OutcomeAccepted"
      "\<not> BBox_Valid (v_BBox v) \<or> dedupeKey fmt2 v \<in> set (dedupe m0)"
  | gk where "gk = groupKey (v_CameraKey v) (v_TrackID v) (v_CorrelationID v)"
      "\<forall>b. map_of (bursts (snd (cleanupExpiredLocked now m0))) gk = Some b \<longrightarrow> terminal (bstate b)"
      "Process fmt2 burstFPS now v m0 =
         open_burst fmt2 burstFPS now v gk (fst (cleanupExpiredLocked now m0)) (snd (cleanupExpiredLocked now m0))"
  | gk b where "gk = groupKey (v_CameraKey v) (v_TrackID v) (v_CorrelationID v)"
      "map_of (bursts (snd (cleanupExpiredLocked now m0))) gk = Some b" "\<not> terminal (bstate b)"
      "Process fmt2 burstFPS now v m0 = add_frame fmt2 v gk b (fst (cleanupExpiredLocked now m0)) (snd (cleanupExpiredLocked now m0))"
proof -
  let ?c = "cleanupExpiredLocked now m0" and ?gk = "groupKey (v_CameraKey v) (v_TrackID v) (v_CorrelationID v)"
  consider "\<not> BBox_Valid (v_BBox v)" | "BBox_Valid (v_BBox v)" "dedupeKey fmt2 v \<in> set (dedupe (snd ?c))"
    | "BBox_Valid (v_BBox v)" "dedupeKey fmt2 v \<notin> set (dedupe (snd ?c))" by blast
  then show thesis
  proof cases
    case 1
    then show ?thesis by (intro that(1) [of OutcomeInvalidBBox]) (auto simp: Process_def case_prod_unfold)
  next
    case 2
    then show ?thesis by (intro that(1) [of OutcomeDuplicate]) (auto simp: Process_def case_prod_unfold cleanup_frame)
  next
    case 3
    show ?thesis
    proof (cases "map_of (bursts (snd ?c)) ?gk")
      case None
      then show ?thesis using 3 by (intro that(2) [of ?gk]) (auto simp: Process_def case_prod_unfold)
    next
      case (Some b)
      show ?thesis
      proof (cases "terminal (bstate b)")
        case True
        then show ?thesis using 3 Some by (intro that(2) [of ?gk]) (auto simp: Process_def case_prod_unfold)
      next
        case False
        then show ?thesis using 3 Some by (intro that(3) [of ?gk b]) (auto simp: Process_def case_prod_unfold)
      qed
    qed
  qed
qed

lemma Process_minv: "minv m \<Longrightarrow> Process fmt2 burstFPS now v m = (r, oc, calls, m') \<Longrightarrow> minv m'"
  by (cases rule: Process_cases [of fmt2 burstFPS now v m])
    (auto dest: minv_cleanup [of m now] intro: open_burst_minv add_frame_minv)

lemma Close_minv: "minv m \<Longrightarrow> Burst_Close cam track corr m = (calls, m') \<Longrightarrow> minv m'"
proof -
  assume a: "minv m" "Burst_Close cam track corr m = (calls, m')"
  let ?gk = "groupKey cam track corr"
  show ?thesis
  proof (cases "\<exists>b. map_of (bursts m) ?gk = Some b \<and> \<not> terminal (bstate b)")
    case True
    then obtain b where b: "map_of (bursts m) ?gk = Some b" "\<not> terminal (bstate b)" by blast
    let ?b = "b\<lparr>bstate := BurstClosed\<rparr>"
    have m': "m' = m\<lparr>bursts := AList.update ?gk ?b (bursts m), activeCount := decrement (b_CameraKey b) (activeCount m)\<rparr>"
      using a(2) b by (simp add: Burst_Close_def)
    have len: "int (length (filter (live c) (AList.update ?gk ?b (bursts m)))) =
        int (length (filter (live c) (bursts m))) - (if c = b_CameraKey b then 1 else 0)" for c
      using filter_update_old [OF _ b(1), of "live c" ?b] a(1) b(2) by (auto simp: minv_def live_sel terminal_def split: if_splits)
    have ok: "burst_ok (acfg m) ?b" using map_of_SomeD [OF b(1)] a(1) by (auto simp: minv_def burst_ok_def)
    have "counts_ok m'" unfolding counts_ok_def
    proof (intro allI conjI)
      fix c
      have c: "activeCount m c = int (length (filter (live c) (bursts m)))" "int (length (filter (live c) (bursts m))) \<le> max 0 (MaxActiveBurstsPerCamera (acfg m))"
        using a(1) by (auto simp: minv_def counts_ok_def)
      show "activeCount m' c = int (length (filter (live c) (bursts m')))" using c by (cases "c = b_CameraKey b") (simp_all add: m' len decrement_def)
      show "int (length (filter (live c) (bursts m'))) \<le> max 0 (MaxActiveBurstsPerCamera (acfg m'))" using c by (cases "c = b_CameraKey b") (simp_all add: m' len)
    qed
    moreover have "\<forall>(k, b) \<in> set (AList.update ?gk ?b (bursts m)). burst_ok (acfg m) b"
      using a(1) ok by (auto simp: minv_def dest!: set_AList_update)
    ultimately show ?thesis using a(1) by (simp add: minv_def cache_ok_def m' distinct_update)
  next
    case False
    then show ?thesis using a by (auto simp: Burst_Close_def Let_def split: option.splits)
  qed
qed

lemma Cleanup_minv: "minv m \<Longrightarrow> minv (snd (Burst_Cleanup now m))"
proof -
  assume inv: "minv m"
  let ?m = "snd (cleanupExpiredLocked now m)"
  have "filter (live cam) (filter (\<lambda>(k, b). \<not> terminal (bstate b)) xs) = filter (live cam) xs" for cam xs
    by (induction xs) (auto simp: live_def)
  then show ?thesis using minv_cleanup [OF inv, of now]
    by (auto simp: Burst_Cleanup_def case_prod_unfold minv_def counts_ok_def cache_ok_def distinct_map inj_on_def)
qed

end
