(* ===== verification/Anpr_Boost.thy ===== *)
theory Anpr_Boost
  imports Anpr_Props
begin

text \<open>
  The burst manager together with the sampler hint it calls (\<open>agent/anpr_sampling.go\<close>): whatever vehicles arrive, bursts
  and caches stay within their limits and a boosted camera has an open burst.
\<close>

section \<open>Steps\<close>

text \<open>A step is one call of the manager; the hint receives the calls it makes. \<open>burstFPS\<close> reads the remote configuration,
  which may change between calls.\<close>

inductive anpr_step :: "(rat \<Rightarrow> string) \<Rightarrow> burst_manager \<times> sampler_hint \<Rightarrow> burst_manager \<times> sampler_hint \<Rightarrow> bool" for fmt2 where
  Step_Process: "Process fmt2 burstFPS now v m = (r, oc, calls, m') \<Longrightarrow> anpr_step fmt2 (m, h) (m', fold hint_apply calls h)"
| Step_Close: "Burst_Close cam track corr m = (calls, m') \<Longrightarrow> anpr_step fmt2 (m, h) (m', fold hint_apply calls h)"
| Step_Cleanup: "Burst_Cleanup now m = (calls, m') \<Longrightarrow> anpr_step fmt2 (m, h) (m', fold hint_apply calls h)"

inductive_cases anpr_stepE: "anpr_step fmt2 s t"

section \<open>The hint\<close>

definition boosted :: "sampler_hint \<Rightarrow> (string \<times> string) set" where
  "boosted h = {(cam, bid). \<exists>st. map_of (boosts h) cam = Some st \<and> map_of (bactive st) bid \<noteq> None}"

fun call_effect :: "hint_call \<Rightarrow> (string \<times> string) set \<Rightarrow> (string \<times> string) set" where
  "call_effect (RequestBurstFPS cam bid fps) S = insert (cam, bid) S"
| "call_effect (ReleaseBurstFPS cam bid) S = S - {(cam, bid)}"

definition rate_ok :: "rat \<Rightarrow> bool" where
  "rate_ok f \<longleftrightarrow> 0 \<le> f \<and> f \<le> MaxVideoTargetFPS"

definition top_rate :: "(string \<times> rat) list \<Rightarrow> rat" where
  "top_rate xs = fold (\<lambda>(b, f) x. if f > x then f else x) xs 0"

definition boost_ok :: "sampler_hint \<Rightarrow> sampler_hint \<Rightarrow> string \<Rightarrow> bool" where
  "boost_ok h0 h cam \<longleftrightarrow>
     (case map_of (boosts h) cam of
        None \<Rightarrow> target h cam = target h0 cam \<and> (owned_rates h \<longrightarrow> demand h cam = 0)
      | Some st \<Rightarrow>
          bactive st \<noteq> [] \<and> target h0 cam = Some (baselineFPS st) \<and> (\<forall>f \<in> snd ` set (bactive st). rate_ok f)
          \<and> (if owned_rates h then target h cam = target h0 cam \<and> demand h cam = top_rate (bactive st)
             else target h cam = Some (max (baselineFPS st) (top_rate (bactive st)))))"

definition hint_ok :: "sampler_hint \<Rightarrow> sampler_hint \<Rightarrow> bool" where
  "hint_ok h0 h \<longleftrightarrow> owned_rates h = owned_rates h0 \<and> (\<forall>cam. boost_ok h0 h cam)"

lemma top_rate_bounds: "\<forall>f \<in> snd ` set xs. rate_ok f \<Longrightarrow> rate_ok (top_rate xs)"
proof -
  have "rate_ok x \<Longrightarrow> \<forall>f \<in> snd ` set xs. rate_ok f \<Longrightarrow> rate_ok (fold (\<lambda>(b, f) x. if f > x then f else x) xs x)" for x
    by (induction xs arbitrary: x) auto
  moreover have "rate_ok 0" by (simp add: rate_ok_def MaxVideoTargetFPS_def)
  ultimately show "\<forall>f \<in> snd ` set xs. rate_ok f \<Longrightarrow> ?thesis" by (simp add: top_rate_def)
qed

lemma clamp_rate_ok: "rate_ok (clampBurstFPS fps)"
  by (simp add: clampBurstFPS_def rate_ok_def MaxVideoTargetFPS_def)

lemma applyLocked_sel:
  "boosts (applyLocked cam st h) = boosts h" "owned_rates (applyLocked cam st h) = owned_rates h"
  "target (applyLocked cam st h) =
     (if owned_rates h \<or> target h cam = None then target h else (target h)(cam \<mapsto> max (baselineFPS st) (top_rate (bactive st))))"
  "demand (applyLocked cam st h) = (if owned_rates h then (demand h)(cam := top_rate (bactive st)) else demand h)"
  by (auto simp: applyLocked_def set_target_def top_rate_def Let_def)

lemma set_AList_delete: "x \<in> set (AList.delete k xs) \<Longrightarrow> x \<in> set xs \<and> fst x \<noteq> k"
  by (induction xs) (auto simp: AList.delete_eq split: if_splits)

lemma boosted_apply: "boosted (hint_apply c h) \<subseteq> call_effect c (boosted h)"
proof (cases c)
  case (RequestBurstFPS cam bid fps)
  then show ?thesis
    by (auto simp: hint_apply_def Hint_Request_def boosted_def Let_def applyLocked_sel update_conv'
        split: option.splits if_splits)
next
  case (ReleaseBurstFPS cam bid)
  then show ?thesis
    by (auto simp: hint_apply_def Hint_Release_def boosted_def Let_def applyLocked_sel update_conv' delete_conv' set_target_def
        split: option.splits if_splits)
qed

lemma boosted_calls: "boosted (fold hint_apply calls h) \<subseteq> fold call_effect calls (boosted h)"
proof (induction calls rule: rev_induct)
  case (snoc c calls)
  have "call_effect c A \<subseteq> call_effect c B" if "A \<subseteq> B" for A B using that by (cases c) auto
  with snoc boosted_apply [of c "fold hint_apply calls h"] show ?case by (simp add: subset_trans)
qed simp

lemma boost_ok_cong:
  "map_of (boosts h') c = map_of (boosts h) c \<Longrightarrow> target h' c = target h c \<Longrightarrow> demand h' c = demand h c \<Longrightarrow>
   owned_rates h' = owned_rates h \<Longrightarrow> boost_ok h0 h' c = boost_ok h0 h c"
  by (simp add: boost_ok_def split: option.split)

lemma apply_ok:
  "boost_ok h0 h cam \<Longrightarrow> target h cam \<noteq> None \<Longrightarrow> target h0 cam = Some (baselineFPS st) \<Longrightarrow> bactive st \<noteq> [] \<Longrightarrow> \<forall>f \<in> snd ` set (bactive st). rate_ok f
   \<Longrightarrow> boost_ok h0 (applyLocked cam st (h\<lparr>boosts := AList.update cam st (boosts h)\<rparr>)) cam"
  by (auto simp: boost_ok_def applyLocked_sel update_conv' split: option.splits)

lemma apply_other: "c \<noteq> cam \<Longrightarrow> boost_ok h0 (applyLocked cam st (h\<lparr>boosts := AList.update cam st (boosts h)\<rparr>)) c = boost_ok h0 h c"
  by (rule boost_ok_cong) (auto simp: applyLocked_sel update_conv')

lemma hint_ok_apply:
  assumes "hint_ok h0 h" "h' = applyLocked cam st (h\<lparr>boosts := AList.update cam st (boosts h)\<rparr>)" "boost_ok h0 h' cam"
  shows "hint_ok h0 h'"
proof -
  have "boost_ok h0 h' c" for c using assms by (cases "c = cam") (simp_all add: apply_other hint_ok_def)
  then show ?thesis using assms(1,2) by (simp add: hint_ok_def applyLocked_sel)
qed

lemma request_ok: "hint_ok h0 h \<Longrightarrow> hint_ok h0 (Hint_Request cam bid fps h)"
proof -
  assume ok: "hint_ok h0 h"
  then have b: "boost_ok h0 h cam" by (simp add: hint_ok_def)
  define st0 where "st0 = (case map_of (boosts h) cam of Some st \<Rightarrow> Some st | None \<Rightarrow> map_option (\<lambda>base. \<lparr>baselineFPS = base, bactive = []\<rparr>) (target h cam))"
  show ?thesis
  proof (cases st0)
    case (Some st)
    define st' where "st' = st\<lparr>bactive := AList.update bid (clampBurstFPS fps) (bactive st)\<rparr>"
    have eq: "Hint_Request cam bid fps h = applyLocked cam st' (h\<lparr>boosts := AList.update cam st' (boosts h)\<rparr>)"
      using Some by (simp add: Hint_Request_def Let_def st0_def [symmetric] st'_def)
    have st: "target h cam \<noteq> None" "target h0 cam = Some (baselineFPS st)" "\<forall>f \<in> snd ` set (bactive st). rate_ok f"
      using Some b by (auto simp: st0_def boost_ok_def split: option.splits if_splits)
    have "\<forall>f \<in> snd ` set (bactive st'). rate_ok f" using st(3) by (auto simp: st'_def clamp_rate_ok dest!: set_AList_update)
    then have "boost_ok h0 (Hint_Request cam bid fps h) cam" unfolding eq using b st by (intro apply_ok) (auto simp: st'_def)
    then show ?thesis by (rule hint_ok_apply [OF ok eq])
  qed (use ok in \<open>simp add: Hint_Request_def st0_def [symmetric]\<close>)
qed

lemma release_ok: "hint_ok h0 h \<Longrightarrow> hint_ok h0 (Hint_Release cam bid h)"
proof -
  assume ok: "hint_ok h0 h"
  then have b: "boost_ok h0 h cam" by (simp add: hint_ok_def)
  show ?thesis
  proof (cases "map_of (boosts h) cam")
    case (Some st)
    define st' where "st' = st\<lparr>bactive := AList.delete bid (bactive st)\<rparr>"
    have st: "target h cam \<noteq> None" "target h0 cam = Some (baselineFPS st)" "\<forall>f \<in> snd ` set (bactive st). rate_ok f"
      using Some b by (auto simp: boost_ok_def split: if_splits)
    show ?thesis
    proof (cases "bactive st' = []")
      case True
      then have eq: "Hint_Release cam bid h = (if owned_rates h then h\<lparr>demand := (demand h)(cam := 0), boosts := AList.delete cam (boosts h)\<rparr>
          else h\<lparr>target := (target h)(cam \<mapsto> baselineFPS st), boosts := AList.delete cam (boosts h)\<rparr>)"
        using Some st(1) by (auto simp: Hint_Release_def st'_def set_target_def Let_def)
      have "boost_ok h0 (Hint_Release cam bid h) c" for c
      proof (cases "c = cam")
        case True
        then show ?thesis using b Some st by (auto simp: eq boost_ok_def delete_conv')
      next
        case False
        then have "boost_ok h0 (Hint_Release cam bid h) c = boost_ok h0 h c" by (intro boost_ok_cong) (auto simp: eq delete_conv')
        then show ?thesis using ok by (simp add: hint_ok_def)
      qed
      then show ?thesis using ok by (simp add: hint_ok_def eq)
    next
      case False
      then have eq: "Hint_Release cam bid h = applyLocked cam st' (h\<lparr>boosts := AList.update cam st' (boosts h)\<rparr>)"
        using Some by (simp add: Hint_Release_def st'_def Let_def)
      have "\<forall>f \<in> snd ` set (bactive st'). rate_ok f" using st(3) by (auto simp: st'_def dest!: set_AList_delete)
      then have "boost_ok h0 (Hint_Release cam bid h) cam" unfolding eq using b st False by (intro apply_ok) (auto simp: st'_def)
      then show ?thesis by (rule hint_ok_apply [OF ok eq])
    qed
  qed (use ok in \<open>simp add: Hint_Release_def\<close>)
qed

lemma calls_ok: "hint_ok h0 h \<Longrightarrow> hint_ok h0 (fold hint_apply calls h)"
  by (induction calls arbitrary: h) (auto simp: hint_apply_def request_ok release_ok split: hint_call.split)

section \<open>Boosts belong to open bursts\<close>

definition open_one :: "burst \<Rightarrow> (string \<times> string) set" where
  "open_one b = (if bstate b = BurstOpen then {(b_CameraKey b, BurstID b)} else {})"

definition open_at :: "burst_manager \<Rightarrow> string \<Rightarrow> (string \<times> string) set" where
  "open_at m gk = (case map_of (bursts m) gk of None \<Rightarrow> {} | Some b \<Rightarrow> open_one b)"

definition open_set :: "burst_manager \<Rightarrow> (string \<times> string) set" where
  "open_set m = (\<Union>gk. open_at m gk)"

lemma mem_open_set:
  "x \<in> open_set m \<longleftrightarrow> (\<exists>gk b. map_of (bursts m) gk = Some b \<and> bstate b = BurstOpen \<and> x = (b_CameraKey b, BurstID b))"
proof -
  have "x \<in> open_at m gk \<longleftrightarrow> (\<exists>b. map_of (bursts m) gk = Some b \<and> bstate b = BurstOpen \<and> x = (b_CameraKey b, BurstID b))" for gk
    by (auto simp: open_at_def open_one_def split: option.split)
  then show ?thesis by (simp add: open_set_def)
qed

text \<open>\<open>tracks calls S m\<close>: after the calls, no boost of \<open>S\<close> or of the calls is left that has no open burst.\<close>

definition tracks :: "hint_call list \<Rightarrow> (string \<times> string) set \<Rightarrow> burst_manager \<Rightarrow> bool" where
  "tracks calls S m \<longleftrightarrow> fold call_effect calls S \<subseteq> open_set m"

lemma fold_releases:
  "fold call_effect (map (\<lambda>b. ReleaseBurstFPS (f b) (g b)) bs) S = S - {(f b, g b) | b. b \<in> set bs}"
  by (induction bs arbitrary: S) auto

lemma tracks_cleanup:
  assumes "hinted m" shows "tracks (fst (cleanupExpiredLocked now m)) (open_set m) (snd (cleanupExpiredLocked now m))"
proof -
  let ?m = "snd (cleanupExpiredLocked now m)"
  have map: "map_of (bursts ?m) gk = map_option (\<lambda>b. if expired now b then b\<lparr>bstate := BurstExpired\<rparr> else b) (map_of (bursts m) gk)" for gk
    by (simp add: cleanupExpiredLocked_def Let_def map_of_map)
  have fold: "fold call_effect (fst (cleanupExpiredLocked now m)) S =
      S - {(b_CameraKey b, BurstID b) | b. b \<in> set (filter (expired now) (map snd (bursts m)))}" for S
    using assms by (simp add: cleanupExpiredLocked_def Let_def releaseBoostLocked_def fold_releases del: map_map)
  show ?thesis unfolding tracks_def fold
  proof
    fix x assume x: "x \<in> open_set m - {(b_CameraKey b, BurstID b) | b. b \<in> set (filter (expired now) (map snd (bursts m)))}"
    then obtain gk b where b: "x = (b_CameraKey b, BurstID b)" "map_of (bursts m) gk = Some b" "bstate b = BurstOpen"
      by (auto simp: mem_open_set)
    with x have "\<not> expired now b" by (force dest: map_of_SomeD)
    with b show "x \<in> open_set ?m" by (auto simp: mem_open_set map)
  qed
qed

text \<open>The open bursts of all groups but one.\<close>

definition open_rest :: "string \<Rightarrow> burst_manager \<Rightarrow> (string \<times> string) set" where
  "open_rest gk m = (\<Union>k \<in> - {gk}. open_at m k)"

lemma open_split: "open_set m = (case map_of (bursts m) gk of None \<Rightarrow> {} | Some b \<Rightarrow> open_one b) \<union> open_rest gk m"
proof -
  have "(UNIV :: string set) = insert gk (- {gk})" by auto
  then have "open_set m = open_at m gk \<union> open_rest gk m" unfolding open_set_def open_rest_def by (metis UN_insert)
  then show ?thesis by (simp add: open_at_def)
qed

lemma open_update: "bursts m' = AList.update gk b (bursts m) \<Longrightarrow> open_set m' = open_one b \<union> open_rest gk m"
  using open_split [of m' gk] by (simp add: open_rest_def open_at_def update_conv')

lemma tracks_release:
  "tracks calls S m \<Longrightarrow> map_of (bursts m) gk = Some b \<Longrightarrow> hinted m \<Longrightarrow>
   bursts m' = AList.update gk b' (bursts m) \<Longrightarrow> tracks (calls @ releaseBoostLocked (b_CameraKey b) (BurstID b) m) S m'"
  using open_split [of m gk] by (auto simp: tracks_def releaseBoostLocked_def open_update open_one_def split: if_splits)

lemma tracks_add_frame:
  assumes "burst_ok (acfg m) b" "\<not> terminal (bstate b)" "map_of (bursts m) gk = Some b" "hinted m" "tracks calls S m"
    and "add_frame fmt2 v gk b calls m = (r, oc, calls', m')"
  shows "tracks calls' S m'"
proof (cases rule: add_frame_cases [OF assms(1,2), of fmt2 v gk calls])
  case 2
  let ?b = "with_frame (frame_of v b) b"
  have m': "bursts m' = AList.update gk ?b (bursts m)" and calls': "calls' = (if fills b then calls @ releaseBoostLocked (b_CameraKey b) (BurstID b) m else calls)"
    using 2(3) assms(6) by (auto simp: record_frame)
  show ?thesis
  proof (cases "fills b")
    case True
    then show ?thesis using tracks_release [OF assms(5,3,4) m'] calls' by simp
  next
    case False
    have "open_set m \<subseteq> open_set m'"
      using assms(3) 2(1) False open_split [of m gk] by (simp add: open_update [OF m'] open_one_def with_frame_sel)
    then show ?thesis using False calls' assms(5) by (auto simp: tracks_def)
  qed
qed (use assms in simp)

lemma tracks_open:
  assumes inv: "minv m" and gk: "\<forall>b. map_of (bursts m) gk = Some b \<longrightarrow> terminal (bstate b)" and hint: "hinted m" "tracks calls S m"
    and op: "open_burst fmt2 burstFPS now v gk calls m = (r, oc, calls', m')"
  shows "tracks calls' S m'"
proof (cases "MaxActiveBurstsPerCamera (acfg m) \<le> activeCount m (v_CameraKey v)")
  case False
  let ?b = "fresh_burst gk v now m"
  let ?calls = "calls @ requestBoostLocked burstFPS (v_CameraKey v) (BurstID ?b) m"
  have "open_set (opened gk v now m) = insert (v_CameraKey v, BurstID ?b) (open_set m)"
    using gk open_split [of m gk]
    by (auto simp: open_update [OF opened_sel(5)] open_one_def fresh_sel terminal_def split: option.splits)
  then have tr: "tracks ?calls S (opened gk v now m)"
    using hint(2) by (auto simp: tracks_def requestBoostLocked_def split: option.split)
  have af: "add_frame fmt2 v gk ?b ?calls (opened gk v now m) = (r, oc, calls', m')" using op False by (simp add: open_burst_eq)
  show ?thesis using hint(1)
    by (intro tracks_add_frame [OF _ _ _ _ tr af]) (simp_all add: opened_sel update_conv' fresh_sel terminal_def)
qed (use assms in \<open>simp add: open_burst_eq\<close>)

lemma add_frame_hinted: "add_frame fmt2 v gk b calls m = (r, oc, calls', m') \<Longrightarrow> hinted m' = hinted m \<and> acfg m' = acfg m"
  by (auto simp: add_frame_def Let_def record_frame split: if_splits)

lemma open_burst_hinted: "open_burst fmt2 burstFPS now v gk calls m = (r, oc, calls', m') \<Longrightarrow> hinted m' = hinted m \<and> acfg m' = acfg m"
  unfolding open_burst_eq by (metis add_frame_hinted opened_sel(1,4) Pair_inject)

lemma Process_tracks:
  assumes "minv m" "hinted m" "Process fmt2 burstFPS now v m = (r, oc, calls, m')"
  shows "tracks calls (open_set m) m' \<and> hinted m' \<and> acfg m' = acfg m"
proof -
  let ?c = "cleanupExpiredLocked now m"
  have c: "minv (snd ?c)" "hinted (snd ?c)" "acfg (snd ?c) = acfg m" "tracks (fst ?c) (open_set m) (snd ?c)"
    using assms minv_cleanup tracks_cleanup by (auto simp: cleanup_frame)
  show ?thesis
  proof (cases rule: Process_cases [of fmt2 burstFPS now v m])
    case (1 oc')
    then have "calls = fst ?c" "m' = snd ?c" using assms(3) by (simp_all only: prod.inject)
    then show ?thesis using c by simp
  next
    case (2 gk)
    then have "open_burst fmt2 burstFPS now v gk (fst ?c) (snd ?c) = (r, oc, calls, m')" using assms(3) by simp
    then show ?thesis using tracks_open [OF c(1) 2(2) c(2,4)] open_burst_hinted c(2,3) by metis
  next
    case (3 gk b)
    then have "burst_ok (acfg (snd ?c)) b" using c(1) by (auto simp: minv_def dest!: map_of_SomeD)
    then show ?thesis using tracks_add_frame [OF _ 3(3,2) c(2,4)] add_frame_hinted 3(4) assms(3) c(2,3) by metis
  qed
qed

lemma Close_tracks:
  assumes "minv m" "hinted m" "Burst_Close cam track corr m = (calls, m')"
  shows "tracks calls (open_set m) m' \<and> hinted m' \<and> acfg m' = acfg m"
proof (cases "\<exists>b. map_of (bursts m) (groupKey cam track corr) = Some b \<and> \<not> terminal (bstate b)")
  case True
  then obtain b where b: "map_of (bursts m) (groupKey cam track corr) = Some b" "\<not> terminal (bstate b)" by blast
  have "tracks [] (open_set m) m" by (simp add: tracks_def)
  from tracks_release [OF this b(1) assms(2), of m'] show ?thesis using assms(2,3) b by (auto simp: Burst_Close_def Let_def)
next
  case False
  then show ?thesis using assms by (auto simp: Burst_Close_def Let_def tracks_def split: option.splits)
qed

lemma map_of_filter_value:
  "distinct (map fst xs) \<Longrightarrow> map_of (filter (\<lambda>(k, b). P b) xs) k = (case map_of xs k of Some b \<Rightarrow> if P b then Some b else None | None \<Rightarrow> None)"
  by (induction xs) (auto split: option.splits simp: map_of_eq_None_iff dest: map_of_SomeD)

lemma Cleanup_tracks:
  assumes "minv m" "hinted m" "Burst_Cleanup now m = (calls, m')"
  shows "tracks calls (open_set m) m' \<and> hinted m' \<and> acfg m' = acfg m"
proof -
  let ?m = "snd (cleanupExpiredLocked now m)"
  have eq: "calls = fst (cleanupExpiredLocked now m)" "m' = ?m\<lparr>bursts := filter (\<lambda>(k, b). \<not> terminal (bstate b)) (bursts ?m)\<rparr>"
    using assms(3) by (auto simp: Burst_Cleanup_def case_prod_unfold)
  have "distinct (map fst (bursts ?m))" using minv_cleanup [OF assms(1)] by (simp add: minv_def)
  then have "open_at m' gk = open_at ?m gk" for gk
    by (simp add: open_at_def eq(2) map_of_filter_value open_one_def terminal_def split: option.split)
  then have "open_set m' = open_set ?m" by (simp add: open_set_def)
  then show ?thesis using tracks_cleanup [OF assms(2), of now] assms(2) by (simp add: tracks_def eq cleanup_frame)
qed

section \<open>Every run\<close>

definition anpr_init :: "anpr_config \<Rightarrow> sampler_hint \<Rightarrow> burst_manager \<times> sampler_hint \<Rightarrow> bool" where
  "anpr_init c h0 s \<longleftrightarrow> s = (NewBurstManager c True, h0) \<and> boosts h0 = [] \<and> demand h0 = (\<lambda>_. 0)"

definition anpr_inv :: "anpr_config \<Rightarrow> sampler_hint \<Rightarrow> burst_manager \<times> sampler_hint \<Rightarrow> bool" where
  "anpr_inv c h0 s \<longleftrightarrow>
     minv (fst s) \<and> hinted (fst s) \<and> acfg (fst s) = c \<and> hint_ok h0 (snd s) \<and> boosted (snd s) \<subseteq> open_set (fst s)"

lemma inv_after_calls:
  assumes "anpr_inv c h0 (m, h)" "minv m'" "tracks calls (open_set m) m' \<and> hinted m' \<and> acfg m' = acfg m"
  shows "anpr_inv c h0 (m', fold hint_apply calls h)"
proof -
  have mono: "A \<subseteq> B \<Longrightarrow> fold call_effect cs A \<subseteq> fold call_effect cs B" for A B cs
  proof (induction cs arbitrary: A B)
    case (Cons x cs)
    have "call_effect x A \<subseteq> call_effect x B" using Cons.prems by (cases x) auto
    then show ?case using Cons.IH by simp
  qed simp
  have "boosted (fold hint_apply calls h) \<subseteq> open_set m'"
    using boosted_calls [of calls h] mono [of "boosted h" "open_set m" calls] assms(1,3) by (force simp: anpr_inv_def tracks_def)
  then show ?thesis using assms calls_ok by (simp add: anpr_inv_def)
qed

interpretation plates: machine "anpr_init c h0" "anpr_step fmt2" "anpr_inv c h0" for c h0 fmt2
proof unfold_locales
  fix s assume "anpr_init c h0 s"
  then show "anpr_inv c h0 s" using minv_new [of c True]
    by (auto simp: anpr_init_def anpr_inv_def NewBurstManager_def hint_ok_def boost_ok_def boosted_def)
next
  fix s t assume inv: "anpr_inv c h0 s" and "anpr_step fmt2 s t"
  from this(2) show "anpr_inv c h0 t"
  proof cases
    case (Step_Process burstFPS now v m r oc calls m' h)
    then have m: "minv m" "hinted m" "anpr_inv c h0 (m, h)" using inv by (simp_all add: anpr_inv_def)
    show ?thesis unfolding Step_Process(2) by (rule inv_after_calls [OF m(3) Process_minv [OF m(1) Step_Process(3)] Process_tracks [OF m(1,2) Step_Process(3)]])
  next
    case (Step_Close cam track corr m calls m' h)
    then have m: "minv m" "hinted m" "anpr_inv c h0 (m, h)" using inv by (simp_all add: anpr_inv_def)
    show ?thesis unfolding Step_Close(2) by (rule inv_after_calls [OF m(3) Close_minv [OF m(1) Step_Close(3)] Close_tracks [OF m(1,2) Step_Close(3)]])
  next
    case (Step_Cleanup now m calls m' h)
    then have m: "minv m" "hinted m" "anpr_inv c h0 (m, h)" using inv by (simp_all add: anpr_inv_def)
    have "minv m'" using Cleanup_minv [OF m(1), of now] Step_Cleanup(3) by simp
    then show ?thesis unfolding Step_Cleanup(2) by (rule inv_after_calls [OF m(3) _ Cleanup_tracks [OF m(1,2) Step_Cleanup(3)]])
  qed
qed

text \<open>C27. After any sequence of Process, Close and Cleanup calls, with any vehicles, clock readings and burst rates: the
  count of a camera's active bursts is the number of its bursts that are not expired or closed, and at most
  MaxActiveBurstsPerCamera; the frames of a burst are in strictly increasing frame order and at most MaxFramesPerBurst (one,
  if that is not positive); the duplicate cache holds at most DedupeCacheSize keys (one, if that is not positive).\<close>

theorem burst_manager_bounds:
  assumes "anpr_init c h0 s0" "(anpr_step fmt2)\<^sup>*\<^sup>* s0 (m, h)"
  shows "activeCount m cam = int (length (filter (\<lambda>(k, b). \<not> terminal (bstate b) \<and> b_CameraKey b = cam) (bursts m)))
      \<and> activeCount m cam \<le> max 0 (MaxActiveBurstsPerCamera c)
      \<and> (\<forall>(k, b) \<in> set (bursts m). sorted_wrt (<) (map fr_FrameSeq (bframes b)) \<and> int (length (bframes b)) \<le> max 1 (MaxFramesPerBurst c))
      \<and> int (length (dedupe m)) \<le> max 1 (DedupeCacheSize c)"
proof -
  have inv: "minv m" "acfg m = c" using plates.invar_reachable [OF assms] by (simp_all add: anpr_inv_def)
  have "live cam = (\<lambda>(k, b). \<not> terminal (bstate b) \<and> b_CameraKey b = cam)" by (auto simp: live_def)
  moreover have "activeCount m cam = int (length (filter (live cam) (bursts m)))" "activeCount m cam \<le> max 0 (MaxActiveBurstsPerCamera c)"
    using inv by (auto simp: minv_def counts_ok_def)
  ultimately have counts: "activeCount m cam = int (length (filter (\<lambda>(k, b). \<not> terminal (bstate b) \<and> b_CameraKey b = cam) (bursts m)))"
    "activeCount m cam \<le> max 0 (MaxActiveBurstsPerCamera c)" by simp_all
  have "sorted_wrt (<) (map fr_FrameSeq (bframes b)) \<and> int (length (bframes b)) \<le> max 1 (MaxFramesPerBurst c)"
    if "(k, b) \<in> set (bursts m)" for k b using that inv by (auto simp: minv_def burst_ok_def)
  then have frames: "\<forall>(k, b) \<in> set (bursts m). sorted_wrt (<) (map fr_FrameSeq (bframes b)) \<and> int (length (bframes b)) \<le> max 1 (MaxFramesPerBurst c)"
    by blast
  have "length (dedupe m) = length (dedupeOrder m)" using inv(1) by (metis cache_ok_def distinct_card minv_def)
  then have "int (length (dedupe m)) \<le> max 1 (DedupeCacheSize c)" using inv by (simp add: minv_def cache_ok_def)
  then show ?thesis using counts frames by blast
qed

text \<open>C26. After any sequence of Process, Close and Cleanup calls a camera without an open burst samples at the rate it had
  before any boost (and, where an owner of the rates is configured, has no demand left), and every camera samples at no
  less than that rate and at no more than the greater of it and the highest allowed rate.\<close>

theorem boost_ends_with_bursts:
  assumes "anpr_init c h0 s0" "(anpr_step fmt2)\<^sup>*\<^sup>* s0 (m, h)"
  shows "((\<nexists>gk b. map_of (bursts m) gk = Some b \<and> bstate b = BurstOpen \<and> b_CameraKey b = cam)
        \<longrightarrow> target h cam = target h0 cam \<and> (owned_rates h0 \<longrightarrow> demand h cam = 0))
      \<and> (target h0 cam = Some base \<longrightarrow> (\<exists>t. target h cam = Some t \<and> base \<le> t \<and> t \<le> max base MaxVideoTargetFPS))"
proof (intro conjI)
  have inv: "hint_ok h0 h" "boosted h \<subseteq> open_set m" using plates.invar_reachable [OF assms] by (simp_all add: anpr_inv_def)
  then have ok: "boost_ok h0 h cam" "owned_rates h = owned_rates h0" by (simp_all add: hint_ok_def)
  show "(\<nexists>gk b. map_of (bursts m) gk = Some b \<and> bstate b = BurstOpen \<and> b_CameraKey b = cam)
      \<longrightarrow> target h cam = target h0 cam \<and> (owned_rates h0 \<longrightarrow> demand h cam = 0)"
  proof
    assume none: "\<nexists>gk b. map_of (bursts m) gk = Some b \<and> bstate b = BurstOpen \<and> b_CameraKey b = cam"
    have "map_of (boosts h) cam = None"
    proof (rule ccontr)
      assume "map_of (boosts h) cam \<noteq> None"
      then obtain st where st: "map_of (boosts h) cam = Some st" by blast
      then have "bactive st \<noteq> []" using ok by (simp add: boost_ok_def)
      then obtain bid f rest where "bactive st = (bid, f) # rest" by (metis list.exhaust surj_pair)
      then have "(cam, bid) \<in> boosted h" using st by (auto simp: boosted_def)
      then show False using inv(2) none by (auto simp: mem_open_set subset_iff)
    qed
    then show "target h cam = target h0 cam \<and> (owned_rates h0 \<longrightarrow> demand h cam = 0)" using ok by (simp add: boost_ok_def)
  qed
  show "target h0 cam = Some base \<longrightarrow> (\<exists>t. target h cam = Some t \<and> base \<le> t \<and> t \<le> max base MaxVideoTargetFPS)"
  proof
    assume base: "target h0 cam = Some base"
    show "\<exists>t. target h cam = Some t \<and> base \<le> t \<and> t \<le> max base MaxVideoTargetFPS"
    proof (cases "map_of (boosts h) cam")
      case None
      then show ?thesis using ok base by (auto simp: boost_ok_def)
    next
      case (Some st)
      then have "rate_ok (top_rate (bactive st))" using ok by (intro top_rate_bounds) (simp add: boost_ok_def)
      then show ?thesis using ok base Some by (auto simp: boost_ok_def rate_ok_def max_def split: if_splits)
    qed
  qed
qed

section \<open>A run\<close>

definition sample_anpr :: anpr_config where
  "sample_anpr = \<lparr>Enabled = True, MaxActiveBurstsPerCamera = 2, MaxFramesPerBurst = 3, MaxCameras = 4, BurstTTL = 100, FrameSelection = SelectFirst,
     DedupeCacheSize = 8, CropPolicy = CropVehicleContext, Padding = \<lparr>PercentX = 1/10, PercentY = 1/10, PixelsX = 2, PixelsY = 2\<rparr>\<rparr>"

definition sample_hint :: sampler_hint where
  "sample_hint = \<lparr>boosts = [], target = [''cam'' \<mapsto> 5], demand = (\<lambda>_. 0), owned_rates = False\<rparr>"

definition sample_vehicle_box :: abox where "sample_vehicle_box = \<lparr>X0 = 10, Y0 = 20, X1 = 60, Y1 = 80\<rparr>"

definition sample_vehicle :: "nat \<Rightarrow> string \<Rightarrow> vehicle" where
  "sample_vehicle fseq corr = vehicle_of ''cam'' fseq 0 corr 640 480 (9/10, sample_vehicle_box)"

definition sample_run :: "(burst \<times> string) option \<times> outcome \<times> hint_call list \<times> burst_manager" where
  "sample_run = Process (\<lambda>_. ''0'') (\<lambda>_. Some 10) 0 (sample_vehicle 1 ''c1'') (NewBurstManager sample_anpr True)"

definition sample_end :: "hint_call list \<times> burst_manager" where
  "sample_end = Burst_Cleanup 100 (snd (snd (snd sample_run)))"

lemma sample_steps:
  "anpr_init sample_anpr sample_hint (NewBurstManager sample_anpr True, sample_hint)"
  "anpr_step (\<lambda>_. ''0'') (NewBurstManager sample_anpr True, sample_hint)
     (snd (snd (snd sample_run)), fold hint_apply (fst (snd (snd sample_run))) sample_hint)"
  "anpr_step (\<lambda>_. ''0'') (snd (snd (snd sample_run)), fold hint_apply (fst (snd (snd sample_run))) sample_hint)
     (snd sample_end, fold hint_apply (fst sample_end) (fold hint_apply (fst (snd (snd sample_run))) sample_hint))"
proof -
  show "anpr_init sample_anpr sample_hint (NewBurstManager sample_anpr True, sample_hint)" by (simp add: anpr_init_def sample_hint_def)
  obtain r oc calls m where run: "sample_run = (r, oc, calls, m)" by (metis surj_pair)
  then show "anpr_step (\<lambda>_. ''0'') (NewBurstManager sample_anpr True, sample_hint)
     (snd (snd (snd sample_run)), fold hint_apply (fst (snd (snd sample_run))) sample_hint)"
    using Step_Process [of "\<lambda>_. ''0''" "\<lambda>_. Some 10" 0 "sample_vehicle 1 ''c1''" "NewBurstManager sample_anpr True" r oc calls m sample_hint]
    by (simp add: sample_run_def)
  show "anpr_step (\<lambda>_. ''0'') (snd (snd (snd sample_run)), fold hint_apply (fst (snd (snd sample_run))) sample_hint)
     (snd sample_end, fold hint_apply (fst sample_end) (fold hint_apply (fst (snd (snd sample_run))) sample_hint))"
    by (rule Step_Cleanup [of 100]) (simp add: sample_end_def)
qed

lemmas sample_defs = sample_run_def sample_end_def sample_anpr_def sample_hint_def sample_vehicle_box_def sample_vehicle_def vehicle_of_def Process_def
  cleanupExpiredLocked_def NewBurstManager_def BBox_Valid_def groupKey_def open_burst_def newBurstLocked_def add_frame_def requestBoostLocked_def
  recordDedupeLocked_def dedupeKey_def Burst_Cleanup_def expired_def terminal_def releaseBoostLocked_def newOverflowCap_def hint_apply_def
  Hint_Request_def Hint_Release_def applyLocked_def clampBurstFPS_def set_target_def decrement_def MaxVideoTargetFPS_def wrap64_def

lemma sample_values:
  "length (bursts (snd (snd (snd sample_run)))) = 1"
  "target (fold hint_apply (fst (snd (snd sample_run))) sample_hint) ''cam'' = Some 10"
  "bursts (snd sample_end) = []"
  by (simp_all add: sample_defs Let_def)

theorem burst_manager_bounds_witness:
  "length (bursts (snd (snd (snd sample_run)))) = 1 \<and> activeCount (snd (snd (snd sample_run))) ''cam'' \<le> 2"
proof -
  have "(anpr_step (\<lambda>_. ''0''))\<^sup>*\<^sup>* (NewBurstManager sample_anpr True, sample_hint)
      (snd (snd (snd sample_run)), fold hint_apply (fst (snd (snd sample_run))) sample_hint)"
    using sample_steps(2) by blast
  from burst_manager_bounds [OF sample_steps(1) this, of "''cam''"] sample_values(1) show ?thesis by (simp add: sample_anpr_def)
qed

theorem boost_ends_with_bursts_witness:
  "target (fold hint_apply (fst (snd (snd sample_run))) sample_hint) ''cam'' = Some 10
   \<and> target (fold hint_apply (fst sample_end) (fold hint_apply (fst (snd (snd sample_run))) sample_hint)) ''cam'' = Some 5"
proof -
  have "(anpr_step (\<lambda>_. ''0''))\<^sup>*\<^sup>* (NewBurstManager sample_anpr True, sample_hint)
      (snd sample_end, fold hint_apply (fst sample_end) (fold hint_apply (fst (snd (snd sample_run))) sample_hint))"
    using sample_steps(2,3) by (meson converse_rtranclp_into_rtranclp r_into_rtranclp)
  from boost_ends_with_bursts [OF sample_steps(1) this, of "''cam''"] sample_values show ?thesis by (simp add: sample_hint_def)
qed

end
