(* ===== verification/Anpr_Consume.thy ===== *)
theory Anpr_Consume
  imports Anpr_Boost
begin

text \<open>
  What the consumer in \<open>agent/fulledge_wiring.go\<close> and the missing call of \<open>Cleanup\<close> make of the bursts: at most one candidate
  per frame, frames that are never ranked, and a map that keeps every group. Crops lie inside their frame.
\<close>

section \<open>One candidate per frame\<close>

definition is_accepted :: "submit_result \<Rightarrow> bool" where
  "is_accepted r \<longleftrightarrow> (case r of Accepted _ _ _ _ \<Rightarrow> True | _ \<Rightarrow> False)"

text \<open>The burst of the group has taken the frame and lasts until the frame is consumed.\<close>

definition taken :: "(nat \<Rightarrow> gotime) \<Rightarrow> nat \<Rightarrow> string \<Rightarrow> burst_manager \<Rightarrow> bool" where
  "taken clock fseq gk m \<longleftrightarrow>
     (\<exists>b. map_of (bursts m) gk = Some b \<and> \<not> terminal (bstate b) \<and> hasHighest b \<and> fseq \<le> highestSeq b \<and> (\<forall>i. clock i < ExpiresAt b))"

definition no_expiry :: "(nat \<Rightarrow> gotime) \<Rightarrow> string \<Rightarrow> burst_manager \<Rightarrow> bool" where
  "no_expiry clock gk m \<longleftrightarrow>
     (\<forall>b. map_of (bursts m) gk = Some b \<longrightarrow> \<not> terminal (bstate b) \<longrightarrow> (\<forall>i j. clock i < ExpiresAt b \<longrightarrow> clock j < ExpiresAt b))"

lemma cleanup_map:
  "map_of (bursts (snd (cleanupExpiredLocked now m))) gk =
   map_option (\<lambda>b. if expired now b then b\<lparr>bstate := BurstExpired\<rparr> else b) (map_of (bursts m) gk)"
  by (simp add: cleanupExpiredLocked_def Let_def map_of_map)

lemma cleanup_live:
  "map_of (bursts (snd (cleanupExpiredLocked now m))) gk = Some b \<Longrightarrow> \<not> terminal (bstate b) \<Longrightarrow>
   map_of (bursts m) gk = Some b \<and> now < ExpiresAt b"
proof -
  assume a: "map_of (bursts (snd (cleanupExpiredLocked now m))) gk = Some b" "\<not> terminal (bstate b)"
  then obtain b0 where b0: "map_of (bursts m) gk = Some b0" "b = (if expired now b0 then b0\<lparr>bstate := BurstExpired\<rparr> else b0)"
    by (auto simp: cleanup_map)
  then have "\<not> expired now b0" "b = b0" using a(2) by (auto simp: terminal_def)
  then show ?thesis using a(2) b0(1) by (auto simp: expired_def)
qed

lemma cleanup_no_expiry: "no_expiry clock gk m \<Longrightarrow> no_expiry clock gk (snd (cleanupExpiredLocked now m))"
  by (auto simp: no_expiry_def dest: cleanup_live)

lemma cleanup_taken: "taken clock fseq gk m \<Longrightarrow> taken clock fseq gk (snd (cleanupExpiredLocked (clock k) m))"
  by (auto simp: taken_def cleanup_map expired_def)

lemma add_frame_taken:
  assumes "add_frame fmt2 v gk b calls m = (r, oc, calls', m')" "map_of (bursts m) gk = Some b" "\<not> terminal (bstate b)"
    "\<forall>i. clock i < ExpiresAt b"
  shows "(r \<noteq> None \<longrightarrow> taken clock (v_FrameSeq v) gk m' \<and> \<not> (hasHighest b \<and> v_FrameSeq v \<le> highestSeq b)) \<and> no_expiry clock gk m'
    \<and> (taken clock (v_FrameSeq v) gk m \<longrightarrow> taken clock (v_FrameSeq v) gk m')"
  using assms by (auto simp: add_frame_def Let_def taken_def no_expiry_def record_frame update_conv' terminal_def split: if_splits)

lemma Process_taken:
  assumes "Process fmt2 burstFPS (clock k) v m = (r, oc, calls, m')" "gk = groupKey (v_CameraKey v) (v_TrackID v) (v_CorrelationID v)"
    and "no_expiry clock gk m" "\<forall>i j. clock i < clock j + BurstTTL (acfg m)"
  shows "(r \<noteq> None \<longrightarrow> taken clock (v_FrameSeq v) gk m' \<and> \<not> taken clock (v_FrameSeq v) gk m) \<and> no_expiry clock gk m'
    \<and> (taken clock (v_FrameSeq v) gk m \<longrightarrow> taken clock (v_FrameSeq v) gk m')"
proof -
  let ?c = "cleanupExpiredLocked (clock k) m"
  have ne: "no_expiry clock gk (snd ?c)" using cleanup_no_expiry assms(3) .
  have tk: "taken clock (v_FrameSeq v) gk m \<Longrightarrow> taken clock (v_FrameSeq v) gk (snd ?c)" by (rule cleanup_taken)
  show ?thesis
  proof (cases rule: Process_cases [of fmt2 burstFPS "clock k" v m])
    case (1 oc')
    then have "r = None" "m' = snd ?c" using assms(1) by (simp_all only: prod.inject)
    then show ?thesis using ne tk by simp
  next
    case (2 gk')
    then have gk: "gk' = gk" using assms(2) by simp
    then have not: "\<not> taken clock (v_FrameSeq v) gk (snd ?c)" using 2(2) by (auto simp: taken_def)
    then have no: "\<not> taken clock (v_FrameSeq v) gk m" using tk by blast
    have op: "open_burst fmt2 burstFPS (clock k) v gk (fst ?c) (snd ?c) = (r, oc, calls, m')" using assms(1) 2(3) gk by simp
    show ?thesis
    proof (cases "MaxActiveBurstsPerCamera (acfg (snd ?c)) \<le> activeCount (snd ?c) (v_CameraKey v)")
      case True
      then show ?thesis using op ne no by (simp add: open_burst_eq)
    next
      case False
      let ?b = "fresh_burst gk v (clock k) (snd ?c)"
      have "\<forall>i. clock i < ExpiresAt ?b" using assms(4) by (simp add: fresh_burst_def newBurstLocked_def Let_def cleanup_frame)
      with False op show ?thesis using no
        add_frame_taken [of fmt2 v gk ?b _ "opened gk v (clock k) (snd ?c)" r oc calls m' clock]
        by (simp add: open_burst_eq opened_sel update_conv' fresh_sel terminal_def)
    qed
  next
    case (3 gk' b)
    then have gk: "gk' = gk" using assms(2) by simp
    have b: "map_of (bursts m) gk = Some b" "clock k < ExpiresAt b" using cleanup_live [OF 3(2,3)] gk by simp_all
    then have all: "\<forall>i. clock i < ExpiresAt b" using assms(3) 3(3) unfolding no_expiry_def by blast
    from add_frame_taken [OF _ 3(2,3) all, of fmt2 v "fst ?c" r oc calls m'] show ?thesis
      using 3(4) assms(1) tk b gk by (auto simp: taken_def)
  qed
qed

lemma Process_acfg: "Process fmt2 burstFPS now v m = (r, oc, calls, m') \<Longrightarrow> acfg m' = acfg m"
proof -
  let ?c = "cleanupExpiredLocked now m"
  assume p: "Process fmt2 burstFPS now v m = (r, oc, calls, m')"
  show ?thesis
  proof (cases rule: Process_cases [of fmt2 burstFPS now v m])
    case (1 oc')
    then have "m' = snd ?c" using p by (simp_all only: prod.inject)
    then show ?thesis by (simp add: cleanup_frame)
  next
    case (2 gk)
    then show ?thesis using p open_burst_hinted cleanup_frame(1) by metis
  next
    case (3 gk b)
    then show ?thesis using p add_frame_hinted cleanup_frame(1) by metis
  qed
qed

lemma manager_sel:
  "manager (update_camera cam f r) = manager r" "manager (recordRejected cam r) = manager r" "manager (recordAccepted cam now r) = manager r"
  "manager (snd (rejectOutcome cam oc r)) = manager r"
  by (auto simp: update_camera_def recordRejected_def recordAccepted_def rejectOutcome_def Let_def split: option.split)

lemma rejectOutcome_result: "\<not> is_accepted (fst (rejectOutcome cam oc r))"
  by (simp add: rejectOutcome_def is_accepted_def Let_def)

text \<open>A submission leaves the manager alone or runs \<open>Process\<close> on it.\<close>

lemma Submit_cases:
  assumes "Submit fmt2 burstFPS allowed locate now v r = (res, calls, r')"
  obtains "manager r' = manager r" "\<not> is_accepted res"
  | p oc where "Process fmt2 burstFPS now v (manager r) = (p, oc, calls, manager r')" "is_accepted res \<longrightarrow> p \<noteq> None"
proof -
  obtain p oc calls1 m1 where pr: "Process fmt2 burstFPS now v (manager r) = (p, oc, calls1, m1)" by (metis surj_pair)
  have "(manager r' = manager r \<and> \<not> is_accepted res) \<or> (calls = calls1 \<and> manager r' = m1 \<and> (is_accepted res \<longrightarrow> p \<noteq> None))"
    using assms pr manager_sel(4) [of "v_CameraKey v" oc] rejectOutcome_result [of "v_CameraKey v" oc]
    by (cases p)
      (auto simp: Submit_def Let_def manager_sel is_accepted_def case_prod_unfold split: if_splits option.splits sum.splits)
  with pr show thesis using that by blast
qed

lemma Submit_taken:
  assumes "Submit fmt2 burstFPS allowed locate (clock k) v r = (res, calls, r')" "gk = groupKey (v_CameraKey v) (v_TrackID v) (v_CorrelationID v)"
    and "no_expiry clock gk (manager r)" "\<forall>i j. clock i < clock j + BurstTTL (acfg (manager r))"
  shows "(is_accepted res \<longrightarrow> taken clock (v_FrameSeq v) gk (manager r') \<and> \<not> taken clock (v_FrameSeq v) gk (manager r))
    \<and> no_expiry clock gk (manager r') \<and> acfg (manager r') = acfg (manager r)
    \<and> (taken clock (v_FrameSeq v) gk (manager r) \<longrightarrow> taken clock (v_FrameSeq v) gk (manager r'))"
  using assms(1)
proof (cases rule: Submit_cases)
  case (2 p oc)
  then show ?thesis using Process_taken [OF 2(1) assms(2-4)] Process_acfg by blast
qed (use assms(3) in simp)

lemma submit_all_taken:
  assumes "\<forall>(t, v) \<in> set xs. (\<exists>i. t = clock i) \<and> v_FrameSeq v = fseq \<and> groupKey (v_CameraKey v) (v_TrackID v) (v_CorrelationID v) = gk"
    and "no_expiry clock gk (manager r)" "\<forall>i j. clock i < clock j + BurstTTL (acfg (manager r))"
  shows "length (filter is_accepted (fst (submit_all fmt2 burstFPS allowed locate xs r))) \<le> (if taken clock fseq gk (manager r) then 0 else 1)"
  using assms
proof (induction xs arbitrary: r)
  case (Cons x xs)
  obtain i v where x: "x = (clock i, v)" "v_FrameSeq v = fseq" "gk = groupKey (v_CameraKey v) (v_TrackID v) (v_CorrelationID v)"
    using Cons.prems(1) by (cases x) auto
  obtain res calls r' where sub: "Submit fmt2 burstFPS allowed locate (clock i) v r = (res, calls, r')" by (metis surj_pair)
  note st = Submit_taken [OF sub x(3) Cons.prems(2,3), unfolded x(2)]
  have "length (filter is_accepted (fst (submit_all fmt2 burstFPS allowed locate xs r'))) \<le> (if taken clock fseq gk (manager r') then 0 else 1)"
    by (rule Cons.IH) (use Cons.prems st in auto)
  then show ?case using st by (auto simp: x(1) sub case_prod_unfold split: if_splits)
qed simp

text \<open>C36. As long as the burst of the frame does not expire while the frame is consumed, consumeAnprCandidates turns at most
  one of the vehicles detected in a frame into a plate candidate: they carry the same frame number and share one burst (no
  track, one correlation id), so every vehicle after the first accepted one is stale. The loop uploads every accepted crop
  before it submits the next vehicle; here an upload is the time that passes between two readings of the clock, and the
  hypotheses bound it: all readings lie within the lifetime of a burst, and a burst that is open at one of them is open at
  all of them. An upload may take five seconds and a burst lasts three by default, so the hypotheses can fail; the lemma
  after the witness shows the second vehicle accepted then.\<close>

theorem one_plate_candidate_per_frame:
  assumes "\<forall>i j. clock i < clock j + BurstTTL (acfg (manager r))"
    and "\<forall>b. map_of (bursts (manager r)) (groupKey cam '''' corr) = Some b \<longrightarrow> \<not> terminal (bstate b) \<longrightarrow>
           (\<forall>i j. clock i < ExpiresAt b \<longrightarrow> clock j < ExpiresAt b)"
  shows "length (filter is_accepted (fst (consumeAnprCandidates fmt2 burstFPS allowed locate clock cam fseq tm corr w h vehicles r))) \<le> 1"
proof -
  let ?xs = "map (\<lambda>(i, d). (clock i, vehicle_of cam fseq tm corr w h d)) (enumerate 0 vehicles)"
  have "no_expiry clock (groupKey cam '''' corr) (manager r)" using assms(2) by (simp add: no_expiry_def)
  moreover have "\<forall>(t, v) \<in> set ?xs. (\<exists>i. t = clock i) \<and> v_FrameSeq v = fseq
      \<and> groupKey (v_CameraKey v) (v_TrackID v) (v_CorrelationID v) = groupKey cam '''' corr"
    by (auto simp: vehicle_of_def)
  ultimately have "length (filter is_accepted (fst (submit_all fmt2 burstFPS allowed locate ?xs r)))
      \<le> (if taken clock fseq (groupKey cam '''' corr) (manager r) then 0 else 1)"
    using assms(1) by (intro submit_all_taken)
  also have "\<dots> \<le> 1" by simp
  finally show ?thesis by (simp add: consumeAnprCandidates_def)
qed

definition sample_registry :: registry where
  "sample_registry = NewRegistry sample_anpr False"

definition sample_vehicles :: "(rat \<times> abox) list" where
  "sample_vehicles = [(9/10, sample_vehicle_box), (8/10, \<lparr>X0 = 200, Y0 = 20, X1 = 300, Y1 = 90\<rparr>)]"

text \<open>Two vehicles that stand apart: the second is rejected.\<close>

theorem one_plate_candidate_per_frame_witness:
  "length sample_vehicles = 2
   \<and> length (filter is_accepted (fst (consumeAnprCandidates (\<lambda>_. ''0'') (\<lambda>_. None) (\<lambda>_. True) (\<lambda>_. None) (\<lambda>_. 0) ''cam'' 1 0 ''c1'' 640 480
        sample_vehicles sample_registry))) \<le> 1"
proof -
  have "\<forall>i j. (\<lambda>_. 0 :: gotime) i < (\<lambda>_. 0) j + BurstTTL (acfg (manager sample_registry))"
    by (simp add: sample_registry_def NewRegistry_def NewBurstManager_def sample_anpr_def)
  moreover have "map_of (bursts (manager sample_registry)) gk = None" for gk
    by (simp add: sample_registry_def NewRegistry_def NewBurstManager_def)
  ultimately show ?thesis using one_plate_candidate_per_frame [of "\<lambda>_. 0" sample_registry "''cam''" "''c1''"] by (simp add: sample_vehicles_def)
qed

text \<open>A slow upload: when five seconds pass between the two submissions and the burst lasts three, it has expired at the
  second one, which opens a new burst and is accepted too.\<close>

lemma slow_upload_second_candidate:
  "map is_accepted (fst (consumeAnprCandidates (\<lambda>x. if x < 100 then ''0'' else ''1'') (\<lambda>_. None) (\<lambda>_. True) (\<lambda>_. None)
      (\<lambda>i. int i * (5 * second)) ''cam'' 1 0 ''c1'' 640 480 sample_vehicles
      (NewRegistry (sample_anpr\<lparr>BurstTTL := 3 * second\<rparr>) False))) = [True, True]"
  by (simp add: sample_defs sample_vehicles_def consumeAnprCandidates_def Submit_def NewRegistry_def Let_def is_accepted_def
      SelectCropBBox_def ComputeCrop_def padding_apply_def clampF_def Width_def Height_def recordAccepted_def update_camera_def
      new_camera_def second_def)

section \<open>Frames are never ranked\<close>

text \<open>A burst is full as soon as it has \<open>MaxFrames\<close> frames, so there is never more to choose from.\<close>

lemma final_frames_are_all_frames:
  assumes "minv m" "(k, b) \<in> set (bursts m)" "0 < MaxFramesPerBurst (acfg m)"
  shows "FinalFrames b = Some (bframes b)"
proof -
  have "burst_ok (acfg m) b" using assms(1,2) by (auto simp: minv_def)
  then show ?thesis using assms(3) by (auto simp: burst_ok_def FinalFrames_def)
qed

section \<open>Groups are kept\<close>

fun process_all :: "(rat \<Rightarrow> string) \<Rightarrow> (gotime \<times> (string \<Rightarrow> rat option) \<times> vehicle) list \<Rightarrow> burst_manager \<Rightarrow> string list \<times> burst_manager" where
  "process_all fmt2 [] m = ([], m)"
| "process_all fmt2 ((now, burstFPS, v) # vs) m =
     (case Process fmt2 burstFPS now v m of (r, oc, calls, m1) \<Rightarrow>
        case process_all fmt2 vs m1 of (gs, m2) \<Rightarrow>
          (if r = None then gs else groupKey (v_CameraKey v) (v_TrackID v) (v_CorrelationID v) # gs, m2))"

lemma add_frame_bursts:
  "add_frame fmt2 v gk b calls m = (r, oc, calls', m') \<Longrightarrow> bursts m' = bursts m \<and> r = None \<or> (\<exists>b'. bursts m' = AList.update gk b' (bursts m))"
  by (auto simp: add_frame_def Let_def record_frame split: if_splits)

lemma add_frame_keys:
  "add_frame fmt2 v gk b calls m = (r, oc, calls', m') \<Longrightarrow>
   fst ` set (bursts m) \<subseteq> fst ` set (bursts m') \<and> (r \<noteq> None \<longrightarrow> gk \<in> fst ` set (bursts m'))"
  by (drule add_frame_bursts, elim disjE exE conjE) (simp_all add: dom_update subset_insertI)

lemma Process_keys:
  assumes "Process fmt2 burstFPS now v m = (r, oc, calls, m')"
  shows "fst ` set (bursts m) \<subseteq> fst ` set (bursts m')
    \<and> (r \<noteq> None \<longrightarrow> groupKey (v_CameraKey v) (v_TrackID v) (v_CorrelationID v) \<in> fst ` set (bursts m'))"
proof -
  let ?c = "cleanupExpiredLocked now m"
  have keys: "fst ` set (bursts (snd ?c)) = fst ` set (bursts m)" by (force simp: cleanup_bursts expire_entry_def image_iff)
  show ?thesis
  proof (cases rule: Process_cases [of fmt2 burstFPS now v m])
    case (1 oc')
    then have "r = None" "m' = snd ?c" using assms by (simp_all only: prod.inject)
    then show ?thesis using keys by simp
  next
    case (2 gk)
    then have "open_burst fmt2 burstFPS now v gk (fst ?c) (snd ?c) = (r, oc, calls, m')" using assms by simp
    then show ?thesis using add_frame_keys [of fmt2 v gk _ _ "opened gk v now (snd ?c)" r oc calls m'] 2(1) keys
      by (auto simp: open_burst_eq opened_sel dom_update split: if_splits)
  next
    case (3 gk b)
    then show ?thesis using add_frame_keys [of fmt2 v gk b "fst ?c" "snd ?c" r oc calls m'] assms keys by simp
  qed
qed

text \<open>The manager keeps an entry for every group that ever had a candidate accepted, whether its burst expired or not: after
  any sequence of Process calls (the only ones the agent makes) the map has at least as many entries as there were
  distinct groups, and every frame's correlation id makes a group of its own.\<close>

theorem accepted_groups_are_kept:
  "set (fst (process_all fmt2 vs m)) \<subseteq> fst ` set (bursts (snd (process_all fmt2 vs m)))
   \<and> card (set (fst (process_all fmt2 vs m))) \<le> length (bursts (snd (process_all fmt2 vs m)))"
proof -
  let ?gs = "fst (process_all fmt2 vs m)" and ?m = "snd (process_all fmt2 vs m)"
  have "fst ` set (bursts m) \<union> set (fst (process_all fmt2 vs m)) \<subseteq> fst ` set (bursts (snd (process_all fmt2 vs m)))"
  proof (induction vs arbitrary: m)
    case (Cons x vs)
    obtain now burstFPS v where x: "x = (now, burstFPS, v)" by (metis surj_pair)
    obtain r oc calls m1 where p: "Process fmt2 burstFPS now v m = (r, oc, calls, m1)" by (metis surj_pair)
    show ?case using Process_keys [OF p] Cons.IH [of m1] by (auto simp: x p case_prod_unfold)
  qed simp
  then have "set ?gs \<subseteq> fst ` set (bursts ?m)" by blast
  moreover from this have "card (set ?gs) \<le> card (fst ` set (bursts ?m))" by (intro card_mono) auto
  moreover have "card (fst ` set (bursts ?m)) \<le> length (bursts ?m)" by (metis card_length length_map set_map)
  ultimately show ?thesis by simp
qed

section \<open>Crops\<close>

lemma crop_spec:
  fixes req pad w h
  defines "p \<equiv> padding_apply pad req"
  defines "lx \<equiv> max 0 (X0 p)" and "ly \<equiv> max 0 (Y0 p)" and "hx \<equiv> min (of_int w) (X1 p)" and "hy \<equiv> min (of_int h) (Y1 p)"
  shows "((\<exists>c. ComputeCrop req pad w h = Inr c) \<longleftrightarrow> 0 < w \<and> 0 < h \<and> BBox_Valid req \<and> lx < hx \<and> ly < hy)
    \<and> (\<forall>c. ComputeCrop req pad w h = Inr c \<longrightarrow>
          ClampedBBox c = \<lparr>X0 = lx, Y0 = ly, X1 = hx, Y1 = hy\<rparr> \<and> OutputWidth c = \<lfloor>hx - lx\<rfloor> \<and> OutputHeight c = \<lfloor>hy - ly\<rfloor>
          \<and> OutputWidth c \<le> w \<and> OutputHeight c \<le> h)"
proof -
  have clamp: "clampF a 0 f = max 0 a" if "a < f" "0 < f" for a f :: rat using that by (auto simp: clampF_def)
  have clamp': "clampF a 0 f = min f a" if "0 < a" "0 < f" for a f :: rat using that by (auto simp: clampF_def)
  have le: "\<lfloor>hx - lx\<rfloor> \<le> w" "\<lfloor>hy - ly\<rfloor> \<le> h" by (auto simp: hx_def lx_def hy_def ly_def floor_le_iff)
  show ?thesis
  proof (cases "0 < w \<and> 0 < h \<and> BBox_Valid req \<and> lx < hx \<and> ly < hy")
    case True
    then have b: "BBox_Valid p" "0 < X1 p" "0 < Y1 p" "X0 p < of_int w" "Y0 p < of_int h" "(0::rat) < of_int w" "(0::rat) < of_int h"
      by (auto simp: BBox_Valid_def lx_def hx_def ly_def hy_def)
    have "ComputeCrop req pad w h = Inr \<lparr>RequestedBBox = req, ClampedBBox = \<lparr>X0 = lx, Y0 = ly, X1 = hx, Y1 = hy\<rparr>,
        OutputWidth = \<lfloor>hx - lx\<rfloor>, OutputHeight = \<lfloor>hy - ly\<rfloor>\<rparr>"
      using True b unfolding ComputeCrop_def Let_def p_def [symmetric]
      by (simp add: clamp clamp' Width_def Height_def lx_def [symmetric] ly_def [symmetric] hx_def [symmetric] hy_def [symmetric])
    then show ?thesis using True le by simp
  next
    case False
    have "ComputeCrop req pad w h \<noteq> Inr c" for c
    proof
      assume c: "ComputeCrop req pad w h = Inr c"
      then have b: "0 < w" "0 < h" "BBox_Valid req" "BBox_Valid p" "0 < X1 p" "0 < Y1 p" "X0 p < of_int w" "Y0 p < of_int h"
        by (auto simp: ComputeCrop_def Let_def p_def not_le split: if_splits)
      then show False using False by (auto simp: BBox_Valid_def lx_def hx_def ly_def hy_def)
    qed
    then show ?thesis using False by blast
  qed
qed

text \<open>C37. ComputeCrop succeeds exactly when the frame has positive size, the requested box is valid and the padded box meets the
  frame in a rectangle of positive area; the crop is that rectangle, so it lies inside the frame and is never empty or
  inverted, and the output size is its size in whole pixels, at most the frame's.\<close>

theorem crop_inside_frame:
  "let p = padding_apply pad req; lx = max 0 (X0 p); ly = max 0 (Y0 p); hx = min (of_int w) (X1 p); hy = min (of_int h) (Y1 p);
       meets = 0 < w \<and> 0 < h \<and> BBox_Valid req \<and> lx < hx \<and> ly < hy
   in case ComputeCrop req pad w h of
        Inl e \<Rightarrow> \<not> meets
      | Inr c \<Rightarrow> meets \<and> ClampedBBox c = \<lparr>X0 = lx, Y0 = ly, X1 = hx, Y1 = hy\<rparr> \<and> OutputWidth c = \<lfloor>hx - lx\<rfloor>
          \<and> OutputHeight c = \<lfloor>hy - ly\<rfloor> \<and> OutputWidth c \<le> w \<and> OutputHeight c \<le> h"
  using crop_spec [of req pad w h] unfolding Let_def by (cases "ComputeCrop req pad w h") auto

end
