(* ===== verification/Ota.thy ===== *)
theory Ota
  imports AuditJournal RemoteConfig
begin

text \<open>
  Update verification: \<open>ota/version.go\<close> and \<open>ota/verify.go\<close>. Ed25519 (\<open>ed_verify\<close>), SHA-256 in hexadecimal (\<open>sha\<close>), \<open>untar\<close> (gzip
  and tar) and \<open>url.Parse\<close> are arguments. Texts are their bytes.
\<close>

section \<open>Versions\<close>

record version =
  Major :: int
  Minor :: int
  Patch :: int

text \<open>\<open>strings.Split(s, ".")\<close>.\<close>

fun split_dots :: "string \<Rightarrow> string list" where
  "split_dots [] = [[]]"
| "split_dots (c # s) =
     (if c = CHR ''.'' then [] # split_dots s
      else case split_dots s of [] \<Rightarrow> [[c]] | p # ps \<Rightarrow> (c # p) # ps)"

definition trim_prefix :: "string \<Rightarrow> string \<Rightarrow> string" where
  "trim_prefix s p = (if has_prefix s p then drop (length p) s else s)"

definition version_component :: "string \<Rightarrow> int option" where
  "version_component p =
     (if p = [] \<or> (1 < length p \<and> hd p = CHR ''0'') \<or> CHR ''+'' \<in> set p \<or> CHR ''-'' \<in> set p then None
      else case atoi p of None \<Rightarrow> None | Some n \<Rightarrow> if n < 0 then None else Some n)"

definition ParseVersion :: "string \<Rightarrow> version option" where
  "ParseVersion s =
     (case split_dots (trim_prefix s ''v'') of
        [a, b, c] \<Rightarrow>
          (case (version_component a, version_component b, version_component c) of
             (Some x, Some y, Some z) \<Rightarrow> Some \<lparr>Major = x, Minor = y, Patch = z\<rparr>
           | _ \<Rightarrow> None)
      | _ \<Rightarrow> None)"

definition cmpInt :: "int \<Rightarrow> int \<Rightarrow> int" where
  "cmpInt a b = (if a < b then - 1 else if a > b then 1 else 0)"

definition Version_Compare :: "version \<Rightarrow> version \<Rightarrow> int" where
  "Version_Compare v w =
     (if Major v \<noteq> Major w then cmpInt (Major v) (Major w)
      else if Minor v \<noteq> Minor w then cmpInt (Minor v) (Minor w)
      else cmpInt (Patch v) (Patch w))"

definition Version_String :: "version \<Rightarrow> string" where
  "Version_String v = ''v'' @ dec_of_int (Major v) @ ''.'' @ dec_of_int (Minor v) @ ''.'' @ dec_of_int (Patch v)"

datatype ota_error =
    Current_Invalid
  | Candidate_Invalid
  | Not_Forward string string
  | ErrMissingSignature
  | Signature_Failed
  | Not_Listed string
  | Open_Artifact
  | Checksum_Mismatch string
  | Bad_Gzip
  | Bad_Tar
  | Missing_Entry string
  | Binding_Arguments
  | Version_Mismatch string string
  | Arch_Mismatch string string
  | Bad_ReleaseID string
  | Bad_ArtifactName string
  | Bad_Metadata
  | Artifact_Missing string
  | Artifact_Symlink string
  | Read_Sums
  | Read_Sig
  | Wrong_Architecture string
  | Io_Failure
  | Bad_URL string
  | Client_Error

definition IsUpdateEligible :: "string \<Rightarrow> string \<Rightarrow> ota_error + bool" where
  "IsUpdateEligible current candidate =
     (case ParseVersion current of
        None \<Rightarrow> Inl Current_Invalid
      | Some cur \<Rightarrow>
          (case ParseVersion candidate of
             None \<Rightarrow> Inl Candidate_Invalid
           | Some cand \<Rightarrow> Inr (Version_Compare cand cur > 0)))"

section \<open>Signatures and checksums\<close>

text \<open>Results of checks: \<open>None\<close> is a nil error. Ed25519 public keys have 32 bytes.\<close>

definition VerifyManifestSignature :: "(string \<Rightarrow> string \<Rightarrow> string \<Rightarrow> bool) \<Rightarrow> string \<Rightarrow> string \<Rightarrow> string \<Rightarrow> ota_error option" where
  "VerifyManifestSignature ed_verify manifest sig pubKey =
     (if length pubKey \<noteq> 32 then Some ErrMissingSignature
      else if sig = [] then Some ErrMissingSignature
      else if \<not> ed_verify pubKey manifest sig then Some Signature_Failed
      else None)"

text \<open>\<open>strings.Fields\<close> splits around blanks; \<open>eat_blank\<close> is \<open>unicode.IsSpace\<close> on the UTF-8 encoding.\<close>

definition eat_blank :: "string \<Rightarrow> string option" where
  "eat_blank s =
     (let b = (\<lambda>i. if i < length s then (of_char (s ! i) :: nat) else 256)
      in if b 0 = 0x20 \<or> (0x09 \<le> b 0 \<and> b 0 \<le> 0x0D) then Some (drop 1 s)
         else if b 0 = 0xC2 \<and> (b 1 = 0x85 \<or> b 1 = 0xA0) then Some (drop 2 s)
         else if (b 0 = 0xE1 \<and> b 1 = 0x9A \<and> b 2 = 0x80)
              \<or> (b 0 = 0xE2 \<and> b 1 = 0x80 \<and> (0x80 \<le> b 2 \<and> b 2 \<le> 0x8A \<or> b 2 = 0xA8 \<or> b 2 = 0xA9 \<or> b 2 = 0xAF))
              \<or> (b 0 = 0xE2 \<and> b 1 = 0x81 \<and> b 2 = 0x9F) \<or> (b 0 = 0xE3 \<and> b 1 = 0x80 \<and> b 2 = 0x80)
         then Some (drop 3 s) else None)"

lemma eat_blank_shorter: "eat_blank s = Some s' \<Longrightarrow> length s' < length s"
  by (cases s) (auto simp: eat_blank_def Let_def split: if_splits)

text \<open>\<open>cur\<close> is the field being read, reversed.\<close>

function fields_from :: "string \<Rightarrow> string \<Rightarrow> string list" where
  "fields_from cur s =
     (let flush = (if cur = [] then [] else [rev cur])
      in if s = [] then flush
         else case eat_blank s of
                Some s' \<Rightarrow> flush @ fields_from [] s'
              | None \<Rightarrow> fields_from (hd s # cur) (tl s))"
  by auto
termination by (relation "measure (\<lambda>(cur, s). length s)") (auto dest: eat_blank_shorter)

declare fields_from.simps [simp del]

definition go_fields :: "string \<Rightarrow> string list" where
  "go_fields s = fields_from [] s"

text \<open>\<open>bufio.Scanner\<close> with its default buffer: a line of \<open>64 * 1024\<close> bytes or more ends the scan, and \<open>lookupSHA256\<close> does not
  look at the error.\<close>

definition maxManifestLine :: nat where "maxManifestLine = 65535"

definition manifest_lines :: "string \<Rightarrow> string list" where
  "manifest_lines manifest = map drop_cr (takeWhile (\<lambda>l. length l \<le> maxManifestLine) (raw_lines manifest))"

fun lookup_lines :: "string list \<Rightarrow> string \<Rightarrow> string option" where
  "lookup_lines [] name = None"
| "lookup_lines (l # ls) name =
     (case go_fields l of
        [hash, fname] \<Rightarrow> if trim_prefix fname ''*'' = name then Some hash else lookup_lines ls name
      | _ \<Rightarrow> lookup_lines ls name)"

definition lookupSHA256 :: "string \<Rightarrow> string \<Rightarrow> ota_error + string" where
  "lookupSHA256 manifest name =
     (case lookup_lines (manifest_lines manifest) name of None \<Rightarrow> Inl (Not_Listed name) | Some h \<Rightarrow> Inr h)"

definition VerifyArtifactChecksum :: "(string \<Rightarrow> string) \<Rightarrow> string \<Rightarrow> string \<Rightarrow> string \<Rightarrow> ota_error option" where
  "VerifyArtifactChecksum sha artifact manifest name =
     (case lookupSHA256 manifest name of
        Inl e \<Rightarrow> Some e
      | Inr listed \<Rightarrow> if to_lower listed = to_lower (sha artifact) then None else Some (Checksum_Mismatch name))"

definition VerifyEligible :: "string \<Rightarrow> string \<Rightarrow> ota_error option" where
  "VerifyEligible current candidate =
     (case IsUpdateEligible current candidate of
        Inl e \<Rightarrow> Some e
      | Inr ok \<Rightarrow> if ok then None else Some (Not_Forward candidate current))"

section \<open>The archive\<close>

text \<open>What reading the archive yields: the entries before the end or before an error.\<close>

datatype tar_read = No_Gzip | Tar "(string \<times> string) list" bool

definition requiredArchiveEntries :: "string list" where
  "requiredArchiveEntries = [''geocam-edge'', ''VERSION'', ''ARCH'']"

text \<open>\<open>strings.TrimSpace\<close>.\<close>

function trim_left :: "string \<Rightarrow> string" where
  "trim_left s = (case eat_blank s of None \<Rightarrow> s | Some s' \<Rightarrow> trim_left s')"
  by auto
termination by (relation "measure length") (auto dest: eat_blank_shorter)

declare trim_left.simps [simp del]

definition ends_blank :: "nat \<Rightarrow> string \<Rightarrow> bool" where
  "ends_blank k s \<longleftrightarrow> k \<le> length s \<and> eat_blank (drop (length s - k) s) = Some []"

function trim_right :: "string \<Rightarrow> string" where
  "trim_right s =
     (if ends_blank 1 s then trim_right (take (length s - 1) s)
      else if ends_blank 2 s then trim_right (take (length s - 2) s)
      else if ends_blank 3 s then trim_right (take (length s - 3) s)
      else s)"
  by auto
termination by (relation "measure length") (auto simp: ends_blank_def eat_blank_def)

declare trim_right.simps [simp del]

definition trim_blanks :: "string \<Rightarrow> string" where
  "trim_blanks s = trim_right (trim_left s)"

text \<open>The last entry of a name counts; only its first 64 bytes are read.\<close>

definition archive_marker :: "(string \<times> string) list \<Rightarrow> string \<Rightarrow> string" where
  "archive_marker entries name =
     fold (\<lambda>(n, body) v. if trim_prefix n ''./'' = name then trim_blanks (take 64 body) else v) entries ''''"

definition readArchiveLayout :: "(string \<Rightarrow> tar_read) \<Rightarrow> string \<Rightarrow> ota_error + string \<times> string" where
  "readArchiveLayout untar artifact =
     (case untar artifact of
        No_Gzip \<Rightarrow> Inl Bad_Gzip
      | Tar entries clean \<Rightarrow>
          if \<not> clean then Inl Bad_Tar
          else case List.find (\<lambda>n. n \<notin> set (map (\<lambda>(m, _). trim_prefix m ''./'') entries)) requiredArchiveEntries of
                 Some n \<Rightarrow> Inl (Missing_Entry n)
               | None \<Rightarrow> Inr (archive_marker entries ''VERSION'', archive_marker entries ''ARCH''))"

definition VerifyArchiveBinding :: "(string \<Rightarrow> tar_read) \<Rightarrow> string \<Rightarrow> string \<Rightarrow> string \<Rightarrow> ota_error option" where
  "VerifyArchiveBinding untar artifact wantVersion wantArch =
     (if wantVersion = '''' \<or> wantArch = '''' then Some Binding_Arguments
      else case readArchiveLayout untar artifact of
             Inl e \<Rightarrow> Some e
           | Inr (v, a) \<Rightarrow>
               if v = '''' \<or> v \<noteq> wantVersion then Some (Version_Mismatch v wantVersion)
               else if a = '''' \<or> a \<noteq> wantArch then Some (Arch_Mismatch a wantArch)
               else None)"

text \<open>What the verifier takes from outside: the signature check, the hash and the archive reader.\<close>

record ota_crypto =
  ed_verify :: "string \<Rightarrow> string \<Rightarrow> string \<Rightarrow> bool"
  sha_hex :: "string \<Rightarrow> string"
  read_tar :: "string \<Rightarrow> tar_read"

definition VerifyReleaseFiles :: "ota_crypto \<Rightarrow> string \<Rightarrow> string \<Rightarrow> string \<Rightarrow> string \<Rightarrow> string \<Rightarrow> string \<Rightarrow> string \<Rightarrow> string \<Rightarrow> ota_error option" where
  "VerifyReleaseFiles K artifact manifest sig pubKey artifactName current candidate arch =
     (case VerifyManifestSignature (ed_verify K) manifest sig pubKey of
        Some e \<Rightarrow> Some e
      | None \<Rightarrow>
          (case VerifyArtifactChecksum (sha_hex K) artifact manifest artifactName of
             Some e \<Rightarrow> Some e
           | None \<Rightarrow>
               (case VerifyEligible current candidate of
                  Some e \<Rightarrow> Some e
                | None \<Rightarrow> VerifyArchiveBinding (read_tar K) artifact candidate arch)))"

section \<open>Names\<close>

definition is_alnum :: "char \<Rightarrow> bool" where
  "is_alnum c \<longleftrightarrow> (let n = of_char c :: nat in 48 \<le> n \<and> n \<le> 57 \<or> 65 \<le> n \<and> n \<le> 90 \<or> 97 \<le> n \<and> n \<le> 122)"

definition is_name_char :: "char \<Rightarrow> bool" where
  "is_name_char c \<longleftrightarrow> is_alnum c \<or> c = CHR ''.'' \<or> c = CHR ''_'' \<or> c = CHR ''-''"

text \<open>\<open>^[A-Za-z0-9](?:[A-Za-z0-9._-]{0,62}[A-Za-z0-9])?$\<close>\<close>

definition releaseIDPattern :: "string \<Rightarrow> bool" where
  "releaseIDPattern s \<longleftrightarrow>
     s \<noteq> [] \<and> length s \<le> 64 \<and> is_alnum (hd s) \<and> is_alnum (last s) \<and> list_all is_name_char s"

definition validateReleaseID :: "string \<Rightarrow> ota_error option" where
  "validateReleaseID s =
     (if s = [] \<or> length s > 64 \<or> \<not> releaseIDPattern s \<or> contains_str s ''..'' then Some (Bad_ReleaseID s) else None)"

text \<open>\<open>^[A-Za-z0-9][A-Za-z0-9._-]{0,127}\.tar\.gz$\<close>\<close>

definition artifactNamePattern :: "string \<Rightarrow> bool" where
  "artifactNamePattern s \<longleftrightarrow>
     has_suffix s ''.tar.gz'' \<and>
     (let stem = take (length s - 7) s in stem \<noteq> [] \<and> length stem \<le> 128 \<and> is_alnum (hd stem) \<and> list_all is_name_char stem)"

definition validateArtifactName :: "string \<Rightarrow> ota_error option" where
  "validateArtifactName name =
     (if name = [] \<or> CHR ''/'' \<in> set name \<or> char_of (92 :: nat) \<in> set name \<or> \<not> artifactNamePattern name
      then Some (Bad_ArtifactName name) else None)"

section \<open>A release directory\<close>

record release_metadata =
  md_ReleaseID :: string
  md_Version :: string
  md_Architecture :: string
  md_ArtifactName :: string
  md_StagedAt :: gotime

datatype dir_entry = Regular string | Symlink

text \<open>\<open>rd_meta\<close> is \<open>metadata.json\<close> when it is there and decodes.\<close>

record release_dir =
  rd_meta :: "release_metadata option"
  rd_sums :: "string option"
  rd_sig :: "string option"
  rd_files :: "(string \<times> dir_entry) list"
  rd_verified :: bool

definition LoadReleaseMetadata :: "release_dir \<Rightarrow> release_metadata option" where
  "LoadReleaseMetadata d =
     (case rd_meta d of
        None \<Rightarrow> None
      | Some m \<Rightarrow>
          if md_ReleaseID m = '''' \<or> md_Version m = '''' \<or> md_Architecture m = '''' \<or> md_ArtifactName m = '''' then None else Some m)"

text \<open>\<open>safeArtifactPathInDir\<close> with the reading of the artifact; a valid name has no separator and is not a dot name, so the path
  is an entry of the directory.\<close>

definition safeArtifactPathInDir :: "release_dir \<Rightarrow> string \<Rightarrow> ota_error + string" where
  "safeArtifactPathInDir d name =
     (case validateArtifactName name of
        Some e \<Rightarrow> Inl e
      | None \<Rightarrow>
          (case map_of (rd_files d) name of
             None \<Rightarrow> Inl (Artifact_Missing name)
           | Some Symlink \<Rightarrow> Inl (Artifact_Symlink name)
           | Some (Regular body) \<Rightarrow> Inr body))"

definition VerifyReleaseDir :: "ota_crypto \<Rightarrow> release_dir \<Rightarrow> string \<Rightarrow> string \<Rightarrow> ota_error + release_metadata" where
  "VerifyReleaseDir K d pubKey current =
     (case LoadReleaseMetadata d of
        None \<Rightarrow> Inl Bad_Metadata
      | Some meta \<Rightarrow>
          (case safeArtifactPathInDir d (md_ArtifactName meta) of
             Inl e \<Rightarrow> Inl e
           | Inr artifact \<Rightarrow>
               (case (rd_sums d, rd_sig d) of
                  (None, _) \<Rightarrow> Inl Read_Sums
                | (_, None) \<Rightarrow> Inl Read_Sig
                | (Some manifest, Some sig) \<Rightarrow>
                    (case VerifyReleaseFiles K artifact manifest sig pubKey (md_ArtifactName meta) current (md_Version meta) (md_Architecture meta) of
                       Some e \<Rightarrow> Inl e
                     | None \<Rightarrow> Inr meta))))"

end
