(* ===== verification/Ota_Stage.thy ===== *)
theory Ota_Stage
  imports Ota
begin

text \<open>
  Download and staging of a release: \<open>ota/download.go\<close> and \<open>ota/module.go\<close>. A staged release is a directory of
  \<open>DataDir/ota/pending\<close>; the directory an attempt works in before (\<open>staging-*\<close>) is private to it. Every call that can fail
  is decided by the environment, and the states of the disk are returned in order, so that a crash leaves one of them.
\<close>

section \<open>Where artifacts may come from\<close>

text \<open>\<open>parse_url\<close> is \<open>url.Parse\<close>; \<open>host_safe\<close> is \<open>checkHostSafety\<close>, which resolves the host.\<close>

record parsed_url =
  u_scheme :: string
  u_hostname :: string
  u_path :: string

definition officialReleasePathPrefix :: string where
  "officialReleasePathPrefix = ''/drko-dev/monitoreoedgeis/releases/download/''"

definition defaultAllowedRedirectHosts :: "string list" where
  "defaultAllowedRedirectHosts =
     [''objects.githubusercontent.com'', ''github-releases.githubusercontent.com'', ''release-assets.githubusercontent.com'']"

definition validateInitialArtifactURL :: "(string \<Rightarrow> parsed_url option) \<Rightarrow> (string \<Rightarrow> bool) \<Rightarrow> string \<Rightarrow> ota_error option" where
  "validateInitialArtifactURL parse_url host_safe raw =
     (case parse_url raw of
        None \<Rightarrow> Some (Bad_URL raw)
      | Some u \<Rightarrow>
          let host = to_lower (u_hostname u)
          in if u_scheme u \<noteq> ''https'' then Some (Bad_URL raw)
             else if host \<noteq> ''github.com'' then Some (Bad_URL raw)
             else if \<not> has_prefix (u_path u) officialReleasePathPrefix then Some (Bad_URL raw)
             else if \<not> host_safe host then Some (Bad_URL raw) else None)"

definition validateRedirectURL :: "(string \<Rightarrow> parsed_url option) \<Rightarrow> (string \<Rightarrow> bool) \<Rightarrow> string \<Rightarrow> ota_error option" where
  "validateRedirectURL parse_url host_safe raw =
     (case parse_url raw of
        None \<Rightarrow> Some (Bad_URL raw)
      | Some u \<Rightarrow>
          if u_scheme u \<noteq> ''https'' then Some (Bad_URL raw)
          else if u_hostname u = '''' then Some (Bad_URL raw)
          else if to_lower (u_hostname u) \<notin> set defaultAllowedRedirectHosts then Some (Bad_URL raw)
          else if \<not> host_safe (u_hostname u) then Some (Bad_URL raw) else None)"

text \<open>\<open>via\<close> are the requests already made.\<close>

definition checkRedirect :: "(string \<Rightarrow> parsed_url option) \<Rightarrow> (string \<Rightarrow> bool) \<Rightarrow> string \<Rightarrow> string list \<Rightarrow> ota_error option" where
  "checkRedirect parse_url host_safe raw via =
     (if length via \<ge> 5 then Some (Bad_URL raw) else validateRedirectURL parse_url host_safe raw)"

section \<open>Staging\<close>

record ota_release =
  ReleaseID :: string
  rel_Version :: string
  rel_Architecture :: string
  ArtifactURL :: string
  SHA256SUMSURL :: string
  SignatureURL :: string

record ota_config =
  own_arch :: string
  own_version :: string
  own_key :: string
  crypto :: ota_crypto
  url_ok :: "string \<Rightarrow> bool"

record ota_disk =
  pending :: "string \<Rightarrow> release_dir option"
  apply_request :: "string option"

text \<open>What the attempt meets: the bodies the URLs answer with, which calls succeed (\<open>e_stat\<close> is the \<open>Stat\<close> of
  \<open>verified.ok\<close>, \<open>e_lstat\<close> the \<open>Lstat\<close> of the directory to replace), and the states a directory passes through while it is
  removed (the last one is what \<open>RemoveAll\<close> leaves).\<close>

record stage_env =
  e_now :: gotime
  e_stat :: bool
  e_body :: "string \<Rightarrow> string option"
  e_mkdir :: bool
  e_write :: "string \<Rightarrow> bool"
  e_mkpending :: bool
  e_remove :: "release_dir \<Rightarrow> release_dir option list"
  e_lstat :: bool
  e_displace :: bool
  e_stage :: bool
  e_restore :: bool
  e_apply :: bool

text \<open>\<open>filepath.Base\<close>.\<close>

definition filepath_base :: "string \<Rightarrow> string" where
  "filepath_base p =
     (if p = [] then ''.''
      else let s = rev (dropWhile (\<lambda>c. c = CHR ''/'') (rev p))
           in if s = [] then ''/'' else rev (takeWhile (\<lambda>c. c \<noteq> CHR ''/'') (rev s)))"

definition writeApplyRequest :: "stage_env \<Rightarrow> string \<Rightarrow> ota_disk \<Rightarrow> ota_error option \<times> ota_disk list" where
  "writeApplyRequest E rid d =
     (if e_apply E then (None, [d\<lparr>apply_request := Some (rid @ [newline])\<rparr>]) else (Some Io_Failure, []))"

text \<open>\<open>download\<close>: the body that ends up in the file.\<close>

definition download :: "ota_config \<Rightarrow> stage_env \<Rightarrow> string \<Rightarrow> string \<Rightarrow> string option" where
  "download C E url fname = (if url_ok C url \<and> e_write E fname then e_body E url else None)"

text \<open>The steps of \<open>FetchAndStage\<close> in the private directory: three downloads, the metadata, the verification and the marker.\<close>

definition prepare :: "ota_config \<Rightarrow> stage_env \<Rightarrow> ota_release \<Rightarrow> ota_error + release_dir" where
  "prepare C E r =
     (let name = filepath_base (ArtifactURL r)
      in case validateArtifactName name of
           Some e \<Rightarrow> Inl e
         | None \<Rightarrow>
             if \<not> e_mkdir E then Inl Io_Failure
             else case (download C E (SHA256SUMSURL r) ''SHA256SUMS'', download C E (SignatureURL r) ''SHA256SUMS.sig'',
                        download C E (ArtifactURL r) name) of
                    (Some man, Some sg, Some body) \<Rightarrow>
                      if \<not> e_write E ''metadata.json'' then Inl Io_Failure
                      else
                        let meta = \<lparr>md_ReleaseID = ReleaseID r, md_Version = rel_Version r, md_Architecture = rel_Architecture r,
                                     md_ArtifactName = name, md_StagedAt = e_now E\<rparr>;
                            dir = \<lparr>rd_meta = Some meta, rd_sums = Some man, rd_sig = Some sg, rd_files = [(name, Regular body)], rd_verified = False\<rparr>
                        in (case VerifyReleaseDir (crypto C) dir (own_key C) (own_version C) of
                              Inl e \<Rightarrow> Inl e
                            | Inr _ \<Rightarrow> if e_write E ''verified.ok'' then Inr (dir\<lparr>rd_verified := True\<rparr>) else Inl Io_Failure)
                  | _ \<Rightarrow> Inl Io_Failure)"

definition set_pending :: "string \<Rightarrow> release_dir option \<Rightarrow> ota_disk \<Rightarrow> ota_disk" where
  "set_pending n x d = d\<lparr>pending := (pending d)(n := x)\<rparr>"

text \<open>\<open>os.RemoveAll\<close> with the error ignored.\<close>

definition remove_all :: "stage_env \<Rightarrow> string \<Rightarrow> ota_disk \<Rightarrow> ota_disk list" where
  "remove_all E n d = (case pending d n of None \<Rightarrow> [] | Some x \<Rightarrow> map (\<lambda>y. set_pending n y d) (e_remove E x))"

text \<open>\<open>os.Rename\<close> onto a directory succeeds only if that one is empty.\<close>

definition dir_empty :: "release_dir \<Rightarrow> bool" where
  "dir_empty d \<longleftrightarrow> rd_meta d = None \<and> rd_sums d = None \<and> rd_sig d = None \<and> rd_files d = [] \<and> \<not> rd_verified d"

definition replaceable :: "release_dir option \<Rightarrow> bool" where
  "replaceable x \<longleftrightarrow> (case x of None \<Rightarrow> True | Some d \<Rightarrow> dir_empty d)"

definition then_trace :: "ota_disk list \<Rightarrow> ota_error option \<times> ota_disk list \<Rightarrow> ota_error option \<times> ota_disk list" where
  "then_trace ds r = (fst r, ds @ snd r)"

definition replace_dir :: "stage_env \<Rightarrow> string \<Rightarrow> release_dir \<Rightarrow> ota_disk \<Rightarrow> ota_error option \<times> ota_disk list" where
  "replace_dir E rid new d0 =
     (let backup = rid @ ''.previous'';
          ds = remove_all E backup d0;
          d1 = last (d0 # ds)
      in then_trace ds
           (case (if e_lstat E then pending d1 rid else None) of
              None \<Rightarrow>
                if \<not> e_stage E \<or> \<not> replaceable (pending d1 rid) then (Some Io_Failure, [])
                else let d2 = set_pending rid (Some new) d1 in then_trace [d2] (writeApplyRequest E rid d2)
            | Some old \<Rightarrow>
                if \<not> e_displace E \<or> \<not> replaceable (pending d1 backup) then (Some Io_Failure, [])
                else
                  let d2 = set_pending rid None (set_pending backup (Some old) d1)
                  in if \<not> e_stage E
                     then if e_restore E then (Some Io_Failure, [d2, set_pending backup None (set_pending rid (Some old) d2)])
                          else (Some Io_Failure, [d2])
                     else
                       let d3 = set_pending rid (Some new) d2; ds3 = remove_all E backup d3; d4 = last (d3 # ds3)
                       in then_trace ([d2, d3] @ ds3) (writeApplyRequest E rid d4)))"

definition FetchAndStage :: "ota_config \<Rightarrow> stage_env \<Rightarrow> ota_release \<Rightarrow> ota_disk \<Rightarrow> ota_error option \<times> ota_disk list" where
  "FetchAndStage C E r d =
     (if rel_Architecture r \<noteq> own_arch C then (Some (Wrong_Architecture (rel_Architecture r)), [])
      else case validateReleaseID (ReleaseID r) of
             Some e \<Rightarrow> (Some e, [])
           | None \<Rightarrow>
               if e_stat E \<and> (case pending d (ReleaseID r) of None \<Rightarrow> False | Some x \<Rightarrow> rd_verified x) then writeApplyRequest E (ReleaseID r) d
               else case prepare C E r of
                      Inl e \<Rightarrow> (Some e, [])
                    | Inr new \<Rightarrow> if \<not> e_mkpending E then (Some Io_Failure, []) else replace_dir E (ReleaseID r) new d)"

section \<open>The module\<close>

text \<open>\<open>CheckOnce\<close> when no other check is running: \<open>answer\<close> is what the SaaS offers, \<open>lastReleaseID\<close> the release already staged in
  this run.\<close>

definition CheckOnce :: "ota_config \<Rightarrow> stage_env \<Rightarrow> unit + ota_release option \<Rightarrow> string \<Rightarrow> ota_disk \<Rightarrow> ota_error option \<times> string \<times> ota_disk list" where
  "CheckOnce C E answer lastReleaseID d =
     (case answer of
        Inl _ \<Rightarrow> (Some Client_Error, lastReleaseID, [])
      | Inr None \<Rightarrow> (None, lastReleaseID, [])
      | Inr (Some r) \<Rightarrow>
          if lastReleaseID = ReleaseID r then (None, lastReleaseID, [])
          else case IsUpdateEligible (own_version C) (rel_Version r) of
                 Inl e \<Rightarrow> (Some e, lastReleaseID, [])
               | Inr False \<Rightarrow> (None, lastReleaseID, [])
               | Inr True \<Rightarrow>
                   (case FetchAndStage C E r d of
                      (Some e, ds) \<Rightarrow> (Some e, lastReleaseID, ds)
                    | (None, ds) \<Rightarrow> (None, ReleaseID r, ds)))"

end
