(* ===== verification/Ota_Props.thy ===== *)
theory Ota_Props
  imports Ota_Stage
begin

text \<open>
  Versions are read back exactly and ordered; whatever fails and wherever a crash happens, every staged release is complete and
  verified, and \<open>apply.request\<close> names one unless the \<open>Stat\<close> of a \<open>verified.ok\<close> failed. Release identifiers that end in
  \<open>.previous\<close> break this.
\<close>

section \<open>Versions\<close>

lemma split_dots_nodot: "CHR ''.'' \<notin> set a \<Longrightarrow> split_dots a = [a]"
  by (induction a) auto

lemma split_dots_append: "CHR ''.'' \<notin> set a \<Longrightarrow> split_dots (a @ CHR ''.'' # b) = a # split_dots b"
  by (induction a) auto

fun join_dots :: "string list \<Rightarrow> string" where
  "join_dots [] = []"
| "join_dots [p] = p"
| "join_dots (p # q # ps) = p @ CHR ''.'' # join_dots (q # ps)"

lemma split_dots_nonempty: "split_dots s \<noteq> []"
  by (induction s) (auto split: list.splits)

lemma join_split: "join_dots (split_dots s) = s"
proof (induction s)
  case (Cons c s)
  then show ?case using split_dots_nonempty [of s] by (cases "split_dots s" rule: join_dots.cases) auto
qed simp

lemma digit_not_version_char: "is_digit c \<Longrightarrow> c \<noteq> CHR ''.'' \<and> c \<noteq> CHR ''+'' \<and> c \<noteq> CHR ''-'' \<and> c \<noteq> CHR ''v''"
  by (auto simp: is_digit_def)

lemma dec_of_nat_no_special:
  "CHR ''.'' \<notin> set (dec_of_nat n)" "CHR ''+'' \<notin> set (dec_of_nat n)" "CHR ''-'' \<notin> set (dec_of_nat n)"
  using dec_of_nat_digits [of n] digit_not_version_char by (auto simp: list_all_iff)

lemma hd_dec_of_nat: "10 \<le> n \<Longrightarrow> hd (dec_of_nat n) \<noteq> CHR ''0''"
proof (induction n rule: less_induct)
  case (less n)
  have hd: "hd (dec_of_nat n) = hd (dec_of_nat (n div 10))" using less.prems by (subst dec_of_nat.simps) simp
  show ?case
  proof (cases "n div 10 < 10")
    case True
    then have "dec_of_nat (n div 10) = [digit_char (n div 10)]" by (subst dec_of_nat.simps) simp
    moreover have "digit_char (n div 10) \<noteq> CHR ''0''"
      using True less.prems by (metis digit_val_char zero_digit(2) div_greater_zero_iff less_numeral_extra(3) zero_less_numeral)
    ultimately show ?thesis using hd by simp
  next
    case False
    then show ?thesis using less.IH [of "n div 10"] hd less.prems by simp
  qed
qed

lemma digit_char_val: "is_digit c \<Longrightarrow> digit_char (digit_val c) = c \<and> digit_val c < 10"
  by (auto simp: is_digit_def digit_char_def digit_val_def)

lemma dec_value_pos: "s \<noteq> [] \<Longrightarrow> list_all is_digit s \<Longrightarrow> hd s \<noteq> CHR ''0'' \<Longrightarrow> 0 < dec_value s"
proof (induction s rule: rev_induct)
  case (snoc c s)
  show ?case
  proof (cases s)
    case Nil
    then have "digit_val c \<noteq> 0"
      using snoc.prems of_char_eq_iff [of c "CHR ''0''", where 'a = nat] by (auto simp: digit_val_def is_digit_def)
    then show ?thesis using Nil by (simp add: dec_value_def)
  next
    case (Cons a s')
    then have "0 < dec_value s" using snoc by simp
    then show ?thesis by (simp only: dec_value_snoc)
  qed
qed simp

lemma dec_of_nat_canonical:
  "s \<noteq> [] \<Longrightarrow> list_all is_digit s \<Longrightarrow> \<not> (1 < length s \<and> hd s = CHR ''0'') \<Longrightarrow> dec_of_nat (dec_value s) = s"
proof (induction s rule: rev_induct)
  case (snoc c s)
  have c: "digit_char (digit_val c) = c" "digit_val c < 10" using snoc.prems digit_char_val by auto
  show ?case
  proof (cases s)
    case Nil
    then show ?thesis using c by (subst dec_of_nat.simps) (simp add: dec_value_def)
  next
    case (Cons a s')
    have "0 < dec_value s" using snoc.prems Cons by (intro dec_value_pos) auto
    moreover have "dec_of_nat (dec_value s) = s" using snoc Cons by auto
    ultimately show ?thesis using c by (subst dec_of_nat.simps) simp
  qed
qed simp

lemma version_component_iff: "version_component p = Some x \<longleftrightarrow> 0 \<le> x \<and> x < 2 ^ 63 \<and> p = dec_of_nat (nat x)"
proof
  assume v: "version_component p = Some x"
  then have p: "p \<noteq> []" "\<not> (1 < length p \<and> hd p = CHR ''0'')" "CHR ''+'' \<notin> set p" "CHR ''-'' \<notin> set p" "atoi p = Some x" "0 \<le> x"
    by (auto simp: version_component_def split: if_splits option.splits)
  then have "list_all is_digit p" "x = int (dec_value p)" "x < 2 ^ 63"
    by (auto simp: atoi_def Let_def is_int64_def split: if_splits dest: hd_in_set)
  then show "0 \<le> x \<and> x < 2 ^ 63 \<and> p = dec_of_nat (nat x)" using p dec_of_nat_canonical [of p] by simp
next
  assume a: "0 \<le> x \<and> x < 2 ^ 63 \<and> p = dec_of_nat (nat x)"
  have d: "list_all is_digit p" "p \<noteq> []" using a dec_of_nat_digits [of "nat x"] by auto
  have nz: "\<not> (1 < length p \<and> hd p = CHR ''0'')"
  proof (cases "nat x < 10")
    case True
    then have "length p = 1" using a by (simp add: dec_of_nat.simps [of "nat x"])
    then show ?thesis by simp
  qed (use a hd_dec_of_nat in simp)
  have "hd p \<noteq> CHR ''-''" "hd p \<noteq> CHR ''+''" using a d(2) dec_of_nat_no_special [of "nat x"] hd_in_set by metis+
  then have "atoi p = Some x" using a d by (simp add: atoi_def Let_def is_int64_def)
  then show "version_component p = Some x"
    using a d nz dec_of_nat_no_special [of "nat x"] by (simp add: version_component_def)
qed

definition version_ok :: "version \<Rightarrow> bool" where
  "version_ok v \<longleftrightarrow> 0 \<le> Major v \<and> Major v < 2 ^ 63 \<and> 0 \<le> Minor v \<and> Minor v < 2 ^ 63 \<and> 0 \<le> Patch v \<and> Patch v < 2 ^ 63"

lemma parse_bare:
  "(case split_dots t of [a, b, c] \<Rightarrow>
      (case (version_component a, version_component b, version_component c) of
         (Some x, Some y, Some z) \<Rightarrow> Some \<lparr>Major = x, Minor = y, Patch = z\<rparr> | _ \<Rightarrow> None) | _ \<Rightarrow> None) = Some v
   \<longleftrightarrow> version_ok v \<and> t = tl (Version_String v)" (is "?p = Some v \<longleftrightarrow> _")
proof
  assume "?p = Some v"
  then obtain a b c x y z where s: "split_dots t = [a, b, c]" "version_component a = Some x" "version_component b = Some y"
    "version_component c = Some z" "v = \<lparr>Major = x, Minor = y, Patch = z\<rparr>"
    by (auto split: list.splits option.splits)
  have "t = a @ ''.'' @ b @ ''.'' @ c" using join_split [of t] s(1) by simp
  then show "version_ok v \<and> t = tl (Version_String v)"
    using s(2-5) by (simp add: version_component_iff version_ok_def Version_String_def dec_of_int_def)
next
  assume a: "version_ok v \<and> t = tl (Version_String v)"
  then have "split_dots t = [dec_of_nat (nat (Major v)), dec_of_nat (nat (Minor v)), dec_of_nat (nat (Patch v))]"
    by (simp add: version_ok_def Version_String_def dec_of_int_def split_dots_append split_dots_nodot dec_of_nat_no_special)
  moreover have "version_component (dec_of_nat (nat (Major v))) = Some (Major v)" "version_component (dec_of_nat (nat (Minor v))) = Some (Minor v)"
    "version_component (dec_of_nat (nat (Patch v))) = Some (Patch v)"
    using a by (simp_all add: version_component_iff version_ok_def)
  ultimately show "?p = Some v" by simp
qed

text \<open>C39. Versions are read back exactly: ParseVersion accepts a text if and only if it is the canonical form of a version with
  components below 2^63, or that form without its leading v, and returns that version. So no other text (signs, leading
  zeros, extra components, suffixes) is accepted and printing then parsing is the identity.\<close>

theorem version_roundtrip:
  "ParseVersion s = Some v \<longleftrightarrow>
     0 \<le> Major v \<and> Major v < 2 ^ 63 \<and> 0 \<le> Minor v \<and> Minor v < 2 ^ 63 \<and> 0 \<le> Patch v \<and> Patch v < 2 ^ 63
     \<and> (s = Version_String v \<or> s = tl (Version_String v))"
proof -
  have hd: "version_ok v \<Longrightarrow> hd (tl (Version_String v)) \<noteq> CHR ''v'' \<and> tl (Version_String v) \<noteq> []"
    using dec_of_nat_digits [of "nat (Major v)"] dec_of_nat_nonempty [of "nat (Major v)"] digit_not_version_char
    by (cases "dec_of_nat (nat (Major v))") (auto simp: version_ok_def Version_String_def dec_of_int_def)
  have "ParseVersion s = Some v \<longleftrightarrow> version_ok v \<and> trim_prefix s ''v'' = tl (Version_String v)"
    unfolding ParseVersion_def by (rule parse_bare)
  also have "\<dots> \<longleftrightarrow> version_ok v \<and> (s = Version_String v \<or> s = tl (Version_String v))"
  proof (cases s)
    case Nil
    then show ?thesis using hd by (auto simp: trim_prefix_def has_prefix_def Version_String_def)
  next
    case (Cons c t)
    show ?thesis
    proof (cases "c = CHR ''v''")
      case True
      then have "\<not> (version_ok v \<and> s = tl (Version_String v))" using hd Cons by (metis list.sel(1))
      moreover have "s = Version_String v \<longleftrightarrow> t = tl (Version_String v)" using Cons True by (simp add: Version_String_def)
      ultimately show ?thesis using Cons True by (auto simp: trim_prefix_def has_prefix_def)
    next
      case False
      then show ?thesis using Cons by (auto simp: trim_prefix_def has_prefix_def Version_String_def)
    qed
  qed
  finally show ?thesis by (simp add: version_ok_def)
qed

section \<open>The order of versions\<close>

definition newer :: "version \<Rightarrow> version \<Rightarrow> bool" where
  "newer a b \<longleftrightarrow> Version_Compare a b > 0"

lemma newer_iff:
  "newer a b \<longleftrightarrow> Major b < Major a \<or> Major b = Major a \<and> (Minor b < Minor a \<or> Minor b = Minor a \<and> Patch b < Patch a)"
  by (auto simp: newer_def Version_Compare_def cmpInt_def)

text \<open>An eligible release is strictly newer, so no sequence of updates returns to a version it has left.\<close>

lemma eligible_iff:
  "IsUpdateEligible cur cand = Inr True \<longleftrightarrow> (\<exists>a b. ParseVersion cur = Some a \<and> ParseVersion cand = Some b \<and> newer b a)"
  by (auto simp: IsUpdateEligible_def newer_def split: option.splits)

lemma updates_never_cycle: "(\<lambda>a b. IsUpdateEligible a b = Inr True)\<^sup>+\<^sup>+ cur cand \<Longrightarrow> cur \<noteq> cand"
proof -
  assume "(\<lambda>a b. IsUpdateEligible a b = Inr True)\<^sup>+\<^sup>+ cur cand"
  then have "\<exists>a b. ParseVersion cur = Some a \<and> ParseVersion cand = Some b \<and> newer b a"
  proof (induction rule: tranclp_induct)
    case (step y z)
    then show ?case unfolding eligible_iff newer_iff by force
  qed (simp add: eligible_iff)
  then show ?thesis by (auto simp: newer_iff)
qed

section \<open>Staging\<close>

definition stage_init :: "ota_disk \<Rightarrow> bool" where
  "stage_init d \<longleftrightarrow> pending d = (\<lambda>_. None) \<and> apply_request d = None"

text \<open>One attempt, completed or cut off by a crash after any of its writes. The identifier does not end in \<open>.previous\<close>.
  With \<open>stat_ok\<close> the \<open>Stat\<close> of \<open>verified.ok\<close> reports what is there; without it the call may fail.\<close>

inductive stage_step :: "ota_config \<Rightarrow> bool \<Rightarrow> ota_disk \<Rightarrow> ota_disk \<Rightarrow> bool" for C stat_ok where
  attempt: "FetchAndStage C E r d = (res, ds) \<Longrightarrow> \<not> has_suffix (ReleaseID r) ''.previous'' \<Longrightarrow> (stat_ok \<longrightarrow> e_stat E) \<Longrightarrow>
     d' \<in> set (d # ds) \<Longrightarrow> stage_step C stat_ok d d'"

definition genuine :: "ota_config \<Rightarrow> string \<Rightarrow> release_dir \<Rightarrow> bool" where
  "genuine C n x \<longleftrightarrow>
     rd_verified x \<and> (\<exists>m. VerifyReleaseDir (crypto C) x (own_key C) (own_version C) = Inr m \<and> md_ReleaseID m = n \<and> md_Architecture m = own_arch C)"

text \<open>The staged releases are genuine; leftovers of a displacement (\<open>.previous\<close>) may stand beside them.\<close>

definition staged_inv :: "ota_config \<Rightarrow> ota_disk \<Rightarrow> bool" where
  "staged_inv C d \<longleftrightarrow> (\<forall>n x. pending d n = Some x \<longrightarrow> \<not> has_suffix n ''.previous'' \<longrightarrow> genuine C n x)"

text \<open>No release is ever displaced, and the one asked for is there.\<close>

definition named_inv :: "ota_disk \<Rightarrow> bool" where
  "named_inv d \<longleftrightarrow>
     (\<forall>n x. pending d n = Some x \<longrightarrow> \<not> has_suffix n ''.previous'')
     \<and> (\<forall>s. apply_request d = Some s \<longrightarrow> (\<exists>n. s = n @ [newline] \<and> pending d n \<noteq> None))"

definition stage_inv :: "ota_config \<Rightarrow> bool \<Rightarrow> ota_disk \<Rightarrow> bool" where
  "stage_inv C stat_ok d \<longleftrightarrow> staged_inv C d \<and> (stat_ok \<longrightarrow> named_inv d)"

lemma verify_dir_marker: "VerifyReleaseDir K (x\<lparr>rd_verified := b\<rparr>) pk ver = VerifyReleaseDir K x pk ver"
proof -
  have "LoadReleaseMetadata (x\<lparr>rd_verified := b\<rparr>) = LoadReleaseMetadata x" "safeArtifactPathInDir (x\<lparr>rd_verified := b\<rparr>) = safeArtifactPathInDir x"
    by (simp_all add: fun_eq_iff LoadReleaseMetadata_def safeArtifactPathInDir_def cong: option.case_cong)
  then show ?thesis by (simp add: VerifyReleaseDir_def cong: option.case_cong sum.case_cong)
qed

lemma verify_dir_meta: "VerifyReleaseDir K x pk ver = Inr m \<Longrightarrow> rd_meta x = Some m"
  by (auto simp: VerifyReleaseDir_def LoadReleaseMetadata_def split: option.splits sum.splits if_splits prod.splits)

lemma prepare_genuine: "prepare C E r = Inr x \<Longrightarrow> rel_Architecture r = own_arch C \<Longrightarrow> genuine C (ReleaseID r) x"
proof -
  assume a: "prepare C E r = Inr x" "rel_Architecture r = own_arch C"
  from a(1) obtain m where d: "VerifyReleaseDir (crypto C) (x\<lparr>rd_verified := False\<rparr>) (own_key C) (own_version C) = Inr m"
    and x: "rd_verified x" "\<exists>meta. rd_meta x = Some meta \<and> md_ReleaseID meta = ReleaseID r \<and> md_Architecture meta = rel_Architecture r"
    unfolding prepare_def Let_def by (auto split: option.splits if_splits sum.splits)
  from d have "VerifyReleaseDir (crypto C) x (own_key C) (own_version C) = Inr m" by (simp only: verify_dir_marker)
  then show ?thesis using verify_dir_meta x a(2) by (fastforce simp: genuine_def)
qed

lemma apply_staged: "staged_inv C d \<Longrightarrow> d' \<in> set (snd (writeApplyRequest E n d)) \<Longrightarrow> staged_inv C d'"
  by (auto simp: writeApplyRequest_def staged_inv_def split: if_splits)

lemma apply_named: "named_inv d \<Longrightarrow> pending d n \<noteq> None \<Longrightarrow> d' \<in> set (snd (writeApplyRequest E n d)) \<Longrightarrow> named_inv d'"
  by (auto simp: writeApplyRequest_def named_inv_def split: if_splits)

lemma has_suffix_previous [simp]: "has_suffix (n @ ''.previous'') ''.previous''"
  by (rule has_suffix_append)

lemma staged_set: "staged_inv C d \<Longrightarrow> genuine C n x \<Longrightarrow> staged_inv C (set_pending n (Some x) d)"
  by (auto simp: staged_inv_def set_pending_def)

lemma staged_unset: "staged_inv C d \<Longrightarrow> staged_inv C (set_pending n None d)"
  by (auto simp: staged_inv_def set_pending_def)

lemma staged_backup: "staged_inv C d \<Longrightarrow> staged_inv C (set_pending (n @ ''.previous'') y d)"
  by (auto simp: staged_inv_def set_pending_def)

lemma staged_remove: "staged_inv C d \<Longrightarrow> d' \<in> set (remove_all E (n @ ''.previous'') d) \<Longrightarrow> staged_inv C d'"
  by (auto simp: remove_all_def staged_backup split: option.splits)

lemma last_in: "last (d # ds) = d \<or> last (d # ds) \<in> set ds"
  by (cases ds) auto

text \<open>Whatever fails on the way, only verified directories are moved to a release's name.\<close>

lemma replace_staged:
  assumes inv: "staged_inv C d" and new: "genuine C n x" "\<not> has_suffix n ''.previous''" and d': "d' \<in> set (snd (replace_dir E n x d))"
  shows "staged_inv C d'"
proof -
  let ?b = "n @ ''.previous''"
  define ds where "ds = remove_all E ?b d"
  define d1 where "d1 = last (d # ds)"
  have i0: "\<forall>e \<in> set ds. staged_inv C e" using staged_remove [OF inv] by (auto simp: ds_def)
  then have i1: "staged_inv C d1" using last_in [of d ds] inv unfolding d1_def by metis
  define d2 where "d2 old = set_pending n None (set_pending ?b (Some old) d1)" for old
  have i2: "staged_inv C (d2 old)" for old unfolding d2_def by (intro staged_unset staged_backup i1)
  have i2': "staged_inv C (set_pending ?b None (set_pending n (Some old) (d2 old)))" if "pending d1 n = Some old" for old
    using i1 that new(2) by (intro staged_backup staged_set i2) (simp add: staged_inv_def)
  define d3 where "d3 old = set_pending n (Some x) (d2 old)" for old
  have i3: "staged_inv C (d3 old)" for old unfolding d3_def by (intro staged_set i2 new(1))
  have i4: "staged_inv C (last (d3 old # remove_all E ?b (d3 old)))" for old
    using last_in [of "d3 old" "remove_all E ?b (d3 old)"] i3 staged_remove [OF i3] by metis
  have im: "staged_inv C (set_pending n (Some x) d1)" by (intro staged_set i1 new(1))
  from d' have "d' \<in> set ds
      \<or> d' = set_pending n (Some x) d1 \<or> d' \<in> set (snd (writeApplyRequest E n (set_pending n (Some x) d1)))
      \<or> (\<exists>old. pending d1 n = Some old \<and> (d' = d2 old \<or> d' = set_pending ?b None (set_pending n (Some old) (d2 old)) \<or> d' = d3 old
            \<or> d' \<in> set (remove_all E ?b (d3 old))
            \<or> d' \<in> set (snd (writeApplyRequest E n (last (d3 old # remove_all E ?b (d3 old)))))))"
    unfolding replace_dir_def ds_def [symmetric] Let_def d1_def [symmetric] d2_def d3_def
    by (auto simp: then_trace_def split: option.splits if_splits)
  then show ?thesis using i0 i2 i2' i3 staged_remove [OF i3] apply_staged [OF i4] im apply_staged [OF im] by metis
qed

text \<open>A new release finds nothing to displace, as long as none was displaced before.\<close>

lemma replace_named:
  assumes inv: "named_inv d" and new: "\<not> has_suffix n ''.previous''" "pending d n = None" and d': "d' \<in> set (snd (replace_dir E n x d))"
  shows "named_inv d'"
proof -
  have "pending d (n @ ''.previous'') = None" using inv has_suffix_previous unfolding named_inv_def by (metis not_None_eq)
  then have "remove_all E (n @ ''.previous'') d = []" by (simp add: remove_all_def)
  then have "replace_dir E n x d = (if \<not> e_stage E then (Some Io_Failure, [])
      else then_trace [set_pending n (Some x) d] (writeApplyRequest E n (set_pending n (Some x) d)))"
    using new(2) by (simp add: replace_dir_def then_trace_def Let_def replaceable_def)
  moreover have "named_inv (set_pending n (Some x) d)" using inv new(1) by (auto simp: named_inv_def set_pending_def) blast
  ultimately show ?thesis using d' apply_named [of "set_pending n (Some x) d" n d' E]
    by (auto simp: then_trace_def set_pending_def split: if_splits)
qed

lemma attempt_cases:
  assumes "FetchAndStage C E r d = (res, ds)"
  obtains "ds = []"
  | x where "e_stat E" "pending d (ReleaseID r) = Some x" "rd_verified x" "writeApplyRequest E (ReleaseID r) d = (res, ds)"
  | x where "\<not> (e_stat E \<and> (\<exists>y. pending d (ReleaseID r) = Some y \<and> rd_verified y))" "prepare C E r = Inr x"
      "rel_Architecture r = own_arch C" "replace_dir E (ReleaseID r) x d = (res, ds)"
  using assms by (auto simp: FetchAndStage_def split: if_splits option.splits sum.splits)

interpretation staging: machine stage_init "stage_step C stat_ok" "stage_inv C stat_ok" for C stat_ok
proof unfold_locales
  fix d d' assume inv: "stage_inv C stat_ok d" and "stage_step C stat_ok d d'"
  from this(2) show "stage_inv C stat_ok d'"
  proof cases
    case (attempt E r res ds)
    show ?thesis
    proof (cases "d' = d")
      case False
      then have d': "d' \<in> set ds" using attempt(4) by simp
      from attempt(1) show ?thesis
      proof (cases rule: attempt_cases)
        case 1
        then show ?thesis using d' by simp
      next
        case 2
        then have "d' \<in> set (snd (writeApplyRequest E (ReleaseID r) d))" using d' by simp
        then show ?thesis using inv apply_staged apply_named 2(2) unfolding stage_inv_def by (metis not_None_eq)
      next
        case (3 x)
        have d'': "d' \<in> set (snd (replace_dir E (ReleaseID r) x d))" using 3(4) d' by simp
        have "pending d (ReleaseID r) = None" if "stat_ok"
        proof (rule ccontr)
          assume "pending d (ReleaseID r) \<noteq> None"
          then obtain y where "pending d (ReleaseID r) = Some y" by blast
          then show False using inv attempt(2,3) 3(1) that by (auto simp: stage_inv_def staged_inv_def genuine_def)
        qed
        then show ?thesis
          using inv replace_staged [OF _ prepare_genuine [OF 3(2,3)] attempt(2) d''] replace_named [OF _ attempt(2) _ d'']
          by (auto simp: stage_inv_def)
      qed
    qed (use inv in simp)
  qed
qed (simp add: stage_init_def stage_inv_def staged_inv_def named_inv_def)

lemma verify_files_facts:
  "VerifyReleaseFiles K body man sig pk name cur cand arch = None \<Longrightarrow>
   ed_verify K pk man sig \<and> (\<exists>h. lookup_lines (manifest_lines man) name = Some h \<and> to_lower h = to_lower (sha_hex K body))
   \<and> IsUpdateEligible cur cand = Inr True"
  by (auto simp: VerifyReleaseFiles_def VerifyManifestSignature_def VerifyArtifactChecksum_def lookupSHA256_def VerifyEligible_def
      split: option.splits if_splits sum.splits)

lemma verify_dir_facts:
  "VerifyReleaseDir K x pk cur = Inr m \<Longrightarrow>
   \<exists>man sig body h. rd_meta x = Some m \<and> rd_sums x = Some man \<and> rd_sig x = Some sig \<and> map_of (rd_files x) (md_ArtifactName m) = Some (Regular body)
     \<and> ed_verify K pk man sig \<and> lookup_lines (manifest_lines man) (md_ArtifactName m) = Some h \<and> to_lower h = to_lower (sha_hex K body)
     \<and> IsUpdateEligible cur (md_Version m) = Inr True"
proof -
  assume v: "VerifyReleaseDir K x pk cur = Inr m"
  then obtain body man sig where p: "safeArtifactPathInDir x (md_ArtifactName m) = Inr body" "rd_sums x = Some man" "rd_sig x = Some sig"
    "VerifyReleaseFiles K body man sig pk (md_ArtifactName m) cur (md_Version m) (md_Architecture m) = None"
    unfolding VerifyReleaseDir_def by (auto split: option.splits sum.splits)
  from p(1) have "map_of (rd_files x) (md_ArtifactName m) = Some (Regular body)"
    by (auto simp: safeArtifactPathInDir_def split: option.splits dir_entry.splits)
  then show ?thesis using verify_dir_meta [OF v] p(2,3) verify_files_facts [OF p(4)] by blast
qed

text \<open>C9. Staging fails closed. From an empty data directory, over any sequence of releases offered by the SaaS, whatever
  the servers answer, whichever calls fail and wherever a crash cuts an attempt off: every directory under pending, leftovers
  named ".previous" aside, is complete, carries the offered release id and architecture, its manifest is signed under the
  configured key, lists the artifact with the SHA-256 it really has, and its version is strictly newer than the running one,
  so that verifying it again succeeds. If moreover the Stat of verified.ok never fails on an existing marker (the other calls
  may), there are no such leftovers, and apply.request, when it exists, names one of these directories. The release ids
  must not end in ".previous".\<close>

theorem staged_releases_are_genuine:
  assumes "stage_init d0" "(stage_step C stat_ok)\<^sup>*\<^sup>* d0 d"
  shows "(\<forall>n x. pending d n = Some x \<longrightarrow> stat_ok \<or> \<not> has_suffix n ''.previous'' \<longrightarrow>
       (\<exists>m man sig body h. rd_verified x \<and> VerifyReleaseDir (crypto C) x (own_key C) (own_version C) = Inr m
          \<and> rd_meta x = Some m \<and> md_ReleaseID m = n \<and> md_Architecture m = own_arch C
          \<and> rd_sums x = Some man \<and> rd_sig x = Some sig \<and> map_of (rd_files x) (md_ArtifactName m) = Some (Regular body)
          \<and> ed_verify (crypto C) (own_key C) man sig \<and> lookup_lines (manifest_lines man) (md_ArtifactName m) = Some h
          \<and> to_lower h = to_lower (sha_hex (crypto C) body) \<and> IsUpdateEligible (own_version C) (md_Version m) = Inr True))
    \<and> (stat_ok \<longrightarrow> (\<forall>s. apply_request d = Some s \<longrightarrow> (\<exists>n. s = n @ [newline] \<and> pending d n \<noteq> None)))"
proof -
  have inv: "stage_inv C stat_ok d" by (rule staging.invar_reachable [OF assms])
  show ?thesis
  proof (intro conjI allI impI)
    fix n x assume "pending d n = Some x" "stat_ok \<or> \<not> has_suffix n ''.previous''"
    then have "genuine C n x" using inv unfolding stage_inv_def staged_inv_def named_inv_def by metis
    then obtain m where m: "rd_verified x" "VerifyReleaseDir (crypto C) x (own_key C) (own_version C) = Inr m" "md_ReleaseID m = n"
      "md_Architecture m = own_arch C" by (auto simp: genuine_def)
    then show "\<exists>m man sig body h. rd_verified x \<and> VerifyReleaseDir (crypto C) x (own_key C) (own_version C) = Inr m
          \<and> rd_meta x = Some m \<and> md_ReleaseID m = n \<and> md_Architecture m = own_arch C
          \<and> rd_sums x = Some man \<and> rd_sig x = Some sig \<and> map_of (rd_files x) (md_ArtifactName m) = Some (Regular body)
          \<and> ed_verify (crypto C) (own_key C) man sig \<and> lookup_lines (manifest_lines man) (md_ArtifactName m) = Some h
          \<and> to_lower h = to_lower (sha_hex (crypto C) body) \<and> IsUpdateEligible (own_version C) (md_Version m) = Inr True"
      using verify_dir_facts [OF m(2)] by metis
  qed (use inv in \<open>auto simp: stage_inv_def named_inv_def\<close>)
qed

text \<open>Why the marker must be readable. When the \<open>Stat\<close> of \<open>verified.ok\<close> fails on a release that is staged and named by
  \<open>apply.request\<close>, the release is downloaded again and the verified directory is moved aside first: a crash right after
  that leaves \<open>apply.request\<close> naming a directory that is not there. The next attempt begins by deleting the copy moved
  aside.\<close>

theorem failed_stat_displaces_release:
  assumes "validateReleaseID (ReleaseID r) = None" "rel_Architecture r = own_arch C" "prepare C E r = Inr new" "e_mkpending E"
    and "\<not> e_stat E" "e_lstat E" "e_displace E" "pending d (ReleaseID r @ ''.previous'') = None"
    and "pending d (ReleaseID r) = Some x" "apply_request d = Some (ReleaseID r @ [newline])"
  shows "\<exists>d' \<in> set (snd (FetchAndStage C E r d)). pending d' (ReleaseID r) = None
    \<and> pending d' (ReleaseID r @ ''.previous'') = Some x \<and> apply_request d' = Some (ReleaseID r @ [newline])"
proof -
  let ?d = "set_pending (ReleaseID r) None (set_pending (ReleaseID r @ ''.previous'') (Some x) d)"
  have "?d \<in> set (snd (replace_dir E (ReleaseID r) new d))"
    using assms(6-9) by (simp add: replace_dir_def remove_all_def then_trace_def Let_def replaceable_def)
  then have "?d \<in> set (snd (FetchAndStage C E r d))" using assms(1-5) by (simp add: FetchAndStage_def)
  then show ?thesis using assms(10) by (intro bexI [of _ ?d]) (simp_all add: set_pending_def)
qed

section \<open>An attempt\<close>

definition sample_crypto :: ota_crypto where
  "sample_crypto =
     \<lparr>ed_verify = (\<lambda>_ _ sg. sg = ''ok''), sha_hex = (\<lambda>_. ''ab''),
      read_tar = (\<lambda>_. Tar [(''./geocam-edge'', ''''), (''./VERSION'', ''v1.2.0''), (''./ARCH'', ''arm64'')] True)\<rparr>"

definition sample_ota :: ota_config where
  "sample_ota = \<lparr>own_arch = ''arm64'', own_version = ''v1.1.9'', own_key = replicate 32 (CHR ''k''), crypto = sample_crypto, url_ok = (\<lambda>_. True)\<rparr>"

definition sample_release :: "string \<Rightarrow> ota_release" where
  "sample_release rid = \<lparr>ReleaseID = rid, rel_Version = ''v1.2.0'', rel_Architecture = ''arm64'', ArtifactURL = ''h/e.tar.gz'', SHA256SUMSURL = ''s'', SignatureURL = ''g''\<rparr>"

definition sample_stage :: "bool \<Rightarrow> stage_env" where
  "sample_stage ok =
     \<lparr>e_now = 0, e_stat = True, e_body = [''s'' \<mapsto> ''AB  e.tar.gz'', ''g'' \<mapsto> ''ok'', ''h/e.tar.gz'' \<mapsto> ''tgz''], e_mkdir = True, e_write = (\<lambda>_. True), e_mkpending = True,
      e_remove = (\<lambda>_. [None]), e_lstat = True, e_displace = True, e_stage = ok, e_restore = True, e_apply = True\<rparr>"

definition sample_staged :: "string \<Rightarrow> release_dir" where
  "sample_staged rid =
     \<lparr>rd_meta = Some \<lparr>md_ReleaseID = rid, md_Version = ''v1.2.0'', md_Architecture = ''arm64'', md_ArtifactName = ''e.tar.gz'', md_StagedAt = 0\<rparr>,
      rd_sums = Some ''AB  e.tar.gz'', rd_sig = Some ''ok'', rd_files = [(''e.tar.gz'', Regular ''tgz'')], rd_verified = True\<rparr>"

lemma sample_lookup: "lookup_lines (manifest_lines ''AB  e.tar.gz'') ''e.tar.gz'' = Some ''AB''"
proof -
  have "manifest_lines ''AB  e.tar.gz'' = [''AB  e.tar.gz'']"
    by (simp add: manifest_lines_def raw_lines.simps newline_def drop_cr_def maxManifestLine_def)
  moreover have "go_fields ''AB  e.tar.gz'' = [''AB'', ''e.tar.gz'']" by code_simp
  ultimately show ?thesis by (simp add: trim_prefix_def has_prefix_def)
qed

lemma sample_versions: "IsUpdateEligible ''v1.1.9'' ''v1.2.0'' = Inr True"
  by code_simp

lemma sample_archive: "VerifyArchiveBinding (read_tar sample_crypto) ''tgz'' ''v1.2.0'' ''arm64'' = None"
  by code_simp

lemma sample_files: "VerifyReleaseFiles sample_crypto ''tgz'' ''AB  e.tar.gz'' ''ok'' (replicate 32 (CHR ''k'')) ''e.tar.gz'' ''v1.1.9'' ''v1.2.0'' ''arm64'' = None"
proof -
  have "to_lower ''AB'' = to_lower ''ab''" by code_simp
  then show ?thesis using sample_lookup sample_versions sample_archive
    by (simp add: VerifyReleaseFiles_def VerifyManifestSignature_def VerifyArtifactChecksum_def lookupSHA256_def VerifyEligible_def sample_crypto_def)
qed

lemma sample_prepare: "rid \<noteq> '''' \<Longrightarrow> prepare sample_ota (sample_stage ok) (sample_release rid) = Inr (sample_staged rid)"
proof -
  have "filepath_base ''h/e.tar.gz'' = ''e.tar.gz''" "validateArtifactName ''e.tar.gz'' = None" by code_simp+
  moreover assume "rid \<noteq> ''''"
  ultimately show ?thesis using sample_files
    by (simp add: prepare_def sample_ota_def sample_stage_def sample_release_def sample_staged_def download_def VerifyReleaseDir_def
        LoadReleaseMetadata_def safeArtifactPathInDir_def Let_def)
qed

definition empty_disk :: ota_disk where
  "empty_disk = \<lparr>pending = (\<lambda>_. None), apply_request = None\<rparr>"

lemma sample_attempt:
  "FetchAndStage sample_ota (sample_stage True) (sample_release ''r1'') empty_disk =
     (None, [set_pending ''r1'' (Some (sample_staged ''r1'')) empty_disk,
             (set_pending ''r1'' (Some (sample_staged ''r1'')) empty_disk)\<lparr>apply_request := Some (''r1'' @ [newline])\<rparr>])"
proof -
  have "validateReleaseID ''r1'' = None" by code_simp
  then show ?thesis using sample_prepare [of "''r1''" True]
    by (simp add: FetchAndStage_def replace_dir_def remove_all_def empty_disk_def writeApplyRequest_def then_trace_def set_pending_def
        replaceable_def sample_ota_def sample_release_def sample_stage_def)
qed

theorem staged_releases_are_genuine_witness:
  "\<exists>d. (stage_step sample_ota True)\<^sup>*\<^sup>* empty_disk d \<and> apply_request d = Some (''r1'' @ [newline]) \<and> pending d ''r1'' \<noteq> None"
proof -
  let ?d = "(set_pending ''r1'' (Some (sample_staged ''r1'')) empty_disk)\<lparr>apply_request := Some (''r1'' @ [newline])\<rparr>"
  have "\<not> has_suffix (ReleaseID (sample_release ''r1'')) ''.previous''" by (simp add: sample_release_def has_suffix_def)
  from attempt [OF sample_attempt this, of True ?d] have step: "stage_step sample_ota True empty_disk ?d" by (simp add: sample_stage_def)
  have "stage_init empty_disk" by (simp add: stage_init_def empty_disk_def)
  from staged_releases_are_genuine [OF this r_into_rtranclp [of "stage_step sample_ota True", OF step]] have "pending ?d ''r1'' \<noteq> None" by simp
  then show ?thesis using step by (intro exI [of _ ?d]) simp
qed

section \<open>Identifiers that end in .previous\<close>

text \<open>C40. A release id may end in ".previous", and then staging another release destroys it: the first thing staging r does after the
  download is to remove r.previous as its own leftover. When the rename into place then fails, the attempt reports an
  error, but apply.request still names the verified release r.previous, whose directory is gone.\<close>

theorem previous_suffix_loses_release:
  assumes "validateReleaseID (ReleaseID r) = None" "rel_Architecture r = own_arch C" "prepare C E r = Inr new" "e_mkpending E" "\<not> e_stage E"
    and "pending d (ReleaseID r) = None" "pending d (ReleaseID r @ ''.previous'') = Some x" "genuine C (ReleaseID r @ ''.previous'') x"
    and "apply_request d = Some (ReleaseID r @ ''.previous'' @ [newline])" "last (e_remove E x) = None" "e_remove E x \<noteq> []"
  shows "\<exists>ds. FetchAndStage C E r d = (Some Io_Failure, ds)
    \<and> pending (last ds) (ReleaseID r @ ''.previous'') = None
    \<and> apply_request (last ds) = Some (ReleaseID r @ ''.previous'' @ [newline])"
proof -
  let ?ds = "map (\<lambda>y. set_pending (ReleaseID r @ ''.previous'') y d) (e_remove E x)"
  have l: "last ?ds = set_pending (ReleaseID r @ ''.previous'') None d" using assms(10,11) by (simp add: last_map)
  have "replace_dir E (ReleaseID r) new d = (Some Io_Failure, ?ds)"
    using assms(5-7,11) l by (simp add: replace_dir_def remove_all_def then_trace_def set_pending_def Let_def)
  then have "FetchAndStage C E r d = (Some Io_Failure, ?ds)" using assms(1-4,6) by (simp add: FetchAndStage_def)
  then show ?thesis using l assms(9) by (intro exI [of _ ?ds]) (simp add: set_pending_def)
qed

theorem previous_suffix_loses_release_witness:
  "validateReleaseID ''r1.previous'' = None
   \<and> (\<exists>ds. FetchAndStage sample_ota (sample_stage False) (sample_release ''r1'')
          \<lparr>pending = [''r1.previous'' \<mapsto> sample_staged ''r1.previous''], apply_request = Some (''r1.previous'' @ [newline])\<rparr> = (Some Io_Failure, ds)
        \<and> pending (last ds) ''r1.previous'' = None \<and> apply_request (last ds) = Some (''r1.previous'' @ [newline]))"
proof -
  have ids: "validateReleaseID ''r1'' = None" "validateReleaseID ''r1.previous'' = None" by code_simp+
  have "genuine sample_ota ''r1.previous'' (sample_staged ''r1.previous'')"
    using prepare_genuine [OF sample_prepare [of "''r1.previous''" True]] by (simp add: sample_release_def sample_ota_def)
  then show ?thesis
    using ids previous_suffix_loses_release [of "sample_release ''r1''" sample_ota "sample_stage False" "sample_staged ''r1''"
        "\<lparr>pending = [''r1.previous'' \<mapsto> sample_staged ''r1.previous''], apply_request = Some (''r1.previous'' @ [newline])\<rparr>" "sample_staged ''r1.previous''"]
      sample_prepare [of "''r1''" False]
    by (simp add: sample_release_def sample_ota_def sample_stage_def)
qed

section \<open>Dot segments\<close>

text \<open>The prefix check on the path does not look behind the prefix: a path with dot segments passes and, resolved as RFC 3986 tells the
  server to, lies in another repository.\<close>

fun resolve_segments :: "string list \<Rightarrow> string list \<Rightarrow> string list" where
  "resolve_segments done [] = rev done"
| "resolve_segments done (p # ps) =
     (if p = ''..'' then resolve_segments (tl done) ps else if p = ''.'' then resolve_segments done ps else resolve_segments (p # done) ps)"

lemma url_check_accepts_dot_segments:
  "parse_url raw = Some \<lparr>u_scheme = ''https'', u_hostname = ''github.com'', u_path = officialReleasePathPrefix @ ''../../../../x/y/z.tar.gz''\<rparr> \<Longrightarrow>
   host_safe ''github.com'' \<Longrightarrow> validateInitialArtifactURL parse_url host_safe raw = None"
proof -
  have "to_lower ''github.com'' = ''github.com''" by code_simp
  then show "parse_url raw = Some \<lparr>u_scheme = ''https'', u_hostname = ''github.com'', u_path = officialReleasePathPrefix @ ''../../../../x/y/z.tar.gz''\<rparr> \<Longrightarrow>
   host_safe ''github.com'' \<Longrightarrow> ?thesis" by (simp add: validateInitialArtifactURL_def has_prefix_def)
qed

lemma dot_segments_leave_repository:
  "resolve_segments [] [''drko-dev'', ''monitoreoedgeis'', ''releases'', ''download'', ''..'', ''..'', ''..'', ''..'', ''x'', ''y'', ''z.tar.gz''] = [''x'', ''y'', ''z.tar.gz'']"
  by simp

end
