(* ===== verification/CloudSink.thy ===== *)
theory CloudSink
  imports CloudBuffer_Props CloudRate Transport
begin

text \<open>
  \<open>internal/cloudsink/cloudsink.go\<close>: a frame is encoded, queued behind the spooled frames of its camera or sent, and
  spooled when the failure is transient; a goroutine replays the spool. \<open>Route\<close>, \<open>EnqueueANPRCandidate\<close> and the
  iterations of \<open>drainLoop\<close> are composed of the pieces between two accesses to shared state, and the same pieces are the
  steps of the interleaved system in \<open>CloudSink_Sys\<close>. The JPEG encoder and the exchange with the SaaS are arguments.
\<close>

section \<open>Frames and images\<close>

text \<open>The fields of \<open>processing.Frame\<close> the sink reads.\<close>

record pframe =
  pf_CandidateKey :: string
  pf_Timestamp :: gotime
  pf_Seq :: nat
  pf_OutputWidth :: int
  pf_OutputHeight :: int
  pf_Data :: "byte list"
  pf_ProcessingMode :: string
  pf_CandidateReason :: string
  pf_CandidateScore :: f64
  pf_CorrelationID :: string

record ycbcr =
  img_Y :: "byte list"
  img_Cb :: "byte list"
  img_Cr :: "byte list"
  img_YStride :: int
  img_CStride :: int
  img_width :: int
  img_height :: int

text \<open>The products are exact: they are compared with the length of a slice that exists.\<close>

definition YUV420PToImage :: "byte list \<Rightarrow> int \<Rightarrow> int \<Rightarrow> ycbcr option" where
  "YUV420PToImage data width height =
     (if width \<le> 0 \<or> height \<le> 0 \<or> width mod 2 \<noteq> 0 \<or> height mod 2 \<noteq> 0 then None
      else (let ySize = width * height;
                cSize = (width div 2) * (height div 2);
                need = ySize + 2 * cSize
            in if int (length data) \<noteq> need then None
               else Some \<lparr>img_Y = take (nat ySize) data,
                          img_Cb = take (nat cSize) (drop (nat ySize) data),
                          img_Cr = take (nat cSize) (drop (nat (ySize + cSize)) data),
                          img_YStride = width, img_CStride = width div 2, img_width = width, img_height = height\<rparr>))"

section \<open>The exchange with the SaaS\<close>

text \<open>What \<open>httpClient.Do\<close> gives: the deadline passed, another timeout, any other failure (\<open>True\<close> when the caller's context
  was cancelled, which stays visible in the error chain), or an answer. An error of the client is its class and whether
  it wraps \<open>context.Canceled\<close>.\<close>

datatype http_do = DoDeadline | DoNetTimeout | DoFailed bool | DoAnswer int header

type_synonym post_err = "eclass \<times> bool"

definition post_result :: "http_do \<Rightarrow> post_err option" where
  "post_result r =
     (case r of DoDeadline \<Rightarrow> Some (ErrTimeout, False)
      | DoNetTimeout \<Rightarrow> Some (ErrTimeout, False)
      | DoFailed cancelled \<Rightarrow> Some (ErrSaaSUnavailable, cancelled)
      | DoAnswer status h \<Rightarrow> map_option (\<lambda>e. (e, False)) (classifyFrameStatusWithHeader status h))"

definition isRecoverable :: "post_err \<Rightarrow> bool" where
  "isRecoverable e \<longleftrightarrow> fst e = ErrTimeout \<or> fst e = ErrSaaSUnavailable \<or> is_retryable_status_err (fst e)"

text \<open>The calls on the sender: \<open>PostFrame\<close>, \<open>PostFrameWithMetadata\<close>, \<open>PostANPRCandidate\<close>. Which of them it has is found by
  type assertions.\<close>

datatype post =
    PostFrame string nat gotime "byte list"
  | PostFrameWithMetadata string nat gotime "byte list" string string f64 string
  | PostANPRCandidate string "byte list"

record sink_env =
  encode_jpeg :: "ycbcr \<Rightarrow> int \<Rightarrow> byte list option"
  sender_metadata :: bool
  sender_anpr :: bool

definition frame_post :: "sink_env \<Rightarrow> pframe \<Rightarrow> byte list \<Rightarrow> post" where
  "frame_post env f jpeg =
     (if sender_metadata env
      then PostFrameWithMetadata (pf_CandidateKey f) (pf_Seq f) (pf_Timestamp f) jpeg (pf_ProcessingMode f)
             (pf_CandidateReason f) (pf_CandidateScore f) (pf_CorrelationID f)
      else PostFrame (pf_CandidateKey f) (pf_Seq f) (pf_Timestamp f) jpeg)"

section \<open>State of a sink\<close>

record sink_config =
  JPEGQuality :: int
  MaxBytesPerSec :: int
  BurstBytes :: int
  MaxFPS :: rat

record sink_stats =
  framesEncoded :: nat
  uploadAttempted :: nat
  uploadSucceeded :: nat
  uploadFailed :: nat
  jpegBytesGenerated :: nat
  jpegBytesUploaded :: nat
  encodeLatencyNsSum :: nat
  encodeLatencySamples :: nat
  uploadLatencyNsSum :: nat
  uploadLatencySamples :: nat
  throttledFrames :: nat
  throttledBytes :: nat

record cloud_status =
  FramesEncoded :: nat
  FramesUploadAttempted :: nat
  FramesUploadSucceeded :: nat
  FramesUploadFailed :: nat
  JPEGBytesGenerated :: nat
  JPEGBytesUploaded :: nat
  EncodeLatencyAvgMs :: rat
  UploadLatencyAvgMs :: rat
  EffectiveBytesPerSec :: rat
  EffectiveFramesPerSec :: rat
  SinceSeconds :: rat
  ThrottledFrames :: nat
  ThrottledBytes :: nat
  ConfiguredBytesPerSec :: int
  ConfiguredMaxFPS :: rat
  ConfiguredBurstBytes :: int
  StatusJPEGQuality :: int

text \<open>\<open>sk_health\<close> says whether a health sink is attached, \<open>sk_status\<close> what it was given last.\<close>

record cloud_sink =
  sk_name :: string
  sk_cfg :: sink_config
  sk_limiter :: "token_bucket option"
  sk_health :: bool
  sk_status :: "cloud_status option"
  sk_stats :: sink_stats
  sk_rate :: effective_rate
  sk_startedAt :: gotime
  sk_buffer :: "cbuffer option"
  sk_droppedOversize :: nat

definition DefaultJPEGQuality :: int where
  "DefaultJPEGQuality = 85"

definition DefaultConfig :: sink_config where
  "DefaultConfig = \<lparr>JPEGQuality = DefaultJPEGQuality, MaxBytesPerSec = 0, BurstBytes = 0, MaxFPS = 0\<rparr>"

definition drainPollInterval :: duration where
  "drainPollInterval = 2 * second"

definition minDrainBackoff :: duration where
  "minDrainBackoff = 2 * second"

definition maxDrainBackoff :: duration where
  "maxDrainBackoff = 60 * second"

definition effectiveRateWindow :: duration where
  "effectiveRateWindow = 10 * second"

definition no_stats :: sink_stats where
  "no_stats = \<lparr>framesEncoded = 0, uploadAttempted = 0, uploadSucceeded = 0, uploadFailed = 0, jpegBytesGenerated = 0,
     jpegBytesUploaded = 0, encodeLatencyNsSum = 0, encodeLatencySamples = 0, uploadLatencyNsSum = 0,
     uploadLatencySamples = 0, throttledFrames = 0, throttledBytes = 0\<rparr>"

text \<open>\<open>float64(sum) / float64(samples) / float64(time.Millisecond)\<close>, 0 without samples.\<close>

definition avg_ms :: "nat \<Rightarrow> nat \<Rightarrow> rat" where
  "avg_ms ns samples = (if samples > 0 then of_nat ns / of_nat samples / 1000000 else 0)"

definition snapshot :: "gotime \<Rightarrow> cloud_sink \<Rightarrow> cloud_status" where
  "snapshot now s =
     (let st = sk_stats s;
          (bytesPerSec, framesPerSec) = rate (now div second) (sk_rate s)
      in \<lparr>FramesEncoded = framesEncoded st, FramesUploadAttempted = uploadAttempted st,
          FramesUploadSucceeded = uploadSucceeded st, FramesUploadFailed = uploadFailed st,
          JPEGBytesGenerated = jpegBytesGenerated st, JPEGBytesUploaded = jpegBytesUploaded st,
          EncodeLatencyAvgMs = avg_ms (encodeLatencyNsSum st) (encodeLatencySamples st),
          UploadLatencyAvgMs = avg_ms (uploadLatencyNsSum st) (uploadLatencySamples st),
          EffectiveBytesPerSec = bytesPerSec, EffectiveFramesPerSec = framesPerSec,
          SinceSeconds = seconds (time_sub now (sk_startedAt s)),
          ThrottledFrames = throttledFrames st, ThrottledBytes = throttledBytes st,
          ConfiguredBytesPerSec = MaxBytesPerSec (sk_cfg s), ConfiguredMaxFPS = MaxFPS (sk_cfg s),
          ConfiguredBurstBytes = (case sk_limiter s of None \<Rightarrow> 0 | Some l \<Rightarrow> burstBytes l),
          StatusJPEGQuality = JPEGQuality (sk_cfg s)\<rparr>)"

definition publishStatus :: "gotime \<Rightarrow> cloud_sink \<Rightarrow> cloud_sink" where
  "publishStatus now s = (if sk_health s then s\<lparr>sk_status := Some (snapshot now s)\<rparr> else s)"

text \<open>\<open>WithBuffer\<close>: buffering stays off when a bound is not positive or the recovery fails.\<close>

definition WithBuffer ::
  "spool_os \<Rightarrow> (string \<times> spool_file) list \<Rightarrow> int \<Rightarrow> int \<Rightarrow> duration \<Rightarrow> cloud_sink \<Rightarrow> cloud_sink" where
  "WithBuffer os dir maxBytes maxFrames maxAge s =
     (if maxBytes \<le> 0 \<or> maxFrames \<le> 0 then s
      else case OpenBuffer os dir maxBytes maxFrames maxAge of Inl e \<Rightarrow> s | Inr b \<Rightarrow> s\<lparr>sk_buffer := Some b\<rparr>)"

definition WithName :: "string \<Rightarrow> cloud_sink \<Rightarrow> cloud_sink" where
  "WithName name s = s\<lparr>sk_name := name\<rparr>"

text \<open>\<open>New\<close>; the drain goroutine it starts is \<open>init_sys\<close> below.\<close>

definition NewCloudSink :: "gotime \<Rightarrow> sink_config \<Rightarrow> bool \<Rightarrow> (cloud_sink \<Rightarrow> cloud_sink) list \<Rightarrow> cloud_sink" where
  "NewCloudSink now cfg0 health opts =
     (let cfg = (if JPEGQuality cfg0 \<le> 0 \<or> JPEGQuality cfg0 > 100 then cfg0\<lparr>JPEGQuality := DefaultJPEGQuality\<rparr> else cfg0);
          limiter = (if MaxBytesPerSec cfg > 0 \<or> MaxFPS cfg > 0
                     then Some (NewLimiter now (MaxBytesPerSec cfg) (BurstBytes cfg) (MaxFPS cfg)) else None)
      in fold (\<lambda>opt s. opt s) opts
           \<lparr>sk_name = '''', sk_cfg = cfg, sk_limiter = limiter, sk_health = health, sk_status = None, sk_stats = no_stats,
            sk_rate = newEffectiveRate effectiveRateWindow, sk_startedAt = now, sk_buffer = None, sk_droppedOversize = 0\<rparr>)"

definition CloudSink_Name :: "cloud_sink \<Rightarrow> string" where
  "CloudSink_Name s = (if sk_name s \<noteq> '''' then sk_name s else ''cloud'')"

text \<open>\<open>CloudBufferStats\<close>: the statistics of the spool with the oversize counter of the sink; \<open>None\<close> for the zero value when
  buffering is off.\<close>

definition CloudBufferStats :: "cloud_sink \<Rightarrow> (buffer_stats \<times> nat) option" where
  "CloudBufferStats s = map_option (\<lambda>b. (Buffer_Stats b, sk_droppedOversize s)) (sk_buffer s)"

section \<open>Pieces of the operations\<close>

text \<open>\<open>Route\<close> up to the first look at the spool: convert, encode, count.\<close>

datatype route_error =
    RouteBadFrame
  | RouteEncodeFailed
  | RouteThrottled
  | RouteUpload post_err
  | RouteBuffer buffer_error
  | RouteUploadAndBuffer post_err buffer_error
  | RouteNoAnprSender

definition count_encoded :: "nat \<Rightarrow> nat \<Rightarrow> sink_stats \<Rightarrow> sink_stats" where
  "count_encoded bytes latency st =
     st\<lparr>framesEncoded := framesEncoded st + 1, jpegBytesGenerated := jpegBytesGenerated st + bytes,
        encodeLatencyNsSum := encodeLatencyNsSum st + latency, encodeLatencySamples := encodeLatencySamples st + 1\<rparr>"

definition route_encode :: "sink_env \<Rightarrow> gotime \<Rightarrow> nat \<Rightarrow> pframe \<Rightarrow> cloud_sink \<Rightarrow> (route_error + byte list) \<times> cloud_sink" where
  "route_encode env now latency f s =
     (case YUV420PToImage (pf_Data f) (pf_OutputWidth f) (pf_OutputHeight f) of
        None \<Rightarrow> (Inl RouteBadFrame, s)
      | Some img \<Rightarrow>
          (case encode_jpeg env img (JPEGQuality (sk_cfg s)) of
             None \<Rightarrow> (Inl RouteEncodeFailed, s)
           | Some jpeg \<Rightarrow>
               (Inr jpeg, publishStatus now (s\<lparr>sk_stats := count_encoded (length jpeg) latency (sk_stats s)\<rparr>))))"

text \<open>\<open>s.buffer != nil && s.buffer.HasPending(key)\<close>.\<close>

definition sink_pending :: "string \<Rightarrow> cloud_sink \<Rightarrow> bool" where
  "sink_pending k s = (case sk_buffer s of None \<Rightarrow> False | Some b \<Rightarrow> HasPending k b)"

text \<open>\<open>s.buffer.Enqueue\<close>. It is only reached with a buffer; without one nothing happens here.\<close>

definition spool_put :: "spool_os \<Rightarrow> buffered_frame \<Rightarrow> cloud_sink \<Rightarrow> buffer_error option \<times> cloud_sink" where
  "spool_put os bf s =
     (case sk_buffer s of None \<Rightarrow> (None, s)
      | Some b \<Rightarrow> (let (e, b') = Buffer_Enqueue os bf b in (e, s\<lparr>sk_buffer := Some b'\<rparr>)))"

definition KindFrame :: string where
  "KindFrame = ''''"

definition KindAnprCandidate :: string where
  "KindAnprCandidate = ''anpr_candidate''"

definition frame_entry :: "pframe \<Rightarrow> byte list \<Rightarrow> buffered_frame" where
  "frame_entry f jpeg =
     \<lparr>bf_kind = KindFrame, bf_key = pf_CandidateKey f, bf_seq = pf_Seq f, bf_timestamp = pf_Timestamp f, bf_jpeg = jpeg,
      bf_processing_mode = pf_ProcessingMode f, bf_reason = pf_CandidateReason f, bf_score = pf_CandidateScore f,
      bf_correlation = pf_CorrelationID f, bf_anpr = ''''\<rparr>"

definition anpr_entry :: "string \<Rightarrow> gotime \<Rightarrow> string \<Rightarrow> byte list \<Rightarrow> buffered_frame" where
  "anpr_entry key ts meta crop =
     \<lparr>bf_kind = KindAnprCandidate, bf_key = key, bf_seq = 0, bf_timestamp = ts, bf_jpeg = crop, bf_processing_mode = '''',
      bf_reason = '''', bf_score = Fin 0, bf_correlation = '''', bf_anpr = meta\<rparr>"

text \<open>\<open>s.limiter == nil || s.limiter.Allow(n)\<close>.\<close>

definition sink_allow :: "gotime \<Rightarrow> nat \<Rightarrow> cloud_sink \<Rightarrow> bool \<times> cloud_sink" where
  "sink_allow now n s =
     (case sk_limiter s of None \<Rightarrow> (True, s)
      | Some l \<Rightarrow> (let (ok, l') = Allow now (int n) l in (ok, s\<lparr>sk_limiter := Some l'\<rparr>)))"

definition count_throttled :: "nat \<Rightarrow> sink_stats \<Rightarrow> sink_stats" where
  "count_throttled bytes st = st\<lparr>throttledFrames := throttledFrames st + 1, throttledBytes := throttledBytes st + bytes\<rparr>"

definition route_allow :: "gotime \<Rightarrow> byte list \<Rightarrow> cloud_sink \<Rightarrow> bool \<times> cloud_sink" where
  "route_allow now jpeg s =
     (case sink_allow now (length jpeg) s of
        (True, s1) \<Rightarrow> (True, s1)
      | (False, s1) \<Rightarrow> (False, publishStatus now (s1\<lparr>sk_stats := count_throttled (length jpeg) (sk_stats s1)\<rparr>)))"

text \<open>\<open>upload\<close> before and after the request.\<close>

definition upload_begin :: "cloud_sink \<Rightarrow> cloud_sink" where
  "upload_begin s = s\<lparr>sk_stats := (sk_stats s)\<lparr>uploadAttempted := uploadAttempted (sk_stats s) + 1\<rparr>\<rparr>"

definition count_latency :: "nat \<Rightarrow> sink_stats \<Rightarrow> sink_stats" where
  "count_latency latency st =
     st\<lparr>uploadLatencyNsSum := uploadLatencyNsSum st + latency, uploadLatencySamples := uploadLatencySamples st + 1\<rparr>"

definition count_uploaded :: "nat \<Rightarrow> sink_stats \<Rightarrow> sink_stats" where
  "count_uploaded bytes st =
     st\<lparr>uploadSucceeded := uploadSucceeded st + 1, jpegBytesUploaded := jpegBytesUploaded st + bytes\<rparr>"

definition upload_end :: "gotime \<Rightarrow> nat \<Rightarrow> byte list \<Rightarrow> post_err option \<Rightarrow> cloud_sink \<Rightarrow> cloud_sink" where
  "upload_end now latency jpeg res s =
     (let s1 = s\<lparr>sk_stats := count_latency latency (sk_stats s)\<rparr>
      in case res of
           Some e \<Rightarrow> publishStatus now (s1\<lparr>sk_stats := (sk_stats s1)\<lparr>uploadFailed := uploadFailed (sk_stats s1) + 1\<rparr>\<rparr>)
         | None \<Rightarrow> publishStatus now (s1\<lparr>sk_stats := count_uploaded (length jpeg) (sk_stats s1),
                                        sk_rate := rate_record (int (length jpeg)) (now div second) (sk_rate s1)\<rparr>))"

definition upload :: "gotime \<Rightarrow> nat \<Rightarrow> byte list \<Rightarrow> http_do \<Rightarrow> cloud_sink \<Rightarrow> post_err option \<times> cloud_sink" where
  "upload now latency jpeg r s = (post_result r, upload_end now latency jpeg (post_result r) (upload_begin s))"

definition uploadANPR :: "gotime \<Rightarrow> byte list \<Rightarrow> http_do \<Rightarrow> cloud_sink \<Rightarrow> post_err option \<times> cloud_sink" where
  "uploadANPR now crop r s =
     (case post_result r of Some e \<Rightarrow> (Some e, s)
      | None \<Rightarrow> (None, s\<lparr>sk_rate := rate_record (int (length crop)) (now div second) (sk_rate s)\<rparr>))"

section \<open>Route and EnqueueANPRCandidate\<close>

text \<open>\<open>times\<close> are the instants of the encoding, the limiter and the answer, \<open>le\<close> and \<open>lu\<close> the measured latencies, \<open>r\<close> the
  outcome of the request. The second component is the request made, if any.\<close>

definition route_send ::
  "sink_env \<Rightarrow> spool_os \<Rightarrow> gotime \<Rightarrow> gotime \<Rightarrow> nat \<Rightarrow> http_do \<Rightarrow> pframe \<Rightarrow> byte list \<Rightarrow> cloud_sink \<Rightarrow>
   route_error option \<times> post option \<times> cloud_sink" where
  "route_send env os t1 t2 lu r f jpeg s =
     (case route_allow t1 jpeg s of
        (False, s1) \<Rightarrow> (Some RouteThrottled, None, s1)
      | (True, s1) \<Rightarrow>
          (case upload t2 lu jpeg r s1 of
             (None, s2) \<Rightarrow> (None, Some (frame_post env f jpeg), s2)
           | (Some e, s2) \<Rightarrow>
               if sk_buffer s2 \<noteq> None \<and> isRecoverable e
               then (case spool_put os (frame_entry f jpeg) s2 of
                       (None, s3) \<Rightarrow> (None, Some (frame_post env f jpeg), s3)
                     | (Some be, s3) \<Rightarrow> (Some (RouteUploadAndBuffer e be), Some (frame_post env f jpeg), s3))
               else (Some (RouteUpload e), Some (frame_post env f jpeg), s2)))"

definition Route ::
  "sink_env \<Rightarrow> spool_os \<Rightarrow> gotime \<Rightarrow> gotime \<Rightarrow> gotime \<Rightarrow> nat \<Rightarrow> nat \<Rightarrow> http_do \<Rightarrow> pframe \<Rightarrow> cloud_sink \<Rightarrow>
   route_error option \<times> post option \<times> cloud_sink" where
  "Route env os t0 t1 t2 le lu r f s =
     (case route_encode env t0 le f s of
        (Inl e, s1) \<Rightarrow> (Some e, None, s1)
      | (Inr jpeg, s1) \<Rightarrow>
          if sink_pending (pf_CandidateKey f) s1
          then (case spool_put os (frame_entry f jpeg) s1 of (be, s2) \<Rightarrow> (map_option RouteBuffer be, None, s2))
          else route_send env os t1 t2 lu r f jpeg s1)"

definition anpr_send ::
  "spool_os \<Rightarrow> gotime \<Rightarrow> gotime \<Rightarrow> http_do \<Rightarrow> string \<Rightarrow> gotime \<Rightarrow> string \<Rightarrow> byte list \<Rightarrow> cloud_sink \<Rightarrow>
   route_error option \<times> post option \<times> cloud_sink" where
  "anpr_send os t1 t2 r key ts meta crop s =
     (case sink_allow t1 (length crop) s of
        (False, s1) \<Rightarrow> (Some RouteThrottled, None, s1)
      | (True, s1) \<Rightarrow>
          (case uploadANPR t2 crop r s1 of
             (None, s2) \<Rightarrow> (None, Some (PostANPRCandidate meta crop), s2)
           | (Some e, s2) \<Rightarrow>
               if sk_buffer s2 \<noteq> None \<and> isRecoverable e
               then (case spool_put os (anpr_entry key ts meta crop) s2 of
                       (None, s3) \<Rightarrow> (None, Some (PostANPRCandidate meta crop), s3)
                     | (Some be, s3) \<Rightarrow> (Some (RouteUploadAndBuffer e be), Some (PostANPRCandidate meta crop), s3))
               else (Some (RouteUpload e), Some (PostANPRCandidate meta crop), s2)))"

definition EnqueueANPRCandidate ::
  "sink_env \<Rightarrow> spool_os \<Rightarrow> gotime \<Rightarrow> gotime \<Rightarrow> http_do \<Rightarrow> string \<Rightarrow> gotime \<Rightarrow> string \<Rightarrow> byte list \<Rightarrow> cloud_sink \<Rightarrow>
   route_error option \<times> post option \<times> cloud_sink" where
  "EnqueueANPRCandidate env os t1 t2 r key ts meta crop s =
     (if \<not> sender_anpr env then (Some RouteNoAnprSender, None, s)
      else if sink_pending key s
      then (case spool_put os (anpr_entry key ts meta crop) s of (be, s1) \<Rightarrow> (map_option RouteBuffer be, None, s1))
      else anpr_send os t1 t2 r key ts meta crop s)"

section \<open>The drain loop\<close>

text \<open>How long the loop sleeps, and the backoff after a failed replay that keeps its frame.\<close>

definition drain_wait :: "duration \<Rightarrow> duration" where
  "drain_wait bo = (if bo > 0 then bo else drainPollInterval)"

definition next_backoff :: "eclass \<Rightarrow> duration \<Rightarrow> duration" where
  "next_backoff e bo =
     (case e of
        RateLimitError d \<Rightarrow> if d > 0 then (if d > maxDrainBackoff then maxDrainBackoff else d)
                            else if bo = 0 then minDrainBackoff
                            else if bo * 2 > maxDrainBackoff then maxDrainBackoff else bo * 2
      | _ \<Rightarrow> if bo = 0 then minDrainBackoff
             else if bo * 2 > maxDrainBackoff then maxDrainBackoff else bo * 2)"

text \<open>What the loop does with a peeked frame: \<open>frame_post\<close> of the frame rebuilt from the spool, or the candidate.\<close>

definition replay_frame :: "buffered_frame \<Rightarrow> pframe" where
  "replay_frame bf =
     \<lparr>pf_CandidateKey = bf_key bf, pf_Timestamp = bf_timestamp bf, pf_Seq = bf_seq bf, pf_OutputWidth = 0,
      pf_OutputHeight = 0, pf_Data = [], pf_ProcessingMode = bf_processing_mode bf, pf_CandidateReason = bf_reason bf,
      pf_CandidateScore = bf_score bf, pf_CorrelationID = bf_correlation bf\<rparr>"

definition replay_post :: "sink_env \<Rightarrow> buffered_frame \<Rightarrow> post option" where
  "replay_post env bf =
     (if bf_kind bf = KindAnprCandidate
      then if sender_anpr env then Some (PostANPRCandidate (bf_anpr bf) (bf_jpeg bf)) else None
      else Some (frame_post env (replay_frame bf) (bf_jpeg bf)))"

text \<open>The outcome of the replay request; a sender without candidates gives an unclassified error. \<open>replay_begin\<close> is the
  part before the answer.\<close>

definition replay_begin :: "buffered_frame \<Rightarrow> cloud_sink \<Rightarrow> cloud_sink" where
  "replay_begin bf s = (if bf_kind bf = KindAnprCandidate then s else upload_begin s)"

definition replay_end ::
  "sink_env \<Rightarrow> gotime \<Rightarrow> nat \<Rightarrow> http_do \<Rightarrow> buffered_frame \<Rightarrow> cloud_sink \<Rightarrow> post_err option \<times> cloud_sink" where
  "replay_end env now latency r bf s =
     (if bf_kind bf = KindAnprCandidate
      then if sender_anpr env then uploadANPR now (bf_jpeg bf) r s else (Some (PlainError, False), s)
      else (post_result r, upload_end now latency (bf_jpeg bf) (post_result r) s))"

datatype drain_pc = DSleep | DWait buffered_frame | DPost buffered_frame | DStopped

definition spool_advance :: "spool_os \<Rightarrow> cloud_sink \<Rightarrow> cloud_sink" where
  "spool_advance os s = s\<lparr>sk_buffer := map_option (Advance os) (sk_buffer s)\<rparr>"

definition spool_discard :: "spool_os \<Rightarrow> cloud_sink \<Rightarrow> cloud_sink" where
  "spool_discard os s = s\<lparr>sk_buffer := map_option (Discard os) (sk_buffer s)\<rparr>"

text \<open>The \<open>switch\<close> on the outcome: next program point, backoff and sink.\<close>

definition drain_settle ::
  "spool_os \<Rightarrow> post_err option \<Rightarrow> duration \<Rightarrow> cloud_sink \<Rightarrow> drain_pc \<times> duration \<times> cloud_sink" where
  "drain_settle os res bo s =
     (case res of
        None \<Rightarrow> (DSleep, 0, spool_advance os s)
      | Some e \<Rightarrow>
          if snd e then (DStopped, bo, s)
          else if fst e = ErrUnauthorized then (DSleep, maxDrainBackoff, s)
          else if \<not> isRecoverable e then (DSleep, 0, spool_discard os s)
          else (DSleep, next_backoff (fst e) bo, s))"

text \<open>The wake-up: peek (which drops stale and unreadable frames), then wait for the limiter when there is one.
  \<open>Wait\<close> registers itself as a waiter unless the limiter is off.\<close>

definition drain_wake :: "spool_os \<Rightarrow> gotime \<Rightarrow> duration \<Rightarrow> cloud_sink \<Rightarrow> drain_pc \<times> duration \<times> cloud_sink" where
  "drain_wake os now bo s =
     (case sk_buffer s of None \<Rightarrow> (DSleep, bo, s)
      | Some b \<Rightarrow>
          (case Buffer_Peek os now b of
             (None, b') \<Rightarrow> (DSleep, 0, s\<lparr>sk_buffer := Some b'\<rparr>)
           | (Some bf, b') \<Rightarrow>
               (let s1 = s\<lparr>sk_buffer := Some b'\<rparr>
                in case sk_limiter s1 of
                     None \<Rightarrow> (DPost bf, bo, replay_begin bf s1)
                   | Some l \<Rightarrow>
                       if \<not> limiter_enabled l then (DPost bf, bo, replay_begin bf s1)
                       else (DWait bf, bo, s1\<lparr>sk_limiter := Some (l\<lparr>waiters := waiters l + 1\<rparr>)\<rparr>))))"

text \<open>One turn of \<open>Wait\<close>; on every return the waiter is deregistered.\<close>

definition drain_turn ::
  "spool_os \<Rightarrow> gotime \<Rightarrow> buffered_frame \<Rightarrow> duration \<Rightarrow> cloud_sink \<Rightarrow> drain_pc \<times> duration \<times> cloud_sink" where
  "drain_turn os now bf bo s =
     (case sk_limiter s of None \<Rightarrow> (DPost bf, bo, replay_begin bf s)
      | Some l \<Rightarrow>
          (case wait_once now (int (length (bf_jpeg bf))) l of
             (WaitSleep d, l') \<Rightarrow> (DWait bf, bo, s\<lparr>sk_limiter := Some l'\<rparr>)
           | (WaitDone, l') \<Rightarrow>
               (DPost bf, bo, replay_begin bf (s\<lparr>sk_limiter := Some (l'\<lparr>waiters := waiters l' - 1\<rparr>)\<rparr>))
           | (WaitTooBig, l') \<Rightarrow>
               (DSleep, 0, spool_discard os (s\<lparr>sk_limiter := Some (l'\<lparr>waiters := waiters l' - 1\<rparr>),
                                              sk_droppedOversize := sk_droppedOversize s + 1\<rparr>))))"

text \<open>Cancellation inside \<open>Wait\<close>.\<close>

definition drain_cancel :: "drain_pc \<Rightarrow> cloud_sink \<Rightarrow> cloud_sink" where
  "drain_cancel pc s =
     (case pc of DWait bf \<Rightarrow> s\<lparr>sk_limiter := map_option (\<lambda>l. l\<lparr>waiters := waiters l - 1\<rparr>) (sk_limiter s)\<rparr> | _ \<Rightarrow> s)"

end
