(* ===== verification/CloudSink_Sys.thy ===== *)
theory CloudSink_Sys
  imports CloudSink "HOL-Library.Sublist"
begin

text \<open>
  The sink as a system of goroutines: the router's worker calls \<open>Route\<close> for one frame after the other, any number of
  calls of \<open>EnqueueANPRCandidate\<close> run beside it, and the drain loop replays the spool. Each step is one piece of
  \<open>CloudSink\<close>, so every interleaving between two accesses to the spool, the limiter and the network is covered. The
  system keeps two histories: the requests for the encoded frames in the order of the \<open>Route\<close> calls, and the requests the
  SaaS confirmed.
\<close>

section \<open>Steps\<close>

datatype route_pc =
    RIdle
  | RQueue pframe "byte list"
  | RLimit pframe "byte list"
  | RPost pframe "byte list"
  | RRetry pframe "byte list"

datatype anpr_pc =
    AQueue string gotime string "byte list"
  | ALimit string gotime string "byte list"
  | APost string gotime string "byte list"
  | ADone

record sink_sys =
  ss_sink :: cloud_sink
  ss_route :: route_pc
  ss_anpr :: "anpr_pc list"
  ss_drain :: drain_pc
  ss_backoff :: duration
  ss_cancelled :: bool
  ss_routed :: "post list"
  ss_confirmed :: "post list"

definition init_sys :: "cloud_sink \<Rightarrow> sink_sys" where
  "init_sys s = \<lparr>ss_sink = s, ss_route = RIdle, ss_anpr = [], ss_drain = (if sk_buffer s = None then DStopped else DSleep),
     ss_backoff = 0, ss_cancelled = False, ss_routed = [], ss_confirmed = []\<rparr>"

datatype sink_event =
    EvRoute gotime nat pframe
  | EvRouteQueue spool_os
  | EvRouteAllow gotime
  | EvRouteAnswer gotime nat http_do
  | EvAnpr string gotime string "byte list"
  | EvAnprQueue nat spool_os
  | EvAnprAllow nat gotime
  | EvAnprAnswer nat gotime http_do
  | EvDrainWake spool_os gotime
  | EvDrainTurn spool_os gotime
  | EvDrainAnswer spool_os gotime nat http_do
  | EvClose
  | EvDrainStop

text \<open>The router's worker.\<close>

fun route_step :: "sink_env \<Rightarrow> sink_event \<Rightarrow> sink_sys \<Rightarrow> sink_sys option" where
  "route_step env (EvRoute now le f) y =
     (if ss_route y \<noteq> RIdle then None
      else case route_encode env now le f (ss_sink y) of
             (Inl e, s) \<Rightarrow> Some (y\<lparr>ss_sink := s\<rparr>)
           | (Inr jpeg, s) \<Rightarrow>
               Some (y\<lparr>ss_sink := s, ss_routed := ss_routed y @ [frame_post env f jpeg],
                       ss_route := (if sink_pending (pf_CandidateKey f) s then RQueue f jpeg else RLimit f jpeg)\<rparr>))"
| "route_step env (EvRouteQueue os) y =
     (case ss_route y of
        RQueue f jpeg \<Rightarrow> Some (y\<lparr>ss_sink := snd (spool_put os (frame_entry f jpeg) (ss_sink y)), ss_route := RIdle\<rparr>)
      | RRetry f jpeg \<Rightarrow> Some (y\<lparr>ss_sink := snd (spool_put os (frame_entry f jpeg) (ss_sink y)), ss_route := RIdle\<rparr>)
      | _ \<Rightarrow> None)"
| "route_step env (EvRouteAllow now) y =
     (case ss_route y of
        RLimit f jpeg \<Rightarrow>
          (case route_allow now jpeg (ss_sink y) of
             (False, s) \<Rightarrow> Some (y\<lparr>ss_sink := s, ss_route := RIdle\<rparr>)
           | (True, s) \<Rightarrow> Some (y\<lparr>ss_sink := upload_begin s, ss_route := RPost f jpeg\<rparr>))
      | _ \<Rightarrow> None)"
| "route_step env (EvRouteAnswer now lu r) y =
     (case ss_route y of
        RPost f jpeg \<Rightarrow>
          (let s = upload_end now lu jpeg (post_result r) (ss_sink y)
           in case post_result r of
                None \<Rightarrow> Some (y\<lparr>ss_sink := s, ss_route := RIdle, ss_confirmed := ss_confirmed y @ [frame_post env f jpeg]\<rparr>)
              | Some e \<Rightarrow> Some (y\<lparr>ss_sink := s,
                    ss_route := (if sk_buffer s \<noteq> None \<and> isRecoverable e then RRetry f jpeg else RIdle)\<rparr>))
      | _ \<Rightarrow> None)"
| "route_step env _ y = None"

text \<open>The calls of \<open>EnqueueANPRCandidate\<close>, by the order in which they began.\<close>

definition anpr_at :: "nat \<Rightarrow> sink_sys \<Rightarrow> anpr_pc" where
  "anpr_at i y = (if i < length (ss_anpr y) then ss_anpr y ! i else ADone)"

fun candidate_step :: "sink_env \<Rightarrow> sink_event \<Rightarrow> sink_sys \<Rightarrow> sink_sys option" where
  "candidate_step env (EvAnpr key ts meta crop) y =
     (if \<not> sender_anpr env then None
      else Some (y\<lparr>ss_anpr := ss_anpr y @
             [if sink_pending key (ss_sink y) then AQueue key ts meta crop else ALimit key ts meta crop]\<rparr>))"
| "candidate_step env (EvAnprQueue i os) y =
     (case anpr_at i y of
        AQueue key ts meta crop \<Rightarrow>
          Some (y\<lparr>ss_sink := snd (spool_put os (anpr_entry key ts meta crop) (ss_sink y)), ss_anpr := (ss_anpr y)[i := ADone]\<rparr>)
      | _ \<Rightarrow> None)"
| "candidate_step env (EvAnprAllow i now) y =
     (case anpr_at i y of
        ALimit key ts meta crop \<Rightarrow>
          (let (ok, s) = sink_allow now (length crop) (ss_sink y)
           in Some (y\<lparr>ss_sink := s, ss_anpr := (ss_anpr y)[i := (if ok then APost key ts meta crop else ADone)]\<rparr>))
      | _ \<Rightarrow> None)"
| "candidate_step env (EvAnprAnswer i now r) y =
     (case anpr_at i y of
        APost key ts meta crop \<Rightarrow>
          (case uploadANPR now crop r (ss_sink y) of
             (None, s) \<Rightarrow> Some (y\<lparr>ss_sink := s, ss_anpr := (ss_anpr y)[i := ADone],
                                 ss_confirmed := ss_confirmed y @ [PostANPRCandidate meta crop]\<rparr>)
           | (Some e, s) \<Rightarrow> Some (y\<lparr>ss_sink := s, ss_anpr := (ss_anpr y)[i :=
                                 (if sk_buffer s \<noteq> None \<and> isRecoverable e then AQueue key ts meta crop else ADone)]\<rparr>))
      | _ \<Rightarrow> None)"
| "candidate_step env _ y = None"

text \<open>The drain loop. A turn of \<open>Wait\<close> looks at the context first.\<close>

fun drain_step :: "sink_env \<Rightarrow> sink_event \<Rightarrow> sink_sys \<Rightarrow> sink_sys option" where
  "drain_step env (EvDrainWake os now) y =
     (if ss_drain y \<noteq> DSleep then None
      else (let (pc, bo, s) = drain_wake os now (ss_backoff y) (ss_sink y)
            in Some (y\<lparr>ss_sink := s, ss_drain := pc, ss_backoff := bo\<rparr>)))"
| "drain_step env (EvDrainTurn os now) y =
     (case ss_drain y of
        DWait bf \<Rightarrow>
          if ss_cancelled y then None
          else (let (pc, bo, s) = drain_turn os now bf (ss_backoff y) (ss_sink y)
                in Some (y\<lparr>ss_sink := s, ss_drain := pc, ss_backoff := bo\<rparr>))
      | _ \<Rightarrow> None)"
| "drain_step env (EvDrainAnswer os now lu r) y =
     (case ss_drain y of
        DPost bf \<Rightarrow>
          (let (res, s1) = replay_end env now lu r bf (ss_sink y);
               (pc, bo, s2) = drain_settle os res (ss_backoff y) s1
           in Some (y\<lparr>ss_sink := s2, ss_drain := pc, ss_backoff := bo,
                      ss_confirmed := ss_confirmed y @ (if res = None then (case replay_post env bf of None \<Rightarrow> [] | Some p \<Rightarrow> [p]) else [])\<rparr>))
      | _ \<Rightarrow> None)"
| "drain_step env EvClose y = Some (y\<lparr>ss_cancelled := True\<rparr>)"
| "drain_step env EvDrainStop y =
     (if ss_cancelled y \<and> (case ss_drain y of DSleep \<Rightarrow> True | DWait _ \<Rightarrow> True | _ \<Rightarrow> False)
      then Some (y\<lparr>ss_sink := drain_cancel (ss_drain y) (ss_sink y), ss_drain := DStopped\<rparr>) else None)"
| "drain_step env _ y = None"

fun sink_step :: "sink_env \<Rightarrow> sink_event \<Rightarrow> sink_sys \<Rightarrow> sink_sys option" where
  "sink_step env (EvRoute now le f) y = route_step env (EvRoute now le f) y"
| "sink_step env (EvRouteQueue os) y = route_step env (EvRouteQueue os) y"
| "sink_step env (EvRouteAllow now) y = route_step env (EvRouteAllow now) y"
| "sink_step env (EvRouteAnswer now lu r) y = route_step env (EvRouteAnswer now lu r) y"
| "sink_step env (EvAnpr key ts meta crop) y = candidate_step env (EvAnpr key ts meta crop) y"
| "sink_step env (EvAnprQueue i os) y = candidate_step env (EvAnprQueue i os) y"
| "sink_step env (EvAnprAllow i now) y = candidate_step env (EvAnprAllow i now) y"
| "sink_step env (EvAnprAnswer i now r) y = candidate_step env (EvAnprAnswer i now r) y"
| "sink_step env e y = drain_step env e y"

text \<open>The environment of an event: removes, reads and stats of the spool succeed where the drain relies on them, and the
  64-bit file counter is not exhausted.\<close>

definition counter_room :: "cloud_sink \<Rightarrow> bool" where
  "counter_room s \<longleftrightarrow> (\<forall>b. sk_buffer s = Some b \<longrightarrow> cb_counter b + 1 < 2 ^ 64)"

fun event_ok :: "sink_event \<Rightarrow> sink_sys \<Rightarrow> bool" where
  "event_ok (EvRouteQueue os) y = counter_room (ss_sink y)"
| "event_ok (EvAnprQueue i os) y = counter_room (ss_sink y)"
| "event_ok (EvDrainWake os now) y = os_ok os"
| "event_ok (EvDrainTurn os now) y = os_ok os"
| "event_ok (EvDrainAnswer os now lu r) y = os_ok os"
| "event_ok _ y = True"

inductive sink_run :: "sink_env \<Rightarrow> sink_sys \<Rightarrow> sink_sys \<Rightarrow> bool" for env :: sink_env and y0 :: sink_sys where
  Start: "sink_run env y0 y0"
| Step: "sink_run env y0 y \<Longrightarrow> event_ok e y \<Longrightarrow> sink_step env e y = Some y' \<Longrightarrow> sink_run env y0 y'"

end
