(* ===== verification/CloudSink_Props.thy ===== *)
theory CloudSink_Props
  imports CloudSink_Sys
begin

text \<open>
  Properties of the sink: under every interleaving the frames of a camera are confirmed in the order in which they were
  routed and none twice, the replay repeats the request a direct upload makes, waiting times are bounded, and a spool in
  front of a SaaS that answers drains.
\<close>

section \<open>What the pieces do to the spool\<close>

named_theorems sink_frame

lemma publish_buffer [sink_frame]: "sk_buffer (publishStatus now s) = sk_buffer s"
  by (simp add: publishStatus_def)

lemma encode_buffer [sink_frame]: "sk_buffer (snd (route_encode env now le f s)) = sk_buffer s"
  by (simp add: route_encode_def publish_buffer split: option.split)

lemma allow_buffer [sink_frame]: "sk_buffer (snd (sink_allow now n s)) = sk_buffer s"
  by (simp add: sink_allow_def split: option.split prod.split)

lemma route_allow_buffer [sink_frame]: "sk_buffer (snd (route_allow now jpeg s)) = sk_buffer s"
  using allow_buffer [of now "length jpeg" s] by (auto simp: route_allow_def publish_buffer split: prod.split bool.split)

lemma begin_buffer [sink_frame]: "sk_buffer (upload_begin s) = sk_buffer s"
  by (simp add: upload_begin_def)

lemma end_buffer [sink_frame]: "sk_buffer (upload_end now lu jpeg res s) = sk_buffer s"
  by (simp add: upload_end_def Let_def publish_buffer split: option.split)

lemma anpr_buffer [sink_frame]: "sk_buffer (snd (uploadANPR now crop r s)) = sk_buffer s"
  by (simp add: uploadANPR_def split: option.split)

lemma replay_begin_buffer [sink_frame]: "sk_buffer (replay_begin bf s) = sk_buffer s"
  by (simp add: replay_begin_def begin_buffer)

lemma replay_end_buffer [sink_frame]: "sk_buffer (snd (replay_end env now lu r bf s)) = sk_buffer s"
  by (simp add: replay_end_def end_buffer anpr_buffer)

lemma cancel_buffer [sink_frame]: "sk_buffer (drain_cancel pc s) = sk_buffer s"
  by (simp add: drain_cancel_def split: drain_pc.split)

section \<open>Requests of a camera\<close>

fun post_key :: "post \<Rightarrow> string option" where
  "post_key (PostFrame k seq ts jpeg) = Some k"
| "post_key (PostFrameWithMetadata k seq ts jpeg mode reason score corr) = Some k"
| "post_key (PostANPRCandidate meta crop) = None"

definition of_camera :: "string \<Rightarrow> post list \<Rightarrow> post list" where
  "of_camera k ps = filter (\<lambda>p. post_key p = Some k) ps"

definition entry_posts :: "sink_env \<Rightarrow> spool_file option \<Rightarrow> post list" where
  "entry_posts env x =
     (case x of Some (FrameFile bf) \<Rightarrow> (case replay_post env bf of None \<Rightarrow> [] | Some p \<Rightarrow> [p]) | _ \<Rightarrow> [])"

definition spool_posts :: "sink_env \<Rightarrow> cbuffer option \<Rightarrow> post list" where
  "spool_posts env ob = (case ob of None \<Rightarrow> [] | Some b \<Rightarrow> concat (map (entry_posts env) (spooled b)))"

definition route_posts :: "sink_env \<Rightarrow> route_pc \<Rightarrow> post list" where
  "route_posts env pc =
     (case pc of RIdle \<Rightarrow> [] | RQueue f jpeg \<Rightarrow> [frame_post env f jpeg] | RLimit f jpeg \<Rightarrow> [frame_post env f jpeg]
      | RPost f jpeg \<Rightarrow> [frame_post env f jpeg] | RRetry f jpeg \<Rightarrow> [frame_post env f jpeg])"

lemma of_camera_append [simp]: "of_camera k (xs @ ys) = of_camera k xs @ of_camera k ys"
  by (simp add: of_camera_def)

lemma of_camera_nil [simp]: "of_camera k [] = []"
  by (simp add: of_camera_def)

lemma post_key_frame [simp]: "post_key (frame_post env f jpeg) = Some (pf_CandidateKey f)"
  by (simp add: frame_post_def)

text \<open>A replayed frame makes the request it would have made directly.\<close>

lemma replay_frame_entry [simp]: "replay_post env (frame_entry f jpeg) = Some (frame_post env f jpeg)"
  by (simp add: replay_post_def frame_entry_def KindFrame_def KindAnprCandidate_def frame_post_def replay_frame_def)

lemma entry_posts_frame [simp]: "entry_posts env (Some (FrameFile (frame_entry f jpeg))) = [frame_post env f jpeg]"
  by (simp add: entry_posts_def)

lemma entry_posts_anpr [simp]: "of_camera k (entry_posts env (Some (FrameFile (anpr_entry key ts meta crop)))) = []"
  by (simp add: entry_posts_def replay_post_def anpr_entry_def of_camera_def)

lemma entry_posts_key: "p \<in> set (entry_posts env (Some (FrameFile bf))) \<Longrightarrow> post_key p = None \<or> post_key p = Some (bf_key bf)"
  by (auto simp: entry_posts_def replay_post_def replay_frame_def split: if_splits)

definition buffer_inv :: "cbuffer option \<Rightarrow> bool" where
  "buffer_inv ob \<longleftrightarrow> (case ob of None \<Rightarrow> True | Some b \<Rightarrow> cbinv b)"

lemma not_pending_no_posts:
  assumes "buffer_inv (sk_buffer s)" "\<not> sink_pending k s"
  shows "of_camera k (spool_posts env (sk_buffer s)) = []"
proof (cases "sk_buffer s")
  case None
  then show ?thesis by (simp add: spool_posts_def)
next
  case (Some b)
  have "post_key p \<noteq> Some k" if "e \<in> set (cb_queue b)" "p \<in> set (entry_posts env (map_of (cb_disk b) (qe_path e)))" for e p
  proof -
    from assms(1) Some that(1) obtain bf where "map_of (cb_disk b) (qe_path e) = Some (FrameFile bf)" "qe_key e = bf_key bf"
      by (auto simp: buffer_inv_def cbinv_def entry_ok_def)
    moreover have "qe_key e \<noteq> k" using assms(2) Some that(1) by (auto simp: sink_pending_def HasPending_def list_ex_iff)
    ultimately show ?thesis using entry_posts_key [of p env bf] that(2) by auto
  qed
  then show ?thesis using Some by (auto simp: spool_posts_def of_camera_def filter_empty_conv spooled_def)
qed

lemma spool_put_posts:
  assumes "buffer_inv (sk_buffer s)" "counter_room s" "sk_buffer s \<noteq> None"
  shows "buffer_inv (sk_buffer (snd (spool_put os bf s))) \<and>
    spool_posts env (sk_buffer (snd (spool_put os bf s))) = spool_posts env (sk_buffer s) @
      (if fst (spool_put os bf s) = None then entry_posts env (Some (FrameFile bf)) else [])"
proof -
  obtain b where b: "sk_buffer s = Some b" using assms(3) by blast
  have "cbinv b" "cb_counter b + 1 < 2 ^ 64" using assms b by (auto simp: buffer_inv_def counter_room_def)
  from Enqueue_ok [OF this, of os bf] show ?thesis
    using b by (auto simp: spool_put_def buffer_inv_def spool_posts_def split: prod.split)
qed

lemma spool_put_none: "sk_buffer s = None \<Longrightarrow> spool_put os bf s = (None, s)"
  by (simp add: spool_put_def)

text \<open>The frame the drain loop holds is the front of the spool.\<close>

definition at_front :: "buffered_frame \<Rightarrow> cbuffer option \<Rightarrow> bool" where
  "at_front bf ob \<longleftrightarrow> (\<exists>b rest. ob = Some b \<and> spooled b = Some (FrameFile bf) # rest)"

lemma at_front_put:
  "buffer_inv (sk_buffer s) \<Longrightarrow> counter_room s \<Longrightarrow> at_front bf (sk_buffer s) \<Longrightarrow> at_front bf (sk_buffer (snd (spool_put os x s)))"
  using Enqueue_ok [of "the (sk_buffer s)" os x]
  by (auto simp: at_front_def buffer_inv_def counter_room_def spool_put_def split: prod.split)

lemma take_front:
  assumes "buffer_inv (sk_buffer s)" "os_ok os" "at_front bf (sk_buffer s)"
  shows "buffer_inv (sk_buffer (spool_advance os s)) \<and> buffer_inv (sk_buffer (spool_discard os s)) \<and>
    spool_posts env (sk_buffer s) = entry_posts env (Some (FrameFile bf)) @ spool_posts env (sk_buffer (spool_advance os s)) \<and>
    spool_posts env (sk_buffer s) = entry_posts env (Some (FrameFile bf)) @ spool_posts env (sk_buffer (spool_discard os s))"
proof -
  obtain b rest where b: "sk_buffer s = Some b" "spooled b = Some (FrameFile bf) # rest"
    using assms(3) by (auto simp: at_front_def)
  have inv: "cbinv b" using assms(1) b by (simp add: buffer_inv_def)
  have "cb_queue b \<noteq> []" using b(2) by (auto simp: spooled_def)
  then have "cbinv (Advance os b)" "spooled (Advance os b) = rest" "cbinv (Discard os b)" "spooled (Discard os b) = rest"
    using Advance_shrunk [OF inv assms(2)] b(2) by (auto simp: shrunk_def)
  then show ?thesis using b by (simp add: spool_advance_def spool_discard_def buffer_inv_def spool_posts_def)
qed

lemma wake_posts:
  assumes "buffer_inv (sk_buffer s)" "os_ok os" "drain_wake os now bo s = (pc, bo', s')"
  shows "buffer_inv (sk_buffer s') \<and> (\<exists>gone. spool_posts env (sk_buffer s) = gone @ spool_posts env (sk_buffer s')) \<and>
    (\<forall>bf. pc = DWait bf \<or> pc = DPost bf \<longrightarrow> at_front bf (sk_buffer s'))"
proof (cases "sk_buffer s")
  case None
  then show ?thesis using assms by (auto simp: drain_wake_def)
next
  case (Some b)
  have inv: "cbinv b" using assms(1) Some by (simp add: buffer_inv_def)
  let ?b = "snd (Buffer_Peek os now b)"
  have s': "sk_buffer s' = Some ?b"
    using assms(3) Some by (auto simp: drain_wake_def Let_def replay_begin_buffer split: prod.splits option.splits if_splits)
  obtain n where n: "cbinv ?b" "spooled ?b = drop n (spooled b)" using Peek_ok [OF inv assms(2)] by (auto simp: shrunk_def)
  have "spool_posts env (sk_buffer s) = concat (map (entry_posts env) (take n (spooled b))) @ spool_posts env (sk_buffer s')"
    using Some s' n(2) by (simp add: spool_posts_def flip: concat_append map_append)
  moreover have "at_front bf (sk_buffer s')" if "pc = DWait bf \<or> pc = DPost bf" for bf
  proof -
    have "fst (Buffer_Peek os now b) = Some bf"
      using assms(3) Some that by (auto simp: drain_wake_def Let_def split: prod.splits option.splits if_splits)
    from Peek_front [OF inv assms(2) this] show ?thesis using s' by (auto simp: at_front_def)
  qed
  ultimately show ?thesis using n(1) s' by (auto simp: buffer_inv_def)
qed

section \<open>The invariant\<close>

text \<open>While a frame is on its way past an empty lane, no frame of its camera is in the spool.\<close>

definition route_clear :: "sink_env \<Rightarrow> route_pc \<Rightarrow> cbuffer option \<Rightarrow> bool" where
  "route_clear env pc ob \<longleftrightarrow>
     (case pc of RIdle \<Rightarrow> True | RQueue f jpeg \<Rightarrow> ob \<noteq> None
      | RLimit f jpeg \<Rightarrow> of_camera (pf_CandidateKey f) (spool_posts env ob) = []
      | RPost f jpeg \<Rightarrow> of_camera (pf_CandidateKey f) (spool_posts env ob) = []
      | RRetry f jpeg \<Rightarrow> of_camera (pf_CandidateKey f) (spool_posts env ob) = [] \<and> ob \<noteq> None)"

definition drain_front :: "drain_pc \<Rightarrow> cbuffer option \<Rightarrow> bool" where
  "drain_front pc ob \<longleftrightarrow> (case pc of DWait bf \<Rightarrow> at_front bf ob | DPost bf \<Rightarrow> at_front bf ob | _ \<Rightarrow> True)"

text \<open>Confirmed, spooled and in flight, in this order.\<close>

definition lane :: "sink_env \<Rightarrow> sink_sys \<Rightarrow> string \<Rightarrow> post list" where
  "lane env y k = of_camera k (ss_confirmed y) @ of_camera k (spool_posts env (sk_buffer (ss_sink y))) @
     of_camera k (route_posts env (ss_route y))"

text \<open>The lane is a part of the frames \<open>pre\<close> that were in the spool at the start, followed by the routed ones.\<close>

definition sink_inv :: "sink_env \<Rightarrow> post list \<Rightarrow> sink_sys \<Rightarrow> bool" where
  "sink_inv env pre y \<longleftrightarrow> buffer_inv (sk_buffer (ss_sink y)) \<and> route_clear env (ss_route y) (sk_buffer (ss_sink y)) \<and>
     drain_front (ss_drain y) (sk_buffer (ss_sink y)) \<and> (\<forall>k. subseq (lane env y k) (of_camera k (pre @ ss_routed y)))"

lemma subseq_drop_mid: "subseq (a @ c) (a @ b @ c)"
  by (intro list_emb_append_mono) (simp_all add: list_emb_append2)

lemma sink_inv_shrink:
  assumes "sink_inv env pre y" "ss_routed y' = ss_routed y" "\<And>k. subseq (lane env y' k) (lane env y k)"
    "buffer_inv (sk_buffer (ss_sink y'))" "route_clear env (ss_route y') (sk_buffer (ss_sink y'))"
    "drain_front (ss_drain y') (sk_buffer (ss_sink y'))"
  shows "sink_inv env pre y'"
proof -
  have "subseq (lane env y' k) (of_camera k (pre @ ss_routed y'))" for k
    using assms(1,2) subseq_order.trans [OF assms(3)] unfolding sink_inv_def by metis
  then show ?thesis using assms(4-6) unfolding sink_inv_def by blast
qed

lemma route_clear_shrink:
  "route_clear env pc ob \<Longrightarrow> spool_posts env ob = gone @ spool_posts env ob' \<Longrightarrow> (ob' = None \<longleftrightarrow> ob = None) \<Longrightarrow> route_clear env pc ob'"
  by (auto simp: route_clear_def split: route_pc.splits)

lemma put_has_buffer: "(sk_buffer (snd (spool_put os bf s)) = None) = (sk_buffer s = None)"
  by (auto simp: spool_put_def split: option.split prod.split)

lemma drain_front_put:
  "buffer_inv (sk_buffer s) \<Longrightarrow> counter_room s \<Longrightarrow> drain_front pc (sk_buffer s) \<Longrightarrow>
   drain_front pc (sk_buffer (snd (spool_put os x s)))"
  by (auto simp: drain_front_def at_front_put split: drain_pc.splits)

text \<open>The worker hands its frame to the spool.\<close>

lemma route_put_inv:
  assumes "sink_inv env pre y" "counter_room (ss_sink y)" "ss_route y = RQueue f jpeg \<or> ss_route y = RRetry f jpeg"
  shows "sink_inv env pre (y\<lparr>ss_sink := snd (spool_put os (frame_entry f jpeg) (ss_sink y)), ss_route := RIdle\<rparr>)"
proof (rule sink_inv_shrink [OF assms(1)])
  let ?s = "snd (spool_put os (frame_entry f jpeg) (ss_sink y))"
  have has: "sk_buffer (ss_sink y) \<noteq> None" "buffer_inv (sk_buffer (ss_sink y))" "drain_front (ss_drain y) (sk_buffer (ss_sink y))"
    using assms by (auto simp: sink_inv_def route_clear_def)
  note put = spool_put_posts [OF has(2) assms(2) has(1), of os "frame_entry f jpeg" env]
  show "subseq (lane env (y\<lparr>ss_sink := ?s, ss_route := RIdle\<rparr>) k) (lane env y k)" for k
    using assms(3) put by (auto simp: lane_def route_posts_def)
  show "buffer_inv (sk_buffer (ss_sink (y\<lparr>ss_sink := ?s, ss_route := RIdle\<rparr>)))" using put by simp
  show "drain_front (ss_drain (y\<lparr>ss_sink := ?s, ss_route := RIdle\<rparr>)) (sk_buffer (ss_sink (y\<lparr>ss_sink := ?s, ss_route := RIdle\<rparr>)))"
    using drain_front_put [OF has(2) assms(2) has(3)] by simp
qed (simp_all add: route_clear_def)

lemma route_step_inv:
  assumes "sink_inv env pre y" "event_ok e y" "route_step env e y = Some y'"
  shows "sink_inv env pre y'"
proof (cases e)
  case (EvRoute now le f)
  obtain r s where enc: "route_encode env now le f (ss_sink y) = (r, s)" by (cases "route_encode env now le f (ss_sink y)")
  then have buf: "sk_buffer s = sk_buffer (ss_sink y)" using encode_buffer [of env now le f "ss_sink y"] by simp
  have inv: "buffer_inv (sk_buffer s)" using assms(1) buf by (simp add: sink_inv_def)
  show ?thesis
  proof (cases r)
    case (Inl e)
    then show ?thesis using EvRoute enc assms(1,3) buf by (auto simp: sink_inv_def lane_def split: if_splits)
  next
    case (Inr jpeg)
    have pend: "route_clear env (if sink_pending (pf_CandidateKey f) s then RQueue f jpeg else RLimit f jpeg) (sk_buffer s)"
      using not_pending_no_posts [OF inv] by (auto simp: route_clear_def sink_pending_def split: option.splits)
    have y': "ss_route y = RIdle" "y' = y\<lparr>ss_sink := s, ss_routed := ss_routed y @ [frame_post env f jpeg],
        ss_route := (if sink_pending (pf_CandidateKey f) s then RQueue f jpeg else RLimit f jpeg)\<rparr>"
      using EvRoute enc Inr assms(3) by (auto split: if_splits)
    have "lane env y' k = lane env y k @ of_camera k [frame_post env f jpeg]" for k
      using y' buf by (simp add: lane_def route_posts_def)
    moreover have "subseq (lane env y k @ of_camera k [frame_post env f jpeg])
        (of_camera k (pre @ ss_routed y) @ of_camera k [frame_post env f jpeg])" for k
      using assms(1) by (intro list_emb_append_mono) (simp_all add: sink_inv_def)
    ultimately show ?thesis using assms(1) y' buf pend by (simp add: sink_inv_def)
  qed
next
  case (EvRouteQueue os)
  then show ?thesis using assms route_put_inv [OF assms(1)] by (auto split: route_pc.splits)
next
  case (EvRouteAllow now)
  with assms(3) obtain f jpeg where pc: "ss_route y = RLimit f jpeg" by (auto split: route_pc.splits)
  obtain ok s where al: "route_allow now jpeg (ss_sink y) = (ok, s)" by (cases "route_allow now jpeg (ss_sink y)")
  then have "sk_buffer s = sk_buffer (ss_sink y)" using route_allow_buffer [of now jpeg "ss_sink y"] by simp
  then show ?thesis using EvRouteAllow pc al assms(1,3)
    by (intro sink_inv_shrink [OF assms(1)])
      (auto simp: sink_inv_def lane_def route_posts_def route_clear_def begin_buffer split: bool.splits intro: list_emb_append2)
next
  case (EvRouteAnswer now lu r)
  with assms(3) obtain f jpeg where pc: "ss_route y = RPost f jpeg" by (auto split: route_pc.splits)
  have clear: "of_camera (pf_CandidateKey f) (spool_posts env (sk_buffer (ss_sink y))) = []"
    using assms(1) pc by (simp add: sink_inv_def route_clear_def)
  show ?thesis using EvRouteAnswer pc assms(1,3) clear
    by (intro sink_inv_shrink [OF assms(1)])
      (auto simp: sink_inv_def lane_def route_posts_def route_clear_def end_buffer of_camera_def Let_def
        split: option.splits if_splits)
qed (use assms(3) in simp_all)

lemma anpr_put_inv:
  assumes "sink_inv env pre y" "counter_room (ss_sink y)"
  shows "sink_inv env pre (y\<lparr>ss_sink := snd (spool_put os (anpr_entry key ts meta crop) (ss_sink y)), ss_anpr := pcs\<rparr>)"
proof (cases "sk_buffer (ss_sink y)")
  case None
  then show ?thesis using assms by (simp add: spool_put_none sink_inv_def lane_def)
next
  case (Some b)
  let ?s = "snd (spool_put os (anpr_entry key ts meta crop) (ss_sink y))"
  have has: "buffer_inv (sk_buffer (ss_sink y))" "drain_front (ss_drain y) (sk_buffer (ss_sink y))"
    using assms(1) by (auto simp: sink_inv_def)
  note put = spool_put_posts [OF has(1) assms(2), of os "anpr_entry key ts meta crop" env]
  have same: "of_camera k (spool_posts env (sk_buffer ?s)) = of_camera k (spool_posts env (sk_buffer (ss_sink y)))" for k
    using put Some by auto
  have "route_clear env (ss_route y) (sk_buffer ?s)"
    using assms(1) same put_has_buffer [of os "anpr_entry key ts meta crop" "ss_sink y"]
    by (auto simp: sink_inv_def route_clear_def split: route_pc.splits)
  then show ?thesis
    using assms(1) put Some drain_front_put [OF has(1) assms(2) has(2)] same by (simp add: sink_inv_def lane_def)
qed

lemma candidate_step_inv:
  assumes "sink_inv env pre y" "event_ok e y" "candidate_step env e y = Some y'"
  shows "sink_inv env pre y'"
proof (cases e)
  case (EvAnpr key ts meta crop)
  then show ?thesis using assms by (auto simp: sink_inv_def lane_def split: if_splits)
next
  case (EvAnprQueue i os)
  then show ?thesis using assms anpr_put_inv [OF assms(1)] by (auto split: anpr_pc.splits)
next
  case (EvAnprAllow i now)
  then obtain key ts meta crop where pc: "anpr_at i y = ALimit key ts meta crop" using assms(3) by (auto split: anpr_pc.splits)
  have "sk_buffer (snd (sink_allow now (length crop) (ss_sink y))) = sk_buffer (ss_sink y)" by (rule allow_buffer)
  then show ?thesis using EvAnprAllow assms(1,3) pc by (auto simp: sink_inv_def lane_def split: prod.splits)
next
  case (EvAnprAnswer i now r)
  then obtain key ts meta crop where pc: "anpr_at i y = APost key ts meta crop" using assms(3) by (auto split: anpr_pc.splits)
  have "sk_buffer (snd (uploadANPR now crop r (ss_sink y))) = sk_buffer (ss_sink y)" by (rule anpr_buffer)
  then show ?thesis using EvAnprAnswer assms(1,3) pc
    by (auto simp: sink_inv_def lane_def of_camera_def split: prod.splits option.splits)
qed (use assms(3) in simp_all)

text \<open>The three ways in which the drain loop moves: frames leave the front unconfirmed, the front is confirmed, or nothing
  changes in the spool.\<close>

lemma drain_drop_inv:
  assumes "sink_inv env pre y" "buffer_inv (sk_buffer s)" "(sk_buffer s = None) = (sk_buffer (ss_sink y) = None)"
    "spool_posts env (sk_buffer (ss_sink y)) = gone @ spool_posts env (sk_buffer s)" "drain_front pc (sk_buffer s)"
    "conf = [] \<or> conf = gone"
  shows "sink_inv env pre (y\<lparr>ss_sink := s, ss_drain := pc, ss_backoff := bo, ss_confirmed := ss_confirmed y @ conf\<rparr>)"
proof (rule sink_inv_shrink [OF assms(1)])
  show "subseq (lane env (y\<lparr>ss_sink := s, ss_drain := pc, ss_backoff := bo, ss_confirmed := ss_confirmed y @ conf\<rparr>) k) (lane env y k)" for k
    using assms(4,6) subseq_drop_mid [of "of_camera k (ss_confirmed y)" _ "of_camera k gone"] by (auto simp: lane_def)
qed (use assms route_clear_shrink [OF _ assms(4,3)] in \<open>auto simp: sink_inv_def\<close>)

lemma drain_keep_inv:
  assumes "sink_inv env pre y" "sk_buffer s = sk_buffer (ss_sink y)" "drain_front pc (sk_buffer s)"
  shows "sink_inv env pre (y\<lparr>ss_sink := s, ss_drain := pc, ss_backoff := bo\<rparr>)"
  using assms by (simp add: sink_inv_def lane_def)

lemma settle_cases:
  assumes "drain_settle os res bo s = (pc, bo', s')"
  shows "(res = None \<and> s' = spool_advance os s \<and> pc = DSleep) \<or> (res \<noteq> None \<and> s' = spool_discard os s \<and> pc = DSleep) \<or>
    (res \<noteq> None \<and> s' = s \<and> (pc = DSleep \<or> pc = DStopped))"
  using assms by (auto simp: drain_settle_def split: option.splits if_splits)

lemma turn_cases:
  assumes "drain_turn os now bf bo s = (pc, bo', s')"
  shows "(sk_buffer s' = sk_buffer s \<and> (pc = DPost bf \<or> pc = DWait bf)) \<or>
    (sk_buffer s' = map_option (Discard os) (sk_buffer s) \<and> pc = DSleep)"
  using assms by (auto simp: drain_turn_def replay_begin_buffer spool_discard_def
      split: option.splits prod.splits wait_outcome.splits)

lemma drain_wake_inv:
  assumes "sink_inv env pre y" "event_ok (EvDrainWake os now) y" "drain_step env (EvDrainWake os now) y = Some y'"
  shows "sink_inv env pre y'"
proof -
  from assms(3) obtain pc bo s where w: "drain_wake os now (ss_backoff y) (ss_sink y) = (pc, bo, s)"
    "y' = y\<lparr>ss_sink := s, ss_drain := pc, ss_backoff := bo\<rparr>"
    by (auto split: if_splits prod.splits)
  have inv: "buffer_inv (sk_buffer (ss_sink y))" "os_ok os" using assms(1,2) by (auto simp: sink_inv_def)
  from wake_posts [OF inv w(1), of env] obtain gone where posts:
    "spool_posts env (sk_buffer (ss_sink y)) = gone @ spool_posts env (sk_buffer s)" "buffer_inv (sk_buffer s)"
    "\<forall>bf. pc = DWait bf \<or> pc = DPost bf \<longrightarrow> at_front bf (sk_buffer s)" by blast
  have "(sk_buffer s = None) = (sk_buffer (ss_sink y) = None)"
    using w(1) by (auto simp: drain_wake_def Let_def replay_begin_buffer split: option.splits prod.splits if_splits)
  then have "sink_inv env pre (y\<lparr>ss_sink := s, ss_drain := pc, ss_backoff := bo, ss_confirmed := ss_confirmed y @ []\<rparr>)"
    using posts by (intro drain_drop_inv [OF assms(1)]) (auto simp: drain_front_def split: drain_pc.splits)
  then show ?thesis using w(2) by simp
qed

lemma drain_turn_inv:
  assumes "sink_inv env pre y" "event_ok (EvDrainTurn os now) y" "drain_step env (EvDrainTurn os now) y = Some y'"
  shows "sink_inv env pre y'"
proof -
  from assms(3) obtain bf pc bo s where w: "ss_drain y = DWait bf" "drain_turn os now bf (ss_backoff y) (ss_sink y) = (pc, bo, s)"
    "y' = y\<lparr>ss_sink := s, ss_drain := pc, ss_backoff := bo\<rparr>"
    by (auto split: drain_pc.splits if_splits prod.splits)
  have inv: "buffer_inv (sk_buffer (ss_sink y))" "os_ok os" "at_front bf (sk_buffer (ss_sink y))"
    using assms(1,2) w(1) by (auto simp: sink_inv_def drain_front_def)
  show ?thesis
  proof (cases "sk_buffer s = sk_buffer (ss_sink y) \<and> (pc = DPost bf \<or> pc = DWait bf)")
    case True
    then show ?thesis using drain_keep_inv [OF assms(1), of s pc bo] inv(3) w(3) by (auto simp: drain_front_def)
  next
    case False
    then have s: "sk_buffer s = sk_buffer (spool_discard os (ss_sink y))" "pc = DSleep"
      using turn_cases [OF w(2)] by (auto simp: spool_discard_def)
    have "sink_inv env pre (y\<lparr>ss_sink := s, ss_drain := pc, ss_backoff := bo, ss_confirmed := ss_confirmed y @ []\<rparr>)"
      using take_front [OF inv, of env] s by (intro drain_drop_inv [OF assms(1)]) (auto simp: drain_front_def spool_discard_def)
    then show ?thesis using w(3) by simp
  qed
qed

lemma drain_answer_inv:
  assumes "sink_inv env pre y" "event_ok (EvDrainAnswer os now lu r) y" "drain_step env (EvDrainAnswer os now lu r) y = Some y'"
  shows "sink_inv env pre y'"
proof -
  from assms(3) obtain bf where pc: "ss_drain y = DPost bf" by (auto split: drain_pc.splits)
  obtain res s1 where re: "replay_end env now lu r bf (ss_sink y) = (res, s1)" by (cases "replay_end env now lu r bf (ss_sink y)")
  obtain pc' bo s2 where se: "drain_settle os res (ss_backoff y) s1 = (pc', bo, s2)" by (cases "drain_settle os res (ss_backoff y) s1")
  let ?conf = "if res = None then (case replay_post env bf of None \<Rightarrow> [] | Some p \<Rightarrow> [p]) else []"
  have y': "y' = y\<lparr>ss_sink := s2, ss_drain := pc', ss_backoff := bo, ss_confirmed := ss_confirmed y @ ?conf\<rparr>"
    using assms(3) pc re se by (simp add: Let_def)
  have buf: "sk_buffer s1 = sk_buffer (ss_sink y)" using replay_end_buffer [of env now lu r bf "ss_sink y"] re by simp
  then have inv: "buffer_inv (sk_buffer s1)" "os_ok os" "at_front bf (sk_buffer s1)"
    using assms(1,2) pc by (auto simp: sink_inv_def drain_front_def)
  note tf = take_front [OF inv, of env]
  have posts: "entry_posts env (Some (FrameFile bf)) = (case replay_post env bf of None \<Rightarrow> [] | Some p \<Rightarrow> [p])"
    by (simp add: entry_posts_def)
  consider "res = None" "s2 = spool_advance os s1" "pc' = DSleep" | "res \<noteq> None" "s2 = spool_discard os s1" "pc' = DSleep"
    | "res \<noteq> None" "s2 = s1" "pc' = DSleep \<or> pc' = DStopped" using settle_cases [OF se] by blast
  then show ?thesis
  proof cases
    case 1
    then show ?thesis unfolding y' using tf buf posts
      by (intro drain_drop_inv [OF assms(1), of _ "entry_posts env (Some (FrameFile bf))"]) (auto simp: drain_front_def spool_advance_def)
  next
    case 2
    then show ?thesis unfolding y' using tf buf
      by (intro drain_drop_inv [OF assms(1), of _ "entry_posts env (Some (FrameFile bf))"]) (auto simp: drain_front_def spool_discard_def)
  next
    case 3
    then show ?thesis unfolding y' using buf inv
      by (intro drain_drop_inv [OF assms(1), of _ "[]"]) (auto simp: drain_front_def)
  qed
qed

lemma drain_step_inv:
  assumes "sink_inv env pre y" "event_ok e y" "drain_step env e y = Some y'"
  shows "sink_inv env pre y'"
proof (cases e)
  case (EvDrainWake os now)
  then show ?thesis using assms drain_wake_inv by blast
next
  case (EvDrainTurn os now)
  then show ?thesis using assms drain_turn_inv by blast
next
  case (EvDrainAnswer os now lu r)
  then show ?thesis using assms drain_answer_inv by blast
next
  case EvClose
  then show ?thesis using assms by (auto simp: sink_inv_def lane_def)
next
  case EvDrainStop
  then show ?thesis using assms by (auto simp: sink_inv_def lane_def cancel_buffer drain_front_def split: if_splits)
qed (use assms(3) in simp_all)

lemma sink_step_cases:
  "sink_step env e y = Some y' \<Longrightarrow> route_step env e y = Some y' \<or> candidate_step env e y = Some y' \<or> drain_step env e y = Some y'"
  by (cases e) simp_all

lemma sink_step_inv: "sink_inv env pre y \<Longrightarrow> event_ok e y \<Longrightarrow> sink_step env e y = Some y' \<Longrightarrow> sink_inv env pre y'"
  using sink_step_cases route_step_inv candidate_step_inv drain_step_inv by blast

lemma sink_inv_init: "buffer_inv (sk_buffer s) \<Longrightarrow> sink_inv env (spool_posts env (sk_buffer s)) (init_sys s)"
  by (simp add: sink_inv_def init_sys_def route_clear_def drain_front_def lane_def route_posts_def)

lemma sink_run_inv: "sink_run env y0 y \<Longrightarrow> sink_inv env pre y0 \<Longrightarrow> sink_inv env pre y"
  by (induction rule: sink_run.induct) (auto intro: sink_step_inv)

section \<open>Order\<close>

text \<open>Sinks as \<open>New\<close> makes them, on an empty directory or on the one an earlier process left.\<close>

lemma fresh_sink_ok: "buffer_inv (sk_buffer (NewCloudSink now c health [WithBuffer os [] mb mf ma]))"
  by (simp add: NewCloudSink_def WithBuffer_def open_empty empty_spool_ok buffer_inv_def Let_def)

lemma restarted_sink_ok:
  assumes "cbinv b" "os_ok os"
  shows "buffer_inv (sk_buffer (NewCloudSink now c health [WithBuffer os (cb_disk b) (cb_max_bytes b) (cb_max_frames b) (cb_max_age b)]))"
proof -
  have "cbinv b'" if "OpenBuffer os (cb_disk b) (cb_max_bytes b) (cb_max_frames b) (cb_max_age b) = Inr b'" for b'
    using reopen_ok [OF assms] that by (auto simp: reopen_def)
  then show ?thesis by (auto simp: NewCloudSink_def WithBuffer_def buffer_inv_def Let_def split: sum.split)
qed

text \<open>C10. However the worker of the router, the calls for plate candidates and the drain loop interleave, and whatever the
  SaaS, the limiter and the writes of the spool answer: the frames of a camera that the SaaS has confirmed are, in the
  order of their confirmation, a part of the frames that the spool held at the start followed by the frames of the
  camera in the order in which they were routed. No frame overtakes an older one of its camera and none is confirmed
  twice by the same process.\<close>

theorem camera_frames_in_order:
  assumes "sink_run env (init_sys s) y" "buffer_inv (sk_buffer s)"
  shows "subseq (of_camera k (ss_confirmed y)) (of_camera k (spool_posts env (sk_buffer s) @ ss_routed y))"
proof -
  have "subseq (lane env y k) (of_camera k (spool_posts env (sk_buffer s) @ ss_routed y))"
    using sink_run_inv [OF assms(1) sink_inv_init [OF assms(2)]] by (simp add: sink_inv_def)
  moreover have "subseq (of_camera k (ss_confirmed y)) (lane env y k)"
    unfolding lane_def by (simp add: list_emb_prefix)
  ultimately show ?thesis by (rule subseq_order.trans [rotated])
qed

section \<open>Route is a run of steps\<close>

fun run_events :: "sink_env \<Rightarrow> sink_event list \<Rightarrow> sink_sys \<Rightarrow> sink_sys option" where
  "run_events env [] y = Some y"
| "run_events env (e # es) y = (case sink_step env e y of None \<Rightarrow> None | Some y' \<Rightarrow> run_events env es y')"

fun all_events_ok :: "sink_env \<Rightarrow> sink_event list \<Rightarrow> sink_sys \<Rightarrow> bool" where
  "all_events_ok env [] y = True"
| "all_events_ok env (e # es) y = (event_ok e y \<and> (\<forall>y'. sink_step env e y = Some y' \<longrightarrow> all_events_ok env es y'))"

lemma run_events_run: "run_events env es y = Some y' \<Longrightarrow> all_events_ok env es y \<Longrightarrow> sink_run env y0 y \<Longrightarrow> sink_run env y0 y'"
proof (induction es arbitrary: y)
  case Nil
  then show ?case by simp
next
  case (Cons e es)
  then obtain y1 where "sink_step env e y = Some y1" "run_events env es y1 = Some y'" by (auto split: option.splits)
  then show ?case using Cons sink_run.Step [OF Cons.prems(3), of e y1] by auto
qed

text \<open>Called alone, \<open>Route\<close> is a run of the worker's steps that ends idle, with the sink \<open>Route\<close> leaves.\<close>

theorem route_is_a_run:
  assumes "ss_route y = RIdle" "Route env os t0 t1 t2 le lu r f (ss_sink y) = (res, req, s)"
  shows "\<exists>es y'. run_events env es y = Some y' \<and> ss_sink y' = s \<and> ss_route y' = RIdle \<and>
    set es \<subseteq> {EvRoute t0 le f, EvRouteQueue os, EvRouteAllow t1, EvRouteAnswer t2 lu r}"
proof -
  obtain enc s1 where enc: "route_encode env t0 le f (ss_sink y) = (enc, s1)" by (cases "route_encode env t0 le f (ss_sink y)")
  show ?thesis
  proof (cases enc)
    case (Inl e)
    then show ?thesis using assms enc by (intro exI [of _ "[EvRoute t0 le f]"]) (simp add: Route_def)
  next
    case (Inr jpeg)
    note r = assms enc Inr
    let ?put = "spool_put os (frame_entry f jpeg)"
    show ?thesis
    proof (cases "sink_pending (pf_CandidateKey f) s1")
      case True
      then show ?thesis using r
        by (intro exI [of _ "[EvRoute t0 le f, EvRouteQueue os]"]) (auto simp: Route_def split: prod.splits)
    next
      case False
      obtain ok s2 where al: "route_allow t1 jpeg s1 = (ok, s2)" by (cases "route_allow t1 jpeg s1")
      have send: "route_send env os t1 t2 lu r f jpeg s1 = (res, req, s)" using r False by (simp add: Route_def)
      let ?s3 = "upload_end t2 lu jpeg (post_result r) (upload_begin s2)"
      consider "\<not> ok" | "ok" "post_result r = None" | e where "ok" "post_result r = Some e" by fastforce
      then show ?thesis
      proof cases
        case 1
        then show ?thesis using r False al send
          by (intro exI [of _ "[EvRoute t0 le f, EvRouteAllow t1]"]) (simp add: route_send_def)
      next
        case 2
        then show ?thesis using r False al send
          by (intro exI [of _ "[EvRoute t0 le f, EvRouteAllow t1, EvRouteAnswer t2 lu r]"]) (simp add: route_send_def upload_def)
      next
        case (3 e)
        show ?thesis
        proof (cases "sk_buffer ?s3 \<noteq> None \<and> isRecoverable e")
          case True
          then show ?thesis using r False al send 3
            by (intro exI [of _ "[EvRoute t0 le f, EvRouteAllow t1, EvRouteAnswer t2 lu r, EvRouteQueue os]"])
              (auto simp: route_send_def upload_def split: prod.splits option.splits)
        next
          case nobuf: False
          then show ?thesis using r False al send 3
            by (intro exI [of _ "[EvRoute t0 le f, EvRouteAllow t1, EvRouteAnswer t2 lu r]"])
              (auto simp: route_send_def upload_def)
        qed
      qed
    qed
  qed
qed

section \<open>Examples\<close>

definition sample_env :: sink_env where
  "sample_env = \<lparr>encode_jpeg = \<lambda>img q. Some (img_Y img), sender_metadata = False, sender_anpr = True\<rparr>"

definition sample_pframe :: "nat \<Rightarrow> pframe" where
  "sample_pframe n = \<lparr>pf_CandidateKey = ''cam'', pf_Timestamp = int n, pf_Seq = n, pf_OutputWidth = 2, pf_OutputHeight = 2,
     pf_Data = [0, 0, 0, 0, 0, 0], pf_ProcessingMode = '''', pf_CandidateReason = '''', pf_CandidateScore = Fin 0, pf_CorrelationID = ''''\<rparr>"

definition sample_sink :: cloud_sink where
  "sample_sink = NewCloudSink 0 DefaultConfig False [WithBuffer sample_os [] 1000 5 0]"

text \<open>The first frame times out and is spooled, the second one queues behind it, the drain loop replays the first.\<close>

definition sample_events :: "sink_event list" where
  "sample_events = [EvRoute 1 0 (sample_pframe 1), EvRouteAllow 1, EvRouteAnswer 2 1 DoDeadline, EvRouteQueue sample_os,
     EvRoute 3 0 (sample_pframe 2), EvRouteQueue sample_os, EvDrainWake sample_os 4, EvDrainAnswer sample_os 5 1 (DoAnswer 200 None)]"

lemma peek_head:
  "cb_queue b = e # rest \<Longrightarrow> cb_max_age b \<le> 0 \<Longrightarrow> readEntry os (cb_disk b) (qe_path e) = Some f \<Longrightarrow> Buffer_Peek os now b = (Some f, b)"
  by (simp add: Buffer_Peek.simps)

lemmas sample_defs = sample_env_def sample_pframe_def sample_sink_def sample_os_def NewCloudSink_def WithBuffer_def
  DefaultConfig_def DefaultJPEGQuality_def open_empty empty_spool_def init_sys_def no_stats_def

lemmas sample_steps = route_encode_def YUV420PToImage_def publishStatus_def sink_pending_def HasPending_def route_allow_def
  sink_allow_def upload_begin_def upload_end_def post_result_def isRecoverable_def spool_put_def frame_entry_def
  Buffer_Enqueue_def writeAtomic_def wrap_u64_def drain_wake_def peek_head readEntry_def replay_begin_def replay_end_def
  drain_settle_def spool_advance_def Advance_def classifyFrameStatusWithHeader_def replay_post_def frame_post_def replay_frame_def
  KindFrame_def KindAnprCandidate_def counter_room_def os_ok_def

lemma sample_run:
  "\<exists>y. run_events sample_env sample_events (init_sys sample_sink) = Some y \<and>
     all_events_ok sample_env sample_events (init_sys sample_sink) \<and>
     ss_confirmed y = [frame_post sample_env (sample_pframe 1) [0, 0, 0, 0]] \<and> length (ss_routed y) = 2"
  by (simp add: sample_events_def sample_defs sample_steps Let_def)

theorem camera_frames_in_order_witness:
  "\<exists>y. sink_run sample_env (init_sys sample_sink) y \<and>
     ss_confirmed y = [frame_post sample_env (sample_pframe 1) [0, 0, 0, 0]] \<and> length (ss_routed y) = 2 \<and>
     subseq (of_camera ''cam'' (ss_confirmed y)) (of_camera ''cam'' (spool_posts sample_env (sk_buffer sample_sink) @ ss_routed y))"
proof -
  obtain y where y: "run_events sample_env sample_events (init_sys sample_sink) = Some y"
    "all_events_ok sample_env sample_events (init_sys sample_sink)"
    "ss_confirmed y = [frame_post sample_env (sample_pframe 1) [0, 0, 0, 0]]" "length (ss_routed y) = 2"
    using sample_run by blast
  have "sink_run sample_env (init_sys sample_sink) y" by (rule run_events_run [OF y(1,2) sink_run.Start])
  moreover have "buffer_inv (sk_buffer sample_sink)" unfolding sample_sink_def by (rule fresh_sink_ok)
  ultimately show ?thesis using y(3,4) camera_frames_in_order by blast
qed

end
