(* ===== verification/CloudSink_Drain.thy ===== *)
theory CloudSink_Drain
  imports CloudSink_Props
begin

text \<open>
  The drain loop: its waiting times stay between zero and a minute, the upload counters add up at every moment, a frame
  leaves the spool only for one of four reasons, and a spool in front of a SaaS that accepts drains in one round per fresh frame.
\<close>

section \<open>Waiting\<close>

lemma next_backoff_bounds: "0 \<le> bo \<Longrightarrow> bo \<le> maxDrainBackoff \<Longrightarrow> 0 < next_backoff e bo \<and> next_backoff e bo \<le> maxDrainBackoff"
  by (auto simp: next_backoff_def minDrainBackoff_def maxDrainBackoff_def second_def split: eclass.split)

lemma settle_backoff:
  "drain_settle os res bo s = (pc, bo', s') \<Longrightarrow> 0 \<le> bo \<Longrightarrow> bo \<le> maxDrainBackoff \<Longrightarrow> 0 \<le> bo' \<and> bo' \<le> maxDrainBackoff"
  using next_backoff_bounds [of bo "fst (the res)"]
  by (auto simp: drain_settle_def maxDrainBackoff_def second_def split: option.splits if_splits)

lemma wake_backoff: "drain_wake os now bo s = (pc, bo', s') \<Longrightarrow> bo' = bo \<or> bo' = 0"
  by (auto simp: drain_wake_def Let_def split: option.splits prod.splits if_splits)

lemma turn_backoff: "drain_turn os now bf bo s = (pc, bo', s') \<Longrightarrow> bo' = bo \<or> bo' = 0"
  by (auto simp: drain_turn_def split: option.splits prod.splits wait_outcome.splits)

lemma route_step_drain: "route_step env e y = Some y' \<Longrightarrow> ss_drain y' = ss_drain y \<and> ss_backoff y' = ss_backoff y"
  by (cases e) (auto simp: Let_def split: if_splits prod.splits sum.splits route_pc.splits option.splits bool.splits)

lemma candidate_step_drain:
  "candidate_step env e y = Some y' \<Longrightarrow> ss_drain y' = ss_drain y \<and> ss_backoff y' = ss_backoff y \<and>
     ss_route y' = ss_route y \<and> ss_routed y' = ss_routed y"
  by (cases e) (auto simp: Let_def split: if_splits prod.splits anpr_pc.splits option.splits bool.splits)

lemma drain_step_backoff:
  assumes "drain_step env e y = Some y'" "0 \<le> ss_backoff y" "ss_backoff y \<le> maxDrainBackoff"
  shows "0 \<le> ss_backoff y' \<and> ss_backoff y' \<le> maxDrainBackoff"
proof (cases e)
  case (EvDrainWake os now)
  then show ?thesis using assms wake_backoff [of os now "ss_backoff y" "ss_sink y"] by (auto split: if_splits prod.splits)
next
  case (EvDrainTurn os now)
  then show ?thesis using assms
    by (auto dest!: turn_backoff simp: maxDrainBackoff_def second_def split: if_splits prod.splits drain_pc.splits)
next
  case (EvDrainAnswer os now lu r)
  then show ?thesis using assms settle_backoff [OF _ assms(2,3)] by (auto simp: Let_def split: prod.splits drain_pc.splits)
qed (use assms in \<open>auto split: if_splits\<close>)

text \<open>Whatever the SaaS answers, \<open>Retry-After\<close> included, the loop never sleeps longer than a minute, and it always sleeps.\<close>

theorem drain_wait_bounded:
  assumes "sink_run env (init_sys s) y"
  shows "0 < drain_wait (ss_backoff y) \<and> drain_wait (ss_backoff y) \<le> maxDrainBackoff"
proof -
  from assms have "0 \<le> ss_backoff y \<and> ss_backoff y \<le> maxDrainBackoff"
  proof (induction rule: sink_run.induct)
    case Start
    then show ?case by (simp add: init_sys_def maxDrainBackoff_def second_def)
  next
    case (Step y e y')
    then show ?case using sink_step_cases [OF Step.hyps(3)] route_step_drain candidate_step_drain drain_step_backoff by metis
  qed
  then show ?thesis by (auto simp: drain_wait_def drainPollInterval_def maxDrainBackoff_def second_def)
qed

section \<open>Counters\<close>

definition uploading :: "sink_sys \<Rightarrow> nat" where
  "uploading y = (case ss_route y of RPost f jpeg \<Rightarrow> 1 | _ \<Rightarrow> 0) +
     (case ss_drain y of DPost bf \<Rightarrow> if bf_kind bf = KindAnprCandidate then 0 else 1 | _ \<Rightarrow> 0)"

definition counted :: "sink_sys \<Rightarrow> bool" where
  "counted y \<longleftrightarrow>
     (let st = sk_stats (ss_sink y)
      in uploadAttempted st = uploadSucceeded st + uploadFailed st + uploading y \<and>
         uploadLatencySamples st = uploadSucceeded st + uploadFailed st \<and>
         framesEncoded st = length (ss_routed y) \<and> encodeLatencySamples st = length (ss_routed y))"

named_theorems sink_stats

lemma publish_stats [sink_stats]: "sk_stats (publishStatus now s) = sk_stats s"
  by (simp add: publishStatus_def)

lemma put_stats [sink_stats]: "sk_stats (snd (spool_put os bf s)) = sk_stats s"
  by (simp add: spool_put_def split: option.split prod.split)

lemma sink_allow_stats: "sink_allow now n s = (ok, s') \<Longrightarrow> sk_stats s' = sk_stats s"
  by (auto simp: sink_allow_def split: option.splits prod.splits)

lemma route_allow_stats:
  "route_allow now jpeg s = (ok, s') \<Longrightarrow>
   sk_stats s' = (if ok then sk_stats s else count_throttled (length jpeg) (sk_stats s))"
  using sink_allow_stats [of now "length jpeg" s] by (auto simp: route_allow_def publish_stats split: prod.splits bool.splits)

lemma encode_stats:
  "route_encode env now le f s = (x, s') \<Longrightarrow>
   sk_stats s' = (case x of Inl e \<Rightarrow> sk_stats s | Inr jpeg \<Rightarrow> count_encoded (length jpeg) le (sk_stats s))"
  by (auto simp: route_encode_def publish_stats split: option.splits)

lemma anpr_stats: "uploadANPR now crop r s = (res, s') \<Longrightarrow> sk_stats s' = sk_stats s"
  by (auto simp: uploadANPR_def split: option.splits)

lemma advance_stats [sink_stats]: "sk_stats (spool_advance os s) = sk_stats s" "sk_stats (spool_discard os s) = sk_stats s"
  by (simp_all add: spool_advance_def spool_discard_def)

lemma cancel_stats [sink_stats]: "sk_stats (drain_cancel pc s) = sk_stats s"
  by (simp add: drain_cancel_def split: drain_pc.split)

lemma settle_stats: "drain_settle os res bo s = (pc, bo', s') \<Longrightarrow> sk_stats s' = sk_stats s \<and> (pc = DSleep \<or> pc = DStopped)"
  using settle_cases [of os res bo s pc bo' s'] by (auto simp: advance_stats)

text \<open>What the counters of the replay add up to.\<close>

lemma wake_counted:
  "drain_wake os now bo s = (pc, bo', s') \<Longrightarrow>
   sk_stats s' = (case pc of DPost bf \<Rightarrow> sk_stats (replay_begin bf s) | _ \<Rightarrow> sk_stats s)"
  by (auto simp: drain_wake_def Let_def replay_begin_def upload_begin_def split: option.splits prod.splits if_splits)

lemma turn_counted:
  "drain_turn os now bf bo s = (pc, bo', s') \<Longrightarrow>
   sk_stats s' = (case pc of DPost bf' \<Rightarrow> sk_stats (replay_begin bf s) | _ \<Rightarrow> sk_stats s) \<and> (\<forall>bf'. pc = DPost bf' \<longrightarrow> bf' = bf)"
  by (auto simp: drain_turn_def replay_begin_def upload_begin_def advance_stats
      split: option.splits prod.splits if_splits wait_outcome.splits)

lemmas count_defs = count_latency_def count_uploaded_def count_encoded_def count_throttled_def upload_begin_def

lemma end_stats:
  "sk_stats (upload_end now lu jpeg res s) =
   (let st = count_latency lu (sk_stats s)
    in case res of None \<Rightarrow> count_uploaded (length jpeg) st | Some e \<Rightarrow> st\<lparr>uploadFailed := uploadFailed st + 1\<rparr>)"
  by (simp add: upload_end_def Let_def publish_stats split: option.split)

lemma route_step_counted:
  assumes "counted y" "route_step env e y = Some y'"
  shows "counted y'"
proof (cases e)
  case (EvRoute now le f)
  obtain x s where enc: "route_encode env now le f (ss_sink y) = (x, s)" by (cases "route_encode env now le f (ss_sink y)")
  show ?thesis using assms EvRoute enc encode_stats [OF enc]
    by (cases x) (auto simp: counted_def uploading_def Let_def count_defs split: if_splits)
next
  case (EvRouteQueue os)
  then show ?thesis using assms by (auto simp: counted_def uploading_def Let_def put_stats split: route_pc.splits)
next
  case (EvRouteAllow now)
  with assms(2) obtain f jpeg where pc: "ss_route y = RLimit f jpeg" by (auto split: route_pc.splits)
  obtain ok s where al: "route_allow now jpeg (ss_sink y) = (ok, s)" by (cases "route_allow now jpeg (ss_sink y)")
  show ?thesis using assms EvRouteAllow pc al route_allow_stats [OF al]
    by (cases ok) (auto simp: counted_def uploading_def Let_def count_defs)
next
  case (EvRouteAnswer now lu r)
  with assms(2) obtain f jpeg where pc: "ss_route y = RPost f jpeg" by (auto split: route_pc.splits)
  show ?thesis using assms EvRouteAnswer pc
    by (cases "post_result r") (auto simp: counted_def uploading_def Let_def end_stats count_defs)
qed (use assms(2) in simp_all)

lemma candidate_step_counted: "counted y \<Longrightarrow> candidate_step env e y = Some y' \<Longrightarrow> counted y'"
  by (cases e)
    (auto simp: counted_def uploading_def Let_def put_stats dest!: sink_allow_stats anpr_stats
      split: if_splits prod.splits anpr_pc.splits option.splits)

lemma drain_step_counted:
  assumes "counted y" "drain_step env e y = Some y'"
  shows "counted y'"
proof (cases e)
  case (EvDrainWake os now)
  then obtain pc bo s where w: "drain_wake os now (ss_backoff y) (ss_sink y) = (pc, bo, s)" "ss_drain y = DSleep"
    "y' = y\<lparr>ss_sink := s, ss_drain := pc, ss_backoff := bo\<rparr>" using assms(2) by (auto split: if_splits prod.splits)
  show ?thesis using assms(1) w wake_counted [OF w(1)]
    by (cases pc) (auto simp: counted_def uploading_def Let_def replay_begin_def count_defs)
next
  case (EvDrainTurn os now)
  then obtain bf pc bo s where w: "ss_drain y = DWait bf" "drain_turn os now bf (ss_backoff y) (ss_sink y) = (pc, bo, s)"
    "y' = y\<lparr>ss_sink := s, ss_drain := pc, ss_backoff := bo\<rparr>"
    using assms(2) by (auto split: drain_pc.splits if_splits prod.splits)
  show ?thesis using assms(1) w turn_counted [OF w(2)]
    by (cases pc) (auto simp: counted_def uploading_def Let_def replay_begin_def count_defs)
next
  case (EvDrainAnswer os now lu r)
  then obtain bf where pc: "ss_drain y = DPost bf" using assms(2) by (auto split: drain_pc.splits)
  obtain res s1 where re: "replay_end env now lu r bf (ss_sink y) = (res, s1)" by (cases "replay_end env now lu r bf (ss_sink y)")
  obtain pc' bo s2 where se: "drain_settle os res (ss_backoff y) s1 = (pc', bo, s2)" by (cases "drain_settle os res (ss_backoff y) s1")
  have "uploading y = uploading (y\<lparr>ss_drain := DSleep\<rparr>) + (if bf_kind bf = KindAnprCandidate then 0 else 1)"
    using pc by (simp add: uploading_def)
  moreover have "sk_stats s1 = (if bf_kind bf = KindAnprCandidate then sk_stats (ss_sink y)
      else sk_stats (upload_end now lu (bf_jpeg bf) (post_result r) (ss_sink y)))"
    using re by (auto simp: replay_end_def dest: anpr_stats split: if_splits)
  moreover have "counted y' = counted (y\<lparr>ss_sink := s1, ss_drain := DSleep\<rparr>)"
    using assms(2) EvDrainAnswer pc re se settle_stats [OF se] by (auto simp: counted_def uploading_def Let_def)
  ultimately show ?thesis using assms(1)
    by (cases "post_result r") (auto simp: counted_def uploading_def Let_def end_stats count_defs split: if_splits)
next
  case EvDrainStop
  then show ?thesis using assms
    by (auto simp: counted_def uploading_def Let_def cancel_stats split: if_splits drain_pc.splits)
qed (use assms in \<open>auto simp: counted_def uploading_def\<close>)

text \<open>At every moment the attempted uploads are the succeeded, the failed and those in flight (at most one of the worker
  and one of the drain loop), and every encoded frame is counted once.\<close>

theorem upload_counters_add_up:
  assumes "sink_run env (init_sys s) y" "sk_stats s = no_stats"
  shows "counted y \<and> uploading y \<le> 2"
proof -
  have "counted (init_sys s)" using assms(2) by (simp add: counted_def init_sys_def no_stats_def uploading_def)
  with assms(1) have "counted y"
    by (induction rule: sink_run.induct)
      (use sink_step_cases route_step_counted candidate_step_counted drain_step_counted in blast)+
  then show ?thesis by (simp add: uploading_def split: route_pc.split drain_pc.split)
qed

section \<open>Why frames leave the spool\<close>

lemma wake_removes_stale:
  assumes "drain_wake os now bo s = (pc, bo', s')" "sk_buffer s = Some b" "cbinv b" "os_ok os"
  shows "\<exists>b'. sk_buffer s' = Some b' \<and> spooled b' = drop (length (takeWhile (stale now b) (cb_queue b))) (spooled b)"
proof -
  have "sk_buffer s' = Some (snd (Buffer_Peek os now b))"
    using assms(1,2) by (auto simp: drain_wake_def Let_def replay_begin_buffer split: prod.splits option.splits if_splits)
  then show ?thesis using Peek_ok [OF assms(3,4), of now] by (simp add: shrunk_def)
qed

text \<open>The reasons for which the drain loop takes the front frame \<open>bf\<close> away: it can never pass the limiter, it was confirmed, or
  the SaaS rejected it for good with something else than a refused credential.\<close>

definition too_big :: "buffered_frame \<Rightarrow> cloud_sink \<Rightarrow> bool" where
  "too_big bf s \<longleftrightarrow> (\<exists>l. sk_limiter s = Some l \<and> bytesPerSec l > 0 \<and> burstBytes l < int (length (bf_jpeg bf)))"

definition final_answer :: "sink_env \<Rightarrow> buffered_frame \<Rightarrow> http_do \<Rightarrow> bool" where
  "final_answer env bf r \<longleftrightarrow>
     (bf_kind bf = KindAnprCandidate \<and> \<not> sender_anpr env) \<or>
     (case post_result r of None \<Rightarrow> True | Some e \<Rightarrow> \<not> isRecoverable e \<and> fst e \<noteq> ErrUnauthorized \<and> \<not> snd e)"

lemma turn_removes:
  assumes "drain_turn os now bf bo s = (pc, bo', s')"
  shows "sk_buffer s' = sk_buffer s \<or> (too_big bf s \<and> sk_buffer s' = map_option (Discard os) (sk_buffer s))"
  using assms by (auto simp: drain_turn_def replay_begin_buffer spool_discard_def too_big_def wait_once_def Let_def
      split: option.splits prod.splits wait_outcome.splits if_splits)

lemma answer_removes:
  assumes "replay_end env now lu r bf s = (res, s1)" "drain_settle os res bo s1 = (pc, bo', s2)"
  shows "sk_buffer s2 = sk_buffer s \<or> (final_answer env bf r \<and>
    (sk_buffer s2 = map_option (Advance os) (sk_buffer s) \<or> sk_buffer s2 = map_option (Discard os) (sk_buffer s)))"
proof -
  have buf: "sk_buffer s1 = sk_buffer s" using assms(1) replay_end_buffer [of env now lu r bf s] by simp
  have "final_answer env bf r" if "s2 = spool_advance os s1 \<and> res = None \<or> (\<exists>e. res = Some e \<and> \<not> snd e \<and> fst e \<noteq> ErrUnauthorized \<and> \<not> isRecoverable e)"
    using that assms(1) by (auto simp: final_answer_def replay_end_def uploadANPR_def split: if_splits option.splits)
  then show ?thesis using assms(2) buf
    by (auto simp: drain_settle_def spool_advance_def spool_discard_def split: option.splits if_splits)
qed

lemma front_removed:
  assumes "cbinv b" "os_ok os" "b' = Advance os b \<or> b' = Discard os b"
  shows "spooled b' = drop 1 (spooled b)"
  using Advance_shrunk [OF assms(1,2)] assms(3) by (auto simp: shrunk_def spooled_def split: if_splits)

text \<open>A step of the drain loop leaves the spool as it is or takes frames off its front: at a wake-up exactly the ones that
  are older than the age limit; otherwise the one frame it holds, because its size exceeds the burst of the limiter or
  because the answer was final. A refused credential, a timeout, an unreachable SaaS, a status that asks for a retry and a
  shutdown all keep the frame.\<close>

theorem frame_leaves_spool_for_a_reason:
  assumes "sink_run env (init_sys s) y" "buffer_inv (sk_buffer s)" "event_ok e y" "drain_step env e y = Some y'"
    and b: "sk_buffer (ss_sink y) = Some b"
  shows "\<exists>b' n. sk_buffer (ss_sink y') = Some b' \<and> spooled b' = drop n (spooled b) \<and>
    (n = 0 \<or> (\<exists>os now. e = EvDrainWake os now \<and> n = length (takeWhile (stale now b) (cb_queue b))) \<or>
     n = 1 \<and> (\<exists>bf. spooled b ! 0 = Some (FrameFile bf) \<and> ((\<exists>os now. e = EvDrainTurn os now) \<and> too_big bf (ss_sink y) \<or>
       (\<exists>os now lu r. e = EvDrainAnswer os now lu r \<and> final_answer env bf r))))"
proof -
  have inv: "sink_inv env (spool_posts env (sk_buffer s)) y" by (rule sink_run_inv [OF assms(1) sink_inv_init [OF assms(2)]])
  then have cb: "cbinv b" using b by (simp add: sink_inv_def buffer_inv_def)
  have front: "spooled b ! 0 = Some (FrameFile bf)" if "ss_drain y = DWait bf \<or> ss_drain y = DPost bf" for bf
    using inv b that by (auto simp: sink_inv_def drain_front_def at_front_def)
  show ?thesis
  proof (cases e)
    case (EvDrainWake os now)
    then obtain pc bo s1 where w: "drain_wake os now (ss_backoff y) (ss_sink y) = (pc, bo, s1)" "ss_sink y' = s1"
      using assms(4) by (auto split: if_splits prod.splits)
    then show ?thesis using wake_removes_stale [OF w(1) b cb] EvDrainWake assms(3) by auto
  next
    case (EvDrainTurn os now)
    then obtain bf pc bo s1 where w: "ss_drain y = DWait bf" "drain_turn os now bf (ss_backoff y) (ss_sink y) = (pc, bo, s1)"
      "ss_sink y' = s1" using assms(4) by (auto split: drain_pc.splits if_splits prod.splits)
    show ?thesis
    proof (cases "sk_buffer s1 = Some b")
      case True
      then show ?thesis using w(3) by (intro exI [of _ b] exI [of _ 0]) simp
    next
      case False
      then show ?thesis using turn_removes [OF w(2)] b front_removed [OF cb, of os "Discard os b"] EvDrainTurn assms(3) front [of bf] w
        by (intro exI [of _ "Discard os b"] exI [of _ 1]) auto
    qed
  next
    case (EvDrainAnswer os now lu r)
    then obtain bf where pc: "ss_drain y = DPost bf" using assms(4) by (auto split: drain_pc.splits)
    obtain res s1 where re: "replay_end env now lu r bf (ss_sink y) = (res, s1)" by (cases "replay_end env now lu r bf (ss_sink y)")
    obtain pc' bo s2 where se: "drain_settle os res (ss_backoff y) s1 = (pc', bo, s2)" by (cases "drain_settle os res (ss_backoff y) s1")
    have s2: "ss_sink y' = s2" using assms(4) EvDrainAnswer pc re se by auto
    have ok: "os_ok os" using assms(3) EvDrainAnswer by simp
    show ?thesis
    proof (cases "sk_buffer s2 = Some b")
      case True
      then show ?thesis using s2 by (intro exI [of _ b] exI [of _ 0]) simp
    next
      case False
      then obtain b' where "sk_buffer s2 = Some b'" "b' = Advance os b \<or> b' = Discard os b" "final_answer env bf r"
        using answer_removes [OF re se] b by auto
      then show ?thesis using front_removed [OF cb ok] EvDrainAnswer front [of bf] s2 pc
        by (intro exI [of _ b'] exI [of _ 1]) auto
    qed
  next
    case EvClose
    then show ?thesis using assms(4) b by (intro exI [of _ b] exI [of _ 0]) auto
  next
    case EvDrainStop
    then show ?thesis using assms(4) b by (intro exI [of _ b] exI [of _ 0]) (auto simp: cancel_buffer split: if_splits)
  qed (use assms(4) in simp_all)
qed

section \<open>The spool drains\<close>

definition drain_round :: "spool_os \<Rightarrow> gotime \<Rightarrow> sink_event list" where
  "drain_round os now = [EvDrainWake os now, EvDrainAnswer os now 0 (DoAnswer 200 None)]"

text \<open>The loop asleep over the spool \<open>b\<close>, without a limiter.\<close>

definition ready :: "cbuffer \<Rightarrow> sink_sys \<Rightarrow> bool" where
  "ready b y \<longleftrightarrow> ss_drain y = DSleep \<and> sk_buffer (ss_sink y) = Some b \<and> sk_limiter (ss_sink y) = None \<and> cbinv b"

text \<open>What is in the spool and not yet too old, in the order of the queue.\<close>

definition fresh :: "gotime \<Rightarrow> cbuffer \<Rightarrow> spool_file option list" where
  "fresh now b = map snd (filter (\<lambda>(e, x). \<not> stale now b e) (zip (cb_queue b) (spooled b)))"

lemma fresh_shrunk:
  assumes "shrunk k b b'" "cb_max_age b' = cb_max_age b"
  shows "fresh now b' = map snd (filter (\<lambda>(e, x). \<not> stale now b e) (drop k (zip (cb_queue b) (spooled b))))"
  using assms by (simp add: fresh_def shrunk_def drop_zip stale_def)

lemma fresh_all: "\<forall>e \<in> set (cb_queue b). \<not> stale now b e \<Longrightarrow> fresh now b = spooled b"
proof -
  assume "\<forall>e \<in> set (cb_queue b). \<not> stale now b e"
  then have "filter (\<lambda>(e, x). \<not> stale now b e) (zip (cb_queue b) (spooled b)) = zip (cb_queue b) (spooled b)"
    by (intro filter_True) (auto dest: set_zip_leftD)
  then show ?thesis by (simp add: fresh_def spooled_def)
qed

text \<open>The leading stale entries end where the first fresh one is.\<close>

lemma zip_fresh:
  "length xs = length q \<Longrightarrow> filter (\<lambda>(e, x). \<not> P e) (zip q xs) =
     (case dropWhile P q of [] \<Rightarrow> []
      | e # q' \<Rightarrow> (e, xs ! length (takeWhile P q)) # filter (\<lambda>(e, x). \<not> P e) (drop (Suc (length (takeWhile P q))) (zip q xs)))"
proof (induction q arbitrary: xs)
  case (Cons e q)
  then obtain x ys where "xs = x # ys" "length ys = length q" by (cases xs) auto
  then show ?case using Cons.IH [of ys] by (cases "P e") (simp_all del: dropWhile_eq_Nil_conv split: list.split)
qed simp

lemma peek_fresh:
  assumes "cbinv b" "os_ok os" "fresh now b = x # xs"
  shows "\<exists>bf b1. Buffer_Peek os now b = (Some bf, b1) \<and> x = Some (FrameFile bf) \<and> cbinv b1 \<and> cb_max_age b1 = cb_max_age b
    \<and> cb_queue b1 \<noteq> [] \<and> (\<forall>b2. shrunk 1 b1 b2 \<longrightarrow> cb_max_age b2 = cb_max_age b1 \<longrightarrow> fresh now b2 = xs)"
proof -
  let ?k = "length (takeWhile (stale now b) (cb_queue b))"
  have len: "length (spooled b) = length (cb_queue b)" by (simp add: spooled_def)
  note z = zip_fresh [OF len, of "stale now b"]
  obtain e q' where e: "dropWhile (stale now b) (cb_queue b) = e # q'"
    using assms(3) z by (cases "dropWhile (stale now b) (cb_queue b)") (auto simp: fresh_def)
  have q: "cb_queue b = takeWhile (stale now b) (cb_queue b) @ e # q'"
    using takeWhile_dropWhile_id [of "stale now b" "cb_queue b"] by (simp only: e)
  then have at: "cb_queue b ! ?k = e" using nth_append_length by metis
  have k: "?k < length (cb_queue b)" using arg_cong [OF q, of length] by simp
  have "e \<in> set (cb_queue b)" using at nth_mem [OF k] by simp
  then obtain bf where bf: "map_of (cb_disk b) (qe_path e) = Some (FrameFile bf)"
    using assms(1) by (auto simp: cbinv_def entry_ok_def)
  have x: "x = spooled b ! ?k" "xs = map snd (filter (\<lambda>(e, x). \<not> stale now b e) (drop (Suc ?k) (zip (cb_queue b) (spooled b))))"
    using assms(3) z e by (auto simp: fresh_def)
  then have "x = Some (FrameFile bf)" using at k bf by (simp add: spooled_def)
  moreover have rd: "readEntry os (cb_disk b) (qe_path e) = Some bf" using assms(2) bf by (simp add: readEntry_def os_ok_def)
  obtain p b1 where p: "Buffer_Peek os now b = (p, b1)" by fastforce
  have pk: "shrunk ?k b b1" "cb_max_age b1 = cb_max_age b" "p = Some bf"
    using Peek_ok [OF assms(1,2), of now] p e rd by simp_all
  moreover have "cb_queue b1 \<noteq> []" using pk(1) k by (simp add: shrunk_def)
  moreover have "fresh now b2 = xs" if "shrunk 1 b1 b2" "cb_max_age b2 = cb_max_age b1" for b2
    using fresh_shrunk [OF shrunk_trans [OF pk(1) that(1)], of now] that(2) pk(2) x(2) by simp
  ultimately show ?thesis using p by (auto simp: shrunk_def)
qed

lemma limiter_frame:
  "sk_limiter (upload_begin s) = sk_limiter s" "sk_limiter (upload_end now lu jpeg res s) = sk_limiter s"
  "sk_limiter (spool_advance os s) = sk_limiter s" "sk_limiter (s\<lparr>sk_buffer := ob\<rparr>) = sk_limiter s"
  by (simp_all add: upload_begin_def upload_end_def Let_def spool_advance_def publishStatus_def split: option.split)

lemma advance_front:
  assumes "cbinv b" "os_ok os" "cb_queue b \<noteq> []"
  shows "shrunk 1 b (Advance os b)" "shrunk 1 b (Discard os b)"
    "cb_max_age (Advance os b) = cb_max_age b" "cb_max_age (Discard os b) = cb_max_age b"
  using Advance_shrunk [OF assms(1,2)] assms(3) by (simp_all add: Advance_def Discard_def removeFrontLocked_def Let_def)

text \<open>One round settles the first fresh entry, and the stale ones in front of it are dropped.\<close>

lemma drain_round_front:
  assumes "ready b y" "os_ok os" "fresh now b = x # xs"
  shows "\<exists>y' b'. run_events env (drain_round os now) y = Some y' \<and> ready b' y' \<and> fresh now b' = xs \<and>
    ss_confirmed y' = ss_confirmed y @ entry_posts env x"
proof -
  have cb: "cbinv b" using assms(1) by (simp add: ready_def)
  obtain bf b1 where bf: "Buffer_Peek os now b = (Some bf, b1)" "x = Some (FrameFile bf)" "cbinv b1" "cb_queue b1 \<noteq> []"
      "\<And>b2. shrunk 1 b1 b2 \<Longrightarrow> cb_max_age b2 = cb_max_age b1 \<Longrightarrow> fresh now b2 = xs"
    using peek_fresh [OF cb assms(2,3)] by blast
  note adv = advance_front [OF bf(3) assms(2) bf(4)]
  have wake: "drain_wake os now (ss_backoff y) (ss_sink y) =
      (DPost bf, ss_backoff y, replay_begin bf ((ss_sink y)\<lparr>sk_buffer := Some b1\<rparr>))"
    using assms(1) bf(1) by (simp add: drain_wake_def ready_def)
  let ?s = "replay_begin bf ((ss_sink y)\<lparr>sk_buffer := Some b1\<rparr>)"
  have res: "post_result (DoAnswer 200 None) = None" by (simp add: post_result_def classifyFrameStatusWithHeader_def)
  obtain r s1 where re: "replay_end env now 0 (DoAnswer 200 None) bf ?s = (r, s1)" by fastforce
  have lim: "sk_limiter s1 = None"
    using re assms(1) res by (auto simp: replay_end_def uploadANPR_def replay_begin_def limiter_frame ready_def split: if_splits)
  have "sk_buffer (snd (replay_end env now 0 (DoAnswer 200 None) bf ?s)) = Some b1"
    by (simp add: replay_end_buffer replay_begin_buffer)
  then have lim: "sk_limiter s1 = None" "sk_buffer s1 = Some b1" using re lim by simp_all
  show ?thesis
  proof (cases "bf_kind bf = KindAnprCandidate \<and> \<not> sender_anpr env")
    case True
    then have r: "r = Some (PlainError, False)" and none: "replay_post env bf = None"
      using re by (auto simp: replay_end_def replay_post_def)
    then have "drain_settle os r (ss_backoff y) s1 = (DSleep, 0, spool_discard os s1)"
      by (simp add: drain_settle_def isRecoverable_def)
    then show ?thesis using assms(1) wake re lim r none adv(2,4) bf(2) bf(5) [OF adv(2,4)]
      by (intro exI [of _ "y\<lparr>ss_sink := spool_discard os s1, ss_drain := DSleep, ss_backoff := 0\<rparr>"] exI [of _ "Discard os b1"])
        (auto simp: drain_round_def ready_def spool_discard_def entry_posts_def shrunk_def Let_def)
  next
    case False
    then have r: "r = None" using re res by (auto simp: replay_end_def uploadANPR_def split: if_splits)
    then have "drain_settle os r (ss_backoff y) s1 = (DSleep, 0, spool_advance os s1)" by (simp add: drain_settle_def)
    then show ?thesis using assms(1) wake re lim r adv(1,3) bf(2) bf(5) [OF adv(1,3)]
      by (intro exI [of _ "y\<lparr>ss_sink := spool_advance os s1, ss_drain := DSleep, ss_backoff := 0,
            ss_confirmed := ss_confirmed y @ entry_posts env x\<rparr>"] exI [of _ "Advance os b1"])
        (auto simp: drain_round_def ready_def spool_advance_def entry_posts_def shrunk_def Let_def)
  qed
qed

text \<open>A wake-up over a spool of stale entries empties it.\<close>

lemma wake_empties:
  assumes "ready b y" "os_ok os" "fresh now b = []"
  shows "\<exists>y' b'. run_events env [EvDrainWake os now] y = Some y' \<and> ready b' y' \<and> cb_queue b' = [] \<and> ss_confirmed y' = ss_confirmed y"
proof -
  have cb: "cbinv b" using assms(1) by (simp add: ready_def)
  have len: "length (spooled b) = length (cb_queue b)" by (simp add: spooled_def)
  have none: "dropWhile (stale now b) (cb_queue b) = []"
    using assms(3) zip_fresh [OF len, of "stale now b"] by (auto simp: fresh_def split: list.splits)
  then have all: "takeWhile (stale now b) (cb_queue b) = cb_queue b"
    using takeWhile_dropWhile_id [of "stale now b" "cb_queue b"] by simp
  obtain p b1 where p: "Buffer_Peek os now b = (p, b1)" by fastforce
  then have "p = None" "shrunk (length (cb_queue b)) b b1" using Peek_ok [OF cb assms(2), of now] none all by simp_all
  then show ?thesis using assms(1) p by (auto simp: drain_wake_def ready_def shrunk_def)
qed

fun drain_rounds :: "spool_os \<Rightarrow> gotime \<Rightarrow> nat \<Rightarrow> sink_event list" where
  "drain_rounds os now 0 = []"
| "drain_rounds os now (Suc n) = drain_round os now @ drain_rounds os now n"

lemma run_events_append:
  "run_events env (es @ fs) y = (case run_events env es y of None \<Rightarrow> None | Some y' \<Rightarrow> run_events env fs y')"
  by (induction es arbitrary: y) (auto split: option.split)


definition sample_spool :: cbuffer where
  "sample_spool = snd (Buffer_Enqueue sample_os (sample_frame 2) (snd (Buffer_Enqueue sample_os (sample_frame 1) (empty_spool 1000 5 0))))"

lemma sample_spool_ok: "cbinv sample_spool"
proof -
  have "cbinv (snd (Buffer_Enqueue sample_os (sample_frame 1) (empty_spool 1000 5 0)))"
    using Enqueue_ok [of "empty_spool 1000 5 0" sample_os "sample_frame 1"] empty_spool_ok by (simp add: empty_spool_def)
  moreover have "cb_counter (snd (Buffer_Enqueue sample_os (sample_frame 1) (empty_spool 1000 5 0))) + 1 < 2 ^ 64"
    by (simp add: Buffer_Enqueue_def writeAtomic_def sample_os_def empty_spool_def sample_frame_def wrap_u64_def Let_def)
  ultimately show ?thesis unfolding sample_spool_def using Enqueue_ok by blast
qed


end
