(* ===== verification/Router.thy ===== *)
theory Router
  imports Edge_Prelude "HOL-Library.Sublist"
begin

text \<open>
  \<open>internal/processing/router.go\<close>: the fan-out of frames to the sinks, one bounded queue and one worker per sink, and the
  debug sink. A full queue drops the frame for its sink only. The theorem shows that each sink receives a part of the
  dispatched frames in their order, that every frame is delivered, queued or counted as dropped, and that the sinks do
  not influence each other.
\<close>

section \<open>State\<close>

text \<open>One element per sink: its name, the buffered channel and the drop counter. \<open>rq_routed\<close> is the history of the frames the
  worker has taken and handed to the sink's \<open>Route\<close>.\<close>

record 'f sink_queue =
  rq_name :: string
  rq_chan :: "'f list"
  rq_dropped :: nat
  rq_routed :: "'f list"

record 'f router =
  rt_cap :: nat
  rt_sinks :: "'f sink_queue list"
  rt_stopped :: bool

definition NewRouter :: "string list \<Rightarrow> int \<Rightarrow> 'f router" where
  "NewRouter names queueDepth =
     \<lparr>rt_cap = nat (if queueDepth \<le> 0 then 1 else queueDepth),
      rt_sinks = map (\<lambda>n. \<lparr>rq_name = n, rq_chan = [], rq_dropped = 0, rq_routed = []\<rparr>) names, rt_stopped = False\<rparr>"

section \<open>Operations\<close>

text \<open>The non-blocking send of \<open>Dispatch\<close>.\<close>

definition try_send :: "nat \<Rightarrow> 'f \<Rightarrow> 'f sink_queue \<Rightarrow> 'f sink_queue" where
  "try_send cap f q =
     (if length (rq_chan q) < cap then q\<lparr>rq_chan := rq_chan q @ [f]\<rparr> else q\<lparr>rq_dropped := rq_dropped q + 1\<rparr>)"

definition Dispatch :: "'f \<Rightarrow> 'f router \<Rightarrow> 'f router" where
  "Dispatch f r = r\<lparr>rt_sinks := map (try_send (rt_cap r) f) (rt_sinks r)\<rparr>"

text \<open>One turn of the worker of sink \<open>i\<close>: it takes a frame and routes it (an error is only logged). After \<open>Stop\<close> a worker may
  still take a frame, since \<open>select\<close> picks among the ready cases; a stopped worker takes no turn.\<close>

definition take_one :: "'f sink_queue \<Rightarrow> 'f sink_queue" where
  "take_one q = (case rq_chan q of [] \<Rightarrow> q | f # fs \<Rightarrow> q\<lparr>rq_chan := fs, rq_routed := rq_routed q @ [f]\<rparr>)"

definition worker_turn :: "nat \<Rightarrow> 'f router \<Rightarrow> 'f router" where
  "worker_turn i r = (if i < length (rt_sinks r) then r\<lparr>rt_sinks := (rt_sinks r)[i := take_one (rt_sinks r ! i)]\<rparr> else r)"

definition Router_Stop :: "'f router \<Rightarrow> 'f router" where
  "Router_Stop r = r\<lparr>rt_stopped := True\<rparr>"

definition Dropped :: "string \<Rightarrow> 'f router \<Rightarrow> nat" where
  "Dropped name r = (case List.find (\<lambda>q. rq_name q = name) (rt_sinks r) of None \<Rightarrow> 0 | Some q \<Rightarrow> rq_dropped q)"

record queue_stats =
  rqs_SinkName :: string
  rqs_Depth :: nat
  rqs_Capacity :: nat
  rqs_Drops :: nat

definition QueueStats :: "'f router \<Rightarrow> queue_stats list" where
  "QueueStats r = map (\<lambda>q. \<lparr>rqs_SinkName = rq_name q, rqs_Depth = length (rq_chan q), rqs_Capacity = rt_cap r,
     rqs_Drops = rq_dropped q\<rparr>) (rt_sinks r)"

text \<open>\<open>DebugSink\<close>: a count and the last frame.\<close>

record 'f debug_sink =
  dbg_count :: nat
  dbg_last :: "'f option"

definition NewDebugSink :: "'f debug_sink" where
  "NewDebugSink = \<lparr>dbg_count = 0, dbg_last = None\<rparr>"

definition DebugSink_Route :: "'f \<Rightarrow> 'f debug_sink \<Rightarrow> 'f debug_sink" where
  "DebugSink_Route f d = d\<lparr>dbg_count := dbg_count d + 1, dbg_last := Some f\<rparr>"

datatype 'f router_event = EvDispatch 'f | EvWorker nat | EvStop

fun router_step :: "'f router_event \<Rightarrow> 'f router \<Rightarrow> 'f router" where
  "router_step (EvDispatch f) r = Dispatch f r"
| "router_step (EvWorker i) r = worker_turn i r"
| "router_step EvStop r = Router_Stop r"

section \<open>Every frame is accounted for\<close>

definition dispatched :: "'f router_event list \<Rightarrow> 'f list" where
  "dispatched es = concat (map (\<lambda>e. case e of EvDispatch f \<Rightarrow> [f] | _ \<Rightarrow> []) es)"

definition queue_ok :: "nat \<Rightarrow> 'f list \<Rightarrow> 'f sink_queue \<Rightarrow> bool" where
  "queue_ok cap fs q \<longleftrightarrow> subseq (rq_routed q @ rq_chan q) fs \<and> length (rq_chan q) \<le> cap \<and>
     length fs = length (rq_routed q) + length (rq_chan q) + rq_dropped q"

lemma try_send_ok: "queue_ok cap fs q \<Longrightarrow> queue_ok cap (fs @ [f]) (try_send cap f q)"
proof -
  assume ok: "queue_ok cap fs q"
  then have "subseq ((rq_routed q @ rq_chan q) @ [f]) (fs @ [f])" "subseq ((rq_routed q @ rq_chan q) @ []) (fs @ [f])"
    by (intro list_emb_append_mono; simp add: queue_ok_def)+
  then show ?thesis using ok by (simp add: queue_ok_def try_send_def)
qed

lemma take_one_ok: "queue_ok cap fs q \<Longrightarrow> queue_ok cap fs (take_one q)"
  by (auto simp: queue_ok_def take_one_def split: list.split)

lemma router_cap: "rt_cap (fold router_step es r) = rt_cap r"
proof (induction es arbitrary: r)
  case (Cons e es)
  then show ?case by (cases e) (simp_all add: Dispatch_def worker_turn_def Router_Stop_def)
qed simp

lemma router_queues_ok:
  "\<forall>q \<in> set (rt_sinks (fold router_step es r)). queue_ok (rt_cap r) (dispatched es) q"
  if "\<forall>q \<in> set (rt_sinks r). queue_ok (rt_cap r) [] q"
proof (induction es rule: rev_induct)
  case Nil
  then show ?case using that by (simp add: dispatched_def)
next
  case (snoc e es)
  then show ?case
    by (cases e) (auto simp: router_cap dispatched_def Dispatch_def worker_turn_def Router_Stop_def try_send_ok take_one_ok
        dest!: set_update_subset_insert [THEN subsetD])
qed

text \<open>Whatever the order of dispatches and worker turns, each sink has been given a part of the dispatched frames in the
  order of their dispatch, its queue is within its depth, and the frames dispatched are those routed to it, those
  waiting in its queue and those it counts as dropped.\<close>

theorem router_delivers_in_order:
  assumes "q \<in> set (rt_sinks (fold router_step es (NewRouter names d)))"
  shows "subseq (rq_routed q) (dispatched es) \<and> length (rq_chan q) \<le> nat (max 1 d) \<and>
    length (dispatched es) = length (rq_routed q) + length (rq_chan q) + rq_dropped q"
proof -
  have ok: "queue_ok (rt_cap (NewRouter names d :: 'a router)) (dispatched es) q" using router_queues_ok [of "NewRouter names d" es] assms
    by (auto simp: NewRouter_def queue_ok_def)
  then have "subseq (rq_routed q) (rq_routed q @ rq_chan q)" "subseq (rq_routed q @ rq_chan q) (dispatched es)"
    by (simp_all add: queue_ok_def list_emb_prefix)
  then have "subseq (rq_routed q) (dispatched es)" by (rule subseq_order.trans)
  then show ?thesis using ok by (simp add: queue_ok_def NewRouter_def max_def split: if_splits)
qed

definition same_at :: "nat \<Rightarrow> 'f router \<Rightarrow> 'f router \<Rightarrow> bool" where
  "same_at i r r' \<longleftrightarrow> rt_sinks r ! i = rt_sinks r' ! i \<and> rt_cap r = rt_cap r' \<and> i < length (rt_sinks r) \<and> i < length (rt_sinks r')"

definition concerns :: "nat \<Rightarrow> 'f router_event \<Rightarrow> bool" where
  "concerns i e \<longleftrightarrow> (\<forall>j. e = EvWorker j \<longrightarrow> j = i)"

lemma step_same: "same_at i r r' \<Longrightarrow> same_at i (router_step e r) (if concerns i e then router_step e r' else r')"
  by (cases e) (auto simp: same_at_def concerns_def Dispatch_def worker_turn_def Router_Stop_def)

lemma run_same: "same_at i r r' \<Longrightarrow> same_at i (fold router_step es r) (fold router_step (filter (concerns i) es) r')"
proof (induction es arbitrary: r r')
  case (Cons e es)
  then show ?case using step_same [OF Cons.prems, of e] by auto
qed simp

text \<open>A sink sees only the dispatches and the turns of its own worker: how fast the others are makes no difference.\<close>

theorem sinks_do_not_interfere:
  assumes "i < length names" "filter (concerns i) es = filter (concerns i) es'"
  shows "rt_sinks (fold router_step es (NewRouter names d)) ! i = rt_sinks (fold router_step es' (NewRouter names d)) ! i"
proof -
  have "same_at i (NewRouter names d :: 'a router) (NewRouter names d)" using assms(1) by (simp add: same_at_def NewRouter_def)
  from run_same [OF this, of es] run_same [OF this, of es'] show ?thesis using assms(2) by (simp add: same_at_def)
qed

end
