(* ===== verification/Spec2Isabelle.thy ===== *)
theory Spec2Isabelle
  imports Backlog_Progress Depack_Reassembly RingBuffer CloudBuffer_Props CloudRate
    Inference_Sched RemoteConfig_Lifecycle AuditJournal_Recovery AuditJournal_Redaction Control_Run FullEdge_Backlog
    Sampler MotionGate_Props Anpr_Consume Ota_Props CloudSink_Drain Router
begin

text \<open>
  Verification of the runtime packages of GEO CAM Edge, the agent that runs beside the cameras of a
  site (Go, \<open>src/internal\<close>).

  \<^bold>\<open>The program.\<close> Cameras are read over RTSP; package \<open>processing\<close> turns RTP packets into access
  units, decodes, samples and routes frames. In cloud and hybrid mode \<open>cloudsink\<close> spools sampled frames
  on disk and uploads them under a bandwidth limit; in edge mode a local vision worker runs inference
  on as many frames per camera as \<open>inference\<close> grants, and the detected events go through the durable
  backlog of \<open>edgebacklog\<close> to the SaaS: \<open>fulledge\<close> makes one event per visit of an object, stores events
  and evidence and bounds what they occupy. \<open>remoteconfig\<close> applies configuration documents assigned by the
  SaaS to this runtime, \<open>control\<close> executes its commands at most once, \<open>auditjournal\<close> keeps the record of both.
  \<open>anpr\<close> groups detected vehicles into bursts for plate reading and boosts the sampling meanwhile; \<open>ota\<close> verifies and
  stages updates.
  \<open>transport\<close> classifies the answers of the SaaS, \<open>platform\<close> the errors of the disk.

  \<^bold>\<open>Conventions.\<close> Structs are records, enums and error values datatypes, pointers options. Go maps are
  association lists with distinct keys, or functions where the code only reads them with a default.
  \<open>int\<close> and \<open>int64\<close> are \<open>int\<close> with \<open>wrap64\<close> where a value can leave the range; bytes are \<open>8 word\<close>, RTP
  fields words of their width. \<open>float64\<close> is \<open>rat\<close>: the models of the limiter and of the inference
  scheduler compute exactly, rounding is outside them. A method under a mutex is one step. What the
  operating system, the clock, the JSON library, a sink or a worker answers is an argument, and the
  statements quantify over it. Indexing is checked: a model returns \<open>None\<close> where Go would panic.
  Loops are structural or have a termination measure, with two exceptions: the JSON parser of \<open>Go_Json\<close> takes
  more than twice the length of its input as fuel, and \<open>parse_value_fuel\<close> shows that more changes nothing, and the
  eviction loop of the deduper is a \<open>partial_function\<close>, proved to return in every reachable state. SHA-256,
  Ed25519 and the tar reader are arguments. Pixel averages, thresholds and crop boxes are exact rationals as well.

  \<^bold>\<open>Theories.\<close>

  \<^item> \<open>Edge_Prelude\<close>: Go integers, time, strings, decimal numbers, list and association-list lemmas, and
    the locale \<open>machine\<close> (initial states, steps, invariant) which every step relation below
    interprets.
  \<^item> \<open>Transport\<close>: \<open>transport/client.go\<close>, \<open>transport/local_events.go\<close>: HTTP status and \<open>Retry-After\<close> to error
    classes.
  \<^item> \<open>Backlog_Model\<close>, \<open>Backlog\<close>, \<open>Backlog_Recovery\<close>, \<open>Backlog_Props\<close>, \<open>Backlog_Progress\<close>:
    \<open>edgebacklog/backlog.go\<close>, \<open>pending_reader.go\<close> and \<open>platform/diskfull*.go\<close>. Queue, quarantine and
    inactive-camera marks together with their files; recovery after a crash at any file operation,
    the queue invariant, order per camera, capacity, retry delays, when a record may leave, and that the
    queue drains.
  \<^item> \<open>Rtp\<close>, \<open>RingBuffer\<close>: \<open>processing/rtp.go\<close>, \<open>ringbuffer.go\<close>: the header parser never reads outside
    the packet and reads back RFC 3550 packets; the circular buffer holds the newest frames (locale
    \<open>newest_queue\<close>).
  \<^item> \<open>Depacketizer\<close>, \<open>Depack_Bounds\<close>, \<open>Depack_Reassembly\<close>: \<open>processing/depacketizer.go\<close> and
    \<open>depacketizer_h265.go\<close>: bounded memory and no panic for any packets (locale \<open>rtp_depacketizer\<close>, both
    codecs), round trips of fragmentation and aggregation, loss.
  \<^item> \<open>CloudBuffer\<close>, \<open>CloudBuffer_Props\<close>: \<open>cloudsink/buffer.go\<close>: the spool is a bounded queue across
    operations and restarts (locale \<open>fifo_flow\<close>).
  \<^item> \<open>CloudRate\<close>: \<open>cloudsink/limiter.go\<close>, \<open>rate.go\<close>: the token bucket's rate bound, that a waiting
    request is served, and the rolling rate.
  \<^item> \<open>CloudSink\<close>, \<open>CloudSink_Sys\<close>, \<open>CloudSink_Props\<close>, \<open>CloudSink_Drain\<close>: \<open>cloudsink/cloudsink.go\<close> over the spool and the
    limiter. \<open>Route\<close>, \<open>EnqueueANPRCandidate\<close> and \<open>drainLoop\<close> are cut at their accesses to shared state and interleaved: the
    frames of a camera are confirmed in order, waits are bounded, counters add up, frames leave the spool only for a
    reason, and it drains.
  \<^item> \<open>Router\<close>: \<open>processing/router.go\<close>: each sink gets its frames in order, every drop is counted, sinks do not interfere.
  \<^item> \<open>Inference\<close>, \<open>Inference_Props\<close>, \<open>Inference_Sched\<close>: \<open>inference/controller.go\<close>, \<open>capacity.go\<close>,
    \<open>manager.go\<close>. Water filling computes the weighted level; \<open>allocate\<close> relies on it through the locale
    \<open>fair_share\<close>; ticks of a reachable Manager keep guaranteed rates and capacity; controllers stay in
    their policy and come back to idle.
  \<^item> \<open>RemoteConfig\<close>, \<open>RemoteConfig_Adapter\<close>, \<open>RemoteConfig_Props\<close>: \<open>remoteconfig/types.go\<close>,
    \<open>adapter.go\<close>, the operations of \<open>processing/manager.go\<close> the adapter drives, and the plate-reading
    authorizer of \<open>agent\<close> that reads its result. What an accepted document guarantees and what
    applying it does to every pipeline.
  \<^item> \<open>RemoteConfig_Engine\<close>, \<open>RemoteConfig_Lifecycle\<close>: \<open>remoteconfig/engine.go\<close>, \<open>store.go\<close>,
    \<open>contract.go\<close>, \<open>sanitize.go\<close>, \<open>module.go\<close>. The staged apply with failing saves and crashes; the engine
    relies on the adapter through the locale \<open>adapter_contract\<close>, which the runtime adapter of
    \<open>RemoteConfig_Adapter\<close> interprets.
  \<^item> \<open>Go_Json\<close>, \<open>Go_Json_Torn\<close>: what \<open>encoding/json\<close> writes and reads, with the round trip the journal needs, and
    that an object cut off anywhere and followed by another one does not parse.
  \<^item> \<open>AuditJournal\<close>, \<open>AuditJournal_Props\<close>, \<open>AuditJournal_Recovery\<close>, \<open>AuditJournal_Redaction\<close>:
    \<open>auditjournal/\<close>. The hash chain fixes its records up to collisions of SHA-256; recovery after a crash
    that tears a line; what a failed write or sync does to later appends; what redaction leaves of a reason.
  \<^item> \<open>Control\<close>, \<open>Control_Props\<close>, \<open>Control_Run\<close>: \<open>control/ledger.go\<close>, \<open>module.go\<close>: commands over failing
    saves, crashes and restarts; the polling loop.
  \<^item> \<open>FullEdge\<close>, \<open>FullEdge_Dedup\<close>: \<open>fulledge/contract.go\<close>, \<open>events.go\<close>, \<open>dedup.go\<close>. The deduper returns
    in every reachable state and, on tracked objects, refines a table of last sightings.
  \<^item> \<open>FullEdge_Store\<close>, \<open>FullEdge_Retention\<close>, \<open>FullEdge_Service\<close>, \<open>FullEdge_Keep\<close>, \<open>FullEdge_Props\<close>,
    \<open>FullEdge_Backlog\<close>:
    \<open>fulledge/store.go\<close>, \<open>limits.go\<close>, \<open>evidence.go\<close>, \<open>retention.go\<close>, \<open>service.go\<close> and the consumer in
    \<open>agent/fulledge_wiring.go\<close>. The pending counter and the failing reads that make it wrong, the eviction plan, what a
    sweep keeps, and two ways an event is lost. \<open>FullEdge_Backlog\<close> joins retention to the backlog: a sweep leaves all that any
    reachable queue still refers to.
  \<^item> \<open>Sampler\<close>: \<open>processing/sampler.go\<close>: the configured rate is a ceiling, the paced schedule does not drift.
  \<^item> \<open>Motion\<close>, \<open>MotionGate\<close>, \<open>MotionGate_Props\<close>: \<open>processing/motion.go\<close>, \<open>motiongate.go\<close>: no frame makes detector or gate
    index out of range, the gate's hysteresis, lighting changes, and regions that blind it.
  \<^item> \<open>Anpr\<close>, \<open>Anpr_Props\<close>, \<open>Anpr_Boost\<close>, \<open>Anpr_Consume\<close>: \<open>anpr/\<close> (bursts, ranking, crops, registry),
    \<open>agent/anpr_sampling.go\<close> and the consumer in \<open>agent/fulledge_wiring.go\<close>: bounds, boosts that end with their burst, crops
    inside the frame.
  \<^item> \<open>Ota\<close>, \<open>Ota_Stage\<close>, \<open>Ota_Props\<close>: \<open>ota/version.go\<close>, \<open>verify.go\<close>, \<open>download.go\<close>, \<open>module.go\<close>: versions, verification of a
    release and its staging over failing calls and crashes, the \<open>Stat\<close> of the marker and the \<open>Lstat\<close> of the destination
    included.

  \<^bold>\<open>What the proofs found.\<close> Several properties state behaviour that contradicts a comment or the evident
  intent: quarantine files overwritten after a restart, resubmission refused after a restart, partial
  access units delivered after a loss, frames evicted at a restart within unchanged limits, plate
  reading never allowed, a rollback that keeps the failed mode, camera rates lost when a pipeline
  restarts, a lowered idle rate that is ignored, an overload floor above the capacity, a journal that
  does not open after a reason was cut inside a character, a write failed part-way or a sync failed, a pending
  counter put wrong by an unreadable file or by a sweep that overlaps a synchronisation, a new event deleted by the
  sweep that follows its creation, an event never created because its first write failed,
  a motion gate blinded by a narrow region, all vehicles of a frame but one dropped by plate reading (unless an upload
  outlasts the burst), bursts that are never removed, a staged update deleted because its identifier ends in \<open>.previous\<close>,
  and one moved aside because the \<open>Stat\<close> of its marker failed.

  \<^bold>\<open>Limits of single definitions.\<close> \<open>Open\<close> of the backlog leaves out failing \<open>MkdirAll\<close> and \<open>ReadDir\<close>, and
  \<open>LoadPendingReferences\<close> failing reads: the code then returns an error and neither a backlog nor a sweep runs. \<open>fps_interval\<close>
  is the exact floor, where the code's conversion to \<open>int64\<close> is out of range for rates below about \<open>1e-10\<close>.
  \<open>sampler_hint\<close> is the only writer of a target rate: remote configuration and pipelines that start or stop during a
  boost are outside it. \<open>consumeAnprCandidates\<close> leaves out the extraction and the upload of a crop except for the time they
  take. In the runs of the event store a retention sweep is one step, and saves and restarts can read the pending files.

  \<^bold>\<open>Not modelled.\<close> The entry point and the installer (they drive package and service managers), the
  environment configuration, health and performance reporting (counters), decoding (goroutines around
  an external ffmpeg), RTSP and discovery (network protocols), and the wiring of \<open>agent\<close>.
\<close>

end
